(* ===== verification/Prelude.thy ===== *)
theory Prelude
  imports Main "HOL-Library.Word" "HOL-Library.Monad_Syntax"
begin

unbundle bit_operations_syntax

text \<open>
  Types, lemma collections and generic facts shared by the theories of the development:
  byte strings, numerals in a base, rounding of a quotient to the nearest integer, and
  cyclic index arithmetic. No definition here models a particular C function.
\<close>

section \<open>Types\<close>

type_synonym byte = "8 word"
type_synonym bytes = "byte list"
type_synonym u16 = "16 word"
type_synonym u32 = "32 word"
type_synonym addr = nat

text \<open>Facts that unfold handlers of the machine, and facts that the invariants rest on.\<close>

named_theorems handler_defs
named_theorems wf_intros

definition bytes_of :: "string \<Rightarrow> bytes" where
  "bytes_of s = map of_char s"

definition digit_byte :: "nat \<Rightarrow> byte" where
  "digit_byte d = of_nat (48 + d)"

section \<open>Reading an option out of a list\<close>

definition at :: "'a list \<Rightarrow> nat \<Rightarrow> 'a option" where
  "at xs i = (if i < length xs then Some (xs ! i) else None)"

lemma at_Some_iff [simp]: "at xs i = Some x \<longleftrightarrow> i < length xs \<and> xs ! i = x"
  by (simp add: at_def)

lemma at_None_iff [simp]: "at xs i = None \<longleftrightarrow> length xs \<le> i"
  by (simp add: at_def)

lemma at_lt: "i < length xs \<Longrightarrow> at xs i = Some (xs ! i)"
  by simp

section \<open>Number of digits in a base\<close>

function numlen :: "int \<Rightarrow> int \<Rightarrow> int" where
  "numlen b n = (if b < 2 \<or> n \<le> 0 then 0 else 1 + numlen b (n div b))"
  by pat_completeness auto
termination
  by (relation "measure (\<lambda>(b, n). nat n)") (auto simp: nat_less_iff intro: int_div_less_self)

declare numlen.simps [simp del]

lemma numlen_nonpos [simp]: "n \<le> 0 \<Longrightarrow> numlen b n = 0"
  by (simp add: numlen.simps)

lemma numlen_pos: "2 \<le> b \<Longrightarrow> 0 < n \<Longrightarrow> numlen b n = 1 + numlen b (n div b)"
  by (simp add: numlen.simps)

lemma numlen_ge0 [simp]: "0 \<le> numlen b n"
  by (induction b n rule: numlen.induct) (subst numlen.simps, simp)

lemma less_numlen: "2 \<le> b \<Longrightarrow> n < b ^ nat (numlen b n)"
proof (induction b n rule: numlen.induct)
  case (1 b n)
  show ?case
  proof (cases "n \<le> 0")
    case True
    then show ?thesis by simp
  next
    case False
    with 1 have IH: "n div b + 1 \<le> b ^ nat (numlen b (n div b))" by simp
    have "n < b * (n div b + 1)"
    proof -
      have "n = b * (n div b) + n mod b" by simp
      moreover have "n mod b < b" using 1(2) by simp
      ultimately show ?thesis unfolding distrib_left by linarith
    qed
    also have "\<dots> \<le> b * b ^ nat (numlen b (n div b))"
      using IH 1(2) by (intro mult_left_mono) auto
    finally show ?thesis using False 1(2) by (simp add: numlen_pos nat_add_distrib)
  qed
qed

lemma numlen_le: "2 \<le> b \<Longrightarrow> 0 < n \<Longrightarrow> b ^ nat (numlen b n - 1) \<le> n"
proof (induction b n rule: numlen.induct)
  case (1 b n)
  show ?case
  proof (cases "n < b")
    case True
    with 1 show ?thesis by (simp add: numlen_pos)
  next
    case False
    with 1(2) have pos: "0 < n div b" by (simp add: pos_imp_zdiv_pos_iff)
    with 1 False have IH: "b ^ nat (numlen b (n div b) - 1) \<le> n div b" by simp
    have "1 \<le> numlen b (n div b)" using pos 1(2) by (simp add: numlen_pos)
    then have k: "nat (numlen b (n div b)) = Suc (nat (numlen b (n div b) - 1))" by simp
    have "b * b ^ nat (numlen b (n div b) - 1) \<le> b * (n div b)"
      using IH 1(2) by (intro mult_left_mono) auto
    also have "\<dots> \<le> n"
      using 1(2) mult_div_mod_eq [of b n] pos_mod_sign [of b n] by linarith
    finally show ?thesis using 1(2,3) k by (simp add: numlen_pos)
  qed
qed

section \<open>Rounding a quotient to the nearest integer, ties to even\<close>

definition rhe :: "int \<Rightarrow> int \<Rightarrow> int" where
  "rhe n d =
     (let q = n div d; r = n mod d
      in if 2 * r < d then q
         else if d < 2 * r then q + 1
         else if even q then q else q + 1)"

lemma rhe_exact: "0 < d \<Longrightarrow> rhe (q * d) d = q"
  by (simp add: rhe_def)

lemma rhe_1 [simp]: "rhe n 1 = n"
  by (simp add: rhe_def)

lemma rhe_scale: "0 < c \<Longrightarrow> 0 < d \<Longrightarrow> rhe (n * c) (d * c) = rhe n d"
  by (simp add: rhe_def Let_def mult.commute [of _ c] mult.assoc [symmetric]
      mult_less_cancel_left_pos flip: mult_mod_right)

section \<open>Cyclic indices\<close>

lemma mod_step: "((h + j) mod c + 1) mod c = (h + Suc j) mod (c::nat)"
  by (simp add: mod_Suc_eq)

lemma mod_cycle_surj:
  assumes "i < (c::nat)"
  shows "\<exists>j<c. (h + j) mod c = i"
proof -
  let ?j = "(i + (c - h mod c)) mod c"
  have le: "h mod c \<le> c" using assms by (simp add: order_less_imp_le)
  have "(h + ?j) mod c = (h mod c + (i + (c - h mod c))) mod c"
    by (simp add: mod_add_left_eq mod_add_right_eq)
  also have "h mod c + (i + (c - h mod c)) = i + c"
    using le by simp
  finally have "(h + ?j) mod c = i" using assms by simp
  moreover have "?j < c" using assms by simp
  ultimately show ?thesis by blast
qed

end
