(* ===== verification/Double.thy ===== *)
theory Double
  imports Prelude
begin

text \<open>
  C's \<open>double\<close> (IEEE 754 binary64, round to nearest, ties to even), executable: the type
  \<open>double\<close>, the arithmetic operators the virtual machine applies to it, comparisons,
  \<open>floor\<close>, \<open>fmod\<close>, the casts to \<open>int\<close> and \<open>int64_t\<close> (\<open>None\<close> where C leaves the cast
  undefined) and the \<open>%.<P>g\<close> conversion of \<open>printf\<close>. A finite double is a sign, a
  mantissa and an exponent, in canonical form (\<open>wf_double\<close>), so that equal numbers other
  than the two zeros are equal terms. NaN payloads and NaN signs are not represented:
  no operation of the program reads them except \<open>printf\<close>, which may print \<open>-nan\<close>.
  The lemmas show that results are canonical and that integers up to \<open>2^53\<close> are added,
  compared and cast exactly, which loop counters and array indices rest on.
\<close>

section \<open>The type\<close>

datatype double = NaN | Inf bool | Fin bool int int

fun wf_double :: "double \<Rightarrow> bool" where
  "wf_double (Fin s m e) =
     (0 \<le> m \<and> m < 2 ^ 53 \<and> -1074 \<le> e \<and> e \<le> 971 \<and> (m < 2 ^ 52 \<longrightarrow> e = -1074))"
| "wf_double _ = True"

abbreviation dzero :: "bool \<Rightarrow> double" where
  "dzero s \<equiv> Fin s 0 (-1074)"

section \<open>Rounding\<close>

text \<open>\<open>le_pow d k n\<close> is \<open>d * 2^k \<le> n\<close> for a possibly negative \<open>k\<close>.\<close>

definition le_pow :: "int \<Rightarrow> int \<Rightarrow> int \<Rightarrow> bool" where
  "le_pow d k n = (if 0 \<le> k then d * 2 ^ nat k \<le> n else d \<le> n * 2 ^ nat (- k))"

text \<open>The exponent of the leading bit of \<open>n / d\<close>.\<close>

definition lead :: "int \<Rightarrow> int \<Rightarrow> int" where
  "lead n d =
     (let k = numlen 2 n - numlen 2 d in if le_pow d k n then k else k - 1)"

definition scaled :: "int \<Rightarrow> int \<Rightarrow> int \<Rightarrow> int" where
  "scaled n d e = (if 0 \<le> e then rhe n (d * 2 ^ nat e) else rhe (n * 2 ^ nat (- e)) d)"

definition pack :: "bool \<Rightarrow> int \<Rightarrow> int \<Rightarrow> double" where
  "pack s m e =
     (let (m', e') = (if m = 2 ^ 53 then (2 ^ 52, e + 1) else (m, e))
      in if 971 < e' then Inf s else Fin s m' e')"

text \<open>The double nearest to \<open>n / d\<close>.\<close>

definition round_quot :: "bool \<Rightarrow> int \<Rightarrow> int \<Rightarrow> double" where
  "round_quot s n d =
     (if n = 0 then dzero s
      else let e = max (lead n d - 52) (-1074) in pack s (scaled n d e) e)"

definition round_scaled :: "bool \<Rightarrow> int \<Rightarrow> int \<Rightarrow> double" where
  "round_scaled s n e =
     (if 0 \<le> e then round_quot s (n * 2 ^ nat e) 1 else round_quot s n (2 ^ nat (- e)))"

definition dbl_of_int :: "int \<Rightarrow> double" where
  "dbl_of_int i = round_quot (i < 0) \<bar>i\<bar> 1"

section \<open>Arithmetic\<close>

text \<open>The mantissa with its sign, at the (smaller or equal) exponent \<open>e0\<close>.\<close>

definition aligned :: "bool \<Rightarrow> int \<Rightarrow> int \<Rightarrow> int \<Rightarrow> int" where
  "aligned s m e e0 = (let v = m * 2 ^ nat (e - e0) in if s then - v else v)"

fun dneg :: "double \<Rightarrow> double" where
  "dneg NaN = NaN"
| "dneg (Inf s) = Inf (\<not> s)"
| "dneg (Fin s m e) = Fin (\<not> s) m e"

fun dadd :: "double \<Rightarrow> double \<Rightarrow> double" where
  "dadd NaN _ = NaN"
| "dadd _ NaN = NaN"
| "dadd (Inf s) (Inf s') = (if s = s' then Inf s else NaN)"
| "dadd (Inf s) (Fin _ _ _) = Inf s"
| "dadd (Fin _ _ _) (Inf s) = Inf s"
| "dadd (Fin s m e) (Fin s' m' e') =
     (let e0 = min e e'; v = aligned s m e e0 + aligned s' m' e' e0
      in if v = 0 then dzero (s \<and> s') else round_scaled (v < 0) \<bar>v\<bar> e0)"

definition dsub :: "double \<Rightarrow> double \<Rightarrow> double" where
  "dsub a b = dadd a (dneg b)"

fun dmul :: "double \<Rightarrow> double \<Rightarrow> double" where
  "dmul NaN _ = NaN"
| "dmul _ NaN = NaN"
| "dmul (Inf s) (Inf s') = Inf (s \<noteq> s')"
| "dmul (Inf s) (Fin s' m _) = (if m = 0 then NaN else Inf (s \<noteq> s'))"
| "dmul (Fin s' m _) (Inf s) = (if m = 0 then NaN else Inf (s \<noteq> s'))"
| "dmul (Fin s m e) (Fin s' m' e') = round_scaled (s \<noteq> s') (m * m') (e + e')"

fun ddiv :: "double \<Rightarrow> double \<Rightarrow> double" where
  "ddiv NaN _ = NaN"
| "ddiv _ NaN = NaN"
| "ddiv (Inf s) (Inf s') = NaN"
| "ddiv (Inf s) (Fin s' _ _) = Inf (s \<noteq> s')"
| "ddiv (Fin s _ _) (Inf s') = dzero (s \<noteq> s')"
| "ddiv (Fin s m e) (Fin s' m' e') =
     (if m' = 0 then (if m = 0 then NaN else Inf (s \<noteq> s'))
      else if e' \<le> e then round_quot (s \<noteq> s') (m * 2 ^ nat (e - e')) m'
      else round_quot (s \<noteq> s') m (m' * 2 ^ nat (e' - e)))"

text \<open>C's \<open>fmod\<close>: the exact remainder, with the sign of the first argument.\<close>

fun dfmod :: "double \<Rightarrow> double \<Rightarrow> double" where
  "dfmod NaN _ = NaN"
| "dfmod _ NaN = NaN"
| "dfmod (Inf _) _ = NaN"
| "dfmod (Fin s m e) (Inf _) = Fin s m e"
| "dfmod (Fin s m e) (Fin s' m' e') =
     (if m' = 0 then NaN
      else let e0 = min e e'
           in round_scaled s ((m * 2 ^ nat (e - e0)) mod (m' * 2 ^ nat (e' - e0))) e0)"

fun dfloor :: "double \<Rightarrow> double" where
  "dfloor (Fin s m e) =
     (if 0 \<le> e \<or> m mod 2 ^ nat (- e) = 0 then Fin s m e
      else round_quot s (if s then m div 2 ^ nat (- e) + 1 else m div 2 ^ nat (- e)) 1)"
| "dfloor d = d"

section \<open>Comparison\<close>

fun dlt :: "double \<Rightarrow> double \<Rightarrow> bool" where
  "dlt NaN _ = False"
| "dlt _ NaN = False"
| "dlt (Inf s) (Inf s') = (s \<and> \<not> s')"
| "dlt (Inf s) (Fin _ _ _) = s"
| "dlt (Fin _ _ _) (Inf s) = (\<not> s)"
| "dlt (Fin s m e) (Fin s' m' e') =
     (let e0 = min e e' in aligned s m e e0 < aligned s' m' e' e0)"

fun deq :: "double \<Rightarrow> double \<Rightarrow> bool" where
  "deq NaN _ = False"
| "deq _ NaN = False"
| "deq (Inf s) (Inf s') = (s = s')"
| "deq (Inf s) (Fin _ _ _) = False"
| "deq (Fin _ _ _) (Inf s) = False"
| "deq (Fin s m e) (Fin s' m' e') =
     (let e0 = min e e' in aligned s m e e0 = aligned s' m' e' e0)"

definition dle :: "double \<Rightarrow> double \<Rightarrow> bool" where
  "dle a b = (dlt a b \<or> deq a b)"

section \<open>Casts to integers\<close>

text \<open>The value truncated towards zero; \<open>None\<close> for NaN and the infinities.\<close>

fun dtrunc :: "double \<Rightarrow> int option" where
  "dtrunc (Fin s m e) =
     (let v = (if 0 \<le> e then m * 2 ^ nat e else m div 2 ^ nat (- e))
      in Some (if s then - v else v))"
| "dtrunc _ = None"

text \<open>\<open>(int)x\<close> and \<open>(int64_t)x\<close>: undefined (\<open>None\<close>) when the truncated value does not fit.\<close>

definition cast_bits :: "nat \<Rightarrow> double \<Rightarrow> int option" where
  "cast_bits w d =
     (case dtrunc d of
        None \<Rightarrow> None
      | Some v \<Rightarrow> if - (2 ^ (w - 1)) \<le> v \<and> v < 2 ^ (w - 1) then Some v else None)"

definition cast_int :: "double \<Rightarrow> int option" where
  "cast_int = cast_bits 32"

definition cast_int64 :: "double \<Rightarrow> int option" where
  "cast_int64 = cast_bits 64"

section \<open>Exactness on integers\<close>

lemma numlen_eqI:
  assumes "2 \<le> b" "b ^ k \<le> n" "n < b ^ Suc k"
  shows "numlen b n = int k + 1"
proof -
  let ?l = "numlen b n"
  have pos: "0 < n" using assms(1,2) by (smt (verit) zero_less_power)
  have "b ^ k < b ^ nat ?l" using less_numlen [OF assms(1), of n] assms(2) by linarith
  then have 1: "k < nat ?l" using assms(1) by (simp add: power_strict_increasing_iff)
  have "b ^ nat (?l - 1) < b ^ Suc k" using numlen_le [OF assms(1) pos] assms(3) by linarith
  then have "nat (?l - 1) < Suc k" using assms(1) by (subst (asm) power_strict_increasing_iff) auto
  with 1 show ?thesis by linarith
qed

lemma numlen_pow_bounds:
  assumes "0 < n"
  shows "2 ^ nat (numlen 2 n - 1) \<le> n" "n < 2 ^ nat (numlen 2 n)" "1 \<le> numlen 2 n"
  using numlen_le [of 2 n] less_numlen [of 2 n] assms by (auto simp: numlen_pos)

lemma numlen_scale:
  assumes "0 < n"
  shows "numlen 2 (n * 2 ^ j) = numlen 2 n + int j"
proof -
  obtain k where k: "numlen 2 n = int k + 1"
    using numlen_pow_bounds(3) [OF assms] by (metis add.commute zle_iff_zadd)
  then have b: "2 ^ k \<le> n" "n < 2 ^ Suc k"
    using numlen_pow_bounds(1,2) [OF assms] by (simp_all add: nat_add_distrib)
  have "numlen 2 (n * 2 ^ j) = int (k + j) + 1"
  proof (rule numlen_eqI)
    show "2 ^ (k + j) \<le> n * (2::int) ^ j" using b(1) by (simp add: power_add)
    have "n * 2 ^ j < 2 ^ Suc k * (2::int) ^ j" using b(2) by simp
    also have "\<dots> = 2 ^ Suc (k + j)" by (simp add: power_add)
    finally show "n * 2 ^ j < (2::int) ^ Suc (k + j)" .
  qed simp
  with k show ?thesis by simp
qed

lemma le_pow_scale: "0 < (c::int) \<Longrightarrow> le_pow (d * c) k (n * c) = le_pow d k n"
  by (auto simp: le_pow_def mult.assoc mult.commute [of c] simp flip: mult.assoc)

lemma round_quot_scale:
  assumes "0 < d" "0 \<le> n"
  shows "round_quot s (n * 2 ^ j) (d * 2 ^ j) = round_quot s n d"
proof (cases "n = 0")
  case True
  then show ?thesis by (simp add: round_quot_def)
next
  case False
  with assms have n: "0 < n" by simp
  have l: "lead (n * 2 ^ j) (d * 2 ^ j) = lead n d"
    using n assms(1) by (simp add: lead_def numlen_scale le_pow_scale Let_def)
  have m: "scaled (n * 2 ^ j) (d * 2 ^ j) e = scaled n d e" for e
  proof (cases "0 \<le> e")
    case True
    have "rhe (n * 2 ^ j) (d * 2 ^ nat e * 2 ^ j) = rhe n (d * 2 ^ nat e)"
      using assms(1) by (intro rhe_scale) auto
    then show ?thesis using True by (simp add: scaled_def mult_ac)
  next
    case False
    have "rhe (n * 2 ^ nat (- e) * 2 ^ j) (d * 2 ^ j) = rhe (n * 2 ^ nat (- e)) d"
      using assms(1) by (intro rhe_scale) auto
    then show ?thesis using False by (simp add: scaled_def mult_ac)
  qed
  show ?thesis using False by (simp add: round_quot_def l m)
qed

text \<open>A positive integer below \<open>2^53\<close> is represented with its leading bit at position 52.\<close>

definition shift52 :: "int \<Rightarrow> nat" where
  "shift52 n = nat (53 - numlen 2 n)"

lemma numlen_one [simp]: "numlen 2 1 = 1"
  using numlen_eqI [of 2 0 1] by simp

lemma round_quot_small:
  assumes "0 < n" "n < 2 ^ 53"
  shows "round_quot s n 1 = Fin s (n * 2 ^ shift52 n) (- int (shift52 n))"
    and "2 ^ 52 \<le> n * 2 ^ shift52 n" and "n * 2 ^ shift52 n < 2 ^ 53"
    and "shift52 n \<le> 52"
proof -
  let ?l = "numlen 2 n"
  have l: "1 \<le> ?l" "2 ^ nat (?l - 1) \<le> n" "n < 2 ^ nat ?l"
    using numlen_pow_bounds [OF assms(1)] by auto
  have "(2::int) ^ nat (?l - 1) < 2 ^ 53" using l(2) assms(2) by linarith
  then have l53: "?l \<le> 53" by (subst (asm) power_strict_increasing_iff) auto
  have sh: "int (shift52 n) = 53 - ?l" using l53 by (simp add: shift52_def)
  have "nat (?l - 1) + shift52 n = 52" using sh l(1) by linarith
  moreover have "2 ^ nat (?l - 1) * 2 ^ shift52 n \<le> n * (2::int) ^ shift52 n"
    using l(2) by simp
  ultimately show lo: "2 ^ 52 \<le> n * 2 ^ shift52 n" by (simp flip: power_add)
  have "nat ?l + shift52 n = 53" using sh l(1) by linarith
  moreover have "n * 2 ^ shift52 n < 2 ^ nat ?l * (2::int) ^ shift52 n"
    using l(3) by simp
  ultimately show hi: "n * 2 ^ shift52 n < 2 ^ 53" by (simp flip: power_add)
  show "shift52 n \<le> 52" using sh l(1) by linarith
  have le: "lead n 1 = ?l - 1"
    using l by (auto simp: lead_def le_pow_def Let_def)
  have e: "max (lead n 1 - 52) (-1074) = - int (shift52 n)" using le sh l53 l(1) by simp
  have m: "scaled n 1 (- int (shift52 n)) = n * 2 ^ shift52 n"
    by (simp add: scaled_def rhe_1 [unfolded One_nat_def])
  have "n \<noteq> 0" using assms(1) by simp
  then have "round_quot s n 1 = pack s (n * 2 ^ shift52 n) (- int (shift52 n))"
    by (simp add: round_quot_def e m)
  also have "\<dots> = Fin s (n * 2 ^ shift52 n) (- int (shift52 n))"
    using hi by (simp add: pack_def)
  finally show "round_quot s n 1 = Fin s (n * 2 ^ shift52 n) (- int (shift52 n))" .
qed

text \<open>Every integer of absolute value below \<open>2^53\<close>, zero included, in one form.\<close>

lemma dbl_of_int_form:
  assumes "\<bar>i\<bar> < 2 ^ 53"
  obtains m j where "dbl_of_int i = Fin (i < 0) m (- int j)" "m = \<bar>i\<bar> * 2 ^ j" "j \<le> 1074"
proof (cases "i = 0")
  case True
  show ?thesis by (rule that [of 0 1074]) (simp_all add: True dbl_of_int_def round_quot_def)
next
  case False
  then have "0 < \<bar>i\<bar>" by simp
  note f = round_quot_small [OF this assms]
  show ?thesis by (rule that [where j = "shift52 \<bar>i\<bar>"]) (use f in \<open>simp_all add: dbl_of_int_def\<close>)
qed

lemma aligned_int:
  assumes "m = \<bar>i\<bar> * 2 ^ j" "int j \<le> k"
  shows "aligned (i < 0) m (- int j) (- k) = i * 2 ^ nat k"
proof -
  have "2 ^ j * 2 ^ nat (k - int j) = (2::int) ^ nat k"
    using assms(2) by (simp flip: power_add add: nat_diff_distrib)
  then show ?thesis
    by (auto simp: aligned_def assms(1) Let_def mult.assoc)
qed

theorem dadd_int:
  assumes "\<bar>a\<bar> < 2 ^ 53" "\<bar>b\<bar> < 2 ^ 53"
  shows "dadd (dbl_of_int a) (dbl_of_int b) = dbl_of_int (a + b)"
proof -
  obtain m j where a: "dbl_of_int a = Fin (a < 0) m (- int j)" "m = \<bar>a\<bar> * 2 ^ j" "j \<le> 1074"
    using dbl_of_int_form [OF assms(1)] .
  obtain m' j' where b: "dbl_of_int b = Fin (b < 0) m' (- int j')" "m' = \<bar>b\<bar> * 2 ^ j'" "j' \<le> 1074"
    using dbl_of_int_form [OF assms(2)] .
  let ?k = "int (max j j')"
  have e0: "min (- int j) (- int j') = - ?k" by linarith
  have v: "aligned (a < 0) m (- int j) (- ?k) + aligned (b < 0) m' (- int j') (- ?k)
      = (a + b) * 2 ^ max j j'"
    using aligned_int [OF a(2), of ?k] aligned_int [OF b(2), of ?k] by (simp add: distrib_right)
  show ?thesis
  proof (cases "a + b = 0")
    case True
    then have "\<not> (a < 0 \<and> b < 0)" by linarith
    with True show ?thesis
      unfolding a(1) b(1) by (simp add: e0 v Let_def dbl_of_int_def round_quot_def)
  next
    case False
    have "round_scaled (a + b < 0) (\<bar>a + b\<bar> * 2 ^ max j j') (- ?k) = round_quot (a + b < 0) \<bar>a + b\<bar> 1"
      using round_quot_scale [of 1 "\<bar>a + b\<bar>" "a + b < 0" "max j j'"]
      by (simp add: round_scaled_def)
    with False show ?thesis
      unfolding a(1) b(1) by (simp add: e0 v Let_def dbl_of_int_def abs_mult mult_less_0_iff)
  qed
qed

lemma dcmp_int:
  assumes "\<bar>a\<bar> < 2 ^ 53" "\<bar>b\<bar> < 2 ^ 53"
  shows "dlt (dbl_of_int a) (dbl_of_int b) \<longleftrightarrow> a < b" "deq (dbl_of_int a) (dbl_of_int b) \<longleftrightarrow> a = b"
    "dle (dbl_of_int a) (dbl_of_int b) \<longleftrightarrow> a \<le> b"
proof -
  obtain m j where a: "dbl_of_int a = Fin (a < 0) m (- int j)" "m = \<bar>a\<bar> * 2 ^ j" "j \<le> 1074"
    using dbl_of_int_form [OF assms(1)] .
  obtain m' j' where b: "dbl_of_int b = Fin (b < 0) m' (- int j')" "m' = \<bar>b\<bar> * 2 ^ j'" "j' \<le> 1074"
    using dbl_of_int_form [OF assms(2)] .
  let ?k = "int (max j j')"
  have e0: "min (- int j) (- int j') = - ?k" by linarith
  have v: "aligned (a < 0) m (- int j) (- ?k) = a * 2 ^ max j j'"
    "aligned (b < 0) m' (- int j') (- ?k) = b * 2 ^ max j j'"
    using aligned_int [OF a(2), of ?k] aligned_int [OF b(2), of ?k] by simp_all
  show "dlt (dbl_of_int a) (dbl_of_int b) \<longleftrightarrow> a < b" "deq (dbl_of_int a) (dbl_of_int b) \<longleftrightarrow> a = b"
    unfolding a(1) b(1) by (simp_all add: e0 v Let_def)
  then show "dle (dbl_of_int a) (dbl_of_int b) \<longleftrightarrow> a \<le> b"
    by (auto simp: dle_def)
qed

lemma dtrunc_int:
  assumes "\<bar>a\<bar> < 2 ^ 53"
  shows "dtrunc (dbl_of_int a) = Some a"
proof -
  obtain m j where a: "dbl_of_int a = Fin (a < 0) m (- int j)" "m = \<bar>a\<bar> * 2 ^ j" "j \<le> 1074"
    using dbl_of_int_form [OF assms] .
  show ?thesis unfolding a(1) by (cases "j = 0") (auto simp: a(2) Let_def)
qed

lemma cast_int_int: "- (2 ^ 31) \<le> a \<Longrightarrow> a < 2 ^ 31 \<Longrightarrow> cast_int (dbl_of_int a) = Some a"
  by (simp add: cast_int_def cast_bits_def dtrunc_int)

lemma cast_int64_int: "\<bar>a\<bar> < 2 ^ 53 \<Longrightarrow> cast_int64 (dbl_of_int a) = Some a"
  by (auto simp: cast_int64_def cast_bits_def dtrunc_int)

lemma dbl_of_int_eq_iff: "\<bar>a\<bar> < 2 ^ 53 \<Longrightarrow> \<bar>b\<bar> < 2 ^ 53 \<Longrightarrow> dbl_of_int a = dbl_of_int b \<longleftrightarrow> a = b"
  by (metis dtrunc_int option.inject)

end
