(* ===== verification/Value.thy ===== *)
theory Value
  imports Double
begin

text \<open>
  Values (\<open>src/src/value.h\<close>, \<open>src/src/value.c\<close>) and the strings used as table keys
  (\<open>src/src/object.c\<close>, \<open>src/src/object.h\<close>): the tagged value, the growable value
  array of a chunk's constants, the FNV-1a hash, and string objects as the table code sees
  them, which is a pointer together with the immutable contents it points to.
\<close>

section \<open>Values\<close>

datatype val = VNumber double | VNil | VBool bool | VObj addr

definition is_nil :: "val \<Rightarrow> bool" where
  "is_nil v = (case v of VNil \<Rightarrow> True | _ \<Rightarrow> False)"

lemma is_nil_iff [simp]: "is_nil v \<longleftrightarrow> v = VNil"
  by (cases v) (simp_all add: is_nil_def)

lemma is_nil_simps [simp]:
  "is_nil VNil" "\<not> is_nil (VBool b)" "\<not> is_nil (VNumber d)" "\<not> is_nil (VObj a)"
  by simp_all

section \<open>Value arrays\<close>

record value_array =
  va_capacity :: nat
  va_values :: "val list"

definition init_value_array :: value_array where
  "init_value_array = \<lparr>va_capacity = 0, va_values = []\<rparr>"

definition write_value_array :: "value_array \<Rightarrow> val \<Rightarrow> value_array" where
  "write_value_array va v =
     (let cap = (if va_capacity va < length (va_values va) + 1
                 then (if va_capacity va < 8 then 8 else va_capacity va * 2)
                 else va_capacity va)
      in \<lparr>va_capacity = cap, va_values = va_values va @ [v]\<rparr>)"

definition wf_value_array :: "value_array \<Rightarrow> bool" where
  "wf_value_array va \<longleftrightarrow> length (va_values va) \<le> va_capacity va"

lemma wf_init_value_array [simp]: "wf_value_array init_value_array"
  by (simp add: wf_value_array_def init_value_array_def)

lemma wf_write_value_array: "wf_value_array va \<Longrightarrow> wf_value_array (write_value_array va v)"
  by (auto simp: wf_value_array_def write_value_array_def Let_def)

section \<open>Hashed strings\<close>

text \<open>\<open>hash ^= byte; hash *= 16777619\<close>, from the offset basis.\<close>

fun fnv1a :: "u32 \<Rightarrow> bytes \<Rightarrow> u32" where
  "fnv1a h [] = h"
| "fnv1a h (b # bs) = fnv1a ((h XOR ucast b) * 16777619) bs"

definition hash_string :: "bytes \<Rightarrow> u32" where
  "hash_string bs = fnv1a 2166136261 bs"

record skey =
  kaddr :: addr
  kchars :: bytes
  khash :: u32

definition key_length :: "skey \<Rightarrow> nat" where
  "key_length k = length (kchars k)"

text \<open>The key comparison of the table: the same pointer, or equal length, hash and bytes.\<close>

definition same_key :: "skey \<Rightarrow> skey \<Rightarrow> bool" where
  "same_key e k \<longleftrightarrow>
     kaddr e = kaddr k \<or>
     (key_length e = key_length k \<and> khash e = khash k \<and> kchars e = kchars k)"

text \<open>
  A key agrees with the heap's strings \<open>S\<close> (pointer to bytes) when its contents are the ones
  stored at its address and its hash is the hash of those contents, as \<open>copy_string\<close> and
  \<open>take_string\<close> build it. Strings are immutable, so this never changes.
\<close>

definition key_ok :: "(addr \<Rightarrow> bytes) \<Rightarrow> skey \<Rightarrow> bool" where
  "key_ok S k \<longleftrightarrow> kchars k = S (kaddr k) \<and> khash k = hash_string (kchars k)"

lemma same_key_iff: "key_ok S e \<Longrightarrow> key_ok S k \<Longrightarrow> same_key e k \<longleftrightarrow> kchars e = kchars k"
  by (auto simp: same_key_def key_ok_def key_length_def)

lemma key_ok_hash: "key_ok S k \<Longrightarrow> khash k = hash_string (kchars k)"
  by (simp add: key_ok_def)

end
