(* ===== verification/Chunk.thy ===== *)
theory Chunk
  imports Value
begin

text \<open>
  Bytecode (\<open>src/src/chunk.h\<close>, \<open>src/src/chunk.c\<close>): the instruction set, the chunk with its
  line table, constants and inline caches, and the two functions the compiler and the
  optimizer write it with. The C arrays that grow together with \<open>code\<close> are lists here: \<open>code\<close>
  and \<open>lines\<close> hold the first \<open>count\<close> elements, the cache arrays hold all \<open>capacity\<close> of them.
\<close>

section \<open>Instructions\<close>

text \<open>The enumeration \<open>OpCode\<close>: an instruction is the byte that encodes it.\<close>

abbreviation (input) OP_CONSTANT :: byte where "OP_CONSTANT \<equiv> 0"
abbreviation (input) OP_APPEND :: byte where "OP_APPEND \<equiv> 1"
abbreviation (input) OP_ADD :: byte where "OP_ADD \<equiv> 2"
abbreviation (input) OP_ADD_INPLACE :: byte where "OP_ADD_INPLACE \<equiv> 3"
abbreviation (input) OP_ADD_CONST :: byte where "OP_ADD_CONST \<equiv> 4"
abbreviation (input) OP_SUBTRACT :: byte where "OP_SUBTRACT \<equiv> 5"
abbreviation (input) OP_SUB_CONST :: byte where "OP_SUB_CONST \<equiv> 6"
abbreviation (input) OP_MULTIPLY :: byte where "OP_MULTIPLY \<equiv> 7"
abbreviation (input) OP_MUL_CONST :: byte where "OP_MUL_CONST \<equiv> 8"
abbreviation (input) OP_DIVIDE :: byte where "OP_DIVIDE \<equiv> 9"
abbreviation (input) OP_DIV_CONST :: byte where "OP_DIV_CONST \<equiv> 10"
abbreviation (input) OP_NOT :: byte where "OP_NOT \<equiv> 11"
abbreviation (input) OP_NEGATE :: byte where "OP_NEGATE \<equiv> 12"
abbreviation (input) OP_LENGTH :: byte where "OP_LENGTH \<equiv> 13"
abbreviation (input) OP_PRINT :: byte where "OP_PRINT \<equiv> 14"
abbreviation (input) OP_POP :: byte where "OP_POP \<equiv> 15"
abbreviation (input) OP_GET_GLOBAL :: byte where "OP_GET_GLOBAL \<equiv> 16"
abbreviation (input) OP_DEFINE_GLOBAL :: byte where "OP_DEFINE_GLOBAL \<equiv> 17"
abbreviation (input) OP_SET_GLOBAL :: byte where "OP_SET_GLOBAL \<equiv> 18"
abbreviation (input) OP_DELETE_GLOBAL :: byte where "OP_DELETE_GLOBAL \<equiv> 19"
abbreviation (input) OP_GET_LOCAL :: byte where "OP_GET_LOCAL \<equiv> 20"
abbreviation (input) OP_SET_LOCAL :: byte where "OP_SET_LOCAL \<equiv> 21"
abbreviation (input) OP_ADD_SET_LOCAL :: byte where "OP_ADD_SET_LOCAL \<equiv> 22"
abbreviation (input) OP_SUB_SET_LOCAL :: byte where "OP_SUB_SET_LOCAL \<equiv> 23"
abbreviation (input) OP_MUL_SET_LOCAL :: byte where "OP_MUL_SET_LOCAL \<equiv> 24"
abbreviation (input) OP_DIV_SET_LOCAL :: byte where "OP_DIV_SET_LOCAL \<equiv> 25"
abbreviation (input) OP_MOD_SET_LOCAL :: byte where "OP_MOD_SET_LOCAL \<equiv> 26"
abbreviation (input) OP_INC_LOCAL :: byte where "OP_INC_LOCAL \<equiv> 27"
abbreviation (input) OP_SUB_LOCAL_CONST :: byte where "OP_SUB_LOCAL_CONST \<equiv> 28"
abbreviation (input) OP_MUL_LOCAL_CONST :: byte where "OP_MUL_LOCAL_CONST \<equiv> 29"
abbreviation (input) OP_DIV_LOCAL_CONST :: byte where "OP_DIV_LOCAL_CONST \<equiv> 30"
abbreviation (input) OP_MOD_LOCAL_CONST :: byte where "OP_MOD_LOCAL_CONST \<equiv> 31"
abbreviation (input) OP_GET_UPVALUE :: byte where "OP_GET_UPVALUE \<equiv> 32"
abbreviation (input) OP_SET_UPVALUE :: byte where "OP_SET_UPVALUE \<equiv> 33"
abbreviation (input) OP_CLOSE_UPVALUE :: byte where "OP_CLOSE_UPVALUE \<equiv> 34"
abbreviation (input) OP_GET_TABLE :: byte where "OP_GET_TABLE \<equiv> 35"
abbreviation (input) OP_GET_META_TABLE :: byte where "OP_GET_META_TABLE \<equiv> 36"
abbreviation (input) OP_SET_TABLE :: byte where "OP_SET_TABLE \<equiv> 37"
abbreviation (input) OP_DELETE_TABLE :: byte where "OP_DELETE_TABLE \<equiv> 38"
abbreviation (input) OP_NEW_TABLE :: byte where "OP_NEW_TABLE \<equiv> 39"
abbreviation (input) OP_DUP :: byte where "OP_DUP \<equiv> 40"
abbreviation (input) OP_JUMP :: byte where "OP_JUMP \<equiv> 41"
abbreviation (input) OP_JUMP_IF_FALSE :: byte where "OP_JUMP_IF_FALSE \<equiv> 42"
abbreviation (input) OP_JUMP_IF_TRUE :: byte where "OP_JUMP_IF_TRUE \<equiv> 43"
abbreviation (input) OP_LOOP :: byte where "OP_LOOP \<equiv> 44"
abbreviation (input) OP_CALL :: byte where "OP_CALL \<equiv> 45"
abbreviation (input) OP_CALL0 :: byte where "OP_CALL0 \<equiv> 46"
abbreviation (input) OP_CALL1 :: byte where "OP_CALL1 \<equiv> 47"
abbreviation (input) OP_CALL2 :: byte where "OP_CALL2 \<equiv> 48"
abbreviation (input) OP_CALL_NAMED :: byte where "OP_CALL_NAMED \<equiv> 49"
abbreviation (input) OP_CALL_EXPAND :: byte where "OP_CALL_EXPAND \<equiv> 50"
abbreviation (input) OP_CLOSURE :: byte where "OP_CLOSURE \<equiv> 51"
abbreviation (input) OP_RETURN :: byte where "OP_RETURN \<equiv> 52"
abbreviation (input) OP_TRUE :: byte where "OP_TRUE \<equiv> 53"
abbreviation (input) OP_FALSE :: byte where "OP_FALSE \<equiv> 54"
abbreviation (input) OP_NIL :: byte where "OP_NIL \<equiv> 55"
abbreviation (input) OP_EQUAL :: byte where "OP_EQUAL \<equiv> 56"
abbreviation (input) OP_GREATER :: byte where "OP_GREATER \<equiv> 57"
abbreviation (input) OP_LESS :: byte where "OP_LESS \<equiv> 58"
abbreviation (input) OP_HAS :: byte where "OP_HAS \<equiv> 59"
abbreviation (input) OP_IN :: byte where "OP_IN \<equiv> 60"
abbreviation (input) OP_POWER :: byte where "OP_POWER \<equiv> 61"
abbreviation (input) OP_INT_DIV :: byte where "OP_INT_DIV \<equiv> 62"
abbreviation (input) OP_MODULO :: byte where "OP_MODULO \<equiv> 63"
abbreviation (input) OP_IADD :: byte where "OP_IADD \<equiv> 64"
abbreviation (input) OP_ISUB :: byte where "OP_ISUB \<equiv> 65"
abbreviation (input) OP_IMUL :: byte where "OP_IMUL \<equiv> 66"
abbreviation (input) OP_IDIV :: byte where "OP_IDIV \<equiv> 67"
abbreviation (input) OP_IMOD :: byte where "OP_IMOD \<equiv> 68"
abbreviation (input) OP_FADD :: byte where "OP_FADD \<equiv> 69"
abbreviation (input) OP_FSUB :: byte where "OP_FSUB \<equiv> 70"
abbreviation (input) OP_FMUL :: byte where "OP_FMUL \<equiv> 71"
abbreviation (input) OP_FDIV :: byte where "OP_FDIV \<equiv> 72"
abbreviation (input) OP_FMOD :: byte where "OP_FMOD \<equiv> 73"
abbreviation (input) OP_MOD_CONST :: byte where "OP_MOD_CONST \<equiv> 74"
abbreviation (input) OP_GC :: byte where "OP_GC \<equiv> 75"
abbreviation (input) OP_SET_METATABLE :: byte where "OP_SET_METATABLE \<equiv> 76"
abbreviation (input) OP_RETURN_N :: byte where "OP_RETURN_N \<equiv> 77"
abbreviation (input) OP_ADJUST_STACK :: byte where "OP_ADJUST_STACK \<equiv> 78"
abbreviation (input) OP_UNPACK :: byte where "OP_UNPACK \<equiv> 79"
abbreviation (input) OP_TRY :: byte where "OP_TRY \<equiv> 80"
abbreviation (input) OP_END_TRY :: byte where "OP_END_TRY \<equiv> 81"
abbreviation (input) OP_END_FINALLY :: byte where "OP_END_FINALLY \<equiv> 82"
abbreviation (input) OP_IMPORT :: byte where "OP_IMPORT \<equiv> 83"
abbreviation (input) OP_IMPORT_STAR :: byte where "OP_IMPORT_STAR \<equiv> 84"
abbreviation (input) OP_THROW :: byte where "OP_THROW \<equiv> 85"
abbreviation (input) OP_BUILD_STRING :: byte where "OP_BUILD_STRING \<equiv> 86"
abbreviation (input) OP_ITER_PREP :: byte where "OP_ITER_PREP \<equiv> 87"
abbreviation (input) OP_ITER_PREP_IPAIRS :: byte where "OP_ITER_PREP_IPAIRS \<equiv> 88"
abbreviation (input) OP_RANGE :: byte where "OP_RANGE \<equiv> 89"
abbreviation (input) OP_FOR_PREP :: byte where "OP_FOR_PREP \<equiv> 90"
abbreviation (input) OP_FOR_LOOP :: byte where "OP_FOR_LOOP \<equiv> 91"
abbreviation (input) OP_SLICE :: byte where "OP_SLICE \<equiv> 92"

section \<open>Chunks\<close>

record chunk =
  ccapacity :: nat
  code :: bytes
  lines :: "int list"
  gic_versions :: "u32 list"
  gic_names :: "addr option list"
  gic_values :: "val list"
  tic_versions :: "u32 list"
  tic_tables :: "addr option list"
  tic_keys :: "addr option list"
  tic_values :: "val list"
  constants :: value_array

definition init_chunk :: chunk where
  "init_chunk =
     \<lparr>ccapacity = 0, code = [], lines = [], gic_versions = [], gic_names = [], gic_values = [],
      tic_versions = [], tic_tables = [], tic_keys = [], tic_values = [],
      constants = init_value_array\<rparr>"

definition grow_chunk :: "chunk \<Rightarrow> chunk" where
  "grow_chunk c =
     (let old = ccapacity c; cap = (if old < 8 then 8 else old * 2); k = cap - old
      in c\<lparr>ccapacity := cap,
           gic_versions := gic_versions c @ replicate k 0,
           gic_names := gic_names c @ replicate k None,
           gic_values := gic_values c @ replicate k VNil,
           tic_versions := tic_versions c @ replicate k 0,
           tic_tables := tic_tables c @ replicate k None,
           tic_keys := tic_keys c @ replicate k None,
           tic_values := tic_values c @ replicate k VNil\<rparr>)"

definition write_chunk :: "chunk \<Rightarrow> byte \<Rightarrow> int \<Rightarrow> chunk" where
  "write_chunk c b line =
     (let c = (if ccapacity c < length (code c) + 1 then grow_chunk c else c)
      in c\<lparr>code := code c @ [b], lines := lines c @ [line]\<rparr>)"

definition add_constant :: "chunk \<Rightarrow> val \<Rightarrow> chunk \<times> nat" where
  "add_constant c v =
     (let va = write_value_array (constants c) v
      in (c\<lparr>constants := va\<rparr>, length (va_values va) - 1))"

text \<open>\<open>chunk->constants.values[i]\<close>\<close>

definition const_at :: "chunk \<Rightarrow> nat \<Rightarrow> val option" where
  "const_at c i = at (va_values (constants c)) i"

text \<open>A 16-bit big-endian operand at offset \<open>i\<close>.\<close>

definition short_at :: "bytes \<Rightarrow> nat \<Rightarrow> u16 option" where
  "short_at cs i =
     do { a \<leftarrow> at cs i; b \<leftarrow> at cs (i + 1); Some (push_bit 8 (ucast a) OR ucast b) }"

section \<open>Well-formedness\<close>

definition wf_chunk :: "chunk \<Rightarrow> bool" where
  "wf_chunk c \<longleftrightarrow>
     length (code c) \<le> ccapacity c \<and> length (lines c) = length (code c) \<and>
     length (gic_versions c) = ccapacity c \<and> length (gic_names c) = ccapacity c \<and>
     length (gic_values c) = ccapacity c \<and> length (tic_versions c) = ccapacity c \<and>
     length (tic_tables c) = ccapacity c \<and> length (tic_keys c) = ccapacity c \<and>
     length (tic_values c) = ccapacity c \<and> wf_value_array (constants c)"

lemma wf_init_chunk [simp]: "wf_chunk init_chunk"
  by (simp add: wf_chunk_def init_chunk_def)

lemma wf_grow_chunk: "wf_chunk c \<Longrightarrow> wf_chunk (grow_chunk c)"
  by (simp add: wf_chunk_def grow_chunk_def Let_def)

lemma grow_chunk_room: "wf_chunk c \<Longrightarrow> length (code c) < ccapacity (grow_chunk c)"
  by (simp add: wf_chunk_def grow_chunk_def Let_def)

lemma grow_chunk_code [simp]: "code (grow_chunk c) = code c" "lines (grow_chunk c) = lines c"
    "constants (grow_chunk c) = constants c"
  by (simp_all add: grow_chunk_def Let_def)

lemma wf_chunk_snoc:
  "wf_chunk c \<Longrightarrow> length (code c) < ccapacity c \<Longrightarrow>
    wf_chunk (c\<lparr>code := code c @ [b], lines := lines c @ [line]\<rparr>)"
  by (simp add: wf_chunk_def)

lemma wf_write_chunk:
  assumes "wf_chunk c"
  shows "wf_chunk (write_chunk c b line)"
proof (cases "ccapacity c < length (code c) + 1")
  case True
  then show ?thesis
    using wf_chunk_snoc [OF wf_grow_chunk [OF assms]] grow_chunk_room [OF assms]
    by (simp add: write_chunk_def)
next
  case False
  then show ?thesis
    using wf_chunk_snoc [OF assms] by (simp add: write_chunk_def)
qed

lemma write_chunk_code [simp]: "code (write_chunk c b line) = code c @ [b]"
    "lines (write_chunk c b line) = lines c @ [line]" "constants (write_chunk c b line) = constants c"
  by (simp_all add: write_chunk_def Let_def)

lemma wf_add_constant: "wf_chunk c \<Longrightarrow> wf_chunk (fst (add_constant c v))"
  by (simp add: wf_chunk_def add_constant_def Let_def wf_write_value_array)

lemma add_constant_at:
  "const_at (fst (add_constant c v)) (snd (add_constant c v)) = Some v"
  "const_at c i = Some w \<Longrightarrow> const_at (fst (add_constant c v)) i = Some w"
  by (auto simp: const_at_def add_constant_def write_value_array_def Let_def nth_append)

lemma short_at_lt: "i + 1 < length cs \<Longrightarrow> short_at cs i = Some (push_bit 8 (ucast (cs ! i)) OR ucast (cs ! (i + 1)))"
  by (simp add: short_at_def at_lt del: at_Some_iff)

end
