(* ===== verification/Store.thy ===== *)
theory Store
  imports Prelude
begin

text \<open>
  The contract of a key-value store whose operations may fail to return, as the machine
  uses the hash table: \<open>look\<close>, \<open>put\<close> and \<open>del\<close> return on every well-formed store and act as
  lookup, update and removal of the key's name. \<open>versioned_store\<close> adds the version counter
  that the inline caches of \<open>OP_GET_GLOBAL\<close> and \<open>OP_GET_TABLE\<close> compare. The interpretation
  on the hash table of the program is in theory \<open>Table\<close>.
\<close>

datatype ('k, 'v) store_op = Put 'k 'v | Del 'k

fun op_key :: "('k, 'v) store_op \<Rightarrow> 'k" where
  "op_key (Put k v) = k"
| "op_key (Del k) = k"

text \<open>What a sequence of operations means for a finite map from names to values.\<close>

fun apply_op :: "('k \<Rightarrow> 'n) \<Rightarrow> ('k, 'v) store_op \<Rightarrow> ('n \<rightharpoonup> 'v) \<Rightarrow> ('n \<rightharpoonup> 'v)" where
  "apply_op name (Put k v) m = m(name k \<mapsto> v)"
| "apply_op name (Del k) m = m(name k := None)"

fun run_ops ::
  "('s \<Rightarrow> 'k \<Rightarrow> 'v \<Rightarrow> ('s \<times> bool) option) \<Rightarrow> ('s \<Rightarrow> 'k \<Rightarrow> ('s \<times> bool) option) \<Rightarrow>
   ('k, 'v) store_op list \<Rightarrow> 's \<Rightarrow> 's option" where
  "run_ops put del [] s = Some s"
| "run_ops put del (Put k v # ops) s = do { (s', _) \<leftarrow> put s k v; run_ops put del ops s' }"
| "run_ops put del (Del k # ops) s = do { (s', _) \<leftarrow> del s k; run_ops put del ops s' }"

locale kv_store =
  fixes invar :: "'s \<Rightarrow> bool"
    and key_valid :: "'k \<Rightarrow> bool"
    and name :: "'k \<Rightarrow> 'n"
    and model :: "'s \<Rightarrow> 'n \<rightharpoonup> 'v"
    and look :: "'s \<Rightarrow> 'k \<Rightarrow> 'v option option"
    and put :: "'s \<Rightarrow> 'k \<Rightarrow> 'v \<Rightarrow> ('s \<times> bool) option"
    and del :: "'s \<Rightarrow> 'k \<Rightarrow> ('s \<times> bool) option"
  assumes look_law: "invar s \<Longrightarrow> key_valid k \<Longrightarrow> look s k = Some (model s (name k))"
    and put_law: "invar s \<Longrightarrow> key_valid k \<Longrightarrow>
      \<exists>s'. put s k v = Some (s', model s (name k) = None) \<and> invar s' \<and>
           model s' = (model s)(name k \<mapsto> v)"
    and del_law: "invar s \<Longrightarrow> key_valid k \<Longrightarrow>
      \<exists>s'. del s k = Some (s', model s (name k) \<noteq> None) \<and> invar s' \<and>
           model s' = (model s)(name k := None)"
begin

lemma look_after_put:
  assumes "invar s" "key_valid k" "key_valid k'" "put s k v = Some (s', b)"
  shows "look s' k' = (if name k' = name k then Some (Some v) else look s k')"
  using put_law [OF assms(1,2), of v] assms by (auto simp: look_law)

lemma look_after_del:
  assumes "invar s" "key_valid k" "key_valid k'" "del s k = Some (s', b)"
  shows "look s' k' = (if name k' = name k then Some None else look s k')"
  using del_law [OF assms(1,2)] assms by (auto simp: look_law)

lemma run_ops_model:
  assumes "invar s" "\<forall>p\<in>set ops. key_valid (op_key p)"
  shows "\<exists>s'. run_ops put del ops s = Some s' \<and> invar s' \<and>
    model s' = fold (apply_op name) ops (model s)"
  using assms
proof (induction ops arbitrary: s)
  case Nil
  then show ?case by simp
next
  case (Cons p ops)
  show ?case
  proof (cases p)
    case (Put k v)
    with Cons.prems have k: "key_valid k" by simp
    from put_law [OF Cons.prems(1) k, of v] obtain s' where
      "put s k v = Some (s', model s (name k) = None)" "invar s'"
      "model s' = (model s)(name k \<mapsto> v)" by blast
    with Cons.IH [of s'] Cons.prems(2) Put show ?thesis by (simp add: fun_upd_def)
  next
    case (Del k)
    with Cons.prems have k: "key_valid k" by simp
    from del_law [OF Cons.prems(1) k] obtain s' where
      "del s k = Some (s', model s (name k) \<noteq> None)" "invar s'"
      "model s' = (model s)(name k := None)" by blast
    with Cons.IH [of s'] Cons.prems(2) Del show ?thesis by (simp add: fun_upd_def)
  qed
qed

end

text \<open>
  The version counts the changes, modulo \<open>2\<^sup>3\<^sup>2\<close>: a cached lookup is still right when the
  version is the one recorded with it and fewer than \<open>2\<^sup>3\<^sup>2\<close> operations lie between.
\<close>

locale versioned_store = kv_store invar key_valid name model look put del
  for invar :: "'s \<Rightarrow> bool" and key_valid :: "'k \<Rightarrow> bool" and name :: "'k \<Rightarrow> 'n"
    and model :: "'s \<Rightarrow> 'n \<rightharpoonup> 'v" and look put del +
  fixes ver :: "'s \<Rightarrow> u32"
  assumes put_ver: "invar s \<Longrightarrow> key_valid k \<Longrightarrow> put s k v = Some (s', b) \<Longrightarrow> ver s' = ver s + 1"
    and del_ver: "invar s \<Longrightarrow> key_valid k \<Longrightarrow> del s k = Some (s', b) \<Longrightarrow>
      ver s' = ver s + (if b then 1 else 0)"
begin

lemma run_ops_version:
  assumes "invar s" "\<forall>p\<in>set ops. key_valid (op_key p)" "run_ops put del ops s = Some s'"
  shows "\<exists>n\<le>length ops. ver s' = ver s + of_nat n \<and> (n = 0 \<longrightarrow> model s' = model s)"
  using assms
proof (induction ops arbitrary: s)
  case Nil
  then show ?case by simp
next
  case (Cons p ops)
  show ?case
  proof (cases p)
    case (Put k v)
    with Cons.prems have k: "key_valid k" by simp
    from put_law [OF Cons.prems(1) k, of v] obtain s1 b where
      s1: "put s k v = Some (s1, b)" "invar s1" by blast
    with Cons.prems Put have "run_ops put del ops s1 = Some s'" by simp
    from Cons.IH [OF s1(2) _ this] Cons.prems(2) obtain n where
      "n \<le> length ops" "ver s' = ver s1 + of_nat n" by auto
    then show ?thesis
      using put_ver [OF Cons.prems(1) k s1(1)] by (intro exI [of _ "Suc n"]) simp
  next
    case (Del k)
    with Cons.prems have k: "key_valid k" by simp
    from del_law [OF Cons.prems(1) k] obtain s1 where
      s1: "del s k = Some (s1, model s (name k) \<noteq> None)" "invar s1"
      "model s1 = (model s)(name k := None)" by blast
    with Cons.prems Del have "run_ops put del ops s1 = Some s'" by simp
    from Cons.IH [OF s1(2) _ this] Cons.prems(2) obtain n where n:
      "n \<le> length ops" "ver s' = ver s1 + of_nat n" "n = 0 \<longrightarrow> model s' = model s1" by auto
    show ?thesis
    proof (cases "model s (name k) = None")
      case True
      with n s1(3) del_ver [OF Cons.prems(1) k s1(1)] show ?thesis
        by (intro exI [of _ n]) auto
    next
      case False
      with n del_ver [OF Cons.prems(1) k s1(1)] show ?thesis
        by (intro exI [of _ "Suc n"]) auto
    qed
  qed
qed

lemma cached_lookup_valid:
  assumes "invar s" "\<forall>p\<in>set ops. key_valid (op_key p)" "run_ops put del ops s = Some s'"
    and "length ops < 2 ^ 32" "ver s' = ver s" "key_valid k"
  shows "look s' k = look s k"
proof -
  obtain n where n: "n \<le> length ops" "ver s' = ver s + of_nat n" "n = 0 \<longrightarrow> model s' = model s"
    using run_ops_version [OF assms(1-3)] by blast
  have "of_nat n = (0 :: u32)" using n(2) assms(5) by simp
  then have "unat (of_nat n :: u32) = 0" by simp
  then have "n mod 2 ^ 32 = 0" by (simp add: unat_of_nat)
  moreover have "n < 2 ^ 32" using n(1) assms(4) by linarith
  ultimately have "n = 0" by simp
  then have "model s' = model s" using n(3) by simp
  moreover have "invar s'"
    using run_ops_model [OF assms(1,2)] assms(3) by auto
  ultimately show ?thesis using assms(1,6) by (simp add: look_law)
qed

end

end
