(* ===== verification/Table.thy ===== *)
theory Table
  imports Value Store
begin

text \<open>
  The hash table with an array part (\<open>src/src/table.h\<close>, \<open>src/src/table.c\<close>): open addressing
  with linear probing and tombstones for string keys, and a dense array for positive
  integer keys. The entry array and the value array are lists whose lengths are the C
  fields \<open>capacity\<close> and \<open>array_capacity\<close>. The C loops without a bound (\<open>for (;;)\<close> over the
  slots) are given the number of slots as fuel; \<open>probe_fuel\<close> shows that more fuel never
  changes a result and \<open>find_entry_returns\<close> that the loop returns on every well-formed table.
  The lemmas show that the operations implement a finite map from byte strings to values.
\<close>

section \<open>State\<close>

record entry =
  ekey :: "skey option"
  evalue :: val

record table =
  tcount :: nat
  entries :: "entry list"
  version :: u32
  tarray :: "val list"
  array_max :: nat

abbreviation capacity :: "table \<Rightarrow> nat" where
  "capacity t \<equiv> length (entries t)"

abbreviation array_capacity :: "table \<Rightarrow> nat" where
  "array_capacity t \<equiv> length (tarray t)"

definition init_table :: table where
  "init_table = \<lparr>tcount = 0, entries = [], version = 0, tarray = [], array_max = 0\<rparr>"

definition empty_entry :: entry where
  "empty_entry = \<lparr>ekey = None, evalue = VNil\<rparr>"

definition tombstone :: entry where
  "tombstone = \<lparr>ekey = None, evalue = VBool True\<rparr>"

section \<open>The hash part\<close>

text \<open>The probe loop of \<open>find_entry\<close> from slot \<open>i\<close>, with the first tombstone seen so far.\<close>

fun probe :: "entry list \<Rightarrow> skey \<Rightarrow> nat \<Rightarrow> nat option \<Rightarrow> nat \<Rightarrow> nat option" where
  "probe es k i tomb 0 = None"
| "probe es k i tomb (Suc fuel) =
     (let e = es ! i; next = (i + 1) mod length es
      in case ekey e of
           None \<Rightarrow>
             if is_nil (evalue e) then Some (case tomb of Some j \<Rightarrow> j | None \<Rightarrow> i)
             else probe es k next (case tomb of Some j \<Rightarrow> Some j | None \<Rightarrow> Some i) fuel
         | Some k' \<Rightarrow> if same_key k' k then Some i else probe es k next tomb fuel)"

definition home :: "entry list \<Rightarrow> u32 \<Rightarrow> nat" where
  "home es h = unat h mod length es"

definition find_entry :: "entry list \<Rightarrow> skey \<Rightarrow> nat option" where
  "find_entry es k = probe es k (home es (khash k)) None (length es)"

text \<open>One step of the rehashing loop of \<open>adjust_capacity\<close>.\<close>

fun rehash :: "entry list \<Rightarrow> entry list \<Rightarrow> nat \<Rightarrow> (entry list \<times> nat) option" where
  "rehash [] dst n = Some (dst, n)"
| "rehash (e # es) dst n =
     (case ekey e of
        None \<Rightarrow> rehash es dst n
      | Some k \<Rightarrow>
          (case find_entry dst k of
             None \<Rightarrow> None
           | Some i \<Rightarrow> rehash es (dst[i := \<lparr>ekey = Some k, evalue = evalue e\<rparr>]) (n + 1)))"

definition adjust_capacity :: "table \<Rightarrow> nat \<Rightarrow> table option" where
  "adjust_capacity t cap =
     map_option (\<lambda>(es, n). t\<lparr>entries := es, tcount := n\<rparr>)
       (rehash (entries t) (replicate cap empty_entry) 0)"

definition table_get :: "table \<Rightarrow> skey \<Rightarrow> val option option" where
  \<comment> \<open>\<open>None\<close>: the loop does not return; \<open>Some None\<close>: 0; \<open>Some (Some v)\<close>: 1 with \<open>*value = v\<close>.\<close>
  "table_get t k =
     (if tcount t = 0 then Some None
      else case find_entry (entries t) k of
             None \<Rightarrow> None
           | Some i \<Rightarrow>
               (case ekey (entries t ! i) of
                  None \<Rightarrow> Some None
                | Some _ \<Rightarrow> Some (Some (evalue (entries t ! i)))))"

text \<open>\<open>count + 1 > capacity * 0.75\<close>, exact in \<open>double\<close> for the counts that fit in memory.\<close>

definition over_load :: "table \<Rightarrow> bool" where
  "over_load t \<longleftrightarrow> 4 * (tcount t + 1) > 3 * capacity t"

definition grown_capacity :: "table \<Rightarrow> nat" where
  "grown_capacity t = (if capacity t < 8 then 8 else capacity t * 2)"

definition table_set :: "table \<Rightarrow> skey \<Rightarrow> val \<Rightarrow> (table \<times> bool) option" where
  "table_set t k v =
     do {
       t \<leftarrow> (if over_load t then adjust_capacity t (grown_capacity t) else Some t);
       i \<leftarrow> find_entry (entries t) k;
       let e = entries t ! i;
       let is_new_key = (ekey e = None);
       let n = (if is_new_key \<and> is_nil (evalue e) then tcount t + 1 else tcount t);
       Some (t\<lparr>tcount := n, entries := (entries t)[i := \<lparr>ekey = Some k, evalue = v\<rparr>],
               version := version t + 1\<rparr>, is_new_key)
     }"

definition table_delete :: "table \<Rightarrow> skey \<Rightarrow> (table \<times> bool) option" where
  "table_delete t k =
     (if tcount t = 0 then Some (t, False)
      else do {
        i \<leftarrow> find_entry (entries t) k;
        (case ekey (entries t ! i) of
           None \<Rightarrow> Some (t, False)
         | Some _ \<Rightarrow> Some (t\<lparr>entries := (entries t)[i := tombstone], version := version t + 1\<rparr>, True))
      })"

text \<open>\<open>table_add_all\<close>: the entries of \<open>from\<close>, in slot order, set in \<open>to\<close>.\<close>

fun add_entries :: "entry list \<Rightarrow> table \<Rightarrow> table option" where
  "add_entries [] t = Some t"
| "add_entries (e # es) t =
     (case ekey e of
        None \<Rightarrow> add_entries es t
      | Some k \<Rightarrow> do { (t', _) \<leftarrow> table_set t k (evalue e); add_entries es t' })"

definition table_add_all :: "table \<Rightarrow> table \<Rightarrow> table option" where
  "table_add_all src dst = add_entries (entries src) dst"

text \<open>\<open>table_find_string\<close>: probing by contents, never stopping at a tombstone.\<close>

fun find_string_from :: "entry list \<Rightarrow> bytes \<Rightarrow> u32 \<Rightarrow> nat \<Rightarrow> nat \<Rightarrow> skey option option" where
  "find_string_from es cs h i 0 = None"
| "find_string_from es cs h i (Suc fuel) =
     (let e = es ! i; next = (i + 1) mod length es
      in case ekey e of
           None \<Rightarrow> if is_nil (evalue e) then Some None else find_string_from es cs h next fuel
         | Some k \<Rightarrow>
             if key_length k = length cs \<and> khash k = h \<and> kchars k = cs then Some (Some k)
             else find_string_from es cs h next fuel)"

definition table_find_string :: "table \<Rightarrow> bytes \<Rightarrow> u32 \<Rightarrow> skey option option" where
  "table_find_string t cs h =
     (if tcount t = 0 then Some None
      else find_string_from (entries t) cs h (home (entries t) h) (capacity t))"

section \<open>The array part\<close>

definition table_get_array :: "table \<Rightarrow> int \<Rightarrow> val option" where
  "table_get_array t index =
     (let raw = index - 1
      in if 0 \<le> raw \<and> raw < int (array_capacity t) \<and> \<not> is_nil (tarray t ! nat raw)
         then Some (tarray t ! nat raw) else None)"

text \<open>\<open>while (raw_index >= new_capacity) new_capacity *= 2\<close>.\<close>

function double_until :: "nat \<Rightarrow> nat \<Rightarrow> nat" where
  "double_until raw cap = (if 0 < cap \<and> cap \<le> raw then double_until raw (cap * 2) else cap)"
  by pat_completeness auto
termination
  by (relation "measure (\<lambda>(raw, cap). Suc raw - cap)") auto

declare double_until.simps [simp del]

text \<open>The loop that lowers \<open>array_max\<close> past trailing nils.\<close>

fun shrink_max :: "val list \<Rightarrow> nat \<Rightarrow> nat" where
  "shrink_max xs 0 = 0"
| "shrink_max xs (Suc n) =
     (if Suc n \<le> length xs \<and> is_nil (xs ! n) then shrink_max xs n else Suc n)"

definition table_set_array :: "table \<Rightarrow> int \<Rightarrow> val \<Rightarrow> table option" where
  \<comment> \<open>\<open>None\<close> is the C result 0: the caller uses the hash part.\<close>
  "table_set_array t index v =
     (let raw = index - 1
      in if raw < 0 then None
         else if index > int (array_max t) + 1 \<and> index > int (array_capacity t) then None
         else
           let i = nat raw;
               cap = (if array_capacity t \<le> i
                      then double_until i (if array_capacity t = 0 then 8 else array_capacity t * 2)
                      else array_capacity t);
               xs = (tarray t @ replicate (cap - array_capacity t) VNil)[i := v];
               m = (if \<not> is_nil v then max (array_max t) (nat index)
                    else if nat index = array_max t then shrink_max xs (array_max t - 1)
                    else array_max t)
           in Some (t\<lparr>tarray := xs, array_max := m\<rparr>))"

section \<open>Slots and probe paths\<close>

definition empty_at :: "entry list \<Rightarrow> nat \<Rightarrow> bool" where
  "empty_at es i \<longleftrightarrow> ekey (es ! i) = None \<and> is_nil (evalue (es ! i))"

definition match_at :: "entry list \<Rightarrow> skey \<Rightarrow> nat \<Rightarrow> bool" where
  "match_at es k i \<longleftrightarrow> (\<exists>k'. ekey (es ! i) = Some k' \<and> same_key k' k)"

definition stop_at :: "entry list \<Rightarrow> skey \<Rightarrow> nat \<Rightarrow> bool" where
  "stop_at es k i \<longleftrightarrow> empty_at es i \<or> match_at es k i"

text \<open>The slot visited in round \<open>j\<close> by a search that starts at slot \<open>h\<close>.\<close>

definition probe_pos :: "entry list \<Rightarrow> nat \<Rightarrow> nat \<Rightarrow> nat" where
  "probe_pos es h j = (h + j) mod length es"

lemma probe_pos_Suc: "(probe_pos es h j + 1) mod length es = probe_pos es h (Suc j)"
  unfolding probe_pos_def by (rule mod_step)

lemma probe_pos_less [simp]: "es \<noteq> [] \<Longrightarrow> probe_pos es h j < length es"
  by (simp add: probe_pos_def)

lemma home_pos: "home es h = probe_pos es (home es h) 0"
  by (cases "es = []") (simp_all add: probe_pos_def home_def)

lemma probe_Some:
  assumes "probe es k (probe_pos es h j) tomb fuel = Some r"
    and "\<forall>j'<j. \<not> stop_at es k (probe_pos es h j')"
    and "\<And>i. tomb = Some i \<Longrightarrow> \<exists>jt<j. i = probe_pos es h jt \<and> ekey (es ! i) = None"
  shows "\<exists>jr<j + fuel. (\<forall>j'<jr. \<not> stop_at es k (probe_pos es h j')) \<and>
           (match_at es k r \<and> r = probe_pos es h jr \<or>
            empty_at es (probe_pos es h jr) \<and> ekey (es ! r) = None \<and> (\<exists>jt\<le>jr. r = probe_pos es h jt))"
  using assms
proof (induction fuel arbitrary: j tomb)
  case 0
  then show ?case by simp
next
  case (Suc fuel)
  let ?i = "probe_pos es h j"
  show ?case
  proof (cases "stop_at es k ?i")
    case True
    show ?thesis
    proof (intro exI [of _ j] conjI)
      show "j < j + Suc fuel" by simp
      show "\<forall>j'<j. \<not> stop_at es k (probe_pos es h j')" using Suc.prems(2) .
      show "match_at es k r \<and> r = ?i \<or>
            empty_at es ?i \<and> ekey (es ! r) = None \<and> (\<exists>jt\<le>j. r = probe_pos es h jt)"
      proof (cases "ekey (es ! ?i)")
        case (Some k')
        with True Suc.prems(1) show ?thesis
          by (simp add: stop_at_def match_at_def empty_at_def Let_def)
      next
        case None
        with True have nil: "empty_at es ?i" by (simp add: stop_at_def match_at_def)
        with None Suc.prems(1) have r: "r = (case tomb of Some x \<Rightarrow> x | None \<Rightarrow> ?i)"
          by (simp add: empty_at_def Let_def)
        have "ekey (es ! r) = None \<and> (\<exists>jt\<le>j. r = probe_pos es h jt)"
        proof (cases tomb)
          case (Some x)
          with Suc.prems(3) [of x] r show ?thesis by (auto intro: less_imp_le)
        qed (use None r in auto)
        with nil show ?thesis by simp
      qed
    qed
  next
    case False
    then obtain tomb' where step: "probe es k (probe_pos es h (Suc j)) tomb' fuel = Some r"
      and t': "\<And>i. tomb' = Some i \<Longrightarrow> \<exists>jt<Suc j. i = probe_pos es h jt \<and> ekey (es ! i) = None"
    proof (cases "ekey (es ! ?i)")
      case None
      with False Suc.prems(1) have "probe es k (probe_pos es h (Suc j))
          (case tomb of Some x \<Rightarrow> Some x | None \<Rightarrow> Some ?i) fuel = Some r"
        by (simp add: stop_at_def empty_at_def Let_def probe_pos_Suc [unfolded Suc_eq_plus1 [symmetric]])
      then show ?thesis
        by (rule that, cases tomb) (use None Suc.prems(3) in \<open>auto intro: less_SucI\<close>)
    next
      case (Some k')
      with False Suc.prems(1) have "probe es k (probe_pos es h (Suc j)) tomb fuel = Some r"
        by (simp add: stop_at_def match_at_def Let_def probe_pos_Suc [unfolded Suc_eq_plus1 [symmetric]])
      then show ?thesis
        by (rule that) (use Suc.prems(3) in \<open>auto intro: less_SucI\<close>)
    qed
    have "\<forall>j'<Suc j. \<not> stop_at es k (probe_pos es h j')"
      using False Suc.prems(2) by (auto simp: less_Suc_eq)
    from Suc.IH [OF step this t'] show ?thesis by simp
  qed
qed

lemma probe_returns:
  assumes "j \<le> j'" "j' < j + fuel" "stop_at es k (probe_pos es h j')"
  shows "\<exists>r. probe es k (probe_pos es h j) tomb fuel = Some r"
  using assms
proof (induction fuel arbitrary: j tomb)
  case 0
  then show ?case by simp
next
  case (Suc fuel)
  show ?case
  proof (cases "stop_at es k (probe_pos es h j)")
    case True
    then show ?thesis
      by (auto simp: stop_at_def match_at_def empty_at_def Let_def)
  next
    case False
    with Suc.prems have "Suc j \<le> j'" "j' < Suc j + fuel"
      by (auto simp: Suc_le_eq le_less)
    from Suc.IH [OF this Suc.prems(3)] False show ?thesis
      by (auto simp: stop_at_def match_at_def empty_at_def Let_def
          probe_pos_Suc [unfolded Suc_eq_plus1 [symmetric]] split: option.splits)
  qed
qed

text \<open>Once the search returns, more fuel does not change what it returns.\<close>

lemma probe_fuel:
  "probe es k i tomb fuel = Some r \<Longrightarrow> fuel \<le> fuel' \<Longrightarrow> probe es k i tomb fuel' = Some r"
proof (induction fuel arbitrary: i tomb fuel')
  case 0
  then show ?case by simp
next
  case (Suc fuel)
  then obtain f where "fuel' = Suc f" "fuel \<le> f" by (cases fuel') auto
  with Suc show ?case by (auto simp: Let_def split: option.splits if_splits)
qed

section \<open>The invariant and the abstraction\<close>

definition entry_pair :: "entry \<Rightarrow> (bytes \<times> val) option" where
  "entry_pair e = map_option (\<lambda>k. (kchars k, evalue e)) (ekey e)"

text \<open>The finite map an entry array stands for.\<close>

definition tmap :: "entry list \<Rightarrow> bytes \<rightharpoonup> val" where
  "tmap es = map_of (List.map_filter entry_pair es)"

text \<open>
  Every key is reached from its home slot without crossing an empty slot, and no two
  slots hold keys with the same bytes.
\<close>

definition reachable_slot :: "entry list \<Rightarrow> nat \<Rightarrow> nat \<Rightarrow> bool" where
  "reachable_slot es h i \<longleftrightarrow>
     (\<exists>j<length es. probe_pos es h j = i \<and> (\<forall>j'<j. \<not> empty_at es (probe_pos es h j')))"

definition wf_entries :: "(addr \<Rightarrow> bytes) \<Rightarrow> entry list \<Rightarrow> bool" where
  "wf_entries S es \<longleftrightarrow>
     (\<forall>i<length es. \<forall>k. ekey (es ! i) = Some k \<longrightarrow>
        key_ok S k \<and> reachable_slot es (home es (khash k)) i) \<and>
     (\<forall>i<length es. \<forall>i'<length es. \<forall>k k'. ekey (es ! i) = Some k \<longrightarrow> ekey (es ! i') = Some k' \<longrightarrow>
        kchars k = kchars k' \<longrightarrow> i = i')"

definition used :: "entry list \<Rightarrow> nat" where
  "used es = card {i. i < length es \<and> \<not> empty_at es i}"

definition table_ok :: "(addr \<Rightarrow> bytes) \<Rightarrow> table \<Rightarrow> bool" where
  "table_ok S t \<longleftrightarrow>
     wf_entries S (entries t) \<and> tcount t = used (entries t) \<and> 4 * tcount t \<le> 3 * capacity t"

abbreviation table_map :: "table \<Rightarrow> bytes \<rightharpoonup> val" where
  "table_map t \<equiv> tmap (entries t)"

lemma wf_entriesD:
  assumes "wf_entries S es" "i < length es" "ekey (es ! i) = Some k"
  shows "key_ok S k" "reachable_slot es (home es (khash k)) i"
  using assms by (auto simp: wf_entries_def)

lemma wf_entries_unique:
  assumes "wf_entries S es" "i < length es" "i' < length es"
    and "ekey (es ! i) = Some k" "ekey (es ! i') = Some k'" "kchars k = kchars k'"
  shows "i = i'"
  using assms unfolding wf_entries_def by blast

lemma set_pairs:
  "(c, v) \<in> set (List.map_filter entry_pair es) \<longleftrightarrow>
     (\<exists>i<length es. \<exists>k. ekey (es ! i) = Some k \<and> kchars k = c \<and> evalue (es ! i) = v)"
  by (force simp: List.map_filter_def entry_pair_def in_set_conv_nth image_iff)

lemma tmap_Some_iff:
  assumes "wf_entries S es"
  shows "tmap es c = Some v \<longleftrightarrow>
    (\<exists>i<length es. \<exists>k. ekey (es ! i) = Some k \<and> kchars k = c \<and> evalue (es ! i) = v)"
proof
  assume "tmap es c = Some v"
  then show "\<exists>i<length es. \<exists>k. ekey (es ! i) = Some k \<and> kchars k = c \<and> evalue (es ! i) = v"
    unfolding tmap_def by (auto dest!: map_of_SomeD simp: set_pairs)
next
  assume ex: "\<exists>i<length es. \<exists>k. ekey (es ! i) = Some k \<and> kchars k = c \<and> evalue (es ! i) = v"
  then have "(c, v) \<in> set (List.map_filter entry_pair es)" by (simp add: set_pairs)
  then obtain v' where v': "map_of (List.map_filter entry_pair es) c = Some v'"
    by (auto dest: weak_map_of_SomeI)
  then have "(c, v') \<in> set (List.map_filter entry_pair es)" by (rule map_of_SomeD)
  with ex have "v' = v"
    using wf_entries_unique [OF assms] by (auto simp: set_pairs)
  with v' show "tmap es c = Some v" by (simp add: tmap_def)
qed

definition slot_holds :: "entry list \<Rightarrow> nat \<Rightarrow> bytes \<Rightarrow> val \<Rightarrow> bool" where
  "slot_holds es i c v \<longleftrightarrow>
     i < length es \<and> (\<exists>k. ekey (es ! i) = Some k \<and> kchars k = c) \<and> evalue (es ! i) = v"

lemma tmap_slot: "wf_entries S es \<Longrightarrow> tmap es c = Some v \<longleftrightarrow> (\<exists>i. slot_holds es i c v)"
  by (auto simp: tmap_Some_iff slot_holds_def)

lemma tmap_None_iff:
  "tmap es c = None \<longleftrightarrow> (\<forall>i<length es. \<forall>k. ekey (es ! i) = Some k \<longrightarrow> kchars k \<noteq> c)"
proof -
  have "c \<in> fst ` set (List.map_filter entry_pair es) \<longleftrightarrow>
      (\<exists>v. (c, v) \<in> set (List.map_filter entry_pair es))" by force
  then show ?thesis by (auto simp: tmap_def map_of_eq_None_iff set_pairs)
qed

lemma used_le: "used es \<le> length es"
  using card_mono [of "{..<length es}" "{i. i < length es \<and> \<not> empty_at es i}"]
  by (auto simp: used_def)

lemma used_less_ex_empty:
  assumes "used es < length es"
  shows "\<exists>i<length es. empty_at es i"
proof (rule ccontr)
  assume "\<not> ?thesis"
  then have "{i. i < length es \<and> \<not> empty_at es i} = {..<length es}" by auto
  with assms show False by (simp add: used_def)
qed

lemma used_0: "used es = 0 \<longleftrightarrow> (\<forall>i<length es. empty_at es i)"
  by (auto simp: used_def)

section \<open>What the search returns\<close>

lemma find_entry_returns:
  assumes "used es < length es"
  shows "\<exists>r. find_entry es k = Some r"
proof -
  obtain i where i: "i < length es" "empty_at es i"
    using used_less_ex_empty [OF assms] by blast
  obtain j where "j < length es" "probe_pos es (home es (khash k)) j = i"
    using mod_cycle_surj [OF i(1), of "home es (khash k)"] by (auto simp: probe_pos_def)
  with i(2) show ?thesis
    using probe_returns [of 0 j "length es" es k "home es (khash k)" None]
    by (simp add: find_entry_def stop_at_def home_pos [symmetric])
qed

lemma find_entryE:
  assumes "find_entry es k = Some r"
  obtains (found) jr where "jr < length es" "\<forall>j<jr. \<not> stop_at es k (probe_pos es (home es (khash k)) j)"
      "match_at es k r" "r = probe_pos es (home es (khash k)) jr"
    | (free) jr jt where "jr < length es" "\<forall>j<jr. \<not> stop_at es k (probe_pos es (home es (khash k)) j)"
      "empty_at es (probe_pos es (home es (khash k)) jr)" "ekey (es ! r) = None" "jt \<le> jr"
      "r = probe_pos es (home es (khash k)) jt"
  using probe_Some [of es k "home es (khash k)" 0 None "length es" r] assms
  by (auto simp: find_entry_def home_pos [symmetric])

lemma find_entry_less: "find_entry es k = Some r \<Longrightarrow> r < length es"
  by (erule find_entryE; cases "es = []") auto

lemma find_entry_Some_key:
  assumes "find_entry es k = Some r" "wf_entries S es" "key_ok S k" "ekey (es ! r) = Some k'"
  shows "kchars k' = kchars k"
  using assms(1)
proof (cases rule: find_entryE)
  case (found jr)
  with assms wf_entriesD(1) [OF assms(2) find_entry_less [OF assms(1)] assms(4)] show ?thesis
    by (auto simp: match_at_def same_key_iff)
qed (use assms in auto)

lemma find_entry_None_key:
  assumes "find_entry es k = Some r" "wf_entries S es" "key_ok S k" "ekey (es ! r) = None"
  shows "tmap es (kchars k) = None"
  using assms(1)
proof (cases rule: find_entryE)
  case (found jr)
  with assms show ?thesis by (auto simp: match_at_def)
next
  case (free jr jt)
  show ?thesis unfolding tmap_None_iff
  proof (intro allI impI notI)
    fix i k' assume i: "i < length es" "ekey (es ! i) = Some k'" "kchars k' = kchars k"
    note ok = wf_entriesD [OF assms(2) i(1,2)]
    have hash: "khash k' = khash k" using ok(1) assms(3) i(3) by (simp add: key_ok_hash)
    obtain j where j: "probe_pos es (home es (khash k)) j = i"
      "\<forall>j'<j. \<not> empty_at es (probe_pos es (home es (khash k)) j')"
      using ok(2) hash by (auto simp: reachable_slot_def)
    have "match_at es k i" using ok(1) assms(3) i by (auto simp: match_at_def same_key_iff)
    with free(2) j have "\<not> j < jr" by (auto simp: stop_at_def)
    moreover have "\<not> jr < j" using free(3) j(2) by auto
    ultimately have "j = jr" by simp
    with free(3) j(1) i(2) show False by (simp add: empty_at_def)
  qed
qed

lemma find_entry_reachable:
  assumes "find_entry es k = Some r"
  shows "reachable_slot es (home es (khash k)) r"
  using assms
  by (cases rule: find_entryE) (auto simp: reachable_slot_def stop_at_def intro: le_less_trans)

section \<open>Writing a slot\<close>

abbreviation put_at :: "entry list \<Rightarrow> nat \<Rightarrow> skey \<Rightarrow> val \<Rightarrow> entry list" where
  "put_at es r k v \<equiv> es[r := \<lparr>ekey = Some k, evalue = v\<rparr>]"

lemma empty_at_put: "r < length es \<Longrightarrow> empty_at (put_at es r k v) i \<longleftrightarrow> i \<noteq> r \<and> empty_at es i"
  by (auto simp: empty_at_def nth_list_update)

lemma empty_at_tombstone: "r < length es \<Longrightarrow> empty_at (es[r := tombstone]) i \<longleftrightarrow> i \<noteq> r \<and> empty_at es i"
  by (auto simp: empty_at_def nth_list_update tombstone_def)

lemma home_update [simp]: "home (es[r := e]) h = home es h"
  by (simp add: home_def)

lemma probe_pos_update [simp]: "probe_pos (es[r := e]) h j = probe_pos es h j"
  by (simp add: probe_pos_def)

lemma reachable_slot_fill:
  assumes "reachable_slot es h i" "\<And>j. empty_at es' j \<Longrightarrow> empty_at es j" "length es' = length es"
  shows "reachable_slot es' h i"
  using assms by (fastforce simp: reachable_slot_def probe_pos_def)

lemma used_fill:
  assumes "\<And>i. empty_at es' i \<longleftrightarrow> i \<noteq> r \<and> empty_at es i" "length es' = length es" "r < length es"
  shows "used es' = (if empty_at es r then used es + 1 else used es)"
proof -
  have "{i. i < length es' \<and> \<not> empty_at es' i} = insert r {i. i < length es \<and> \<not> empty_at es i}"
    using assms by auto
  then show ?thesis by (simp add: used_def card_insert_if assms(3))
qed

lemma wf_entries_put:
  assumes wf: "wf_entries S es" and k: "key_ok S k" and r: "find_entry es k = Some r"
  shows "wf_entries S (put_at es r k v)"
proof -
  have len: "r < length es" by (rule find_entry_less [OF r])
  have fill: "empty_at (put_at es r k v) j \<Longrightarrow> empty_at es j" for j
    using empty_at_put [OF len] by simp
  have other: "kchars k' \<noteq> kchars k" if "i < length es" "i \<noteq> r" "ekey (es ! i) = Some k'" for i k'
  proof (cases "ekey (es ! r)")
    case None
    then show ?thesis
      using find_entry_None_key [OF r wf k] that by (auto simp: tmap_None_iff)
  next
    case (Some k'')
    then show ?thesis
      using find_entry_Some_key [OF r wf k] wf_entries_unique [OF wf _ len that(3)] that by auto
  qed
  have "key_ok S k' \<and> reachable_slot (put_at es r k v) (home (put_at es r k v) (khash k')) i"
    if "i < length es" "ekey (put_at es r k v ! i) = Some k'" for i k'
  proof (cases "i = r")
    case True
    with that k find_entry_reachable [OF r] fill show ?thesis
      by (auto intro: reachable_slot_fill)
  next
    case False
    with that wf_entriesD [OF wf that(1)] fill show ?thesis
      by (auto intro: reachable_slot_fill)
  qed
  moreover have "i = i'" if "i < length es" "i' < length es" "ekey (put_at es r k v ! i) = Some k1"
    "ekey (put_at es r k v ! i') = Some k2" "kchars k1 = kchars k2" for i i' k1 k2
  proof -
    have k1: "if i = r then k1 = k else ekey (es ! i) = Some k1"
      and k2: "if i' = r then k2 = k else ekey (es ! i') = Some k2"
      using that len by (auto simp: nth_list_update split: if_splits)
    have "i = r \<longleftrightarrow> i' = r"
      using k1 k2 that(1,2,5) other [of i k1] other [of i' k2] by metis
    then show ?thesis
      using k1 k2 that(1,2,5) wf_entries_unique [OF wf that(1,2)] by metis
  qed
  ultimately show ?thesis unfolding wf_entries_def by simp
qed

lemma tmap_put:
  assumes wf: "wf_entries S es" and k: "key_ok S k" and r: "find_entry es k = Some r"
  shows "tmap (put_at es r k v) = (tmap es)(kchars k \<mapsto> v)"
proof (rule ext)
  fix c
  have len: "r < length es" by (rule find_entry_less [OF r])
  note wf' = wf_entries_put [OF wf k r, of v]
  have key: "kchars k' = kchars k" if "ekey (es ! r) = Some k'" for k'
    by (rule find_entry_Some_key [OF r wf k that])
  have "tmap (put_at es r k v) c = Some w \<longleftrightarrow> (if c = kchars k then w = v else tmap es c = Some w)" for w
  proof (cases "c = kchars k")
    case True
    have "tmap (put_at es r k v) (kchars k) = Some v"
      unfolding tmap_Some_iff [OF wf'] using len by (intro exI [of _ r]) simp
    with True show ?thesis by auto
  next
    case False
    then have "slot_holds (put_at es r k v) i c w \<longleftrightarrow> slot_holds es i c w" for i
      using key by (auto simp: slot_holds_def len nth_list_update)
    with False show ?thesis by (simp add: tmap_slot [OF wf'] tmap_slot [OF wf])
  qed
  then show "tmap (put_at es r k v) c = ((tmap es)(kchars k \<mapsto> v)) c"
    by (metis fun_upd_apply option.exhaust)
qed

lemma used_put:
  assumes "r < length es"
  shows "used (put_at es r k v) = (if empty_at es r then used es + 1 else used es)"
  using assms by (intro used_fill empty_at_put) auto

lemma wf_entries_tombstone:
  assumes wf: "wf_entries S es" and len: "r < length es"
  shows "wf_entries S (es[r := tombstone])"
proof -
  have fill: "empty_at (es[r := tombstone]) j \<Longrightarrow> empty_at es j" for j
    using empty_at_tombstone [OF len] by simp
  have key: "ekey (es[r := tombstone] ! i) = (if i = r then None else ekey (es ! i))" for i
    using len by (simp add: tombstone_def nth_list_update)
  have "key_ok S k' \<and> reachable_slot (es[r := tombstone]) (home es (khash k')) i"
    if "i < length es" "ekey (es ! i) = Some k'" for i k'
    using wf_entriesD [OF wf that] fill by (auto intro: reachable_slot_fill)
  moreover have "i = i'" if "i < length es" "i' < length es" "ekey (es ! i) = Some k1"
    "ekey (es ! i') = Some k2" "kchars k1 = kchars k2" for i i' k1 k2
    using that by (intro wf_entries_unique [OF wf])
  ultimately show ?thesis unfolding wf_entries_def key by (simp split: if_splits)
qed

lemma tmap_tombstone:
  assumes wf: "wf_entries S es" and len: "r < length es" and k: "ekey (es ! r) = Some k"
  shows "tmap (es[r := tombstone]) = (tmap es)(kchars k := None)"
proof (rule ext)
  fix c
  note wf' = wf_entries_tombstone [OF wf len]
  have "slot_holds (es[r := tombstone]) i c w \<longleftrightarrow> c \<noteq> kchars k \<and> slot_holds es i c w" for i w
    using wf_entries_unique [OF wf _ len _ k, of i] len k
    by (cases "i = r") (auto simp: slot_holds_def tombstone_def)
  then have "tmap (es[r := tombstone]) c = Some w \<longleftrightarrow> c \<noteq> kchars k \<and> tmap es c = Some w" for w
    by (simp add: tmap_slot [OF wf'] tmap_slot [OF wf])
  then show "tmap (es[r := tombstone]) c = ((tmap es)(kchars k := None)) c"
    by (metis fun_upd_apply option.exhaust)
qed

lemma used_tombstone:
  assumes "r < length es"
  shows "used (es[r := tombstone]) = (if empty_at es r then used es + 1 else used es)"
  using assms by (intro used_fill empty_at_tombstone) auto

section \<open>Rehashing\<close>

lemma wf_fresh [simp]: "wf_entries S (replicate n empty_entry)" "used (replicate n empty_entry) = 0"
    "tmap (replicate n empty_entry) = Map.empty"
  by (auto simp: wf_entries_def empty_entry_def used_0 empty_at_def tmap_None_iff fun_eq_iff)

lemma length_filter_keys: "length (filter (\<lambda>e. ekey e \<noteq> None) es) \<le> used es"
proof -
  have "length (filter (\<lambda>e. ekey e \<noteq> None) es) = card {i. i < length es \<and> ekey (es ! i) \<noteq> None}"
    by (rule length_filter_conv_card)
  also have "\<dots> \<le> used es"
    unfolding used_def by (rule card_mono) (auto simp: empty_at_def)
  finally show ?thesis .
qed

definition no_tombstones :: "entry list \<Rightarrow> bool" where
  "no_tombstones es \<longleftrightarrow> (\<forall>i<length es. ekey (es ! i) = None \<longrightarrow> empty_at es i)"

lemma no_tombstones_fresh [simp]: "no_tombstones (replicate n empty_entry)"
  by (simp add: no_tombstones_def empty_at_def empty_entry_def)

lemma no_tombstones_put: "no_tombstones es \<Longrightarrow> no_tombstones (put_at es r k v)"
  by (cases "r < length es") (auto simp: no_tombstones_def empty_at_def nth_list_update)

lemma rehash_correct:
  assumes "wf_entries S dst" "used dst = n" "no_tombstones dst"
    and "length (filter (\<lambda>e. ekey e \<noteq> None) es) + n < length dst"
    and "\<forall>e\<in>set es. \<forall>k. ekey e = Some k \<longrightarrow> key_ok S k \<and> tmap dst (kchars k) = None"
    and "distinct (map fst (List.map_filter entry_pair es))"
  shows "\<exists>es' n'. rehash es dst n = Some (es', n') \<and> wf_entries S es' \<and> used es' = n' \<and>
    n' = n + length (filter (\<lambda>e. ekey e \<noteq> None) es) \<and> length es' = length dst \<and>
    tmap es' = tmap dst ++ map_of (List.map_filter entry_pair es)"
  using assms
proof (induction es arbitrary: dst n)
  case Nil
  then show ?case by (simp add: List.map_filter_def)
next
  case (Cons e es)
  show ?case
  proof (cases "ekey e")
    case None
    with Cons.prems Cons.IH [of dst n] show ?thesis
      by (auto simp: List.map_filter_def entry_pair_def)
  next
    case (Some k)
    note wf = Cons.prems(1)
    have k: "key_ok S k" and fresh: "tmap dst (kchars k) = None"
      using Cons.prems(5) Some by auto
    obtain r where r: "find_entry dst k = Some r"
      using find_entry_returns [of dst k] Cons.prems(2,4) by auto
    have len: "r < length dst" by (rule find_entry_less [OF r])
    have "ekey (dst ! r) = None"
    proof (rule ccontr)
      assume "ekey (dst ! r) \<noteq> None"
      then obtain k' where k': "ekey (dst ! r) = Some k'" by blast
      with find_entry_Some_key [OF r wf k] have "kchars k' = kchars k" by blast
      with k' len fresh show False by (auto simp: tmap_None_iff)
    qed
    with Cons.prems(3) len have emp: "empty_at dst r" by (simp add: no_tombstones_def)
    let ?dst = "put_at dst r k (evalue e)"
    have pairs: "List.map_filter entry_pair (e # es)
        = (kchars k, evalue e) # List.map_filter entry_pair es"
      using Some by (simp add: List.map_filter_def entry_pair_def)
    with Cons.prems(6) have notin: "kchars k \<notin> fst ` set (List.map_filter entry_pair es)" by simp
    have rest: "key_ok S k' \<and> tmap ?dst (kchars k') = None" if "e' \<in> set es" "ekey e' = Some k'" for e' k'
    proof -
      have "(kchars k', evalue e') \<in> set (List.map_filter entry_pair es)"
        using that by (force simp: List.map_filter_def entry_pair_def image_iff)
      then have "kchars k' \<noteq> kchars k" using notin by force
      then show ?thesis
        using Cons.prems(5) that by (auto simp: tmap_put [OF wf k r])
    qed
    have "\<exists>es' n'. rehash es ?dst (n + 1) = Some (es', n') \<and> wf_entries S es' \<and> used es' = n' \<and>
      n' = n + 1 + length (filter (\<lambda>e. ekey e \<noteq> None) es) \<and> length es' = length ?dst \<and>
      tmap es' = tmap ?dst ++ map_of (List.map_filter entry_pair es)"
    proof (rule Cons.IH)
      show "used ?dst = n + 1" using emp Cons.prems(2) by (simp add: used_put [OF len])
    qed (use Cons.prems Some rest pairs in
        \<open>auto intro: wf_entries_put [OF wf k r] no_tombstones_put\<close>)
    moreover have "tmap ?dst ++ map_of (List.map_filter entry_pair es)
        = tmap dst ++ map_of (List.map_filter entry_pair (e # es))"
      using notin
      by (simp only: pairs tmap_put [OF wf k r] map_of.simps fst_conv snd_conv map_add_upd)
        (rule map_add_upd_left, simp add: dom_map_of_conv_image_fst)
    ultimately show ?thesis using Some r by auto
  qed
qed

lemma distinct_pairs:
  assumes "wf_entries S es"
  shows "distinct (map fst (List.map_filter entry_pair es))"
proof -
  let ?P = "\<lambda>i. ekey (es ! i) \<noteq> None"
  have mf: "List.map_filter entry_pair es
      = map (\<lambda>i. (kchars (the (ekey (es ! i))), evalue (es ! i))) (filter ?P [0..<length es])"
    unfolding List.map_filter_def
    by (subst (1) map_nth [of es, symmetric], subst filter_map)
      (auto simp: entry_pair_def o_def cong: filter_cong)
  show ?thesis unfolding mf map_map
    by (rule distinct_map [THEN iffD2])
      (auto simp: inj_on_def o_def intro: wf_entries_unique [OF assms])
qed

lemma adjust_capacity_correct:
  assumes ok: "wf_entries S (entries t)" and cap: "used (entries t) < cap"
  shows "\<exists>t'. adjust_capacity t cap = Some t' \<and> wf_entries S (entries t') \<and>
    tcount t' = used (entries t') \<and> tcount t' \<le> used (entries t) \<and> capacity t' = cap \<and>
    table_map t' = table_map t \<and> version t' = version t \<and> tarray t' = tarray t \<and>
    array_max t' = array_max t"
proof -
  let ?n = "length (filter (\<lambda>e. ekey e \<noteq> None) (entries t))"
  have n: "?n \<le> used (entries t)" by (rule length_filter_keys)
  have keys: "\<forall>e\<in>set (entries t). \<forall>k. ekey e = Some k \<longrightarrow> key_ok S k \<and>
      tmap (replicate cap empty_entry) (kchars k) = None"
    using ok by (auto simp: in_set_conv_nth dest: wf_entriesD(1))
  have "\<exists>es' n'. rehash (entries t) (replicate cap empty_entry) 0 = Some (es', n') \<and>
      wf_entries S es' \<and> used es' = n' \<and> n' = 0 + ?n \<and> length es' = length (replicate cap empty_entry) \<and>
      tmap es' = tmap (replicate cap empty_entry) ++ map_of (List.map_filter entry_pair (entries t))"
    by (rule rehash_correct [OF _ _ _ _ keys distinct_pairs [OF ok]]) (use n cap in auto)
  then obtain es' where es': "rehash (entries t) (replicate cap empty_entry) 0 = Some (es', ?n)"
    "wf_entries S es'" "used es' = ?n" "length es' = cap"
    "tmap es' = map_of (List.map_filter entry_pair (entries t))"
    by auto
  have "table_map (t\<lparr>entries := es', tcount := ?n\<rparr>) = table_map t"
    using es'(5) by (simp add: tmap_def [of "entries t"])
  with es' n show ?thesis by (auto simp: adjust_capacity_def)
qed

section \<open>The operations implement a finite map\<close>

lemma table_ok_init [simp]: "table_ok S init_table" "table_map init_table = Map.empty"
  by (simp_all add: table_ok_def init_table_def wf_entries_def used_def tmap_def List.map_filter_def)

lemma table_ok_room: "table_ok S t \<Longrightarrow> tcount t \<noteq> 0 \<Longrightarrow> used (entries t) < capacity t"
  by (auto simp: table_ok_def)

lemma tmap_unused: "used es = 0 \<Longrightarrow> tmap es = Map.empty"
  by (auto simp: used_0 empty_at_def tmap_None_iff fun_eq_iff)

lemma table_get_correct:
  assumes ok: "table_ok S t" and k: "key_ok S k"
  shows "table_get t k = Some (table_map t (kchars k))"
proof (cases "tcount t = 0")
  case True
  with ok show ?thesis by (simp add: table_get_def table_ok_def tmap_unused)
next
  case False
  have wf: "wf_entries S (entries t)" using ok by (simp add: table_ok_def)
  obtain r where r: "find_entry (entries t) k = Some r"
    using find_entry_returns [OF table_ok_room [OF ok False]] by blast
  show ?thesis
  proof (cases "ekey (entries t ! r)")
    case None
    then show ?thesis
      using False r find_entry_None_key [OF r wf k] by (simp add: table_get_def)
  next
    case (Some k')
    have "table_map t (kchars k) = Some (evalue (entries t ! r))"
      unfolding tmap_Some_iff [OF wf]
      using Some find_entry_less [OF r] find_entry_Some_key [OF r wf k] by blast
    then show ?thesis using False r Some by (simp add: table_get_def)
  qed
qed

lemma table_set_correct:
  assumes ok: "table_ok S t" and k: "key_ok S k"
  shows "\<exists>t'. table_set t k v = Some (t', table_map t (kchars k) = None) \<and> table_ok S t' \<and>
    table_map t' = (table_map t)(kchars k \<mapsto> v) \<and> version t' = version t + 1 \<and>
    tarray t' = tarray t \<and> array_max t' = array_max t"
proof -
  have wf0: "wf_entries S (entries t)" and cnt0: "tcount t = used (entries t)"
    and load0: "4 * tcount t \<le> 3 * capacity t"
    using ok by (auto simp: table_ok_def)
  obtain t1 where t1: "(if over_load t then adjust_capacity t (grown_capacity t) else Some t) = Some t1"
    and wf: "wf_entries S (entries t1)" and cnt: "tcount t1 = used (entries t1)"
    and load: "4 * (tcount t1 + 1) \<le> 3 * capacity t1"
    and same: "table_map t1 = table_map t" "version t1 = version t" "tarray t1 = tarray t"
      "array_max t1 = array_max t"
  proof (cases "over_load t")
    case True
    have "used (entries t) < grown_capacity t"
      using load0 cnt0 by (auto simp: grown_capacity_def)
    from adjust_capacity_correct [OF wf0 this] obtain t' where
      "adjust_capacity t (grown_capacity t) = Some t'" "wf_entries S (entries t')"
      "tcount t' = used (entries t')" "tcount t' \<le> used (entries t)"
      "capacity t' = grown_capacity t" "table_map t' = table_map t" "version t' = version t"
      "tarray t' = tarray t" "array_max t' = array_max t" by blast
    with True cnt0 load0 show ?thesis
      by (intro that [of t']) (auto simp: grown_capacity_def split: if_splits)
  next
    case False
    then show ?thesis using wf0 cnt0 by (intro that [of t]) (auto simp: over_load_def)
  qed
  obtain r where r: "find_entry (entries t1) k = Some r"
    using find_entry_returns [of "entries t1" k] cnt load by auto
  note len = find_entry_less [OF r]
  have "ekey (entries t1 ! r) = None \<longleftrightarrow> table_map t1 (kchars k) = None"
    using find_entry_None_key [OF r wf k] find_entry_Some_key [OF r wf k] len
    by (cases "ekey (entries t1 ! r)") (auto simp: tmap_None_iff)
  then have new: "ekey (entries t1 ! r) = None \<longleftrightarrow> table_map t (kchars k) = None"
    by (simp only: same(1))
  have emp: "empty_at (entries t1) r \<longleftrightarrow> ekey (entries t1 ! r) = None \<and> is_nil (evalue (entries t1 ! r))"
    by (simp add: empty_at_def)
  show ?thesis
    using wf_entries_put [OF wf k r] tmap_put [OF wf k r] used_put [OF len] len cnt load same new emp
    by (auto simp: table_set_def t1 r table_ok_def Let_def)
qed

lemma table_delete_correct:
  assumes ok: "table_ok S t" and k: "key_ok S k"
  shows "\<exists>t'. table_delete t k = Some (t', table_map t (kchars k) \<noteq> None) \<and> table_ok S t' \<and>
    table_map t' = (table_map t)(kchars k := None) \<and>
    version t' = version t + (if table_map t (kchars k) = None then 0 else 1) \<and>
    tarray t' = tarray t \<and> array_max t' = array_max t \<and> tcount t' = tcount t"
proof (cases "tcount t = 0")
  case True
  with ok have "table_map t = Map.empty" by (simp add: table_ok_def tmap_unused)
  with True ok show ?thesis by (simp add: table_delete_def)
next
  case False
  have wf: "wf_entries S (entries t)" using ok by (simp add: table_ok_def)
  obtain r where r: "find_entry (entries t) k = Some r"
    using find_entry_returns [OF table_ok_room [OF ok False]] by blast
  note len = find_entry_less [OF r]
  show ?thesis
  proof (cases "ekey (entries t ! r)")
    case None
    with find_entry_None_key [OF r wf k] False r ok show ?thesis
      by (auto simp: table_delete_def fun_upd_idem)
  next
    case (Some k')
    have same: "kchars k' = kchars k" by (rule find_entry_Some_key [OF r wf k Some])
    have ne: "table_map t (kchars k) \<noteq> None"
      using Some len same by (auto simp: tmap_None_iff)
    have emp: "\<not> empty_at (entries t) r" using Some by (simp add: empty_at_def)
    show ?thesis
      using wf_entries_tombstone [OF wf len] tmap_tombstone [OF wf len Some]
        used_tombstone [OF len] same ne emp False r Some ok
      by (auto simp: table_delete_def table_ok_def)
  qed
qed


text \<open>The hash table meets the contract, for the heap's strings \<open>S\<close>.\<close>

interpretation tbl: versioned_store "table_ok S" "key_ok S" kchars table_map table_get table_set
    table_delete version for S
proof (unfold_locales, goal_cases)
  case (1 s k)
  then show ?case by (rule table_get_correct)
next
  case (2 s k v)
  then show ?case using table_set_correct [of S s k v] by blast
next
  case (3 s k)
  then show ?case using table_delete_correct [of S s k] by blast
next
  case (4 s k v s' b)
  then show ?case using table_set_correct [of S s k v] by auto
next
  case (5 s k s' b)
  then show ?case using table_delete_correct [of S s k] by (auto split: if_splits)
qed


section \<open>Lookup by contents and copying\<close>

text \<open>
  \<open>table_find_string\<close> follows the path of \<open>find_entry\<close> but compares contents only: it is what
  interning uses before a string object exists.
\<close>

lemma find_string_from_probe:
  assumes keys: "\<forall>i<length es. \<forall>k'. ekey (es ! i) = Some k' \<longrightarrow> key_ok S k'" and k: "key_ok S k"
  shows "i < length es \<Longrightarrow> (\<And>j. tomb = Some j \<Longrightarrow> ekey (es ! j) = None) \<Longrightarrow>
    find_string_from es (kchars k) (khash k) i fuel
      = map_option (\<lambda>r. ekey (es ! r)) (probe es k i tomb fuel)"
proof (induction fuel arbitrary: i tomb)
  case 0
  then show ?case by simp
next
  case (Suc fuel)
  have nxt: "(i + 1) mod length es < length es" using Suc.prems(1) by (auto intro: mod_less_divisor)
  show ?case
  proof (cases "ekey (es ! i)")
    case None
    have "ekey (es ! (case tomb of Some j \<Rightarrow> j | None \<Rightarrow> i)) = None"
      using None Suc.prems(2) by (cases tomb) auto
    moreover have "find_string_from es (kchars k) (khash k) ((i + 1) mod length es) fuel =
        map_option (\<lambda>r. ekey (es ! r)) (probe es k ((i + 1) mod length es)
          (case tomb of Some j \<Rightarrow> Some j | None \<Rightarrow> Some i) fuel)"
      by (rule Suc.IH [OF nxt]) (use None Suc.prems(2) in \<open>auto split: option.splits\<close>)
    ultimately show ?thesis using None by (simp add: Let_def)
  next
    case (Some k')
    then have k': "key_ok S k'" using keys Suc.prems(1) by blast
    have "key_length k' = length (kchars k) \<and> khash k' = khash k \<and> kchars k' = kchars k
        \<longleftrightarrow> same_key k' k"
      using same_key_iff [OF k' k] k k' by (auto simp: key_length_def key_ok_def)
    with Some Suc.IH [OF nxt Suc.prems(2)] show ?thesis by (simp add: Let_def)
  qed
qed

lemma wf_entries_fresh_key:
  assumes "wf_entries S es"
  shows "\<exists>S' k. wf_entries S' es \<and> key_ok S' k \<and> kchars k = cs"
proof -
  let ?A = "(\<lambda>e. case ekey e of None \<Rightarrow> 0 | Some k \<Rightarrow> kaddr k) ` set es"
  obtain a where a: "a \<notin> ?A" using ex_new_if_finite [of ?A] infinite_UNIV_nat by blast
  have "kaddr k \<noteq> a" if "i < length es" "ekey (es ! i) = Some k" for i k
  proof
    assume "kaddr k = a"
    moreover have "es ! i \<in> set es" using that(1) by simp
    ultimately have "a \<in> ?A" using that(2) by (intro image_eqI [of _ _ "es ! i"]) simp_all
    with a show False by blast
  qed
  then have "key_ok (S(a := cs)) k" if "i < length es" "ekey (es ! i) = Some k" for i k
    using that wf_entriesD(1) [OF assms that] by (simp add: key_ok_def)
  then have "wf_entries (S(a := cs)) es"
    using assms unfolding wf_entries_def by blast
  then show ?thesis
    by (intro exI [of _ "S(a := cs)"]
        exI [of _ "\<lparr>kaddr = a, kchars = cs, khash = hash_string cs\<rparr>"]) (simp add: key_ok_def)
qed

lemma table_find_string_correct:
  assumes ok: "table_ok S t"
  shows "\<exists>r. table_find_string t cs (hash_string cs) = Some r \<and>
    (case r of None \<Rightarrow> table_map t cs = None
     | Some k \<Rightarrow> kchars k = cs \<and> (\<exists>i<capacity t. ekey (entries t ! i) = Some k))"
proof (cases "tcount t = 0")
  case True
  with ok show ?thesis by (simp add: table_find_string_def table_ok_def tmap_unused)
next
  case False
  have wf0: "wf_entries S (entries t)" using ok by (simp add: table_ok_def)
  from wf_entries_fresh_key [OF wf0] obtain S' k where
    wf: "wf_entries S' (entries t)" and k: "key_ok S' k" and cs: "kchars k = cs" by blast
  have keys: "\<forall>i<capacity t. \<forall>k'. ekey (entries t ! i) = Some k' \<longrightarrow> key_ok S' k'"
    using wf_entriesD(1) [OF wf] by blast
  have room: "used (entries t) < capacity t" by (rule table_ok_room [OF ok False])
  obtain r where r: "find_entry (entries t) k = Some r" using find_entry_returns [OF room] by blast
  have "home (entries t) (khash k) < capacity t"
    using room by (auto simp: home_def intro: mod_less_divisor)
  from find_string_from_probe [OF keys k this, of None "capacity t"] r
  have fs: "table_find_string t cs (hash_string cs) = Some (ekey (entries t ! r))"
    using False cs key_ok_hash [OF k] by (simp add: table_find_string_def find_entry_def)
  show ?thesis
  proof (cases "ekey (entries t ! r)")
    case None
    with fs find_entry_None_key [OF r wf k] cs show ?thesis by simp
  next
    case (Some k')
    with fs find_entry_Some_key [OF r wf k] cs find_entry_less [OF r] show ?thesis by auto
  qed
qed

lemma add_entries_correct:
  assumes "table_ok S t" "\<forall>e\<in>set es. \<forall>k. ekey e = Some k \<longrightarrow> key_ok S k"
  shows "\<exists>t'. add_entries es t = Some t' \<and> table_ok S t' \<and> tarray t' = tarray t \<and>
    table_map t' = fold (\<lambda>(c, v) m. m(c \<mapsto> v)) (List.map_filter entry_pair es) (table_map t)"
  using assms
proof (induction es arbitrary: t)
  case Nil
  then show ?case by (simp add: List.map_filter_def)
next
  case (Cons e es)
  show ?case
  proof (cases "ekey e")
    case None
    with Cons.prems Cons.IH [of t] show ?thesis by (simp add: List.map_filter_def entry_pair_def)
  next
    case (Some k)
    then have k: "key_ok S k" using Cons.prems(2) by simp
    obtain t1 b where t1: "table_set t k (evalue e) = Some (t1, b)" "table_ok S t1"
      "table_map t1 = (table_map t)(kchars k \<mapsto> evalue e)" "tarray t1 = tarray t"
      using table_set_correct [OF Cons.prems(1) k, of "evalue e"] by blast
    have "List.map_filter entry_pair (e # es) = (kchars k, evalue e) # List.map_filter entry_pair es"
      using Some by (simp add: List.map_filter_def entry_pair_def)
    with Cons.IH [OF t1(2)] Cons.prems(2) Some t1 show ?thesis by simp
  qed
qed

lemma fold_upd_map_of:
  "distinct (map fst ps) \<Longrightarrow> fold (\<lambda>(c, v) m. m(c \<mapsto> v)) ps m = m ++ map_of ps"
  by (induction ps arbitrary: m)
    (auto simp: map_add_upd_left dom_map_of_conv_image_fst split: prod.splits)

lemma table_add_all_correct:
  assumes "table_ok S src" "table_ok S dst"
  shows "\<exists>t'. table_add_all src dst = Some t' \<and> table_ok S t' \<and>
    table_map t' = table_map dst ++ table_map src \<and> tarray t' = tarray dst"
proof -
  have wf: "wf_entries S (entries src)" using assms(1) by (simp add: table_ok_def)
  then have "\<forall>e\<in>set (entries src). \<forall>k. ekey e = Some k \<longrightarrow> key_ok S k"
    by (auto simp: in_set_conv_nth dest: wf_entriesD(1))
  from add_entries_correct [OF assms(2) this] show ?thesis
    by (auto simp: table_add_all_def fold_upd_map_of [OF distinct_pairs [OF wf]]
        tmap_def [of "entries src"])
qed


section \<open>The array part\<close>

text \<open>\<open>array_max\<close> is the highest index that holds a non-nil value.\<close>

definition array_ok :: "table \<Rightarrow> bool" where
  "array_ok t \<longleftrightarrow>
     array_max t \<le> array_capacity t \<and>
     (\<forall>i<array_capacity t. array_max t \<le> i \<longrightarrow> is_nil (tarray t ! i)) \<and>
     (0 < array_max t \<longrightarrow> \<not> is_nil (tarray t ! (array_max t - 1)))"

lemma double_until_gt: "0 < cap \<Longrightarrow> raw < double_until raw cap \<and> cap \<le> double_until raw cap"
proof (induction raw cap rule: double_until.induct)
  case (1 raw cap)
  show ?case
  proof (cases "cap \<le> raw")
    case True
    with 1 have "raw < double_until raw (cap * 2) \<and> cap * 2 \<le> double_until raw (cap * 2)" by simp
    with True 1(2) show ?thesis by (subst (1 2) double_until.simps) auto
  next
    case False
    then show ?thesis by (subst (1 2) double_until.simps) auto
  qed
qed

lemma shrink_max_props:
  "shrink_max xs n \<le> n"
  "n \<le> length xs \<Longrightarrow> shrink_max xs n \<le> i \<Longrightarrow> i < n \<Longrightarrow> is_nil (xs ! i)"
  "n \<le> length xs \<Longrightarrow> 0 < shrink_max xs n \<Longrightarrow> \<not> is_nil (xs ! (shrink_max xs n - 1))"
  by (induction n) (auto simp: less_Suc_eq split: if_splits)

definition array_grown :: "table \<Rightarrow> nat \<Rightarrow> val list" where
  "array_grown t i =
     (let cap = (if array_capacity t \<le> i
                 then double_until i (if array_capacity t = 0 then 8 else array_capacity t * 2)
                 else array_capacity t)
      in tarray t @ replicate (cap - array_capacity t) VNil)"

lemma array_grown_props:
  "i < length (array_grown t i)" "array_capacity t \<le> length (array_grown t i)"
  "j < length (array_grown t i) \<Longrightarrow>
     array_grown t i ! j = (if j < array_capacity t then tarray t ! j else VNil)"
  using double_until_gt [of "if array_capacity t = 0 then 8 else array_capacity t * 2" i]
  by (auto simp: array_grown_def Let_def nth_append)

lemma table_set_array_grown:
  "table_set_array t index v =
    (if index < 1 \<or> int (array_max t) + 1 < index \<and> int (array_capacity t) < index then None
     else let i = nat (index - 1); xs = (array_grown t i)[i := v]
       in Some (t\<lparr>tarray := xs, array_max :=
            (if \<not> is_nil v then max (array_max t) (nat index)
             else if nat index = array_max t then shrink_max xs (array_max t - 1)
             else array_max t)\<rparr>))"
  by (simp add: table_set_array_def array_grown_def Let_def)

lemma table_set_array_get:
  assumes "table_set_array t index v = Some t'"
  shows "table_get_array t' j =
    (if j = index then (if is_nil v then None else Some v) else table_get_array t j)"
proof -
  have idx: "1 \<le> index" and arr: "tarray t' = (array_grown t (nat (index - 1)))[nat (index - 1) := v]"
    using assms by (auto simp: table_set_array_grown Let_def split: if_splits)
  note g = array_grown_props [where t = t and i = "nat (index - 1)"]
  show ?thesis
  proof (cases "1 \<le> j \<and> nat (j - 1) < length (array_grown t (nat (index - 1)))")
    case True
    then have j: "1 \<le> j" "nat (j - 1) < length (array_grown t (nat (index - 1)))" by auto
    have ne: "nat (index - 1) = nat (j - 1) \<longleftrightarrow> j = index" using idx j by auto
    have "tarray t' ! nat (j - 1) = (if j = index then v
        else if nat (j - 1) < array_capacity t then tarray t ! nat (j - 1) else VNil)"
      using j g(1) by (simp add: arr nth_list_update g(3) ne)
    moreover have "array_capacity t' = length (array_grown t (nat (index - 1)))" by (simp add: arr)
    ultimately show ?thesis
      using j by (cases "j = index") (simp_all add: table_get_array_def Let_def nat_less_iff)
  next
    case False
    with g(1,2) idx arr have "j \<noteq> index" "table_get_array t' j = None" "table_get_array t j = None"
      by (auto simp: table_get_array_def nat_less_iff)
    then show ?thesis by simp
  qed
qed

lemma table_set_array_ok:
  assumes set: "table_set_array t index v = Some t'" and ok: "array_ok t"
  shows "array_ok t'"
proof -
  define i where "i = nat (index - 1)"
  define xs where "xs = (array_grown t i)[i := v]"
  have i: "nat index = Suc i" "\<not> (array_max t < i \<and> array_capacity t \<le> i)"
    and t': "tarray t' = xs" "array_max t' =
      (if \<not> is_nil v then max (array_max t) (Suc i)
       else if Suc i = array_max t then shrink_max xs (array_max t - 1) else array_max t)"
    using set by (auto simp: table_set_array_grown Let_def i_def xs_def Suc_nat_eq_nat_zadd1
        split: if_splits)
  note g = array_grown_props [where t = t and i = i]
  have len: "i < length xs" "array_max t \<le> length xs"
    using g(1,2) ok by (auto simp: xs_def array_ok_def)
  have xs: "xs ! j = (if j = i then v else if j < array_capacity t then tarray t ! j else VNil)"
    if "j < length xs" for j
    using that g by (simp add: xs_def nth_list_update)
  have nil: "is_nil (xs ! j)" if "j < length xs" "array_max t \<le> j" "j \<noteq> i" for j
    using that xs ok by (auto simp: array_ok_def)
  have last: "\<not> is_nil (xs ! (array_max t - 1))" if "0 < array_max t" "i \<noteq> array_max t - 1"
    using that xs [of "array_max t - 1"] len ok by (auto simp: array_ok_def)
  show ?thesis
  proof (cases "is_nil v")
    case False
    then have m: "array_max t' = max (array_max t) (Suc i)" using t'(2) by simp
    have "\<not> is_nil (xs ! (max (array_max t) (Suc i) - 1))"
      using last xs [OF len(1)] False by (auto simp: max_def)
    then show ?thesis using nil len m t'(1) by (auto simp: array_ok_def)
  next
    case True
    show ?thesis
    proof (cases "Suc i = array_max t")
      case top: True
      have m: "array_max t' = shrink_max xs i" using t'(2) True by (simp flip: top)
      have "is_nil (xs ! j)" if "j < length xs" "shrink_max xs i \<le> j" for j
        using shrink_max_props(2) [of i xs j] that len nil [of j] top True xs [OF len(1)]
        by (cases "j = i"; cases "j < i") auto
      then show ?thesis
        using shrink_max_props(1) [of xs i] shrink_max_props(3) [of i xs] len m t'(1) by (auto simp: array_ok_def)
    next
      case False
      then have m: "array_max t' = array_max t" using t'(2) True by simp
      have "is_nil (xs ! j)" if "j < length xs" "array_max t \<le> j" for j
        using nil [OF that] True xs [OF len(1)] by (cases "j = i") auto
      then show ?thesis using last len m t'(1) False by (auto simp: array_ok_def)
    qed
  qed
qed

lemma table_append_array:
  assumes "array_ok t"
  shows "table_set_array t (int (array_max t) + 1) v \<noteq> None"
  by (simp add: table_set_array_grown Let_def)

lemma array_ok_init [simp]: "array_ok init_table"
  by (simp add: array_ok_def init_table_def)

end
