(* ===== verification/Object.thy ===== *)
theory Object
  imports Chunk Table
begin

text \<open>
  Heap objects and the mark-and-sweep collector (\<open>src/src/object.h\<close>, \<open>src/src/object.c\<close>):
  the nine kinds of objects, the heap with its list of all objects and its byte counter,
  the allocation functions, marking, freeing and sweeping. A pointer is an address, a heap
  maps addresses to cells; addresses are never reused, so a freed address stays dangling.
  \<open>None\<close> is undefined behaviour of the C code (a dangling pointer, an uninitialised slot).
  The mark and finalize hooks of userdata are C functions of the native libraries: the
  former is the parameter \<open>umark\<close>, calls of the latter are logged in \<open>hfinal\<close>.
\<close>

section \<open>Objects\<close>

text \<open>A call frame; \<open>fip\<close> is an offset into the code of the closure's function.\<close>

record frame =
  fclosure :: addr
  fip :: nat
  fslots :: nat
  frestore :: bool
  fcache :: bool
  fhad_name :: bool
  fhad_file :: bool
  fhad_main :: bool
  fcache_name :: val
  fprev_name :: val
  fprev_file :: val
  fprev_main :: val

record handler =
  hframe_count :: nat
  hstack_top :: nat
  hexcept_ip :: "nat option"
  hfinally_ip :: "nat option"
  hhas_except :: bool
  hhas_finally :: bool
  hin_except :: bool

text \<open>\<open>pending\<close> holds the (frame, slot) pairs of \<open>pending_set_local_frames/slots\<close>.\<close>

record thread =
  tframes :: "nat \<rightharpoonup> frame"
  frame_capacity :: nat
  frame_count :: nat
  stack :: "nat \<rightharpoonup> val"
  stack_capacity :: nat
  stack_top :: nat
  open_upvalues :: "addr option"
  caller :: "addr option"
  is_generator :: bool
  generator_mode :: bool
  generator_index :: u32
  handlers :: "nat \<rightharpoonup> handler"
  handler_capacity :: nat
  handler_count :: nat
  gc_park_next :: "addr option"
  gc_park_count :: nat
  has_exception :: bool
  exception :: val
  last_error :: val
  pending :: "(nat \<times> nat) list"

record fn =
  arity :: int
  upvalue_count :: nat
  fchunk :: chunk
  fname :: "addr option"
  fdoc :: "addr option"
  defaults :: "val list"
  is_variadic :: bool
  param_types :: bytes
  param_names :: "addr option list"
  fn_is_self :: bool
  fn_is_generator :: bool

text \<open>\<open>nfast\<close> is the constant of \<open>NativeFastKind\<close>, \<open>nfun\<close> names the C function.\<close>

record native =
  nfun :: nat
  nname :: "addr option"
  nis_self :: bool
  nfast :: nat

datatype location = OnStack addr nat | InClosed

record upvalue =
  ulocation :: location
  uclosed :: val
  unext :: "addr option"

text \<open>A closure's 256 upvalue pointers, of which \<open>upvalue_count\<close> are marked by the collector.\<close>

record closure =
  clfunction :: addr
  clupvalues :: "addr option list"
  clcount :: nat

record objtable =
  otable :: table
  ometatable :: "addr option"
  ois_module :: bool

record userdata =
  udata :: "nat option"
  ufinalize :: "nat option"
  umark_hook :: "nat option"
  umetatable :: "addr option"

datatype obj =
    OString bytes u32
  | OTable objtable
  | OFunction fn
  | ONative native
  | OUpvalue upvalue
  | OClosure closure
  | OThread thread
  | OUserdata userdata
  | OBoundMethod val addr

record cell =
  is_marked :: bool
  body :: obj

record heap =
  cells :: "addr \<rightharpoonup> cell"
  objects :: "addr list"
  hnext :: addr
  bytes_allocated :: "64 word"
  next_gc :: "64 word"
  hfinal :: "(nat \<times> nat) list"

definition empty_heap :: heap where
  "empty_heap =
     \<lparr>cells = Map.empty, objects = [], hnext = 1, bytes_allocated = 0, next_gc = 1048576, hfinal = []\<rparr>"

definition obj_at :: "heap \<Rightarrow> addr \<Rightarrow> obj option" where
  "obj_at h a = map_option body (cells h a)"

definition put_obj :: "heap \<Rightarrow> addr \<Rightarrow> obj \<Rightarrow> heap" where
  "put_obj h a b =
     h\<lparr>cells := (cells h)(a := map_option (\<lambda>c. c\<lparr>body := b\<rparr>) (cells h a))\<rparr>"

section \<open>Allocation\<close>

text \<open>\<open>sizeof\<close> of the object structures and of a stack slot, a frame and a handler (LP64).\<close>

definition struct_size :: "obj \<Rightarrow> nat" where
  "struct_size b =
     (case b of OString _ _ \<Rightarrow> 40 | OTable _ \<Rightarrow> 72 | OFunction _ \<Rightarrow> 184 | ONative _ \<Rightarrow> 40
      | OUpvalue _ \<Rightarrow> 48 | OClosure _ \<Rightarrow> 40 | OThread _ \<Rightarrow> 224 | OUserdata _ \<Rightarrow> 48
      | OBoundMethod _ _ \<Rightarrow> 40)"

definition allocate_object :: "heap \<Rightarrow> obj \<Rightarrow> addr \<times> heap" where
  "allocate_object h b =
     (let a = hnext h
      in (a, h\<lparr>cells := (cells h)(a \<mapsto> \<lparr>is_marked = False, body = b\<rparr>), objects := a # objects h,
               hnext := a + 1, bytes_allocated := bytes_allocated h + of_nat (struct_size b)\<rparr>))"

definition add_bytes :: "nat \<Rightarrow> heap \<Rightarrow> heap" where
  "add_bytes n h = h\<lparr>bytes_allocated := bytes_allocated h + of_nat n\<rparr>"

definition allocate_string :: "heap \<Rightarrow> bytes \<Rightarrow> u32 \<Rightarrow> addr \<times> heap" where
  "allocate_string h cs hash = allocate_object (add_bytes (length cs + 1) h) (OString cs hash)"

definition copy_string :: "heap \<Rightarrow> bytes \<Rightarrow> addr \<times> heap" where
  "copy_string h cs = allocate_string h cs (hash_string cs)"

definition take_string :: "heap \<Rightarrow> bytes \<Rightarrow> addr \<times> heap" where
  "take_string h cs = allocate_string h cs (hash_string cs)"

definition new_table :: "heap \<Rightarrow> addr \<times> heap" where
  "new_table h =
     allocate_object h (OTable \<lparr>otable = init_table, ometatable = None, ois_module = False\<rparr>)"

definition new_function :: "heap \<Rightarrow> addr \<times> heap" where
  "new_function h =
     allocate_object h (OFunction
       \<lparr>arity = 0, upvalue_count = 0, fchunk = init_chunk, fname = None, fdoc = None, defaults = [],
        is_variadic = False, param_types = [], param_names = [], fn_is_self = False,
        fn_is_generator = False\<rparr>)"

definition new_native :: "heap \<Rightarrow> nat \<Rightarrow> addr option \<Rightarrow> addr \<times> heap" where
  "new_native h f name =
     allocate_object h (ONative \<lparr>nfun = f, nname = name, nis_self = False, nfast = 0\<rparr>)"

definition new_upvalue :: "heap \<Rightarrow> location \<Rightarrow> addr \<times> heap" where
  "new_upvalue h loc = allocate_object h (OUpvalue \<lparr>ulocation = loc, uclosed = VNil, unext = None\<rparr>)"

definition new_closure :: "heap \<Rightarrow> addr \<Rightarrow> addr \<times> heap" where
  "new_closure h f =
     (let (a, h) = allocate_object h
            (OClosure \<lparr>clfunction = f, clupvalues = replicate 256 None, clcount = 0\<rparr>)
      in (a, add_bytes (8 * 256) h))"

definition new_thread_with_caps :: "heap \<Rightarrow> nat \<Rightarrow> nat \<Rightarrow> nat \<Rightarrow> addr \<times> heap" where
  "new_thread_with_caps h stack_cap frame_cap handler_cap =
     (let sc = max 8 stack_cap; fc = max 4 frame_cap; hc = max 4 handler_cap;
          (a, h) = allocate_object h (OThread
            \<lparr>tframes = Map.empty, frame_capacity = fc, frame_count = 0,
             stack = Map.empty, stack_capacity = sc, stack_top = 0, open_upvalues = None,
             caller = None, is_generator = False, generator_mode = False, generator_index = 0,
             handlers = Map.empty, handler_capacity = hc, handler_count = 0, gc_park_next = None,
             gc_park_count = 0, has_exception = False, exception = VNil, last_error = VNil,
             pending = []\<rparr>)
      in (a, add_bytes (16 * sc + 96 * fc + 40 * hc) h))"

definition new_thread :: "heap \<Rightarrow> addr \<times> heap" where
  "new_thread h = new_thread_with_caps h 256 64 64"

definition new_userdata_with_hooks ::
  "heap \<Rightarrow> nat option \<Rightarrow> nat option \<Rightarrow> nat option \<Rightarrow> addr \<times> heap" where
  "new_userdata_with_hooks h d fin mk =
     allocate_object h (OUserdata \<lparr>udata = d, ufinalize = fin, umark_hook = mk, umetatable = None\<rparr>)"

definition new_bound_method :: "heap \<Rightarrow> val \<Rightarrow> addr \<Rightarrow> addr \<times> heap" where
  "new_bound_method h receiver m = allocate_object h (OBoundMethod receiver m)"


section \<open>Marking\<close>

definition addrs_of_val :: "val \<Rightarrow> addr list" where
  "addrs_of_val v = (case v of VObj a \<Rightarrow> [a] | _ \<Rightarrow> [])"

definition addrs_of_opt :: "addr option \<Rightarrow> addr list" where
  "addrs_of_opt p = (case p of Some a \<Rightarrow> [a] | None \<Rightarrow> [])"

text \<open>\<open>mark_table\<close>: the pointers it marks, in order.\<close>

definition table_children :: "table \<Rightarrow> addr list" where
  "table_children t =
     concat (map (\<lambda>e. case ekey e of None \<Rightarrow> [] | Some k \<Rightarrow> kaddr k # addrs_of_val (evalue e)) (entries t)) @
     concat (map addrs_of_val (tarray t))"

text \<open>The cached pointers of one code offset.\<close>

definition ic_children :: "chunk \<Rightarrow> nat \<Rightarrow> addr list" where
  "ic_children c i =
     (case at (gic_names c) i of Some p \<Rightarrow> addrs_of_opt p | None \<Rightarrow> []) @
     (case at (gic_values c) i of Some v \<Rightarrow> addrs_of_val v | None \<Rightarrow> []) @
     (case at (tic_tables c) i of Some p \<Rightarrow> addrs_of_opt p | None \<Rightarrow> []) @
     (case at (tic_keys c) i of Some p \<Rightarrow> addrs_of_opt p | None \<Rightarrow> []) @
     (case at (tic_values c) i of Some v \<Rightarrow> addrs_of_val v | None \<Rightarrow> [])"

definition fn_children :: "fn \<Rightarrow> addr list" where
  "fn_children f =
     addrs_of_opt (fname f) @ addrs_of_opt (fdoc f) @
     concat (map addrs_of_val (va_values (constants (fchunk f)))) @
     concat (map (ic_children (fchunk f)) [0..<ccapacity (fchunk f)]) @
     concat (map addrs_of_val (defaults f)) @
     concat (map addrs_of_opt (param_names f))"

definition frame_children :: "frame \<Rightarrow> addr list" where
  "frame_children f =
     fclosure f # addrs_of_val (fcache_name f) @ addrs_of_val (fprev_name f) @
     addrs_of_val (fprev_file f) @ addrs_of_val (fprev_main f)"

text \<open>The list of open upvalues from \<open>p\<close>, along the \<open>next\<close> pointers.\<close>

partial_function (option) upvalue_chain :: "heap \<Rightarrow> addr option \<Rightarrow> addr list option" where
  "upvalue_chain h p =
     (case p of
        None \<Rightarrow> Some []
      | Some a \<Rightarrow>
          (case obj_at h a of
             Some (OUpvalue u) \<Rightarrow> do { as \<leftarrow> upvalue_chain h (unext u); Some (a # as) }
           | _ \<Rightarrow> None))"

definition thread_children :: "heap \<Rightarrow> thread \<Rightarrow> addr list option" where
  "thread_children h t =
     do {
       slots \<leftarrow> those (map (stack t) [0..<stack_top t]);
       frames \<leftarrow> those (map (tframes t) [0..<frame_count t]);
       ups \<leftarrow> upvalue_chain h (open_upvalues t);
       Some (concat (map addrs_of_val slots) @
             (if has_exception t then addrs_of_val (exception t) else []) @
             addrs_of_val (last_error t) @
             concat (map frame_children frames) @ ups @ addrs_of_opt (caller t))
     }"

text \<open>
  What \<open>mark_object\<close> marks next, in its order. \<open>umark\<close> is what a userdata's mark hook
  marks, given the hook and the data.
\<close>

definition children :: "(nat \<Rightarrow> nat \<Rightarrow> addr list) \<Rightarrow> heap \<Rightarrow> obj \<Rightarrow> addr list option" where
  "children umark h b =
     (case b of
        OString _ _ \<Rightarrow> Some []
      | OTable t \<Rightarrow> Some (table_children (otable t) @ addrs_of_opt (ometatable t))
      | OFunction f \<Rightarrow> Some (fn_children f)
      | ONative n \<Rightarrow> Some (addrs_of_opt (nname n))
      | OUpvalue u \<Rightarrow> Some (addrs_of_val (uclosed u))
      | OClosure c \<Rightarrow>
          Some (clfunction c # concat (map addrs_of_opt (take (clcount c) (clupvalues c))))
      | OThread t \<Rightarrow> thread_children h t
      | OUserdata u \<Rightarrow>
          Some ((case (udata u, umark_hook u) of (Some d, Some f) \<Rightarrow> umark f d | _ \<Rightarrow> []) @
                addrs_of_opt (umetatable u))
      | OBoundMethod r m \<Rightarrow> Some (addrs_of_val r @ [m]))"

definition set_mark :: "heap \<Rightarrow> addr \<Rightarrow> bool \<Rightarrow> heap" where
  "set_mark h a m =
     h\<lparr>cells := (cells h)(a := map_option (\<lambda>c. c\<lparr>is_marked := m\<rparr>) (cells h a))\<rparr>"

text \<open>
  The recursion of \<open>mark_object\<close> in the order it visits objects: the list holds the calls
  still to be made, the innermost first. Each step either drops a call or marks an object.
\<close>

partial_function (option) mark_all ::
  "(nat \<Rightarrow> nat \<Rightarrow> addr list) \<Rightarrow> heap \<Rightarrow> addr list \<Rightarrow> heap option" where
  "mark_all umark h todo =
     (case todo of
        [] \<Rightarrow> Some h
      | a # rest \<Rightarrow>
          (case cells h a of
             None \<Rightarrow> None
           | Some c \<Rightarrow>
               if is_marked c then mark_all umark h rest
               else
                 (case children umark h (body c) of
                    None \<Rightarrow> None
                  | Some as \<Rightarrow> mark_all umark (set_mark h a True) (as @ rest))))"

definition mark_object :: "(nat \<Rightarrow> nat \<Rightarrow> addr list) \<Rightarrow> heap \<Rightarrow> addr option \<Rightarrow> heap option" where
  "mark_object umark h p = mark_all umark h (addrs_of_opt p)"

definition mark_value :: "(nat \<Rightarrow> nat \<Rightarrow> addr list) \<Rightarrow> heap \<Rightarrow> val \<Rightarrow> heap option" where
  "mark_value umark h v = mark_all umark h (addrs_of_val v)"

section \<open>Sweeping\<close>

text \<open>What \<open>free_object\<close> subtracts from the byte counter.\<close>

definition freed_bytes :: "obj \<Rightarrow> nat" where
  "freed_bytes b =
     struct_size b +
     (case b of
        OString cs _ \<Rightarrow> length cs + 1
      | OFunction f \<Rightarrow> 16 * length (defaults f) + length (param_types f)
      | OClosure _ \<Rightarrow> 8 * 256
      | OThread t \<Rightarrow> 16 * stack_capacity t + 96 * frame_capacity t + 40 * handler_capacity t
      | _ \<Rightarrow> 0)"

definition finalizer_calls :: "obj \<Rightarrow> (nat \<times> nat) list" where
  "finalizer_calls b =
     (case b of
        OUserdata u \<Rightarrow> (case (ufinalize u, udata u) of (Some f, Some d) \<Rightarrow> [(f, d)] | _ \<Rightarrow> [])
      | _ \<Rightarrow> [])"

definition free_object :: "heap \<Rightarrow> addr \<Rightarrow> heap option" where
  "free_object h a =
     (case cells h a of
        None \<Rightarrow> None
      | Some c \<Rightarrow>
          Some (h\<lparr>cells := (cells h)(a := None),
                  bytes_allocated := bytes_allocated h - of_nat (freed_bytes (body c)),
                  hfinal := hfinal h @ finalizer_calls (body c)\<rparr>))"

text \<open>The loop over the list of all objects: the list that remains, and the heap.\<close>

fun sweep_list :: "addr list \<Rightarrow> heap \<Rightarrow> (addr list \<times> heap) option" where
  "sweep_list [] h = Some ([], h)"
| "sweep_list (a # as) h =
     (case cells h a of
        None \<Rightarrow> None
      | Some c \<Rightarrow>
          if is_marked c then
            map_option (\<lambda>(kept, h'). (a # kept, h')) (sweep_list as (set_mark h a False))
          else (case free_object h a of None \<Rightarrow> None | Some h' \<Rightarrow> sweep_list as h'))"

definition sweep_objects :: "heap \<Rightarrow> heap option" where
  "sweep_objects h =
     map_option (\<lambda>(kept, h').
        let n = bytes_allocated h' * 2
        in h'\<lparr>objects := kept, next_gc := (if n < 1048576 then 1048576 else n)\<rparr>)
       (sweep_list (objects h) h)"

section \<open>Heap lemmas\<close>

lemma obj_at_put [simp]:
  "obj_at (put_obj h a b) a' = (if a' = a \<and> obj_at h a \<noteq> None then Some b else obj_at h a')"
  by (auto simp: obj_at_def put_obj_def)

lemma put_obj_simps [simp]:
  "objects (put_obj h a b) = objects h" "hnext (put_obj h a b) = hnext h"
  "bytes_allocated (put_obj h a b) = bytes_allocated h" "next_gc (put_obj h a b) = next_gc h"
  "hfinal (put_obj h a b) = hfinal h"
  by (simp_all add: put_obj_def)

lemma dom_put_obj [simp]: "dom (cells (put_obj h a b)) = dom (cells h)"
  by (auto simp: put_obj_def dom_def)

section \<open>Reachability\<close>

definition kids :: "(nat \<Rightarrow> nat \<Rightarrow> addr list) \<Rightarrow> heap \<Rightarrow> addr \<Rightarrow> addr list option" where
  "kids umark h a = Option.bind (obj_at h a) (children umark h)"

inductive reach :: "(nat \<Rightarrow> nat \<Rightarrow> addr list) \<Rightarrow> heap \<Rightarrow> addr set \<Rightarrow> addr \<Rightarrow> bool"
  for umark h roots where
  root: "a \<in> roots \<Longrightarrow> reach umark h roots a"
| child: "reach umark h roots a \<Longrightarrow> kids umark h a = Some as \<Longrightarrow> b \<in> set as \<Longrightarrow> reach umark h roots b"

lemma reach_mono: "reach umark h R a \<Longrightarrow> R \<subseteq> R' \<Longrightarrow> reach umark h R' a"
  by (induction rule: reach.induct) (auto intro: reach.intros)

lemma reach_trans:
  "reach umark h R a \<Longrightarrow> (\<And>b. b \<in> R \<Longrightarrow> reach umark h R' b) \<Longrightarrow> reach umark h R' a"
  by (induction rule: reach.induct) (auto intro: reach.intros)

definition marked :: "heap \<Rightarrow> addr set" where
  "marked h = {a. \<exists>c. cells h a = Some c \<and> is_marked c}"

text \<open>Two heaps that differ at most in their marks.\<close>

definition same_bodies :: "heap \<Rightarrow> heap \<Rightarrow> bool" where
  "same_bodies h h' \<longleftrightarrow> (\<forall>a. obj_at h' a = obj_at h a) \<and> objects h' = objects h \<and>
     hnext h' = hnext h \<and> bytes_allocated h' = bytes_allocated h \<and> next_gc h' = next_gc h \<and>
     hfinal h' = hfinal h"

lemma same_bodies_refl [simp]: "same_bodies h h"
  by (simp add: same_bodies_def)

lemma same_bodies_trans: "same_bodies h h' \<Longrightarrow> same_bodies h' h'' \<Longrightarrow> same_bodies h h''"
  by (simp add: same_bodies_def)

lemma same_bodies_dom: "same_bodies h h' \<Longrightarrow> dom (cells h') = dom (cells h)"
proof -
  assume "same_bodies h h'"
  then have "obj_at h' a = None \<longleftrightarrow> obj_at h a = None" for a by (simp add: same_bodies_def)
  then show ?thesis by (auto simp: obj_at_def dom_def)
qed

lemma same_bodies_set_mark [simp]: "same_bodies h (set_mark h a m)"
  by (auto simp: same_bodies_def set_mark_def obj_at_def option.map_comp o_def)

lemma upvalue_chain_Nil: "upvalue_chain h p = Some [] \<longleftrightarrow> p = None"
  by (subst upvalue_chain.simps) (auto simp: Option.bind_eq_Some_conv split: option.split obj.split)

lemma upvalue_chain_Cons:
  "upvalue_chain h p = Some (a # as) \<longleftrightarrow>
     p = Some a \<and> (\<exists>u. obj_at h a = Some (OUpvalue u) \<and> upvalue_chain h (unext u) = Some as)"
  by (subst upvalue_chain.simps) (auto simp: Option.bind_eq_Some_conv split: option.split obj.split)

lemma upvalue_chain_local:
  "upvalue_chain h p = Some as \<Longrightarrow> (\<And>a. a \<in> set as \<Longrightarrow> obj_at h' a = obj_at h a) \<Longrightarrow>
    upvalue_chain h' p = Some as"
  by (induction as arbitrary: p) (auto simp: upvalue_chain_Nil upvalue_chain_Cons)

lemma children_local:
  assumes "children umark h b = Some as" "\<And>a. a \<in> set as \<Longrightarrow> obj_at h' a = obj_at h a"
  shows "children umark h' b = Some as"
proof (cases b)
  case (OThread t)
  obtain slots frames ups where t: "those (map (stack t) [0..<stack_top t]) = Some slots"
    "those (map (tframes t) [0..<frame_count t]) = Some frames"
    "upvalue_chain h (open_upvalues t) = Some ups"
    "as = concat (map addrs_of_val slots) @ (if has_exception t then addrs_of_val (exception t) else []) @
      addrs_of_val (last_error t) @ concat (map frame_children frames) @ ups @ addrs_of_opt (caller t)"
    using assms(1) OThread by (auto simp: children_def thread_children_def Option.bind_eq_Some_conv)
  have "set ups \<subseteq> set as" unfolding t(4) by auto
  then have "upvalue_chain h' (open_upvalues t) = Some ups"
    using t(3) assms(2) by (auto intro: upvalue_chain_local)
  with t show ?thesis by (simp add: OThread children_def thread_children_def)
qed (use assms in \<open>simp_all add: children_def\<close>)

lemma children_cong:
  assumes "same_bodies h h'"
  shows "children umark h' b = children umark h b"
proof -
  have eq: "obj_at h' a = obj_at h a" for a using assms by (simp add: same_bodies_def)
  have "children umark h' b = Some as \<longleftrightarrow> children umark h b = Some as" for as
    using children_local [of umark h b as h'] children_local [of umark h' b as h] eq by auto
  then show ?thesis by (metis not_Some_eq)
qed

lemma kids_cong:
  assumes "same_bodies h h'"
  shows "kids umark h' a = kids umark h a"
proof -
  have "obj_at h' a = obj_at h a" using assms by (simp add: same_bodies_def)
  then show ?thesis by (simp add: kids_def ext [OF children_cong [OF assms]])
qed

lemma reach_cong:
  assumes "same_bodies h h'"
  shows "reach umark h' R a \<longleftrightarrow> reach umark h R a"
proof
  show "reach umark h' R a \<Longrightarrow> reach umark h R a"
    by (induction rule: reach.induct) (auto simp: kids_cong [OF assms] intro: reach.intros)
  show "reach umark h R a \<Longrightarrow> reach umark h' R a"
    by (induction rule: reach.induct)
      (auto simp: kids_cong [OF assms, symmetric] intro: reach.intros)
qed

section \<open>Marking reaches exactly the reachable objects\<close>

text \<open>Every pointer the collector follows leads to an object of the heap.\<close>

definition closed_heap :: "(nat \<Rightarrow> nat \<Rightarrow> addr list) \<Rightarrow> heap \<Rightarrow> bool" where
  "closed_heap umark h \<longleftrightarrow>
     (\<forall>a\<in>dom (cells h). \<exists>as. kids umark h a = Some as \<and> set as \<subseteq> dom (cells h))"

lemma closed_heap_cong: "same_bodies h h' \<Longrightarrow> closed_heap umark h' \<longleftrightarrow> closed_heap umark h"
  by (simp add: closed_heap_def kids_cong same_bodies_dom)

lemma marked_set_mark:
  "marked (set_mark h a m) = (if m \<and> a \<in> dom (cells h) then insert a (marked h) else marked h - {a})"
  by (auto simp: marked_def set_mark_def)

lemma marked_subset_dom: "marked h \<subseteq> dom (cells h)"
  by (auto simp: marked_def)

lemma mark_all_correct:
  assumes "finite (dom (cells h))" "closed_heap umark h" "set todo \<subseteq> dom (cells h)"
  shows "\<exists>h'. mark_all umark h todo = Some h' \<and> same_bodies h h' \<and>
    marked h \<subseteq> marked h' \<and> set todo \<subseteq> marked h' \<and>
    (\<forall>a\<in>marked h' - marked h. set (the (kids umark h a)) \<subseteq> marked h') \<and>
    marked h' \<subseteq> marked h \<union> {a. reach umark h (set todo) a}"
  using assms
proof (induction "(card (dom (cells h) - marked h), length todo)" arbitrary: h todo
    rule: wf_induct_rule [OF wf_lex_prod [OF wf_less_than wf_less_than]])
  case (1 h todo)
  note fin = 1(2) and cl = 1(3) and sub = 1(4)
  note IH = 1(1) [rule_format]
  show ?case
  proof (cases todo)
    case Nil
    then show ?thesis by (subst mark_all.simps) auto
  next
    case (Cons a rest)
    then obtain c where c: "cells h a = Some c" using sub by auto
    show ?thesis
    proof (cases "is_marked c")
      case True
      have "\<exists>h'. mark_all umark h rest = Some h' \<and> same_bodies h h' \<and>
          marked h \<subseteq> marked h' \<and> set rest \<subseteq> marked h' \<and>
          (\<forall>a\<in>marked h' - marked h. set (the (kids umark h a)) \<subseteq> marked h') \<and>
          marked h' \<subseteq> marked h \<union> {a. reach umark h (set rest) a}"
        by (rule IH) (use Cons fin cl sub in auto)
      then obtain h' where h': "mark_all umark h rest = Some h'" "same_bodies h h'"
        "marked h \<subseteq> marked h'" "set rest \<subseteq> marked h'"
        "\<forall>a\<in>marked h' - marked h. set (the (kids umark h a)) \<subseteq> marked h'"
        "marked h' \<subseteq> marked h \<union> {a. reach umark h (set rest) a}" by blast
      moreover have "a \<in> marked h" using c True by (auto simp: marked_def)
      moreover have "reach umark h (set rest) b \<Longrightarrow> reach umark h (set todo) b" for b
        by (erule reach_mono) (use Cons in auto)
      moreover have "mark_all umark h todo = Some h'"
        using h'(1) c True Cons by (subst mark_all.simps) simp
      ultimately show ?thesis using Cons by (intro exI [of _ h']) auto
    next
      case False
      obtain as where as: "kids umark h a = Some as" "set as \<subseteq> dom (cells h)"
        using cl c unfolding closed_heap_def by blast
      have ch: "children umark h (body c) = Some as"
        using as(1) c by (simp add: kids_def obj_at_def)
      let ?h = "set_mark h a True"
      have sb: "same_bodies h ?h" by simp
      have dom: "dom (cells ?h) = dom (cells h)" by (rule same_bodies_dom [OF sb])
      have am: "a \<notin> marked h" using c False by (auto simp: marked_def)
      have mk: "marked ?h = insert a (marked h)" using c by (auto simp: marked_set_mark)
      have "dom (cells h) - insert a (marked h) \<subset> dom (cells h) - marked h"
        using c am by auto
      then have less: "card (dom (cells ?h) - marked ?h) < card (dom (cells h) - marked h)"
        unfolding dom mk using fin by (intro psubset_card_mono) auto
      have "\<exists>h'. mark_all umark ?h (as @ rest) = Some h' \<and> same_bodies ?h h' \<and>
          marked ?h \<subseteq> marked h' \<and> set (as @ rest) \<subseteq> marked h' \<and>
          (\<forall>a\<in>marked h' - marked ?h. set (the (kids umark ?h a)) \<subseteq> marked h') \<and>
          marked h' \<subseteq> marked ?h \<union> {a. reach umark ?h (set (as @ rest)) a}"
        by (rule IH) (use less Cons fin cl sub as dom closed_heap_cong [OF sb] in auto)
      then obtain h' where h': "mark_all umark ?h (as @ rest) = Some h'" "same_bodies ?h h'"
        "marked ?h \<subseteq> marked h'" "set (as @ rest) \<subseteq> marked h'"
        "\<forall>a\<in>marked h' - marked ?h. set (the (kids umark ?h a)) \<subseteq> marked h'"
        "marked h' \<subseteq> marked ?h \<union> {a. reach umark ?h (set (as @ rest)) a}" by blast
      have "mark_all umark h todo = Some h'"
        using h'(1) c False ch Cons by (subst mark_all.simps) simp
      moreover have "same_bodies h h'" by (rule same_bodies_trans [OF sb h'(2)])
      moreover have "reach umark h (set todo) b" if "reach umark ?h (set (as @ rest)) b" for b
        using that unfolding reach_cong [OF sb]
        by (rule reach_trans) (use Cons as(1) in \<open>auto intro: reach.intros\<close>)
      moreover have "\<forall>b\<in>marked h' - marked h. set (the (kids umark h b)) \<subseteq> marked h'"
      proof
        fix b assume "b \<in> marked h' - marked h"
        then show "set (the (kids umark h b)) \<subseteq> marked h'"
          using h'(4,5) as(1) unfolding mk kids_cong [OF sb] by (cases "b = a") auto
      qed
      moreover have "reach umark h (set todo) a" using Cons by (auto intro: reach.intros)
      ultimately show ?thesis
        using h'(3,4,6) mk Cons by (intro exI [of _ h']) auto
    qed
  qed
qed

text \<open>From a heap without marks, marking the roots marks exactly what they reach.\<close>

theorem mark_all_reach:
  assumes "finite (dom (cells h))" "closed_heap umark h" "set roots \<subseteq> dom (cells h)"
    and "marked h = {}"
  shows "\<exists>h'. mark_all umark h roots = Some h' \<and> same_bodies h h' \<and>
    marked h' = {a. reach umark h (set roots) a}"
proof -
  obtain h' where h': "mark_all umark h roots = Some h'" "same_bodies h h'"
    "set roots \<subseteq> marked h'" "\<forall>a\<in>marked h'. set (the (kids umark h a)) \<subseteq> marked h'"
    "marked h' \<subseteq> {a. reach umark h (set roots) a}"
    using mark_all_correct [OF assms(1-3)] assms(4) by auto
  have "a \<in> marked h'" if "reach umark h (set roots) a" for a
    using that by (induction rule: reach.induct) (use h'(3,4) in fastforce)+
  with h' show ?thesis by blast
qed


section \<open>Sweeping frees exactly the unmarked objects\<close>

definition sum_freed :: "heap \<Rightarrow> addr list \<Rightarrow> nat" where
  "sum_freed h as = sum_list (map (\<lambda>a. freed_bytes (the (obj_at h a))) as)"

lemma sweep_list_correct:
  assumes "distinct as" "set as \<subseteq> dom (cells h)"
  shows "\<exists>h'. sweep_list as h = Some (filter (\<lambda>a. a \<in> marked h) as, h') \<and>
    (\<forall>a. cells h' a =
       (if a \<in> set as then
          (if a \<in> marked h then map_option (\<lambda>c. c\<lparr>is_marked := False\<rparr>) (cells h a) else None)
        else cells h a)) \<and>
    bytes_allocated h' =
      bytes_allocated h - of_nat (sum_freed h (filter (\<lambda>a. a \<notin> marked h) as)) \<and>
    hfinal h' = hfinal h @
      concat (map (\<lambda>a. finalizer_calls (the (obj_at h a))) (filter (\<lambda>a. a \<notin> marked h) as)) \<and>
    hnext h' = hnext h \<and> objects h' = objects h"
  using assms
proof (induction as arbitrary: h)
  case Nil
  then show ?case by (simp add: sum_freed_def)
next
  case (Cons a as)
  obtain c where c: "cells h a = Some c" using Cons.prems(2) by auto
  have notin: "a \<notin> set as" and dist: "distinct as" using Cons.prems(1) by simp_all
  show ?case
  proof (cases "is_marked c")
    case True
    let ?h = "set_mark h a False"
    have am: "a \<in> marked h" using c True by (auto simp: marked_def)
    have mk: "b \<in> marked ?h \<longleftrightarrow> b \<in> marked h" if "b \<noteq> a" for b
      using that by (simp add: marked_set_mark)
    have mk': "b \<in> marked ?h \<longleftrightarrow> b \<in> marked h" if "b \<in> set as" for b
      using that notin mk by (cases "b = a") auto
    have same: "filter (\<lambda>a. a \<in> marked ?h) as = filter (\<lambda>a. a \<in> marked h) as"
      "filter (\<lambda>a. a \<notin> marked ?h) as = filter (\<lambda>a. a \<notin> marked h) as"
      by (simp_all add: mk' cong: filter_cong)
    have dom: "set as \<subseteq> dom (cells ?h)"
      using Cons.prems(2) same_bodies_dom [OF same_bodies_set_mark, of h a False] by simp
    obtain h' where h': "sweep_list as ?h = Some (filter (\<lambda>a. a \<in> marked ?h) as, h')"
      "\<forall>b. cells h' b = (if b \<in> set as then
         (if b \<in> marked ?h then map_option (\<lambda>c. c\<lparr>is_marked := False\<rparr>) (cells ?h b) else None)
         else cells ?h b)"
      "bytes_allocated h' =
        bytes_allocated ?h - of_nat (sum_freed ?h (filter (\<lambda>a. a \<notin> marked ?h) as))"
      "hfinal h' = hfinal ?h @ concat (map (\<lambda>a. finalizer_calls (the (obj_at ?h a)))
        (filter (\<lambda>a. a \<notin> marked ?h) as))" "hnext h' = hnext ?h" "objects h' = objects ?h"
      using Cons.IH [OF dist dom] by blast
    have sb: "obj_at ?h = obj_at h" "bytes_allocated ?h = bytes_allocated h" "hfinal ?h = hfinal h"
      "hnext ?h = hnext h" "objects ?h = objects h"
      using same_bodies_set_mark [of h a False] by (auto simp: same_bodies_def)
    have "cells ?h b = (if b = a then Some (c\<lparr>is_marked := False\<rparr>) else cells h b)" for b
      using c by (simp add: set_mark_def)
    with h'(2) have cl: "cells h' b = (if b \<in> set (a # as) then
        (if b \<in> marked h then map_option (\<lambda>c. c\<lparr>is_marked := False\<rparr>) (cells h b) else None)
        else cells h b)" for b
      using notin am mk c by (cases "b = a") auto
    have filt: "filter (\<lambda>a. a \<in> marked h) (a # as) = a # filter (\<lambda>a. a \<in> marked h) as"
      "filter (\<lambda>a. a \<notin> marked h) (a # as) = filter (\<lambda>a. a \<notin> marked h) as"
      using am by simp_all
    show ?thesis
      unfolding filt using c True h'(1,3-6) cl
      by (intro exI [of _ h']) (simp add: same sb sum_freed_def)
  next
    case False
    obtain h1 where h1: "free_object h a = Some h1" using c by (simp add: free_object_def)
    then have cells1: "cells h1 = (cells h)(a := None)"
      and rest1: "bytes_allocated h1 = bytes_allocated h - of_nat (freed_bytes (body c))"
        "hfinal h1 = hfinal h @ finalizer_calls (body c)" "hnext h1 = hnext h" "objects h1 = objects h"
      using c by (auto simp: free_object_def)
    have am: "a \<notin> marked h" using c False by (auto simp: marked_def)
    have mk: "b \<in> marked h1 \<longleftrightarrow> b \<in> marked h" if "b \<noteq> a" for b
      using that by (simp add: marked_def cells1)
    have mk': "b \<in> marked h1 \<longleftrightarrow> b \<in> marked h" if "b \<in> set as" for b
      using that notin mk by (cases "b = a") auto
    have same: "filter (\<lambda>a. a \<in> marked h1) as = filter (\<lambda>a. a \<in> marked h) as"
      "filter (\<lambda>a. a \<notin> marked h1) as = filter (\<lambda>a. a \<notin> marked h) as"
      by (simp_all add: mk' cong: filter_cong)
    have dom: "set as \<subseteq> dom (cells h1)" using Cons.prems(2) notin by (auto simp: cells1)
    obtain h' where h': "sweep_list as h1 = Some (filter (\<lambda>a. a \<in> marked h1) as, h')"
      "\<forall>b. cells h' b = (if b \<in> set as then
         (if b \<in> marked h1 then map_option (\<lambda>c. c\<lparr>is_marked := False\<rparr>) (cells h1 b) else None)
         else cells h1 b)"
      "bytes_allocated h' =
        bytes_allocated h1 - of_nat (sum_freed h1 (filter (\<lambda>a. a \<notin> marked h1) as))"
      "hfinal h' = hfinal h1 @ concat (map (\<lambda>a. finalizer_calls (the (obj_at h1 a)))
        (filter (\<lambda>a. a \<notin> marked h1) as))" "hnext h' = hnext h1" "objects h' = objects h1"
      using Cons.IH [OF dist dom] by blast
    have ob: "obj_at h1 b = obj_at h b" if "b \<noteq> a" for b
      using that by (simp add: obj_at_def cells1)
    have maps: "map (\<lambda>a. f (the (obj_at h1 a))) (filter (\<lambda>a. a \<notin> marked h) as)
        = map (\<lambda>a. f (the (obj_at h a))) (filter (\<lambda>a. a \<notin> marked h) as)" for f :: "obj \<Rightarrow> 'z"
      by (rule map_cong [OF refl]) (metis filter_is_subset notin ob subsetD)
    have cl: "cells h' b = (if b \<in> set (a # as) then
        (if b \<in> marked h then map_option (\<lambda>c. c\<lparr>is_marked := False\<rparr>) (cells h b) else None)
        else cells h b)" for b
      using h'(2) notin am mk by (cases "b = a") (auto simp: cells1)
    have filt: "filter (\<lambda>a. a \<in> marked h) (a # as) = filter (\<lambda>a. a \<in> marked h) as"
      "filter (\<lambda>a. a \<notin> marked h) (a # as) = a # filter (\<lambda>a. a \<notin> marked h) as"
      using am by simp_all
    have oa: "obj_at h a = Some (body c)" using c by (simp add: obj_at_def)
    show ?thesis
      unfolding filt using c False h1 h'(1,3-6) cl
      by (intro exI [of _ h']) (simp add: same rest1 sum_freed_def maps oa)
  qed
qed


section \<open>Collection\<close>

definition collect :: "(nat \<Rightarrow> nat \<Rightarrow> addr list) \<Rightarrow> heap \<Rightarrow> addr list \<Rightarrow> heap option" where
  "collect umark h roots = do { h \<leftarrow> mark_all umark h roots; sweep_objects h }"

text \<open>
  The heap between collections: the list of all objects is the domain of the heap, every
  pointer leads to an object, and nothing is marked.
\<close>

definition heap_ok :: "(nat \<Rightarrow> nat \<Rightarrow> addr list) \<Rightarrow> heap \<Rightarrow> bool" where
  "heap_ok umark h \<longleftrightarrow>
     distinct (objects h) \<and> set (objects h) = dom (cells h) \<and> closed_heap umark h \<and>
     marked h = {} \<and> (\<forall>a\<in>dom (cells h). a < hnext h)"

lemma heap_ok_finite: "heap_ok umark h \<Longrightarrow> finite (dom (cells h))"
  by (metis List.finite_set heap_ok_def)

lemma kids_SomeE:
  assumes "kids umark h a = Some as"
  obtains b where "obj_at h a = Some b" "children umark h b = Some as"
  using assms by (auto simp: kids_def Option.bind_eq_Some_conv)

theorem collect_reach:
  assumes ok: "heap_ok umark h" and roots: "set roots \<subseteq> dom (cells h)"
  shows "\<exists>h'. collect umark h roots = Some h' \<and> heap_ok umark h' \<and>
    objects h' = filter (reach umark h (set roots)) (objects h) \<and>
    (\<forall>a. obj_at h' a = (if reach umark h (set roots) a then obj_at h a else None)) \<and>
    bytes_allocated h' =
      bytes_allocated h - of_nat (sum_freed h (filter (\<lambda>a. \<not> reach umark h (set roots) a) (objects h))) \<and>
    hfinal h' = hfinal h @ concat (map (\<lambda>a. finalizer_calls (the (obj_at h a)))
      (filter (\<lambda>a. \<not> reach umark h (set roots) a) (objects h)))"
proof -
  let ?R = "reach umark h (set roots)"
  have dist: "distinct (objects h)" and dom: "set (objects h) = dom (cells h)"
    and cl: "closed_heap umark h" and nm: "marked h = {}"
    and nx: "\<forall>a\<in>dom (cells h). a < hnext h"
    using ok by (auto simp: heap_ok_def)
  obtain h1 where h1: "mark_all umark h roots = Some h1" "same_bodies h h1" "marked h1 = {a. ?R a}"
    using mark_all_reach [OF heap_ok_finite [OF ok] cl roots nm] by blast
  have ob: "obj_at h1 = obj_at h" and obs: "objects h1 = objects h" "hnext h1 = hnext h"
    "bytes_allocated h1 = bytes_allocated h" "hfinal h1 = hfinal h"
    using h1(2) by (auto simp: same_bodies_def)
  have dom1: "set (objects h1) \<subseteq> dom (cells h1)" "distinct (objects h1)"
    using dom dist obs same_bodies_dom [OF h1(2)] by auto
  obtain h2 where h2: "sweep_list (objects h1) h1 = Some (filter (\<lambda>a. a \<in> marked h1) (objects h1), h2)"
    "\<forall>a. cells h2 a =
       (if a \<in> set (objects h1) then
          (if a \<in> marked h1 then map_option (\<lambda>c. c\<lparr>is_marked := False\<rparr>) (cells h1 a) else None)
        else cells h1 a)"
    "bytes_allocated h2 =
      bytes_allocated h1 - of_nat (sum_freed h1 (filter (\<lambda>a. a \<notin> marked h1) (objects h1)))"
    "hfinal h2 = hfinal h1 @ concat (map (\<lambda>a. finalizer_calls (the (obj_at h1 a)))
      (filter (\<lambda>a. a \<notin> marked h1) (objects h1)))" "hnext h2 = hnext h1"
    using sweep_list_correct [OF dom1(2,1)] by blast
  define n where "n = bytes_allocated h2 * 2"
  define h' where "h' = h2\<lparr>objects := filter ?R (objects h),
    next_gc := if n < 1048576 then 1048576 else n\<rparr>"
  have col: "collect umark h roots = Some h'"
    using h1(1,3) h2(1) obs by (simp add: collect_def sweep_objects_def h'_def n_def Let_def)
  have cells: "cells h' a = (if ?R a then map_option (\<lambda>c. c\<lparr>is_marked := False\<rparr>) (cells h1 a) else None)" for a
    using h2(2) h1(3) dom same_bodies_dom [OF h1(2)] obs by (auto simp: h'_def)
  have obj: "obj_at h' a = (if ?R a then obj_at h a else None)" for a
    unfolding ob [symmetric] by (auto simp: obj_at_def cells option.map_comp o_def)
  have dom': "dom (cells h') = {a \<in> dom (cells h). ?R a}"
    using same_bodies_dom [OF h1(2)] by (auto simp: cells dom_def split: if_splits)
  have "closed_heap umark h'"
    unfolding closed_heap_def
  proof
    fix a assume "a \<in> dom (cells h')"
    then have a: "a \<in> dom (cells h)" "?R a" by (auto simp: dom')
    then obtain as where as: "kids umark h a = Some as" "set as \<subseteq> dom (cells h)"
      using cl unfolding closed_heap_def by blast
    have R: "?R b" if "b \<in> set as" for b
      using reach.child [OF a(2) as(1) that] .
    obtain b where b: "obj_at h a = Some b" "children umark h b = Some as"
      using as(1) by (rule kids_SomeE)
    have "children umark h' b = Some as"
      by (rule children_local [OF b(2)]) (simp add: obj R)
    then have "kids umark h' a = Some as" using a(2) b(1) by (simp add: kids_def obj)
    then show "\<exists>as. kids umark h' a = Some as \<and> set as \<subseteq> dom (cells h')"
      using as(2) R by (auto simp: dom')
  qed
  moreover have "marked h' = {}"
    by (auto simp: marked_def cells split: if_splits)
  moreover have "objects h' = filter ?R (objects h)" "hnext h' = hnext h"
    using h2(5) obs by (simp_all add: h'_def)
  ultimately have "heap_ok umark h'"
    unfolding heap_ok_def dom' using dist dom nx by auto
  then show ?thesis
    using col obj h2(3,4) h1(3) obs
    by (intro exI [of _ h']) (simp add: h'_def ob sum_freed_def)
qed

section \<open>Allocation\<close>

lemma allocate_objectD:
  assumes "allocate_object h b = (a, h')"
  shows "a = hnext h" "hnext h' = hnext h + 1" "objects h' = a # objects h"
    "bytes_allocated h' = bytes_allocated h + of_nat (struct_size b)" "next_gc h' = next_gc h"
    "cells h' = (cells h)(a \<mapsto> \<lparr>is_marked = False, body = b\<rparr>)"
    "obj_at h' x = (if x = a then Some b else obj_at h x)"
  using assms by (auto simp: allocate_object_def Let_def obj_at_def)

lemma add_bytes_simps [simp]:
  "cells (add_bytes n h) = cells h" "objects (add_bytes n h) = objects h"
  "hnext (add_bytes n h) = hnext h" "obj_at (add_bytes n h) = obj_at h"
  "bytes_allocated (add_bytes n h) = bytes_allocated h + of_nat n"
  by (auto simp: add_bytes_def obj_at_def)

text \<open>A new object whose pointers lead into the heap keeps the heap well-formed.\<close>

lemma heap_ok_allocate:
  assumes ok: "heap_ok umark h" and al: "allocate_object h b = (a, h')"
    and ch: "children umark h' b = Some as" "set as \<subseteq> dom (cells h')"
  shows "heap_ok umark h'"
proof -
  note d = allocate_objectD [OF al]
  have fresh: "a \<notin> dom (cells h)" using ok d(1) by (auto simp: heap_ok_def)
  have dom: "dom (cells h') = insert a (dom (cells h))" by (simp add: d(6))
  have "\<exists>as. kids umark h' x = Some as \<and> set as \<subseteq> dom (cells h')" if "x \<in> dom (cells h')" for x
  proof (cases "x = a")
    case True
    with ch show ?thesis by (simp add: kids_def d(7))
  next
    case False
    with that dom have "x \<in> dom (cells h)" by auto
    then obtain xs where xs: "kids umark h x = Some xs" "set xs \<subseteq> dom (cells h)"
      using ok unfolding heap_ok_def closed_heap_def by blast
    obtain xb where xb: "obj_at h x = Some xb" "children umark h xb = Some xs"
      using xs(1) by (rule kids_SomeE)
    have "children umark h' xb = Some xs"
      by (rule children_local [OF xb(2)]) (use xs(2) fresh d(7) in auto)
    with xb(1) False xs(2) dom show ?thesis by (auto simp: kids_def d(7))
  qed
  moreover have "marked h' = {}" using ok by (auto simp: heap_ok_def marked_def d(6))
  moreover have "x < hnext h'" if "x \<in> dom (cells h')" for x
    using that ok d(1,2) unfolding dom by (auto simp: heap_ok_def less_Suc_eq)
  ultimately show ?thesis
    using ok fresh d(1,3) unfolding heap_ok_def closed_heap_def dom by simp
qed

lemma heap_ok_add_bytes: "heap_ok umark (add_bytes n h) \<longleftrightarrow> heap_ok umark h"
proof -
  have "children umark (add_bytes n h) b = Some as \<longleftrightarrow> children umark h b = Some as" for b as
    using children_local [of umark h b as "add_bytes n h"]
      children_local [of umark "add_bytes n h" b as h] by auto
  then have "children umark (add_bytes n h) = children umark h"
    by (metis ext not_Some_eq)
  then show ?thesis by (simp add: heap_ok_def closed_heap_def kids_def marked_def)
qed

lemma heap_ok_new_string:
  assumes "heap_ok umark h"
  shows "heap_ok umark (snd (copy_string h cs))"
proof -
  obtain a h' where al: "allocate_object (add_bytes (length cs + 1) h) (OString cs (hash_string cs)) = (a, h')"
    by fastforce
  then have "heap_ok umark h'"
    by (rule heap_ok_allocate [where as = "[]", rotated])
      (use assms in \<open>simp_all add: heap_ok_add_bytes children_def\<close>)
  with al show ?thesis by (simp add: copy_string_def allocate_string_def)
qed

section \<open>Byte accounting\<close>

text \<open>
  What is subtracted when an object is freed is what was added when it was allocated,
  except for a function's default values and parameter types: the compiler attaches
  them without counting them, so freeing such a function takes too much off the counter.
\<close>

definition uncounted :: "obj \<Rightarrow> nat" where
  "uncounted b =
     (case b of OFunction f \<Rightarrow> 16 * length (defaults f) + length (param_types f) | _ \<Rightarrow> 0)"

definition sum_uncounted :: "heap \<Rightarrow> nat" where
  "sum_uncounted h = sum_list (map (\<lambda>a. uncounted (the (obj_at h a))) (objects h))"

text \<open>The counter is right up to what the live functions left uncounted.\<close>

definition bytes_ok :: "heap \<Rightarrow> bool" where
  "bytes_ok h \<longleftrightarrow>
     bytes_allocated h + of_nat (sum_uncounted h) = of_nat (sum_freed h (objects h))"

lemma sum_list_filter_split:
  "sum_list (map f (filter P xs)) + sum_list (map f (filter (\<lambda>x. \<not> P x) xs)) = (sum_list (map f xs) :: nat)"
  by (induction xs) auto


lemma collect_bytes:
  assumes "heap_ok umark h" "set roots \<subseteq> dom (cells h)" "bytes_ok h"
    and "collect umark h roots = Some h'"
  shows "bytes_allocated h' + of_nat (sum_uncounted h) = of_nat (sum_freed h' (objects h'))"
proof -
  let ?R = "reach umark h (set roots)"
  have h': "objects h' = filter ?R (objects h)" "\<forall>a. obj_at h' a = (if ?R a then obj_at h a else None)"
    "bytes_allocated h' =
      bytes_allocated h - of_nat (sum_freed h (filter (\<lambda>a. \<not> ?R a) (objects h)))"
    using collect_reach [OF assms(1,2)] assms(4) by auto
  have "sum_freed h' (objects h') = sum_freed h (filter ?R (objects h))"
    unfolding sum_freed_def h'(1) by (rule arg_cong [where f = sum_list], rule map_cong) (use h'(2) in auto)
  moreover have "sum_freed h (filter ?R (objects h)) + sum_freed h (filter (\<lambda>a. \<not> ?R a) (objects h))
      = sum_freed h (objects h)"
    unfolding sum_freed_def by (rule sum_list_filter_split)
  then have "(of_nat (sum_freed h (objects h)) :: 64 word)
      = of_nat (sum_freed h (filter ?R (objects h))) +
        of_nat (sum_freed h (filter (\<lambda>a. \<not> ?R a) (objects h)))"
    by (simp flip: of_nat_add)
  ultimately show ?thesis
    using assms(3) by (simp add: bytes_ok_def h'(3) eq_diff_eq diff_add_eq)
qed

lemma bytes_ok_allocate:
  assumes "bytes_ok h" "allocate_object (add_bytes n h) b = (a, h')" "heap_ok umark h"
    and "freed_bytes b = struct_size b + n" "uncounted b = 0"
  shows "bytes_ok h'"
proof -
  note d = allocate_objectD [OF assms(2)]
  have "hnext h \<notin> set (objects h)" using assms(3) by (auto simp: heap_ok_def)
  then have same: "map (\<lambda>x. f (the (obj_at h' x))) (objects h) = map (\<lambda>x. f (the (obj_at h x))) (objects h)"
    for f :: "obj \<Rightarrow> nat"
    by (intro map_cong refl) (use d(1,7) in auto)
  have b: "obj_at h' a = Some b" by (simp add: d(7))
  have "sum_uncounted h' = sum_uncounted h"
    using assms(5) unfolding sum_uncounted_def d(3) by (simp add: b same)
  moreover have "sum_freed h' (objects h') = struct_size b + n + sum_freed h (objects h)"
    using assms(4) unfolding sum_freed_def d(3) by (simp add: b same)
  ultimately show ?thesis
    using assms(1) d(4) by (simp add: bytes_ok_def algebra_simps)
qed

end
