(* ===== verification/Format.thy ===== *)
theory Format
  imports Double
begin

text \<open>
  Numbers as text: decimal integers, the conversions \<open>%.<P>f\<close> and \<open>%.<P>g\<close> of \<open>printf\<close>
  (exact, ties to even, as the C library computes them), and the three places where the
  machine turns a number into bytes: \<open>print_value\<close> (\<open>src/src/value.c\<close>), the key of a
  non-array number (\<open>number_key_string\<close>, \<open>src/src/vm.c\<close>) and string interpolation
  (\<open>append_number\<close>, \<open>src/src/vm/build_string.c\<close>). A NaN is printed as \<open>nan\<close>; its sign,
  which the C library shows as \<open>-nan\<close>, is not modelled. The lemmas show that decimal text is
  read back to the number it came from and that integers are printed in full.
\<close>

section \<open>Decimal integers\<close>

function dec_acc :: "int \<Rightarrow> bytes \<Rightarrow> bytes" where
  "dec_acc n acc =
     (if n < 10 then of_int (48 + n) # acc
      else dec_acc (n div 10) (of_int (48 + n mod 10) # acc))"
  by pat_completeness auto
termination
  by (relation "measure (\<lambda>(n, _). nat n)") auto

declare dec_acc.simps [simp del]

text \<open>The digits of \<open>n \<ge> 0\<close>, and an integer with its sign.\<close>

definition dec :: "int \<Rightarrow> bytes" where
  "dec n = dec_acc n []"

definition dec_int :: "int \<Rightarrow> bytes" where
  "dec_int n = (if n < 0 then 45 # dec (- n) else dec n)"

text \<open>The value of a string of digits, and of one with a sign.\<close>

definition read_dec :: "bytes \<Rightarrow> int" where
  "read_dec bs = foldl (\<lambda>v b. 10 * v + (uint b - 48)) 0 bs"

fun read_int :: "bytes \<Rightarrow> int" where
  "read_int [] = 0"
| "read_int (b # bs) = (if b = 45 then - read_dec bs else read_dec (b # bs))"

lemma dec_acc_append: "dec_acc n acc = dec_acc n [] @ acc"
proof (induction "nat n" arbitrary: n acc rule: less_induct)
  case less
  show ?case
  proof (cases "n < 10")
    case True
    then show ?thesis by (simp add: dec_acc.simps)
  next
    case False
    then have "nat (n div 10) < nat n" by simp
    note IH = less [OF this]
    show ?thesis
      using False IH [of "of_int (48 + n mod 10) # acc"] IH [of "[of_int (48 + n mod 10)]"]
      by (subst (1 2) dec_acc.simps) simp
  qed
qed

lemma dec_less: "n < 10 \<Longrightarrow> dec n = [of_int (48 + n)]"
  by (simp add: dec_def dec_acc.simps)

lemma dec_step: "10 \<le> n \<Longrightarrow> dec n = dec (n div 10) @ [of_int (48 + n mod 10)]"
  unfolding dec_def by (subst dec_acc.simps) (simp add: dec_acc_append [of _ "[_]"])

lemma dec_induct [consumes 1, case_names digit step]:
  assumes "0 \<le> (n :: int)" "\<And>n. 0 \<le> n \<Longrightarrow> n < 10 \<Longrightarrow> P n" "\<And>n. 10 \<le> n \<Longrightarrow> P (n div 10) \<Longrightarrow> P n"
  shows "P n"
  using assms(1)
proof (induction "nat n" arbitrary: n rule: less_induct)
  case less
  then show ?case
    by (cases "n < 10") (auto intro: assms(2,3))
qed

lemma uint_digit: "0 \<le> d \<Longrightarrow> d < 10 \<Longrightarrow> uint (of_int (48 + d) :: byte) = 48 + d"
  by (simp add: unsigned_of_int take_bit_eq_mod del: of_int_add)

lemma read_dec_snoc [simp]: "read_dec (bs @ [b]) = 10 * read_dec bs + (uint b - 48)"
  by (simp add: read_dec_def)

lemma read_dec_dec: "0 \<le> n \<Longrightarrow> read_dec (dec n) = n"
proof (induction n rule: dec_induct)
  case (digit n)
  then show ?case by (simp add: dec_less read_dec_def uint_digit del: of_int_add)
next
  case (step n)
  have "0 \<le> n mod 10" "n mod 10 < 10" by simp_all
  from uint_digit [OF this] step show ?case
    by (simp add: dec_step del: of_int_add)
qed

lemma dec_hd_digit: "0 \<le> n \<Longrightarrow> dec n \<noteq> [] \<and> (\<forall>b\<in>set (dec n). 48 \<le> uint b \<and> uint b < 58)"
proof (induction n rule: dec_induct)
  case (digit n)
  then show ?case by (simp add: dec_less uint_digit del: of_int_add)
next
  case (step n)
  have "0 \<le> n mod 10" "n mod 10 < 10" by simp_all
  from uint_digit [OF this] step show ?case
    by (simp add: dec_step del: of_int_add)
qed

lemma dec_not_minus: "0 \<le> n \<Longrightarrow> (45 :: byte) \<notin> set (dec n)"
  using dec_hd_digit [of n] by auto

lemma read_int_dec_int: "read_int (dec_int n) = n"
proof (cases "n < 0")
  case True
  then show ?thesis by (simp add: dec_int_def read_dec_dec)
next
  case False
  then obtain b bs where b: "dec n = b # bs" using dec_hd_digit [of n] by (cases "dec n") auto
  with dec_not_minus [of n] False have "b \<noteq> 45" by auto
  with b False read_dec_dec [of n] show ?thesis by (simp add: dec_int_def)
qed

lemma dec_int_inject: "dec_int a = dec_int b \<longleftrightarrow> a = b"
  by (metis read_int_dec_int)

lemma length_dec: "0 < n \<Longrightarrow> int (length (dec n)) = numlen 10 n"
proof -
  assume "0 < n"
  then have "0 \<le> n" by simp
  then show ?thesis using \<open>0 < n\<close>
  proof (induction n rule: dec_induct)
    case (digit n)
    then show ?case by (simp add: dec_less numlen_pos)
  next
    case (step n)
    then have "0 < n div 10" by simp
    with step show ?case by (simp add: dec_step numlen_pos)
  qed
qed


section \<open>The conversions of \<open>printf\<close>\<close>

text \<open>The value of a finite double as a fraction.\<close>

definition num_of :: "int \<Rightarrow> int \<Rightarrow> int" where
  "num_of m e = (if 0 \<le> e then m * 2 ^ nat e else m)"

definition den_of :: "int \<Rightarrow> int" where
  "den_of e = (if 0 \<le> e then 1 else 2 ^ nat (- e))"

definition zeros :: "nat \<Rightarrow> bytes" where
  "zeros n = replicate n 48"

text \<open>Decimal digits of \<open>n\<close>, at least \<open>w\<close> of them.\<close>

definition padded :: "nat \<Rightarrow> int \<Rightarrow> bytes" where
  "padded w n = zeros (w - length (dec n)) @ dec n"

definition strip_zeros :: "bytes \<Rightarrow> bytes" where
  "strip_zeros bs = rev (dropWhile (\<lambda>b. b = 48) (rev bs))"

definition signed :: "bool \<Rightarrow> bytes \<Rightarrow> bytes" where
  "signed s bs = (if s then 45 # bs else bs)"

text \<open>\<open>%.<P>f\<close>\<close>

fun fmt_f :: "nat \<Rightarrow> double \<Rightarrow> bytes" where
  "fmt_f P NaN = bytes_of ''nan''"
| "fmt_f P (Inf s) = signed s (bytes_of ''inf'')"
| "fmt_f P (Fin s m e) =
     (let v = rhe (num_of m e * 10 ^ P) (den_of e)
      in signed s (dec (v div 10 ^ P) @ 46 # padded P (v mod 10 ^ P)))"

text \<open>\<open>P\<close> significant digits of \<open>n / d > 0\<close>, and the decimal exponent of the first.\<close>

definition sci :: "nat \<Rightarrow> int \<Rightarrow> int \<Rightarrow> int \<times> int" where
  "sci P n d =
     (let x = (if d \<le> n then numlen 10 (n div d) - 1 else - numlen 10 ((d + n - 1) div n - 1));
          k = int P - 1 - x;
          v = (if 0 \<le> k then rhe (n * 10 ^ nat k) d else rhe n (d * 10 ^ nat (- k)))
      in if v = 10 ^ P then (10 ^ (P - 1), x + 1) else (v, x))"

definition with_fraction :: "bytes \<Rightarrow> bytes \<Rightarrow> bytes" where
  "with_fraction a f = (let f' = strip_zeros f in if f' = [] then a else a @ 46 # f')"

text \<open>\<open>%.<P>g\<close>: fixed notation for exponents from \<open>-4\<close> to \<open>P - 1\<close>, no trailing zeros.\<close>

fun fmt_g :: "nat \<Rightarrow> double \<Rightarrow> bytes" where
  "fmt_g P NaN = bytes_of ''nan''"
| "fmt_g P (Inf s) = signed s (bytes_of ''inf'')"
| "fmt_g P (Fin s m e) =
     signed s
       (if m = 0 then [48]
        else
          let (v, x) = sci P (num_of m e) (den_of e); ds = dec v
          in if x < -4 \<or> int P \<le> x then
               with_fraction (take 1 ds) (drop 1 ds) @
                 (101 # (if x < 0 then 45 else 43) # padded 2 \<bar>x\<bar>)
             else if 0 \<le> x then with_fraction (take (nat x + 1) ds) (drop (nat x + 1) ds)
             else with_fraction [48] (zeros (nat (- x) - 1) @ ds))"

section \<open>What the machine prints\<close>

text \<open>
  The number branch of \<open>print_value\<close>: \<open>%.6f\<close> into a buffer of 64 bytes, which keeps the
  first 63, then trailing zeros and a trailing point are cut off.
\<close>

definition print_number :: "double \<Rightarrow> bytes" where
  "print_number d =
     (let buf = strip_zeros (take 63 (fmt_f 6 d));
          buf = (if buf \<noteq> [] \<and> last buf = 46 then butlast buf else buf)
      in if buf = [] then [48] else buf)"

text \<open>\<open>number_key_string\<close>: the bytes of the hash key that stands for a number.\<close>

definition number_key_bytes :: "double \<Rightarrow> bytes" where
  "number_key_bytes d =
     (let d = (if deq d (dzero False) then dzero False else d)
      in 31 # 110 # take 31 (fmt_g 17 d))"

text \<open>\<open>to_int64\<close>; \<open>None\<close> where the cast is undefined (NaN and \<open>2^63\<close> pass the range test).\<close>

definition to_int64 :: "double \<Rightarrow> int option option" where
  "to_int64 x =
     (if dlt x (dbl_of_int (- (2 ^ 63))) \<or> dlt (dbl_of_int (2 ^ 63 - 1)) x then Some None
      else
        case cast_int64 x of
          None \<Rightarrow> None
        | Some i \<Rightarrow> if deq (dbl_of_int i) x then Some (Some i) else Some None)"

text \<open>\<open>append_number\<close>: the bytes a number contributes to an interpolated string.\<close>

definition number_text :: "double \<Rightarrow> bytes option" where
  "number_text d =
     (case to_int64 d of
        None \<Rightarrow> None
      | Some (Some i) \<Rightarrow> Some (dec_int i)
      | Some None \<Rightarrow> Some (fmt_g 14 d))"


section \<open>Integers are printed in full\<close>

lemma num_den_int: "num_of (a * 2 ^ j) (- int j) = a * den_of (- int j)" "0 < den_of (- int j)"
  by (cases "j = 0"; simp add: num_of_def den_of_def)+

lemma numlen_10_bound:
  assumes "0 < a" "a < 2 ^ 53"
  shows "1 \<le> numlen 10 a" "numlen 10 a \<le> 16" "a < 10 ^ nat (numlen 10 a)"
proof -
  show "1 \<le> numlen 10 a" using assms(1) by (simp add: numlen_pos)
  show "a < 10 ^ nat (numlen 10 a)" by (rule less_numlen) simp
  have "(10::int) ^ nat (numlen 10 a - 1) < 10 ^ 16" using numlen_le [of 10 a] assms by simp
  then have "nat (numlen 10 a - 1) < 16" by (subst (asm) power_strict_increasing_iff) auto
  then show "numlen 10 a \<le> 16" by linarith
qed

lemma zeros_Suc [simp]: "zeros 0 = []" "zeros (Suc k) = 48 # zeros k"
  by (simp_all add: zeros_def)

lemma zeros_snoc: "zeros k @ [48] = zeros (Suc k)"
  by (simp add: zeros_def replicate_append_same)

lemma dec_scale: "0 < a \<Longrightarrow> dec (a * 10 ^ k) = dec a @ zeros k"
proof (induction k)
  case 0
  then show ?case by simp
next
  case (Suc k)
  have "1 \<le> a * 10 ^ k" using Suc.prems by (simp add: int_one_le_iff_zero_less)
  then have "10 \<le> a * 10 ^ Suc k" by simp
  then have "dec (a * 10 ^ Suc k) = dec (a * 10 ^ k) @ [48]"
    using dec_step [of "a * 10 ^ Suc k"] by (simp add: mult.left_commute)
  with Suc show ?case by (simp only: append_assoc zeros_snoc)
qed

lemma strip_zeros_append_zeros: "strip_zeros (bs @ zeros k) = strip_zeros bs"
proof -
  have "dropWhile (\<lambda>b. b = 48) (replicate k 48 @ rev bs) = dropWhile (\<lambda>b. b = 48) (rev bs)"
    by (induction k) simp_all
  then show ?thesis by (simp add: strip_zeros_def zeros_def)
qed

lemma strip_zeros_simps [simp]: "strip_zeros [] = []" "b \<noteq> 48 \<Longrightarrow> strip_zeros (bs @ [b]) = bs @ [b]"
  by (simp_all add: strip_zeros_def)

lemma strip_zeros_zeros [simp]: "strip_zeros (zeros k) = []"
  using strip_zeros_append_zeros [of "[]" k] by simp

lemma with_fraction_zeros [simp]: "with_fraction a (zeros k) = a"
  by (simp add: with_fraction_def)

lemma sci_int:
  assumes "0 < a" "a < 2 ^ 53"
  shows "sci 17 (a * den_of (- int j)) (den_of (- int j))
    = (a * 10 ^ nat (17 - numlen 10 a), numlen 10 a - 1)"
proof -
  let ?d = "den_of (- int j)" and ?L = "numlen 10 a"
  note b = numlen_10_bound [OF assms]
  have d: "0 < ?d" by (rule num_den_int)
  have "rhe (a * 10 ^ nat (17 - ?L) * ?d) ?d = a * 10 ^ nat (17 - ?L)"
    by (rule rhe_exact [OF d])
  then have v: "rhe (a * ?d * 10 ^ nat (17 - ?L)) ?d = a * 10 ^ nat (17 - ?L)"
    by (simp only: mult_ac)
  have "a * 10 ^ nat (17 - ?L) < 10 ^ nat ?L * 10 ^ nat (17 - ?L)" using b(3) by simp
  also have "\<dots> = 10 ^ 17" using b(1,2) by (simp flip: power_add nat_add_distrib)
  finally have "a * 10 ^ nat (17 - ?L) \<noteq> 10 ^ 17" by simp
  moreover have "?d \<le> a * ?d" using assms(1) d by simp
  moreover have "a * ?d div ?d = a" using d by simp
  ultimately show ?thesis using v b(1,2) by (simp add: sci_def Let_def)
qed

theorem fmt_g_17_int:
  assumes "0 < \<bar>n\<bar>" "\<bar>n\<bar> < 2 ^ 53"
  shows "fmt_g 17 (dbl_of_int n) = dec_int n"
proof -
  obtain m j where f: "dbl_of_int n = Fin (n < 0) m (- int j)" "m = \<bar>n\<bar> * 2 ^ j"
    using dbl_of_int_form [OF assms(2)] .
  have b: "1 \<le> numlen 10 \<bar>n\<bar>" "numlen 10 \<bar>n\<bar> \<le> 16"
    using numlen_10_bound [OF assms] by auto
  then have "nat (numlen 10 \<bar>n\<bar> - 1) + 1 = length (dec \<bar>n\<bar>)"
    using length_dec [OF assms(1)] by linarith
  moreover have "m \<noteq> 0" using assms(1) f(2) by simp
  ultimately show ?thesis
    using b sci_int [OF assms, of j] dec_scale [OF assms(1)]
    by (simp add: f(1) f(2) num_den_int signed_def dec_int_def)
qed

lemma deq_zero_int: "\<bar>n\<bar> < 2 ^ 53 \<Longrightarrow> deq (dbl_of_int n) (dzero False) \<longleftrightarrow> n = 0"
  using dcmp_int(2) [of n 0] by (simp add: dbl_of_int_def [of 0] round_quot_def)

theorem number_key_bytes_int:
  assumes "\<bar>n\<bar> < 2 ^ 53"
  shows "number_key_bytes (dbl_of_int n) = 31 # 110 # dec_int n"
proof (cases "n = 0")
  case True
  then show ?thesis
    by (simp add: number_key_bytes_def dbl_of_int_def round_quot_def Let_def signed_def
        dec_int_def dec_less)
next
  case False
  then have "0 < \<bar>n\<bar>" by simp
  note g = fmt_g_17_int [OF this assms]
  have "length (dec \<bar>n\<bar>) \<le> 16"
    using length_dec [OF \<open>0 < \<bar>n\<bar>\<close>] numlen_10_bound(2) [OF \<open>0 < \<bar>n\<bar>\<close> assms] by linarith
  then have "take 31 (dec_int n) = dec_int n" by (auto simp: dec_int_def)
  with g False assms show ?thesis by (simp add: number_key_bytes_def deq_zero_int Let_def)
qed

theorem print_number_int:
  assumes "\<bar>n\<bar> < 2 ^ 53"
  shows "print_number (dbl_of_int n) = dec_int n"
proof -
  obtain m j where f: "dbl_of_int n = Fin (n < 0) m (- int j)" "m = \<bar>n\<bar> * 2 ^ j"
    using dbl_of_int_form [OF assms] .
  have v: "rhe (\<bar>n\<bar> * den_of (- int j) * 10 ^ 6) (den_of (- int j)) = \<bar>n\<bar> * 10 ^ 6"
    using rhe_exact [OF num_den_int(2) [of j], of "\<bar>n\<bar> * 10 ^ 6"] by (simp only: mult_ac)
  have q: "\<bar>n\<bar> * 10 ^ 6 div 10 ^ 6 = \<bar>n\<bar>" "\<bar>n\<bar> * 10 ^ 6 mod 10 ^ 6 = 0" by simp_all
  have "padded 6 0 = zeros 6"
    by (simp add: padded_def dec_less zeros_snoc numeral_eq_Suc)
  then have "fmt_f 6 (dbl_of_int n) = (dec_int n @ [46]) @ zeros 6"
    by (simp only: f(1) f(2) fmt_f.simps num_den_int v q Let_def) (simp add: signed_def dec_int_def)
  moreover have "length (dec_int n) \<le> 17"
  proof (cases "n = 0")
    case False
    then have "0 < \<bar>n\<bar>" by simp
    then show ?thesis
      using length_dec [of "\<bar>n\<bar>"] numlen_10_bound(2) [OF _ assms] by (auto simp: dec_int_def)
  qed (simp add: dec_int_def dec_less)
  ultimately have "strip_zeros (take 63 (fmt_f 6 (dbl_of_int n))) = dec_int n @ [46]"
    by (simp only: strip_zeros_append_zeros) (simp add: zeros_def strip_zeros_append_zeros
        [unfolded zeros_def] del: append_assoc flip: append_assoc)
  moreover have "dec_int n \<noteq> []" using dec_hd_digit [of "\<bar>n\<bar>"] by (auto simp: dec_int_def)
  ultimately show ?thesis by (simp add: print_number_def Let_def)
qed

end
