(* ===== verification/Machine.thy ===== *)
theory Machine
  imports Object Format
begin

text \<open>
  The state of the virtual machine and its basic operations (\<open>src/src/vm.h\<close>,
  \<open>src/src/vm.c\<close>): the operand stack, the call frame and instruction pointer of the running
  interpreter loop, runtime errors, metamethod lookup, the collector's roots, globals and
  module context. The machine is the one with \<open>use_thread_tls = 0\<close>, a single operating
  system thread. \<open>None\<close> stands for undefined behaviour of the C code: reading a dangling
  pointer or an uninitialised slot, writing past the end of a stack, a null pointer. A C
  function that returns 1 or 0 next to its effects returns \<open>True\<close> or \<open>False\<close> here.
\<close>

section \<open>State\<close>

text \<open>The interned strings of the machine, \<open>NULL\<close> before \<open>init_vm\<close>.\<close>

record names =
  mm_index :: "addr option"
  mm_newindex :: "addr option"
  mm_str :: "addr option"
  mm_call :: "addr option"
  mm_new :: "addr option"
  mm_append :: "addr option"
  mm_next :: "addr option"
  mm_slice :: "addr option"
  str_module_name :: "addr option"
  str_upper_name :: "addr option"
  str_lower_name :: "addr option"
  slice_name :: "addr option"
  module_name_key :: "addr option"
  module_file_key :: "addr option"
  module_main_key :: "addr option"

text \<open>
  \<open>cframe\<close> and \<open>ip\<close> are the local variables \<open>frame\<close> and \<open>ip\<close> of the innermost \<open>vm_run\<close>: the
  frame's thread and index, and an offset into the code of that frame's function. \<open>out\<close> and
  \<open>err\<close> are what was written to the standard streams.
\<close>

record vm =
  vheap :: heap
  current_thread :: "addr option"
  gc_parked_threads :: "addr option"
  globals :: table
  modules :: table
  disable_gc :: bool
  is_repl :: bool
  vnames :: names
  str_upper_fn :: val
  str_lower_fn :: val
  interrupt_requested :: bool
  run_stop_thread :: "addr option"
  out :: bytes
  err :: bytes
  cframe :: "addr \<times> nat"
  ip :: nat

datatype interpret_result = INTERPRET_OK | INTERPRET_COMPILE_ERROR | INTERPRET_RUNTIME_ERROR

text \<open>
  What the machine calls that is not modelled: native functions by their number, given the
  nested interpreter loop, the argument count and the stack index of the first argument;
  the loader of native modules, the compiler and the file system; the mathematical
  functions of the C library; mark hooks of userdata; and the text of a pointer.
\<close>

type_synonym vm_loop = "nat \<Rightarrow> vm \<Rightarrow> (interpret_result \<times> vm) option"

record env =
  native_fn :: "nat \<Rightarrow> vm_loop \<Rightarrow> nat \<Rightarrow> nat \<Rightarrow> vm \<Rightarrow> (bool \<times> vm) option"
  load_native_module :: "bytes \<Rightarrow> vm \<Rightarrow> (bool \<times> vm) option"
  compile :: "bytes \<Rightarrow> vm \<Rightarrow> (addr option \<times> vm) option"
  read_file :: "bytes \<Rightarrow> bytes option"
  math1 :: "nat \<Rightarrow> double \<Rightarrow> double"
  atan2_fn :: "double \<Rightarrow> double \<Rightarrow> double"
  pow_fn :: "double \<Rightarrow> double \<Rightarrow> double"
  umark :: "nat \<Rightarrow> nat \<Rightarrow> addr list"
  pointer_text :: "nat \<Rightarrow> bytes"

section \<open>Types of values\<close>

datatype vtype =
  TNumber | TNil | TBool | TString | TTable | TFunction | TNative | TUpvalue | TClosure
  | TThread | TUserdata | TBoundMethod

definition obj_type :: "obj \<Rightarrow> vtype" where
  "obj_type b =
     (case b of OString _ _ \<Rightarrow> TString | OTable _ \<Rightarrow> TTable | OFunction _ \<Rightarrow> TFunction
      | ONative _ \<Rightarrow> TNative | OUpvalue _ \<Rightarrow> TUpvalue | OClosure _ \<Rightarrow> TClosure
      | OThread _ \<Rightarrow> TThread | OUserdata _ \<Rightarrow> TUserdata | OBoundMethod _ _ \<Rightarrow> TBoundMethod)"

definition type_of :: "heap \<Rightarrow> val \<Rightarrow> vtype option" where
  "type_of h v =
     (case v of VNumber _ \<Rightarrow> Some TNumber | VNil \<Rightarrow> Some TNil | VBool _ \<Rightarrow> Some TBool
      | VObj a \<Rightarrow> map_option obj_type (obj_at h a))"

text \<open>
  \<open>AS_NUMBER\<close> without a type test: nil is built with the number 0 in its union, the bits of
  a boolean or a pointer are not a number the language defines.
\<close>

definition as_number :: "val \<Rightarrow> double option" where
  "as_number v = (case v of VNumber d \<Rightarrow> Some d | VNil \<Rightarrow> Some (dzero False) | _ \<Rightarrow> None)"

definition string_at :: "heap \<Rightarrow> addr \<Rightarrow> bytes option" where
  "string_at h a = (case obj_at h a of Some (OString cs _) \<Rightarrow> Some cs | _ \<Rightarrow> None)"

definition key_at :: "heap \<Rightarrow> addr \<Rightarrow> skey option" where
  "key_at h a =
     (case obj_at h a of
        Some (OString cs hash) \<Rightarrow> Some \<lparr>kaddr = a, kchars = cs, khash = hash\<rparr> | _ \<Rightarrow> None)"

definition table_at :: "heap \<Rightarrow> addr \<Rightarrow> objtable option" where
  "table_at h a = (case obj_at h a of Some (OTable t) \<Rightarrow> Some t | _ \<Rightarrow> None)"

definition fn_at :: "heap \<Rightarrow> addr \<Rightarrow> fn option" where
  "fn_at h a = (case obj_at h a of Some (OFunction f) \<Rightarrow> Some f | _ \<Rightarrow> None)"

definition native_at :: "heap \<Rightarrow> addr \<Rightarrow> native option" where
  "native_at h a = (case obj_at h a of Some (ONative n) \<Rightarrow> Some n | _ \<Rightarrow> None)"

definition upvalue_at :: "heap \<Rightarrow> addr \<Rightarrow> upvalue option" where
  "upvalue_at h a = (case obj_at h a of Some (OUpvalue u) \<Rightarrow> Some u | _ \<Rightarrow> None)"

definition closure_at :: "heap \<Rightarrow> addr \<Rightarrow> closure option" where
  "closure_at h a = (case obj_at h a of Some (OClosure c) \<Rightarrow> Some c | _ \<Rightarrow> None)"

definition thread_at :: "heap \<Rightarrow> addr \<Rightarrow> thread option" where
  "thread_at h a = (case obj_at h a of Some (OThread t) \<Rightarrow> Some t | _ \<Rightarrow> None)"

definition userdata_at :: "heap \<Rightarrow> addr \<Rightarrow> userdata option" where
  "userdata_at h a = (case obj_at h a of Some (OUserdata u) \<Rightarrow> Some u | _ \<Rightarrow> None)"

definition bound_at :: "heap \<Rightarrow> addr \<Rightarrow> (val \<times> addr) option" where
  "bound_at h a = (case obj_at h a of Some (OBoundMethod r m) \<Rightarrow> Some (r, m) | _ \<Rightarrow> None)"

text \<open>\<open>AS_OBJ\<close>; reading the pointer of a value that is not an object is undefined.\<close>

definition as_obj :: "val \<Rightarrow> addr option" where
  "as_obj v = (case v of VObj a \<Rightarrow> Some a | _ \<Rightarrow> None)"

text \<open>\<open>%s\<close>: the bytes up to the first zero.\<close>

definition cstr :: "bytes \<Rightarrow> bytes" where
  "cstr bs = takeWhile (\<lambda>b. b \<noteq> 0) bs"

section \<open>The current thread and its stack\<close>

definition cur :: "vm \<Rightarrow> thread option" where
  "cur vm = do { a \<leftarrow> current_thread vm; thread_at (vheap vm) a }"

definition put_thread :: "addr \<Rightarrow> thread \<Rightarrow> vm \<Rightarrow> vm" where
  "put_thread a t vm = vm\<lparr>vheap := put_obj (vheap vm) a (OThread t)\<rparr>"

definition put_cur :: "thread \<Rightarrow> vm \<Rightarrow> vm" where
  "put_cur t vm = (case current_thread vm of Some a \<Rightarrow> put_thread a t vm | None \<Rightarrow> vm)"

definition push_to :: "thread \<Rightarrow> val \<Rightarrow> thread option" where
  "push_to t v =
     (if stack_top t < stack_capacity t
      then Some (t\<lparr>stack := (stack t)(stack_top t \<mapsto> v), stack_top := stack_top t + 1\<rparr>)
      else None)"

definition push :: "val \<Rightarrow> vm \<Rightarrow> vm option" where
  "push v vm = do { t \<leftarrow> cur vm; t \<leftarrow> push_to t v; Some (put_cur t vm) }"

definition pop :: "vm \<Rightarrow> (val \<times> vm) option" where
  "pop vm =
     do {
       t \<leftarrow> cur vm;
       (if stack_top t = 0 then None
        else do {
          v \<leftarrow> stack t (stack_top t - 1);
          Some (v, put_cur (t\<lparr>stack_top := stack_top t - 1\<rparr>) vm)
        })
     }"

definition peek :: "nat \<Rightarrow> vm \<Rightarrow> val option" where
  "peek d vm = do { t \<leftarrow> cur vm; (if d < stack_top t then stack t (stack_top t - 1 - d) else None) }"

fun push_all :: "val list \<Rightarrow> vm \<Rightarrow> vm option" where
  "push_all [] vm = Some vm"
| "push_all (v # vs) vm = do { vm \<leftarrow> push v vm; push_all vs vm }"

fun pop_n :: "nat \<Rightarrow> vm \<Rightarrow> vm option" where
  "pop_n 0 vm = Some vm"
| "pop_n (Suc n) vm = do { (_, vm) \<leftarrow> pop vm; pop_n n vm }"

definition stack_get :: "addr \<Rightarrow> nat \<Rightarrow> vm \<Rightarrow> val option" where
  "stack_get a i vm =
     do { t \<leftarrow> thread_at (vheap vm) a; (if i < stack_capacity t then stack t i else None) }"

definition stack_set :: "addr \<Rightarrow> nat \<Rightarrow> val \<Rightarrow> vm \<Rightarrow> vm option" where
  "stack_set a i v vm =
     do {
       t \<leftarrow> thread_at (vheap vm) a;
       (if i < stack_capacity t then Some (put_thread a (t\<lparr>stack := (stack t)(i \<mapsto> v)\<rparr>) vm) else None)
     }"

text \<open>\<open>stack_top -= n\<close> on the current thread.\<close>

definition drop_n :: "nat \<Rightarrow> vm \<Rightarrow> vm option" where
  "drop_n n vm =
     do {
       t \<leftarrow> cur vm;
       (if n \<le> stack_top t then Some (put_cur (t\<lparr>stack_top := stack_top t - n\<rparr>) vm) else None)
     }"

section \<open>The running frame\<close>

definition frame_get :: "addr \<times> nat \<Rightarrow> vm \<Rightarrow> frame option" where
  "frame_get r vm = do { t \<leftarrow> thread_at (vheap vm) (fst r); tframes t (snd r) }"

definition frame_put :: "addr \<times> nat \<Rightarrow> frame \<Rightarrow> vm \<Rightarrow> vm option" where
  "frame_put r f vm =
     do {
       t \<leftarrow> thread_at (vheap vm) (fst r);
       Some (put_thread (fst r) (t\<lparr>tframes := (tframes t)(snd r \<mapsto> f)\<rparr>) vm)
     }"

definition running_fn :: "vm \<Rightarrow> (addr \<times> fn) option" where
  "running_fn vm =
     do {
       f \<leftarrow> frame_get (cframe vm) vm;
       c \<leftarrow> closure_at (vheap vm) (fclosure f);
       g \<leftarrow> fn_at (vheap vm) (clfunction c);
       Some (clfunction c, g)
     }"

definition read_byte :: "vm \<Rightarrow> (byte \<times> vm) option" where
  "read_byte vm =
     do {
       (_, g) \<leftarrow> running_fn vm;
       b \<leftarrow> at (code (fchunk g)) (ip vm);
       Some (b, vm\<lparr>ip := ip vm + 1\<rparr>)
     }"

definition read_short :: "vm \<Rightarrow> (nat \<times> vm) option" where
  "read_short vm =
     do {
       (_, g) \<leftarrow> running_fn vm;
       w \<leftarrow> short_at (code (fchunk g)) (ip vm);
       Some (unat w, vm\<lparr>ip := ip vm + 2\<rparr>)
     }"

text \<open>\<open>chunk.constants.values[i]\<close> of the running function.\<close>

definition chunk_constant :: "byte \<Rightarrow> vm \<Rightarrow> val option" where
  "chunk_constant i vm = do { (_, g) \<leftarrow> running_fn vm; const_at (fchunk g) (unat i) }"

definition read_constant :: "vm \<Rightarrow> (val \<times> vm) option" where
  "read_constant vm = do { (i, vm) \<leftarrow> read_byte vm; v \<leftarrow> chunk_constant i vm; Some (v, vm) }"

text \<open>\<open>frame->slots[i]\<close>\<close>

definition slot_get :: "byte \<Rightarrow> vm \<Rightarrow> val option" where
  "slot_get i vm =
     do { f \<leftarrow> frame_get (cframe vm) vm; stack_get (fst (cframe vm)) (fslots f + unat i) vm }"

definition slot_set :: "byte \<Rightarrow> val \<Rightarrow> vm \<Rightarrow> vm option" where
  "slot_set i v vm =
     do { f \<leftarrow> frame_get (cframe vm) vm; stack_set (fst (cframe vm)) (fslots f + unat i) v vm }"

text \<open>\<open>(*frame)->ip = *ip\<close>, and \<open>*frame = &frames[frame_count - 1]; *ip = (*frame)->ip\<close>.\<close>

definition save_ip :: "vm \<Rightarrow> vm option" where
  "save_ip vm =
     do { f \<leftarrow> frame_get (cframe vm) vm; frame_put (cframe vm) (f\<lparr>fip := ip vm\<rparr>) vm }"

definition load_frame :: "vm \<Rightarrow> vm option" where
  "load_frame vm =
     do {
       a \<leftarrow> current_thread vm;
       t \<leftarrow> cur vm;
       (if frame_count t = 0 then None
        else do {
          f \<leftarrow> tframes t (frame_count t - 1);
          Some (vm\<lparr>cframe := (a, frame_count t - 1), ip := fip f\<rparr>)
        })
     }"


section \<open>Objects made by the machine\<close>

definition alloc :: "(heap \<Rightarrow> addr \<times> heap) \<Rightarrow> vm \<Rightarrow> addr \<times> vm" where
  "alloc f vm = (let (a, h) = f (vheap vm) in (a, vm\<lparr>vheap := h\<rparr>))"

definition string_val :: "bytes \<Rightarrow> vm \<Rightarrow> val \<times> vm" where
  "string_val cs vm = (let (a, vm) = alloc (\<lambda>h. copy_string h cs) vm in (VObj a, vm))"

text \<open>
  \<open>vm_runtime_error\<close>: the formatted message is cut at 1023 bytes and becomes the exception
  and the last error of the current thread.
\<close>

definition vm_runtime_error :: "bytes \<Rightarrow> vm \<Rightarrow> vm option" where
  "vm_runtime_error msg vm =
     (let (ex, vm) = string_val (take 1023 msg) vm
      in do {
        t \<leftarrow> cur vm;
        Some (put_cur (t\<lparr>has_exception := True, exception := ex, last_error := ex\<rparr>) vm)
      })"

text \<open>An error message followed by the C result 0.\<close>

definition fail :: "string \<Rightarrow> vm \<Rightarrow> (bool \<times> vm) option" where
  "fail msg vm = do { vm \<leftarrow> vm_runtime_error (bytes_of msg) vm; Some (False, vm) }"

definition fail_bytes :: "bytes \<Rightarrow> vm \<Rightarrow> (bool \<times> vm) option" where
  "fail_bytes msg vm = do { vm \<leftarrow> vm_runtime_error msg vm; Some (False, vm) }"

section \<open>Tables on the heap\<close>

definition put_table :: "addr \<Rightarrow> table \<Rightarrow> vm \<Rightarrow> vm option" where
  "put_table a t vm =
     do {
       ot \<leftarrow> table_at (vheap vm) a;
       Some (vm\<lparr>vheap := put_obj (vheap vm) a (OTable (ot\<lparr>otable := t\<rparr>))\<rparr>)
     }"

text \<open>\<open>table_get(&t->table, key, &value)\<close> for a table and a string object.\<close>

definition heap_get :: "addr \<Rightarrow> addr \<Rightarrow> vm \<Rightarrow> val option option" where
  "heap_get a key vm =
     do { ot \<leftarrow> table_at (vheap vm) a; k \<leftarrow> key_at (vheap vm) key; table_get (otable ot) k }"

definition heap_set :: "addr \<Rightarrow> addr \<Rightarrow> val \<Rightarrow> vm \<Rightarrow> vm option" where
  "heap_set a key v vm =
     do {
       ot \<leftarrow> table_at (vheap vm) a;
       k \<leftarrow> key_at (vheap vm) key;
       (t, _) \<leftarrow> table_set (otable ot) k v;
       put_table a t vm
     }"

definition heap_delete :: "addr \<Rightarrow> addr \<Rightarrow> vm \<Rightarrow> (bool \<times> vm) option" where
  "heap_delete a key vm =
     do {
       ot \<leftarrow> table_at (vheap vm) a;
       k \<leftarrow> key_at (vheap vm) key;
       (t, b) \<leftarrow> table_delete (otable ot) k;
       vm \<leftarrow> put_table a t vm;
       Some (b, vm)
     }"

definition global_get :: "addr \<Rightarrow> vm \<Rightarrow> val option option" where
  "global_get key vm = do { k \<leftarrow> key_at (vheap vm) key; table_get (globals vm) k }"

definition global_set :: "addr \<Rightarrow> val \<Rightarrow> vm \<Rightarrow> vm option" where
  "global_set key v vm =
     do {
       k \<leftarrow> key_at (vheap vm) key;
       (t, _) \<leftarrow> table_set (globals vm) k v;
       Some (vm\<lparr>globals := t\<rparr>)
     }"

definition global_delete :: "addr \<Rightarrow> vm \<Rightarrow> (bool \<times> vm) option" where
  "global_delete key vm =
     do {
       k \<leftarrow> key_at (vheap vm) key;
       (t, b) \<leftarrow> table_delete (globals vm) k;
       Some (b, vm\<lparr>globals := t\<rparr>)
     }"

text \<open>\<open>number_key_string\<close> allocates the key of a number.\<close>

definition number_key_string :: "double \<Rightarrow> vm \<Rightarrow> addr \<times> vm" where
  "number_key_string d vm = alloc (\<lambda>h. copy_string h (number_key_bytes d)) vm"

text \<open>
  The length loops of the machine: \<open>for (i = 1; ; i++)\<close> until the array part has no value at
  \<open>i\<close>. The array part is finite, so the loop always ends.
\<close>

fun array_length_from :: "val list \<Rightarrow> nat" where
  "array_length_from [] = 0"
| "array_length_from (v # vs) = (if is_nil v then 0 else Suc (array_length_from vs))"

definition array_length :: "table \<Rightarrow> nat" where
  "array_length t = array_length_from (tarray t)"

section \<open>Metamethods\<close>

text \<open>The metatable of a table or userdata value.\<close>

definition metatable_of :: "heap \<Rightarrow> val \<Rightarrow> addr option option" where
  "metatable_of h v =
     (case type_of h v of
        None \<Rightarrow> None
      | Some TTable \<Rightarrow> do { a \<leftarrow> as_obj v; t \<leftarrow> table_at h a; Some (ometatable t) }
      | Some TUserdata \<Rightarrow> do { a \<leftarrow> as_obj v; u \<leftarrow> userdata_at h a; Some (umetatable u) }
      | Some _ \<Rightarrow> Some None)"

definition lookup_meta :: "val \<Rightarrow> addr \<Rightarrow> vm \<Rightarrow> val option" where
  "lookup_meta v name vm =
     do {
       m \<leftarrow> metatable_of (vheap vm) v;
       (case m of
          None \<Rightarrow> Some VNil
        | Some mt \<Rightarrow> do { r \<leftarrow> heap_get mt name vm; Some (case r of Some w \<Rightarrow> w | None \<Rightarrow> VNil) })
     }"

definition get_metamethod :: "val \<Rightarrow> string \<Rightarrow> vm \<Rightarrow> (val \<times> vm) option" where
  "get_metamethod v name vm =
     do {
       let (a, vm) = alloc (\<lambda>h. copy_string h (bytes_of name)) vm;
       vm \<leftarrow> push (VObj a) vm;
       m \<leftarrow> lookup_meta v a vm;
       (_, vm) \<leftarrow> pop vm;
       Some (m, vm)
     }"

text \<open>The first of two operands that defines a metamethod.\<close>

definition get_metamethod2 :: "val \<Rightarrow> val \<Rightarrow> string \<Rightarrow> vm \<Rightarrow> (val \<times> vm) option" where
  "get_metamethod2 a b name vm =
     do {
       (m, vm) \<leftarrow> get_metamethod a name vm;
       (if is_nil m then get_metamethod b name vm else Some (m, vm))
     }"

definition get_metamethod_cached :: "val \<Rightarrow> addr option \<Rightarrow> vm \<Rightarrow> val option" where
  "get_metamethod_cached v name vm =
     do {
       m \<leftarrow> metatable_of (vheap vm) v;
       (case m of
          None \<Rightarrow> Some VNil
        | Some _ \<Rightarrow> do { a \<leftarrow> name; lookup_meta v a vm })
     }"

definition is_callable :: "heap \<Rightarrow> val \<Rightarrow> bool option" where
  "is_callable h v = do { ty \<leftarrow> type_of h v; Some (ty = TClosure \<or> ty = TNative) }"

section \<open>Truth and equality\<close>

definition is_falsey :: "heap \<Rightarrow> val \<Rightarrow> bool option" where
  "is_falsey h v =
     (case v of
        VNil \<Rightarrow> Some True
      | VBool b \<Rightarrow> Some (\<not> b)
      | VNumber d \<Rightarrow> Some (deq d (dzero False))
      | VObj a \<Rightarrow>
          (case obj_at h a of
             None \<Rightarrow> None
           | Some (OString cs _) \<Rightarrow> Some (cs = [])
           | Some (OTable t) \<Rightarrow>
               Some (tcount (otable t) = 0 \<and> (\<forall>v\<in>set (tarray (otable t)). is_nil v))
           | Some _ \<Rightarrow> Some False))"

definition values_equal_simple :: "heap \<Rightarrow> val \<Rightarrow> val \<Rightarrow> bool option" where
  "values_equal_simple h a b =
     (case (a, b) of
        (VNumber x, VNumber y) \<Rightarrow> Some (deq x y)
      | (VBool x, VBool y) \<Rightarrow> Some (x = y)
      | (VNil, VNil) \<Rightarrow> Some True
      | (VObj x, VObj y) \<Rightarrow>
          if x = y then Some True
          else do {
            p \<leftarrow> obj_at h x;
            q \<leftarrow> obj_at h y;
            (case (p, q) of
               (OString s hs, OString u hu) \<Rightarrow> Some (hs = hu \<and> length s = length u \<and> s = u)
             | _ \<Rightarrow> Some False)
          }
      | _ \<Rightarrow> Some False)"

section \<open>The collector's roots\<close>

definition name_list :: "names \<Rightarrow> addr option list" where
  "name_list n =
     [mm_index n, mm_newindex n, mm_str n, mm_call n, mm_new n, mm_append n, mm_next n, mm_slice n,
      str_module_name n, str_upper_name n, str_lower_name n, slice_name n, module_name_key n,
      module_file_key n, module_main_key n]"

definition entry_children :: "table \<Rightarrow> addr list" where
  "entry_children t =
     concat (map (\<lambda>e. case ekey e of None \<Rightarrow> [] | Some k \<Rightarrow> kaddr k # addrs_of_val (evalue e)) (entries t))"

text \<open>The list of parked threads.\<close>

partial_function (option) parked_chain :: "heap \<Rightarrow> addr option \<Rightarrow> addr list option" where
  "parked_chain h p =
     (case p of
        None \<Rightarrow> Some []
      | Some a \<Rightarrow>
          (case obj_at h a of
             Some (OThread t) \<Rightarrow> do { as \<leftarrow> parked_chain h (gc_park_next t); Some (a # as) }
           | _ \<Rightarrow> None))"

definition roots :: "vm \<Rightarrow> addr list option" where
  "roots vm =
     do {
       parked \<leftarrow> parked_chain (vheap vm) (gc_parked_threads vm);
       Some (addrs_of_opt (current_thread vm) @ parked @
             concat (map addrs_of_opt (name_list (vnames vm))) @
             addrs_of_val (str_upper_fn vm) @ addrs_of_val (str_lower_fn vm) @
             entry_children (globals vm) @ entry_children (modules vm))
     }"

definition collect_garbage :: "env \<Rightarrow> vm \<Rightarrow> vm option" where
  "collect_garbage env vm =
     do { rs \<leftarrow> roots vm; h \<leftarrow> collect (umark env) (vheap vm) rs; Some (vm\<lparr>vheap := h\<rparr>) }"

definition maybe_collect_garbage :: "env \<Rightarrow> vm \<Rightarrow> vm option" where
  "maybe_collect_garbage env vm =
     (if disable_gc vm then Some vm
      else if next_gc (vheap vm) < bytes_allocated (vheap vm) then collect_garbage env vm
      else Some vm)"

section \<open>Module context\<close>

definition set_global_value :: "addr option \<Rightarrow> val \<Rightarrow> vm \<Rightarrow> vm option" where
  "set_global_value key v vm =
     do {
       k \<leftarrow> key;
       vm \<leftarrow> push (VObj k) vm;
       vm \<leftarrow> push v vm;
       vm \<leftarrow> global_set k v vm;
       (_, vm) \<leftarrow> pop vm;
       (_, vm) \<leftarrow> pop vm;
       Some vm
     }"

definition restore_global :: "bool \<Rightarrow> addr option \<Rightarrow> val \<Rightarrow> vm \<Rightarrow> vm option" where
  "restore_global had key v vm =
     (if had then set_global_value key v vm
      else do { k \<leftarrow> key; (_, vm) \<leftarrow> global_delete k vm; Some vm })"

definition restore_module_context :: "frame \<Rightarrow> vm \<Rightarrow> vm option" where
  "restore_module_context f vm =
     (if \<not> frestore f then Some vm
      else do {
        vm \<leftarrow> restore_global (fhad_name f) (module_name_key (vnames vm)) (fprev_name f) vm;
        vm \<leftarrow> restore_global (fhad_file f) (module_file_key (vnames vm)) (fprev_file f) vm;
        restore_global (fhad_main f) (module_main_key (vnames vm)) (fprev_main f) vm
      })"

section \<open>Assignments that wait for a metamethod\<close>

text \<open>
  \<open>push_pending_set_local\<close> records that the result of the call about to be made belongs in a
  local slot; \<open>apply_pending_set_local\<close> stores it when that frame is on top again.
\<close>

definition push_pending_set_local :: "byte \<Rightarrow> vm \<Rightarrow> (bool \<times> vm) option" where
  "push_pending_set_local slot vm =
     do {
       t \<leftarrow> cur vm;
       (if 8 \<le> length (pending t) then fail ''Pending set-local stack overflow.'' vm
        else Some (True, put_cur (t\<lparr>pending := pending t @ [(frame_count t - 1, unat slot)]\<rparr>) vm))
     }"

definition apply_pending_set_local :: "vm \<Rightarrow> vm option" where
  "apply_pending_set_local vm =
     do {
       t \<leftarrow> cur vm;
       (if pending t = [] then Some vm
        else let (fi, slot) = last (pending t)
             in if fi + 1 \<noteq> frame_count t then Some vm
                else do {
                  f \<leftarrow> tframes t fi;
                  v \<leftarrow> peek 0 vm;
                  a \<leftarrow> current_thread vm;
                  vm \<leftarrow> stack_set a (fslots f + slot) v vm;
                  t \<leftarrow> cur vm;
                  Some (put_cur (t\<lparr>pending := butlast (pending t)\<rparr>) vm)
                })
     }"

end
