(* ===== verification/Calls.thy ===== *)
theory Calls
  imports Machine
begin

text \<open>
  Upvalues, calls and exceptions (\<open>src/src/vm.c\<close>): capturing and closing the variables of
  a frame, checking parameter types, positional, variadic and named calls, native calls,
  generator creation, and the search for an exception handler. A Boolean result is the C
  result; \<open>False\<close> makes the interpreter loop look for a handler.
\<close>

section \<open>Upvalues\<close>

definition put_upvalue :: "addr \<Rightarrow> upvalue \<Rightarrow> vm \<Rightarrow> vm" where
  "put_upvalue a u vm = vm\<lparr>vheap := put_obj (vheap vm) a (OUpvalue u)\<rparr>"

text \<open>
  The search in the list of open upvalues for slot \<open>i\<close> of thread \<open>th\<close>: the last upvalue above
  the slot and the one that follows it. Pointers are compared within one stack only.
\<close>

partial_function (option) find_upvalue ::
  "heap \<Rightarrow> addr \<Rightarrow> nat \<Rightarrow> addr option \<Rightarrow> addr option \<Rightarrow> (addr option \<times> addr option) option" where
  "find_upvalue h th i prev p =
     (case p of
        None \<Rightarrow> Some (prev, None)
      | Some a \<Rightarrow>
          (case obj_at h a of
             Some (OUpvalue u) \<Rightarrow>
               (case ulocation u of
                  InClosed \<Rightarrow> None
                | OnStack b j \<Rightarrow>
                    if b \<noteq> th then None
                    else if i < j then find_upvalue h th i (Some a) (unext u)
                    else Some (prev, Some a))
           | _ \<Rightarrow> None))"

definition capture_upvalue :: "nat \<Rightarrow> vm \<Rightarrow> (addr \<times> vm) option" where
  "capture_upvalue i vm =
     do {
       th \<leftarrow> current_thread vm;
       t \<leftarrow> cur vm;
       (prev, p) \<leftarrow> find_upvalue (vheap vm) th i None (open_upvalues t);
       found \<leftarrow> (case p of
          None \<Rightarrow> Some None
        | Some a \<Rightarrow> do {
            u \<leftarrow> upvalue_at (vheap vm) a;
            Some (if ulocation u = OnStack th i then Some a else None)
          });
       (case found of
          Some a \<Rightarrow> Some (a, vm)
        | None \<Rightarrow>
            let (a, vm) = alloc (\<lambda>h. new_upvalue h (OnStack th i)) vm
            in do {
              u \<leftarrow> upvalue_at (vheap vm) a;
              let vm = put_upvalue a (u\<lparr>unext := p\<rparr>) vm;
              (case prev of
                 None \<Rightarrow> do { t \<leftarrow> cur vm; Some (a, put_cur (t\<lparr>open_upvalues := Some a\<rparr>) vm) }
               | Some q \<Rightarrow> do {
                   w \<leftarrow> upvalue_at (vheap vm) q;
                   Some (a, put_upvalue q (w\<lparr>unext := Some a\<rparr>) vm)
                 })
            })
     }"

partial_function (option) close_upvalues :: "nat \<Rightarrow> vm \<Rightarrow> vm option" where
  "close_upvalues last_slot vm =
     do {
       th \<leftarrow> current_thread vm;
       t \<leftarrow> cur vm;
       (case open_upvalues t of
          None \<Rightarrow> Some vm
        | Some a \<Rightarrow> do {
            u \<leftarrow> upvalue_at (vheap vm) a;
            (case ulocation u of
               InClosed \<Rightarrow> None
             | OnStack b j \<Rightarrow>
                 if b \<noteq> th then None
                 else if last_slot \<le> j then do {
                   v \<leftarrow> stack_get b j vm;
                   let vm = put_upvalue a (u\<lparr>uclosed := v, ulocation := InClosed\<rparr>) vm;
                   let vm = put_cur (t\<lparr>open_upvalues := unext u\<rparr>) vm;
                   close_upvalues last_slot vm
                 }
                 else Some vm)
          })
     }"

text \<open>\<open>*upvalue->location\<close>, read and written.\<close>

definition upvalue_get :: "addr \<Rightarrow> vm \<Rightarrow> val option" where
  "upvalue_get a vm =
     do {
       u \<leftarrow> upvalue_at (vheap vm) a;
       (case ulocation u of OnStack b j \<Rightarrow> stack_get b j vm | InClosed \<Rightarrow> Some (uclosed u))
     }"

definition upvalue_set :: "addr \<Rightarrow> val \<Rightarrow> vm \<Rightarrow> vm option" where
  "upvalue_set a v vm =
     do {
       u \<leftarrow> upvalue_at (vheap vm) a;
       (case ulocation u of
          OnStack b j \<Rightarrow> stack_set b j v vm
        | InClosed \<Rightarrow> Some (put_upvalue a (u\<lparr>uclosed := v\<rparr>) vm))
     }"

section \<open>Entering a closure\<close>

text \<open>\<open>value_matches_type\<close>, with the constants of \<open>TypeHint\<close>.\<close>

definition value_matches_type :: "heap \<Rightarrow> val \<Rightarrow> byte \<Rightarrow> bool option" where
  "value_matches_type h v ty =
     (if ty = 0 then Some True
      else do {
        k \<leftarrow> type_of h v;
        (if ty = 1 then
           (case v of VNumber d \<Rightarrow> map_option (\<lambda>i. i \<noteq> None) (to_int64 d) | _ \<Rightarrow> Some False)
         else if ty = 2 then Some (k = TNumber)
         else if ty = 3 then Some (k = TBool)
         else if ty = 4 then Some (k = TString)
         else if ty = 5 then Some (k = TTable)
         else Some False)
      })"

text \<open>The top \<open>n\<close> values of the current stack, the lowest first.\<close>

definition read_args :: "nat \<Rightarrow> vm \<Rightarrow> val list option" where
  "read_args n vm =
     do {
       t \<leftarrow> cur vm;
       (if n \<le> stack_top t then those (map (\<lambda>i. stack t (stack_top t - n + i)) [0..<n]) else None)
     }"

text \<open>The first parameter, from \<open>i\<close> on, whose argument has the wrong type.\<close>

fun type_mismatch :: "heap \<Rightarrow> nat \<Rightarrow> val list \<Rightarrow> bytes \<Rightarrow> nat option option" where
  "type_mismatch h i (v # vs) (ty # tys) =
     (case value_matches_type h v ty of
        None \<Rightarrow> None
      | Some True \<Rightarrow> type_mismatch h (i + 1) vs tys
      | Some False \<Rightarrow> Some (Some i))"
| "type_mismatch h i _ _ = Some None"

definition finish_closure_call :: "addr \<Rightarrow> nat \<Rightarrow> vm \<Rightarrow> (bool \<times> vm) option" where
  "finish_closure_call cl arg_count vm =
     do {
       c \<leftarrow> closure_at (vheap vm) cl;
       g \<leftarrow> fn_at (vheap vm) (clfunction c);
       bad \<leftarrow>
         (if param_types g = [] then Some None
          else do {
            let check_count = min (length (param_types g)) (nat (arity g));
            args \<leftarrow> read_args arg_count vm;
            (if length args < check_count then None
             else type_mismatch (vheap vm) 0 args (take check_count (param_types g)))
          });
       (case bad of
          Some i \<Rightarrow>
            fail_bytes (bytes_of ''Type mismatch for parameter '' @ dec_int (int i + 1) @ bytes_of ''.'') vm
        | None \<Rightarrow> do {
            t \<leftarrow> cur vm;
            (if frame_count t = frame_capacity t then fail ''Stack overflow.'' vm
             else if stack_top t < arg_count + 1 then None
             else
               let f = \<lparr>fclosure = cl, fip = 0, fslots = stack_top t - arg_count - 1, frestore = False,
                        fcache = False, fhad_name = False, fhad_file = False, fhad_main = False,
                        fcache_name = VNil, fprev_name = VNil, fprev_file = VNil, fprev_main = VNil\<rparr>
               in Some (True, put_cur (t\<lparr>tframes := (tframes t)(frame_count t \<mapsto> f),
                                        frame_count := frame_count t + 1\<rparr>) vm))
          })
     }"

text \<open>
  The array of the surplus arguments: \<open>table_set_array\<close> at 1, 2, ..., its result ignored.
\<close>

fun fill_array :: "int \<Rightarrow> val list \<Rightarrow> table \<Rightarrow> table" where
  "fill_array i [] t = t"
| "fill_array i (v # vs) t =
     fill_array (i + 1) vs (case table_set_array t i v of Some t' \<Rightarrow> t' | None \<Rightarrow> t)"

definition expected_msg :: "int \<Rightarrow> nat \<Rightarrow> bytes" where
  "expected_msg n got =
     bytes_of ''Expected '' @ dec_int n @ bytes_of '' arguments but got '' @ dec_int (int got) @ bytes_of ''.''"

definition expected_at_least_msg :: "int \<Rightarrow> string \<Rightarrow> nat \<Rightarrow> bytes" where
  "expected_at_least_msg n what got =
     bytes_of ''Expected at least '' @ dec_int n @ bytes_of what @ dec_int (int got) @ bytes_of ''.''"

definition call :: "addr \<Rightarrow> nat \<Rightarrow> vm \<Rightarrow> (bool \<times> vm) option" where
  "call cl arg_count vm =
     do {
       c \<leftarrow> closure_at (vheap vm) cl;
       g \<leftarrow> fn_at (vheap vm) (clfunction c);
       (if is_variadic g then
          let required = arity g - 1
          in if int arg_count < required
             then fail_bytes (expected_at_least_msg required '' arguments but got '' arg_count) vm
             else do {
               let extra = nat (int arg_count - required);
               let (va, vm) = alloc new_table vm;
               args \<leftarrow> read_args extra vm;
               vm \<leftarrow> put_table va (fill_array 1 args init_table) vm;
               vm \<leftarrow> drop_n extra vm;
               vm \<leftarrow> push (VObj va) vm;
               finish_closure_call cl (nat (arity g)) vm
             }
        else if arity g < int arg_count then fail_bytes (expected_msg (arity g) arg_count) vm
        else if int arg_count < arity g then
          if defaults g = [] then fail_bytes (expected_msg (arity g) arg_count) vm
          else
            let default_start = arity g - int (length (defaults g))
            in if int arg_count < default_start
               then fail_bytes (expected_at_least_msg default_start
                      '' arguments (non-default parameters) but got '' arg_count) vm
               else do {
                 vm \<leftarrow> push_all (drop (nat (int arg_count - default_start)) (defaults g)) vm;
                 finish_closure_call cl (nat (arity g)) vm
               }
        else finish_closure_call cl arg_count vm)
     }"


section \<open>Native calls\<close>

text \<open>
  \<open>try_fast_native_call\<close>: the mathematical functions called without the native interface,
  by the constant of \<open>NativeFastKind\<close>. \<open>None\<close> in the result means that the general call is made.
\<close>

definition pi_double :: double where
  "pi_double = Fin False 7074237752028440 (-51)"

definition numbers :: "val list \<Rightarrow> double list option" where
  "numbers vs = those (map (\<lambda>v. case v of VNumber d \<Rightarrow> Some d | _ \<Rightarrow> None) vs)"

definition dabs :: "double \<Rightarrow> double" where
  "dabs d = (case d of NaN \<Rightarrow> NaN | Inf _ \<Rightarrow> Inf False | Fin _ m e \<Rightarrow> Fin False m e)"

definition fast_native :: "env \<Rightarrow> nat \<Rightarrow> val list \<Rightarrow> double option" where
  "fast_native env kind vs =
     (case numbers vs of
        Some [x] \<Rightarrow>
          if kind \<in> {1, 2, 3, 4, 5, 6, 7, 11, 12} then Some (math1 env kind x)
          else if kind = 8 then Some (dfloor x)
          else if kind = 9 then Some (dneg (dfloor (dneg x)))
          else if kind = 10 then Some (dabs x)
          else if kind = 15 then Some (dmul x (ddiv (dbl_of_int 180) pi_double))
          else if kind = 16 then Some (dmul x (ddiv pi_double (dbl_of_int 180)))
          else None
      | Some [x, y] \<Rightarrow>
          if kind = 6 then Some (atan2_fn env x y)
          else if kind = 12 then Some (ddiv (math1 env 12 x) (math1 env 12 y))
          else if kind = 13 then Some (pow_fn env x y)
          else if kind = 14 then Some (dfmod x y)
          else None
      | _ \<Rightarrow> None)"

definition try_fast_native_call :: "env \<Rightarrow> native \<Rightarrow> val list \<Rightarrow> vm \<Rightarrow> (bool \<times> vm) option" where
  "try_fast_native_call env n args vm =
     (if nfast n = 0 then Some (False, vm)
      else
        case fast_native env (nfast n) args of
          None \<Rightarrow> Some (False, vm)
        | Some d \<Rightarrow> do { vm \<leftarrow> push (VNumber d) vm; Some (True, vm) })"

text \<open>
  \<open>call_value\<close>. For a native, \<open>args\<close> stays valid above the lowered stack top. A callee that is
  neither a native nor a closure gives 0 without an error message.
\<close>

definition call_native :: "env \<Rightarrow> vm_loop \<Rightarrow> addr \<Rightarrow> nat \<Rightarrow> vm \<Rightarrow> (bool \<times> vm) option" where
  "call_native env loop a arg_count vm =
     do {
       n \<leftarrow> native_at (vheap vm) a;
       args \<leftarrow> read_args arg_count vm;
       vm \<leftarrow> drop_n (arg_count + 1) vm;
       t \<leftarrow> cur vm;
       vm \<leftarrow> save_ip vm;
       (fast, vm) \<leftarrow> try_fast_native_call env n args vm;
       (if fast then Some (True, vm)
        else do {
          let current = current_thread vm;
          (ok, vm) \<leftarrow> native_fn env (nfun n) loop arg_count (stack_top t + 1) vm;
          (if \<not> ok then Some (False, vm)
           else if current_thread vm \<noteq> current then do { vm \<leftarrow> load_frame vm; Some (True, vm) }
           else Some (True, vm))
        })
     }"

definition call_closure :: "addr \<Rightarrow> nat \<Rightarrow> vm \<Rightarrow> (bool \<times> vm) option" where
  "call_closure a arg_count vm =
     do {
       vm \<leftarrow> save_ip vm;
       (ok, vm) \<leftarrow> call a arg_count vm;
       (if \<not> ok then Some (False, vm) else do { vm \<leftarrow> load_frame vm; Some (True, vm) })
     }"

definition call_value :: "env \<Rightarrow> vm_loop \<Rightarrow> val \<Rightarrow> nat \<Rightarrow> vm \<Rightarrow> (bool \<times> vm) option" where
  "call_value env loop callee arg_count vm =
     do {
       k \<leftarrow> type_of (vheap vm) callee;
       (if k = TNative then do { a \<leftarrow> as_obj callee; call_native env loop a arg_count vm }
        else if k = TClosure then do { a \<leftarrow> as_obj callee; call_closure a arg_count vm }
        else Some (False, vm))
     }"

text \<open>
  The pattern of the binary operators: push the metamethod and its two arguments, save \<open>ip\<close>,
  call the method as a closure (whatever it is), continue in the new frame.
\<close>

definition call_metamethod :: "val \<Rightarrow> val \<Rightarrow> val \<Rightarrow> vm \<Rightarrow> (bool \<times> vm) option" where
  "call_metamethod m x y vm =
     do {
       vm \<leftarrow> push_all [m, x, y] vm;
       a \<leftarrow> as_obj m;
       call_closure a 2 vm
     }"

section \<open>Named calls\<close>

text \<open>\<open>find_named_param_index\<close>: the first of the first \<open>limit\<close> parameters with the key's name.\<close>

fun find_named_param :: "heap \<Rightarrow> skey \<Rightarrow> nat \<Rightarrow> addr option list \<Rightarrow> nat option option" where
  "find_named_param h key i [] = Some None"
| "find_named_param h key i (p # ps) =
     (case p of
        None \<Rightarrow> find_named_param h key (i + 1) ps
      | Some a \<Rightarrow>
          (case key_at h a of
             None \<Rightarrow> None
           | Some k \<Rightarrow>
               if same_key k key then Some (Some i) else find_named_param h key (i + 1) ps))"

definition is_options_param_name :: "heap \<Rightarrow> addr option \<Rightarrow> bool option" where
  "is_options_param_name h p =
     (case p of
        None \<Rightarrow> Some False
      | Some a \<Rightarrow> do {
          cs \<leftarrow> string_at h a;
          Some (cs = bytes_of ''opts'' \<or> cs = bytes_of ''options'' \<or> cs = bytes_of ''kwargs'')
        })"

text \<open>
  The state of \<open>call_named\<close> while it goes through the entries of the named-arguments table:
  the parameters bound so far (\<open>bound_args\<close> where \<open>assigned\<close>), the table of unexpected
  names and the first of them.
\<close>

record binding =
  bound :: "nat \<rightharpoonup> val"
  legacy :: "addr option"
  unexpected :: "skey option"

fun bind_named ::
  "fn \<Rightarrow> nat \<Rightarrow> addr option \<Rightarrow> entry list \<Rightarrow> binding \<Rightarrow> vm \<Rightarrow> (bool \<times> binding \<times> vm) option" where
  "bind_named g nva varargs [] b vm = Some (True, b, vm)"
| "bind_named g nva varargs (e # es) b vm =
     (case ekey e of
        None \<Rightarrow> bind_named g nva varargs es b vm
      | Some key \<Rightarrow> do {
          index \<leftarrow> find_named_param (vheap vm) key 0 (take nva (param_names g));
          (case index of
             Some i \<Rightarrow>
               if bound b i \<noteq> None then do {
                 (ok, vm) \<leftarrow> fail_bytes (bytes_of ''Multiple values for argument '' @ 39 # cstr (kchars key) @
                   [39, 46]) vm;
                 Some (ok, b, vm)
               }
               else bind_named g nva varargs es (b\<lparr>bound := (bound b)(i \<mapsto> evalue e)\<rparr>) vm
           | None \<Rightarrow>
               (case varargs of
                  Some va \<Rightarrow> do {
                    vm \<leftarrow> heap_set va (kaddr key) (evalue e) vm;
                    bind_named g nva varargs es b vm
                  }
                | None \<Rightarrow>
                    (case legacy b of
                       Some lg \<Rightarrow> do {
                         vm \<leftarrow> heap_set lg (kaddr key) (evalue e) vm;
                         bind_named g nva varargs es b vm
                       }
                     | None \<Rightarrow>
                         let (lg, vm) = alloc new_table vm
                         in do {
                           vm \<leftarrow> heap_set lg (kaddr key) (evalue e) vm;
                           bind_named g nva varargs es
                             (b\<lparr>legacy := Some lg, unexpected := Some key\<rparr>) vm
                         })))
        })"

text \<open>The first parameter, from \<open>i\<close> on, that is unbound and named for options.\<close>

fun options_target :: "heap \<Rightarrow> (nat \<rightharpoonup> val) \<Rightarrow> nat \<Rightarrow> addr option list \<Rightarrow> nat option option" where
  "options_target h bnd i [] = Some None"
| "options_target h bnd i (p # ps) =
     (if bnd i \<noteq> None then options_target h bnd (i + 1) ps
      else
        case is_options_param_name h p of
          None \<Rightarrow> None
        | Some True \<Rightarrow> Some (Some i)
        | Some False \<Rightarrow> options_target h bnd (i + 1) ps)"

text \<open>Missing parameters from \<open>i\<close> on take their default values; the first without one is an error.\<close>

fun fill_defaults :: "fn \<Rightarrow> int \<Rightarrow> nat \<Rightarrow> nat \<Rightarrow> (nat \<rightharpoonup> val) \<Rightarrow> (nat \<rightharpoonup> val) \<times> nat option" where
  "fill_defaults g start i 0 bnd = (bnd, None)"
| "fill_defaults g start i (Suc n) bnd =
     (if bnd i \<noteq> None then fill_defaults g start (i + 1) n bnd
      else if start \<le> int i
           then fill_defaults g start (i + 1) n (bnd(i \<mapsto> defaults g ! nat (int i - start)))
           else (bnd, Some i))"

definition missing_msg :: "heap \<Rightarrow> fn \<Rightarrow> nat \<Rightarrow> bytes option" where
  "missing_msg h g i =
     (case at (param_names g) i of
        Some (Some a) \<Rightarrow> do {
          cs \<leftarrow> string_at h a;
          Some (bytes_of ''Missing required argument '' @ 39 # cstr cs @ [39, 46])
        }
      | _ \<Rightarrow> Some (bytes_of ''Missing required argument '' @ dec_int (int i + 1) @ bytes_of ''.''))"

text \<open>After the entries: the options table, the defaults, and the call.\<close>

definition bind_options :: "fn \<Rightarrow> nat \<Rightarrow> binding \<Rightarrow> vm \<Rightarrow> (bool \<times> (nat \<rightharpoonup> val) \<times> vm) option" where
  "bind_options g nva b vm =
     (case (legacy b, unexpected b) of
        (Some lg, Some key) \<Rightarrow> do {
          target \<leftarrow> options_target (vheap vm) (bound b) 0 (take nva (param_names g));
          (case target of
             Some i \<Rightarrow> Some (True, (bound b)(i \<mapsto> VObj lg), vm)
           | None \<Rightarrow> do {
               (ok, vm) \<leftarrow> fail_bytes (bytes_of ''Unexpected named argument '' @ 39 # cstr (kchars key) @
                 [39, 46]) vm;
               Some (ok, bound b, vm)
             })
        }
      | _ \<Rightarrow> Some (True, bound b, vm))"

definition enter_bound :: "addr \<Rightarrow> fn \<Rightarrow> nat \<Rightarrow> (nat \<rightharpoonup> val) \<Rightarrow> vm \<Rightarrow> (bool \<times> vm) option" where
  "enter_bound cl g arg_count bnd vm =
     do {
       vm \<leftarrow> drop_n arg_count vm;
       vs \<leftarrow> those (map bnd [0..<nat (arity g)]);
       vm \<leftarrow> push_all vs vm;
       finish_closure_call cl (nat (arity g)) vm
     }"

definition finish_named ::
  "addr \<Rightarrow> fn \<Rightarrow> nat \<Rightarrow> nat \<Rightarrow> addr option \<Rightarrow> binding \<Rightarrow> vm \<Rightarrow> (bool \<times> vm) option" where
  "finish_named cl g arg_count nva varargs b vm =
     do {
       (ok, bnd, vm) \<leftarrow> bind_options g nva b vm;
       (if \<not> ok then Some (False, vm)
        else
          case fill_defaults g (int nva - int (length (defaults g))) 0 nva bnd of
            (_, Some i) \<Rightarrow> do { msg \<leftarrow> missing_msg (vheap vm) g i; fail_bytes msg vm }
          | (bnd, None) \<Rightarrow>
              enter_bound cl g arg_count
                (case varargs of Some va \<Rightarrow> bnd(nva \<mapsto> VObj va) | None \<Rightarrow> bnd) vm)
     }"

definition call_named :: "addr \<Rightarrow> nat \<Rightarrow> vm \<Rightarrow> (bool \<times> vm) option" where
  "call_named cl arg_count vm =
     do {
       c \<leftarrow> closure_at (vheap vm) cl;
       g \<leftarrow> fn_at (vheap vm) (clfunction c);
       (if arg_count < 1 then fail ''Named call requires a named-arguments table.'' vm
        else do {
          named \<leftarrow> peek 0 vm;
          k \<leftarrow> type_of (vheap vm) named;
          (if k \<noteq> TTable then fail ''Named call requires a table as final argument.'' vm
           else do {
             na \<leftarrow> as_obj named;
             incoming \<leftarrow> read_args arg_count vm;
             let positional = arg_count - 1;
             let nva = nat (if is_variadic g then arity g - 1 else arity g);
             (if 256 < nva + (if is_variadic g then 1 else 0) then None else Some ());
             let (varargs, vm) =
               (if is_variadic g then (let (va, vm) = alloc new_table vm in (Some va, vm)) else (None, vm));
             let b = \<lparr>bound = (\<lambda>i. if i < min positional nva then Some (incoming ! i) else None),
                      legacy = None, unexpected = None\<rparr>;
             (if nva < positional \<and> \<not> is_variadic g
              then fail_bytes (expected_msg (arity g) positional) vm
              else do {
                vm \<leftarrow> (case varargs of
                    None \<Rightarrow> Some vm
                  | Some va \<Rightarrow>
                      put_table va (fill_array 1 (drop nva (take positional incoming)) init_table) vm);
                nt \<leftarrow> table_at (vheap vm) na;
                (ok, b, vm) \<leftarrow> bind_named g nva varargs (entries (otable nt)) b vm;
                (if \<not> ok then Some (False, vm)
                 else finish_named cl g arg_count nva varargs b vm)
              })
           })
        })
     }"

section \<open>Generators and the call instructions\<close>

text \<open>
  \<open>create_generator_positional\<close> and \<open>create_generator_named\<close>, which differ in the function
  that binds the arguments (\<open>call\<close> or \<open>call_named\<close>). The call runs with the new thread
  current, so an error it raises is left on that thread.
\<close>

definition create_generator ::
  "(addr \<Rightarrow> nat \<Rightarrow> vm \<Rightarrow> (bool \<times> vm) option) \<Rightarrow> addr \<Rightarrow> nat \<Rightarrow> vm \<Rightarrow> (bool \<times> vm) option" where
  "create_generator bind_call cl arg_count vm =
     do {
       caller_addr \<leftarrow> current_thread vm;
       args \<leftarrow> read_args arg_count vm;
       let (gen, vm) = alloc (\<lambda>h. new_thread_with_caps h 96 24 16) vm;
       t \<leftarrow> thread_at (vheap vm) gen;
       let vm = put_thread gen (t\<lparr>is_generator := True, generator_mode := False, generator_index := 0\<rparr>) vm;
       let vm = vm\<lparr>current_thread := Some gen\<rparr>;
       vm \<leftarrow> push_all (VObj cl # args) vm;
       (ok, vm) \<leftarrow> bind_call cl arg_count vm;
       let vm = vm\<lparr>current_thread := Some caller_addr\<rparr>;
       (if \<not> ok then Some (False, vm)
        else do {
          vm \<leftarrow> drop_n (arg_count + 1) vm;
          vm \<leftarrow> push (VObj gen) vm;
          Some (True, vm)
        })
     }"

text \<open>
  \<open>[callee, arg1, ..., argn]\<close> becomes \<open>[m, receiver, arg1, ..., argn]\<close>: the arguments move up
  by one slot, the last of them to the slot at the stack top.
\<close>

definition insert_receiver :: "val \<Rightarrow> val \<Rightarrow> nat \<Rightarrow> vm \<Rightarrow> vm option" where
  "insert_receiver m receiver n vm =
     do {
       t \<leftarrow> cur vm;
       (if stack_top t < n + 1 \<or> stack_capacity t \<le> stack_top t then None
        else
          let top = stack_top t
          in Some (put_cur (t\<lparr>stack := (\<lambda>i. if i = top - n - 1 then Some m
                                           else if i = top - n then Some receiver
                                           else if top - n < i \<and> i \<le> top then stack t (i - 1)
                                           else stack t i),
                              stack_top := top + 1\<rparr>) vm))
     }"

text \<open>A bound method is replaced by its method and receiver: the new callee and count.\<close>

definition unbind_method :: "val \<Rightarrow> nat \<Rightarrow> vm \<Rightarrow> (val \<times> nat \<times> vm) option" where
  "unbind_method callee n vm =
     do {
       k \<leftarrow> type_of (vheap vm) callee;
       (if k \<noteq> TBoundMethod then Some (callee, n, vm)
        else do {
          a \<leftarrow> as_obj callee;
          (receiver, m) \<leftarrow> bound_at (vheap vm) a;
          vm \<leftarrow> insert_receiver (VObj m) receiver n vm;
          Some (VObj m, n + 1, vm)
        })
     }"

definition is_generator_fn :: "heap \<Rightarrow> addr \<Rightarrow> bool option" where
  "is_generator_fn h a =
     do { c \<leftarrow> closure_at h a; g \<leftarrow> fn_at h (clfunction c); Some (fn_is_generator g) }"

definition invoke_call_with_arg_count :: "env \<Rightarrow> vm_loop \<Rightarrow> nat \<Rightarrow> vm \<Rightarrow> (bool \<times> vm) option" where
  "invoke_call_with_arg_count env loop arg_count vm =
     do {
       callee \<leftarrow> peek arg_count vm;
       (callee, arg_count, vm) \<leftarrow> unbind_method callee arg_count vm;
       k \<leftarrow> type_of (vheap vm) callee;
       (if k = TClosure then do {
          a \<leftarrow> as_obj callee;
          gen \<leftarrow> is_generator_fn (vheap vm) a;
          (if gen then create_generator call a arg_count vm
           else call_value env loop callee arg_count vm)
        }
        else if k = TNative then call_value env loop callee arg_count vm
        else if k = TTable then do {
          m \<leftarrow> get_metamethod_cached callee (mm_call (vnames vm)) vm;
          callable \<leftarrow> is_callable (vheap vm) m;
          (if callable then do {
             vm \<leftarrow> insert_receiver m callee arg_count vm;
             call_value env loop m (arg_count + 1) vm
           }
           else fail ''Can only call functions.'' vm)
        }
        else fail ''Can only call functions.'' vm)
     }"

definition call_named_closure :: "addr \<Rightarrow> nat \<Rightarrow> vm \<Rightarrow> (bool \<times> vm) option" where
  "call_named_closure a arg_count vm =
     do {
       vm \<leftarrow> save_ip vm;
       (ok, vm) \<leftarrow> call_named a arg_count vm;
       (if \<not> ok then Some (False, vm) else do { vm \<leftarrow> load_frame vm; Some (True, vm) })
     }"

definition invoke_call_with_named_arg_count :: "env \<Rightarrow> vm_loop \<Rightarrow> nat \<Rightarrow> vm \<Rightarrow> (bool \<times> vm) option" where
  "invoke_call_with_named_arg_count env loop arg_count vm =
     do {
       callee \<leftarrow> peek arg_count vm;
       (callee, arg_count, vm) \<leftarrow> unbind_method callee arg_count vm;
       k \<leftarrow> type_of (vheap vm) callee;
       (if k = TNative then call_value env loop callee arg_count vm
        else if k = TClosure then do {
          a \<leftarrow> as_obj callee;
          gen \<leftarrow> is_generator_fn (vheap vm) a;
          (if gen then create_generator call_named a arg_count vm
           else call_named_closure a arg_count vm)
        }
        else if k = TTable then do {
          m \<leftarrow> get_metamethod_cached callee (mm_call (vnames vm)) vm;
          mk \<leftarrow> type_of (vheap vm) m;
          (if mk = TClosure \<or> mk = TNative then do {
             vm \<leftarrow> insert_receiver m callee arg_count vm;
             (if mk = TClosure then do { a \<leftarrow> as_obj m; call_named_closure a (arg_count + 1) vm }
              else call_value env loop m (arg_count + 1) vm)
           }
           else fail ''Can only call functions.'' vm)
        }
        else fail ''Can only call functions.'' vm)
     }"

section \<open>Exceptions\<close>

text \<open>\<open>discard_handlers_for_frame_return\<close>: handlers of the frame that returns are dropped.\<close>

fun discard_handlers :: "(nat \<rightharpoonup> handler) \<Rightarrow> nat \<Rightarrow> nat \<Rightarrow> nat option" where
  "discard_handlers hs fc 0 = Some 0"
| "discard_handlers hs fc (Suc n) =
     (case hs n of
        None \<Rightarrow> None
      | Some h \<Rightarrow> if fc \<le> hframe_count h then discard_handlers hs fc n else Some (Suc n))"

definition discard_handlers_for_frame_return :: "vm \<Rightarrow> vm option" where
  "discard_handlers_for_frame_return vm =
     do {
       t \<leftarrow> cur vm;
       n \<leftarrow> discard_handlers (handlers t) (frame_count t) (handler_count t);
       Some (put_cur (t\<lparr>handler_count := n\<rparr>) vm)
     }"

definition reset_stack :: "vm \<Rightarrow> vm option" where
  "reset_stack vm =
     do { t \<leftarrow> cur vm; Some (put_cur (t\<lparr>stack_top := 0, frame_count := 0, open_upvalues := None\<rparr>) vm) }"

definition red :: bytes where
  "red = [27, 91, 57, 49, 109]"

definition uncolored :: bytes where
  "uncolored = [27, 91, 48, 109]"

definition string_or :: "heap \<Rightarrow> val \<Rightarrow> string \<Rightarrow> bytes option" where
  "string_or h v d =
     do {
       k \<leftarrow> type_of h v;
       (if k = TString then do { a \<leftarrow> as_obj v; cs \<leftarrow> string_at h a; Some (cstr cs) }
        else Some (bytes_of d))
     }"

text \<open>The backtrace lines of frames \<open>n - 1, ..., 0\<close>; \<open>lines[ip - 1]\<close> must exist.\<close>

fun backtrace :: "heap \<Rightarrow> (nat \<rightharpoonup> frame) \<Rightarrow> nat \<Rightarrow> bytes option" where
  "backtrace h fs 0 = Some []"
| "backtrace h fs (Suc n) =
     do {
       f \<leftarrow> fs n;
       c \<leftarrow> closure_at h (fclosure f);
       g \<leftarrow> fn_at h (clfunction c);
       line \<leftarrow> (if fip f = 0 then None else at (lines (fchunk g)) (fip f - 1));
       name \<leftarrow> (case fname g of
           None \<Rightarrow> Some (bytes_of ''script'')
         | Some a \<Rightarrow> map_option (\<lambda>cs. cstr cs @ bytes_of ''()'') (string_at h a));
       rest \<leftarrow> backtrace h fs n;
       Some (bytes_of ''[line '' @ dec_int line @ bytes_of ''] in '' @ name @ [10] @ rest)
     }"

text \<open>The text of the exception: a string, or a table with fields \<open>msg\<close> and \<open>type\<close>.\<close>

definition exception_text :: "val \<Rightarrow> vm \<Rightarrow> (bytes \<times> vm) option" where
  "exception_text ex vm =
     do {
       k \<leftarrow> type_of (vheap vm) ex;
       (if k = TString then do {
          msg \<leftarrow> string_or (vheap vm) ex [];
          Some (red @ bytes_of ''Error: '' @ uncolored @ msg @ [10], vm)
        }
        else if k = TTable then do {
          let (mk, vm) = alloc (\<lambda>h. copy_string h (bytes_of ''msg'')) vm;
          let (tk, vm) = alloc (\<lambda>h. copy_string h (bytes_of ''type'')) vm;
          a \<leftarrow> as_obj ex;
          m \<leftarrow> heap_get a mk vm;
          y \<leftarrow> heap_get a tk vm;
          ms \<leftarrow> string_or (vheap vm) (case m of Some v \<Rightarrow> v | None \<Rightarrow> VNil) ''<exception>'';
          ys \<leftarrow> string_or (vheap vm) (case y of Some v \<Rightarrow> v | None \<Rightarrow> VNil) ''Error'';
          Some (red @ ys @ bytes_of '': '' @ uncolored @ ms @ [10], vm)
        }
        else Some (red @ bytes_of ''Error: '' @ uncolored @ bytes_of ''<exception>'' @ [10], vm))
     }"

definition report_exception :: "vm \<Rightarrow> vm option" where
  "report_exception vm =
     do {
       t \<leftarrow> cur vm;
       (if \<not> has_exception t then Some vm
        else do {
          (txt, vm) \<leftarrow> exception_text (exception t) vm;
          trace \<leftarrow> backtrace (vheap vm) (tframes t) (frame_count t);
          Some (vm\<lparr>err := err vm @ txt @ trace\<rparr>)
        })
     }"

text \<open>No handler is left: report, empty the stack, forget the exception.\<close>

definition give_up :: "vm \<Rightarrow> (bool \<times> vm) option" where
  "give_up vm =
     do {
       vm \<leftarrow> report_exception vm;
       vm \<leftarrow> reset_stack vm;
       t \<leftarrow> cur vm;
       Some (False, put_cur (t\<lparr>has_exception := False, exception := VNil\<rparr>) vm)
     }"

text \<open>Frames above the handler's are popped, their variables closed.\<close>

fun unwind_frames :: "nat \<Rightarrow> vm \<Rightarrow> vm option" where
  "unwind_frames 0 vm = Some vm"
| "unwind_frames (Suc n) vm =
     do {
       t \<leftarrow> cur vm;
       f \<leftarrow> tframes t (frame_count t - 1);
       vm \<leftarrow> close_upvalues (fslots f) vm;
       t \<leftarrow> cur vm;
       unwind_frames n (put_cur (t\<lparr>frame_count := frame_count t - 1\<rparr>) vm)
     }"

text \<open>
  \<open>handle_exception\<close>, by recursion on the number of handlers: every round either enters one
  or removes one.
\<close>

fun search_handler :: "nat \<Rightarrow> vm \<Rightarrow> (bool \<times> vm) option" where
  "search_handler 0 vm = give_up vm"
| "search_handler (Suc n) vm =
     do {
       a \<leftarrow> current_thread vm;
       t \<leftarrow> cur vm;
       h \<leftarrow> handlers t n;
       vm \<leftarrow> unwind_frames (frame_count t - hframe_count h) vm;
       t \<leftarrow> cur vm;
       (if frame_count t = 0 then give_up vm
        else do {
          let vm = vm\<lparr>cframe := (a, frame_count t - 1)\<rparr>;
          let t = t\<lparr>stack_top := hstack_top h\<rparr>;
          (if hhas_except h \<and> \<not> hin_except h then do {
             i \<leftarrow> hexcept_ip h;
             let t = t\<lparr>handlers := (handlers t)(n \<mapsto> h\<lparr>hin_except := True\<rparr>)\<rparr>;
             vm \<leftarrow> push (exception t) (put_cur t (vm\<lparr>ip := i\<rparr>));
             t \<leftarrow> cur vm;
             Some (True, put_cur (t\<lparr>has_exception := False, exception := VNil\<rparr>) vm)
           }
           else
             (case (hhas_finally h, hfinally_ip h) of
                (True, Some i) \<Rightarrow> Some (True, put_cur (t\<lparr>handler_count := n\<rparr>) (vm\<lparr>ip := i\<rparr>))
              | _ \<Rightarrow> search_handler n (put_cur (t\<lparr>handler_count := n\<rparr>) vm)))
        })
     }"

definition handle_exception :: "vm \<Rightarrow> (bool \<times> vm) option" where
  "handle_exception vm =
     do {
       t \<leftarrow> cur vm;
       (if \<not> has_exception t then Some (False, vm) else search_handler (handler_count t) vm)
     }"

end
