(* ===== verification/Ops_Arith.thy ===== *)
theory Ops_Arith
  imports Calls
begin

text \<open>
  Operators (\<open>src/src/vm/ops_arith.c\<close>, \<open>ops_arith_const.c\<close>, \<open>ops_mod.c\<close>, \<open>ops_power.c\<close>,
  \<open>ops_unary.c\<close>, \<open>ops_float.c\<close>, \<open>ops_local_set.c\<close>, \<open>ops_local_const.c\<close>, \<open>ops_compare.c\<close>,
  \<open>ops_has.c\<close>): arithmetic on numbers, concatenation of strings and tables, comparison,
  membership, and their fused forms, with the metamethods each of them falls back to.
\<close>

section \<open>Helpers of the operator files\<close>

text \<open>C's \<open>%\<close> on integers: the remainder has the sign of the dividend.\<close>

definition c_rem :: "int \<Rightarrow> int \<Rightarrow> int" where
  "c_rem a b = (if a < 0 then - (\<bar>a\<bar> mod \<bar>b\<bar>) else \<bar>a\<bar> mod \<bar>b\<bar>)"

text \<open>The remainder of two numbers: integer where both are \<open>int64_t\<close>, \<open>fmod\<close> otherwise.\<close>

definition number_mod :: "double \<Rightarrow> double \<Rightarrow> double option" where
  "number_mod ad bd =
     do {
       ia \<leftarrow> to_int64 ad;
       (case ia of
          None \<Rightarrow> Some (dfmod ad bd)
        | Some i \<Rightarrow> do {
            ib \<leftarrow> to_int64 bd;
            (case ib of
               None \<Rightarrow> Some (dfmod ad bd)
             | Some j \<Rightarrow>
                 if j = 0 then Some (dfmod ad bd)
                 else if i = - (2 ^ 63) \<and> j = - 1 then None
                 else Some (dbl_of_int (c_rem i j)))
          })
     }"

definition concatenate :: "vm \<Rightarrow> vm option" where
  "concatenate vm =
     do {
       (b, vm) \<leftarrow> pop vm;
       (a, vm) \<leftarrow> pop vm;
       x \<leftarrow> as_obj a;
       y \<leftarrow> as_obj b;
       s \<leftarrow> string_at (vheap vm) x;
       u \<leftarrow> string_at (vheap vm) y;
       let (r, vm) = alloc (\<lambda>h. take_string h (s @ u)) vm;
       push (VObj r) vm
     }"

text \<open>\<open>table_add_local\<close>: both array parts one after the other, then both hash parts.\<close>

definition table_concat :: "table \<Rightarrow> table \<Rightarrow> table \<Rightarrow> table option" where
  "table_concat ta tb r =
     do {
       let la = array_length ta;
       let lb = array_length tb;
       let r = fill_array 1 (take la (tarray ta)) r;
       let r = fill_array (int la + 1) (take lb (tarray tb)) r;
       r \<leftarrow> table_add_all ta r;
       table_add_all tb r
     }"

definition add_tables :: "addr \<Rightarrow> addr \<Rightarrow> vm \<Rightarrow> vm option" where
  "add_tables x y vm =
     do {
       let (r, vm) = alloc new_table vm;
       vm \<leftarrow> push (VObj r) vm;
       ta \<leftarrow> table_at (vheap vm) x;
       tb \<leftarrow> table_at (vheap vm) y;
       t \<leftarrow> table_concat (otable ta) (otable tb) init_table;
       put_table r t vm
     }"

text \<open>
  \<open>table_add_inplace_local\<close> reads \<open>tb\<close> while it writes \<open>ta\<close>, which may be the same object, so
  its loops read the heap in every round.
\<close>

partial_function (option) append_elements :: "addr \<Rightarrow> addr \<Rightarrow> int \<Rightarrow> int \<Rightarrow> vm \<Rightarrow> vm option" where
  "append_elements x y dst src vm =
     do {
       tb \<leftarrow> table_at (vheap vm) y;
       (case table_get_array (otable tb) src of
          None \<Rightarrow> Some vm
        | Some v \<Rightarrow> do {
            ta \<leftarrow> table_at (vheap vm) x;
            vm \<leftarrow> (case table_set_array (otable ta) dst v of
                Some t \<Rightarrow> put_table x t vm
              | None \<Rightarrow>
                  let (key, vm) = number_key_string (dbl_of_int dst) vm
                  in heap_set x key v vm);
            append_elements x y (dst + 1) (src + 1) vm
          })
     }"

partial_function (option) add_all_live :: "addr \<Rightarrow> addr \<Rightarrow> nat \<Rightarrow> vm \<Rightarrow> vm option" where
  "add_all_live src dst i vm =
     do {
       s \<leftarrow> table_at (vheap vm) src;
       (case at (entries (otable s)) i of
          None \<Rightarrow> Some vm
        | Some e \<Rightarrow>
            (case ekey e of
               None \<Rightarrow> add_all_live src dst (i + 1) vm
             | Some k \<Rightarrow> do {
                 vm \<leftarrow> heap_set dst (kaddr k) (evalue e) vm;
                 add_all_live src dst (i + 1) vm
               }))
     }"

definition table_add_inplace :: "addr \<Rightarrow> addr \<Rightarrow> vm \<Rightarrow> vm option" where
  "table_add_inplace x y vm =
     do {
       ta \<leftarrow> table_at (vheap vm) x;
       vm \<leftarrow> append_elements x y (int (array_length (otable ta)) + 1) 1 vm;
       add_all_live y x 0 vm
     }"

text \<open>The metamethod branch of the operators that report no error of their own.\<close>

definition meta_or_zero :: "string \<Rightarrow> val \<Rightarrow> val \<Rightarrow> vm \<Rightarrow> (bool \<times> vm) option" where
  "meta_or_zero name a b vm =
     do {
       (m, vm) \<leftarrow> get_metamethod2 a b name vm;
       (if is_nil m then Some (False, vm) else call_metamethod m a b vm)
     }"

definition add_meta :: "val \<Rightarrow> val \<Rightarrow> vm \<Rightarrow> (bool \<times> vm) option" where
  "add_meta a b vm =
     do {
       (m, vm) \<leftarrow> get_metamethod2 a b ''__add'' vm;
       (if is_nil m then fail ''Operands must be two numbers or two strings.'' vm
        else call_metamethod m a b vm)
     }"

text \<open>Numbers by \<open>f\<close>, anything else by the metamethod.\<close>

definition arith :: "string \<Rightarrow> (double \<Rightarrow> double \<Rightarrow> double option) \<Rightarrow> val \<Rightarrow> val \<Rightarrow> vm \<Rightarrow> (bool \<times> vm) option" where
  "arith name f a b vm =
     (case (a, b) of
        (VNumber x, VNumber y) \<Rightarrow> do { d \<leftarrow> f x y; vm \<leftarrow> push (VNumber d) vm; Some (True, vm) }
      | _ \<Rightarrow> meta_or_zero name a b vm)"

definition binary :: "string \<Rightarrow> (double \<Rightarrow> double \<Rightarrow> double option) \<Rightarrow> vm \<Rightarrow> (bool \<times> vm) option" where
  "binary name f vm = do { (b, vm) \<leftarrow> pop vm; (a, vm) \<leftarrow> pop vm; arith name f a b vm }"

definition with_const ::
  "string \<Rightarrow> (double \<Rightarrow> double \<Rightarrow> double option) \<Rightarrow> val \<Rightarrow> vm \<Rightarrow> (bool \<times> vm) option" where
  "with_const name f b vm = do { (a, vm) \<leftarrow> pop vm; arith name f a b vm }"

abbreviation (input) total2 :: "(double \<Rightarrow> double \<Rightarrow> double) \<Rightarrow> double \<Rightarrow> double \<Rightarrow> double option" where
  "total2 f x y \<equiv> Some (f x y)"

section \<open>Addition\<close>

definition vm_handle_op_add :: "vm \<Rightarrow> (bool \<times> vm) option" where
  "vm_handle_op_add vm =
     do {
       b \<leftarrow> peek 0 vm;
       a \<leftarrow> peek 1 vm;
       kb \<leftarrow> type_of (vheap vm) b;
       ka \<leftarrow> type_of (vheap vm) a;
       (if kb = TString \<and> ka = TString then do { vm \<leftarrow> concatenate vm; Some (True, vm) }
        else do {
          (b, vm) \<leftarrow> pop vm;
          (a, vm) \<leftarrow> pop vm;
          (case (a, b) of
             (VNumber x, VNumber y) \<Rightarrow> do { vm \<leftarrow> push (VNumber (dadd x y)) vm; Some (True, vm) }
           | _ \<Rightarrow>
               if kb = TTable \<and> ka = TTable then do {
                 y \<leftarrow> as_obj b;
                 x \<leftarrow> as_obj a;
                 vm \<leftarrow> add_tables x y vm;
                 Some (True, vm)
               }
               else add_meta a b vm)
        })
     }"

definition vm_handle_op_add_const :: "val \<Rightarrow> vm \<Rightarrow> (bool \<times> vm) option" where
  "vm_handle_op_add_const b vm =
     do {
       a \<leftarrow> peek 0 vm;
       ka \<leftarrow> type_of (vheap vm) a;
       kb \<leftarrow> type_of (vheap vm) b;
       (if ka = TString \<and> kb = TString then do {
          vm \<leftarrow> push b vm;
          vm \<leftarrow> concatenate vm;
          Some (True, vm)
        }
        else do {
          (a, vm) \<leftarrow> pop vm;
          (case (a, b) of
             (VNumber x, VNumber y) \<Rightarrow> do { vm \<leftarrow> push (VNumber (dadd x y)) vm; Some (True, vm) }
           | _ \<Rightarrow>
               if ka = TTable \<and> kb = TTable then do {
                 y \<leftarrow> as_obj b;
                 x \<leftarrow> as_obj a;
                 vm \<leftarrow> add_tables x y vm;
                 Some (True, vm)
               }
               else add_meta a b vm)
        })
     }"

definition vm_handle_op_add_inplace :: "vm \<Rightarrow> (bool \<times> vm) option" where
  "vm_handle_op_add_inplace vm =
     do {
       b \<leftarrow> peek 0 vm;
       a \<leftarrow> peek 1 vm;
       kb \<leftarrow> type_of (vheap vm) b;
       ka \<leftarrow> type_of (vheap vm) a;
       (if kb = TString \<and> ka = TString then do { vm \<leftarrow> concatenate vm; Some (True, vm) }
        else do {
          (b, vm) \<leftarrow> pop vm;
          (a, vm) \<leftarrow> pop vm;
          (case (a, b) of
             (VNumber x, VNumber y) \<Rightarrow> do { vm \<leftarrow> push (VNumber (dadd x y)) vm; Some (True, vm) }
           | _ \<Rightarrow>
               if kb = TTable \<and> ka = TTable then do {
                 y \<leftarrow> as_obj b;
                 x \<leftarrow> as_obj a;
                 vm \<leftarrow> table_add_inplace x y vm;
                 vm \<leftarrow> push (VObj x) vm;
                 Some (True, vm)
               }
               else add_meta a b vm)
        })
     }"

section \<open>The other arithmetic instructions\<close>

definition vm_handle_op_subtract :: "vm \<Rightarrow> (bool \<times> vm) option" where
  "vm_handle_op_subtract = binary ''__sub'' (total2 dsub)"

definition vm_handle_op_multiply :: "vm \<Rightarrow> (bool \<times> vm) option" where
  "vm_handle_op_multiply = binary ''__mul'' (total2 dmul)"

definition vm_handle_op_divide :: "vm \<Rightarrow> (bool \<times> vm) option" where
  "vm_handle_op_divide = binary ''__div'' (total2 ddiv)"

definition vm_handle_op_modulo :: "vm \<Rightarrow> (bool \<times> vm) option" where
  "vm_handle_op_modulo = binary ''__mod'' number_mod"

definition vm_handle_op_power :: "env \<Rightarrow> vm \<Rightarrow> (bool \<times> vm) option" where
  "vm_handle_op_power env = binary ''__pow'' (total2 (pow_fn env))"

definition vm_handle_op_int_div :: "vm \<Rightarrow> (bool \<times> vm) option" where
  "vm_handle_op_int_div = binary ''__int_div'' (\<lambda>x y. Some (dfloor (ddiv x y)))"

definition vm_handle_op_sub_const :: "val \<Rightarrow> vm \<Rightarrow> (bool \<times> vm) option" where
  "vm_handle_op_sub_const = with_const ''__sub'' (total2 dsub)"

definition vm_handle_op_mul_const :: "val \<Rightarrow> vm \<Rightarrow> (bool \<times> vm) option" where
  "vm_handle_op_mul_const = with_const ''__mul'' (total2 dmul)"

definition vm_handle_op_div_const :: "val \<Rightarrow> vm \<Rightarrow> (bool \<times> vm) option" where
  "vm_handle_op_div_const = with_const ''__div'' (total2 ddiv)"

definition vm_handle_op_mod_const :: "val \<Rightarrow> vm \<Rightarrow> (bool \<times> vm) option" where
  "vm_handle_op_mod_const = with_const ''__mod'' number_mod"

text \<open>The typed instructions read numbers without testing.\<close>

definition typed :: "(double \<Rightarrow> double \<Rightarrow> double option) \<Rightarrow> vm \<Rightarrow> vm option" where
  "typed f vm =
     do {
       (b, vm) \<leftarrow> pop vm;
       y \<leftarrow> as_number b;
       (a, vm) \<leftarrow> pop vm;
       x \<leftarrow> as_number a;
       d \<leftarrow> f x y;
       push (VNumber d) vm
     }"

definition vm_handle_op_i_add :: "vm \<Rightarrow> vm option" where
  "vm_handle_op_i_add = typed (total2 dadd)"

definition vm_handle_op_i_sub :: "vm \<Rightarrow> vm option" where
  "vm_handle_op_i_sub = typed (total2 dsub)"

definition vm_handle_op_i_mul :: "vm \<Rightarrow> vm option" where
  "vm_handle_op_i_mul = typed (total2 dmul)"

definition vm_handle_op_i_div :: "vm \<Rightarrow> vm option" where
  "vm_handle_op_i_div = typed (total2 ddiv)"

definition vm_handle_op_i_mod :: "vm \<Rightarrow> vm option" where
  "vm_handle_op_i_mod = typed number_mod"

definition vm_handle_op_f_add :: "vm \<Rightarrow> vm option" where
  "vm_handle_op_f_add = typed (total2 dadd)"

definition vm_handle_op_f_sub :: "vm \<Rightarrow> vm option" where
  "vm_handle_op_f_sub = typed (total2 dsub)"

definition vm_handle_op_f_mul :: "vm \<Rightarrow> vm option" where
  "vm_handle_op_f_mul = typed (total2 dmul)"

definition vm_handle_op_f_div :: "vm \<Rightarrow> vm option" where
  "vm_handle_op_f_div = typed (total2 ddiv)"

definition vm_handle_op_f_mod :: "vm \<Rightarrow> vm option" where
  "vm_handle_op_f_mod = typed (total2 dfmod)"

section \<open>Unary operators\<close>

definition vm_handle_op_negate :: "vm \<Rightarrow> vm option" where
  "vm_handle_op_negate vm = do { (v, vm) \<leftarrow> pop vm; d \<leftarrow> as_number v; push (VNumber (dneg d)) vm }"

definition vm_handle_op_not :: "vm \<Rightarrow> vm option" where
  "vm_handle_op_not vm = do { (v, vm) \<leftarrow> pop vm; b \<leftarrow> is_falsey (vheap vm) v; push (VBool b) vm }"

definition vm_handle_op_length :: "vm \<Rightarrow> (bool \<times> vm) option" where
  "vm_handle_op_length vm =
     do {
       (v, vm) \<leftarrow> pop vm;
       k \<leftarrow> type_of (vheap vm) v;
       (if k = TString then do {
          a \<leftarrow> as_obj v;
          cs \<leftarrow> string_at (vheap vm) a;
          vm \<leftarrow> push (VNumber (dbl_of_int (int (length cs)))) vm;
          Some (True, vm)
        }
        else if k = TTable then do {
          a \<leftarrow> as_obj v;
          t \<leftarrow> table_at (vheap vm) a;
          let n = tcount (otable t) + length (filter (\<lambda>v. \<not> is_nil v) (tarray (otable t)));
          vm \<leftarrow> push (VNumber (dbl_of_int (int n))) vm;
          Some (True, vm)
        }
        else fail ''Length operator (#) requires string or table.'' vm)
     }"

section \<open>Operators fused with an assignment to a local variable\<close>

text \<open>
  The number branch stores the result and leaves it on the stack; the metamethod branch
  records where the result of the call will have to go.
\<close>

definition call_meta_pending :: "val \<Rightarrow> val \<Rightarrow> val \<Rightarrow> byte \<Rightarrow> vm \<Rightarrow> (bool \<times> vm) option" where
  "call_meta_pending m a b slot vm =
     do {
       vm \<leftarrow> push_all [m, a, b] vm;
       (ok, vm) \<leftarrow> push_pending_set_local slot vm;
       (if \<not> ok then Some (False, vm) else do { x \<leftarrow> as_obj m; call_closure x 2 vm })
     }"

definition arith_set ::
  "string \<Rightarrow> (double \<Rightarrow> double \<Rightarrow> double option) \<Rightarrow> val \<Rightarrow> val \<Rightarrow> byte \<Rightarrow> vm \<Rightarrow> (bool \<times> vm) option" where
  "arith_set name f a b slot vm =
     (case (a, b) of
        (VNumber x, VNumber y) \<Rightarrow> do {
          d \<leftarrow> f x y;
          vm \<leftarrow> slot_set slot (VNumber d) vm;
          vm \<leftarrow> push (VNumber d) vm;
          Some (True, vm)
        }
      | _ \<Rightarrow> do {
          (m, vm) \<leftarrow> get_metamethod2 a b name vm;
          (if is_nil m then Some (False, vm) else call_meta_pending m a b slot vm)
        })"

definition vm_handle_op_add_set_local :: "vm \<Rightarrow> (bool \<times> vm) option" where
  "vm_handle_op_add_set_local vm =
     do {
       (slot, vm) \<leftarrow> read_byte vm;
       (b, vm) \<leftarrow> pop vm;
       (a, vm) \<leftarrow> pop vm;
       ka \<leftarrow> type_of (vheap vm) a;
       kb \<leftarrow> type_of (vheap vm) b;
       (if ka = TString \<and> kb = TString then do {
          vm \<leftarrow> push_all [a, b] vm;
          vm \<leftarrow> concatenate vm;
          v \<leftarrow> peek 0 vm;
          vm \<leftarrow> slot_set slot v vm;
          Some (True, vm)
        }
        else
          case (a, b) of
            (VNumber x, VNumber y) \<Rightarrow> do {
              vm \<leftarrow> slot_set slot (VNumber (dadd x y)) vm;
              vm \<leftarrow> push (VNumber (dadd x y)) vm;
              Some (True, vm)
            }
          | _ \<Rightarrow>
              if ka = TTable \<and> kb = TTable then do {
                y \<leftarrow> as_obj b;
                x \<leftarrow> as_obj a;
                vm \<leftarrow> add_tables x y vm;
                v \<leftarrow> peek 0 vm;
                vm \<leftarrow> slot_set slot v vm;
                Some (True, vm)
              }
              else do {
                (m, vm) \<leftarrow> get_metamethod2 a b ''__add'' vm;
                (if is_nil m then fail ''Operands must be two numbers or two strings.'' vm
                 else call_meta_pending m a b slot vm)
              })
     }"

definition binary_set_local ::
  "string \<Rightarrow> (double \<Rightarrow> double \<Rightarrow> double option) \<Rightarrow> vm \<Rightarrow> (bool \<times> vm) option" where
  "binary_set_local name f vm =
     do {
       (slot, vm) \<leftarrow> read_byte vm;
       (b, vm) \<leftarrow> pop vm;
       (a, vm) \<leftarrow> pop vm;
       arith_set name f a b slot vm
     }"

definition vm_handle_op_sub_set_local :: "vm \<Rightarrow> (bool \<times> vm) option" where
  "vm_handle_op_sub_set_local = binary_set_local ''__sub'' (total2 dsub)"

definition vm_handle_op_mul_set_local :: "vm \<Rightarrow> (bool \<times> vm) option" where
  "vm_handle_op_mul_set_local = binary_set_local ''__mul'' (total2 dmul)"

definition vm_handle_op_div_set_local :: "vm \<Rightarrow> (bool \<times> vm) option" where
  "vm_handle_op_div_set_local = binary_set_local ''__div'' (total2 ddiv)"

definition vm_handle_op_mod_set_local :: "vm \<Rightarrow> (bool \<times> vm) option" where
  "vm_handle_op_mod_set_local = binary_set_local ''__mod'' number_mod"

definition vm_handle_op_inc_local :: "vm \<Rightarrow> (bool \<times> vm) option" where
  "vm_handle_op_inc_local vm =
     do {
       (slot, vm) \<leftarrow> read_byte vm;
       (i, vm) \<leftarrow> read_byte vm;
       v \<leftarrow> slot_get slot vm;
       c \<leftarrow> chunk_constant i vm;
       (case (v, c) of
          (VNumber x, VNumber y) \<Rightarrow> do {
            vm \<leftarrow> slot_set slot (VNumber (dadd x y)) vm;
            vm \<leftarrow> push (VNumber (dadd x y)) vm;
            Some (True, vm)
          }
        | _ \<Rightarrow> fail ''Operands must be two numbers.'' vm)
     }"

definition binary_local_const ::
  "string \<Rightarrow> (double \<Rightarrow> double \<Rightarrow> double option) \<Rightarrow> vm \<Rightarrow> (bool \<times> vm) option" where
  "binary_local_const name f vm =
     do {
       (slot, vm) \<leftarrow> read_byte vm;
       (i, vm) \<leftarrow> read_byte vm;
       a \<leftarrow> slot_get slot vm;
       b \<leftarrow> chunk_constant i vm;
       arith_set name f a b slot vm
     }"

definition vm_handle_op_sub_local_const :: "vm \<Rightarrow> (bool \<times> vm) option" where
  "vm_handle_op_sub_local_const = binary_local_const ''__sub'' (total2 dsub)"

definition vm_handle_op_mul_local_const :: "vm \<Rightarrow> (bool \<times> vm) option" where
  "vm_handle_op_mul_local_const = binary_local_const ''__mul'' (total2 dmul)"

definition vm_handle_op_div_local_const :: "vm \<Rightarrow> (bool \<times> vm) option" where
  "vm_handle_op_div_local_const = binary_local_const ''__div'' (total2 ddiv)"

definition vm_handle_op_mod_local_const :: "vm \<Rightarrow> (bool \<times> vm) option" where
  "vm_handle_op_mod_local_const = binary_local_const ''__mod'' number_mod"

section \<open>Comparison\<close>

definition push_bool :: "bool \<Rightarrow> vm \<Rightarrow> (bool \<times> vm) option" where
  "push_bool b vm = do { vm \<leftarrow> push (VBool b) vm; Some (True, vm) }"

definition vm_handle_op_equal :: "vm \<Rightarrow> (bool \<times> vm) option" where
  "vm_handle_op_equal vm =
     do {
       (b, vm) \<leftarrow> pop vm;
       (a, vm) \<leftarrow> pop vm;
       same \<leftarrow> values_equal_simple (vheap vm) a b;
       (if same then push_bool True vm
        else
          case (a, b) of
            (VObj x, VObj y) \<Rightarrow> do {
              ka \<leftarrow> type_of (vheap vm) a;
              kb \<leftarrow> type_of (vheap vm) b;
              (if x = y then push_bool True vm
               else if ka = TString \<and> kb = TString then push_bool False vm
               else do {
                 (m, vm) \<leftarrow> get_metamethod2 a b ''__eq'' vm;
                 (if is_nil m then push_bool False vm else call_metamethod m a b vm)
               })
            }
          | _ \<Rightarrow> push_bool False vm)
     }"

definition vm_handle_op_greater :: "vm \<Rightarrow> (bool \<times> vm) option" where
  "vm_handle_op_greater vm =
     do {
       (b, vm) \<leftarrow> pop vm;
       (a, vm) \<leftarrow> pop vm;
       (case (a, b) of
          (VNumber x, VNumber y) \<Rightarrow> push_bool (dlt y x) vm
        | _ \<Rightarrow> do {
            (m, vm) \<leftarrow> get_metamethod2 a b ''__lt'' vm;
            (if is_nil m then push_bool False vm else call_metamethod m b a vm)
          })
     }"

definition vm_handle_op_less :: "vm \<Rightarrow> (bool \<times> vm) option" where
  "vm_handle_op_less vm =
     do {
       (b, vm) \<leftarrow> pop vm;
       (a, vm) \<leftarrow> pop vm;
       (case (a, b) of
          (VNumber x, VNumber y) \<Rightarrow> push_bool (dlt x y) vm
        | _ \<Rightarrow> do {
            (m, vm) \<leftarrow> get_metamethod2 a b ''__lt'' vm;
            (if is_nil m then push_bool False vm else call_metamethod m a b vm)
          })
     }"

section \<open>Membership\<close>

fun is_prefix :: "bytes \<Rightarrow> bytes \<Rightarrow> bool" where
  "is_prefix [] cs = True"
| "is_prefix (b # bs) [] = False"
| "is_prefix (b # bs) (c # cs) = (b = c \<and> is_prefix bs cs)"

text \<open>\<open>string_contains_local\<close>: the needle at some offset of the haystack.\<close>

fun string_contains :: "bytes \<Rightarrow> bytes \<Rightarrow> bool" where
  "string_contains [] needle = (needle = [])"
| "string_contains (c # cs) needle = (is_prefix needle (c # cs) \<or> string_contains cs needle)"

text \<open>The first value, in order, that is equal to \<open>v\<close>; nils of the array are skipped.\<close>

fun any_equal :: "heap \<Rightarrow> val \<Rightarrow> val list \<Rightarrow> bool option" where
  "any_equal h v [] = Some False"
| "any_equal h v (w # ws) =
     (case values_equal_simple h w v of
        None \<Rightarrow> None
      | Some True \<Rightarrow> Some True
      | Some False \<Rightarrow> any_equal h v ws)"

definition table_has :: "heap \<Rightarrow> table \<Rightarrow> val \<Rightarrow> bool option" where
  "table_has h t v =
     do {
       found \<leftarrow> any_equal h v (filter (\<lambda>w. \<not> is_nil w) (take (array_max t) (tarray t)));
       (if found then Some True
        else any_equal h v (map evalue (filter (\<lambda>e. ekey e \<noteq> None) (entries t))))
     }"

text \<open>The common part of \<open>has\<close> and \<open>in\<close>; the two error messages differ.\<close>

definition membership :: "string \<Rightarrow> string \<Rightarrow> val \<Rightarrow> val \<Rightarrow> vm \<Rightarrow> (bool \<times> vm) option" where
  "membership not_string not_container container needle vm =
     do {
       (m, vm) \<leftarrow> get_metamethod2 container needle ''__has'' vm;
       (if \<not> is_nil m then call_metamethod m container needle vm
        else do {
          k \<leftarrow> type_of (vheap vm) container;
          (if k = TString then do {
             kn \<leftarrow> type_of (vheap vm) needle;
             (if kn \<noteq> TString then fail not_string vm
              else do {
                x \<leftarrow> as_obj container;
                y \<leftarrow> as_obj needle;
                s \<leftarrow> string_at (vheap vm) x;
                u \<leftarrow> string_at (vheap vm) y;
                push_bool (string_contains s u) vm
              })
           }
           else if k = TTable then do {
             x \<leftarrow> as_obj container;
             t \<leftarrow> table_at (vheap vm) x;
             found \<leftarrow> table_has (vheap vm) (otable t) needle;
             push_bool found vm
           }
           else fail not_container vm)
        })
     }"

definition vm_handle_op_has :: "vm \<Rightarrow> (bool \<times> vm) option" where
  "vm_handle_op_has vm =
     do {
       (b, vm) \<leftarrow> pop vm;
       (a, vm) \<leftarrow> pop vm;
       membership ''Right operand of 'has' must be a string.''
         ''Left operand of 'has' must be a string or table.'' a b vm
     }"

definition vm_handle_op_in :: "vm \<Rightarrow> (bool \<times> vm) option" where
  "vm_handle_op_in vm =
     do {
       (container, vm) \<leftarrow> pop vm;
       (needle, vm) \<leftarrow> pop vm;
       membership ''Left operand of 'in' must be a string when right operand is a string.''
         ''Right operand of 'in' must be a string or table.'' container needle vm
     }"

end
