(* ===== verification/Ops_Control.thy ===== *)
theory Ops_Control
  imports Ops_Arith
begin

text \<open>
  Jumps, counted loops, exception instructions, variables and unpacking
  (\<open>src/src/vm/ops_control.c\<close>, \<open>ops_exception.c\<close>, \<open>ops_state.c\<close>, and \<open>vm_handle_op_unpack\<close>,
  \<open>OP_CLOSURE\<close> and the return instructions of \<open>src/src/vm.c\<close>).
\<close>

section \<open>Jumps and loops\<close>

definition jump_forward :: "nat \<Rightarrow> vm \<Rightarrow> vm" where
  "jump_forward n vm = vm\<lparr>ip := ip vm + n\<rparr>"

definition jump_back :: "nat \<Rightarrow> vm \<Rightarrow> vm option" where
  "jump_back n vm = (if n \<le> ip vm then Some (vm\<lparr>ip := ip vm - n\<rparr>) else None)"

definition vm_handle_op_jump :: "vm \<Rightarrow> vm option" where
  "vm_handle_op_jump vm = do { (n, vm) \<leftarrow> read_short vm; Some (jump_forward n vm) }"

definition vm_handle_op_jump_if_false :: "vm \<Rightarrow> vm option" where
  "vm_handle_op_jump_if_false vm =
     do {
       (n, vm) \<leftarrow> read_short vm;
       v \<leftarrow> peek 0 vm;
       f \<leftarrow> is_falsey (vheap vm) v;
       Some (if f then jump_forward n vm else vm)
     }"

definition vm_handle_op_jump_if_true :: "vm \<Rightarrow> vm option" where
  "vm_handle_op_jump_if_true vm =
     do {
       (n, vm) \<leftarrow> read_short vm;
       v \<leftarrow> peek 0 vm;
       f \<leftarrow> is_falsey (vheap vm) v;
       Some (if \<not> f then jump_forward n vm else vm)
     }"

definition vm_handle_op_loop :: "vm \<Rightarrow> vm option" where
  "vm_handle_op_loop vm = do { (n, vm) \<leftarrow> read_short vm; jump_back n vm }"

definition vm_handle_op_for_prep :: "vm \<Rightarrow> (bool \<times> vm) option" where
  "vm_handle_op_for_prep vm =
     do {
       (var_slot, vm) \<leftarrow> read_byte vm;
       (end_slot, vm) \<leftarrow> read_byte vm;
       (n, vm) \<leftarrow> read_short vm;
       v \<leftarrow> slot_get var_slot vm;
       e \<leftarrow> slot_get end_slot vm;
       (case (v, e) of
          (VNumber x, VNumber y) \<Rightarrow> Some (True, if dlt y x then jump_forward n vm else vm)
        | _ \<Rightarrow> fail ''for range requires numeric bounds.'' vm)
     }"

definition vm_handle_op_for_loop :: "vm \<Rightarrow> (bool \<times> vm) option" where
  "vm_handle_op_for_loop vm =
     do {
       (var_slot, vm) \<leftarrow> read_byte vm;
       (end_slot, vm) \<leftarrow> read_byte vm;
       (n, vm) \<leftarrow> read_short vm;
       v \<leftarrow> slot_get var_slot vm;
       e \<leftarrow> slot_get end_slot vm;
       (case (v, e) of
          (VNumber x, VNumber y) \<Rightarrow> do {
            let next_value = dadd x (dbl_of_int 1);
            vm \<leftarrow> slot_set var_slot (VNumber next_value) vm;
            vm \<leftarrow> (if dle next_value y then jump_back n vm else Some vm);
            Some (True, vm)
          }
        | _ \<Rightarrow> fail ''for range requires numeric bounds.'' vm)
     }"

section \<open>Exception instructions\<close>

definition vm_handle_op_try :: "vm \<Rightarrow> (bool \<times> vm) option" where
  "vm_handle_op_try vm =
     do {
       (depth, vm) \<leftarrow> read_byte vm;
       (flags, vm) \<leftarrow> read_byte vm;
       (ex_jump, vm) \<leftarrow> read_short vm;
       (fin_jump, vm) \<leftarrow> read_short vm;
       t \<leftarrow> cur vm;
       (if handler_capacity t \<le> handler_count t then fail ''Too many nested try blocks.'' vm
        else do {
          f \<leftarrow> frame_get (cframe vm) vm;
          let has_except = bit flags 0;
          let has_finally = bit flags 1;
          let h = \<lparr>hframe_count = frame_count t, hstack_top = fslots f + unat depth,
                   hexcept_ip = (if has_except then Some (ip vm + ex_jump) else None),
                   hfinally_ip = (if has_finally then Some (ip vm + fin_jump) else None),
                   hhas_except = has_except, hhas_finally = has_finally, hin_except = False\<rparr>;
          Some (True, put_cur (t\<lparr>handlers := (handlers t)(handler_count t \<mapsto> h),
                                 handler_count := handler_count t + 1\<rparr>) vm)
        })
     }"

definition vm_handle_op_end_try :: "vm \<Rightarrow> vm option" where
  "vm_handle_op_end_try vm =
     do { t \<leftarrow> cur vm; Some (put_cur (t\<lparr>handler_count := handler_count t - 1\<rparr>) vm) }"

definition vm_handle_op_end_finally :: "vm \<Rightarrow> (bool \<times> vm) option" where
  "vm_handle_op_end_finally vm = do { t \<leftarrow> cur vm; Some (\<not> has_exception t, vm) }"

definition vm_handle_op_throw :: "vm \<Rightarrow> vm option" where
  "vm_handle_op_throw vm =
     do {
       (ex, vm) \<leftarrow> pop vm;
       t \<leftarrow> cur vm;
       Some (put_cur (t\<lparr>has_exception := True, exception := ex, last_error := ex\<rparr>) vm)
     }"

section \<open>Constants, globals and locals\<close>

definition vm_handle_op_constant :: "env \<Rightarrow> vm \<Rightarrow> vm option" where
  "vm_handle_op_constant env vm =
     do { (v, vm) \<leftarrow> read_constant vm; vm \<leftarrow> push v vm; maybe_collect_garbage env vm }"

definition read_string :: "vm \<Rightarrow> (addr \<times> vm) option" where
  "read_string vm =
     do {
       (v, vm) \<leftarrow> read_constant vm;
       a \<leftarrow> as_obj v;
       _ \<leftarrow> string_at (vheap vm) a;
       Some (a, vm)
     }"

definition put_fn :: "addr \<Rightarrow> fn \<Rightarrow> vm \<Rightarrow> vm" where
  "put_fn a g vm = vm\<lparr>vheap := put_obj (vheap vm) a (OFunction g)\<rparr>"

text \<open>
  The inline cache of \<open>OP_GET_GLOBAL\<close> at the offset of its opcode: usable when it holds the
  same name object and the globals have not changed since.
\<close>

definition global_ic_hit :: "chunk \<Rightarrow> nat \<Rightarrow> addr \<Rightarrow> u32 \<Rightarrow> bool" where
  "global_ic_hit c off name ver \<longleftrightarrow>
     off < ccapacity c \<and> gic_names c \<noteq> [] \<and> at (gic_names c) off = Some (Some name) \<and>
     at (gic_versions c) off = Some ver"

definition global_ic_fill :: "chunk \<Rightarrow> nat \<Rightarrow> addr \<Rightarrow> u32 \<Rightarrow> val \<Rightarrow> chunk" where
  "global_ic_fill c off name ver v =
     (if off < ccapacity c \<and> gic_names c \<noteq> []
      then c\<lparr>gic_names := (gic_names c)[off := Some name],
             gic_versions := (gic_versions c)[off := ver], gic_values := (gic_values c)[off := v]\<rparr>
      else c)"

definition undefined_msg :: "heap \<Rightarrow> addr \<Rightarrow> bytes option" where
  "undefined_msg h name =
     do { cs \<leftarrow> string_at h name; Some (bytes_of ''Undefined variable '' @ 39 # cstr cs @ [39, 46]) }"

definition vm_handle_op_get_global :: "vm \<Rightarrow> (bool \<times> vm) option" where
  "vm_handle_op_get_global vm =
     do {
       (fa, g) \<leftarrow> running_fn vm;
       let off = ip vm - 1;
       (name, vm) \<leftarrow> read_string vm;
       (if global_ic_hit (fchunk g) off name (version (globals vm)) then do {
          v \<leftarrow> at (gic_values (fchunk g)) off;
          vm \<leftarrow> push v vm;
          Some (True, vm)
        }
        else do {
          r \<leftarrow> global_get name vm;
          (case r of
             None \<Rightarrow> do { msg \<leftarrow> undefined_msg (vheap vm) name; fail_bytes msg vm }
           | Some v \<Rightarrow> do {
               let c = global_ic_fill (fchunk g) off name (version (globals vm)) v;
               vm \<leftarrow> push v (put_fn fa (g\<lparr>fchunk := c\<rparr>) vm);
               Some (True, vm)
             })
        })
     }"

definition vm_handle_op_define_global :: "env \<Rightarrow> vm \<Rightarrow> vm option" where
  "vm_handle_op_define_global env vm =
     do {
       (name, vm) \<leftarrow> read_string vm;
       v \<leftarrow> peek 0 vm;
       vm \<leftarrow> global_set name v vm;
       (_, vm) \<leftarrow> pop vm;
       maybe_collect_garbage env vm
     }"

definition vm_handle_op_set_global :: "env \<Rightarrow> vm \<Rightarrow> vm option" where
  "vm_handle_op_set_global env vm =
     do {
       (name, vm) \<leftarrow> read_string vm;
       v \<leftarrow> peek 0 vm;
       vm \<leftarrow> global_set name v vm;
       maybe_collect_garbage env vm
     }"

definition vm_handle_op_delete_global :: "vm \<Rightarrow> (bool \<times> vm) option" where
  "vm_handle_op_delete_global vm =
     do {
       (name, vm) \<leftarrow> read_string vm;
       (ok, vm) \<leftarrow> global_delete name vm;
       (if ok then Some (True, vm)
        else do { msg \<leftarrow> undefined_msg (vheap vm) name; fail_bytes msg vm })
     }"

definition vm_handle_op_get_local :: "vm \<Rightarrow> vm option" where
  "vm_handle_op_get_local vm = do { (i, vm) \<leftarrow> read_byte vm; v \<leftarrow> slot_get i vm; push v vm }"

definition vm_handle_op_set_local :: "vm \<Rightarrow> vm option" where
  "vm_handle_op_set_local vm = do { (i, vm) \<leftarrow> read_byte vm; v \<leftarrow> peek 0 vm; slot_set i v vm }"

text \<open>\<open>frame->closure->upvalues[i]\<close>\<close>

definition frame_upvalue :: "byte \<Rightarrow> vm \<Rightarrow> addr option" where
  "frame_upvalue i vm =
     do {
       f \<leftarrow> frame_get (cframe vm) vm;
       c \<leftarrow> closure_at (vheap vm) (fclosure f);
       p \<leftarrow> at (clupvalues c) (unat i);
       p
     }"

definition vm_handle_op_get_upvalue :: "vm \<Rightarrow> vm option" where
  "vm_handle_op_get_upvalue vm =
     do { (i, vm) \<leftarrow> read_byte vm; a \<leftarrow> frame_upvalue i vm; v \<leftarrow> upvalue_get a vm; push v vm }"

definition vm_handle_op_set_upvalue :: "vm \<Rightarrow> vm option" where
  "vm_handle_op_set_upvalue vm =
     do { (i, vm) \<leftarrow> read_byte vm; a \<leftarrow> frame_upvalue i vm; v \<leftarrow> peek 0 vm; upvalue_set a v vm }"

definition op_close_upvalue :: "vm \<Rightarrow> vm option" where
  "op_close_upvalue vm =
     do {
       t \<leftarrow> cur vm;
       (if stack_top t = 0 then None else Some ());
       vm \<leftarrow> close_upvalues (stack_top t - 1) vm;
       (_, vm) \<leftarrow> pop vm;
       Some vm
     }"

section \<open>Closures\<close>

text \<open>The upvalue pairs that follow \<open>OP_CLOSURE\<close>: local slots are captured, others are shared.\<close>

fun read_upvalues :: "nat \<Rightarrow> vm \<Rightarrow> (addr option list \<times> vm) option" where
  "read_upvalues 0 vm = Some ([], vm)"
| "read_upvalues (Suc n) vm =
     do {
       (is_local, vm) \<leftarrow> read_byte vm;
       (index, vm) \<leftarrow> read_byte vm;
       f \<leftarrow> frame_get (cframe vm) vm;
       (p, vm) \<leftarrow>
         (if is_local \<noteq> 0 then do {
            (a, vm) \<leftarrow> capture_upvalue (fslots f + unat index) vm;
            Some (Some a, vm)
          }
          else do {
            c \<leftarrow> closure_at (vheap vm) (fclosure f);
            p \<leftarrow> at (clupvalues c) (unat index);
            Some (p, vm)
          });
       (ps, vm) \<leftarrow> read_upvalues n vm;
       Some (p # ps, vm)
     }"

definition op_closure :: "vm \<Rightarrow> vm option" where
  "op_closure vm =
     do {
       (v, vm) \<leftarrow> read_constant vm;
       fa \<leftarrow> as_obj v;
       g \<leftarrow> fn_at (vheap vm) fa;
       let (cl, vm) = alloc (\<lambda>h. new_closure h fa) vm;
       vm \<leftarrow> push (VObj cl) vm;
       (ps, vm) \<leftarrow> read_upvalues (upvalue_count g) vm;
       c \<leftarrow> closure_at (vheap vm) cl;
       (if length (clupvalues c) < length ps then None
        else Some (vm\<lparr>vheap := put_obj (vheap vm) cl
               (OClosure (c\<lparr>clupvalues := ps @ drop (length ps) (clupvalues c),
                            clcount := upvalue_count g\<rparr>))\<rparr>))
     }"

section \<open>Unpacking and the stack\<close>

definition nil_fill :: "nat \<Rightarrow> nat \<Rightarrow> (nat \<rightharpoonup> val) \<Rightarrow> (nat \<rightharpoonup> val)" where
  "nil_fill i j s = (\<lambda>k. if i \<le> k \<and> k < j then Some VNil else s k)"

definition vm_handle_op_unpack :: "vm \<Rightarrow> (bool \<times> vm) option" where
  "vm_handle_op_unpack vm =
     do {
       (base_depth, vm) \<leftarrow> read_byte vm;
       (n, vm) \<leftarrow> read_byte vm;
       f \<leftarrow> frame_get (cframe vm) vm;
       t \<leftarrow> cur vm;
       let base = fslots f + unat base_depth;
       let n = unat n;
       (if stack_top t < base then fail ''Internal error: invalid stack state in unpack.'' vm
        else if stack_capacity t < base + n then None
        else do {
          tab \<leftarrow> (if stack_top t = base + 1 then do {
               v \<leftarrow> stack t base;
               k \<leftarrow> type_of (vheap vm) v;
               (if k = TTable then do { a \<leftarrow> as_obj v; Some (Some a) } else Some None)
             }
             else Some None);
          (case tab of
             Some a \<Rightarrow> do {
               ot \<leftarrow> table_at (vheap vm) a;
               let elems = (\<lambda>i. case table_get_array (otable ot) (int i + 1) of Some v \<Rightarrow> v | None \<Rightarrow> VNil);
               Some (True, put_cur (t\<lparr>stack := (\<lambda>k. if base \<le> k \<and> k < base + n
                                                   then Some (elems (k - base)) else stack t k),
                                      stack_top := base + n\<rparr>) vm)
             }
           | None \<Rightarrow>
               let have = stack_top t - base
               in Some (True, put_cur (t\<lparr>stack := nil_fill (base + have) (base + n) (stack t),
                                         stack_top := base + max have n\<rparr>) vm))
        })
     }"

definition op_adjust_stack :: "vm \<Rightarrow> vm option" where
  "op_adjust_stack vm =
     do {
       (depth, vm) \<leftarrow> read_byte vm;
       f \<leftarrow> frame_get (cframe vm) vm;
       t \<leftarrow> cur vm;
       (if stack_capacity t < fslots f + unat depth then None
        else Some (put_cur (t\<lparr>stack_top := fslots f + unat depth\<rparr>) vm))
     }"

section \<open>Returning\<close>

text \<open>
  What an instruction leaves the interpreter loop to do: go on, look for a handler
  (\<open>goto runtime_error\<close>), or return a result.
\<close>

datatype outcome = Go vm | Raise vm | Stop interpret_result vm

text \<open>A module's result is cached under the name of the module.\<close>

definition cache_module :: "frame \<Rightarrow> val \<Rightarrow> vm \<Rightarrow> vm option" where
  "cache_module f v vm =
     (if \<not> fcache f then Some vm
      else do {
        k \<leftarrow> type_of (vheap vm) (fcache_name f);
        (if k \<noteq> TString then Some vm
         else do {
           a \<leftarrow> as_obj (fcache_name f);
           key \<leftarrow> key_at (vheap vm) a;
           (t, _) \<leftarrow> table_set (modules vm) key v;
           Some (vm\<lparr>modules := t\<rparr>)
         })
      })"

text \<open>The steps both return instructions share before they place their results.\<close>

definition leave_frame :: "frame \<Rightarrow> val \<Rightarrow> vm \<Rightarrow> vm option" where
  "leave_frame f module_result vm =
     do {
       vm \<leftarrow> cache_module f module_result vm;
       vm \<leftarrow> close_upvalues (fslots f) vm;
       vm \<leftarrow> discard_handlers_for_frame_return vm;
       vm \<leftarrow> restore_module_context f vm;
       t \<leftarrow> cur vm;
       (if frame_count t = 0 then None
        else Some (put_cur (t\<lparr>frame_count := frame_count t - 1\<rparr>) vm))
     }"

definition resume :: "vm \<Rightarrow> outcome option" where
  "resume vm = do { vm \<leftarrow> load_frame vm; Some (Go vm) }"

text \<open>
  A thread that has run out of frames hands its results to the thread that resumed it:
  two nils at the end of a generator, otherwise \<open>true\<close> and the results.
\<close>

definition push_thread :: "addr \<Rightarrow> val list \<Rightarrow> vm \<Rightarrow> vm option" where
  "push_thread a vs vm =
     do {
       t \<leftarrow> thread_at (vheap vm) a;
       (if stack_capacity t < stack_top t + length vs then None
        else Some (put_thread a
          (t\<lparr>stack := (\<lambda>i. if stack_top t \<le> i \<and> i < stack_top t + length vs
                          then Some (vs ! (i - stack_top t)) else stack t i),
             stack_top := stack_top t + length vs\<rparr>) vm))
     }"

definition return_to_caller :: "addr \<Rightarrow> nat \<Rightarrow> val list \<Rightarrow> vm \<Rightarrow> outcome option" where
  "return_to_caller c room results vm =
     do {
       t \<leftarrow> cur vm;
       let vm = put_cur (t\<lparr>caller := None\<rparr>) vm;
       ct \<leftarrow> thread_at (vheap vm) c;
       (if stack_capacity ct \<le> stack_top ct + room then do {
          (_, vm) \<leftarrow> fail ''Stack overflow in caller.'' vm;
          Some (Raise vm)
        }
        else do {
          vm \<leftarrow> (if is_generator t \<and> generator_mode t then do {
               t \<leftarrow> cur vm;
               push_thread c [VNil, VNil] (put_cur (t\<lparr>generator_mode := False\<rparr>) vm)
             }
             else push_thread c (VBool True # results) vm);
          resume (vm\<lparr>current_thread := Some c\<rparr>)
        })
     }"

definition op_return :: "nat \<Rightarrow> vm \<Rightarrow> outcome option" where
  "op_return min_frame_count vm =
     do {
       (r, vm) \<leftarrow> pop vm;
       f \<leftarrow> frame_get (cframe vm) vm;
       vm \<leftarrow> leave_frame f r vm;
       t \<leftarrow> cur vm;
       vm \<leftarrow> push r (put_cur (t\<lparr>stack_top := fslots f\<rparr>) vm);
       vm \<leftarrow> apply_pending_set_local vm;
       t \<leftarrow> cur vm;
       (if frame_count t \<le> min_frame_count then
          (case caller t of
             Some c \<Rightarrow> return_to_caller c 2 [r] vm
           | None \<Rightarrow>
               if min_frame_count = 0 \<and> \<not> is_repl vm
               then do { (_, vm) \<leftarrow> pop vm; Some (Stop INTERPRET_OK vm) }
               else Some (Stop INTERPRET_OK vm))
        else resume vm)
     }"

text \<open>\<open>for (i = 0; i < n; i++) dest[i] = results[i]\<close> within one stack.\<close>

fun copy_values :: "nat \<Rightarrow> nat \<Rightarrow> nat \<Rightarrow> (nat \<rightharpoonup> val) \<Rightarrow> (nat \<rightharpoonup> val) option" where
  "copy_values dest src 0 s = Some s"
| "copy_values dest src (Suc n) s =
     do { v \<leftarrow> s src; copy_values (dest + 1) (src + 1) n (s(dest \<mapsto> v)) }"

definition op_return_n :: "nat \<Rightarrow> vm \<Rightarrow> outcome option" where
  "op_return_n min_frame_count vm =
     do {
       (count, vm) \<leftarrow> read_byte vm;
       let n = unat count;
       results \<leftarrow> read_args n vm;
       t \<leftarrow> cur vm;
       let src = stack_top t - n;
       f \<leftarrow> frame_get (cframe vm) vm;
       vm \<leftarrow> leave_frame f (if 0 < n then hd results else VNil) vm;
       t \<leftarrow> cur vm;
       (if stack_capacity t < fslots f + n then None else Some ());
       s \<leftarrow> copy_values (fslots f) src n (stack t);
       let vm = put_cur (t\<lparr>stack := s, stack_top := fslots f + n\<rparr>) vm;
       vm \<leftarrow> apply_pending_set_local vm;
       t \<leftarrow> cur vm;
       (if frame_count t \<le> min_frame_count then
          (case caller t of
             Some c \<Rightarrow> do { results \<leftarrow> read_args n vm; return_to_caller c (1 + n) results vm }
           | None \<Rightarrow>
               if min_frame_count = 0 then do { vm \<leftarrow> drop_n n vm; Some (Stop INTERPRET_OK vm) }
               else Some (Stop INTERPRET_OK vm))
        else resume vm)
     }"

end
