(* ===== verification/Ops_Table.thy ===== *)
theory Ops_Table
  imports Ops_Control
begin

text \<open>
  Tables and their metamethods (\<open>src/src/vm/ops_table.c\<close>): binding methods to receivers,
  reading with the inline cache and \<open>__index\<close>, writing with \<open>__newindex\<close>, appending and deleting.
  Casts of a number to \<open>int\<close> that C leaves undefined are \<open>None\<close>.
\<close>

section \<open>Binding methods to their receiver\<close>

definition is_self_callable :: "heap \<Rightarrow> val \<Rightarrow> bool option" where
  "is_self_callable h v =
     do {
       k \<leftarrow> type_of h v;
       (if k = TClosure then do {
          a \<leftarrow> as_obj v; c \<leftarrow> closure_at h a; g \<leftarrow> fn_at h (clfunction c); Some (fn_is_self g)
        }
        else if k = TNative then do { a \<leftarrow> as_obj v; n \<leftarrow> native_at h a; Some (nis_self n) }
        else Some False)
     }"

definition bind_method :: "val \<Rightarrow> val \<Rightarrow> vm \<Rightarrow> (val \<times> vm) option" where
  "bind_method receiver r vm =
     do {
       m \<leftarrow> as_obj r;
       let (b, vm) = alloc (\<lambda>h. new_bound_method h receiver m) vm;
       Some (VObj b, vm)
     }"

definition maybe_bind_self :: "val \<Rightarrow> val \<Rightarrow> vm \<Rightarrow> (val \<times> vm) option" where
  "maybe_bind_self receiver r vm =
     do {
       k \<leftarrow> type_of (vheap vm) r;
       rk \<leftarrow> type_of (vheap vm) receiver;
       is_mod \<leftarrow> (if rk = TTable
         then do { a \<leftarrow> as_obj receiver; t \<leftarrow> table_at (vheap vm) a; Some (ois_module t) }
         else Some False);
       self \<leftarrow> is_self_callable (vheap vm) r;
       (if k = TBoundMethod \<or> is_mod \<or> \<not> self then Some (r, vm) else bind_method receiver r vm)
     }"

definition bind_self_for_meta :: "val \<Rightarrow> val \<Rightarrow> vm \<Rightarrow> (val \<times> vm) option" where
  "bind_self_for_meta receiver r vm =
     do {
       k \<leftarrow> type_of (vheap vm) r;
       (if k = TClosure \<or> k = TNative then bind_method receiver r vm else Some (r, vm))
     }"

definition push_gc :: "env \<Rightarrow> val \<Rightarrow> vm \<Rightarrow> (bool \<times> vm) option" where
  "push_gc env v vm = do { vm \<leftarrow> push v vm; vm \<leftarrow> maybe_collect_garbage env vm; Some (True, vm) }"

section \<open>Reading a table\<close>

text \<open>The C result of a metamethod handler: 0, 1 with a value, or -1.\<close>

datatype handled = NotHandled | Handled val | Failed

definition or_nil :: "val option \<Rightarrow> val" where
  "or_nil r = (case r of Some v \<Rightarrow> v | None \<Rightarrow> VNil)"

text \<open>
  \<open>handle_index_metamethod_local\<close>. When \<open>__index\<close> is a closure, the value popped after the
  call is the key on top of the new frame, which the caller pushes back.
\<close>

definition call_index :: "env \<Rightarrow> vm_loop \<Rightarrow> val \<Rightarrow> val \<Rightarrow> val \<Rightarrow> vm \<Rightarrow> (handled \<times> vm) option" where
  "call_index env loop f tab key vm =
     do {
       vm \<leftarrow> push_all [f, tab, key] vm;
       (ok, vm) \<leftarrow> call_value env loop f 2 vm;
       (if \<not> ok then Some (Failed, vm) else do { (r, vm) \<leftarrow> pop vm; Some (Handled r, vm) })
     }"

definition handle_index_metamethod ::
  "env \<Rightarrow> vm_loop \<Rightarrow> objtable \<Rightarrow> val \<Rightarrow> val \<Rightarrow> vm \<Rightarrow> (handled \<times> vm) option" where
  "handle_index_metamethod env loop t tab key vm =
     (case ometatable t of
        None \<Rightarrow> Some (NotHandled, vm)
      | Some mt \<Rightarrow> do {
          mm \<leftarrow> mm_index (vnames vm);
          r \<leftarrow> heap_get mt mm vm;
          (case r of
             None \<Rightarrow> Some (NotHandled, vm)
           | Some idx \<Rightarrow> do {
               k \<leftarrow> type_of (vheap vm) idx;
               (if k = TClosure \<or> k = TNative then call_index env loop idx tab key vm
                else if k = TTable then do {
                  ia \<leftarrow> as_obj idx;
                  kk \<leftarrow> type_of (vheap vm) key;
                  (if kk = TString then do {
                     ka \<leftarrow> as_obj key;
                     r \<leftarrow> heap_get ia ka vm;
                     Some (Handled (or_nil r), vm)
                   }
                   else
                     case key of
                       VNumber d \<Rightarrow> do {
                         let (ka, vm) = number_key_string d vm;
                         r \<leftarrow> heap_get ia ka vm;
                         Some (Handled (or_nil r), vm)
                       }
                     | _ \<Rightarrow> Some (Handled VNil, vm))
                }
                else Some (NotHandled, vm))
             })
        })"

text \<open>What follows a failed lookup: the metamethod if there is a metatable, else nil.\<close>

definition index_fallback ::
  "env \<Rightarrow> vm_loop \<Rightarrow> objtable \<Rightarrow> val \<Rightarrow> val \<Rightarrow> vm \<Rightarrow> (val option \<times> vm) option" where
  "index_fallback env loop t tab key vm =
     (if ometatable t = None then Some (Some VNil, vm)
      else do {
        (r, vm) \<leftarrow> handle_index_metamethod env loop t tab key vm;
        (case r of
           Failed \<Rightarrow> Some (None, vm)
         | NotHandled \<Rightarrow> do { (v, vm) \<leftarrow> maybe_bind_self tab VNil vm; Some (Some v, vm) }
         | Handled v \<Rightarrow> do { (v, vm) \<leftarrow> maybe_bind_self tab v vm; Some (Some v, vm) })
      })"

definition push_result :: "env \<Rightarrow> val option \<times> vm \<Rightarrow> (bool \<times> vm) option" where
  "push_result env r =
     (case r of (None, vm) \<Rightarrow> Some (False, vm) | (Some v, vm) \<Rightarrow> push_gc env v vm)"

definition table_ic_hit :: "chunk \<Rightarrow> nat \<Rightarrow> addr \<Rightarrow> addr \<Rightarrow> u32 \<Rightarrow> bool" where
  "table_ic_hit c off t key ver \<longleftrightarrow>
     off < ccapacity c \<and> tic_tables c \<noteq> [] \<and> at (tic_tables c) off = Some (Some t) \<and>
     at (tic_keys c) off = Some (Some key) \<and> at (tic_versions c) off = Some ver"

definition table_ic_fill :: "chunk \<Rightarrow> nat \<Rightarrow> addr \<Rightarrow> addr \<Rightarrow> u32 \<Rightarrow> val \<Rightarrow> chunk" where
  "table_ic_fill c off t key ver v =
     (if off < ccapacity c \<and> tic_tables c \<noteq> []
      then c\<lparr>tic_tables := (tic_tables c)[off := Some t], tic_keys := (tic_keys c)[off := Some key],
             tic_versions := (tic_versions c)[off := ver], tic_values := (tic_values c)[off := v]\<rparr>
      else c)"

text \<open>A string key: the inline cache, the table, the metatable.\<close>

definition get_table_string ::
  "env \<Rightarrow> vm_loop \<Rightarrow> addr \<Rightarrow> fn \<Rightarrow> nat \<Rightarrow> addr \<Rightarrow> addr \<Rightarrow> vm \<Rightarrow> (bool \<times> vm) option" where
  "get_table_string env loop fa g off ta ka vm =
     do {
       t \<leftarrow> table_at (vheap vm) ta;
       (if table_ic_hit (fchunk g) off ta ka (version (otable t)) then do {
          v \<leftarrow> at (tic_values (fchunk g)) off;
          (v, vm) \<leftarrow> maybe_bind_self (VObj ta) v vm;
          push_gc env v vm
        }
        else do {
          r \<leftarrow> heap_get ta ka vm;
          (case r of
             Some v \<Rightarrow> do {
               self \<leftarrow> is_self_callable (vheap vm) v;
               k \<leftarrow> type_of (vheap vm) v;
               let vm = (if self \<or> k = TBoundMethod then vm
                 else put_fn fa (g\<lparr>fchunk := table_ic_fill (fchunk g) off ta ka (version (otable t)) v\<rparr>) vm);
               (v, vm) \<leftarrow> maybe_bind_self (VObj ta) v vm;
               push_gc env v vm
             }
           | None \<Rightarrow> do {
               r \<leftarrow> index_fallback env loop t (VObj ta) (VObj ka) vm;
               push_result env r
             })
        })
     }"

text \<open>Negative indices count from the end of the array part.\<close>

definition from_end :: "table \<Rightarrow> int \<Rightarrow> int" where
  "from_end t i = (if i < 0 then int (array_length t) + i + 1 else i)"

text \<open>The index of an integral number key, as the code computes it; undefined casts give \<open>None\<close>.\<close>

definition integral_index :: "double \<Rightarrow> int option option" where
  "integral_index d =
     (case cast_int d of
        None \<Rightarrow> None
      | Some i \<Rightarrow> Some (if deq d (dbl_of_int i) then Some i else None))"

definition get_table_number ::
  "env \<Rightarrow> vm_loop \<Rightarrow> addr \<Rightarrow> double \<Rightarrow> vm \<Rightarrow> (bool \<times> vm) option" where
  "get_table_number env loop ta d vm =
     do {
       t \<leftarrow> table_at (vheap vm) ta;
       i \<leftarrow> integral_index d;
       let elem = (case i of Some i \<Rightarrow> table_get_array (otable t) (from_end (otable t) i) | None \<Rightarrow> None);
       (case elem of
          Some v \<Rightarrow> do { (v, vm) \<leftarrow> maybe_bind_self (VObj ta) v vm; push_gc env v vm }
        | None \<Rightarrow> do {
            let (ka, vm) = number_key_string d vm;
            r \<leftarrow> heap_get ta ka vm;
            (case r of
               Some v \<Rightarrow> do { (v, vm) \<leftarrow> maybe_bind_self (VObj ta) v vm; push_gc env v vm }
             | None \<Rightarrow> do {
                 r \<leftarrow> index_fallback env loop t (VObj ta) (VNumber d) vm;
                 push_result env r
               })
          })
     }"

definition get_table_userdata ::
  "env \<Rightarrow> vm_loop \<Rightarrow> val \<Rightarrow> val \<Rightarrow> vm \<Rightarrow> (bool \<times> vm) option" where
  "get_table_userdata env loop tab key vm =
     do {
       a \<leftarrow> as_obj tab;
       u \<leftarrow> userdata_at (vheap vm) a;
       (case umetatable u of
          None \<Rightarrow> push_gc env VNil vm
        | Some mt \<Rightarrow> do {
            mm \<leftarrow> mm_index (vnames vm);
            r \<leftarrow> heap_get mt mm vm;
            (case r of
               None \<Rightarrow> push_gc env VNil vm
             | Some idx \<Rightarrow> do {
                 k \<leftarrow> type_of (vheap vm) idx;
                 (r, vm) \<leftarrow>
                   (if k = TClosure \<or> k = TNative then call_index env loop idx tab key vm
                    else if k = TTable then do {
                      ia \<leftarrow> as_obj idx;
                      kk \<leftarrow> type_of (vheap vm) key;
                      (if kk = TString then do {
                         ka \<leftarrow> as_obj key; r \<leftarrow> heap_get ia ka vm; Some (Handled (or_nil r), vm)
                       }
                       else Some (Handled VNil, vm))
                    }
                    else Some (Handled VNil, vm));
                 (case r of
                    Handled v \<Rightarrow> do { (v, vm) \<leftarrow> maybe_bind_self tab v vm; push_gc env v vm }
                  | _ \<Rightarrow> Some (False, vm))
               })
          })
     }"

text \<open>\<open>objstring_equals_local\<close>\<close>

definition string_equals :: "heap \<Rightarrow> addr \<Rightarrow> addr option \<Rightarrow> bool option" where
  "string_equals h a p =
     do { b \<leftarrow> p; x \<leftarrow> key_at h a; y \<leftarrow> key_at h b; Some (same_key x y) }"

text \<open>
  A method of a string: the cached \<open>upper\<close> and \<open>lower\<close>, otherwise the entry of the string
  module, which is loaded if it is not a global table.
\<close>

definition string_module :: "env \<Rightarrow> vm \<Rightarrow> (val \<times> vm) option" where
  "string_module env vm =
     do {
       mn \<leftarrow> str_module_name (vnames vm);
       r \<leftarrow> global_get mn vm;
       k \<leftarrow> type_of (vheap vm) (or_nil r);
       (if k = TTable then Some (or_nil r, vm)
        else do {
          (ok, vm) \<leftarrow> load_native_module env (bytes_of ''string'') vm;
          (if ok then do { v \<leftarrow> peek 0 vm; (_, vm) \<leftarrow> pop vm; Some (v, vm) } else Some (or_nil r, vm))
        })
     }"

definition get_string_method :: "env \<Rightarrow> val \<Rightarrow> addr \<Rightarrow> vm \<Rightarrow> (bool \<times> vm) option" where
  "get_string_method env s name vm =
     do {
       up \<leftarrow> string_equals (vheap vm) name (str_upper_name (vnames vm));
       low \<leftarrow> string_equals (vheap vm) name (str_lower_name (vnames vm));
       (if up \<and> \<not> is_nil (str_upper_fn vm) then do {
          (v, vm) \<leftarrow> bind_self_for_meta s (str_upper_fn vm) vm; push_gc env v vm
        }
        else if \<not> up \<and> low \<and> \<not> is_nil (str_lower_fn vm) then do {
          (v, vm) \<leftarrow> bind_self_for_meta s (str_lower_fn vm) vm; push_gc env v vm
        }
        else do {
          (m, vm) \<leftarrow> string_module env vm;
          k \<leftarrow> type_of (vheap vm) m;
          (if k \<noteq> TTable then push_gc env VNil vm
           else do {
             ma \<leftarrow> as_obj m;
             lookup \<leftarrow> (if up then str_upper_name (vnames vm)
                       else if low then str_lower_name (vnames vm) else Some name);
             r \<leftarrow> heap_get ma lookup vm;
             (case r of
                None \<Rightarrow> push_gc env VNil vm
              | Some v \<Rightarrow> do {
                  let vm = (if Some lookup = str_upper_name (vnames vm) then vm\<lparr>str_upper_fn := v\<rparr>
                            else if Some lookup = str_lower_name (vnames vm) then vm\<lparr>str_lower_fn := v\<rparr>
                            else vm);
                  (v, vm) \<leftarrow> bind_self_for_meta s v vm;
                  push_gc env v vm
                })
           })
        })
     }"

definition get_string_char :: "env \<Rightarrow> bytes \<Rightarrow> double \<Rightarrow> vm \<Rightarrow> (bool \<times> vm) option" where
  "get_string_char env cs d vm =
     do {
       i \<leftarrow> integral_index d;
       (case i of
          None \<Rightarrow> push_gc env VNil vm
        | Some i \<Rightarrow>
            let i = (if i < 0 then int (length cs) + i + 1 else i)
            in if 1 \<le> i \<and> i \<le> int (length cs)
               then let (v, vm) = string_val [cs ! nat (i - 1)] vm in push_gc env v vm
               else push_gc env VNil vm)
     }"

text \<open>The documentation string of a function, under the key \<open>__doc\<close>.\<close>

definition doc_of :: "heap \<Rightarrow> addr \<Rightarrow> addr \<Rightarrow> val option" where
  "doc_of h cl key =
     do {
       cs \<leftarrow> string_at h key;
       (if cs \<noteq> bytes_of ''__doc'' then Some VNil
        else do {
          c \<leftarrow> closure_at h cl;
          g \<leftarrow> fn_at h (clfunction c);
          Some (case fdoc g of Some d \<Rightarrow> VObj d | None \<Rightarrow> VNil)
        })
     }"

text \<open>The number \<open>OBJ_TYPE\<close> or \<open>ValueType\<close> that the message about a wrong operand prints.\<close>

definition type_number :: "vtype \<Rightarrow> nat" where
  "type_number k =
     (case k of TNumber \<Rightarrow> 0 | TNil \<Rightarrow> 1 | TBool \<Rightarrow> 2 | TString \<Rightarrow> 0 | TTable \<Rightarrow> 1 | TFunction \<Rightarrow> 2
      | TNative \<Rightarrow> 3 | TUpvalue \<Rightarrow> 4 | TClosure \<Rightarrow> 5 | TThread \<Rightarrow> 6 | TUserdata \<Rightarrow> 7
      | TBoundMethod \<Rightarrow> 8)"

definition get_table_other :: "val \<Rightarrow> vtype \<Rightarrow> vm \<Rightarrow> (bool \<times> vm) option" where
  "get_table_other tab k vm =
     (let what = (case tab of VObj _ \<Rightarrow> ''object'' | _ \<Rightarrow> ''value'');
          msg = bytes_of ''DEBUG: Attempt to index non-table '' @ bytes_of what @ bytes_of '' type: '' @
                dec (int (type_number k)) @ [10]
      in fail ''Attempt to index non-table.'' (vm\<lparr>out := out vm @ msg\<rparr>))"

definition vm_handle_op_get_table :: "env \<Rightarrow> vm_loop \<Rightarrow> vm \<Rightarrow> (bool \<times> vm) option" where
  "vm_handle_op_get_table env loop vm =
     do {
       (fa, g) \<leftarrow> running_fn vm;
       let off = ip vm - 1;
       (key, vm) \<leftarrow> pop vm;
       (tab, vm) \<leftarrow> pop vm;
       k \<leftarrow> type_of (vheap vm) tab;
       kk \<leftarrow> type_of (vheap vm) key;
       (if k = TTable then do {
          ta \<leftarrow> as_obj tab;
          (if kk = TString then do { ka \<leftarrow> as_obj key; get_table_string env loop fa g off ta ka vm }
           else case key of VNumber d \<Rightarrow> get_table_number env loop ta d vm | _ \<Rightarrow> push_gc env VNil vm)
        }
        else if k = TUserdata then get_table_userdata env loop tab key vm
        else if k = TString then do {
          sa \<leftarrow> as_obj tab;
          cs \<leftarrow> string_at (vheap vm) sa;
          (if kk = TString then do { ka \<leftarrow> as_obj key; get_string_method env tab ka vm }
           else case key of VNumber d \<Rightarrow> get_string_char env cs d vm | _ \<Rightarrow> push_gc env VNil vm)
        }
        else if k = TClosure \<and> kk = TString then do {
          ca \<leftarrow> as_obj tab; ka \<leftarrow> as_obj key; v \<leftarrow> doc_of (vheap vm) ca ka; push_gc env v vm
        }
        else if k = TClosure then push_gc env VNil vm
        else if k = TBoundMethod then do {
          ba \<leftarrow> as_obj tab;
          (_, m) \<leftarrow> bound_at (vheap vm) ba;
          mk \<leftarrow> type_of (vheap vm) (VObj m);
          (if kk = TString \<and> mk = TClosure
           then do { ka \<leftarrow> as_obj key; v \<leftarrow> doc_of (vheap vm) m ka; push_gc env v vm }
           else push_gc env VNil vm)
        }
        else get_table_other tab k vm)
     }"

section \<open>Writing a table\<close>

text \<open>
  \<open>append_to_table_local\<close>: the index after the last used one; a string key when the array part
  does not take it.
\<close>

definition append_to_table :: "addr \<Rightarrow> val \<Rightarrow> vm \<Rightarrow> (nat \<times> vm) option" where
  "append_to_table a v vm =
     do {
       ot \<leftarrow> table_at (vheap vm) a;
       let index = array_max (otable ot) + 1;
       (case table_set_array (otable ot) (int index) v of
          Some t \<Rightarrow> do { vm \<leftarrow> put_table a t vm; Some (index, vm) }
        | None \<Rightarrow> do {
            let (k, vm) = number_key_string (dbl_of_int (int index)) vm;
            vm \<leftarrow> heap_set a k v vm;
            Some (index, vm)
          })
     }"

definition call_append :: "env \<Rightarrow> vm_loop \<Rightarrow> val \<Rightarrow> val \<Rightarrow> val \<Rightarrow> vm \<Rightarrow> (bool \<times> vm) option" where
  "call_append env loop m a b vm =
     do { vm \<leftarrow> push_all [m, a, b] vm; vm \<leftarrow> save_ip vm; call_value env loop m 2 vm }"

definition vm_handle_op_append :: "env \<Rightarrow> vm_loop \<Rightarrow> vm \<Rightarrow> (bool \<times> vm) option" where
  "vm_handle_op_append env loop vm =
     do {
       (b, vm) \<leftarrow> pop vm;
       (a, vm) \<leftarrow> pop vm;
       (m, vm) \<leftarrow> get_metamethod a ''__append'' vm;
       k \<leftarrow> type_of (vheap vm) a;
       (if \<not> is_nil m then call_append env loop m a b vm
        else if k = TTable then do {
          ta \<leftarrow> as_obj a;
          (index, vm) \<leftarrow> append_to_table ta b vm;
          vm \<leftarrow> push (VNumber (dbl_of_int (int index))) vm;
          Some (True, vm)
        }
        else do {
          (m, vm) \<leftarrow> get_metamethod b ''__append'' vm;
          (if \<not> is_nil m then call_append env loop m a b vm
           else fail ''Left operand must be a table or define __append.'' vm)
        })
     }"

text \<open>\<open>handle_new_index_metamethod_local\<close>: 1, 0 and -1 are \<open>Handled VNil\<close>, \<open>NotHandled\<close> and \<open>Failed\<close>.\<close>

definition handle_new_index_metamethod ::
  "env \<Rightarrow> vm_loop \<Rightarrow> objtable \<Rightarrow> val \<Rightarrow> val \<Rightarrow> val \<Rightarrow> vm \<Rightarrow> (handled \<times> vm) option" where
  "handle_new_index_metamethod env loop t tab key v vm =
     (case ometatable t of
        None \<Rightarrow> Some (NotHandled, vm)
      | Some mt \<Rightarrow> do {
          mm \<leftarrow> mm_newindex (vnames vm);
          r \<leftarrow> heap_get mt mm vm;
          (case r of
             None \<Rightarrow> Some (NotHandled, vm)
           | Some ni \<Rightarrow> do {
               k \<leftarrow> type_of (vheap vm) ni;
               (if k = TClosure \<or> k = TNative then do {
                  vm \<leftarrow> push_all [ni, tab, key, v] vm;
                  (ok, vm) \<leftarrow> call_value env loop ni 3 vm;
                  Some (if ok then Handled VNil else Failed, vm)
                }
                else if k = TTable then do {
                  na \<leftarrow> as_obj ni;
                  kk \<leftarrow> type_of (vheap vm) key;
                  (if kk = TString then do {
                     ka \<leftarrow> as_obj key;
                     vm \<leftarrow> heap_set na ka v vm;
                     Some (Handled VNil, vm)
                   }
                   else
                     case key of
                       VNumber d \<Rightarrow> do {
                         let (ka, vm) = number_key_string d vm;
                         vm \<leftarrow> heap_set na ka v vm;
                         Some (Handled VNil, vm)
                       }
                     | _ \<Rightarrow> Some (Handled VNil, vm))
                }
                else Some (NotHandled, vm))
             })
        })"

text \<open>
  Storing under a string key: an existing key is overwritten, a new one goes through
  \<open>__newindex\<close>. The first result says whether the handler goes on.
\<close>

definition set_key ::
  "env \<Rightarrow> vm_loop \<Rightarrow> addr \<Rightarrow> objtable \<Rightarrow> addr \<Rightarrow> val \<Rightarrow> val \<Rightarrow> vm \<Rightarrow> (bool \<times> vm) option" where
  "set_key env loop ta t ka key v vm =
     do {
       r \<leftarrow> heap_get ta ka vm;
       (if r \<noteq> None \<or> ometatable t = None then do { vm \<leftarrow> heap_set ta ka v vm; Some (True, vm) }
        else do {
          (h, vm) \<leftarrow> handle_new_index_metamethod env loop t (VObj ta) key v vm;
          (case h of
             Failed \<Rightarrow> Some (False, vm)
           | NotHandled \<Rightarrow> do { vm \<leftarrow> heap_set ta ka v vm; Some (True, vm) }
           | Handled _ \<Rightarrow> Some (True, vm))
        })
     }"

definition set_number ::
  "env \<Rightarrow> vm_loop \<Rightarrow> addr \<Rightarrow> objtable \<Rightarrow> double \<Rightarrow> val \<Rightarrow> vm \<Rightarrow> (bool \<times> vm) option" where
  "set_number env loop ta t d v vm =
     do {
       i \<leftarrow> integral_index d;
       (case (case i of Some i \<Rightarrow> table_set_array (otable t) (from_end (otable t) i) v | None \<Rightarrow> None) of
          Some t' \<Rightarrow> do { vm \<leftarrow> put_table ta t' vm; Some (True, vm) }
        | None \<Rightarrow> do {
            let (ka, vm) = number_key_string d vm;
            set_key env loop ta t ka (VNumber d) v vm
          })
     }"

definition vm_handle_op_set_table :: "env \<Rightarrow> vm_loop \<Rightarrow> vm \<Rightarrow> (bool \<times> vm) option" where
  "vm_handle_op_set_table env loop vm =
     do {
       (v, vm) \<leftarrow> pop vm;
       (key, vm) \<leftarrow> pop vm;
       (tab, vm) \<leftarrow> pop vm;
       k \<leftarrow> type_of (vheap vm) tab;
       (if k \<noteq> TTable then fail ''Attempt to index non-table.'' vm
        else do {
          ta \<leftarrow> as_obj tab;
          t \<leftarrow> table_at (vheap vm) ta;
          kk \<leftarrow> type_of (vheap vm) key;
          (ok, vm) \<leftarrow>
            (if kk = TString then do { ka \<leftarrow> as_obj key; set_key env loop ta t ka key v vm }
             else case key of VNumber d \<Rightarrow> set_number env loop ta t d v vm | _ \<Rightarrow> Some (True, vm));
          (if ok then push_gc env v vm else Some (False, vm))
        })
     }"

definition vm_handle_op_get_meta_table :: "env \<Rightarrow> vm \<Rightarrow> (bool \<times> vm) option" where
  "vm_handle_op_get_meta_table env vm =
     do {
       (key, vm) \<leftarrow> pop vm;
       (receiver, vm) \<leftarrow> pop vm;
       kk \<leftarrow> type_of (vheap vm) key;
       (if kk \<noteq> TString then push_gc env VNil vm
        else do {
          ka \<leftarrow> as_obj key;
          m \<leftarrow> metatable_of (vheap vm) receiver;
          r \<leftarrow> (case m of None \<Rightarrow> Some None | Some mt \<Rightarrow> heap_get mt ka vm);
          (case r of
             None \<Rightarrow> push_gc env VNil vm
           | Some v \<Rightarrow> do { (v, vm) \<leftarrow> bind_self_for_meta receiver v vm; push_gc env v vm })
        })
     }"

definition delete_key :: "addr \<Rightarrow> addr \<Rightarrow> vm \<Rightarrow> (bool \<times> vm) option" where
  "delete_key ta ka vm =
     do {
       (found, vm) \<leftarrow> heap_delete ta ka vm;
       (if found then Some (True, vm) else fail ''Key not found.'' vm)
     }"

definition delete_number :: "addr \<Rightarrow> table \<Rightarrow> double \<Rightarrow> vm \<Rightarrow> (bool \<times> vm) option" where
  "delete_number ta t d vm =
     do {
       i \<leftarrow> integral_index d;
       let j = (case i of Some i \<Rightarrow> from_end t i | None \<Rightarrow> 0);
       (if 1 \<le> j \<and> j \<le> int (length (tarray t)) \<and> \<not> is_nil (tarray t ! nat (j - 1))
        then do {
          vm \<leftarrow> (case table_set_array t j VNil of Some t' \<Rightarrow> put_table ta t' vm | None \<Rightarrow> Some vm);
          Some (True, vm)
        }
        else let (ka, vm) = number_key_string d vm in delete_key ta ka vm)
     }"

definition vm_handle_op_delete_table :: "vm \<Rightarrow> (bool \<times> vm) option" where
  "vm_handle_op_delete_table vm =
     do {
       (key, vm) \<leftarrow> pop vm;
       (tab, vm) \<leftarrow> pop vm;
       k \<leftarrow> type_of (vheap vm) tab;
       (if k \<noteq> TTable then fail ''Attempt to index non-table.'' vm
        else do {
          ta \<leftarrow> as_obj tab;
          t \<leftarrow> table_at (vheap vm) ta;
          kk \<leftarrow> type_of (vheap vm) key;
          (if kk = TString then do { ka \<leftarrow> as_obj key; delete_key ta ka vm }
           else
             case key of
               VNumber d \<Rightarrow> delete_number ta (otable t) d vm
             | _ \<Rightarrow> fail ''Invalid key type for deletion.'' vm)
        })
     }"

end
