(* ===== verification/Ops_Iter.thy ===== *)
theory Ops_Iter
  imports Ops_Table
begin

text \<open>
  Constructing objects and iterating (\<open>src/src/vm/ops_meta.c\<close>, \<open>src/src/vm/ops_iter.c\<close>): the
  \<open>__index\<close> chain searched for a constructor, and the instructions that prepare \<open>for\<close> loops,
  ranges and slices by calling global functions.
\<close>

section \<open>New tables and metatables\<close>

text \<open>
  \<open>find_property_local\<close>: at most ten steps along the \<open>__index\<close> tables; \<open>n\<close> counts the steps left.
\<close>

fun find_property_chain :: "nat \<Rightarrow> addr \<Rightarrow> addr \<Rightarrow> vm \<Rightarrow> val option option" where
  "find_property_chain 0 ta name vm = Some None"
| "find_property_chain (Suc n) ta name vm =
     do {
       t \<leftarrow> table_at (vheap vm) ta;
       (case ometatable t of
          None \<Rightarrow> Some None
        | Some mt \<Rightarrow> do {
            mm \<leftarrow> mm_index (vnames vm);
            r \<leftarrow> heap_get mt mm vm;
            k \<leftarrow> type_of (vheap vm) (or_nil r);
            (if k \<noteq> TTable then Some None
             else do {
               ia \<leftarrow> as_obj (or_nil r);
               r \<leftarrow> heap_get ia name vm;
               (case r of Some v \<Rightarrow> Some (Some v) | None \<Rightarrow> find_property_chain n ia name vm)
             })
          })
     }"

definition find_property :: "addr \<Rightarrow> addr \<Rightarrow> vm \<Rightarrow> val option option" where
  "find_property ta name vm =
     do {
       r \<leftarrow> heap_get ta name vm;
       (case r of Some v \<Rightarrow> Some (Some v) | None \<Rightarrow> find_property_chain 10 ta name vm)
     }"

definition vm_handle_op_new_table :: "env \<Rightarrow> vm \<Rightarrow> (bool \<times> vm) option" where
  "vm_handle_op_new_table env vm = (let (a, vm) = alloc new_table vm in push_gc env (VObj a) vm)"

definition set_metatable :: "addr \<Rightarrow> addr option \<Rightarrow> vm \<Rightarrow> vm option" where
  "set_metatable ta mt vm =
     do {
       t \<leftarrow> table_at (vheap vm) ta;
       Some (vm\<lparr>vheap := put_obj (vheap vm) ta (OTable (t\<lparr>ometatable := mt\<rparr>))\<rparr>)
     }"

definition find_constructor :: "addr \<Rightarrow> addr \<Rightarrow> vm \<Rightarrow> val option" where
  "find_constructor ta mt vm =
     do {
       nw \<leftarrow> mm_new (vnames vm);
       r \<leftarrow> find_property ta nw vm;
       (case r of Some v \<Rightarrow> Some v | None \<Rightarrow> do { r \<leftarrow> heap_get mt nw vm; Some (or_nil r) })
     }"

definition vm_handle_op_set_metatable :: "env \<Rightarrow> vm_loop \<Rightarrow> vm \<Rightarrow> (bool \<times> vm) option" where
  "vm_handle_op_set_metatable env loop vm =
     do {
       tab \<leftarrow> peek 0 vm;
       meta \<leftarrow> peek 1 vm;
       k \<leftarrow> type_of (vheap vm) tab;
       mk \<leftarrow> type_of (vheap vm) meta;
       (if k \<noteq> TTable \<or> (mk \<noteq> TTable \<and> mk \<noteq> TNil) then fail ''Invalid arguments to setmetatable.'' vm
        else do {
          ta \<leftarrow> as_obj tab;
          let mt = (case meta of VObj m \<Rightarrow> Some m | _ \<Rightarrow> None);
          vm \<leftarrow> set_metatable ta mt vm;
          init \<leftarrow> (case mt of None \<Rightarrow> Some VNil | Some m \<Rightarrow> find_constructor ta m vm);
          callable \<leftarrow> is_callable (vheap vm) init;
          vm \<leftarrow> pop_n 2 vm;
          (if callable then do {
             vm \<leftarrow> push_all [init, meta, tab] vm;
             call_value env loop init 2 vm
           }
           else do { vm \<leftarrow> push tab vm; Some (True, vm) })
        })
     }"

section \<open>Iteration\<close>

text \<open>The global under a name, with the string the lookup allocates.\<close>

definition global_named :: "string \<Rightarrow> vm \<Rightarrow> (val option \<times> vm) option" where
  "global_named name vm =
     (let (a, vm) = alloc (\<lambda>h. copy_string h (bytes_of name)) vm
      in do { r \<leftarrow> global_get a vm; Some (r, vm) })"

definition get_iterator_next_function :: "val \<Rightarrow> vm \<Rightarrow> (val \<times> vm) option" where
  "get_iterator_next_function v vm =
     do {
       k \<leftarrow> type_of (vheap vm) v;
       (if k = TThread then do {
          (r, vm) \<leftarrow> global_named ''gen_next'' vm;
          c \<leftarrow> is_callable (vheap vm) (or_nil r);
          Some (if c then or_nil r else VNil, vm)
        }
        else do {
          own \<leftarrow> (if k = TTable then do {
              a \<leftarrow> as_obj v; mm \<leftarrow> mm_next (vnames vm); r \<leftarrow> heap_get a mm vm; Some (or_nil r)
            } else Some VNil);
          c \<leftarrow> is_callable (vheap vm) own;
          (if c then Some (own, vm)
           else do {
             m \<leftarrow> get_metamethod_cached v (mm_next (vnames vm)) vm;
             c \<leftarrow> is_callable (vheap vm) m;
             Some (if c then m else VNil, vm)
           })
        })
     }"

definition vm_handle_op_iter_prep :: "vm \<Rightarrow> (bool \<times> vm) option" where
  "vm_handle_op_iter_prep vm =
     do {
       v \<leftarrow> peek 0 vm;
       (nxt, vm) \<leftarrow> get_iterator_next_function v vm;
       c \<leftarrow> is_callable (vheap vm) nxt;
       k \<leftarrow> type_of (vheap vm) v;
       (if c then do { vm \<leftarrow> pop_n 1 vm; vm \<leftarrow> push_all [nxt, v, VNil] vm; Some (True, vm) }
        else if k = TTable \<or> k = TString then do {
          (r, vm) \<leftarrow> global_named ''next'' vm;
          (case r of
             None \<Rightarrow> fail ''Global 'next' not found for implicit iteration.'' vm
           | Some f \<Rightarrow> do {
               c \<leftarrow> is_callable (vheap vm) f;
               (if \<not> c then fail ''Global 'next' is not a function.'' vm
                else do { vm \<leftarrow> pop_n 1 vm; vm \<leftarrow> push_all [f, v, VNil] vm; Some (True, vm) })
             })
        }
        else fail ''Value is not iterable.'' vm)
     }"

definition vm_handle_op_iter_prep_i_pairs :: "vm \<Rightarrow> (bool \<times> vm) option" where
  "vm_handle_op_iter_prep_i_pairs vm =
     do {
       v \<leftarrow> peek 0 vm;
       k \<leftarrow> type_of (vheap vm) v;
       (if k \<noteq> TTable then Some (True, vm)
        else do {
          (r, vm) \<leftarrow> global_named ''inext'' vm;
          (case r of
             None \<Rightarrow> fail ''Global 'inext' not found for implicit iteration.'' vm
           | Some f \<Rightarrow> do {
               c \<leftarrow> is_callable (vheap vm) f;
               (if \<not> c then fail ''Global 'inext' is not a function.'' vm
                else do {
                  vm \<leftarrow> pop_n 1 vm;
                  vm \<leftarrow> push_all [f, v, VNumber (dzero False)] vm;
                  Some (True, vm)
                })
             })
        })
     }"

definition call_global :: "env \<Rightarrow> vm_loop \<Rightarrow> val \<Rightarrow> val list \<Rightarrow> vm \<Rightarrow> (bool \<times> vm) option" where
  "call_global env loop f args vm =
     do {
       vm \<leftarrow> push_all (f # args) vm;
       c \<leftarrow> is_callable (vheap vm) f;
       (if c then call_value env loop f (length args) vm else fail ''Can only call functions.'' vm)
     }"

definition vm_handle_op_range :: "env \<Rightarrow> vm_loop \<Rightarrow> vm \<Rightarrow> (bool \<times> vm) option" where
  "vm_handle_op_range env loop vm =
     do {
       (stop, vm) \<leftarrow> pop vm;
       (start, vm) \<leftarrow> pop vm;
       (r, vm) \<leftarrow> global_named ''range'' vm;
       (case r of
          None \<Rightarrow> fail ''range not found.'' vm
        | Some f \<Rightarrow> call_global env loop f [start, stop] vm)
     }"

section \<open>Slices\<close>

text \<open>The length that negative bounds count from.\<close>

definition slice_length :: "heap \<Rightarrow> val \<Rightarrow> nat option option" where
  "slice_length h v =
     do {
       k \<leftarrow> type_of h v;
       (if k = TTable then do { a \<leftarrow> as_obj v; t \<leftarrow> table_at h a; Some (Some (array_length (otable t))) }
        else if k = TString then do { a \<leftarrow> as_obj v; cs \<leftarrow> string_at h a; Some (Some (length cs)) }
        else Some None)
     }"

text \<open>The bounds that a slice of length \<open>n\<close> is called with: an error message or two numbers.\<close>

definition slice_bounds ::
  "int \<Rightarrow> double \<Rightarrow> val \<Rightarrow> val \<Rightarrow> (string + double \<times> double) option" where
  "slice_bounds n step start stop =
     (let neg = dlt step (dzero False);
          start = (if is_nil start then VNumber (dbl_of_int (if neg then n else 1)) else start);
          stop = (if is_nil stop then VNumber (dbl_of_int (if neg then 1 else n)) else stop)
      in case (start, stop) of
           (VNumber x, VNumber y) \<Rightarrow> do {
             i \<leftarrow> cast_int x;
             j \<leftarrow> cast_int y;
             Some (if \<not> deq (dbl_of_int i) x \<or> \<not> deq (dbl_of_int j) y
                   then Inl ''slice start/end must be integer for '..' syntax.''
                   else Inr (dbl_of_int (if i < 0 then n + i + 1 else i),
                             dbl_of_int (if j < 0 then n + j else j)))
           }
         | _ \<Rightarrow> Some (Inl ''slice start/end must be numbers.''))"

definition slice_builtin ::
  "env \<Rightarrow> vm_loop \<Rightarrow> val \<Rightarrow> val \<Rightarrow> val \<Rightarrow> double \<Rightarrow> vm \<Rightarrow> (bool \<times> vm) option" where
  "slice_builtin env loop v start stop step vm =
     do {
       n \<leftarrow> slice_length (vheap vm) v;
       (case n of
          None \<Rightarrow> fail ''slice expects table or string.'' vm
        | Some n \<Rightarrow> do {
            b \<leftarrow> slice_bounds (int n) step start stop;
            (case b of
               Inl msg \<Rightarrow> fail msg vm
             | Inr (x, y) \<Rightarrow> do {
                 nm \<leftarrow> slice_name (vnames vm);
                 r \<leftarrow> global_get nm vm;
                 (case r of
                    None \<Rightarrow> fail ''slice not found.'' vm
                  | Some f \<Rightarrow> call_global env loop f [v, VNumber x, VNumber y, VNumber step] vm)
               })
          })
     }"

definition vm_handle_op_slice :: "env \<Rightarrow> vm_loop \<Rightarrow> vm \<Rightarrow> (bool \<times> vm) option" where
  "vm_handle_op_slice env loop vm =
     do {
       (step, vm) \<leftarrow> pop vm;
       (stop, vm) \<leftarrow> pop vm;
       (start, vm) \<leftarrow> pop vm;
       (v, vm) \<leftarrow> pop vm;
       (case (if is_nil step then VNumber (dbl_of_int 1) else step) of
          VNumber d \<Rightarrow>
            if deq d (dzero False) then fail ''slice step cannot be 0.'' vm
            else do {
              m \<leftarrow> get_metamethod_cached v (mm_slice (vnames vm)) vm;
              (if is_nil m then slice_builtin env loop v start stop d vm
               else do {
                 c \<leftarrow> is_callable (vheap vm) m;
                 (if \<not> c then fail ''__slice must be a function.'' vm
                  else do {
                    vm \<leftarrow> push_all [m, v, start, stop, VNumber d] vm;
                    call_value env loop m 4 vm
                  })
               })
            }
        | _ \<Rightarrow> fail ''slice step must be a number.'' vm)
     }"

end
