(* ===== verification/Ops_Text.thy ===== *)
theory Ops_Text
  imports Ops_Iter
begin

text \<open>
  Values as text: \<open>print_value\<close> (\<open>src/src/value.c\<close>), \<open>print_object\<close> (\<open>src/src/object.c\<close>),
  \<open>core_tostring\<close> (\<open>src/src/lib/core.c\<close>), string interpolation
  (\<open>src/src/vm/build_string.c\<close>) and \<open>print\<close> (\<open>src/src/vm/ops_print.c\<close>). Tables nest at most six
  levels deep in the output, so cyclic tables are printed too; the recursion is on the levels
  that are left.
\<close>

section \<open>What a table shows\<close>

text \<open>The array part up to its last value, then the live entries other than \<open>__index\<close>.\<close>

definition shown_array :: "val list \<Rightarrow> val list" where
  "shown_array vs = rev (dropWhile is_nil (rev vs))"

definition shown_entries :: "entry list \<Rightarrow> (bytes \<times> val) list" where
  "shown_entries es =
     concat (map (\<lambda>e. case ekey e of
                        None \<Rightarrow> []
                      | Some k \<Rightarrow> if is_nil (evalue e) \<or> kchars k = bytes_of ''__index'' then []
                                  else [(kchars k, evalue e)]) es)"

fun comma_separated :: "bytes list \<Rightarrow> bytes" where
  "comma_separated [] = []"
| "comma_separated [x] = x"
| "comma_separated (x # y # zs) = x @ bytes_of '', '' @ comma_separated (y # zs)"

text \<open>\<open>metatable_name\<close>: the name of a userdata type.\<close>

fun entry_name :: "heap \<Rightarrow> entry list \<Rightarrow> addr option option" where
  "entry_name h [] = Some None"
| "entry_name h (e # es) =
     (case ekey e of
        None \<Rightarrow> entry_name h es
      | Some k \<Rightarrow>
          if is_nil (evalue e) \<or> kchars k \<noteq> bytes_of ''__name'' then entry_name h es
          else do {
            ty \<leftarrow> type_of h (evalue e);
            (if ty = TString then do { a \<leftarrow> as_obj (evalue e); Some (Some a) } else entry_name h es)
          })"

definition metatable_name :: "heap \<Rightarrow> addr option \<Rightarrow> bytes option option" where
  "metatable_name h mt =
     (case mt of
        None \<Rightarrow> Some None
      | Some m \<Rightarrow> do {
          t \<leftarrow> table_at h m;
          r \<leftarrow> entry_name h (entries (otable t));
          (case r of None \<Rightarrow> Some None | Some a \<Rightarrow> do { cs \<leftarrow> string_at h a; Some (Some cs) })
        })"

section \<open>\<open>print_value\<close>\<close>

definition fn_text :: "heap \<Rightarrow> addr option \<Rightarrow> bytes option" where
  "fn_text h name =
     (case name of
        None \<Rightarrow> Some (bytes_of ''<script>'')
      | Some a \<Rightarrow> do { cs \<leftarrow> string_at h a; Some (bytes_of ''<fn '' @ cstr cs @ bytes_of ''>'') })"

definition native_text :: "heap \<Rightarrow> addr option \<Rightarrow> bytes option" where
  "native_text h name =
     (case name of
        None \<Rightarrow> Some (bytes_of ''<native fn>'')
      | Some a \<Rightarrow> do { cs \<leftarrow> string_at h a; Some (bytes_of ''<native fn '' @ cstr cs @ bytes_of ''>'') })"

definition userdata_text :: "env \<Rightarrow> heap \<Rightarrow> userdata \<Rightarrow> bytes option" where
  "userdata_text env h u =
     do {
       n \<leftarrow> metatable_name h (umetatable u);
       let what = (case n of Some cs \<Rightarrow> cstr cs | None \<Rightarrow> bytes_of ''userdata'');
       Some (bytes_of ''<'' @ what @ bytes_of '' '' @
             (case udata u of Some p \<Rightarrow> pointer_text env p | None \<Rightarrow> bytes_of ''closed'') @ bytes_of ''>'')
     }"

text \<open>Everything but tables.\<close>

definition print_flat :: "env \<Rightarrow> heap \<Rightarrow> val \<Rightarrow> bytes option" where
  "print_flat env h v =
     (case v of
        VNil \<Rightarrow> Some (bytes_of ''nil'')
      | VBool b \<Rightarrow> Some (bytes_of (if b then ''true'' else ''false''))
      | VNumber d \<Rightarrow> Some (print_number d)
      | VObj a \<Rightarrow>
          (case obj_at h a of
             Some (OString cs _) \<Rightarrow> Some ([34] @ cstr cs @ [34])
           | Some (OFunction g) \<Rightarrow> fn_text h (fname g)
           | Some (ONative n) \<Rightarrow> native_text h (nname n)
           | Some (OClosure c) \<Rightarrow> do { g \<leftarrow> fn_at h (clfunction c); fn_text h (fname g) }
           | Some (OUpvalue _) \<Rightarrow> Some (bytes_of ''upvalue'')
           | Some (OThread _) \<Rightarrow> Some (bytes_of ''thread'')
           | Some (OUserdata u) \<Rightarrow> userdata_text env h u
           | Some (OBoundMethod _ _) \<Rightarrow> Some (bytes_of ''<bound method>'')
           | _ \<Rightarrow> None))"

primrec print_value_rec :: "nat \<Rightarrow> env \<Rightarrow> heap \<Rightarrow> val \<Rightarrow> bytes option" where
  "print_value_rec 0 env h v =
     do {
       k \<leftarrow> type_of h v;
       (if k = TTable then Some (bytes_of ''...'') else print_flat env h v)
     }"
| "print_value_rec (Suc n) env h v =
     do {
       k \<leftarrow> type_of h v;
       (if k \<noteq> TTable then print_flat env h v
        else do {
          a \<leftarrow> as_obj v;
          t \<leftarrow> table_at h a;
          xs \<leftarrow> those (map (print_value_rec n env h) (shown_array (tarray (otable t))));
          ys \<leftarrow> those (map (\<lambda>(k, v). do {
                   s \<leftarrow> print_value_rec n env h v; Some (cstr k @ bytes_of '': '' @ s) })
                 (shown_entries (entries (otable t))));
          Some (bytes_of ''{'' @ comma_separated (xs @ ys) @ bytes_of ''}'')
        })
     }"

definition print_value :: "env \<Rightarrow> heap \<Rightarrow> val \<Rightarrow> bytes option" where
  "print_value env h v = print_value_rec 6 env h v"

definition write_out :: "bytes \<Rightarrow> vm \<Rightarrow> vm" where
  "write_out bs vm = vm\<lparr>out := out vm @ bs\<rparr>"

section \<open>\<open>core_tostring\<close>\<close>

text \<open>Whether \<open>format_value\<close> finds a closure under \<open>__str\<close>; the key string it allocates stays.\<close>

definition has_custom_text :: "objtable \<Rightarrow> vm \<Rightarrow> (bool \<times> vm) option" where
  "has_custom_text t vm =
     (case ometatable t of
        None \<Rightarrow> Some (False, vm)
      | Some mt \<Rightarrow> do {
          let (a, vm) = alloc (\<lambda>h. copy_string h (bytes_of ''__str'')) vm;
          r \<leftarrow> heap_get mt a vm;
          k \<leftarrow> type_of (vheap vm) (or_nil r);
          Some (k = TClosure, vm)
        })"

definition format_userdata :: "heap \<Rightarrow> userdata \<Rightarrow> bytes option" where
  "format_userdata h u =
     do {
       n \<leftarrow> metatable_name h (umetatable u);
       let what = (case n of Some cs \<Rightarrow> cs | None \<Rightarrow> bytes_of ''userdata'');
       Some (bytes_of ''<'' @ what @ (if udata u = None then bytes_of '' closed>'' else bytes_of ''>''))
     }"

definition format_flat :: "heap \<Rightarrow> val \<Rightarrow> bytes option" where
  "format_flat h v =
     (case v of
        VNil \<Rightarrow> Some (bytes_of ''nil'')
      | VBool b \<Rightarrow> Some (bytes_of (if b then ''true'' else ''false''))
      | VNumber d \<Rightarrow> Some (fmt_g 14 d)
      | VObj a \<Rightarrow>
          (case obj_at h a of
             None \<Rightarrow> None
           | Some (OString cs _) \<Rightarrow> Some ([34] @ cs @ [34])
           | Some (OUserdata u) \<Rightarrow> format_userdata h u
           | Some (ONative n) \<Rightarrow>
               (case nname n of
                  None \<Rightarrow> Some (bytes_of ''<native fn>'')
                | Some s \<Rightarrow> do {
                    cs \<leftarrow> string_at h s; Some (bytes_of ''<native fn '' @ cs @ bytes_of ''>'')
                  })
           | Some _ \<Rightarrow> Some (bytes_of ''<object>'')))"

text \<open>The elements of a table one after the other, with their prefixes.\<close>

fun format_items ::
  "(val \<Rightarrow> vm \<Rightarrow> (bytes \<times> vm) option) \<Rightarrow> (bytes \<times> val) list \<Rightarrow> vm \<Rightarrow> (bytes list \<times> vm) option" where
  "format_items f [] vm = Some ([], vm)"
| "format_items f ((p, v) # xs) vm =
     do { (s, vm) \<leftarrow> f v vm; (ss, vm) \<leftarrow> format_items f xs vm; Some ((p @ s) # ss, vm) }"

definition format_prefixes :: "table \<Rightarrow> (bytes \<times> val) list" where
  "format_prefixes t =
     map (\<lambda>v. ([], v)) (shown_array (tarray t)) @
     map (\<lambda>(k, v). (k @ bytes_of '': '', v)) (shown_entries (entries t))"

text \<open>\<open>format_value\<close> at depth \<open>6 - n\<close>\<close>

primrec format_value :: "nat \<Rightarrow> val \<Rightarrow> vm \<Rightarrow> (bytes \<times> vm) option" where
  "format_value 0 v vm = Some (bytes_of ''...'', vm)"
| "format_value (Suc n) v vm =
     do {
       k \<leftarrow> type_of (vheap vm) v;
       (if k \<noteq> TTable then do { s \<leftarrow> format_flat (vheap vm) v; Some (s, vm) }
        else do {
          a \<leftarrow> as_obj v;
          t \<leftarrow> table_at (vheap vm) a;
          (custom, vm) \<leftarrow> has_custom_text t vm;
          (if custom then Some (bytes_of (if n = 5 then ''<table>'' else ''<custom>''), vm)
           else do {
             (ss, vm) \<leftarrow> format_items (format_value n) (format_prefixes (otable t)) vm;
             Some (bytes_of ''{'' @ comma_separated ss @ bytes_of ''}'', vm)
           })
        })
     }"

text \<open>
  The \<open>__str\<close> metamethod of a value, if it can be called. In \<open>core_tostring\<close> the call runs with
  its own copies of \<open>frame\<close> and \<open>ip\<close>, taken from the top frame, and those of the caller stay.
\<close>

definition str_method :: "val \<Rightarrow> vm \<Rightarrow> val option option" where
  "str_method v vm =
     do {
       m \<leftarrow> metatable_of (vheap vm) v;
       (case m of
          None \<Rightarrow> Some None
        | Some mt \<Rightarrow> do {
            mm \<leftarrow> mm_str (vnames vm);
            r \<leftarrow> heap_get mt mm vm;
            c \<leftarrow> is_callable (vheap vm) (or_nil r);
            Some (if c then r else None)
          })
     }"

definition push_string :: "bytes \<Rightarrow> vm \<Rightarrow> vm option" where
  "push_string cs vm = (let (v, vm) = string_val cs vm in push v vm)"

definition call_str :: "env \<Rightarrow> vm_loop \<Rightarrow> val \<Rightarrow> val \<Rightarrow> vm \<Rightarrow> vm option" where
  "call_str env loop m v vm =
     do {
       t \<leftarrow> cur vm;
       k \<leftarrow> type_of (vheap vm) m;
       vm \<leftarrow> load_frame vm;
       vm \<leftarrow> push_all [m, v] vm;
       (ok, vm) \<leftarrow> call_value env loop m 1 vm;
       (if \<not> ok then push_string (bytes_of ''<error>'') vm
        else if k \<noteq> TClosure then Some vm
        else do {
          (r, vm) \<leftarrow> loop (frame_count t) vm;
          (if r = INTERPRET_OK then Some vm else push_string (bytes_of ''<error>'') vm)
        })
     }"

definition core_tostring :: "env \<Rightarrow> vm_loop \<Rightarrow> val list \<Rightarrow> vm \<Rightarrow> (bool \<times> vm) option" where
  "core_tostring env loop args vm =
     (if length args \<noteq> 1 \<and> length args \<noteq> 2 then fail ''str() expects 1 argument.'' vm
      else do {
        let v = last args;
        k \<leftarrow> type_of (vheap vm) v;
        (if k = TString then do { vm \<leftarrow> push v vm; Some (True, vm) }
         else do {
           m \<leftarrow> str_method v vm;
           (case m of
              Some m \<Rightarrow> do {
                vm' \<leftarrow> call_str env loop m v vm;
                Some (True, vm'\<lparr>cframe := cframe vm, ip := ip vm\<rparr>)
              }
            | None \<Rightarrow> do {
                (s, vm) \<leftarrow> format_value 6 v vm;
                vm \<leftarrow> push_string s vm;
                Some (True, vm)
              })
         })
      })"

section \<open>Interpolation\<close>

text \<open>
  \<open>vm_build_string\<close>: the text of the parts from the lowest on the stack to the highest, each read
  by its distance from the stack top at that moment. \<open>None\<close> in the result is the C result 0.
\<close>

definition part_text :: "env \<Rightarrow> vm_loop \<Rightarrow> val \<Rightarrow> vm \<Rightarrow> (bytes option \<times> vm) option" where
  "part_text env loop part vm =
     do {
       k \<leftarrow> type_of (vheap vm) part;
       (case part of
          VNil \<Rightarrow> Some (Some (bytes_of ''nil''), vm)
        | VBool b \<Rightarrow> Some (Some (bytes_of (if b then ''true'' else ''false'')), vm)
        | VNumber d \<Rightarrow> do { s \<leftarrow> number_text d; Some (Some s, vm) }
        | VObj a \<Rightarrow>
            if k = TString then do { cs \<leftarrow> string_at (vheap vm) a; Some (Some cs, vm) }
            else do {
              (ok, vm) \<leftarrow> core_tostring env loop [part] vm;
              (if \<not> ok then Some (None, vm)
               else do {
                 (s, vm) \<leftarrow> pop vm;
                 k \<leftarrow> type_of (vheap vm) s;
                 (if k = TString
                  then do { a \<leftarrow> as_obj s; cs \<leftarrow> string_at (vheap vm) a; Some (Some cs, vm) }
                  else do { (_, vm) \<leftarrow> fail ''str() must return a string.'' vm; Some (None, vm) })
               })
            })
     }"

fun build_parts :: "env \<Rightarrow> vm_loop \<Rightarrow> nat \<Rightarrow> bytes \<Rightarrow> vm \<Rightarrow> (bytes option \<times> vm) option" where
  "build_parts env loop 0 buf vm = Some (Some buf, vm)"
| "build_parts env loop (Suc i) buf vm =
     do {
       part \<leftarrow> peek i vm;
       (s, vm) \<leftarrow> part_text env loop part vm;
       (case s of
          None \<Rightarrow> Some (None, vm)
        | Some s \<Rightarrow> build_parts env loop i (buf @ s) vm)
     }"

definition vm_build_string :: "env \<Rightarrow> vm_loop \<Rightarrow> nat \<Rightarrow> vm \<Rightarrow> (bool \<times> vm) option" where
  "vm_build_string env loop n vm =
     do {
       (s, vm) \<leftarrow> build_parts env loop n [] vm;
       (case s of
          None \<Rightarrow> Some (False, vm)
        | Some s \<Rightarrow> do { vm \<leftarrow> pop_n n vm; vm \<leftarrow> push_string s vm; Some (True, vm) })
     }"

section \<open>Print\<close>

text \<open>
  The C status: \<open>Printed\<close> is 1, \<open>PrintStop\<close> is 0 with the result of the nested loop, \<open>PrintError\<close>
  is -1. After a closure under \<open>__str\<close>, \<open>frame\<close> and \<open>ip\<close> still belong to its popped frame.
\<close>

datatype print_status = Printed | PrintStop interpret_result | PrintError

definition print_plain :: "env \<Rightarrow> val \<Rightarrow> vm \<Rightarrow> vm option" where
  "print_plain env v vm =
     do {
       k \<leftarrow> type_of (vheap vm) v;
       s \<leftarrow> (if k = TString then do { a \<leftarrow> as_obj v; string_at (vheap vm) a }
             else print_value env (vheap vm) v);
       Some (write_out s vm)
     }"

definition vm_print_value :: "env \<Rightarrow> vm_loop \<Rightarrow> val \<Rightarrow> vm \<Rightarrow> (print_status \<times> vm) option" where
  "vm_print_value env loop v vm =
     do {
       m \<leftarrow> str_method v vm;
       (case m of
          None \<Rightarrow> do { vm \<leftarrow> print_plain env v vm; Some (Printed, vm) }
        | Some m \<Rightarrow> do {
            t \<leftarrow> cur vm;
            k \<leftarrow> type_of (vheap vm) m;
            vm \<leftarrow> push_all [m, v] vm;
            vm \<leftarrow> save_ip vm;
            (ok, vm) \<leftarrow> call_value env loop m 1 vm;
            (if \<not> ok then Some (PrintError, vm)
             else do {
               (r, vm) \<leftarrow> (if k = TClosure then loop (frame_count t) vm else Some (INTERPRET_OK, vm));
               (if r \<noteq> INTERPRET_OK then Some (PrintStop r, vm)
                else do {
                  (s, vm) \<leftarrow> pop vm;
                  vm \<leftarrow> print_plain env s vm;
                  Some (Printed, vm)
                })
             })
          })
     }"

fun print_values :: "env \<Rightarrow> vm_loop \<Rightarrow> val list \<Rightarrow> vm \<Rightarrow> (print_status \<times> vm) option" where
  "print_values env loop [] vm = Some (Printed, write_out [10] vm)"
| "print_values env loop (v # vs) vm =
     do {
       (st, vm) \<leftarrow> vm_print_value env loop v vm;
       (if st \<noteq> Printed then Some (st, vm)
        else print_values env loop vs (if vs = [] then vm else write_out (bytes_of '' '') vm))
     }"

definition vm_handle_op_print :: "env \<Rightarrow> vm_loop \<Rightarrow> nat \<Rightarrow> vm \<Rightarrow> (print_status \<times> vm) option" where
  "vm_handle_op_print env loop arg_count vm =
     do { vs \<leftarrow> read_args arg_count vm; vm \<leftarrow> drop_n arg_count vm; print_values env loop vs vm }"

end
