(* ===== verification/Ops_Import.thy ===== *)
theory Ops_Import
  imports Ops_Text
begin

text \<open>
  Importing modules (\<open>src/src/vm/ops_import.c\<close>, \<open>src/src/vm/ops_import_star.c\<close>). Native modules,
  the file system and the compiler are parameters.
\<close>

section \<open>Finding the source of a module\<close>

text \<open>The first 250 bytes of the name, with dots as path separators, as a C string.\<close>

definition module_path :: "bytes \<Rightarrow> bytes" where
  "module_path name = cstr (map (\<lambda>b. if b = 46 then 47 else b) (take 250 name))"

definition module_candidates :: "bytes \<Rightarrow> bytes list" where
  "module_candidates p =
     [p @ bytes_of ''.toi'', p @ bytes_of ''/__.toi'',
      bytes_of ''lib/'' @ p @ bytes_of ''.toi'', bytes_of ''lib/'' @ p @ bytes_of ''/__.toi'']"

fun open_first :: "(bytes \<Rightarrow> bytes option) \<Rightarrow> bytes list \<Rightarrow> (bytes \<times> bytes) option" where
  "open_first rd [] = None"
| "open_first rd (f # fs) = (case rd f of Some src \<Rightarrow> Some (f, src) | None \<Rightarrow> open_first rd fs)"

definition not_found_msg :: "bytes \<Rightarrow> bytes" where
  "not_found_msg name =
     (let p = module_path name
      in [27] @ bytes_of ''[31mCould not open module ''  @ [39] @ cstr name @ [39, 27] @ bytes_of ''[0m (tried '' @
         [39] @ p @ bytes_of ''.toi', '' @ [39] @ p @ bytes_of ''/__.toi', 'lib/'' @ p @
         bytes_of ''.toi', and 'lib/'' @ p @ bytes_of ''/__.toi').'' @ [10])"

section \<open>The instructions\<close>

text \<open>\<open>restore_saved_module_context\<close>, on the values that \<open>vm_handle_op_import\<close> has saved.\<close>

definition restore_saved_module_context ::
  "val option \<Rightarrow> val option \<Rightarrow> val option \<Rightarrow> vm \<Rightarrow> vm option" where
  "restore_saved_module_context name file main vm =
     do {
       vm \<leftarrow> restore_global (name \<noteq> None) (module_name_key (vnames vm)) (or_nil name) vm;
       vm \<leftarrow> restore_global (file \<noteq> None) (module_file_key (vnames vm)) (or_nil file) vm;
       restore_global (main \<noteq> None) (module_main_key (vnames vm)) (or_nil main) vm
     }"

definition global_under :: "addr option \<Rightarrow> vm \<Rightarrow> val option option" where
  "global_under key vm = do { k \<leftarrow> key; global_get k vm }"

text \<open>The compiled module is called with its name, file and \<open>__main\<close> set.\<close>

definition enter_module :: "addr \<Rightarrow> bytes \<Rightarrow> addr \<Rightarrow> vm \<Rightarrow> (interpret_result \<times> vm) option" where
  "enter_module name filename f vm =
     do {
       let (cl, vm) = alloc (\<lambda>h. new_closure h f) vm;
       vm \<leftarrow> push (VObj cl) vm;
       prev_name \<leftarrow> global_under (module_name_key (vnames vm)) vm;
       prev_file \<leftarrow> global_under (module_file_key (vnames vm)) vm;
       prev_main \<leftarrow> global_under (module_main_key (vnames vm)) vm;
       let (file, vm) = string_val filename vm;
       vm \<leftarrow> set_global_value (module_name_key (vnames vm)) (VObj name) vm;
       vm \<leftarrow> set_global_value (module_file_key (vnames vm)) file vm;
       vm \<leftarrow> set_global_value (module_main_key (vnames vm)) (VBool False) vm;
       vm \<leftarrow> save_ip vm;
       (ok, vm) \<leftarrow> call cl 0 vm;
       (if \<not> ok then do {
          vm \<leftarrow> restore_saved_module_context prev_name prev_file prev_main vm;
          Some (INTERPRET_RUNTIME_ERROR, vm)
        }
        else do {
          vm \<leftarrow> load_frame vm;
          fr \<leftarrow> frame_get (cframe vm) vm;
          vm \<leftarrow> frame_put (cframe vm)
            (fr\<lparr>frestore := True, fcache := True, fhad_name := prev_name \<noteq> None,
                fhad_file := prev_file \<noteq> None, fhad_main := prev_main \<noteq> None,
                fcache_name := VObj name, fprev_name := or_nil prev_name,
                fprev_file := or_nil prev_file, fprev_main := or_nil prev_main\<rparr>) vm;
          Some (INTERPRET_OK, vm)
        })
     }"

definition vm_handle_op_import :: "env \<Rightarrow> addr \<Rightarrow> vm \<Rightarrow> (interpret_result \<times> vm) option" where
  "vm_handle_op_import env name vm =
     do {
       k \<leftarrow> key_at (vheap vm) name;
       cached \<leftarrow> table_get (modules vm) k;
       (case cached of
          Some m \<Rightarrow> do { vm \<leftarrow> push m vm; Some (INTERPRET_OK, vm) }
        | None \<Rightarrow> do {
            (ok, vm) \<leftarrow> load_native_module env (cstr (kchars k)) vm;
            (if ok then Some (INTERPRET_OK, vm)
             else
               case open_first (read_file env) (module_candidates (module_path (kchars k))) of
                 None \<Rightarrow> Some (INTERPRET_RUNTIME_ERROR, write_out (not_found_msg (kchars k)) vm)
               | Some (filename, src) \<Rightarrow> do {
                   (f, vm) \<leftarrow> compile env (cstr src) vm;
                   (case f of
                      None \<Rightarrow> Some (INTERPRET_COMPILE_ERROR,
                        write_out (bytes_of ''Failed to compile module '' @ [39] @ cstr (kchars k) @
                                   [39, 46, 10]) vm)
                    | Some f \<Rightarrow> enter_module name filename f vm)
                 })
          })
     }"

text \<open>\<open>from m import *\<close>: every live string key of the table becomes a global.\<close>

fun import_entries :: "entry list \<Rightarrow> vm \<Rightarrow> vm option" where
  "import_entries [] vm = Some vm"
| "import_entries (e # es) vm =
     (case ekey e of
        None \<Rightarrow> import_entries es vm
      | Some k \<Rightarrow>
          if is_nil (evalue e) then import_entries es vm
          else do { (t, _) \<leftarrow> table_set (globals vm) k (evalue e); import_entries es (vm\<lparr>globals := t\<rparr>) })"

definition vm_handle_op_import_star :: "env \<Rightarrow> vm \<Rightarrow> (bool \<times> vm) option" where
  "vm_handle_op_import_star env vm =
     do {
       (m, vm) \<leftarrow> pop vm;
       k \<leftarrow> type_of (vheap vm) m;
       (if k \<noteq> TTable then fail ''from ... import * expects module table export.'' vm
        else do {
          a \<leftarrow> as_obj m;
          t \<leftarrow> table_at (vheap vm) a;
          vm \<leftarrow> import_entries (entries (otable t)) vm;
          vm \<leftarrow> maybe_collect_garbage env vm;
          Some (True, vm)
        })
     }"

end
