(* ===== verification/Vm_Run.thy ===== *)
theory Vm_Run
  imports Ops_Import
begin

text \<open>
  The interpreter loop (\<open>vm_run\<close> and its entry points in \<open>src/src/vm.c\<close>). \<open>step\<close> is the \<open>switch\<close>
  over the instruction byte, \<open>vm_run\<close> repeats it. A run may go on for ever and may start nested
  runs, so both are counted by fuel: \<open>None\<close> stands for undefined behaviour or for a run that
  needs more fuel.
\<close>

section \<open>One instruction\<close>

definition checked :: "(bool \<times> vm) option \<Rightarrow> outcome option" where
  "checked r = do { (ok, vm) \<leftarrow> r; Some (if ok then Go vm else Raise vm) }"

definition go_on :: "vm option \<Rightarrow> outcome option" where
  "go_on r = map_option Go r"

definition with_byte :: "(nat \<Rightarrow> vm \<Rightarrow> (bool \<times> vm) option) \<Rightarrow> vm \<Rightarrow> outcome option" where
  "with_byte f vm = do { (n, vm) \<leftarrow> read_byte vm; checked (f (unat n) vm) }"

definition with_constant :: "(val \<Rightarrow> vm \<Rightarrow> (bool \<times> vm) option) \<Rightarrow> vm \<Rightarrow> outcome option" where
  "with_constant f vm = do { (b, vm) \<leftarrow> read_constant vm; checked (f b vm) }"

text \<open>\<open>OP_PRINT\<close> and \<open>OP_IMPORT\<close> can end the loop.\<close>

definition op_print :: "env \<Rightarrow> vm_loop \<Rightarrow> vm \<Rightarrow> outcome option" where
  "op_print env loop vm =
     do {
       (n, vm) \<leftarrow> read_byte vm;
       (st, vm) \<leftarrow> vm_handle_op_print env loop (unat n) vm;
       Some (case st of Printed \<Rightarrow> Go vm | PrintStop r \<Rightarrow> Stop r vm | PrintError \<Rightarrow> Raise vm)
     }"

definition op_import :: "env \<Rightarrow> vm \<Rightarrow> outcome option" where
  "op_import env vm =
     do {
       (name, vm) \<leftarrow> read_string vm;
       (r, vm) \<leftarrow> vm_handle_op_import env name vm;
       Some (case r of INTERPRET_OK \<Rightarrow> Go vm | INTERPRET_RUNTIME_ERROR \<Rightarrow> Raise vm
             | INTERPRET_COMPILE_ERROR \<Rightarrow> Stop INTERPRET_COMPILE_ERROR vm)
     }"

text \<open>
  \<open>f(a, *t)\<close>: the array part of \<open>t\<close> becomes positional arguments; a non-empty hash part (by its
  \<open>count\<close>, deleted keys included) makes it a named call with a copy of the hash part.
\<close>

definition op_call_expand :: "env \<Rightarrow> vm_loop \<Rightarrow> nat \<Rightarrow> vm \<Rightarrow> (bool \<times> vm) option" where
  "op_call_expand env loop fixed vm =
     do {
       spread \<leftarrow> peek 0 vm;
       k \<leftarrow> type_of (vheap vm) spread;
       (if k \<noteq> TTable then fail ''Spread argument must be a table.'' vm
        else do {
          a \<leftarrow> as_obj spread;
          t \<leftarrow> table_at (vheap vm) a;
          let n = array_length (otable t);
          (if 255 < fixed + n then fail ''Can't have more than 255 arguments.'' vm
           else do {
             vm \<leftarrow> pop_n 1 vm;
             vm \<leftarrow> push_all (take n (tarray (otable t))) vm;
             (if 0 < tcount (otable t) then do {
                let (na, vm) = alloc new_table vm;
                named \<leftarrow> table_add_all (otable t) init_table;
                vm \<leftarrow> put_table na named vm;
                vm \<leftarrow> push (VObj na) vm;
                (if 255 < fixed + n + 1 then fail ''Can't have more than 255 arguments.'' vm
                 else invoke_call_with_named_arg_count env loop (fixed + n + 1) vm)
              }
              else invoke_call_with_arg_count env loop (fixed + n) vm)
           })
        })
     }"

text \<open>The \<open>switch\<close>. An unknown instruction does nothing.\<close>

definition step :: "env \<Rightarrow> vm_loop \<Rightarrow> nat \<Rightarrow> byte \<Rightarrow> vm \<Rightarrow> outcome option" where
  "step env loop min_frame_count b vm =
     (if b = OP_TRY then checked (vm_handle_op_try vm)
      else if b = OP_END_TRY then go_on (vm_handle_op_end_try vm)
      else if b = OP_END_FINALLY then checked (vm_handle_op_end_finally vm)
      else if b = OP_THROW then map_option Raise (vm_handle_op_throw vm)
      else if b = OP_CONSTANT then go_on (vm_handle_op_constant env vm)
      else if b = OP_BUILD_STRING then with_byte (vm_build_string env loop) vm
      else if b = OP_NIL then go_on (push VNil vm)
      else if b = OP_TRUE then go_on (push (VBool True) vm)
      else if b = OP_FALSE then go_on (push (VBool False) vm)
      else if b = OP_POP then go_on (pop_n 1 vm)
      else if b = OP_GET_GLOBAL then checked (vm_handle_op_get_global vm)
      else if b = OP_DEFINE_GLOBAL then go_on (vm_handle_op_define_global env vm)
      else if b = OP_SET_GLOBAL then go_on (vm_handle_op_set_global env vm)
      else if b = OP_DELETE_GLOBAL then checked (vm_handle_op_delete_global vm)
      else if b = OP_GET_LOCAL then go_on (vm_handle_op_get_local vm)
      else if b = OP_SET_LOCAL then go_on (vm_handle_op_set_local vm)
      else if b = OP_ADD_SET_LOCAL then checked (vm_handle_op_add_set_local vm)
      else if b = OP_SUB_SET_LOCAL then checked (vm_handle_op_sub_set_local vm)
      else if b = OP_MUL_SET_LOCAL then checked (vm_handle_op_mul_set_local vm)
      else if b = OP_DIV_SET_LOCAL then checked (vm_handle_op_div_set_local vm)
      else if b = OP_MOD_SET_LOCAL then checked (vm_handle_op_mod_set_local vm)
      else if b = OP_INC_LOCAL then checked (vm_handle_op_inc_local vm)
      else if b = OP_SUB_LOCAL_CONST then checked (vm_handle_op_sub_local_const vm)
      else if b = OP_MUL_LOCAL_CONST then checked (vm_handle_op_mul_local_const vm)
      else if b = OP_DIV_LOCAL_CONST then checked (vm_handle_op_div_local_const vm)
      else if b = OP_MOD_LOCAL_CONST then checked (vm_handle_op_mod_local_const vm)
      else if b = OP_GET_UPVALUE then go_on (vm_handle_op_get_upvalue vm)
      else if b = OP_SET_UPVALUE then go_on (vm_handle_op_set_upvalue vm)
      else if b = OP_CLOSE_UPVALUE then go_on (op_close_upvalue vm)
      else if b = OP_NEW_TABLE then checked (vm_handle_op_new_table env vm)
      else if b = OP_SET_METATABLE then checked (vm_handle_op_set_metatable env loop vm)
      else if b = OP_DUP then go_on (do { v \<leftarrow> peek 0 vm; push v vm })
      else if b = OP_GET_TABLE then checked (vm_handle_op_get_table env loop vm)
      else if b = OP_GET_META_TABLE then checked (vm_handle_op_get_meta_table env vm)
      else if b = OP_SET_TABLE then checked (vm_handle_op_set_table env loop vm)
      else if b = OP_DELETE_TABLE then checked (vm_handle_op_delete_table vm)
      else if b = OP_PRINT then op_print env loop vm
      else if b = OP_JUMP then go_on (vm_handle_op_jump vm)
      else if b = OP_JUMP_IF_FALSE then go_on (vm_handle_op_jump_if_false vm)
      else if b = OP_JUMP_IF_TRUE then go_on (vm_handle_op_jump_if_true vm)
      else if b = OP_LOOP then go_on (vm_handle_op_loop vm)
      else if b = OP_CALL then with_byte (invoke_call_with_arg_count env loop) vm
      else if b = OP_CALL0 then checked (invoke_call_with_arg_count env loop 0 vm)
      else if b = OP_CALL1 then checked (invoke_call_with_arg_count env loop 1 vm)
      else if b = OP_CALL2 then checked (invoke_call_with_arg_count env loop 2 vm)
      else if b = OP_CALL_NAMED then with_byte (invoke_call_with_named_arg_count env loop) vm
      else if b = OP_CALL_EXPAND then with_byte (op_call_expand env loop) vm
      else if b = OP_ITER_PREP then checked (vm_handle_op_iter_prep vm)
      else if b = OP_ITER_PREP_IPAIRS then checked (vm_handle_op_iter_prep_i_pairs vm)
      else if b = OP_RANGE then checked (vm_handle_op_range env loop vm)
      else if b = OP_FOR_PREP then checked (vm_handle_op_for_prep vm)
      else if b = OP_FOR_LOOP then checked (vm_handle_op_for_loop vm)
      else if b = OP_SLICE then checked (vm_handle_op_slice env loop vm)
      else if b = OP_CLOSURE then go_on (op_closure vm)
      else if b = OP_RETURN then op_return min_frame_count vm
      else if b = OP_RETURN_N then op_return_n min_frame_count vm
      else if b = OP_ADJUST_STACK then go_on (op_adjust_stack vm)
      else if b = OP_UNPACK then checked (vm_handle_op_unpack vm)
      else if b = OP_ADD_CONST then with_constant vm_handle_op_add_const vm
      else if b = OP_ADD then checked (vm_handle_op_add vm)
      else if b = OP_ADD_INPLACE then checked (vm_handle_op_add_inplace vm)
      else if b = OP_SUBTRACT then checked (vm_handle_op_subtract vm)
      else if b = OP_MULTIPLY then checked (vm_handle_op_multiply vm)
      else if b = OP_DIVIDE then checked (vm_handle_op_divide vm)
      else if b = OP_MODULO then checked (vm_handle_op_modulo vm)
      else if b = OP_APPEND then checked (vm_handle_op_append env loop vm)
      else if b = OP_IADD then go_on (vm_handle_op_i_add vm)
      else if b = OP_SUB_CONST then with_constant vm_handle_op_sub_const vm
      else if b = OP_ISUB then go_on (vm_handle_op_i_sub vm)
      else if b = OP_MUL_CONST then with_constant vm_handle_op_mul_const vm
      else if b = OP_IMUL then go_on (vm_handle_op_i_mul vm)
      else if b = OP_DIV_CONST then with_constant vm_handle_op_div_const vm
      else if b = OP_IDIV then go_on (vm_handle_op_i_div vm)
      else if b = OP_NEGATE then go_on (vm_handle_op_negate vm)
      else if b = OP_NOT then go_on (vm_handle_op_not vm)
      else if b = OP_LENGTH then checked (vm_handle_op_length vm)
      else if b = OP_EQUAL then checked (vm_handle_op_equal vm)
      else if b = OP_GREATER then checked (vm_handle_op_greater vm)
      else if b = OP_LESS then checked (vm_handle_op_less vm)
      else if b = OP_HAS then checked (vm_handle_op_has vm)
      else if b = OP_IN then checked (vm_handle_op_in vm)
      else if b = OP_POWER then checked (vm_handle_op_power env vm)
      else if b = OP_INT_DIV then checked (vm_handle_op_int_div vm)
      else if b = OP_IMOD then go_on (vm_handle_op_i_mod vm)
      else if b = OP_FADD then go_on (vm_handle_op_f_add vm)
      else if b = OP_FSUB then go_on (vm_handle_op_f_sub vm)
      else if b = OP_FMUL then go_on (vm_handle_op_f_mul vm)
      else if b = OP_FDIV then go_on (vm_handle_op_f_div vm)
      else if b = OP_FMOD then go_on (vm_handle_op_f_mod vm)
      else if b = OP_MOD_CONST then with_constant vm_handle_op_mod_const vm
      else if b = OP_GC then go_on (collect_garbage env vm)
      else if b = OP_IMPORT then op_import env vm
      else if b = OP_IMPORT_STAR then checked (vm_handle_op_import_star env vm)
      else Some (Go vm))"

section \<open>The loop\<close>

text \<open>The head of the loop: the stop thread, a requested interrupt, or the next instruction.\<close>

definition next_step :: "env \<Rightarrow> vm_loop \<Rightarrow> nat \<Rightarrow> vm \<Rightarrow> outcome option" where
  "next_step env loop min_frame_count vm =
     (if run_stop_thread vm \<noteq> None \<and> current_thread vm = run_stop_thread vm then Some (Stop INTERPRET_OK vm)
      else if interrupt_requested vm
      then map_option Raise (vm_runtime_error (bytes_of ''Interrupted.'') (vm\<lparr>interrupt_requested := False\<rparr>))
      else do { (b, vm) \<leftarrow> read_byte vm; step env loop min_frame_count b vm })"

text \<open>After an instruction: go on, look for an exception handler, or return.\<close>

definition after_step ::
  "(vm \<Rightarrow> (interpret_result \<times> vm) option) \<Rightarrow> outcome \<Rightarrow> (interpret_result \<times> vm) option" where
  "after_step continue r =
     (case r of
        Go vm \<Rightarrow> continue vm
      | Stop r vm \<Rightarrow> Some (r, vm)
      | Raise vm \<Rightarrow> do {
          (handled, vm) \<leftarrow> handle_exception vm;
          (if handled then continue vm else Some (INTERPRET_RUNTIME_ERROR, vm))
        })"

text \<open>
  A call of \<open>vm_run\<close> has its own \<open>frame\<close> and \<open>ip\<close>, which start at the top frame; those of the
  loop around it are the same afterwards.
\<close>

definition own_frame :: "vm_loop \<Rightarrow> vm_loop" where
  "own_frame lp min_frame_count vm =
     do {
       vm' \<leftarrow> load_frame vm;
       (r, vm') \<leftarrow> lp min_frame_count vm';
       Some (r, vm'\<lparr>cframe := cframe vm, ip := ip vm\<rparr>)
     }"

primrec run_loop :: "nat \<Rightarrow> env \<Rightarrow> vm_loop" where
  "run_loop 0 env min_frame_count vm = None"
| "run_loop (Suc n) env min_frame_count vm =
     do {
       r \<leftarrow> next_step env (own_frame (run_loop n env)) min_frame_count vm;
       after_step (run_loop n env min_frame_count) r
     }"

definition vm_run :: "nat \<Rightarrow> env \<Rightarrow> vm_loop" where
  "vm_run n env = own_frame (run_loop n env)"

definition vm_run_until_thread ::
  "nat \<Rightarrow> env \<Rightarrow> nat \<Rightarrow> addr option \<Rightarrow> vm \<Rightarrow> (interpret_result \<times> vm) option" where
  "vm_run_until_thread n env min_frame_count stop_thread vm =
     do {
       (r, vm') \<leftarrow> vm_run n env min_frame_count (vm\<lparr>run_stop_thread := stop_thread\<rparr>);
       Some (r, vm'\<lparr>run_stop_thread := run_stop_thread vm\<rparr>)
     }"

definition vm_request_interrupt :: "vm \<Rightarrow> vm" where
  "vm_request_interrupt vm = vm\<lparr>interrupt_requested := True\<rparr>"

definition vm_interpret :: "nat \<Rightarrow> env \<Rightarrow> addr \<Rightarrow> vm \<Rightarrow> (interpret_result \<times> vm) option" where
  "vm_interpret n env f vm =
     do {
       let (cl, vm) = alloc (\<lambda>h. new_closure h f) vm;
       vm \<leftarrow> push (VObj cl) vm;
       (_, vm) \<leftarrow> call cl 0 vm;
       vm_run n env 0 vm
     }"

section \<open>Starting and stopping\<close>

definition define_native :: "bytes \<Rightarrow> nat \<Rightarrow> vm \<Rightarrow> vm option" where
  "define_native name f vm =
     do {
       let (s, vm) = alloc (\<lambda>h. copy_string h name) vm;
       vm \<leftarrow> push (VObj s) vm;
       let (n, vm) = alloc (\<lambda>h. new_native h f (Some s)) vm;
       vm \<leftarrow> push (VObj n) vm;
       vm \<leftarrow> global_set s (VObj n) vm;
       pop_n 2 vm
     }"

definition no_names :: names where
  "no_names = \<lparr>mm_index = None, mm_newindex = None, mm_str = None, mm_call = None, mm_new = None,
     mm_append = None, mm_next = None, mm_slice = None, str_module_name = None,
     str_upper_name = None, str_lower_name = None, slice_name = None, module_name_key = None,
     module_file_key = None, module_main_key = None\<rparr>"

definition name_in :: "string \<Rightarrow> vm \<Rightarrow> addr option \<times> vm" where
  "name_in s vm = (let (a, vm) = alloc (\<lambda>h. copy_string h (bytes_of s)) vm in (Some a, vm))"

definition init_names :: "vm \<Rightarrow> vm" where
  "init_names vm =
     (let (index, vm) = name_in ''__index'' vm; (newindex, vm) = name_in ''__newindex'' vm;
          (str, vm) = name_in ''__str'' vm; (cl, vm) = name_in ''__call'' vm;
          (nw, vm) = name_in ''__new'' vm; (app, vm) = name_in ''__append'' vm;
          (nxt, vm) = name_in ''__next'' vm; (slice, vm) = name_in ''__slice'' vm;
          (string, vm) = name_in ''string'' vm; (upper, vm) = name_in ''upper'' vm;
          (lower, vm) = name_in ''lower'' vm; (slice_fn, vm) = name_in ''slice'' vm;
          (name, vm) = name_in ''__name'' vm; (file, vm) = name_in ''__file'' vm;
          (main, vm) = name_in ''__main'' vm
      in vm\<lparr>vnames := \<lparr>mm_index = index, mm_newindex = newindex, mm_str = str, mm_call = cl,
            mm_new = nw, mm_append = app, mm_next = nxt, mm_slice = slice, str_module_name = string,
            str_upper_name = upper, str_lower_name = lower, slice_name = slice_fn,
            module_name_key = name, module_file_key = file, module_main_key = main\<rparr>\<rparr>)"

text \<open>\<open>init_vm\<close> on a heap, with the registration of the libraries as an argument.\<close>

definition init_vm :: "(vm \<Rightarrow> vm option) \<Rightarrow> heap \<Rightarrow> vm option" where
  "init_vm register_libs h =
     (let (th, h) = new_thread h;
          vm = \<lparr>vheap = h, current_thread = Some th, gc_parked_threads = None, globals = init_table,
                modules = init_table, disable_gc = False, is_repl = False, vnames = no_names,
                str_upper_fn = VNil, str_lower_fn = VNil, interrupt_requested = False,
                run_stop_thread = None, out = [], err = [], cframe = (th, 0), ip = 0\<rparr>
      in register_libs (init_names vm))"

definition free_vm :: "env \<Rightarrow> vm \<Rightarrow> vm option" where
  "free_vm env vm =
     collect_garbage env (vm\<lparr>globals := init_table, modules := init_table, current_thread := None\<rparr>)"

end
