(* ===== verification/Machine_Facts.thy ===== *)
theory Machine_Facts
  imports Vm_Run
begin

text \<open>
  How the basic operations of the machine act on its state: what an update of one object
  leaves alone, and the stack operations as updates of the current thread. The properties of
  instructions, calls and exceptions rest on these facts.
\<close>

section \<open>Objects\<close>

lemma obj_at_put_obj:
  "obj_at (put_obj h a b) x = (if x = a \<and> obj_at h a \<noteq> None then Some b else obj_at h x)"
  by (auto simp: obj_at_def put_obj_def)

text \<open>What is at an address, by its type.\<close>

lemma at_iff:
  "thread_at h a = Some t \<longleftrightarrow> obj_at h a = Some (OThread t)"
  "fn_at h a = Some g \<longleftrightarrow> obj_at h a = Some (OFunction g)"
  "closure_at h a = Some c \<longleftrightarrow> obj_at h a = Some (OClosure c)"
  "native_at h a = Some n \<longleftrightarrow> obj_at h a = Some (ONative n)"
  "upvalue_at h a = Some u \<longleftrightarrow> obj_at h a = Some (OUpvalue u)"
  "table_at h a = Some ot \<longleftrightarrow> obj_at h a = Some (OTable ot)"
  by (simp_all add: thread_at_def fn_at_def closure_at_def native_at_def upvalue_at_def table_at_def
      split: option.split obj.split)

lemma put_obj_twice [simp]: "put_obj (put_obj h a b) a c = put_obj h a c"
  by (simp add: put_obj_def option.map_comp comp_def)

lemma put_thread_twice [simp]: "put_thread a t (put_thread a u vm) = put_thread a t vm"
  by (simp add: put_thread_def)

lemma put_cur_twice [simp]: "put_cur t (put_cur u vm) = put_cur t vm"
  by (simp add: put_cur_def put_thread_def split: option.split)

lemma cur_Some_iff:
  "cur vm = Some t \<longleftrightarrow> (\<exists>a. current_thread vm = Some a \<and> obj_at (vheap vm) a = Some (OThread t))"
  by (simp add: cur_def at_iff bind_eq_Some_conv)

lemma cur_put_cur [simp]: "cur vm = Some u \<Longrightarrow> cur (put_cur t vm) = Some t"
  by (auto simp: cur_Some_iff put_cur_def put_thread_def obj_at_put_obj)

lemma put_cur_sel [simp]:
  "current_thread (put_cur t vm) = current_thread vm" "globals (put_cur t vm) = globals vm"
  "modules (put_cur t vm) = modules vm" "vnames (put_cur t vm) = vnames vm"
  "cframe (put_cur t vm) = cframe vm" "ip (put_cur t vm) = ip vm"
  "disable_gc (put_cur t vm) = disable_gc vm" "is_repl (put_cur t vm) = is_repl vm"
  "out (put_cur t vm) = out vm" "err (put_cur t vm) = err vm"
  "run_stop_thread (put_cur t vm) = run_stop_thread vm"
  "interrupt_requested (put_cur t vm) = interrupt_requested vm"
  "str_upper_fn (put_cur t vm) = str_upper_fn vm" "str_lower_fn (put_cur t vm) = str_lower_fn vm"
  by (simp_all add: put_cur_def put_thread_def split: option.splits)

text \<open>Updating a thread changes no object of another type.\<close>

lemma obj_at_put_cur:
  assumes "cur vm = Some u"
  shows "obj_at (vheap (put_cur t vm)) x =
    (if current_thread vm = Some x then Some (OThread t) else obj_at (vheap vm) x)"
  using assms by (auto simp: cur_Some_iff put_cur_def put_thread_def obj_at_put_obj)

lemma other_put_cur [simp]:
  assumes "cur vm = Some u"
  shows "fn_at (vheap (put_cur t vm)) x = fn_at (vheap vm) x"
    "closure_at (vheap (put_cur t vm)) x = closure_at (vheap vm) x"
    "native_at (vheap (put_cur t vm)) x = native_at (vheap vm) x"
    "string_at (vheap (put_cur t vm)) x = string_at (vheap vm) x"
    "key_at (vheap (put_cur t vm)) x = key_at (vheap vm) x"
    "table_at (vheap (put_cur t vm)) x = table_at (vheap vm) x"
    "upvalue_at (vheap (put_cur t vm)) x = upvalue_at (vheap vm) x"
    "userdata_at (vheap (put_cur t vm)) x = userdata_at (vheap vm) x"
    "bound_at (vheap (put_cur t vm)) x = bound_at (vheap vm) x"
    "type_of (vheap (put_cur t vm)) v = type_of (vheap vm) v"
  using assms
  by (auto simp: fn_at_def closure_at_def native_at_def string_at_def key_at_def table_at_def
      upvalue_at_def userdata_at_def bound_at_def type_of_def obj_type_def obj_at_put_cur cur_Some_iff
      split: val.splits)

lemma thread_at_put_cur:
  assumes "cur vm = Some u"
  shows "thread_at (vheap (put_cur t vm)) x =
    (if current_thread vm = Some x then Some t else thread_at (vheap vm) x)"
  using assms by (simp add: thread_at_def obj_at_put_cur)

section \<open>The stack\<close>

lemma push_eq:
  "cur vm = Some t \<Longrightarrow> stack_top t < stack_capacity t \<Longrightarrow>
    push v vm = Some (put_cur (t\<lparr>stack := (stack t)(stack_top t \<mapsto> v), stack_top := stack_top t + 1\<rparr>) vm)"
  by (simp add: push_def push_to_def)

lemma push_SomeD:
  assumes "push v vm = Some vm'"
  obtains t where "cur vm = Some t" "stack_top t < stack_capacity t"
    "vm' = put_cur (t\<lparr>stack := (stack t)(stack_top t \<mapsto> v), stack_top := stack_top t + 1\<rparr>) vm"
  using assms by (auto simp: push_def push_to_def bind_eq_Some_conv split: if_splits)

lemma pop_eq:
  "cur vm = Some t \<Longrightarrow> stack_top t = Suc n \<Longrightarrow> stack t n = Some v \<Longrightarrow>
    pop vm = Some (v, put_cur (t\<lparr>stack_top := n\<rparr>) vm)"
  by (simp add: pop_def)

lemma pop_SomeD:
  assumes "pop vm = Some (v, vm')"
  obtains t n where "cur vm = Some t" "stack_top t = Suc n" "stack t n = Some v"
    "vm' = put_cur (t\<lparr>stack_top := n\<rparr>) vm"
proof -
  obtain t where t: "cur vm = Some t" "stack_top t \<noteq> 0" "stack t (stack_top t - 1) = Some v"
    "vm' = put_cur (t\<lparr>stack_top := stack_top t - 1\<rparr>) vm"
    using assms by (auto simp: pop_def bind_eq_Some_conv split: if_splits)
  then show thesis using that [of t "stack_top t - 1"] by simp
qed

lemma peek_eq: "cur vm = Some t \<Longrightarrow> d < stack_top t \<Longrightarrow> peek d vm = stack t (stack_top t - 1 - d)"
  by (simp add: peek_def)

lemma peek_push: "push v vm = Some vm' \<Longrightarrow> peek 0 vm' = Some v"
  by (elim push_SomeD) (simp add: peek_def)

lemma drop_n_eq:
  "cur vm = Some t \<Longrightarrow> n \<le> stack_top t \<Longrightarrow> drop_n n vm = Some (put_cur (t\<lparr>stack_top := stack_top t - n\<rparr>) vm)"
  by (simp add: drop_n_def)

text \<open>The stack after pushing a list.\<close>

fun push_list :: "val list \<Rightarrow> thread \<Rightarrow> thread" where
  "push_list [] t = t"
| "push_list (v # vs) t =
     push_list vs (t\<lparr>stack := (stack t)(stack_top t \<mapsto> v), stack_top := stack_top t + 1\<rparr>)"

lemma push_list_top [simp]: "stack_top (push_list vs t) = stack_top t + length vs"
  by (induction vs arbitrary: t) auto

lemma push_list_cap [simp]: "stack_capacity (push_list vs t) = stack_capacity t"
  by (induction vs arbitrary: t) auto

lemma push_list_sel [simp]:
  "tframes (push_list vs t) = tframes t" "frame_count (push_list vs t) = frame_count t"
  "frame_capacity (push_list vs t) = frame_capacity t" "handlers (push_list vs t) = handlers t"
  "handler_count (push_list vs t) = handler_count t" "open_upvalues (push_list vs t) = open_upvalues t"
  "has_exception (push_list vs t) = has_exception t" "pending (push_list vs t) = pending t"
  "caller (push_list vs t) = caller t" "exception (push_list vs t) = exception t"
  by (induction vs arbitrary: t) auto

lemma push_list_stack:
  "stack (push_list vs t) i =
     (if stack_top t \<le> i \<and> i < stack_top t + length vs then Some (vs ! (i - stack_top t)) else stack t i)"
proof (induction vs arbitrary: t)
  case (Cons v vs)
  then show ?case by (auto simp: nth_Cons' not_le)
qed auto

lemma push_all_eq:
  assumes "cur vm = Some t" "stack_top t + length vs \<le> stack_capacity t"
  shows "push_all vs vm = Some (put_cur (push_list vs t) vm)"
  using assms
proof (induction vs arbitrary: vm t)
  case Nil
  then have "put_cur t vm = vm"
    by (auto simp: cur_Some_iff put_cur_def put_thread_def put_obj_def obj_at_def fun_upd_idem)
  then show ?case by simp
next
  case (Cons v vs)
  then show ?case by (simp add: push_eq)
qed

lemma cur_upd [simp]:
  "cur (vm\<lparr>ip := i\<rparr>) = cur vm" "cur (vm\<lparr>cframe := c\<rparr>) = cur vm" "cur (vm\<lparr>globals := g\<rparr>) = cur vm"
  "cur (vm\<lparr>modules := m\<rparr>) = cur vm" "cur (vm\<lparr>out := bs\<rparr>) = cur vm" "cur (vm\<lparr>err := bs\<rparr>) = cur vm"
  by (simp_all add: cur_def)

lemma put_cur_ip [simp]:
  "put_cur t (vm\<lparr>ip := i\<rparr>) = (put_cur t vm)\<lparr>ip := i\<rparr>"
  "put_cur t (vm\<lparr>cframe := c\<rparr>) = (put_cur t vm)\<lparr>cframe := c\<rparr>"
  "put_cur t (vm\<lparr>globals := gs\<rparr>) = (put_cur t vm)\<lparr>globals := gs\<rparr>"
  by (simp_all add: put_cur_def put_thread_def split: option.split)

lemma put_cur_same: "cur vm = Some t \<Longrightarrow> put_cur t vm = vm"
  by (auto simp: cur_Some_iff put_cur_def put_thread_def put_obj_def obj_at_def fun_upd_idem)

section \<open>Reading the code\<close>

lemma read_byte_SomeD: "read_byte vm = Some (b, vm') \<Longrightarrow> vm' = vm\<lparr>ip := ip vm + 1\<rparr>"
  by (auto simp: read_byte_def bind_eq_Some_conv)

lemma read_short_SomeD: "read_short vm = Some (n, vm') \<Longrightarrow> vm' = vm\<lparr>ip := ip vm + 2\<rparr>"
  by (auto simp: read_short_def bind_eq_Some_conv)

lemma read_constant_SomeD: "read_constant vm = Some (v, vm') \<Longrightarrow> vm' = vm\<lparr>ip := ip vm + 1\<rparr>"
  by (auto simp: read_constant_def bind_eq_Some_conv dest: read_byte_SomeD)

lemma read_string_SomeD: "read_string vm = Some (a, vm') \<Longrightarrow> vm' = vm\<lparr>ip := ip vm + 1\<rparr>"
  by (auto simp: read_string_def bind_eq_Some_conv dest: read_constant_SomeD)

section \<open>Allocation and errors\<close>

text \<open>New objects get addresses that are not in use.\<close>

definition fresh :: "heap \<Rightarrow> bool" where
  "fresh h \<longleftrightarrow> (\<forall>a. hnext h \<le> a \<longrightarrow> cells h a = None)"

lemma fresh_allocate: "fresh h \<Longrightarrow> fresh (snd (allocate_object h b))"
  by (simp add: fresh_def allocate_object_def Let_def)

lemma fresh_copy_string: "fresh h \<Longrightarrow> fresh (snd (copy_string h cs))"
  unfolding copy_string_def allocate_string_def
  by (rule fresh_allocate) (simp add: fresh_def add_bytes_def)

lemma fresh_put_obj [simp]: "fresh (put_obj h a b) \<longleftrightarrow> fresh h"
  by (auto simp: fresh_def put_obj_def)

lemma fresh_put_cur [simp]: "fresh (vheap (put_cur t vm)) \<longleftrightarrow> fresh (vheap vm)"
  by (simp add: put_cur_def put_thread_def split: option.split)

lemma obj_at_allocate:
  assumes "allocate_object h b = (a, h')"
  shows "obj_at h' x = (if x = a then Some b else obj_at h x)" "a = hnext h"
  using assms by (auto simp: allocate_object_def obj_at_def Let_def)

lemma obj_at_add_bytes [simp]: "obj_at (add_bytes n h) x = obj_at h x"
  by (simp add: add_bytes_def obj_at_def)

lemma copy_string_obj:
  assumes "copy_string h cs = (a, h')"
  shows "a = hnext h \<and> (\<forall>x. obj_at h' x = (if x = a then Some (OString cs (hash_string cs)) else obj_at h x))"
  using assms obj_at_allocate
  by (fastforce simp: copy_string_def allocate_string_def)

lemma fresh_None: "fresh h \<Longrightarrow> obj_at h (hnext h) = None"
  by (simp add: fresh_def obj_at_def)

lemma vm_runtime_error_eq:
  assumes "cur vm = Some t" "fresh (vheap vm)"
  obtains a h where "copy_string (vheap vm) (take 1023 msg) = (a, h)" "cur (vm\<lparr>vheap := h\<rparr>) = Some t"
    "vm_runtime_error msg vm =
       Some (put_cur (t\<lparr>has_exception := True, exception := VObj a, last_error := VObj a\<rparr>) (vm\<lparr>vheap := h\<rparr>))"
proof -
  obtain a h where c: "copy_string (vheap vm) (take 1023 msg) = (a, h)"
    by (cases "copy_string (vheap vm) (take 1023 msg)")
  obtain th where th: "current_thread vm = Some th" "obj_at (vheap vm) th = Some (OThread t)"
    using assms(1) by (auto simp: cur_Some_iff)
  then have "th \<noteq> a" using copy_string_obj [OF c] fresh_None [OF assms(2)] by auto
  with th have "cur (vm\<lparr>vheap := h\<rparr>) = Some t"
    using copy_string_obj [OF c] by (simp add: cur_Some_iff)
  then show thesis using c that by (simp add: vm_runtime_error_def string_val_def alloc_def)
qed

lemma fail_raises:
  assumes "cur vm = Some t" "fresh (vheap vm)"
  shows "\<exists>vm' t'. fail_bytes msg vm = Some (False, vm') \<and> cur vm' = Some t' \<and> has_exception t'"
proof -
  obtain a h where "cur (vm\<lparr>vheap := h\<rparr>) = Some t"
    "vm_runtime_error msg vm =
       Some (put_cur (t\<lparr>has_exception := True, exception := VObj a, last_error := VObj a\<rparr>) (vm\<lparr>vheap := h\<rparr>))"
    using vm_runtime_error_eq [OF assms, of msg] by blast
  then show ?thesis by (simp add: fail_bytes_def)
qed

lemma fail_eq: "fail msg = fail_bytes (bytes_of msg)"
  by (simp add: fail_def fail_bytes_def fun_eq_iff)

section \<open>The running function\<close>

lemma frame_get_put_cur:
  assumes "cur vm = Some u" "tframes t = tframes u"
  shows "frame_get r (put_cur t vm) = frame_get r vm"
  using assms by (auto simp: frame_get_def thread_at_put_cur cur_def split: option.splits)

lemma running_fn_put_cur:
  assumes "cur vm = Some u" "tframes t = tframes u"
  shows "running_fn (put_cur t vm) = running_fn vm"
  using assms by (simp add: running_fn_def frame_get_put_cur)

lemma running_fn_ip [simp]: "running_fn (vm\<lparr>ip := i\<rparr>) = running_fn vm"
  by (simp add: running_fn_def frame_get_def)

lemma running_fn_iff:
  "running_fn vm = Some (fa, g) \<longleftrightarrow> (\<exists>t f c.
     obj_at (vheap vm) (fst (cframe vm)) = Some (OThread t) \<and> tframes t (snd (cframe vm)) = Some f \<and>
     obj_at (vheap vm) (fclosure f) = Some (OClosure c) \<and> clfunction c = fa \<and>
     obj_at (vheap vm) fa = Some (OFunction g))"
  by (auto simp: running_fn_def frame_get_def at_iff bind_eq_Some_conv)

lemma obj_at_put_fn:
  "obj_at (vheap (put_fn a g vm)) x =
    (if x = a \<and> obj_at (vheap vm) a \<noteq> None then Some (OFunction g) else obj_at (vheap vm) x)"
  by (simp add: put_fn_def obj_at_put_obj)

lemma put_fn_sel [simp]:
  "current_thread (put_fn a g vm) = current_thread vm" "globals (put_fn a g vm) = globals vm"
  "cframe (put_fn a g vm) = cframe vm" "ip (put_fn a g vm) = ip vm"
  by (simp_all add: put_fn_def)

lemma cur_put_fn:
  assumes "fn_at (vheap vm) a = Some g" "cur vm = Some t"
  shows "cur (put_fn a g' vm) = Some t"
proof -
  obtain b where b: "current_thread vm = Some b" "obj_at (vheap vm) b = Some (OThread t)"
    using assms(2) by (auto simp: cur_Some_iff)
  then have "b \<noteq> a" using assms(1) by (auto simp: at_iff)
  with b show ?thesis by (simp add: cur_Some_iff obj_at_put_fn)
qed

lemma running_fn_put_fn:
  assumes "running_fn vm = Some (fa, g)"
  shows "running_fn (put_fn fa g' vm) = Some (fa, g')"
proof -
  obtain t f c where r: "obj_at (vheap vm) (fst (cframe vm)) = Some (OThread t)"
    "tframes t (snd (cframe vm)) = Some f" "obj_at (vheap vm) (fclosure f) = Some (OClosure c)"
    "clfunction c = fa" "obj_at (vheap vm) fa = Some (OFunction g)"
    using assms unfolding running_fn_iff by blast
  then have "fst (cframe vm) \<noteq> fa" "fclosure f \<noteq> fa" by auto
  then show ?thesis
    unfolding running_fn_iff using r
    by (intro exI [of _ t] exI [of _ f] exI [of _ c]) (simp add: obj_at_put_fn)
qed

lemma key_at_put_fn:
  "fn_at (vheap vm) a = Some g \<Longrightarrow> key_at (vheap (put_fn a g' vm)) x = key_at (vheap vm) x"
  by (auto simp: key_at_def obj_at_put_fn at_iff split: option.splits obj.splits)

lemma string_at_key: "key_at h a = Some k \<Longrightarrow> string_at h a = Some (kchars k)"
  by (auto simp: key_at_def string_at_def split: option.splits obj.splits)

lemma peek_put_cur:
  "cur vm = Some u \<Longrightarrow>
    peek d (put_cur t vm) = (if d < stack_top t then stack t (stack_top t - 1 - d) else None)"
  by (simp add: peek_def)

end
