(* ===== verification/Lib.thy ===== *)
theory Lib
  imports Machine_Facts Ops_Import
begin

text \<open>
  Native functions (\<open>src/src/lib/libs.h\<close>, \<open>src/src/lib/libs.c\<close>). A native is called with the number
  of its arguments and the stack index of the first: \<open>args[i]\<close> is the slot \<open>base + i\<close> of the current
  thread, just above the top of the stack, so that what a native pushes overwrites first the callee
  and then its own arguments.
\<close>

section \<open>Arguments\<close>

type_synonym native_body = "nat \<Rightarrow> nat \<Rightarrow> vm \<Rightarrow> (bool \<times> vm) option"

definition arg :: "nat \<Rightarrow> nat \<Rightarrow> vm \<Rightarrow> val option" where
  "arg base i vm =
     do { t \<leftarrow> cur vm; (if base + i < stack_capacity t then stack t (base + i) else None) }"

text \<open>\<open>GET_STRING(i)\<close>, \<open>GET_NUMBER(i)\<close> and \<open>GET_TABLE(i)\<close>, after the check of the type.\<close>

definition arg_string :: "nat \<Rightarrow> nat \<Rightarrow> vm \<Rightarrow> bytes option" where
  "arg_string base i vm = do { v \<leftarrow> arg base i vm; a \<leftarrow> as_obj v; string_at (vheap vm) a }"

definition arg_number :: "nat \<Rightarrow> nat \<Rightarrow> vm \<Rightarrow> double option" where
  "arg_number base i vm = do { v \<leftarrow> arg base i vm; as_number v }"

definition arg_obj :: "nat \<Rightarrow> nat \<Rightarrow> vm \<Rightarrow> addr option" where
  "arg_obj base i vm = do { v \<leftarrow> arg base i vm; as_obj v }"

definition arg_table :: "nat \<Rightarrow> nat \<Rightarrow> vm \<Rightarrow> (addr \<times> objtable) option" where
  "arg_table base i vm = do { a \<leftarrow> arg_obj base i vm; t \<leftarrow> table_at (vheap vm) a; Some (a, t) }"

section \<open>Checks of arguments\<close>

text \<open>\<open>ASSERT_ARGC_GE\<close>, \<open>ASSERT_ARGC_EQ\<close> and \<open>ASSERT_TYPE\<close>, in the order a native makes them.\<close>

datatype check = Argc_Ge nat | Argc_Eq nat | Is vtype nat

definition type_word :: "vtype \<Rightarrow> string" where
  "type_word k =
     (case k of TNumber \<Rightarrow> ''number'' | TString \<Rightarrow> ''string'' | TTable \<Rightarrow> ''table'' | TUserdata \<Rightarrow> ''userdata''
      | TThread \<Rightarrow> ''thread'' | _ \<Rightarrow> ''value'')"

definition argument_msg :: "nat \<Rightarrow> string \<Rightarrow> bytes" where
  "argument_msg i what = bytes_of ''Argument '' @ dec_int (int i + 1) @ bytes_of '' must be a '' @ bytes_of what @ bytes_of ''.''"

fun failed_check :: "nat \<Rightarrow> nat \<Rightarrow> vm \<Rightarrow> check \<Rightarrow> bytes option option" where
  "failed_check argc base vm (Argc_Ge n) =
     Some (if argc < n then Some (expected_at_least_msg (int n) '' arguments but got '' argc) else None)"
| "failed_check argc base vm (Argc_Eq n) = Some (if argc \<noteq> n then Some (expected_msg (int n) argc) else None)"
| "failed_check argc base vm (Is k i) =
     (if argc \<le> i then Some (Some (argument_msg i (type_word k)))
      else do {
        v \<leftarrow> arg base i vm;
        k' \<leftarrow> type_of (vheap vm) v;
        Some (if k' = k then None else Some (argument_msg i (type_word k)))
      })"

fun first_failed :: "check list \<Rightarrow> nat \<Rightarrow> nat \<Rightarrow> vm \<Rightarrow> bytes option option" where
  "first_failed [] argc base vm = Some None"
| "first_failed (c # cs) argc base vm =
     do {
       e \<leftarrow> failed_check argc base vm c;
       (case e of None \<Rightarrow> first_failed cs argc base vm | Some msg \<Rightarrow> Some (Some msg))
     }"

definition checked_args :: "check list \<Rightarrow> native_body \<Rightarrow> native_body" where
  "checked_args cs f argc base vm =
     do {
       e \<leftarrow> first_failed cs argc base vm;
       (case e of Some msg \<Rightarrow> fail_bytes msg vm | None \<Rightarrow> f argc base vm)
     }"

section \<open>Results\<close>

text \<open>\<open>RETURN_VAL\<close>, \<open>RETURN_NIL\<close>, \<open>RETURN_STRING\<close> and the like: push and return 1.\<close>

definition return_val :: "val \<Rightarrow> vm \<Rightarrow> (bool \<times> vm) option" where
  "return_val v vm = do { vm \<leftarrow> push v vm; Some (True, vm) }"

definition return_string :: "bytes \<Rightarrow> vm \<Rightarrow> (bool \<times> vm) option" where
  "return_string cs vm = do { vm \<leftarrow> push_string cs vm; Some (True, vm) }"

section \<open>Registration\<close>

text \<open>A new native function under its name in a table.\<close>

definition register_native :: "(addr \<Rightarrow> val \<Rightarrow> vm \<Rightarrow> vm option) \<Rightarrow> string \<times> nat \<Rightarrow> vm \<Rightarrow> vm option" where
  "register_native put f vm =
     (let (name, vm) = alloc (\<lambda>h. copy_string h (bytes_of (fst f))) vm in
      do {
        vm \<leftarrow> push (VObj name) vm;
        let (n, vm) = alloc (\<lambda>h. new_native h (snd f) (Some name)) vm;
        vm \<leftarrow> push (VObj n) vm;
        vm \<leftarrow> put name (VObj n) vm;
        pop_n 2 vm
      })"

fun register_natives :: "(addr \<Rightarrow> val \<Rightarrow> vm \<Rightarrow> vm option) \<Rightarrow> (string \<times> nat) list \<Rightarrow> vm \<Rightarrow> vm option" where
  "register_natives put [] vm = Some vm"
| "register_natives put (f # fs) vm = do { vm \<leftarrow> register_native put f vm; register_natives put fs vm }"

text \<open>\<open>push(key); push(value); table_set(&t->table, key, value); pop; pop\<close>.\<close>

definition set_guarded :: "addr \<Rightarrow> bytes \<Rightarrow> val \<Rightarrow> vm \<Rightarrow> vm option" where
  "set_guarded a key v vm =
     (let (k, vm) = alloc (\<lambda>h. copy_string h key) vm in
      do { vm \<leftarrow> push_all [VObj k, v] vm; vm \<leftarrow> heap_set a k v vm; pop_n 2 vm })"

definition module_get :: "addr \<Rightarrow> vm \<Rightarrow> val option option" where
  "module_get key vm = do { k \<leftarrow> key_at (vheap vm) key; table_get (modules vm) k }"

definition module_set :: "addr \<Rightarrow> val \<Rightarrow> vm \<Rightarrow> vm option" where
  "module_set key v vm =
     do {
       k \<leftarrow> key_at (vheap vm) key;
       (t, _) \<leftarrow> table_set (modules vm) k v;
       Some (vm\<lparr>modules := t\<rparr>)
     }"

definition register_module :: "string option \<Rightarrow> (string \<times> nat) list \<Rightarrow> vm \<Rightarrow> vm option" where
  "register_module name funcs vm =
     (case name of
        None \<Rightarrow> register_natives global_set funcs vm
      | Some name \<Rightarrow>
          let (m, vm) = alloc new_table vm in
          do {
            t \<leftarrow> table_at (vheap vm) m;
            let vm = vm\<lparr>vheap := put_obj (vheap vm) m (OTable (t\<lparr>ois_module := True\<rparr>))\<rparr>;
            vm \<leftarrow> push (VObj m) vm;
            vm \<leftarrow> register_natives (heap_set m) funcs vm;
            let (k, vm) = alloc (\<lambda>h. copy_string h (bytes_of ''__name'')) vm;
            vm \<leftarrow> push (VObj k) vm;
            let (v, vm) = string_val (bytes_of name) vm;
            vm \<leftarrow> push v vm;
            vm \<leftarrow> heap_set m k v vm;
            vm \<leftarrow> pop_n 2 vm;
            vm \<leftarrow> set_guarded m (bytes_of ''__file'') VNil vm;
            vm \<leftarrow> set_guarded m (bytes_of ''__main'') (VBool False) vm;
            let (k, vm) = alloc (\<lambda>h. copy_string h (bytes_of name)) vm;
            vm \<leftarrow> push (VObj k) vm;
            vm \<leftarrow> module_set k (VObj m) vm;
            pop_n 1 vm
          })"

section \<open>Loading a native module\<close>

text \<open>
  \<open>native_modules\<close> with the functions each module registers; \<open>register_fn\<close> in
  \<open>load_registered_module\<close> is \<open>register_module\<close> on them. Modules whose loader does more are entries
  of a \<open>registry\<close> as well: it maps a name to what its \<open>register_fn\<close> does.
\<close>

type_synonym registry = "(string \<times> (vm \<Rightarrow> vm option)) list"

definition is_native_module :: "registry \<Rightarrow> bytes \<Rightarrow> bool" where
  "is_native_module reg name = (\<exists>e\<in>set reg. bytes_of (fst e) = cstr name)"

definition load_registered_module :: "bytes \<Rightarrow> (vm \<Rightarrow> vm option) \<Rightarrow> vm \<Rightarrow> (bool \<times> vm) option" where
  "load_registered_module name register_fn vm =
     do {
       vm \<leftarrow> register_fn vm;
       let (k, vm) = alloc (\<lambda>h. copy_string h name) vm;
       vm \<leftarrow> push (VObj k) vm;
       m \<leftarrow> module_get k vm;
       vm \<leftarrow> pop_n 1 vm;
       (case m of
          None \<Rightarrow> Some (False, vm)
        | Some m \<Rightarrow> do {
            ty \<leftarrow> type_of (vheap vm) m;
            (if ty \<noteq> TTable then Some (False, vm) else return_val m vm)
          })
     }"

fun find_module :: "registry \<Rightarrow> bytes \<Rightarrow> (vm \<Rightarrow> vm option) option" where
  "find_module [] name = None"
| "find_module ((s, f) # reg) name = (if bytes_of s = name then Some f else find_module reg name)"

definition load_module :: "registry \<Rightarrow> bytes \<Rightarrow> vm \<Rightarrow> (bool \<times> vm) option" where
  "load_module reg name vm =
     (let name = cstr name; (k, vm) = alloc (\<lambda>h. copy_string h name) vm in
      do {
        vm \<leftarrow> push (VObj k) vm;
        cached \<leftarrow> module_get k vm;
        (case cached of
           Some m \<Rightarrow> do { vm \<leftarrow> pop_n 1 vm; return_val m vm }
         | None \<Rightarrow>
             (case find_module reg name of
                None \<Rightarrow> do { vm \<leftarrow> pop_n 1 vm; Some (False, vm) }
              | Some f \<Rightarrow> do {
                  (ok, vm) \<leftarrow> load_registered_module name f vm;
                  (if \<not> ok then do { vm \<leftarrow> pop_n 1 vm; Some (False, vm) }
                   else do {
                     m \<leftarrow> peek 0 vm;
                     vm \<leftarrow> module_set k m vm;
                     vm \<leftarrow> pop_n 2 vm;
                     return_val m vm
                   })
                }))
      })"

section \<open>Character classes of the C locale\<close>

definition c_upper :: "byte \<Rightarrow> bool" where "c_upper b \<longleftrightarrow> 65 \<le> b \<and> b \<le> 90"
definition c_lower :: "byte \<Rightarrow> bool" where "c_lower b \<longleftrightarrow> 97 \<le> b \<and> b \<le> 122"
definition c_digit :: "byte \<Rightarrow> bool" where "c_digit b \<longleftrightarrow> 48 \<le> b \<and> b \<le> 57"
definition c_alpha :: "byte \<Rightarrow> bool" where "c_alpha b \<longleftrightarrow> c_upper b \<or> c_lower b"
definition c_alnum :: "byte \<Rightarrow> bool" where "c_alnum b \<longleftrightarrow> c_alpha b \<or> c_digit b"
definition c_space :: "byte \<Rightarrow> bool" where "c_space b \<longleftrightarrow> b = 32 \<or> (9 \<le> b \<and> b \<le> 13)"
definition c_tolower :: "byte \<Rightarrow> byte" where "c_tolower b = (if c_upper b then b + 32 else b)"
definition c_toupper :: "byte \<Rightarrow> byte" where "c_toupper b = (if c_lower b then b - 32 else b)"

text \<open>A property of bytes can be checked on all of them.\<close>

lemma byte_all:
  assumes "\<forall>n\<in>set [0..<256]. P (of_nat n :: byte)"
  shows "P b"
proof -
  have "unat b < 2 ^ LENGTH(8)" by (rule unsigned_less)
  then have "P (of_nat (unat b))" by (intro assms [rule_format]) simp
  then show ?thesis by simp
qed

section \<open>What a native returns\<close>

text \<open>\<open>vm'\<close> is \<open>vm\<close> after a native has returned the string \<open>cs\<close>.\<close>

definition returns_string :: "vm \<Rightarrow> bytes \<Rightarrow> (bool \<times> vm) option \<Rightarrow> bool" where
  "returns_string vm cs r \<longleftrightarrow> (\<exists>vm' t t' a. r = Some (True, vm') \<and> cur vm = Some t \<and> cur vm' = Some t' \<and>
     stack_top t' = stack_top t + 1 \<and> stack t' (stack_top t) = Some (VObj a) \<and> string_at (vheap vm') a = Some cs \<and>
     globals vm' = globals vm \<and> fresh (vheap vm'))"

text \<open>The state in which a native is called with room on the stack.\<close>

definition callable :: "vm \<Rightarrow> bool" where
  "callable vm \<longleftrightarrow> fresh (vheap vm) \<and> (\<exists>t. cur vm = Some t \<and> stack_top t < stack_capacity t)"

lemma cur_copy_string:
  assumes "cur vm = Some t" "fresh (vheap vm)" "copy_string (vheap vm) cs = (a, h)"
  shows "cur (vm\<lparr>vheap := h\<rparr>) = Some t"
proof -
  obtain th where th: "current_thread vm = Some th" "obj_at (vheap vm) th = Some (OThread t)"
    using assms(1) by (auto simp: cur_Some_iff)
  then have "th \<noteq> a" using copy_string_obj [OF assms(3)] fresh_None [OF assms(2)] by auto
  with th show ?thesis using copy_string_obj [OF assms(3)] by (simp add: cur_Some_iff)
qed

lemma return_string_returns:
  assumes "callable vm"
  shows "returns_string vm cs (return_string cs vm)"
proof -
  obtain t where t: "cur vm = Some t" "stack_top t < stack_capacity t" "fresh (vheap vm)"
    using assms by (auto simp: callable_def)
  obtain a h where c: "copy_string (vheap vm) cs = (a, h)" by fastforce
  let ?vm = "vm\<lparr>vheap := h\<rparr>"
  have "cur ?vm = Some t" by (rule cur_copy_string [OF t(1,3) c])
  moreover have "fresh h" using fresh_copy_string [OF t(3), of cs] c by simp
  moreover have "string_at h a = Some cs" using copy_string_obj [OF c] by (simp add: string_at_def)
  ultimately show ?thesis using t c
    by (auto simp: return_string_def push_string_def string_val_def alloc_def push_eq returns_string_def)
qed

definition string_arg :: "nat \<Rightarrow> nat \<Rightarrow> vm \<Rightarrow> bytes \<Rightarrow> bool" where
  "string_arg base i vm cs \<longleftrightarrow> (\<exists>a. arg base i vm = Some (VObj a) \<and> string_at (vheap vm) a = Some cs)"

lemma type_of_string: "string_at h a = Some cs \<Longrightarrow> type_of h (VObj a) = Some TString"
  by (auto simp: string_at_def type_of_def obj_type_def bind_eq_Some_conv split: obj.splits option.splits)

lemma string_argD:
  assumes "string_arg base i vm cs"
  shows "arg_string base i vm = Some cs" "i < argc \<Longrightarrow> failed_check argc base vm (Is TString i) = Some None"
  using assms type_of_string by (fastforce simp: string_arg_def arg_string_def as_obj_def)+

lemma one_string_arg:
  "string_arg base 0 vm cs \<Longrightarrow> checked_args [Argc_Eq 1, Is TString 0] f 1 base vm = f 1 base vm"
  using string_argD(2) [of base 0 vm cs 1] by (simp add: checked_args_def)

end
