(* ===== verification/Wire.thy ===== *)
theory Wire
  imports Lib
begin

text \<open>
  Numbers as bytes, as the binary formats and the pages of the B-tree store them: little-endian words
  and the 8 bytes of a \<open>double\<close>.
\<close>

section \<open>Pieces of a byte string\<close>

text \<open>\<open>n\<close> bytes from offset \<open>i\<close>, \<open>None\<close> when they are not all there; \<open>memcpy\<close> into a buffer.\<close>

definition slice :: "bytes \<Rightarrow> nat \<Rightarrow> nat \<Rightarrow> bytes option" where
  "slice bs i n = (if i + n \<le> length bs then Some (take n (drop i bs)) else None)"

definition splice :: "bytes \<Rightarrow> nat \<Rightarrow> bytes \<Rightarrow> bytes option" where
  "splice bs i xs = (if i + length xs \<le> length bs then Some (take i bs @ xs @ drop (i + length xs) bs) else None)"

lemma slice_length: "slice bs i n = Some xs \<Longrightarrow> length xs = n"
  by (auto simp: slice_def split: if_splits)

lemma splice_length: "splice bs i xs = Some bs' \<Longrightarrow> length bs' = length bs"
  by (auto simp: splice_def split: if_splits)

lemma slice_splice_same: "splice bs i xs = Some bs' \<Longrightarrow> slice bs' i (length xs) = Some xs"
  by (auto simp: splice_def slice_def split: if_splits)

lemma splice_nth:
  "splice bs i xs = Some bs' \<Longrightarrow> j < length bs \<Longrightarrow>
    bs' ! j = (if i \<le> j \<and> j < i + length xs then xs ! (j - i) else bs ! j)"
  by (auto simp: splice_def nth_append split: if_splits)

lemma slice_nth_eq:
  assumes "length bs' = length bs" "\<And>k. k < n \<Longrightarrow> i + k < length bs \<Longrightarrow> bs' ! (i + k) = bs ! (i + k)"
  shows "slice bs' i n = slice bs i n"
  using assms by (auto simp: slice_def intro: nth_equalityI)

lemma slice_splice_other:
  assumes "splice bs i xs = Some bs'" "j + n \<le> i \<or> i + length xs \<le> j"
  shows "slice bs' j n = slice bs j n"
proof (rule slice_nth_eq)
  show "length bs' = length bs" by (rule splice_length [OF assms(1)])
  fix k assume "k < n" "j + k < length bs"
  then show "bs' ! (j + k) = bs ! (j + k)" using splice_nth [OF assms(1), of "j + k"] assms(2) by (simp split: if_split) linarith
qed

section \<open>Little-endian words\<close>

definition le16 :: "u16 \<Rightarrow> bytes" where
  "le16 w = [ucast w, ucast (drop_bit 8 w)]"

definition le32 :: "u32 \<Rightarrow> bytes" where
  "le32 w = [ucast w, ucast (drop_bit 8 w), ucast (drop_bit 16 w), ucast (drop_bit 24 w)]"

fun of_le16 :: "bytes \<Rightarrow> u16" where
  "of_le16 [a, b] = ucast a OR push_bit 8 (ucast b)"
| "of_le16 _ = 0"

fun of_le32 :: "bytes \<Rightarrow> u32" where
  "of_le32 [a, b, c, d] = ucast a OR push_bit 8 (ucast b) OR push_bit 16 (ucast c) OR push_bit 24 (ucast d)"
| "of_le32 _ = 0"

definition rd_u16 :: "bytes \<Rightarrow> nat \<Rightarrow> u16 option" where
  "rd_u16 bs i = map_option of_le16 (slice bs i 2)"

definition rd_u32 :: "bytes \<Rightarrow> nat \<Rightarrow> u32 option" where
  "rd_u32 bs i = map_option of_le32 (slice bs i 4)"

definition wr_u16 :: "bytes \<Rightarrow> nat \<Rightarrow> u16 \<Rightarrow> bytes option" where
  "wr_u16 bs i w = splice bs i (le16 w)"

definition wr_u32 :: "bytes \<Rightarrow> nat \<Rightarrow> u32 \<Rightarrow> bytes option" where
  "wr_u32 bs i w = splice bs i (le32 w)"

lemma le_length [simp]: "length (le16 w) = 2" "length (le32 v) = 4"
  by (simp_all add: le16_def le32_def)

lemma of_le16 [simp]: "of_le16 (le16 w) = w"
  unfolding le16_def of_le16.simps
  by (rule bit_word_eqI) (auto simp: bit_simps)

lemma of_le32 [simp]: "of_le32 (le32 w) = w"
  unfolding le32_def of_le32.simps
proof (rule bit_word_eqI)
  fix n assume "n < LENGTH(32)"
  then consider "n < 8" | "8 \<le> n" "n < 16" | "16 \<le> n" "n < 24" | "24 \<le> n" "n < 32" by fastforce
  then show "bit (ucast (ucast w :: byte) OR push_bit 8 (ucast (ucast (drop_bit 8 w) :: byte)) OR
      push_bit 16 (ucast (ucast (drop_bit 16 w) :: byte)) OR push_bit 24 (ucast (ucast (drop_bit 24 w) :: byte)) :: u32) n = bit w n"
    by cases (auto simp: bit_simps)
qed

section \<open>The bytes of a double\<close>

text \<open>
  Sign, exponent field and fraction of the binary64 format. All NaNs are read as \<open>NaN\<close> and written
  as the quiet one.
\<close>

fun double_bits :: "double \<Rightarrow> nat" where
  "double_bits NaN = 0x7FF8000000000000"
| "double_bits (Inf s) = (if s then 2 ^ 63 else 0) + 0x7FF0000000000000"
| "double_bits (Fin s m e) =
     (if s then 2 ^ 63 else 0) + (if m < 2 ^ 52 then nat m else nat (e + 1075) * 2 ^ 52 + nat (m - 2 ^ 52))"

definition bits_double :: "nat \<Rightarrow> double" where
  "bits_double n =
     (let s = n div 2 ^ 63 mod 2 = 1; e = n div 2 ^ 52 mod 2048; f = n mod 2 ^ 52
      in if e = 2047 then (if f = 0 then Inf s else NaN)
         else if e = 0 then Fin s (int f) (- 1074)
         else Fin s (int f + 2 ^ 52) (int e - 1075))"

fun nat_bytes :: "nat \<Rightarrow> nat \<Rightarrow> bytes" where
  "nat_bytes 0 n = []"
| "nat_bytes (Suc k) n = of_nat (n mod 256) # nat_bytes k (n div 256)"

fun bytes_nat :: "bytes \<Rightarrow> nat" where
  "bytes_nat [] = 0"
| "bytes_nat (b # bs) = unat b + 256 * bytes_nat bs"

definition double_bytes :: "double \<Rightarrow> bytes" where
  "double_bytes d = nat_bytes 8 (double_bits d)"

definition bytes_double :: "bytes \<Rightarrow> double" where
  "bytes_double bs = bits_double (bytes_nat bs)"

lemma nat_bytes_length [simp]: "length (nat_bytes k n) = k"
  by (induction k arbitrary: n) simp_all

lemma double_bytes_length [simp]: "length (double_bytes d) = 8"
  by (simp add: double_bytes_def)

lemma bytes_nat_bytes: "n < 256 ^ k \<Longrightarrow> bytes_nat (nat_bytes k n) = n"
proof (induction k arbitrary: n)
  case (Suc k)
  have "n div 256 < 256 ^ k" using Suc.prems by (simp add: div_less_iff_less_mult)
  moreover have "unat (of_nat (n mod 256) :: byte) = n mod 256" by (simp add: unat_of_nat)
  ultimately show ?case using Suc.IH by simp
qed simp

lemma double_bits_less: "wf_double d \<Longrightarrow> double_bits d < 2 ^ 64"
proof (cases d)
  case (Fin s m e)
  assume "wf_double d"
  then have m: "0 \<le> m" "m < 2 ^ 53" "e \<le> 971" "-1074 \<le> e" using Fin by simp_all
  show ?thesis
  proof (cases "m < 2 ^ 52")
    case True
    then have "nat m < 2 ^ 52" using m(1) by simp
    then show ?thesis using Fin True by simp
  next
    case False
    have "nat (e + 1075) \<le> 2046" using m(3) by simp
    moreover have "nat (m - 2 ^ 52) < 2 ^ 52" using m(2) by simp
    ultimately show ?thesis using Fin False by simp
  qed
qed simp_all

lemma bits_double_bits: "wf_double d \<Longrightarrow> d \<noteq> NaN \<Longrightarrow> bits_double (double_bits d) = d"
proof (cases d)
  case (Fin s m e)
  assume "wf_double d"
  then have m: "0 \<le> m" "m < 2 ^ 53" "e \<le> 971" "-1074 \<le> e" "m < 2 ^ 52 \<longrightarrow> e = -1074" using Fin by simp_all
  define x where "x = (if m < 2 ^ 52 then 0 else nat (e + 1075))"
  define f where "f = (if m < 2 ^ 52 then nat m else nat (m - 2 ^ 52))"
  define n where "n = double_bits d"
  have xf: "x < 2047" "f < 2 ^ 52" using m by (auto simp: x_def f_def)
  have n: "n = (if s then 1 else 0) * 2 ^ 63 + x * 2 ^ 52 + f" using Fin by (simp add: n_def x_def f_def)
  have n': "n = ((if s then 1 else 0) * 2048 + x) * 2 ^ 52 + f" unfolding n by (simp add: algebra_simps)
  have "n mod 2 ^ 52 = f" "n div 2 ^ 52 = (if s then 1 else 0) * 2048 + x"
    unfolding n' using xf(2) by (simp_all only: mod_mult_self3 div_mult_self3 mod_less div_less power_not_zero) simp_all
  moreover have "n div 2 ^ 63 = n div 2 ^ 52 div 2048" by (simp add: div_mult2_eq [symmetric])
  ultimately have "n div 2 ^ 63 mod 2 = 1 \<longleftrightarrow> s" "n div 2 ^ 52 mod 2048 = x" "n mod 2 ^ 52 = f" using xf(1) by auto
  then show ?thesis using m Fin xf(1) unfolding n_def [symmetric] by (auto simp: bits_double_def Let_def x_def f_def)
qed (auto simp: bits_double_def)

lemma bytes_double_bytes: "wf_double d \<Longrightarrow> d \<noteq> NaN \<Longrightarrow> bytes_double (double_bytes d) = d"
  using double_bits_less [of d] bits_double_bits [of d] bytes_nat_bytes [of "double_bits d" 8]
  by (simp add: bytes_double_def double_bytes_def)

end
