(* ===== verification/Lib_Btree.thy ===== *)
theory Lib_Btree
  imports Wire
begin

text \<open>
  The \<open>btree\<close> module (\<open>src/src/lib/btree.c\<close>): a B-tree of 4096-byte pages, in memory or in a file.
  Outside, \<open>None\<close> is undefined behaviour (a read outside of a page, a recursion that does not end);
  inside, it is the C result 0. The system calls on the file are taken to succeed; running out of
  memory is not modelled.
\<close>

section \<open>Keys and values\<close>

datatype atom = ANumber double | AString bytes

text \<open>\<open>atom_compare\<close> is negative, zero or positive; a number is less than a string.\<close>

fun memcmp :: "bytes \<Rightarrow> bytes \<Rightarrow> int" where
  "memcmp (a # as) (b # bs) = (if a < b then - 1 else if b < a then 1 else memcmp as bs)"
| "memcmp _ _ = 0"

fun atom_compare :: "atom \<Rightarrow> atom \<Rightarrow> int" where
  "atom_compare (ANumber x) (ANumber y) = (if dlt x y then - 1 else if dlt y x then 1 else 0)"
| "atom_compare (AString s) (AString t) =
     (let n = min (length s) (length t); c = memcmp (take n s) (take n t)
      in if c < 0 then - 1 else if c > 0 then 1
         else if length s < length t then - 1 else if length s > length t then 1 else 0)"
| "atom_compare (ANumber _) (AString _) = - 1"
| "atom_compare (AString _) (ANumber _) = 1"

fun atom_encoded_size :: "atom \<Rightarrow> u32" where
  "atom_encoded_size (ANumber _) = 9"
| "atom_encoded_size (AString s) = 1 + 4 + of_nat (length s)"

fun atom_bytes :: "atom \<Rightarrow> bytes" where
  "atom_bytes (ANumber d) = 1 # double_bytes d"
| "atom_bytes (AString s) = 2 # le32 (of_nat (length s)) @ s"

text \<open>\<open>atom_encode\<close>: \<open>None\<close> when the \<open>room\<close> bytes of the buffer are not enough.\<close>

definition atom_encode :: "u32 \<Rightarrow> atom \<Rightarrow> bytes option" where
  "atom_encode room a = (if room < atom_encoded_size a then None else Some (atom_bytes a))"

text \<open>
  \<open>atom_decode\<close> at offset \<open>i\<close> of a page, of which \<open>room\<close> bytes are left: the atom and the bytes used.
  The check of a string's length wraps around.
\<close>

definition atom_decode :: "bytes \<Rightarrow> nat \<Rightarrow> u32 \<Rightarrow> (atom \<times> u32) option option" where
  "atom_decode page i room =
     (if room < 1 then Some None
      else do {
        ty \<leftarrow> at page i;
        (if ty = 1 then
           (if room < 9 then Some None
            else do { bs \<leftarrow> slice page (i + 1) 8; Some (Some (ANumber (bytes_double bs), 9)) })
         else if ty = 2 then
           (if room < 5 then Some None
            else do {
              len \<leftarrow> rd_u32 page (i + 1);
              (if room < 5 + len then Some None
               else do { bs \<leftarrow> slice page (i + 5) (unat len); Some (Some (AString bs, 5 + len)) })
            })
         else Some None)
      })"

section \<open>Pages\<close>

abbreviation (input) PAGE_SIZE :: "'a :: numeral" where "PAGE_SIZE \<equiv> 4096"

text \<open>
  A database: \<open>bt_len\<close> is the number of pages of the buffer or of the file, \<open>bt_pages\<close> their bytes.
\<close>

record btree =
  bt_mem :: bool
  bt_pages :: "nat \<Rightarrow> bytes"
  bt_len :: nat
  bt_root :: u32
  bt_count :: u32
  bt_free :: u32
  bt_closed :: bool

definition zero_page :: bytes where
  "zero_page = replicate 4096 0"

text \<open>
  \<open>db_mem_ensure_pages\<close> doubles the capacity; with more than \<open>2\<^sup>3\<^sup>1\<close> pages the doubling wraps to 0 and
  never ends.
\<close>

definition db_mem_ensure_pages :: "btree \<Rightarrow> u32 \<Rightarrow> btree option" where
  "db_mem_ensure_pages db needed =
     (if unat needed \<le> bt_len db then Some db
      else if 2 ^ 31 < unat needed then None
      else Some (db\<lparr>bt_len := double_until (unat needed - 1) (if bt_len db = 0 then 4 else bt_len db)\<rparr>))"

definition db_read_page :: "btree \<Rightarrow> u32 \<Rightarrow> bytes option" where
  "db_read_page db p =
     (if bt_mem db \<and> bt_count db \<le> p then None
      else if bt_len db \<le> unat p then None
      else Some (bt_pages db (unat p)))"

text \<open>Writing behind the end of the file extends it.\<close>

definition db_write_page :: "btree \<Rightarrow> u32 \<Rightarrow> bytes \<Rightarrow> btree option" where
  "db_write_page db p bs =
     (if bt_mem db then do {
        db \<leftarrow> db_mem_ensure_pages db (p + 1);
        (if unat p < bt_len db then Some (db\<lparr>bt_pages := (bt_pages db)(unat p := bs)\<rparr>) else None)
      }
      else Some (db\<lparr>bt_pages := (bt_pages db)(unat p := bs), bt_len := max (bt_len db) (unat p + 1)\<rparr>))"

definition header_page :: "btree \<Rightarrow> bytes" where
  "header_page db =
     bytes_of ''PBT2'' @ [1, 0, 0, 0] @ le32 (bt_root db) @ le32 (bt_count db) @ le32 (bt_free db) @
     replicate (4096 - 20) 0"

definition db_write_header :: "btree \<Rightarrow> btree option" where
  "db_write_header db = db_write_page db 0 (header_page db)"

definition page_slot :: "bytes \<Rightarrow> u16 \<Rightarrow> u16 option" where
  "page_slot page i = rd_u16 page (16 + unat i * 2)"

definition page_set_slot :: "bytes \<Rightarrow> u16 \<Rightarrow> u16 \<Rightarrow> bytes option" where
  "page_set_slot page i off = wr_u16 page (16 + unat i * 2) off"

definition page_init :: "byte \<Rightarrow> u32 \<Rightarrow> bytes" where
  "page_init ty left = [ty, 0] @ le16 0 @ le16 16 @ le16 4096 @ le32 left @ replicate (4096 - 12) 0"

text \<open>The slots from \<open>i\<close> down to \<open>index + 1\<close> move up by one.\<close>

function shift_slots :: "bytes \<Rightarrow> u16 \<Rightarrow> u16 \<Rightarrow> bytes option" where
  "shift_slots page index i =
     (if i \<le> index then Some page
      else do {
        s \<leftarrow> page_slot page (i - 1);
        page \<leftarrow> page_set_slot page i s;
        shift_slots page index (i - 1)
      })"
  by pat_completeness auto
termination
proof (relation "measure (\<lambda>(_, _, i). unat i)")
  fix page :: bytes and index i :: u16 and s page'
  assume "\<not> i \<le> index"
  then have i: "i \<noteq> 0" by auto
  then have "0 < unat i" by (simp add: unat_gt_0)
  then show "((page', index, i - 1), page, index, i) \<in> measure (\<lambda>(_, _, i). unat i)"
    using unat_minus_one [OF i] by simp
qed simp

declare shift_slots.simps [simp del]

definition page_add_record :: "bytes \<Rightarrow> u16 \<Rightarrow> bytes \<Rightarrow> bytes option option" where
  "page_add_record page index rc =
     do {
       n \<leftarrow> rd_u16 page 2;
       fs \<leftarrow> rd_u16 page 4;
       fe \<leftarrow> rd_u16 page 6;
       (if n < index then Some None
        else if word_of_int (int (unat fe) - int (unat fs)) < (of_nat (length rc) + 2 :: u32) then Some None
        else do {
          let new_off = fe - of_nat (length rc);
          page \<leftarrow> splice page (unat new_off) rc;
          page \<leftarrow> shift_slots page index n;
          page \<leftarrow> page_set_slot page index new_off;
          page \<leftarrow> wr_u16 page 2 (n + 1);
          page \<leftarrow> wr_u16 page 4 (fs + 2);
          page \<leftarrow> wr_u16 page 6 new_off;
          Some (Some page)
        })
     }"

section \<open>Nodes\<close>

datatype node = LeafNode "(atom \<times> atom) list" | InternalNode u32 "(atom \<times> u32) list"

text \<open>The slots \<open>i\<close>, \<open>i + 1\<close>, ... of a page, \<open>n\<close> of them.\<close>

fun load_leaf_entries :: "bytes \<Rightarrow> nat \<Rightarrow> nat \<Rightarrow> (atom \<times> atom) list option option" where
  "load_leaf_entries page i 0 = Some (Some [])"
| "load_leaf_entries page i (Suc n) =
     do {
       off \<leftarrow> page_slot page (of_nat i);
       (if 4096 \<le> unat off then Some None
        else do {
          k \<leftarrow> atom_decode page (unat off) (4096 - ucast off);
          (case k of
             None \<Rightarrow> Some None
           | Some (k, ku) \<Rightarrow> do {
               v \<leftarrow> atom_decode page (unat off + unat ku) (4096 - ucast off - ku);
               (case v of
                  None \<Rightarrow> Some None
                | Some (v, _) \<Rightarrow> do {
                    es \<leftarrow> load_leaf_entries page (i + 1) n;
                    Some (map_option (\<lambda>es. (k, v) # es) es)
                  })
             })
        })
     }"

fun load_internal_entries :: "bytes \<Rightarrow> nat \<Rightarrow> nat \<Rightarrow> (atom \<times> u32) list option option" where
  "load_internal_entries page i 0 = Some (Some [])"
| "load_internal_entries page i (Suc n) =
     do {
       off \<leftarrow> page_slot page (of_nat i);
       (if 4096 \<le> unat off then Some None
        else do {
          k \<leftarrow> atom_decode page (unat off) (4096 - ucast off);
          (case k of
             None \<Rightarrow> Some None
           | Some (k, ku) \<Rightarrow>
               if 4096 - ucast off - ku < (4 :: u32) then Some None
               else do {
                 child \<leftarrow> rd_u32 page (unat off + unat ku);
                 es \<leftarrow> load_internal_entries page (i + 1) n;
                 Some (map_option (\<lambda>es. (k, child) # es) es)
               })
        })
     }"

definition node_load :: "btree \<Rightarrow> u32 \<Rightarrow> node option option" where
  "node_load db p =
     (case db_read_page db p of
        None \<Rightarrow> Some None
      | Some page \<Rightarrow> do {
          ty \<leftarrow> at page 0;
          (if ty \<noteq> 1 \<and> ty \<noteq> 2 then Some None
           else do {
             n \<leftarrow> rd_u16 page 2;
             fs \<leftarrow> rd_u16 page 4;
             fe \<leftarrow> rd_u16 page 6;
             left \<leftarrow> rd_u32 page 8;
             (if fs < 16 \<or> 4096 < fs \<or> 4096 < fe \<or> fe < 16 then Some None
              else if ty = 1 then do {
                es \<leftarrow> load_leaf_entries page 0 (unat n);
                Some (map_option LeafNode es)
              }
              else do {
                es \<leftarrow> load_internal_entries page 0 (unat n);
                Some (map_option (InternalNode left) es)
              })
           })
        })"

definition encode_leaf_record :: "atom \<times> atom \<Rightarrow> bytes option" where
  "encode_leaf_record e =
     (let rs = atom_encoded_size (fst e) + atom_encoded_size (snd e) in
      if 65535 < rs then None
      else do {
        k \<leftarrow> atom_encode rs (fst e);
        v \<leftarrow> atom_encode (rs - atom_encoded_size (fst e)) (snd e);
        Some (k @ v)
      })"

definition encode_internal_record :: "atom \<times> u32 \<Rightarrow> bytes option" where
  "encode_internal_record e =
     (let rs = atom_encoded_size (fst e) + 4 in
      if 65535 < rs then None
      else do { k \<leftarrow> atom_encode rs (fst e); Some (k @ le32 (snd e)) })"

text \<open>The records are appended one by one; \<open>None\<close> inside when one cannot be encoded or does not fit.\<close>

fun add_records :: "bytes \<Rightarrow> nat \<Rightarrow> bytes option list \<Rightarrow> bytes option option" where
  "add_records page i [] = Some (Some page)"
| "add_records page i (r # rs) =
     (case r of
        None \<Rightarrow> Some None
      | Some rc \<Rightarrow> do {
          p \<leftarrow> page_add_record page (of_nat i) rc;
          (case p of None \<Rightarrow> Some None | Some page \<Rightarrow> add_records page (i + 1) rs)
        })"

definition node_records :: "node \<Rightarrow> bytes option list" where
  "node_records nd =
     (case nd of LeafNode es \<Rightarrow> map encode_leaf_record es | InternalNode _ es \<Rightarrow> map encode_internal_record es)"

definition node_page :: "node \<Rightarrow> bytes option option" where
  "node_page nd =
     add_records (case nd of LeafNode _ \<Rightarrow> page_init 1 0 | InternalNode left _ \<Rightarrow> page_init 2 left) 0 (node_records nd)"

text \<open>\<open>node_write\<close>; the node is left alone when its records do not fit.\<close>

definition node_write :: "btree \<Rightarrow> u32 \<Rightarrow> node \<Rightarrow> (bool \<times> btree) option" where
  "node_write db p nd =
     do {
       r \<leftarrow> node_page nd;
       (case r of
          None \<Rightarrow> Some (False, db)
        | Some page \<Rightarrow> do { db \<leftarrow> db_write_page db p page; Some (True, db) })
     }"

fun fits :: "u32 \<Rightarrow> u32 list \<Rightarrow> bool" where
  "fits ku [] = True"
| "fits ku (s # ss) = (if 4096 < ku + s then False else fits (ku + s) ss)"

definition node_fits_leaf :: "(atom \<times> atom) list \<Rightarrow> bool" where
  "node_fits_leaf es =
     fits (16 + of_nat (length es) * 2) (map (\<lambda>e. atom_encoded_size (fst e) + atom_encoded_size (snd e)) es)"

definition node_fits_internal :: "(atom \<times> u32) list \<Rightarrow> bool" where
  "node_fits_internal es = fits (16 + of_nat (length es) * 2) (map (\<lambda>e. atom_encoded_size (fst e) + 4) es)"

section \<open>Allocation of pages\<close>

definition db_alloc_page :: "btree \<Rightarrow> (u32 option \<times> btree) option" where
  "db_alloc_page db =
     (if bt_free db \<noteq> 0 then
        (case db_read_page db (bt_free db) of
           None \<Rightarrow> Some (None, db)
         | Some page \<Rightarrow> do {
             ty \<leftarrow> at page 0;
             (if ty \<noteq> 0 then Some (None, db)
              else do {
                next_free \<leftarrow> rd_u32 page 8;
                let p = bt_free db;
                db \<leftarrow> db_write_header (db\<lparr>bt_free := next_free\<rparr>);
                Some (Some p, db)
              })
           })
      else do {
        let p = bt_count db;
        db \<leftarrow> db_write_page (db\<lparr>bt_count := p + 1\<rparr>) p zero_page;
        db \<leftarrow> db_write_header db;
        Some (Some p, db)
      })"

definition db_free_page :: "btree \<Rightarrow> u32 \<Rightarrow> (bool \<times> btree) option" where
  "db_free_page db p =
     (if p = 0 \<or> bt_count db \<le> p \<or> p = bt_root db then Some (False, db)
      else do {
        page \<leftarrow> wr_u32 (page_init 0 0) 8 (bt_free db);
        db \<leftarrow> db_write_page db p page;
        db \<leftarrow> db_write_header (db\<lparr>bt_free := p\<rparr>);
        Some (True, db)
      })"

section \<open>Searching a node\<close>

text \<open>The binary search between \<open>lo\<close> and \<open>hi\<close>: the position, and whether the key is there.\<close>

function leaf_search :: "(atom \<times> 'a) list \<Rightarrow> atom \<Rightarrow> nat \<Rightarrow> nat \<Rightarrow> bool \<times> nat" where
  "leaf_search es key lo hi =
     (if lo < hi then
        let mid = lo + (hi - lo) div 2; c = atom_compare key (fst (es ! mid))
        in if c = 0 then (True, mid) else if c < 0 then leaf_search es key lo mid else leaf_search es key (mid + 1) hi
      else (False, lo))"
  by pat_completeness auto
termination
  by (relation "measure (\<lambda>(_, _, lo, hi). hi - lo)") auto

declare leaf_search.simps [simp del]

definition leaf_find_slot :: "(atom \<times> atom) list \<Rightarrow> atom \<Rightarrow> bool \<times> nat" where
  "leaf_find_slot es key = leaf_search es key 0 (length es)"

fun find_route :: "(atom \<times> u32) list \<Rightarrow> atom \<Rightarrow> nat \<Rightarrow> u32 \<Rightarrow> nat \<times> u32" where
  "find_route [] key slot child = (slot, child)"
| "find_route (e # es) key slot child =
     (if atom_compare key (fst e) < 0 then (slot, child) else find_route es key (slot + 1) (snd e))"

text \<open>The number of entries with keys up to \<open>key\<close>, and the child that leads to \<open>key\<close>.\<close>

definition internal_find_route :: "u32 \<Rightarrow> (atom \<times> u32) list \<Rightarrow> atom \<Rightarrow> nat \<times> u32" where
  "internal_find_route left es key = find_route es key 0 left"

section \<open>Insertion\<close>

text \<open>
  The result of an insertion below a node: \<open>None\<close> is failure, otherwise the key and the page of the
  new right sibling if the node was split. The database is returned in every case, as it is changed
  also when the insertion fails half-way.
\<close>

type_synonym inserted = "((atom \<times> u32) option option \<times> btree) option"

definition leaf_build_with_insert :: "(atom \<times> atom) list \<Rightarrow> nat \<Rightarrow> atom \<Rightarrow> atom \<Rightarrow> (atom \<times> atom) list" where
  "leaf_build_with_insert es pos key v = take pos es @ (key, v) # drop pos es"

definition leaf_insert :: "btree \<Rightarrow> u32 \<Rightarrow> (atom \<times> atom) list \<Rightarrow> atom \<Rightarrow> atom \<Rightarrow> inserted" where
  "leaf_insert db p es key v =
     (let (found, pos) = leaf_find_slot es key in
      if found then do {
        (ok, db) \<leftarrow> node_write db p (LeafNode (es[pos := (fst (es ! pos), v)]));
        Some (if ok then Some None else None, db)
      }
      else
        let every = leaf_build_with_insert es pos key v; mid = length every div 2 in
        if node_fits_leaf every then do {
          (ok, db) \<leftarrow> node_write db p (LeafNode every);
          Some (if ok then Some None else None, db)
        }
        else if mid = 0 \<or> length every \<le> mid then Some (None, db)
        else do {
          (r, db) \<leftarrow> db_alloc_page db;
          (case r of
             None \<Rightarrow> Some (None, db)
           | Some right \<Rightarrow> do {
               (ok_left, db) \<leftarrow> node_write db p (LeafNode (take mid every));
               (ok_right, db) \<leftarrow> node_write db right (LeafNode (drop mid every));
               Some (if ok_left \<and> ok_right then Some (Some (fst (every ! mid), right)) else None, db)
             })
        })"

definition internal_build_with_insert :: "(atom \<times> u32) list \<Rightarrow> nat \<Rightarrow> atom \<times> u32 \<Rightarrow> (atom \<times> u32) list" where
  "internal_build_with_insert es pos promote = take pos es @ promote # drop pos es"

text \<open>\<open>internal_insert\<close> after the insertion below the child has returned the split \<open>promote\<close>.\<close>

definition internal_promote :: "btree \<Rightarrow> u32 \<Rightarrow> u32 \<Rightarrow> (atom \<times> u32) list \<Rightarrow> nat \<Rightarrow> atom \<times> u32 \<Rightarrow> inserted" where
  "internal_promote db p left es pos promote =
     (let every = internal_build_with_insert es pos promote; mid = length every div 2 in
      if node_fits_internal every then do {
        (ok, db) \<leftarrow> node_write db p (InternalNode left every);
        Some (if ok then Some None else None, db)
      }
      else if mid = 0 \<or> length every \<le> mid then Some (None, db)
      else do {
        (r, db) \<leftarrow> db_alloc_page db;
        (case r of
           None \<Rightarrow> Some (None, db)
         | Some right \<Rightarrow> do {
             (ok_left, db) \<leftarrow> node_write db p (InternalNode left (take mid every));
             (ok_right, db) \<leftarrow> node_write db right (InternalNode (snd (every ! mid)) (drop (mid + 1) every));
             Some (if ok_left \<and> ok_right then Some (Some (fst (every ! mid), right)) else None, db)
           })
      })"

text \<open>
  \<open>insert_recursive\<close> with \<open>internal_insert\<close>, by recursion on the height: a tree of pages that is
  deeper than \<open>n\<close>, or that has a cycle, gives \<open>None\<close>.
\<close>

primrec insert_recursive :: "nat \<Rightarrow> btree \<Rightarrow> u32 \<Rightarrow> atom \<Rightarrow> atom \<Rightarrow> inserted" where
  "insert_recursive 0 db p key v = None"
| "insert_recursive (Suc n) db p key v =
     do {
       nd \<leftarrow> node_load db p;
       (case nd of
          None \<Rightarrow> Some (None, db)
        | Some (LeafNode es) \<Rightarrow> leaf_insert db p es key v
        | Some (InternalNode left es) \<Rightarrow>
            let (pos, child) = internal_find_route left es key in
            do {
              (r, db) \<leftarrow> insert_recursive n db child key v;
              (case r of
                 None \<Rightarrow> Some (None, db)
               | Some None \<Rightarrow> Some (Some None, db)
               | Some (Some promote) \<Rightarrow> internal_promote db p left es pos promote)
            })
     }"

definition btree_put :: "nat \<Rightarrow> btree \<Rightarrow> atom \<Rightarrow> atom \<Rightarrow> (bool \<times> btree) option" where
  "btree_put n db key v =
     do {
       (r, db) \<leftarrow> insert_recursive n db (bt_root db) key v;
       (case r of
          None \<Rightarrow> Some (False, db)
        | Some None \<Rightarrow> Some (True, db)
        | Some (Some promote) \<Rightarrow> do {
            (a, db) \<leftarrow> db_alloc_page db;
            (case a of
               None \<Rightarrow> Some (False, db)
             | Some root \<Rightarrow> do {
                 (ok, db) \<leftarrow> node_write db root (InternalNode (bt_root db) [promote]);
                 (if \<not> ok then Some (False, db)
                  else do { db \<leftarrow> db_write_header (db\<lparr>bt_root := root\<rparr>); Some (True, db) })
               })
          })
     }"

section \<open>Lookup\<close>

text \<open>The result of \<open>btree_get_value\<close>: 0, 2 or 1 with the value.\<close>

datatype got = GetFailed | GetMissing | Got atom

fun get_child :: "(atom \<times> u32) list \<Rightarrow> atom \<Rightarrow> u32 \<Rightarrow> u32" where
  "get_child [] key child = child"
| "get_child (e # es) key child = (if atom_compare key (fst e) < 0 then child else get_child es key (snd e))"

primrec get_from :: "nat \<Rightarrow> btree \<Rightarrow> u32 \<Rightarrow> atom \<Rightarrow> got option" where
  "get_from 0 db p key = None"
| "get_from (Suc n) db p key =
     do {
       nd \<leftarrow> node_load db p;
       (case nd of
          None \<Rightarrow> Some GetFailed
        | Some (LeafNode es) \<Rightarrow>
            let (found, pos) = leaf_find_slot es key
            in Some (if found then Got (snd (es ! pos)) else GetMissing)
        | Some (InternalNode left es) \<Rightarrow> get_from n db (get_child es key left) key)
     }"

definition btree_get_value :: "nat \<Rightarrow> btree \<Rightarrow> atom \<Rightarrow> got option" where
  "btree_get_value n db key = get_from n db (bt_root db) key"

section \<open>Deletion\<close>

record delete_result =
  deleted :: bool
  remove_child :: bool
  replacement_child :: u32
  new_min :: "atom option"  \<comment> \<open>set when \<open>min_changed\<close>\<close>

definition not_deleted :: delete_result where
  "not_deleted = \<lparr>deleted = False, remove_child = False, replacement_child = 0, new_min = None\<rparr>"

definition just_deleted :: delete_result where
  "just_deleted = not_deleted\<lparr>deleted := True\<rparr>"

type_synonym removed = "(delete_result option \<times> btree) option"

primrec subtree_min_key :: "nat \<Rightarrow> btree \<Rightarrow> u32 \<Rightarrow> atom option option" where
  "subtree_min_key 0 db p = None"
| "subtree_min_key (Suc n) db p =
     do {
       nd \<leftarrow> node_load db p;
       (case nd of
          None \<Rightarrow> Some None
        | Some (LeafNode es) \<Rightarrow> Some (case es of [] \<Rightarrow> None | e # _ \<Rightarrow> Some (fst e))
        | Some (InternalNode left es) \<Rightarrow> subtree_min_key n db left)
     }"

definition remove_at :: "'a list \<Rightarrow> nat \<Rightarrow> 'a list" where
  "remove_at xs i = take i xs @ drop (i + 1) xs"

text \<open>\<open>None\<close> when there is no entry to remove.\<close>

definition internal_remove_slot :: "u32 \<Rightarrow> (atom \<times> u32) list \<Rightarrow> nat \<Rightarrow> (u32 \<times> (atom \<times> u32) list) option" where
  "internal_remove_slot left es slot =
     (if es = [] then None
      else if slot = 0 then Some (snd (hd es), tl es)
      else Some (left, remove_at es (slot - 1)))"

definition btree_delete_leaf :: "btree \<Rightarrow> u32 \<Rightarrow> (atom \<times> atom) list \<Rightarrow> atom \<Rightarrow> bool \<Rightarrow> removed" where
  "btree_delete_leaf db p es key is_root =
     (let (found, pos) = leaf_find_slot es key in
      if \<not> found then Some (Some not_deleted, db)
      else
        let rest = remove_at es pos;
            r = just_deleted\<lparr>new_min := (if pos = 0 \<and> rest \<noteq> [] then Some (fst (hd rest)) else None)\<rparr> in
        if \<not> is_root \<and> rest = [] then do {
          (ok, db) \<leftarrow> db_free_page db p;
          Some (if ok then Some (just_deleted\<lparr>remove_child := True\<rparr>) else None, db)
        }
        else do {
          (ok, db) \<leftarrow> node_write db p (LeafNode rest);
          Some (if ok then Some r else None, db)
        })"

text \<open>
  The node after its child at \<open>slot\<close> has changed: the child is gone, replaced by its only child, or
  has a new least key. \<open>None\<close> inside is failure.
\<close>

definition set_entry_key :: "(atom \<times> u32) list \<Rightarrow> nat \<Rightarrow> atom \<Rightarrow> (atom \<times> u32) list" where
  "set_entry_key es i key = es[i := (key, snd (es ! i))]"

definition update_child ::
  "nat \<Rightarrow> btree \<Rightarrow> u32 \<Rightarrow> (atom \<times> u32) list \<Rightarrow> nat \<Rightarrow> delete_result \<Rightarrow> (u32 \<times> (atom \<times> u32) list) option option" where
  "update_child n db left es slot r =
     (if remove_child r then
        (if replacement_child r \<noteq> 0 then
           (if slot = 0 then Some (Some (replacement_child r, es))
            else do {
              m \<leftarrow> subtree_min_key n db (replacement_child r);
              Some (map_option (\<lambda>key. (left, es[slot - 1 := (key, replacement_child r)])) m)
            })
         else map_option Some (internal_remove_slot left es slot))
      else
        case new_min r of
          Some key \<Rightarrow> Some (Some (left, if 0 < slot then set_entry_key es (slot - 1) key else es))
        | None \<Rightarrow> Some (Some (left, es)))"

text \<open>\<open>btree_delete_internal\<close> after the deletion below the child has returned \<open>r\<close>.\<close>

definition finish_delete ::
  "nat \<Rightarrow> btree \<Rightarrow> u32 \<Rightarrow> u32 \<Rightarrow> (atom \<times> u32) list \<Rightarrow> nat \<Rightarrow> bool \<Rightarrow> delete_result \<Rightarrow> removed" where
  "finish_delete n db p left es slot is_root r =
     do {
       u \<leftarrow> update_child n db left es slot r;
       (case u of
          None \<Rightarrow> Some (None, db)
        | Some (left, es) \<Rightarrow>
            if is_root then
              (if es = [] \<and> left \<noteq> 0 then do {
                 db \<leftarrow> db_write_header (db\<lparr>bt_root := left\<rparr>);
                 (if p \<noteq> left then do {
                    (ok, db) \<leftarrow> db_free_page db p;
                    Some (if ok then Some just_deleted else None, db)
                  }
                  else Some (Some just_deleted, db))
               }
               else do {
                 (ok, db) \<leftarrow> node_write db p (InternalNode left es);
                 Some (if ok then Some just_deleted else None, db)
               })
            else if es = [] then do {
              (ok, db) \<leftarrow> db_free_page db p;
              Some (if ok then Some (just_deleted\<lparr>remove_child := True, replacement_child := left\<rparr>) else None, db)
            }
            else do {
              (ok, db) \<leftarrow> node_write db p (InternalNode left es);
              (if \<not> ok then Some (None, db)
               else if slot = 0 then do {
                 m \<leftarrow> subtree_min_key n db p;
                 Some (map_option (\<lambda>key. just_deleted\<lparr>new_min := Some key\<rparr>) m, db)
               }
               else Some (Some just_deleted, db))
            })
     }"

primrec btree_delete_recursive :: "nat \<Rightarrow> btree \<Rightarrow> u32 \<Rightarrow> atom \<Rightarrow> bool \<Rightarrow> removed" where
  "btree_delete_recursive 0 db p key is_root = None"
| "btree_delete_recursive (Suc n) db p key is_root =
     do {
       nd \<leftarrow> node_load db p;
       (case nd of
          None \<Rightarrow> Some (None, db)
        | Some (LeafNode es) \<Rightarrow> btree_delete_leaf db p es key is_root
        | Some (InternalNode left es) \<Rightarrow>
            let (slot, child) = internal_find_route left es key in
            do {
              (r, db) \<leftarrow> btree_delete_recursive n db child key False;
              (case r of
                 None \<Rightarrow> Some (None, db)
               | Some r \<Rightarrow>
                   if \<not> deleted r then Some (Some not_deleted, db)
                   else finish_delete (Suc n) db p left es slot is_root r)
            })
     }"

text \<open>Whether the deletion succeeded, and whether there was something to delete.\<close>

definition btree_delete :: "nat \<Rightarrow> btree \<Rightarrow> atom \<Rightarrow> (bool option \<times> btree) option" where
  "btree_delete n db key =
     do {
       (r, db) \<leftarrow> btree_delete_recursive n db (bt_root db) key True;
       Some (map_option deleted r, db)
     }"

section \<open>Opening\<close>

definition new_db :: "bool \<Rightarrow> btree" where
  "new_db mem =
     \<lparr>bt_mem = mem, bt_pages = (\<lambda>_. zero_page), bt_len = 0, bt_root = 1, bt_count = 2, bt_free = 0,
      bt_closed = False\<rparr>"

definition btree_open_memory :: "btree option" where
  "btree_open_memory =
     do {
       db \<leftarrow> db_mem_ensure_pages (new_db True) 2;
       db \<leftarrow> db_write_header db;
       db_write_page db 1 (page_init 1 0)
     }"

text \<open>
  The file as it is opened: its pages and its size in bytes. \<open>None\<close> inside: it is not a database.
\<close>

definition btree_open_file :: "(nat \<Rightarrow> bytes) \<Rightarrow> nat \<Rightarrow> btree option option" where
  "btree_open_file file sz =
     (if sz = 0 then do {
        db \<leftarrow> db_write_header (new_db False);
        db \<leftarrow> db_write_page db 1 (page_init 1 0);
        Some (Some db)
      }
      else if sz mod 2 ^ 32 < 4096 then Some None
      else
        let db = \<lparr>bt_mem = False, bt_pages = file, bt_len = sz div 4096, bt_root = 0, bt_count = 0, bt_free = 0,
                  bt_closed = False\<rparr> in
        (case db_read_page db 0 of
           None \<Rightarrow> Some None
         | Some header \<Rightarrow> do {
             magic \<leftarrow> slice header 0 4;
             ver \<leftarrow> at header 4;
             (if magic \<noteq> bytes_of ''PBT2'' \<or> ver \<noteq> 1 then Some None
              else do {
                root \<leftarrow> rd_u32 header 8;
                count \<leftarrow> rd_u32 header 12;
                free \<leftarrow> rd_u32 header 16;
                Some (if root = 0 \<or> count < 2 \<or> count \<le> root then None
                      else Some (db\<lparr>bt_root := root, bt_count := count, bt_free := free\<rparr>))
              })
           }))"

section \<open>Ranges\<close>

text \<open>
  The entries of a subtree from \<open>min\<close> to \<open>max\<close>, in order, at most \<open>limit\<close> of them with those already
  \<open>found\<close>; the rows that \<open>btree_collect_range\<close> makes of them are in \<open>add_rows\<close>.
\<close>

definition full :: "nat option \<Rightarrow> nat \<Rightarrow> bool" where
  "full limit found = (case limit of Some l \<Rightarrow> l \<le> found | None \<Rightarrow> False)"

definition below :: "atom option \<Rightarrow> atom \<Rightarrow> bool" where
  "below m k = (case m of Some m \<Rightarrow> atom_compare k m < 0 | None \<Rightarrow> False)"

definition above :: "atom option \<Rightarrow> atom \<Rightarrow> bool" where
  "above m k = (case m of Some m \<Rightarrow> 0 < atom_compare k m | None \<Rightarrow> False)"

fun leaf_range :: "(atom \<times> atom) list \<Rightarrow> atom option \<Rightarrow> atom option \<Rightarrow> nat option \<Rightarrow> nat \<Rightarrow> (atom \<times> atom) list" where
  "leaf_range [] mn mx limit found = []"
| "leaf_range (e # es) mn mx limit found =
     (if full limit found then []
      else if below mn (fst e) then leaf_range es mn mx limit found
      else if above mx (fst e) then []
      else e # leaf_range es mn mx limit (found + 1))"

text \<open>The children one after the other, stopping when the limit is reached.\<close>

fun collect_children ::
  "(u32 \<Rightarrow> nat \<Rightarrow> (atom \<times> atom) list option option) \<Rightarrow> nat option \<Rightarrow> u32 list \<Rightarrow> nat \<Rightarrow> (atom \<times> atom) list option option" where
  "collect_children f limit [] found = Some (Some [])"
| "collect_children f limit (c # cs) found =
     (if full limit found then Some (Some [])
      else do {
        r \<leftarrow> f c found;
        (case r of
           None \<Rightarrow> Some None
         | Some xs \<Rightarrow> do {
             r \<leftarrow> collect_children f limit cs (found + length xs);
             Some (map_option (\<lambda>ys. xs @ ys) r)
           })
      })"

primrec collect_range ::
  "nat \<Rightarrow> btree \<Rightarrow> atom option \<Rightarrow> atom option \<Rightarrow> nat option \<Rightarrow> u32 \<Rightarrow> nat \<Rightarrow> (atom \<times> atom) list option option" where
  "collect_range 0 db mn mx limit p found = (if full limit found then Some (Some []) else None)"
| "collect_range (Suc n) db mn mx limit p found =
     (if full limit found then Some (Some [])
      else do {
        nd \<leftarrow> node_load db p;
        (case nd of
           None \<Rightarrow> Some None
         | Some (LeafNode es) \<Rightarrow> Some (Some (leaf_range es mn mx limit found))
         | Some (InternalNode left es) \<Rightarrow>
             collect_children (collect_range n db mn mx limit) limit (left # map snd es) found)
      })"

section \<open>Native functions\<close>

text \<open>
  The databases live outside the heap of the machine: a userdata object holds the number of one. The
  file system gives the bytes and the size of a file; \<open>fuel\<close> bounds the height of a tree.
\<close>

type_synonym dbs = "nat \<Rightarrow> btree option"
type_synonym db_native = "nat \<Rightarrow> nat \<Rightarrow> dbs \<Rightarrow> vm \<Rightarrow> (bool \<times> dbs \<times> vm) option"

definition keep_dbs :: "dbs \<Rightarrow> (bool \<times> vm) option \<Rightarrow> (bool \<times> dbs \<times> vm) option" where
  "keep_dbs dbs r = do { (ok, vm) \<leftarrow> r; Some (ok, dbs, vm) }"

definition checked_db :: "check list \<Rightarrow> db_native \<Rightarrow> db_native" where
  "checked_db cs f argc base dbs vm =
     do {
       e \<leftarrow> first_failed cs argc base vm;
       (case e of Some msg \<Rightarrow> keep_dbs dbs (fail_bytes msg vm) | None \<Rightarrow> f argc base dbs vm)
     }"

text \<open>\<open>atom_from_value\<close>: an atom or an error message.\<close>

definition atom_from_value :: "heap \<Rightarrow> val \<Rightarrow> string \<Rightarrow> (bytes + atom) option" where
  "atom_from_value h v what =
     (case v of
        VNumber d \<Rightarrow> Some (if d = NaN then Inl (bytes_of what @ bytes_of '' cannot be NaN.'') else Inr (ANumber d))
      | VObj a \<Rightarrow> do {
          k \<leftarrow> type_of h v;
          (if k = TString then do { s \<leftarrow> string_at h a; Some (Inr (AString s)) }
           else Some (Inl (bytes_of what @ bytes_of '' must be string or number.'')))
        }
      | _ \<Rightarrow> Some (Inl (bytes_of what @ bytes_of '' must be string or number.'')))"

definition parse_key_arg :: "nat \<Rightarrow> nat \<Rightarrow> vm \<Rightarrow> (bytes + atom) option" where
  "parse_key_arg base i vm = do { v \<leftarrow> arg base i vm; atom_from_value (vheap vm) v ''btree key'' }"

definition get_open_db_or_nil :: "nat \<Rightarrow> dbs \<Rightarrow> vm \<Rightarrow> (nat \<times> btree) option option" where
  "get_open_db_or_nil base dbs vm =
     do {
       a \<leftarrow> arg_obj base 0 vm;
       u \<leftarrow> userdata_at (vheap vm) a;
       (case udata u of
          None \<Rightarrow> Some None
        | Some i \<Rightarrow> do { db \<leftarrow> dbs i; Some (if bt_closed db then None else Some (i, db)) })
     }"

text \<open>A native on an open database; on a closed one it returns nil.\<close>

definition with_db :: "(nat \<Rightarrow> btree \<Rightarrow> db_native) \<Rightarrow> db_native" where
  "with_db f argc base dbs vm =
     do {
       r \<leftarrow> get_open_db_or_nil base dbs vm;
       (case r of None \<Rightarrow> keep_dbs dbs (return_val VNil vm) | Some (i, db) \<Rightarrow> f i db argc base dbs vm)
     }"

definition atom_to_value :: "atom \<Rightarrow> vm \<Rightarrow> val \<times> vm" where
  "atom_to_value a vm = (case a of ANumber d \<Rightarrow> (VNumber d, vm) | AString s \<Rightarrow> string_val s vm)"

definition btree_put_native :: "nat \<Rightarrow> db_native" where
  "btree_put_native fuel = checked_db [Argc_Eq 3, Is TUserdata 0] (with_db (\<lambda>i db argc base dbs vm.
     do {
       k \<leftarrow> parse_key_arg base 1 vm;
       (case k of
          Inl msg \<Rightarrow> keep_dbs dbs (fail_bytes msg vm)
        | Inr key \<Rightarrow> do {
            x \<leftarrow> arg base 2 vm;
            v \<leftarrow> atom_from_value (vheap vm) x ''btree value'';
            (case v of
               Inl msg \<Rightarrow> keep_dbs dbs (fail_bytes msg vm)
             | Inr v \<Rightarrow> do {
                 (ok, db) \<leftarrow> btree_put fuel db key v;
                 let dbs = dbs(i \<mapsto> db);
                 (if \<not> ok then keep_dbs dbs (fail ''btree.put failed.'' vm)
                  else do { u \<leftarrow> arg base 0 vm; keep_dbs dbs (return_val u vm) })
               })
          })
     }))"

definition btree_get_native :: "nat \<Rightarrow> db_native" where
  "btree_get_native fuel = checked_db [Argc_Eq 2, Is TUserdata 0] (with_db (\<lambda>i db argc base dbs vm.
     do {
       k \<leftarrow> parse_key_arg base 1 vm;
       (case k of
          Inl msg \<Rightarrow> keep_dbs dbs (fail_bytes msg vm)
        | Inr key \<Rightarrow> do {
            r \<leftarrow> btree_get_value fuel db key;
            keep_dbs dbs
              (case r of
                 GetMissing \<Rightarrow> return_val VNil vm
               | GetFailed \<Rightarrow> fail ''btree.get failed.'' vm
               | Got v \<Rightarrow> let (x, vm) = atom_to_value v vm in return_val x vm)
          })
     }))"

definition btree_delete_native :: "nat \<Rightarrow> db_native" where
  "btree_delete_native fuel = checked_db [Argc_Eq 2, Is TUserdata 0] (with_db (\<lambda>i db argc base dbs vm.
     do {
       k \<leftarrow> parse_key_arg base 1 vm;
       (case k of
          Inl msg \<Rightarrow> keep_dbs dbs (fail_bytes msg vm)
        | Inr key \<Rightarrow> do {
            (r, db) \<leftarrow> btree_delete fuel db key;
            let dbs = dbs(i \<mapsto> db);
            keep_dbs dbs
              (case r of None \<Rightarrow> fail ''btree.delete failed.'' vm | Some b \<Rightarrow> return_val (VBool b) vm)
          })
     }))"

definition btree_close_native :: db_native where
  "btree_close_native = checked_db [Argc_Eq 1, Is TUserdata 0] (\<lambda>argc base dbs vm.
     do {
       a \<leftarrow> arg_obj base 0 vm;
       u \<leftarrow> userdata_at (vheap vm) a;
       dbs \<leftarrow> (case udata u of
          None \<Rightarrow> Some dbs
        | Some i \<Rightarrow> do { db \<leftarrow> dbs i; Some (dbs(i \<mapsto> db\<lparr>bt_closed := True\<rparr>)) });
       keep_dbs dbs (return_val (VBool True) vm)
     })"

text \<open>A row \<open>{key: k, value: v}\<close> at the next index of the result.\<close>

definition add_row :: "addr \<Rightarrow> nat \<Rightarrow> atom \<times> atom \<Rightarrow> vm \<Rightarrow> vm option" where
  "add_row t i e vm =
     (let (row, vm) = alloc new_table vm in
      do {
        vm \<leftarrow> push (VObj row) vm;
        let (k, vm) = atom_to_value (fst e) vm;
        let (v, vm) = atom_to_value (snd e) vm;
        let (ks, vm) = alloc (\<lambda>h. copy_string h (bytes_of ''key'')) vm;
        vm \<leftarrow> heap_set row ks k vm;
        let (vs, vm) = alloc (\<lambda>h. copy_string h (bytes_of ''value'')) vm;
        vm \<leftarrow> heap_set row vs v vm;
        ot \<leftarrow> table_at (vheap vm) t;
        vm \<leftarrow> (case table_set_array (otable ot) (int i) (VObj row) of
          None \<Rightarrow> Some vm | Some t' \<Rightarrow> put_table t t' vm);
        pop_n 1 vm
      })"

fun add_rows :: "addr \<Rightarrow> nat \<Rightarrow> (atom \<times> atom) list \<Rightarrow> vm \<Rightarrow> vm option" where
  "add_rows t i [] vm = Some vm"
| "add_rows t i (e # es) vm = do { vm \<leftarrow> add_row t i e vm; add_rows t (i + 1) es vm }"

text \<open>An optional bound of a range: absent or nil, a key, or an error message.\<close>

definition range_bound :: "nat \<Rightarrow> nat \<Rightarrow> nat \<Rightarrow> vm \<Rightarrow> (bytes + atom option) option" where
  "range_bound argc base i vm =
     (if argc \<le> i then Some (Inr None)
      else do {
        v \<leftarrow> arg base i vm;
        (if is_nil v then Some (Inr None)
         else do {
           k \<leftarrow> parse_key_arg base i vm;
           Some (case k of Inl msg \<Rightarrow> Inl msg | Inr a \<Rightarrow> Inr (Some a))
         })
      })"

definition range_limit :: "nat \<Rightarrow> nat \<Rightarrow> vm \<Rightarrow> (bytes + nat option) option" where
  "range_limit argc base vm =
     (if argc \<le> 3 then Some (Inr None)
      else do {
        v \<leftarrow> arg base 3 vm;
        (case v of
           VNil \<Rightarrow> Some (Inr None)
         | VNumber n \<Rightarrow>
             if dlt n (dzero False) \<or> \<not> deq (dfloor n) n
             then Some (Inl (bytes_of ''btree.range limit must be a non-negative integer.''))
             else do { l \<leftarrow> cast_int n; Some (Inr (Some (nat l))) }
         | _ \<Rightarrow> Some (Inl (bytes_of ''btree.range limit must be a non-negative integer.'')))
      })"

definition btree_range_native :: "nat \<Rightarrow> db_native" where
  "btree_range_native fuel = checked_db [Argc_Ge 1] (\<lambda>argc base dbs vm.
     if 4 < argc then keep_dbs dbs (fail ''btree.range() expects at most 3 arguments.'' vm)
     else checked_db [Is TUserdata 0] (with_db (\<lambda>i db argc base dbs vm.
       do {
         mn \<leftarrow> range_bound argc base 1 vm;
         (case mn of
            Inl msg \<Rightarrow> keep_dbs dbs (fail_bytes msg vm)
          | Inr mn \<Rightarrow> do {
              mx \<leftarrow> range_bound argc base 2 vm;
              (case mx of
                 Inl msg \<Rightarrow> keep_dbs dbs (fail_bytes msg vm)
               | Inr mx \<Rightarrow> do {
                   l \<leftarrow> range_limit argc base vm;
                   (case l of
                      Inl msg \<Rightarrow> keep_dbs dbs (fail_bytes msg vm)
                    | Inr limit \<Rightarrow> do {
                        let (t, vm) = alloc new_table vm;
                        vm \<leftarrow> push (VObj t) vm;
                        let crossed = (case (mn, mx) of (Some a, Some b) \<Rightarrow> 0 < atom_compare a b | _ \<Rightarrow> False);
                        r \<leftarrow> (if limit = Some 0 \<or> crossed then Some (Some [])
                              else collect_range fuel db mn mx limit (bt_root db) 0);
                        (case r of
                           None \<Rightarrow> do { vm \<leftarrow> pop_n 1 vm; keep_dbs dbs (fail ''btree.range failed.'' vm) }
                         | Some es \<Rightarrow> do {
                             vm \<leftarrow> add_rows t 1 es vm;
                             (v, vm) \<leftarrow> pop vm;
                             keep_dbs dbs (return_val v vm)
                           })
                      })
                 })
            })
       })) argc base dbs vm)"

text \<open>
  The metatable \<open>_db_mt\<close> of the module, looked up under the name \<open>btree\<close> in the modules and then in
  the globals.
\<close>

definition db_metatable :: "vm \<Rightarrow> (addr option \<times> vm) option" where
  "db_metatable vm =
     (let (k, vm) = alloc (\<lambda>h. copy_string h (bytes_of ''btree'')) vm in
      do {
        m \<leftarrow> module_get k vm;
        km \<leftarrow> type_of (vheap vm) (or_nil m);
        m \<leftarrow> (if km = TTable then Some m else global_get k vm);
        km \<leftarrow> type_of (vheap vm) (or_nil m);
        (if km \<noteq> TTable then Some (None, vm)
         else do {
           a \<leftarrow> as_obj (or_nil m);
           let (mk, vm) = alloc (\<lambda>h. copy_string h (bytes_of ''_db_mt'')) vm;
           v \<leftarrow> heap_get a mk vm;
           kv \<leftarrow> type_of (vheap vm) (or_nil v);
           Some (if kv = TTable then as_obj (or_nil v) else None, vm)
         })
      })"

text \<open>\<open>n\<close> is the number the new database gets, \<open>fin\<close> the finalizer.\<close>

definition return_db :: "nat \<Rightarrow> nat \<Rightarrow> dbs \<Rightarrow> btree \<Rightarrow> vm \<Rightarrow> (bool \<times> dbs \<times> vm) option" where
  "return_db fin n dbs db vm =
     (let (a, vm) = alloc (\<lambda>h. new_userdata_with_hooks h (Some n) (Some fin) None) vm in
      do {
        (mt, vm) \<leftarrow> db_metatable vm;
        u \<leftarrow> userdata_at (vheap vm) a;
        let vm = vm\<lparr>vheap := put_obj (vheap vm) a (OUserdata (u\<lparr>umetatable := mt\<rparr>))\<rparr>;
        keep_dbs (dbs(n \<mapsto> db)) (return_val (VObj a) vm)
      })"

definition btree_open_native :: "nat \<Rightarrow> nat \<Rightarrow> (bytes \<Rightarrow> ((nat \<Rightarrow> bytes) \<times> nat) option) \<Rightarrow> db_native" where
  "btree_open_native fin n files argc base dbs vm =
     (if argc = 0 then do { db \<leftarrow> btree_open_memory; return_db fin n dbs db vm }
      else if argc = 1 then
        checked_db [Is TString 0] (\<lambda>argc base dbs vm.
          do {
            path \<leftarrow> arg_string base 0 vm;
            (case files (cstr path) of
               None \<Rightarrow> keep_dbs dbs (fail ''cannot open btree'' vm)
             | Some (pages, sz) \<Rightarrow> do {
                 r \<leftarrow> btree_open_file pages sz;
                 (case r of
                    None \<Rightarrow> keep_dbs dbs (fail ''cannot open btree'' vm)
                  | Some db \<Rightarrow> return_db fin n dbs db vm)
               })
          }) argc base dbs vm
      else keep_dbs dbs (fail ''btree.open() expects 0 or 1 argument.'' vm))"

text \<open>A method of the databases: a native with \<open>is_self\<close> in the metatable.\<close>

definition register_method :: "addr \<Rightarrow> string \<times> nat \<Rightarrow> vm \<Rightarrow> vm option" where
  "register_method mt f vm =
     (let (name, vm) = alloc (\<lambda>h. copy_string h (bytes_of (fst f))) vm in
      do {
        vm \<leftarrow> push (VObj name) vm;
        let (n, vm) = alloc (\<lambda>h. new_native h (snd f) (Some name)) vm;
        nt \<leftarrow> native_at (vheap vm) n;
        let vm = vm\<lparr>vheap := put_obj (vheap vm) n (ONative (nt\<lparr>nis_self := True\<rparr>))\<rparr>;
        vm \<leftarrow> push (VObj n) vm;
        vm \<leftarrow> heap_set mt name (VObj n) vm;
        pop_n 2 vm
      })"

fun register_methods :: "addr \<Rightarrow> (string \<times> nat) list \<Rightarrow> vm \<Rightarrow> vm option" where
  "register_methods mt [] vm = Some vm"
| "register_methods mt (f # fs) vm = do { vm \<leftarrow> register_method mt f vm; register_methods mt fs vm }"

definition btree_functions :: "(string \<times> nat) list" where
  "btree_functions = [(''open'', 1020)]"

definition btree_methods :: "(string \<times> nat) list" where
  "btree_methods = [(''put'', 1021), (''get'', 1022), (''delete'', 1023), (''range'', 1024), (''close'', 1025)]"

text \<open>The module stays below its metatable on the stack until both are complete.\<close>

definition register_btree :: "vm \<Rightarrow> vm option" where
  "register_btree vm =
     do {
       vm \<leftarrow> register_module (Some ''btree'') btree_functions vm;
       m \<leftarrow> peek 0 vm;
       module \<leftarrow> as_obj m;
       let (mt, vm) = alloc new_table vm;
       vm \<leftarrow> push (VObj mt) vm;
       vm \<leftarrow> register_methods mt btree_methods vm;
       vm \<leftarrow> set_guarded mt (bytes_of ''__index'') (VObj mt) vm;
       let (k, vm) = alloc (\<lambda>h. copy_string h (bytes_of ''__name'')) vm;
       vm \<leftarrow> push (VObj k) vm;
       let (v, vm) = alloc (\<lambda>h. copy_string h (bytes_of ''btree.db'')) vm;
       vm \<leftarrow> push (VObj v) vm;
       vm \<leftarrow> heap_set mt k (VObj v) vm;
       vm \<leftarrow> pop_n 2 vm;
       vm \<leftarrow> set_guarded module (bytes_of ''_db_mt'') (VObj mt) vm;
       pop_n 2 vm
     }"

end
