(* ===== verification/Btree_Page.thy ===== *)
theory Btree_Page
  imports Lib_Btree
begin

text \<open>
  The pages of the B-tree: what \<open>node_write\<close> puts into a page, \<open>node_load\<close> reads back, and a node is
  written exactly when its records and their slots fit into the page.
\<close>

section \<open>Atoms\<close>

text \<open>Atoms that keys and values can be: no NaN, strings of at most \<open>2\<^sup>3\<^sup>1 - 1\<close> bytes.\<close>

fun wf_atom :: "atom \<Rightarrow> bool" where
  "wf_atom (ANumber d) = (wf_double d \<and> d \<noteq> NaN)"
| "wf_atom (AString s) = (length s < 2 ^ 31)"

abbreviation asize :: "atom \<Rightarrow> nat" where
  "asize a \<equiv> length (atom_bytes a)"

lemma asize: "atom_encoded_size a = of_nat (asize a)"
  by (cases a) simp_all

lemma unat_of_nat_less: "n < 2 ^ 32 \<Longrightarrow> unat (of_nat n :: u32) = n"
  by (simp add: unat_of_nat)

lemma asize_bound: "wf_atom a \<Longrightarrow> asize a < 2 ^ 31 + 5"
  by (cases a) simp_all

lemma unat_asize: "wf_atom a \<Longrightarrow> unat (atom_encoded_size a) = asize a"
  unfolding asize using asize_bound [of a] by (intro unat_of_nat_less) simp

lemma asize_pos: "0 < asize a"
  by (cases a) simp_all

lemma slice_part: "slice bs i n = Some xs \<Longrightarrow> j + k \<le> n \<Longrightarrow> slice bs (i + j) k = Some (take k (drop j xs))"
  by (auto simp: slice_def take_drop min_def add.commute add.left_commute split: if_splits)

lemma slice_nth: "slice bs i n = Some xs \<Longrightarrow> j < n \<Longrightarrow> at bs (i + j) = Some (xs ! j)"
  by (auto simp: slice_def at_def split: if_splits)

lemma atom_decode_bytes:
  assumes "slice page i (asize a) = Some (atom_bytes a)" "asize a \<le> unat room" "wf_atom a"
  shows "atom_decode page i room = Some (Some (a, of_nat (asize a)))"
proof -
  have ty: "at page i = Some (atom_bytes a ! 0)" using slice_nth [OF assms(1), of 0] asize_pos by simp
  show ?thesis
  proof (cases a)
    case (ANumber d)
    have "slice page (i + 1) 8 = Some (double_bytes d)"
      using slice_part [OF assms(1), of 1 8] ANumber by simp
    moreover have "\<not> room < 9" "\<not> room < 1" using assms(2) ANumber by (simp_all add: word_less_nat_alt)
    ultimately show ?thesis using ANumber ty assms(3) bytes_double_bytes
      by (simp add: atom_decode_def del: at_Some_iff)
  next
    case (AString s)
    have "slice page (i + 1) 4 = Some (le32 (of_nat (length s)))"
      using slice_part [OF assms(1), of 1 4] AString by simp
    then have len: "rd_u32 page (i + 1) = Some (of_nat (length s))" by (simp add: rd_u32_def)
    have l: "unat (of_nat (length s) :: u32) = length s" using assms(3) AString by (simp add: unat_of_nat)
    have s: "slice page (i + 5) (length s) = Some s"
      using slice_part [OF assms(1), of 5 "length s"] AString by simp
    have n: "(5 :: u32) + of_nat (length s) = of_nat (5 + length s)" by simp
    have "unat (5 + of_nat (length s) :: u32) = 5 + length s"
      unfolding n using assms(3) AString by (simp add: unat_of_nat del: of_nat_add)
    then have "\<not> room < 5 + of_nat (length s)" "\<not> room < 5" "\<not> room < 1"
      using assms(2) AString by (simp_all add: word_less_nat_alt)
    then show ?thesis using AString ty len l s
      by (simp add: atom_decode_def del: at_Some_iff)
  qed
qed

section \<open>Adding records to a page\<close>

definition space :: "bytes list \<Rightarrow> nat" where
  "space rcs = 4096 - sum_list (map length rcs)"

definition rooms :: "bytes list \<Rightarrow> nat" where
  "rooms rcs = 16 + 2 * length rcs + sum_list (map length rcs)"

definition layout :: "byte \<Rightarrow> u32 \<Rightarrow> bytes list \<Rightarrow> bytes \<Rightarrow> bool" where
  "layout ty left rcs page \<longleftrightarrow> length page = 4096 \<and> rooms rcs \<le> 4096 \<and>
     at page 0 = Some ty \<and> rd_u16 page 2 = Some (of_nat (length rcs)) \<and>
     rd_u16 page 4 = Some (of_nat (16 + 2 * length rcs)) \<and> rd_u16 page 6 = Some (of_nat (space rcs)) \<and>
     rd_u32 page 8 = Some left \<and>
     (\<forall>j < length rcs. \<exists>off. rd_u16 page (16 + 2 * j) = Some (of_nat off) \<and> space rcs \<le> off \<and>
        off + length (rcs ! j) \<le> 4096 \<and> slice page off (length (rcs ! j)) = Some (rcs ! j))"

lemma layout_init: "layout ty left [] (page_init ty left)"
proof -
  let ?p = "page_init ty left"
  have "length ?p = 4096" by (simp add: page_init_def)
  moreover have "at ?p 0 = Some ty" by (simp add: page_init_def)
  moreover have "slice ?p 2 2 = Some (le16 0)" "slice ?p 4 2 = Some (le16 16)" "slice ?p 6 2 = Some (le16 4096)"
    "slice ?p 8 4 = Some (le32 left)"
    by (simp_all add: slice_def page_init_def le16_def le32_def eval_nat_numeral)
  ultimately show ?thesis by (simp add: layout_def rooms_def space_def rd_u16_def rd_u32_def)
qed

lemma rd_slice_cong:
  "slice bs' i 2 = slice bs i 2 \<Longrightarrow> rd_u16 bs' i = rd_u16 bs i" "slice bs' i 4 = slice bs i 4 \<Longrightarrow> rd_u32 bs' i = rd_u32 bs i"
  by (simp_all add: rd_u16_def rd_u32_def)

lemma wr_u16_read:
  assumes "wr_u16 bs i w = Some bs'"
  shows "length bs' = length bs" "rd_u16 bs' i = Some w" "j + n \<le> i \<or> i + 2 \<le> j \<Longrightarrow> slice bs' j n = slice bs j n"
  using assms splice_length [of bs i "le16 w" bs'] slice_splice_same [of bs i "le16 w" bs']
    slice_splice_other [of bs i "le16 w" bs' j n]
  by (simp_all add: wr_u16_def rd_u16_def)

lemma wr_u16_ok: "i + 2 \<le> length bs \<Longrightarrow> \<exists>bs'. wr_u16 bs i w = Some bs'"
  by (simp add: wr_u16_def splice_def)

lemma at_slice: "slice bs' i 1 = slice bs i 1 \<Longrightarrow> i < length bs \<Longrightarrow> i < length bs' \<Longrightarrow> at bs' i = at bs i"
  using slice_nth [of bs' i 1 _ 0] slice_nth [of bs i 1 _ 0] by (simp add: slice_def at_def)

lemma unat16: "n < 65536 \<Longrightarrow> unat (of_nat n :: u16) = n"
  by (simp add: unat_of_nat)

lemma room_check:
  assumes "fs \<le> fe" "fe \<le> 4096" "len \<le> 65535"
  shows "word_of_int (int (unat (of_nat fe :: u16)) - int (unat (of_nat fs :: u16))) < (of_nat len + 2 :: u32) \<longleftrightarrow>
    fe - fs < len + 2"
proof -
  have "int (unat (of_nat fe :: u16)) - int (unat (of_nat fs :: u16)) = int (fe - fs)"
    using assms by (simp add: unat16 of_nat_diff)
  then have "word_of_int (int (unat (of_nat fe :: u16)) - int (unat (of_nat fs :: u16))) = (of_nat (fe - fs) :: u32)"
    by (simp only: of_int_of_nat_eq)
  moreover have "(of_nat len + 2 :: u32) = of_nat (len + 2)" by simp
  moreover have "unat (of_nat (fe - fs) :: u32) = fe - fs" "unat (of_nat (len + 2) :: u32) = len + 2"
    by (rule unat_of_nat_less, use assms in simp)+
  ultimately show ?thesis by (simp only: word_less_nat_alt)
qed

lemma sum_lengths: "rooms rcs \<le> 4096 \<Longrightarrow> sum_list (map length rcs) + space rcs = 4096 \<and> 16 + 2 * length rcs \<le> space rcs"
  by (simp add: rooms_def space_def)

lemma layout_add:
  assumes l: "layout ty left rcs page" and fit: "rooms (rcs @ [rc]) \<le> 4096"
  shows "\<exists>page'. page_add_record page (of_nat (length rcs)) rc = Some (Some page') \<and> layout ty left (rcs @ [rc]) page'"
proof -
  let ?n = "length rcs" and ?fe = "space rcs" and ?off = "space rcs - length rc"
  have r: "rooms rcs \<le> 4096" "16 + 2 * ?n + 2 + length rc \<le> ?fe" "?fe \<le> 4096"
    using fit l sum_lengths [of rcs] by (auto simp: rooms_def layout_def space_def)
  have L: "length page = 4096" "at page 0 = Some ty" "rd_u16 page 2 = Some (of_nat ?n)"
    "rd_u16 page 4 = Some (of_nat (16 + 2 * ?n))" "rd_u16 page 6 = Some (of_nat ?fe)" "rd_u32 page 8 = Some left"
    using l by (simp_all add: layout_def)
  have new: "(of_nat ?fe :: u16) - of_nat (length rc) = of_nat ?off" using r by (simp add: of_nat_diff)
  have cmp: "\<not> word_of_int (int (unat (of_nat ?fe :: u16)) - int (unat (of_nat (16 + 2 * ?n) :: u16))) < (of_nat (length rc) + 2 :: u32)"
    using room_check [of "16 + 2 * ?n" ?fe "length rc"] r by simp
  obtain p1 where p1: "splice page ?off rc = Some p1" using r L(1) by (simp add: splice_def)
  have len1: "length p1 = 4096" using splice_length [OF p1] L(1) by simp
  obtain p2 where p2: "wr_u16 p1 (16 + ?n * 2) (of_nat ?off) = Some p2" using wr_u16_ok [of "16 + ?n * 2" p1] r len1 by auto
  note w2 = wr_u16_read [OF p2]
  obtain p3 where p3: "wr_u16 p2 2 (of_nat ?n + 1) = Some p3" using wr_u16_ok [of 2 p2] w2(1) len1 by auto
  note w3 = wr_u16_read [OF p3]
  obtain p4 where p4: "wr_u16 p3 4 (of_nat (16 + 2 * ?n) + 2) = Some p4" using wr_u16_ok [of 4 p3] w2(1) w3(1) len1 by auto
  note w4 = wr_u16_read [OF p4]
  obtain p5 where p5: "wr_u16 p4 6 (of_nat ?off) = Some p5" using wr_u16_ok [of 6 p4] w2(1) w3(1) w4(1) len1 by auto
  note w5 = wr_u16_read [OF p5]
  have "unat (of_nat ?n :: u16) = ?n" "unat (of_nat ?off :: u16) = ?off" by (rule unat16, use r in simp)+
  then have run: "page_add_record page (of_nat ?n) rc = Some (Some p5)"
    using L cmp p1 p2 p3 p4 p5 by (simp add: page_add_record_def new shift_slots.simps page_set_slot_def Let_def)
  have len: "length p5 = 4096" using len1 w2(1) w3(1) w4(1) w5(1) by simp
  text \<open>Outside of the header, the new slot and the new record nothing changes.\<close>
  have keep: "slice p5 j m = slice page j m"
    if "8 \<le> j \<or> j + m \<le> 2" "j + m \<le> 16 + ?n * 2 \<or> 18 + ?n * 2 \<le> j" "j + m \<le> ?off \<or> ?fe \<le> j" for j m
  proof -
    have "slice p5 j m = slice p4 j m" using w5(3) [of j m] that(1) by auto
    also have "\<dots> = slice p3 j m" using w4(3) [of j m] that(1) by auto
    also have "\<dots> = slice p2 j m" using w3(3) [of j m] that(1) by auto
    also have "\<dots> = slice p1 j m" using w2(3) [of j m] that(2) by auto
    also have "\<dots> = slice page j m" using slice_splice_other [OF p1, of j m] that(3) r by auto
    finally show ?thesis .
  qed
  have "slice p5 0 1 = slice page 0 1" using keep [of 0 1] r by simp
  then have h0: "at p5 0 = Some ty" using at_slice [of p5 0 page] L len by simp
  have h8: "rd_u32 p5 8 = Some left" using rd_slice_cong(2) [of p5 8 page] keep [of 8 4] L r by simp
  have "rd_u16 p5 4 = rd_u16 p4 4" using w5(3) [of 4 2] by (intro rd_slice_cong) simp
  then have h4: "rd_u16 p5 4 = Some (of_nat (16 + 2 * length (rcs @ [rc])))" using w4(2) by simp
  have "rd_u16 p5 2 = rd_u16 p3 2" using w5(3) [of 2 2] w4(3) [of 2 2] by (intro rd_slice_cong) simp
  then have h2: "rd_u16 p5 2 = Some (of_nat (length (rcs @ [rc])))" using w3(2) by simp
  have sp: "space (rcs @ [rc]) = ?off" by (simp add: space_def)
  have slots: "\<exists>off. rd_u16 p5 (16 + 2 * j) = Some (of_nat off) \<and> space (rcs @ [rc]) \<le> off \<and>
        off + length ((rcs @ [rc]) ! j) \<le> 4096 \<and> slice p5 off (length ((rcs @ [rc]) ! j)) = Some ((rcs @ [rc]) ! j)"
    if "j < length (rcs @ [rc])" for j
  proof (cases "j = ?n")
    case True
    have "slice p5 (16 + ?n * 2) 2 = slice p2 (16 + ?n * 2) 2"
      using w5(3) [of "16 + ?n * 2" 2] w4(3) [of "16 + ?n * 2" 2] w3(3) [of "16 + ?n * 2" 2] by simp
    then have "rd_u16 p5 (16 + 2 * j) = Some (of_nat ?off)"
      using w2(2) rd_slice_cong(1) [of p5 "16 + ?n * 2" p2] True by (simp add: mult.commute)
    moreover have "slice p5 ?off (length rc) = slice p1 ?off (length rc)"
      using w5(3) [of ?off "length rc"] w4(3) [of ?off "length rc"] w3(3) [of ?off "length rc"]
        w2(3) [of ?off "length rc"] r by simp
    ultimately show ?thesis using slice_splice_same [OF p1] True sp r
      by (intro exI [of _ ?off]) (simp del: of_nat_diff)
  next
    case False
    then have j: "j < ?n" using that by simp
    then obtain off where off: "rd_u16 page (16 + 2 * j) = Some (of_nat off)" "?fe \<le> off"
      "off + length (rcs ! j) \<le> 4096" "slice page off (length (rcs ! j)) = Some (rcs ! j)"
      using l by (auto simp: layout_def)
    have "rd_u16 p5 (16 + 2 * j) = rd_u16 page (16 + 2 * j)"
      using keep [of "16 + 2 * j" 2] j r by (intro rd_slice_cong) simp
    moreover have "slice p5 off (length (rcs ! j)) = slice page off (length (rcs ! j))"
      using keep [of off "length (rcs ! j)"] off(2) r by simp
    ultimately show ?thesis using off j sp by (auto simp: nth_append)
  qed
  have "layout ty left (rcs @ [rc]) p5"
    unfolding layout_def sp using len fit h0 h2 h4 w5(2) h8 slots sp by auto
  then show ?thesis using run by blast
qed

lemma layout_full:
  assumes l: "layout ty left rcs page" and full: "4096 < rooms (rcs @ [rc])" and "length rc \<le> 65535"
  shows "page_add_record page (of_nat (length rcs)) rc = Some None"
proof -
  let ?n = "length rcs" and ?fe = "space rcs"
  have r: "rooms rcs \<le> 4096" "16 + 2 * ?n \<le> ?fe" "?fe < 16 + 2 * ?n + 2 + length rc" "?fe \<le> 4096"
    using full l sum_lengths [of rcs] by (auto simp: rooms_def layout_def space_def)
  have "word_of_int (int (unat (of_nat ?fe :: u16)) - int (unat (of_nat (16 + 2 * ?n) :: u16))) < (of_nat (length rc) + 2 :: u32)"
    using room_check [of "16 + 2 * ?n" ?fe "length rc"] r assms(3) by simp
  then show ?thesis using l by (simp add: page_add_record_def layout_def)
qed

end
