(* ===== verification/Btree_Order.thy ===== *)
theory Btree_Order
  imports Btree_Page "HOL-Library.List_Lexorder"
begin

text \<open>
  The order of the keys. \<open>key_order\<close> is what the tree relies on: a three-way comparison that is a
  total preorder. On it, \<open>find_entry\<close> and \<open>upd\<close> are lookup and update of a sorted association list.
  \<open>atom_compare\<close> is such a comparison, with numbers before strings.
\<close>

section \<open>Three-way comparisons\<close>

locale key_order =
  fixes cmp :: "'k \<Rightarrow> 'k \<Rightarrow> int" and ok :: "'k \<Rightarrow> bool"
  assumes cmp_refl: "ok a \<Longrightarrow> cmp a a = 0"
    and cmp_sym: "ok a \<Longrightarrow> ok b \<Longrightarrow> cmp a b < 0 \<longleftrightarrow> 0 < cmp b a"
    and cmp_trans: "ok a \<Longrightarrow> ok b \<Longrightarrow> ok c \<Longrightarrow> cmp a b \<le> 0 \<Longrightarrow> cmp b c \<le> 0 \<Longrightarrow> cmp a c \<le> 0"
begin

lemma less_trans:
  assumes "ok a" "ok b" "ok c" "cmp a b < 0" "cmp b c \<le> 0"
  shows "cmp a c < 0"
proof -
  have "\<not> cmp c a \<le> 0"
  proof
    assume "cmp c a \<le> 0"
    then have "cmp b a \<le> 0" using cmp_trans [of b c a] assms by simp
    then show False using cmp_sym [of a b] assms by simp
  qed
  then show ?thesis using cmp_sym [of a c] assms by simp
qed

lemma less_trans2:
  assumes "ok a" "ok b" "ok c" "cmp a b \<le> 0" "cmp b c < 0"
  shows "cmp a c < 0"
proof -
  have "\<not> cmp c a \<le> 0"
  proof
    assume "cmp c a \<le> 0"
    then have "cmp c b \<le> 0" using cmp_trans [of c a b] assms by simp
    then show False using cmp_sym [of b c] assms by simp
  qed
  then show ?thesis using cmp_sym [of a c] assms by simp
qed

lemma cmp_zero_sym: "ok a \<Longrightarrow> ok b \<Longrightarrow> cmp a b = 0 \<longleftrightarrow> cmp b a = 0"
  using cmp_sym [of a b] cmp_sym [of b a] by linarith

lemma not_less: "ok a \<Longrightarrow> ok b \<Longrightarrow> \<not> cmp a b < 0 \<longleftrightarrow> cmp b a \<le> 0"
  using cmp_sym [of a b] by linarith

end

section \<open>Sorted association lists\<close>

definition ascending :: "('k \<Rightarrow> 'k \<Rightarrow> int) \<Rightarrow> ('k \<times> 'v) list \<Rightarrow> bool" where
  "ascending cmp es = sorted_wrt (\<lambda>a b. cmp (fst a) (fst b) < 0) es"

fun find_entry :: "('k \<Rightarrow> 'k \<Rightarrow> int) \<Rightarrow> ('k \<times> 'v) list \<Rightarrow> 'k \<Rightarrow> 'v option" where
  "find_entry cmp [] k = None"
| "find_entry cmp (e # es) k = (if cmp k (fst e) = 0 then Some (snd e) else find_entry cmp es k)"

fun upd :: "('k \<Rightarrow> 'k \<Rightarrow> int) \<Rightarrow> ('k \<times> 'v) list \<Rightarrow> 'k \<Rightarrow> 'v \<Rightarrow> ('k \<times> 'v) list" where
  "upd cmp [] k v = [(k, v)]"
| "upd cmp (e # es) k v =
     (if cmp k (fst e) < 0 then (k, v) # e # es
      else if cmp k (fst e) = 0 then (fst e, v) # es
      else e # upd cmp es k v)"

lemma ascending_simps [simp]:
  "ascending cmp []"
  "ascending cmp (e # es) \<longleftrightarrow> (\<forall>x \<in> set es. cmp (fst e) (fst x) < 0) \<and> ascending cmp es"
  by (simp_all add: ascending_def)

lemma ascending_append:
  "ascending cmp (xs @ ys) \<longleftrightarrow>
    ascending cmp xs \<and> ascending cmp ys \<and> (\<forall>x \<in> set xs. \<forall>y \<in> set ys. cmp (fst x) (fst y) < 0)"
  by (induction xs) auto

lemma find_entry_append:
  "find_entry cmp (xs @ ys) k = (case find_entry cmp xs k of Some v \<Rightarrow> Some v | None \<Rightarrow> find_entry cmp ys k)"
  by (induction xs) auto

lemma find_entry_None: "find_entry cmp es k = None \<longleftrightarrow> (\<forall>e \<in> set es. cmp k (fst e) \<noteq> 0)"
  by (induction es) auto

lemma upd_append_left:
  "\<forall>y \<in> set ys. cmp k (fst y) < 0 \<Longrightarrow> upd cmp (xs @ ys) k v = upd cmp xs k v @ ys"
  by (induction xs) (auto simp: neq_Nil_conv intro: list.exhaust [of ys])

lemma upd_append_right:
  "\<forall>x \<in> set xs. 0 < cmp k (fst x) \<Longrightarrow> upd cmp (xs @ ys) k v = xs @ upd cmp ys k v"
  by (induction xs) auto

lemma upd_keys: "e \<in> set (upd cmp es k v) \<Longrightarrow> fst e = k \<or> (\<exists>x \<in> set es. fst x = fst e)"
  by (induction es) (auto split: if_splits)

context key_order
begin

lemma find_upd:
  assumes "\<forall>e \<in> set es. ok (fst e)" "ok k" "ok k'"
  shows "find_entry cmp (upd cmp es k v) k' = (if cmp k' k = 0 then Some v else find_entry cmp es k')"
  using assms(1)
proof (induction es)
  case (Cons e es)
  have e: "ok (fst e)" and IH: "find_entry cmp (upd cmp es k v) k' = (if cmp k' k = 0 then Some v else find_entry cmp es k')"
    using Cons by simp_all
  show ?case
  proof (cases "cmp k (fst e) = 0")
    case True
    have "cmp k' (fst e) = 0 \<longleftrightarrow> cmp k' k = 0"
    proof -
      have z: "cmp (fst e) k = 0" using True cmp_zero_sym [of k "fst e"] assms(2) e by simp
      have A: "cmp k' (fst e) \<le> 0 \<longleftrightarrow> cmp k' k \<le> 0"
        using cmp_trans [of k' "fst e" k] cmp_trans [of k' k "fst e"] True z assms e by auto
      have B: "cmp (fst e) k' \<le> 0 \<longleftrightarrow> cmp k k' \<le> 0"
        using cmp_trans [of "fst e" k k'] cmp_trans [of k "fst e" k'] True z assms e by auto
      have "cmp k' (fst e) < 0 \<longleftrightarrow> 0 < cmp (fst e) k'" "cmp k' k < 0 \<longleftrightarrow> 0 < cmp k k'"
        using cmp_sym assms e by simp_all
      then show ?thesis using A B by linarith
    qed
    then show ?thesis using True by auto
  next
    case False
    have "cmp k' (fst e) \<noteq> 0" if "cmp k' k = 0"
    proof
      assume "cmp k' (fst e) = 0"
      then have "cmp k (fst e) \<le> 0" "cmp (fst e) k \<le> 0"
        using that cmp_zero_sym [of k' k] cmp_zero_sym [of k' "fst e"] cmp_trans [of k k' "fst e"] cmp_trans [of "fst e" k' k]
          assms(2,3) e by simp_all
      then show False using False cmp_sym [of k "fst e"] assms(2) e by simp
    qed
    then show ?thesis using False IH by auto
  qed
qed simp

lemma ascending_upd:
  assumes "ascending cmp es" "\<forall>e \<in> set es. ok (fst e)" "ok k"
  shows "ascending cmp (upd cmp es k v)"
  using assms(1,2)
proof (induction es)
  case (Cons e es)
  then have e: "ok (fst e)" "\<forall>x \<in> set es. ok (fst x)" "\<forall>x \<in> set es. cmp (fst e) (fst x) < 0" "ascending cmp es" by simp_all
  consider (l) "cmp k (fst e) < 0" | (e) "cmp k (fst e) = 0" | (g) "0 < cmp k (fst e)" by linarith
  then show ?case
  proof cases
    case l
    have "cmp k (fst x) < 0" if "x \<in> set es" for x
      using less_trans [of k "fst e" "fst x"] that l e assms(3) by fastforce
    then show ?thesis using l e by simp
  next
    case g
    then have "cmp (fst e) k < 0" using cmp_sym [of "fst e" k] e(1) assms(3) by simp
    moreover have "ascending cmp (upd cmp es k v)" using Cons by simp
    moreover have "cmp (fst e) (fst x) < 0" if "x \<in> set (upd cmp es k v)" for x
      using upd_keys [OF that] e(3) \<open>cmp (fst e) k < 0\<close> by fastforce
    ultimately show ?thesis using g by simp
  qed (use e in simp)
qed simp

end

section \<open>The order of the atoms\<close>

text \<open>A number's place in the order: its value in units of the least positive double.\<close>

fun drank :: "double \<Rightarrow> int \<times> int" where
  "drank NaN = (2, 0)"
| "drank (Inf s) = (if s then - 1 else 1, 0)"
| "drank (Fin s m e) = (0, aligned s m e (- 1074))"

lemma aligned_down:
  assumes "e0 \<le> e" "-1074 \<le> e0"
  shows "aligned s m e (- 1074) = aligned s m e e0 * 2 ^ nat (e0 + 1074)"
proof -
  have "nat (e - (- 1074)) = nat (e - e0) + nat (e0 + 1074)" using assms by simp
  then show ?thesis by (simp add: aligned_def Let_def power_add)
qed

lemma dlt_drank:
  assumes "wf_double x" "wf_double y" "x \<noteq> NaN" "y \<noteq> NaN"
  shows "dlt x y \<longleftrightarrow> fst (drank x) < fst (drank y) \<or> fst (drank x) = fst (drank y) \<and> snd (drank x) < snd (drank y)"
proof (cases x; cases y)
  fix s m e s' m' e'
  assume x: "x = Fin s m e" and y: "y = Fin s' m' e'"
  have e: "-1074 \<le> min e e'" using assms x y by auto
  have "0 < (2::int) ^ nat (min e e' + 1074)" by simp
  then show ?thesis using aligned_down [of "min e e'" e s m] aligned_down [of "min e e'" e' s' m'] e x y
    by (simp add: Let_def)
qed (use assms in \<open>auto split: if_splits\<close>)

lemma memcmp_less:
  "memcmp (take (min (length s) (length t)) s) (take (min (length s) (length t)) t) < 0 \<or>
     memcmp (take (min (length s) (length t)) s) (take (min (length s) (length t)) t) = 0 \<and> length s < length t \<longleftrightarrow> s < t"
proof (induction s arbitrary: t)
  case Nil
  then show ?case by (cases t) simp_all
next
  case (Cons a s)
  show ?case
  proof (cases t)
    case (Cons b t')
    consider "a < b" | "b < a" | "a = b" by (rule linorder_cases)
    then show ?thesis using Cons Cons.IH [of t'] by cases auto
  qed simp
qed

lemma memcmp_refl [simp]: "memcmp s s = 0"
  by (induction s) simp_all

lemma memcmp_sym: "memcmp s t = - memcmp t s"
proof (induction s arbitrary: t)
  case (Cons a s)
  show ?case
  proof (cases t)
    case (Cons b t')
    consider "a < b" | "b < a" | "a = b" by (rule linorder_cases)
    then show ?thesis using Cons Cons.IH [of t'] by cases (simp_all add: not_less_iff_gr_or_eq)
  qed simp
qed simp

lemma string_less: "atom_compare (AString s) (AString t) < 0 \<longleftrightarrow> s < t"
  unfolding memcmp_less [symmetric] by (simp add: Let_def)

lemma string_sym: "atom_compare (AString s) (AString t) = - atom_compare (AString t) (AString s)"
  using memcmp_sym [of "take (min (length s) (length t)) s" "take (min (length s) (length t)) t"]
  by (simp add: Let_def min.commute [of "length t"])

lemma number_less:
  assumes "wf_atom (ANumber x)" "wf_atom (ANumber y)"
  shows "atom_compare (ANumber x) (ANumber y) < 0 \<longleftrightarrow> dlt x y" "0 < atom_compare (ANumber x) (ANumber y) \<longleftrightarrow> dlt y x"
  using assms dlt_drank [of x y] dlt_drank [of y x] by auto

lemma atom_sym: "wf_atom a \<Longrightarrow> wf_atom b \<Longrightarrow> atom_compare a b < 0 \<longleftrightarrow> 0 < atom_compare b a"
proof (cases a; cases b)
  fix x y
  assume "wf_atom a" "wf_atom b" "a = ANumber x" "b = ANumber y"
  then show ?thesis using number_less(1) [of x y] number_less(2) [of y x] by (simp only:)
next
  fix s t
  assume "a = AString s" "b = AString t"
  then show ?thesis using string_sym [of s t] by (simp only:) linarith
qed simp_all

lemma number_le:
  "wf_atom (ANumber x) \<Longrightarrow> wf_atom (ANumber y) \<Longrightarrow> atom_compare (ANumber x) (ANumber y) \<le> 0 \<longleftrightarrow> \<not> dlt y x"
  using number_less(2) [of x y] by linarith

lemma string_le: "atom_compare (AString s) (AString t) \<le> 0 \<longleftrightarrow> s \<le> t"
proof -
  have "atom_compare (AString s) (AString t) \<le> 0 \<longleftrightarrow> \<not> atom_compare (AString t) (AString s) < 0"
    using string_sym [of s t] by linarith
  then show ?thesis unfolding string_less by auto
qed

lemma atom_trans:
  assumes "wf_atom a" "wf_atom b" "wf_atom c" "atom_compare a b \<le> 0" "atom_compare b c \<le> 0"
  shows "atom_compare a c \<le> 0"
proof -
  consider (n) x y z where "a = ANumber x" "b = ANumber y" "c = ANumber z"
    | (s) x y z where "a = AString x" "b = AString y" "c = AString z"
    | (m) x z where "a = ANumber x" "c = AString z"
  proof (cases a; cases b; cases c)
  qed (use assms(4,5) n s m in \<open>simp_all del: atom_compare.simps(1,2)\<close>)
  then show ?thesis
  proof cases
    case n
    then have "\<not> dlt y x" "\<not> dlt z y" using assms number_le by (simp_all del: atom_compare.simps wf_atom.simps)
    then have "\<not> dlt z x" using assms(1-3) n dlt_drank [of y x] dlt_drank [of z y] dlt_drank [of z x] by auto
    then show ?thesis using n assms number_le by (simp del: atom_compare.simps wf_atom.simps)
  next
    case s
    have "x \<le> y" "y \<le> z" using assms(4,5) unfolding s string_le by simp_all
    then have "x \<le> z" by (rule order_trans)
    then show ?thesis unfolding s string_le .
  qed simp
qed

lemma atom_refl: "wf_atom a \<Longrightarrow> atom_compare a a = 0"
  using dlt_drank by (cases a) (auto simp: Let_def)

interpretation ak: key_order atom_compare wf_atom
  by unfold_locales (fact atom_refl, fact atom_sym, fact atom_trans)

end
