(* ===== verification/Btree_Node.thy ===== *)
theory Btree_Node
  imports Btree_Order
begin

text \<open>
  Nodes and pages: a node is written exactly when its records fit into a page, and reading the page
  gives the node back.
\<close>

section \<open>Records\<close>

definition leaf_rec :: "atom \<times> atom \<Rightarrow> bytes" where
  "leaf_rec e = atom_bytes (fst e) @ atom_bytes (snd e)"

definition inner_rec :: "atom \<times> u32 \<Rightarrow> bytes" where
  "inner_rec e = atom_bytes (fst e) @ le32 (snd e)"

fun node_recs :: "node \<Rightarrow> bytes list" where
  "node_recs (LeafNode es) = map leaf_rec es"
| "node_recs (InternalNode _ es) = map inner_rec es"

fun wf_node :: "node \<Rightarrow> bool" where
  "wf_node (LeafNode es) = (\<forall>e \<in> set es. wf_atom (fst e) \<and> wf_atom (snd e))"
| "wf_node (InternalNode _ es) = (\<forall>e \<in> set es. wf_atom (fst e))"

fun node_type :: "node \<Rightarrow> byte" where
  "node_type (LeafNode _) = 1"
| "node_type (InternalNode _ _) = 2"

fun node_left :: "node \<Rightarrow> u32" where
  "node_left (LeafNode _) = 0"
| "node_left (InternalNode left _) = left"

abbreviation node_room :: "node \<Rightarrow> nat" where
  "node_room nd \<equiv> rooms (node_recs nd)"

lemma of_nat_sum_small: "a + b < 2 ^ 32 \<Longrightarrow> unat (of_nat a + of_nat b :: u32) = a + b"
  using unat_of_nat_less [of "a + b"] by simp

lemma encode_leaf_record:
  assumes "wf_atom (fst e)" "wf_atom (snd e)"
  shows "encode_leaf_record e = (if length (leaf_rec e) \<le> 65535 then Some (leaf_rec e) else None)"
proof -
  let ?k = "asize (fst e)" and ?v = "asize (snd e)"
  define rs where "rs = atom_encoded_size (fst e) + atom_encoded_size (snd e)"
  have b: "?k < 2 ^ 31 + 5" "?v < 2 ^ 31 + 5" using assms asize_bound by blast+
  have uk: "unat (atom_encoded_size (fst e)) = ?k" "unat (atom_encoded_size (snd e)) = ?v" using assms unat_asize by simp_all
  have rs: "unat rs = (?k + ?v) mod 2 ^ 32"
    unfolding rs_def using uk by (simp add: unat_word_ariths)
  show ?thesis
  proof (cases "?k + ?v \<le> 65535")
    case True
    then have "unat rs = ?k + ?v" using rs by simp
    moreover have "unat (rs - atom_encoded_size (fst e)) = ?v" by (simp add: rs_def uk)
    ultimately show ?thesis using True uk
      by (simp add: encode_leaf_record_def Let_def rs_def [symmetric] atom_encode_def word_less_nat_alt leaf_rec_def)
  next
    case False
    have "65535 < rs \<or> rs < atom_encoded_size (fst e)"
    proof (cases "?k + ?v < 2 ^ 32")
      case True
      then show ?thesis using rs False by (simp add: word_less_nat_alt)
    next
      case wrap: False
      then have "(?k + ?v) mod 2 ^ 32 = ?k + ?v - 2 ^ 32" using b by (simp add: mod_if)
      then have "unat rs < ?k" using rs b wrap asize_pos [of "fst e"] by simp
      then show ?thesis using uk by (simp add: word_less_nat_alt)
    qed
    then show ?thesis using False
      by (auto simp: encode_leaf_record_def Let_def rs_def [symmetric] atom_encode_def leaf_rec_def)
  qed
qed

lemma encode_internal_record:
  assumes "wf_atom (fst e)"
  shows "encode_internal_record e = (if length (inner_rec e) \<le> 65535 then Some (inner_rec e) else None)"
proof -
  let ?k = "asize (fst e)"
  have uk: "atom_encoded_size (fst e) = of_nat ?k" by (rule asize)
  have n: "atom_encoded_size (fst e) + 4 = of_nat (?k + 4)" "?k + 4 < 2 ^ 32" using uk asize_bound [OF assms] by simp_all
  then have u: "unat (atom_encoded_size (fst e) + 4) = ?k + 4" "unat (atom_encoded_size (fst e)) = ?k"
    unfolding n(1) using unat_of_nat_less [of "?k + 4"] unat_asize [OF assms] by simp_all
  then show ?thesis
    by (simp add: encode_internal_record_def Let_def atom_encode_def word_less_nat_alt inner_rec_def)
qed

section \<open>Writing a node\<close>

lemma rooms_append: "rooms (xs @ ys) = rooms xs + rooms ys - 16"
  by (simp add: rooms_def)

lemma rooms_ge: "16 \<le> rooms xs"
  by (simp add: rooms_def)

lemma add_records_run:
  assumes "layout ty left rcs page" "\<forall>r \<in> set rest. enc r = (if length (rc r) \<le> 65535 then Some (rc r) else None)"
  shows "if rooms (rcs @ map rc rest) \<le> 4096
    then \<exists>page'. add_records page (length rcs) (map enc rest) = Some (Some page') \<and> layout ty left (rcs @ map rc rest) page'
    else add_records page (length rcs) (map enc rest) = Some None"
  using assms
proof (induction rest arbitrary: rcs page)
  case Nil
  then show ?case by (simp add: layout_def)
next
  case (Cons r rest)
  have enc: "enc r = (if length (rc r) \<le> 65535 then Some (rc r) else None)" using Cons.prems by simp
  have all: "rooms (rcs @ map rc (r # rest)) = rooms ((rcs @ [rc r]) @ map rc rest)" by simp
  show ?case
  proof (cases "rooms (rcs @ [rc r]) \<le> 4096")
    case True
    then have "length (rc r) \<le> 65535" by (simp add: rooms_def)
    moreover obtain p where p: "page_add_record page (of_nat (length rcs)) (rc r) = Some (Some p)" "layout ty left (rcs @ [rc r]) p"
      using layout_add [OF Cons.prems(1) True] by blast
    ultimately show ?thesis using Cons.IH [OF p(2)] Cons.prems(2) enc by (auto split: if_splits)
  next
    case False
    then have "\<not> rooms (rcs @ map rc (r # rest)) \<le> 4096" unfolding all rooms_append [of "rcs @ [rc r]"]
      using rooms_ge [of "map rc rest"] by simp
    then show ?thesis using layout_full [OF Cons.prems(1)] False enc by simp
  qed
qed

lemma node_page_run:
  assumes "wf_node nd"
  shows "if node_room nd \<le> 4096
    then \<exists>page. node_page nd = Some (Some page) \<and> layout (node_type nd) (node_left nd) (node_recs nd) page
    else node_page nd = Some None"
proof (cases nd)
  case (LeafNode es)
  then show ?thesis
    using add_records_run [OF layout_init, of es encode_leaf_record leaf_rec 1 0] encode_leaf_record assms
    by (auto simp: node_page_def node_records_def split: if_splits)
next
  case (InternalNode left es)
  then show ?thesis
    using add_records_run [OF layout_init, of es encode_internal_record inner_rec 2 left] encode_internal_record assms
    by (auto simp: node_page_def node_records_def split: if_splits)
qed

section \<open>Reading a node\<close>

lemma layout_record:
  assumes "layout ty left rcs page" "j < length rcs" "0 < length (rcs ! j)"
  obtains off where "page_slot page (of_nat j) = Some (of_nat off)" "unat (of_nat off :: u16) = off"
    "off + length (rcs ! j) \<le> 4096" "off < 4096" "slice page off (length (rcs ! j)) = Some (rcs ! j)"
proof -
  obtain off where off: "rd_u16 page (16 + 2 * j) = Some (of_nat off)" "off + length (rcs ! j) \<le> 4096"
    "slice page off (length (rcs ! j)) = Some (rcs ! j)"
    using assms(1,2) by (auto simp: layout_def)
  have "j < 65536" using assms(1,2) by (simp add: layout_def rooms_def)
  then have "unat (of_nat j :: u16) = j" by (rule unat16)
  moreover have "unat (of_nat off :: u16) = off" by (rule unat16, use off(2) in simp)
  ultimately show ?thesis using that [of off] off assms(3) by (simp add: page_slot_def mult.commute)
qed

lemma ucast_off: "off < 4096 \<Longrightarrow> unat (4096 - ucast (of_nat off :: u16) :: u32) = 4096 - off"
proof -
  assume "off < 4096"
  then have "unat (of_nat off :: u16) = off" by (intro unat16) simp
  then have o: "unat (ucast (of_nat off :: u16) :: u32) = off" using \<open>off < 4096\<close> by (simp add: unsigned_ucast_eq take_bit_nat_eq_self)
  then have "(ucast (of_nat off :: u16) :: u32) \<le> 4096" using \<open>off < 4096\<close> by (simp add: word_le_nat_alt)
  then show ?thesis using o by (simp add: unat_sub)
qed

lemma first_part: "slice page off (length xs + m) = Some (xs @ ys) \<Longrightarrow> slice page off (length xs) = Some xs"
  using slice_part [of page off "length xs + m" "xs @ ys" 0 "length xs"] by simp

lemma second_part:
  "slice page off (length xs + length ys) = Some (xs @ ys) \<Longrightarrow> slice page (off + length xs) (length ys) = Some ys"
  using slice_part [of page off "length xs + length ys" "xs @ ys" "length xs" "length ys"] by simp

lemma load_leaf_entries_layout:
  assumes "layout ty left (map leaf_rec es) page" "\<forall>e \<in> set es. wf_atom (fst e) \<and> wf_atom (snd e)"
  shows "i + n = length es \<Longrightarrow> load_leaf_entries page i n = Some (Some (drop i es))"
proof (induction n arbitrary: i)
  case (Suc n)
  let ?k = "fst (es ! i)" and ?v = "snd (es ! i)"
  have i: "i < length es" using Suc.prems by simp
  then have wf: "wf_atom ?k" "wf_atom ?v" using assms(2) by simp_all
  obtain off where off: "page_slot page (of_nat i) = Some (of_nat off)" "unat (of_nat off :: u16) = off"
    "off + (asize ?k + asize ?v) \<le> 4096" "off < 4096" "slice page off (asize ?k + asize ?v) = Some (atom_bytes ?k @ atom_bytes ?v)"
    using layout_record [OF assms(1), of i] i asize_pos [of ?k] by (auto simp: leaf_rec_def)
  have k: "atom_decode page off (4096 - ucast (of_nat off :: u16)) = Some (Some (?k, of_nat (asize ?k)))"
    using atom_decode_bytes [OF first_part [OF off(5)] _ wf(1)] off(3) ucast_off [OF off(4)] by simp
  have uk: "unat (of_nat (asize ?k) :: u32) = asize ?k" by (rule unat_of_nat_less, use off(3) in simp)
  have "of_nat (asize ?k) \<le> (4096 - ucast (of_nat off :: u16) :: u32)"
    using uk ucast_off [OF off(4)] off(3) by (simp add: word_le_nat_alt)
  then have "unat (4096 - ucast (of_nat off :: u16) - of_nat (asize ?k) :: u32) = 4096 - off - asize ?k"
    using uk ucast_off [OF off(4)] by (simp add: unat_sub)
  then have v: "atom_decode page (off + asize ?k) (4096 - ucast (of_nat off :: u16) - of_nat (asize ?k)) = Some (Some (?v, of_nat (asize ?v)))"
    using atom_decode_bytes [OF second_part [OF off(5)] _ wf(2)] off(3) by simp
  have "load_leaf_entries page (i + 1) n = Some (Some (drop (i + 1) es))" using Suc by simp
  moreover have "drop i es = (?k, ?v) # drop (i + 1) es" using i by (simp add: Cons_nth_drop_Suc)
  ultimately show ?case using off(1,2,4) k v uk by simp
qed simp

lemma load_internal_entries_layout:
  assumes "layout ty left (map inner_rec es) page" "\<forall>e \<in> set es. wf_atom (fst e)"
  shows "i + n = length es \<Longrightarrow> load_internal_entries page i n = Some (Some (drop i es))"
proof (induction n arbitrary: i)
  case (Suc n)
  let ?k = "fst (es ! i)" and ?v = "le32 (snd (es ! i))"
  have i: "i < length es" using Suc.prems by simp
  then have wf: "wf_atom ?k" using assms(2) by simp
  obtain off where off: "page_slot page (of_nat i) = Some (of_nat off)" "unat (of_nat off :: u16) = off"
    "off + (asize ?k + 4) \<le> 4096" "off < 4096" "slice page off (asize ?k + length ?v) = Some (atom_bytes ?k @ ?v)"
    using layout_record [OF assms(1), of i] i asize_pos [of ?k] by (auto simp: inner_rec_def)
  have k: "atom_decode page off (4096 - ucast (of_nat off :: u16)) = Some (Some (?k, of_nat (asize ?k)))"
    using atom_decode_bytes [OF first_part [OF off(5)] _ wf] off(3) ucast_off [OF off(4)] by simp
  have uk: "unat (of_nat (asize ?k) :: u32) = asize ?k" by (rule unat_of_nat_less, use off(3) in simp)
  have "of_nat (asize ?k) \<le> (4096 - ucast (of_nat off :: u16) :: u32)"
    using uk ucast_off [OF off(4)] off(3) by (simp add: word_le_nat_alt)
  then have "unat (4096 - ucast (of_nat off :: u16) - of_nat (asize ?k) :: u32) = 4096 - off - asize ?k"
    using uk ucast_off [OF off(4)] by (simp add: unat_sub)
  then have r: "\<not> 4096 - ucast (of_nat off :: u16) - of_nat (asize ?k) < (4 :: u32)"
    using off(3) by (simp add: word_less_nat_alt)
  have v: "rd_u32 page (off + asize ?k) = Some (snd (es ! i))"
    using second_part [OF off(5)] by (simp add: rd_u32_def)
  have "load_internal_entries page (i + 1) n = Some (Some (drop (i + 1) es))" using Suc by simp
  moreover have "drop i es = (?k, snd (es ! i)) # drop (i + 1) es" using i by (simp add: Cons_nth_drop_Suc)
  ultimately show ?case using off(1,2,4) k v r uk by simp
qed simp

lemma node_load_layout:
  assumes "db_read_page db p = Some page" "layout (node_type nd) (node_left nd) (node_recs nd) page" "wf_node nd"
  shows "node_load db p = Some (Some nd)"
proof -
  let ?n = "length (node_recs nd)"
  have L: "at page 0 = Some (node_type nd)" "rd_u16 page 2 = Some (of_nat ?n)" "rd_u16 page 4 = Some (of_nat (16 + 2 * ?n))"
    "rd_u16 page 6 = Some (of_nat (space (node_recs nd)))" "rd_u32 page 8 = Some (node_left nd)" "node_room nd \<le> 4096"
    using assms(2) by (simp_all add: layout_def)
  have r: "16 + 2 * ?n \<le> 4096" "16 \<le> space (node_recs nd)" "space (node_recs nd) \<le> 4096"
    using L(6) sum_lengths [OF L(6)] by (auto simp: rooms_def space_def)
  have u: "unat (of_nat ?n :: u16) = ?n" "unat (of_nat (16 + 2 * ?n) :: u16) = 16 + 2 * ?n"
    "unat (of_nat (space (node_recs nd)) :: u16) = space (node_recs nd)"
    by (rule unat16, use r in simp)+
  have bad: "\<not> ((of_nat (16 + 2 * ?n) :: u16) < 16 \<or> 4096 < (of_nat (16 + 2 * ?n) :: u16) \<or>
      4096 < (of_nat (space (node_recs nd)) :: u16) \<or> (of_nat (space (node_recs nd)) :: u16) < 16)"
    unfolding word_less_nat_alt u using r by simp
  show ?thesis
  proof (cases nd)
    case (LeafNode es)
    then have "load_leaf_entries page 0 ?n = Some (Some es)"
      using load_leaf_entries_layout [of 1 0 es page 0 ?n] assms by simp
    then show ?thesis using LeafNode assms(1) L(1-5) bad u(1) by (simp add: node_load_def del: at_Some_iff)
  next
    case (InternalNode left es)
    then have "load_internal_entries page 0 ?n = Some (Some es)"
      using load_internal_entries_layout [of 2 left es page 0 ?n] assms by simp
    then show ?thesis using InternalNode assms(1) L(1-5) bad u(1) by (simp add: node_load_def del: at_Some_iff)
  qed
qed

end
