(* ===== verification/Btree_Store.thy ===== *)
theory Btree_Store
  imports Btree_Node
begin

text \<open>
  The pages of a database: writing one keeps the others, and the pages are divided into those in use
  and the chain of free ones, from which \<open>db_alloc_page\<close> takes and to which \<open>db_free_page\<close> returns.
\<close>

section \<open>Reading and writing pages\<close>

text \<open>The pages of \<open>Q\<close> that can be read still have their contents.\<close>

definition keeps :: "u32 set \<Rightarrow> btree \<Rightarrow> btree \<Rightarrow> bool" where
  "keeps Q db db' \<longleftrightarrow> (\<forall>q \<in> Q. \<forall>x. db_read_page db q = Some x \<longrightarrow> db_read_page db' q = Some x)"

lemma pages_kept_refl: "keeps Q db db"
  by (simp add: keeps_def)

lemma pages_kept_trans: "keeps Q db1 db2 \<Longrightarrow> keeps Q db2 db3 \<Longrightarrow> keeps Q db1 db3"
  by (simp add: keeps_def)

lemma keeps_subset: "keeps Q db db' \<Longrightarrow> R \<subseteq> Q \<Longrightarrow> keeps R db db'"
  by (auto simp: keeps_def)

lemma keeps_read: "keeps Q db db' \<Longrightarrow> q \<in> Q \<Longrightarrow> db_read_page db q = Some x \<Longrightarrow> db_read_page db' q = Some x"
  by (simp add: keeps_def)

lemma node_load_cong:
  assumes "db_read_page db p = db_read_page db' p"
  shows "node_load db p = node_load db' p"
  using assms by (simp add: node_load_def)

lemma node_load_keeps:
  assumes "keeps Q db db'" "p \<in> Q" "node_load db p = Some (Some nd)"
  shows "node_load db' p = Some (Some nd)"
proof -
  obtain x where x: "db_read_page db p = Some x" using assms(3) by (cases "db_read_page db p") (auto simp: node_load_def)
  then show ?thesis using keeps_read [OF assms(1,2) x] node_load_cong [of db p db'] assms(3) by simp
qed

text \<open>What the operations on pages leave of the rest of the database.\<close>

definition same_header :: "btree \<Rightarrow> btree \<Rightarrow> bool" where
  "same_header db db' \<longleftrightarrow> bt_mem db' = bt_mem db \<and> bt_root db' = bt_root db \<and> bt_count db' = bt_count db \<and>
     bt_free db' = bt_free db \<and> bt_closed db' = bt_closed db"

lemma same_header_trans: "same_header a b \<Longrightarrow> same_header b c \<Longrightarrow> same_header a c"
  by (simp add: same_header_def)

lemma write_page:
  assumes "unat p < 2 ^ 31"
  obtains db' where "db_write_page db p bs = Some db'" "same_header db db'" "keeps (- {p}) db db'"
    "p < bt_count db \<Longrightarrow> db_read_page db' p = Some bs"
proof -
  have p1: "unat (p + 1) = unat p + 1" using assms by (simp add: unat_word_ariths)
  show ?thesis
  proof (cases "bt_mem db")
    case False
    have "keeps (- {p}) db (db\<lparr>bt_pages := (bt_pages db)(unat p := bs), bt_len := max (bt_len db) (unat p + 1)\<rparr>)"
      using False by (auto simp: keeps_def db_read_page_def word_unat_eq_iff split: if_splits)
    then show ?thesis
      using that [of "db\<lparr>bt_pages := (bt_pages db)(unat p := bs), bt_len := max (bt_len db) (unat p + 1)\<rparr>"] False
      by (simp add: db_write_page_def same_header_def db_read_page_def)
  next
    case True
    define l where "l = (if unat p + 1 \<le> bt_len db then bt_len db
      else double_until (unat p) (if bt_len db = 0 then 4 else bt_len db))"
    have l: "unat p < l" "bt_len db \<le> l"
      using double_until_gt [of "if bt_len db = 0 then 4 else bt_len db" "unat p"] by (auto simp: l_def)
    have e: "db_mem_ensure_pages db (p + 1) = Some (db\<lparr>bt_len := l\<rparr>)"
      using assms by (simp add: db_mem_ensure_pages_def p1 l_def)
    let ?db' = "db\<lparr>bt_len := l, bt_pages := (bt_pages db)(unat p := bs)\<rparr>"
    have "keeps (- {p}) db ?db'" using l(2) by (auto simp: keeps_def db_read_page_def word_unat_eq_iff split: if_splits)
    then show ?thesis using that [of ?db'] True e l(1) by (simp add: db_write_page_def same_header_def db_read_page_def)
  qed
qed

lemma write_header:
  obtains db' where "db_write_header db = Some db'" "same_header db db'" "keeps (- {0}) db db'"
  using write_page [of 0 db "header_page db"] by (auto simp: db_write_header_def)

section \<open>Free pages\<close>

primrec free_chain :: "btree \<Rightarrow> u32 \<Rightarrow> u32 list \<Rightarrow> bool" where
  "free_chain db x [] = (x = 0)"
| "free_chain db x (y # ys) =
     (x = y \<and> y \<noteq> 0 \<and> (\<exists>page nx. db_read_page db y = Some page \<and> at page 0 = Some 0 \<and> rd_u32 page 8 = Some nx \<and> free_chain db nx ys))"

lemma free_chain_keeps:
  assumes "keeps (set fs) db db'" "free_chain db x fs"
  shows "free_chain db' x fs"
  using assms
proof (induction fs arbitrary: x)
  case (Cons y ys)
  have "keeps (set ys) db db'" by (rule keeps_subset [OF Cons.prems(1)]) auto
  then show ?case using Cons keeps_read [OF Cons.prems(1), of y] by fastforce
qed simp

text \<open>The pages \<open>U\<close> are in use, the pages \<open>fs\<close> are free, and page 0 is the header.\<close>

definition pool :: "btree \<Rightarrow> u32 set \<Rightarrow> u32 list \<Rightarrow> bool" where
  "pool db U fs \<longleftrightarrow> free_chain db (bt_free db) fs \<and> distinct fs \<and> 0 \<notin> U \<union> set fs \<and> set fs \<inter> U = {} \<and>
     (\<forall>p \<in> U \<union> set fs. p < bt_count db) \<and> 0 < bt_count db \<and> unat (bt_count db) \<le> 2 ^ 31"

lemma pool_keeps:
  assumes "pool db U fs" "same_header db db'" "keeps (set fs) db db'"
  shows "pool db' U fs"
  using assms free_chain_keeps by (auto simp: pool_def same_header_def)

lemma pool_unat: "pool db U fs \<Longrightarrow> p \<in> U \<union> set fs \<Longrightarrow> unat p < 2 ^ 31"
proof -
  assume a: "pool db U fs" "p \<in> U \<union> set fs"
  then have "p < bt_count db" "unat (bt_count db) \<le> 2 ^ 31" by (simp_all add: pool_def)
  then show ?thesis by (simp add: word_less_nat_alt)
qed

text \<open>What a change within the pages in use has in common with an allocation.\<close>

definition grows :: "nat \<Rightarrow> btree \<Rightarrow> btree \<Rightarrow> bool" where
  "grows n db db' \<longleftrightarrow> bt_mem db' = bt_mem db \<and> bt_root db' = bt_root db \<and> bt_closed db' = bt_closed db \<and>
     unat (bt_count db') \<le> unat (bt_count db) + n"

lemma grows_trans: "grows n a b \<Longrightarrow> grows m b c \<Longrightarrow> grows (n + m) a c"
  by (simp add: grows_def)

lemma same_header_grows: "same_header a b \<Longrightarrow> grows 0 a b"
  by (simp add: same_header_def grows_def)

lemma alloc_page:
  assumes pool: "pool db U fs" and room: "unat (bt_count db) < 2 ^ 31"
  obtains p db' fs' where "db_alloc_page db = Some (Some p, db')" "p \<notin> U" "pool db' (insert p U) fs'"
    "keeps U db db'" "grows 1 db db'"
proof (cases fs)
  case (Cons y ys)
  obtain page nx where pg: "bt_free db = y" "y \<noteq> 0" "db_read_page db y = Some page" "at page 0 = Some 0"
    "rd_u32 page 8 = Some nx" "free_chain db nx ys"
    using pool Cons by (auto simp: pool_def)
  let ?d = "db\<lparr>bt_free := nx\<rparr>"
  obtain db' where w: "db_write_header ?d = Some db'" "same_header ?d db'" "keeps (- {0}) ?d db'"
    by (rule write_header)
  have rd: "db_read_page ?d = db_read_page db" by (auto simp: db_read_page_def)
  have k: "keeps (- {0}) db db'" using w(3) by (simp add: keeps_def rd)
  have U: "U \<subseteq> - {0}" "set ys \<subseteq> - {0}" using pool Cons by (auto simp: pool_def)
  have "pool db' (insert y U) ys"
    using pool Cons pg w(2) free_chain_keeps [OF keeps_subset [OF k U(2)] pg(6)]
    by (auto simp: pool_def same_header_def)
  moreover have "db_alloc_page db = Some (Some y, db')" using pg w(1) by (simp add: db_alloc_page_def del: at_Some_iff)
  moreover have "y \<notin> U" using pool Cons by (auto simp: pool_def)
  moreover have "grows 1 db db'" using w(2) by (simp add: grows_def same_header_def)
  ultimately show ?thesis using that keeps_subset [OF k U(1)] by blast
next
  case Nil
  let ?p = "bt_count db" and ?d = "db\<lparr>bt_count := bt_count db + 1\<rparr>"
  have free: "bt_free db = 0" using pool Nil by (simp add: pool_def)
  obtain d1 where w1: "db_write_page ?d ?p zero_page = Some d1" "same_header ?d d1" "keeps (- {?p}) ?d d1"
    by (rule write_page [OF room])
  obtain db' where w: "db_write_header d1 = Some db'" "same_header d1 db'" "keeps (- {0}) d1 db'"
    by (rule write_header)
  have c1: "unat (bt_count db + 1) = unat (bt_count db) + 1" using room by (simp add: unat_word_ariths)
  then have less: "bt_count db < bt_count db + 1" by (simp add: word_less_nat_alt)
  have rd: "db_read_page ?d q = Some x" if "db_read_page db q = Some x" for q x
    using that less by (auto simp: db_read_page_def split: if_splits)
  have U: "U \<subseteq> - {?p}" "U \<subseteq> - {0}" using pool by (auto simp: pool_def)
  have k: "keeps U db db'"
  proof -
    have "keeps U db d1" using w1(3) rd U(1) unfolding keeps_def by blast
    then show ?thesis using keeps_subset [OF w(3) U(2)] by (rule pages_kept_trans)
  qed
  have h: "same_header ?d db'" by (rule same_header_trans [OF w1(2) w(2)])
  have lt: "q < bt_count db + 1" if "q < bt_count db" for q using that less by (rule less_trans)
  have "pool db' (insert ?p U) []"
    using pool h free less c1 room lt by (auto simp: pool_def same_header_def)
  moreover have "db_alloc_page db = Some (Some ?p, db')" using free w1(1) w(1) by (simp add: db_alloc_page_def)
  moreover have "?p \<notin> U" using pool by (auto simp: pool_def)
  moreover have "grows 1 db db'" using h c1 by (simp add: grows_def same_header_def)
  ultimately show ?thesis using that k by blast
qed

section \<open>Writing a node\<close>

lemma write_node:
  assumes pool: "pool db U fs" and "p \<in> U" "wf_node nd" "node_room nd \<le> 4096"
  obtains db' where "node_write db p nd = Some (True, db')" "node_load db' p = Some (Some nd)"
    "pool db' U fs" "keeps (- {p}) db db'" "same_header db db'"
proof -
  obtain page where page: "node_page nd = Some (Some page)" "layout (node_type nd) (node_left nd) (node_recs nd) page"
    using node_page_run [OF assms(3)] assms(4) by (auto split: if_splits)
  have p: "unat p < 2 ^ 31" "p < bt_count db" "set fs \<subseteq> - {p}"
    using pool_unat [OF pool, of p] assms(2) pool by (auto simp: pool_def)
  obtain db' where w: "db_write_page db p page = Some db'" "same_header db db'" "keeps (- {p}) db db'"
    "p < bt_count db \<Longrightarrow> db_read_page db' p = Some page"
    using write_page [OF p(1), of db page] by blast
  have "node_load db' p = Some (Some nd)" by (rule node_load_layout [OF w(4) [OF p(2)] page(2) assms(3)])
  moreover have "pool db' U fs" by (rule pool_keeps [OF pool w(2) keeps_subset [OF w(3) p(3)]])
  ultimately show ?thesis using that w page(1) by (simp add: node_write_def)
qed

lemma write_node_full:
  assumes "wf_node nd" "4096 < node_room nd"
  shows "node_write db p nd = Some (False, db)"
  using node_page_run [OF assms(1)] assms(2) by (simp add: node_write_def)

end
