(* ===== verification/Btree_Tree.thy ===== *)
theory Btree_Tree
  imports Btree_Store
begin

text \<open>
  The tree in the pages: \<open>tree\<close> has a page number at every node, \<open>stored\<close> says that a database holds
  it, \<open>entries\<close> is its contents. The keys of the inner nodes bound the keys of the leaves. Lookup
  finds what \<open>find_entry\<close> finds in the entries.
\<close>

section \<open>Trees of pages\<close>

datatype tree = Leaf u32 "(atom \<times> atom) list" | Inner u32 forest
  and forest = Last tree | More tree atom forest

primrec pid :: "tree \<Rightarrow> u32" where
  "pid (Leaf p _) = p"
| "pid (Inner p _) = p"

primrec fhead :: "forest \<Rightarrow> tree" where
  "fhead (Last t) = t"
| "fhead (More t _ _) = t"

primrec fents :: "forest \<Rightarrow> (atom \<times> u32) list" where
  "fents (Last t) = []"
| "fents (More t s f) = (s, pid (fhead f)) # fents f"

abbreviation inner_node :: "forest \<Rightarrow> node" where
  "inner_node f \<equiv> InternalNode (pid (fhead f)) (fents f)"

primrec nodes :: "tree \<Rightarrow> (u32 \<times> node) list" and fnodes :: "forest \<Rightarrow> (u32 \<times> node) list" where
  "nodes (Leaf p es) = [(p, LeafNode es)]"
| "nodes (Inner p f) = (p, inner_node f) # fnodes f"
| "fnodes (Last t) = nodes t"
| "fnodes (More t s f) = nodes t @ fnodes f"

primrec entries_of :: "tree \<Rightarrow> (atom \<times> atom) list" and fentries :: "forest \<Rightarrow> (atom \<times> atom) list" where
  "entries_of (Leaf p es) = es"
| "entries_of (Inner p f) = fentries f"
| "fentries (Last t) = entries_of t"
| "fentries (More t s f) = entries_of t @ fentries f"

primrec height :: "tree \<Rightarrow> nat" and fheight :: "forest \<Rightarrow> nat" where
  "height (Leaf p es) = 1"
| "height (Inner p f) = Suc (fheight f)"
| "fheight (Last t) = height t"
| "fheight (More t s f) = max (height t) (fheight f)"

definition stored :: "btree \<Rightarrow> (u32 \<times> node) list \<Rightarrow> bool" where
  "stored db ns \<longleftrightarrow> (\<forall>(p, nd) \<in> set ns. node_load db p = Some (Some nd))"

lemma stored_append [simp]:
  "stored db []" "stored db (x # ys) \<longleftrightarrow> node_load db (fst x) = Some (Some (snd x)) \<and> stored db ys"
  "stored db (xs @ ys) \<longleftrightarrow> stored db xs \<and> stored db ys"
  by (auto simp: stored_def)

lemma stored_keeps:
  assumes "keeps Q db db'" "fst ` set ns \<subseteq> Q" "stored db ns"
  shows "stored db' ns"
  using assms node_load_keeps [OF assms(1)] by (fastforce simp: stored_def)

text \<open>Records of at most \<open>b\<close> bytes.\<close>

definition fine :: "nat \<Rightarrow> node \<Rightarrow> bool" where
  "fine b nd \<longleftrightarrow> wf_node nd \<and> node_room nd \<le> 4096 \<and> (\<forall>r \<in> set (node_recs nd). length r \<le> b)"

abbreviation all_fine :: "nat \<Rightarrow> (u32 \<times> node) list \<Rightarrow> bool" where
  "all_fine b ns \<equiv> \<forall>x \<in> set ns. fine b (snd x)"

section \<open>Bounds\<close>

definition within :: "atom option \<Rightarrow> atom option \<Rightarrow> atom \<Rightarrow> bool" where
  "within lo hi k \<longleftrightarrow> wf_atom k \<and> (\<forall>l. lo = Some l \<longrightarrow> atom_compare l k \<le> 0) \<and> (\<forall>h. hi = Some h \<longrightarrow> atom_compare k h < 0)"

text \<open>A key of an inner node may be equal to its bounds.\<close>

definition between :: "atom option \<Rightarrow> atom option \<Rightarrow> atom \<Rightarrow> bool" where
  "between lo hi k \<longleftrightarrow> wf_atom k \<and> (\<forall>l. lo = Some l \<longrightarrow> atom_compare l k \<le> 0) \<and> (\<forall>h. hi = Some h \<longrightarrow> atom_compare k h \<le> 0)"

lemma within_between: "within lo hi k \<Longrightarrow> between lo hi k"
  by (auto simp: within_def between_def)

primrec bounded :: "tree \<Rightarrow> atom option \<Rightarrow> atom option \<Rightarrow> bool"
    and fbounded :: "forest \<Rightarrow> atom option \<Rightarrow> atom option \<Rightarrow> bool" where
  "bounded (Leaf p es) lo hi = (ascending atom_compare es \<and> (\<forall>e \<in> set es. within lo hi (fst e)))"
| "bounded (Inner p f) lo hi = fbounded f lo hi"
| "fbounded (Last t) lo hi = bounded t lo hi"
| "fbounded (More t s f) lo hi = (between lo hi s \<and> bounded t lo (Some s) \<and> fbounded f (Some s) hi)"

lemma within_hi: "within lo (Some s) k \<Longrightarrow> between lo' hi s \<Longrightarrow> \<forall>h. hi = Some h \<longrightarrow> wf_atom h \<Longrightarrow> within lo hi k"
  using ak.less_trans [of k s] by (fastforce simp: within_def between_def)

lemma within_lo: "within (Some s) hi k \<Longrightarrow> between lo hi' s \<Longrightarrow> \<forall>l. lo = Some l \<longrightarrow> wf_atom l \<Longrightarrow> within lo hi k"
  using ak.cmp_trans [of _ s k] by (fastforce simp: within_def between_def)

lemma between_hi: "between lo (Some s) k \<Longrightarrow> between lo' hi s \<Longrightarrow> \<forall>h. hi = Some h \<longrightarrow> wf_atom h \<Longrightarrow> between lo hi k"
  using ak.cmp_trans [of k s] by (fastforce simp: between_def)

lemma between_lo: "between (Some s) hi k \<Longrightarrow> between lo hi' s \<Longrightarrow> \<forall>l. lo = Some l \<longrightarrow> wf_atom l \<Longrightarrow> between lo hi k"
  using ak.cmp_trans [of _ s k] by (fastforce simp: between_def)

abbreviation wf_bounds :: "atom option \<Rightarrow> atom option \<Rightarrow> bool" where
  "wf_bounds lo hi \<equiv> (\<forall>l. lo = Some l \<longrightarrow> wf_atom l) \<and> (\<forall>h. hi = Some h \<longrightarrow> wf_atom h)"

lemma within_less: "within lo (Some s) k \<Longrightarrow> within (Some s) hi k' \<Longrightarrow> wf_atom s \<Longrightarrow> atom_compare k k' < 0"
  using ak.less_trans [of k s k'] by (simp add: within_def)

lemma bounded_entries:
  "bounded t lo hi \<Longrightarrow> wf_bounds lo hi \<Longrightarrow> (\<forall>e \<in> set (entries_of t). within lo hi (fst e)) \<and> ascending atom_compare (entries_of t)"
  "fbounded f lo hi \<Longrightarrow> wf_bounds lo hi \<Longrightarrow> (\<forall>e \<in> set (fentries f). within lo hi (fst e)) \<and> ascending atom_compare (fentries f)"
proof (induction t and f arbitrary: lo hi and lo hi rule: tree.induct forest.induct)
  case (More t s f)
  then have s: "between lo hi s" "wf_atom s" by (simp_all add: between_def)
  have t: "\<forall>e \<in> set (entries_of t). within lo (Some s) (fst e)" "ascending atom_compare (entries_of t)"
    using More.IH(1) [of lo "Some s"] More.prems s(2) by auto
  have f: "\<forall>e \<in> set (fentries f). within (Some s) hi (fst e)" "ascending atom_compare (fentries f)"
    using More.IH(2) [of "Some s" hi] More.prems s(2) by auto
  have lt: "atom_compare (fst x) (fst y) < 0" if "x \<in> set (entries_of t)" "y \<in> set (fentries f)" for x y
    using within_less [of lo s "fst x" hi "fst y"] t(1) f(1) s(2) that by blast
  have "within lo hi (fst x)" if "x \<in> set (entries_of t) \<union> set (fentries f)" for x
    using that t(1) f(1) within_hi [OF _ s(1), of lo "fst x"] within_lo [OF _ s(1), of hi "fst x"] More.prems(2) by blast
  then show ?case using t(2) f(2) lt by (simp add: ascending_append)
qed auto

section \<open>Searching\<close>

lemma leaf_search_spec:
  assumes "ascending atom_compare es" "\<forall>e \<in> set es. wf_atom (fst e)" "wf_atom k"
    "lo \<le> hi" "hi \<le> length es" "\<forall>i < lo. 0 < atom_compare k (fst (es ! i))"
    "\<forall>i. hi \<le> i \<and> i < length es \<longrightarrow> atom_compare k (fst (es ! i)) < 0"
  shows "case leaf_search es k lo hi of (found, pos) \<Rightarrow> pos \<le> length es \<and>
    (if found then pos < length es \<and> atom_compare k (fst (es ! pos)) = 0
     else (\<forall>i < pos. 0 < atom_compare k (fst (es ! i))) \<and> (\<forall>i. pos \<le> i \<and> i < length es \<longrightarrow> atom_compare k (fst (es ! i)) < 0))"
  using assms
proof (induction es k lo hi rule: leaf_search.induct)
  case (1 es k lo hi)
  show ?case
  proof (cases "lo < hi")
    case False
    then have "lo = hi" using 1(6) by simp
    then show ?thesis using 1 by (simp add: leaf_search.simps)
  next
    case True
    define m where "m = lo + (hi - lo) div 2"
    have m: "lo \<le> m" "m < hi" "m < length es" using True 1(7) by (auto simp: m_def)
    have wf: "wf_atom (fst (es ! i))" if "i < length es" for i using 1(4) that by simp
    have asc: "atom_compare (fst (es ! i)) (fst (es ! j)) < 0" if "i < j" "j < length es" for i j
      using 1(3) that by (simp add: ascending_def sorted_wrt_iff_nth_less)
    consider (z) "atom_compare k (fst (es ! m)) = 0" | (l) "atom_compare k (fst (es ! m)) < 0" | (g) "0 < atom_compare k (fst (es ! m))"
      by linarith
    then show ?thesis
    proof cases
      case z
      then show ?thesis using True m by (subst leaf_search.simps) (simp add: Let_def m_def [symmetric])
    next
      case l
      have "atom_compare k (fst (es ! i)) < 0" if "m \<le> i" "i < length es" for i
        using l asc [of m i] ak.less_trans [of k "fst (es ! m)" "fst (es ! i)"] wf [OF that(2)] wf [OF m(3)] that 1(5)
        by (cases "m = i") auto
      then have "case leaf_search es k lo m of (found, pos) \<Rightarrow> pos \<le> length es \<and>
        (if found then pos < length es \<and> atom_compare k (fst (es ! pos)) = 0
         else (\<forall>i < pos. 0 < atom_compare k (fst (es ! i))) \<and> (\<forall>i. pos \<le> i \<and> i < length es \<longrightarrow> atom_compare k (fst (es ! i)) < 0))"
        using 1(1) [OF True m_def refl] l m 1 by auto
      then show ?thesis using True l by (subst leaf_search.simps) (simp add: Let_def m_def [symmetric])
    next
      case g
      have "0 < atom_compare k (fst (es ! i))" if "i < m + 1" for i
      proof (cases "i = m")
        case False
        then have i: "i < m" "i < length es" using that m by auto
        have "atom_compare (fst (es ! m)) k < 0" using g ak.cmp_sym [of "fst (es ! m)" k] wf [OF m(3)] 1(5) by simp
        then have "atom_compare (fst (es ! i)) k < 0"
          using ak.less_trans [of "fst (es ! i)" "fst (es ! m)" k] asc [OF i(1) m(3)] wf [OF m(3)] wf [OF i(2)] 1(5) by simp
        then show ?thesis using ak.cmp_sym [of "fst (es ! i)" k] wf [OF i(2)] 1(5) by simp
      qed (use g in simp)
      then have "case leaf_search es k (m + 1) hi of (found, pos) \<Rightarrow> pos \<le> length es \<and>
        (if found then pos < length es \<and> atom_compare k (fst (es ! pos)) = 0
         else (\<forall>i < pos. 0 < atom_compare k (fst (es ! i))) \<and> (\<forall>i. pos \<le> i \<and> i < length es \<longrightarrow> atom_compare k (fst (es ! i)) < 0))"
        using 1(2) [OF True m_def refl] g m 1 by auto
      then show ?thesis using True g by (subst leaf_search.simps) (simp add: Let_def m_def [symmetric])
    qed
  qed
qed

lemma leaf_find:
  assumes "ascending atom_compare es" "\<forall>e \<in> set es. wf_atom (fst e)" "wf_atom k"
  obtains (found) pos where "leaf_find_slot es k = (True, pos)" "pos < length es" "atom_compare k (fst (es ! pos)) = 0"
      "upd atom_compare es k v = es[pos := (fst (es ! pos), v)]" "find_entry atom_compare es k = Some (snd (es ! pos))"
    | (missing) pos where "leaf_find_slot es k = (False, pos)" "pos \<le> length es"
      "upd atom_compare es k v = take pos es @ (k, v) # drop pos es" "find_entry atom_compare es k = None"
proof -
  obtain f pos where r: "leaf_find_slot es k = (f, pos)" by (cases "leaf_find_slot es k")
  then have s: "pos \<le> length es" "if f then pos < length es \<and> atom_compare k (fst (es ! pos)) = 0
     else (\<forall>i < pos. 0 < atom_compare k (fst (es ! i))) \<and> (\<forall>i. pos \<le> i \<and> i < length es \<longrightarrow> atom_compare k (fst (es ! i)) < 0)"
    using leaf_search_spec [OF assms, of 0 "length es"] by (auto simp: leaf_find_slot_def)
  show ?thesis
  proof (cases f)
    case True
    then have pos: "pos < length es" "atom_compare k (fst (es ! pos)) = 0" using s(2) by auto
    have es: "es = take pos es @ es ! pos # drop (pos + 1) es" using pos(1) by (simp add: id_take_nth_drop)
    have "0 < atom_compare k (fst x)" if x: "x \<in> set (take pos es)" for x
    proof -
      have "atom_compare (fst x) (fst (es ! pos)) < 0" "wf_atom (fst x)" "wf_atom (fst (es ! pos))"
        using assms(1,2) x pos(1) in_set_takeD [OF x] ascending_append [of atom_compare "take pos es" "es ! pos # drop (pos + 1) es"]
        unfolding es [symmetric] by simp_all
      moreover have "atom_compare (fst (es ! pos)) k = 0" using pos(2) ak.cmp_zero_sym calculation(3) assms(3) by simp
      ultimately have "atom_compare (fst x) k < 0" using ak.less_trans [of "fst x" "fst (es ! pos)" k] assms(3) by simp
      then show ?thesis using ak.cmp_sym [of "fst x" k] \<open>wf_atom (fst x)\<close> assms(3) by simp
    qed
    then have lt: "\<forall>x \<in> set (take pos es). 0 < atom_compare k (fst x)" by blast
    then have "upd atom_compare es k v = take pos es @ (fst (es ! pos), v) # drop (pos + 1) es"
      using upd_append_right [of "take pos es" atom_compare k "es ! pos # drop (pos + 1) es" v, OF lt] es pos(2) by simp
    moreover have "find_entry atom_compare (take pos es) k = None" using lt by (auto simp: find_entry_None)
    then have "find_entry atom_compare es k = Some (snd (es ! pos))"
      using es pos(2) by (metis find_entry.simps(2) find_entry_append option.simps(4))
    ultimately show ?thesis using found r pos True by (simp add: upd_conv_take_nth_drop)
  next
    case False
    then have lt: "\<forall>x \<in> set (take pos es). 0 < atom_compare k (fst x)" "\<forall>x \<in> set (drop pos es). atom_compare k (fst x) < 0"
      using s by (simp_all add: all_set_conv_all_nth)
    have "upd atom_compare (drop pos es) k v = (k, v) # drop pos es" using lt(2) by (cases "drop pos es") simp_all
    then have "upd atom_compare es k v = take pos es @ (k, v) # drop pos es"
      using upd_append_right [of "take pos es" atom_compare k "drop pos es" v, OF lt(1)] by simp
    moreover have "\<forall>x \<in> set es. atom_compare k (fst x) \<noteq> 0"
      using lt by (metis append_take_drop_id less_irrefl set_append Un_iff)
    ultimately show ?thesis using missing r s(1) False by (simp add: find_entry_None)
  qed
qed

section \<open>Lookup in the tree\<close>

primrec froute :: "forest \<Rightarrow> atom \<Rightarrow> tree" where
  "froute (Last t) k = t"
| "froute (More t s f) k = (if atom_compare k s < 0 then t else froute f k)"

primrec fpos :: "forest \<Rightarrow> atom \<Rightarrow> nat" where
  "fpos (Last t) k = 0"
| "fpos (More t s f) k = (if atom_compare k s < 0 then 0 else Suc (fpos f k))"

lemma find_route_fents: "find_route (fents f) k slot (pid (fhead f)) = (slot + fpos f k, pid (froute f k))"
  by (induction f arbitrary: slot rule: forest.induct [of "\<lambda>_. True"]) auto

lemma get_child_fents: "get_child (fents f) k (pid (fhead f)) = pid (froute f k)"
  by (induction f rule: forest.induct [of "\<lambda>_. True"]) auto

lemma froute_height: "height (froute f k) \<le> fheight f"
  by (induction f rule: forest.induct [of "\<lambda>_. True"]) auto

lemma froute_nodes: "set (nodes (froute f k)) \<subseteq> set (fnodes f)"
  by (induction f rule: forest.induct [of "\<lambda>_. True"]) auto

lemma find_entry_route:
  assumes "fbounded f lo hi" "wf_bounds lo hi" "wf_atom k"
  shows "find_entry atom_compare (fentries f) k = find_entry atom_compare (entries_of (froute f k)) k"
  using assms(1,2)
proof (induction f arbitrary: lo rule: forest.induct [of "\<lambda>_. True"])
  case (More t s f)
  then have s: "wf_atom s" "fbounded f (Some s) hi" "wf_bounds (Some s) hi" "bounded t lo (Some s)" "wf_bounds lo (Some s)"
    by (simp_all add: within_def between_def)
  have f: "within (Some s) hi (fst e)" if "e \<in> set (fentries f)" for e using bounded_entries(2) [OF s(2,3)] that by blast
  have t: "within lo (Some s) (fst e)" if "e \<in> set (entries_of t)" for e using bounded_entries(1) [OF s(4,5)] that by blast
  show ?case
  proof (cases "atom_compare k s < 0")
    case True
    have "atom_compare k (fst e) \<noteq> 0" if "e \<in> set (fentries f)" for e
      using f [OF that] ak.less_trans [of k s "fst e"] True s(1) assms(3) by (fastforce simp: within_def)
    then have "find_entry atom_compare (fentries f) k = None" by (simp add: find_entry_None)
    then show ?thesis using True by (auto simp: find_entry_append split: option.splits)
  next
    case False
    have "atom_compare k (fst e) \<noteq> 0" if "e \<in> set (entries_of t)" for e
    proof
      assume z: "atom_compare k (fst e) = 0"
      have "wf_atom (fst e)" "atom_compare (fst e) s < 0" using t [OF that] by (simp_all add: within_def between_def)
      then have "atom_compare k s < 0" using ak.less_trans2 [of k "fst e" s] z s(1) assms(3) by simp
      then show False using False by simp
    qed
    then have "find_entry atom_compare (entries_of t) k = None" by (simp add: find_entry_None)
    then show ?thesis using False More.IH [OF s(2,3)] by (simp add: find_entry_append)
  qed
qed auto

lemma froute_bounded:
  assumes "fbounded f lo hi" "wf_bounds lo hi" "within lo hi k"
  obtains lo' hi' where "bounded (froute f k) lo' hi'" "wf_bounds lo' hi'" "within lo' hi' k"
proof -
  have "\<exists>lo' hi'. bounded (froute f k) lo' hi' \<and> wf_bounds lo' hi' \<and> within lo' hi' k"
    using assms
  proof (induction f arbitrary: lo rule: forest.induct [of "\<lambda>_. True"])
    case (More t s f)
    show ?case
    proof (cases "atom_compare k s < 0")
      case True
      then have "bounded t lo (Some s)" "wf_bounds lo (Some s)" "within lo (Some s) k" using More.prems by (simp_all add: within_def between_def)
      then show ?thesis using True by auto
    next
      case False
      then have "within (Some s) hi k" using More.prems ak.not_less [of k s] by (simp add: within_def between_def)
      moreover have "fbounded f (Some s) hi" "wf_bounds (Some s) hi" using More.prems by (simp_all add: within_def between_def)
      ultimately show ?thesis using More.IH [of "Some s"] False by simp
    qed
  qed auto
  then show ?thesis using that by blast
qed

lemma get_from_finds:
  "stored db (nodes t) \<Longrightarrow> bounded t lo hi \<Longrightarrow> wf_bounds lo hi \<Longrightarrow> wf_atom k \<Longrightarrow> within lo hi k \<Longrightarrow> height t \<le> n \<Longrightarrow>
    get_from n db (pid t) k =
      Some (case find_entry atom_compare (entries_of t) k of None \<Rightarrow> GetMissing | Some v \<Rightarrow> Got v)"
proof (induction n arbitrary: t lo hi)
  case 0
  then show ?case by (cases t) simp_all
next
  case (Suc n)
  show ?case
  proof (cases t)
    case (Leaf p es)
    have "ascending atom_compare es" "\<forall>e \<in> set es. wf_atom (fst e)" using Suc.prems(2) Leaf by (auto simp: within_def)
    then show ?thesis
      by (rule leaf_find [OF _ _ Suc.prems(4)]) (use Leaf Suc.prems(1) in simp_all)
  next
    case (Inner p f)
    obtain lo' hi' where b: "bounded (froute f k) lo' hi'" "wf_bounds lo' hi'" "within lo' hi' k"
      using froute_bounded [of f lo hi k] Suc.prems Inner by auto
    have "stored db (nodes (froute f k))" using froute_nodes [of f k] Suc.prems(1) Inner by (auto simp: stored_def)
    moreover have "height (froute f k) \<le> n" using froute_height [of f k] Suc.prems(6) Inner by simp
    ultimately have "get_from n db (pid (froute f k)) k =
        Some (case find_entry atom_compare (entries_of (froute f k)) k of None \<Rightarrow> GetMissing | Some v \<Rightarrow> Got v)"
      using Suc.IH [OF _ b(1,2) Suc.prems(4) b(3)] by blast
    then show ?thesis
      using Inner Suc.prems find_entry_route [of f lo hi k] by (simp add: get_child_fents)
  qed
qed

end
