(* ===== verification/Btree_Put.thy ===== *)
theory Btree_Put
  imports Btree_Tree
begin

text \<open>
  Insertion into the tree of pages. The result of an insertion below a child is a forest of one tree,
  or of two with the key between them when the child was split; the parent plugs it in place of the
  child. With records of at most 128 bytes both halves of a split node always fit.
\<close>

section \<open>Forests\<close>

primrec fjoin :: "forest \<Rightarrow> atom \<Rightarrow> forest \<Rightarrow> forest" where
  "fjoin (Last t) s f = More t s f"
| "fjoin (More t r g) s f = More t r (fjoin g s f)"

primrec fplug :: "forest \<Rightarrow> atom \<Rightarrow> forest \<Rightarrow> forest" where
  "fplug (Last t) k g = g"
| "fplug (More t s f) k g = (if atom_compare k s < 0 then fjoin g s f else More t s (fplug f k g))"

lemma forest_cases_induct [case_names Last More]:
  "(\<And>t. P (Last t)) \<Longrightarrow> (\<And>t s f. P f \<Longrightarrow> P (More t s f)) \<Longrightarrow> P f"
  by (induction f rule: forest.induct [of "\<lambda>_. True"]) auto

lemma fjoin [simp]:
  "fhead (fjoin g s f) = fhead g" "fents (fjoin g s f) = fents g @ (s, pid (fhead f)) # fents f"
  "fentries (fjoin g s f) = fentries g @ fentries f" "fnodes (fjoin g s f) = fnodes g @ fnodes f"
  "fheight (fjoin g s f) = max (fheight g) (fheight f)"
  by (induction g rule: forest_cases_induct) auto

lemma fplug_ents:
  "pid (fhead g) = pid (froute f k) \<Longrightarrow>
    pid (fhead (fplug f k g)) = pid (fhead f) \<and>
    fents (fplug f k g) = take (fpos f k) (fents f) @ fents g @ drop (fpos f k) (fents f)"
  by (induction f rule: forest_cases_induct) auto

lemma fplug_height: "fheight (fplug f k g) \<le> max (fheight f) (fheight g)"
  by (induction f rule: forest_cases_induct) auto

lemma fplug_nodes: "\<exists>pre post. fnodes f = pre @ nodes (froute f k) @ post \<and> (\<forall>g. fnodes (fplug f k g) = pre @ fnodes g @ post)"
proof (induction f rule: forest_cases_induct)
  case (Last t)
  show ?case by (intro exI [of _ "[]"]) simp
next
  case (More t s f)
  then obtain pre post where "fnodes f = pre @ nodes (froute f k) @ post" "\<forall>g. fnodes (fplug f k g) = pre @ fnodes g @ post"
    by blast
  then show ?case
    by (cases "atom_compare k s < 0")
      (auto intro: exI [of _ "[]"] exI [of _ "nodes t @ pre"])
qed

lemma fjoin_bounded:
  assumes "fbounded g lo (Some s)" "between lo hi s" "fbounded f (Some s) hi" "wf_bounds lo hi"
  shows "fbounded (fjoin g s f) lo hi"
  using assms
proof (induction g arbitrary: lo rule: forest_cases_induct)
  case (More t r g)
  then have r: "between lo hi r" "wf_atom r" using between_hi [of lo s r] by (auto simp: between_def)
  have "between (Some r) hi s" using More.prems by (auto simp: between_def)
  then have "fbounded (fjoin g s f) (Some r) hi" using More.IH [of "Some r"] More.prems r by simp
  then show ?case using More.prems r by simp
qed simp

lemma fplug_bounded:
  assumes "fbounded f lo hi" "wf_bounds lo hi" "within lo hi k"
  obtains lo' hi' where "bounded (froute f k) lo' hi'" "wf_bounds lo' hi'" "within lo' hi' k"
    "\<And>g. fbounded g lo' hi' \<Longrightarrow> fbounded (fplug f k g) lo hi"
proof -
  have "\<exists>lo' hi'. bounded (froute f k) lo' hi' \<and> wf_bounds lo' hi' \<and> within lo' hi' k \<and>
      (\<forall>g. fbounded g lo' hi' \<longrightarrow> fbounded (fplug f k g) lo hi)"
    using assms
  proof (induction f arbitrary: lo rule: forest_cases_induct)
    case (More t s f)
    show ?case
    proof (cases "atom_compare k s < 0")
      case True
      have "bounded t lo (Some s)" "wf_bounds lo (Some s)" "within lo (Some s) k" using More.prems True by (simp_all add: within_def between_def)
      moreover have "fbounded (fjoin g s f) lo hi" if "fbounded g lo (Some s)" for g
        using fjoin_bounded [OF that] More.prems by simp
      ultimately show ?thesis using True by auto
    next
      case False
      then have "within (Some s) hi k" using More.prems ak.not_less [of k s] by (simp add: within_def between_def)
      moreover have "fbounded f (Some s) hi" "wf_bounds (Some s) hi" using More.prems by (simp_all add: within_def between_def)
      ultimately obtain lo' hi' where "bounded (froute f k) lo' hi'" "wf_bounds lo' hi'" "within lo' hi' k"
        "\<forall>g. fbounded g lo' hi' \<longrightarrow> fbounded (fplug f k g) (Some s) hi"
        using More.IH [of "Some s"] by blast
      then show ?thesis using False More.prems by auto
    qed
  qed auto
  then show ?thesis using that by blast
qed

lemma fplug_entries:
  assumes "fbounded f lo hi" "wf_bounds lo hi" "within lo hi k" "fentries g = upd atom_compare (entries_of (froute f k)) k v"
  shows "fentries (fplug f k g) = upd atom_compare (fentries f) k v"
  using assms
proof (induction f arbitrary: lo rule: forest_cases_induct)
  case (More t s f)
  then have s: "wf_atom s" "fbounded f (Some s) hi" "wf_bounds (Some s) hi" "bounded t lo (Some s)" "wf_bounds lo (Some s)" "wf_atom k"
    by (simp_all add: within_def between_def)
  have f: "within (Some s) hi (fst e)" if "e \<in> set (fentries f)" for e using bounded_entries(2) [OF s(2,3)] that by blast
  have t: "within lo (Some s) (fst e)" if "e \<in> set (entries_of t)" for e using bounded_entries(1) [OF s(4,5)] that by blast
  show ?case
  proof (cases "atom_compare k s < 0")
    case True
    have "atom_compare k (fst e) < 0" if "e \<in> set (fentries f)" for e
      using f [OF that] ak.less_trans [of k s "fst e"] True s(1,6) by (auto simp: within_def between_def)
    then show ?thesis using True More.prems(4) by (simp add: upd_append_left)
  next
    case False
    have "0 < atom_compare k (fst e)" if "e \<in> set (entries_of t)" for e
    proof -
      have e: "wf_atom (fst e)" "atom_compare (fst e) s < 0" using t [OF that] by (simp_all add: within_def between_def)
      have "atom_compare s k \<le> 0" using False ak.not_less [of k s] s(1,6) by simp
      then have "atom_compare (fst e) k < 0" using ak.less_trans [of "fst e" s k] e s(1,6) by simp
      then show ?thesis using ak.cmp_sym [of "fst e" k] e(1) s(6) by simp
    qed
    then have u: "upd atom_compare (fentries (More t s f)) k v = entries_of t @ upd atom_compare (fentries f) k v"
      by (simp add: upd_append_right)
    have "within (Some s) hi k" using False More.prems(3) s ak.not_less [of k s] by (simp add: within_def between_def)
    then have "fentries (fplug f k g) = upd atom_compare (fentries f) k v"
      using More.IH [OF s(2,3)] More.prems(4) False by simp
    then show ?thesis unfolding u using False by simp
  qed
qed simp

text \<open>Dividing a forest at its entry \<open>m\<close>, whose key goes up.\<close>

lemma fcut:
  assumes "m < length (fents f)" "fbounded f lo hi" "wf_bounds lo hi"
  obtains f1 s f2 where "fhead f1 = fhead f" "fents f1 = take m (fents f)" "fents f ! m = (s, pid (fhead f2))"
    "fents f2 = drop (m + 1) (fents f)" "fentries f = fentries f1 @ fentries f2" "fnodes f = fnodes f1 @ fnodes f2"
    "fheight f1 \<le> fheight f" "fheight f2 \<le> fheight f" "between lo hi s" "fbounded f1 lo (Some s)" "fbounded f2 (Some s) hi"
proof -
  have "\<exists>f1 s f2. fhead f1 = fhead f \<and> fents f1 = take m (fents f) \<and> fents f ! m = (s, pid (fhead f2)) \<and>
    fents f2 = drop (m + 1) (fents f) \<and> fentries f = fentries f1 @ fentries f2 \<and> fnodes f = fnodes f1 @ fnodes f2 \<and>
    fheight f1 \<le> fheight f \<and> fheight f2 \<le> fheight f \<and> between lo hi s \<and> fbounded f1 lo (Some s) \<and> fbounded f2 (Some s) hi"
    using assms
  proof (induction f arbitrary: m lo rule: forest_cases_induct)
    case (More t s f)
    show ?case
    proof (cases m)
      case 0
      then show ?thesis using More.prems by (intro exI [of _ "Last t"] exI [of _ s] exI [of _ f]) auto
    next
      case (Suc m')
      have s: "between lo hi s" "wf_atom s" "bounded t lo (Some s)" using More.prems(2) by (simp_all add: within_def between_def)
      obtain f1 r f2 where c: "fhead f1 = fhead f" "fents f1 = take m' (fents f)" "fents f ! m' = (r, pid (fhead f2))"
        "fents f2 = drop (m' + 1) (fents f)" "fentries f = fentries f1 @ fentries f2" "fnodes f = fnodes f1 @ fnodes f2"
        "fheight f1 \<le> fheight f" "fheight f2 \<le> fheight f" "between (Some s) hi r" "fbounded f1 (Some s) (Some r)" "fbounded f2 (Some r) hi"
        using More.IH [of m' "Some s"] More.prems Suc s(2) by auto
      have r: "between lo hi r" using between_lo [OF c(9) s(1)] More.prems(3) by simp
      have "between lo (Some r) s" using s(1) c(9) by (auto simp: between_def)
      then show ?thesis using c r s Suc
        by (intro exI [of _ "More t s f1"] exI [of _ r] exI [of _ f2]) auto
    qed
  qed simp
  then show ?thesis using that by blast
qed

section \<open>Halves of a full node\<close>

lemma rooms_sum: "rooms rs = 16 + (\<Sum>r\<leftarrow>rs. length r + 2)"
  by (induction rs) (simp_all add: rooms_def)

lemma sum_bounds:
  fixes rs :: "bytes list"
  assumes "\<forall>r \<in> set rs. 9 \<le> length r \<and> length r \<le> 128"
  shows "11 * length rs \<le> (\<Sum>r\<leftarrow>rs. length r + 2)" "(\<Sum>r\<leftarrow>rs. length r + 2) \<le> 130 * length rs"
  using assms by (induction rs) auto

lemma halves:
  assumes full: "4096 < rooms rs" "rooms rs \<le> 4226" and small: "\<forall>r \<in> set rs. 9 \<le> length r \<and> length r \<le> 128"
  shows "2 \<le> length rs" "rooms (take (length rs div 2) rs) \<le> 4096" "rooms (drop (length rs div 2) rs) \<le> 4096"
    "rooms (drop (length rs div 2 + 1) rs) \<le> 4096"
proof -
  define w where "w rs = (\<Sum>r\<leftarrow>rs. length r + 2)" for rs :: "bytes list"
  let ?m = "length rs div 2"
  have rooms: "rooms xs = 16 + w xs" for xs unfolding w_def by (rule rooms_sum)
  have w: "4080 < w rs" "w rs \<le> 4210" using full unfolding rooms by simp_all
  then have len: "32 \<le> length rs" using sum_bounds(2) [OF small] unfolding w_def by simp
  have split: "w rs = w (take m rs) + w (drop m rs)" for m
    unfolding w_def by (metis append_take_drop_id map_append sum_list.append)
  have low: "11 * length (take m rs) \<le> w (take m rs)" "11 * length (drop m rs) \<le> w (drop m rs)" for m
    unfolding w_def using sum_bounds(1) small by (meson in_set_takeD, meson in_set_dropD)
  have "16 \<le> length (take ?m rs)" "16 \<le> length (drop ?m rs)" "17 \<le> length (take (?m + 1) rs)" using len by simp_all
  then have "176 \<le> w (take ?m rs)" "176 \<le> w (drop ?m rs)" "176 \<le> w (take (?m + 1) rs)"
    using low(1) [of ?m] low(2) [of ?m] low(1) [of "?m + 1"] by linarith+
  then show "rooms (take ?m rs) \<le> 4096" "rooms (drop ?m rs) \<le> 4096" "rooms (drop (?m + 1) rs) \<le> 4096"
    unfolding rooms using w(2) split [of ?m] split [of "?m + 1"] by linarith+
  show "2 \<le> length rs" using len by simp
qed

lemma fits_exact:
  assumes "K < 2 ^ 30" "\<forall>l \<in> set ls. l < 2 ^ 30" "ls \<noteq> []"
  shows "fits (of_nat K) (map of_nat ls) \<longleftrightarrow> K + sum_list ls \<le> 4096"
  using assms
proof (induction ls arbitrary: K)
  case (Cons l ls)
  have u: "unat (of_nat K + of_nat l :: u32) = K + l" using Cons.prems by (intro of_nat_sum_small) simp
  show ?case
  proof (cases "4096 < K + l")
    case True
    then have "4096 < (of_nat K + of_nat l :: u32)" using u by (simp add: word_less_nat_alt)
    then show ?thesis using True by simp
  next
    case False
    then have "\<not> 4096 < (of_nat K + of_nat l :: u32)" using u by (simp add: word_less_nat_alt)
    then show ?thesis using False Cons.IH [of "K + l"] Cons.prems by (cases ls) auto
  qed
qed simp

lemma fits_leaf:
  assumes "\<forall>e \<in> set es. wf_atom (fst e) \<and> wf_atom (snd e) \<and> length (leaf_rec e) \<le> 128" "es \<noteq> []" "length es < 2 ^ 20"
  shows "node_fits_leaf es \<longleftrightarrow> node_room (LeafNode es) \<le> 4096"
proof -
  have "map (\<lambda>e. atom_encoded_size (fst e) + atom_encoded_size (snd e)) es = map of_nat (map (length \<circ> leaf_rec) es)"
    using assms(1) asize by (simp add: leaf_rec_def)
  moreover have "(16 + of_nat (length es) * 2 :: u32) = of_nat (16 + 2 * length es)" by simp
  ultimately have "node_fits_leaf es \<longleftrightarrow> fits (of_nat (16 + 2 * length es)) (map of_nat (map (length \<circ> leaf_rec) es))"
    unfolding node_fits_leaf_def by (simp only:)
  also have "\<dots> \<longleftrightarrow> 16 + 2 * length es + sum_list (map (length \<circ> leaf_rec) es) \<le> 4096"
    by (rule fits_exact) (use assms in auto)
  finally show ?thesis by (simp add: rooms_def)
qed

lemma fits_internal:
  assumes "\<forall>e \<in> set es. wf_atom (fst e) \<and> length (inner_rec e) \<le> 128" "es \<noteq> []" "length es < 2 ^ 20"
  shows "node_fits_internal es \<longleftrightarrow> node_room (InternalNode left es) \<le> 4096"
proof -
  have "map (\<lambda>e. atom_encoded_size (fst e) + 4) es = map of_nat (map (length \<circ> inner_rec) es)"
    using assms(1) asize by (simp add: inner_rec_def)
  moreover have "(16 + of_nat (length es) * 2 :: u32) = of_nat (16 + 2 * length es)" by simp
  ultimately have "node_fits_internal es \<longleftrightarrow> fits (of_nat (16 + 2 * length es)) (map of_nat (map (length \<circ> inner_rec) es))"
    unfolding node_fits_internal_def by (simp only:)
  also have "\<dots> \<longleftrightarrow> 16 + 2 * length es + sum_list (map (length \<circ> inner_rec) es) \<le> 4096"
    by (rule fits_exact) (use assms in auto)
  finally show ?thesis by (simp add: rooms_def)
qed

lemma asize_ge: "5 \<le> asize a"
  by (cases a) simp_all

lemma equal_size: "wf_atom a \<Longrightarrow> wf_atom b \<Longrightarrow> atom_compare a b = 0 \<Longrightarrow> asize a = asize b"
proof (cases a; cases b)
  fix s t
  assume "atom_compare a b = 0" "a = AString s" "b = AString t"
  then have "s \<le> t" "t \<le> s" using string_le [of s t] string_le [of t s] string_sym [of s t] by simp_all
  then show ?thesis using \<open>a = AString s\<close> \<open>b = AString t\<close> by simp
qed auto

section \<open>What an insertion does\<close>

definition plugged ::
  "nat \<Rightarrow> nat \<Rightarrow> btree \<Rightarrow> u32 set \<Rightarrow> tree \<Rightarrow> atom option \<Rightarrow> atom option \<Rightarrow> atom \<Rightarrow> atom \<Rightarrow> (atom \<times> u32) option \<Rightarrow> btree \<Rightarrow> bool" where
  "plugged n b db U t lo hi k v promo db' \<longleftrightarrow>
     (\<exists>U' fs' g. pool db' U' fs' \<and> U \<subseteq> U' \<and> keeps (U - fst ` set (nodes t)) db db' \<and> grows n db db' \<and>
        pid (fhead g) = pid t \<and> fents g = (case promo of None \<Rightarrow> [] | Some x \<Rightarrow> [x]) \<and>
        (\<forall>e \<in> set (fents g). length (inner_rec e) \<le> b) \<and> stored db' (fnodes g) \<and> all_fine b (fnodes g) \<and>
        distinct (map fst (fnodes g)) \<and> fst ` set (fnodes g) \<subseteq> fst ` set (nodes t) \<union> (U' - U) \<and>
        fbounded g lo hi \<and> fheight g \<le> height t \<and> fentries g = upd atom_compare (entries_of t) k v)"

text \<open>With small records only a value that replaces a shorter one can fail, and it changes nothing.\<close>

definition put_refused :: "nat \<Rightarrow> btree \<Rightarrow> tree \<Rightarrow> atom \<Rightarrow> atom \<Rightarrow> btree \<Rightarrow> bool" where
  "put_refused b db t k v db' \<longleftrightarrow>
     (b \<le> 128 \<longrightarrow> db' = db \<and> (\<exists>v0. find_entry atom_compare (entries_of t) k = Some v0 \<and> asize v0 < asize v))"

definition put_result ::
  "nat \<Rightarrow> nat \<Rightarrow> btree \<Rightarrow> u32 set \<Rightarrow> tree \<Rightarrow> atom option \<Rightarrow> atom option \<Rightarrow> atom \<Rightarrow> atom \<Rightarrow> inserted \<Rightarrow> bool" where
  "put_result n b db U t lo hi k v r \<longleftrightarrow>
     (\<exists>db'. r = Some (None, db') \<and> put_refused b db t k v db' \<or>
       (\<exists>promo. r = Some (Some promo, db') \<and> plugged n b db U t lo hi k v promo db'))"

lemma write_cases:
  assumes "pool db U fs" "p \<in> U" "wf_node nd" "\<forall>r \<in> set (node_recs nd). length r \<le> b"
  obtains (ok) db' where "node_write db p nd = Some (True, db')" "node_load db' p = Some (Some nd)" "fine b nd"
      "pool db' U fs" "keeps (- {p}) db db'" "same_header db db'" "node_room nd \<le> 4096"
    | (full) "node_write db p nd = Some (False, db)" "4096 < node_room nd"
proof (cases "node_room nd \<le> 4096")
  case True
  obtain db' where w: "node_write db p nd = Some (True, db')" "node_load db' p = Some (Some nd)"
    "pool db' U fs" "keeps (- {p}) db db'" "same_header db db'"
    by (rule write_node [OF assms(1-3) True])
  show ?thesis by (rule ok [OF w(1,2) _ w(3-5) True]) (use assms True in \<open>simp add: fine_def\<close>)
next
  case False
  then show ?thesis using full write_node_full [OF assms(3)] by simp
qed

section \<open>Insertion into a leaf\<close>

definition insertable ::
  "nat \<Rightarrow> btree \<Rightarrow> u32 set \<Rightarrow> u32 list \<Rightarrow> tree \<Rightarrow> atom option \<Rightarrow> atom option \<Rightarrow> atom \<Rightarrow> atom \<Rightarrow> bool" where
  "insertable b db U fs t lo hi k v \<longleftrightarrow>
     pool db U fs \<and> fst ` set (nodes t) \<subseteq> U \<and> distinct (map fst (nodes t)) \<and> stored db (nodes t) \<and>
     all_fine b (nodes t) \<and> bounded t lo hi \<and> wf_bounds lo hi \<and> within lo hi k \<and> wf_atom v \<and>
     length (leaf_rec (k, v)) \<le> b"

lemma grows_mono: "grows m a b \<Longrightarrow> m \<le> n \<Longrightarrow> grows n a b"
  by (simp add: grows_def)

text \<open>A node rewritten in place.\<close>

lemma plugged_same:
  assumes "pool db' U fs" "keeps (- {pid t}) db db'" "grows n db db'" "pid t \<in> fst ` set (nodes t)"
    "pid t' = pid t" "stored db' (nodes t')" "all_fine b (nodes t')" "distinct (map fst (nodes t'))"
    "fst ` set (nodes t') \<subseteq> fst ` set (nodes t)" "bounded t' lo hi" "height t' \<le> height t"
    "entries_of t' = upd atom_compare (entries_of t) k v"
  shows "plugged n b db U t lo hi k v None db'"
proof -
  have "keeps (U - fst ` set (nodes t)) db db'" by (rule keeps_subset [OF assms(2)]) (use assms(4) in auto)
  then show ?thesis unfolding plugged_def using assms
    by (intro exI [of _ U] exI [of _ fs] exI [of _ "Last t'"]) auto
qed

text \<open>A node divided into itself and a new right sibling.\<close>

lemma plugged_split:
  assumes "pool db' (insert right U) fs" "right \<notin> U" "keeps (U - fst ` set (nodes t)) db db'" "grows n db db'"
    "pid t1 = pid t" "pid t2 = right" "stored db' (nodes t1 @ nodes t2)" "all_fine b (nodes t1 @ nodes t2)"
    "distinct (map fst (nodes t1 @ nodes t2))" "fst ` set (nodes t1 @ nodes t2) \<subseteq> insert right (fst ` set (nodes t))"
    "bounded t1 lo (Some s)" "bounded t2 (Some s) hi" "between lo hi s" "height t1 \<le> height t" "height t2 \<le> height t"
    "entries_of t1 @ entries_of t2 = upd atom_compare (entries_of t) k v" "length (inner_rec (s, right)) \<le> b"
  shows "plugged n b db U t lo hi k v (Some (s, right)) db'"
  unfolding plugged_def using assms
  by (intro exI [of _ "insert right U"] exI [of _ fs] exI [of _ "More t1 s (Last t2)"]) auto

lemma leaf_key_small: "length (leaf_rec e) \<le> b \<Longrightarrow> length (inner_rec (fst e, p)) \<le> b"
  using asize_ge [of "snd e"] by (simp add: leaf_rec_def inner_rec_def)

lemma rec_min: "9 \<le> length (leaf_rec e)" "9 \<le> length (inner_rec e')"
  using asize_ge [of "fst e"] asize_ge [of "snd e"] asize_ge [of "fst e'"] by (simp_all add: leaf_rec_def inner_rec_def)

lemma leaf_put_found:
  assumes ins: "insertable b db U fs (Leaf p es) lo hi k v" and "leaf_find_slot es k = (True, pos)" "pos < length es"
    and cmp: "atom_compare k (fst (es ! pos)) = 0" and u: "upd atom_compare es k v = es[pos := (fst (es ! pos), v)]"
    and find: "find_entry atom_compare es k = Some (snd (es ! pos))"
  shows "put_result 1 b db U (Leaf p es) lo hi k v (leaf_insert db p es k v)"
proof -
  let ?e = "(fst (es ! pos), v)" and ?es = "es[pos := (fst (es ! pos), v)]"
  have pool: "pool db U fs" "p \<in> U" and fine: "fine b (LeafNode es)" and asc: "ascending atom_compare es"
    and inw: "\<forall>e \<in> set es. within lo hi (fst e)" and v: "wf_atom v" "wf_atom k" "length (leaf_rec (k, v)) \<le> b"
    using ins by (auto simp: insertable_def within_def)
  have wf: "\<forall>e \<in> set es. wf_atom (fst e) \<and> wf_atom (snd e)" and small: "\<forall>e \<in> set es. length (leaf_rec e) \<le> b"
    using fine by (auto simp: fine_def)
  have e: "es ! pos \<in> set es" using assms(3) by simp
  have "asize (fst (es ! pos)) = asize k" using equal_size [OF v(2) _ cmp] wf e by simp
  then have rec: "length (leaf_rec ?e) = length (leaf_rec (k, v))" by (simp add: leaf_rec_def)
  have sub: "set ?es \<subseteq> insert ?e (set es)" by (rule set_update_subset_insert)
  have wf': "wf_node (LeafNode ?es)" using sub wf e v(1) by auto
  have small': "\<forall>r \<in> set (node_recs (LeafNode ?es)). length r \<le> b" using sub small rec v(3) by auto
  show ?thesis
    using pool wf' small'
  proof (cases rule: write_cases)
    case (ok db')
    have "ascending atom_compare ?es" unfolding u [symmetric] using ak.ascending_upd [OF asc _ v(2)] wf by blast
    moreover have "\<forall>x \<in> set ?es. within lo hi (fst x)" using sub inw e by auto
    ultimately have "plugged 1 b db U (Leaf p es) lo hi k v None db'"
      using ok(2-4) u ok(5) grows_mono [OF same_header_grows [OF ok(6)]]
      by (intro plugged_same [where fs = fs and t' = "Leaf p ?es"]) simp_all
    then show ?thesis using ok(1) assms(2) by (simp add: leaf_insert_def put_result_def)
  next
    case full
    have "rooms (map leaf_rec ?es) \<le> rooms (map leaf_rec es)" if "asize v \<le> asize (snd (es ! pos))"
    proof -
      have "length (leaf_rec ?e) \<le> length (leaf_rec (es ! pos))" using that by (simp add: leaf_rec_def)
      moreover have "length (leaf_rec (es ! pos)) \<le> sum_list (map (length \<circ> leaf_rec) es)"
        by (rule member_le_sum_list) (use e in auto)
      ultimately show ?thesis
        using sum_list_update [of pos "map (length \<circ> leaf_rec) es" "length (leaf_rec ?e)"] assms(3)
        by (simp add: rooms_def map_update)
    qed
    then have "\<not> asize v \<le> asize (snd (es ! pos))" using full(2) fine by (auto simp: fine_def)
    then have "put_refused b db (Leaf p es) k v db" using find by (simp add: put_refused_def)
    then show ?thesis using full(1) assms(2) by (simp add: leaf_insert_def put_result_def)
  qed
qed

lemma alloc_and_write:
  assumes pool: "pool db U fs" "p \<in> U" and room: "unat (bt_count db) < 2 ^ 31"
    and nd: "wf_node nd1" "node_room nd1 \<le> 4096" "wf_node nd2" "node_room nd2 \<le> 4096"
  obtains right db1 db2 db3 fs' where "db_alloc_page db = Some (Some right, db1)" "right \<notin> U"
    "node_write db1 p nd1 = Some (True, db2)" "node_write db2 right nd2 = Some (True, db3)"
    "node_load db3 p = Some (Some nd1)" "node_load db3 right = Some (Some nd2)" "pool db3 (insert right U) fs'"
    "keeps (U - {p}) db db3" "grows 1 db db3"
proof -
  obtain right db1 fs' where a: "db_alloc_page db = Some (Some right, db1)" "right \<notin> U" "pool db1 (insert right U) fs'"
    "keeps U db db1" "grows 1 db db1"
    by (rule alloc_page [OF pool(1) room])
  have in1: "p \<in> insert right U" "right \<in> insert right U" using pool(2) by simp_all
  obtain db2 where w1: "node_write db1 p nd1 = Some (True, db2)" "node_load db2 p = Some (Some nd1)"
    "pool db2 (insert right U) fs'" "keeps (- {p}) db1 db2" "same_header db1 db2"
    by (rule write_node [OF a(3) in1(1) nd(1,2)])
  obtain db3 where w2: "node_write db2 right nd2 = Some (True, db3)" "node_load db3 right = Some (Some nd2)"
    "pool db3 (insert right U) fs'" "keeps (- {right}) db2 db3" "same_header db2 db3"
    by (rule write_node [OF w1(3) in1(2) nd(3,4)])
  have "p \<noteq> right" using a(2) pool(2) by blast
  then have n: "node_load db3 p = Some (Some nd1)" using node_load_keeps [OF w2(4) _ w1(2)] by simp
  have k1: "keeps (U - {p}) db db1" by (rule keeps_subset [OF a(4)]) blast
  have k2: "keeps (U - {p}) db1 db2" by (rule keeps_subset [OF w1(4)]) blast
  have k3: "keeps (U - {p}) db2 db3" by (rule keeps_subset [OF w2(4)]) (use a(2) in blast)
  have g: "grows 1 db db3" using grows_trans [OF a(5) same_header_grows [OF same_header_trans [OF w1(5) w2(5)]]] by simp
  show ?thesis by (rule that [OF a(1,2) w1(1) w2(1) n w2(2,3) pages_kept_trans [OF pages_kept_trans [OF k1 k2] k3] g])
qed

text \<open>What the two writes of a split return when not both halves fit.\<close>

lemma alloc_and_write_any:
  assumes pool: "pool db U fs" "p \<in> U" and room: "unat (bt_count db) < 2 ^ 31" and nd: "wf_node nd1" "wf_node nd2"
  obtains (both) "node_room nd1 \<le> 4096" "node_room nd2 \<le> 4096"
    | (other) right db1 ok1 db2 ok2 db3 where "db_alloc_page db = Some (Some right, db1)"
      "node_write db1 p nd1 = Some (ok1, db2)" "node_write db2 right nd2 = Some (ok2, db3)" "\<not> (ok1 \<and> ok2)"
      "\<not> (node_room nd1 \<le> 4096 \<and> node_room nd2 \<le> 4096)"
proof (cases "node_room nd1 \<le> 4096 \<and> node_room nd2 \<le> 4096")
  case False
  obtain right db1 fs' where a: "db_alloc_page db = Some (Some right, db1)" "pool db1 (insert right U) fs'"
    by (rule alloc_page [OF pool(1) room])
  have in1: "p \<in> insert right U" "right \<in> insert right U" using pool(2) by simp_all
  have w: "\<exists>ok db'' fs. node_write db' q nd = Some (ok, db'') \<and> pool db'' (insert right U) fs \<and> (ok \<longrightarrow> node_room nd \<le> 4096)"
    if "pool db' (insert right U) fs" "q \<in> insert right U" "wf_node nd" for db' q nd fs
  proof (cases "node_room nd \<le> 4096")
    case True
    show ?thesis by (rule write_node [OF that True]) (use True in blast)
  next
    case False
    then show ?thesis using write_node_full [OF that(3)] that(1) by auto
  qed
  obtain ok1 db2 fs2 where w1: "node_write db1 p nd1 = Some (ok1, db2)" "pool db2 (insert right U) fs2" "ok1 \<longrightarrow> node_room nd1 \<le> 4096"
    using w [OF a(2) in1(1) nd(1)] by blast
  obtain ok2 db3 where w2: "node_write db2 right nd2 = Some (ok2, db3)" "ok2 \<longrightarrow> node_room nd2 \<le> 4096"
    using w [OF w1(2) in1(2) nd(2)] by blast
  show ?thesis by (rule other [OF a(1) w1(1) w2(1)]) (use w1(3) w2(2) False in blast)+
qed (use both in blast)

lemma leaf_put_missing:
  assumes ins: "insertable b db U fs (Leaf p es) lo hi k v" and slot: "leaf_find_slot es k = (False, pos)" and pos: "pos \<le> length es"
    and u: "upd atom_compare es k v = take pos es @ (k, v) # drop pos es" and room: "unat (bt_count db) < 2 ^ 31"
  shows "put_result 1 b db U (Leaf p es) lo hi k v (leaf_insert db p es k v)"
proof -
  define every where "every = leaf_build_with_insert es pos k v"
  define m where "m = length every div 2"
  have pool: "pool db U fs" "p \<in> U" and fine: "fine b (LeafNode es)" and asc: "ascending atom_compare es"
    and inw: "\<forall>e \<in> set es. within lo hi (fst e)" and v: "wf_atom v" "wf_atom k" "within lo hi k" "length (leaf_rec (k, v)) \<le> b"
    and wfb: "wf_bounds lo hi"
    using ins by (auto simp: insertable_def within_def)
  have every: "every = take pos es @ (k, v) # drop pos es" by (simp add: every_def leaf_build_with_insert_def)
  have "set es = set (take pos es) \<union> set (drop pos es)" by (metis append_take_drop_id set_append)
  then have set_every: "set every = insert (k, v) (set es)" by (simp add: every)
  have wf: "\<forall>e \<in> set every. wf_atom (fst e) \<and> wf_atom (snd e)" and small: "\<forall>e \<in> set every. length (leaf_rec e) \<le> b"
    using fine v by (auto simp: fine_def set_every)
  have asc': "ascending atom_compare every" unfolding every u [symmetric] using ak.ascending_upd [OF asc _ v(2)] fine by (auto simp: fine_def)
  have inw': "\<forall>e \<in> set every. within lo hi (fst e)" using inw v(3) by (simp add: set_every)
  have len: "length every = Suc (length es)" using pos by (simp add: every)
  have run: "leaf_insert db p es k v =
     (if node_fits_leaf every then do {
          (ok, db) \<leftarrow> node_write db p (LeafNode every);
          Some (if ok then Some None else None, db)
        }
        else if m = 0 \<or> length every \<le> m then Some (None, db)
        else do {
          (r, db) \<leftarrow> db_alloc_page db;
          (case r of
             None \<Rightarrow> Some (None, db)
           | Some right \<Rightarrow> do {
               (ok_left, db) \<leftarrow> node_write db p (LeafNode (take m every));
               (ok_right, db) \<leftarrow> node_write db right (LeafNode (drop m every));
               Some (if ok_left \<and> ok_right then Some (Some (fst (every ! m), right)) else None, db)
             })
        })"
    by (simp only: leaf_insert_def slot every_def m_def Let_def prod.case simp_thms if_False)
  have roomsz: "node_room (LeafNode every) = node_room (LeafNode es) + length (leaf_rec (k, v)) + 2"
  proof -
    have "sum_list (map (length \<circ> leaf_rec) es) = sum_list (map (length \<circ> leaf_rec) (take pos es @ drop pos es))" by simp
    then show ?thesis using len by (simp add: rooms_def every del: append_take_drop_id)
  qed
  have "length es \<le> 4096" using fine by (simp add: fine_def rooms_def)
  then have len2: "every \<noteq> []" "length every < 2 ^ 20" using len by auto
  have fits: "node_fits_leaf every \<longleftrightarrow> node_room (LeafNode every) \<le> 4096" if "b \<le> 128"
  proof (rule fits_leaf [OF _ len2])
    show "\<forall>e \<in> set every. wf_atom (fst e) \<and> wf_atom (snd e) \<and> length (leaf_rec e) \<le> 128"
      using wf small that le_trans by blast
  qed
  have half: "0 < m \<and> m < length every \<and> node_room (LeafNode (take m every)) \<le> 4096 \<and> node_room (LeafNode (drop m every)) \<le> 4096"
    if "b \<le> 128" "4096 < node_room (LeafNode every)"
  proof -
    have "rooms (map leaf_rec every) \<le> 4226" using roomsz fine v(4) that(1) by (simp add: fine_def)
    moreover have "\<forall>r \<in> set (map leaf_rec every). 9 \<le> length r \<and> length r \<le> 128"
      using small that(1) rec_min(1) by fastforce
    ultimately show ?thesis using halves [of "map leaf_rec every"] that(2) by (simp add: m_def take_map drop_map)
  qed
  have refused: "put_refused b db (Leaf p es) k v db'" if "\<not> b \<le> 128" for db' using that by (simp add: put_refused_def)
  show ?thesis
  proof (cases "node_fits_leaf every")
    case True
    have "wf_node (LeafNode every)" "\<forall>r \<in> set (node_recs (LeafNode every)). length r \<le> b" using wf small by auto
    with pool show ?thesis
    proof (cases rule: write_cases)
      case (ok db')
      then have "plugged 1 b db U (Leaf p es) lo hi k v None db'"
        using u every asc' inw' grows_mono [OF same_header_grows [OF ok(6)]]
        by (intro plugged_same [where fs = fs and t' = "Leaf p every"]) simp_all
      then show ?thesis using ok(1) True by (simp add: run put_result_def)
    next
      case full
      then have "\<not> b \<le> 128" using fits True by auto
      then show ?thesis using full(1) True refused by (simp add: run put_result_def)
    qed
  next
    case nofit: False
    show ?thesis
    proof (cases "m = 0 \<or> length every \<le> m")
      case True
      then have "\<not> b \<le> 128" using half fits nofit by auto
      then show ?thesis using True nofit refused by (simp add: run put_result_def)
    next
      case False
      have wf2: "wf_node (LeafNode (take m every))" "wf_node (LeafNode (drop m every))"
        using wf by (auto dest: in_set_takeD in_set_dropD)
      from pool room wf2 show ?thesis
      proof (cases rule: alloc_and_write_any)
        case (other right db1 ok1 db2 ok2 db3)
        then have "\<not> b \<le> 128" using half fits nofit by auto
        then show ?thesis using other False nofit refused by (auto simp: run put_result_def)
      next
        case both
        obtain right db1 db2 db3 fs' where w: "db_alloc_page db = Some (Some right, db1)" "right \<notin> U"
          "node_write db1 p (LeafNode (take m every)) = Some (True, db2)" "node_write db2 right (LeafNode (drop m every)) = Some (True, db3)"
          "node_load db3 p = Some (Some (LeafNode (take m every)))" "node_load db3 right = Some (Some (LeafNode (drop m every)))"
          "pool db3 (insert right U) fs'" "keeps (U - {p}) db db3" "grows 1 db db3"
          by (rule alloc_and_write [OF pool room wf2(1) both(1) wf2(2) both(2)])
        let ?s = "fst (every ! m)"
        have m: "m < length every" "every ! m \<in> set every" using False by auto
        have drop: "drop m every = every ! m # drop (m + 1) every" using m(1) by (simp add: Cons_nth_drop_Suc)
        have asc2: "ascending atom_compare (take m every @ drop m every)" using asc' by simp
        have A: "ascending atom_compare (take m every)" "ascending atom_compare (drop m every)"
          "\<forall>x \<in> set (take m every). atom_compare (fst x) ?s < 0"
          using asc2 unfolding ascending_append drop by simp_all
        have A4: "\<forall>x \<in> set (drop (m + 1) every). atom_compare ?s (fst x) < 0" using A(2) unfolding drop by simp
        have s: "within lo hi ?s" "wf_atom ?s" using inw' m(2) wf by auto
        have b1: "bounded (Leaf p (take m every)) lo (Some ?s)"
          using A(1,3) inw' by (auto simp: within_def dest: in_set_takeD)
        have "within (Some ?s) hi (fst x)" if "x \<in> set (drop m every)" for x
        proof -
          have "x = every ! m \<or> x \<in> set (drop (m + 1) every)" using that unfolding drop by simp
          then have "atom_compare ?s (fst x) \<le> 0" using A4 atom_refl [OF s(2)] by fastforce
          moreover have "within lo hi (fst x)" using inw' that by (auto dest: in_set_dropD)
          ultimately show ?thesis by (simp add: within_def)
        qed
        then have b2: "bounded (Leaf right (drop m every)) (Some ?s) hi" using A(2) by simp
        have fine2: "fine b (LeafNode (take m every))" "fine b (LeafNode (drop m every))"
          using wf2 both small by (auto simp: fine_def dest: in_set_takeD in_set_dropD)
        have e: "take m every @ drop m every = upd atom_compare es k v"
          by (simp only: u every [symmetric] append_take_drop_id)
        have "p \<noteq> right" using w(2) pool(2) by blast
        then have "plugged 1 b db U (Leaf p es) lo hi k v (Some (?s, right)) db3"
          using fine2 w(5,6) e leaf_key_small [of "every ! m" b right] small m(2)
          by (intro plugged_split [OF w(7,2) _ w(9) _ _ _ _ _ _ b1 b2 within_between [OF s(1)]]) (simp_all add: w(8))
        then show ?thesis using w(1,3,4) False nofit by (simp add: run put_result_def)
      qed
    qed
  qed
qed

section \<open>Insertion into an inner node\<close>

lemma stored_forest: "stored db (fnodes f) \<Longrightarrow> keeps Q db db' \<Longrightarrow> fst ` set (fnodes f) \<subseteq> Q \<Longrightarrow> stored db' (fnodes f)"
  using stored_keeps by blast

definition promoted ::
  "nat \<Rightarrow> btree \<Rightarrow> u32 set \<Rightarrow> u32 \<Rightarrow> forest \<Rightarrow> atom option \<Rightarrow> atom option \<Rightarrow> (atom \<times> u32) option \<Rightarrow> btree \<Rightarrow> bool" where
  "promoted b db U p f lo hi promo db' \<longleftrightarrow>
     (\<exists>U' fs' g. pool db' U' fs' \<and> U \<subseteq> U' \<and> keeps (U - {p} - fst ` set (fnodes f)) db db' \<and> grows 1 db db' \<and>
        pid (fhead g) = p \<and> fents g = (case promo of None \<Rightarrow> [] | Some x \<Rightarrow> [x]) \<and>
        (\<forall>e \<in> set (fents g). length (inner_rec e) \<le> b) \<and> stored db' (fnodes g) \<and> all_fine b (fnodes g) \<and>
        distinct (map fst (fnodes g)) \<and> fst ` set (fnodes g) \<subseteq> insert p (fst ` set (fnodes f)) \<union> (U' - U) \<and>
        fbounded g lo hi \<and> fheight g \<le> Suc (fheight f) \<and> fentries g = fentries f)"

lemma promote_step:
  fixes f :: forest
  defines "every \<equiv> fents f"
  assumes pool: "pool db U fs" "p \<in> U" and room: "unat (bt_count db) < 2 ^ 31"
    and build: "fents f = internal_build_with_insert es pos promo" and left: "pid (fhead f) = left"
    and st: "stored db (fnodes f)" "all_fine b (fnodes f)" "distinct (p # map fst (fnodes f))" "fst ` set (fnodes f) \<subseteq> U"
    and bnd: "fbounded f lo hi" "wf_bounds lo hi"
    and small: "\<forall>e \<in> set (fents f). wf_atom (fst e) \<and> length (inner_rec e) \<le> b"
    and size: "b \<le> 128 \<longrightarrow> rooms (map inner_rec (fents f)) \<le> 4226"
  shows "\<exists>r db'. internal_promote db p left es pos promo = Some (r, db') \<and> (r = None \<longrightarrow> \<not> b \<le> 128) \<and>
    (\<forall>promo'. r = Some promo' \<longrightarrow> promoted b db U p f lo hi promo' db')"
proof -
  define m where "m = length every div 2"
  have run: "internal_promote db p left es pos promo =
     (if node_fits_internal every then do {
        (ok, db) \<leftarrow> node_write db p (InternalNode left every);
        Some (if ok then Some None else None, db)
      }
      else if m = 0 \<or> length every \<le> m then Some (None, db)
      else do {
        (r, db) \<leftarrow> db_alloc_page db;
        (case r of
           None \<Rightarrow> Some (None, db)
         | Some right \<Rightarrow> do {
             (ok_left, db) \<leftarrow> node_write db p (InternalNode left (take m every));
             (ok_right, db) \<leftarrow> node_write db right (InternalNode (snd (every ! m)) (drop (m + 1) every));
             Some (if ok_left \<and> ok_right then Some (Some (fst (every ! m), right)) else None, db)
           })
      })"
    by (simp only: internal_promote_def every_def build m_def Let_def)
  have ne: "every \<noteq> []" by (simp add: every_def build internal_build_with_insert_def)
  have p: "p \<notin> fst ` set (fnodes f)" "distinct (map fst (fnodes f))" using st(3) by auto
  have keep: "fst ` set (fnodes f) \<subseteq> U - {p}" using st(4) p(1) by blast
  have small': "\<forall>e \<in> set every. wf_atom (fst e) \<and> length (inner_rec e) \<le> b" using small by (simp add: every_def)
  have len: "length every < 2 ^ 20" if "b \<le> 128" using size that by (simp add: rooms_def every_def)
  have fits: "node_fits_internal every \<longleftrightarrow> rooms (map inner_rec every) \<le> 4096" if "b \<le> 128"
  proof -
    have "\<forall>e \<in> set every. wf_atom (fst e) \<and> length (inner_rec e) \<le> 128" using small' that le_trans by blast
    then show ?thesis using fits_internal [of every 0] ne len [OF that] by simp
  qed
  have half: "0 < m \<and> m < length every \<and> rooms (map inner_rec (take m every)) \<le> 4096 \<and> rooms (map inner_rec (drop (m + 1) every)) \<le> 4096"
    if "b \<le> 128" "4096 < rooms (map inner_rec every)"
  proof -
    have "\<forall>r \<in> set (map inner_rec every). 9 \<le> length r \<and> length r \<le> 128"
      using small' that(1) rec_min(2) by fastforce
    then show ?thesis using halves [of "map inner_rec every"] that size by (simp add: m_def take_map drop_map every_def)
  qed
  show ?thesis
  proof (cases "node_fits_internal every")
    case True
    have "wf_node (InternalNode left every)" "\<forall>r \<in> set (node_recs (InternalNode left every)). length r \<le> b" using small' by auto
    with pool show ?thesis
    proof (cases rule: write_cases)
      case (ok db')
      have "stored db' (fnodes f)" by (rule stored_forest [OF st(1) ok(5)]) (use p(1) in blast)
      then have "stored db' (nodes (Inner p f))" "all_fine b (nodes (Inner p f))" "distinct (map fst (nodes (Inner p f)))"
        using ok(2,3) st(2,3) left by (simp_all add: every_def)
      moreover have "keeps (U - {p} - fst ` set (fnodes f)) db db'" by (rule keeps_subset [OF ok(5)]) blast
      ultimately show ?thesis
        using ok(1,4) True bnd(1) grows_mono [OF same_header_grows [OF ok(6)]]
        by (intro exI [of _ "Some None"] exI [of _ db'])
          (auto simp: run promoted_def intro!: exI [of _ U] exI [of _ fs] exI [of _ "Last (Inner p f)"])
    next
      case full
      then have "\<not> b \<le> 128" using fits True by auto
      then show ?thesis using full(1) True by (simp add: run)
    qed
  next
    case nofit: False
    show ?thesis
    proof (cases "m = 0 \<or> length every \<le> m")
      case True
      then have "\<not> b \<le> 128" using half fits nofit by auto
      then show ?thesis using True nofit by (simp add: run)
    next
      case False
      let ?nd2 = "InternalNode (snd (every ! m)) (drop (m + 1) every)"
      have wf2: "wf_node (InternalNode left (take m every))" "wf_node ?nd2"
        using small' by (auto dest: in_set_takeD in_set_dropD)
      from pool room wf2 show ?thesis
      proof (cases rule: alloc_and_write_any)
        case (other right db1 ok1 db2 ok2 db3)
        then have "\<not> b \<le> 128" using half fits nofit by auto
        then show ?thesis using other False nofit by (auto simp: run)
      next
        case both
        obtain right db1 db2 db3 fs' where w: "db_alloc_page db = Some (Some right, db1)" "right \<notin> U"
          "node_write db1 p (InternalNode left (take m every)) = Some (True, db2)" "node_write db2 right ?nd2 = Some (True, db3)"
          "node_load db3 p = Some (Some (InternalNode left (take m every)))" "node_load db3 right = Some (Some ?nd2)"
          "pool db3 (insert right U) fs'" "keeps (U - {p}) db db3" "grows 1 db db3"
          by (rule alloc_and_write [OF pool room wf2(1) both(1) wf2(2) both(2)])
        have m: "m < length (fents f)" "every ! m \<in> set every" using False by (auto simp: every_def)
        obtain f1 s f2 where c: "fhead f1 = fhead f" "fents f1 = take m (fents f)" "fents f ! m = (s, pid (fhead f2))"
          "fents f2 = drop (m + 1) (fents f)" "fentries f = fentries f1 @ fentries f2" "fnodes f = fnodes f1 @ fnodes f2"
          "fheight f1 \<le> fheight f" "fheight f2 \<le> fheight f" "between lo hi s" "fbounded f1 lo (Some s)" "fbounded f2 (Some s) hi"
          by (rule fcut [OF m(1) bnd])
        have s: "every ! m = (s, pid (fhead f2))" using c(3) by (simp add: every_def)
        let ?g = "More (Inner p f1) s (Last (Inner right f2))"
        have new: "right \<notin> fst ` set (fnodes f)" "p \<noteq> right" using w(2) st(4) pool(2) by auto
        have "stored db3 (fnodes f)" by (rule stored_forest [OF st(1) w(8) keep])
        then have S: "stored db3 (fnodes ?g)" using w(5,6) c(1,2,4,6) left s by (simp add: every_def)
        have "fine b (InternalNode left (take m every))" "fine b ?nd2"
          using wf2 both small' by (auto simp: fine_def dest: in_set_takeD in_set_dropD)
        then have F: "all_fine b (fnodes ?g)" using st(2) c(1,2,4,6) left s by (auto simp: every_def)
        have D: "distinct (map fst (fnodes ?g))" using st(3) c(6) new by auto
        have sz: "length (inner_rec (s, right)) \<le> b"
        proof -
          have "length (inner_rec (every ! m)) \<le> b" using small' m(2) by blast
          then show ?thesis using s by (simp add: inner_rec_def)
        qed
        have k: "keeps (U - {p} - fst ` set (fnodes f)) db db3" by (rule keeps_subset [OF w(8)]) blast
        have P: "fst ` set (fnodes ?g) \<subseteq> insert p (fst ` set (fnodes f)) \<union> (insert right U - U)" using c(6) w(2) by auto
        show ?thesis
          using w(1,3,4) False nofit s
          by (intro exI [of _ "Some (Some (s, right))"] exI [of _ db3])
            (use w(7,9) k S F D P sz c in \<open>auto simp: run promoted_def intro!: exI [of _ "insert right U"] exI [of _ fs'] exI [of _ ?g]\<close>)
      qed
    qed
  qed
qed

end
