(* ===== verification/Btree_Insert.thy ===== *)
theory Btree_Insert
  imports Btree_Put
begin

text \<open>
  Insertion along a path of the tree, by induction on the height, and \<open>btree_put\<close> with a new root when
  the old one was split.
\<close>

lemma put_result_leaf:
  assumes "insertable b db U fs (Leaf p es) lo hi k v" "unat (bt_count db) < 2 ^ 31"
  shows "put_result 1 b db U (Leaf p es) lo hi k v (leaf_insert db p es k v)"
proof -
  have "ascending atom_compare es" "\<forall>e \<in> set es. wf_atom (fst e)" "wf_atom k"
    using assms(1) by (auto simp: insertable_def within_def)
  then show ?thesis
  proof (cases rule: leaf_find [where v = v])
    case (found pos)
    then show ?thesis using leaf_put_found [OF assms(1)] by blast
  next
    case (missing pos)
    then show ?thesis using leaf_put_missing [OF assms(1) _ _ _ assms(2)] by blast
  qed
qed

lemma plugged_mono: "plugged m b db U t lo hi k v promo db' \<Longrightarrow> m \<le> n \<Longrightarrow> plugged n b db U t lo hi k v promo db'"
  unfolding plugged_def by (elim exE conjE, intro exI conjI) (assumption | erule (1) grows_mono)+

lemma put_result_mono: "put_result m b db U t lo hi k v r \<Longrightarrow> m \<le> n \<Longrightarrow> put_result n b db U t lo hi k v r"
  using plugged_mono unfolding put_result_def by metis

lemma rooms_insert:
  "rooms (map rc (take i es @ x # drop i es)) = rooms (map rc es) + length (rc x) + 2"
proof -
  have "length (map rc (take i es) @ rc x # map rc (drop i es)) = Suc (length es)" by simp
  moreover have "sum_list (map (length \<circ> rc) es) = sum_list (map (length \<circ> rc) (take i es)) + sum_list (map (length \<circ> rc) (drop i es))"
    by (metis append_take_drop_id map_append sum_list.append)
  ultimately show ?thesis by (simp add: rooms_def del: length_append)
qed

lemma fents_wf: "fbounded f lo hi \<Longrightarrow> e \<in> set (fents f) \<Longrightarrow> wf_atom (fst e)"
  by (induction f arbitrary: lo rule: forest_cases_induct) (auto simp: between_def)

text \<open>The parent with the forest in place of the child.\<close>

lemma plug_child:
  assumes ins: "insertable b db U fs (Inner p f) lo hi k v"
    and bnd: "\<forall>g. fbounded g lo' hi' \<longrightarrow> fbounded (fplug f k g) lo hi"
    and g: "pool db1 U1 fs1" "U \<subseteq> U1" "keeps (U - fst ` set (nodes (froute f k))) db db1"
      "pid (fhead g) = pid (froute f k)" "\<forall>e \<in> set (fents g). length (inner_rec e) \<le> b" "stored db1 (fnodes g)" "all_fine b (fnodes g)"
      "distinct (map fst (fnodes g))" "fst ` set (fnodes g) \<subseteq> fst ` set (nodes (froute f k)) \<union> (U1 - U)"
      "fbounded g lo' hi'" "fheight g \<le> height (froute f k)" "fentries g = upd atom_compare (entries_of (froute f k)) k v"
  shows "node_load db1 p = Some (Some (inner_node f))" "stored db1 (fnodes (fplug f k g))" "all_fine b (fnodes (fplug f k g))"
    "distinct (p # map fst (fnodes (fplug f k g)))" "fst ` set (fnodes (fplug f k g)) \<subseteq> fst ` set (fnodes f) \<union> (U1 - U)"
    "fbounded (fplug f k g) lo hi" "fheight (fplug f k g) \<le> fheight f"
    "fentries (fplug f k g) = upd atom_compare (fentries f) k v"
    "\<forall>e \<in> set (fents (fplug f k g)). wf_atom (fst e) \<and> length (inner_rec e) \<le> b"
proof -
  have I: "pool db U fs" "insert p (fst ` set (fnodes f)) \<subseteq> U" "distinct (p # map fst (fnodes f))"
    "node_load db p = Some (Some (inner_node f))" "stored db (fnodes f)" "fine b (inner_node f)" "all_fine b (fnodes f)"
    "fbounded f lo hi" "wf_bounds lo hi" "within lo hi k"
    using ins by (simp_all add: insertable_def)
  obtain pre post where n: "fnodes f = pre @ nodes (froute f k) @ post" "fnodes (fplug f k g) = pre @ fnodes g @ post"
    using fplug_nodes [of f k] by blast
  have others: "fst ` set (pre @ post) \<subseteq> U - fst ` set (nodes (froute f k))" "p \<in> U - fst ` set (nodes (froute f k))"
    using I(2,3) unfolding n(1) by auto
  show "node_load db1 p = Some (Some (inner_node f))" by (rule node_load_keeps [OF g(3) others(2) I(4)])
  have "stored db (pre @ post)" using I(5) n(1) by simp
  then have "stored db1 (pre @ post)" by (rule stored_keeps [OF g(3) others(1)])
  then show "stored db1 (fnodes (fplug f k g))" using g(6) n(2) by simp
  show "all_fine b (fnodes (fplug f k g))" using I(7) g(7) unfolding n by auto
  show "distinct (p # map fst (fnodes (fplug f k g)))"
    using I(2,3) g(8,9) others unfolding n by auto
  show "fst ` set (fnodes (fplug f k g)) \<subseteq> fst ` set (fnodes f) \<union> (U1 - U)" using g(9) unfolding n by auto
  show bd: "fbounded (fplug f k g) lo hi" using bnd g(10) by blast
  show "fheight (fplug f k g) \<le> fheight f" using fplug_height [of f k g] froute_height [of f k] g(11) by simp
  show "fentries (fplug f k g) = upd atom_compare (fentries f) k v" by (rule fplug_entries [OF I(8-10) g(12)])
  have "length (inner_rec e) \<le> b" if "e \<in> set (fents (fplug f k g))" for e
    using that fplug_ents [OF g(4)] g(5) I(6) by (auto simp: fine_def dest: in_set_takeD in_set_dropD)
  then show "\<forall>e \<in> set (fents (fplug f k g)). wf_atom (fst e) \<and> length (inner_rec e) \<le> b" using fents_wf [OF bd] by blast
qed

lemma insert_recursive_inner:
  assumes ins: "insertable b db U fs (Inner p f) lo hi k v" and room: "unat (bt_count db) + Suc n \<le> 2 ^ 31"
    and bnd: "\<And>g. fbounded g lo' hi' \<Longrightarrow> fbounded (fplug f k g) lo hi"
    and child: "put_result n b db U (froute f k) lo' hi' k v (insert_recursive n db (pid (froute f k)) k v)"
  shows "put_result (Suc n) b db U (Inner p f) lo hi k v (insert_recursive (Suc n) db p k v)"
proof -
  have I: "node_load db p = Some (Some (inner_node f))" "fine b (inner_node f)" "fbounded f lo hi" "wf_bounds lo hi" "within lo hi k" "wf_atom k" "p \<in> U"
    using ins by (simp_all add: insertable_def within_def)
  have run: "insert_recursive (Suc n) db p k v =
      do {
        (r, db) \<leftarrow> insert_recursive n db (pid (froute f k)) k v;
        (case r of
           None \<Rightarrow> Some (None, db)
         | Some None \<Rightarrow> Some (Some None, db)
         | Some (Some promote) \<Rightarrow> internal_promote db p (pid (fhead f)) (fents f) (fpos f k) promote)
      }"
    using I(1) by (simp add: internal_find_route_def find_route_fents)
  consider (no) db1 where "insert_recursive n db (pid (froute f k)) k v = Some (None, db1)" "put_refused b db (froute f k) k v db1"
    | (yes) promo db1 where "insert_recursive n db (pid (froute f k)) k v = Some (Some promo, db1)"
        "plugged n b db U (froute f k) lo' hi' k v promo db1"
    using child by (auto simp: put_result_def)
  then show ?thesis
  proof cases
    case no
    then have "put_refused b db (Inner p f) k v db1"
      using find_entry_route [OF I(3,4,6)] by (simp add: put_refused_def)
    then show ?thesis using no(1) by (simp add: run put_result_def del: insert_recursive.simps)
  next
    case yes
    then obtain U1 fs1 g where g: "pool db1 U1 fs1" "U \<subseteq> U1" "keeps (U - fst ` set (nodes (froute f k))) db db1"
        "grows n db db1" "fents g = (case promo of None \<Rightarrow> [] | Some x \<Rightarrow> [x])"
      and g': "pid (fhead g) = pid (froute f k)" "\<forall>e \<in> set (fents g). length (inner_rec e) \<le> b" "stored db1 (fnodes g)" "all_fine b (fnodes g)"
        "distinct (map fst (fnodes g))" "fst ` set (fnodes g) \<subseteq> fst ` set (nodes (froute f k)) \<union> (U1 - U)"
        "fbounded g lo' hi'" "fheight g \<le> height (froute f k)" "fentries g = upd atom_compare (entries_of (froute f k)) k v"
      unfolding plugged_def by (elim exE conjE) (rule that)
    let ?f = "fplug f k g"
    have bnd': "\<forall>g. fbounded g lo' hi' \<longrightarrow> fbounded (fplug f k g) lo hi" using bnd by blast
    note P = plug_child [OF ins bnd' g(1-3) g']
    have ents: "pid (fhead ?f) = pid (fhead f)" "fents ?f = take (fpos f k) (fents f) @ fents g @ drop (fpos f k) (fents f)"
      using fplug_ents [OF g'(1)] by simp_all
    have sub: "U - insert p (fst ` set (fnodes f)) \<subseteq> U - fst ` set (nodes (froute f k))"
      using froute_nodes [of f k] by auto
    have k1: "keeps (U - fst ` set (nodes (Inner p f))) db db1" by (rule keeps_subset [OF g(3)]) (use sub in simp)
    show ?thesis
    proof (cases promo)
      case None
      then have "inner_node ?f = inner_node f" using ents g(5) by simp
      then have "plugged (Suc n) b db U (Inner p f) lo hi k v None db1"
        using P g(1,2) k1 I(2) grows_mono [OF g(4), of "Suc n"] unfolding plugged_def
        by (intro exI [of _ U1] exI [of _ fs1] exI [of _ "Last (Inner p ?f)"]) auto
      then show ?thesis using yes(1) None by (simp add: run put_result_def del: insert_recursive.simps)
    next
      case (Some x)
      have build: "fents ?f = internal_build_with_insert (fents f) (fpos f k) x"
        using ents(2) g(5) Some by (simp add: internal_build_with_insert_def)
      have cnt: "unat (bt_count db1) < 2 ^ 31" using g(4) room by (simp add: grows_def)
      have inU: "p \<in> U1" "fst ` set (fnodes ?f) \<subseteq> U1" using P(5) I(7) g(2) ins by (auto simp: insertable_def)
      have size: "b \<le> 128 \<longrightarrow> rooms (map inner_rec (fents ?f)) \<le> 4226"
        using rooms_insert [of inner_rec "fpos f k" "fents f" x] I(2) g'(2) g(5) Some ents(2) by (auto simp: fine_def)
      obtain r db2 where r: "internal_promote db1 p (pid (fhead f)) (fents f) (fpos f k) x = Some (r, db2)" "r = None \<longrightarrow> \<not> b \<le> 128"
        and S: "\<forall>promo'. r = Some promo' \<longrightarrow> promoted b db1 U1 p ?f lo hi promo' db2"
        using promote_step [OF g(1) inU(1) cnt build ents(1) P(2,3,4) inU(2) P(6) I(4) P(9) size] by blast
      show ?thesis
      proof (cases r)
        case None
        then show ?thesis using yes(1) Some r by (simp add: run put_result_def put_refused_def del: insert_recursive.simps)
      next
        case (Some promo')
        then obtain U2 fs2 g2 where G: "pool db2 U2 fs2" "U1 \<subseteq> U2" "keeps (U1 - {p} - fst ` set (fnodes ?f)) db1 db2" "grows 1 db1 db2"
          and G': "pid (fhead g2) = p" "fents g2 = (case promo' of None \<Rightarrow> [] | Some x \<Rightarrow> [x])"
            "\<forall>e \<in> set (fents g2). length (inner_rec e) \<le> b" "stored db2 (fnodes g2)" "all_fine b (fnodes g2)"
            "distinct (map fst (fnodes g2))" "fst ` set (fnodes g2) \<subseteq> insert p (fst ` set (fnodes ?f)) \<union> (U2 - U1)"
            "fbounded g2 lo hi" "fheight g2 \<le> Suc (fheight ?f)" "fentries g2 = fentries ?f"
          using S Some unfolding promoted_def by auto
        have "U - fst ` set (nodes (Inner p f)) \<subseteq> U1 - {p} - fst ` set (fnodes ?f)" using P(5) g(2) by auto
        then have "keeps (U - fst ` set (nodes (Inner p f))) db db2" using pages_kept_trans [OF k1 keeps_subset [OF G(3)]] by blast
        moreover have "fst ` set (fnodes g2) \<subseteq> fst ` set (nodes (Inner p f)) \<union> (U2 - U)"
          using G'(7) P(5) g(2) G(2) by auto
        moreover have "grows (Suc n) db db2" using grows_trans [OF g(4) G(4)] by simp
        moreover have "fheight g2 \<le> height (Inner p f)" using G'(9) P(7) by simp
        ultimately have "plugged (Suc n) b db U (Inner p f) lo hi k v promo' db2"
          using G(1,2) g(2) G'(1-6,8,10) P(8) unfolding plugged_def
          by (intro exI [of _ U2] exI [of _ fs2] exI [of _ g2]) simp
        then show ?thesis using yes(1) Some r(1) \<open>promo = Some x\<close> by (simp add: run put_result_def del: insert_recursive.simps)
      qed
    qed
  qed
qed

lemma insert_recursive_result:
  "insertable b db U fs t lo hi k v \<Longrightarrow> height t \<le> n \<Longrightarrow> unat (bt_count db) + n \<le> 2 ^ 31 \<Longrightarrow>
    put_result n b db U t lo hi k v (insert_recursive n db (pid t) k v)"
proof (induction n arbitrary: t lo hi)
  case 0
  then show ?case by (cases t) simp_all
next
  case (Suc n)
  show ?case
  proof (cases t)
    case (Leaf p es)
    have "node_load db p = Some (Some (LeafNode es))" using Suc.prems(1) Leaf by (simp add: insertable_def)
    then show ?thesis using put_result_mono [OF put_result_leaf, of b db U fs p es lo hi k v "Suc n"] Suc.prems Leaf by simp
  next
    case (Inner p f)
    have I: "fbounded f lo hi" "wf_bounds lo hi" "within lo hi k" using Suc.prems(1) Inner by (simp_all add: insertable_def)
    obtain lo' hi' where c: "bounded (froute f k) lo' hi'" "wf_bounds lo' hi'" "within lo' hi' k"
      "\<And>g. fbounded g lo' hi' \<Longrightarrow> fbounded (fplug f k g) lo hi"
      using fplug_bounded [OF I] by metis
    have sub: "set (nodes (froute f k)) \<subseteq> set (nodes t)" using froute_nodes [of f k] Inner by auto
    obtain pre post where n: "fnodes f = pre @ nodes (froute f k) @ post" using fplug_nodes [of f k] by blast
    have "insertable b db U fs (froute f k) lo' hi' k v"
      using Suc.prems(1) Inner c n by (auto simp: insertable_def)
    moreover have "height (froute f k) \<le> n" using froute_height [of f k] Suc.prems(2) Inner by simp
    ultimately have "put_result n b db U (froute f k) lo' hi' k v (insert_recursive n db (pid (froute f k)) k v)"
      using Suc.IH Suc.prems(3) by simp
    then show ?thesis using insert_recursive_inner [OF _ Suc.prems(3) c(4)] Suc.prems(1) Inner by simp
  qed
qed

end
