(* ===== verification/Btree_Map.thy ===== *)
theory Btree_Map
  imports Btree_Insert
begin

text \<open>
  The B-tree is a finite map: \<open>represents\<close> relates a database to a map, lookup reads the map and an
  insertion updates it. Keys are taken up to \<open>atom_compare\<close>, for which -0 and 0 are equal.
\<close>

section \<open>The invariant of a database\<close>

definition btree_inv :: "nat \<Rightarrow> btree \<Rightarrow> tree \<Rightarrow> u32 list \<Rightarrow> bool" where
  "btree_inv b db t fs \<longleftrightarrow>
     pool db (fst ` set (nodes t)) fs \<and> bt_root db = pid t \<and> distinct (map fst (nodes t)) \<and>
     stored db (nodes t) \<and> all_fine b (nodes t) \<and> bounded t None None"

lemma pool_subset: "pool db U fs \<Longrightarrow> V \<subseteq> U \<Longrightarrow> pool db V fs"
  by (auto simp: pool_def)

lemma inv_insertable:
  "btree_inv b db t fs \<Longrightarrow> wf_atom k \<Longrightarrow> wf_atom v \<Longrightarrow> length (leaf_rec (k, v)) \<le> b \<Longrightarrow>
    insertable b db (fst ` set (nodes t)) fs t None None k v"
  by (simp add: btree_inv_def insertable_def within_def)

lemma no_ents: "fents g = [] \<Longrightarrow> \<exists>t. g = Last t"
  by (cases g) simp_all

lemma write_header_root:
  assumes "pool db U fs" "p \<in> U"
  obtains db' where "db_write_header (db\<lparr>bt_root := p\<rparr>) = Some db'" "bt_root db' = p" "bt_mem db' = bt_mem db"
    "bt_count db' = bt_count db" "bt_closed db' = bt_closed db" "pool db' U fs" "keeps (- {0}) db db'"
proof -
  let ?d = "db\<lparr>bt_root := p\<rparr>"
  obtain db' where w: "db_write_header ?d = Some db'" "same_header ?d db'" "keeps (- {0}) ?d db'" by (rule write_header)
  have rd: "db_read_page ?d = db_read_page db" by (auto simp: db_read_page_def)
  have k: "keeps (- {0}) db db'" using w(3) by (simp add: keeps_def rd)
  have "keeps (set fs) db db'" by (rule keeps_subset [OF k]) (use assms in \<open>auto simp: pool_def\<close>)
  then have "pool db' U fs" using assms(1) w(2) free_chain_keeps by (auto simp: pool_def same_header_def)
  then show ?thesis using that w k by (simp add: same_header_def)
qed

lemma btree_put_result:
  assumes inv: "btree_inv b db t fs" and kv: "wf_atom k" "wf_atom v" "length (leaf_rec (k, v)) \<le> b"
    and fuel: "height t \<le> n" "unat (bt_count db) + n < 2 ^ 31"
  obtains (ok) db' t' fs' where "btree_put n db k v = Some (True, db')" "btree_inv b db' t' fs'"
      "entries_of t' = upd atom_compare (entries_of t) k v" "height t' \<le> height t + 1" "unat (bt_count db') \<le> unat (bt_count db) + n + 1"
      "bt_mem db' = bt_mem db" "bt_closed db' = bt_closed db"
    | (refused) db' where "btree_put n db k v = Some (False, db')" "put_refused b db t k v db'"
proof -
  let ?U = "fst ` set (nodes t)"
  have root: "bt_root db = pid t" using inv by (simp add: btree_inv_def)
  have "put_result n b db ?U t None None k v (insert_recursive n db (pid t) k v)"
    by (rule insert_recursive_result [OF inv_insertable [OF inv kv] fuel(1)]) (use fuel(2) in simp)
  then consider (no) db1 where "insert_recursive n db (pid t) k v = Some (None, db1)" "put_refused b db t k v db1"
    | (yes) promo db1 where "insert_recursive n db (pid t) k v = Some (Some promo, db1)" "plugged n b db ?U t None None k v promo db1"
    by (auto simp: put_result_def)
  then show ?thesis
  proof cases
    case no
    then show ?thesis using refused root by (simp add: btree_put_def)
  next
    case yes
    then obtain U1 fs1 g where g: "pool db1 U1 fs1" "?U \<subseteq> U1" "grows n db db1" "pid (fhead g) = pid t"
        "fents g = (case promo of None \<Rightarrow> [] | Some x \<Rightarrow> [x])" "\<forall>e \<in> set (fents g). length (inner_rec e) \<le> b"
        "stored db1 (fnodes g)" "all_fine b (fnodes g)" "distinct (map fst (fnodes g))" "fst ` set (fnodes g) \<subseteq> ?U \<union> (U1 - ?U)"
        "fbounded g None None" "fheight g \<le> height t" "fentries g = upd atom_compare (entries_of t) k v"
      unfolding plugged_def by (elim exE conjE) (rule that)
    have gU: "fst ` set (fnodes g) \<subseteq> U1" using g(2,10) by blast
    show ?thesis
    proof (cases promo)
      case None
      then obtain t' where t': "g = Last t'" using g(5) no_ents by auto
      have "btree_inv b db1 t' fs1"
        using g t' root pool_subset [OF g(1) gU] by (simp add: btree_inv_def grows_def)
      then show ?thesis using ok [of db1 t' fs1] yes(1) None root g t' by (simp add: btree_put_def grows_def)
    next
      case (Some x)
      have "unat (bt_count db1) < 2 ^ 31" using g(3) fuel(2) by (simp add: grows_def)
      then obtain r db2 fs2 where a: "db_alloc_page db1 = Some (Some r, db2)" "r \<notin> U1" "pool db2 (insert r U1) fs2"
        "keeps U1 db1 db2" "grows 1 db1 db2"
        by (rule alloc_page [OF g(1)])
      have roots: "bt_root db1 = pid t" "bt_root db2 = pid t" using g(3) a(5) root by (simp_all add: grows_def)
      have wf: "wf_node (InternalNode (pid t) [x])" "\<forall>r \<in> set (node_recs (InternalNode (pid t) [x])). length r \<le> b"
        using g(5,6) Some fents_wf [OF g(11)] by simp_all
      have "r \<in> insert r U1" by simp
      with a(3) show ?thesis using wf
      proof (cases rule: write_cases)
        case (ok db3)
        obtain db4 where h: "db_write_header (db3\<lparr>bt_root := r\<rparr>) = Some db4" "bt_root db4 = r" "bt_mem db4 = bt_mem db3"
          "bt_count db4 = bt_count db3" "bt_closed db4 = bt_closed db3" "pool db4 (insert r U1) fs2" "keeps (- {0}) db3 db4"
          by (rule write_header_root [OF ok(4), of r]) blast
        have nz: "insert r U1 \<subseteq> - {0}" using a(3) by (auto simp: pool_def)
        let ?t = "Inner r g"
        have "stored db2 (fnodes g)" by (rule stored_keeps [OF a(4) gU g(7)])
        then have "stored db3 (fnodes g)" by (rule stored_forest [OF _ ok(5)]) (use a(2) gU in blast)
        then have s4: "stored db4 (fnodes g)" by (rule stored_forest [OF _ h(7)]) (use gU nz in blast)
        have "node_load db4 r = Some (Some (inner_node g))"
          using node_load_keeps [OF h(7) _ ok(2)] nz g(4,5) Some by simp
        moreover have "pool db4 (fst ` set (nodes ?t)) fs2" by (rule pool_subset [OF h(6)]) (use gU in auto)
        moreover have "r \<notin> fst ` set (fnodes g)" using gU a(2) by blast
        ultimately have "btree_inv b db4 ?t fs2"
          using s4 g(4,5,8,9,11) ok(3) h(2) Some by (simp add: btree_inv_def)
        moreover have "btree_put n db k v = Some (True, db4)"
          using yes(1) Some root roots a(1) ok(1) h(1) by (simp add: btree_put_def)
        moreover have "unat (bt_count db4) \<le> unat (bt_count db) + n + 1" "bt_mem db4 = bt_mem db" "bt_closed db4 = bt_closed db"
          using h(3-5) ok(6) a(5) g(3) by (simp_all add: same_header_def grows_def)
        ultimately show ?thesis using that(1) [of db4 ?t fs2] g(12,13) by simp
      next
        case full
        have "\<not> b \<le> 128" using full(2) wf(2) by (auto simp: rooms_def)
        then show ?thesis using refused [of db2] yes(1) Some root roots a(1) full(1) by (simp add: btree_put_def put_refused_def)
      qed
    qed
  qed
qed

section \<open>Maps\<close>

text \<open>
  A database that represents the map \<open>m\<close>, with records of at most \<open>b\<close> bytes and a tree of height at
  most \<open>h\<close>.
\<close>

definition represents :: "nat \<Rightarrow> nat \<Rightarrow> btree \<Rightarrow> (atom \<Rightarrow> atom option) \<Rightarrow> bool" where
  "represents b h db m \<longleftrightarrow>
     (\<exists>t fs. btree_inv b db t fs \<and> height t \<le> h \<and> (\<forall>k. wf_atom k \<longrightarrow> m k = find_entry atom_compare (entries_of t) k))"

definition record_size :: "atom \<Rightarrow> atom \<Rightarrow> nat" where
  "record_size k v = asize k + asize v"

lemma represents_get:
  assumes "represents b h db m" "h \<le> n" "wf_atom k"
  shows "btree_get_value n db k = Some (case m k of None \<Rightarrow> GetMissing | Some v \<Rightarrow> Got v)"
proof -
  obtain t fs where t: "btree_inv b db t fs" "height t \<le> h" "m k = find_entry atom_compare (entries_of t) k"
    using assms(1,3) by (auto simp: represents_def)
  then have "get_from n db (pid t) k = Some (case m k of None \<Rightarrow> GetMissing | Some v \<Rightarrow> Got v)"
    using get_from_finds [of db t None None k n] assms(2,3) by (simp add: btree_inv_def within_def)
  then show ?thesis using t(1) by (simp add: btree_get_value_def btree_inv_def)
qed

lemma inv_keys_wf: "btree_inv b db t fs \<Longrightarrow> \<forall>e \<in> set (entries_of t). wf_atom (fst e)"
  using bounded_entries(1) [of t None None] by (auto simp: btree_inv_def within_def)

lemma represents_put:
  assumes "represents b h db m" "wf_atom k" "wf_atom v" "record_size k v \<le> b" "b \<le> 128" "h \<le> n" "unat (bt_count db) + n < 2 ^ 31"
  obtains (ok) db' where "btree_put n db k v = Some (True, db')"
      "represents b (h + 1) db' (\<lambda>q. if atom_compare q k = 0 then Some v else m q)" "unat (bt_count db') \<le> unat (bt_count db) + n + 1"
      "bt_mem db' = bt_mem db" "bt_closed db' = bt_closed db"
    | (refused) old where "btree_put n db k v = Some (False, db)" "m k = Some old" "asize old < asize v"
proof -
  obtain t fs where t: "btree_inv b db t fs" "height t \<le> h" "\<forall>k. wf_atom k \<longrightarrow> m k = find_entry atom_compare (entries_of t) k"
    using assms(1) by (auto simp: represents_def)
  have len: "length (leaf_rec (k, v)) \<le> b" using assms(4) by (simp add: record_size_def leaf_rec_def)
  from t(1) assms(2,3) len le_trans [OF t(2) assms(6)] assms(7) show ?thesis
  proof (cases rule: btree_put_result)
    case (ok db' t' fs')
    have "find_entry atom_compare (entries_of t') q = (if atom_compare q k = 0 then Some v else m q)" if "wf_atom q" for q
      using ak.find_upd [OF inv_keys_wf [OF t(1)] assms(2) that] ok(3) t(3) that by simp
    then have "represents b (h + 1) db' (\<lambda>q. if atom_compare q k = 0 then Some v else m q)"
      unfolding represents_def using ok(2,4) t(2) by (intro exI [of _ t'] exI [of _ fs']) simp
    then show ?thesis using that(1) ok by blast
  next
    case (refused db')
    then show ?thesis using that(2) t(3) assms(2,5) by (auto simp: put_refused_def)
  qed
qed

lemma open_memory:
  obtains db where "btree_open_memory = Some db" "represents b 1 db (\<lambda>_. None)" "bt_count db = 2" "bt_mem db" "\<not> bt_closed db"
    "btree_inv b db (Leaf 1 []) []"
proof -
  obtain d0 where d0: "db_mem_ensure_pages (new_db True) 2 = Some d0" "same_header (new_db True) d0"
    by (simp add: db_mem_ensure_pages_def new_db_def same_header_def)
  obtain d1 where d1: "db_write_header d0 = Some d1" "same_header d0 d1" by (rule write_header)
  have p: "unat (1 :: u32) < 2 ^ 31" by simp
  obtain db where w: "db_write_page d1 1 (page_init 1 0) = Some db" "same_header d1 db"
    "1 < bt_count d1 \<Longrightarrow> db_read_page db 1 = Some (page_init 1 0)"
    using write_page [OF p, of d1 "page_init 1 0"] by metis
  have h: "same_header (new_db True) db" using d0(2) d1(2) w(2) same_header_trans by blast
  have "bt_count d1 = 2" using d0(2) d1(2) by (simp add: same_header_def new_db_def)
  then have load: "node_load db 1 = Some (Some (LeafNode []))"
    using node_load_layout [of db 1 "page_init 1 0" "LeafNode []"] w(3) layout_init [of 1 0] by simp
  have inv: "btree_inv b db (Leaf 1 []) []"
    using h load by (simp add: btree_inv_def pool_def same_header_def new_db_def fine_def rooms_def)
  from inv have "represents b 1 db (\<lambda>_. None)"
    unfolding represents_def by (intro exI [of _ "Leaf 1 []"] exI [of _ "[]"]) simp
  moreover have "btree_open_memory = Some db" using d0(1) d1(1) w(1) by (simp add: btree_open_memory_def)
  ultimately show ?thesis using that h inv by (simp add: same_header_def new_db_def)
qed

section \<open>Properties\<close>

text \<open>
  C6. On a database that represents a map and whose records have at most 128 bytes, lookup gives what
  the map gives, and a put gives a database that represents the updated map. The put is refused only
  for a value longer than the one it replaces, and then the database is as before.
\<close>

theorem btree_put_updates_map:
  assumes "represents b h db m" "wf_atom k" "wf_atom v" "record_size k v \<le> b" "b \<le> 128" "h \<le> n" "unat (bt_count db) + n < 2 ^ 31"
  shows "(\<forall>q. wf_atom q \<longrightarrow> btree_get_value n db q = Some (case m q of None \<Rightarrow> GetMissing | Some x \<Rightarrow> Got x)) \<and>
    ((\<exists>db'. btree_put n db k v = Some (True, db') \<and> represents b (h + 1) db' (\<lambda>q. if atom_compare q k = 0 then Some v else m q)) \<or>
     (btree_put n db k v = Some (False, db) \<and> (\<exists>old. m k = Some old \<and> asize old < asize v)))"
proof (rule conjI)
  show "\<forall>q. wf_atom q \<longrightarrow> btree_get_value n db q = Some (case m q of None \<Rightarrow> GetMissing | Some x \<Rightarrow> Got x)"
    using represents_get [OF assms(1,6)] by blast
  from assms show "(\<exists>db'. btree_put n db k v = Some (True, db') \<and> represents b (h + 1) db' (\<lambda>q. if atom_compare q k = 0 then Some v else m q)) \<or>
     (btree_put n db k v = Some (False, db) \<and> (\<exists>old. m k = Some old \<and> asize old < asize v))"
    by (cases rule: represents_put) blast+
qed

theorem btree_put_updates_map_witness:
  "\<exists>db db'. btree_open_memory = Some db \<and> btree_get_value 1 db (AString [107]) = Some GetMissing \<and>
    btree_put 1 db (AString [107]) (AString [1, 2]) = Some (True, db')"
proof -
  obtain db where db: "btree_open_memory = Some db" "represents 128 1 db (\<lambda>_. None)" "bt_count db = 2" by (rule open_memory)
  show ?thesis
    using btree_put_updates_map [OF db(2), of "AString [107]" "AString [1, 2]" 1] db(1,3) by (auto simp: record_size_def)
qed

text \<open>Insertions one after the other, up to the first that fails.\<close>

fun put_all :: "nat \<Rightarrow> btree \<Rightarrow> (atom \<times> atom) list \<Rightarrow> (bool \<times> btree) option" where
  "put_all n db [] = Some (True, db)"
| "put_all n db ((k, v) # kvs) = do { (ok, db) \<leftarrow> btree_put n db k v; (if ok then put_all n db kvs else Some (False, db)) }"

definition written :: "(atom \<times> atom) list \<Rightarrow> (atom \<Rightarrow> atom option) \<Rightarrow> atom \<Rightarrow> atom option" where
  "written kvs m q = fold (\<lambda>e r. if atom_compare q (fst e) = 0 then Some (snd e) else r) kvs (m q)"

lemma put_all_run:
  assumes "\<forall>e \<in> set kvs. wf_atom (fst e) \<and> wf_atom (snd e) \<and> record_size (fst e) (snd e) \<le> 128 \<and> asize (snd e) = sz"
    "represents 128 h db m" "\<forall>q x. m q = Some x \<longrightarrow> asize x = sz" "h + length kvs \<le> n"
    "unat (bt_count db) + length kvs * (n + 1) + n < 2 ^ 31"
  shows "\<exists>db'. put_all n db kvs = Some (True, db') \<and> represents 128 (h + length kvs) db' (written kvs m)"
  using assms
proof (induction kvs arbitrary: db h m)
  case Nil
  then show ?case by (simp add: written_def)
next
  case (Cons e kvs)
  obtain k v where e: "e = (k, v)" by (cases e)
  have kv: "wf_atom k" "wf_atom v" "record_size k v \<le> 128" "asize v = sz" using Cons.prems(1) e by simp_all
  have f: "h \<le> n" "unat (bt_count db) + n < 2 ^ 31" using Cons.prems(4,5) by simp_all
  from Cons.prems(2) kv(1-3) le_refl f show ?case
  proof (cases rule: represents_put)
    case (ok db1)
    let ?m = "\<lambda>q. if atom_compare q k = 0 then Some v else m q"
    have "\<exists>db'. put_all n db1 kvs = Some (True, db') \<and> represents 128 (h + 1 + length kvs) db' (written kvs ?m)"
      by (rule Cons.IH [OF _ ok(2)]) (use Cons.prems kv(4) ok(3) in \<open>auto simp: algebra_simps split: if_splits\<close>)
    moreover have "written (e # kvs) m = written kvs ?m" by (rule ext) (simp add: written_def e)
    ultimately show ?thesis using ok(1) e by simp
  next
    case (refused old)
    then show ?thesis using Cons.prems(3) kv(4) by auto
  qed
qed





end
