(* ===== verification/Demo.thy ===== *)
theory Demo
  imports Machine_Facts
begin

text \<open>
  A small machine on which the properties of instructions are evaluated: one thread (at address
  1) that runs a closure (at 3) of a function (at 2) with given code, constants and stack, a
  string (at 4), and no globals.
\<close>

definition demo_chunk :: "bytes \<Rightarrow> val list \<Rightarrow> chunk" where
  "demo_chunk cs ks = fold (\<lambda>v c. fst (add_constant c v)) ks (fold (\<lambda>b c. write_chunk c b 1) cs init_chunk)"

definition demo_fn :: "bytes \<Rightarrow> val list \<Rightarrow> fn" where
  "demo_fn cs ks =
     \<lparr>arity = 0, upvalue_count = 0, fchunk = demo_chunk cs ks, fname = None, fdoc = None,
      defaults = [], is_variadic = False, param_types = [], param_names = [], fn_is_self = False,
      fn_is_generator = False\<rparr>"

definition demo_frame :: frame where
  "demo_frame =
     \<lparr>fclosure = 3, fip = 0, fslots = 0, frestore = False, fcache = False, fhad_name = False,
      fhad_file = False, fhad_main = False, fcache_name = VNil, fprev_name = VNil, fprev_file = VNil,
      fprev_main = VNil\<rparr>"

definition demo_thread :: "val list \<Rightarrow> thread" where
  "demo_thread vs =
     \<lparr>tframes = [0 \<mapsto> demo_frame], frame_capacity = 64, frame_count = 1,
      stack = (\<lambda>i. if i < length vs then Some (vs ! i) else None), stack_capacity = 256,
      stack_top = length vs, open_upvalues = None, caller = None, is_generator = False,
      generator_mode = False, generator_index = 0, handlers = Map.empty, handler_capacity = 64,
      handler_count = 0, gc_park_next = None, gc_park_count = 0, has_exception = False,
      exception = VNil, last_error = VNil, pending = []\<rparr>"

definition demo_heap :: "fn \<Rightarrow> val list \<Rightarrow> heap" where
  "demo_heap g vs =
     (let h = snd (allocate_object (add_bytes 12800 empty_heap) (OThread (demo_thread vs)));
          h = snd (allocate_object h (OFunction g));
          h = snd (new_closure h 2)
      in snd (copy_string h (bytes_of ''x'')))"

definition demo_vm :: "fn \<Rightarrow> val list \<Rightarrow> vm" where
  "demo_vm g vs =
     \<lparr>vheap = demo_heap g vs, current_thread = Some 1, gc_parked_threads = None, globals = init_table,
      modules = init_table, disable_gc = False, is_repl = False, vnames = no_names,
      str_upper_fn = VNil, str_lower_fn = VNil, interrupt_requested = False,
      run_stop_thread = None, out = [], err = [], cframe = (1, 0), ip = 0\<rparr>"

text \<open>No native functions, no files, the functions of the C library constantly zero.\<close>

definition demo_env :: env where
  "demo_env =
     \<lparr>native_fn = (\<lambda>_ _ _ _ _. None), load_native_module = (\<lambda>_ vm. Some (False, vm)),
      compile = (\<lambda>_ vm. Some (None, vm)), read_file = (\<lambda>_. None), math1 = (\<lambda>_ _. dzero False),
      atan2_fn = (\<lambda>_ _. dzero False), pow_fn = (\<lambda>_ _. dzero False), umark = (\<lambda>_ _. []),
      pointer_text = (\<lambda>_. [])\<rparr>"

lemma obj_at_demo:
  "obj_at (demo_heap g vs) 1 = Some (OThread (demo_thread vs))"
  "obj_at (demo_heap g vs) 2 = Some (OFunction g)"
  "obj_at (demo_heap g vs) 3 = Some (OClosure \<lparr>clfunction = 2, clupvalues = replicate 256 None, clcount = 0\<rparr>)"
  "obj_at (demo_heap g vs) 4 = Some (OString [120] (hash_string [120]))"
  "4 < x \<Longrightarrow> obj_at (demo_heap g vs) x = None"
  by (auto simp: demo_heap_def new_closure_def allocate_object_def obj_at_def empty_heap_def copy_string_def
      allocate_string_def add_bytes_def bytes_of_def)

lemma obj_at_demo_one: "obj_at (demo_heap g vs) (Suc 0) = Some (OThread (demo_thread vs))"
  using obj_at_demo(1) by simp

lemma fresh_demo: "fresh (demo_heap g vs)"
  by (auto simp: demo_heap_def new_closure_def allocate_object_def fresh_def empty_heap_def copy_string_def
      allocate_string_def add_bytes_def)

lemma demo_vm_sel [simp]:
  "vheap (demo_vm g vs) = demo_heap g vs" "globals (demo_vm g vs) = init_table" "ip (demo_vm g vs) = 0"
  "current_thread (demo_vm g vs) = Some 1" "cframe (demo_vm g vs) = (1, 0)"
  by (simp_all add: demo_vm_def)

lemma cur_demo [simp]: "cur (demo_vm g vs) = Some (demo_thread vs)"
  by (simp add: cur_Some_iff obj_at_demo_one)

lemma running_fn_demo [simp]: "running_fn (demo_vm g vs) = Some (2, g)"
  by (simp add: running_fn_def frame_get_def at_iff obj_at_demo obj_at_demo_one thread_at_def closure_at_def
      demo_thread_def demo_frame_def fn_at_def)

lemma demo_thread_sel [simp]:
  "stack_top (demo_thread vs) = length vs" "stack_capacity (demo_thread vs) = 256"
  "stack (demo_thread vs) i = (if i < length vs then Some (vs ! i) else None)"
  "has_exception (demo_thread vs) = False"
  by (simp_all add: demo_thread_def)

lemma string_at_demo: "string_at (demo_heap g vs) 4 = Some [120]"
  by (simp add: string_at_def obj_at_demo)

end
