(* ===== verification/Call_Facts.thy ===== *)
theory Call_Facts
  imports Demo
begin

text \<open>
  Properties of calls: how arguments, defaults and surplus arguments reach the frame of the
  callee, and when a call is refused.
\<close>

section \<open>Arguments on the stack\<close>

lemma those_Some: "(\<And>x. x \<in> set xs \<Longrightarrow> f x = Some (g x)) \<Longrightarrow> those (map f xs) = Some (map g xs)"
  by (induction xs) auto

lemma read_args_eq:
  assumes "cur vm = Some t" "n \<le> stack_top t"
    and "\<And>i. i < n \<Longrightarrow> stack t (stack_top t - n + i) = Some (args ! i)" "length args = n"
  shows "read_args n vm = Some args"
proof -
  have "those (map (\<lambda>i. stack t (stack_top t - n + i)) [0..<n]) = Some (map (\<lambda>i. args ! i) [0..<n])"
    by (rule those_Some) (use assms(3) in auto)
  also have "map (\<lambda>i. args ! i) [0..<n] = args" using assms(4) map_nth [of args] by simp
  finally show ?thesis using assms(1,2) by (simp add: read_args_def)
qed

text \<open>The frame of a call of \<open>cl\<close> with \<open>n\<close> values on top of the callee.\<close>

definition call_frame :: "addr \<Rightarrow> nat \<Rightarrow> frame" where
  "call_frame cl slots =
     \<lparr>fclosure = cl, fip = 0, fslots = slots, frestore = False, fcache = False, fhad_name = False,
      fhad_file = False, fhad_main = False, fcache_name = VNil, fprev_name = VNil, fprev_file = VNil,
      fprev_main = VNil\<rparr>"

definition enter_frame :: "addr \<Rightarrow> nat \<Rightarrow> thread \<Rightarrow> thread" where
  "enter_frame cl n t =
     t\<lparr>tframes := (tframes t)(frame_count t \<mapsto> call_frame cl (stack_top t - n - 1)),
       frame_count := frame_count t + 1\<rparr>"

lemma enter_frame_sel:
  "tframes (enter_frame cl n t) = (tframes t)(frame_count t \<mapsto> call_frame cl (stack_top t - n - 1))"
  "frame_count (enter_frame cl n t) = frame_count t + 1" "stack_top (enter_frame cl n t) = stack_top t"
  "stack (enter_frame cl n t) = stack t"
  by (simp_all add: enter_frame_def)

lemma finish_closure_call_untyped:
  assumes "closure_at (vheap vm) cl = Some c" "fn_at (vheap vm) (clfunction c) = Some g" "param_types g = []"
    and "cur vm = Some t" "frame_count t \<noteq> frame_capacity t" "n < stack_top t"
  shows "finish_closure_call cl n vm = Some (True, put_cur (enter_frame cl n t) vm)"
  using assms by (simp add: finish_closure_call_def enter_frame_def call_frame_def)

lemma closure_fn_put_cur:
  assumes "cur vm = Some t" "closure_at (vheap vm) cl = Some c" "fn_at (vheap vm) (clfunction c) = Some g"
  shows "closure_at (vheap (put_cur u vm)) cl = Some c" "fn_at (vheap (put_cur u vm)) (clfunction c) = Some g"
  using assms other_put_cur [OF assms(1)] by simp_all

text \<open>What a refused call leaves: an exception, and the frames as they were.\<close>

definition refused :: "thread \<Rightarrow> (bool \<times> vm) option \<Rightarrow> bool" where
  "refused t r \<longleftrightarrow>
     (\<exists>vm' t'. r = Some (False, vm') \<and> cur vm' = Some t' \<and> has_exception t' \<and>
        frame_count t' = frame_count t \<and> tframes t' = tframes t \<and> stack_top t' = stack_top t)"

lemma fail_refuses:
  assumes "cur vm = Some t" "fresh (vheap vm)"
  shows "refused t (fail_bytes msg vm)"
proof -
  obtain a h where "cur (vm\<lparr>vheap := h\<rparr>) = Some t"
    "vm_runtime_error msg vm =
       Some (put_cur (t\<lparr>has_exception := True, exception := VObj a, last_error := VObj a\<rparr>) (vm\<lparr>vheap := h\<rparr>))"
    using vm_runtime_error_eq [OF assms, of msg] by blast
  then show ?thesis by (simp add: refused_def fail_bytes_def)
qed

section \<open>Functions with a fixed number of parameters\<close>

lemma call_fixed_enters:
  assumes fn: "closure_at (vheap vm) cl = Some c" "fn_at (vheap vm) (clfunction c) = Some g"
    and plain: "\<not> is_variadic g" "param_types g = []"
    and t: "cur vm = Some t" "n < stack_top t" "frame_count t < frame_capacity t"
    and room: "stack_top t + length (defaults g) \<le> stack_capacity t"
    and ok: "arity g - int (length (defaults g)) \<le> int n" "int n \<le> arity g"
  shows "call cl n vm =
    Some (True, put_cur (enter_frame cl (nat (arity g))
      (push_list (drop (length (defaults g) - (nat (arity g) - n)) (defaults g)) t)) vm)"
proof (cases "int n < arity g")
  case True
  let ?ds = "drop (length (defaults g) - (nat (arity g) - n)) (defaults g)"
  let ?t = "push_list ?ds t"
  have d: "defaults g \<noteq> []" using ok True by auto
  have k: "nat (int n - (arity g - int (length (defaults g)))) = length (defaults g) - (nat (arity g) - n)"
    using ok by linarith
  have len: "length ?ds = nat (arity g) - n" using ok by simp
  have "push_all ?ds vm = Some (put_cur ?t vm)"
    by (rule push_all_eq [OF t(1)]) (use room len in simp)
  moreover have "finish_closure_call cl (nat (arity g)) (put_cur ?t vm) =
      Some (True, put_cur (enter_frame cl (nat (arity g)) ?t) (put_cur ?t vm))"
    by (rule finish_closure_call_untyped [OF closure_fn_put_cur [OF t(1) fn] plain(2)])
      (use t len True in auto)
  ultimately show ?thesis
    using fn plain True ok d k by (simp add: call_def Let_def)
next
  case False
  then have n: "n = nat (arity g)" "arity g = int n" using ok by simp_all
  then show ?thesis
    using fn plain finish_closure_call_untyped [OF fn plain(2) t(1) _ t(2)] t(3)
    by (simp add: call_def)
qed

lemma call_fixed_refuses:
  assumes fn: "closure_at (vheap vm) cl = Some c" "fn_at (vheap vm) (clfunction c) = Some g"
    and plain: "\<not> is_variadic g" and t: "cur vm = Some t" "fresh (vheap vm)"
    and bad: "\<not> (arity g - int (length (defaults g)) \<le> int n \<and> int n \<le> arity g)"
  shows "refused t (call cl n vm)"
  using fn plain bad fail_refuses [OF t] by (auto simp: call_def Let_def)



text \<open>A function of two parameters, the second with a default value, called with one argument.\<close>

definition pair_fn :: fn where
  "pair_fn = (demo_fn [] [])\<lparr>arity := 2, defaults := [VBool True]\<rparr>"


section \<open>Functions with a variable number of arguments\<close>

lemma fill_array_append:
  assumes "array_ok t" "array_max t = k" "\<forall>v\<in>set vs. \<not> is_nil v"
  shows "array_ok (fill_array (int k + 1) vs t) \<and> array_max (fill_array (int k + 1) vs t) = k + length vs \<and>
    (\<forall>j. table_get_array (fill_array (int k + 1) vs t) j =
       (if int k < j \<and> j \<le> int (k + length vs) then Some (vs ! nat (j - int k - 1)) else table_get_array t j)) \<and>
    entries (fill_array (int k + 1) vs t) = entries t"
  using assms
proof (induction vs arbitrary: t k)
  case (Cons v vs)
  obtain t' where t': "table_set_array t (int k + 1) v = Some t'"
    using table_append_array [OF Cons.prems(1), of v] Cons.prems(2) by auto
  have ok: "array_ok t'" by (rule table_set_array_ok [OF t' Cons.prems(1)])
  have m: "array_max t' = Suc k" "entries t' = entries t"
    using t' Cons.prems by (auto simp: table_set_array_def Let_def split: if_splits)
  have get: "table_get_array t' j = (if j = int k + 1 then Some v else table_get_array t j)" for j
    using table_set_array_get [OF t'] Cons.prems(3) by simp
  have "fill_array (int k + 1) (v # vs) t = fill_array (int (Suc k) + 1) vs t'"
    using t' by (simp add: add.commute)
  moreover note Cons.IH [OF ok m(1)]
  ultimately show ?case
    using Cons.prems(3) get m(2) by (auto simp: nth_Cons' nat_diff_distrib)
qed auto

lemma new_table_obj:
  assumes "new_table h = (a, h')"
  shows "a = hnext h" "obj_at h' x =
    (if x = a then Some (OTable \<lparr>otable = init_table, ometatable = None, ois_module = False\<rparr>) else obj_at h x)"
  using obj_at_allocate [OF assms [unfolded new_table_def]] by auto



text \<open>A variadic function of one required parameter, called with three arguments.\<close>

definition rest_fn :: fn where
  "rest_fn = (demo_fn [] [])\<lparr>arity := 2, is_variadic := True\<rparr>"


end
