(* ===== verification/Upvalue_Facts.thy ===== *)
theory Upvalue_Facts
  imports Demo
begin

text \<open>
  Captured variables: the list of open upvalues of a thread is sorted by stack slot, captures of
  one slot share one upvalue, and closing upvalues keeps the values their closures see.
\<close>

section \<open>The list of open upvalues\<close>

text \<open>The upvalues and their slots along the \<open>next\<close> pointers from \<open>p\<close>.\<close>

fun open_chain :: "heap \<Rightarrow> addr \<Rightarrow> addr option \<Rightarrow> (addr \<times> nat) list \<Rightarrow> bool" where
  "open_chain h th p [] \<longleftrightarrow> p = None"
| "open_chain h th p (x # xs) \<longleftrightarrow> p = Some (fst x) \<and>
     (\<exists>u. obj_at h (fst x) = Some (OUpvalue u) \<and> ulocation u = OnStack th (snd x) \<and>
        open_chain h th (unext u) xs)"

text \<open>The open upvalues of the current thread: from the top of the stack down, one for each slot.\<close>

definition open_list :: "vm \<Rightarrow> (addr \<times> nat) list \<Rightarrow> bool" where
  "open_list vm xs \<longleftrightarrow>
     (\<exists>th t. current_thread vm = Some th \<and> obj_at (vheap vm) th = Some (OThread t) \<and>
        open_chain (vheap vm) th (open_upvalues t) xs \<and> sorted_wrt (>) (map snd xs) \<and>
        (\<forall>x\<in>set xs. snd x < stack_capacity t \<and> stack t (snd x) \<noteq> None))"

lemma open_chain_local:
  "open_chain h th p xs \<Longrightarrow> (\<And>x. x \<in> set xs \<Longrightarrow> obj_at h' (fst x) = obj_at h (fst x)) \<Longrightarrow>
    open_chain h' th p xs"
  by (induction xs arbitrary: p) auto

lemma open_chain_obj:
  "open_chain h th p xs \<Longrightarrow> x \<in> set xs \<Longrightarrow>
    \<exists>u. obj_at h (fst x) = Some (OUpvalue u) \<and> ulocation u = OnStack th (snd x)"
  by (induction xs arbitrary: p) auto

lemma open_chain_addrs:
  assumes "open_chain h th p xs" "x \<in> set xs" "y \<in> set xs" "fst x = fst y"
  shows "x = y"
  using open_chain_obj [OF assms(1,2)] open_chain_obj [OF assms(1,3)] assms(4)
  by (auto simp: prod_eq_iff)

lemma obj_at_put_upvalue:
  "obj_at (vheap (put_upvalue a u vm)) x =
    (if x = a \<and> obj_at (vheap vm) a \<noteq> None then Some (OUpvalue u) else obj_at (vheap vm) x)"
  by (simp add: put_upvalue_def obj_at_put_obj)

lemma put_upvalue_sel [simp]:
  "current_thread (put_upvalue a u vm) = current_thread vm"
  by (simp add: put_upvalue_def)

lemma cur_iff2:
  "current_thread vm = Some th \<Longrightarrow> obj_at (vheap vm) th = Some (OThread t) \<Longrightarrow> cur vm = Some t"
  by (auto simp: cur_Some_iff)

section \<open>Closing\<close>

lemma upvalue_get_eq:
  "obj_at (vheap vm) a = Some (OUpvalue u) \<Longrightarrow>
    upvalue_get a vm = (case ulocation u of OnStack b j \<Rightarrow> stack_get b j vm | InClosed \<Rightarrow> Some (uclosed u))"
  by (simp add: upvalue_get_def upvalue_at_def)

lemma stack_get_eq:
  "obj_at (vheap vm) b = Some (OThread t) \<Longrightarrow>
    stack_get b j vm = (if j < stack_capacity t then stack t j else None)"
  by (simp add: stack_get_def thread_at_def)

text \<open>One round: the first upvalue is closed.\<close>

lemma close_first:
  assumes "open_list vm (x # xs)" "last_slot \<le> snd x"
  shows "\<exists>vm1. close_upvalues last_slot vm = close_upvalues last_slot vm1 \<and> open_list vm1 xs \<and>
    vm1 = vm\<lparr>vheap := vheap vm1\<rparr> \<and>
    (\<forall>y. y \<noteq> fst x \<longrightarrow> current_thread vm \<noteq> Some y \<longrightarrow> obj_at (vheap vm1) y = obj_at (vheap vm) y) \<and>
    (\<exists>u v. obj_at (vheap vm1) (fst x) = Some (OUpvalue u) \<and> ulocation u = InClosed \<and>
       upvalue_get (fst x) vm = Some v \<and> uclosed u = v) \<and>
    current_thread vm1 = current_thread vm \<and>
    (\<forall>th t. current_thread vm = Some th \<longrightarrow> obj_at (vheap vm) th = Some (OThread t) \<longrightarrow>
       (\<exists>p. obj_at (vheap vm1) th = Some (OThread (t\<lparr>open_upvalues := p\<rparr>))))"
proof -
  obtain th t where t: "current_thread vm = Some th" "obj_at (vheap vm) th = Some (OThread t)"
    "open_chain (vheap vm) th (open_upvalues t) (x # xs)" "sorted_wrt (>) (map snd (x # xs))"
    "\<forall>y\<in>set (x # xs). snd y < stack_capacity t \<and> stack t (snd y) \<noteq> None"
    using assms(1) unfolding open_list_def by blast
  obtain u where u: "open_upvalues t = Some (fst x)" "obj_at (vheap vm) (fst x) = Some (OUpvalue u)"
    "ulocation u = OnStack th (snd x)" "open_chain (vheap vm) th (unext u) xs"
    using t(3) by auto
  obtain v where v: "stack t (snd x) = Some v" "snd x < stack_capacity t" using t(5) by auto
  let ?u = "u\<lparr>uclosed := v, ulocation := InClosed\<rparr>"
  let ?t = "t\<lparr>open_upvalues := unext u\<rparr>"
  let ?vma = "put_upvalue (fst x) ?u vm"
  let ?vm1 = "put_cur ?t ?vma"
  have ne: "fst x \<noteq> th" using t(2) u(2) by auto
  have ca: "cur ?vma = Some t"
    by (rule cur_iff2 [of _ th]) (use t ne in \<open>simp_all add: obj_at_put_upvalue\<close>)
  have ob: "obj_at (vheap ?vm1) y =
      (if y = th then Some (OThread ?t) else if y = fst x then Some (OUpvalue ?u) else obj_at (vheap vm) y)" for y
    using obj_at_put_cur [OF ca, of ?t y] t(1) u(2) by (auto simp: obj_at_put_upvalue)
  have "close_upvalues last_slot vm = close_upvalues last_slot ?vm1"
    using assms(2) t(1,2) u v cur_iff2 [OF t(1,2)] stack_get_eq [OF t(2), of "snd x"]
    by (subst close_upvalues.simps) (simp add: upvalue_at_def Let_def)
  moreover have "open_list ?vm1 xs"
  proof -
    have "fst y \<noteq> fst x \<and> fst y \<noteq> th" if "y \<in> set xs" for y
    proof -
      have "snd y \<noteq> snd x" using t(4) that by auto
      then have "fst y \<noteq> fst x" using open_chain_addrs [OF t(3), of y x] that by auto
      moreover have "fst y \<noteq> th" using open_chain_obj [OF u(4) that] t(2) by auto
      ultimately show ?thesis ..
    qed
    then have "open_chain (vheap ?vm1) th (unext u) xs"
      by (intro open_chain_local [OF u(4)]) (simp add: ob)
    then show ?thesis
      unfolding open_list_def using t by (intro exI [of _ th] exI [of _ ?t]) (simp add: ob)
  qed
  moreover have "upvalue_get (fst x) vm = Some v"
    using upvalue_get_eq [OF u(2)] u(3) v stack_get_eq [OF t(2), of "snd x"] by simp
  moreover have "obj_at (vheap ?vm1) (fst x) = Some (OUpvalue ?u)" using ob ne by simp
  moreover have "obj_at (vheap ?vm1) th = Some (OThread (t\<lparr>open_upvalues := unext u\<rparr>))" using ob by simp
  moreover have "?vm1 = vm\<lparr>vheap := vheap ?vm1\<rparr>"
    by (simp add: put_cur_def put_thread_def put_upvalue_def split: option.split)
  ultimately show ?thesis
    using t(1,2) ob by (intro exI [of _ ?vm1]) auto
qed

lemma open_list_get:
  assumes "open_list vm xs" "x \<in> set xs" "current_thread vm1 = current_thread vm"
    and "obj_at (vheap vm1) (fst x) = obj_at (vheap vm) (fst x)"
    and "\<forall>th t. current_thread vm = Some th \<longrightarrow> obj_at (vheap vm) th = Some (OThread t) \<longrightarrow>
       (\<exists>p. obj_at (vheap vm1) th = Some (OThread (t\<lparr>open_upvalues := p\<rparr>)))"
  shows "upvalue_get (fst x) vm1 = upvalue_get (fst x) vm"
proof -
  obtain th t where t: "current_thread vm = Some th" "obj_at (vheap vm) th = Some (OThread t)"
    "open_chain (vheap vm) th (open_upvalues t) xs"
    using assms(1) unfolding open_list_def by blast
  obtain u where u: "obj_at (vheap vm) (fst x) = Some (OUpvalue u)" "ulocation u = OnStack th (snd x)"
    using open_chain_obj [OF t(3) assms(2)] by blast
  obtain p where "obj_at (vheap vm1) th = Some (OThread (t\<lparr>open_upvalues := p\<rparr>))"
    using assms(5) t(1,2) by blast
  then have "stack_get th (snd x) vm1 = stack_get th (snd x) vm"
    using stack_get_eq [OF t(2)] stack_get_eq by simp
  then show ?thesis using upvalue_get_eq [OF u(1)] upvalue_get_eq [of vm1 "fst x" u] u assms(4) by simp
qed

lemma thread_same [simp]: "\<exists>p. t = t\<lparr>open_upvalues := p\<rparr>" for t :: thread
  by (intro exI [of _ "open_upvalues t"]) simp

lemma close_upvalues_list:
  assumes "open_list vm xs"
  shows "\<exists>vm'. close_upvalues last_slot vm = Some vm' \<and> open_list vm' (filter (\<lambda>x. snd x < last_slot) xs) \<and>
     vm' = vm\<lparr>vheap := vheap vm'\<rparr> \<and>
     (\<forall>th t. current_thread vm = Some th \<longrightarrow> obj_at (vheap vm) th = Some (OThread t) \<longrightarrow>
       (\<exists>p. obj_at (vheap vm') th = Some (OThread (t\<lparr>open_upvalues := p\<rparr>)))) \<and>
     (\<forall>y. y \<notin> fst ` set xs \<longrightarrow> current_thread vm \<noteq> Some y \<longrightarrow> obj_at (vheap vm') y = obj_at (vheap vm) y) \<and>
     (\<forall>x\<in>set xs. upvalue_get (fst x) vm' = upvalue_get (fst x) vm) \<and>
     (\<forall>x\<in>set xs. last_slot \<le> snd x \<longrightarrow>
        (\<exists>u. obj_at (vheap vm') (fst x) = Some (OUpvalue u) \<and> ulocation u = InClosed))"
  using assms
proof (induction xs arbitrary: vm)
  case Nil
  then obtain th t where "current_thread vm = Some th" "obj_at (vheap vm) th = Some (OThread t)" "open_upvalues t = None"
    by (auto simp: open_list_def)
  then have "close_upvalues last_slot vm = Some vm"
    using cur_iff2 by (subst close_upvalues.simps) simp
  with Nil show ?case by (intro exI [of _ vm]) auto
next
  case (Cons x xs)
  obtain th t where t: "current_thread vm = Some th" "obj_at (vheap vm) th = Some (OThread t)"
    "open_chain (vheap vm) th (open_upvalues t) (x # xs)" "sorted_wrt (>) (map snd (x # xs))"
    using Cons.prems unfolding open_list_def by blast
  show ?case
  proof (cases "last_slot \<le> snd x")
    case False
    then have all: "filter (\<lambda>y. snd y < last_slot) (x # xs) = x # xs" using t(4) by (auto simp: filter_id_conv)
    have "close_upvalues last_slot vm = Some vm"
      using t(1-3) False cur_iff2 [OF t(1,2)] by (subst close_upvalues.simps) (auto simp: upvalue_at_def)
    moreover have "\<not> last_slot \<le> snd y" if "y \<in> set (x # xs)" for y using False t(4) that by auto
    ultimately show ?thesis using Cons.prems all t(1,2) by (intro exI [of _ vm]) auto
  next
    case True
    obtain vm1 u v where c: "close_upvalues last_slot vm = close_upvalues last_slot vm1" "open_list vm1 xs"
      "\<forall>y. y \<noteq> fst x \<longrightarrow> current_thread vm \<noteq> Some y \<longrightarrow> obj_at (vheap vm1) y = obj_at (vheap vm) y"
      "obj_at (vheap vm1) (fst x) = Some (OUpvalue u)" "ulocation u = InClosed"
      "upvalue_get (fst x) vm = Some v" "uclosed u = v" "current_thread vm1 = current_thread vm"
      "vm1 = vm\<lparr>vheap := vheap vm1\<rparr>"
      "\<forall>th t. current_thread vm = Some th \<longrightarrow> obj_at (vheap vm) th = Some (OThread t) \<longrightarrow>
         (\<exists>p. obj_at (vheap vm1) th = Some (OThread (t\<lparr>open_upvalues := p\<rparr>)))"
      using close_first [OF Cons.prems True] by blast
    note same = c(9) and thr = c(10)
    obtain vm' where c': "close_upvalues last_slot vm1 = Some vm'"
      "open_list vm' (filter (\<lambda>x. snd x < last_slot) xs)" "vm' = vm1\<lparr>vheap := vheap vm'\<rparr>"
      "\<forall>y. y \<notin> fst ` set xs \<longrightarrow> current_thread vm1 \<noteq> Some y \<longrightarrow> obj_at (vheap vm') y = obj_at (vheap vm1) y"
      "\<forall>y\<in>set xs. upvalue_get (fst y) vm' = upvalue_get (fst y) vm1"
      "\<forall>y\<in>set xs. last_slot \<le> snd y \<longrightarrow>
        (\<exists>u. obj_at (vheap vm') (fst y) = Some (OUpvalue u) \<and> ulocation u = InClosed)"
      "\<forall>th t. current_thread vm1 = Some th \<longrightarrow> obj_at (vheap vm1) th = Some (OThread t) \<longrightarrow>
        (\<exists>p. obj_at (vheap vm') th = Some (OThread (t\<lparr>open_upvalues := p\<rparr>)))"
      using Cons.IH [OF c(2)] by blast
    have away: "fst y \<noteq> fst x \<and> fst y \<noteq> th" if "y \<in> set xs" for y
    proof -
      have "snd y \<noteq> snd x" using t(4) that by auto
      then have "fst y \<noteq> fst x" using open_chain_addrs [OF t(3), of y x] that by auto
      moreover have "fst y \<noteq> th" using open_chain_obj [OF t(3), of y] that t(2) by auto
      ultimately show ?thesis ..
    qed
    have xth: "fst x \<noteq> th" using t(2,3) by auto
    have "obj_at (vheap vm') (fst x) = obj_at (vheap vm1) (fst x)"
      using c'(4) away xth c(8) t(1) by force
    then have x: "obj_at (vheap vm') (fst x) = Some (OUpvalue u)" using c(4) by simp
    have "upvalue_get (fst x) vm' = upvalue_get (fst x) vm"
      using upvalue_get_eq [OF x] c(5-7) by simp
    moreover have "upvalue_get (fst y) vm' = upvalue_get (fst y) vm" if "y \<in> set xs" for y
    proof -
      have "obj_at (vheap vm1) (fst y) = obj_at (vheap vm) (fst y)"
        using c(3) away [OF that] t(1) by auto
      then have "upvalue_get (fst y) vm1 = upvalue_get (fst y) vm"
        using open_list_get [OF Cons.prems, of y vm1] that c(8) thr by auto
      with c'(5) that show ?thesis by simp
    qed
    moreover have "obj_at (vheap vm') y = obj_at (vheap vm) y"
      if "y \<notin> fst ` set (x # xs)" "current_thread vm \<noteq> Some y" for y
      using c'(4) c(3,8) that by auto
    moreover have "vm' = vm\<lparr>vheap := vheap vm'\<rparr>" using c'(3) same by (cases vm; cases vm1; cases vm') simp
    moreover obtain p where "obj_at (vheap vm1) th = Some (OThread (t\<lparr>open_upvalues := p\<rparr>))" using thr t(1,2) by blast
    then obtain q where "obj_at (vheap vm') th = Some (OThread (t\<lparr>open_upvalues := q\<rparr>))"
      using c'(7) c(8) t(1) by fastforce
    ultimately show ?thesis
      using True c(1) c'(1,2,6) x c(5) t(1,2) by (intro exI [of _ vm']) auto
  qed
qed

text \<open>
  C16. When a frame is left, the upvalues of its slots are closed and keep the value the slot had:
  every captured variable reads the same before and after, exactly the upvalues at or above the
  given slot no longer point into the stack, and the others stay open, in order.
\<close>

theorem closing_keeps_values:
  assumes "open_list vm xs"
  shows "\<exists>vm'. close_upvalues last_slot vm = Some vm' \<and>
     open_list vm' (filter (\<lambda>x. snd x < last_slot) xs) \<and>
     (\<forall>x\<in>set xs. upvalue_get (fst x) vm' = upvalue_get (fst x) vm \<and> upvalue_get (fst x) vm \<noteq> None) \<and>
     (\<forall>x\<in>set xs. last_slot \<le> snd x \<longrightarrow>
        (\<exists>u. obj_at (vheap vm') (fst x) = Some (OUpvalue u) \<and> ulocation u = InClosed))"
proof -
  have "upvalue_get (fst x) vm \<noteq> None" if x: "x \<in> set xs" for x
  proof -
    obtain th t where t: "current_thread vm = Some th" "obj_at (vheap vm) th = Some (OThread t)"
      "open_chain (vheap vm) th (open_upvalues t) xs" "snd x < stack_capacity t" "stack t (snd x) \<noteq> None"
      using assms x unfolding open_list_def by blast
    obtain u where "obj_at (vheap vm) (fst x) = Some (OUpvalue u)" "ulocation u = OnStack th (snd x)"
      using open_chain_obj [OF t(3) x] by blast
    then show ?thesis using t(4,5) upvalue_get_eq [of vm "fst x" u] stack_get_eq [OF t(2)] by simp
  qed
  then show ?thesis using close_upvalues_list [OF assms] by blast
qed

section \<open>Capturing\<close>

fun head_addr :: "(addr \<times> nat) list \<Rightarrow> addr option" where
  "head_addr [] = None"
| "head_addr (x # xs) = Some (fst x)"

lemma find_upvalue_chain:
  assumes "open_chain h th p xs"
  shows "find_upvalue h th i prev p =
    Some (case takeWhile (\<lambda>x. i < snd x) xs of [] \<Rightarrow> prev | ys \<Rightarrow> Some (fst (last ys)),
          head_addr (dropWhile (\<lambda>x. i < snd x) xs))"
  using assms
proof (induction xs arbitrary: p prev)
  case Nil
  then show ?case by (subst find_upvalue.simps) simp
next
  case (Cons x xs)
  then obtain u where u: "p = Some (fst x)" "obj_at h (fst x) = Some (OUpvalue u)"
    "ulocation u = OnStack th (snd x)" "open_chain h th (unext u) xs" by auto
  show ?case
  proof (cases "i < snd x")
    case True
    then have "find_upvalue h th i prev p = find_upvalue h th i (Some (fst x)) (unext u)"
      using u by (subst find_upvalue.simps) simp
    then show ?thesis using Cons.IH [OF u(4)] True by (auto split: list.split)
  next
    case False
    then show ?thesis using u by (subst find_upvalue.simps) simp
  qed
qed

lemma chain_split:
  fixes xs :: "(addr \<times> nat) list"
  assumes "sorted_wrt (>) (map snd xs)" "(a, i) \<in> set xs"
  shows "\<exists>zs. dropWhile (\<lambda>x. i < snd x) xs = (a, i) # zs"
  using assms
proof (induction xs)
  case (Cons x xs)
  then show ?case by (cases "x = (a, i)") auto
qed simp

text \<open>
  C18. Capturing a slot that is already captured gives the same upvalue and changes nothing, so all
  closures over a variable share it.
\<close>

theorem captures_share:
  assumes "open_list vm xs" "(a, i) \<in> set xs"
  shows "capture_upvalue i vm = Some (a, vm)"
proof -
  obtain th t where t: "current_thread vm = Some th" "obj_at (vheap vm) th = Some (OThread t)"
    "open_chain (vheap vm) th (open_upvalues t) xs" "sorted_wrt (>) (map snd xs)"
    using assms(1) unfolding open_list_def by blast
  obtain zs where z: "dropWhile (\<lambda>x. i < snd x) xs = (a, i) # zs"
    using chain_split [OF t(4) assms(2)] by blast
  obtain u where u: "obj_at (vheap vm) a = Some (OUpvalue u)" "ulocation u = OnStack th i"
    using open_chain_obj [OF t(3) assms(2)] by auto
  show ?thesis
    using t(1) cur_iff2 [OF t(1,2)] find_upvalue_chain [OF t(3), of i None] z u
    by (simp add: capture_upvalue_def upvalue_at_def)
qed

lemma head_addr_chain: "open_chain h th p zs \<Longrightarrow> head_addr zs = p"
  by (cases zs) auto

lemma open_chain_insert:
  assumes "open_chain h th p (ys @ zs)" "distinct (map fst (ys @ zs))"
    and "obj_at h' a = Some (OUpvalue u)" "ulocation u = OnStack th i" "unext u = head_addr zs"
    and "ys \<noteq> [] \<Longrightarrow> \<exists>w. obj_at h (fst (last ys)) = Some (OUpvalue w) \<and>
      obj_at h' (fst (last ys)) = Some (OUpvalue (w\<lparr>unext := Some a\<rparr>))"
    and "\<And>x. x \<in> set (ys @ zs) \<Longrightarrow> ys = [] \<or> fst x \<noteq> fst (last ys) \<Longrightarrow> obj_at h' (fst x) = obj_at h (fst x)"
  shows "open_chain h' th (if ys = [] then Some a else p) (ys @ (a, i) # zs)"
  using assms
proof (induction ys arbitrary: p)
  case Nil
  have "open_chain h' th p zs" by (rule open_chain_local [of h]) (use Nil.prems(1,7) in auto)
  with Nil.prems(1,3-5) show ?case by (simp add: head_addr_chain)
next
  case (Cons y ys)
  obtain w where w: "p = Some (fst y)" "obj_at h (fst y) = Some (OUpvalue w)" "ulocation w = OnStack th (snd y)"
    "open_chain h th (unext w) (ys @ zs)" using Cons.prems(1) by auto
  have away: "fst y \<notin> set (map fst (ys @ zs))" using Cons.prems(2) by simp
  have rest: "open_chain h' th (if ys = [] then Some a else unext w) (ys @ (a, i) # zs)"
  proof (rule Cons.IH [OF w(4)])
    fix x assume x: "x \<in> set (ys @ zs)" "ys = [] \<or> fst x \<noteq> fst (last ys)"
    have "fst x \<in> set (map fst (ys @ zs))" using x(1) by auto
    then have "fst x \<noteq> fst y" using away by metis
    with x show "obj_at h' (fst x) = obj_at h (fst x)"
      using Cons.prems(7) [of x] by (auto split: if_splits)
  next
    show "distinct (map fst (ys @ zs))" using Cons.prems(2) by simp
    show "\<exists>w. obj_at h (fst (last ys)) = Some (OUpvalue w) \<and>
        obj_at h' (fst (last ys)) = Some (OUpvalue (w\<lparr>unext := Some a\<rparr>))" if "ys \<noteq> []"
      using Cons.prems(6) that by simp
  qed (use Cons.prems(3-5) in simp_all)
  show ?case
  proof (cases "ys = []")
    case True
    then show ?thesis using w rest Cons.prems(6) by simp
  next
    case False
    have "fst (last ys) \<in> set (map fst ys)" using False by auto
    then have "fst (last ys) \<noteq> fst y" using away by (metis Un_iff map_append set_append)
    then have "obj_at h' (fst y) = obj_at h (fst y)" using Cons.prems(7) [of y] False by auto
    then show ?thesis using w rest False by simp
  qed
qed

lemma sorted_insert:
  fixes xs :: "(addr \<times> nat) list"
  assumes "sorted_wrt (>) (map snd xs)" "i \<notin> snd ` set xs"
  shows "sorted_wrt (>) (map snd (takeWhile (\<lambda>x. i < snd x) xs @ (a, i) # dropWhile (\<lambda>x. i < snd x) xs))"
  using assms
proof (induction xs)
  case (Cons x xs)
  show ?case
  proof (cases "i < snd x")
    case True
    have "snd y < snd x" if "y \<in> set (takeWhile (\<lambda>x. i < snd x) xs @ (a, i) # dropWhile (\<lambda>x. i < snd x) xs)" for y
      using that True Cons.prems(1) by (auto dest: set_takeWhileD set_dropWhileD)
    with Cons True show ?thesis by auto
  next
    case False
    then have "snd x < i" using Cons.prems(2) by (cases "snd x = i") auto
    with Cons.prems(1) False show ?thesis by force
  qed
qed simp

lemma open_chain_distinct:
  assumes "open_chain h th p xs" "sorted_wrt (>) (map snd xs)"
  shows "distinct (map fst xs)"
proof -
  have "distinct (map snd xs)" using assms(2) by (induction xs) auto
  then show ?thesis
    using open_chain_addrs [OF assms(1)] by (auto simp: distinct_map inj_on_def)
qed

lemma new_upvalue_obj:
  assumes "new_upvalue h loc = (a, h')"
  shows "a = hnext h"
    "obj_at h' x = (if x = a then Some (OUpvalue \<lparr>ulocation = loc, uclosed = VNil, unext = None\<rparr>) else obj_at h x)"
  using obj_at_allocate [OF assms [unfolded new_upvalue_def]] by auto

text \<open>The state after the new upvalue is linked in, in both cases.\<close>

lemma capture_new_obj:
  assumes "current_thread vm = Some th" "obj_at (vheap vm) th = Some (OThread t)"
    and "open_chain (vheap vm) th (open_upvalues t) (ys @ zs)" "distinct (map fst (ys @ zs))"
    and "ys = takeWhile (\<lambda>x. i < snd x) (ys @ zs)" "zs = dropWhile (\<lambda>x. i < snd x) (ys @ zs)"
    and "i \<notin> snd ` set zs" "fresh (vheap vm)"
  shows "\<exists>a vm' t' w. capture_upvalue i vm = Some (a, vm') \<and> current_thread vm' = Some th \<and>
     obj_at (vheap vm) a = None \<and>
     t' = (if ys = [] then t\<lparr>open_upvalues := Some a\<rparr> else t) \<and>
     (ys \<noteq> [] \<longrightarrow> obj_at (vheap vm) (fst (last ys)) = Some (OUpvalue w)) \<and>
     (\<forall>x. obj_at (vheap vm') x =
        (if x = th then Some (OThread t')
         else if x = a then Some (OUpvalue \<lparr>ulocation = OnStack th i, uclosed = VNil, unext = head_addr zs\<rparr>)
         else if ys \<noteq> [] \<and> x = fst (last ys) then Some (OUpvalue (w\<lparr>unext := Some a\<rparr>))
         else obj_at (vheap vm) x))"
proof -
  let ?new = "\<lparr>ulocation = OnStack th i, uclosed = VNil, unext = head_addr zs\<rparr>"
  obtain a h where n: "new_upvalue (vheap vm) (OnStack th i) = (a, h)" by fastforce
  note nob = new_upvalue_obj [OF n]
  have an: "obj_at (vheap vm) a = None" using fresh_None [OF assms(8)] nob(1) by simp
  then have ath: "a \<noteq> th" using assms(2) by auto
  have find: "find_upvalue (vheap vm) th i None (open_upvalues t) =
      Some (case ys of [] \<Rightarrow> None | _ \<Rightarrow> Some (fst (last ys)), head_addr zs)"
    using find_upvalue_chain [OF assms(3), of i None] unfolding assms(5) [symmetric] assms(6) [symmetric]
    by (simp split: list.split)
  have miss: "(case head_addr zs of None \<Rightarrow> Some None
      | Some b \<Rightarrow> upvalue_at (vheap vm) b \<bind>
          (\<lambda>u. Some (if ulocation u = OnStack th i then Some b else None))) = (Some None :: addr option option)"
  proof (cases zs)
    case (Cons z zs')
    then obtain u where "obj_at (vheap vm) (fst z) = Some (OUpvalue u)" "ulocation u = OnStack th (snd z)"
      using open_chain_obj [OF assms(3), of z] by auto
    with Cons assms(7) show ?thesis by (auto simp: upvalue_at_def)
  qed simp
  let ?vm1 = "put_upvalue a ?new (vm\<lparr>vheap := h\<rparr>)"
  have ob1: "obj_at (vheap ?vm1) x = (if x = a then Some (OUpvalue ?new) else obj_at (vheap vm) x)" for x
    using nob by (simp add: obj_at_put_upvalue)
  have start: "capture_upvalue i vm =
      (case (case ys of [] \<Rightarrow> None | _ \<Rightarrow> Some (fst (last ys))) of
         None \<Rightarrow> do { t \<leftarrow> cur ?vm1; Some (a, put_cur (t\<lparr>open_upvalues := Some a\<rparr>) ?vm1) }
       | Some q \<Rightarrow> do { w \<leftarrow> upvalue_at (vheap ?vm1) q; Some (a, put_upvalue q (w\<lparr>unext := Some a\<rparr>) ?vm1) })"
    using assms(1) cur_iff2 [OF assms(1,2)] find miss n nob
    by (cases ys) (simp_all add: capture_upvalue_def alloc_def upvalue_at_def Let_def)
  have c1: "cur ?vm1 = Some t"
    by (rule cur_iff2 [of _ th]) (use assms(1,2) ath ob1 in \<open>simp_all\<close>)
  show ?thesis
  proof (cases "ys = []")
    case True
    let ?t = "t\<lparr>open_upvalues := Some a\<rparr>"
    have "capture_upvalue i vm = Some (a, put_cur ?t ?vm1)" using start c1 True by simp
    moreover have "obj_at (vheap (put_cur ?t ?vm1)) x =
        (if x = th then Some (OThread ?t) else if x = a then Some (OUpvalue ?new) else obj_at (vheap vm) x)" for x
      using obj_at_put_cur [OF c1, of ?t x] assms(1) ob1 [of x] by auto
    ultimately show ?thesis using True assms(1) an by auto
  next
    case False
    then obtain w where w: "obj_at (vheap vm) (fst (last ys)) = Some (OUpvalue w)"
      using open_chain_obj [OF assms(3), of "last ys"] by auto
    let ?q = "fst (last ys)"
    let ?vm2 = "put_upvalue ?q (w\<lparr>unext := Some a\<rparr>) ?vm1"
    have qa: "?q \<noteq> a" "?q \<noteq> th" using w an assms(2) by auto
    have "capture_upvalue i vm = Some (a, ?vm2)"
      using start False w qa ob1 by (cases ys) (simp_all add: upvalue_at_def)
    moreover have "obj_at (vheap ?vm2) x =
        (if x = th then Some (OThread t) else if x = a then Some (OUpvalue ?new)
         else if x = ?q then Some (OUpvalue (w\<lparr>unext := Some a\<rparr>)) else obj_at (vheap vm) x)" for x
      using obj_at_put_upvalue [of ?q "w\<lparr>unext := Some a\<rparr>" ?vm1 x] ob1 qa w assms(2) ath by auto
    ultimately show ?thesis using False assms(1) an w by (intro exI [of _ a] exI [of _ ?vm2]) auto
  qed
qed

lemma capture_links:
  assumes ol: "open_list vm xs" and new: "i \<notin> snd ` set xs" and fr: "fresh (vheap vm)"
    and cur: "cur vm = Some t" "i < stack_capacity t" "stack t i = Some v"
  shows "\<exists>a vm'. capture_upvalue i vm = Some (a, vm') \<and> a \<notin> fst ` set xs \<and>
     open_list vm' (takeWhile (\<lambda>x. i < snd x) xs @ (a, i) # dropWhile (\<lambda>x. i < snd x) xs) \<and>
     upvalue_get a vm' = Some v \<and>
     (\<forall>x\<in>set xs. upvalue_get (fst x) vm' = upvalue_get (fst x) vm) \<and>
     current_thread vm' = current_thread vm \<and> (\<exists>p. cur vm' = Some (t\<lparr>open_upvalues := p\<rparr>))"
proof -
  let ?ys = "takeWhile (\<lambda>x. i < snd x) xs" and ?zs = "dropWhile (\<lambda>x. i < snd x) xs"
  obtain th where t: "current_thread vm = Some th" "obj_at (vheap vm) th = Some (OThread t)"
    "open_chain (vheap vm) th (open_upvalues t) (?ys @ ?zs)" "sorted_wrt (>) (map snd xs)"
    "\<forall>x\<in>set xs. snd x < stack_capacity t \<and> stack t (snd x) \<noteq> None"
    using ol cur(1) unfolding open_list_def by (auto simp: cur_Some_iff)
  note dist = open_chain_distinct [OF t(3)]
  have iz: "i \<notin> snd ` set ?zs" using new by (auto dest: set_dropWhileD)
  obtain a vm' t' w where c: "capture_upvalue i vm = Some (a, vm')" "current_thread vm' = Some th"
    "obj_at (vheap vm) a = None" "t' = (if ?ys = [] then t\<lparr>open_upvalues := Some a\<rparr> else t)"
    "?ys \<noteq> [] \<Longrightarrow> obj_at (vheap vm) (fst (last ?ys)) = Some (OUpvalue w)"
    and ob: "\<And>x. obj_at (vheap vm') x =
        (if x = th then Some (OThread t')
         else if x = a then Some (OUpvalue \<lparr>ulocation = OnStack th i, uclosed = VNil, unext = head_addr ?zs\<rparr>)
         else if ?ys \<noteq> [] \<and> x = fst (last ?ys) then Some (OUpvalue (w\<lparr>unext := Some a\<rparr>))
         else obj_at (vheap vm) x)"
    using capture_new_obj [OF t(1,2,3) _ _ _ iz fr] dist t(4) by auto
  have ath: "a \<noteq> th" using c(3) t(2) by auto
  have up: "\<exists>u. obj_at (vheap vm) (fst x) = Some (OUpvalue u) \<and> ulocation u = OnStack th (snd x)"
    if "x \<in> set xs" for x using open_chain_obj [OF t(3)] that by simp
  have away: "fst x \<noteq> a \<and> fst x \<noteq> th" if "x \<in> set xs" for x using up [OF that] c(3) t(2) by auto
  have "open_chain (vheap vm') th (if ?ys = [] then Some a else open_upvalues t) (?ys @ (a, i) # ?zs)"
  proof (rule open_chain_insert [OF t(3),
        where u = "\<lparr>ulocation = OnStack th i, uclosed = VNil, unext = head_addr ?zs\<rparr>"])
    show "obj_at (vheap vm') (fst x) = obj_at (vheap vm) (fst x)"
      if "x \<in> set (?ys @ ?zs)" "?ys = [] \<or> fst x \<noteq> fst (last ?ys)" for x
      using ob [of "fst x"] away [of x] that by auto
    show "\<exists>w. obj_at (vheap vm) (fst (last ?ys)) = Some (OUpvalue w) \<and>
        obj_at (vheap vm') (fst (last ?ys)) = Some (OUpvalue (w\<lparr>unext := Some a\<rparr>))" if ne: "?ys \<noteq> []"
    proof -
      have "last ?ys \<in> set xs" using ne by (meson last_in_set set_takeWhileD)
      then show ?thesis using ob [of "fst (last ?ys)"] away [of "last ?ys"] c(5) ne by simp
    qed
  qed (use dist t(4) ob [of a] ath in simp_all)
  then have "open_list vm' (?ys @ (a, i) # ?zs)"
    unfolding open_list_def
    using c(2,4) ob [of th] sorted_insert [OF t(4) new] t(5) cur(2,3)
    by (intro exI [of _ th] exI [of _ t']) (auto dest: set_takeWhileD set_dropWhileD)
  moreover have sg: "stack_get th j vm' = stack_get th j vm" for j
    using stack_get_eq [OF t(2)] stack_get_eq [of vm' th t'] ob [of th] c(4) by simp
  have "upvalue_get a vm' = Some v"
    using upvalue_get_eq [of vm' a] ob [of a] ath sg stack_get_eq [OF t(2)] cur(2,3) by simp
  moreover have "upvalue_get (fst x) vm' = upvalue_get (fst x) vm" if x: "x \<in> set xs" for x
  proof -
    obtain u where u: "obj_at (vheap vm) (fst x) = Some (OUpvalue u)" "ulocation u = OnStack th (snd x)"
      using up [OF x] by blast
    have "\<exists>u'. obj_at (vheap vm') (fst x) = Some (OUpvalue u') \<and> ulocation u' = OnStack th (snd x)"
      using ob [of "fst x"] away [OF x] u c(5) by auto
    then show ?thesis using upvalue_get_eq [OF u(1)] upvalue_get_eq [of vm' "fst x"] u(2) sg by auto
  qed
  moreover have "cur vm' = Some t'" by (rule cur_iff2 [OF c(2)]) (use ob [of th] in simp)
  then have "\<exists>p. cur vm' = Some (t\<lparr>open_upvalues := p\<rparr>)"
    using c(4) thread_same [of t] by (auto split: if_splits)
  ultimately show ?thesis using c(1,2) t(1) away by auto
qed

text \<open>
  C17. Capturing a slot for the first time makes one new upvalue and links it into the list at its
  place: the list stays sorted by slot, the new upvalue reads the value in the slot, and every
  other upvalue reads what it read before.
\<close>

theorem capture_opens:
  assumes ol: "open_list vm xs" and new: "i \<notin> snd ` set xs" and fr: "fresh (vheap vm)"
    and cur: "cur vm = Some t" "i < stack_capacity t" "stack t i = Some v"
  shows "\<exists>a vm'. capture_upvalue i vm = Some (a, vm') \<and> a \<notin> fst ` set xs \<and>
     open_list vm' (takeWhile (\<lambda>x. i < snd x) xs @ (a, i) # dropWhile (\<lambda>x. i < snd x) xs) \<and>
     upvalue_get a vm' = Some v \<and>
     (\<forall>x\<in>set xs. upvalue_get (fst x) vm' = upvalue_get (fst x) vm)"
  using capture_links [OF assms] by blast

section \<open>Two variables of a small machine\<close>

definition two_slots :: vm where
  "two_slots = demo_vm (demo_fn [] []) [VNil, VBool True]"

lemma open_two_slots: "open_list two_slots []" "fresh (vheap two_slots)"
    "cur two_slots = Some (demo_thread [VNil, VBool True])"
  by (simp_all add: two_slots_def open_list_def obj_at_demo_one fresh_demo) (simp add: demo_thread_def)

theorem capture_opens_witness:
  "\<exists>a vm'. capture_upvalue 1 two_slots = Some (a, vm') \<and> open_list vm' [(a, 1)] \<and>
     upvalue_get a vm' = Some (VBool True)"
  using capture_opens [OF open_two_slots(1) _ open_two_slots(2,3), of 1 "VBool True"] by auto

text \<open>The same machine with the second slot captured.\<close>

lemma captured_slot:
  obtains a vm where "open_list vm [(a, 1)]" "upvalue_get a vm = Some (VBool True)"
  using capture_links [OF open_two_slots(1) _ open_two_slots(2,3), of 1 "VBool True"] by auto

theorem captures_share_witness:
  "\<exists>a vm. open_list vm [(a, 1)] \<and> capture_upvalue 1 vm = Some (a, vm)"
proof -
  obtain a vm where "open_list vm [(a, 1)]" by (rule captured_slot)
  then show ?thesis using captures_share [of vm "[(a, 1)]" a 1] by auto
qed

theorem closing_keeps_values_witness:
  "\<exists>a vm vm'. open_list vm [(a, 1)] \<and> close_upvalues 1 vm = Some vm' \<and> open_list vm' [] \<and>
     upvalue_get a vm' = Some (VBool True)"
proof -
  obtain a vm where c: "open_list vm [(a, 1)]" "upvalue_get a vm = Some (VBool True)" by (rule captured_slot)
  then show ?thesis using closing_keeps_values [OF c(1), of 1] by auto
qed

end
