(* ===== verification/Exception_Facts.thy ===== *)
theory Exception_Facts
  imports Upvalue_Facts
begin

text \<open>
  Properties of exceptions: the innermost handler takes over with the stack, the frames and the
  variables it had when it was installed; without a handler the machine reports and resets.
\<close>

section \<open>Unwinding\<close>

lemma put_cur_vheap: "put_cur t vm = vm\<lparr>vheap := vheap (put_cur t vm)\<rparr>"
  by (simp add: put_cur_def put_thread_def split: option.split)

lemma open_list_put_cur:
  assumes "open_list vm xs" "cur vm = Some t"
    and "stack u = stack t" "stack_capacity u = stack_capacity t" "open_upvalues u = open_upvalues t"
  shows "open_list (put_cur u vm) xs"
proof -
  obtain th where th: "current_thread vm = Some th" "obj_at (vheap vm) th = Some (OThread t)"
    "open_chain (vheap vm) th (open_upvalues t) xs" "sorted_wrt (>) (map snd xs)"
    "\<forall>x\<in>set xs. snd x < stack_capacity t \<and> stack t (snd x) \<noteq> None"
    using assms(1,2) unfolding open_list_def by (auto simp: cur_Some_iff)
  note ob = obj_at_put_cur [OF assms(2), of u]
  have "open_chain (vheap (put_cur u vm)) th (open_upvalues t) xs"
  proof (rule open_chain_local [OF th(3)])
    fix x assume "x \<in> set xs"
    then have "fst x \<noteq> th" using open_chain_obj [OF th(3), of x] th(2) by auto
    then show "obj_at (vheap (put_cur u vm)) (fst x) = obj_at (vheap vm) (fst x)" using ob th(1) by simp
  qed
  then show ?thesis
    unfolding open_list_def using th ob assms(3-5) by (intro exI [of _ th] exI [of _ u]) simp
qed

lemma upvalue_get_put_cur:
  assumes "cur vm = Some t" "stack u = stack t" "stack_capacity u = stack_capacity t"
  shows "upvalue_get a (put_cur u vm) = upvalue_get a vm"
proof -
  have "stack_get b j (put_cur u vm) = stack_get b j vm" for b j
    using assms by (auto simp: stack_get_def thread_at_put_cur cur_def)
  then show ?thesis
    using other_put_cur(7) [OF assms(1)]
    by (cases "upvalue_at (vheap vm) a") (simp_all add: upvalue_get_def split: location.split)
qed

lemma upvalue_get_closed:
  "obj_at (vheap vm) a = Some (OUpvalue u) \<Longrightarrow> ulocation u = InClosed \<Longrightarrow> upvalue_get a vm = Some (uclosed u)"
  by (simp add: upvalue_get_eq)

lemma unwind_frames_list:
  assumes "open_list vm xs" "cur vm = Some t" "n \<le> frame_count t" "\<forall>i. i < frame_count t \<longrightarrow> tframes t i \<noteq> None"
  shows "\<exists>vm' p ys. unwind_frames n vm = Some vm' \<and> vm' = vm\<lparr>vheap := vheap vm'\<rparr> \<and>
     cur vm' = Some (t\<lparr>frame_count := frame_count t - n, open_upvalues := p\<rparr>) \<and>
     open_list vm' ys \<and> set ys \<subseteq> set xs \<and>
     (\<forall>x\<in>set xs. x \<notin> set ys \<longrightarrow>
        (\<exists>u. obj_at (vheap vm') (fst x) = Some (OUpvalue u) \<and> ulocation u = InClosed)) \<and>
     (\<forall>y. y \<notin> fst ` set xs \<longrightarrow> current_thread vm \<noteq> Some y \<longrightarrow> obj_at (vheap vm') y = obj_at (vheap vm) y) \<and>
     (\<forall>x\<in>set xs. upvalue_get (fst x) vm' = upvalue_get (fst x) vm)"
  using assms
proof (induction n arbitrary: vm xs t)
  case 0
  have "t = t\<lparr>frame_count := frame_count t, open_upvalues := open_upvalues t\<rparr>" by simp
  with 0 show ?case by (intro exI [of _ vm] exI [of _ "open_upvalues t"] exI [of _ xs]) simp
next
  case (Suc n)
  obtain f where f: "tframes t (frame_count t - 1) = Some f"
    using Suc.prems(3,4) by (metis Suc_le_eq diff_Suc_1 less_imp_diff_less not_Some_eq Suc_pred lessI zero_less_Suc less_le_trans diff_less zero_less_one)
  obtain th where th: "current_thread vm = Some th" "obj_at (vheap vm) th = Some (OThread t)"
    using Suc.prems(2) by (auto simp: cur_Some_iff)
  let ?ys = "filter (\<lambda>x. snd x < fslots f) xs"
  obtain vm1 where c: "close_upvalues (fslots f) vm = Some vm1" "open_list vm1 ?ys" "vm1 = vm\<lparr>vheap := vheap vm1\<rparr>"
    "\<forall>th t. current_thread vm = Some th \<longrightarrow> obj_at (vheap vm) th = Some (OThread t) \<longrightarrow>
       (\<exists>p. obj_at (vheap vm1) th = Some (OThread (t\<lparr>open_upvalues := p\<rparr>)))"
    "\<forall>y. y \<notin> fst ` set xs \<longrightarrow> current_thread vm \<noteq> Some y \<longrightarrow> obj_at (vheap vm1) y = obj_at (vheap vm) y"
    "\<forall>x\<in>set xs. upvalue_get (fst x) vm1 = upvalue_get (fst x) vm"
    "\<forall>x\<in>set xs. fslots f \<le> snd x \<longrightarrow>
        (\<exists>u. obj_at (vheap vm1) (fst x) = Some (OUpvalue u) \<and> ulocation u = InClosed)"
    using close_upvalues_list [OF Suc.prems(1), of "fslots f"] by blast
  obtain p where p: "obj_at (vheap vm1) th = Some (OThread (t\<lparr>open_upvalues := p\<rparr>))" using c(4) th by blast
  have ct: "current_thread vm1 = Some th" using c(3) th(1) by (metis vm.select_convs(2) vm.surjective vm.update_convs(1))
  let ?t1 = "t\<lparr>open_upvalues := p\<rparr>"
  let ?t2 = "?t1\<lparr>frame_count := frame_count t - 1\<rparr>"
  have cu: "cur vm1 = Some ?t1" by (rule cur_iff2 [OF ct p])
  let ?vm2 = "put_cur ?t2 vm1"
  have ol: "open_list ?vm2 ?ys" by (rule open_list_put_cur [OF c(2) cu]) simp_all
  have "\<exists>vm' p ys'. unwind_frames n ?vm2 = Some vm' \<and> vm' = ?vm2\<lparr>vheap := vheap vm'\<rparr> \<and>
     cur vm' = Some (?t2\<lparr>frame_count := frame_count ?t2 - n, open_upvalues := p\<rparr>) \<and>
     open_list vm' ys' \<and> set ys' \<subseteq> set ?ys \<and>
     (\<forall>x\<in>set ?ys. x \<notin> set ys' \<longrightarrow>
        (\<exists>u. obj_at (vheap vm') (fst x) = Some (OUpvalue u) \<and> ulocation u = InClosed)) \<and>
     (\<forall>y. y \<notin> fst ` set ?ys \<longrightarrow> current_thread ?vm2 \<noteq> Some y \<longrightarrow> obj_at (vheap vm') y = obj_at (vheap ?vm2) y) \<and>
     (\<forall>x\<in>set ?ys. upvalue_get (fst x) vm' = upvalue_get (fst x) ?vm2)"
    by (rule Suc.IH [OF ol cur_put_cur [OF cu]]) (use Suc.prems(3,4) in auto)
  then obtain vm' q zs where r: "unwind_frames n ?vm2 = Some vm'" "vm' = ?vm2\<lparr>vheap := vheap vm'\<rparr>"
     "cur vm' = Some (?t2\<lparr>frame_count := frame_count ?t2 - n, open_upvalues := q\<rparr>)"
     "open_list vm' zs" "set zs \<subseteq> set ?ys"
     "\<forall>x\<in>set ?ys. x \<notin> set zs \<longrightarrow>
        (\<exists>u. obj_at (vheap vm') (fst x) = Some (OUpvalue u) \<and> ulocation u = InClosed)"
     "\<forall>y. y \<notin> fst ` set ?ys \<longrightarrow> current_thread ?vm2 \<noteq> Some y \<longrightarrow> obj_at (vheap vm') y = obj_at (vheap ?vm2) y"
     "\<forall>x\<in>set ?ys. upvalue_get (fst x) vm' = upvalue_get (fst x) ?vm2" by blast
  have "unwind_frames (Suc n) vm = Some vm'"
    using Suc.prems(2) f c(1) cu r(1) by simp
  moreover have "vm' = vm\<lparr>vheap := vheap vm'\<rparr>"
  proof -
    have "?vm2 = vm\<lparr>vheap := vheap ?vm2\<rparr>" using put_cur_vheap [of ?t2 vm1] c(3)
      by (cases vm; cases vm1; cases ?vm2) simp
    with r(2) show ?thesis by (cases vm; cases ?vm2; cases vm') simp
  qed
  moreover have "cur vm' = Some (t\<lparr>frame_count := frame_count t - Suc n, open_upvalues := q\<rparr>)"
    using r(3) by simp
  moreover have "obj_at (vheap vm') y = obj_at (vheap vm) y"
    if y: "y \<notin> fst ` set xs" "current_thread vm \<noteq> Some y" for y
  proof -
    have "y \<notin> fst ` set ?ys" using y(1) by auto
    then have "obj_at (vheap vm') y = obj_at (vheap ?vm2) y" using r(7) ct th(1) y(2) by simp
    then show ?thesis using c(5) y obj_at_put_cur [OF cu, of ?t2 y] ct th(1) by simp
  qed
  moreover have closed: "\<exists>u. obj_at (vheap vm') (fst x) = Some (OUpvalue u) \<and> ulocation u = InClosed \<and>
      upvalue_get (fst x) vm' = upvalue_get (fst x) vm" if x: "x \<in> set xs" "\<not> snd x < fslots f" for x
  proof -
    obtain u where u: "obj_at (vheap vm1) (fst x) = Some (OUpvalue u)" "ulocation u = InClosed"
      using c(7) x by auto
    then have "fst x \<notin> fst ` set ?ys"
      using c(2) open_chain_obj unfolding open_list_def by fastforce
    moreover have "fst x \<noteq> th" using u(1) p by auto
    ultimately have "obj_at (vheap vm') (fst x) = Some (OUpvalue u)"
      using r(7) ct obj_at_put_cur [OF cu, of ?t2 "fst x"] u(1) by simp
    then show ?thesis using upvalue_get_closed u c(6) x(1) by metis
  qed
  moreover have "upvalue_get (fst x) vm' = upvalue_get (fst x) vm" if x: "x \<in> set xs" for x
  proof (cases "snd x < fslots f")
    case True
    then have "x \<in> set ?ys" using x by simp
    then have "upvalue_get (fst x) vm' = upvalue_get (fst x) ?vm2" using r(8) by blast
    also have "\<dots> = upvalue_get (fst x) vm1" by (rule upvalue_get_put_cur [OF cu]) simp_all
    finally show ?thesis using c(6) x by simp
  qed (use closed x in blast)
  moreover have "\<exists>u. obj_at (vheap vm') (fst x) = Some (OUpvalue u) \<and> ulocation u = InClosed"
    if "x \<in> set xs" "x \<notin> set zs" for x
  proof (cases "snd x < fslots f")
    case True
    then have "x \<in> set ?ys" using that(1) by simp
    then show ?thesis using r(6) that(2) by blast
  qed (use closed that(1) in blast)
  moreover have "set zs \<subseteq> set xs" using r(5) by auto
  ultimately show ?case
    using r(4) by (intro exI [of _ vm'] exI [of _ q] exI [of _ zs]) blast
qed

section \<open>Handlers\<close>

text \<open>The thread of a handler that has been entered.\<close>

definition handling :: "handler \<Rightarrow> nat \<Rightarrow> thread \<Rightarrow> thread" where
  "handling h n t =
     t\<lparr>handlers := (handlers t)(n \<mapsto> h\<lparr>hin_except := True\<rparr>),
       stack := (stack t)(hstack_top h \<mapsto> exception t), stack_top := hstack_top h + 1,
       has_exception := False, exception := VNil\<rparr>"

lemma handler_entered:
  assumes t: "cur vm = Some t" "current_thread vm = Some th"
    and ex: "has_exception t" "handler_count t = Suc n" "handlers t n = Some h"
    and h: "hhas_except h" "\<not> hin_except h" "hexcept_ip h = Some i" "0 < hframe_count h"
    and u: "unwind_frames (frame_count t - hframe_count h) vm = Some vm1" "cur vm1 = Some t1"
      "frame_count t1 = hframe_count h" "stack t1 = stack t" "stack_capacity t1 = stack_capacity t"
      "handlers t1 = handlers t" "exception t1 = exception t"
    and room: "hstack_top h < stack_capacity t"
  shows "handle_exception vm =
    Some (True, put_cur (handling h n t1) (vm1\<lparr>cframe := (th, hframe_count h - 1), ip := i\<rparr>))"
proof -
  let ?vm2 = "vm1\<lparr>cframe := (th, hframe_count h - 1), ip := i\<rparr>"
  let ?t2 = "t1\<lparr>stack_top := hstack_top h, handlers := (handlers t)(n \<mapsto> h\<lparr>hin_except := True\<rparr>)\<rparr>"
  let ?t3 = "?t2\<lparr>stack := (stack t)(hstack_top h \<mapsto> exception t), stack_top := hstack_top h + 1\<rparr>"
  have c2: "cur ?vm2 = Some t1" using u(2) by simp
  have p: "push (exception t) (put_cur ?t2 ?vm2) = Some (put_cur ?t3 ?vm2)"
    using push_eq [OF cur_put_cur [OF c2, of ?t2], of "exception t"] room u(4,5) by simp
  have "handle_exception vm =
      Some (True, put_cur (?t3\<lparr>has_exception := False, exception := VNil\<rparr>) ?vm2)"
    using t ex h u p cur_put_cur [OF c2] by (simp add: handle_exception_def)
  then show ?thesis using u(4,6,7) by (simp add: handling_def)
qed

text \<open>
  C14. A raised exception is taken by the innermost handler that has an \<open>except\<close> block not yet entered.
  Execution goes on at that block in the frame that installed the handler, the stack is cut back to
  its height then and holds the exception on top, the exception is no longer pending, the frames above
  are gone, and every captured variable reads what it read before.
\<close>

theorem raise_enters_handler:
  assumes ol: "open_list vm xs" and t: "cur vm = Some t" "current_thread vm = Some th"
    and ex: "has_exception t" "handler_count t = Suc n" "handlers t n = Some h"
    and h: "hhas_except h" "\<not> hin_except h" "hexcept_ip h = Some i"
    and fr: "0 < hframe_count h" "hframe_count h \<le> frame_count t" "\<forall>i. i < frame_count t \<longrightarrow> tframes t i \<noteq> None"
    and room: "hstack_top h < stack_capacity t"
  shows "\<exists>vm' t'. handle_exception vm = Some (True, vm') \<and> cur vm' = Some t' \<and>
     ip vm' = i \<and> cframe vm' = (th, hframe_count h - 1) \<and> globals vm' = globals vm \<and>
     frame_count t' = hframe_count h \<and> tframes t' = tframes t \<and>
     stack_top t' = hstack_top h + 1 \<and> stack t' = (stack t)(hstack_top h \<mapsto> exception t) \<and>
     \<not> has_exception t' \<and> handler_count t' = Suc n \<and> handlers t' n = Some (h\<lparr>hin_except := True\<rparr>) \<and>
     (\<forall>x\<in>set xs. snd x < hstack_top h \<longrightarrow> upvalue_get (fst x) vm' = upvalue_get (fst x) vm)"
proof -
  let ?k = "frame_count t - hframe_count h"
  obtain vm1 p ys where u: "unwind_frames ?k vm = Some vm1" "vm1 = vm\<lparr>vheap := vheap vm1\<rparr>"
    "cur vm1 = Some (t\<lparr>frame_count := frame_count t - ?k, open_upvalues := p\<rparr>)"
    "\<forall>x\<in>set xs. upvalue_get (fst x) vm1 = upvalue_get (fst x) vm" "open_list vm1 ys"
    "\<forall>x\<in>set xs. x \<notin> set ys \<longrightarrow>
        (\<exists>u. obj_at (vheap vm1) (fst x) = Some (OUpvalue u) \<and> ulocation u = InClosed)"
    using unwind_frames_list [OF ol t(1) _ fr(3), of ?k] by auto
  let ?t1 = "t\<lparr>frame_count := frame_count t - ?k, open_upvalues := p\<rparr>"
  have fc: "frame_count t - ?k = hframe_count h" using fr(2) by simp
  let ?vm2 = "vm1\<lparr>cframe := (th, hframe_count h - 1), ip := i\<rparr>"
  let ?t4 = "handling h n ?t1"
  have c2: "cur ?vm2 = Some ?t1" using u(3) by simp
  have ct: "current_thread vm1 = Some th" using u(2) t(2) by (metis vm.select_convs(2) vm.surjective vm.update_convs(1))
  have res: "handle_exception vm = Some (True, put_cur ?t4 ?vm2)"
    by (rule handler_entered [OF t ex h fr(1) u(1,3)]) (use fc room in simp_all)
  have ob4: "obj_at (vheap (put_cur ?t4 ?vm2)) x =
      (if x = th then Some (OThread ?t4) else obj_at (vheap vm1) x)" for x
    using obj_at_put_cur [OF c2, of ?t4 x] ct by auto
  have "upvalue_get (fst x) (put_cur ?t4 ?vm2) = upvalue_get (fst x) vm" if x: "x \<in> set xs" "snd x < hstack_top h" for x
  proof -
    obtain w where w: "obj_at (vheap vm1) (fst x) = Some (OUpvalue w)"
      "ulocation w = InClosed \<or> ulocation w = OnStack th (snd x)"
    proof (cases "x \<in> set ys")
      case True
      then show ?thesis using u(5) ct that open_chain_obj unfolding open_list_def by fastforce
    next
      case False
      then show ?thesis using u(6) x(1) that by blast
    qed
    have "obj_at (vheap vm1) th = Some (OThread ?t1)" using u(3) ct by (auto simp: cur_Some_iff)
    then have "fst x \<noteq> th" "stack_get th (snd x) vm1 = stack_get th (snd x) (put_cur ?t4 ?vm2)"
      using w(1) ob4 [of th] x(2) by (auto simp: stack_get_eq handling_def)
    then have "upvalue_get (fst x) (put_cur ?t4 ?vm2) = upvalue_get (fst x) vm1"
      using w ob4 [of "fst x"] upvalue_get_eq [OF w(1)] upvalue_get_eq [of "put_cur ?t4 ?vm2" "fst x" w] by auto
    then show ?thesis using u(4) x(1) by simp
  qed
  moreover have "cur (put_cur ?t4 ?vm2) = Some ?t4" by (rule cur_put_cur [OF c2])
  moreover have "globals vm1 = globals vm" using u(2) by (metis vm.select_convs(4) vm.surjective vm.update_convs(1))
  ultimately show ?thesis
    using res fc ex(2) by (intro exI [of _ "put_cur ?t4 ?vm2"] exI [of _ ?t4]) (simp add: handling_def)
qed


text \<open>
  C34. Entering a handler in the frame that raised does not close the variables declared since the
  handler was installed: a closure that captured the first of them reads the exception instead of the
  variable from then on.
\<close>

theorem handler_overwrites_captured:
  assumes ol: "open_list vm xs" and t: "cur vm = Some t" "current_thread vm = Some th"
    and ex: "has_exception t" "handler_count t = Suc n" "handlers t n = Some h"
    and h: "hhas_except h" "\<not> hin_except h" "hexcept_ip h = Some i"
    and fr: "0 < hframe_count h" "hframe_count h = frame_count t" and room: "hstack_top h < stack_capacity t"
    and x: "x \<in> set xs" "snd x = hstack_top h"
  shows "\<exists>vm'. handle_exception vm = Some (True, vm') \<and> upvalue_get (fst x) vm' = Some (exception t)"
proof -
  let ?vm2 = "vm\<lparr>cframe := (th, hframe_count h - 1), ip := i\<rparr>"
  let ?t4 = "handling h n t"
  have c2: "cur ?vm2 = Some t" using t(1) by simp
  have res: "handle_exception vm = Some (True, put_cur ?t4 ?vm2)"
    by (rule handler_entered [OF t ex h fr(1)]) (use fr room t in simp_all)
  have ob4: "obj_at (vheap (put_cur ?t4 ?vm2)) y = (if y = th then Some (OThread ?t4) else obj_at (vheap vm) y)" for y
    using obj_at_put_cur [OF c2, of ?t4 y] t(2) by auto
  obtain u where u: "obj_at (vheap vm) (fst x) = Some (OUpvalue u)" "ulocation u = OnStack th (snd x)"
    using ol t(2) open_chain_obj x(1) unfolding open_list_def by fastforce
  moreover have "fst x \<noteq> th" using u(1) t by (auto simp: cur_Some_iff)
  ultimately show ?thesis
    using res ob4 [of "fst x"] ob4 [of th] upvalue_get_eq [of "put_cur ?t4 ?vm2" "fst x" u] x(2) room
    by (intro exI [of _ "put_cur ?t4 ?vm2"]) (simp add: stack_get_eq handling_def)
qed

section \<open>A small machine with a handler\<close>

definition demo_handler :: handler where
  "demo_handler =
     \<lparr>hframe_count = 1, hstack_top = 1, hexcept_ip = Some 7, hfinally_ip = None, hhas_except = True,
      hhas_finally = False, hin_except = False\<rparr>"

definition raised :: "thread \<Rightarrow> thread" where
  "raised t = t\<lparr>has_exception := True, exception := VBool False, handlers := [0 \<mapsto> demo_handler], handler_count := 1\<rparr>"

lemma raised_machine:
  obtains a vm t where "open_list vm [(a, 1)]" "cur vm = Some (raised t)" "current_thread vm = Some 1"
    "frame_count t = 1" "tframes t 0 \<noteq> None" "stack_capacity t = 256"
proof -
  obtain a vm p where c: "open_list vm [(a, 1)]" "current_thread vm = Some 1"
    "cur vm = Some ((demo_thread [VNil, VBool True])\<lparr>open_upvalues := p\<rparr>)"
    using capture_links [OF open_two_slots(1) _ open_two_slots(2,3), of 1 "VBool True"]
    by (auto simp: two_slots_def)
  let ?t = "(demo_thread [VNil, VBool True])\<lparr>open_upvalues := p\<rparr>"
  have f: "frame_count ?t = 1" "tframes ?t 0 \<noteq> None" "stack_capacity ?t = 256"
    by (simp_all add: demo_thread_def)
  have "open_list (put_cur (raised ?t) vm) [(a, 1)]"
    by (rule open_list_put_cur [OF c(1,3)]) (simp_all add: raised_def)
  with f c(2) that [of "put_cur (raised ?t) vm" a ?t] cur_put_cur [OF c(3)] show thesis by simp
qed

theorem raise_enters_handler_witness:
  "\<exists>vm vm' t'. handle_exception vm = Some (True, vm') \<and> cur vm' = Some t' \<and> ip vm' = 7 \<and>
     stack_top t' = 2 \<and> stack t' 1 = Some (VBool False) \<and> \<not> has_exception t'"
proof -
  obtain a vm t where m: "open_list vm [(a, 1)]" "cur vm = Some (raised t)" "current_thread vm = Some 1"
    "frame_count t = 1" "tframes t 0 \<noteq> None" "stack_capacity t = 256" by (rule raised_machine)
  from raise_enters_handler [OF m(1-3), of 0 demo_handler 7] m(4-6)
  obtain vm' t' where "handle_exception vm = Some (True, vm')" "cur vm' = Some t'" "ip vm' = 7"
    "stack_top t' = 2" "stack t' = (stack t)(1 \<mapsto> VBool False)" "\<not> has_exception t'"
    by (auto simp: raised_def demo_handler_def numeral_2_eq_2)
  then show ?thesis by (intro exI [of _ vm] exI [of _ vm'] exI [of _ t']) simp
qed

theorem handler_overwrites_captured_witness:
  "\<exists>a vm vm'. open_list vm [(a, 1)] \<and> handle_exception vm = Some (True, vm') \<and>
     upvalue_get a vm' = Some (VBool False)"
proof -
  obtain a vm t where m: "open_list vm [(a, 1)]" "cur vm = Some (raised t)" "current_thread vm = Some 1"
    "frame_count t = 1" "tframes t 0 \<noteq> None" "stack_capacity t = 256" by (rule raised_machine)
  from handler_overwrites_captured [OF m(1-3), of 0 demo_handler 7 "(a, 1)"] m
  show ?thesis by (auto simp: raised_def demo_handler_def)
qed

end
