(* ===== verification/Lexer.thy ===== *)
theory Lexer
  imports Prelude Format
begin

text \<open>
  The scanner (\<open>src/src/lexer.c\<close>, \<open>src/src/lexer.h\<close>, \<open>src/src/token.h\<close>). The source is a list of
  bytes that ends with an implicit zero; pointers into it are offsets. \<open>scan_token\<close> restarts
  itself after blank lines, comments and line ends, each time further into the source. \<open>None\<close>
  stands for a write past the end of the stack of indentation levels. Bytes above 127 are not
  letters, as in the C locale.
\<close>

section \<open>Tokens and the state of the scanner\<close>

datatype token_type =
  TOKEN_EOF | TOKEN_ERROR
| TOKEN_LEFT_PAREN | TOKEN_RIGHT_PAREN | TOKEN_LEFT_BRACE | TOKEN_RIGHT_BRACE
| TOKEN_LEFT_BRACKET | TOKEN_RIGHT_BRACKET | TOKEN_COMMA | TOKEN_DOT | TOKEN_DOT_DOT
| TOKEN_MINUS | TOKEN_PLUS | TOKEN_SEMICOLON | TOKEN_SLASH | TOKEN_STAR | TOKEN_EQUALS
| TOKEN_HASH | TOKEN_QUESTION | TOKEN_COLON | TOKEN_COLON_COLON | TOKEN_WALRUS
| TOKEN_PLUS_EQUAL | TOKEN_MINUS_EQUAL | TOKEN_STAR_EQUAL | TOKEN_SLASH_EQUAL
| TOKEN_PERCENT_EQUAL | TOKEN_AT | TOKEN_POWER | TOKEN_INT_DIV | TOKEN_PERCENT
| TOKEN_EQUAL_EQUAL | TOKEN_BANG_EQUAL | TOKEN_LESS | TOKEN_LESS_EQUAL | TOKEN_APPEND
| TOKEN_GREATER | TOKEN_GREATER_EQUAL | TOKEN_INDENT | TOKEN_DEDENT
| TOKEN_IDENTIFIER | TOKEN_STRING | TOKEN_FSTRING | TOKEN_NUMBER
| TOKEN_KEYWORD string

text \<open>
  The tokens of the keywords (\<open>TOKEN_NIL\<close> to \<open>TOKEN_ASSERT\<close>) are \<open>TOKEN_KEYWORD\<close> with the name in
  the enumeration. The text of a token is a piece of the source or an error message.
\<close>

datatype token_text = Lexeme nat nat | Message bytes

record token =
  ttype :: token_type
  ttext :: token_text
  tline :: nat

text \<open>\<open>indent_stack\<close> holds the levels \<open>0, ..., indent_top\<close>, the top one first.\<close>

record lexer =
  lstart :: nat
  current :: nat
  lline :: nat
  indent_stack :: "nat list"
  pending_dedents :: nat
  at_start_of_line :: bool
  inside_table :: nat

definition indent_top :: "lexer \<Rightarrow> nat" where
  "indent_top lx = length (indent_stack lx) - 1"

definition init_lexer :: lexer where
  "init_lexer = \<lparr>lstart = 0, current = 0, lline = 1, indent_stack = [0], pending_dedents = 0,
                 at_start_of_line = True, inside_table = 0\<rparr>"

definition src_at :: "bytes \<Rightarrow> nat \<Rightarrow> byte" where
  "src_at src i = (if i < length src then src ! i else 0)"

definition peek_char :: "bytes \<Rightarrow> lexer \<Rightarrow> byte" where
  "peek_char src lx = src_at src (current lx)"

definition peek_next :: "bytes \<Rightarrow> lexer \<Rightarrow> byte" where
  "peek_next src lx = (if peek_char src lx = 0 then 0 else src_at src (current lx + 1))"

definition forward :: "nat \<Rightarrow> lexer \<Rightarrow> lexer" where
  "forward n lx = lx\<lparr>current := current lx + n\<rparr>"

definition make_token :: "lexer \<Rightarrow> token_type \<Rightarrow> token" where
  "make_token lx ty =
     \<lparr>ttype = ty, ttext = Lexeme (lstart lx) (current lx - lstart lx), tline = lline lx\<rparr>"

definition error_token :: "lexer \<Rightarrow> bytes \<Rightarrow> token" where
  "error_token lx msg = \<lparr>ttype = TOKEN_ERROR, ttext = Message msg, tline = lline lx\<rparr>"

section \<open>Names and numbers\<close>

definition is_digit :: "byte \<Rightarrow> bool" where
  "is_digit b \<longleftrightarrow> 48 \<le> b \<and> b \<le> 57"

definition is_alpha :: "byte \<Rightarrow> bool" where
  "is_alpha b \<longleftrightarrow> (65 \<le> b \<and> b \<le> 90) \<or> (97 \<le> b \<and> b \<le> 122)"

definition is_name_char :: "byte \<Rightarrow> bool" where
  "is_name_char b \<longleftrightarrow> is_alpha b \<or> is_digit b \<or> b = 95"

definition keyword_table :: "(string \<times> string) list" where
  "keyword_table =
     [(''and'', ''AND''), (''or'', ''OR''), (''not'', ''NOT''), (''nil'', ''NIL''), (''gc'', ''GC''),
      (''print'', ''PRINT''), (''local'', ''LOCAL''), (''while'', ''WHILE''), (''break'', ''BREAK''),
      (''continue'', ''CONTINUE''), (''with'', ''WITH''), (''as'', ''AS''), (''try'', ''TRY''),
      (''except'', ''EXCEPT''), (''finally'', ''FINALLY''), (''throw'', ''THROW''),
      (''else'', ''ELSE''), (''elif'', ''ELIF''), (''false'', ''FALSE''), (''for'', ''FOR''),
      (''fn'', ''FN''), (''return'', ''RETURN''), (''yield'', ''YIELD''), (''if'', ''IF''),
      (''in'', ''IN''), (''has'', ''HAS''), (''global'', ''GLOBAL''), (''import'', ''IMPORT''),
      (''from'', ''FROM''), (''del'', ''DEL''), (''assert'', ''ASSERT''), (''true'', ''TRUE'')]"

fun find_keyword :: "(string \<times> string) list \<Rightarrow> bytes \<Rightarrow> token_type" where
  "find_keyword [] cs = TOKEN_IDENTIFIER"
| "find_keyword ((name, ty) # ks) cs =
     (if cs = bytes_of name then TOKEN_KEYWORD ty else find_keyword ks cs)"

definition identifier_type :: "bytes \<Rightarrow> lexer \<Rightarrow> token_type" where
  "identifier_type src lx =
     find_keyword keyword_table (take (current lx - lstart lx) (drop (lstart lx) src))"

definition scan_identifier :: "bytes \<Rightarrow> lexer \<Rightarrow> token \<times> lexer" where
  "scan_identifier src lx =
     (let lx = forward (length (takeWhile is_name_char (drop (current lx) src))) lx
      in (make_token lx (identifier_type src lx), lx))"

text \<open>The digits from here on, with single underscores between them.\<close>

fun digits :: "bool \<Rightarrow> bytes \<Rightarrow> nat" where
  "digits last_was_digit [] = 0"
| "digits last_was_digit (c # cs) =
     (if is_digit c then Suc (digits True cs)
      else if c = 95 \<and> last_was_digit \<and> cs \<noteq> [] \<and> is_digit (hd cs) then Suc (digits False cs)
      else 0)"

definition scan_number :: "bytes \<Rightarrow> lexer \<Rightarrow> token \<times> lexer" where
  "scan_number src lx =
     (let lx = forward (digits True (drop (current lx) src)) lx;
          lx = (if peek_char src lx = 46 \<and> is_digit (peek_next src lx)
                then let lx = forward 1 lx in forward (digits False (drop (current lx) src)) lx
                else lx)
      in (make_token lx TOKEN_NUMBER, lx))"

section \<open>Strings\<close>

text \<open>
  The characters of a quoted string up to the closing quote, and the line ends among them.
  \<open>escaped_lines\<close> says whether a line end after a backslash counts: it does in strings and not
  in f-strings. The first result says whether the quote was found.
\<close>

fun quoted :: "bool \<Rightarrow> byte \<Rightarrow> bytes \<Rightarrow> bool \<times> nat \<times> nat" where
  "quoted escaped_lines q [] = (False, 0, 0)"
| "quoted escaped_lines q [c] =
     (if c = q then (True, 0, 0) else if c = 0 then (False, 0, 0)
      else (False, 1, if c = 10 then 1 else 0))"
| "quoted escaped_lines q (c # d # cs) =
     (if c = q then (True, 0, 0)
      else if c = 0 then (False, 0, 0)
      else if c = 92 \<and> d \<noteq> 0 then
        (let (closed, n, k) = quoted escaped_lines q cs
         in (closed, n + 2, k + (if escaped_lines \<and> d = 10 then 1 else 0)))
      else
        (let (closed, n, k) = quoted escaped_lines q (d # cs)
         in (closed, n + 1, k + (if c = 10 then 1 else 0))))"

definition quoted_token ::
  "bool \<Rightarrow> token_type \<Rightarrow> string \<Rightarrow> byte \<Rightarrow> bytes \<Rightarrow> lexer \<Rightarrow> token \<times> lexer" where
  "quoted_token escaped_lines ty msg q src lx =
     (let (closed, n, k) = quoted escaped_lines q (drop (current lx) src);
          lx = (forward n lx)\<lparr>lline := lline lx + k\<rparr>
      in if \<not> closed then (error_token lx (bytes_of msg), lx)
         else let lx = forward 1 lx in (make_token lx ty, lx))"

definition scan_string :: "byte \<Rightarrow> bytes \<Rightarrow> lexer \<Rightarrow> token \<times> lexer" where
  "scan_string = quoted_token True TOKEN_STRING ''Unterminated string.''"

definition fstring_quoted :: "byte \<Rightarrow> bytes \<Rightarrow> lexer \<Rightarrow> token \<times> lexer" where
  "fstring_quoted = quoted_token False TOKEN_FSTRING ''Unterminated f-string.''"

text \<open>The characters up to two closing brackets.\<close>

fun bracketed :: "bytes \<Rightarrow> bool \<times> nat \<times> nat" where
  "bracketed [] = (False, 0, 0)"
| "bracketed (c # cs) =
     (if c = 0 then (False, 0, 0)
      else if c = 93 \<and> cs \<noteq> [] \<and> hd cs = 93 then (True, 0, 0)
      else (let (closed, n, k) = bracketed cs in (closed, n + 1, k + (if c = 10 then 1 else 0))))"

definition bracketed_token :: "token_type \<Rightarrow> string \<Rightarrow> bytes \<Rightarrow> lexer \<Rightarrow> token \<times> lexer" where
  "bracketed_token ty msg src lx =
     (let (closed, n, k) = bracketed (drop (current lx) src);
          lx = (forward n lx)\<lparr>lline := lline lx + k\<rparr>
      in if closed then let lx = forward 2 lx in (make_token lx ty, lx)
         else (error_token lx (bytes_of msg), lx))"

definition multiline_string :: "bytes \<Rightarrow> lexer \<Rightarrow> token \<times> lexer" where
  "multiline_string src lx =
     bracketed_token TOKEN_STRING ''Unterminated multiline string.'' src (forward 1 lx)"

definition fstring_multiline :: "bytes \<Rightarrow> lexer \<Rightarrow> token \<times> lexer" where
  "fstring_multiline src lx =
     bracketed_token TOKEN_FSTRING ''Unterminated multiline f-string.'' src (forward 2 lx)"

section \<open>Indentation\<close>

text \<open>The rest of the line, up to the line end or the end of the source.\<close>

definition rest_of_line :: "bytes \<Rightarrow> nat" where
  "rest_of_line cs = length (takeWhile (\<lambda>b. b \<noteq> 10 \<and> b \<noteq> 0) cs)"

definition indent_chars :: "bytes \<Rightarrow> bytes" where
  "indent_chars cs = takeWhile (\<lambda>b. b = 32 \<or> b = 9) cs"

definition indent_width :: "bytes \<Rightarrow> nat" where
  "indent_width cs = sum_list (map (\<lambda>b. if b = 32 then 1 else 4) (indent_chars cs))"

text \<open>\<open>while (indent_top > 0 && indent_stack[indent_top] > indent)\<close>: how many levels end.\<close>

fun levels_above :: "nat \<Rightarrow> nat list \<Rightarrow> nat" where
  "levels_above indent [] = 0"
| "levels_above indent [x] = 0"
| "levels_above indent (x # y # xs) = (if indent < x then Suc (levels_above indent (y # xs)) else 0)"

datatype line_step = Restart lexer | Emit token lexer | Overflow | Onward lexer

text \<open>The start of a line outside a table literal.\<close>

definition line_indent :: "bytes \<Rightarrow> lexer \<Rightarrow> line_step" where
  "line_indent src lx =
     (let cs = drop (current lx) src;
          lx = forward (length (indent_chars cs)) (lx\<lparr>at_start_of_line := False, lstart := current lx\<rparr>)
      in if peek_char src lx = 10
         then Restart (forward 1 (lx\<lparr>at_start_of_line := True, lline := lline lx + 1\<rparr>))
         else if peek_char src lx = 45 \<and> peek_next src lx = 45
         then Restart (forward (rest_of_line (drop (current lx) src)) (lx\<lparr>at_start_of_line := True\<rparr>))
         else
           let indent = (if peek_char src lx = 0 then 0 else indent_width cs);
               cur_indent = hd (indent_stack lx)
           in if cur_indent < indent then
                (if 256 \<le> length (indent_stack lx) then Overflow
                 else let lx = lx\<lparr>indent_stack := indent # indent_stack lx\<rparr>
                      in Emit (make_token lx TOKEN_INDENT) lx)
              else if indent < cur_indent then
                let n = levels_above indent (indent_stack lx);
                    lx = lx\<lparr>indent_stack := drop n (indent_stack lx),
                            pending_dedents := pending_dedents lx + n\<rparr>
                in if hd (indent_stack lx) \<noteq> indent
                   then Emit (error_token lx (bytes_of ''Inconsistent indentation.'')) lx
                   else if 0 < pending_dedents lx
                   then let lx = lx\<lparr>pending_dedents := pending_dedents lx - 1\<rparr>
                        in Emit (make_token lx TOKEN_DEDENT) lx
                   else Onward lx
              else Onward lx)"

definition line_start :: "bytes \<Rightarrow> lexer \<Rightarrow> line_step" where
  "line_start src lx =
     (if at_start_of_line lx \<and> inside_table lx = 0 then line_indent src lx
      else Onward (lx\<lparr>at_start_of_line := False\<rparr>))"

text \<open>Blanks and comments on the current line.\<close>

fun blanks :: "bytes \<Rightarrow> nat" where
  "blanks [] = 0"
| "blanks (c # cs) =
     (if c = 32 \<or> c = 9 \<or> c = 13 then Suc (blanks cs)
      else if c = 45 \<and> cs \<noteq> [] \<and> hd cs = 45 then rest_of_line (c # cs)
      else 0)"

section \<open>Scanning a token\<close>

definition unexpected_msg :: "byte \<Rightarrow> bytes" where
  "unexpected_msg c =
     take 99 (bytes_of ''Unexpected character: '' @ [39, c, 39] @ bytes_of '' (ASCII '' @
              dec_int (sint c) @ bytes_of '').'')"

definition simple :: "token_type \<Rightarrow> lexer \<Rightarrow> token \<times> lexer" where
  "simple ty lx = (make_token lx ty, lx)"

text \<open>A longer token if the next character is \<open>c\<close>, otherwise what follows.\<close>

definition two_char ::
  "byte \<Rightarrow> token_type \<Rightarrow> bytes \<Rightarrow> lexer \<Rightarrow> token \<times> lexer \<Rightarrow> token \<times> lexer" where
  "two_char c ty src lx other = (if peek_char src lx = c then simple ty (forward 1 lx) else other)"

definition unexpected :: "byte \<Rightarrow> lexer \<Rightarrow> token \<times> lexer" where
  "unexpected c lx = (error_token lx (unexpected_msg c), lx)"

text \<open>The \<open>switch\<close> over the first character, which \<open>lx\<close> is past.\<close>

definition punctuation :: "byte \<Rightarrow> bytes \<Rightarrow> lexer \<Rightarrow> token \<times> lexer" where
  "punctuation c src lx =
     (if c = 40 then simple TOKEN_LEFT_PAREN lx
      else if c = 41 then simple TOKEN_RIGHT_PAREN lx
      else if c = 123 then simple TOKEN_LEFT_BRACE (lx\<lparr>inside_table := inside_table lx + 1\<rparr>)
      else if c = 125 then simple TOKEN_RIGHT_BRACE (lx\<lparr>inside_table := inside_table lx - 1\<rparr>)
      else if c = 91 then
        (if peek_char src lx = 91 then multiline_string src lx else simple TOKEN_LEFT_BRACKET lx)
      else if c = 93 then simple TOKEN_RIGHT_BRACKET lx
      else if c = 59 then simple TOKEN_SEMICOLON lx
      else if c = 44 then simple TOKEN_COMMA lx
      else if c = 46 then two_char 46 TOKEN_DOT_DOT src lx (simple TOKEN_DOT lx)
      else if c = 45 then two_char 61 TOKEN_MINUS_EQUAL src lx (simple TOKEN_MINUS lx)
      else if c = 43 then two_char 61 TOKEN_PLUS_EQUAL src lx (simple TOKEN_PLUS lx)
      else if c = 47 then
        two_char 47 TOKEN_INT_DIV src lx (two_char 61 TOKEN_SLASH_EQUAL src lx (simple TOKEN_SLASH lx))
      else if c = 42 then
        two_char 42 TOKEN_POWER src lx (two_char 61 TOKEN_STAR_EQUAL src lx (simple TOKEN_STAR lx))
      else if c = 37 then two_char 61 TOKEN_PERCENT_EQUAL src lx (simple TOKEN_PERCENT lx)
      else if c = 35 then simple TOKEN_HASH lx
      else if c = 63 then simple TOKEN_QUESTION lx
      else if c = 58 then
        two_char 58 TOKEN_COLON_COLON src lx (two_char 61 TOKEN_WALRUS src lx (simple TOKEN_COLON lx))
      else if c = 64 then simple TOKEN_AT lx
      else if c = 61 then two_char 61 TOKEN_EQUAL_EQUAL src lx (simple TOKEN_EQUALS lx)
      else if c = 33 then two_char 61 TOKEN_BANG_EQUAL src lx (unexpected c lx)
      else if c = 60 then
        two_char 43 TOKEN_APPEND src lx (two_char 61 TOKEN_LESS_EQUAL src lx (simple TOKEN_LESS lx))
      else if c = 62 then two_char 61 TOKEN_GREATER_EQUAL src lx (simple TOKEN_GREATER lx)
      else if c = 34 \<or> c = 39 then scan_string c src lx
      else unexpected c lx)"

text \<open>A token that starts at \<open>current\<close>, which is not the end of the source.\<close>

definition scan_visible :: "bytes \<Rightarrow> lexer \<Rightarrow> token \<times> lexer" where
  "scan_visible src lx =
     (let c = peek_char src lx; lx = forward 1 lx; d = peek_char src lx
      in if c = 102 \<and> (d = 34 \<or> d = 39) then fstring_quoted d src (forward 1 lx)
         else if c = 102 \<and> d = 91 \<and> peek_next src lx = 91 then fstring_multiline src lx
         else if is_alpha c \<or> c = 95 then scan_identifier src lx
         else if is_digit c then scan_number src lx
         else punctuation c src lx)"

definition scan_end :: "lexer \<Rightarrow> token \<times> lexer" where
  "scan_end lx =
     (if 0 < indent_top lx
      then let lx = lx\<lparr>pending_dedents := indent_top lx - 1, indent_stack := [last (indent_stack lx)]\<rparr>
           in (make_token lx TOKEN_DEDENT, lx)
      else (make_token lx TOKEN_EOF, lx))"

definition after_blanks :: "bytes \<Rightarrow> lexer \<Rightarrow> line_step" where
  "after_blanks src lx =
     (let lx = forward (blanks (drop (current lx) src)) lx
      in if peek_char src lx = 10
         then Restart (forward 1 (lx\<lparr>lline := lline lx + 1, at_start_of_line := True\<rparr>))
         else
           let lx = lx\<lparr>lstart := current lx\<rparr>;
               (tok, lx) = (if peek_char src lx = 0 then scan_end lx else scan_visible src lx)
           in Emit tok lx)"

definition scan_once :: "bytes \<Rightarrow> lexer \<Rightarrow> line_step" where
  "scan_once src lx =
     (if 0 < pending_dedents lx
      then let lx = lx\<lparr>pending_dedents := pending_dedents lx - 1\<rparr> in Emit (make_token lx TOKEN_DEDENT) lx
      else case line_start src lx of Onward lx \<Rightarrow> after_blanks src lx | r \<Rightarrow> r)"

lemma peek_char_lt: "peek_char src lx \<noteq> 0 \<Longrightarrow> current lx < length src"
  by (auto simp: peek_char_def src_at_def split: if_splits)

lemma current_forward [simp]: "current (forward n lx) = current lx + n"
  by (simp add: forward_def)

lemma forward_sel [simp]:
  "lstart (forward n lx) = lstart lx" "lline (forward n lx) = lline lx"
  "indent_stack (forward n lx) = indent_stack lx" "pending_dedents (forward n lx) = pending_dedents lx"
  "at_start_of_line (forward n lx) = at_start_of_line lx" "inside_table (forward n lx) = inside_table lx"
  by (simp_all add: forward_def)

lemma peek_char_cong: "current a = current b \<Longrightarrow> peek_char src a = peek_char src b"
  by (simp add: peek_char_def)

lemma rest_of_line_pos:
  assumes "peek_char src lx = 45"
  shows "0 < rest_of_line (drop (current lx) src)"
proof -
  have "current lx < length src" using assms peek_char_lt [of src lx] by simp
  then have "drop (current lx) src = 45 # drop (Suc (current lx)) src"
    using assms by (simp add: Cons_nth_drop_Suc [symmetric] peek_char_def src_at_def)
  then show ?thesis by (simp add: rest_of_line_def)
qed

lemma line_indent_restart:
  "line_indent src lx = Restart lx' \<Longrightarrow> current lx < current lx' \<and> current lx < length src"
proof -
  assume r: "line_indent src lx = Restart lx'"
  let ?lx = "forward (length (indent_chars (drop (current lx) src))) (lx\<lparr>at_start_of_line := False, lstart := current lx\<rparr>)"
  show ?thesis
  proof (cases "peek_char src ?lx = 10")
    case True
    then have "current ?lx < length src" using peek_char_lt [of src ?lx] by simp
    with True r show ?thesis by (auto simp: line_indent_def Let_def)
  next
    case False
    with r have m: "peek_char src ?lx = 45" and lx': "lx' = forward (rest_of_line (drop (current ?lx) src)) (?lx\<lparr>at_start_of_line := True\<rparr>)"
      by (auto simp: line_indent_def Let_def split: if_splits)
    have "current ?lx < length src" using m peek_char_lt [of src ?lx] by simp
    with rest_of_line_pos [OF m] show ?thesis by (auto simp: lx')
  qed
qed

lemma line_start_restart:
  "line_start src lx = Restart lx' \<Longrightarrow> current lx < current lx' \<and> current lx < length src"
  using line_indent_restart by (auto simp: line_start_def split: if_splits)

lemma line_start_onward: "line_start src lx = Onward lx' \<Longrightarrow> current lx \<le> current lx'"
  by (auto simp: line_start_def line_indent_def Let_def split: if_splits)

lemma after_blanks_restart:
  assumes "after_blanks src lx = Restart lx'"
  shows "current lx < current lx' \<and> current lx < length src"
proof -
  let ?lx = "forward (blanks (drop (current lx) src)) lx"
  have p: "peek_char src ?lx = 10" and "current lx' = current ?lx + 1"
    using assms by (auto simp: after_blanks_def Let_def split: if_splits prod.splits)
  moreover have "current ?lx < length src" using p peek_char_lt [of src ?lx] by simp
  ultimately show ?thesis by simp
qed

lemma scan_once_restart:
  assumes "scan_once src lx = Restart lx'"
  shows "current lx < current lx' \<and> current lx < length src"
proof -
  have "pending_dedents lx = 0" using assms by (auto simp: scan_once_def Let_def split: if_splits)
  with assms consider "line_start src lx = Restart lx'"
    | a where "line_start src lx = Onward a" "after_blanks src a = Restart lx'"
    by (auto simp: scan_once_def split: line_step.splits)
  then show ?thesis
  proof cases
    case 2
    then show ?thesis using line_start_onward [OF 2(1)] after_blanks_restart [OF 2(2)] by linarith
  qed (rule line_start_restart)
qed

function scan_token :: "bytes \<Rightarrow> lexer \<Rightarrow> (token \<times> lexer) option" where
  "scan_token src lx =
     (case scan_once src lx of
        Restart lx' \<Rightarrow> scan_token src lx'
      | Emit tok lx' \<Rightarrow> Some (tok, lx')
      | _ \<Rightarrow> None)"
  by pat_completeness auto
termination
  by (relation "measure (\<lambda>(src, lx). length src - current lx)")
    (auto dest: scan_once_restart)

declare scan_token.simps [simp del]

text \<open>The tokens up to the end of the source; the fuel bounds their number.\<close>

fun tokens :: "nat \<Rightarrow> bytes \<Rightarrow> lexer \<Rightarrow> token list option" where
  "tokens 0 src lx = None"
| "tokens (Suc n) src lx =
     (case scan_token src lx of
        None \<Rightarrow> None
      | Some (tok, lx) \<Rightarrow>
          if ttype tok = TOKEN_EOF then Some [tok] else map_option ((#) tok) (tokens n src lx))"

section \<open>What scanning a token changes\<close>

text \<open>
  A token made from the characters after \<open>lx\<close>: it moves forward within the source, leaves the
  indentation alone, and is neither an indentation token nor the end.
\<close>

definition plain_token :: "bytes \<Rightarrow> lexer \<Rightarrow> token \<times> lexer \<Rightarrow> bool" where
  "plain_token src lx r \<longleftrightarrow>
     current lx \<le> current (snd r) \<and> current (snd r) \<le> length src \<and>
     indent_stack (snd r) = indent_stack lx \<and> pending_dedents (snd r) = pending_dedents lx \<and>
     at_start_of_line (snd r) = at_start_of_line lx \<and>
     ttype (fst r) \<notin> {TOKEN_INDENT, TOKEN_DEDENT, TOKEN_EOF} \<and>
     (\<forall>s n. ttext (fst r) = Lexeme s n \<longrightarrow> s = lstart lx \<and> s + n = current (snd r))"

lemma make_token_sel [simp]:
  "ttype (make_token lx ty) = ty"
  "ttext (make_token lx ty) = Lexeme (lstart lx) (current lx - lstart lx)"
  by (simp_all add: make_token_def)

lemma error_token_sel [simp]:
  "ttype (error_token lx msg) = TOKEN_ERROR" "ttext (error_token lx msg) = Message msg"
  by (simp_all add: error_token_def)

lemma plain_simple:
  assumes "current lx \<le> length src" "lstart lx \<le> current lx"
    and "ty \<notin> {TOKEN_INDENT, TOKEN_DEDENT, TOKEN_EOF}"
  shows "plain_token src lx (simple ty lx)"
  using assms by (simp add: plain_token_def simple_def)

lemma plain_unexpected: "current lx \<le> length src \<Longrightarrow> plain_token src lx (unexpected c lx)"
  by (simp add: plain_token_def unexpected_def)

lemma plain_forward:
  assumes "plain_token src (forward n lx) r"
  shows "plain_token src lx r"
  using assms by (simp add: plain_token_def)

lemma plain_two_char:
  assumes "c \<noteq> 0" "lstart lx \<le> current lx" "ty \<notin> {TOKEN_INDENT, TOKEN_DEDENT, TOKEN_EOF}"
    and "plain_token src lx other"
  shows "plain_token src lx (two_char c ty src lx other)"
proof (cases "peek_char src lx = c")
  case True
  then have "current lx < length src" using assms(1) peek_char_lt by blast
  then have "plain_token src (forward 1 lx) (simple ty (forward 1 lx))"
    using assms by (intro plain_simple) auto
  with True show ?thesis unfolding two_char_def by (simp add: plain_forward)
qed (simp add: two_char_def assms)

lemma find_keyword_cases [simp]:
  "find_keyword ks cs \<noteq> TOKEN_INDENT" "find_keyword ks cs \<noteq> TOKEN_DEDENT"
  "find_keyword ks cs \<noteq> TOKEN_EOF" "find_keyword ks cs \<noteq> TOKEN_ERROR"
  by (induction ks) (auto split: if_splits)

lemma length_takeWhile_drop: "i \<le> length xs \<Longrightarrow> i + length (takeWhile P (drop i xs)) \<le> length xs"
  using length_takeWhile_le [of P "drop i xs"] by simp

lemma plain_identifier:
  assumes "lstart lx \<le> current lx" "current lx \<le> length src"
  shows "plain_token src lx (scan_identifier src lx)"
  using assms
  by (simp add: plain_token_def scan_identifier_def Let_def length_takeWhile_drop identifier_type_def)

lemma digits_le: "digits b cs \<le> length cs"
  by (induction b cs rule: digits.induct) auto

lemma digits_drop_le: "i \<le> length src \<Longrightarrow> i + digits b (drop i src) \<le> length src"
  using digits_le [of b "drop i src"] by simp

lemma plain_number:
  assumes "lstart lx \<le> current lx" "current lx \<le> length src"
  shows "plain_token src lx (scan_number src lx)"
proof -
  let ?a = "forward (digits True (drop (current lx) src)) lx"
  have a: "current ?a \<le> length src" using assms digits_drop_le by simp
  have b: "current ?a + 1 + digits False (drop (current ?a + 1) src) \<le> length src"
    if "peek_char src ?a = 46"
  proof -
    have "current ?a < length src" using that peek_char_lt [of src ?a] by simp
    then show ?thesis by (intro digits_drop_le) simp
  qed
  show ?thesis
  proof (cases "peek_char src ?a = 46 \<and> is_digit (peek_next src ?a)")
    case True
    with b show ?thesis using assms by (simp add: plain_token_def scan_number_def Let_def)
  next
    case False
    then have "scan_number src lx = (make_token ?a TOKEN_NUMBER, ?a)"
      unfolding scan_number_def Let_def by (simp only: if_False)
    with a show ?thesis using assms by (simp add: plain_token_def)
  qed
qed

lemma quoted_le: "quoted e q cs = (closed, n, k) \<Longrightarrow> n + (if closed then 1 else 0) \<le> length cs"
proof (induction e q cs arbitrary: closed n k rule: quoted.induct)
  case (3 e q c d cs)
  show ?case
  proof (cases "c = q \<or> c = 0")
    case True
    with 3(3) show ?thesis by (auto split: if_splits)
  next
    case False
    then show ?thesis
    proof (cases "c = 92 \<and> d \<noteq> 0")
      case True
      obtain cl m j where r: "quoted e q cs = (cl, m, j)" by (cases "quoted e q cs")
      have "m + (if cl then 1 else 0) \<le> length cs" using 3(1) False True r by blast
      moreover have "closed = cl" "n = m + 2" using False True r 3(3) by simp_all
      ultimately show ?thesis by simp
    next
      case nesc: False
      obtain cl m j where r: "quoted e q (d # cs) = (cl, m, j)" by (cases "quoted e q (d # cs)")
      have "m + (if cl then 1 else 0) \<le> length (d # cs)" using 3(2) False nesc r by blast
      moreover have "closed = cl" "n = m + 1"
        using False nesc r 3(3) by (simp_all split: if_splits)
      ultimately show ?thesis by simp
    qed
  qed
qed (auto split: if_splits)

lemma plain_quoted:
  assumes "lstart lx \<le> current lx" "current lx \<le> length src"
    and "ty \<notin> {TOKEN_INDENT, TOKEN_DEDENT, TOKEN_EOF}"
  shows "plain_token src lx (quoted_token e ty msg q src lx)"
proof -
  obtain cl n k where r: "quoted e q (drop (current lx) src) = (cl, n, k)" by (cases "quoted e q (drop (current lx) src)")
  show ?thesis
    using assms r quoted_le [OF r] by (auto simp: plain_token_def quoted_token_def Let_def)
qed

lemma bracketed_le: "bracketed cs = (closed, n, k) \<Longrightarrow> n + (if closed then 2 else 0) \<le> length cs"
proof (induction cs arbitrary: closed n k)
  case (Cons c cs)
  obtain cl m j where "bracketed cs = (cl, m, j)" by (cases "bracketed cs")
  with Cons show ?case by (cases cs) (auto split: if_splits)
qed simp

lemma plain_bracketed:
  assumes "lstart lx \<le> current lx" "current lx \<le> length src"
    and "ty \<notin> {TOKEN_INDENT, TOKEN_DEDENT, TOKEN_EOF}"
  shows "plain_token src lx (bracketed_token ty msg src lx)"
proof -
  obtain cl n k where r: "bracketed (drop (current lx) src) = (cl, n, k)" by (cases "bracketed (drop (current lx) src)")
  show ?thesis
    using assms r bracketed_le [OF r] by (auto simp: plain_token_def bracketed_token_def Let_def)
qed

lemma plain_multiline:
  assumes "peek_char src lx = 91" "lstart lx \<le> current lx"
  shows "plain_token src lx (multiline_string src lx)"
proof -
  have "current lx < length src" using assms(1) peek_char_lt [of src lx] by simp
  then have "plain_token src (forward 1 lx) (multiline_string src lx)"
    unfolding multiline_string_def using assms by (intro plain_bracketed) auto
  then show ?thesis by (rule plain_forward)
qed

lemma plain_brace:
  assumes "plain_token src (lx\<lparr>inside_table := k\<rparr>) r"
  shows "plain_token src lx r"
  using assms by (simp add: plain_token_def)

lemma plain_if:
  "(b \<Longrightarrow> plain_token src lx r) \<Longrightarrow> (\<not> b \<Longrightarrow> plain_token src lx s) \<Longrightarrow> plain_token src lx (if b then r else s)"
  by simp

lemma plain_punctuation:
  assumes "lstart lx \<le> current lx" "current lx \<le> length src"
  shows "plain_token src lx (punctuation c src lx)"
proof -
  have brace: "plain_token src lx (simple ty (lx\<lparr>inside_table := k\<rparr>))"
    if "ty \<notin> {TOKEN_INDENT, TOKEN_DEDENT, TOKEN_EOF}" for ty k
    by (rule plain_brace [where k = k], rule plain_simple) (use assms that in auto)
  show ?thesis
    unfolding punctuation_def scan_string_def
    by (intro plain_if plain_simple plain_two_char plain_unexpected brace plain_quoted plain_multiline)
      (use assms in simp_all)
qed

lemma peek_next_lt: "peek_next src lx \<noteq> 0 \<Longrightarrow> current lx + 1 < length src"
  by (auto simp: peek_next_def src_at_def split: if_splits)

lemma scan_visible_plain:
  assumes "peek_char src lx \<noteq> 0" "lstart lx = current lx"
  shows "plain_token src (forward 1 lx) (scan_visible src lx)"
proof -
  let ?a = "forward 1 lx"
  have a: "current ?a \<le> length src" "lstart ?a \<le> current ?a"
    using assms peek_char_lt [of src lx] by auto
  have q: "plain_token src ?a (fstring_quoted (peek_char src ?a) src (forward 1 ?a))"
    if "peek_char src ?a = 34 \<or> peek_char src ?a = 39"
  proof -
    have "current ?a < length src" using that peek_char_lt [of src ?a] by auto
    then show ?thesis unfolding fstring_quoted_def
      using a by (intro plain_forward [of src 1 ?a] plain_quoted) auto
  qed
  have b: "plain_token src ?a (fstring_multiline src ?a)" if "peek_next src ?a = 91"
  proof -
    have "current ?a + 1 < length src" using that peek_next_lt [of src ?a] by simp
    then have "plain_token src (forward 2 ?a) (fstring_multiline src ?a)"
      unfolding fstring_multiline_def using a by (intro plain_bracketed) auto
    then show ?thesis by (rule plain_forward)
  qed
  show ?thesis
    unfolding scan_visible_def Let_def
    by (intro plain_if plain_identifier plain_number plain_punctuation) (use a q b in auto)
qed

section \<open>Indentation is balanced\<close>

text \<open>The levels that are open or owe a \<open>TOKEN_DEDENT\<close>, and what a token changes about them.\<close>

definition open_levels :: "lexer \<Rightarrow> nat" where
  "open_levels lx = indent_top lx + pending_dedents lx"

definition levels_ok :: "bytes \<Rightarrow> lexer \<Rightarrow> bool" where
  "levels_ok src lx \<longleftrightarrow>
     indent_stack lx \<noteq> [] \<and> last (indent_stack lx) = 0 \<and> sorted_wrt (>) (indent_stack lx) \<and>
     current lx \<le> length src"

definition levels_after :: "token \<Rightarrow> nat \<Rightarrow> nat \<Rightarrow> bool" where
  "levels_after tok n n' \<longleftrightarrow>
     (case ttype tok of TOKEN_INDENT \<Rightarrow> n' = n + 1 | TOKEN_DEDENT \<Rightarrow> n = n' + 1
      | TOKEN_EOF \<Rightarrow> n' = n \<and> n = 0 | _ \<Rightarrow> n' = n)"

definition effort :: "bytes \<Rightarrow> lexer \<Rightarrow> nat" where
  "effort src lx =
     2 * (length src - current lx) + open_levels lx + (if at_start_of_line lx then 1 else 0)"

text \<open>What one round of the scanner keeps, and that it comes nearer to the end of the source.\<close>

definition round_ok :: "bytes \<Rightarrow> lexer \<Rightarrow> line_step \<Rightarrow> bool" where
  "round_ok src lx r \<longleftrightarrow>
     (case r of
        Overflow \<Rightarrow> 256 \<le> length (indent_stack lx)
      | Emit tok lx' \<Rightarrow>
          levels_ok src lx' \<and> levels_after tok (open_levels lx) (open_levels lx') \<and>
          (ttype tok \<noteq> TOKEN_EOF \<longrightarrow> effort src lx' < effort src lx)
      | Restart lx' \<Rightarrow>
          levels_ok src lx' \<and> open_levels lx' = open_levels lx \<and> effort src lx' \<le> effort src lx
      | Onward lx' \<Rightarrow>
          levels_ok src lx' \<and> open_levels lx' = open_levels lx \<and> effort src lx' \<le> effort src lx \<and>
          pending_dedents lx' = 0 \<and> \<not> at_start_of_line lx')"

lemma levels_above_less: "xs \<noteq> [] \<Longrightarrow> levels_above i xs < length xs"
  by (induction i xs rule: levels_above.induct) auto

lemma levels_above_drop:
  "xs \<noteq> [] \<Longrightarrow> last (drop (levels_above i xs) xs) = last xs \<and> drop (levels_above i xs) xs \<noteq> []"
  using levels_above_less [of xs i] by simp

lemma levels_above_pos: "i < hd xs \<Longrightarrow> xs \<noteq> [] \<Longrightarrow> last xs = 0 \<Longrightarrow> 0 < levels_above i xs"
  by (cases "(i, xs)" rule: levels_above.cases) auto

lemma sorted_wrt_drop_iff: "sorted_wrt P xs \<Longrightarrow> sorted_wrt P (drop n xs)"
  by (metis append_take_drop_id sorted_wrt_append)

lemma forward_within: "peek_char src lx \<noteq> 0 \<Longrightarrow> current (forward 1 lx) \<le> length src"
  using peek_char_lt [of src lx] by simp

lemma rest_of_line_le: "i \<le> length src \<Longrightarrow> i + rest_of_line (drop i src) \<le> length src"
  by (simp add: rest_of_line_def length_takeWhile_drop)

lemma indent_chars_le: "i \<le> length src \<Longrightarrow> i + length (indent_chars (drop i src)) \<le> length src"
  by (simp add: indent_chars_def length_takeWhile_drop)

lemma indent_width_pos: "0 < indent_width cs \<Longrightarrow> 0 < length (indent_chars cs)"
  by (auto simp: indent_width_def)

text \<open>The state after the blanks at the start of a line.\<close>

definition after_indent :: "bytes \<Rightarrow> lexer \<Rightarrow> lexer" where
  "after_indent src lx =
     forward (length (indent_chars (drop (current lx) src))) (lx\<lparr>at_start_of_line := False, lstart := current lx\<rparr>)"

lemma after_indent_sel [simp]:
  "indent_stack (after_indent src lx) = indent_stack lx"
  "pending_dedents (after_indent src lx) = pending_dedents lx"
  "at_start_of_line (after_indent src lx) = False"
  "inside_table (after_indent src lx) = inside_table lx"
  "current (after_indent src lx) = current lx + length (indent_chars (drop (current lx) src))"
  by (simp_all add: after_indent_def)

lemma line_indent_unfold:
  "line_indent src lx =
     (let a = after_indent src lx
      in if peek_char src a = 10
         then Restart (forward 1 (a\<lparr>at_start_of_line := True, lline := lline a + 1\<rparr>))
         else if peek_char src a = 45 \<and> peek_next src a = 45
         then Restart (forward (rest_of_line (drop (current a) src)) (a\<lparr>at_start_of_line := True\<rparr>))
         else
           let indent = (if peek_char src a = 0 then 0 else indent_width (drop (current lx) src))
           in if hd (indent_stack lx) < indent then
                (if 256 \<le> length (indent_stack lx) then Overflow
                 else let b = a\<lparr>indent_stack := indent # indent_stack lx\<rparr> in Emit (make_token b TOKEN_INDENT) b)
              else if indent < hd (indent_stack lx) then
                let n = levels_above indent (indent_stack lx);
                    b = a\<lparr>indent_stack := drop n (indent_stack lx), pending_dedents := pending_dedents lx + n\<rparr>
                in if hd (indent_stack b) \<noteq> indent
                   then Emit (error_token b (bytes_of ''Inconsistent indentation.'')) b
                   else if 0 < pending_dedents b
                   then let c = b\<lparr>pending_dedents := pending_dedents b - 1\<rparr> in Emit (make_token c TOKEN_DEDENT) c
                   else Onward b
              else Onward a)"
  unfolding line_indent_def after_indent_def Let_def by simp

lemma round_indent:
  assumes ok: "levels_ok src lx" "at_start_of_line lx"
    and i: "hd (indent_stack lx) < i" "0 < length (indent_chars (drop (current lx) src))"
  shows "let b = (after_indent src lx)\<lparr>indent_stack := i # indent_stack lx\<rparr>
         in round_ok src lx (Emit (make_token b TOKEN_INDENT) b)"
proof -
  have c: "current lx + length (indent_chars (drop (current lx) src)) \<le> length src"
    using ok by (simp add: levels_ok_def indent_chars_le)
  have "\<forall>x\<in>set (indent_stack lx). x < i"
    using ok i by (cases "indent_stack lx") (auto simp: levels_ok_def)
  then have "levels_ok src ((after_indent src lx)\<lparr>indent_stack := i # indent_stack lx\<rparr>)"
    using ok c by (simp add: levels_ok_def)
  moreover obtain k where k: "length (indent_chars (drop (current lx) src)) = Suc k"
    using i(2) gr0_implies_Suc by blast
  moreover obtain m where m: "length (indent_stack lx) = Suc m"
    using ok gr0_implies_Suc [of "length (indent_stack lx)"] by (auto simp: levels_ok_def)
  ultimately show ?thesis
    using ok c by (simp add: round_ok_def levels_after_def effort_def open_levels_def indent_top_def)
qed

text \<open>Closing \<open>n\<close> levels, all of them owed as tokens.\<close>

definition close_levels :: "bytes \<Rightarrow> lexer \<Rightarrow> nat \<Rightarrow> lexer" where
  "close_levels src lx n =
     (after_indent src lx)\<lparr>indent_stack := drop n (indent_stack lx), pending_dedents := pending_dedents lx + n\<rparr>"

lemma close_levels_ok:
  assumes "levels_ok src lx" "n < length (indent_stack lx)"
  shows "levels_ok src (close_levels src lx n) \<and> open_levels (close_levels src lx n) = open_levels lx"
  using assms indent_chars_le [of "current lx" src]
  by (auto simp: levels_ok_def close_levels_def open_levels_def indent_top_def sorted_wrt_drop_iff)

lemma close_levels_effort:
  assumes "levels_ok src lx" "n < length (indent_stack lx)" "at_start_of_line lx"
  shows "effort src (close_levels src lx n) < effort src lx"
proof -
  have "open_levels (close_levels src lx n) = open_levels lx" using close_levels_ok assms by blast
  moreover have "\<not> at_start_of_line (close_levels src lx n)"
      "current lx \<le> current (close_levels src lx n)"
    by (simp_all add: close_levels_def)
  ultimately show ?thesis using assms(3) by (simp add: effort_def)
qed

lemma round_owed:
  assumes "levels_ok src lx" "0 < pending_dedents lx" "effort src lx \<le> effort src lx0"
    and "open_levels lx = open_levels lx0"
  shows "let c = lx\<lparr>pending_dedents := pending_dedents lx - 1\<rparr> in round_ok src lx0 (Emit (make_token c TOKEN_DEDENT) c)"
proof -
  let ?c = "lx\<lparr>pending_dedents := pending_dedents lx - 1\<rparr>"
  have "levels_ok src ?c" using assms by (simp add: levels_ok_def)
  moreover have "open_levels lx = open_levels ?c + 1"
    using assms by (simp add: open_levels_def indent_top_def)
  ultimately show ?thesis using assms by (simp add: round_ok_def levels_after_def effort_def)
qed

lemma line_indent_ok:
  assumes ok: "levels_ok src lx" "at_start_of_line lx" "pending_dedents lx = 0"
  shows "round_ok src lx (line_indent src lx)"
proof -
  let ?a = "after_indent src lx"
  let ?i = "if peek_char src ?a = 0 then 0 else indent_width (drop (current lx) src)"
  let ?n = "levels_above ?i (indent_stack lx)"
  let ?b = "close_levels src lx ?n"
  have s: "indent_stack lx \<noteq> []" using ok by (simp add: levels_ok_def)
  have c: "current ?a \<le> length src" using ok by (simp add: levels_ok_def indent_chars_le)
  have n: "?n < length (indent_stack lx)" using s by (rule levels_above_less)
  consider (line) "peek_char src ?a = 10"
    | (comment) "peek_char src ?a = 45" "peek_next src ?a = 45"
    | (deeper) "peek_char src ?a \<noteq> 10" "\<not> (peek_char src ?a = 45 \<and> peek_next src ?a = 45)"
        "hd (indent_stack lx) < ?i"
    | (shallower) "peek_char src ?a \<noteq> 10" "\<not> (peek_char src ?a = 45 \<and> peek_next src ?a = 45)"
        "?i < hd (indent_stack lx)"
    | (same) "peek_char src ?a \<noteq> 10" "\<not> (peek_char src ?a = 45 \<and> peek_next src ?a = 45)"
        "?i = hd (indent_stack lx)"
    by linarith
  then show ?thesis
  proof cases
    case line
    have "current ?a < length src" using line peek_char_lt [of src ?a] by simp
    with line ok show ?thesis
      by (simp add: line_indent_unfold Let_def round_ok_def levels_ok_def open_levels_def indent_top_def effort_def)
  next
    case comment
    then have e: "line_indent src lx = Restart (forward (rest_of_line (drop (current ?a) src)) (?a\<lparr>at_start_of_line := True\<rparr>))"
      by (simp add: line_indent_unfold Let_def)
    show ?thesis using rest_of_line_le [OF c] ok
      by (simp add: e round_ok_def levels_ok_def open_levels_def indent_top_def effort_def)
  next
    case deeper
    have "0 < length (indent_chars (drop (current lx) src))"
      using deeper(3) indent_width_pos by (simp split: if_splits)
    from round_indent [OF ok(1,2) deeper(3) this] deeper show ?thesis
      by (auto simp: line_indent_unfold Let_def round_ok_def)
  next
    case shallower
    have b: "levels_ok src ?b" "open_levels ?b = open_levels lx" "effort src ?b < effort src lx"
      using close_levels_ok [OF ok(1) n] close_levels_effort [OF ok(1) n ok(2)] by simp_all
    have e: "line_indent src lx =
      (if hd (indent_stack ?b) \<noteq> ?i then Emit (error_token ?b (bytes_of ''Inconsistent indentation.'')) ?b
       else if 0 < pending_dedents ?b
       then let c = ?b\<lparr>pending_dedents := pending_dedents ?b - 1\<rparr> in Emit (make_token c TOKEN_DEDENT) c
       else Onward ?b)"
      using less_imp_not_less [OF shallower(3)] shallower(3)
      unfolding line_indent_unfold close_levels_def Let_def if_not_P [OF shallower(1)] if_not_P [OF shallower(2)]
      by (simp only: if_False if_True) simp
    have "0 < ?n" using shallower(3) s ok by (intro levels_above_pos) (simp_all add: levels_ok_def)
    then have p: "0 < pending_dedents ?b" by (simp add: close_levels_def)
    show ?thesis
      using round_owed [of src ?b lx] b p unfolding e
      by (auto simp: Let_def round_ok_def levels_after_def)
  next
    case same
    then have e: "line_indent src lx = Onward ?a"
      by (simp add: line_indent_unfold Let_def)
    show ?thesis using ok c by (simp add: e round_ok_def levels_ok_def open_levels_def indent_top_def effort_def)
  qed
qed

lemma peek_char_lstart [simp]: "peek_char src (lx\<lparr>lstart := s\<rparr>) = peek_char src lx"
  by (simp add: peek_char_def)

lemma blanks_le: "blanks cs \<le> length cs"
  by (induction cs) (auto simp: rest_of_line_def length_takeWhile_le intro: le_trans)

lemma scan_end_ok:
  assumes "levels_ok src lx" "pending_dedents lx = 0"
  shows "round_ok src lx (case scan_end lx of (tok, lx') \<Rightarrow> Emit tok lx')"
  using assms
  by (auto simp: scan_end_def Let_def round_ok_def levels_after_def levels_ok_def open_levels_def
      indent_top_def effort_def)

lemma plain_round_ok:
  assumes "plain_token src (forward 1 lx) r" "levels_ok src lx" "peek_char src lx \<noteq> 0"
  shows "round_ok src lx (case r of (tok, lx') \<Rightarrow> Emit tok lx')"
proof -
  have "current lx < length src" using assms(3) by (rule peek_char_lt)
  with assms show ?thesis
    by (cases r) (auto simp: plain_token_def round_ok_def levels_after_def levels_ok_def
        open_levels_def indent_top_def effort_def split: token_type.splits)
qed

lemma after_blanks_ok:
  assumes "levels_ok src lx" "pending_dedents lx = 0" "\<not> at_start_of_line lx"
  shows "round_ok src lx (after_blanks src lx)"
proof -
  let ?a = "forward (blanks (drop (current lx) src)) lx"
  let ?b = "?a\<lparr>lstart := current ?a\<rparr>"
  have c: "current ?a \<le> length src"
    using assms(1) blanks_le [of "drop (current lx) src"] unfolding levels_ok_def by simp linarith
  have b: "levels_ok src ?b" "open_levels ?b = open_levels lx" "effort src ?b \<le> effort src lx"
    using assms c by (simp_all add: levels_ok_def open_levels_def indent_top_def effort_def)
  consider (newline) "peek_char src ?a = 10" | (stop) "peek_char src ?a = 0"
    | (visible) "peek_char src ?a \<noteq> 10" "peek_char src ?a \<noteq> 0" by blast
  then show ?thesis
  proof cases
    case newline
    then have "current ?a < length src" using peek_char_lt [of src ?a] by simp
    with newline assms show ?thesis
      by (simp add: after_blanks_def Let_def round_ok_def levels_ok_def open_levels_def indent_top_def effort_def)
  next
    case stop
    then have e: "after_blanks src lx = (case scan_end ?b of (tok, lx') \<Rightarrow> Emit tok lx')"
      by (simp add: after_blanks_def Let_def)
    have "round_ok src ?b (after_blanks src lx)"
      unfolding e by (rule scan_end_ok) (use b assms in simp_all)
    with e b show ?thesis by (cases "scan_end ?b") (auto simp: round_ok_def)
  next
    case visible
    then have e: "after_blanks src lx = (case scan_visible src ?b of (tok, lx') \<Rightarrow> Emit tok lx')"
      by (simp add: after_blanks_def Let_def)
    have p: "peek_char src ?b \<noteq> 0" using visible(2) by (simp add: peek_char_def)
    have "round_ok src ?b (after_blanks src lx)"
      unfolding e by (rule plain_round_ok [OF scan_visible_plain b(1) p]) (use p in simp_all)
    with e b show ?thesis by (cases "scan_visible src ?b") (auto simp: round_ok_def)
  qed
qed

lemma line_start_ok:
  assumes "levels_ok src lx" "pending_dedents lx = 0"
  shows "round_ok src lx (line_start src lx)"
  using line_indent_ok [OF assms(1) _ assms(2)] assms
  by (auto simp: line_start_def round_ok_def levels_ok_def open_levels_def indent_top_def effort_def)

lemma scan_once_ok:
  assumes "levels_ok src lx"
  shows "round_ok src lx (scan_once src lx) \<and> (\<forall>lx'. scan_once src lx \<noteq> Onward lx')"
proof (cases "0 < pending_dedents lx")
  case True
  then show ?thesis using round_owed [OF assms True] by (simp add: scan_once_def Let_def)
next
  case False
  then have l: "round_ok src lx (line_start src lx)" using line_start_ok [OF assms] by simp
  show ?thesis
  proof (cases "line_start src lx")
    case (Onward a)
    then have e: "scan_once src lx = after_blanks src a" using False by (simp add: scan_once_def)
    have "round_ok src a (after_blanks src a)"
      using l Onward by (intro after_blanks_ok) (simp_all add: round_ok_def)
    moreover have "\<forall>b. after_blanks src a \<noteq> Onward b"
      by (auto simp: after_blanks_def Let_def split: prod.splits)
    moreover have "length (indent_stack a) \<le> length (indent_stack lx)"
      using l Onward False assms
      by (cases "indent_stack a"; cases "indent_stack lx")
        (simp_all add: round_ok_def open_levels_def indent_top_def levels_ok_def)
    ultimately show ?thesis using l Onward
      by (auto simp: e round_ok_def levels_after_def split: line_step.splits)
  qed (use False l in \<open>auto simp: scan_once_def\<close>)
qed

lemma scan_token_ok:
  assumes "levels_ok src lx" "scan_token src lx = Some (tok, lx')"
  shows "round_ok src lx (Emit tok lx')"
  using assms
proof (induction src lx rule: scan_token.induct)
  case (1 src lx)
  note s = scan_once_ok [OF 1(2)]
  show ?case
  proof (cases "scan_once src lx")
    case (Restart a)
    then have a: "levels_ok src a" "open_levels a = open_levels lx" "effort src a \<le> effort src lx"
      using s by (simp_all add: round_ok_def)
    have "round_ok src a (Emit tok lx')"
      using 1(1) [OF Restart a(1)] 1(3) Restart by (simp add: scan_token.simps [of src lx])
    with a show ?thesis by (auto simp: round_ok_def)
  qed (use s 1(3) in \<open>auto simp: scan_token.simps [of src lx]\<close>)
qed

section \<open>Every source is scanned to its end\<close>

lemma sorted_levels:
  fixes xs :: "nat list"
  shows "sorted_wrt (>) xs \<Longrightarrow> xs \<noteq> [] \<Longrightarrow> length xs \<le> hd xs + 1"
proof (induction xs)
  case (Cons x xs)
  then show ?case by (cases xs) auto
qed simp

lemma line_start_overflow:
  assumes "line_start src lx = Overflow"
  shows "256 \<le> length (indent_stack lx) \<and> hd (indent_stack lx) < indent_width (drop (current lx) src)"
  using assms by (auto simp: line_start_def line_indent_unfold Let_def split: if_splits)

lemma scan_once_overflow:
  assumes "levels_ok src lx" "\<forall>i. indent_width (drop i src) \<le> 255"
  shows "scan_once src lx \<noteq> Overflow"
proof
  assume "scan_once src lx = Overflow"
  then have "line_start src lx = Overflow"
    by (auto simp: scan_once_def after_blanks_def Let_def split: if_splits line_step.splits prod.splits)
  from line_start_overflow [OF this] have "256 \<le> length (indent_stack lx)"
    "hd (indent_stack lx) < indent_width (drop (current lx) src)" by blast+
  moreover have "length (indent_stack lx) \<le> hd (indent_stack lx) + 1"
    using assms(1) by (intro sorted_levels) (simp_all add: levels_ok_def)
  moreover have "indent_width (drop (current lx) src) \<le> 255" using assms(2) by blast
  ultimately show False by linarith
qed

lemma scan_token_total:
  assumes "levels_ok src lx" "\<forall>i. indent_width (drop i src) \<le> 255"
  shows "\<exists>tok lx'. scan_token src lx = Some (tok, lx')"
  using assms
proof (induction src lx rule: scan_token.induct)
  case (1 src lx)
  note s = scan_once_ok [OF 1(2)] scan_once_overflow [OF 1(2,3)]
  show ?case
  proof (cases "scan_once src lx")
    case (Restart a)
    then have "levels_ok src a" using s by (simp add: round_ok_def)
    with 1(1) [OF Restart _ 1(3)] Restart show ?thesis by (simp add: scan_token.simps [of src lx])
  qed (use s in \<open>auto simp: scan_token.simps [of src lx]\<close>)
qed

definition count_type :: "token_type \<Rightarrow> token list \<Rightarrow> nat" where
  "count_type ty toks = length (filter (\<lambda>t. ttype t = ty) toks)"

lemma tokens_balanced:
  assumes "levels_ok src lx" "\<forall>i. indent_width (drop i src) \<le> 255" "effort src lx < n"
  shows "\<exists>toks. tokens n src lx = Some toks \<and> toks \<noteq> [] \<and> ttype (last toks) = TOKEN_EOF \<and>
     count_type TOKEN_DEDENT toks = count_type TOKEN_INDENT toks + open_levels lx"
  using assms
proof (induction n arbitrary: lx)
  case (Suc n)
  obtain tok lx' where t: "scan_token src lx = Some (tok, lx')"
    using scan_token_total [OF Suc(2,3)] by blast
  from scan_token_ok [OF Suc(2) t]
  have r: "levels_ok src lx'" "levels_after tok (open_levels lx) (open_levels lx')"
    "ttype tok \<noteq> TOKEN_EOF \<Longrightarrow> effort src lx' < effort src lx"
    by (simp_all add: round_ok_def)
  show ?case
  proof (cases "ttype tok = TOKEN_EOF")
    case True
    with t r(2) show ?thesis by (simp add: count_type_def levels_after_def)
  next
    case False
    with r(3) Suc(4) have "effort src lx' < n" by simp
    from Suc(1) [OF r(1) Suc(3) this] obtain toks where toks: "tokens n src lx' = Some toks" "toks \<noteq> []"
      "ttype (last toks) = TOKEN_EOF"
      "count_type TOKEN_DEDENT toks = count_type TOKEN_INDENT toks + open_levels lx'" by blast
    moreover have "count_type TOKEN_DEDENT (tok # toks) = count_type TOKEN_INDENT (tok # toks) + open_levels lx"
      using r(2) False toks(4)
      by (cases "ttype tok") (simp_all add: count_type_def levels_after_def)
    ultimately show ?thesis using t False by simp
  qed
qed simp

text \<open>
  C7. A source whose lines are indented by at most 255 columns is always scanned to its end,
  whatever bytes it holds: at most \<open>2 * length src + 2\<close> tokens come out, the last one is the end
  token, and there are as many \<open>TOKEN_DEDENT\<close> as \<open>TOKEN_INDENT\<close> tokens.
\<close>

theorem scanner_total_and_balanced:
  assumes "\<forall>i. indent_width (drop i src) \<le> 255"
  shows "\<exists>toks. tokens (2 * length src + 2) src init_lexer = Some toks \<and>
     toks \<noteq> [] \<and> ttype (last toks) = TOKEN_EOF \<and>
     count_type TOKEN_INDENT toks = count_type TOKEN_DEDENT toks"
proof -
  have "levels_ok src init_lexer" "effort src init_lexer < 2 * length src + 2"
    "open_levels init_lexer = 0"
    by (simp_all add: levels_ok_def init_lexer_def effort_def open_levels_def indent_top_def)
  with tokens_balanced [OF _ assms] show ?thesis by fastforce
qed

definition sample_source :: bytes where
  "sample_source = bytes_of ''if x:'' @ [10, 32, 32] @ bytes_of ''y'' @ [10] @ bytes_of ''z''"

lemma indent_width_le: "indent_width cs \<le> 4 * length cs"
proof -
  have "sum_list (map (\<lambda>b. if b = 32 then 1 else 4) ds) \<le> 4 * length ds" for ds :: bytes
    by (induction ds) auto
  then show ?thesis
    unfolding indent_width_def indent_chars_def
    by (meson le_trans length_takeWhile_le mult_le_mono2)
qed

theorem scanner_total_and_balanced_witness:
  "\<exists>toks. tokens 24 sample_source init_lexer = Some toks \<and>
     toks \<noteq> [] \<and> ttype (last toks) = TOKEN_EOF \<and>
     count_type TOKEN_INDENT toks = count_type TOKEN_DEDENT toks"
proof -
  have l: "length sample_source = 11" by (simp add: sample_source_def bytes_of_def)
  have "indent_width (drop i sample_source) \<le> 255" for i
    using indent_width_le [of "drop i sample_source"] l by simp
  from scanner_total_and_balanced [OF allI [OF this]] l show ?thesis by simp
qed

section \<open>Where the tokens are\<close>

lemma after_blanks_lexeme:
  assumes "after_blanks src lx = Emit tok lx'" "current lx \<le> length src"
    and "ttext tok = Lexeme s n" "ttype tok \<noteq> TOKEN_DEDENT"
  shows "current lx \<le> s \<and> s + n = current lx' \<and> current lx' \<le> length src \<and> (ttype tok = TOKEN_EOF \<or> 0 < n)"
proof -
  let ?a = "forward (blanks (drop (current lx) src)) lx"
  let ?b = "?a\<lparr>lstart := current ?a\<rparr>"
  have c: "current ?a \<le> length src" using assms(2) blanks_le [of "drop (current lx) src"] by simp
  have e: "(tok, lx') = (if peek_char src ?a = 0 then scan_end ?b else scan_visible src ?b)"
    using assms(1) by (auto simp: after_blanks_def Let_def split: if_splits prod.splits)
  show ?thesis
  proof (cases "peek_char src ?a = 0")
    case True
    with e assms c show ?thesis by (auto simp: scan_end_def Let_def split: if_splits)
  next
    case False
    then have "plain_token src (forward 1 ?b) (tok, lx')"
      using e scan_visible_plain [of src ?b] by simp
    with assms(3) show ?thesis by (auto simp: plain_token_def)
  qed
qed

lemma scan_once_lexeme:
  assumes "scan_once src lx = Emit tok lx'" "levels_ok src lx"
    and "ttext tok = Lexeme s n" "ttype tok \<noteq> TOKEN_DEDENT" "ttype tok \<noteq> TOKEN_INDENT"
  shows "current lx \<le> s \<and> s + n = current lx' \<and> current lx' \<le> length src \<and> (ttype tok = TOKEN_EOF \<or> 0 < n)"
proof -
  have p: "pending_dedents lx = 0" using assms by (auto simp: scan_once_def Let_def split: if_splits)
  moreover have "line_start src lx \<noteq> Emit tok lx'"
    using assms(3-) by (auto simp: line_start_def line_indent_unfold Let_def split: if_splits)
  ultimately obtain a where a: "line_start src lx = Onward a" "after_blanks src a = Emit tok lx'"
    using assms(1) by (auto simp: scan_once_def split: line_step.splits)
  have "levels_ok src a" using line_start_ok [OF assms(2) p] a(1) by (simp add: round_ok_def)
  then have "current a \<le> length src" by (simp add: levels_ok_def)
  from after_blanks_lexeme [OF a(2) this assms(3,4)] line_start_onward [OF a(1)]
  show ?thesis by linarith
qed


lemma scan_token_current:
  assumes "levels_ok src lx" "scan_token src lx = Some (tok, lx')"
  shows "levels_ok src lx'"
  using scan_token_ok [OF assms] by (simp add: round_ok_def)

section \<open>Names\<close>

lemma src_at_append [simp]: "src_at (c # cs) 0 = c"
  by (simp add: src_at_def)

text \<open>
  C31. A name is read whole: a letter or underscore and the letters, digits and underscores after
  it are one token, which is a keyword exactly when the table of keywords has it, and an
  identifier otherwise. The only exception is \<open>f\<close> in front of a quote or a bracket.
\<close>

theorem scan_name:
  assumes "is_alpha c \<or> c = 95" "list_all is_name_char cs"
    and "rest = [] \<or> \<not> is_name_char (hd rest)"
    and "c = 102 \<and> cs = [] \<longrightarrow> rest = [] \<or> hd rest \<notin> {34, 39, 91}"
  shows "map_option fst (scan_token (c # cs @ rest) init_lexer) =
     Some \<lparr>ttype = find_keyword keyword_table (c # cs), ttext = Lexeme 0 (length cs + 1), tline = 1\<rparr>"
proof -
  let ?src = "c # cs @ rest"
  let ?lx = "init_lexer\<lparr>at_start_of_line := False\<rparr>"
  have c: "c \<noteq> 32" "c \<noteq> 9" "c \<noteq> 10" "c \<noteq> 13" "c \<noteq> 45" "c \<noteq> 0"
    using assms(1) by (auto simp: is_alpha_def)
  have tw: "takeWhile is_name_char (cs @ rest) = cs"
    using assms(2,3) by (cases rest) (auto simp: list_all_iff takeWhile_append2)
  have ls: "line_start ?src init_lexer = Onward ?lx"
    using c by (simp add: line_start_def line_indent_def init_lexer_def indent_chars_def
        peek_char_def forward_def indent_width_def Let_def)
  have d: "\<not> (c = 102 \<and> peek_char ?src (forward 1 ?lx) \<in> {34, 39, 91})"
  proof (cases cs)
    case Nil
    with assms(4) show ?thesis
      by (cases rest) (auto simp: peek_char_def src_at_def init_lexer_def)
  next
    case (Cons d ds)
    with assms(2) show ?thesis
      by (auto simp: peek_char_def src_at_def init_lexer_def is_name_char_def is_alpha_def is_digit_def)
  qed
  have v: "scan_visible ?src ?lx = scan_identifier ?src (forward 1 ?lx)"
    using d assms(1) by (auto simp: scan_visible_def Let_def init_lexer_def peek_char_def)
  have "after_blanks ?src ?lx = (case scan_identifier ?src (forward 1 ?lx) of (tok, lx) \<Rightarrow> Emit tok lx)"
    using c v by (simp add: after_blanks_def Let_def init_lexer_def peek_char_def forward_def)
  then have "scan_token ?src init_lexer = Some (scan_identifier ?src (forward 1 ?lx))"
    using ls by (simp add: scan_token.simps [of ?src init_lexer] scan_once_def split: prod.splits)
      (simp add: init_lexer_def)
  moreover have "fst (scan_identifier ?src (forward 1 ?lx)) =
      \<lparr>ttype = find_keyword keyword_table (c # cs), ttext = Lexeme 0 (length cs + 1), tline = 1\<rparr>"
    by (simp add: scan_identifier_def Let_def init_lexer_def forward_def make_token_def
        identifier_type_def tw)
  ultimately show ?thesis by simp
qed

theorem scan_name_witness:
  "map_option fst (scan_token [102, 110, 32, 120] init_lexer) =
     Some \<lparr>ttype = TOKEN_KEYWORD ''FN'', ttext = Lexeme 0 2, tline = 1\<rparr>"
proof -
  have k: "find_keyword keyword_table [102, 110] = TOKEN_KEYWORD ''FN''" by code_simp
  have c: "is_alpha 102 \<or> (102::byte) = 95" "list_all is_name_char [110]" "\<not> is_name_char (hd [32, 120])"
    by code_simp+
  show ?thesis using scan_name [OF c(1,2), of "[32, 120]"] c(3) k by (simp add: numeral_2_eq_2)
qed




end
