(* ===== verification/Compile_State.thy ===== *)
theory Compile_State
  imports Lexer Object
begin

text \<open>
  The state of the single-pass compiler and what writes to it (\<open>src/src/compiler.c\<close>,
  \<open>src/src/compiler/internal.h\<close>): the parser's two tokens, the chain of function compilers, code
  emission, scopes, variables and the stack of type hints. A command maps a state to the next one;
  \<open>None\<close> is undefined behaviour. The names of variables are the bytes the tokens point to; running
  out of memory is not modelled.
\<close>

section \<open>State\<close>

text \<open>A token with its text; \<open>kpos\<close> is its offset in the source, if it points there.\<close>

record ctoken =
  ktype :: token_type
  kpos :: "nat option"
  ktext :: bytes
  kline :: nat

abbreviation (input) TYPEHINT_ANY :: byte where "TYPEHINT_ANY \<equiv> 0"
abbreviation (input) TYPEHINT_INT :: byte where "TYPEHINT_INT \<equiv> 1"
abbreviation (input) TYPEHINT_FLOAT :: byte where "TYPEHINT_FLOAT \<equiv> 2"
abbreviation (input) TYPEHINT_BOOL :: byte where "TYPEHINT_BOOL \<equiv> 3"
abbreviation (input) TYPEHINT_STR :: byte where "TYPEHINT_STR \<equiv> 4"
abbreviation (input) TYPEHINT_TABLE :: byte where "TYPEHINT_TABLE \<equiv> 5"

abbreviation KW :: "string \<Rightarrow> token_type" where "KW \<equiv> TOKEN_KEYWORD"

record local_var =
  lname :: bytes
  ldepth :: int
  lcaptured :: bool
  ltype :: byte

record upval =
  uindex :: byte
  uis_local :: bool

record loop_ctx =
  lc_start :: nat
  lc_depth :: int
  break_jumps :: "nat list"
  continue_jumps :: "nat list"
  is_for_loop :: bool
  slots_to_pop :: "nat option"

text \<open>
  A \<open>Compiler\<close>. The function it builds is kept here and stored at its address when it is complete;
  the first of \<open>loop_contexts\<close> is the current one, the others are its \<open>enclosing\<close> ones.
\<close>

record compiler =
  clocals :: "local_var list"
  explicit_globals :: "bytes list"
  cupvalues :: "upval list"
  scope_depth :: int
  fn_addr :: addr
  cfun :: fn
  is_script :: bool
  loop_contexts :: "loop_ctx list"

text \<open>
  The globals of the compiler. The first of \<open>compilers\<close> is \<open>current\<close>, the others are its
  \<open>enclosing\<close> ones; \<open>reported\<close> are line and text of the printed errors.
\<close>

record cst =
  src :: bytes
  lex :: lexer
  pcur :: ctoken
  pprev :: ctoken
  had_error :: bool
  panic_mode :: bool
  reported :: "(nat \<times> bytes) list"
  compilers :: "compiler list"
  cheap :: heap
  is_repl :: bool
  ends_with_call :: bool
  was_range :: bool
  in_for_header :: bool
  in_table_entry :: bool
  type_stack :: "nat \<Rightarrow> byte"
  type_top :: int

type_synonym cmd = "cst \<Rightarrow> cst option"
type_synonym 'a cval = "cst \<Rightarrow> ('a \<times> cst) option"

text \<open>Commands one after the other, and a loop that goes on as long as its body says so.\<close>

primrec seq :: "cmd list \<Rightarrow> cmd" where
  "seq [] st = Some st"
| "seq (c # cs) st = do { st \<leftarrow> c st; seq cs st }"

definition only_if :: "bool \<Rightarrow> cmd \<Rightarrow> cmd" where
  "only_if b c st = (if b then c st else Some st)"

partial_function (option) repeat_while :: "('s \<Rightarrow> (bool \<times> 's) option) \<Rightarrow> 's \<Rightarrow> 's option" where
  "repeat_while f s = do { (b, s) \<leftarrow> f s; (if b then repeat_while f s else Some s) }"

declare repeat_while.simps [code]

definition while_cmd :: "(cst \<Rightarrow> bool) \<Rightarrow> cmd \<Rightarrow> cmd" where
  "while_cmd b c = repeat_while (\<lambda>st. if b st then do { st \<leftarrow> c st; Some (True, st) } else Some (False, st))"

section \<open>Errors\<close>

definition error_at :: "ctoken \<Rightarrow> bytes \<Rightarrow> cmd" where
  "error_at t msg st =
     Some (if panic_mode st then st
           else st\<lparr>panic_mode := True, had_error := True, reported := reported st @ [(kline t, msg)]\<rparr>)"

definition error :: "string \<Rightarrow> cmd" where
  "error msg st = error_at (pprev st) (bytes_of msg) st"

definition error_at_current :: "string \<Rightarrow> cmd" where
  "error_at_current msg st = error_at (pcur st) (bytes_of msg) st"

section \<open>Tokens\<close>

definition ctoken_of :: "bytes \<Rightarrow> token \<Rightarrow> ctoken" where
  "ctoken_of s t =
     (case ttext t of
        Lexeme i n \<Rightarrow> \<lparr>ktype = ttype t, kpos = Some i, ktext = take n (drop i s), kline = tline t\<rparr>
      | Message m \<Rightarrow> \<lparr>ktype = ttype t, kpos = None, ktext = m, kline = tline t\<rparr>)"

text \<open>An identifier that is not in the source.\<close>

definition synthetic_token :: "string \<Rightarrow> cst \<Rightarrow> ctoken" where
  "synthetic_token name st =
     \<lparr>ktype = TOKEN_IDENTIFIER, kpos = None, ktext = bytes_of name, kline = kline (pprev st)\<rparr>"

text \<open>\<open>scan_token(&peek)\<close>, on a copy of the scanner.\<close>

definition peek_token :: "cst \<Rightarrow> lexer \<Rightarrow> (ctoken \<times> lexer) option" where
  "peek_token st lx = do { (t, lx) \<leftarrow> scan_token (src st) lx; Some (ctoken_of (src st) t, lx) }"

definition advance :: cmd where
  "advance st =
     repeat_while (\<lambda>st. do {
         (t, lx) \<leftarrow> peek_token st (lex st);
         let st = st\<lparr>pcur := t, lex := lx\<rparr>;
         (if ktype t \<noteq> TOKEN_ERROR then Some (False, st)
          else do { st \<leftarrow> error_at (pcur st) (ktext (pcur st)) st; Some (True, st) })
       }) (st\<lparr>pprev := pcur st\<rparr>)"

definition check_token :: "token_type \<Rightarrow> cst \<Rightarrow> bool" where
  "check_token ty st \<longleftrightarrow> ktype (pcur st) = ty"

definition consume :: "token_type \<Rightarrow> string \<Rightarrow> cmd" where
  "consume ty msg st = (if check_token ty st then advance st else error_at_current msg st)"

definition match_token :: "token_type \<Rightarrow> bool cval" where
  "match_token ty st = (if check_token ty st then do { st \<leftarrow> advance st; Some (True, st) } else Some (False, st))"

text \<open>\<open>match(a) || match(b)\<close>\<close>

definition match_either :: "token_type \<Rightarrow> token_type \<Rightarrow> bool cval" where
  "match_either a b st = do { (m, st) \<leftarrow> match_token a st; (if m then Some (True, st) else match_token b st) }"

section \<open>The current compiler\<close>

definition comp :: "cst \<Rightarrow> compiler option" where
  "comp st = at (compilers st) 0"

definition upd_comp :: "(compiler \<Rightarrow> compiler) \<Rightarrow> cmd" where
  "upd_comp f st = (case compilers st of [] \<Rightarrow> None | c # cs \<Rightarrow> Some (st\<lparr>compilers := f c # cs\<rparr>))"

definition upd_function :: "(fn \<Rightarrow> fn) \<Rightarrow> cmd" where
  "upd_function f = upd_comp (\<lambda>c. c\<lparr>cfun := f (cfun c)\<rparr>)"

definition upd_code :: "(bytes \<Rightarrow> bytes) \<Rightarrow> cmd" where
  "upd_code f = upd_function (\<lambda>fn. fn\<lparr>fchunk := (fchunk fn)\<lparr>code := f (code (fchunk fn))\<rparr>\<rparr>)"

text \<open>\<open>current_chunk()->count\<close>\<close>

definition here :: "cst \<Rightarrow> nat option" where
  "here st = do { c \<leftarrow> comp st; Some (length (code (fchunk (cfun c)))) }"

definition local_count :: "cst \<Rightarrow> nat option" where
  "local_count st = do { c \<leftarrow> comp st; Some (length (clocals c)) }"

definition copy_name :: "bytes \<Rightarrow> addr cval" where
  "copy_name s st = (let (a, h) = copy_string (cheap st) s in Some (a, st\<lparr>cheap := h\<rparr>))"

section \<open>Emitting code\<close>

definition emit_byte :: "byte \<Rightarrow> cmd" where
  "emit_byte b st = upd_function (\<lambda>fn. fn\<lparr>fchunk := write_chunk (fchunk fn) b (int (kline (pprev st)))\<rparr>) st"

definition emit_bytes :: "byte \<Rightarrow> byte \<Rightarrow> cmd" where
  "emit_bytes a b = seq [emit_byte a, emit_byte b]"

definition emit_call :: "byte \<Rightarrow> cmd" where
  "emit_call n =
     (if n = 0 then emit_byte OP_CALL0 else if n = 1 then emit_byte OP_CALL1
      else if n = 2 then emit_byte OP_CALL2 else emit_bytes OP_CALL n)"

definition emit_jump :: "byte \<Rightarrow> nat cval" where
  "emit_jump op st =
     do { st \<leftarrow> seq [emit_byte op, emit_byte 0xFF, emit_byte 0xFF] st; n \<leftarrow> here st; Some (n - 2, st) }"

text \<open>The offsets of the flags, of the \<open>except\<close> part and of the \<open>finally\<close> part.\<close>

definition emit_try :: "byte \<Rightarrow> (nat \<times> nat \<times> nat) cval" where
  "emit_try d st =
     do {
       st \<leftarrow> seq [emit_byte OP_TRY, emit_byte d] st;
       flags \<leftarrow> here st;
       st \<leftarrow> emit_byte 0 st;
       ex \<leftarrow> here st;
       st \<leftarrow> emit_bytes 0 0 st;
       fin \<leftarrow> here st;
       st \<leftarrow> emit_bytes 0 0 st;
       Some ((flags, ex, fin), st)
     }"

text \<open>Two bytes of the code, high byte first; the high bits of a negative or a large number are lost.\<close>

definition put_code :: "nat \<Rightarrow> byte \<Rightarrow> cmd" where
  "put_code i b st = do { n \<leftarrow> here st; (if i < n then upd_code (\<lambda>bs. bs[i := b]) st else None) }"

definition put_short :: "nat \<Rightarrow> int \<Rightarrow> cmd" where
  "put_short i jump = seq [put_code i (word_of_int (jump div 256)), put_code (i + 1) (word_of_int jump)]"

definition patch_from :: "nat \<Rightarrow> nat \<Rightarrow> cmd" where
  "patch_from skip offset st =
     do {
       n \<leftarrow> here st;
       let jump = int n - int offset - int skip;
       st \<leftarrow> only_if (65535 < jump) (error ''Too much code to jump over.'') st;
       put_short offset jump st
     }"

definition patch_jump :: "nat \<Rightarrow> cmd" where
  "patch_jump = patch_from 2"

definition patch_try :: "nat \<Rightarrow> cmd" where
  "patch_try = patch_from 4"

definition patch_try_finally :: "nat \<Rightarrow> cmd" where
  "patch_try_finally = patch_from 2"

definition emit_loop :: "nat \<Rightarrow> cmd" where
  "emit_loop loop_start st =
     do {
       st \<leftarrow> emit_byte OP_LOOP st;
       n \<leftarrow> here st;
       let off = int n - int loop_start + 2;
       st \<leftarrow> only_if (65535 < off) (error ''Loop body too large.'') st;
       seq [emit_byte (word_of_int (off div 256)), emit_byte (word_of_int off)] st
     }"

definition emit_return :: cmd where
  "emit_return = emit_byte OP_RETURN"

definition make_constant :: "val \<Rightarrow> byte cval" where
  "make_constant v st =
     do {
       c \<leftarrow> comp st;
       let (ch, i) = add_constant (fchunk (cfun c)) v;
       st \<leftarrow> upd_function (\<lambda>fn. fn\<lparr>fchunk := ch\<rparr>) st;
       (if 255 < i then do { st \<leftarrow> error ''Too many constants in one chunk.'' st; Some (0, st) }
        else Some (of_nat i, st))
     }"

definition emit_constant :: "val \<Rightarrow> cmd" where
  "emit_constant v st = do { (k, st) \<leftarrow> make_constant v st; emit_bytes OP_CONSTANT k st }"

definition emit_string :: "bytes \<Rightarrow> cmd" where
  "emit_string s st = do { (a, st) \<leftarrow> copy_name s st; emit_constant (VObj a) st }"

definition identifier_constant :: "ctoken \<Rightarrow> byte cval" where
  "identifier_constant name st = do { (a, st) \<leftarrow> copy_name (ktext name) st; make_constant (VObj a) st }"

definition emit_named :: "byte \<Rightarrow> ctoken \<Rightarrow> cmd" where
  "emit_named op name st = do { (k, st) \<leftarrow> identifier_constant name st; emit_bytes op k st }"

section \<open>Types\<close>

definition type_push :: "byte \<Rightarrow> cmd" where
  "type_push ty st =
     (if type_top st < 512 then
        if type_top st < 0 then None
        else Some (st\<lparr>type_stack := (type_stack st)(nat (type_top st) := ty), type_top := type_top st + 1\<rparr>)
      else Some st)"

definition type_pop :: "byte cval" where
  "type_pop st =
     (if type_top st = 0 then Some (TYPEHINT_ANY, st)
      else if type_top st < 0 then None
      else Some (type_stack st (nat (type_top st - 1)), st\<lparr>type_top := type_top st - 1\<rparr>))"

definition type_drop :: cmd where
  "type_drop st = do { (_, st) \<leftarrow> type_pop st; Some st }"

definition set_type_top :: "int \<Rightarrow> cmd" where
  "set_type_top n st = Some (st\<lparr>type_top := n\<rparr>)"

definition set_ends_with_call :: "bool \<Rightarrow> cmd" where
  "set_ends_with_call b st = Some (st\<lparr>ends_with_call := b\<rparr>)"

definition is_numeric_type :: "byte \<Rightarrow> bool" where
  "is_numeric_type ty \<longleftrightarrow> ty = TYPEHINT_INT \<or> ty = TYPEHINT_FLOAT"

definition parse_type_name :: "bytes \<Rightarrow> byte" where
  "parse_type_name s =
     (if s = bytes_of ''int'' then TYPEHINT_INT
      else if s = bytes_of ''float'' then TYPEHINT_FLOAT
      else if s = bytes_of ''bool'' then TYPEHINT_BOOL
      else if s = bytes_of ''str'' \<or> s = bytes_of ''string'' then TYPEHINT_STR
      else if s = bytes_of ''table'' then TYPEHINT_TABLE
      else TYPEHINT_ANY)"

definition upd_local :: "nat \<Rightarrow> (local_var \<Rightarrow> local_var) \<Rightarrow> compiler \<Rightarrow> compiler" where
  "upd_local i f c = (if i < length (clocals c) then c\<lparr>clocals := (clocals c)[i := f (clocals c ! i)]\<rparr> else c)"

definition set_local_type :: "nat \<Rightarrow> byte \<Rightarrow> cmd" where
  "set_local_type i ty = upd_comp (upd_local i (\<lambda>l. l\<lparr>ltype := ty\<rparr>))"

definition merge_type :: "byte \<Rightarrow> byte \<Rightarrow> byte" where
  "merge_type old rhs =
     (if rhs = TYPEHINT_ANY then TYPEHINT_ANY else if old = TYPEHINT_ANY then rhs
      else if old \<noteq> rhs then TYPEHINT_ANY else old)"

definition update_local_type :: "nat \<Rightarrow> byte \<Rightarrow> cmd" where
  "update_local_type i rhs = upd_comp (upd_local i (\<lambda>l. l\<lparr>ltype := merge_type (ltype l) rhs\<rparr>))"

text \<open>\<open>index\<close> is \<open>arity - 1\<close>.\<close>

definition set_param_type :: "nat \<Rightarrow> byte \<Rightarrow> fn \<Rightarrow> fn" where
  "set_param_type index ty f =
     (let ts = param_types f;
          ts = (if int (length ts) < arity f then ts @ replicate (nat (arity f) - length ts) TYPEHINT_ANY else ts)
      in f\<lparr>param_types := (if index < length ts then ts[index := ty] else ts)\<rparr>)"

definition set_param_name :: "nat \<Rightarrow> addr \<Rightarrow> fn \<Rightarrow> fn" where
  "set_param_name index name f =
     (let ns = param_names f;
          ns = (if int (length ns) < arity f then ns @ replicate (nat (arity f) - length ns) None else ns)
      in f\<lparr>param_names := (if index < length ns then ns[index := Some name] else ns)\<rparr>)"

end
