(* ===== verification/Compile_Scope.thy ===== *)
theory Compile_Scope
  imports Compile_State
begin

text \<open>
  Function compilers, scopes and variables (\<open>src/src/compiler.c\<close>): starting and finishing the
  compilation of a function, locals and their scopes, and what a name refers to.
\<close>

section \<open>Function compilers\<close>

text \<open>\<open>init_compiler\<close>; the first local claims stack slot 0.\<close>

definition init_compiler :: "bool \<Rightarrow> cmd" where
  "init_compiler script st =
     (let (a, h) = new_function (cheap st) in
      case obj_at h a of
        Some (OFunction f) \<Rightarrow>
          let (name, h) = (if script then (None, h)
                           else let (s, h) = copy_string h (ktext (pprev st)) in (Some s, h));
              c = \<lparr>clocals = [\<lparr>lname = [], ldepth = 0, lcaptured = False, ltype = TYPEHINT_ANY\<rparr>],
                   explicit_globals = [], cupvalues = [],
                   scope_depth = (if script \<and> \<not> is_repl st then 1 else 0),
                   fn_addr = a, cfun = f\<lparr>fname := name\<rparr>, is_script = script, loop_contexts = []\<rparr>
          in Some (st\<lparr>cheap := h, compilers := c # compilers st\<rparr>)
      | _ \<Rightarrow> None)"

text \<open>\<open>end_compiler\<close>, followed by \<open>current = enclosing\<close>: the function is stored at its address.\<close>

definition end_compiler :: "compiler cval" where
  "end_compiler st =
     do {
       st \<leftarrow> emit_return st;
       c \<leftarrow> comp st;
       let f = (cfun c)\<lparr>upvalue_count := length (cupvalues c)\<rparr>;
       Some (c\<lparr>cfun := f\<rparr>,
             st\<lparr>cheap := put_obj (cheap st) (fn_addr c) (OFunction f), compilers := tl (compilers st)\<rparr>)
     }"

text \<open>The closure of a function that was just compiled.\<close>

definition emit_closure :: "compiler \<Rightarrow> cmd" where
  "emit_closure c st =
     do {
       (k, st) \<leftarrow> make_constant (VObj (fn_addr c)) st;
       st \<leftarrow> emit_bytes OP_CLOSURE k st;
       seq (map (\<lambda>u. emit_bytes (if uis_local u then 1 else 0) (uindex u)) (cupvalues c)) st
     }"

section \<open>Scopes\<close>

definition begin_scope :: cmd where
  "begin_scope = upd_comp (\<lambda>c. c\<lparr>scope_depth := scope_depth c + 1\<rparr>)"

definition exit_op :: "local_var \<Rightarrow> byte" where
  "exit_op l = (if lcaptured l then OP_CLOSE_UPVALUE else OP_POP)"

text \<open>The locals deeper than \<open>d\<close>, the last one first.\<close>

definition deeper :: "int \<Rightarrow> compiler \<Rightarrow> local_var list" where
  "deeper d c = takeWhile (\<lambda>l. d < ldepth l) (rev (clocals c))"

definition drop_locals :: "nat \<Rightarrow> cmd" where
  "drop_locals n = upd_comp (\<lambda>c. c\<lparr>clocals := take (length (clocals c) - n) (clocals c)\<rparr>)"

definition end_scope :: cmd where
  "end_scope st =
     do {
       st \<leftarrow> upd_comp (\<lambda>c. c\<lparr>scope_depth := scope_depth c - 1\<rparr>) st;
       c \<leftarrow> comp st;
       let gone = deeper (scope_depth c) c;
       st \<leftarrow> seq (map (\<lambda>l. emit_byte (exit_op l)) gone) st;
       drop_locals (length gone) st
     }"

text \<open>The end of an iteration: \<open>n\<close> locals go, whatever their depth.\<close>

definition pop_locals :: "nat \<Rightarrow> cmd" where
  "pop_locals n st =
     do {
       c \<leftarrow> comp st;
       st \<leftarrow> only_if (length (clocals c) < n) (\<lambda>_. None) st;
       st \<leftarrow> seq (map (\<lambda>l. emit_byte (exit_op l)) (take n (rev (clocals c)))) st;
       drop_locals n st
     }"

section \<open>Locals\<close>

definition add_local :: "ctoken \<Rightarrow> cmd" where
  "add_local name st =
     do {
       n \<leftarrow> local_count st;
       (if n = 256 then error ''Too many local variables in function.'' st
        else upd_comp (\<lambda>c. c\<lparr>clocals := clocals c @
               [\<lparr>lname = ktext name, ldepth = -1, lcaptured = False, ltype = TYPEHINT_ANY\<rparr>]\<rparr>) st)
     }"

definition mark_initialized_count :: "nat \<Rightarrow> cmd" where
  "mark_initialized_count n st =
     do {
       c \<leftarrow> comp st;
       (if scope_depth c = 0 then Some st
        else if length (clocals c) < n then None
        else let k = length (clocals c) - n in
             upd_comp (\<lambda>c. c\<lparr>clocals := take k (clocals c) @
               map (\<lambda>l. l\<lparr>ldepth := scope_depth c\<rparr>) (drop k (clocals c))\<rparr>) st)
     }"

definition mark_initialized :: cmd where
  "mark_initialized = mark_initialized_count 1"

text \<open>\<open>add_local\<close> of a variable that exists from here on.\<close>

definition new_local :: "ctoken \<Rightarrow> cmd" where
  "new_local name = seq [add_local name, mark_initialized]"

definition declare_variable :: cmd where
  "declare_variable st =
     do {
       c \<leftarrow> comp st;
       (if scope_depth c = 0 \<and> \<not> is_repl st then Some st
        else do {
          let inner = takeWhile (\<lambda>l. \<not> (ldepth l \<noteq> -1 \<and> ldepth l < scope_depth c)) (rev (clocals c));
          st \<leftarrow> only_if (\<exists>l \<in> set inner. lname l = ktext (pprev st))
                 (error ''Already a variable with this name in this scope.'') st;
          add_local (pprev st) st
        })
     }"

definition parse_variable :: "string \<Rightarrow> byte cval" where
  "parse_variable msg st =
     do {
       st \<leftarrow> seq [consume TOKEN_IDENTIFIER msg, declare_variable] st;
       c \<leftarrow> comp st;
       (if 0 < scope_depth c then Some (0, st) else identifier_constant (pprev st) st)
     }"

definition define_variable :: "byte \<Rightarrow> cmd" where
  "define_variable global st =
     do { c \<leftarrow> comp st; (if 0 < scope_depth c then Some st else emit_bytes OP_DEFINE_GLOBAL global st) }"

section \<open>What a name refers to\<close>

definition find_local :: "bytes \<Rightarrow> compiler \<Rightarrow> nat option" where
  "find_local name c = find (\<lambda>i. lname (clocals c ! i) = name) (rev [0..<length (clocals c)])"

definition local_ref :: "bytes \<Rightarrow> compiler \<Rightarrow> nat option \<times> string list" where
  "local_ref name c =
     (case find_local name c of
        None \<Rightarrow> (None, [])
      | Some i \<Rightarrow> (Some i, if ldepth (clocals c ! i) = -1
                          then [''Can't read local variable in its own initializer.''] else []))"

definition report :: "string list \<Rightarrow> cmd" where
  "report msgs = seq (map error msgs)"

definition resolve_local :: "ctoken \<Rightarrow> nat option cval" where
  "resolve_local name st =
     do {
       c \<leftarrow> comp st;
       let (i, msgs) = local_ref (ktext name) c;
       st \<leftarrow> report msgs st;
       Some (i, st)
     }"

definition add_upvalue :: "byte \<Rightarrow> bool \<Rightarrow> compiler \<Rightarrow> nat \<times> compiler \<times> string list" where
  "add_upvalue i is_local c =
     (case find (\<lambda>k. cupvalues c ! k = \<lparr>uindex = i, uis_local = is_local\<rparr>) [0..<length (cupvalues c)] of
        Some k \<Rightarrow> (k, c, [])
      | None \<Rightarrow>
          if length (cupvalues c) = 256 then (0, c, [''Too many closure variables in function.''])
          else (length (cupvalues c), c\<lparr>cupvalues := cupvalues c @ [\<lparr>uindex = i, uis_local = is_local\<rparr>]\<rparr>, []))"

text \<open>
  \<open>resolve_upvalue\<close> for the first compiler of a chain: the variable is a local of the next one, or
  an upvalue of it. The result has the changed chain and the errors.
\<close>

primrec resolve_in :: "bytes \<Rightarrow> compiler list \<Rightarrow> nat option \<times> compiler list \<times> string list" where
  "resolve_in name [] = (None, [], [])"
| "resolve_in name (c # cs) =
     (case cs of
        [] \<Rightarrow> (None, [c], [])
      | e # es \<Rightarrow>
          (case local_ref name e of
             (Some i, msgs) \<Rightarrow>
               let (k, c, msgs') = add_upvalue (of_nat i) True c
               in (Some k, c # upd_local i (\<lambda>l. l\<lparr>lcaptured := True\<rparr>) e # es, msgs @ msgs')
           | (None, _) \<Rightarrow>
               (case resolve_in name cs of
                  (Some j, cs, msgs) \<Rightarrow>
                    let (k, c, msgs') = add_upvalue (of_nat j) False c in (Some k, c # cs, msgs @ msgs')
                | (None, cs, msgs) \<Rightarrow> (None, c # cs, msgs))))"

definition resolve_upvalue :: "ctoken \<Rightarrow> nat option cval" where
  "resolve_upvalue name st =
     (let (k, cs, msgs) = resolve_in (ktext name) (compilers st)
      in do { st \<leftarrow> report msgs (st\<lparr>compilers := cs\<rparr>); Some (k, st) })"

definition is_explicit_global_name :: "ctoken \<Rightarrow> cst \<Rightarrow> bool option" where
  "is_explicit_global_name name st = do { c \<leftarrow> comp st; Some (ktext name \<in> set (explicit_globals c)) }"

definition register_explicit_global :: "ctoken \<Rightarrow> cmd" where
  "register_explicit_global name st =
     (case compilers st of
        [] \<Rightarrow> Some st
      | c # _ \<Rightarrow>
          if is_script c \<or> ktext name \<in> set (explicit_globals c) then Some st
          else if length (explicit_globals c) = 256
          then error ''Too many global declarations in function.'' st
          else upd_comp (\<lambda>c. c\<lparr>explicit_globals := explicit_globals c @ [ktext name]\<rparr>) st)"

text \<open>An instruction on a named variable: local, upvalue or global.\<close>

definition named_op :: "byte \<Rightarrow> byte \<Rightarrow> byte \<Rightarrow> ctoken \<Rightarrow> cmd" where
  "named_op op_local op_upvalue op_global name st =
     do {
       (arg, st) \<leftarrow> resolve_local name st;
       (case arg of
          Some i \<Rightarrow> emit_bytes op_local (of_nat i) st
        | None \<Rightarrow>
            do {
              (arg, st) \<leftarrow> resolve_upvalue name st;
              (case arg of
                 Some k \<Rightarrow> emit_bytes op_upvalue (of_nat k) st
               | None \<Rightarrow> emit_named op_global name st)
            })
     }"

definition emit_get_named :: "ctoken \<Rightarrow> cmd" where
  "emit_get_named = named_op OP_GET_LOCAL OP_GET_UPVALUE OP_GET_GLOBAL"

definition emit_set_named :: "ctoken \<Rightarrow> cmd" where
  "emit_set_named = named_op OP_SET_LOCAL OP_SET_UPVALUE OP_SET_GLOBAL"

text \<open>A new local that holds the value on top of the stack.\<close>

definition bind_new_local :: "ctoken \<Rightarrow> byte \<Rightarrow> cmd" where
  "bind_new_local name ty st =
     do {
       i \<leftarrow> local_count st;
       seq [new_local name, emit_bytes OP_SET_LOCAL (of_nat i), set_local_type i ty] st
     }"

end
