(* ===== verification/Compile_Scan.thy ===== *)
theory Compile_Scan
  imports Compile_Scope
begin

text \<open>
  What the compiler reads ahead, and the text of its tokens (\<open>src/src/compiler.c\<close>): indentation,
  the values of literals, and the scans to the end of an expression that tell a slice, a comma list
  or a comprehension from other expressions.
\<close>

section \<open>Text of tokens\<close>

definition token_indent :: "cst \<Rightarrow> ctoken \<Rightarrow> nat option" where
  "token_indent st t =
     do { p \<leftarrow> kpos t; Some (indent_width (rev (takeWhile (\<lambda>b. b \<noteq> 10) (rev (take p (src st)))))) }"

text \<open>\<open>strtod\<close> on the digits of a number token, and whether it has no fraction.\<close>

definition number_value :: "bytes \<Rightarrow> double" where
  "number_value s =
     (let ds = filter (\<lambda>b. b \<noteq> 95) s;
          ip = takeWhile (\<lambda>b. b \<noteq> 46) ds;
          fp = drop (length ip + 1) ds
      in round_quot False (read_dec (ip @ fp)) (10 ^ length fp))"

definition parse_number_token :: "ctoken \<Rightarrow> double" where
  "parse_number_token t = number_value (ktext t)"

definition is_int_text :: "bytes \<Rightarrow> bool" where
  "is_int_text s \<longleftrightarrow> (\<forall>b \<in> set s. b \<noteq> 46 \<and> b \<noteq> 101 \<and> b \<noteq> 69)"

definition token_is_int :: "ctoken \<Rightarrow> bool" where
  "token_is_int t \<longleftrightarrow> is_int_text (ktext t)"

fun decode_quoted :: "byte \<Rightarrow> bytes \<Rightarrow> bytes" where
  "decode_quoted q [] = []"
| "decode_quoted q [c] = (if c = q then [] else [c])"
| "decode_quoted q (c # e # cs) =
     (if c = 92 then
        (if e = 110 then [10] else if e = 116 then [9] else if e = 114 then [13]
         else if e = 39 \<or> e = 34 \<or> e = 92 then [e] else [92, e]) @ decode_quoted q cs
      else (if c = q then [] else [c]) @ decode_quoted q (e # cs))"

definition string_of_token :: "ctoken \<Rightarrow> bytes" where
  "string_of_token t =
     (let s = ktext t; n = length s in
      if 4 \<le> n \<and> s ! 0 = 91 \<and> s ! 1 = 91 then take (n - 4) (drop 2 s)
      else decode_quoted (s ! 0) (take (n - 2) (drop 1 s)))"

definition string_from_token :: "ctoken \<Rightarrow> addr cval" where
  "string_from_token t = copy_name (string_of_token t)"

definition maybe_capture_function_docstring :: cmd where
  "maybe_capture_function_docstring st =
     (if \<not> check_token TOKEN_STRING st then Some st
      else do {
        (next, _) \<leftarrow> peek_token st (lex st);
        (if \<not> (ktype next = TOKEN_DEDENT \<or> ktype next = TOKEN_EOF \<or> kline (pcur st) < kline next) then Some st
         else do {
           st \<leftarrow> advance st;
           (s, st) \<leftarrow> string_from_token (pprev st) st;
           upd_function (\<lambda>f. f\<lparr>fdoc := Some s\<rparr>) st
         })
      })"

section \<open>Reading ahead\<close>

text \<open>The brackets that are open.\<close>

record nesting =
  paren :: nat
  bracket :: nat
  brace :: nat

definition no_nesting :: nesting where
  "no_nesting = \<lparr>paren = 0, bracket = 0, brace = 0\<rparr>"

definition nest :: "token_type \<Rightarrow> nesting \<Rightarrow> nesting" where
  "nest ty n =
     (case ty of
        TOKEN_LEFT_PAREN \<Rightarrow> n\<lparr>paren := paren n + 1\<rparr>
      | TOKEN_RIGHT_PAREN \<Rightarrow> n\<lparr>paren := paren n - 1\<rparr>
      | TOKEN_LEFT_BRACKET \<Rightarrow> n\<lparr>bracket := bracket n + 1\<rparr>
      | TOKEN_RIGHT_BRACKET \<Rightarrow> n\<lparr>bracket := bracket n - 1\<rparr>
      | TOKEN_LEFT_BRACE \<Rightarrow> n\<lparr>brace := brace n + 1\<rparr>
      | TOKEN_RIGHT_BRACE \<Rightarrow> n\<lparr>brace := brace n - 1\<rparr>
      | _ \<Rightarrow> n)"

text \<open>Reads tokens until a step gives the answer.\<close>

partial_function (option) look ::
  "(nesting \<Rightarrow> ctoken \<Rightarrow> nesting + 'r) \<Rightarrow> bytes \<Rightarrow> lexer \<Rightarrow> nesting \<Rightarrow> 'r option" where
  "look f s lx n =
     do {
       (t, lx) \<leftarrow> scan_token s lx;
       (case f n (ctoken_of s t) of Inr r \<Rightarrow> Some r | Inl n \<Rightarrow> look f s lx n)
     }"

declare look.simps [code]

definition look_ahead :: "(nesting \<Rightarrow> ctoken \<Rightarrow> nesting + 'r) \<Rightarrow> nesting \<Rightarrow> cst \<Rightarrow> 'r option" where
  "look_ahead f n st = look f (src st) (lex st) n"

text \<open>\<open>find_comprehension_for_until\<close>: the \<open>for\<close> before the end of the bracket.\<close>

definition comprehension_for :: "token_type \<Rightarrow> nesting \<Rightarrow> ctoken \<Rightarrow> nesting + ctoken option" where
  "comprehension_for end_token n t =
     (let ty = ktype t in
      if ty = TOKEN_RIGHT_PAREN \<and> paren n = 0 then
        (if end_token = TOKEN_RIGHT_PAREN \<and> bracket n = 0 \<and> brace n = 0 then Inr None else Inl n)
      else if ty = TOKEN_RIGHT_BRACE \<and> brace n = 0 then
        (if end_token = TOKEN_RIGHT_BRACE \<and> paren n = 0 \<and> bracket n = 0 then Inr None else Inl n)
      else if ty = KW ''FOR'' \<and> n = no_nesting then Inr (Some t)
      else if ty = TOKEN_EOF then Inr None
      else Inl (nest ty n))"

definition find_comprehension_for_until :: "token_type \<Rightarrow> cst \<Rightarrow> ctoken option option" where
  "find_comprehension_for_until end_token = look_ahead (comprehension_for end_token) no_nesting"

definition slice_step :: "nesting \<Rightarrow> ctoken \<Rightarrow> nesting + bool" where
  "slice_step n t =
     (if ktype t = TOKEN_RIGHT_BRACKET \<and> n = no_nesting then Inr False
      else if ktype t = TOKEN_DOT_DOT \<and> n = no_nesting then Inr True
      else if ktype t = TOKEN_EOF then Inr False
      else Inl (nest (ktype t) n))"

definition has_slice_range_in_subscript :: "cst \<Rightarrow> bool option" where
  "has_slice_range_in_subscript st =
     (if check_token TOKEN_DOT_DOT st then Some True else look_ahead slice_step no_nesting st)"

definition comma_step :: "nat \<Rightarrow> nesting \<Rightarrow> ctoken \<Rightarrow> nesting + bool" where
  "comma_step start_line n t =
     (if ktype t = TOKEN_EOF \<or> start_line < kline t \<and> n = no_nesting then Inr False
      else if ktype t = TOKEN_COMMA \<and> n = no_nesting then Inr True
      else if ktype t \<in> {TOKEN_SEMICOLON, TOKEN_DEDENT} \<and> n = no_nesting then Inr False
      else Inl (nest (ktype t) n))"

definition rhs_has_top_level_comma :: "nat \<Rightarrow> cst \<Rightarrow> bool option" where
  "rhs_has_top_level_comma start_line st =
     (case comma_step start_line no_nesting (pcur st) of
        Inr b \<Rightarrow> Some b
      | Inl n \<Rightarrow> look_ahead (comma_step start_line) n st)"

definition comprehension_step :: "token_type \<Rightarrow> nat \<Rightarrow> nesting \<Rightarrow> ctoken \<Rightarrow> nesting + bool" where
  "comprehension_step end_token start_line n t =
     (if start_line < kline t \<and> n = no_nesting then Inr False
      else if ktype t = end_token \<and> n = no_nesting then Inr False
      else if ktype t = KW ''FOR'' \<and> n = no_nesting then Inr True
      else if ktype t = TOKEN_EOF then Inr False
      else Inl (nest (ktype t) n))"

definition is_table_comprehension_start :: "nat \<Rightarrow> cst \<Rightarrow> bool option" where
  "is_table_comprehension_start start_line =
     look_ahead (comprehension_step TOKEN_RIGHT_BRACE start_line) no_nesting"

definition is_generator_comprehension_start :: "nat \<Rightarrow> cst \<Rightarrow> bool option" where
  "is_generator_comprehension_start start_line =
     look_ahead (comprehension_step TOKEN_RIGHT_PAREN start_line) no_nesting"

text \<open>
  \<open>find_comprehension_assign\<close>: the first \<open>=\<close> outside brackets and quotes; \<open>q\<close> is the open quote
  and \<open>escaped\<close> says that the next character is skipped.
\<close>

fun assign_offset :: "nesting \<Rightarrow> byte option \<Rightarrow> bool \<Rightarrow> bytes \<Rightarrow> nat option" where
  "assign_offset n q escaped [] = None"
| "assign_offset n q escaped (c # cs) =
     (if escaped then map_option Suc (assign_offset n q False cs)
      else case q of
        Some quote \<Rightarrow>
          if c = 92 then map_option Suc (assign_offset n q True cs)
          else map_option Suc (assign_offset n (if c = quote then None else q) False cs)
      | None \<Rightarrow>
          if c = 39 \<or> c = 34 then map_option Suc (assign_offset n (Some c) False cs)
          else if c = 61 \<and> n = no_nesting then Some 0
          else map_option Suc (assign_offset
                 (if c = 40 then n\<lparr>paren := paren n + 1\<rparr>
                  else if c = 41 then n\<lparr>paren := paren n - 1\<rparr>
                  else if c = 91 then n\<lparr>bracket := bracket n + 1\<rparr>
                  else if c = 93 then n\<lparr>bracket := bracket n - 1\<rparr>
                  else if c = 123 then n\<lparr>brace := brace n + 1\<rparr>
                  else if c = 125 then n\<lparr>brace := brace n - 1\<rparr>
                  else n) None False cs))"

definition find_comprehension_assign :: "bytes \<Rightarrow> nat option" where
  "find_comprehension_assign = assign_offset no_nesting None False"

definition is_table_entry_start :: "token_type \<Rightarrow> bool" where
  "is_table_entry_start ty \<longleftrightarrow>
     ty \<in> {TOKEN_LEFT_BRACKET, TOKEN_LEFT_PAREN, TOKEN_LEFT_BRACE, TOKEN_IDENTIFIER, TOKEN_STRING,
           TOKEN_FSTRING, TOKEN_NUMBER, KW ''NIL'', KW ''TRUE'', KW ''FALSE'', KW ''NOT'', TOKEN_MINUS,
           TOKEN_HASH, KW ''FN'', KW ''IMPORT''}"

definition is_implicit_table_separator :: "cst \<Rightarrow> bool" where
  "is_implicit_table_separator st \<longleftrightarrow>
     kline (pprev st) < kline (pcur st) \<and> is_table_entry_start (ktype (pcur st))"

section \<open>Slices of the source\<close>

definition is_space_char :: "byte \<Rightarrow> bool" where
  "is_space_char b \<longleftrightarrow> b = 32 \<or> b = 9 \<or> b = 10 \<or> b = 13"

definition trim_slice :: "bytes \<Rightarrow> bytes" where
  "trim_slice s = rev (dropWhile is_space_char (rev (dropWhile is_space_char s)))"

definition source_between :: "cst \<Rightarrow> ctoken \<Rightarrow> ctoken \<Rightarrow> bytes option" where
  "source_between st a b = do { i \<leftarrow> kpos a; j \<leftarrow> kpos b; Some (take (j - i) (drop i (src st))) }"

section \<open>Module paths\<close>

text \<open>\<open>char module_path[256]\<close>: what does not fit is cut off.\<close>

definition add_component :: "bytes \<Rightarrow> bytes \<Rightarrow> bytes" where
  "add_component path part =
     (let path = (if length path < 255 then path @ [46] else path) in path @ take (255 - length path) part)"

text \<open>The components after the first; the last token of the path is a result too.\<close>

definition module_components :: "(bytes \<times> ctoken) cval" where
  "module_components st =
     do {
       (path, last, st) \<leftarrow> repeat_while (\<lambda>(path, last, st). do {
           (m, st) \<leftarrow> match_token TOKEN_DOT st;
           (if \<not> m then Some (False, (path, last, st))
            else do {
              st \<leftarrow> consume TOKEN_IDENTIFIER ''Expect module name after '.'.'' st;
              Some (True, (add_component path (ktext (pprev st)), pprev st, st))
            })
         }) (take 255 (ktext (pprev st)), pprev st, st);
       Some ((path, last), st)
     }"

definition parse_module_path :: "string \<Rightarrow> (bytes \<times> ctoken) cval" where
  "parse_module_path msg st = do { st \<leftarrow> consume TOKEN_IDENTIFIER msg st; module_components st }"

definition import_constant :: "bytes \<Rightarrow> byte cval" where
  "import_constant path st = do { (a, st) \<leftarrow> copy_name path st; make_constant (VObj a) st }"

end
