(* ===== verification/Compile_Expr.thy ===== *)
theory Compile_Expr
  imports Compile_Scan
begin

text \<open>
  Expressions (\<open>src/src/compiler.c\<close>): variables and assignment, operators, calls, tables, slices,
  comprehensions and function bodies. The mutual recursion of the parser is left open: \<open>rec\<close> is
  what the functions call back for a goal.
\<close>

datatype goal = Precedence nat | Statement | Declaration | If_Statement

type_synonym parser = "goal \<Rightarrow> cmd"

abbreviation (input) PREC_ASSIGNMENT :: nat where "PREC_ASSIGNMENT \<equiv> 1"
abbreviation (input) PREC_TERNARY :: nat where "PREC_TERNARY \<equiv> 2"
abbreviation (input) PREC_OR :: nat where "PREC_OR \<equiv> 3"
abbreviation (input) PREC_AND :: nat where "PREC_AND \<equiv> 4"
abbreviation (input) PREC_EQUALITY :: nat where "PREC_EQUALITY \<equiv> 5"
abbreviation (input) PREC_COMPARISON :: nat where "PREC_COMPARISON \<equiv> 6"
abbreviation (input) PREC_RANGE :: nat where "PREC_RANGE \<equiv> 7"
abbreviation (input) PREC_TERM :: nat where "PREC_TERM \<equiv> 8"
abbreviation (input) PREC_FACTOR :: nat where "PREC_FACTOR \<equiv> 9"
abbreviation (input) PREC_UNARY :: nat where "PREC_UNARY \<equiv> 10"
abbreviation (input) PREC_CALL :: nat where "PREC_CALL \<equiv> 11"

definition expression :: "parser \<Rightarrow> cmd" where
  "expression rec st = rec (Precedence PREC_ASSIGNMENT) (st\<lparr>ends_with_call := False, was_range := False\<rparr>)"

text \<open>\<open>type_stack_top = 0; expression()\<close>\<close>

definition fresh_expression :: "parser \<Rightarrow> cmd" where
  "fresh_expression rec st = expression rec (st\<lparr>type_top := 0\<rparr>)"

definition block :: "parser \<Rightarrow> cmd" where
  "block rec =
     while_cmd (\<lambda>st. \<not> check_token (KW ''ELSE'') st \<and> \<not> check_token (KW ''ELIF'') st \<and>
                     \<not> check_token TOKEN_DEDENT st \<and> \<not> check_token TOKEN_EOF st) (rec Declaration)"

text \<open>\<open>match(ty)\<close> for its effect.\<close>

definition skip_token :: "token_type \<Rightarrow> cmd" where
  "skip_token ty st = do { (_, st) \<leftarrow> match_token ty st; Some st }"

section \<open>Literals\<close>

definition number :: cmd where
  "number st =
     seq [emit_constant (VNumber (parse_number_token (pprev st))),
          type_push (if token_is_int (pprev st) then TYPEHINT_INT else TYPEHINT_FLOAT)] st"

definition string_literal :: cmd where
  "string_literal st =
     do {
       (a, st) \<leftarrow> string_from_token (pprev st) st;
       seq [emit_constant (VObj a), type_push TYPEHINT_STR] st
     }"

definition literal :: cmd where
  "literal st =
     (let ty = ktype (pprev st) in
      if ty = KW ''FALSE'' then seq [emit_byte OP_FALSE, type_push TYPEHINT_BOOL] st
      else if ty = KW ''NIL'' then seq [emit_byte OP_NIL, type_push TYPEHINT_ANY] st
      else if ty = KW ''TRUE'' then seq [emit_byte OP_TRUE, type_push TYPEHINT_BOOL] st
      else Some st)"

section \<open>Operators\<close>

definition unary :: "parser \<Rightarrow> cmd" where
  "unary rec st =
     (let op = ktype (pprev st) in
      do {
        st \<leftarrow> rec (Precedence PREC_UNARY) st;
        (ty, st) \<leftarrow> type_pop st;
        (if op = KW ''NOT'' then seq [emit_byte OP_NOT, type_push TYPEHINT_BOOL, set_ends_with_call False] st
         else if op = TOKEN_MINUS then
           seq [emit_byte OP_NEGATE, type_push (if is_numeric_type ty then ty else TYPEHINT_ANY),
                set_ends_with_call False] st
         else if op = TOKEN_HASH then
           seq [emit_byte OP_LENGTH, type_push TYPEHINT_INT, set_ends_with_call False] st
         else Some st)
      })"

text \<open>Arithmetic is specialised when both operands are numbers by their type hints.\<close>

definition arith_code :: "byte \<Rightarrow> byte \<Rightarrow> byte \<Rightarrow> byte \<Rightarrow> byte \<Rightarrow> bytes \<times> byte" where
  "arith_code int_op float_op op lhs rhs =
     (if is_numeric_type lhs \<and> is_numeric_type rhs then
        if lhs = TYPEHINT_INT \<and> rhs = TYPEHINT_INT then ([int_op], TYPEHINT_INT)
        else ([float_op], TYPEHINT_FLOAT)
      else ([op], TYPEHINT_ANY))"

definition div_code :: "byte \<Rightarrow> byte \<Rightarrow> bytes \<times> byte" where
  "div_code lhs rhs =
     (if is_numeric_type lhs \<and> is_numeric_type rhs then ([OP_FDIV], TYPEHINT_FLOAT)
      else ([OP_DIVIDE], TYPEHINT_ANY))"

text \<open>The code and the result type of a binary operator, \<open>None\<close> for other tokens.\<close>

definition binary_code :: "token_type \<Rightarrow> byte \<Rightarrow> byte \<Rightarrow> (bytes \<times> byte) option" where
  "binary_code op lhs rhs =
     (if op = TOKEN_BANG_EQUAL then Some ([OP_EQUAL, OP_NOT], TYPEHINT_BOOL)
      else if op = TOKEN_EQUAL_EQUAL then Some ([OP_EQUAL], TYPEHINT_BOOL)
      else if op = TOKEN_GREATER then Some ([OP_GREATER], TYPEHINT_BOOL)
      else if op = TOKEN_GREATER_EQUAL then Some ([OP_LESS, OP_NOT], TYPEHINT_BOOL)
      else if op = TOKEN_LESS then Some ([OP_LESS], TYPEHINT_BOOL)
      else if op = TOKEN_LESS_EQUAL then Some ([OP_GREATER, OP_NOT], TYPEHINT_BOOL)
      else if op = KW ''HAS'' then Some ([OP_HAS], TYPEHINT_BOOL)
      else if op = KW ''IN'' then Some ([OP_IN], TYPEHINT_BOOL)
      else if op = TOKEN_APPEND then Some ([OP_APPEND], TYPEHINT_ANY)
      else if op = TOKEN_PLUS then Some (arith_code OP_IADD OP_FADD OP_ADD lhs rhs)
      else if op = TOKEN_MINUS then Some (arith_code OP_ISUB OP_FSUB OP_SUBTRACT lhs rhs)
      else if op = TOKEN_STAR then Some (arith_code OP_IMUL OP_FMUL OP_MULTIPLY lhs rhs)
      else if op = TOKEN_SLASH then Some (div_code lhs rhs)
      else if op = TOKEN_POWER then Some ([OP_POWER], TYPEHINT_ANY)
      else if op = TOKEN_INT_DIV then Some ([OP_INT_DIV], TYPEHINT_ANY)
      else if op = TOKEN_PERCENT then Some (arith_code OP_IMOD OP_FMOD OP_MODULO lhs rhs)
      else None)"

text \<open>\<open>get_rule(type)->precedence\<close>\<close>

definition rule_precedence :: "token_type \<Rightarrow> nat" where
  "rule_precedence ty =
     (if ty \<in> {TOKEN_LEFT_PAREN, TOKEN_LEFT_BRACE, TOKEN_LEFT_BRACKET, TOKEN_DOT, TOKEN_COLON_COLON}
      then PREC_CALL
      else if ty = TOKEN_DOT_DOT then PREC_RANGE
      else if ty \<in> {TOKEN_MINUS, TOKEN_PLUS, TOKEN_APPEND} then PREC_TERM
      else if ty \<in> {TOKEN_SLASH, TOKEN_STAR, TOKEN_POWER, TOKEN_INT_DIV, TOKEN_PERCENT} then PREC_FACTOR
      else if ty \<in> {TOKEN_BANG_EQUAL, TOKEN_EQUAL_EQUAL} then PREC_EQUALITY
      else if ty = TOKEN_QUESTION then PREC_TERNARY
      else if ty \<in> {TOKEN_GREATER, TOKEN_GREATER_EQUAL, TOKEN_LESS, TOKEN_LESS_EQUAL, KW ''IN'',
                    KW ''HAS'', KW ''NOT''} then PREC_COMPARISON
      else if ty = KW ''AND'' then PREC_AND
      else if ty = KW ''OR'' then PREC_OR
      else 0)"

definition binary :: "parser \<Rightarrow> cmd" where
  "binary rec st =
     (let op = ktype (pprev st) in
      do {
        st \<leftarrow> rec (Precedence (rule_precedence op + 1)) st;
        (rhs, st) \<leftarrow> type_pop st;
        (lhs, st) \<leftarrow> type_pop st;
        (case binary_code op lhs rhs of
           None \<Rightarrow> Some st
         | Some (ops, ty) \<Rightarrow> seq (map emit_byte ops @ [type_push ty, set_ends_with_call False]) st)
      })"

definition not_in :: "parser \<Rightarrow> cmd" where
  "not_in rec =
     seq [consume (KW ''IN'') ''Expect 'in' after 'not'.'', rec (Precedence (rule_precedence (KW ''IN'') + 1)),
          type_drop, type_drop, emit_byte OP_IN, emit_byte OP_NOT, type_push TYPEHINT_BOOL,
          set_ends_with_call False]"

definition and_op :: "parser \<Rightarrow> cmd" where
  "and_op rec st =
     do {
       st \<leftarrow> type_drop st;
       (end_jump, st) \<leftarrow> emit_jump OP_JUMP_IF_FALSE st;
       seq [emit_byte OP_POP, rec (Precedence PREC_AND), patch_jump end_jump, type_drop,
            type_push TYPEHINT_ANY, set_ends_with_call False] st
     }"

definition or_op :: "parser \<Rightarrow> cmd" where
  "or_op rec st =
     do {
       st \<leftarrow> type_drop st;
       (else_jump, st) \<leftarrow> emit_jump OP_JUMP_IF_FALSE st;
       (end_jump, st) \<leftarrow> emit_jump OP_JUMP st;
       seq [patch_jump else_jump, emit_byte OP_POP, rec (Precedence PREC_OR), patch_jump end_jump,
            type_drop, type_push TYPEHINT_ANY, set_ends_with_call False] st
     }"

definition ternary :: "parser \<Rightarrow> cmd" where
  "ternary rec st =
     do {
       st \<leftarrow> type_drop st;
       (else_branch, st) \<leftarrow> emit_jump OP_JUMP_IF_FALSE st;
       st \<leftarrow> seq [emit_byte OP_POP, rec (Precedence (PREC_TERNARY + 1)),
                   consume TOKEN_COLON ''Expect ':' after true branch of ternary operator.''] st;
       (end_jump, st) \<leftarrow> emit_jump OP_JUMP st;
       st \<leftarrow> seq [patch_jump else_branch, emit_byte OP_POP, rec (Precedence PREC_TERNARY),
                   patch_jump end_jump] st;
       (false_type, st) \<leftarrow> type_pop st;
       (true_type, st) \<leftarrow> type_pop st;
       seq [type_push (if true_type = false_type then true_type else TYPEHINT_ANY),
            set_ends_with_call False] st
     }"

definition range_op :: "parser \<Rightarrow> cmd" where
  "range_op rec st =
     do {
       st \<leftarrow> rec (Precedence PREC_TERM) st;
       (if in_for_header st then Some (st\<lparr>was_range := True\<rparr>)
        else seq [emit_byte OP_RANGE, type_drop, type_drop, type_push TYPEHINT_ANY,
                  set_ends_with_call False] st)
     }"

definition import_expression :: cmd where
  "import_expression st =
     do {
       ((path, _), st) \<leftarrow> parse_module_path ''Expect module name after 'import'.'' st;
       (k, st) \<leftarrow> import_constant path st;
       seq [emit_bytes OP_IMPORT k, type_push TYPEHINT_ANY] st
     }"

section \<open>Values to assign\<close>

definition parse_array_literal_from_comma_list :: "parser \<Rightarrow> cmd" where
  "parse_array_literal_from_comma_list rec st =
     do {
       st \<leftarrow> emit_byte OP_NEW_TABLE st;
       (_, st) \<leftarrow> repeat_while (\<lambda>(i, st). do {
           st \<leftarrow> seq [emit_byte OP_DUP, emit_constant (VNumber (dbl_of_int i)), expression rec,
                       emit_byte OP_SET_TABLE, emit_byte OP_POP] st;
           (m, st) \<leftarrow> match_token TOKEN_COMMA st;
           Some (m, (i + 1, st))
         }) (1, st);
       Some st
     }"

text \<open>\<open>match(TOKEN_EQUALS) || match(TOKEN_WALRUS)\<close> where assignment is possible.\<close>

definition match_assign :: "bool \<Rightarrow> bool cval" where
  "match_assign can_assign st =
     (if can_assign then match_either TOKEN_EQUALS TOKEN_WALRUS st else Some (False, st))"

text \<open>The right-hand side after \<open>=\<close>, which may be a list with commas, or after \<open>:=\<close>.\<close>

definition assigned_value :: "parser \<Rightarrow> cmd" where
  "assigned_value rec st =
     do {
       many \<leftarrow> (if ktype (pprev st) = TOKEN_EQUALS then rhs_has_top_level_comma (kline (pcur st)) st
                else Some False);
       (if many then parse_array_literal_from_comma_list rec st else expression rec st)
     }"

definition match_compound_assign :: "token_type option cval" where
  "match_compound_assign st =
     (let ty = ktype (pcur st);
          op = (if ty = TOKEN_PLUS_EQUAL then Some TOKEN_PLUS
                else if ty = TOKEN_MINUS_EQUAL then Some TOKEN_MINUS
                else if ty = TOKEN_STAR_EQUAL then Some TOKEN_STAR
                else if ty = TOKEN_SLASH_EQUAL then Some TOKEN_SLASH
                else if ty = TOKEN_PERCENT_EQUAL then Some TOKEN_PERCENT
                else None)
      in case op of None \<Rightarrow> Some (None, st) | Some _ \<Rightarrow> do { st \<leftarrow> advance st; Some (op, st) })"

definition compound_code :: "token_type \<Rightarrow> byte \<Rightarrow> byte \<Rightarrow> bytes \<times> byte" where
  "compound_code op lhs rhs =
     (if op = TOKEN_PLUS then arith_code OP_IADD OP_FADD OP_ADD_INPLACE lhs rhs
      else if op = TOKEN_MINUS then arith_code OP_ISUB OP_FSUB OP_SUBTRACT lhs rhs
      else if op = TOKEN_STAR then arith_code OP_IMUL OP_FMUL OP_MULTIPLY lhs rhs
      else if op = TOKEN_SLASH then div_code lhs rhs
      else if op = TOKEN_PERCENT then arith_code OP_IMOD OP_FMOD OP_MODULO lhs rhs
      else ([], TYPEHINT_ANY))"

definition emit_compound_op :: "token_type \<Rightarrow> byte \<Rightarrow> byte \<Rightarrow> byte cval" where
  "emit_compound_op op lhs rhs st =
     (let (ops, ty) = compound_code op lhs rhs in do { st \<leftarrow> seq (map emit_byte ops) st; Some (ty, st) })"

end
