(* ===== verification/Compile_Access.thy ===== *)
theory Compile_Access
  imports Compile_Expr
begin

text \<open>
  Variables, postfix operators, tables and calls (\<open>src/src/compiler.c\<close>).
\<close>

section \<open>Variables\<close>

datatype var_ref = Local_var nat | Upvalue_var nat | Global_var byte

text \<open>What a name refers to, and whether the function declares it global.\<close>

definition variable_ref :: "ctoken \<Rightarrow> (bool \<times> var_ref) cval" where
  "variable_ref name st =
     do {
       declared \<leftarrow> is_explicit_global_name name st;
       (i, st) \<leftarrow> resolve_local name st;
       (case i of
          Some i \<Rightarrow> Some ((declared, Local_var i), st)
        | None \<Rightarrow>
            do {
              (k, st) \<leftarrow> (if declared then Some (None, st) else resolve_upvalue name st);
              (case k of
                 Some k \<Rightarrow> Some ((declared, Upvalue_var k), st)
               | None \<Rightarrow> do { (g, st) \<leftarrow> identifier_constant name st; Some ((declared, Global_var g), st) })
            })
     }"

definition in_function :: "cst \<Rightarrow> bool option" where
  "in_function st = do { c \<leftarrow> comp st; Some (\<not> is_script c) }"

definition is_global_ref :: "var_ref \<Rightarrow> bool" where
  "is_global_ref r = (case r of Global_var _ \<Rightarrow> True | _ \<Rightarrow> False)"

text \<open>
  \<open>emit_assignment_store\<close> of a global: a global in the REPL, otherwise a new local.
\<close>

definition store_unresolved :: "ctoken \<Rightarrow> byte \<Rightarrow> byte \<Rightarrow> cmd" where
  "store_unresolved name g ty st =
     do {
       c \<leftarrow> comp st;
       (if is_repl st \<and> is_script c then seq [emit_byte OP_DUP, emit_bytes OP_DEFINE_GLOBAL g] st
        else bind_new_local name ty st)
     }"

definition emit_assignment_store :: "ctoken \<Rightarrow> var_ref \<Rightarrow> byte \<Rightarrow> cmd" where
  "emit_assignment_store name r ty =
     (case r of
        Local_var i \<Rightarrow> seq [emit_bytes OP_SET_LOCAL (of_nat i), update_local_type i ty]
      | Upvalue_var k \<Rightarrow> emit_bytes OP_SET_UPVALUE (of_nat k)
      | Global_var g \<Rightarrow> store_unresolved name g ty)"

text \<open>In a function, assigning an unknown name makes it a local before the value is compiled.\<close>

definition predeclare :: "ctoken \<Rightarrow> bool \<Rightarrow> var_ref \<Rightarrow> var_ref cval" where
  "predeclare name declared r st =
     do {
       f \<leftarrow> in_function st;
       (if f \<and> \<not> declared \<and> is_global_ref r \<and> ktype (pprev st) = TOKEN_EQUALS then
          do {
            i \<leftarrow> local_count st;
            st \<leftarrow> seq [new_local name, emit_byte OP_NIL, emit_bytes OP_SET_LOCAL (of_nat i),
                        emit_byte OP_POP] st;
            Some (Local_var i, st)
          }
        else Some (r, st))
     }"

definition store_variable :: "ctoken \<Rightarrow> bool \<Rightarrow> bool \<Rightarrow> var_ref \<Rightarrow> byte \<Rightarrow> cmd" where
  "store_variable name walrus declared r ty st =
     do {
       f \<leftarrow> in_function st;
       (if declared then emit_named OP_SET_GLOBAL name st
        else if \<not> is_global_ref r then emit_assignment_store name r ty st
        else if f then bind_new_local name ty st
        else if walrus then emit_named OP_SET_GLOBAL name st
        else emit_assignment_store name r ty st)
     }"

definition assign_variable :: "parser \<Rightarrow> ctoken \<Rightarrow> bool \<Rightarrow> var_ref \<Rightarrow> cmd" where
  "assign_variable rec name declared r st =
     (let walrus = (ktype (pprev st) = TOKEN_WALRUS) in
      do {
        (r, st) \<leftarrow> predeclare name declared r st;
        st \<leftarrow> assigned_value rec st;
        (ty, st) \<leftarrow> type_pop st;
        st \<leftarrow> store_variable name walrus declared r ty st;
        type_push ty st
      })"

definition local_type :: "nat \<Rightarrow> cst \<Rightarrow> byte option" where
  "local_type i st =
     do { c \<leftarrow> comp st; Some (case at (clocals c) i of Some l \<Rightarrow> ltype l | None \<Rightarrow> TYPEHINT_ANY) }"

text \<open>The old value of \<open>x op= e\<close> and its type.\<close>

definition load_target :: "ctoken \<Rightarrow> bool \<Rightarrow> var_ref \<Rightarrow> byte cval" where
  "load_target name declared r st =
     (if declared then do { st \<leftarrow> emit_named OP_GET_GLOBAL name st; Some (TYPEHINT_ANY, st) }
      else case r of
        Local_var i \<Rightarrow>
          do { st \<leftarrow> emit_bytes OP_GET_LOCAL (of_nat i) st; ty \<leftarrow> local_type i st; Some (ty, st) }
      | Upvalue_var k \<Rightarrow>
          do { st \<leftarrow> emit_bytes OP_GET_UPVALUE (of_nat k) st; Some (TYPEHINT_ANY, st) }
      | Global_var g \<Rightarrow>
          do {
            f \<leftarrow> in_function st;
            st \<leftarrow> (if f then emit_byte OP_NIL st else emit_bytes OP_GET_GLOBAL g st);
            Some (TYPEHINT_ANY, st)
          })"

definition compound_assign :: "parser \<Rightarrow> ctoken \<Rightarrow> bool \<Rightarrow> var_ref \<Rightarrow> token_type \<Rightarrow> cmd" where
  "compound_assign rec name declared r op st =
     do {
       (lhs, st) \<leftarrow> load_target name declared r st;
       st \<leftarrow> seq [type_push lhs, expression rec] st;
       (rhs, st) \<leftarrow> type_pop st;
       (lhs, st) \<leftarrow> type_pop st;
       (ty, st) \<leftarrow> emit_compound_op op lhs rhs st;
       seq [store_variable name False declared r ty, type_push ty] st
     }"

definition load_variable :: "var_ref \<Rightarrow> cmd" where
  "load_variable r st =
     (case r of
        Local_var i \<Rightarrow>
          do { st \<leftarrow> emit_bytes OP_GET_LOCAL (of_nat i) st; ty \<leftarrow> local_type i st; type_push ty st }
      | Upvalue_var k \<Rightarrow> seq [emit_bytes OP_GET_UPVALUE (of_nat k), type_push TYPEHINT_ANY] st
      | Global_var g \<Rightarrow> seq [emit_bytes OP_GET_GLOBAL g, type_push TYPEHINT_ANY] st)"

definition named_variable :: "parser \<Rightarrow> ctoken \<Rightarrow> bool \<Rightarrow> cmd" where
  "named_variable rec name can_assign st =
     do {
       ((declared, r), st) \<leftarrow> variable_ref name st;
       (m, st) \<leftarrow> match_assign can_assign st;
       (if m then assign_variable rec name declared r st
        else do {
          (op, st) \<leftarrow> (if can_assign then match_compound_assign st else Some (None, st));
          (case op of
             Some op \<Rightarrow> compound_assign rec name declared r op st
           | None \<Rightarrow> load_variable r st)
        })
     }"

definition variable :: "parser \<Rightarrow> bool \<Rightarrow> cmd" where
  "variable rec can_assign st = named_variable rec (pprev st) can_assign st"

section \<open>Fields, subscripts and slices\<close>

definition consume_property_name_after_dot :: cmd where
  "consume_property_name_after_dot st =
     (if check_token TOKEN_IDENTIFIER st \<or> check_token (KW ''YIELD'') st then advance st
      else error_at_current ''Expect property name after '.'.'' st)"

definition property_name :: "byte cval" where
  "property_name st =
     do { st \<leftarrow> consume_property_name_after_dot st; identifier_constant (pprev st) st }"

text \<open>The value of a table access replaces the table, which was at \<open>base\<close>, in the type hints.\<close>

definition set_result_type :: "int \<Rightarrow> byte \<Rightarrow> cmd" where
  "set_result_type base ty = seq [set_type_top base, type_push ty]"

definition store_element :: "parser \<Rightarrow> int \<Rightarrow> cmd" where
  "store_element rec base st =
     do {
       st \<leftarrow> seq [assigned_value rec, emit_byte OP_SET_TABLE] st;
       (ty, st) \<leftarrow> type_pop st;
       set_result_type base ty st
     }"

definition dot :: "parser \<Rightarrow> bool \<Rightarrow> cmd" where
  "dot rec can_assign st =
     (let base = type_top st - 1 in
      do {
        st \<leftarrow> set_ends_with_call False st;
        (name, st) \<leftarrow> property_name st;
        (m, st) \<leftarrow> match_assign can_assign st;
        st \<leftarrow> emit_bytes OP_CONSTANT name st;
        (if m then store_element rec base st
         else seq [emit_byte OP_GET_TABLE, set_result_type base TYPEHINT_ANY] st)
      })"

definition meta_dot :: "parser \<Rightarrow> bool \<Rightarrow> cmd" where
  "meta_dot rec can_assign st =
     (let base = type_top st - 1 in
      do {
        st \<leftarrow> set_ends_with_call False st;
        (name, st) \<leftarrow> property_name st;
        (m, st) \<leftarrow> match_assign can_assign st;
        (if m then
           seq [error ''Can't assign through metatable method access.'', expression rec,
                set_result_type base TYPEHINT_ANY] st
         else seq [emit_bytes OP_CONSTANT name, emit_byte OP_GET_META_TABLE,
                   set_result_type base TYPEHINT_ANY] st)
      })"

definition slice :: "parser \<Rightarrow> bool \<Rightarrow> int \<Rightarrow> cmd" where
  "slice rec can_assign base st =
     do {
       st \<leftarrow> (if check_token TOKEN_DOT_DOT st then seq [advance, emit_byte OP_NIL] st
               else seq [rec (Precedence PREC_TERM), consume TOKEN_DOT_DOT ''Expect '..' in slice.''] st);
       st \<leftarrow> (if check_token TOKEN_COLON st \<or> check_token TOKEN_RIGHT_BRACKET st then emit_byte OP_NIL st
               else expression rec st);
       (m, st) \<leftarrow> match_token TOKEN_COLON st;
       st \<leftarrow> (if m \<and> \<not> check_token TOKEN_RIGHT_BRACKET st then expression rec st
               else emit_constant (VNumber (dbl_of_int 1)) st);
       st \<leftarrow> consume TOKEN_RIGHT_BRACKET ''Expect ']' after slice.'' st;
       (m, st) \<leftarrow> match_assign can_assign st;
       seq [only_if m (seq [error ''Can't assign to a slice.'', expression rec]),
            emit_byte OP_SLICE, set_result_type base TYPEHINT_ANY, set_ends_with_call False] st
     }"

definition subscript :: "parser \<Rightarrow> bool \<Rightarrow> cmd" where
  "subscript rec can_assign st =
     (let base = type_top st - 1 in
      do {
        st \<leftarrow> set_ends_with_call False st;
        s \<leftarrow> has_slice_range_in_subscript st;
        (if s then slice rec can_assign base st
         else do {
           st \<leftarrow> seq [expression rec, consume TOKEN_RIGHT_BRACKET ''Expect ']' after index.''] st;
           (m, st) \<leftarrow> match_assign can_assign st;
           (if m then store_element rec base st
            else seq [emit_byte OP_GET_TABLE, set_result_type base TYPEHINT_ANY] st)
         })
      })"

section \<open>Tables\<close>

definition table_entry_expression :: "parser \<Rightarrow> cmd" where
  "table_entry_expression rec st =
     do {
       st' \<leftarrow> expression rec (st\<lparr>in_table_entry := True\<rparr>);
       Some (st'\<lparr>in_table_entry := in_table_entry st\<rparr>)
     }"

definition set_entry :: cmd where
  "set_entry = seq [emit_byte OP_SET_TABLE, emit_byte OP_POP]"

text \<open>\<open><a, b>\<close>: fields named like variables.\<close>

definition shorthand_fields :: "parser \<Rightarrow> cmd" where
  "shorthand_fields rec st =
     do {
       st \<leftarrow> consume TOKEN_IDENTIFIER ''Expect identifier after '<' in shorthand table fields.'' st;
       st \<leftarrow> repeat_while (\<lambda>st. do {
           let name = pprev st;
           st \<leftarrow> seq [emit_string (ktext name), named_variable rec name False, set_entry] st;
           (m, st) \<leftarrow> match_token TOKEN_COMMA st;
           (if \<not> m \<or> check_token TOKEN_GREATER st then Some (False, st)
            else do {
              st \<leftarrow> seq [consume TOKEN_IDENTIFIER ''Expect identifier in shorthand table fields.'',
                          emit_byte OP_DUP] st;
              Some (True, st)
            })
         }) st;
       consume TOKEN_GREATER ''Expect '>' after shorthand table fields.'' st
     }"

text \<open>An entry; \<open>i\<close> is the index of the next array item.\<close>

definition array_item :: "int \<Rightarrow> cmd \<Rightarrow> int cval" where
  "array_item i value st =
     do { st \<leftarrow> seq [emit_constant (VNumber (dbl_of_int i)), value, set_entry] st; Some (i + 1, st) }"

definition table_entry :: "parser \<Rightarrow> int \<Rightarrow> int cval" where
  "table_entry rec i st =
     do {
       (m, st) \<leftarrow> match_token TOKEN_LEFT_BRACKET st;
       (if m then do {
          st \<leftarrow> seq [table_entry_expression rec, consume TOKEN_RIGHT_BRACKET ''Expect ']' after key.'',
                      consume TOKEN_EQUALS ''Expect '=' after key.'', table_entry_expression rec, set_entry] st;
          Some (i, st)
        }
        else do {
          (m, st) \<leftarrow> match_token TOKEN_IDENTIFIER st;
          (if m then do {
             let name = pprev st;
             (m, st) \<leftarrow> match_token TOKEN_EQUALS st;
             (if m then do {
                st \<leftarrow> seq [emit_string (ktext name), table_entry_expression rec, set_entry] st;
                Some (i, st)
              }
              else array_item i (named_variable rec name False) st)
           }
           else do {
             (m, st) \<leftarrow> match_token TOKEN_LESS st;
             (if m then do { st \<leftarrow> shorthand_fields rec st; Some (i, st) }
              else array_item i (table_entry_expression rec) st)
           })
        })
     }"

definition parse_table_entries :: "parser \<Rightarrow> cmd" where
  "parse_table_entries rec st =
     do {
       (_, st) \<leftarrow> repeat_while (\<lambda>(i, st).
           if check_token TOKEN_RIGHT_BRACE st \<or> check_token TOKEN_EOF st then Some (False, (i, st))
           else do {
             st \<leftarrow> emit_byte OP_DUP st;
             (i, st) \<leftarrow> table_entry rec i st;
             (m, st) \<leftarrow> match_token TOKEN_COMMA st;
             Some (m \<or> is_implicit_table_separator st, (i, st))
           }) (1, st);
       consume TOKEN_RIGHT_BRACE ''Expect '}' after table.'' st
     }"

definition table_infix :: "parser \<Rightarrow> cmd" where
  "table_infix rec st =
     seq [emit_byte OP_NEW_TABLE, parse_table_entries rec, emit_byte OP_SET_METATABLE,
          set_result_type (type_top st - 1) TYPEHINT_TABLE] st"

end
