(* ===== verification/Compile_Function.thy ===== *)
theory Compile_Function
  imports Compile_Access
begin

text \<open>
  Expressions that are compiled from a piece of source, comprehensions, function bodies and calls
  (\<open>src/src/compiler.c\<close>). A comprehension that reports an error after it has started its own function
  returns with \<open>current\<close> pointing to a compiler that no longer exists: that is \<open>None\<close>.
\<close>

section \<open>Compiling a string\<close>

text \<open>An expression of its own source; parser and scanner are as before afterwards.\<close>

definition compile_source :: "parser \<Rightarrow> bytes \<Rightarrow> cmd" where
  "compile_source rec s st =
     do {
       st' \<leftarrow> seq [advance, expression rec]
                (st\<lparr>src := s, lex := init_lexer, had_error := False, panic_mode := False\<rparr>);
       Some (st'\<lparr>src := src st, lex := lex st, pcur := pcur st, pprev := pprev st,
                 had_error := had_error st, panic_mode := panic_mode st\<rparr>)
     }"

definition compile_expression_from_string :: "parser \<Rightarrow> bytes \<Rightarrow> cmd" where
  "compile_expression_from_string rec s st =
     do {
       st' \<leftarrow> compile_source rec (trim_slice s) st;
       Some (st'\<lparr>ends_with_call := ends_with_call st, type_top := type_top st\<rparr>)
     }"

section \<open>Iteration\<close>

text \<open>A \<open>#\<close> directly after the loop variable.\<close>

definition index_sigil :: "ctoken \<Rightarrow> bool cval" where
  "index_sigil name st =
     (if \<not> check_token TOKEN_HASH st then Some (False, st)
      else do {
        st \<leftarrow> only_if (kpos (pcur st) \<noteq> map_option (\<lambda>p. p + length (ktext name)) (kpos name))
               (error_at_current ''Whitespace is not allowed before '#'.'') st;
        st \<leftarrow> advance st;
        Some (True, st)
      })"

text \<open>A name that is not in the source, on the line of the last token.\<close>

definition hidden :: "string \<Rightarrow> cst \<Rightarrow> ctoken" where
  "hidden = synthetic_token"

definition new_hidden :: "string \<Rightarrow> cmd" where
  "new_hidden name st = new_local (hidden name st) st"

definition get_local :: "nat \<Rightarrow> cmd" where
  "get_local i = emit_bytes OP_GET_LOCAL (of_nat i)"

definition set_local :: "nat \<Rightarrow> cmd" where
  "set_local i = emit_bytes OP_SET_LOCAL (of_nat i)"

text \<open>More iterator expressions, up to three; \<open>e\<close> compiles one.\<close>

definition more_iterators :: "cmd \<Rightarrow> nat \<Rightarrow> nat cval" where
  "more_iterators e n st =
     repeat_while (\<lambda>(n, st). do {
         (m, st) \<leftarrow> match_token TOKEN_COMMA st;
         (if m \<and> n < 3 then do { st \<leftarrow> e st; Some (True, (n + 1, st)) } else Some (False, (n, st)))
       }) (n, st)"

text \<open>
  The first iterator expression. \<open>start..end\<close> leaves its two bounds on the stack when the loop has
  one variable without \<open>#\<close>; the result says that it was one.
\<close>

definition first_iterator :: "cmd \<Rightarrow> bool \<Rightarrow> bool cval" where
  "first_iterator e eligible st =
     do {
       st \<leftarrow> e (st\<lparr>in_for_header := eligible\<rparr>);
       Some (eligible \<and> was_range st, st\<lparr>in_for_header := False\<rparr>)
     }"

text \<open>
  From the values of the iterator expressions on the stack to the loop body: the hidden locals of
  the iterator, the call of the iterator, the loop variables and the test for the end. The result
  is the start of the loop, the jump out of it and the number of loop variables.
\<close>

definition iteration_setup ::
  "nat \<Rightarrow> bool \<Rightarrow> bool \<Rightarrow> ctoken list \<Rightarrow> (nat \<times> nat \<times> nat) cval" where
  "iteration_setup n is_range sigil vars st =
     do {
       st \<leftarrow> only_if (n = 1 \<and> \<not> is_range) (\<lambda>st. do {
              st \<leftarrow> new_hidden ''(iterable)'' st;
              k \<leftarrow> local_count st;
              get_local (k - 1) st
            }) st;
       st \<leftarrow> (if is_range then Some st
               else if 1 < n then seq (replicate (3 - n) (emit_byte OP_NIL)) st
               else emit_byte (if sigil then OP_ITER_PREP_IPAIRS else OP_ITER_PREP) st);
       let total = (if is_range then n else if 1 < n then 3 else n);
       st \<leftarrow> only_if (sigil \<and> 1 < total)
              (error ''Index loop syntax 'i#' only works with implicit table iteration.'') st;
       let vars = (if length vars = 1 \<and> \<not> sigil then hidden ''(key)'' st # vars else vars);
       k \<leftarrow> local_count st;
       st \<leftarrow> add_local (hidden ''(iter)'' st) st;
       k1 \<leftarrow> local_count st;
       st \<leftarrow> add_local (hidden ''(state)'' st) st;
       k2 \<leftarrow> local_count st;
       st \<leftarrow> add_local (hidden ''(control)'' st) st;
       st \<leftarrow> mark_initialized_count 3 st;
       loop_start \<leftarrow> here st;
       st \<leftarrow> seq [get_local k, get_local k1, get_local k2, emit_call 2] st;
       st \<leftarrow> seq (replicate (2 - length vars) (emit_byte OP_POP)) st;
       st \<leftarrow> seq (map add_local vars @ [mark_initialized_count (length vars)]) st;
       n \<leftarrow> local_count st;
       st \<leftarrow> seq [get_local (n - length vars), emit_byte OP_NIL, emit_byte OP_EQUAL] st;
       (exit_jump, st) \<leftarrow> emit_jump OP_JUMP_IF_TRUE st;
       st \<leftarrow> seq [emit_byte OP_POP, get_local (n - length vars), set_local (n - length vars - 1),
                   emit_byte OP_POP] st;
       Some ((loop_start, exit_jump, length vars), st)
     }"

text \<open>The end of the loop; \<open>jumps\<close> go to the next iteration.\<close>

definition iteration_end :: "nat \<Rightarrow> nat \<Rightarrow> nat \<Rightarrow> nat list \<Rightarrow> cmd" where
  "iteration_end loop_start exit_jump var_count jumps =
     seq [pop_locals var_count, seq (map patch_jump jumps), emit_loop loop_start, patch_jump exit_jump,
          seq (replicate var_count (emit_byte OP_POP)), emit_byte OP_POP]"

section \<open>Comprehensions\<close>

text \<open>The tokens up to the given \<open>for\<close>; the result says that it was found.\<close>

definition skip_to_for :: "ctoken \<Rightarrow> bool cval" where
  "skip_to_for t st =
     do {
       st \<leftarrow> while_cmd (\<lambda>st. \<not> (ktype (pcur st) = KW ''FOR'' \<and> kpos (pcur st) = kpos t) \<and>
                              ktype (pcur st) \<noteq> TOKEN_EOF) advance st;
       Some (ktype (pcur st) = KW ''FOR'' \<and> kpos (pcur st) = kpos t, st)
     }"

text \<open>\<open>for x, y in e\<close> up to the loop body.\<close>

definition comprehension_header :: "parser \<Rightarrow> string \<Rightarrow> (nat \<times> nat \<times> nat) cval" where
  "comprehension_header rec msg st =
     do {
       st \<leftarrow> seq [consume (KW ''FOR'') msg, consume TOKEN_IDENTIFIER ''Expect variable name.''] st;
       let name = pprev st;
       (sigil, st) \<leftarrow> index_sigil name st;
       (m, st) \<leftarrow> match_token TOKEN_COMMA st;
       st \<leftarrow> only_if m (consume TOKEN_IDENTIFIER ''Expect second variable name.'') st;
       let vars = (if m then [name, pprev st] else [name]);
       st \<leftarrow> consume (KW ''IN'') ''Expect 'in'.'' st;
       (is_range, st) \<leftarrow> first_iterator (expression rec) (length vars = 1 \<and> \<not> sigil) st;
       st \<leftarrow> only_if (is_range \<and> check_token TOKEN_COMMA st) (\<lambda>_. None) st;
       st \<leftarrow> only_if is_range (emit_byte OP_RANGE) st;
       (n, st) \<leftarrow> more_iterators (expression rec) 1 st;
       iteration_setup n is_range sigil vars st
     }"

text \<open>A body under the comprehension's \<open>if\<close>.\<close>

definition comprehension_if :: "parser \<Rightarrow> cmd \<Rightarrow> cmd" where
  "comprehension_if rec inner st =
     do {
       (m, st) \<leftarrow> match_token (KW ''IF'') st;
       (if \<not> m then inner st
        else do {
          st \<leftarrow> expression rec st;
          (skip_jump, st) \<leftarrow> emit_jump OP_JUMP_IF_FALSE st;
          st \<leftarrow> seq [emit_byte OP_POP, inner] st;
          (end_jump, st) \<leftarrow> emit_jump OP_JUMP st;
          seq [patch_jump skip_jump, emit_byte OP_POP, patch_jump end_jump] st
        })
     }"

text \<open>The comprehension's function is done: it is called at once.\<close>

definition call_comprehension :: cmd where
  "call_comprehension st =
     do { (c, st) \<leftarrow> end_compiler st; seq [emit_closure c, emit_call 0] st }"

definition yield_element :: "parser \<Rightarrow> bytes \<Rightarrow> cmd" where
  "yield_element rec elem st =
     do {
       (a, st) \<leftarrow> copy_name (bytes_of ''coroutine'') st;
       (k, st) \<leftarrow> make_constant (VObj a) st;
       st \<leftarrow> emit_bytes OP_IMPORT k st;
       seq [emit_named OP_CONSTANT (hidden ''yield'' st), emit_byte OP_GET_TABLE,
            compile_expression_from_string rec elem, emit_call 1] st
     }"

definition generator_comprehension :: "parser \<Rightarrow> cmd" where
  "generator_comprehension rec st =
     (let expr_start = pcur st in
      do {
        t \<leftarrow> find_comprehension_for_until TOKEN_RIGHT_PAREN st;
        (case t of
           None \<Rightarrow> error ''Expected generator comprehension 'expr for ...'.'' st
         | Some t \<Rightarrow>
             do {
               elem \<leftarrow> source_between st expr_start t;
               (found, st) \<leftarrow> skip_to_for t st;
               (if \<not> found then error ''Expected 'for' in generator comprehension.'' st
                else do {
                  st \<leftarrow> seq [init_compiler False, begin_scope,
                              upd_function (\<lambda>f. f\<lparr>fn_is_generator := True\<rparr>)] st;
                  ((loop_start, exit_jump, var_count), st) \<leftarrow>
                    comprehension_header rec ''Expect 'for' in generator comprehension.'' st;
                  seq [comprehension_if rec (yield_element rec elem),
                       iteration_end loop_start exit_jump var_count [], call_comprehension,
                       type_push TYPEHINT_ANY, set_ends_with_call True] st
                })
             })
      })"

text \<open>\<open>{key = value for ...}\<close> or \<open>{value for ...}\<close>, which counts the elements.\<close>

definition table_element :: "parser \<Rightarrow> bytes \<Rightarrow> nat \<Rightarrow> nat \<Rightarrow> cmd" where
  "table_element rec elem list_slot idx_slot =
     (case find_comprehension_assign elem of
        Some i \<Rightarrow>
          seq [get_local list_slot, compile_expression_from_string rec (take i elem),
               compile_expression_from_string rec (drop (i + 1) elem), set_entry]
      | None \<Rightarrow>
          seq [get_local list_slot, get_local idx_slot, compile_expression_from_string rec elem, set_entry,
               get_local idx_slot, emit_constant (VNumber (dbl_of_int 1)), emit_byte OP_ADD,
               set_local idx_slot, emit_byte OP_POP])"

definition last_local :: "nat cval" where
  "last_local st = do { n \<leftarrow> local_count st; Some (n - 1, st) }"

definition table_comprehension :: "parser \<Rightarrow> cmd" where
  "table_comprehension rec st =
     (let expr_start = pcur st in
      do {
        t \<leftarrow> find_comprehension_for_until TOKEN_RIGHT_BRACE st;
        (case t of
           None \<Rightarrow> error ''Expected table comprehension 'expr for ...'.'' st
         | Some t \<Rightarrow>
             do {
               elem \<leftarrow> source_between st expr_start t;
               (found, st) \<leftarrow> skip_to_for t st;
               (if \<not> found then error ''Expected 'for' in table comprehension.'' st
                else do {
                  st \<leftarrow> seq [init_compiler False, begin_scope, emit_byte OP_NEW_TABLE,
                              new_hidden ''(list)''] st;
                  (list_slot, st) \<leftarrow> last_local st;
                  st \<leftarrow> seq [emit_constant (VNumber (dbl_of_int 1)), new_hidden ''(idx)''] st;
                  (idx_slot, st) \<leftarrow> last_local st;
                  ((loop_start, exit_jump, var_count), st) \<leftarrow>
                    comprehension_header rec ''Expect 'for' in table comprehension.'' st;
                  seq [comprehension_if rec (table_element rec elem list_slot idx_slot),
                       consume TOKEN_RIGHT_BRACE ''Expect '}' after table comprehension.'',
                       iteration_end loop_start exit_jump var_count [], get_local list_slot,
                       call_comprehension, set_ends_with_call True] st
                })
             })
      })"

definition table_prefix :: "parser \<Rightarrow> cmd" where
  "table_prefix rec st =
     do {
       comprehension \<leftarrow> is_table_comprehension_start (kline (pprev st)) st;
       seq [if comprehension then table_comprehension rec
            else seq [emit_byte OP_NEW_TABLE, parse_table_entries rec],
            set_result_type (type_top st) TYPEHINT_TABLE] st
     }"

definition grouping :: "parser \<Rightarrow> cmd" where
  "grouping rec st =
     do {
       comprehension \<leftarrow> (if check_token TOKEN_LEFT_PAREN st then Some False
                          else is_generator_comprehension_start (kline (pprev st)) st);
       seq [if comprehension then generator_comprehension rec else expression rec,
            consume TOKEN_RIGHT_PAREN ''Expect ')' after expression.''] st
     }"

end
