(* ===== verification/Compile_Decl.thy ===== *)
theory Compile_Decl
  imports Compile_Function
begin

text \<open>
  Function bodies, declarations, decorators, imports (\<open>src/src/compiler.c\<close>,
  \<open>src/src/compiler/stmt.c\<close>) and calls.
\<close>

section \<open>Parameters\<close>

definition param_type :: cmd where
  "param_type st =
     do {
       (m, st) \<leftarrow> match_token TOKEN_COLON st;
       only_if m (\<lambda>st. do {
           st \<leftarrow> consume TOKEN_IDENTIFIER ''Expect type name after ':'.'' st;
           n \<leftarrow> local_count st;
           let ty = parse_type_name (ktext (pprev st));
           seq [set_local_type (n - 1) ty, upd_function (\<lambda>f. set_param_type (nat (arity f - 1)) ty f)] st
         }) st
     }"

definition record_param_name :: "ctoken \<Rightarrow> cmd" where
  "record_param_name name st =
     do {
       (a, st) \<leftarrow> copy_name (ktext name) st;
       upd_function (\<lambda>f. set_param_name (nat (arity f - 1)) a f) st
     }"

definition add_default :: "val \<Rightarrow> cmd" where
  "add_default v = upd_function (\<lambda>f. f\<lparr>defaults := defaults f @ [v]\<rparr>)"

definition default_value :: cmd where
  "default_value st =
     (let ty = ktype (pcur st) in
      if ty = TOKEN_NUMBER then
        do { st \<leftarrow> advance st; add_default (VNumber (parse_number_token (pprev st))) st }
      else if ty = TOKEN_STRING then
        do { st \<leftarrow> advance st; (a, st) \<leftarrow> string_from_token (pprev st) st; add_default (VObj a) st }
      else if ty = KW ''NIL'' then seq [advance, add_default VNil] st
      else if ty = KW ''TRUE'' then seq [advance, add_default (VNumber (dbl_of_int 1))] st
      else if ty = KW ''FALSE'' then seq [advance, add_default VNil] st
      else error ''Default value must be a constant (number, string, nil, true, false).'' st)"

text \<open>Name, \<open>self\<close> and type of a parameter; the result is the constant of its name.\<close>

definition param_name :: "bool \<Rightarrow> string \<Rightarrow> byte cval" where
  "param_name is_first msg st =
     do {
       (k, st) \<leftarrow> parse_variable msg st;
       let name = pprev st;
       st \<leftarrow> seq [only_if (is_first \<and> ktext name = bytes_of ''self'')
                     (upd_function (\<lambda>f. f\<lparr>fn_is_self := True\<rparr>)),
                   param_type, record_param_name name] st;
       Some (k, st)
     }"

definition count_param :: cmd where
  "count_param = upd_function (\<lambda>f. f\<lparr>arity := arity f + 1\<rparr>)"

text \<open>A parameter; the result says whether another one can follow it.\<close>

definition parameter :: "bool \<Rightarrow> bool cval" where
  "parameter is_first st =
     do {
       (m, st) \<leftarrow> match_token TOKEN_STAR st;
       (if m then do {
          st \<leftarrow> seq [upd_function (\<lambda>f. f\<lparr>is_variadic := True\<rparr>), count_param] st;
          (k, st) \<leftarrow> param_name is_first ''Expect parameter name after '*'.'' st;
          st \<leftarrow> define_variable k st;
          Some (False, st)
        }
        else do {
          st \<leftarrow> count_param st;
          c \<leftarrow> comp st;
          st \<leftarrow> only_if (255 < arity (cfun c)) (error_at_current ''Can't have more than 255 parameters.'') st;
          (k, st) \<leftarrow> param_name is_first ''Expect parameter name.'' st;
          (m, st) \<leftarrow> match_token TOKEN_EQUALS st;
          c \<leftarrow> comp st;
          st \<leftarrow> (if m then default_value st
                  else only_if (defaults (cfun c) \<noteq> [])
                    (error ''Parameters with defaults cannot be followed by parameters without defaults.'') st);
          st \<leftarrow> define_variable k st;
          match_token TOKEN_COMMA st
        })
     }"

definition parameters :: cmd where
  "parameters st =
     (if check_token TOKEN_RIGHT_PAREN st then Some st
      else do {
        (_, st) \<leftarrow> repeat_while (\<lambda>(is_first, st). do {
            (more, st) \<leftarrow> parameter is_first st;
            Some (more, (False, st))
          }) (True, st);
        Some st
      })"

section \<open>Function bodies\<close>

text \<open>A body indented below its header in a table literal, where the scanner gives no tokens for it.\<close>

definition deeper_than :: "nat \<Rightarrow> cst \<Rightarrow> bool option" where
  "deeper_than indent st = do { n \<leftarrow> token_indent st (pcur st); Some (indent < n) }"

definition indented_statements :: "parser \<Rightarrow> token_type set \<Rightarrow> nat \<Rightarrow> nat \<Rightarrow> cmd" where
  "indented_statements rec stop header_line indent st =
     repeat_while (\<lambda>st.
         if ktype (pcur st) \<in> stop \<or> kline (pcur st) \<le> header_line then Some (False, st)
         else do {
           d \<leftarrow> deeper_than indent st;
           (if d then do { st \<leftarrow> rec Statement st; Some (True, st) } else Some (False, st))
         }) st"

definition function_statements :: "parser \<Rightarrow> cmd" where
  "function_statements rec st =
     (let header_line = kline (pprev st) in
      do {
        (m, st) \<leftarrow> match_token TOKEN_INDENT st;
        (if m then seq [maybe_capture_function_docstring, block rec, skip_token TOKEN_DEDENT] st
         else do {
           st \<leftarrow> only_if (header_line < kline (pcur st) \<and> \<not> in_table_entry st)
                  (error ''Expected indented block for function body.'') st;
           (if header_line < kline (pcur st) \<and> in_table_entry st then
              do {
                header_indent \<leftarrow> token_indent st (pprev st);
                d \<leftarrow> deeper_than header_indent st;
                (if \<not> d then error ''Expected indented block for function body.'' st
                 else seq [maybe_capture_function_docstring,
                           indented_statements rec {TOKEN_EOF, TOKEN_RIGHT_BRACE} header_line header_indent] st)
              }
            else do {
              st \<leftarrow> maybe_capture_function_docstring st;
              only_if (ktype (pcur st) \<notin> {TOKEN_EOF, TOKEN_DEDENT, TOKEN_RIGHT_BRACE}) (rec Statement) st
            })
         })
      })"

definition function_body :: "parser \<Rightarrow> cmd" where
  "function_body rec st =
     do {
       st \<leftarrow> seq [init_compiler False, begin_scope,
                   consume TOKEN_LEFT_PAREN ''Expect '(' after function name.'', parameters,
                   consume TOKEN_RIGHT_PAREN ''Expect ')' after parameters.'',
                   upd_comp (\<lambda>c. c\<lparr>clocals := map (\<lambda>l. if ldepth l = -1 then l\<lparr>ldepth := scope_depth c\<rparr> else l)
                                               (clocals c)\<rparr>),
                   function_statements rec] st;
       (c, st) \<leftarrow> end_compiler st;
       emit_closure c st
     }"

definition anonymous_function :: "parser \<Rightarrow> cmd" where
  "anonymous_function rec = seq [function_body rec, type_push TYPEHINT_ANY]"

section \<open>Declarations\<close>

text \<open>The values of \<open>n\<close> declared names; \<open>nil\<close> for those without one.\<close>

definition expression_list :: "parser \<Rightarrow> nat cval" where
  "expression_list rec st =
     repeat_while (\<lambda>(n, st). do {
         st \<leftarrow> fresh_expression rec st;
         (m, st) \<leftarrow> match_token TOKEN_COMMA st;
         Some (m, (n + 1, st))
       }) (0, st)"

definition initial_values :: "parser \<Rightarrow> nat \<Rightarrow> cmd" where
  "initial_values rec n st =
     do {
       (m, st) \<leftarrow> match_token TOKEN_EQUALS st;
       (if \<not> m then seq (replicate n (emit_byte OP_NIL)) st
        else do {
          many \<leftarrow> (if n = 1 then rhs_has_top_level_comma (kline (pcur st)) st else Some False);
          (if many then parse_array_literal_from_comma_list rec st
           else do {
             (k, st) \<leftarrow> expression_list rec st;
             only_if (1 < k) (seq (replicate (n - k) (emit_byte OP_NIL))) st
           })
        })
     }"

text \<open>Names separated by commas, at most 255 of them; the second result says whether there were more.\<close>

definition name_list :: "byte cval \<Rightarrow> (byte list \<times> bool) cval" where
  "name_list one st =
     do {
       (ks, more, st) \<leftarrow> repeat_while (\<lambda>(ks, more, st). do {
           (k, st) \<leftarrow> one st;
           (if 255 \<le> length ks
            then do {
              st \<leftarrow> error ''Too many variables in declaration.'' st;
              Some (False, (ks @ [k], True, st))
            }
            else do { (m, st) \<leftarrow> match_token TOKEN_COMMA st; Some (m, (ks @ [k], False, st)) })
         }) ([], False, st);
       Some ((ks, more), st)
     }"

definition variable_declaration :: "parser \<Rightarrow> cmd" where
  "variable_declaration rec st =
     do {
       ((ks, more), st) \<leftarrow> name_list (parse_variable ''Expect variable name.'') st;
       (if more then Some st
        else do {
          st \<leftarrow> initial_values rec (length ks) st;
          c \<leftarrow> comp st;
          st \<leftarrow> only_if (0 < scope_depth c) (mark_initialized_count (length ks)) st;
          seq (map define_variable (rev ks)) st
        })
     }"

definition declare_global :: "byte cval" where
  "declare_global st =
     do {
       st \<leftarrow> consume TOKEN_IDENTIFIER ''Expect variable name.'' st;
       st \<leftarrow> register_explicit_global (pprev st) st;
       identifier_constant (pprev st) st
     }"

definition global_declaration :: "parser \<Rightarrow> cmd" where
  "global_declaration rec st =
     do {
       ((ks, more), st) \<leftarrow> name_list declare_global st;
       f \<leftarrow> in_function st;
       (if more \<or> f \<and> \<not> check_token TOKEN_EQUALS st then Some st
        else seq [initial_values rec (length ks), seq (map (emit_bytes OP_DEFINE_GLOBAL) (rev ks))] st)
     }"

definition function_declaration_named :: "parser \<Rightarrow> ctoken cval" where
  "function_declaration_named rec st =
     do {
       (k, st) \<leftarrow> parse_variable ''Expect function name.'' st;
       let name = pprev st;
       c \<leftarrow> comp st;
       st \<leftarrow> seq [only_if (0 < scope_depth c) mark_initialized, function_body rec, define_variable k] st;
       Some (name, st)
     }"

definition function_declaration :: "parser \<Rightarrow> cmd" where
  "function_declaration rec st = do { (_, st) \<leftarrow> function_declaration_named rec st; Some st }"

definition global_function_declaration_named :: "parser \<Rightarrow> ctoken cval" where
  "global_function_declaration_named rec st =
     do {
       st \<leftarrow> consume TOKEN_IDENTIFIER ''Expect function name.'' st;
       let name = pprev st;
       (k, st) \<leftarrow> identifier_constant name st;
       st \<leftarrow> seq [function_body rec, emit_bytes OP_DEFINE_GLOBAL k] st;
       Some (name, st)
     }"

definition global_function_declaration :: "parser \<Rightarrow> cmd" where
  "global_function_declaration rec st =
     do { (_, st) \<leftarrow> global_function_declaration_named rec st; Some st }"

section \<open>Decorators\<close>

text \<open>The rest of the line after an \<open>@\<close>, up to the end of its last token.\<close>

definition decorator_span :: "bytes cval" where
  "decorator_span st =
     do {
       i \<leftarrow> kpos (pcur st);
       let line = kline (pprev st);
       (j, st') \<leftarrow> repeat_while (\<lambda>(j, st).
           if ktype (pcur st) \<noteq> TOKEN_EOF \<and> kline (pcur st) = line then
             do {
               p \<leftarrow> kpos (pcur st);
               st' \<leftarrow> advance st;
               Some (True, (p + length (ktext (pcur st)), st'))
             }
           else Some (False, (j, st))) (i, st);
       Some (take (j - i) (drop i (src st)), st')
     }"

text \<open>The spans of all decorators, \<open>None\<close> after an error.\<close>

definition decorator_spans :: "bytes list option cval" where
  "decorator_spans st =
     do {
       (spans, ok, st) \<leftarrow> repeat_while (\<lambda>(spans, ok, st).
           if kline (pcur st) \<noteq> kline (pprev st) \<or> ktype (pcur st) = TOKEN_EOF then
             do {
               st \<leftarrow> error ''Expect decorator expression after '@'.'' st;
               Some (False, (spans, False, st))
             }
           else do {
             (s, st) \<leftarrow> decorator_span st;
             (if length spans = 64 then
                do {
                  st \<leftarrow> error ''Too many decorators on function.'' st;
                  Some (False, (spans, False, st))
                }
              else do { (m, st) \<leftarrow> match_token TOKEN_AT st; Some (m, (spans @ [s], True, st)) })
           }) ([], True, st);
       Some (if ok then Some spans else None, st)
     }"

definition apply_decorators :: "parser \<Rightarrow> ctoken \<Rightarrow> bytes list \<Rightarrow> cmd" where
  "apply_decorators rec name spans =
     seq (map (\<lambda>s. seq [compile_expression_from_string rec s, emit_get_named name, emit_call 1,
                        emit_set_named name, emit_byte OP_POP]) (rev spans))"

definition decorated_function :: "parser \<Rightarrow> ctoken option cval" where
  "decorated_function rec st =
     do {
       (f, st) \<leftarrow> match_token (KW ''FN'') st;
       (if f then do { (name, st) \<leftarrow> function_declaration_named rec st; Some (Some name, st) }
        else do {
          (l, st) \<leftarrow> match_token (KW ''LOCAL'') st;
          (if l then do {
             st \<leftarrow> consume (KW ''FN'') ''Expect 'fn' after 'local' in decorated declaration.'' st;
             (name, st) \<leftarrow> function_declaration_named rec st;
             Some (Some name, st)
           }
           else do {
             (g, st) \<leftarrow> match_token (KW ''GLOBAL'') st;
             (if g then do {
                st \<leftarrow> consume (KW ''FN'') ''Expect 'fn' after 'global' in decorated declaration.'' st;
                (name, st) \<leftarrow> global_function_declaration_named rec st;
                Some (Some name, st)
              }
              else do {
                st \<leftarrow> error ''Decorators can only be applied to function declarations.'' st;
                Some (None, st)
              })
           })
        })
     }"

definition decorated_function_declaration :: "parser \<Rightarrow> cmd" where
  "decorated_function_declaration rec st =
     do {
       (spans, st) \<leftarrow> decorator_spans st;
       (case spans of
          None \<Rightarrow> Some st
        | Some spans \<Rightarrow>
            do {
              (name, st) \<leftarrow> decorated_function rec st;
              (case name of None \<Rightarrow> Some st | Some name \<Rightarrow> apply_decorators rec name spans st)
            })
     }"

section \<open>Imports\<close>

definition import_statement :: cmd where
  "import_statement =
     repeat_while (\<lambda>st. do {
         ((path, last), st) \<leftarrow> parse_module_path ''Expect module name after 'import'.'' st;
         st \<leftarrow> declare_variable (st\<lparr>pprev := last\<rparr>);
         (k, st) \<leftarrow> import_constant path st;
         st \<leftarrow> emit_bytes OP_IMPORT k st;
         c \<leftarrow> comp st;
         st \<leftarrow> (if 0 < scope_depth c then mark_initialized st else emit_named OP_DEFINE_GLOBAL last st);
         match_token TOKEN_COMMA st
       })"

definition imported_name :: "byte \<Rightarrow> cmd" where
  "imported_name path st =
     do {
       st \<leftarrow> consume TOKEN_IDENTIFIER ''Expect imported name.'' st;
       let name = pprev st;
       st \<leftarrow> seq [emit_bytes OP_IMPORT path, emit_string (ktext name), emit_byte OP_GET_TABLE] st;
       c \<leftarrow> comp st;
       (if 0 < scope_depth c then seq [declare_variable, mark_initialized] st
        else emit_named OP_DEFINE_GLOBAL name st)
     }"

definition from_import_statement :: cmd where
  "from_import_statement st =
     do {
       ((path, _), st) \<leftarrow> parse_module_path ''Expect module name after 'from'.'' st;
       st \<leftarrow> consume (KW ''IMPORT'') ''Expect 'import' after module path.'' st;
       (k, st) \<leftarrow> import_constant path st;
       (m, st) \<leftarrow> match_token TOKEN_STAR st;
       (if m then seq [emit_bytes OP_IMPORT k, emit_byte OP_IMPORT_STAR] st
        else repeat_while (\<lambda>st. do { st \<leftarrow> imported_name k st; match_token TOKEN_COMMA st }) st)
     }"

section \<open>Calls\<close>

text \<open>The arguments so far: their number (an 8-bit count), and whether some were named or spread.\<close>

record call_args =
  arg_count :: byte
  in_named_args :: bool
  has_spread_arg :: bool

definition next_is_named :: "cst \<Rightarrow> bool option" where
  "next_is_named st =
     (if \<not> check_token TOKEN_IDENTIFIER st then Some False
      else do { (t, _) \<leftarrow> peek_token st (lex st); Some (ktype t = TOKEN_EQUALS) })"

definition spread_argument :: "parser \<Rightarrow> call_args \<Rightarrow> call_args cval" where
  "spread_argument rec a st =
     do {
       st \<leftarrow> seq [only_if (in_named_args a) (error ''Spread argument cannot be used with named arguments.''),
                   only_if (has_spread_arg a) (error ''Can't use more than one spread argument.''),
                   only_if (arg_count a = 255) (error ''Can't have more than 255 arguments.''),
                   expression rec, type_drop] st;
       st \<leftarrow> only_if (check_token TOKEN_COMMA st) (error ''Spread argument must be last.'') st;
       Some (a\<lparr>has_spread_arg := True\<rparr>, st)
     }"

definition named_argument :: "parser \<Rightarrow> call_args \<Rightarrow> call_args cval" where
  "named_argument rec a st =
     do {
       st \<leftarrow> seq [only_if (has_spread_arg a) (error ''Named arguments cannot follow spread argument.''),
                   only_if (\<not> in_named_args a) (emit_byte OP_NEW_TABLE),
                   consume TOKEN_IDENTIFIER ''Expect parameter name.''] st;
       let name = pprev st;
       st \<leftarrow> seq [consume TOKEN_EQUALS ''Expect '=' after parameter name.'', emit_byte OP_DUP,
                   emit_string (ktext name), expression rec, type_drop, set_entry] st;
       Some (a\<lparr>in_named_args := True\<rparr>, st)
     }"

text \<open>The second result says that a generator was the only argument.\<close>

definition positional_argument :: "parser \<Rightarrow> call_args \<Rightarrow> (call_args \<times> bool) cval" where
  "positional_argument rec a st =
     do {
       st \<leftarrow> seq [only_if (in_named_args a) (error ''Positional arguments cannot follow named arguments.''),
                   only_if (has_spread_arg a) (error ''Positional arguments cannot follow spread argument.'')] st;
       t \<leftarrow> (if arg_count a = 0 \<and> \<not> check_token TOKEN_LEFT_PAREN st
              then find_comprehension_for_until TOKEN_RIGHT_PAREN st else Some None);
       (if t \<noteq> None then
          do {
            st \<leftarrow> seq [generator_comprehension rec, type_drop] st;
            Some ((a\<lparr>arg_count := arg_count a + 1\<rparr>, True), st)
          }
        else do {
          st \<leftarrow> seq [expression rec, type_drop,
                      only_if (arg_count a = 255) (error ''Can't have more than 255 arguments.'')] st;
          Some ((a\<lparr>arg_count := arg_count a + 1\<rparr>, False), st)
        })
     }"

definition argument :: "parser \<Rightarrow> call_args \<Rightarrow> (call_args \<times> bool) cval" where
  "argument rec a st =
     do {
       (m, st) \<leftarrow> match_token TOKEN_STAR st;
       (if m then do { (a, st) \<leftarrow> spread_argument rec a st; Some ((a, False), st) }
        else do {
          named \<leftarrow> next_is_named st;
          (if named then do { (a, st) \<leftarrow> named_argument rec a st; Some ((a, False), st) }
           else positional_argument rec a st)
        })
     }"

definition arguments :: "parser \<Rightarrow> call_args cval" where
  "arguments rec st =
     (let none = \<lparr>arg_count = 0, in_named_args = False, has_spread_arg = False\<rparr> in
      if check_token TOKEN_RIGHT_PAREN st then Some (none, st)
      else repeat_while (\<lambda>(a, st). do {
          ((a, only), st) \<leftarrow> argument rec a st;
          (if only then Some (False, (a, st))
           else do { (m, st) \<leftarrow> match_token TOKEN_COMMA st; Some (m, (a, st)) })
        }) (none, st))"

definition parse_call :: "parser \<Rightarrow> cmd" where
  "parse_call rec st =
     (let base = type_top st in
      do {
        (a, st) \<leftarrow> arguments rec st;
        st \<leftarrow> only_if (in_named_args a \<and> arg_count a = 255)
               (error ''Can't have more than 255 arguments.'') st;
        let n = (if in_named_args a then arg_count a + 1 else arg_count a);
        seq [consume TOKEN_RIGHT_PAREN ''Expect ')' after arguments.'',
             if has_spread_arg a then emit_bytes OP_CALL_EXPAND n
             else if in_named_args a then emit_bytes OP_CALL_NAMED n else emit_call n,
             set_ends_with_call True, set_type_top base, type_drop, type_push TYPEHINT_ANY] st
      })"

end
