(* ===== verification/Compile_Fstring.thy ===== *)
theory Compile_Fstring
  imports Compile_Decl
begin

text \<open>
  Interpolated strings (\<open>src/src/compiler/fstring.c\<close> and \<open>emit_simple_fstring_expr\<close>). The text of the
  token is cut into literals and holes; a hole is compiled as an expression of its own source.
\<close>

section \<open>Cutting the text\<close>

definition is_ident_start_char :: "byte \<Rightarrow> bool" where
  "is_ident_start_char c \<longleftrightarrow> c = 95 \<or> 97 \<le> c \<and> c \<le> 122 \<or> 65 \<le> c \<and> c \<le> 90"

definition is_ident_char :: "byte \<Rightarrow> bool" where
  "is_ident_char c \<longleftrightarrow> is_ident_start_char c \<or> 48 \<le> c \<and> c \<le> 57"

text \<open>The characters before two closing brackets, and those up to a closing quote.\<close>

fun before_close :: "bytes \<Rightarrow> nat" where
  "before_close [] = 0"
| "before_close (c # cs) = (if c = 93 \<and> cs \<noteq> [] \<and> hd cs = 93 then 0 else Suc (before_close cs))"

fun quote_len :: "byte \<Rightarrow> bytes \<Rightarrow> nat" where
  "quote_len q [] = 0"
| "quote_len q [c] = 1"
| "quote_len q (c # d # cs) =
     (if c = 92 then 2 + quote_len q cs else if c = q then 1 else 1 + quote_len q (d # cs))"

text \<open>
  The length of the string, comment or escape at the start; both scans of a hole pass over them.
\<close>

definition opaque_len :: "bytes \<Rightarrow> nat" where
  "opaque_len cs =
     (case cs of
        [] \<Rightarrow> 0
      | c # r \<Rightarrow>
          if c = 91 \<and> r \<noteq> [] \<and> hd r = 91 then min (length cs) (4 + before_close (tl r))
          else if c = 45 \<and> r \<noteq> [] \<and> hd r = 45 then 2 + length (takeWhile (\<lambda>b. b \<noteq> 10) (tl r))
          else if c = 34 \<or> c = 39 then 1 + quote_len c r
          else if c = 92 then (if r = [] then 1 else 2)
          else 0)"

text \<open>The characters of a hole, with \<open>depth\<close> braces open.\<close>

function hole_len :: "nat \<Rightarrow> bytes \<Rightarrow> nat" where
  "hole_len depth cs =
     (case cs of
        [] \<Rightarrow> 0
      | c # r \<Rightarrow>
          if 0 < opaque_len cs then opaque_len cs + hole_len depth (drop (opaque_len cs) cs)
          else let d = (if c = 123 then depth + 1 else if c = 125 then depth - 1 else depth)
               in if d = 0 then 0 else 1 + hole_len d r)"
  by pat_completeness auto
termination by (relation "measure (\<lambda>(_, cs). length cs)") auto

declare hole_len.simps [simp del]

function pipe_offset :: "nesting \<Rightarrow> bytes \<Rightarrow> nat option" where
  "pipe_offset n cs =
     (case cs of
        [] \<Rightarrow> None
      | c # r \<Rightarrow>
          if 0 < opaque_len cs
          then map_option ((+) (opaque_len cs)) (pipe_offset n (drop (opaque_len cs) cs))
          else if c = 124 \<and> n = no_nesting then Some 0
          else map_option Suc (pipe_offset
                 (if c = 40 then n\<lparr>paren := paren n + 1\<rparr> else if c = 41 then n\<lparr>paren := paren n - 1\<rparr>
                  else if c = 91 then n\<lparr>bracket := bracket n + 1\<rparr>
                  else if c = 93 then n\<lparr>bracket := bracket n - 1\<rparr>
                  else if c = 123 then n\<lparr>brace := brace n + 1\<rparr>
                  else if c = 125 then n\<lparr>brace := brace n - 1\<rparr> else n) r))"
  by pat_completeness auto
termination by (relation "measure (\<lambda>(_, cs). length cs)") auto

declare pipe_offset.simps [simp del]

definition find_top_level_pipe :: "bytes \<Rightarrow> nat option" where
  "find_top_level_pipe = pipe_offset no_nesting"

fun unescape_fstring_expr_slice :: "bytes \<Rightarrow> bytes" where
  "unescape_fstring_expr_slice [] = []"
| "unescape_fstring_expr_slice [c] = [c]"
| "unescape_fstring_expr_slice (c # d # cs) =
     (if c = 92 \<and> d \<in> {34, 92, 123, 125} then d # unescape_fstring_expr_slice cs
      else c # unescape_fstring_expr_slice (d # cs))"

text \<open>The characters of a literal, and what they stand for.\<close>

fun literal_len :: "bytes \<Rightarrow> nat" where
  "literal_len [] = 0"
| "literal_len [c] = (if c = 123 then 0 else 1)"
| "literal_len (c # d # cs) =
     (if c = 123 then 0 else if c = 92 then 2 + literal_len cs else 1 + literal_len (d # cs))"

fun decode_literal :: "bytes \<Rightarrow> bytes" where
  "decode_literal [] = []"
| "decode_literal [c] = [c]"
| "decode_literal (c # e # cs) =
     (if c = 92 then
        (if e = 110 then [10] else if e = 116 then [9] else if e = 114 then [13]
         else if e \<in> {34, 92, 123, 125} then [e] else [92, e]) @ decode_literal cs
      else c # decode_literal (e # cs))"

datatype piece = Literal bytes | Hole bytes

function pieces :: "bytes \<Rightarrow> piece list" where
  "pieces cs =
     (if cs = [] then []
      else
        let n = literal_len cs;
            lit = (if n = 0 then [] else [Literal (take n cs)])
        in case drop n cs of
             [] \<Rightarrow> lit
           | _ # r \<Rightarrow>
               let k = hole_len 1 r
               in lit @ (if k = 0 then [] else [Hole (take k r)]) @ pieces (drop (k + 1) r))"
  by pat_completeness auto
termination
proof (relation "measure length", goal_cases)
  case (2 cs n lit c r k)
  then have "length r < length cs"
    by (metis drop_eq_Nil length_Cons length_drop lessI less_imp_diff_less linorder_not_le list.discI
        order_less_le_trans diff_le_self)
  then show ?case by simp
qed simp

declare pieces.simps [simp del]

section \<open>Simple holes\<close>

text \<open>A name, or \<open>name % digits\<close>; the digits may have underscores anywhere.\<close>

definition skip_space_slice :: "bytes \<Rightarrow> bytes" where
  "skip_space_slice = dropWhile is_space_char"

definition parse_int_slice :: "bytes \<Rightarrow> double option" where
  "parse_int_slice s =
     (let ds = filter (\<lambda>b. b \<noteq> 95) (takeWhile (\<lambda>b. b = 95 \<or> is_digit b) s);
          rest = skip_space_slice (dropWhile (\<lambda>b. b = 95 \<or> is_digit b) s)
      in if ds = [] \<or> rest \<noteq> [] then None
         else Some (foldl (\<lambda>v b. dadd (dmul v (dbl_of_int 10)) (dbl_of_int (uint b - 48))) (dzero False) ds))"

definition name_token :: "bytes \<Rightarrow> cst \<Rightarrow> ctoken" where
  "name_token name st = \<lparr>ktype = TOKEN_IDENTIFIER, kpos = None, ktext = name, kline = kline (pprev st)\<rparr>"

definition emit_simple_fstring_expr :: "bytes \<Rightarrow> bool cval" where
  "emit_simple_fstring_expr e st =
     (let s = skip_space_slice e;
          name = takeWhile is_ident_char s;
          rest = skip_space_slice (dropWhile is_ident_char s)
      in if s = [] \<or> \<not> is_ident_start_char (hd s) then Some (False, st)
         else if rest = [] then
           do {
             st \<leftarrow> seq [emit_get_named (name_token name st), type_push TYPEHINT_ANY] st;
             Some (True, st)
           }
         else if hd rest \<noteq> 37 then Some (False, st)
         else case parse_int_slice (skip_space_slice (tl rest)) of
           None \<Rightarrow> Some (False, st)
         | Some d \<Rightarrow>
             do {
               st \<leftarrow> seq [emit_get_named (name_token name st), emit_constant (VNumber d), emit_byte OP_IMOD,
                           type_push TYPEHINT_INT] st;
               Some (True, st)
             })"

section \<open>Formatted and general holes\<close>

definition compile_fstring_expression_slice :: "parser \<Rightarrow> bytes \<Rightarrow> cmd" where
  "compile_fstring_expression_slice rec e st =
     (let e = trim_slice e in
      if e = [] then error ''f-string interpolation is empty.'' st
      else compile_source rec (unescape_fstring_expr_slice e) st)"

fun escape_format :: "bytes \<Rightarrow> bytes" where
  "escape_format [] = []"
| "escape_format (c # cs) = (if c = 92 \<or> c = 34 then [92, c] else [c]) @ escape_format cs"

text \<open>\<open>{e | spec}\<close> is compiled as \<open>(import string).format("%spec", (e))\<close>.\<close>

definition format_call_source :: "bytes \<Rightarrow> bytes \<Rightarrow> bytes" where
  "format_call_source e spec =
     bytes_of ''(import string).format('' @ [34] @
     escape_format (if hd spec = 37 then spec else 37 # spec) @ [34] @ bytes_of '', ('' @
     unescape_fstring_expr_slice e @ bytes_of ''))''"

definition emit_fstring_format_call :: "parser \<Rightarrow> bytes \<Rightarrow> bytes \<Rightarrow> bool cval" where
  "emit_fstring_format_call rec e spec st =
     (let e = trim_slice e; spec = trim_slice spec in
      if e = [] then
        do { st \<leftarrow> error ''f-string interpolation format: missing expression before '|'.'' st; Some (False, st) }
      else if spec = [] then
        do {
          st \<leftarrow> error ''f-string interpolation format: missing format specifier after '|'.'' st;
          Some (False, st)
        }
      else do { st \<leftarrow> compile_source rec (format_call_source e spec) st; Some (True, st) })"

text \<open>The code of a piece, which says whether it leaves a value.\<close>

definition emit_piece :: "parser \<Rightarrow> piece \<Rightarrow> bool cval" where
  "emit_piece rec p st =
     (case p of
        Literal s \<Rightarrow> do { st \<leftarrow> emit_string (decode_literal s) st; Some (True, st) }
      | Hole e \<Rightarrow>
          (case find_top_level_pipe e of
             Some i \<Rightarrow> emit_fstring_format_call rec (take i e) (drop (i + 1) e) st
           | None \<Rightarrow>
               do {
                 (simple, st) \<leftarrow> emit_simple_fstring_expr e st;
                 st \<leftarrow> only_if (\<not> simple) (compile_fstring_expression_slice rec e) st;
                 Some (True, st)
               }))"

primrec emit_pieces :: "parser \<Rightarrow> piece list \<Rightarrow> nat cval" where
  "emit_pieces rec [] st = Some (0, st)"
| "emit_pieces rec (p # ps) st =
     do {
       (b, st) \<leftarrow> emit_piece rec p st;
       (n, st) \<leftarrow> emit_pieces rec ps st;
       Some (if b then n + 1 else n, st)
     }"

text \<open>The text between the quotes or brackets of an f-string token.\<close>

definition fstring_text :: "bytes \<Rightarrow> bytes option" where
  "fstring_text t =
     (let n = length t in
      if 5 \<le> n \<and> t ! 0 = 102 \<and> t ! 1 = 91 \<and> t ! 2 = 91 \<and> t ! (n - 2) = 93 \<and> t ! (n - 1) = 93
      then Some (take (n - 5) (drop 3 t))
      else if 4 \<le> n \<and> t ! 0 = 102 \<and> (t ! 1 = 34 \<or> t ! 1 = 39) then Some (take (n - 3) (drop 2 t))
      else None)"

definition fstring :: "parser \<Rightarrow> cmd" where
  "fstring rec st =
     (let finish = set_result_type (type_top st) TYPEHINT_STR in
      case fstring_text (ktext (pprev st)) of
        None \<Rightarrow> seq [error ''Invalid f-string token.'', finish] st
      | Some s \<Rightarrow>
          do {
            (n, st) \<leftarrow> emit_pieces rec (pieces s) st;
            (if n = 0 then seq [emit_string [], finish] st
             else if 255 < n then seq [error ''f-string has too many parts.'', finish] st
             else seq [emit_bytes OP_BUILD_STRING (of_nat n), finish] st)
          })"

end
