(* ===== verification/Compile_Stmt.thy ===== *)
theory Compile_Stmt
  imports Compile_Fstring
begin

text \<open>
  Statements (\<open>src/src/compiler/stmt_control.c\<close>). The jumps of \<open>break\<close> and \<open>continue\<close> are recorded
  in the loop they leave and patched at its end; more than 256 of them would be written past the end
  of the array, which is \<open>None\<close>.
\<close>

section \<open>Simple statements\<close>

text \<open>Expressions separated by commas, at most 255 of them; \<open>None\<close> after the error.\<close>

definition print_arguments :: "parser \<Rightarrow> byte option cval" where
  "print_arguments rec st =
     do {
       (n, ok, st) \<leftarrow> repeat_while (\<lambda>(n, ok, st). do {
           st \<leftarrow> fresh_expression rec st;
           (if n = 255 then
              do { st \<leftarrow> error ''Can't print more than 255 values.'' st; Some (False, (n, False, st)) }
            else do { (m, st) \<leftarrow> match_token TOKEN_COMMA st; Some (m, (n + 1, True, st)) })
         }) (0, True, st);
       Some (if ok then Some n else None, st)
     }"

definition print_stmt :: "parser \<Rightarrow> cmd" where
  "print_stmt rec st =
     do {
       (m, st) \<leftarrow> match_token TOKEN_LEFT_PAREN st;
       (n, st) \<leftarrow> (if m \<and> check_token TOKEN_RIGHT_PAREN st then Some (Some 0, st)
                    else print_arguments rec st);
       (case n of
          None \<Rightarrow> Some st
        | Some n \<Rightarrow>
            seq [only_if m (consume TOKEN_RIGHT_PAREN ''Expect ')' after print arguments.''),
                 emit_bytes OP_PRINT n] st)
     }"

definition delete_variable :: "ctoken \<Rightarrow> cmd" where
  "delete_variable name st =
     do {
       (arg, st) \<leftarrow> resolve_local name st;
       (case arg of
          Some i \<Rightarrow> seq [emit_byte OP_NIL, emit_bytes OP_SET_LOCAL (of_nat i), emit_byte OP_POP] st
        | None \<Rightarrow>
            do {
              (arg, st) \<leftarrow> resolve_upvalue name st;
              (case arg of
                 Some k \<Rightarrow> seq [emit_byte OP_NIL, emit_bytes OP_SET_UPVALUE (of_nat k), emit_byte OP_POP] st
               | None \<Rightarrow> emit_named OP_DELETE_GLOBAL name st)
            })
     }"

definition access_follows :: "cst \<Rightarrow> bool" where
  "access_follows st \<longleftrightarrow> check_token TOKEN_DOT st \<or> check_token TOKEN_LEFT_BRACKET st"

definition delete_access_chain :: "parser \<Rightarrow> cmd" where
  "delete_access_chain rec =
     repeat_while (\<lambda>st. do {
         (d, st) \<leftarrow> match_token TOKEN_DOT st;
         (b, st) \<leftarrow> (if d then Some (False, st) else match_token TOKEN_LEFT_BRACKET st);
         (if \<not> d \<and> \<not> b then
            do { st \<leftarrow> error ''Expect property or index to delete.'' st; Some (False, st) }
          else do {
            st \<leftarrow> (if d then do { (k, st) \<leftarrow> property_name st; emit_bytes OP_CONSTANT k st }
                    else seq [expression rec, consume TOKEN_RIGHT_BRACKET ''Expect ']' after index.''] st);
            st' \<leftarrow> emit_byte (if access_follows st then OP_GET_TABLE else OP_DELETE_TABLE) st;
            Some (access_follows st, st')
          })
       })"

text \<open>One target; the result says that it was in order.\<close>

definition del_target :: "parser \<Rightarrow> bool cval" where
  "del_target rec st =
     do {
       (m, st) \<leftarrow> match_token TOKEN_IDENTIFIER st;
       (if m then do {
          let name = pprev st;
          st \<leftarrow> (if access_follows st then seq [named_variable rec name False, delete_access_chain rec] st
                  else delete_variable name st);
          Some (True, st)
        }
        else do {
          (m, st) \<leftarrow> match_token TOKEN_LEFT_PAREN st;
          (if m then do {
             st \<leftarrow> seq [expression rec, consume TOKEN_RIGHT_PAREN ''Expect ')' after expression.''] st;
             (if access_follows st then do { st \<leftarrow> delete_access_chain rec st; Some (True, st) }
              else do { st \<leftarrow> error ''Expect property or index to delete.'' st; Some (False, st) })
           }
           else do {
             st \<leftarrow> error ''Expect variable or table access after 'del'.'' st;
             Some (False, st)
           })
        })
     }"

definition del_statement :: "parser \<Rightarrow> cmd" where
  "del_statement rec =
     repeat_while (\<lambda>st. do {
         (ok, st) \<leftarrow> del_target rec st;
         (if ok then match_token TOKEN_COMMA st else Some (False, st))
       })"

definition expression_statement :: "parser \<Rightarrow> cmd" where
  "expression_statement rec st =
     do {
       st \<leftarrow> fresh_expression rec st;
       c \<leftarrow> comp st;
       only_if (\<not> is_repl st)
         (seq [emit_byte OP_POP,
               only_if (0 < scope_depth c) (emit_bytes OP_ADJUST_STACK (of_nat (length (clocals c))))]) st
     }"

definition throw_statement :: "parser \<Rightarrow> cmd" where
  "throw_statement rec = seq [fresh_expression rec, emit_byte OP_THROW]"

definition assert_statement :: "parser \<Rightarrow> cmd" where
  "assert_statement rec st =
     do {
       st \<leftarrow> fresh_expression rec st;
       (fail_jump, st) \<leftarrow> emit_jump OP_JUMP_IF_FALSE st;
       st \<leftarrow> emit_byte OP_POP st;
       (done_jump, st) \<leftarrow> emit_jump OP_JUMP st;
       st \<leftarrow> seq [patch_jump fail_jump, emit_byte OP_POP] st;
       (m, st) \<leftarrow> match_token TOKEN_COMMA st;
       seq [if m then fresh_expression rec else emit_string (bytes_of ''assert failed''),
            emit_byte OP_THROW, patch_jump done_jump] st
     }"

text \<open>The number of values is passed on in eight bits.\<close>

definition yield_statement :: "parser \<Rightarrow> cmd" where
  "yield_statement rec st =
     do {
       f \<leftarrow> in_function st;
       (if \<not> f then error ''Can't use 'yield' outside a function.'' st
        else do {
          st \<leftarrow> upd_function (\<lambda>f. f\<lparr>fn_is_generator := True\<rparr>) st;
          let (coroutine, yield) = (hidden ''coroutine'' st, hidden ''yield'' st);
          st \<leftarrow> seq [emit_named OP_GET_GLOBAL coroutine, emit_named OP_CONSTANT yield,
                      emit_byte OP_GET_TABLE] st;
          (n, st) \<leftarrow> (if ktype (pcur st) \<in> {KW ''ELSE'', KW ''ELIF'', TOKEN_DEDENT, TOKEN_EOF}
                       then Some (0, st) else expression_list rec st);
          emit_call (of_nat n) st
        })
     }"

definition return_statement :: "parser \<Rightarrow> cmd" where
  "return_statement rec st =
     do {
       (m, st) \<leftarrow> match_token TOKEN_SEMICOLON st;
       (if m then emit_return st
        else if ktype (pcur st) \<in> {KW ''ELSE'', KW ''ELIF'', TOKEN_EOF}
        then seq [emit_byte OP_NIL, emit_byte OP_RETURN] st
        else do {
          (n, st) \<leftarrow> expression_list rec st;
          (if n = 1 then emit_byte OP_RETURN st else emit_bytes OP_RETURN_N (of_nat n) st)
        })
     }"

section \<open>Assignment to several names\<close>

definition match_identifier_keyword :: "string \<Rightarrow> bool cval" where
  "match_identifier_keyword keyword st =
     (if check_token TOKEN_IDENTIFIER st \<and> ktext (pcur st) = bytes_of keyword
      then do { st \<leftarrow> advance st; Some (True, st) } else Some (False, st))"

text \<open>The tokens after the first name: \<open>, name\<close> any number of times, then \<open>=\<close> on the same line.\<close>

definition targets_step :: "nat \<Rightarrow> bool \<times> bool \<Rightarrow> ctoken \<Rightarrow> (bool \<times> bool) + bool" where
  "targets_step start_line s t =
     (let (want_name, many) = s in
      if start_line < kline t then Inr False
      else if want_name then
        (if ktype t = TOKEN_IDENTIFIER then Inl (False, True) else Inr False)
      else if ktype t = TOKEN_COMMA then Inl (True, many)
      else Inr (ktype t = TOKEN_EQUALS \<and> many))"

definition is_multi_assignment_statement :: "cst \<Rightarrow> bool option" where
  "is_multi_assignment_statement st =
     (if \<not> check_token TOKEN_IDENTIFIER st then Some False
      else do {
        (_, _, r) \<leftarrow> repeat_while (\<lambda>(lx, s, _). do {
            (t, lx) \<leftarrow> peek_token st lx;
            (case targets_step (kline (pcur st)) s t of
               Inl s \<Rightarrow> Some (True, (lx, s, False))
             | Inr r \<Rightarrow> Some (False, (lx, s, r)))
          }) (lex st, (False, False), False);
        Some r
      })"

definition assign_name_from_stack :: "ctoken \<Rightarrow> byte \<Rightarrow> cmd" where
  "assign_name_from_stack name ty st =
     do {
       (arg, st) \<leftarrow> resolve_local name st;
       declared \<leftarrow> is_explicit_global_name name st;
       c \<leftarrow> comp st;
       (case arg of
          Some i \<Rightarrow> seq [emit_bytes OP_SET_LOCAL (of_nat i), update_local_type i ty] st
        | None \<Rightarrow>
            if declared then emit_named OP_SET_GLOBAL name st
            else do {
              (arg, st) \<leftarrow> resolve_upvalue name st;
              (case arg of
                 Some k \<Rightarrow> emit_bytes OP_SET_UPVALUE (of_nat k) st
               | None \<Rightarrow>
                   if is_repl st \<and> is_script c then
                     do {
                       (g, st) \<leftarrow> identifier_constant name st;
                       seq [emit_byte OP_DUP, emit_bytes OP_DEFINE_GLOBAL g] st
                     }
                   else bind_new_local name ty st)
            })
     }"

text \<open>The targets, at most 255 of them; the second result says whether there were more.\<close>

definition assignment_targets :: "(ctoken list \<times> bool) cval" where
  "assignment_targets st =
     do {
       (ts, more, st) \<leftarrow> repeat_while (\<lambda>(ts, more, st). do {
           st \<leftarrow> consume TOKEN_IDENTIFIER ''Expect variable name.'' st;
           (if 255 \<le> length ts then
              do {
                st \<leftarrow> error ''Too many variables in assignment.'' st;
                Some (False, (ts @ [pprev st], True, st))
              }
            else do {
              let ts = ts @ [pprev st];
              (m, st) \<leftarrow> match_token TOKEN_COMMA st;
              Some (m, (ts, False, st))
            })
         }) ([], False, st);
       Some ((ts, more), st)
     }"

text \<open>New locals for the targets that are neither global nor local yet, each name once.\<close>

primrec declare_targets :: "bytes list \<Rightarrow> ctoken list \<Rightarrow> nat cval" where
  "declare_targets seen [] st = Some (0, st)"
| "declare_targets seen (t # ts) st =
     do {
       global \<leftarrow> is_explicit_global_name t st;
       (arg, st) \<leftarrow> (if global then Some (None, st) else resolve_local t st);
       (if global \<or> arg \<noteq> None \<or> ktext t \<in> set seen
        then declare_targets (seen @ [ktext t]) ts st
        else do {
          st \<leftarrow> add_local t st;
          (n, st) \<leftarrow> declare_targets (seen @ [ktext t]) ts st;
          Some (n + 1, st)
        })
     }"

definition adjust_stack :: cmd where
  "adjust_stack st = do { n \<leftarrow> local_count st; emit_bytes OP_ADJUST_STACK (of_nat n) st }"

definition multi_assignment_statement :: "parser \<Rightarrow> cmd" where
  "multi_assignment_statement rec st =
     do {
       ((ts, more), st) \<leftarrow> assignment_targets st;
       (if more then Some st
        else do {
          c \<leftarrow> comp st;
          st \<leftarrow> only_if (\<not> (is_repl st \<and> is_script c)) (\<lambda>st. do {
                 (n, st) \<leftarrow> declare_targets [] ts st;
                 mark_initialized_count n st
               }) st;
          st \<leftarrow> seq [consume TOKEN_EQUALS ''Expect '=' in assignment.'', adjust_stack] st;
          (n, st) \<leftarrow> expression_list rec st;
          k \<leftarrow> local_count st;
          st \<leftarrow> (if 1 < n then seq (replicate (length ts - n) (emit_byte OP_NIL)) st
                  else seq [emit_byte OP_UNPACK, emit_byte (of_nat k), emit_byte (of_nat (length ts))] st);
          st \<leftarrow> seq (map (\<lambda>t. seq [assign_name_from_stack t TYPEHINT_ANY, emit_byte OP_POP]) (rev ts)) st;
          adjust_stack st
        })
     }"

end
