(* ===== verification/Opt.thy ===== *)
theory Opt
  imports Object
begin

text \<open>
  The bytecode optimizer (\<open>src/src/opt.c\<close>): it marks the targets of jumps, rewrites the code
  from left to right with eight patterns, and writes the distances of the jumps it has copied
  for the new positions. \<open>None\<close> stands for reading outside of the code or the constants and for
  a conversion that C leaves undefined. \<open>pow\<close> of the C library is the parameter \<open>pw\<close>.
\<close>

section \<open>Instructions\<close>

definition closure_length :: "heap \<Rightarrow> val \<Rightarrow> nat option" where
  "closure_length h v =
     (case v of
        VObj a \<Rightarrow>
          (case obj_at h a of
             None \<Rightarrow> None
           | Some (OFunction f) \<Rightarrow> Some (2 + upvalue_count f * 2)
           | Some _ \<Rightarrow> Some 2)
      | _ \<Rightarrow> Some 2)"

definition instr_length :: "heap \<Rightarrow> chunk \<Rightarrow> nat \<Rightarrow> nat option" where
  "instr_length h c i =
     do {
       op \<leftarrow> at (code c) i;
       (if op \<in> {OP_CONSTANT, OP_ADD_CONST, OP_SUB_CONST, OP_MUL_CONST, OP_DIV_CONST, OP_MOD_CONST,
                 OP_GET_GLOBAL, OP_DEFINE_GLOBAL, OP_SET_GLOBAL, OP_DELETE_GLOBAL, OP_GET_LOCAL,
                 OP_SET_LOCAL, OP_ADD_SET_LOCAL, OP_SUB_SET_LOCAL, OP_MUL_SET_LOCAL, OP_DIV_SET_LOCAL,
                 OP_MOD_SET_LOCAL, OP_GET_UPVALUE, OP_SET_UPVALUE, OP_RETURN_N, OP_ADJUST_STACK,
                 OP_CALL, OP_CALL_NAMED, OP_CALL_EXPAND, OP_IMPORT, OP_BUILD_STRING} then Some 2
        else if op \<in> {OP_CALL0, OP_CALL1, OP_CALL2} then Some 1
        else if op = OP_TRY then Some 7
        else if op \<in> {OP_INC_LOCAL, OP_SUB_LOCAL_CONST, OP_MUL_LOCAL_CONST, OP_DIV_LOCAL_CONST,
                      OP_MOD_LOCAL_CONST, OP_UNPACK} then Some 3
        else if op \<in> {OP_FOR_PREP, OP_FOR_LOOP} then Some 5
        else if op \<in> {OP_JUMP, OP_JUMP_IF_FALSE, OP_JUMP_IF_TRUE, OP_LOOP} then Some 3
        else if op = OP_CLOSURE then do {
          k \<leftarrow> at (code c) (i + 1);
          v \<leftarrow> const_at c (unat k);
          closure_length h v
        }
        else Some 1)
     }"

lemma closure_length_pos: "closure_length h v = Some n \<Longrightarrow> 0 < n"
  by (auto simp: closure_length_def split: val.splits option.splits obj.splits)

lemma instr_length_pos: "instr_length h c i = Some n \<Longrightarrow> 0 < n"
  by (auto simp: instr_length_def bind_eq_Some_conv split: if_splits dest: closure_length_pos)

lemma instr_length_lt: "instr_length h c i = Some n \<Longrightarrow> i < length (code c)"
  by (auto simp: instr_length_def bind_eq_Some_conv)

section \<open>Folding\<close>

definition fold_result :: "(double \<Rightarrow> double \<Rightarrow> double) \<Rightarrow> byte \<Rightarrow> double \<Rightarrow> double \<Rightarrow> double option" where
  "fold_result pw op a b =
     (if op = OP_ADD then Some (dadd a b)
      else if op = OP_SUBTRACT then Some (dsub a b)
      else if op = OP_MULTIPLY then Some (dmul a b)
      else if op = OP_DIVIDE then Some (ddiv a b)
      else if op = OP_POWER then Some (pw a b)
      else if op = OP_INT_DIV then map_option dbl_of_int (cast_int64 (ddiv a b))
      else Some (dfmod a b))"

definition foldable :: "byte set" where
  "foldable = {OP_ADD, OP_SUBTRACT, OP_MULTIPLY, OP_DIVIDE, OP_POWER, OP_INT_DIV, OP_MODULO}"

definition is_number_constant :: "chunk \<Rightarrow> nat \<Rightarrow> double option option" where
  "is_number_constant c k =
     do { v \<leftarrow> const_at c k; Some (case v of VNumber d \<Rightarrow> Some d | _ \<Rightarrow> None) }"

text \<open>
  \<open>fold_binary_numbers\<close> and \<open>fold_unary_number\<close>: the index of the new constant, if the
  instructions at \<open>i\<close> fold, and the chunk, to which it has been added.
\<close>

definition with_new_constant :: "chunk \<Rightarrow> double \<Rightarrow> nat option \<times> chunk" where
  "with_new_constant c d = (let (c, k) = add_constant c (VNumber d) in (Some k, c))"

definition fold_binary_numbers ::
  "(double \<Rightarrow> double \<Rightarrow> double) \<Rightarrow> chunk \<Rightarrow> nat \<Rightarrow> (nat option \<times> chunk) option" where
  "fold_binary_numbers pw c i =
     do {
       op \<leftarrow> at (code c) (i + 4);
       (if op \<notin> foldable then Some (None, c)
        else do {
          c1 \<leftarrow> at (code c) (i + 1);
          c2 \<leftarrow> at (code c) (i + 3);
          a \<leftarrow> is_number_constant c (unat c1);
          b \<leftarrow> is_number_constant c (unat c2);
          (case a of
             None \<Rightarrow> Some (None, c)
           | Some a \<Rightarrow>
               (case b of
                  None \<Rightarrow> Some (None, c)
                | Some b \<Rightarrow> map_option (with_new_constant c) (fold_result pw op a b)))
        })
     }"

definition fold_unary_number :: "chunk \<Rightarrow> nat \<Rightarrow> (nat option \<times> chunk) option" where
  "fold_unary_number c i =
     do {
       op \<leftarrow> at (code c) (i + 2);
       (if op \<noteq> OP_NEGATE then Some (None, c)
        else do {
          k \<leftarrow> at (code c) (i + 1);
          a \<leftarrow> is_number_constant c (unat k);
          (case a of None \<Rightarrow> Some (None, c) | Some d \<Rightarrow> Some (with_new_constant c (dneg d)))
        })
     }"

definition is_safe_single_producer :: "byte \<Rightarrow> bool" where
  "is_safe_single_producer op \<longleftrightarrow>
     op \<in> {OP_CONSTANT, OP_NIL, OP_TRUE, OP_FALSE, OP_GET_LOCAL, OP_GET_GLOBAL, OP_GET_UPVALUE, OP_DUP}"

section \<open>Targets of jumps\<close>

definition jump_at :: "chunk \<Rightarrow> nat \<Rightarrow> int option" where
  "jump_at c i = map_option (\<lambda>w. int (unat w)) (short_at (code c) i)"

text \<open>The targets of the instruction at \<open>i\<close>.\<close>

definition instr_targets :: "chunk \<Rightarrow> nat \<Rightarrow> int list option" where
  "instr_targets c i =
     do {
       op \<leftarrow> at (code c) i;
       (if op \<in> {OP_JUMP, OP_JUMP_IF_FALSE, OP_JUMP_IF_TRUE, OP_LOOP} then do {
          j \<leftarrow> jump_at c (i + 1);
          Some [int i + 3 + (if op = OP_LOOP then - j else j)]
        }
        else if op = OP_TRY then do {
          ex \<leftarrow> jump_at c (i + 3);
          fin \<leftarrow> jump_at c (i + 5);
          Some ((if ex \<noteq> 0 then [int i + 7 + ex] else []) @ (if fin \<noteq> 0 then [int i + 7 + fin] else []))
        }
        else if op \<in> {OP_FOR_PREP, OP_FOR_LOOP} then do {
          j \<leftarrow> jump_at c (i + 3);
          Some [if op = OP_FOR_PREP then int i + 5 + j else int i + 5 - j]
        }
        else Some [])
     }"

fun mark_targets :: "int list \<Rightarrow> bool list \<Rightarrow> bool list" where
  "mark_targets [] marks = marks"
| "mark_targets (t # ts) marks =
     mark_targets ts (if 0 \<le> t \<and> t < int (length marks) then marks[nat t := True] else marks)"

function find_targets :: "heap \<Rightarrow> chunk \<Rightarrow> nat \<Rightarrow> bool list \<Rightarrow> bool list option" where
  "find_targets h c i marks =
     (if length (code c) \<le> i then Some marks
      else
        case (instr_targets c i, instr_length h c i) of
          (Some ts, Some n) \<Rightarrow> find_targets h c (i + n) (mark_targets ts marks)
        | _ \<Rightarrow> None)"
  by pat_completeness auto
termination
  by (relation "measure (\<lambda>(h, c, i, marks). length (code c) - i)")
    (auto dest!: instr_length_pos [OF sym])

declare find_targets.simps [simp del]

section \<open>The patterns\<close>

text \<open>
  A pattern gives the chunk, to which it may have added a constant, and if it applies the bytes
  emitted and the number of bytes they stand for. \<open>marks\<close> holds the jump targets.
\<close>

type_synonym rewrite = "(chunk \<times> (bytes \<times> nat) option) option"

definition no_rewrite :: "chunk \<Rightarrow> rewrite" where
  "no_rewrite c = Some (c, None)"

definition ops_at :: "chunk \<Rightarrow> nat \<Rightarrow> byte \<Rightarrow> bool" where
  "ops_at c i op \<longleftrightarrow> at (code c) i = Some op"

definition marked_at :: "bool list \<Rightarrow> nat \<Rightarrow> bool" where
  "marked_at marks i \<longleftrightarrow> at marks i = Some True"

text \<open>\<open><producer> OP_POP OP_ADJUST_STACK\<close> loses the \<open>OP_ADJUST_STACK\<close>.\<close>

definition drop_adjust :: "heap \<Rightarrow> bool list \<Rightarrow> chunk \<Rightarrow> nat \<Rightarrow> rewrite" where
  "drop_adjust h marks c i =
     do {
       op \<leftarrow> at (code c) i;
       (if \<not> is_safe_single_producer op then no_rewrite c
        else do {
          n \<leftarrow> instr_length h c i;
          (if ops_at c (i + n) OP_POP \<and> ops_at c (i + n + 1) OP_ADJUST_STACK \<and>
              \<not> marked_at marks i \<and> \<not> marked_at marks (i + n) \<and> \<not> marked_at marks (i + n + 1)
           then Some (c, Some (take n (drop i (code c)) @ [OP_POP], n + 3))
           else no_rewrite c)
        })
     }"

text \<open>\<open>x + 0\<close>, \<open>x - 0\<close>, \<open>x * 1\<close>, \<open>x / 1\<close>.\<close>

definition drop_identity :: "bool list \<Rightarrow> chunk \<Rightarrow> nat \<Rightarrow> rewrite" where
  "drop_identity marks c i =
     (if \<not> (i + 2 < length (code c) \<and> ops_at c i OP_CONSTANT) then no_rewrite c
      else
        let op = code c ! (i + 2)
        in if op \<notin> {OP_ADD, OP_SUBTRACT, OP_MULTIPLY, OP_DIVIDE} then no_rewrite c
           else do {
             num \<leftarrow> is_number_constant c (unat (code c ! (i + 1)));
             (case num of
                None \<Rightarrow> no_rewrite c
              | Some d \<Rightarrow>
                  if ((op = OP_ADD \<or> op = OP_SUBTRACT) \<and> deq d (dzero False) \<or>
                      (op = OP_MULTIPLY \<or> op = OP_DIVIDE) \<and> deq d (dbl_of_int 1)) \<and>
                     \<not> marked_at marks i \<and> \<not> marked_at marks (i + 2)
                  then Some (c, Some ([], 3)) else no_rewrite c)
           })"

text \<open>\<open>GET_LOCAL s, CONST c, op, SET_LOCAL s\<close> is one instruction.\<close>

definition local_pattern :: "bool list \<Rightarrow> chunk \<Rightarrow> nat \<Rightarrow> bool" where
  "local_pattern marks c i \<longleftrightarrow>
     i + 6 < length (code c) \<and> ops_at c i OP_GET_LOCAL \<and> ops_at c (i + 2) OP_CONSTANT \<and>
     ops_at c (i + 5) OP_SET_LOCAL \<and> code c ! (i + 1) = code c ! (i + 6) \<and>
     \<not> marked_at marks (i + 2) \<and> \<not> marked_at marks (i + 4) \<and> \<not> marked_at marks (i + 5)"

definition inc_local :: "bool list \<Rightarrow> chunk \<Rightarrow> nat \<Rightarrow> rewrite" where
  "inc_local marks c i =
     (if \<not> (i + 6 < length (code c) \<and> ops_at c i OP_GET_LOCAL \<and> ops_at c (i + 2) OP_CONSTANT \<and>
            ops_at c (i + 4) OP_ADD \<and> ops_at c (i + 5) OP_SET_LOCAL \<and>
            code c ! (i + 1) = code c ! (i + 6)) then no_rewrite c
      else do {
        num \<leftarrow> is_number_constant c (unat (code c ! (i + 3)));
        (if num \<noteq> None \<and> local_pattern marks c i
         then Some (c, Some ([OP_INC_LOCAL, code c ! (i + 1), code c ! (i + 3)], 7))
         else no_rewrite c)
      })"

definition local_const_op :: "byte \<Rightarrow> byte option" where
  "local_const_op op =
     (if op = OP_SUBTRACT then Some OP_SUB_LOCAL_CONST
      else if op = OP_MULTIPLY then Some OP_MUL_LOCAL_CONST
      else if op = OP_DIVIDE then Some OP_DIV_LOCAL_CONST
      else if op = OP_MODULO then Some OP_MOD_LOCAL_CONST
      else None)"

definition local_const :: "bool list \<Rightarrow> chunk \<Rightarrow> nat \<Rightarrow> rewrite" where
  "local_const marks c i =
     (if \<not> local_pattern marks c i then no_rewrite c
      else
        case local_const_op (code c ! (i + 4)) of
          None \<Rightarrow> no_rewrite c
        | Some op \<Rightarrow> Some (c, Some ([op, code c ! (i + 1), code c ! (i + 3)], 7)))"

text \<open>
  \<open>CONST a, CONST b, op\<close> and \<open>CONST a, NEGATE\<close>. The constant is added before the jump targets are
  looked at, and its index is cut to a byte.
\<close>

definition fold_binary :: "(double \<Rightarrow> double \<Rightarrow> double) \<Rightarrow> bool list \<Rightarrow> chunk \<Rightarrow> nat \<Rightarrow> rewrite" where
  "fold_binary pw marks c i =
     (if \<not> (i + 4 < length (code c) \<and> ops_at c i OP_CONSTANT \<and> ops_at c (i + 2) OP_CONSTANT)
      then no_rewrite c
      else do {
        (r, c) \<leftarrow> fold_binary_numbers pw c i;
        (case r of
           None \<Rightarrow> no_rewrite c
         | Some k \<Rightarrow>
             if marked_at marks (i + 2) \<or> marked_at marks (i + 4) then no_rewrite c
             else Some (c, Some ([OP_CONSTANT, of_nat k], 5)))
      })"

definition fold_unary :: "bool list \<Rightarrow> chunk \<Rightarrow> nat \<Rightarrow> rewrite" where
  "fold_unary marks c i =
     (if \<not> (i + 2 < length (code c) \<and> ops_at c i OP_CONSTANT) then no_rewrite c
      else do {
        (r, c) \<leftarrow> fold_unary_number c i;
        (case r of
           None \<Rightarrow> no_rewrite c
         | Some k \<Rightarrow>
             if marked_at marks (i + 2) then no_rewrite c
             else Some (c, Some ([OP_CONSTANT, of_nat k], 3)))
      })"

text \<open>\<open>CONST c, op\<close> is one instruction.\<close>

definition const_op :: "byte \<Rightarrow> byte option" where
  "const_op op =
     (if op = OP_ADD then Some OP_ADD_CONST
      else if op = OP_SUBTRACT then Some OP_SUB_CONST
      else if op = OP_MULTIPLY then Some OP_MUL_CONST
      else if op = OP_DIVIDE then Some OP_DIV_CONST
      else if op = OP_MODULO then Some OP_MOD_CONST
      else None)"

definition const_rhs :: "bool list \<Rightarrow> chunk \<Rightarrow> nat \<Rightarrow> rewrite" where
  "const_rhs marks c i =
     (if \<not> (i + 2 < length (code c) \<and> ops_at c i OP_CONSTANT) then no_rewrite c
      else
        case const_op (code c ! (i + 2)) of
          None \<Rightarrow> no_rewrite c
        | Some op \<Rightarrow>
            if marked_at marks i \<or> marked_at marks (i + 2) then no_rewrite c
            else Some (c, Some ([op, code c ! (i + 1)], 3)))"

text \<open>\<open>op, SET_LOCAL s\<close> is one instruction.\<close>

definition set_local_op :: "byte \<Rightarrow> byte option" where
  "set_local_op op =
     (if op = OP_ADD then Some OP_ADD_SET_LOCAL
      else if op = OP_SUBTRACT then Some OP_SUB_SET_LOCAL
      else if op = OP_MULTIPLY then Some OP_MUL_SET_LOCAL
      else if op = OP_DIVIDE then Some OP_DIV_SET_LOCAL
      else if op = OP_MODULO then Some OP_MOD_SET_LOCAL
      else None)"

definition fuse_set_local :: "bool list \<Rightarrow> chunk \<Rightarrow> nat \<Rightarrow> rewrite" where
  "fuse_set_local marks c i =
     (if \<not> (i + 2 < length (code c) \<and> ops_at c (i + 1) OP_SET_LOCAL) then no_rewrite c
      else
        case set_local_op (code c ! i) of
          None \<Rightarrow> no_rewrite c
        | Some op \<Rightarrow>
            if marked_at marks i \<or> marked_at marks (i + 1) then no_rewrite c
            else Some (c, Some ([op, code c ! (i + 2)], 3)))"

definition or_else :: "rewrite \<Rightarrow> (chunk \<Rightarrow> rewrite) \<Rightarrow> rewrite" where
  "or_else r f =
     (case r of None \<Rightarrow> None | Some (c, None) \<Rightarrow> f c | Some (c, Some x) \<Rightarrow> Some (c, Some x))"

text \<open>The patterns in the order of the code.\<close>

definition rewrite_at ::
  "heap \<Rightarrow> (double \<Rightarrow> double \<Rightarrow> double) \<Rightarrow> bool list \<Rightarrow> chunk \<Rightarrow> nat \<Rightarrow> rewrite" where
  "rewrite_at h pw marks c i =
     or_else (drop_adjust h marks c i) (\<lambda>c.
     or_else (drop_identity marks c i) (\<lambda>c.
     or_else (inc_local marks c i) (\<lambda>c.
     or_else (local_const marks c i) (\<lambda>c.
     or_else (fold_binary pw marks c i) (\<lambda>c.
     or_else (fold_unary marks c i) (\<lambda>c.
     or_else (const_rhs marks c i) (\<lambda>c.
     fuse_set_local marks c i)))))))"

section \<open>Rewriting the code\<close>

record jump_patch =
  old_offset :: nat
  new_offset :: nat
  sign :: int
  old_jump :: int
  write_offset :: nat

record opt_state =
  new_code :: bytes
  new_lines :: "int list"
  old_to_new :: "nat \<rightharpoonup> nat"
  patches :: "jump_patch list"
  opt_chunk :: chunk

definition emit :: "bytes \<Rightarrow> int \<Rightarrow> opt_state \<Rightarrow> opt_state" where
  "emit bs line st =
     st\<lparr>new_code := new_code st @ bs, new_lines := new_lines st @ replicate (length bs) line\<rparr>"

text \<open>The patches for a copied instruction.\<close>

definition patches_for :: "chunk \<Rightarrow> nat \<Rightarrow> nat \<Rightarrow> jump_patch list option" where
  "patches_for c i new =
     do {
       op \<leftarrow> at (code c) i;
       (if op \<in> {OP_JUMP, OP_JUMP_IF_FALSE, OP_JUMP_IF_TRUE, OP_LOOP} then do {
          j \<leftarrow> jump_at c (i + 1);
          Some [\<lparr>old_offset = i, new_offset = new, sign = (if op = OP_LOOP then - 1 else 1),
                 old_jump = j, write_offset = 1\<rparr>]
        }
        else if op = OP_TRY then do {
          ex \<leftarrow> jump_at c (i + 3);
          fin \<leftarrow> jump_at c (i + 5);
          Some [\<lparr>old_offset = i, new_offset = new, sign = 1, old_jump = ex, write_offset = 3\<rparr>,
                \<lparr>old_offset = i, new_offset = new, sign = 1, old_jump = fin, write_offset = 5\<rparr>]
        }
        else if op \<in> {OP_FOR_PREP, OP_FOR_LOOP} then do {
          j \<leftarrow> jump_at c (i + 3);
          Some [\<lparr>old_offset = i, new_offset = new, sign = (if op = OP_FOR_LOOP then - 1 else 1),
                 old_jump = j, write_offset = 3\<rparr>]
        }
        else Some [])
     }"

definition copy_instr :: "heap \<Rightarrow> nat \<Rightarrow> int \<Rightarrow> opt_state \<Rightarrow> (opt_state \<times> nat) option" where
  "copy_instr h i line st =
     do {
       let c = opt_chunk st;
       n \<leftarrow> instr_length h c i;
       ps \<leftarrow> patches_for c i (length (new_code st));
       (if length (code c) < i + n then None
        else Some ((emit (take n (drop i (code c))) line st)\<lparr>patches := patches st @ ps\<rparr>, n))
     }"

definition opt_step ::
  "heap \<Rightarrow> (double \<Rightarrow> double \<Rightarrow> double) \<Rightarrow> bool list \<Rightarrow> nat \<Rightarrow> opt_state \<Rightarrow> (opt_state \<times> nat) option" where
  "opt_step h pw marks i st =
     do {
       let st = st\<lparr>old_to_new := (old_to_new st)(i \<mapsto> length (new_code st))\<rparr>;
       (c, r) \<leftarrow> rewrite_at h pw marks (opt_chunk st) i;
       let st = st\<lparr>opt_chunk := c\<rparr>;
       line \<leftarrow> at (lines c) i;
       (case r of
          Some (bs, n) \<Rightarrow> Some (emit bs line st, n)
        | None \<Rightarrow> copy_instr h i line st)
     }"

text \<open>The same code with more constants.\<close>

definition same_code :: "chunk \<Rightarrow> chunk \<Rightarrow> bool" where
  "same_code c c' \<longleftrightarrow>
     code c' = code c \<and> lines c' = lines c \<and>
     (\<forall>k v. const_at c k = Some v \<longrightarrow> const_at c' k = Some v) \<and>
     (wf_value_array (constants c) \<longrightarrow> wf_value_array (constants c'))"

lemma same_code_refl [simp]: "same_code c c"
  by (simp add: same_code_def)

lemma same_code_trans: "same_code a b \<Longrightarrow> same_code b c \<Longrightarrow> same_code a c"
  by (simp add: same_code_def)

lemma same_code_length [simp]: "same_code c c' \<Longrightarrow> length (code c') = length (code c)"
  by (simp add: same_code_def)

lemma same_code_add_constant [simp]: "same_code c (fst (add_constant c v))"
  using add_constant_at(2) [of c]
  by (auto simp: same_code_def add_constant_def Let_def wf_write_value_array)

text \<open>
  A pattern keeps the code, consumes at least one byte, and emits at most as many bytes as it
  consumes and as the code has left.
\<close>

definition rewrite_ok :: "nat \<Rightarrow> chunk \<Rightarrow> rewrite \<Rightarrow> bool" where
  "rewrite_ok i c r \<longleftrightarrow>
     (\<forall>c' x. r = Some (c', x) \<longrightarrow> same_code c c' \<and>
        (case x of None \<Rightarrow> True
         | Some (bs, n) \<Rightarrow> 0 < n \<and> length bs \<le> n \<and> i + length bs \<le> length (code c)))"

lemma no_rewrite_ok: "same_code c c' \<Longrightarrow> rewrite_ok i c (no_rewrite c')"
  by (simp add: rewrite_ok_def no_rewrite_def)

lemma rewrite_okI:
  "same_code c c' \<Longrightarrow> 0 < n \<Longrightarrow> length bs \<le> n \<Longrightarrow> i + length bs \<le> length (code c) \<Longrightarrow>
    rewrite_ok i c (Some (c', Some (bs, n)))"
  by (simp add: rewrite_ok_def)

lemma or_else_ok:
  assumes "rewrite_ok i c r" "\<And>c'. same_code c c' \<Longrightarrow> rewrite_ok i c' (f c')"
  shows "rewrite_ok i c (or_else r f)"
proof (cases r)
  case (Some p)
  obtain c' x where p: "p = (c', x)" by (cases p)
  have "same_code c c'" using assms(1) Some p by (simp add: rewrite_ok_def)
  from assms(2) [OF this] this assms(1) Some p show ?thesis
    by (cases x) (auto simp: or_else_def rewrite_ok_def intro: same_code_trans split: option.splits)
qed (simp add: or_else_def rewrite_ok_def)

lemma rewrite_ok_if:
  "(b \<Longrightarrow> rewrite_ok i c r) \<Longrightarrow> (\<not> b \<Longrightarrow> rewrite_ok i c s) \<Longrightarrow> rewrite_ok i c (if b then r else s)"
  by simp

lemma rewrite_ok_bind: "(\<And>x. m = Some x \<Longrightarrow> rewrite_ok i c (f x)) \<Longrightarrow> rewrite_ok i c (m \<bind> f)"
  by (cases m) (simp_all add: rewrite_ok_def)

lemma rewrite_ok_option:
  "rewrite_ok i c r \<Longrightarrow> (\<And>x. rewrite_ok i c (f x)) \<Longrightarrow> rewrite_ok i c (case y of None \<Rightarrow> r | Some x \<Rightarrow> f x)"
  by (cases y) simp_all

lemmas rewrite_ok_rules =
  rewrite_ok_if rewrite_ok_bind rewrite_ok_option no_rewrite_ok rewrite_okI same_code_refl

lemma drop_adjust_ok: "rewrite_ok i c (drop_adjust h marks c i)"
  unfolding drop_adjust_def ops_at_def by (intro rewrite_ok_rules) auto

lemma drop_identity_ok: "rewrite_ok i c (drop_identity marks c i)"
  unfolding drop_identity_def Let_def by (intro rewrite_ok_rules) simp_all

lemma inc_local_ok: "rewrite_ok i c (inc_local marks c i)"
  unfolding inc_local_def by (intro rewrite_ok_rules) simp_all

lemma local_const_ok: "rewrite_ok i c (local_const marks c i)"
  unfolding local_const_def by (intro rewrite_ok_rules) (simp_all add: local_pattern_def)

lemma same_code_new_constant [simp]: "same_code c (snd (with_new_constant c d))"
  using same_code_add_constant [of c "VNumber d"]
  by (cases "add_constant c (VNumber d)") (simp add: with_new_constant_def)

definition keeps_code :: "chunk \<Rightarrow> (nat option \<times> chunk) option \<Rightarrow> bool" where
  "keeps_code c r \<longleftrightarrow> (\<forall>x. r = Some x \<longrightarrow> same_code c (snd x))"

lemma keeps_code_rules:
  "(b \<Longrightarrow> keeps_code c r) \<Longrightarrow> (\<not> b \<Longrightarrow> keeps_code c s) \<Longrightarrow> keeps_code c (if b then r else s)"
  "(\<And>x. keeps_code c (f x)) \<Longrightarrow> keeps_code c (m \<bind> f)"
  "keeps_code c r \<Longrightarrow> (\<And>x. keeps_code c (f x)) \<Longrightarrow> keeps_code c (case y of None \<Rightarrow> r | Some x \<Rightarrow> f x)"
  "keeps_code c (Some (None, c))"
  "keeps_code c (map_option (with_new_constant c) z)"
  "keeps_code c (Some (with_new_constant c d))"
  by (auto simp: keeps_code_def bind_eq_Some_conv split: option.split)
    (metis same_code_new_constant snd_conv)

lemma fold_binary_numbers_code:
  "fold_binary_numbers pw c i = Some x \<Longrightarrow> same_code c (snd x)"
proof -
  have "keeps_code c (fold_binary_numbers pw c i)"
    unfolding fold_binary_numbers_def by (intro keeps_code_rules)
  then show "fold_binary_numbers pw c i = Some x \<Longrightarrow> same_code c (snd x)" by (simp add: keeps_code_def)
qed

lemma fold_unary_number_code: "fold_unary_number c i = Some x \<Longrightarrow> same_code c (snd x)"
proof -
  have "keeps_code c (fold_unary_number c i)"
    unfolding fold_unary_number_def by (intro keeps_code_rules)
  then show "fold_unary_number c i = Some x \<Longrightarrow> same_code c (snd x)" by (simp add: keeps_code_def)
qed

lemma fold_binary_ok: "rewrite_ok i c (fold_binary pw marks c i)"
  unfolding fold_binary_def
proof (intro rewrite_ok_if rewrite_ok_bind)
  fix x assume x: "fold_binary_numbers pw c i = Some x"
    and "\<not> \<not> (i + 4 < length (code c) \<and> ops_at c i OP_CONSTANT \<and> ops_at c (i + 2) OP_CONSTANT)"
  then have l: "i + 4 < length (code c)" by simp
  obtain r c' where "x = (r, c')" by (cases x)
  with x have "same_code c c'" using fold_binary_numbers_code by fastforce
  then show "rewrite_ok i c (case x of (r, c) \<Rightarrow> case r of None \<Rightarrow> no_rewrite c
     | Some k \<Rightarrow> if marked_at marks (i + 2) \<or> marked_at marks (i + 4) then no_rewrite c
                else Some (c, Some ([OP_CONSTANT, of_nat k], 5)))"
    unfolding \<open>x = (r, c')\<close> prod.case by (intro rewrite_ok_rules) (use l in simp_all)
qed (simp add: no_rewrite_ok)

lemma fold_unary_ok: "rewrite_ok i c (fold_unary marks c i)"
  unfolding fold_unary_def
proof (intro rewrite_ok_if rewrite_ok_bind)
  fix x assume x: "fold_unary_number c i = Some x"
    and "\<not> \<not> (i + 2 < length (code c) \<and> ops_at c i OP_CONSTANT)"
  then have l: "i + 2 < length (code c)" by simp
  obtain r c' where "x = (r, c')" by (cases x)
  with x have "same_code c c'" using fold_unary_number_code by fastforce
  then show "rewrite_ok i c (case x of (r, c) \<Rightarrow> case r of None \<Rightarrow> no_rewrite c
     | Some k \<Rightarrow> if marked_at marks (i + 2) then no_rewrite c
                else Some (c, Some ([OP_CONSTANT, of_nat k], 3)))"
    unfolding \<open>x = (r, c')\<close> prod.case by (intro rewrite_ok_rules) (use l in simp_all)
qed (simp add: no_rewrite_ok)

lemma const_rhs_ok: "rewrite_ok i c (const_rhs marks c i)"
  unfolding const_rhs_def by (intro rewrite_ok_rules) simp_all

lemma fuse_set_local_ok: "rewrite_ok i c (fuse_set_local marks c i)"
  unfolding fuse_set_local_def by (intro rewrite_ok_rules) simp_all

lemma rewrite_at_ok: "rewrite_ok i c (rewrite_at h pw marks c i)"
  unfolding rewrite_at_def
  by (intro or_else_ok drop_adjust_ok drop_identity_ok inc_local_ok local_const_ok fold_binary_ok
      fold_unary_ok const_rhs_ok fuse_set_local_ok)

lemma opt_step_progress:
  assumes "opt_step h pw marks i st = Some (st', n)"
  obtains bs line where "0 < n" "same_code (opt_chunk st) (opt_chunk st')"
    "new_code st' = new_code st @ bs" "new_lines st' = new_lines st @ replicate (length bs) line"
    "length bs \<le> n" "i + length bs \<le> length (code (opt_chunk st))"
proof -
  obtain c r where r: "rewrite_at h pw marks (opt_chunk st) i = Some (c, r)"
    using assms by (auto simp: opt_step_def Let_def bind_eq_Some_conv)
  note ok = rewrite_at_ok [of i "opt_chunk st" h pw marks]
  let ?bs = "case r of Some (bs, n) \<Rightarrow> bs | None \<Rightarrow> take n (drop i (code c))"
  have "0 < n \<and> same_code (opt_chunk st) (opt_chunk st') \<and> new_code st' = new_code st @ ?bs \<and>
     new_lines st' = new_lines st @ replicate (length ?bs) (lines c ! i) \<and> length ?bs \<le> n \<and>
     i + length ?bs \<le> length (code (opt_chunk st))"
  proof (cases r)
    case None
    with assms r ok show ?thesis
      by (auto simp: opt_step_def copy_instr_def Let_def bind_eq_Some_conv rewrite_ok_def emit_def
          split: if_splits dest: instr_length_pos)
  next
    case (Some x)
    with assms r ok show ?thesis
      by (cases x) (auto simp: opt_step_def Let_def bind_eq_Some_conv rewrite_ok_def emit_def)
  qed
  with that show thesis by blast
qed

function opt_loop ::
  "heap \<Rightarrow> (double \<Rightarrow> double \<Rightarrow> double) \<Rightarrow> bool list \<Rightarrow> nat \<Rightarrow> opt_state \<Rightarrow> opt_state option" where
  "opt_loop h pw marks i st =
     (if length (code (opt_chunk st)) \<le> i then Some st
      else
        case opt_step h pw marks i st of
          None \<Rightarrow> None
        | Some (st', n) \<Rightarrow> opt_loop h pw marks (i + n) st')"
  by pat_completeness auto
termination
  by (relation "measure (\<lambda>(h, pw, marks, i, st). length (code (opt_chunk st)) - i)")
    (auto elim!: opt_step_progress)

declare opt_loop.simps [simp del]

section \<open>Jumps at their new place\<close>

definition write_short :: "bytes \<Rightarrow> nat \<Rightarrow> int \<Rightarrow> bytes option" where
  "write_short cs i j =
     (if i + 1 < length cs then Some (cs[i := word_of_int (j div 256), i + 1 := word_of_int j]) else None)"

definition apply_patch :: "heap \<Rightarrow> chunk \<Rightarrow> (nat \<rightharpoonup> nat) \<Rightarrow> jump_patch \<Rightarrow> bytes \<Rightarrow> bytes option" where
  "apply_patch h c moved p cs =
     do {
       n \<leftarrow> instr_length h c (old_offset p);
       op \<leftarrow> at (code c) (old_offset p);
       let old_target = int (old_offset p) + int n + sign p * old_jump p;
       (if old_target < 0 \<or> int (length (code c)) \<le> old_target then Some cs
        else
          case moved (nat old_target) of
            None \<Rightarrow> Some cs
          | Some new_target \<Rightarrow>
              let jump = sign p * (int new_target - (int (new_offset p) + int n));
                  w = (if op = OP_TRY then write_offset p
                       else if op \<in> {OP_FOR_PREP, OP_FOR_LOOP} then 3 else 1)
              in write_short cs (new_offset p + w) jump)
     }"

fun apply_patches :: "heap \<Rightarrow> chunk \<Rightarrow> (nat \<rightharpoonup> nat) \<Rightarrow> jump_patch list \<Rightarrow> bytes \<Rightarrow> bytes option" where
  "apply_patches h c moved [] cs = Some cs"
| "apply_patches h c moved (p # ps) cs =
     do { cs \<leftarrow> apply_patch h c moved p cs; apply_patches h c moved ps cs }"

text \<open>The capacity after \<open>n\<close> calls of \<open>emit_byte\<close>.\<close>

fun emit_capacity :: "nat \<Rightarrow> nat" where
  "emit_capacity 0 = 0"
| "emit_capacity (Suc n) =
     (let cap = emit_capacity n in if cap < Suc n then (if cap < 8 then 8 else cap * 2) else cap)"

definition optimize_chunk :: "heap \<Rightarrow> (double \<Rightarrow> double \<Rightarrow> double) \<Rightarrow> chunk \<Rightarrow> chunk option" where
  "optimize_chunk h pw c =
     (if code c = [] then Some c
      else do {
        marks \<leftarrow> find_targets h c 0 (replicate (length (code c)) False);
        st \<leftarrow> opt_loop h pw marks 0
          \<lparr>new_code = [], new_lines = [], old_to_new = Map.empty, patches = [], opt_chunk = c\<rparr>;
        let c' = opt_chunk st;
        cs \<leftarrow> apply_patches h c' (old_to_new st) (patches st) (new_code st);
        let cap = emit_capacity (length cs);
        Some (c'\<lparr>code := cs, lines := new_lines st, ccapacity := cap,
                 gic_versions := replicate cap 0, gic_names := replicate cap None,
                 gic_values := replicate cap VNil, tic_versions := replicate cap 0,
                 tic_tables := replicate cap None, tic_keys := replicate cap None,
                 tic_values := replicate cap VNil\<rparr>)
      })"

section \<open>The result\<close>

lemma opt_loop_result:
  assumes "opt_loop h pw marks i st = Some st'"
    and "length (new_code st) \<le> i" "length (new_code st) \<le> length (code (opt_chunk st))"
    and "length (new_lines st) = length (new_code st)"
  shows "same_code (opt_chunk st) (opt_chunk st') \<and> length (new_lines st') = length (new_code st') \<and>
     length (new_code st') \<le> length (code (opt_chunk st))"
  using assms
proof (induction h pw marks i st rule: opt_loop.induct)
  case (1 h pw marks i st)
  show ?case
  proof (cases "length (code (opt_chunk st)) \<le> i")
    case True
    with 1(2-) show ?thesis by (simp add: opt_loop.simps [of h pw marks i])
  next
    case False
    with 1(2) obtain st1 n where s: "opt_step h pw marks i st = Some (st1, n)"
      and l: "opt_loop h pw marks (i + n) st1 = Some st'"
      by (auto simp: opt_loop.simps [of h pw marks i] split: option.splits prod.splits)
    obtain bs line where b: "0 < n" "same_code (opt_chunk st) (opt_chunk st1)"
      "new_code st1 = new_code st @ bs" "new_lines st1 = new_lines st @ replicate (length bs) line"
      "length bs \<le> n" "i + length bs \<le> length (code (opt_chunk st))"
      using s by (rule opt_step_progress)
    have "same_code (opt_chunk st1) (opt_chunk st') \<and> length (new_lines st') = length (new_code st') \<and>
     length (new_code st') \<le> length (code (opt_chunk st1))"
      using 1(1) [OF False s refl l] b 1(3-) by simp
    with b show ?thesis by (auto intro: same_code_trans)
  qed
qed

lemma write_short_length: "write_short cs i j = Some cs' \<Longrightarrow> length cs' = length cs"
  by (auto simp: write_short_def split: if_splits)

lemma apply_patch_length: "apply_patch h c moved p cs = Some cs' \<Longrightarrow> length cs' = length cs"
  by (auto simp: apply_patch_def Let_def bind_eq_Some_conv split: if_splits option.splits
      dest: write_short_length)

lemma apply_patches_length: "apply_patches h c moved ps cs = Some cs' \<Longrightarrow> length cs' = length cs"
  by (induction ps arbitrary: cs) (auto simp: bind_eq_Some_conv dest: apply_patch_length)

lemma emit_capacity_ge: "n \<le> emit_capacity n"
  by (induction n) (auto simp: Let_def)


lemma short_of_bytes:
  "push_bit 8 (ucast (word_of_int (j div 256) :: byte)) OR ucast (word_of_int j :: byte) = (word_of_int j :: u16)"
proof -
  have "j div 256 = drop_bit 8 j" by (simp add: drop_bit_eq_div)
  then show ?thesis
    by (auto intro!: bit_word_eqI simp: bit_simps bit_word_of_int_iff)
qed

lemma short_at_write_short:
  assumes "write_short cs i j = Some cs'" "0 \<le> j" "j < 65536"
  shows "map_option (\<lambda>w. int (unat w)) (short_at cs' i) = Some j"
proof -
  have "i + 1 < length cs" "cs' = cs[i := word_of_int (j div 256), i + 1 := word_of_int j]"
    using assms(1) by (simp_all add: write_short_def split: if_splits)
  then have "short_at cs' i = Some (word_of_int j)"
    by (simp add: short_at_lt short_of_bytes [symmetric])
  then show ?thesis using assms(2,3) by (simp add: uint_word_of_int)
qed

text \<open>
  C9. A patched jump leads where it should: if the target of a copied jump has a place in the new
  code, and the new distance has the direction of the instruction and fits in 16 bits, the operand
  that is written is the distance from the end of the copied instruction to that place.
\<close>

theorem patched_jump_target:
  assumes "apply_patch h c moved p cs = Some cs'"
    and "instr_length h c (old_offset p) = Some n" "at (code c) (old_offset p) = Some op"
    and "int (old_offset p) + int n + sign p * old_jump p = int target" "target < length (code c)"
    and "moved target = Some new_target" "sign p = 1 \<or> sign p = - 1"
    and "0 \<le> sign p * (int new_target - int (new_offset p + n))"
    and "sign p * (int new_target - int (new_offset p + n)) < 65536"
  shows "\<exists>j. map_option (\<lambda>w. int (unat w))
           (short_at cs' (new_offset p + (if op = OP_TRY then write_offset p
                                          else if op \<in> {OP_FOR_PREP, OP_FOR_LOOP} then 3 else 1))) = Some j \<and>
         int (new_offset p + n) + sign p * j = int new_target"
proof -
  let ?j = "sign p * (int new_target - (int (new_offset p) + int n))"
  let ?w = "if op = OP_TRY then write_offset p else if op \<in> {OP_FOR_PREP, OP_FOR_LOOP} then 3 else 1"
  have "write_short cs (new_offset p + ?w) ?j = Some cs'"
    using assms(1-6) by (simp add: apply_patch_def Let_def del: at_Some_iff)
  from short_at_write_short [OF this] assms(8,9)
  have "map_option (\<lambda>w. int (unat w)) (short_at cs' (new_offset p + ?w)) = Some ?j" by simp
  moreover have "int (new_offset p + n) + sign p * ?j = int new_target" using assms(7) by auto
  ultimately show ?thesis by blast
qed

text \<open>\<open>x = 2 + 3\<close> with a jump behind it.\<close>

definition sample_chunk :: chunk where
  "sample_chunk =
     (let c = init_chunk;
          (c, _) = add_constant c (VNumber (dbl_of_int 2));
          (c, _) = add_constant c (VNumber (dbl_of_int 3))
      in fold (\<lambda>b c. write_chunk c b 1)
           [OP_CONSTANT, 0, OP_CONSTANT, 1, OP_ADD, OP_JUMP, 0, 1, OP_NIL, OP_RETURN] c)"

lemma wf_sample_chunk: "wf_chunk sample_chunk"
  unfolding sample_chunk_def Let_def
  by (simp add: wf_write_chunk wf_add_constant split: prod.splits)
    (metis fst_conv wf_add_constant wf_init_chunk wf_write_chunk)


theorem patched_jump_target_witness:
  "\<exists>cs' j. apply_patch empty_heap sample_chunk [9 \<mapsto> 6] \<lparr>old_offset = 5, new_offset = 2, sign = 1,
      old_jump = 1, write_offset = 1\<rparr> [OP_CONSTANT, 2, OP_JUMP, 0, 0, OP_NIL, OP_RETURN] = Some cs' \<and>
     map_option (\<lambda>w. int (unat w)) (short_at cs' 3) = Some j \<and> 5 + j = 6"
proof -
  let ?p = "\<lparr>old_offset = 5, new_offset = 2, sign = 1, old_jump = 1, write_offset = 1\<rparr> :: jump_patch"
  let ?cs = "[OP_CONSTANT, 2, OP_JUMP, 0, 0, OP_NIL, OP_RETURN]"
  have r: "apply_patch empty_heap sample_chunk [9 \<mapsto> 6] ?p ?cs = Some [OP_CONSTANT, 2, OP_JUMP, 0, 1, OP_NIL, OP_RETURN]"
    by code_simp
  have l: "instr_length empty_heap sample_chunk 5 = Some 3" "at (code sample_chunk) 5 = Some OP_JUMP"
    "length (code sample_chunk) = 10" by code_simp+
  show ?thesis
    using patched_jump_target [OF r, of 3 OP_JUMP 9 6] r l by simp
qed

section \<open>Where the optimizer goes wrong\<close>

lemma with_new_constant_eq:
  "with_new_constant c d = (Some k, c') \<longleftrightarrow>
     k = length (va_values (constants c)) \<and> c' = fst (add_constant c (VNumber d))"
  by (auto simp: with_new_constant_def add_constant_def write_value_array_def Let_def)

lemma fold_binary_numbers_Some:
  assumes "fold_binary_numbers pw c i = Some (Some k, c')"
  obtains a b r where "is_number_constant c (unat (code c ! (i + 1))) = Some (Some a)"
    "is_number_constant c (unat (code c ! (i + 3))) = Some (Some b)"
    "fold_result pw (code c ! (i + 4)) a b = Some r" "with_new_constant c r = (Some k, c')"
proof -
  obtain a b where n: "is_number_constant c (unat (code c ! (i + 1))) = Some a"
    "is_number_constant c (unat (code c ! (i + 3))) = Some b"
    and r: "(case a of None \<Rightarrow> Some (None, c) | Some a \<Rightarrow> (case b of None \<Rightarrow> Some (None, c)
       | Some b \<Rightarrow> map_option (with_new_constant c) (fold_result pw (code c ! (i + 4)) a b))) = Some (Some k, c')"
    using assms by (auto simp: fold_binary_numbers_def bind_eq_Some_conv split: if_split_asm)
  show thesis
    using n r that by (cases a; cases b) auto
qed

text \<open>
  C38. A folded binary operation emits \<open>OP_CONSTANT\<close> with the index of the new constant cut to a
  byte. With fewer than 256 constants the instruction loads the folded result; from then on it
  loads another constant of the function.
\<close>

theorem folded_constant_index:
  assumes "fold_binary pw marks c i = Some (c', Some (bs, n))"
    and "N = length (va_values (constants c))"
  shows "\<exists>a b r. is_number_constant c (unat (code c ! (i + 1))) = Some (Some a) \<and>
     is_number_constant c (unat (code c ! (i + 3))) = Some (Some b) \<and>
     fold_result pw (code c ! (i + 4)) a b = Some r \<and> bs = [OP_CONSTANT, of_nat N] \<and>
     const_at c' (unat (of_nat N :: byte)) =
       (if N < 256 then Some (VNumber r) else const_at c (N mod 256))"
proof -
  obtain k where k: "fold_binary_numbers pw c i = Some (Some k, c')" and bs: "bs = [OP_CONSTANT, of_nat k]"
    using assms(1)
    by (auto simp: fold_binary_def no_rewrite_def bind_eq_Some_conv split: if_split_asm option.split_asm)
  from k obtain a b r where r: "is_number_constant c (unat (code c ! (i + 1))) = Some (Some a)"
    "is_number_constant c (unat (code c ! (i + 3))) = Some (Some b)"
    "fold_result pw (code c ! (i + 4)) a b = Some r" "with_new_constant c r = (Some k, c')"
    by (rule fold_binary_numbers_Some)
  have "k = N" and c': "c' = fst (add_constant c (VNumber r))"
    using r(4) assms(2) by (simp_all add: with_new_constant_eq)
  have vals: "va_values (constants c') = va_values (constants c) @ [VNumber r]"
    by (simp add: c' add_constant_def write_value_array_def Let_def)
  have "const_at c' (unat (of_nat N :: byte)) = (if N < 256 then Some (VNumber r) else const_at c (N mod 256))"
  proof (cases "N < 256")
    case True
    then show ?thesis using vals assms(2) by (simp add: const_at_def unat_of_nat nth_append at_lt)
  next
    case False
    then have "N mod 256 < N" using mod_less_divisor [of 256 N] by linarith
    then show ?thesis using vals assms(2) False by (simp add: const_at_def at_def unat_of_nat nth_append)
  qed
  with r bs \<open>k = N\<close> show ?thesis by blast
qed

theorem folded_constant_index_witness:
  "\<exists>c' a b r. fold_binary dadd (replicate 10 False) sample_chunk 0 = Some (c', Some ([OP_CONSTANT, 2], 5)) \<and>
     fold_result dadd OP_ADD a b = Some r \<and> const_at c' 2 = Some (VNumber r)"
proof -
  have "case fold_binary dadd (replicate 10 False) sample_chunk 0 of
          Some (c', Some (bs, n)) \<Rightarrow> bs = [OP_CONSTANT, 2] \<and> n = 5 | _ \<Rightarrow> False"
    by code_simp
  then obtain c' where r: "fold_binary dadd (replicate 10 False) sample_chunk 0 = Some (c', Some ([OP_CONSTANT, 2], 5))"
    by (auto split: option.splits prod.splits)
  have l: "length (va_values (constants sample_chunk)) = 2" "code sample_chunk ! 4 = OP_ADD" by code_simp+
  show ?thesis
    using folded_constant_index [OF r l(1) [symmetric]] r l(2) by auto
qed

lemmas pattern_defs =
  opt_step_def rewrite_at_def drop_adjust_def drop_identity_def inc_local_def local_const_def
  local_pattern_def fold_binary_def fold_unary_def const_rhs_def fuse_set_local_def ops_at_def

lemma print_copied:
  assumes "code c = [OP_PRINT, 0, OP_GET_GLOBAL, 2, OP_POP, OP_NIL, OP_RETURN]"
    and "length (lines c) = 7" "opt_chunk st = c"
  shows "\<exists>st'. opt_step h pw marks 0 st = Some (st', 1) \<and> opt_chunk st' = c"
proof -
  have "lines c \<noteq> []" using assms(2) by auto
  then show ?thesis using assms unfolding pattern_defs Let_def
    by (simp add: or_else_def is_safe_single_producer_def no_rewrite_def at_def copy_instr_def
        instr_length_def patches_for_def set_local_op_def const_op_def emit_def)
qed

lemma operand_read_as_constant:
  assumes "code c = [OP_PRINT, 0, OP_GET_GLOBAL, 2, OP_POP, OP_NIL, OP_RETURN]"
    and "length (va_values (constants c)) \<le> 16" "opt_chunk st = c"
  shows "opt_step h pw marks 1 st = None"
  using assms unfolding pattern_defs Let_def
  by (simp add: or_else_def is_safe_single_producer_def no_rewrite_def at_def
        instr_length_def is_number_constant_def const_at_def)

text \<open>
  C39. \<open>print()\<close> compiles to \<open>OP_PRINT 0\<close>, two bytes, of which the optimizer skips one: it goes on
  at the operand as if it were \<open>OP_CONSTANT\<close>. If a read of the global with constant number 2
  follows, the pattern for a constant on the right of an addition looks up constant 16 of a
  function that may not have that many.
\<close>

theorem print_operand_misread:
  assumes "code c = [OP_PRINT, 0, OP_GET_GLOBAL, 2, OP_POP, OP_NIL, OP_RETURN]"
    and "length (lines c) = 7" "length (va_values (constants c)) \<le> 16"
  shows "optimize_chunk h pw c = None"
proof -
  have "opt_loop h pw marks 0 st = None" if st: "opt_chunk st = c" for marks st
  proof -
    obtain st' where s: "opt_step h pw marks 0 st = Some (st', 1)" "opt_chunk st' = c"
      using print_copied [OF assms(1,2) st] by blast
    have "opt_loop h pw marks 1 st' = None"
      using operand_read_as_constant [OF assms(1,3) s(2)] assms(1) s(2)
      by (subst opt_loop.simps) simp
    then show ?thesis using s(1) assms(1) st by (subst opt_loop.simps) simp
  qed
  then show ?thesis using assms(1) by (simp add: optimize_chunk_def)
qed

theorem print_operand_misread_witness:
  "optimize_chunk empty_heap dadd
     (fold (\<lambda>b c. write_chunk c b 1) [OP_PRINT, 0, OP_GET_GLOBAL, 2, OP_POP, OP_NIL, OP_RETURN] init_chunk) = None"
  by (rule print_operand_misread) (simp_all add: init_chunk_def init_value_array_def)

end
