(* ===== verification/Compile_Control.thy ===== *)
theory Compile_Control
  imports Compile_Stmt Opt
begin

text \<open>
  Control statements (\<open>src/src/compiler/stmt_control.c\<close>), declarations
  (\<open>src/src/compiler/stmt.c\<close>), the table of parsing rules and \<open>compile\<close> (\<open>src/src/compiler.c\<close>).
\<close>

section \<open>Blocks\<close>

text \<open>The body after a header: an indented block, or one statement.\<close>

definition suite :: "parser \<Rightarrow> nat \<Rightarrow> string \<Rightarrow> cmd" where
  "suite rec header_line msg st =
     do {
       (m, st) \<leftarrow> match_token TOKEN_INDENT st;
       (if m then seq [block rec, skip_token TOKEN_DEDENT] st
        else seq [only_if (header_line < kline (pcur st)) (error msg), rec Statement] st)
     }"

definition scoped_suite :: "parser \<Rightarrow> nat \<Rightarrow> string \<Rightarrow> cmd" where
  "scoped_suite rec header_line msg = seq [begin_scope, suite rec header_line msg, end_scope]"

definition parse_statement_suite :: "parser \<Rightarrow> nat \<Rightarrow> string \<Rightarrow> cmd" where
  "parse_statement_suite rec header_line msg st =
     do {
       (m, st) \<leftarrow> match_token TOKEN_INDENT st;
       (if m then seq [block rec, skip_token TOKEN_DEDENT] st
        else if kline (pcur st) \<le> header_line then rec Statement st
        else if \<not> in_table_entry st then seq [error msg, rec Statement] st
        else do {
          header_indent \<leftarrow> token_indent st (pprev st);
          d \<leftarrow> deeper_than header_indent st;
          (if \<not> d then seq [error msg, rec Statement] st
           else indented_statements rec {TOKEN_EOF, TOKEN_RIGHT_BRACE, TOKEN_DEDENT} header_line header_indent st)
        })
     }"

section \<open>Conditionals\<close>

definition if_statement :: "parser \<Rightarrow> cmd" where
  "if_statement rec st =
     do {
       st \<leftarrow> fresh_expression rec st;
       let header_line = kline (pprev st);
       (then_jump, st) \<leftarrow> emit_jump OP_JUMP_IF_FALSE st;
       st \<leftarrow> seq [emit_byte OP_POP, begin_scope,
                   parse_statement_suite rec header_line ''Expected indented block after 'if'.'',
                   end_scope] st;
       (else_jump, st) \<leftarrow> emit_jump OP_JUMP st;
       st \<leftarrow> seq [patch_jump then_jump, emit_byte OP_POP] st;
       (elif, st) \<leftarrow> match_token (KW ''ELIF'') st;
       st \<leftarrow> (if elif then rec If_Statement st
               else do {
                 (m, st) \<leftarrow> match_token (KW ''ELSE'') st;
                 only_if m (seq [begin_scope,
                   parse_statement_suite rec (kline (pprev st)) ''Expected indented block after 'else'.'',
                   end_scope]) st
               });
       patch_jump else_jump st
     }"

text \<open>
  The clauses of \<open>match\<close>: jumps to its end, the jump of a comparison that failed, and what was seen.
\<close>

record match_state =
  clause_ends :: "nat list"
  pending_fail :: "nat option"
  saw_clause :: bool
  saw_else :: bool

definition patch_pending :: "match_state \<Rightarrow> cmd" where
  "patch_pending m =
     (case pending_fail m of None \<Rightarrow> Some | Some j \<Rightarrow> seq [patch_jump j, emit_byte OP_POP])"

definition case_clause :: "parser \<Rightarrow> nat \<Rightarrow> match_state \<Rightarrow> (bool \<times> match_state) cval" where
  "case_clause rec slot m st =
     (if saw_else m then
        do { st \<leftarrow> error ''Can't have 'case' after 'else' in match.'' st; Some ((False, m), st) }
      else do {
        st \<leftarrow> seq [set_type_top 0, get_local slot, expression rec, emit_byte OP_EQUAL] st;
        (fail, st) \<leftarrow> emit_jump OP_JUMP_IF_FALSE st;
        st \<leftarrow> emit_byte OP_POP st;
        st \<leftarrow> scoped_suite rec (kline (pprev st)) ''Expected indented block after 'case'.'' st;
        let m = m\<lparr>saw_clause := True, pending_fail := Some fail\<rparr>;
        (if 256 \<le> length (clause_ends m) then
           do { st \<leftarrow> error ''Too many clauses in match statement.'' st; Some ((True, m), st) }
         else do {
           (j, st) \<leftarrow> emit_jump OP_JUMP st;
           Some ((True, m\<lparr>clause_ends := clause_ends m @ [j]\<rparr>), st)
         })
      })"

definition else_clause :: "parser \<Rightarrow> match_state \<Rightarrow> match_state cval" where
  "else_clause rec m st =
     (if saw_else m then
        do { st \<leftarrow> error ''Can't have multiple 'else' clauses in match.'' st; Some (m, st) }
      else do {
        st \<leftarrow> scoped_suite rec (kline (pprev st)) ''Expected indented block after 'else'.'' st;
        Some (m\<lparr>saw_clause := True, saw_else := True\<rparr>, st)
      })"

text \<open>A clause; the result says whether to go on.\<close>

definition match_clause :: "parser \<Rightarrow> nat \<Rightarrow> match_state \<Rightarrow> (bool \<times> match_state) cval" where
  "match_clause rec slot m st =
     do {
       st \<leftarrow> patch_pending m st;
       let m = m\<lparr>pending_fail := None\<rparr>;
       (c, st) \<leftarrow> match_identifier_keyword ''case'' st;
       (if c then case_clause rec slot m st
        else do {
          (e, st) \<leftarrow> match_token (KW ''ELSE'') st;
          (if e then do { (m, st) \<leftarrow> else_clause rec m st; Some ((False, m), st) }
           else do {
             st \<leftarrow> error ''Expect 'case' or 'else' in match block.'' st;
             Some ((False, m), st)
           })
        })
     }"

definition match_statement :: "parser \<Rightarrow> cmd" where
  "match_statement rec st =
     do {
       st \<leftarrow> seq [begin_scope, fresh_expression rec] st;
       slot \<leftarrow> local_count st;
       st \<leftarrow> seq [new_hidden ''$match_value'', set_type_top 0,
                   consume TOKEN_INDENT ''Expected indented block after 'match'.''] st;
       (m, st) \<leftarrow> repeat_while (\<lambda>(m, st).
           if check_token TOKEN_DEDENT st \<or> check_token TOKEN_EOF st then Some (False, (m, st))
           else do {
             ((more, m), st) \<leftarrow> match_clause rec slot m st;
             Some (more, (m, st))
           }) (\<lparr>clause_ends = [], pending_fail = None, saw_clause = False, saw_else = False\<rparr>, st);
       seq [patch_pending m, consume TOKEN_DEDENT ''Expect end of match block.'',
            seq (map patch_jump (clause_ends m)), end_scope,
            only_if (\<not> saw_clause m) (error ''Match block must contain at least one clause.'')] st
     }"

section \<open>Exceptions\<close>

text \<open>The handler of \<open>except\<close>; the jump over it from the end of the \<open>try\<close> block is the result.\<close>

definition except_filter :: "parser \<Rightarrow> nat option \<Rightarrow> nat option cval" where
  "except_filter rec except_local st =
     do {
       (m, st) \<leftarrow> match_token (KW ''IF'') st;
       (if \<not> m then Some (None, st)
        else if except_local = None then
          do {
            st \<leftarrow> error ''Filtered except requires an exception variable: use 'except e if ...'.'' st;
            Some (None, st)
          }
        else do {
          st \<leftarrow> fresh_expression rec st;
          (j, st) \<leftarrow> emit_jump OP_JUMP_IF_FALSE st;
          st \<leftarrow> emit_byte OP_POP st;
          Some (Some j, st)
        })
     }"

definition rethrow_unless :: "nat option \<Rightarrow> nat option \<Rightarrow> cmd" where
  "rethrow_unless filter_jump except_local st =
     (case (filter_jump, except_local) of
        (Some j, Some i) \<Rightarrow>
          do {
            (after, st) \<leftarrow> emit_jump OP_JUMP st;
            seq [patch_jump j, emit_byte OP_POP, get_local i, emit_byte OP_THROW, patch_jump after] st
          }
      | _ \<Rightarrow> Some st)"

definition except_part :: "parser \<Rightarrow> nat \<Rightarrow> nat cval" where
  "except_part rec except_offset st =
     do {
       (after_try, st) \<leftarrow> emit_jump OP_JUMP st;
       st \<leftarrow> seq [patch_try except_offset, begin_scope] st;
       (m, st) \<leftarrow> match_token TOKEN_IDENTIFIER st;
       (e, st) \<leftarrow> (if m then do {
                      st \<leftarrow> new_local (pprev st) st;
                      (i, st) \<leftarrow> last_local st;
                      st \<leftarrow> set_local i st;
                      Some (Some i, st)
                    }
                    else do { st \<leftarrow> emit_byte OP_POP st; Some (None, st) });
       (f, st) \<leftarrow> except_filter rec e st;
       st \<leftarrow> seq [suite rec (kline (pprev st)) ''Expected indented block after 'except'.'',
                   rethrow_unless f e, end_scope, emit_byte OP_END_TRY] st;
       Some (after_try, st)
     }"

definition try_statement :: "parser \<Rightarrow> cmd" where
  "try_statement rec st =
     do {
       n \<leftarrow> local_count st;
       ((flags, ex, fin), st) \<leftarrow> emit_try (of_nat n) st;
       st \<leftarrow> scoped_suite rec (kline (pprev st)) ''Expected indented block after 'try'.'' st;
       (if \<not> check_token (KW ''EXCEPT'') st \<and> \<not> check_token (KW ''FINALLY'') st
        then error ''Expect 'except' or 'finally' after try block.'' st
        else do {
          st \<leftarrow> emit_byte OP_END_TRY st;
          (e, st) \<leftarrow> match_token (KW ''EXCEPT'') st;
          (after_try, st) \<leftarrow> (if e then except_part rec ex st else Some (0, st));
          (f, st) \<leftarrow> match_token (KW ''FINALLY'') st;
          seq [only_if e (patch_jump after_try),
               only_if f (seq [patch_try_finally fin,
                 scoped_suite rec (kline (pprev st)) ''Expected indented block after 'finally'.'',
                 emit_byte OP_END_FINALLY]),
               put_code flags ((if e then 1 else 0) OR (if f then 2 else 0))] st
        })
     }"

text \<open>\<open>with e as x\<close>: the methods \<open>__enter\<close> and \<open>__exit\<close> are called if the context has them.\<close>

definition with_enter :: "nat \<Rightarrow> cmd" where
  "with_enter slot st =
     do {
       st \<leftarrow> seq [get_local slot, emit_named OP_CONSTANT (hidden ''__enter'' st),
                   emit_byte OP_GET_TABLE] st;
       (skip_enter, st) \<leftarrow> emit_jump OP_JUMP_IF_FALSE st;
       st \<leftarrow> emit_call 0 st;
       (after_enter, st) \<leftarrow> emit_jump OP_JUMP st;
       seq [patch_jump skip_enter, emit_byte OP_POP, get_local slot, patch_jump after_enter] st
     }"

definition with_as :: cmd where
  "with_as st =
     do {
       (m, st) \<leftarrow> match_token (KW ''AS'') st;
       (if \<not> m then emit_byte OP_POP st
        else do {
          st \<leftarrow> consume TOKEN_IDENTIFIER ''Expect name after 'as'.'' st;
          let name = pprev st;
          (i, st) \<leftarrow> resolve_local name st;
          (case i of
             Some i \<Rightarrow> seq [set_local i, emit_byte OP_POP] st
           | None \<Rightarrow>
               do {
                 (k, st) \<leftarrow> resolve_upvalue name st;
                 (case k of
                    Some k \<Rightarrow> seq [emit_bytes OP_SET_UPVALUE (of_nat k), emit_byte OP_POP] st
                  | None \<Rightarrow> new_local name st)
               })
        })
     }"

definition with_exit :: "nat \<Rightarrow> nat \<Rightarrow> cmd" where
  "with_exit slot ex_slot st =
     do {
       st \<leftarrow> seq [get_local slot, emit_named OP_CONSTANT (hidden ''__exit'' st),
                   emit_byte OP_GET_TABLE] st;
       (skip_exit, st) \<leftarrow> emit_jump OP_JUMP_IF_FALSE st;
       st \<leftarrow> seq [get_local ex_slot, emit_call 1, emit_byte OP_POP] st;
       (after_exit, st) \<leftarrow> emit_jump OP_JUMP st;
       seq [patch_jump skip_exit, emit_byte OP_POP, patch_jump after_exit] st
     }"

definition with_statement :: "parser \<Rightarrow> cmd" where
  "with_statement rec st =
     do {
       st \<leftarrow> seq [begin_scope, fresh_expression rec] st;
       slot \<leftarrow> local_count st;
       st \<leftarrow> seq [new_hidden ''$with_ctx'', with_enter slot, with_as] st;
       ex_slot \<leftarrow> local_count st;
       let ex_token = hidden ''$with_ex'' st;
       st \<leftarrow> seq [emit_byte OP_NIL, new_local ex_token] st;
       n \<leftarrow> local_count st;
       ((flags, ex, fin), st) \<leftarrow> emit_try (of_nat n) st;
       st \<leftarrow> seq [scoped_suite rec (kline (pprev st)) ''Expected indented block after 'with'.'',
                   emit_byte OP_END_TRY] st;
       (after_try, st) \<leftarrow> emit_jump OP_JUMP st;
       seq [patch_try ex, set_local ex_slot, get_local ex_slot, emit_byte OP_THROW, patch_jump after_try,
            patch_try_finally fin, with_exit slot ex_slot, emit_byte OP_END_FINALLY,
            put_code flags 3, end_scope] st
     }"

section \<open>Loops\<close>

definition push_loop :: "nat \<Rightarrow> int \<Rightarrow> bool \<Rightarrow> nat option \<Rightarrow> cmd" where
  "push_loop start d for_loop slots =
     upd_comp (\<lambda>c. c\<lparr>loop_contexts :=
       \<lparr>lc_start = start, lc_depth = d, break_jumps = [], continue_jumps = [], is_for_loop = for_loop,
        slots_to_pop = slots\<rparr> # loop_contexts c\<rparr>)"

definition pop_loop :: cmd where
  "pop_loop = upd_comp (\<lambda>c. c\<lparr>loop_contexts := tl (loop_contexts c)\<rparr>)"

definition current_loop :: "cst \<Rightarrow> loop_ctx option" where
  "current_loop st = do { c \<leftarrow> comp st; at (loop_contexts c) 0 }"

definition upd_loop :: "(loop_ctx \<Rightarrow> loop_ctx) \<Rightarrow> cmd" where
  "upd_loop f = upd_comp (\<lambda>c. c\<lparr>loop_contexts := (case loop_contexts c of [] \<Rightarrow> [] | l # ls \<Rightarrow> f l # ls)\<rparr>)"

definition patch_breaks :: cmd where
  "patch_breaks st = do { l \<leftarrow> current_loop st; seq (map patch_jump (break_jumps l)) st }"

text \<open>\<open>slots_to_pop\<close> of a \<open>while\<close> loop is never set.\<close>

definition while_statement :: "parser \<Rightarrow> cmd" where
  "while_statement rec st =
     do {
       start \<leftarrow> here st;
       c \<leftarrow> comp st;
       st \<leftarrow> seq [push_loop start (scope_depth c) False None, fresh_expression rec] st;
       let header_line = kline (pprev st);
       (exit_jump, st) \<leftarrow> emit_jump OP_JUMP_IF_FALSE st;
       seq [emit_byte OP_POP, scoped_suite rec header_line ''Expected indented block after 'while'.'',
            emit_loop start, patch_jump exit_jump, emit_byte OP_POP, patch_breaks, pop_loop] st
     }"

text \<open>\<open>op var end\<close> and a jump offset, which is the result.\<close>

definition emit_for :: "byte \<Rightarrow> nat \<Rightarrow> nat \<Rightarrow> nat cval" where
  "emit_for op var_slot end_slot st =
     do {
       st \<leftarrow> seq [emit_byte op, emit_byte (of_nat var_slot), emit_byte (of_nat end_slot), emit_byte 0,
                   emit_byte 0] st;
       n \<leftarrow> here st;
       Some (n - 2, st)
     }"

text \<open>A forward jump that is not checked to fit.\<close>

definition jump_here :: "nat \<Rightarrow> cmd" where
  "jump_here j st = do { n \<leftarrow> here st; put_short j (int n - int (j + 2)) st }"

definition for_range :: "parser \<Rightarrow> ctoken \<Rightarrow> int \<Rightarrow> nat \<Rightarrow> cmd" where
  "for_range rec name d header_line st =
     do {
       st \<leftarrow> add_local name st;
       st \<leftarrow> add_local (hidden ''(end)'' st) st;
       st \<leftarrow> mark_initialized_count 2 st;
       n \<leftarrow> local_count st;
       loop_start \<leftarrow> here st;
       st \<leftarrow> push_loop loop_start d True (Some 0) st;
       (exit_jump, st) \<leftarrow> emit_for OP_FOR_PREP (n - 2) (n - 1) st;
       st \<leftarrow> scoped_suite rec header_line ''Expected indented block after 'for'.'' st;
       l \<leftarrow> current_loop st;
       st \<leftarrow> seq (map jump_here (continue_jumps l)) st;
       (back_jump, st) \<leftarrow> emit_for OP_FOR_LOOP (n - 2) (n - 1) st;
       k \<leftarrow> here st;
       seq [put_short back_jump (int k - int loop_start), jump_here exit_jump, patch_breaks, pop_loop,
            end_scope] st
     }"

definition for_each :: "parser \<Rightarrow> nat \<Rightarrow> bool \<Rightarrow> ctoken list \<Rightarrow> int \<Rightarrow> nat \<Rightarrow> cmd" where
  "for_each rec n sigil vars d header_line st =
     do {
       ((loop_start, exit_jump, var_count), st) \<leftarrow> iteration_setup n False sigil vars st;
       st \<leftarrow> seq [push_loop loop_start d True (Some var_count),
                   scoped_suite rec header_line ''Expected indented block after 'for'.''] st;
       l \<leftarrow> current_loop st;
       seq [iteration_end loop_start exit_jump var_count (continue_jumps l), patch_breaks, pop_loop,
            end_scope] st
     }"

definition for_statement :: "parser \<Rightarrow> cmd" where
  "for_statement rec st =
     do {
       st \<leftarrow> begin_scope st;
       c \<leftarrow> comp st;
       let d = scope_depth c;
       st \<leftarrow> consume TOKEN_IDENTIFIER ''Expect variable name.'' st;
       let name = pprev st;
       (sigil, st) \<leftarrow> index_sigil name st;
       (m, st) \<leftarrow> match_token TOKEN_COMMA st;
       (if \<not> m \<and> \<not> check_token (KW ''IN'') st then error ''Expect 'in' after loop variable.'' st
        else do {
          st \<leftarrow> only_if m (consume TOKEN_IDENTIFIER ''Expect second variable name.'') st;
          let vars = (if m then [name, pprev st] else [name]);
          st \<leftarrow> consume (KW ''IN'') ''Expect 'in'.'' st;
          (is_range, st) \<leftarrow> first_iterator (fresh_expression rec) (\<not> m \<and> \<not> sigil) st;
          (if is_range \<and> check_token TOKEN_COMMA st then
             seq [error ''Range expression cannot be used with multiple iterator expressions.'', end_scope] st
           else do {
             (n, st) \<leftarrow> more_iterators (fresh_expression rec) 1 st;
             (if is_range \<and> n = 1 then for_range rec name d (kline (pprev st)) st
              else for_each rec n sigil vars d (kline (pprev st)) st)
           })
        })
     }"

text \<open>The locals of the scopes that \<open>break\<close> and \<open>continue\<close> leave.\<close>

definition leave_scopes :: "loop_ctx \<Rightarrow> cmd" where
  "leave_scopes l st =
     do { c \<leftarrow> comp st; seq (map (\<lambda>v. emit_byte (exit_op v)) (deeper (lc_depth l) c)) st }"

definition break_statement :: cmd where
  "break_statement st =
     (case current_loop st of
        None \<Rightarrow> error ''Can't use 'break' outside a loop.'' st
      | Some l \<Rightarrow>
          do {
            st \<leftarrow> leave_scopes l st;
            (j, st) \<leftarrow> emit_jump OP_JUMP st;
            (if 256 \<le> length (break_jumps l) then None
             else upd_loop (\<lambda>l. l\<lparr>break_jumps := break_jumps l @ [j]\<rparr>) st)
          })"

definition continue_statement :: cmd where
  "continue_statement st =
     (case current_loop st of
        None \<Rightarrow> error ''Can't use 'continue' outside a loop.'' st
      | Some l \<Rightarrow>
          do {
            st \<leftarrow> leave_scopes l st;
            n \<leftarrow> slots_to_pop l;
            st \<leftarrow> seq (replicate n (emit_byte OP_POP)) st;
            (if is_for_loop l then
               do {
                 (j, st) \<leftarrow> emit_jump OP_JUMP st;
                 (if 256 \<le> length (continue_jumps l) then None
                  else upd_loop (\<lambda>l. l\<lparr>continue_jumps := continue_jumps l @ [j]\<rparr>) st)
               }
             else emit_loop (lc_start l) st)
          })"

end
