(* ===== verification/Compile_Run.thy ===== *)
theory Compile_Run
  imports Compile_Control
begin

text \<open>
  The dispatch of statements and declarations, the table of parsing rules, the recursion of the
  parser, and \<open>compile\<close> (\<open>src/src/compiler.c\<close>, \<open>src/src/compiler/stmt.c\<close>,
  \<open>src/src/compiler/stmt_control.c\<close>).
\<close>

section \<open>Statements and declarations\<close>

text \<open>The statement that a keyword begins.\<close>

definition keyword_statement :: "parser \<Rightarrow> token_type \<Rightarrow> cmd option" where
  "keyword_statement rec ty =
     (if ty = KW ''PRINT'' then Some (print_stmt rec)
      else if ty = KW ''IF'' then Some (if_statement rec)
      else if ty = KW ''TRY'' then Some (try_statement rec)
      else if ty = KW ''WITH'' then Some (with_statement rec)
      else if ty = KW ''THROW'' then Some (throw_statement rec)
      else if ty = KW ''YIELD'' then Some (yield_statement rec)
      else if ty = KW ''WHILE'' then Some (while_statement rec)
      else if ty = KW ''FOR'' then Some (for_statement rec)
      else if ty = KW ''RETURN'' then Some (return_statement rec)
      else if ty = KW ''BREAK'' then Some break_statement
      else if ty = KW ''CONTINUE'' then Some continue_statement
      else if ty = KW ''GC'' then Some (emit_byte OP_GC)
      else if ty = KW ''ASSERT'' then Some (assert_statement rec)
      else if ty = KW ''DEL'' then Some (del_statement rec)
      else None)"

definition statement :: "parser \<Rightarrow> cmd" where
  "statement rec st =
     (case keyword_statement rec (ktype (pcur st)) of
        Some c \<Rightarrow> seq [advance, c] st
      | None \<Rightarrow>
          do {
            (m, st) \<leftarrow> match_identifier_keyword ''match'' st;
            (if m then match_statement rec st
             else do {
               multi \<leftarrow> is_multi_assignment_statement st;
               (if multi then multi_assignment_statement rec st else expression_statement rec st)
             })
          })"

definition decl :: "parser \<Rightarrow> cmd" where
  "decl rec st =
     (let ty = ktype (pcur st) in
      if ty = TOKEN_AT then seq [advance, decorated_function_declaration rec] st
      else if ty = KW ''FN'' then seq [advance, function_declaration rec] st
      else if ty = KW ''IMPORT'' then seq [advance, import_statement] st
      else if ty = KW ''FROM'' then seq [advance, from_import_statement] st
      else if ty = KW ''GLOBAL'' then
        do {
          st \<leftarrow> advance st;
          (m, st) \<leftarrow> match_token (KW ''FN'') st;
          (if m then global_function_declaration rec st else global_declaration rec st)
        }
      else if ty = KW ''LOCAL'' then
        do {
          st \<leftarrow> advance st;
          (m, st) \<leftarrow> match_token (KW ''FN'') st;
          (if m then function_declaration rec st else variable_declaration rec st)
        }
      else statement rec st)"

section \<open>Parsing rules\<close>

definition prefix_rule :: "parser \<Rightarrow> token_type \<Rightarrow> bool \<Rightarrow> cmd option" where
  "prefix_rule rec ty can_assign =
     (if ty = TOKEN_LEFT_PAREN then Some (grouping rec)
      else if ty = TOKEN_LEFT_BRACE then Some (table_prefix rec)
      else if ty = TOKEN_MINUS \<or> ty = TOKEN_HASH \<or> ty = KW ''NOT'' then Some (unary rec)
      else if ty = TOKEN_IDENTIFIER then Some (variable rec can_assign)
      else if ty = TOKEN_STRING then Some string_literal
      else if ty = TOKEN_FSTRING then Some (fstring rec)
      else if ty = TOKEN_NUMBER then Some number
      else if ty = KW ''FALSE'' \<or> ty = KW ''NIL'' \<or> ty = KW ''TRUE'' then Some literal
      else if ty = KW ''FN'' then Some (anonymous_function rec)
      else if ty = KW ''IMPORT'' then Some import_expression
      else None)"

definition is_binary_token :: "token_type \<Rightarrow> bool" where
  "is_binary_token ty \<longleftrightarrow> binary_code ty 0 0 \<noteq> None"

definition infix_rule :: "parser \<Rightarrow> token_type \<Rightarrow> bool \<Rightarrow> cmd" where
  "infix_rule rec ty can_assign st =
     (if ty = TOKEN_LEFT_PAREN then parse_call rec st
      else if ty = TOKEN_LEFT_BRACE then table_infix rec st
      else if ty = TOKEN_LEFT_BRACKET then subscript rec can_assign st
      else if ty = TOKEN_DOT then dot rec can_assign st
      else if ty = TOKEN_DOT_DOT then range_op rec st
      else if ty = TOKEN_QUESTION then ternary rec st
      else if ty = TOKEN_COLON_COLON then meta_dot rec can_assign st
      else if ty = KW ''AND'' then and_op rec st
      else if ty = KW ''OR'' then or_op rec st
      else if ty = KW ''NOT'' then not_in rec st
      else if is_binary_token ty then binary rec st
      else None)"

text \<open>The operators after an operand, as long as they bind at least as tightly as \<open>p\<close>.\<close>

definition continues :: "nat \<Rightarrow> cst \<Rightarrow> bool" where
  "continues p st \<longleftrightarrow>
     p \<le> rule_precedence (ktype (pcur st)) \<and> \<not> (in_table_entry st \<and> is_implicit_table_separator st)"

definition infix_step :: "parser \<Rightarrow> nat \<Rightarrow> cmd" where
  "infix_step rec p st =
     do { st \<leftarrow> advance st; infix_rule rec (ktype (pprev st)) (p \<le> PREC_ASSIGNMENT) st }"

definition infix_loop :: "parser \<Rightarrow> nat \<Rightarrow> cmd" where
  "infix_loop rec p = while_cmd (continues p) (infix_step rec p)"

definition parse_precedence :: "parser \<Rightarrow> nat \<Rightarrow> cmd" where
  "parse_precedence rec p st =
     (let can_assign = (p \<le> PREC_ASSIGNMENT) in
      do {
        st \<leftarrow> advance st;
        (case prefix_rule rec (ktype (pprev st)) can_assign of
           None \<Rightarrow> error ''Expect expression.'' st
         | Some f \<Rightarrow>
             do {
               st \<leftarrow> seq [f, infix_loop rec p] st;
               (m, st) \<leftarrow> match_assign can_assign st;
               (op, st) \<leftarrow> (if can_assign \<and> \<not> m then match_compound_assign st else Some (None, st));
               only_if (m \<or> op \<noteq> None) (error ''Invalid assignment target.'') st
             })
      })"

section \<open>Compiling a source\<close>

text \<open>The recursion, with a bound on its depth.\<close>

fun compile_call :: "nat \<Rightarrow> parser" where
  "compile_call 0 g st = None"
| "compile_call (Suc n) g st =
     (case g of
        Precedence p \<Rightarrow> parse_precedence (compile_call n) p st
      | Statement \<Rightarrow> statement (compile_call n) st
      | Declaration \<Rightarrow> decl (compile_call n) st
      | If_Statement \<Rightarrow> if_statement (compile_call n) st)"

definition start_state :: "bytes \<Rightarrow> bool \<Rightarrow> heap \<Rightarrow> cst" where
  "start_state source repl h =
     (let t = \<lparr>ktype = TOKEN_ERROR, kpos = Some 0, ktext = [], kline = 1\<rparr> in
      \<lparr>src = source, lex = init_lexer, pcur = t, pprev = t, had_error = False, panic_mode = False,
       reported = [], compilers = [], cheap = h, is_repl = repl, ends_with_call = False,
       was_range = False, in_for_header = False, in_table_entry = False, type_stack = (\<lambda>_. 0),
       type_top = 0\<rparr>)"

definition declarations :: "parser \<Rightarrow> cmd" where
  "declarations rec st =
     repeat_while (\<lambda>st. do {
         (m, st) \<leftarrow> match_token TOKEN_EOF st;
         (if m then Some (False, st) else do { st \<leftarrow> rec Declaration st; Some (True, st) })
       }) st"

text \<open>
  The state at the end, and the script's function, \<open>None\<close> after an error. \<open>depth\<close> bounds the
  recursion of the parser, \<open>pw\<close> is the C function \<open>pow\<close>.
\<close>

definition compile_with_mode ::
  "nat \<Rightarrow> (double \<Rightarrow> double \<Rightarrow> double) \<Rightarrow> bytes \<Rightarrow> bool \<Rightarrow> heap \<Rightarrow> (addr option \<times> cst) option" where
  "compile_with_mode depth pw source repl h =
     do {
       st \<leftarrow> seq [init_compiler True, advance, declarations (compile_call depth)]
               (start_state source repl h);
       (c, st) \<leftarrow> end_compiler st;
       (if had_error st then Some (None, st)
        else do {
          ch \<leftarrow> optimize_chunk (cheap st) pw (fchunk (cfun c));
          Some (Some (fn_addr c),
            st\<lparr>cheap := put_obj (cheap st) (fn_addr c) (OFunction ((cfun c)\<lparr>fchunk := ch\<rparr>))\<rparr>)
        })
     }"

definition compile where
  "compile depth pw source = compile_with_mode depth pw source False"

definition compile_repl where
  "compile_repl depth pw source = compile_with_mode depth pw source True"

end
