(* ===== verification/Compile_Facts.thy ===== *)
theory Compile_Facts
  imports Compile_Run
begin

text \<open>
  What the commands of the compiler do to the code of the current function, to the stack of type
  hints and to the tokens ahead. The theorems about compiled expressions rest on these lemmas.
\<close>

section \<open>Tokens ahead\<close>

primrec lexes :: "bytes \<Rightarrow> lexer \<Rightarrow> ctoken list \<Rightarrow> bool" where
  "lexes s lx [] \<longleftrightarrow> True"
| "lexes s lx (t # ts) \<longleftrightarrow>
     (case scan_token s lx of
        None \<Rightarrow> False
      | Some (tok, lx) \<Rightarrow> ctoken_of s tok = t \<and> ktype t \<noteq> TOKEN_ERROR \<and> lexes s lx ts)"

text \<open>The current token and those after it.\<close>

definition upcoming :: "cst \<Rightarrow> ctoken list \<Rightarrow> bool" where
  "upcoming st ts \<longleftrightarrow> ts \<noteq> [] \<and> pcur st = hd ts \<and> lexes (src st) (lex st) (tl ts)"

lemma upcoming_cong:
  "pcur st' = pcur st \<Longrightarrow> src st' = src st \<Longrightarrow> lex st' = lex st \<Longrightarrow> upcoming st' ts = upcoming st ts"
  by (simp add: upcoming_def)

lemma check_upcoming: "upcoming st (t # ts) \<Longrightarrow> check_token ty st \<longleftrightarrow> ktype t = ty"
  by (simp add: upcoming_def check_token_def)

lemma advance_upcoming:
  assumes "upcoming st (t # u # ts)"
  obtains lx where "advance st = Some (st\<lparr>pprev := t, pcur := u, lex := lx\<rparr>)"
    and "upcoming (st\<lparr>pprev := t, pcur := u, lex := lx\<rparr>) (u # ts)"
proof -
  from assms obtain tok lx where s: "scan_token (src st) (lex st) = Some (tok, lx)" "ctoken_of (src st) tok = u"
      "ktype u \<noteq> TOKEN_ERROR" "lexes (src st) lx ts" and t: "pcur st = t"
    by (auto simp: upcoming_def split: option.splits)
  have "advance st = Some (st\<lparr>pprev := t, pcur := u, lex := lx\<rparr>)"
    using s t by (simp add: advance_def repeat_while.simps peek_token_def)
  moreover have "upcoming (st\<lparr>pprev := t, pcur := u, lex := lx\<rparr>) (u # ts)"
    using s by (simp add: upcoming_def)
  ultimately show ?thesis by (rule that)
qed

lemma match_token_other: "\<not> check_token ty st \<Longrightarrow> match_token ty st = Some (False, st)"
  by (simp add: match_token_def)

lemma match_token_this: "check_token ty st \<Longrightarrow> advance st = Some st' \<Longrightarrow> match_token ty st = Some (True, st')"
  by (simp add: match_token_def)

lemma consume_this: "check_token ty st \<Longrightarrow> consume ty msg st = advance st"
  by (simp add: consume_def)

section \<open>Reading ahead\<close>

fun runs :: "(nesting \<Rightarrow> ctoken \<Rightarrow> nesting + 'r) \<Rightarrow> nesting \<Rightarrow> ctoken list \<Rightarrow> nesting + 'r" where
  "runs f n [] = Inl n"
| "runs f n (t # ts) = (case f n t of Inr r \<Rightarrow> Inr r | Inl n \<Rightarrow> runs f n ts)"

lemma look_runs:
  assumes "lexes s lx ts" "runs f n ts = Inr r"
  shows "look f s lx n = Some r"
  using assms
proof (induction ts arbitrary: lx n)
  case (Cons t ts)
  then show ?case
    by (subst look.simps) (auto split: option.splits sum.splits)
qed simp

lemma runs_append: "runs f n (xs @ ys) = (case runs f n xs of Inr r \<Rightarrow> Inr r | Inl n \<Rightarrow> runs f n ys)"
  by (induction xs arbitrary: n) (auto split: sum.splits)

section \<open>The current function\<close>

definition cur_chunk :: "cst \<Rightarrow> chunk" where
  "cur_chunk st = fchunk (cfun (hd (compilers st)))"

abbreviation cur_code :: "cst \<Rightarrow> bytes" where
  "cur_code st \<equiv> code (cur_chunk st)"

abbreviation cur_consts :: "cst \<Rightarrow> val list" where
  "cur_consts st \<equiv> va_values (constants (cur_chunk st))"

definition with_chunk :: "chunk \<Rightarrow> compiler \<Rightarrow> compiler" where
  "with_chunk ch c = c\<lparr>cfun := (cfun c)\<lparr>fchunk := ch\<rparr>\<rparr>"

lemma with_chunk_with_chunk [simp]: "with_chunk a (with_chunk b c) = with_chunk a c"
  and fchunk_with_chunk [simp]: "fchunk (cfun (with_chunk a c)) = a"
  by (simp_all add: with_chunk_def)

definition put_chunk :: "chunk \<Rightarrow> cst \<Rightarrow> cst" where
  "put_chunk ch st = st\<lparr>compilers := with_chunk ch (hd (compilers st)) # tl (compilers st)\<rparr>"

lemma put_chunk_put_chunk [simp]: "put_chunk a (put_chunk b st) = put_chunk a st"
  by (simp add: put_chunk_def)

lemma put_chunk_sel [simp]:
  "src (put_chunk ch st) = src st" "lex (put_chunk ch st) = lex st" "pcur (put_chunk ch st) = pcur st"
  "pprev (put_chunk ch st) = pprev st" "had_error (put_chunk ch st) = had_error st"
  "panic_mode (put_chunk ch st) = panic_mode st" "reported (put_chunk ch st) = reported st"
  "cheap (put_chunk ch st) = cheap st" "is_repl (put_chunk ch st) = is_repl st"
  "in_for_header (put_chunk ch st) = in_for_header st" "in_table_entry (put_chunk ch st) = in_table_entry st"
  "type_stack (put_chunk ch st) = type_stack st" "type_top (put_chunk ch st) = type_top st"
  "ends_with_call (put_chunk ch st) = ends_with_call st" "was_range (put_chunk ch st) = was_range st"
  "cur_chunk (put_chunk ch st) = ch"
  by (simp_all add: put_chunk_def cur_chunk_def)

lemma put_chunk_compilers [simp]: "compilers (put_chunk ch st) \<noteq> []"
  by (simp add: put_chunk_def)

lemma write_chunk_sel [simp]:
  "code (write_chunk c b l) = code c @ [b]" "constants (write_chunk c b l) = constants c"
  by (simp_all add: write_chunk_def grow_chunk_def Let_def)

lemma emit_byte_eq:
  "compilers st \<noteq> [] \<Longrightarrow>
   emit_byte b st = Some (put_chunk (write_chunk (cur_chunk st) b (int (kline (pprev st)))) st)"
  by (cases "compilers st") (simp_all add: emit_byte_def upd_function_def upd_comp_def put_chunk_def with_chunk_def cur_chunk_def)

lemma here_eq: "compilers st \<noteq> [] \<Longrightarrow> here st = Some (length (cur_code st))"
  by (cases "compilers st") (simp_all add: here_def comp_def cur_chunk_def at_def)

lemma upd_code_eq:
  "compilers st \<noteq> [] \<Longrightarrow> upd_code f st = Some (put_chunk ((cur_chunk st)\<lparr>code := f (cur_code st)\<rparr>) st)"
  by (cases "compilers st") (simp_all add: upd_code_def upd_function_def upd_comp_def put_chunk_def with_chunk_def cur_chunk_def)

lemma make_constant_eq:
  assumes "compilers st \<noteq> []" "length (cur_consts st) < 256"
  shows "make_constant v st =
    Some (of_nat (length (cur_consts st)), put_chunk (fst (add_constant (cur_chunk st) v)) st)"
  using assms
  by (cases "compilers st")
    (simp_all add: make_constant_def comp_def at_def upd_function_def upd_comp_def put_chunk_def with_chunk_def cur_chunk_def
      add_constant_def write_value_array_def Let_def)

section \<open>Emitted code\<close>

text \<open>
  \<open>st'\<close> is \<open>st\<close> with code and constants added to the current function; the tokens, the types and
  what the last expression was may differ.
\<close>

definition emits :: "cst \<Rightarrow> bytes \<Rightarrow> val list \<Rightarrow> cst \<Rightarrow> bool" where
  "emits st bs vs st' \<longleftrightarrow>
     compilers st \<noteq> [] \<and> compilers st' \<noteq> [] \<and> tl (compilers st') = tl (compilers st) \<and>
     hd (compilers st') = with_chunk (cur_chunk st') (hd (compilers st)) \<and>
     cur_code st' = cur_code st @ bs \<and> cur_consts st' = cur_consts st @ vs \<and>
     src st' = src st \<and> had_error st' = had_error st \<and> panic_mode st' = panic_mode st \<and>
     reported st' = reported st \<and> cheap st' = cheap st \<and> is_repl st' = is_repl st \<and>
     in_for_header st' = in_for_header st \<and> in_table_entry st' = in_table_entry st"

lemma emits_put_chunk:
  assumes "emits st0 ds ws st" "code ch = cur_code st0 @ bs" "va_values (constants ch) = cur_consts st0 @ vs"
  shows "emits st0 bs vs (put_chunk ch st)"
proof -
  have "hd (compilers (put_chunk ch st)) = with_chunk ch (hd (compilers st0))"
    using assms(1) with_chunk_with_chunk [of ch "cur_chunk st" "hd (compilers st0)"]
    by (simp add: emits_def put_chunk_def)
  moreover have "tl (compilers (put_chunk ch st)) = tl (compilers st0)"
    using assms(1) by (simp add: emits_def put_chunk_def)
  ultimately show ?thesis
    using assms unfolding emits_def by simp
qed

lemma emits_refl: "compilers st \<noteq> [] \<Longrightarrow> emits st [] [] st"
  by (cases "compilers st") (simp_all add: emits_def cur_chunk_def with_chunk_def)

lemma emits_trans:
  assumes "emits a bs vs b" "emits b cs ws c"
  shows "emits a (bs @ cs) (vs @ ws) c"
  using assms by (simp add: emits_def)

text \<open>Changes of the tokens, the types and the flags of the last expression.\<close>

definition same_function :: "cst \<Rightarrow> cst \<Rightarrow> bool" where
  "same_function st st' \<longleftrightarrow>
     compilers st' = compilers st \<and> src st' = src st \<and> had_error st' = had_error st \<and>
     panic_mode st' = panic_mode st \<and> reported st' = reported st \<and> cheap st' = cheap st \<and>
     is_repl st' = is_repl st \<and> in_for_header st' = in_for_header st \<and>
     in_table_entry st' = in_table_entry st"

lemma emits_same:
  assumes "emits a bs vs b" "same_function b c"
  shows "emits a bs vs c"
  using assms by (simp add: emits_def same_function_def cur_chunk_def)

lemma same_emits:
  assumes "same_function a b" "emits b bs vs c"
  shows "emits a bs vs c"
  using assms by (simp add: emits_def same_function_def cur_chunk_def)

text \<open>The types: one more, or the same.\<close>

definition types_kept :: "cst \<Rightarrow> cst \<Rightarrow> bool" where
  "types_kept st st' \<longleftrightarrow> type_top st' = type_top st \<and> type_stack st' = type_stack st"

definition pushes :: "cst \<Rightarrow> byte \<Rightarrow> cst \<Rightarrow> bool" where
  "pushes st ty st' \<longleftrightarrow>
     type_top st' = type_top st + 1 \<and> type_stack st' (nat (type_top st)) = ty \<and>
     (\<forall>i. int i < type_top st \<longrightarrow> type_stack st' i = type_stack st i)"

text \<open>Commands that emit code and leave tokens and types alone.\<close>

definition plain_emits :: "cst \<Rightarrow> bytes \<Rightarrow> val list \<Rightarrow> cst \<Rightarrow> bool" where
  "plain_emits st bs vs st' \<longleftrightarrow>
     emits st bs vs st' \<and> types_kept st st' \<and> pcur st' = pcur st \<and> pprev st' = pprev st \<and> lex st' = lex st"

lemma plain_emits_trans:
  "plain_emits a bs vs b \<Longrightarrow> plain_emits b cs ws c \<Longrightarrow> plain_emits a (bs @ cs) (vs @ ws) c"
  unfolding plain_emits_def types_kept_def by (elim conjE, intro conjI; (rule emits_trans; assumption)?; simp)

lemma plain_emits_compilers: "plain_emits a bs vs b \<Longrightarrow> compilers b \<noteq> []"
  by (simp add: plain_emits_def emits_def)

lemma emit_byte_emits:
  assumes "compilers st \<noteq> []"
  obtains st' where "emit_byte b st = Some st'" "plain_emits st [b] [] st'"
  using assms
  by (simp add: emit_byte_eq plain_emits_def types_kept_def emits_put_chunk [OF emits_refl])

lemma seq_append: "seq (xs @ ys) st = do { st \<leftarrow> seq xs st; seq ys st }"
  by (induction xs arbitrary: st) (simp_all split: Option.bind_splits)

lemma emit_all_emits:
  assumes "compilers st \<noteq> []"
  obtains st' where "seq (map emit_byte bs) st = Some st'" "plain_emits st bs [] st'"
  using assms
proof (induction bs arbitrary: st thesis)
  case Nil
  show ?case by (rule Nil(1) [of st]) (use Nil(2) in \<open>simp_all add: plain_emits_def types_kept_def emits_refl\<close>)
next
  case (Cons b bs)
  obtain st1 where 1: "emit_byte b st = Some st1" "plain_emits st [b] [] st1"
    by (rule emit_byte_emits [OF Cons(3)])
  obtain st2 where 2: "seq (map emit_byte bs) st1 = Some st2" "plain_emits st1 bs [] st2"
    by (rule Cons(1) [OF _ plain_emits_compilers [OF 1(2)]])
  show ?case
    by (rule Cons(2) [of st2]) (use 1 2 plain_emits_trans [OF 1(2) 2(2)] in simp_all)
qed

lemma emit_bytes_emits:
  assumes "compilers st \<noteq> []"
  obtains st' where "emit_bytes a b st = Some st'" "plain_emits st [a, b] [] st'"
  by (rule emit_all_emits [OF assms, of "[a, b]"], rule that) (simp_all add: emit_bytes_def)

lemma emit_constant_emits:
  assumes "compilers st \<noteq> []" "length (cur_consts st) < 256"
  obtains st' where "emit_constant v st = Some st'"
    "plain_emits st [OP_CONSTANT, of_nat (length (cur_consts st))] [v] st'"
proof -
  let ?st = "put_chunk (fst (add_constant (cur_chunk st) v)) st"
  have 1: "plain_emits st [] [v] ?st"
    using assms(1) by (simp add: plain_emits_def types_kept_def emits_put_chunk [OF emits_refl]
      add_constant_def write_value_array_def Let_def)
  obtain st' where 2: "emit_bytes OP_CONSTANT (of_nat (length (cur_consts st))) ?st = Some st'"
      "plain_emits ?st [OP_CONSTANT, of_nat (length (cur_consts st))] [] st'"
    by (rule emit_bytes_emits [OF put_chunk_compilers])
  show ?thesis
    by (rule that [of st'])
      (use 2 plain_emits_trans [OF 1 2(2)] assms in \<open>simp_all add: emit_constant_def make_constant_eq\<close>)
qed

lemma emit_jump_emits:
  assumes "compilers st \<noteq> []"
  obtains st' where "emit_jump op st = Some (length (cur_code st) + 1, st')"
    "plain_emits st [op, 0xFF, 0xFF] [] st'"
proof -
  obtain st' where 1: "seq (map emit_byte [op, 0xFF, 0xFF]) st = Some st'" "plain_emits st [op, 0xFF, 0xFF] [] st'"
    by (rule emit_all_emits [OF assms])
  have "here st' = Some (length (cur_code st) + 3)"
    using 1(2) by (simp add: here_eq plain_emits_def emits_def)
  with 1 show ?thesis by (intro that) (simp_all add: emit_jump_def)
qed

text \<open>A jump operand and what is patched into it: the distance to the current end of the code.\<close>

definition jump_bytes :: "nat \<Rightarrow> bytes" where
  "jump_bytes n = [of_nat (n div 256), of_nat n]"

lemma put_code_eq:
  "compilers st \<noteq> [] \<Longrightarrow> cur_code st = xs @ a # ys \<Longrightarrow>
   put_code (length xs) b st = Some (put_chunk ((cur_chunk st)\<lparr>code := xs @ b # ys\<rparr>) st)"
  by (simp add: put_code_def here_eq upd_code_eq)

lemma put_short_code:
  assumes "compilers st \<noteq> []" "cur_code st = xs @ [a, b] @ ys"
  shows "put_short (length xs) (int n) st = Some (put_chunk ((cur_chunk st)\<lparr>code := xs @ jump_bytes n @ ys\<rparr>) st)"
proof -
  let ?hi = "of_nat (n div 256) :: byte" and ?lo = "of_nat n :: byte"
  let ?c1 = "(cur_chunk st)\<lparr>code := xs @ ?hi # b # ys\<rparr>"
  let ?c2 = "(cur_chunk st)\<lparr>code := (xs @ [?hi]) @ ?lo # ys\<rparr>"
  have 1: "put_code (length xs) ?hi st = Some (put_chunk ?c1 st)"
    using put_code_eq [OF assms(1), of xs a "b # ys" ?hi] assms(2) by simp
  have 2: "put_code (length (xs @ [?hi])) ?lo (put_chunk ?c1 st) = Some (put_chunk ?c2 st)"
    using put_code_eq [of "put_chunk ?c1 st" "xs @ [?hi]" b ys ?lo] by simp
  have "int n div 256 = int (n div 256)" by (simp add: zdiv_int)
  then have 3: "word_of_int (int n div 256) = ?hi" "word_of_int (int n) = ?lo"
    by (simp_all only: of_int_of_nat_eq)
  show ?thesis using 1 2 unfolding put_short_def 3 by (simp add: jump_bytes_def)
qed

lemma patch_jump_emits:
  assumes e: "emits st0 (xs @ [0xFF, 0xFF] @ ys) vs st" and j: "j = length (cur_code st0) + length xs"
    and n: "length ys \<le> 65535"
  obtains st' where "patch_jump j st = Some st'" "emits st0 (xs @ jump_bytes (length ys) @ ys) vs st'"
    "types_kept st st'" "pcur st' = pcur st" "pprev st' = pprev st" "lex st' = lex st"
proof -
  let ?ch = "(cur_chunk st)\<lparr>code := (cur_code st0 @ xs) @ jump_bytes (length ys) @ ys\<rparr>"
  have c: "compilers st \<noteq> []" and cs: "cur_code st = (cur_code st0 @ xs) @ [0xFF, 0xFF] @ ys"
    and vs: "cur_consts st = cur_consts st0 @ vs"
    using e by (simp_all add: emits_def)
  have d: "int (length (cur_code st)) - int j - 2 = int (length ys)" using cs j by simp
  have "patch_jump j st = Some (put_chunk ?ch st)"
    using put_short_code [OF c cs, of "length ys"] c d n j
    by (simp add: patch_jump_def patch_from_def here_eq only_if_def)
  moreover have "emits st0 (xs @ jump_bytes (length ys) @ ys) vs (put_chunk ?ch st)"
    by (rule emits_put_chunk [OF e]) (simp_all add: vs)
  ultimately show ?thesis by (rule that) (simp_all add: types_kept_def)
qed

end
