(* ===== verification/Expr_Facts.thy ===== *)
theory Expr_Facts
  imports Compile_Facts
begin

text \<open>
  The parser of expressions against an abstract syntax: printing an expression with the parentheses
  its operators need and compiling the tokens gives the postfix code of the expression, with the
  specialised instructions for the operand types.
\<close>

section \<open>Expressions, their tokens and their code\<close>

datatype expr =
    Number bytes
  | Keyword string
  | Local bytes
  | Unary token_type expr
  | Binary token_type expr expr
  | And expr expr
  | Or expr expr
  | Cond expr expr expr

text \<open>How tightly the outermost operator binds.\<close>

fun level :: "expr \<Rightarrow> nat" where
  "level (Unary op e) = PREC_UNARY"
| "level (Binary op l r) = rule_precedence op"
| "level (And l r) = PREC_AND"
| "level (Or l r) = PREC_OR"
| "level (Cond c a b) = PREC_TERNARY"
| "level _ = 12"

type_synonym shape = "token_type \<times> bytes"

definition parens :: "nat \<Rightarrow> nat \<Rightarrow> shape list \<Rightarrow> shape list" where
  "parens q lev ts = (if lev < q then (TOKEN_LEFT_PAREN, []) # ts @ [(TOKEN_RIGHT_PAREN, [])] else ts)"

fun raw :: "expr \<Rightarrow> shape list" where
  "raw (Number s) = [(TOKEN_NUMBER, s)]"
| "raw (Keyword k) = [(KW k, [])]"
| "raw (Local x) = [(TOKEN_IDENTIFIER, x)]"
| "raw (Unary op e) = (op, []) # parens PREC_UNARY (level e) (raw e)"
| "raw (Binary op l r) =
     parens (rule_precedence op) (level l) (raw l) @ (op, []) # parens (rule_precedence op + 1) (level r) (raw r)"
| "raw (And l r) = parens 5 (level l) (raw l) @ (KW ''AND'', []) # parens 4 (level r) (raw r)"
| "raw (Or l r) = parens 4 (level l) (raw l) @ (KW ''OR'', []) # parens 3 (level r) (raw r)"
| "raw (Cond c a b) =
     parens 3 (level c) (raw c) @ (TOKEN_QUESTION, []) # parens 3 (level a) (raw a) @
     (TOKEN_COLON, []) # parens 2 (level b) (raw b)"

definition print_expr :: "nat \<Rightarrow> expr \<Rightarrow> shape list" where
  "print_expr q e = parens q (level e) (raw e)"

definition shape :: "ctoken \<Rightarrow> shape" where
  "shape t = (ktype t, if ktype t = TOKEN_IDENTIFIER \<or> ktype t = TOKEN_NUMBER then ktext t else [])"

text \<open>The slot and the type hint of a local that can be read.\<close>

definition var_env :: "cst \<Rightarrow> bytes \<Rightarrow> (nat \<times> byte) option" where
  "var_env st x =
     (case find_local x (hd (compilers st)) of
        None \<Rightarrow> None
      | Some i \<Rightarrow>
          let l = clocals (hd (compilers st)) ! i in if ldepth l = -1 then None else Some (i, ltype l))"

fun wf_expr :: "(bytes \<Rightarrow> (nat \<times> byte) option) \<Rightarrow> expr \<Rightarrow> bool" where
  "wf_expr env (Number s) \<longleftrightarrow> True"
| "wf_expr env (Keyword k) \<longleftrightarrow> k = ''NIL'' \<or> k = ''TRUE'' \<or> k = ''FALSE''"
| "wf_expr env (Local x) \<longleftrightarrow> env x \<noteq> None"
| "wf_expr env (Unary op e) \<longleftrightarrow> (op = TOKEN_MINUS \<or> op = TOKEN_HASH \<or> op = KW ''NOT'') \<and> wf_expr env e"
| "wf_expr env (Binary op l r) \<longleftrightarrow> is_binary_token op \<and> wf_expr env l \<and> wf_expr env r"
| "wf_expr env (And l r) \<longleftrightarrow> wf_expr env l \<and> wf_expr env r"
| "wf_expr env (Or l r) \<longleftrightarrow> wf_expr env l \<and> wf_expr env r"
| "wf_expr env (Cond c a b) \<longleftrightarrow> wf_expr env c \<and> wf_expr env a \<and> wf_expr env b"

definition unary_code :: "token_type \<Rightarrow> byte \<Rightarrow> byte \<times> byte" where
  "unary_code op ty =
     (if op = KW ''NOT'' then (OP_NOT, TYPEHINT_BOOL)
      else if op = TOKEN_MINUS then (OP_NEGATE, if is_numeric_type ty then ty else TYPEHINT_ANY)
      else (OP_LENGTH, TYPEHINT_INT))"

text \<open>The code, the new constants and the type of an expression, after \<open>k\<close> constants.\<close>

fun expr_code ::
  "(bytes \<Rightarrow> (nat \<times> byte) option) \<Rightarrow> nat \<Rightarrow> expr \<Rightarrow> bytes \<times> val list \<times> byte" where
  "expr_code env k (Number s) =
     ([OP_CONSTANT, of_nat k], [VNumber (number_value s)], if is_int_text s then TYPEHINT_INT else TYPEHINT_FLOAT)"
| "expr_code env k (Keyword x) =
     (if x = ''NIL'' then ([OP_NIL], [], TYPEHINT_ANY)
      else if x = ''TRUE'' then ([OP_TRUE], [], TYPEHINT_BOOL) else ([OP_FALSE], [], TYPEHINT_BOOL))"
| "expr_code env k (Local x) =
     (case env x of Some (i, ty) \<Rightarrow> ([OP_GET_LOCAL, of_nat i], [], ty) | None \<Rightarrow> ([], [], TYPEHINT_ANY))"
| "expr_code env k (Unary op e) =
     (let (bs, vs, ty) = expr_code env k e; (op, ty) = unary_code op ty in (bs @ [op], vs, ty))"
| "expr_code env k (Binary op l r) =
     (let (bs, vs, lt) = expr_code env k l;
          (cs, ws, rt) = expr_code env (k + length vs) r;
          (ops, ty) = the (binary_code op lt rt)
      in (bs @ cs @ ops, vs @ ws, ty))"
| "expr_code env k (And l r) =
     (let (bs, vs, _) = expr_code env k l; (cs, ws, _) = expr_code env (k + length vs) r
      in (bs @ [OP_JUMP_IF_FALSE] @ jump_bytes (length cs + 1) @ [OP_POP] @ cs, vs @ ws, TYPEHINT_ANY))"
| "expr_code env k (Or l r) =
     (let (bs, vs, _) = expr_code env k l; (cs, ws, _) = expr_code env (k + length vs) r
      in (bs @ [OP_JUMP_IF_FALSE] @ jump_bytes 3 @ [OP_JUMP] @ jump_bytes (length cs + 1) @ [OP_POP] @ cs,
          vs @ ws, TYPEHINT_ANY))"
| "expr_code env k (Cond c a b) =
     (let (bs, vs, _) = expr_code env k c;
          (cs, ws, at) = expr_code env (k + length vs) a;
          (ds, us, bt) = expr_code env (k + length vs + length ws) b
      in (bs @ [OP_JUMP_IF_FALSE] @ jump_bytes (length cs + 4) @ [OP_POP] @ cs @
          [OP_JUMP] @ jump_bytes (length ds + 1) @ [OP_POP] @ ds,
          vs @ ws @ us, if at = bt then at else TYPEHINT_ANY))"

text \<open>The room an expression needs on the stack of types, and the depth of the recursion.\<close>

fun type_room :: "expr \<Rightarrow> int" where
  "type_room (Unary op e) = type_room e"
| "type_room (Binary op l r) = max (type_room l) (1 + type_room r)"
| "type_room (And l r) = max (type_room l) (type_room r)"
| "type_room (Or l r) = max (type_room l) (type_room r)"
| "type_room (Cond c a b) = max (type_room c) (max (type_room a) (1 + type_room b))"
| "type_room _ = 1"

fun expr_depth :: "expr \<Rightarrow> nat" where
  "expr_depth (Unary op e) = expr_depth e + 2"
| "expr_depth (Binary op l r) = max (expr_depth l) (expr_depth r) + 2"
| "expr_depth (And l r) = max (expr_depth l) (expr_depth r) + 2"
| "expr_depth (Or l r) = max (expr_depth l) (expr_depth r) + 2"
| "expr_depth (Cond c a b) = max (expr_depth c) (max (expr_depth a) (expr_depth b)) + 2"
| "expr_depth _ = 0"

lemma type_room_pos: "1 \<le> type_room e"
  by (induction e) auto

section \<open>Tokens of an expression\<close>

lemma binary_token_cases:
  assumes "is_binary_token op"
  shows "op \<in> {TOKEN_BANG_EQUAL, TOKEN_EQUAL_EQUAL, TOKEN_GREATER, TOKEN_GREATER_EQUAL, TOKEN_LESS,
    TOKEN_LESS_EQUAL, KW ''HAS'', KW ''IN'', TOKEN_APPEND, TOKEN_PLUS, TOKEN_MINUS, TOKEN_STAR, TOKEN_SLASH,
    TOKEN_POWER, TOKEN_INT_DIV, TOKEN_PERCENT}"
  using assms by (simp add: is_binary_token_def binary_code_def split: if_splits)

lemma binary_token_precedence:
  assumes "is_binary_token op"
  shows "5 \<le> rule_precedence op" "rule_precedence op \<le> 9"
  using binary_token_cases [OF assms] by (auto simp: rule_precedence_def)

lemma binary_code_Some: "is_binary_token op \<Longrightarrow> \<exists>ops ty. binary_code op lt rt = Some (ops, ty)"
  by (drule binary_token_cases) (auto simp: binary_code_def)

text \<open>Parentheses that match, with nothing that a scan for a comprehension stops at.\<close>

fun balanced :: "nat \<Rightarrow> token_type list \<Rightarrow> nat option" where
  "balanced d [] = Some d"
| "balanced d (ty # tys) =
     (if ty = TOKEN_LEFT_PAREN then balanced (d + 1) tys
      else if ty = TOKEN_RIGHT_PAREN then (if d = 0 then None else balanced (d - 1) tys)
      else if ty \<in> {KW ''FOR'', TOKEN_EOF, TOKEN_LEFT_BRACKET, TOKEN_RIGHT_BRACKET, TOKEN_LEFT_BRACE,
                    TOKEN_RIGHT_BRACE} then None
      else balanced d tys)"

lemma balanced_append: "balanced d (xs @ ys) = do { d \<leftarrow> balanced d xs; balanced d ys }"
  by (induction xs arbitrary: d) auto

lemma balanced_parens:
  "\<forall>d. balanced d (map fst ts) = Some d \<Longrightarrow> balanced d (map fst (parens q lev ts)) = Some d"
  by (simp add: parens_def balanced_append)

lemma balanced_raw: "wf_expr env e \<Longrightarrow> \<forall>d. balanced d (map fst (raw e)) = Some d"
proof (induction e)
  case (Binary op l r)
  have "balanced d (op # tys) = balanced d tys" for d tys
    using Binary(3) binary_token_cases [of op] by auto
  with Binary show ?case by (simp add: balanced_append balanced_parens del: balanced.simps(2))
qed (auto simp: balanced_append balanced_parens)

lemma runs_balanced:
  assumes "balanced d (map ktype ts) = Some d'"
  shows "runs (comprehension_step TOKEN_RIGHT_PAREN l) \<lparr>paren = d, bracket = 0, brace = 0\<rparr> ts
           \<in> {Inr False, Inl \<lparr>paren = d', bracket = 0, brace = 0\<rparr>}"
  using assms
proof (induction ts arbitrary: d)
  case (Cons t ts)
  then show ?case
    by (auto simp: comprehension_step_def nest_def no_nesting_def split: if_splits token_type.splits)
qed simp

section \<open>After an operand\<close>

text \<open>What \<open>parse_precedence\<close> does after its first operand.\<close>

definition after_operand :: "parser \<Rightarrow> nat \<Rightarrow> cmd" where
  "after_operand rec p st =
     do {
       st \<leftarrow> infix_loop rec p st;
       (m, st) \<leftarrow> match_assign (p \<le> PREC_ASSIGNMENT) st;
       (op, st) \<leftarrow> (if p \<le> PREC_ASSIGNMENT \<and> \<not> m then match_compound_assign st else Some (None, st));
       only_if (m \<or> op \<noteq> None) (error ''Invalid assignment target.'') st
     }"

lemma parse_precedence_eq:
  "parse_precedence rec p st =
     do {
       st \<leftarrow> advance st;
       (case prefix_rule rec (ktype (pprev st)) (p \<le> PREC_ASSIGNMENT) of
          None \<Rightarrow> error ''Expect expression.'' st
        | Some f \<Rightarrow> do { st \<leftarrow> f st; after_operand rec p st })
     }"
  by (simp add: parse_precedence_def after_operand_def Let_def cong: option.case_cong)

definition assign_tokens :: "token_type set" where
  "assign_tokens = {TOKEN_EQUALS, TOKEN_WALRUS, TOKEN_PLUS_EQUAL, TOKEN_MINUS_EQUAL, TOKEN_STAR_EQUAL,
     TOKEN_SLASH_EQUAL, TOKEN_PERCENT_EQUAL}"

lemma match_assign_other:
  assumes "upcoming st (t # ts)" "ktype t \<notin> assign_tokens"
  shows "match_assign b st = Some (False, st)" "match_compound_assign st = Some (None, st)"
  using assms
  by (simp_all add: match_assign_def match_either_def match_token_def check_token_def match_compound_assign_def
    assign_tokens_def upcoming_def)

lemma after_operand_stop:
  assumes "upcoming st (t # ts)" "ktype t \<notin> assign_tokens" "rule_precedence (ktype t) < p"
  shows "after_operand rec p st = Some st"
proof -
  have "infix_loop rec p st = Some st"
    using assms(1,3) by (simp add: infix_loop_def while_cmd_def repeat_while.simps continues_def upcoming_def)
  then show ?thesis using match_assign_other [OF assms(1,2)] by (simp add: after_operand_def only_if_def)
qed

lemma after_operand_step:
  assumes "continues p st"
  shows "after_operand rec p st = do { st \<leftarrow> infix_step rec p st; after_operand rec p st }"
proof -
  have "infix_loop rec p st = do { st \<leftarrow> infix_step rec p st; infix_loop rec p st }"
    using assms by (simp add: infix_loop_def while_cmd_def, subst repeat_while.simps)
      (simp split: Option.bind_splits)
  then show ?thesis by (simp add: after_operand_def)
qed

lemma continues_upcoming:
  "upcoming st (t # ts) \<Longrightarrow> \<not> in_table_entry st \<Longrightarrow> continues p st \<longleftrightarrow> p \<le> rule_precedence (ktype t)"
  by (simp add: continues_def upcoming_def)

section \<open>Types\<close>

lemma type_push_eq:
  "0 \<le> type_top st \<Longrightarrow> type_top st < 512 \<Longrightarrow>
   type_push ty st = Some (st\<lparr>type_stack := (type_stack st)(nat (type_top st) := ty), type_top := type_top st + 1\<rparr>)"
  by (simp add: type_push_def)

lemma type_pop_pushes:
  assumes "pushes st ty st'" "0 \<le> type_top st"
  shows "type_pop st' = Some (ty, st'\<lparr>type_top := type_top st\<rparr>)"
  using assms by (simp add: type_pop_def pushes_def)

text \<open>Instructions that leave a value, and its type.\<close>

lemma push_value:
  assumes "plain_emits st0 bs vs st" "0 \<le> type_top st0" "type_top st0 < 512"
  obtains st' where "seq (map emit_byte ops @ [type_push ty]) st = Some st'"
    "emits st0 (bs @ ops) vs st'" "pushes st0 ty st'" "pcur st' = pcur st0" "lex st' = lex st0"
proof -
  obtain st1 where 1: "seq (map emit_byte ops) st = Some st1" "plain_emits st ops [] st1"
    by (rule emit_all_emits [OF plain_emits_compilers [OF assms(1)]])
  have 2: "plain_emits st0 (bs @ ops) vs st1" using plain_emits_trans [OF assms(1) 1(2)] by simp
  then have t: "type_top st1 = type_top st0" "type_stack st1 = type_stack st0"
    by (simp_all add: plain_emits_def types_kept_def)
  let ?st = "st1\<lparr>type_stack := (type_stack st1)(nat (type_top st1) := ty), type_top := type_top st1 + 1\<rparr>"
  have "seq (map emit_byte ops @ [type_push ty]) st = Some ?st"
    using 1(1) t assms(2,3) by (simp add: seq_append type_push_eq)
  moreover have "emits st0 (bs @ ops) vs ?st"
    by (rule emits_same [of st0 _ _ st1]) (use 2 in \<open>simp_all add: plain_emits_def same_function_def\<close>)
  moreover have "pushes st0 ty ?st" using t assms(2) by (simp add: pushes_def)
  moreover have "pcur ?st = pcur st0" "lex ?st = lex st0" using 2 by (simp_all add: plain_emits_def)
  ultimately show ?thesis by (rule that)
qed

lemma plain_emits_refl: "compilers st \<noteq> [] \<Longrightarrow> plain_emits st [] [] st"
  by (simp add: plain_emits_def types_kept_def emits_refl)

text \<open>The end of an operator.\<close>

lemma finish_value:
  assumes "compilers st \<noteq> []" "0 \<le> type_top st" "type_top st < 512"
  obtains st' where "seq (map emit_byte ops @ [type_push ty, set_ends_with_call b]) st = Some st'"
    "emits st ops [] st'" "pushes st ty st'" "pcur st' = pcur st" "lex st' = lex st"
proof -
  obtain st1 where 1: "seq (map emit_byte ops @ [type_push ty]) st = Some st1" "emits st ([] @ ops) [] st1"
      "pushes st ty st1" "pcur st1 = pcur st" "lex st1 = lex st"
    by (rule push_value [OF plain_emits_refl [OF assms(1)] assms(2,3)])
  let ?st = "st1\<lparr>ends_with_call := b\<rparr>"
  have "seq (map emit_byte ops @ [type_push ty, set_ends_with_call b]) st = Some ?st"
    using 1(1) by (auto simp: seq_append set_ends_with_call_def split: Option.bind_splits)
  moreover have "emits st ops [] ?st"
    by (rule emits_same [of st ops "[]" st1]) (use 1(2) in \<open>simp_all add: same_function_def\<close>)
  moreover have "pushes st ty ?st" "pcur ?st = pcur st" "lex ?st = lex st"
    using 1 by (simp_all add: pushes_def)
  ultimately show ?thesis by (rule that)
qed

lemma emits_var_env: "emits st bs vs st' \<Longrightarrow> var_env st' = var_env st"
  by (rule ext) (simp add: emits_def var_env_def find_local_def with_chunk_def cong: option.case_cong)

lemma same_var_env: "same_function st st' \<Longrightarrow> var_env st' = var_env st"
  by (rule ext) (simp add: same_function_def var_env_def cong: option.case_cong)

lemma emits_src: "emits st bs vs st' \<Longrightarrow> src st' = src st"
  by (simp add: emits_def)

section \<open>Parsing an expression\<close>

text \<open>A state in which an expression can be compiled, and the state after it.\<close>

definition ready :: "(bytes \<Rightarrow> (nat \<times> byte) option) \<Rightarrow> nat \<Rightarrow> expr \<Rightarrow> cst \<Rightarrow> bool" where
  "ready env k e st \<longleftrightarrow>
     compilers st \<noteq> [] \<and> \<not> in_table_entry st \<and> var_env st = env \<and> length (cur_consts st) = k \<and>
     0 \<le> type_top st \<and> type_top st + type_room e \<le> 512 \<and>
     (case expr_code env k e of (bs, vs, _) \<Rightarrow> k + length vs \<le> 256 \<and> length bs \<le> 65535)"

definition compiled :: "(bytes \<Rightarrow> (nat \<times> byte) option) \<Rightarrow> nat \<Rightarrow> expr \<Rightarrow> cst \<Rightarrow> ctoken list \<Rightarrow> cst \<Rightarrow> bool" where
  "compiled env k e st ts st' \<longleftrightarrow>
     (case expr_code env k e of (bs, vs, ty) \<Rightarrow> emits st bs vs st' \<and> pushes st ty st' \<and> upcoming st' ts)"

definition stops :: "nat \<Rightarrow> ctoken \<Rightarrow> bool" where
  "stops q t \<longleftrightarrow>
     ktype t \<notin> assign_tokens \<and> rule_precedence (ktype t) \<le> 9 \<and>
     (rule_precedence (ktype t) < q \<or> 5 \<le> q \<and> rule_precedence (ktype t) = q)"

text \<open>
  From the tokens of \<open>e\<close>, printed for the level \<open>q\<close>, the parser gets to the operators that follow;
  first for an expression without parentheses around it.
\<close>

definition parses :: "shape list \<Rightarrow> nat \<Rightarrow> nat \<Rightarrow> (bytes \<Rightarrow> (nat \<times> byte) option) \<Rightarrow> expr \<Rightarrow> bool" where
  "parses shapes depth q env e \<longleftrightarrow>
     (\<forall>p \<le> q. \<forall>ts t rest st k n. map shape ts = shapes \<longrightarrow> upcoming st (ts @ t # rest) \<longrightarrow> stops q t \<longrightarrow>
        depth \<le> n \<longrightarrow> ready env k e st \<longrightarrow>
        (\<exists>st'. parse_precedence (compile_call n) p st = after_operand (compile_call n) p st' \<and>
               compiled env k e st (t # rest) st'))"

lemma parsesD:
  assumes "parses shapes depth q env e" "p \<le> q" "map shape ts = shapes" "upcoming st (ts @ t # rest)"
    "stops q t" "depth \<le> n" "ready env k e st"
  obtains st' where "parse_precedence (compile_call n) p st = after_operand (compile_call n) p st'"
    "compiled env k e st (t # rest) st'"
  using assms unfolding parses_def by blast

text \<open>The call that parses an operand up to the next operator that binds less.\<close>

lemma call_operand:
  assumes "parses shapes depth q env e" "map shape ts = shapes" "upcoming st (ts @ t # rest)"
    "stops q t" "rule_precedence (ktype t) < q" "depth < n" "ready env k e st"
  obtains st' where "compile_call n (Precedence q) st = Some st'" "compiled env k e st (t # rest) st'"
proof -
  obtain m where n: "n = Suc m" using assms(6) by (cases n) auto
  obtain st' where 1: "parse_precedence (compile_call m) q st = after_operand (compile_call m) q st'"
      and 2: "compiled env k e st (t # rest) st'"
    using parsesD [OF assms(1) le_refl assms(2,3,4) _ assms(7)] assms(6) n by (metis less_Suc_eq_le)
  have "upcoming st' (t # rest)" using 2 by (simp add: compiled_def split: prod.splits)
  then have "after_operand (compile_call m) q st' = Some st'"
    by (rule after_operand_stop) (use assms(4,5) in \<open>simp_all add: stops_def\<close>)
  with 1 2 n show ?thesis by (intro that) simp_all
qed

section \<open>Steps of the parser\<close>

lemma advance_to:
  assumes "upcoming st (t # u # ts)"
  obtains st' where "advance st = Some st'" "pprev st' = t" "upcoming st' (u # ts)"
    "same_function st st'" "types_kept st st'"
proof -
  obtain lx where 1: "advance st = Some (st\<lparr>pprev := t, pcur := u, lex := lx\<rparr>)"
      "upcoming (st\<lparr>pprev := t, pcur := u, lex := lx\<rparr>) (u # ts)"
    by (rule advance_upcoming [OF assms])
  show ?thesis
    by (rule that [OF 1(1) _ 1(2)]) (simp_all add: same_function_def types_kept_def)
qed

lemma ready_same:
  assumes "same_function st st'" "types_kept st st'"
  shows "ready env k e st' = ready env k e st"
  using assms same_var_env [OF assms(1)]
  by (simp add: ready_def same_function_def types_kept_def cur_chunk_def)

lemma pushes_kept: "types_kept a b \<Longrightarrow> pushes b ty c = pushes a ty c"
  by (simp add: types_kept_def pushes_def)

lemma compiled_same:
  assumes "same_function st st'" "types_kept st st'" "compiled env k e st' ts st2"
  shows "compiled env k e st ts st2"
  using assms same_emits [OF assms(1)] pushes_kept [OF assms(2)]
  by (auto simp: compiled_def split: prod.splits)

lemma compiledI:
  assumes "expr_code env k e = (bs, vs, ty)" "emits st bs vs st'" "pushes st ty st'" "upcoming st' ts"
  shows "compiled env k e st ts st'"
  using assms by (simp add: compiled_def)

lemma compiledE:
  assumes "compiled env k e st ts st'"
  obtains bs vs ty where "expr_code env k e = (bs, vs, ty)" "emits st bs vs st'" "pushes st ty st'" "upcoming st' ts"
  using assms by (auto simp: compiled_def split: prod.splits)

lemma upcoming_emits:
  assumes "upcoming st ts" "emits st bs vs st'" "pcur st' = pcur st" "lex st' = lex st"
  shows "upcoming st' ts"
  using assms upcoming_cong [of st' st ts] by (simp add: emits_src)

text \<open>An operand of one token.\<close>

lemma parses_atom:
  assumes p: "\<And>rec b. prefix_rule rec ty b = Some (f rec b)"
    and f: "\<And>rec b t0 t rest st k. shape t0 = (ty, x) \<Longrightarrow> pprev st = t0 \<Longrightarrow> upcoming st (t # rest) \<Longrightarrow>
      ktype t \<notin> assign_tokens \<Longrightarrow> ready env k e st \<Longrightarrow> \<exists>st'. f rec b st = Some st' \<and> compiled env k e st (t # rest) st'"
  shows "parses [(ty, x)] 0 q env e"
  unfolding parses_def
proof (intro allI impI)
  fix p ts t rest st k n
  assume "map shape ts = [(ty, x)]" and u: "upcoming st (ts @ t # rest)" and s: "stops q t"
    and r: "ready env k e st"
  then obtain t0 where t0: "ts = [t0]" "shape t0 = (ty, x)" by auto
  obtain st1 where 1: "advance st = Some st1" "pprev st1 = t0" "upcoming st1 (t # rest)"
      "same_function st st1" "types_kept st st1"
    by (rule advance_to) (use u t0 in simp)
  have ty: "ktype t0 = ty" using t0(2) by (simp add: shape_def)
  have r1: "ready env k e st1" using r ready_same [OF 1(4,5)] by simp
  obtain st2 where 2: "f (compile_call n) (p \<le> PREC_ASSIGNMENT) st1 = Some st2" "compiled env k e st1 (t # rest) st2"
    using f [OF t0(2) 1(2,3) _ r1] s unfolding stops_def by blast
  show "\<exists>st'. parse_precedence (compile_call n) p st = after_operand (compile_call n) p st' \<and>
      compiled env k e st (t # rest) st'"
  proof (intro exI conjI)
    show "parse_precedence (compile_call n) p st = after_operand (compile_call n) p st2"
      using 1(1,2) 2(1) p ty by (simp add: parse_precedence_eq)
    show "compiled env k e st (t # rest) st2" by (rule compiled_same [OF 1(4,5) 2(2)])
  qed
qed

lemma parses_number: "parses (raw (Number s)) 0 q env (Number s)"
  unfolding raw.simps
proof (rule parses_atom [where f = "\<lambda>_ _. number"])
  fix t0 t rest st k
  assume a: "shape t0 = (TOKEN_NUMBER, s)" "pprev st = t0" "upcoming st (t # rest)" "ready env k (Number s) st"
  have s: "ktext t0 = s" using a(1) by (auto simp: shape_def split: if_splits)
  have c: "compilers st \<noteq> []" "length (cur_consts st) < 256" "0 \<le> type_top st" "type_top st < 512"
    and k: "length (cur_consts st) = k"
    using a(4) by (simp_all add: ready_def)
  obtain st1 where 1: "emit_constant (VNumber (number_value s)) st = Some st1"
      "plain_emits st [OP_CONSTANT, of_nat k] [VNumber (number_value s)] st1"
    by (rule emit_constant_emits [OF c(1,2), unfolded k])
  let ?ty = "if is_int_text s then TYPEHINT_INT else TYPEHINT_FLOAT"
  obtain st2 where 2: "seq (map emit_byte [] @ [type_push ?ty]) st1 = Some st2"
      "emits st ([OP_CONSTANT, of_nat k] @ []) [VNumber (number_value s)] st2" "pushes st ?ty st2"
      "pcur st2 = pcur st" "lex st2 = lex st"
    by (rule push_value [OF 1(2) c(3,4)])
  show "\<exists>st'. number st = Some st' \<and> compiled env k (Number s) st (t # rest) st'"
  proof (intro exI conjI)
    show "number st = Some st2"
      using 1(1) 2(1) a(2) s by (simp add: number_def parse_number_token_def token_is_int_def)
    show "compiled env k (Number s) st (t # rest) st2"
      by (rule compiledI [OF _ _ 2(3) upcoming_emits [OF a(3) 2(2,4,5)]]) (use 2(2) in simp_all)
  qed
qed (simp add: prefix_rule_def)

lemma parses_keyword:
  assumes "wf_expr env (Keyword x)"
  shows "parses (raw (Keyword x)) 0 q env (Keyword x)"
  unfolding raw.simps
proof (rule parses_atom [where f = "\<lambda>_ _. literal"])
  fix t0 t rest st k
  assume a: "shape t0 = (KW x, [])" "pprev st = t0" "upcoming st (t # rest)" "ready env k (Keyword x) st"
  have s: "ktype t0 = KW x" using a(1) by (simp add: shape_def)
  have c: "compilers st \<noteq> []" "0 \<le> type_top st" "type_top st < 512" using a(4) by (simp_all add: ready_def)
  obtain op ty where code: "expr_code env k (Keyword x) = ([op], [], ty)"
      and lit: "literal st = seq [emit_byte op, type_push ty] st"
    using assms s a(2) by (auto simp: literal_def)
  obtain st2 where 2: "seq (map emit_byte [op] @ [type_push ty]) st = Some st2" "emits st ([] @ [op]) [] st2"
      "pushes st ty st2" "pcur st2 = pcur st" "lex st2 = lex st"
    by (rule push_value [OF plain_emits_refl [OF c(1)] c(2,3)])
  show "\<exists>st'. literal st = Some st' \<and> compiled env k (Keyword x) st (t # rest) st'"
  proof (intro exI conjI)
    show "literal st = Some st2" using lit 2(1) by simp
    show "compiled env k (Keyword x) st (t # rest) st2"
      by (rule compiledI [OF code _ 2(3) upcoming_emits [OF a(3) 2(2,4,5)]]) (use 2(2) in simp)
  qed
qed (use assms in \<open>auto simp: prefix_rule_def\<close>)

lemma find_local_lt: "find_local x c = Some i \<Longrightarrow> i < length (clocals c)"
  unfolding find_local_def by (auto simp: find_Some_iff rev_nth)

lemma variable_ref_local:
  assumes "compilers st \<noteq> []" "var_env st (ktext t) = Some (i, ty)"
  obtains declared where "variable_ref t st = Some ((declared, Local_var i), st)"
proof -
  obtain c cs where c: "compilers st = c # cs" using assms(1) by (cases "compilers st") auto
  then have comp: "comp st = Some c" by (simp add: comp_def at_def)
  have "local_ref (ktext t) c = (Some i, [])"
    using assms(2) c by (auto simp: var_env_def local_ref_def Let_def split: option.splits if_splits)
  then have "resolve_local t st = Some (Some i, st)" by (simp add: resolve_local_def comp report_def)
  then show ?thesis
    by (intro that [of "ktext t \<in> set (explicit_globals c)"])
      (simp add: variable_ref_def is_explicit_global_name_def comp)
qed

lemma local_type_env:
  assumes "compilers st \<noteq> []" "var_env st x = Some (i, ty)"
  shows "local_type i st = Some ty"
proof -
  obtain c cs where c: "compilers st = c # cs" using assms(1) by (cases "compilers st") auto
  then have "find_local x c = Some i" "ltype (clocals c ! i) = ty"
    using assms(2) by (auto simp: var_env_def Let_def split: option.splits if_splits)
  then show ?thesis using c find_local_lt [of x c i] by (simp add: local_type_def comp_def at_def)
qed

lemma parses_local:
  assumes "env x \<noteq> None"
  shows "parses (raw (Local x)) 0 q env (Local x)"
  unfolding raw.simps
proof (rule parses_atom [where f = variable])
  fix rec b t0 t rest st k
  assume a: "shape t0 = (TOKEN_IDENTIFIER, x)" "pprev st = t0" "upcoming st (t # rest)"
    "ktype t \<notin> assign_tokens" "ready env k (Local x) st"
  have s: "ktext t0 = x" using a(1) by (auto simp: shape_def split: if_splits)
  have c: "compilers st \<noteq> []" "0 \<le> type_top st" "type_top st < 512" and e: "var_env st = env"
    using a(5) by (simp_all add: ready_def)
  obtain i ty where i: "env x = Some (i, ty)" using assms by (cases "env x") auto
  obtain declared where r: "variable_ref t0 st = Some ((declared, Local_var i), st)"
    by (rule variable_ref_local [OF c(1)]) (use e s i in auto)
  obtain st1 where 1: "emit_bytes OP_GET_LOCAL (of_nat i) st = Some st1"
      "plain_emits st [OP_GET_LOCAL, of_nat i] [] st1"
    by (rule emit_bytes_emits [OF c(1)])
  have l: "local_type i st1 = Some ty"
    by (rule local_type_env [of st1 x])
      (use 1(2) e i emits_var_env [of st _ _ st1] in \<open>simp_all add: plain_emits_def emits_def\<close>)
  obtain st2 where 2: "seq (map emit_byte [] @ [type_push ty]) st1 = Some st2"
      "emits st ([OP_GET_LOCAL, of_nat i] @ []) [] st2" "pushes st ty st2" "pcur st2 = pcur st" "lex st2 = lex st"
    by (rule push_value [OF 1(2) c(2,3)])
  show "\<exists>st'. variable rec b st = Some st' \<and> compiled env k (Local x) st (t # rest) st'"
  proof (intro exI conjI)
    show "variable rec b st = Some st2"
      using a(2) r match_assign_other [OF a(3,4)] 1(1) 2(1) l
      by (simp add: variable_def named_variable_def load_variable_def)
    show "compiled env k (Local x) st (t # rest) st2"
      by (rule compiledI [OF _ _ 2(3) upcoming_emits [OF a(3) 2(2,4,5)]]) (use 2(2) i in simp_all)
  qed
qed (simp add: prefix_rule_def)

section \<open>Parentheses\<close>

lemma raw_not_empty: "raw e \<noteq> []"
  by (cases e) simp_all

lemma level_le: "wf_expr env e \<Longrightarrow> 1 \<le> level e"
  using binary_token_precedence by (cases e) fastforce+

lemma no_comprehension:
  assumes u: "upcoming st (ts @ rp # rest)" and ts: "map shape ts = raw e" and w: "wf_expr env e"
    and rp: "ktype rp = TOKEN_RIGHT_PAREN" and p: "\<not> check_token TOKEN_LEFT_PAREN st"
  shows "is_generator_comprehension_start l st = Some False"
proof -
  obtain t ts' where t: "ts = t # ts'" using ts raw_not_empty [of e] by (cases ts) auto
  have k: "map ktype ts = map fst (raw e)" unfolding ts [symmetric] by (simp add: shape_def)
  have "balanced 0 (map ktype ts) = Some 0" using balanced_raw [OF w] k by simp
  moreover have "ktype t \<noteq> TOKEN_LEFT_PAREN" using u p t by (simp add: check_upcoming)
  ultimately have b: "balanced 0 (map ktype ts') = Some 0" using t by (auto split: if_splits)
  let ?f = "comprehension_step TOKEN_RIGHT_PAREN l"
  have n: "\<lparr>paren = 0, bracket = 0, brace = 0\<rparr> = no_nesting" by (simp add: no_nesting_def)
  have "?f no_nesting rp = Inr False" using rp by (simp add: comprehension_step_def)
  with runs_balanced [OF b, of l] have r: "runs ?f no_nesting (ts' @ [rp]) = Inr False"
    unfolding n by (auto simp: runs_append)
  have "lexes (src st) (lex st) (ts' @ rp # rest)" using u t by (simp add: upcoming_def)
  moreover have "lexes s lx (xs @ ys) \<Longrightarrow> lexes s lx xs" for s lx xs ys
    by (induction xs arbitrary: lx) (auto split: option.splits)
  ultimately have "lexes (src st) (lex st) (ts' @ [rp])" by (metis append.assoc append_Cons append_Nil)
  from look_runs [OF this r] show ?thesis
    by (simp add: is_generator_comprehension_start_def look_ahead_def)
qed

text \<open>The flags of the last expression are none of an expression's business.\<close>

lemma same_flags:
  "same_function st (st\<lparr>ends_with_call := a, was_range := b\<rparr>)" "types_kept st (st\<lparr>ends_with_call := a, was_range := b\<rparr>)"
  by (simp_all add: same_function_def types_kept_def)

lemma parses_parens:
  assumes ok: "parses (raw e) depth 1 env e" and w: "wf_expr env e"
  shows "parses ((TOKEN_LEFT_PAREN, []) # raw e @ [(TOKEN_RIGHT_PAREN, [])]) (depth + 1) q env e"
  unfolding parses_def
proof (intro allI impI)
  fix p ts t rest st k n
  assume sh: "map shape ts = (TOKEN_LEFT_PAREN, []) # raw e @ [(TOKEN_RIGHT_PAREN, [])]"
    and u: "upcoming st (ts @ t # rest)" and n: "depth + 1 \<le> n" and r: "ready env k e st"
  obtain lp us rp where ts: "ts = lp # us @ [rp]" "shape lp = (TOKEN_LEFT_PAREN, [])" "map shape us = raw e"
      "shape rp = (TOKEN_RIGHT_PAREN, [])"
    using sh by (auto simp: map_eq_Cons_conv map_eq_append_conv)
  have ty: "ktype lp = TOKEN_LEFT_PAREN" "ktype rp = TOKEN_RIGHT_PAREN" using ts(2,4) by (simp_all add: shape_def)
  obtain v vs where us: "us = v # vs" using ts(3) raw_not_empty [of e] by (cases us) auto
  obtain st1 where 1: "advance st = Some st1" "pprev st1 = lp" "upcoming st1 (us @ rp # t # rest)"
      "same_function st st1" "types_kept st st1"
    by (rule advance_to [of st lp v "vs @ rp # t # rest"]) (use u ts(1) us in simp_all)
  let ?st = "st1\<lparr>ends_with_call := False, was_range := False\<rparr>"
  have r1: "ready env k e ?st" using r ready_same [OF 1(4,5)] ready_same [OF same_flags] by simp
  have u1: "upcoming ?st (us @ rp # t # rest)" using 1(3) upcoming_cong [of ?st st1] by simp
  have stop: "stops 1 rp" using ty(2) by (simp add: stops_def assign_tokens_def rule_precedence_def)
  obtain st2 where 2: "compile_call n (Precedence 1) ?st = Some st2" "compiled env k e ?st (rp # t # rest) st2"
    by (rule call_operand [OF ok ts(3) u1 stop _ _ r1, of n])
      (use n ty(2) in \<open>simp_all add: rule_precedence_def\<close>)
  obtain st3 where 3: "advance st2 = Some st3" "upcoming st3 (t # rest)" "same_function st2 st3" "types_kept st2 st3"
    by (rule advance_to [of st2 rp t rest]) (use 2(2) in \<open>auto elim: compiledE\<close>)
  have g: "grouping (compile_call n) st1 = Some st3"
  proof (cases "check_token TOKEN_LEFT_PAREN st1")
    case True
    then show ?thesis using 2 3(1) ty(2)
      by (auto simp: grouping_def expression_def check_upcoming consume_this elim: compiledE)
  next
    case False
    then show ?thesis using 2 3(1) ty(2) no_comprehension [OF 1(3) ts(3) w ty(2) False]
      by (auto simp: grouping_def expression_def check_upcoming consume_this elim: compiledE)
  qed
  have "compiled env k e st1 (rp # t # rest) st2" by (rule compiled_same [OF same_flags 2(2)])
  then have "compiled env k e st (rp # t # rest) st2" by (rule compiled_same [OF 1(4,5)])
  then have c: "compiled env k e st (t # rest) st3"
    using 3 emits_same [OF _ 3(3)]
    by (auto simp: compiled_def pushes_def types_kept_def split: prod.splits)
  show "\<exists>st'. parse_precedence (compile_call n) p st = after_operand (compile_call n) p st' \<and>
      compiled env k e st (t # rest) st'"
    by (intro exI conjI) (use 1(1,2) ty(1) g c in \<open>simp_all add: parse_precedence_eq prefix_rule_def\<close>)
qed

text \<open>Printing for a level adds the parentheses that are needed.\<close>

lemma parses_print:
  assumes "\<And>q. q \<le> level e \<Longrightarrow> parses (raw e) depth q env e" "wf_expr env e"
  shows "parses (parens q (level e) (raw e)) (depth + 1) q env e"
proof (cases "level e < q")
  case True
  then show ?thesis
    using parses_parens [OF assms(1) assms(2)] level_le [OF assms(2)] by (simp add: parens_def)
next
  case False
  then have "parses (raw e) depth q env e" by (intro assms(1)) simp
  then have "parses (raw e) (depth + 1) q env e" unfolding parses_def by (meson le_add1 le_trans)
  with False show ?thesis by (simp add: parens_def)
qed

section \<open>Operators\<close>

lemma pushes_popped:
  "pushes a ty b \<Longrightarrow> pushes (b\<lparr>type_top := type_top a\<rparr>) ty' c \<Longrightarrow> pushes a ty' c"
  by (simp add: pushes_def)

lemma popped_same: "same_function st (st\<lparr>type_top := n\<rparr>)"
  by (simp add: same_function_def)

lemma ready_first:
  assumes "ready env k e st" "type_room l \<le> type_room e"
    and "length (fst (expr_code env k l)) \<le> length (fst (expr_code env k e))"
    and "length (fst (snd (expr_code env k l))) \<le> length (fst (snd (expr_code env k e)))"
  shows "ready env k l st"
  using assms by (auto simp: ready_def split: prod.splits)

lemma ready_room: "ready env k e st \<Longrightarrow> 0 \<le> type_top st \<and> type_top st < 512"
  using type_room_pos [of e] by (simp add: ready_def)

lemma ready_next:
  assumes "ready env k e st" "emits st bs vs st'" "0 \<le> type_top st'" "type_top st' + type_room r \<le> 512"
    "case expr_code env (k + length vs) r of (cs, ws, _) \<Rightarrow> k + length vs + length ws \<le> 256 \<and> length cs \<le> 65535"
  shows "ready env (k + length vs) r st'"
  using assms emits_var_env [OF assms(2)] unfolding ready_def by (simp add: emits_def)

text \<open>After the last operand: its type is dropped and the result has a type of its own.\<close>

lemma finish_operand:
  assumes e: "emits st bs vs st1" and p: "pushes st ty st1" and t: "0 \<le> type_top st" "type_top st < 512"
    and u: "upcoming st1 ts"
  obtains st' where
    "do { st \<leftarrow> type_drop st1; seq (map emit_byte ops @ [type_push ty', set_ends_with_call b]) st } = Some st'"
    "emits st (bs @ ops) vs st'" "pushes st ty' st'" "upcoming st' ts"
proof -
  let ?st = "st1\<lparr>type_top := type_top st\<rparr>"
  have d: "type_drop st1 = Some ?st" using type_pop_pushes [OF p t(1)] by (simp add: type_drop_def)
  have e': "emits st bs vs ?st" by (rule emits_same [OF e popped_same])
  obtain st' where 1: "seq (map emit_byte ops @ [type_push ty', set_ends_with_call b]) ?st = Some st'"
      "emits ?st ops [] st'" "pushes ?st ty' st'" "pcur st' = pcur ?st" "lex st' = lex ?st"
    by (rule finish_value [of ?st]) (use e' t in \<open>simp_all add: emits_def\<close>)
  show ?thesis
  proof (rule that)
    show "do { st \<leftarrow> type_drop st1; seq (map emit_byte ops @ [type_push ty', set_ends_with_call b]) st } = Some st'"
      using d 1(1) by simp
    show "emits st (bs @ ops) vs st'" using emits_trans [OF e' 1(2)] by simp
    show "pushes st ty' st'" by (rule pushes_popped [OF p 1(3)])
    show "upcoming st' ts"
      by (rule upcoming_emits [OF _ 1(2,4,5)]) (use u upcoming_cong [of ?st st1] in simp)
  qed
qed

lemma parses_unary:
  assumes ok: "parses shapes depth PREC_UNARY env e" and op: "op = TOKEN_MINUS \<or> op = TOKEN_HASH \<or> op = KW ''NOT''"
    and ne: "shapes \<noteq> []" and q: "q \<le> PREC_UNARY"
  shows "parses ((op, []) # shapes) (depth + 1) q env (Unary op e)"
  unfolding parses_def
proof (intro allI impI)
  fix p ts t rest st k n
  assume sh: "map shape ts = (op, []) # shapes" and u: "upcoming st (ts @ t # rest)" and s: "stops q t"
    and n: "depth + 1 \<le> n" and r: "ready env k (Unary op e) st"
  obtain o1 v vs where ts: "ts = o1 # v # vs" "map shape (v # vs) = shapes" "shape o1 = (op, [])"
    using sh ne by (auto simp: map_eq_Cons_conv neq_Nil_conv)
  have ty: "ktype o1 = op" using ts(3) by (simp add: shape_def)
  obtain st1 where 1: "advance st = Some st1" "pprev st1 = o1" "upcoming st1 ((v # vs) @ t # rest)"
      "same_function st st1" "types_kept st st1"
    by (rule advance_to [of st o1 v "vs @ t # rest"]) (use u ts(1) in simp_all)
  obtain bs ws lt where code: "expr_code env k e = (bs, ws, lt)" by (rule prod_cases3)
  have "ready env k e st"
    by (rule ready_first [OF r]) (use code in \<open>simp_all add: Let_def split: prod.splits\<close>)
  then have r1: "ready env k e st1" using ready_same [OF 1(4,5)] by simp
  have s10: "stops PREC_UNARY t" "rule_precedence (ktype t) < PREC_UNARY" using s by (auto simp: stops_def)
  obtain st2 where 2: "compile_call n (Precedence PREC_UNARY) st1 = Some st2" "compiled env k e st1 (t # rest) st2"
    by (rule call_operand [OF ok ts(2) 1(3) s10 _ r1, of n]) (use n in linarith)
  then have c: "emits st1 bs ws st2" "pushes st1 lt st2" "upcoming st2 (t # rest)"
    using code by (simp_all add: compiled_def)
  have t1: "0 \<le> type_top st1" "type_top st1 < 512" using r1 type_room_pos [of e] by (simp_all add: ready_def)
  obtain op' ty' where uc: "unary_code op lt = (op', ty')" by (cases "unary_code op lt")
  obtain st3 where 3: "do { st \<leftarrow> type_drop st2; seq (map emit_byte [op'] @ [type_push ty', set_ends_with_call False]) st } = Some st3"
      "emits st1 (bs @ [op']) ws st3" "pushes st1 ty' st3" "upcoming st3 (t # rest)"
    by (rule finish_operand [OF c(1,2) t1 c(3)])
  have un: "unary (compile_call n) st1 = Some st3"
    using 2(1) 3(1) 1(2) ty op uc type_pop_pushes [OF c(2) t1(1)]
    by (auto simp: unary_def unary_code_def type_drop_def Let_def)
  have "compiled env k (Unary op e) st1 (t # rest) st3"
    by (rule compiledI [OF _ 3(2,3,4)]) (use code uc in simp)
  then have cc: "compiled env k (Unary op e) st (t # rest) st3" by (rule compiled_same [OF 1(4,5)])
  show "\<exists>st'. parse_precedence (compile_call n) p st = after_operand (compile_call n) p st' \<and>
      compiled env k (Unary op e) st (t # rest) st'"
    by (intro exI conjI) (use 1(1,2) ty op un cc in \<open>auto simp: parse_precedence_eq prefix_rule_def\<close>)
qed

text \<open>An operand and an infix operator.\<close>

definition infix_ok ::
  "nat \<Rightarrow> nat \<Rightarrow> (bytes \<Rightarrow> (nat \<times> byte) option) \<Rightarrow> expr \<Rightarrow> expr \<Rightarrow> token_type \<Rightarrow> shape list \<Rightarrow> bool" where
  "infix_ok depth q env l e op shapes \<longleftrightarrow>
     (\<forall>n b k st st1 us t rest bs vs lt. depth \<le> n \<longrightarrow> ready env k e st \<longrightarrow> map shape us = shapes \<longrightarrow>
        stops q t \<longrightarrow> expr_code env k l = (bs, vs, lt) \<longrightarrow> emits st bs vs st1 \<longrightarrow> pushes st lt st1 \<longrightarrow>
        upcoming st1 (us @ t # rest) \<longrightarrow> ktype (pprev st1) = op \<longrightarrow>
        (\<exists>st2. infix_rule (compile_call n) op b st1 = Some st2 \<and> compiled env k e st (t # rest) st2))"

lemma parses_infix:
  assumes ok: "parses lshapes depth ql env l" and q: "q \<le> rule_precedence op" "q \<le> ql"
    and stop: "\<And>t. ktype t = op \<Longrightarrow> stops ql t" and ne: "shapes \<noteq> []"
    and rdy: "\<And>k st. ready env k e st \<Longrightarrow> ready env k l st"
    and inner: "infix_ok (depth + 1) q env l e op shapes"
  shows "parses (lshapes @ (op, []) # shapes) (depth + 1) q env e"
  unfolding parses_def
proof (intro allI impI)
  fix p ts t rest st k n
  assume p: "p \<le> q" and sh: "map shape ts = lshapes @ (op, []) # shapes" and u: "upcoming st (ts @ t # rest)"
    and s: "stops q t" and n: "depth + 1 \<le> n" and r: "ready env k e st"
  obtain us o1 v vs where ts: "ts = us @ o1 # v # vs" "map shape us = lshapes" "map shape (v # vs) = shapes"
      "shape o1 = (op, [])"
    using sh ne by (auto simp: map_eq_append_conv map_eq_Cons_conv neq_Nil_conv)
  have ty: "ktype o1 = op" using ts(4) by (simp add: shape_def)
  obtain st1 where 1: "parse_precedence (compile_call n) p st = after_operand (compile_call n) p st1"
      "compiled env k l st (o1 # v # vs @ t # rest) st1"
    by (rule parsesD [OF ok order.trans [OF p q(2)] ts(2) _ stop [OF ty] _ rdy [OF r], of "v # vs @ t # rest" n])
      (use u ts(1) n in simp_all)
  obtain bs ws lt where c: "expr_code env k l = (bs, ws, lt)" "emits st bs ws st1" "pushes st lt st1"
      "upcoming st1 (o1 # v # vs @ t # rest)"
    by (rule compiledE [OF 1(2)])
  obtain st2 where 2: "advance st1 = Some st2" "pprev st2 = o1" "upcoming st2 (v # vs @ t # rest)"
      "same_function st1 st2" "types_kept st1 st2"
    by (rule advance_to [OF c(4)])
  have e2: "emits st bs ws st2" by (rule emits_same [OF c(2) 2(4)])
  have p2: "pushes st lt st2" using c(3) 2(5) by (simp add: pushes_def types_kept_def)
  obtain st3 where 3: "infix_rule (compile_call n) op (p \<le> PREC_ASSIGNMENT) st2 = Some st3"
      "compiled env k e st (t # rest) st3"
    using inner n r ts(3) s c(1) e2 p2 2(2,3) ty unfolding infix_ok_def by (metis append_Cons)
  have "continues p st1"
    using c(4) p q(1) ty r c(2) by (simp add: continues_upcoming ready_def emits_def)
  from after_operand_step [OF this, of "compile_call n"]
  have "after_operand (compile_call n) p st1 = after_operand (compile_call n) p st3"
    using 2(1,2) ty 3(1) by (simp add: infix_step_def)
  then show "\<exists>st'. parse_precedence (compile_call n) p st = after_operand (compile_call n) p st' \<and>
      compiled env k e st (t # rest) st'"
    using 1(1) 3(2) by auto
qed

text \<open>The right operand, from the state \<open>st1\<close> on.\<close>

lemma right_operand:
  assumes ok: "parses shapes depth q' env r" and us: "map shape us = shapes" and u: "upcoming st1 (us @ t # rest)"
    and s: "stops q t" and q: "rule_precedence (ktype t) < q'"
    and n: "depth < n" and r: "ready env k r st1" and code: "expr_code env k r = (cs, ws, rt)"
  obtains st2 where "compile_call n (Precedence q') st1 = Some st2" "emits st1 cs ws st2" "pushes st1 rt st2"
    "upcoming st2 (t # rest)"
proof -
  have s': "stops q' t" using s q by (auto simp: stops_def)
  obtain st2 where "compile_call n (Precedence q') st1 = Some st2" "compiled env k r st1 (t # rest) st2"
    by (rule call_operand [OF ok us u s' q n r])
  then show ?thesis using code by (intro that) (auto simp: compiled_def)
qed

lemma binary_infix_ok:
  assumes ok: "parses shapes depth (rule_precedence op + 1) env r" and op: "is_binary_token op"
    and q: "q \<le> rule_precedence op"
  shows "infix_ok (depth + 1) q env l (Binary op l r) op shapes"
  unfolding infix_ok_def
proof (intro allI impI)
  fix n b k st st1 us t rest bs vs lt
  assume n: "depth + 1 \<le> n" and rd: "ready env k (Binary op l r) st" and us: "map shape us = shapes"
    and s: "stops q t" and cl: "expr_code env k l = (bs, vs, lt)" and e1: "emits st bs vs st1"
    and p1: "pushes st lt st1" and u: "upcoming st1 (us @ t # rest)" and ty: "ktype (pprev st1) = op"
  obtain cs ws rt where cr: "expr_code env (k + length vs) r = (cs, ws, rt)" by (rule prod_cases3)
  obtain ops ty' where ops: "binary_code op lt rt = Some (ops, ty')" using binary_code_Some [OF op] by blast
  have code: "expr_code env k (Binary op l r) = (bs @ cs @ ops, vs @ ws, ty')" using cl cr ops by simp
  have t0: "0 \<le> type_top st" "type_top st < 512" "type_top st1 = type_top st + 1"
    using ready_room [OF rd] p1 by (simp_all add: pushes_def)
  have room: "type_top st + 1 + type_room r \<le> 512" using rd unfolding ready_def type_room.simps by linarith
  have "k + length vs + length ws \<le> 256" "length cs \<le> 65535" using rd code by (simp_all add: ready_def)
  then have r1: "ready env (k + length vs) r st1"
    by (intro ready_next [OF rd e1]) (use t0 room cr in simp_all)
  obtain st2 where 2: "compile_call n (Precedence (rule_precedence op + 1)) st1 = Some st2" "emits st1 cs ws st2"
      "pushes st1 rt st2" "upcoming st2 (t # rest)"
    by (rule right_operand [OF ok us u s _ _ r1 cr, of n]) (use n q s in \<open>auto simp: stops_def\<close>)
  let ?st = "st2\<lparr>type_top := type_top st1\<rparr>"
  have pop: "type_pop st2 = Some (rt, ?st)" using type_pop_pushes [OF 2(3)] t0 by simp
  have e2: "emits st (bs @ cs) (vs @ ws) ?st" by (rule emits_same [OF emits_trans [OF e1 2(2)] popped_same])
  have p2: "pushes st lt ?st" using p1 2(3) t0 by (auto simp: pushes_def)
  obtain st3 where 3: "do { st \<leftarrow> type_drop ?st; seq (map emit_byte ops @ [type_push ty', set_ends_with_call False]) st } = Some st3"
      "emits st ((bs @ cs) @ ops) (vs @ ws) st3" "pushes st ty' st3" "upcoming st3 (t # rest)"
    by (rule finish_operand [OF e2 p2 t0(1,2)]) (use 2(4) upcoming_cong [of ?st st2] in simp)
  have "binary (compile_call n) st1 = Some st3"
    using 2(1) 3(1) ty ops pop type_pop_pushes [OF p2 t0(1)] by (simp add: binary_def type_drop_def Let_def)
  moreover have "infix_rule (compile_call n) op b st1 = binary (compile_call n) st1"
    using op binary_token_cases [OF op] by (auto simp: infix_rule_def)
  ultimately show "\<exists>st2. infix_rule (compile_call n) op b st1 = Some st2 \<and>
      compiled env k (Binary op l r) st (t # rest) st2"
    using compiledI [OF code _ 3(3,4)] 3(2) by (intro exI [of _ st3] conjI) simp_all
qed

section \<open>Operators with jumps\<close>

definition same_types :: "cst \<Rightarrow> cst \<Rightarrow> bool" where
  "same_types st st' \<longleftrightarrow>
     type_top st' = type_top st \<and> (\<forall>i. int i < type_top st \<longrightarrow> type_stack st' i = type_stack st i)"

lemma same_types_pushes: "same_types a b \<Longrightarrow> pushes b ty c \<Longrightarrow> pushes a ty c"
  by (simp add: same_types_def pushes_def)

lemma same_types_kept: "same_types a b \<Longrightarrow> types_kept b c \<Longrightarrow> same_types a c"
  by (simp add: same_types_def types_kept_def)

lemma drop_operand:
  assumes "emits st bs vs st1" "pushes st ty st1" "0 \<le> type_top st"
  obtains st' where "type_drop st1 = Some st'" "emits st bs vs st'" "same_types st st'" "same_function st1 st'"
    "pcur st' = pcur st1" "lex st' = lex st1"
proof -
  let ?st = "st1\<lparr>type_top := type_top st\<rparr>"
  have "type_drop st1 = Some ?st" using type_pop_pushes [OF assms(2,3)] by (simp add: type_drop_def)
  moreover have "emits st bs vs ?st" by (rule emits_same [OF assms(1) popped_same])
  moreover have "same_types st ?st" using assms(2) by (simp add: same_types_def pushes_def)
  ultimately show ?thesis by (rule that) (simp_all add: same_function_def)
qed

lemma plain_emits_emits: "plain_emits st bs vs st' \<Longrightarrow> emits st bs vs st'"
  by (simp add: plain_emits_def)

lemma emits_compilers: "emits st bs vs st' \<Longrightarrow> compilers st' \<noteq> []"
  by (simp add: emits_def)

text \<open>Instructions, of which the last may be a jump to patch, between two operands.\<close>

lemma plain_emits_after:
  assumes "emits st bs vs a" "same_types st a" "plain_emits a cs ws b" "upcoming a ts"
  shows "emits st (bs @ cs) (vs @ ws) b" "same_types st b" "upcoming b ts"
proof -
  have e: "emits a cs ws b" "types_kept a b" "pcur b = pcur a" "lex b = lex a"
    using assms(3) by (simp_all add: plain_emits_def)
  show "emits st (bs @ cs) (vs @ ws) b" by (rule emits_trans [OF assms(1) e(1)])
  show "same_types st b" by (rule same_types_kept [OF assms(2) e(2)])
  show "upcoming b ts" by (rule upcoming_emits [OF assms(4) e(1,3,4)])
qed

lemma operand_after:
  assumes "emits st bs vs a" "same_types st a" "emits a cs ws b" "pushes a ty b"
  shows "emits st (bs @ cs) (vs @ ws) b" "pushes st ty b"
  using emits_trans [OF assms(1,3)] same_types_pushes [OF assms(2,4)] by simp_all

text \<open>The jump before the last operand is patched, and the operand's type replaced.\<close>

lemma patch_and_finish:
  assumes e: "emits st (xs @ [0xFF, 0xFF] @ ys) vs d" and p: "pushes st ty d" and u: "upcoming d ts"
    and j: "j = length (cur_code st) + length xs" and n: "length ys \<le> 65535"
    and t: "0 \<le> type_top st" "type_top st < 512"
  obtains st' where "seq [patch_jump j, type_drop, type_push ty', set_ends_with_call b] d = Some st'"
    "emits st (xs @ jump_bytes (length ys) @ ys) vs st'" "pushes st ty' st'" "upcoming st' ts"
proof -
  obtain a where 1: "patch_jump j d = Some a" "emits st (xs @ jump_bytes (length ys) @ ys) vs a"
      "types_kept d a" "pcur a = pcur d" "pprev a = pprev d" "lex a = lex d"
    by (rule patch_jump_emits [OF e j n])
  have p': "pushes st ty a" using p 1(3) by (simp add: pushes_def types_kept_def)
  have u': "upcoming a ts" using u upcoming_cong [of a d ts] 1 e by (simp add: emits_def)
  obtain st' where 2: "do { st \<leftarrow> type_drop a; seq (map emit_byte [] @ [type_push ty', set_ends_with_call b]) st } = Some st'"
      "emits st ((xs @ jump_bytes (length ys) @ ys) @ []) vs st'" "pushes st ty' st'" "upcoming st' ts"
    by (rule finish_operand [OF 1(2) p' t u'])
  show ?thesis by (rule that [of st']) (use 1(1) 2 in simp_all)
qed

lemma right_ready:
  assumes "ready env k e st" "emits st bs vs a" "same_types st a" "type_room r \<le> type_room e"
    "expr_code env (k + length vs) r = (cs, ws, rt)" "k + length vs + length ws \<le> 256" "length cs \<le> 65535"
  shows "ready env (k + length vs) r a"
  by (rule ready_next [OF assms(1,2)]) (use assms in \<open>simp_all add: ready_def same_types_def\<close>)

lemma and_infix_ok:
  assumes ok: "parses shapes depth PREC_AND env r" and q: "q \<le> PREC_AND"
  shows "infix_ok (depth + 1) q env l (And l r) (KW ''AND'') shapes"
  unfolding infix_ok_def
proof (intro allI impI)
  fix n b k st st1 us t rest bs vs lt
  assume n: "depth + 1 \<le> n" and rd: "ready env k (And l r) st" and us: "map shape us = shapes"
    and s: "stops q t" and cl: "expr_code env k l = (bs, vs, lt)" and e1: "emits st bs vs st1"
    and p1: "pushes st lt st1" and u: "upcoming st1 (us @ t # rest)"
  obtain cs ws rt where cr: "expr_code env (k + length vs) r = (cs, ws, rt)" by (rule prod_cases3)
  have code: "expr_code env k (And l r) =
      ((bs @ [OP_JUMP_IF_FALSE]) @ jump_bytes (length (OP_POP # cs)) @ OP_POP # cs, vs @ ws, TYPEHINT_ANY)"
    using cl cr by simp
  have t0: "0 \<le> type_top st" "type_top st < 512" using ready_room [OF rd] by simp_all
  have fit: "k + length vs + length ws \<le> 256" "length (OP_POP # cs) \<le> 65535"
    using rd code by (simp_all add: ready_def jump_bytes_def)
  obtain a where a: "type_drop st1 = Some a" "emits st bs vs a" "same_types st a" "same_function st1 a"
      "pcur a = pcur st1" "lex a = lex st1"
    by (rule drop_operand [OF e1 p1 t0(1)])
  have ua: "upcoming a (us @ t # rest)"
    using u upcoming_cong [of a st1] a(4,5,6) by (simp add: same_function_def)
  obtain b' where b: "emit_jump OP_JUMP_IF_FALSE a = Some (length (cur_code a) + 1, b')"
      "plain_emits a [OP_JUMP_IF_FALSE, 0xFF, 0xFF] [] b'"
    by (rule emit_jump_emits [OF emits_compilers [OF a(2)]])
  obtain c where c: "emit_byte OP_POP b' = Some c" "plain_emits b' [OP_POP] [] c"
    by (rule emit_byte_emits [OF plain_emits_compilers [OF b(2)]])
  note c' = plain_emits_after [OF a(2,3) plain_emits_trans [OF b(2) c(2)] ua]
  have rc: "ready env (k + length vs) r c"
    using right_ready [OF rd c'(1,2), of r cs ws rt] cr fit by simp
  obtain d where d: "compile_call n (Precedence PREC_AND) c = Some d" "emits c cs ws d" "pushes c rt d"
      "upcoming d (t # rest)"
    by (rule right_operand [OF ok us c'(3) s _ _ rc cr, of n]) (use n q s in \<open>auto simp: stops_def\<close>)
  note d' = operand_after [OF c'(1,2) d(2,3)]
  have e5: "emits st ((bs @ [OP_JUMP_IF_FALSE]) @ [0xFF, 0xFF] @ OP_POP # cs) (vs @ ws) d" using d'(1) by simp
  have j: "length (cur_code a) + 1 = length (cur_code st) + length (bs @ [OP_JUMP_IF_FALSE])"
    using a(2) by (simp add: emits_def)
  obtain st' where f: "seq [patch_jump (length (cur_code a) + 1), type_drop, type_push TYPEHINT_ANY, set_ends_with_call False] d = Some st'"
      "emits st ((bs @ [OP_JUMP_IF_FALSE]) @ jump_bytes (length (OP_POP # cs)) @ OP_POP # cs) (vs @ ws) st'"
      "pushes st TYPEHINT_ANY st'" "upcoming st' (t # rest)"
    by (rule patch_and_finish [OF e5 d'(2) d(4) j fit(2) t0])
  have "infix_rule (compile_call n) (KW ''AND'') b st1 = Some st'"
    using a(1) b(1) c(1) d(1) f(1) by (simp add: infix_rule_def and_op_def)
  then show "\<exists>st2. infix_rule (compile_call n) (KW ''AND'') b st1 = Some st2 \<and>
      compiled env k (And l r) st (t # rest) st2"
    using compiledI [OF code f(2,3,4)] by blast
qed

lemma patch_after:
  assumes e: "emits st (xs @ [0xFF, 0xFF] @ ys) vs a" and j: "j = length (cur_code st) + length xs"
    and n: "length ys \<le> 65535" and u: "upcoming a ts"
  obtains st' where "patch_jump j a = Some st'" "emits st (xs @ jump_bytes (length ys) @ ys) vs st'"
    "types_kept a st'" "upcoming st' ts"
proof -
  obtain b where 1: "patch_jump j a = Some b" "emits st (xs @ jump_bytes (length ys) @ ys) vs b"
      "types_kept a b" "pcur b = pcur a" "pprev b = pprev a" "lex b = lex a"
    by (rule patch_jump_emits [OF e j n])
  have "upcoming b ts" using u upcoming_cong [of b a ts] 1 e by (simp add: emits_def)
  with 1 show ?thesis by (intro that) simp_all
qed

lemma or_infix_ok:
  assumes ok: "parses shapes depth PREC_OR env r" and q: "q \<le> PREC_OR"
  shows "infix_ok (depth + 1) q env l (Or l r) (KW ''OR'') shapes"
  unfolding infix_ok_def
proof (intro allI impI)
  fix n b k st st1 us t rest bs vs lt
  assume n: "depth + 1 \<le> n" and rd: "ready env k (Or l r) st" and us: "map shape us = shapes"
    and s: "stops q t" and cl: "expr_code env k l = (bs, vs, lt)" and e1: "emits st bs vs st1"
    and p1: "pushes st lt st1" and u: "upcoming st1 (us @ t # rest)"
  let ?xs = "bs @ [OP_JUMP_IF_FALSE] @ jump_bytes 3 @ [OP_JUMP]"
  obtain cs ws rt where cr: "expr_code env (k + length vs) r = (cs, ws, rt)" by (rule prod_cases3)
  have code: "expr_code env k (Or l r) = (?xs @ jump_bytes (length (OP_POP # cs)) @ OP_POP # cs, vs @ ws, TYPEHINT_ANY)"
    using cl cr by simp
  have t0: "0 \<le> type_top st" "type_top st < 512" using ready_room [OF rd] by simp_all
  have fit: "k + length vs + length ws \<le> 256" "length (OP_POP # cs) \<le> 65535"
    using rd code by (simp_all add: ready_def jump_bytes_def)
  obtain a where a: "type_drop st1 = Some a" "emits st bs vs a" "same_types st a" "same_function st1 a"
      "pcur a = pcur st1" "lex a = lex st1"
    by (rule drop_operand [OF e1 p1 t0(1)])
  have ua: "upcoming a (us @ t # rest)"
    using u upcoming_cong [of a st1] a(4,5,6) by (simp add: same_function_def)
  obtain b1 where b1: "emit_jump OP_JUMP_IF_FALSE a = Some (length (cur_code a) + 1, b1)"
      "plain_emits a [OP_JUMP_IF_FALSE, 0xFF, 0xFF] [] b1"
    by (rule emit_jump_emits [OF emits_compilers [OF a(2)]])
  obtain b2 where b2: "emit_jump OP_JUMP b1 = Some (length (cur_code b1) + 1, b2)"
      "plain_emits b1 [OP_JUMP, 0xFF, 0xFF] [] b2"
    by (rule emit_jump_emits [OF plain_emits_compilers [OF b1(2)]])
  note b' = plain_emits_after [OF a(2,3) plain_emits_trans [OF b1(2) b2(2)] ua]
  have e3: "emits st ((bs @ [OP_JUMP_IF_FALSE]) @ [0xFF, 0xFF] @ [OP_JUMP, 0xFF, 0xFF]) vs b2" using b'(1) by simp
  have j1: "length (cur_code a) + 1 = length (cur_code st) + length (bs @ [OP_JUMP_IF_FALSE])"
    and j2: "length (cur_code b1) + 1 = length (cur_code st) + length ?xs"
    using a(2) b1(2) by (simp_all add: emits_def plain_emits_def jump_bytes_def)
  obtain b3 where b3: "patch_jump (length (cur_code a) + 1) b2 = Some b3"
      "emits st ((bs @ [OP_JUMP_IF_FALSE]) @ jump_bytes (length [OP_JUMP, 0xFF, 0xFF :: byte]) @ [OP_JUMP, 0xFF, 0xFF]) vs b3"
      "types_kept b2 b3" "upcoming b3 (us @ t # rest)"
    by (rule patch_after [OF e3 j1 _ b'(3)]) simp
  obtain c where c: "emit_byte OP_POP b3 = Some c" "plain_emits b3 [OP_POP] [] c"
    by (rule emit_byte_emits [OF emits_compilers [OF b3(2)]])
  note c' = plain_emits_after [OF b3(2) same_types_kept [OF b'(2) b3(3)] c(2) b3(4)]
  have rc: "ready env (k + length vs) r c"
    using right_ready [OF rd c'(1,2), of r cs ws rt] cr fit by simp
  obtain d where d: "compile_call n (Precedence PREC_OR) c = Some d" "emits c cs ws d" "pushes c rt d"
      "upcoming d (t # rest)"
    by (rule right_operand [OF ok us c'(3) s _ _ rc cr, of n]) (use n q s in \<open>auto simp: stops_def\<close>)
  note d' = operand_after [OF c'(1,2) d(2,3)]
  have e5: "emits st (?xs @ [0xFF, 0xFF] @ OP_POP # cs) (vs @ ws) d" using d'(1) by (simp add: numeral_3_eq_3)
  obtain st' where f: "seq [patch_jump (length (cur_code b1) + 1), type_drop, type_push TYPEHINT_ANY, set_ends_with_call False] d = Some st'"
      "emits st (?xs @ jump_bytes (length (OP_POP # cs)) @ OP_POP # cs) (vs @ ws) st'"
      "pushes st TYPEHINT_ANY st'" "upcoming st' (t # rest)"
    by (rule patch_and_finish [OF e5 d'(2) d(4) j2 fit(2) t0])
  have "infix_rule (compile_call n) (KW ''OR'') b st1 = Some st'"
    using a(1) b1(1) b2(1) b3(1) c(1) d(1) f(1) by (simp add: infix_rule_def or_op_def)
  then show "\<exists>st2. infix_rule (compile_call n) (KW ''OR'') b st1 = Some st2 \<and>
      compiled env k (Or l r) st (t # rest) st2"
    using compiledI [OF code f(2,3,4)] by blast
qed

lemma cond_infix_ok:
  assumes oka: "parses ashapes da 3 env a" and okb: "parses bshapes db PREC_TERNARY env b"
    and nb: "bshapes \<noteq> []" and dd: "da \<le> depth" "db \<le> depth" and q: "q \<le> PREC_TERNARY"
  shows "infix_ok (depth + 1) q env c (Cond c a b) TOKEN_QUESTION (ashapes @ (TOKEN_COLON, []) # bshapes)"
  unfolding infix_ok_def
proof (intro allI impI)
  fix n can k st st1 us t rest bs vs ct
  assume n: "depth + 1 \<le> n" and rd: "ready env k (Cond c a b) st"
    and sh: "map shape us = ashapes @ (TOKEN_COLON, []) # bshapes"
    and s: "stops q t" and cl: "expr_code env k c = (bs, vs, ct)" and e1: "emits st bs vs st1"
    and p1: "pushes st ct st1" and u: "upcoming st1 (us @ t # rest)"
  obtain as cn y ys where us: "us = as @ cn # y # ys" "map shape as = ashapes" "map shape (y # ys) = bshapes"
      "shape cn = (TOKEN_COLON, [])"
    using sh nb by (auto simp: map_eq_append_conv map_eq_Cons_conv neq_Nil_conv)
  have cty: "ktype cn = TOKEN_COLON" using us(4) by (simp add: shape_def)
  obtain cs ws at where ca: "expr_code env (k + length vs) a = (cs, ws, at)" by (rule prod_cases3)
  obtain ds xs bt where cb: "expr_code env (k + length vs + length ws) b = (ds, xs, bt)" by (rule prod_cases3)
  let ?jmp = "(bs @ [OP_JUMP_IF_FALSE]) @ jump_bytes (length cs + 4) @ OP_POP # cs @ [OP_JUMP]"
  have code: "expr_code env k (Cond c a b) = (?jmp @ jump_bytes (length (OP_POP # ds)) @ OP_POP # ds,
      (vs @ ws) @ xs, if at = bt then at else TYPEHINT_ANY)"
    using cl ca cb by simp
  have t0: "0 \<le> type_top st" "type_top st < 512" using ready_room [OF rd] by simp_all
  have fit: "k + length vs + length ws \<le> 256" "k + length (vs @ ws) + length xs \<le> 256" "length cs \<le> 65535"
      "length (OP_POP # cs @ [OP_JUMP, 0xFF, 0xFF :: byte]) \<le> 65535" "length (OP_POP # ds) \<le> 65535"
    using rd code by (simp_all add: ready_def jump_bytes_def)
  have room: "type_room a \<le> type_room (Cond c a b)" "type_top st + 1 + type_room b \<le> 512"
    using rd unfolding ready_def type_room.simps by linarith+
  obtain s1 where s1: "type_drop st1 = Some s1" "emits st bs vs s1" "same_types st s1" "same_function st1 s1"
      "pcur s1 = pcur st1" "lex s1 = lex st1"
    by (rule drop_operand [OF e1 p1 t0(1)])
  have u1: "upcoming s1 (as @ cn # y # ys @ t # rest)"
    using u upcoming_cong [of s1 st1] s1(4,5,6) us(1) by (simp add: same_function_def)
  obtain s2 where s2: "emit_jump OP_JUMP_IF_FALSE s1 = Some (length (cur_code s1) + 1, s2)"
      "plain_emits s1 [OP_JUMP_IF_FALSE, 0xFF, 0xFF] [] s2"
    by (rule emit_jump_emits [OF emits_compilers [OF s1(2)]])
  obtain s3 where s3: "emit_byte OP_POP s2 = Some s3" "plain_emits s2 [OP_POP] [] s3"
    by (rule emit_byte_emits [OF plain_emits_compilers [OF s2(2)]])
  note s3' = plain_emits_after [OF s1(2,3) plain_emits_trans [OF s2(2) s3(2)] u1]
  have ra: "ready env (k + length vs) a s3"
    using right_ready [OF rd s3'(1,2), of a cs ws at] ca fit room by simp
  have sc: "stops 3 cn" "rule_precedence (ktype cn) < 3"
    using cty by (simp_all add: stops_def assign_tokens_def rule_precedence_def)
  obtain s4 where s4: "compile_call n (Precedence 3) s3 = Some s4" "emits s3 cs ws s4" "pushes s3 at s4"
      "upcoming s4 (cn # y # ys @ t # rest)"
    by (rule right_operand [OF oka us(2) s3'(3) sc _ ra ca, of n]) (use n dd in simp)
  note s4' = operand_after [OF s3'(1,2) s4(2,3)]
  obtain s5 where s5: "advance s4 = Some s5" "upcoming s5 ((y # ys) @ t # rest)" "same_function s4 s5" "types_kept s4 s5"
    by (rule advance_to [OF s4(4)]) simp
  have e5: "emits st ((bs @ [OP_JUMP_IF_FALSE, 0xFF, 0xFF] @ [OP_POP]) @ cs) ((vs @ [] @ []) @ ws) s5"
    by (rule emits_same [OF s4'(1) s5(3)])
  obtain s6 where s6: "emit_jump OP_JUMP s5 = Some (length (cur_code s5) + 1, s6)"
      "plain_emits s5 [OP_JUMP, 0xFF, 0xFF] [] s6"
    by (rule emit_jump_emits [OF emits_compilers [OF e5]])
  have e6: "emits st ((bs @ [OP_JUMP_IF_FALSE]) @ [0xFF, 0xFF] @ OP_POP # cs @ [OP_JUMP, 0xFF, 0xFF]) (vs @ ws) s6"
    using emits_trans [OF e5 plain_emits_emits [OF s6(2)]] by simp
  have u6: "upcoming s6 ((y # ys) @ t # rest)"
    by (rule upcoming_emits [OF s5(2) plain_emits_emits [OF s6(2)]]) (use s6(2) in \<open>simp_all add: plain_emits_def\<close>)
  have j1: "length (cur_code s1) + 1 = length (cur_code st) + length (bs @ [OP_JUMP_IF_FALSE])"
    and j2: "length (cur_code s5) + 1 = length (cur_code st) + length ?jmp"
    using s1(2) e5 by (simp_all add: emits_def jump_bytes_def)
  obtain s7 where s7: "patch_jump (length (cur_code s1) + 1) s6 = Some s7"
      "emits st ((bs @ [OP_JUMP_IF_FALSE]) @ jump_bytes (length (OP_POP # cs @ [OP_JUMP, 0xFF, 0xFF :: byte])) @
        OP_POP # cs @ [OP_JUMP, 0xFF, 0xFF]) (vs @ ws) s7"
      "types_kept s6 s7" "upcoming s7 ((y # ys) @ t # rest)"
    by (rule patch_after [OF e6 j1 fit(4) u6])
  have p7: "pushes st at s7"
    using s4'(2) s5(4) s6(2) s7(3) by (simp add: pushes_def types_kept_def plain_emits_def)
  obtain s8 where s8: "emit_byte OP_POP s7 = Some s8" "plain_emits s7 [OP_POP] [] s8"
    by (rule emit_byte_emits [OF emits_compilers [OF s7(2)]])
  have p8: "pushes st at s8" using p7 s8(2) by (simp add: pushes_def types_kept_def plain_emits_def)
  have e8: "emits st (?jmp @ [0xFF, 0xFF, OP_POP]) (vs @ ws) s8"
    using emits_trans [OF s7(2) plain_emits_emits [OF s8(2)]] by (simp add: numeral_eq_Suc)
  have u8: "upcoming s8 ((y # ys) @ t # rest)"
    by (rule upcoming_emits [OF s7(4) plain_emits_emits [OF s8(2)]]) (use s8(2) in \<open>simp_all add: plain_emits_def\<close>)
  have rb: "ready env (k + length (vs @ ws)) b s8"
    by (rule ready_next [OF rd e8]) (use p8 t0 room cb fit in \<open>simp_all add: pushes_def add.assoc\<close>)
  obtain s9 where s9: "compile_call n (Precedence PREC_TERNARY) s8 = Some s9" "emits s8 ds xs s9" "pushes s8 bt s9"
      "upcoming s9 (t # rest)"
    by (rule right_operand [OF okb us(3) u8 s _ _ rb, of n ds xs bt])
      (use n q s dd cb in \<open>auto simp: stops_def add.assoc\<close>)
  have e9: "emits st (?jmp @ [0xFF, 0xFF] @ OP_POP # ds) ((vs @ ws) @ xs) s9" using emits_trans [OF e8 s9(2)] by simp
  obtain s10 where s10: "patch_jump (length (cur_code s5) + 1) s9 = Some s10"
      "emits st (?jmp @ jump_bytes (length (OP_POP # ds)) @ OP_POP # ds) ((vs @ ws) @ xs) s10"
      "types_kept s9 s10" "upcoming s10 (t # rest)"
    by (rule patch_after [OF e9 j2 fit(5) s9(4)])
  have p10: "pushes s8 bt s10" using s9(3) s10(3) by (simp add: pushes_def types_kept_def)
  let ?s = "s10\<lparr>type_top := type_top s8\<rparr>"
  have t8: "0 \<le> type_top s8" "type_top s8 = type_top st + 1" using p8 t0 by (simp_all add: pushes_def)
  have pop: "type_pop s10 = Some (bt, ?s)" by (rule type_pop_pushes [OF p10 t8(1)])
  have ps: "pushes st at ?s" using p8 p10 t0 t8 by (auto simp: pushes_def)
  obtain s11 where s11: "do { st \<leftarrow> type_drop ?s; seq (map emit_byte [] @
        [type_push (if at = bt then at else TYPEHINT_ANY), set_ends_with_call False]) st } = Some s11"
      "emits st ((?jmp @ jump_bytes (length (OP_POP # ds)) @ OP_POP # ds) @ []) ((vs @ ws) @ xs) s11"
      "pushes st (if at = bt then at else TYPEHINT_ANY) s11" "upcoming s11 (t # rest)"
    by (rule finish_operand [OF emits_same [OF s10(2) popped_same] ps t0])
      (use s10(4) upcoming_cong [of ?s s10] in simp)
  have "infix_rule (compile_call n) TOKEN_QUESTION can st1 = Some s11"
    using s1(1) s2(1) s3(1) s4(1,4) cty s5(1) s6(1) s7(1) s8(1) s9(1) s10(1) pop s11(1)
      type_pop_pushes [OF ps t0(1)]
    by (simp add: infix_rule_def ternary_def consume_this check_upcoming type_drop_def)
  then show "\<exists>st2. infix_rule (compile_call n) TOKEN_QUESTION can st1 = Some st2 \<and>
      compiled env k (Cond c a b) st (t # rest) st2"
    using compiledI [OF code _ s11(3,4)] s11(2) by auto
qed

section \<open>All expressions\<close>

lemma parses_mono:
  assumes "parses shapes d q env e" "d \<le> d'"
  shows "parses shapes d' q env e"
  unfolding parses_def
proof (intro allI impI)
  fix p ts t rest st k n
  assume a: "p \<le> q" "map shape ts = shapes" "upcoming st (ts @ t # rest)" "stops q t" "d' \<le> n" "ready env k e st"
  obtain st' where "parse_precedence (compile_call n) p st = after_operand (compile_call n) p st'"
      "compiled env k e st (t # rest) st'"
    by (rule parsesD [OF assms(1) a(1-4) order.trans [OF assms(2) a(5)] a(6)])
  then show "\<exists>st'. parse_precedence (compile_call n) p st = after_operand (compile_call n) p st' \<and>
      compiled env k e st (t # rest) st'" by blast
qed

lemma parens_not_empty: "parens q lev (raw e) \<noteq> []"
  by (simp add: parens_def raw_not_empty)

lemma code_first:
  "length (fst (expr_code env k l)) \<le> length (fst (expr_code env k (Binary op l r)))"
  "length (fst (snd (expr_code env k l))) \<le> length (fst (snd (expr_code env k (Binary op l r))))"
  "length (fst (expr_code env k l)) \<le> length (fst (expr_code env k (And l r)))"
  "length (fst (snd (expr_code env k l))) \<le> length (fst (snd (expr_code env k (And l r))))"
  "length (fst (expr_code env k l)) \<le> length (fst (expr_code env k (Or l r)))"
  "length (fst (snd (expr_code env k l))) \<le> length (fst (snd (expr_code env k (Or l r))))"
  "length (fst (expr_code env k l)) \<le> length (fst (expr_code env k (Cond l r c)))"
  "length (fst (snd (expr_code env k l))) \<le> length (fst (snd (expr_code env k (Cond l r c))))"
  by (simp_all add: Let_def split: prod.splits)

lemma parses_raw:
  assumes "wf_expr env e" "q \<le> level e"
  shows "parses (raw e) (expr_depth e) q env e"
  using assms
proof (induction e arbitrary: q)
  case (Number s)
  show ?case using parses_number by simp
next
  case (Keyword k)
  then show ?case using parses_keyword by simp
next
  case (Local x)
  then show ?case using parses_local by simp
next
  case (Unary op e)
  have "parses (parens PREC_UNARY (level e) (raw e)) (expr_depth e + 1) PREC_UNARY env e"
    by (rule parses_print) (use Unary in simp_all)
  then have "parses ((op, []) # parens PREC_UNARY (level e) (raw e)) (expr_depth e + 1 + 1) q env (Unary op e)"
    by (rule parses_unary) (use Unary(2,3) parens_not_empty in simp_all)
  then show ?case by simp
next
  case (Binary op l r)
  let ?p = "rule_precedence op" and ?d = "max (expr_depth l) (expr_depth r) + 1"
  have op: "is_binary_token op" using Binary(3) by simp
  have l: "parses (parens ?p (level l) (raw l)) ?d ?p env l"
    by (rule parses_mono [OF parses_print [where depth = "expr_depth l"]]) (use Binary in \<open>simp_all add: le_max_iff_disj\<close>)
  have r: "parses (parens (?p + 1) (level r) (raw r)) ?d (?p + 1) env r"
    by (rule parses_mono [OF parses_print [where depth = "expr_depth r"]]) (use Binary in \<open>simp_all add: le_max_iff_disj\<close>)
  have "parses (parens ?p (level l) (raw l) @ (op, []) # parens (?p + 1) (level r) (raw r)) (?d + 1) q env (Binary op l r)"
  proof (rule parses_infix [OF l _ _ _ parens_not_empty])
    show "stops ?p t" if "ktype t = op" for t
      using that binary_token_precedence [OF op] binary_token_cases [OF op]
      by (auto simp: stops_def assign_tokens_def)
    show "infix_ok (?d + 1) q env l (Binary op l r) op (parens (?p + 1) (level r) (raw r))"
      by (rule binary_infix_ok [OF r op]) (use Binary(4) in simp)
    show "ready env k l st" if "ready env k (Binary op l r) st" for k st
      by (rule ready_first [OF that _ code_first(1,2)]) simp
  qed (use Binary(4) in simp_all)
  then show ?case by simp
next
  case (And l r)
  let ?d = "max (expr_depth l) (expr_depth r) + 1"
  have l: "parses (parens 5 (level l) (raw l)) ?d 5 env l"
    by (rule parses_mono [OF parses_print [where depth = "expr_depth l"]]) (use And in \<open>simp_all add: le_max_iff_disj\<close>)
  have r: "parses (parens 4 (level r) (raw r)) ?d 4 env r"
    by (rule parses_mono [OF parses_print [where depth = "expr_depth r"]]) (use And in \<open>simp_all add: le_max_iff_disj\<close>)
  have "parses (parens 5 (level l) (raw l) @ (KW ''AND'', []) # parens 4 (level r) (raw r)) (?d + 1) q env (And l r)"
  proof (rule parses_infix [OF l _ _ _ parens_not_empty])
    show "infix_ok (?d + 1) q env l (And l r) (KW ''AND'') (parens 4 (level r) (raw r))"
      by (rule and_infix_ok [OF r]) (use And(4) in simp)
    show "ready env k l st" if "ready env k (And l r) st" for k st
      by (rule ready_first [OF that _ code_first(3,4)]) simp
  qed (use And(4) in \<open>simp_all add: stops_def assign_tokens_def rule_precedence_def\<close>)
  then show ?case by simp
next
  case (Or l r)
  let ?d = "max (expr_depth l) (expr_depth r) + 1"
  have l: "parses (parens 4 (level l) (raw l)) ?d 4 env l"
    by (rule parses_mono [OF parses_print [where depth = "expr_depth l"]]) (use Or in \<open>simp_all add: le_max_iff_disj\<close>)
  have r: "parses (parens 3 (level r) (raw r)) ?d 3 env r"
    by (rule parses_mono [OF parses_print [where depth = "expr_depth r"]]) (use Or in \<open>simp_all add: le_max_iff_disj\<close>)
  have "parses (parens 4 (level l) (raw l) @ (KW ''OR'', []) # parens 3 (level r) (raw r)) (?d + 1) q env (Or l r)"
  proof (rule parses_infix [OF l _ _ _ parens_not_empty])
    show "infix_ok (?d + 1) q env l (Or l r) (KW ''OR'') (parens 3 (level r) (raw r))"
      by (rule or_infix_ok [OF r]) (use Or(4) in simp)
    show "ready env k l st" if "ready env k (Or l r) st" for k st
      by (rule ready_first [OF that _ code_first(5,6)]) simp
  qed (use Or(4) in \<open>simp_all add: stops_def assign_tokens_def rule_precedence_def\<close>)
  then show ?case by simp
next
  case (Cond c a b)
  let ?d = "max (expr_depth c) (max (expr_depth a) (expr_depth b)) + 1"
  have c: "parses (parens 3 (level c) (raw c)) ?d 3 env c"
    by (rule parses_mono [OF parses_print [where depth = "expr_depth c"]]) (use Cond in \<open>simp_all add: le_max_iff_disj\<close>)
  have a: "parses (parens 3 (level a) (raw a)) ?d 3 env a"
    by (rule parses_mono [OF parses_print [where depth = "expr_depth a"]]) (use Cond in \<open>simp_all add: le_max_iff_disj\<close>)
  have b: "parses (parens 2 (level b) (raw b)) ?d 2 env b"
    by (rule parses_mono [OF parses_print [where depth = "expr_depth b"]]) (use Cond in \<open>simp_all add: le_max_iff_disj\<close>)
  have "parses (parens 3 (level c) (raw c) @ (TOKEN_QUESTION, []) # parens 3 (level a) (raw a) @
      (TOKEN_COLON, []) # parens 2 (level b) (raw b)) (?d + 1) q env (Cond c a b)"
  proof (rule parses_infix [OF c])
    show "infix_ok (?d + 1) q env c (Cond c a b) TOKEN_QUESTION
        (parens 3 (level a) (raw a) @ (TOKEN_COLON, []) # parens 2 (level b) (raw b))"
      by (rule cond_infix_ok [OF a b parens_not_empty]) (use Cond(5) in simp_all)
    show "ready env k c st" if "ready env k (Cond c a b) st" for k st
      by (rule ready_first [OF that _ code_first(7,8)]) simp
  qed (use Cond(5) in \<open>simp_all add: stops_def assign_tokens_def rule_precedence_def\<close>)
  then show ?case by simp
qed

lemma expression_code:
  assumes "map shape ts = print_expr PREC_ASSIGNMENT e" "upcoming st (ts @ t # rest)" "stops PREC_ASSIGNMENT t"
    and "wf_expr (var_env st) e" "ready (var_env st) (length (cur_consts st)) e st" "expr_depth e + 1 < n"
    and "expr_code (var_env st) (length (cur_consts st)) e = (bs, vs, ty)"
  shows "\<exists>st'. expression (compile_call n) st = Some st' \<and> emits st bs vs st' \<and> pushes st ty st' \<and>
    upcoming st' (t # rest)"
proof -
  let ?st = "st\<lparr>ends_with_call := False, was_range := False\<rparr>" and ?env = "var_env st"
  let ?k = "length (cur_consts st)"
  have p: "parses (print_expr PREC_ASSIGNMENT e) (expr_depth e + 1) PREC_ASSIGNMENT ?env e"
    unfolding print_expr_def by (rule parses_print [OF parses_raw [OF assms(4)] assms(4)])
  have u: "upcoming ?st (ts @ t # rest)" using assms(2) upcoming_cong [of ?st st] by simp
  have r: "ready ?env ?k e ?st" using assms(5) ready_same [OF same_flags] by simp
  obtain st' where 1: "compile_call n (Precedence PREC_ASSIGNMENT) ?st = Some st'" "compiled ?env ?k e ?st (t # rest) st'"
    by (rule call_operand [OF p assms(1) u assms(3) _ assms(6) r]) (use assms(3) in \<open>simp add: stops_def\<close>)
  have "compiled ?env ?k e st (t # rest) st'" by (rule compiled_same [OF same_flags 1(2)])
  with 1(1) assms(7) show ?thesis by (auto simp: expression_def compiled_def)
qed


text \<open>The expression \<open>(x + 1) * 2 and nil ? 3 : x\<close>, with a local \<open>x\<close>.\<close>

definition sample_source :: bytes where
  "sample_source = bytes_of ''(x + 1) * 2 and nil ? 3 : x''"

definition sample_state :: cst where
  "sample_state =
     the (seq [init_compiler True, new_hidden ''x'', advance] (start_state sample_source False empty_heap))"

fun scan_list :: "nat \<Rightarrow> bytes \<Rightarrow> lexer \<Rightarrow> ctoken list" where
  "scan_list 0 s lx = []"
| "scan_list (Suc n) s lx =
     (case scan_token s lx of None \<Rightarrow> [] | Some (t, lx) \<Rightarrow> ctoken_of s t # scan_list n s lx)"

definition sample_tokens :: "ctoken list" where
  "sample_tokens = pcur sample_state # scan_list 12 sample_source (lex sample_state)"

definition sample_expr :: expr where
  "sample_expr =
     Cond (And (Binary TOKEN_STAR (Binary TOKEN_PLUS (Local (bytes_of ''x'')) (Number (bytes_of ''1'')))
                 (Number (bytes_of ''2'')))
             (Keyword ''NIL''))
       (Number (bytes_of ''3'')) (Local (bytes_of ''x''))"

definition sample_end :: ctoken where
  "sample_end = last (scan_list 13 sample_source (lex sample_state))"

lemma sample_ready:
  "ready (var_env sample_state) (length (cur_consts sample_state)) sample_expr sample_state"
proof -
  let ?c = "expr_code (var_env sample_state) (length (cur_consts sample_state)) sample_expr"
  obtain bs vs ty where c: "?c = (bs, vs, ty)" by (rule prod_cases3)
  have "length (fst ?c) = 25" "length (cur_consts sample_state) + length (fst (snd ?c)) = 3" by code_simp+
  with c have "length bs \<le> 65535" "length (cur_consts sample_state) + length vs \<le> 256" by simp_all
  moreover have "compilers sample_state \<noteq> []" "\<not> in_table_entry sample_state"
    "0 \<le> type_top sample_state" "type_top sample_state + type_room sample_expr \<le> 512"
    by code_simp+
  ultimately show ?thesis unfolding ready_def c by simp
qed


end
