(* ===== verification/Arith_Facts.thy ===== *)
theory Arith_Facts
  imports Demo
begin

text \<open>
  Properties of the operators: what they do with numbers, how their fused forms agree with the
  plain ones, and what happens when neither operand has a metamethod.
\<close>

section \<open>Looking for a metamethod\<close>

text \<open>A heap in which every object is kept, threads up to their contents.\<close>

definition keeps :: "heap \<Rightarrow> heap \<Rightarrow> bool" where
  "keeps h h' \<longleftrightarrow> (\<forall>x b. obj_at h x = Some b \<longrightarrow>
     (\<exists>b'. obj_at h' x = Some b' \<and> (b' = b \<or> (\<exists>t u. b = OThread t \<and> b' = OThread u))))"

lemma keeps_refl [simp]: "keeps h h"
  by (auto simp: keeps_def)

lemma keeps_trans: "keeps h h' \<Longrightarrow> keeps h' h'' \<Longrightarrow> keeps h h''"
  unfolding keeps_def by (metis obj.inject(7))

lemma keeps_put_cur: "cur vm = Some t \<Longrightarrow> keeps (vheap vm) (vheap (put_cur u vm))"
  using obj_at_put_cur [of vm t u] by (auto simp: keeps_def cur_Some_iff)

lemma keeps_copy_string: "fresh h \<Longrightarrow> copy_string h cs = (a, h') \<Longrightarrow> keeps h h'"
  using copy_string_obj [of h cs a h'] fresh_None [of h] by (auto simp: keeps_def)

lemma keeps_metatable:
  assumes "keeps h h'" "metatable_of h v = Some m"
  shows "metatable_of h' v = Some m"
proof (cases v)
  case (VObj a)
  obtain b where b: "obj_at h a = Some b" using assms(2) VObj by (auto simp: metatable_of_def type_of_def split: option.splits)
  then obtain b' where "obj_at h' a = Some b'" "b' = b \<or> (\<exists>t u. b = OThread t \<and> b' = OThread u)"
    using assms(1) unfolding keeps_def by blast
  then show ?thesis using assms(2) VObj b
    by (cases b) (auto simp: metatable_of_def type_of_def obj_type_def as_obj_def table_at_def userdata_at_def)
qed (use assms(2) in \<open>simp_all add: metatable_of_def type_of_def\<close>)

text \<open>The live part of the current thread: everything but the slots above the top of its stack.\<close>

definition same_live :: "thread \<Rightarrow> thread \<Rightarrow> bool" where
  "same_live t t' \<longleftrightarrow> (\<exists>s. t' = t\<lparr>stack := s\<rparr> \<and> (\<forall>i. i < stack_top t \<longrightarrow> s i = stack t i))"

lemma same_live_refl [simp]: "same_live t t"
  unfolding same_live_def by (intro exI [of _ "stack t"]) simp

lemma same_live_trans: "same_live t t' \<Longrightarrow> same_live t' t'' \<Longrightarrow> same_live t t''"
  by (auto simp: same_live_def)

lemma same_live_sel:
  assumes "same_live t t'"
  shows "stack_top t' = stack_top t" "stack_capacity t' = stack_capacity t" "has_exception t' = has_exception t"
    "handlers t' = handlers t" "handler_count t' = handler_count t" "frame_count t' = frame_count t"
    "tframes t' = tframes t" "i < stack_top t \<Longrightarrow> stack t' i = stack t i"
  using assms by (auto simp: same_live_def)

lemma get_metamethod_none:
  assumes "cur vm = Some t" "stack_top t < stack_capacity t" "fresh (vheap vm)"
    and "metatable_of (vheap vm) v = Some None"
  shows "\<exists>vm' t'. get_metamethod v name vm = Some (VNil, vm') \<and> cur vm' = Some t' \<and> same_live t t' \<and>
    fresh (vheap vm') \<and> keeps (vheap vm) (vheap vm')"
proof -
  obtain a h where c: "copy_string (vheap vm) (bytes_of name) = (a, h)" by fastforce
  let ?vm1 = "vm\<lparr>vheap := h\<rparr>"
  have k: "keeps (vheap vm) h" by (rule keeps_copy_string [OF assms(3) c])
  have "a = hnext (vheap vm)" using copy_string_obj [OF c] by simp
  obtain th where th: "current_thread vm = Some th" "obj_at (vheap vm) th = Some (OThread t)"
    using assms(1) by (auto simp: cur_Some_iff)
  then have "th \<noteq> a" using copy_string_obj [OF c] fresh_None [OF assms(3)] by auto
  then have c1: "cur ?vm1 = Some t" using th copy_string_obj [OF c] by (auto simp: cur_Some_iff)
  let ?t2 = "t\<lparr>stack := (stack t)(stack_top t \<mapsto> VObj a), stack_top := stack_top t + 1\<rparr>"
  let ?t3 = "?t2\<lparr>stack_top := stack_top t\<rparr>"
  have p: "push (VObj a) ?vm1 = Some (put_cur ?t2 ?vm1)" by (rule push_eq [OF c1 assms(2)])
  have k2: "keeps h (vheap (put_cur ?t2 ?vm1))" using keeps_put_cur [OF c1, of ?t2] by simp
  have "metatable_of (vheap (put_cur ?t2 ?vm1)) v = Some None"
    by (rule keeps_metatable [OF keeps_trans [OF k k2] assms(4)])
  then have l: "lookup_meta v a (put_cur ?t2 ?vm1) = Some VNil" by (simp add: lookup_meta_def)
  have q: "pop (put_cur ?t2 ?vm1) = Some (VObj a, put_cur ?t3 ?vm1)"
    using pop_eq [OF cur_put_cur [OF c1, of ?t2], of "stack_top t" "VObj a"] by simp
  have "get_metamethod v name vm = Some (VNil, put_cur ?t3 ?vm1)"
    using c p l q by (simp add: get_metamethod_def alloc_def)
  moreover have "fresh h" using fresh_copy_string [OF assms(3), of "bytes_of name"] c by simp
  moreover have "keeps (vheap vm) (vheap (put_cur ?t3 ?vm1))"
    using keeps_trans [OF k] keeps_put_cur [OF c1, of ?t3] by simp
  moreover have "same_live t ?t3"
    unfolding same_live_def by (intro exI [of _ "(stack t)(stack_top t \<mapsto> VObj a)"]) simp
  ultimately show ?thesis
    using cur_put_cur [OF c1, of ?t3] by (intro exI [of _ "put_cur ?t3 ?vm1"] exI [of _ ?t3]) simp
qed


lemma get_metamethod2_none:
  assumes "cur vm = Some t" "stack_top t < stack_capacity t" "fresh (vheap vm)"
    and "metatable_of (vheap vm) a = Some None" "metatable_of (vheap vm) b = Some None"
  shows "\<exists>vm' t'. get_metamethod2 a b name vm = Some (VNil, vm') \<and> cur vm' = Some t' \<and> same_live t t' \<and>
    fresh (vheap vm') \<and> keeps (vheap vm) (vheap vm')"
proof -
  obtain vm1 t1 where 1: "get_metamethod a name vm = Some (VNil, vm1)" "cur vm1 = Some t1" "same_live t t1"
    "fresh (vheap vm1)" "keeps (vheap vm) (vheap vm1)"
    using get_metamethod_none [OF assms(1-4)] by blast
  have "stack_top t1 < stack_capacity t1" using same_live_sel [OF 1(3)] assms(2) by simp
  then obtain vm2 t2 where "get_metamethod b name vm1 = Some (VNil, vm2)" "cur vm2 = Some t2" "same_live t1 t2"
    "fresh (vheap vm2)" "keeps (vheap vm1) (vheap vm2)"
    using get_metamethod_none [OF 1(2) _ 1(4) keeps_metatable [OF 1(5) assms(5)]] by blast
  with 1 same_live_trans keeps_trans show ?thesis by (auto simp: get_metamethod2_def is_nil_def)
qed

section \<open>Operands without a metamethod\<close>

text \<open>The operands of a binary operator: the top two values.\<close>

lemma binary_pops:
  assumes "cur vm = Some t" "stack_top t = Suc (Suc n)" "stack t n = Some a" "stack t (Suc n) = Some b"
  shows "binary name f vm = arith name f a b (put_cur (t\<lparr>stack_top := n\<rparr>) vm)"
proof -
  let ?t1 = "t\<lparr>stack_top := Suc n\<rparr>"
  have "pop vm = Some (b, put_cur ?t1 vm)" using pop_eq [OF assms(1,2,4)] .
  moreover have "pop (put_cur ?t1 vm) = Some (a, put_cur (t\<lparr>stack_top := n\<rparr>) vm)"
    using pop_eq [OF cur_put_cur [OF assms(1), of ?t1], of n a] assms(3) by simp
  ultimately show ?thesis by (simp add: binary_def)
qed

lemma arith_no_meta:
  assumes "cur vm = Some t" "stack_top t < stack_capacity t" "fresh (vheap vm)"
    and "metatable_of (vheap vm) a = Some None" "metatable_of (vheap vm) b = Some None"
    and "\<not> ((\<exists>x. a = VNumber x) \<and> (\<exists>y. b = VNumber y))"
  shows "\<exists>vm' t'. arith name f a b vm = Some (False, vm') \<and> cur vm' = Some t' \<and> same_live t t'"
proof -
  obtain vm1 t1 where "get_metamethod2 a b name vm = Some (VNil, vm1)" "cur vm1 = Some t1" "same_live t t1"
    using get_metamethod2_none [OF assms(1-5)] by blast
  moreover have "arith name f a b vm = meta_or_zero name a b vm"
    using assms(6) by (auto simp: arith_def split: val.splits)
  ultimately show ?thesis by (simp add: meta_or_zero_def is_nil_def)
qed

text \<open>
  C33. Subtracting operands that are not both numbers and have no metatable stops the program: the
  instruction fails without raising an exception, so the run ends with a runtime error, no handler is
  entered however many are installed, and nothing is reported. The same holds for the other operators
  that share its code.
\<close>

theorem missing_operator_uncatchable:
  assumes t: "cur vm = Some t" "stack_top t = Suc (Suc n)" "stack t n = Some a" "stack t (Suc n) = Some b"
    and room: "n < stack_capacity t" and fr: "fresh (vheap vm)" and ex: "\<not> has_exception t"
    and ops: "metatable_of (vheap vm) a = Some None" "metatable_of (vheap vm) b = Some None"
      "\<not> ((\<exists>x. a = VNumber x) \<and> (\<exists>y. b = VNumber y))"
    and op: "handler \<in> {vm_handle_op_subtract, vm_handle_op_multiply, vm_handle_op_divide, vm_handle_op_modulo,
      vm_handle_op_power env, vm_handle_op_int_div}"
  shows "\<exists>vm' t'. handler vm = Some (False, vm') \<and> cur vm' = Some t' \<and>
     handlers t' = handlers t \<and> handler_count t' = handler_count t \<and> \<not> has_exception t' \<and>
     after_step k (Raise vm') = Some (INTERPRET_RUNTIME_ERROR, vm')"
proof -
  let ?t = "t\<lparr>stack_top := n\<rparr>" and ?vm = "put_cur (t\<lparr>stack_top := n\<rparr>) vm"
  have k: "keeps (vheap vm) (vheap ?vm)" by (rule keeps_put_cur [OF t(1)])
  obtain name f where h: "handler = binary name f"
    using op by (auto simp: vm_handle_op_subtract_def vm_handle_op_multiply_def vm_handle_op_divide_def
        vm_handle_op_modulo_def vm_handle_op_power_def vm_handle_op_int_div_def)
  obtain vm' t' where r: "arith name f a b ?vm = Some (False, vm')" "cur vm' = Some t'" "same_live ?t t'"
    using arith_no_meta [OF cur_put_cur [OF t(1), of ?t] _ _ keeps_metatable [OF k ops(1)]
        keeps_metatable [OF k ops(2)] ops(3), of name f] room fr by auto
  moreover have "\<not> has_exception t'" using same_live_sel(3) [OF r(3)] ex by simp
  ultimately show ?thesis
    using binary_pops [OF t] h same_live_sel [OF r(3)]
    by (auto simp: after_step_def handle_exception_def)
qed

theorem missing_operator_uncatchable_witness:
  "\<exists>vm' t'. vm_handle_op_subtract (demo_vm (demo_fn [] []) [VNil, VBool True]) = Some (False, vm') \<and> cur vm' = Some t' \<and>
     after_step (\<lambda>_. None) (Raise vm') = Some (INTERPRET_RUNTIME_ERROR, vm')"
  using missing_operator_uncatchable [of "demo_vm (demo_fn [] []) [VNil, VBool True]" "demo_thread [VNil, VBool True]" 0
      VNil "VBool True" vm_handle_op_subtract demo_env "\<lambda>_. None"]
  by (auto simp: fresh_demo metatable_of_def type_of_def)

end
