(* ===== verification/Run_Facts.thy ===== *)
theory Run_Facts
  imports Arith_Facts
begin

text \<open>
  Running a few instructions of one function: the machine as a current thread and an instruction
  pointer over a fixed background, and what single instructions do with them. With it the fused
  instructions of the optimizer are compared with the sequences they stand for, and counted loops
  are followed to their end.
\<close>

section \<open>A thread and an instruction pointer\<close>

text \<open>The machine \<open>vm\<close> with \<open>u\<close> as its current thread and \<open>p\<close> as its instruction pointer.\<close>

definition on :: "vm \<Rightarrow> thread \<Rightarrow> nat \<Rightarrow> vm" where
  "on vm u p = (put_cur u vm)\<lparr>ip := p\<rparr>"

text \<open>
  The background: \<open>f\<close> is the running frame of the current thread, whose frames are those of \<open>u\<close>, its
  function has the chunk \<open>c\<close>, no interrupt or stop thread is set, and the collector is off.
\<close>

definition runs :: "vm \<Rightarrow> frame \<Rightarrow> chunk \<Rightarrow> thread \<Rightarrow> bool" where
  "runs vm f c u \<longleftrightarrow> (\<exists>t. cur vm = Some t \<and> tframes u = tframes t) \<and>
     current_thread vm = Some (fst (cframe vm)) \<and> tframes u (snd (cframe vm)) = Some f \<and>
     (\<exists>fa g. running_fn vm = Some (fa, g) \<and> fchunk g = c) \<and>
     run_stop_thread vm = None \<and> \<not> interrupt_requested vm \<and> disable_gc vm"

lemma runs_same: "runs vm f c u \<Longrightarrow> tframes w = tframes u \<Longrightarrow> runs vm f c w"
  by (simp add: runs_def)

lemma runs_stack [simp]:
  "runs vm f c (u\<lparr>stack := s\<rparr>) = runs vm f c u" "runs vm f c (u\<lparr>stack_top := n\<rparr>) = runs vm f c u"
  by (simp_all add: runs_def)

lemma cur_on: "runs vm f c u \<Longrightarrow> cur (on vm u p) = Some u"
  by (auto simp: on_def runs_def)

lemma running_on:
  assumes "runs vm f c u"
  shows "\<exists>fa g. running_fn (on vm u p) = Some (fa, g) \<and> fchunk g = c"
proof -
  obtain t where "cur vm = Some t" "tframes u = tframes t" using assms by (auto simp: runs_def)
  then show ?thesis using assms by (auto simp: on_def runs_def running_fn_put_cur)
qed

lemma on_sel:
  assumes "runs vm f c u"
  shows "ip (on vm u p) = p" "(on vm u p)\<lparr>ip := q\<rparr> = on vm u q" "cframe (on vm u p) = cframe vm"
    "run_stop_thread (on vm u p) = None" "\<not> interrupt_requested (on vm u p)" "disable_gc (on vm u p)"
    "put_cur w (on vm u p) = on vm w p"
proof -
  obtain t where "cur vm = Some t" using assms by (auto simp: runs_def)
  then show "ip (on vm u p) = p" "(on vm u p)\<lparr>ip := q\<rparr> = on vm u q" "cframe (on vm u p) = cframe vm"
    "run_stop_thread (on vm u p) = None" "\<not> interrupt_requested (on vm u p)" "disable_gc (on vm u p)"
    using assms by (simp_all add: on_def runs_def)
  show "put_cur w (on vm u p) = on vm w p"
    by (simp add: on_def put_cur_def put_thread_def split: option.split)
qed

lemma on_same: "cur vm = Some t \<Longrightarrow> on vm t (ip vm) = vm"
  by (simp add: on_def put_cur_same)

lemma read_byte_on:
  assumes "runs vm f c u"
  shows "read_byte (on vm u p) = (case at (code c) p of None \<Rightarrow> None | Some b \<Rightarrow> Some (b, on vm u (p + 1)))"
  using running_on [OF assms, of p] by (cases "at (code c) p") (auto simp: read_byte_def on_sel [OF assms] simp del: at_Some_iff at_None_iff)

lemma read_short_on:
  assumes "runs vm f c u"
  shows "read_short (on vm u p) =
    (case short_at (code c) p of None \<Rightarrow> None | Some w \<Rightarrow> Some (unat w, on vm u (p + 2)))"
  using running_on [OF assms, of p] by (cases "short_at (code c) p") (auto simp: read_short_def on_sel [OF assms])

lemma chunk_constant_on: "runs vm f c u \<Longrightarrow> chunk_constant i (on vm u p) = const_at c (unat i)"
  using running_on [of vm f c u p] by (auto simp: chunk_constant_def)

lemma thread_on:
  assumes "runs vm f c u"
  shows "thread_at (vheap (on vm u p)) (fst (cframe vm)) = Some u"
  using assms cur_on [OF assms, of p] by (auto simp: cur_def on_def runs_def)

lemma frame_get_on: "runs vm f c u \<Longrightarrow> frame_get (cframe vm) (on vm u p) = Some f"
  using thread_on [of vm f c u p] by (simp add: frame_get_def runs_def)

lemma put_thread_on: "runs vm f c u \<Longrightarrow> put_thread (fst (cframe vm)) w (on vm u p) = on vm w p"
  by (auto simp add: on_def runs_def put_cur_def put_thread_def)

lemma slot_get_on:
  assumes "runs vm f c u" "fslots f + unat i < stack_capacity u"
  shows "slot_get i (on vm u p) = stack u (fslots f + unat i)"
  using frame_get_on [OF assms(1), of p] thread_on [OF assms(1), of p] assms(2)
  by (simp add: slot_get_def stack_get_def on_sel [OF assms(1)])

lemma slot_set_on:
  assumes "runs vm f c u" "fslots f + unat i < stack_capacity u"
  shows "slot_set i v (on vm u p) = Some (on vm (u\<lparr>stack := (stack u)(fslots f + unat i \<mapsto> v)\<rparr>) p)"
  using frame_get_on [OF assms(1), of p] thread_on [OF assms(1), of p] assms(2)
  by (simp add: slot_set_def stack_set_def on_sel [OF assms(1)] put_thread_on [OF assms(1)])

lemma push_on:
  assumes "runs vm f c u" "stack_top u < stack_capacity u"
  shows "push v (on vm u p) =
    Some (on vm (u\<lparr>stack := (stack u)(stack_top u \<mapsto> v), stack_top := stack_top u + 1\<rparr>) p)"
  using push_eq [OF cur_on [OF assms(1)] assms(2)] by (simp add: on_sel [OF assms(1)])

lemma pop_on:
  assumes "runs vm f c u" "stack_top u = Suc n" "stack u n = Some v"
  shows "pop (on vm u p) = Some (v, on vm (u\<lparr>stack_top := n\<rparr>) p)"
  using pop_eq [OF cur_on [OF assms(1)] assms(2,3)] by (simp add: on_sel [OF assms(1)])

lemma peek_on: "runs vm f c u \<Longrightarrow> d < stack_top u \<Longrightarrow> peek d (on vm u p) = stack u (stack_top u - 1 - d)"
  using peek_eq [OF cur_on] by simp

lemma maybe_gc_on: "runs vm f c u \<Longrightarrow> maybe_collect_garbage env (on vm u p) = Some (on vm u p)"
  by (simp add: maybe_collect_garbage_def on_sel)

section \<open>Instructions\<close>

text \<open>The first \<open>n\<close> instructions from a state, none of which leaves the loop.\<close>

fun exec :: "env \<Rightarrow> vm_loop \<Rightarrow> nat \<Rightarrow> nat \<Rightarrow> vm \<Rightarrow> vm option" where
  "exec env loop m 0 vm = Some vm"
| "exec env loop m (Suc n) vm =
     (case next_step env loop m vm of Some (Go vm') \<Rightarrow> exec env loop m n vm' | _ \<Rightarrow> None)"

lemma exec_add:
  "exec env loop m n vm = Some vm' \<Longrightarrow> exec env loop m (n + k) vm = exec env loop m k vm'"
  by (induction n arbitrary: vm) (auto split: option.splits outcome.splits)

lemma next_step_on:
  assumes "runs vm f c u" "at (code c) p = Some b"
  shows "next_step env loop m (on vm u p) = step env loop m b (on vm u (p + 1))"
  using assms by (simp add: next_step_def on_sel read_byte_on del: at_Some_iff)

lemma step_get_local:
  assumes "runs vm f c u" "at (code c) p = Some OP_GET_LOCAL" "at (code c) (p + 1) = Some s"
    and "fslots f + unat s < stack_capacity u" "stack u (fslots f + unat s) = Some v" "stack_top u < stack_capacity u"
  shows "next_step env loop m (on vm u p) =
    Some (Go (on vm (u\<lparr>stack := (stack u)(stack_top u \<mapsto> v), stack_top := stack_top u + 1\<rparr>) (p + 2)))"
  using assms
  by (simp add: next_step_on step_def vm_handle_op_get_local_def read_byte_on
      slot_get_on push_on go_on_def del: at_Some_iff)

lemma step_add_numbers:
  assumes "runs vm f c u" "at (code c) p = Some OP_ADD" "stack_top u = Suc (Suc n)" "n < stack_capacity u"
    and "stack u n = Some (VNumber x)" "stack u (Suc n) = Some (VNumber y)"
  shows "next_step env loop m (on vm u p) =
    Some (Go (on vm (u\<lparr>stack := (stack u)(n \<mapsto> VNumber (dadd x y)), stack_top := Suc n\<rparr>) (p + 1)))"
proof -
  have "pop (on vm u (p + 1)) = Some (VNumber y, on vm (u\<lparr>stack_top := Suc n\<rparr>) (p + 1))"
    using pop_on [OF assms(1,3,6)] .
  moreover have "pop (on vm (u\<lparr>stack_top := Suc n\<rparr>) (p + 1)) = Some (VNumber x, on vm (u\<lparr>stack_top := n\<rparr>) (p + 1))"
    using pop_on [of vm f c "u\<lparr>stack_top := Suc n\<rparr>" n] assms by simp
  moreover have "push (VNumber (dadd x y)) (on vm (u\<lparr>stack_top := n\<rparr>) (p + 1)) =
      Some (on vm (u\<lparr>stack := (stack u)(n \<mapsto> VNumber (dadd x y)), stack_top := Suc n\<rparr>) (p + 1))"
    using push_on [of vm f c "u\<lparr>stack_top := n\<rparr>"] assms by simp
  ultimately show ?thesis
    using assms peek_on [OF assms(1), of 0 "p + 1"] peek_on [OF assms(1), of 1 "p + 1"]
    by (simp add: next_step_on step_def vm_handle_op_add_def type_of_def checked_def del: at_Some_iff)
qed

lemma step_constant:
  assumes "runs vm f c u" "at (code c) p = Some OP_CONSTANT" "at (code c) (p + 1) = Some k"
    and "const_at c (unat k) = Some v" "stack_top u < stack_capacity u"
  shows "next_step env loop m (on vm u p) =
    Some (Go (on vm (u\<lparr>stack := (stack u)(stack_top u \<mapsto> v), stack_top := stack_top u + 1\<rparr>) (p + 2)))"
  using assms
  by (simp add: next_step_on step_def vm_handle_op_constant_def read_constant_def read_byte_on chunk_constant_on
      push_on maybe_gc_on [of vm f c] go_on_def del: at_Some_iff)

lemma step_set_local:
  assumes "runs vm f c u" "at (code c) p = Some OP_SET_LOCAL" "at (code c) (p + 1) = Some s"
    and "fslots f + unat s < stack_capacity u" "stack_top u = Suc n" "stack u n = Some v"
  shows "next_step env loop m (on vm u p) =
    Some (Go (on vm (u\<lparr>stack := (stack u)(fslots f + unat s \<mapsto> v)\<rparr>) (p + 2)))"
  using assms peek_on [OF assms(1), of 0]
  by (simp add: next_step_on step_def vm_handle_op_set_local_def read_byte_on
      slot_set_on go_on_def del: at_Some_iff)

lemma step_inc_local:
  assumes "runs vm f c u" "at (code c) p = Some OP_INC_LOCAL" "at (code c) (p + 1) = Some s"
    and "at (code c) (p + 2) = Some k" "const_at c (unat k) = Some (VNumber y)"
    and "fslots f + unat s < stack_capacity u" "stack u (fslots f + unat s) = Some (VNumber x)"
    and "stack_top u < stack_capacity u"
  shows "next_step env loop m (on vm u p) =
    Some (Go (on vm (u\<lparr>stack := (stack u)(fslots f + unat s \<mapsto> VNumber (dadd x y), stack_top u \<mapsto> VNumber (dadd x y)),
      stack_top := stack_top u + 1\<rparr>) (p + 3)))"
  using assms
  by (simp add: next_step_on step_def vm_handle_op_inc_local_def read_byte_on chunk_constant_on
      slot_get_on slot_set_on push_on checked_def numeral_3_eq_3 del: at_Some_iff)

section \<open>A fused instruction and the instructions it stands for\<close>


lemma runs_demo: "runs (demo_vm g vs\<lparr>disable_gc := True\<rparr>) demo_frame (fchunk g) (demo_thread vs)"
proof -
  have "cur (demo_vm g vs\<lparr>disable_gc := True\<rparr>) = Some (demo_thread vs)"
    using cur_demo [of g vs] by (simp add: cur_def)
  moreover have "running_fn (demo_vm g vs\<lparr>disable_gc := True\<rparr>) = Some (2, g)"
    using running_fn_demo [of g vs] by (simp add: running_fn_def frame_get_def)
  ultimately show ?thesis by (simp add: runs_def demo_vm_def demo_thread_def)
qed


section \<open>Counted loops\<close>

text \<open>The slots \<open>v\<close> and \<open>e\<close> of the frame hold the counter \<open>i\<close> and the last value \<open>b\<close>.\<close>

definition counting :: "frame \<Rightarrow> byte \<Rightarrow> byte \<Rightarrow> int \<Rightarrow> int \<Rightarrow> thread \<Rightarrow> bool" where
  "counting f v e i b w \<longleftrightarrow> v \<noteq> e \<and> fslots f + unat v < stack_capacity w \<and> fslots f + unat e < stack_capacity w \<and>
     stack w (fslots f + unat v) = Some (VNumber (dbl_of_int i)) \<and>
     stack w (fslots f + unat e) = Some (VNumber (dbl_of_int b))"

definition next_value :: "frame \<Rightarrow> byte \<Rightarrow> int \<Rightarrow> thread \<Rightarrow> thread" where
  "next_value f v i w = w\<lparr>stack := (stack w)(fslots f + unat v \<mapsto> VNumber (dbl_of_int (i + 1)))\<rparr>"

lemma counting_next: "counting f v e i b w \<Longrightarrow> counting f v e (i + 1) b (next_value f v i w)"
  by (auto simp: counting_def next_value_def word_unat_eq_iff)

lemma runs_next [simp]: "runs vm f c (next_value f v i w) = runs vm f c w"
  by (simp add: next_value_def)

definition loop_at :: "bytes \<Rightarrow> byte \<Rightarrow> nat \<Rightarrow> byte \<Rightarrow> byte \<Rightarrow> 16 word \<Rightarrow> bool" where
  "loop_at cs op p v e n \<longleftrightarrow> at cs p = Some op \<and> at cs (p + 1) = Some v \<and> at cs (p + 2) = Some e \<and> short_at cs (p + 3) = Some n"

lemma step_loops:
  "step env loop m OP_FOR_PREP vm = checked (vm_handle_op_for_prep vm)"
  "step env loop m OP_FOR_LOOP vm = checked (vm_handle_op_for_loop vm)"
  by (simp_all add: step_def)

lemma step_for_prep:
  assumes "runs vm f c w" "loop_at (code c) OP_FOR_PREP p v e n" "counting f v e a b w" "\<bar>a\<bar> < 2 ^ 53" "\<bar>b\<bar> < 2 ^ 53"
  shows "next_step env loop m (on vm w p) = Some (Go (on vm w (p + 5 + (if b < a then unat n else 0))))"
  using assms(1-3) dcmp_int(1) [OF assms(5,4)]
  by (simp add: next_step_on step_loops vm_handle_op_for_prep_def read_byte_on read_short_on loop_at_def slot_get_on
      counting_def jump_forward_def on_sel checked_def eval_nat_numeral del: at_Some_iff)

lemma step_for_loop:
  assumes "runs vm f c w" "loop_at (code c) OP_FOR_LOOP q v e n" "counting f v e i b w"
    and "\<bar>i\<bar> < 2 ^ 53" "\<bar>i + 1\<bar> < 2 ^ 53" "\<bar>b\<bar> < 2 ^ 53" "unat n \<le> q + 5"
  shows "next_step env loop m (on vm w q) =
    Some (Go (on vm (next_value f v i w) (if i + 1 \<le> b then q + 5 - unat n else q + 5)))"
proof -
  have "dadd (dbl_of_int i) (dbl_of_int 1) = dbl_of_int (i + 1)" using dadd_int [of i 1] assms(4) by simp
  moreover have "dle (dbl_of_int (i + 1)) (dbl_of_int b) \<longleftrightarrow> i + 1 \<le> b" by (rule dcmp_int(3) [OF assms(5,6)])
  ultimately show ?thesis using assms(1-3,7)
    by (simp add: next_step_on step_loops vm_handle_op_for_loop_def read_byte_on read_short_on loop_at_def slot_get_on
      slot_set_on counting_def jump_back_def on_sel checked_def next_value_def eval_nat_numeral Let_def
      on_sel [of vm f c "w\<lparr>stack := s\<rparr>" for s] del: at_Some_iff)
qed

text \<open>
  From the head of the body at \<open>p\<close> with the counter at \<open>i\<close>, a body that advances \<open>P\<close> takes the loop to
  its end behind \<open>q\<close>.
\<close>

lemma loop_body_runs:
  assumes jump: "loop_at (code c) OP_FOR_LOOP q v e n" "q + 5 = p + unat n"
    and b: "\<bar>b\<bar> < 2 ^ 53 - 1" and a: "\<bar>a\<bar> < 2 ^ 53"
    and body: "\<And>i w. a \<le> i \<Longrightarrow> i \<le> b \<Longrightarrow> runs vm f c w \<Longrightarrow> counting f v e i b w \<Longrightarrow> P i w \<Longrightarrow>
      \<exists>k w'. exec env loop m k (on vm w p) = Some (on vm w' q) \<and> runs vm f c w' \<and> counting f v e i b w' \<and>
        P (i + 1) (next_value f v i w')"
    and "a \<le> i" "i \<le> b" "runs vm f c w" "counting f v e i b w" "P i w"
  shows "\<exists>k w'. exec env loop m k (on vm w p) = Some (on vm w' (q + 5)) \<and> runs vm f c w' \<and>
    counting f v e (b + 1) b w' \<and> P (b + 1) w'"
  using assms(6-)
proof (induction d \<equiv> "nat (b - i)" arbitrary: i w)
  case 0
  then have i: "i = b" by simp
  obtain k w' where w': "exec env loop m k (on vm w p) = Some (on vm w' q)" "runs vm f c w'"
    "counting f v e i b w'" "P (i + 1) (next_value f v i w')"
    using body 0 by blast
  have "exec env loop m (k + 1) (on vm w p) = Some (on vm (next_value f v i w') (q + 5))"
    using exec_add [OF w'(1), of 1] step_for_loop [OF w'(2) jump(1) w'(3), of env loop m] a b i jump(2) 0 by simp
  then show ?case using w' counting_next [OF w'(3)] i runs_next by blast
next
  case (Suc d)
  obtain k w' where w': "exec env loop m k (on vm w p) = Some (on vm w' q)" "runs vm f c w'"
    "counting f v e i b w'" "P (i + 1) (next_value f v i w')"
    using body Suc by blast
  have "i + 1 \<le> b" and d: "d = nat (b - (i + 1))" using Suc.hyps(2) by simp_all
  then have k: "exec env loop m (k + 1) (on vm w p) = Some (on vm (next_value f v i w') p)"
    using exec_add [OF w'(1), of 1] step_for_loop [OF w'(2) jump(1) w'(3), of env loop m] a b jump(2) Suc by simp
  obtain k' w'' where "exec env loop m k' (on vm (next_value f v i w') p) = Some (on vm w'' (q + 5))"
    "runs vm f c w''" "counting f v e (b + 1) b w''" "P (b + 1) w''"
    using Suc.hyps(1) [OF d, of "next_value f v i w'"] Suc.prems(1) \<open>i + 1 \<le> b\<close> w'
      counting_next [OF w'(3)] by auto
  then show ?case using exec_add [OF k, of k'] by metis
qed


lemma step_pop:
  assumes "runs vm f c u" "at (code c) p = Some OP_POP" "stack_top u = Suc n" "stack u n = Some v"
  shows "next_step env loop m (on vm u p) = Some (Go (on vm (u\<lparr>stack_top := n\<rparr>) (p + 1)))"
  using assms pop_on [OF assms(1,3,4), of "p + 1"]
  by (simp add: next_step_on step_def go_on_def del: at_Some_iff)

definition count_code :: bytes where
  "count_code = [OP_FOR_PREP, 0, 1, 0, 9, OP_INC_LOCAL, 2, 0, OP_POP, OP_FOR_LOOP, 0, 1, 0, 9]"


end
