(* ===== verification/Expr_Run.thy ===== *)
theory Expr_Run
  imports Expr_Facts Run_Facts
begin

text \<open>
  Running compiled expressions: a meaning of expressions on values, the instructions of an expression
  as moves of the machine that extend its stack, and the two together: what the compiler emits for an
  expression leaves the expression's value on the stack. With it goes the soundness of the type
  hints, on which the instructions without a type test rely.
\<close>

section \<open>The meaning of an expression\<close>

definition unary_value :: "heap \<Rightarrow> token_type \<Rightarrow> val \<Rightarrow> val option" where
  "unary_value h op v =
     (if op = KW ''NOT'' then map_option VBool (is_falsey h v)
      else if op = TOKEN_MINUS then map_option (\<lambda>x. VNumber (dneg x)) (as_number v)
      else None)"

text \<open>
  Arithmetic on two numbers. The remainder is defined where the integer and the floating-point
  instruction agree; they differ in the sign of a zero.
\<close>

definition number_value2 ::
  "(double \<Rightarrow> double \<Rightarrow> double) \<Rightarrow> token_type \<Rightarrow> double \<Rightarrow> double \<Rightarrow> val option" where
  "number_value2 pw op x y =
     (if op = TOKEN_PLUS then Some (VNumber (dadd x y))
      else if op = TOKEN_MINUS then Some (VNumber (dsub x y))
      else if op = TOKEN_STAR then Some (VNumber (dmul x y))
      else if op = TOKEN_SLASH then Some (VNumber (ddiv x y))
      else if op = TOKEN_POWER then Some (VNumber (pw x y))
      else if op = TOKEN_INT_DIV then Some (VNumber (dfloor (ddiv x y)))
      else if op = TOKEN_PERCENT then
        (if number_mod x y = Some (dfmod x y) then Some (VNumber (dfmod x y)) else None)
      else if op = TOKEN_LESS then Some (VBool (dlt x y))
      else if op = TOKEN_GREATER then Some (VBool (dlt y x))
      else if op = TOKEN_LESS_EQUAL then Some (VBool (\<not> dlt y x))
      else if op = TOKEN_GREATER_EQUAL then Some (VBool (\<not> dlt x y))
      else None)"

text \<open>Equality of values that need no metamethod: different objects are strings.\<close>

definition equal_value :: "heap \<Rightarrow> val \<Rightarrow> val \<Rightarrow> bool option" where
  "equal_value h a b =
     do {
       same \<leftarrow> values_equal_simple h a b;
       (case (a, b) of
          (VObj x, VObj y) \<Rightarrow>
            if same \<or> type_of h a = Some TString \<and> type_of h b = Some TString then Some same else None
        | _ \<Rightarrow> Some same)
     }"

definition binary_value ::
  "(double \<Rightarrow> double \<Rightarrow> double) \<Rightarrow> heap \<Rightarrow> token_type \<Rightarrow> val \<Rightarrow> val \<Rightarrow> val option" where
  "binary_value pw h op a b =
     (if op = TOKEN_EQUAL_EQUAL then map_option VBool (equal_value h a b)
      else if op = TOKEN_BANG_EQUAL then map_option (\<lambda>e. VBool (\<not> e)) (equal_value h a b)
      else case (a, b) of (VNumber x, VNumber y) \<Rightarrow> number_value2 pw op x y | _ \<Rightarrow> None)"

text \<open>
  The value of an expression whose locals have the values \<open>\<rho>\<close>; \<open>None\<close> where a metamethod would be
  called, an object allocated or an error raised.
\<close>

fun eval ::
  "(double \<Rightarrow> double \<Rightarrow> double) \<Rightarrow> heap \<Rightarrow> (bytes \<Rightarrow> val option) \<Rightarrow> expr \<Rightarrow> val option" where
  "eval pw h \<rho> (Number s) = Some (VNumber (number_value s))"
| "eval pw h \<rho> (Keyword k) =
     Some (if k = ''NIL'' then VNil else if k = ''TRUE'' then VBool True else VBool False)"
| "eval pw h \<rho> (Local x) = \<rho> x"
| "eval pw h \<rho> (Unary op e) = do { v \<leftarrow> eval pw h \<rho> e; unary_value h op v }"
| "eval pw h \<rho> (Binary op l r) =
     do { a \<leftarrow> eval pw h \<rho> l; b \<leftarrow> eval pw h \<rho> r; binary_value pw h op a b }"
| "eval pw h \<rho> (And l r) =
     do { a \<leftarrow> eval pw h \<rho> l; f \<leftarrow> is_falsey h a; (if f then Some a else eval pw h \<rho> r) }"
| "eval pw h \<rho> (Or l r) =
     do { a \<leftarrow> eval pw h \<rho> l; f \<leftarrow> is_falsey h a; (if f then eval pw h \<rho> r else Some a) }"
| "eval pw h \<rho> (Cond c a b) =
     do { v \<leftarrow> eval pw h \<rho> c; f \<leftarrow> is_falsey h v; (if f then eval pw h \<rho> b else eval pw h \<rho> a) }"

text \<open>A value that is as its hint says.\<close>

definition hint_ok :: "byte \<Rightarrow> val \<Rightarrow> bool" where
  "hint_ok ty v \<longleftrightarrow> (is_numeric_type ty \<longrightarrow> (\<exists>x. v = VNumber x)) \<and> (ty = TYPEHINT_BOOL \<longrightarrow> (\<exists>b. v = VBool b))"

section \<open>The stack over a fixed part\<close>

text \<open>\<open>w\<close> is \<open>u\<close> with the values \<open>xs\<close> above the top of its stack.\<close>

definition holding :: "thread \<Rightarrow> val list \<Rightarrow> thread \<Rightarrow> bool" where
  "holding u xs w \<longleftrightarrow>
     (\<exists>s. w = u\<lparr>stack := s, stack_top := stack_top u + length xs\<rparr> \<and> (\<forall>i < stack_top u. s i = stack u i) \<and>
       (\<forall>j<length xs. s (stack_top u + j) = Some (xs ! j)))"

lemma holding_Nil: "holding u [] u"
  unfolding holding_def by (intro exI [of _ "stack u"]) simp

lemma holding_sel:
  assumes "holding u xs w"
  shows "stack_top w = stack_top u + length xs" "stack_capacity w = stack_capacity u" "tframes w = tframes u"
    "i < stack_top u \<Longrightarrow> stack w i = stack u i"
  using assms by (auto simp: holding_def)

lemma holding_runs: "holding u xs w \<Longrightarrow> runs vm f c u \<Longrightarrow> runs vm f c w"
  by (simp add: runs_same holding_sel)

lemma holding_last:
  assumes "holding u (xs @ [a]) w"
  shows "stack w (stack_top u + length xs) = Some a" "holding u xs (w\<lparr>stack_top := stack_top u + length xs\<rparr>)"
proof -
  obtain s where s: "w = u\<lparr>stack := s, stack_top := stack_top u + length (xs @ [a])\<rparr>" "\<forall>i < stack_top u. s i = stack u i"
      "\<forall>j<length (xs @ [a]). s (stack_top u + j) = Some ((xs @ [a]) ! j)"
    using assms unfolding holding_def by blast
  then have "\<forall>j<length xs. s (stack_top u + j) = Some (xs ! j)" by (auto simp: nth_append)
  then show "holding u xs (w\<lparr>stack_top := stack_top u + length xs\<rparr>)"
    unfolding holding_def using s by (intro exI [of _ s]) simp
  show "stack w (stack_top u + length xs) = Some a" using s by simp
qed

lemma holding_push:
  assumes "holding u xs w"
  shows "holding u (xs @ [a]) (w\<lparr>stack := (stack w)(stack_top w \<mapsto> a), stack_top := stack_top w + 1\<rparr>)"
proof -
  obtain s where s: "w = u\<lparr>stack := s, stack_top := stack_top u + length xs\<rparr>" "\<forall>i < stack_top u. s i = stack u i"
      "\<forall>j<length xs. s (stack_top u + j) = Some (xs ! j)"
    using assms unfolding holding_def by blast
  then show ?thesis
    unfolding holding_def
    by (intro exI [of _ "s(stack_top u + length xs \<mapsto> a)"]) (auto simp: nth_append less_Suc_eq)
qed

lemma pop_holding:
  assumes "runs vm f c u" "holding u (xs @ [a]) w"
  obtains w' where "pop (on vm w p) = Some (a, on vm w' p)" "holding u xs w'"
  using pop_on [OF holding_runs [OF assms(2,1)], of "stack_top u + length xs" a p] holding_last [OF assms(2)]
    holding_sel(1) [OF assms(2)] by auto

lemma push_holding:
  assumes "runs vm f c u" "holding u xs w" "stack_top u + length xs < stack_capacity u"
  obtains w' where "push v (on vm w p) = Some (on vm w' p)" "holding u (xs @ [v]) w'"
  using push_on [OF holding_runs [OF assms(2,1)], of v p] holding_push [OF assms(2), of v]
    holding_sel(1,2) [OF assms(2)] assms(3) by auto

lemma peek_holding:
  assumes "runs vm f c u" "holding u (xs @ a # ys) w" "d = length ys"
  shows "peek d (on vm w p) = Some a"
proof -
  obtain s where s: "w = u\<lparr>stack := s, stack_top := stack_top u + length (xs @ a # ys)\<rparr>"
      "\<forall>j<length (xs @ a # ys). s (stack_top u + j) = Some ((xs @ a # ys) ! j)"
    using assms(2) unfolding holding_def by blast
  have "s (stack_top u + length xs) = Some a" using s(2) by simp
  then show ?thesis using peek_on [OF holding_runs [OF assms(2,1)], of d p] s(1) assms(3) by simp
qed

text \<open>What a value is does not depend on the thread.\<close>

lemma keeps_on:
  assumes "runs vm f c u"
  shows "keeps (vheap vm) (vheap (on vm w p))"
  using assms keeps_put_cur [of vm _ w] by (auto simp: runs_def on_def)

lemma keeps_values:
  assumes "keeps h h'"
  shows "is_falsey h v = Some b \<Longrightarrow> is_falsey h' v = Some b"
    "type_of h v = Some k \<Longrightarrow> type_of h' v = Some k"
    "values_equal_simple h v u = Some b \<Longrightarrow> values_equal_simple h' v u = Some b"
proof -
  have k: "\<exists>y. obj_at h' x = Some y \<and> (y = z \<or> (\<exists>t u. z = OThread t \<and> y = OThread u))"
    if "obj_at h x = Some z" for x z using assms that by (auto simp: keeps_def)
  show "is_falsey h v = Some b \<Longrightarrow> is_falsey h' v = Some b"
    by (auto simp: is_falsey_def split: val.splits option.splits obj.splits dest!: k)
  show "type_of h v = Some k \<Longrightarrow> type_of h' v = Some k" for k
    by (auto simp: type_of_def obj_type_def split: val.splits dest!: k)
  have same: "(case (p, q) of (OString s hs, OString u hu) \<Rightarrow> Some (hs = hu \<and> length s = length u \<and> s = u)
        | _ \<Rightarrow> Some False) = (case (p', q') of (OString s hs, OString u hu) \<Rightarrow>
          Some (hs = hu \<and> length s = length u \<and> s = u) | _ \<Rightarrow> Some False)"
    if "p' = p \<or> (\<exists>t u. p = OThread t \<and> p' = OThread u)" "q' = q \<or> (\<exists>t u. q = OThread t \<and> q' = OThread u)"
    for p q p' q'
    using that by (elim disjE exE conjE) (simp_all split: obj.split)
  show "values_equal_simple h' v u = Some b" if e: "values_equal_simple h v u = Some b"
  proof (cases "\<exists>x y. v = VObj x \<and> u = VObj y \<and> x \<noteq> y")
    case True
    then obtain x y where xy: "v = VObj x" "u = VObj y" "x \<noteq> y" by blast
    then obtain p q where "obj_at h x = Some p" "obj_at h y = Some q"
      using e by (auto simp: values_equal_simple_def bind_eq_Some_conv)
    moreover from this k obtain p' q' where "obj_at h' x = Some p'" "obj_at h' y = Some q'"
      "p' = p \<or> (\<exists>t u. p = OThread t \<and> p' = OThread u)" "q' = q \<or> (\<exists>t u. q = OThread t \<and> q' = OThread u)"
      by metis
    ultimately show ?thesis using e xy same [of p' p q' q] by (simp add: values_equal_simple_def)
  next
    case False
    then show ?thesis using e by (cases v; cases u) (simp_all add: values_equal_simple_def split: if_splits)
  qed
qed

section \<open>Moves of the machine\<close>

definition reaches ::
  "env \<Rightarrow> vm_loop \<Rightarrow> nat \<Rightarrow> vm \<Rightarrow> thread \<Rightarrow> nat \<Rightarrow> val list \<Rightarrow> nat \<Rightarrow> val list \<Rightarrow> bool" where
  "reaches env loop m vm u p xs q ys \<longleftrightarrow>
     (\<forall>w. holding u xs w \<longrightarrow>
       (\<exists>n w'. exec env loop m n (on vm w p) = Some (on vm w' q) \<and> holding u ys w'))"

lemma reaches_refl: "reaches env loop m vm u p xs p xs"
  unfolding reaches_def by (metis exec.simps(1))

lemma reaches_trans:
  assumes "reaches env loop m vm u p xs q ys" "reaches env loop m vm u q ys r zs"
  shows "reaches env loop m vm u p xs r zs"
  unfolding reaches_def
proof (intro allI impI)
  fix w assume "holding u xs w"
  then obtain n w' where 1: "exec env loop m n (on vm w p) = Some (on vm w' q)" "holding u ys w'"
    using assms(1) unfolding reaches_def by blast
  then obtain k w'' where "exec env loop m k (on vm w' q) = Some (on vm w'' r)" "holding u zs w''"
    using assms(2) unfolding reaches_def by blast
  then show "\<exists>n w'. exec env loop m n (on vm w p) = Some (on vm w' r) \<and> holding u zs w'"
    using exec_add [OF 1(1), of k] by auto
qed

lemma reachesI:
  assumes "\<And>w. holding u xs w \<Longrightarrow>
    \<exists>w'. next_step env loop m (on vm w p) = Some (Go (on vm w' q)) \<and> holding u ys w'"
  shows "reaches env loop m vm u p xs q ys"
  unfolding reaches_def
proof (intro allI impI)
  fix w assume "holding u xs w"
  then obtain w' where "next_step env loop m (on vm w p) = Some (Go (on vm w' q))" "holding u ys w'"
    using assms by blast
  then show "\<exists>n w'. exec env loop m n (on vm w p) = Some (on vm w' q) \<and> holding u ys w'"
    by (intro exI [of _ 1] exI [of _ w']) simp
qed

text \<open>An instruction without operands, by what its handler does behind its byte.\<close>

lemma plain_step:
  assumes "runs vm f c u" "at (code c) p = Some b"
    and "\<And>w. holding u xs w \<Longrightarrow> \<exists>w'. step env loop m b (on vm w (p + 1)) = Some (Go (on vm w' q)) \<and> holding u ys w'"
  shows "reaches env loop m vm u p xs q ys"
  by (rule reachesI) (use assms in \<open>simp add: next_step_on [OF holding_runs] del: at_Some_iff\<close>)

lemma push_step:
  assumes "runs vm f c u" "at (code c) p = Some b" "stack_top u + length xs < stack_capacity u"
    and "\<And>w'. step env loop m b w' = go_on (push v w')"
  shows "reaches env loop m vm u p xs (p + 1) (xs @ [v])"
proof (rule plain_step [OF assms(1,2)])
  fix w assume "holding u xs w"
  then obtain w' where "push v (on vm w (p + 1)) = Some (on vm w' (p + 1))" "holding u (xs @ [v]) w'"
    using push_holding [OF assms(1) _ assms(3)] by blast
  then show "\<exists>w'. step env loop m b (on vm w (p + 1)) = Some (Go (on vm w' (p + 1))) \<and> holding u (xs @ [v]) w'"
    by (intro exI [of _ w']) (simp add: assms(4) go_on_def)
qed

lemma constant_step:
  assumes "runs vm f c u" "at (code c) p = Some OP_CONSTANT" "at (code c) (p + 1) = Some k"
    and "const_at c (unat k) = Some v" "stack_top u + length xs < stack_capacity u"
  shows "reaches env loop m vm u p xs (p + 2) (xs @ [v])"
proof (rule reachesI)
  fix w assume w: "holding u xs w"
  have "next_step env loop m (on vm w p) =
      Some (Go (on vm (w\<lparr>stack := (stack w)(stack_top w \<mapsto> v), stack_top := stack_top w + 1\<rparr>) (p + 2)))"
    by (rule step_constant [OF holding_runs [OF w assms(1)] assms(2-4)]) (use w assms(5) in \<open>simp add: holding_sel\<close>)
  then show "\<exists>w'. next_step env loop m (on vm w p) = Some (Go (on vm w' (p + 2))) \<and> holding u (xs @ [v]) w'"
    using holding_push [OF w] by blast
qed

lemma local_step:
  assumes "runs vm f c u" "at (code c) p = Some OP_GET_LOCAL" "at (code c) (p + 1) = Some i"
    and "fslots f + unat i < stack_top u" "stack u (fslots f + unat i) = Some v"
    and "stack_top u + length xs < stack_capacity u"
  shows "reaches env loop m vm u p xs (p + 2) (xs @ [v])"
proof (rule reachesI)
  fix w assume w: "holding u xs w"
  have "next_step env loop m (on vm w p) =
      Some (Go (on vm (w\<lparr>stack := (stack w)(stack_top w \<mapsto> v), stack_top := stack_top w + 1\<rparr>) (p + 2)))"
    by (rule step_get_local [OF holding_runs [OF w assms(1)] assms(2,3)])
      (use w assms(4-6) in \<open>simp_all add: holding_sel\<close>)
  then show "\<exists>w'. next_step env loop m (on vm w p) = Some (Go (on vm w' (p + 2))) \<and> holding u (xs @ [v]) w'"
    using holding_push [OF w] by blast
qed

lemma pop_step:
  assumes "runs vm f c u" "at (code c) p = Some OP_POP"
  shows "reaches env loop m vm u p (xs @ [a]) (p + 1) xs"
proof (rule reachesI)
  fix w assume w: "holding u (xs @ [a]) w"
  have "next_step env loop m (on vm w p) = Some (Go (on vm (w\<lparr>stack_top := stack_top u + length xs\<rparr>) (p + 1)))"
    by (rule step_pop [OF holding_runs [OF w assms(1)] assms(2) _ holding_last(1) [OF w]])
      (simp add: holding_sel [OF w])
  then show "\<exists>w'. next_step env loop m (on vm w p) = Some (Go (on vm w' (p + 1))) \<and> holding u xs w'"
    using holding_last(2) [OF w] by blast
qed

lemma step_jumps:
  "step env loop m OP_JUMP vm = go_on (vm_handle_op_jump vm)"
  "step env loop m OP_JUMP_IF_FALSE vm = go_on (vm_handle_op_jump_if_false vm)"
  by (simp_all add: step_def)

lemma jump_step:
  assumes "runs vm f c u" "at (code c) p = Some OP_JUMP" "short_at (code c) (p + 1) = Some n"
  shows "reaches env loop m vm u p xs (p + 3 + unat n) xs"
proof (rule reachesI)
  fix w assume w: "holding u xs w"
  have "next_step env loop m (on vm w p) = Some (Go (on vm w (p + 3 + unat n)))"
    using read_short_on [OF holding_runs [OF w assms(1)], of "p + 1"] assms(3)
    by (simp add: next_step_on [OF holding_runs [OF w assms(1)] assms(2)] step_jumps vm_handle_op_jump_def
        jump_forward_def go_on_def on_sel [OF holding_runs [OF w assms(1)]] eval_nat_numeral)
  then show "\<exists>w'. next_step env loop m (on vm w p) = Some (Go (on vm w' (p + 3 + unat n))) \<and> holding u xs w'"
    using w by blast
qed

lemma jump_if_false_step:
  assumes "runs vm f c u" "at (code c) p = Some OP_JUMP_IF_FALSE" "short_at (code c) (p + 1) = Some n"
    and "is_falsey (vheap vm) a = Some b"
  shows "reaches env loop m vm u p (xs @ [a]) (p + 3 + (if b then unat n else 0)) (xs @ [a])"
proof (rule reachesI)
  fix w assume w: "holding u (xs @ [a]) w"
  have "peek 0 (on vm w (p + 3)) = Some a" by (rule peek_holding [OF assms(1), of xs a "[]"]) (use w in simp_all)
  moreover have "is_falsey (vheap (on vm w (p + 3))) a = Some b"
    by (rule keeps_values(1) [OF keeps_on [OF assms(1)] assms(4)])
  ultimately have "next_step env loop m (on vm w p) = Some (Go (on vm w (p + 3 + (if b then unat n else 0))))"
    using read_short_on [OF holding_runs [OF w assms(1)], of "p + 1"] assms(3)
    by (simp add: next_step_on [OF holding_runs [OF w assms(1)] assms(2)] step_jumps vm_handle_op_jump_if_false_def
        jump_forward_def go_on_def on_sel [OF holding_runs [OF w assms(1)]] eval_nat_numeral)
  then show "\<exists>w'. next_step env loop m (on vm w p) = Some (Go (on vm w' (p + 3 + (if b then unat n else 0)))) \<and>
      holding u (xs @ [a]) w'"
    using w by blast
qed

section \<open>Operators\<close>

lemma two_pops:
  assumes "runs vm f c u" "holding u (xs @ [a, b]) w"
  obtains w1 w2 where "pop (on vm w p) = Some (b, on vm w1 p)" "pop (on vm w1 p) = Some (a, on vm w2 p)"
    "holding u (xs @ [a]) w1" "holding u xs w2"
proof -
  have w: "holding u ((xs @ [a]) @ [b]) w" using assms(2) by simp
  obtain w1 where 1: "pop (on vm w p) = Some (b, on vm w1 p)" "holding u (xs @ [a]) w1"
    by (rule pop_holding [OF assms(1) w])
  obtain w2 where "pop (on vm w1 p) = Some (a, on vm w2 p)" "holding u xs w2"
    by (rule pop_holding [OF assms(1) 1(2)])
  then show ?thesis using that [OF 1(1) _ 1(2)] by blast
qed

text \<open>An instruction that takes two values and leaves one.\<close>

lemma operator_step:
  assumes r: "runs vm f c u" "at (code c) p = Some b" and room: "stack_top u + length xs < stack_capacity u"
    and step: "\<And>w w1 w2 w'. peek 0 (on vm w (p + 1)) = Some y \<Longrightarrow> peek 1 (on vm w (p + 1)) = Some x \<Longrightarrow>
      pop (on vm w (p + 1)) = Some (y, on vm w1 (p + 1)) \<Longrightarrow> pop (on vm w1 (p + 1)) = Some (x, on vm w2 (p + 1)) \<Longrightarrow>
      keeps (vheap vm) (vheap (on vm w2 (p + 1))) \<Longrightarrow>
      push v (on vm w2 (p + 1)) = Some (on vm w' (p + 1)) \<Longrightarrow>
      step env loop m b (on vm w (p + 1)) = Some (Go (on vm w' (p + 1)))"
  shows "reaches env loop m vm u p (xs @ [x, y]) (p + 1) (xs @ [v])"
proof (rule plain_step [OF r])
  fix w assume w: "holding u (xs @ [x, y]) w"
  obtain w1 w2 where 1: "pop (on vm w (p + 1)) = Some (y, on vm w1 (p + 1))"
      "pop (on vm w1 (p + 1)) = Some (x, on vm w2 (p + 1))" "holding u xs w2"
    by (rule two_pops [OF r(1) w])
  obtain w' where 2: "push v (on vm w2 (p + 1)) = Some (on vm w' (p + 1))" "holding u (xs @ [v]) w'"
    by (rule push_holding [OF r(1) 1(3) room])
  have "peek 0 (on vm w (p + 1)) = Some y" by (rule peek_holding [OF r(1), of "xs @ [x]" _ "[]"]) (use w in simp_all)
  moreover have "peek 1 (on vm w (p + 1)) = Some x" by (rule peek_holding [OF r(1), of xs _ "[y]"]) (use w in simp_all)
  ultimately have "step env loop m b (on vm w (p + 1)) = Some (Go (on vm w' (p + 1)))"
    by (rule step [OF _ _ 1(1,2) keeps_on [OF r(1)] 2(1)])
  with 2(2) show "\<exists>w'. step env loop m b (on vm w (p + 1)) = Some (Go (on vm w' (p + 1))) \<and> holding u (xs @ [v]) w'"
    by blast
qed

lemma number_step:
  assumes "runs vm f c u" "at (code c) p = Some b" "stack_top u + length xs < stack_capacity u"
    and "(\<forall>w. step env loop m b w = checked (binary name g w)) \<or> (\<forall>w. step env loop m b w = go_on (typed g w))"
    and "g x y = Some d"
  shows "reaches env loop m vm u p (xs @ [VNumber x, VNumber y]) (p + 1) (xs @ [VNumber d])"
proof (rule operator_step [OF assms(1-3)])
  fix w w1 w2 w'
  assume "pop (on vm w (p + 1)) = Some (VNumber y, on vm w1 (p + 1))"
    "pop (on vm w1 (p + 1)) = Some (VNumber x, on vm w2 (p + 1))"
    "push (VNumber d) (on vm w2 (p + 1)) = Some (on vm w' (p + 1))"
  then show "step env loop m b (on vm w (p + 1)) = Some (Go (on vm w' (p + 1)))"
    using assms(4,5) by (auto simp: binary_def arith_def typed_def as_number_def checked_def go_on_def)
qed

lemmas number_handlers =
  vm_handle_op_subtract_def vm_handle_op_multiply_def vm_handle_op_divide_def vm_handle_op_modulo_def
  vm_handle_op_power_def vm_handle_op_int_div_def vm_handle_op_i_add_def vm_handle_op_i_sub_def
  vm_handle_op_i_mul_def vm_handle_op_i_mod_def vm_handle_op_f_add_def vm_handle_op_f_sub_def
  vm_handle_op_f_mul_def vm_handle_op_f_div_def vm_handle_op_f_mod_def

text \<open>The number instructions of the machine, by opcode.\<close>

lemma step_numbers:
  "step env loop m OP_SUBTRACT w = checked (binary ''__sub'' (total2 dsub) w)"
  "step env loop m OP_MULTIPLY w = checked (binary ''__mul'' (total2 dmul) w)"
  "step env loop m OP_DIVIDE w = checked (binary ''__div'' (total2 ddiv) w)"
  "step env loop m OP_MODULO w = checked (binary ''__mod'' number_mod w)"
  "step env loop m OP_POWER w = checked (binary ''__pow'' (total2 (pow_fn env)) w)"
  "step env loop m OP_INT_DIV w = checked (binary ''__int_div'' (\<lambda>x y. Some (dfloor (ddiv x y))) w)"
  "step env loop m OP_IADD w = go_on (typed (total2 dadd) w)"
  "step env loop m OP_ISUB w = go_on (typed (total2 dsub) w)"
  "step env loop m OP_IMUL w = go_on (typed (total2 dmul) w)"
  "step env loop m OP_IMOD w = go_on (typed number_mod w)"
  "step env loop m OP_FADD w = go_on (typed (total2 dadd) w)"
  "step env loop m OP_FSUB w = go_on (typed (total2 dsub) w)"
  "step env loop m OP_FMUL w = go_on (typed (total2 dmul) w)"
  "step env loop m OP_FDIV w = go_on (typed (total2 ddiv) w)"
  "step env loop m OP_FMOD w = go_on (typed (total2 dfmod) w)"
  by (simp_all add: step_def number_handlers)

lemma step_others:
  "step env loop m OP_ADD w = checked (vm_handle_op_add w)"
  "step env loop m OP_EQUAL w = checked (vm_handle_op_equal w)"
  "step env loop m OP_LESS w = checked (vm_handle_op_less w)"
  "step env loop m OP_GREATER w = checked (vm_handle_op_greater w)"
  "step env loop m OP_NOT w = go_on (vm_handle_op_not w)"
  "step env loop m OP_NEGATE w = go_on (vm_handle_op_negate w)"
  by (simp_all add: step_def)

text \<open>The opcodes of arithmetic and what they compute.\<close>

definition checked_number :: "env \<Rightarrow> byte \<Rightarrow> (string \<times> (double \<Rightarrow> double \<Rightarrow> double option)) option" where
  "checked_number env b =
     (if b = OP_SUBTRACT then Some (''__sub'', total2 dsub)
      else if b = OP_MULTIPLY then Some (''__mul'', total2 dmul)
      else if b = OP_DIVIDE then Some (''__div'', total2 ddiv)
      else if b = OP_MODULO then Some (''__mod'', number_mod)
      else if b = OP_POWER then Some (''__pow'', total2 (pow_fn env))
      else if b = OP_INT_DIV then Some (''__int_div'', \<lambda>x y. Some (dfloor (ddiv x y)))
      else None)"

definition typed_number :: "byte \<Rightarrow> (double \<Rightarrow> double \<Rightarrow> double option) option" where
  "typed_number b =
     (if b = OP_IADD \<or> b = OP_FADD then Some (total2 dadd)
      else if b = OP_ISUB \<or> b = OP_FSUB then Some (total2 dsub)
      else if b = OP_IMUL \<or> b = OP_FMUL then Some (total2 dmul)
      else if b = OP_FDIV then Some (total2 ddiv)
      else if b = OP_IMOD then Some number_mod
      else if b = OP_FMOD then Some (total2 dfmod)
      else None)"

definition number_op :: "env \<Rightarrow> byte \<Rightarrow> double \<Rightarrow> double \<Rightarrow> double option" where
  "number_op env b x y =
     (if b = OP_ADD then Some (dadd x y)
      else case checked_number env b of
        Some (name, g) \<Rightarrow> g x y
      | None \<Rightarrow> (case typed_number b of Some g \<Rightarrow> g x y | None \<Rightarrow> None))"

lemma step_checked_number:
  "checked_number env b = Some (name, g) \<Longrightarrow> step env loop m b w = checked (binary name g w)"
  by (auto simp: checked_number_def step_numbers split: if_splits)

lemma step_typed_number: "typed_number b = Some g \<Longrightarrow> step env loop m b w = go_on (typed g w)"
  by (auto simp: typed_number_def step_numbers split: if_splits)

lemma number_op_step:
  assumes "runs vm f c u" "at (code c) p = Some b" "stack_top u + length xs < stack_capacity u"
    and d: "number_op env b x y = Some d"
  shows "reaches env loop m vm u p (xs @ [VNumber x, VNumber y]) (p + 1) (xs @ [VNumber d])"
proof (cases "b = OP_ADD")
  case True
  show ?thesis
  proof (rule operator_step [OF assms(1-3)])
    fix w w1 w2 w'
    assume "peek 0 (on vm w (p + 1)) = Some (VNumber y)" "peek 1 (on vm w (p + 1)) = Some (VNumber x)"
      "pop (on vm w (p + 1)) = Some (VNumber y, on vm w1 (p + 1))"
      "pop (on vm w1 (p + 1)) = Some (VNumber x, on vm w2 (p + 1))"
      "push (VNumber d) (on vm w2 (p + 1)) = Some (on vm w' (p + 1))"
    then show "step env loop m b (on vm w (p + 1)) = Some (Go (on vm w' (p + 1)))"
      using d by (simp add: True step_others vm_handle_op_add_def type_of_def checked_def number_op_def)
  qed
next
  case False
  show ?thesis
  proof (cases "checked_number env b")
    case None
    then obtain g where "typed_number b = Some g" "g x y = Some d"
      using d False by (auto simp: number_op_def split: option.splits)
    then show ?thesis by (intro number_step [OF assms(1-3), of _ _ _ "[]" g]) (simp_all add: step_typed_number)
  next
    case (Some ng)
    then obtain name g where "checked_number env b = Some (name, g)" "g x y = Some d"
      using d False by (cases ng) (auto simp: number_op_def)
    then show ?thesis by (intro number_step [OF assms(1-3), of _ _ _ name g]) (simp_all add: step_checked_number)
  qed
qed

lemma compare_step:
  assumes "runs vm f c u" "at (code c) p = Some b" "stack_top u + length xs < stack_capacity u"
    and "b = OP_LESS \<and> e = dlt x y \<or> b = OP_GREATER \<and> e = dlt y x"
  shows "reaches env loop m vm u p (xs @ [VNumber x, VNumber y]) (p + 1) (xs @ [VBool e])"
proof (rule operator_step [OF assms(1-3)])
  fix w w1 w2 w'
  assume "pop (on vm w (p + 1)) = Some (VNumber y, on vm w1 (p + 1))"
    "pop (on vm w1 (p + 1)) = Some (VNumber x, on vm w2 (p + 1))"
    "push (VBool e) (on vm w2 (p + 1)) = Some (on vm w' (p + 1))"
  then show "step env loop m b (on vm w (p + 1)) = Some (Go (on vm w' (p + 1)))"
    using assms(4)
    by (auto simp: step_others vm_handle_op_less_def vm_handle_op_greater_def push_bool_def checked_def)
qed

lemma equal_step:
  assumes "runs vm f c u" "at (code c) p = Some OP_EQUAL" "stack_top u + length xs < stack_capacity u"
    and e: "equal_value (vheap vm) x y = Some e"
  shows "reaches env loop m vm u p (xs @ [x, y]) (p + 1) (xs @ [VBool e])"
proof (rule operator_step [OF assms(1-3)])
  fix w w1 w2 w'
  let ?h = "vheap (on vm w2 (p + 1))"
  assume pops: "pop (on vm w (p + 1)) = Some (y, on vm w1 (p + 1))" "pop (on vm w1 (p + 1)) = Some (x, on vm w2 (p + 1))"
    and k: "keeps (vheap vm) ?h" and push: "push (VBool e) (on vm w2 (p + 1)) = Some (on vm w' (p + 1))"
  have v: "values_equal_simple (vheap vm) x y = Some e"
    using e by (cases x; cases y) (auto simp: equal_value_def bind_eq_Some_conv split: if_splits)
  then have eq: "values_equal_simple ?h x y = Some e" by (rule keeps_values(3) [OF k])
  have "vm_handle_op_equal (on vm w (p + 1)) = push_bool e (on vm w2 (p + 1))"
  proof (cases "e \<or> \<not> (\<exists>a b. x = VObj a \<and> y = VObj b)")
    case True
    then show ?thesis using pops eq by (cases x; cases y) (auto simp: vm_handle_op_equal_def)
  next
    case False
    then obtain a b where ab: "x = VObj a" "y = VObj b" "\<not> e" by blast
    then have "type_of (vheap vm) x = Some TString" "type_of (vheap vm) y = Some TString"
      using e by (auto simp: equal_value_def bind_eq_Some_conv split: if_splits)
    then have "type_of ?h x = Some TString" "type_of ?h y = Some TString" by - (rule keeps_values(2) [OF k], assumption)+
    moreover have "a \<noteq> b" using v ab by (auto simp: values_equal_simple_def)
    ultimately show ?thesis using pops eq ab by (simp add: vm_handle_op_equal_def)
  qed
  then show "step env loop m OP_EQUAL (on vm w (p + 1)) = Some (Go (on vm w' (p + 1)))"
    using push by (simp add: step_others push_bool_def checked_def)
qed

lemma unary_step:
  assumes r: "runs vm f c u" "at (code c) p = Some b" and room: "stack_top u + length xs < stack_capacity u"
    and v: "b = OP_NOT \<and> map_option VBool (is_falsey (vheap vm) x) = Some v \<or>
      b = OP_NEGATE \<and> map_option (\<lambda>d. VNumber (dneg d)) (as_number x) = Some v"
  shows "reaches env loop m vm u p (xs @ [x]) (p + 1) (xs @ [v])"
proof (rule plain_step [OF r])
  fix w assume w: "holding u (xs @ [x]) w"
  obtain w1 where 1: "pop (on vm w (p + 1)) = Some (x, on vm w1 (p + 1))" "holding u xs w1"
    by (rule pop_holding [OF r(1) w])
  obtain w' where 2: "push v (on vm w1 (p + 1)) = Some (on vm w' (p + 1))" "holding u (xs @ [v]) w'"
    by (rule push_holding [OF r(1) 1(2) room])
  have "is_falsey (vheap (on vm w1 (p + 1))) x = Some e" if "is_falsey (vheap vm) x = Some e" for e
    by (rule keeps_values(1) [OF keeps_on [OF r(1)] that])
  then have "step env loop m b (on vm w (p + 1)) = Some (Go (on vm w' (p + 1)))"
    using v 1(1) 2(1) by (auto simp: step_others vm_handle_op_not_def vm_handle_op_negate_def go_on_def)
  with 2(2) show "\<exists>w'. step env loop m b (on vm w (p + 1)) = Some (Go (on vm w' (p + 1))) \<and> holding u (xs @ [v]) w'"
    by blast
qed

section \<open>Code at a place\<close>

definition code_at :: "chunk \<Rightarrow> nat \<Rightarrow> bytes \<Rightarrow> bool" where
  "code_at c p bs \<longleftrightarrow> (\<forall>i < length bs. at (code c) (p + i) = Some (bs ! i))"

lemma code_at_Cons: "code_at c p (b # bs) \<longleftrightarrow> at (code c) p = Some b \<and> code_at c (p + 1) bs"
  by (auto simp: code_at_def less_Suc_eq_0_disj all_conj_distrib simp del: at_Some_iff)

lemma code_at_append [simp]: "code_at c p (bs @ cs) \<longleftrightarrow> code_at c p bs \<and> code_at c (p + length bs) cs"
proof (induction bs arbitrary: p)
  case (Cons b bs)
  show ?case using Cons [of "p + 1"] by (simp add: code_at_Cons del: at_Some_iff)
qed (simp add: code_at_def)

lemma code_at_first:
  "code_at c p []" "code_at c p [b] \<longleftrightarrow> at (code c) p = Some b"
  by (simp_all add: code_at_Cons) (simp_all add: code_at_def)

text \<open>A distance, written in two bytes, is read back.\<close>

lemma jump_bytes_at:
  assumes "code_at c p (jump_bytes n)" "n < 65536"
  obtains w where "short_at (code c) p = Some w" "unat w = n"
proof -
  have d: "int n div 256 = int (n div 256)" by (simp add: zdiv_int)
  have "at (code c) p = Some (word_of_int (int n div 256))" "at (code c) (p + 1) = Some (word_of_int (int n))"
    using assms(1) unfolding d by (simp_all add: jump_bytes_def code_at_Cons del: at_Some_iff)
  then have "short_at (code c) p = Some (word_of_int (int n))"
    using short_of_bytes [of "int n"] by (simp add: short_at_def del: at_Some_iff)
  moreover have "unat (word_of_int (int n) :: u16) = n" using assms(2) by (simp add: take_bit_nat_eq_self unsigned_of_nat)
  ultimately show ?thesis by (rule that)
qed

section \<open>The operators of the language\<close>

lemma code_then:
  assumes "reaches env loop m vm u p xs q ys" "reaches env loop m vm u q ys r zs" "q' = r"
  shows "reaches env loop m vm u p xs q' zs"
  using reaches_trans [OF assms(1,2)] assms(3) by simp

lemma hint_ok_simps [simp]:
  "hint_ok TYPEHINT_ANY v" "hint_ok TYPEHINT_BOOL (VBool b)" "hint_ok TYPEHINT_INT (VNumber x)"
  "hint_ok TYPEHINT_FLOAT (VNumber x)"
  by (simp_all add: hint_ok_def is_numeric_type_def)

text \<open>The code of an arithmetic operator computes its value.\<close>

lemma arithmetic_codes:
  "binary_code TOKEN_PLUS l r = Some (arith_code OP_IADD OP_FADD OP_ADD l r)"
  "binary_code TOKEN_MINUS l r = Some (arith_code OP_ISUB OP_FSUB OP_SUBTRACT l r)"
  "binary_code TOKEN_STAR l r = Some (arith_code OP_IMUL OP_FMUL OP_MULTIPLY l r)"
  "binary_code TOKEN_SLASH l r = Some (div_code l r)"
  "binary_code TOKEN_POWER l r = Some ([OP_POWER], TYPEHINT_ANY)"
  "binary_code TOKEN_INT_DIV l r = Some ([OP_INT_DIV], TYPEHINT_ANY)"
  "binary_code TOKEN_PERCENT l r = Some (arith_code OP_IMOD OP_FMOD OP_MODULO l r)"
  by (simp_all add: binary_code_def)

lemma arithmetic_values:
  "number_value2 pw TOKEN_PLUS x y = Some (VNumber (dadd x y))"
  "number_value2 pw TOKEN_MINUS x y = Some (VNumber (dsub x y))"
  "number_value2 pw TOKEN_STAR x y = Some (VNumber (dmul x y))"
  "number_value2 pw TOKEN_SLASH x y = Some (VNumber (ddiv x y))"
  "number_value2 pw TOKEN_POWER x y = Some (VNumber (pw x y))"
  "number_value2 pw TOKEN_INT_DIV x y = Some (VNumber (dfloor (ddiv x y)))"
  "number_value2 pw TOKEN_PERCENT x y =
     (if number_mod x y = Some (dfmod x y) then Some (VNumber (dfmod x y)) else None)"
  by (simp_all add: number_value2_def)

lemma number_ops:
  "b \<in> {OP_IADD, OP_FADD, OP_ADD} \<Longrightarrow> number_op env b x y = Some (dadd x y)"
  "b \<in> {OP_ISUB, OP_FSUB, OP_SUBTRACT} \<Longrightarrow> number_op env b x y = Some (dsub x y)"
  "b \<in> {OP_IMUL, OP_FMUL, OP_MULTIPLY} \<Longrightarrow> number_op env b x y = Some (dmul x y)"
  "b \<in> {OP_FDIV, OP_DIVIDE} \<Longrightarrow> number_op env b x y = Some (ddiv x y)"
  "number_op env OP_POWER x y = Some (pow_fn env x y)"
  "number_op env OP_INT_DIV x y = Some (dfloor (ddiv x y))"
  "b \<in> {OP_IMOD, OP_FMOD, OP_MODULO} \<Longrightarrow> number_mod x y = Some (dfmod x y) \<Longrightarrow>
    number_op env b x y = Some (dfmod x y)"
  by (auto simp: number_op_def checked_number_def typed_number_def)

lemma arith_code_is:
  assumes "arith_code i f g l r = (ops, ty)"
  shows "\<exists>b. ops = [b] \<and> b \<in> {i, f, g} \<and> hint_ok ty (VNumber d)"
  using assms by (auto simp: arith_code_def split: if_splits)

lemma number_code:
  assumes "binary_code op lt rt = Some (ops, ty)" "number_value2 (pow_fn env) op x y = Some v"
    and "op \<in> {TOKEN_PLUS, TOKEN_MINUS, TOKEN_STAR, TOKEN_SLASH, TOKEN_POWER, TOKEN_INT_DIV, TOKEN_PERCENT}"
  shows "\<exists>b d. ops = [b] \<and> v = VNumber d \<and> number_op env b x y = Some d \<and> hint_ok ty v"
proof -
  have a: ?thesis if "arith_code i j k lt rt = (ops, ty)" "v = VNumber d"
    "\<And>b. b \<in> {i, j, k} \<Longrightarrow> number_op env b x y = Some d" for i j k d
    using arith_code_is [OF that(1), of d] that(2,3) by blast
  from assms(3) show ?thesis
  proof (elim insertE emptyE)
    assume "op = TOKEN_PLUS"
    then show ?thesis using assms(1,2) by (intro a [OF _ _ number_ops(1)]) (simp_all add: arithmetic_codes arithmetic_values)
  next
    assume "op = TOKEN_MINUS"
    then show ?thesis using assms(1,2) by (intro a [OF _ _ number_ops(2)]) (simp_all add: arithmetic_codes arithmetic_values)
  next
    assume "op = TOKEN_STAR"
    then show ?thesis using assms(1,2) by (intro a [OF _ _ number_ops(3)]) (simp_all add: arithmetic_codes arithmetic_values)
  next
    assume "op = TOKEN_PERCENT"
    then show ?thesis using assms(1,2)
      by (intro a [OF _ _ number_ops(7)]) (simp_all add: arithmetic_codes arithmetic_values split: if_splits)
  next
    assume "op = TOKEN_SLASH"
    then show ?thesis using assms(1,2)
      by (auto simp: arithmetic_codes arithmetic_values div_code_def number_ops split: if_splits)
  qed (use assms(1,2) in \<open>auto simp: arithmetic_codes arithmetic_values number_ops\<close>)
qed

lemma compare_codes:
  "binary_code TOKEN_LESS l r = Some ([OP_LESS], TYPEHINT_BOOL)"
  "binary_code TOKEN_GREATER l r = Some ([OP_GREATER], TYPEHINT_BOOL)"
  "binary_code TOKEN_LESS_EQUAL l r = Some ([OP_GREATER, OP_NOT], TYPEHINT_BOOL)"
  "binary_code TOKEN_GREATER_EQUAL l r = Some ([OP_LESS, OP_NOT], TYPEHINT_BOOL)"
  "binary_code TOKEN_EQUAL_EQUAL l r = Some ([OP_EQUAL], TYPEHINT_BOOL)"
  "binary_code TOKEN_BANG_EQUAL l r = Some ([OP_EQUAL, OP_NOT], TYPEHINT_BOOL)"
  by (simp_all add: binary_code_def)

lemma compare_values:
  "number_value2 pw TOKEN_LESS x y = Some (VBool (dlt x y))"
  "number_value2 pw TOKEN_GREATER x y = Some (VBool (dlt y x))"
  "number_value2 pw TOKEN_LESS_EQUAL x y = Some (VBool (\<not> dlt y x))"
  "number_value2 pw TOKEN_GREATER_EQUAL x y = Some (VBool (\<not> dlt x y))"
  by (simp_all add: number_value2_def)

lemma compare_code:
  assumes "binary_code op lt rt = Some (ops, ty)" "number_value2 pw op x y = Some v"
    and "op \<in> {TOKEN_LESS, TOKEN_GREATER, TOKEN_LESS_EQUAL, TOKEN_GREATER_EQUAL}"
  shows "\<exists>b e. (b = OP_LESS \<and> e = dlt x y \<or> b = OP_GREATER \<and> e = dlt y x) \<and> hint_ok ty v \<and>
    (ops = [b] \<and> v = VBool e \<or> ops = [b, OP_NOT] \<and> v = VBool (\<not> e))"
proof -
  have b: ?thesis if "(ops, ty) = ([b], TYPEHINT_BOOL) \<and> v = VBool e \<or> (ops, ty) = ([b, OP_NOT], TYPEHINT_BOOL) \<and> v = VBool (\<not> e)"
    "b = OP_LESS \<and> e = dlt x y \<or> b = OP_GREATER \<and> e = dlt y x" for b e
    using that by (intro exI [of _ b] exI [of _ e]) auto
  from assms(3) show ?thesis
  proof (elim insertE emptyE)
    assume "op = TOKEN_LESS"
    with assms(1,2) show ?thesis by (intro b [of OP_LESS "dlt x y"]) (simp_all add: compare_codes compare_values)
  next
    assume "op = TOKEN_GREATER"
    with assms(1,2) show ?thesis by (intro b [of OP_GREATER "dlt y x"]) (simp_all add: compare_codes compare_values)
  next
    assume "op = TOKEN_LESS_EQUAL"
    with assms(1,2) show ?thesis by (intro b [of OP_GREATER "dlt y x"]) (simp_all add: compare_codes compare_values)
  next
    assume "op = TOKEN_GREATER_EQUAL"
    with assms(1,2) show ?thesis by (intro b [of OP_LESS "dlt x y"]) (simp_all add: compare_codes compare_values)
  qed
qed

lemma binary_code_runs:
  assumes r: "runs vm f c u" and room: "stack_top u + length xs < stack_capacity u"
    and code: "binary_code op lt rt = Some (ops, ty)" "code_at c p ops"
    and v: "binary_value (pow_fn env) (vheap vm) op a b = Some v"
  shows "reaches env loop m vm u p (xs @ [a, b]) (p + length ops) (xs @ [v]) \<and> hint_ok ty v"
proof (cases "op = TOKEN_EQUAL_EQUAL \<or> op = TOKEN_BANG_EQUAL")
  case True
  then obtain e where e: "equal_value (vheap vm) a b = Some e"
    using v by (auto simp: binary_value_def)
  have "at (code c) p = Some OP_EQUAL" using True code by (auto simp: compare_codes code_at_Cons simp del: at_Some_iff)
  from equal_step [OF r this room e]
  have 1: "reaches env loop m vm u p (xs @ [a, b]) (p + 1) (xs @ [VBool e])" .
  show ?thesis
  proof (cases "op = TOKEN_EQUAL_EQUAL")
    case True
    then show ?thesis using 1 v e code(1) by (auto simp: binary_value_def compare_codes)
  next
    case False
    then have n: "op = TOKEN_BANG_EQUAL" using True by simp
    have "at (code c) (p + 1) = Some OP_NOT" using n code by (auto simp: compare_codes code_at_Cons simp del: at_Some_iff)
    from unary_step [OF r this room, of "VBool e" "VBool (\<not> e)"]
    have "reaches env loop m vm u (p + 1) (xs @ [VBool e]) (p + 2) (xs @ [VBool (\<not> e)])"
      by (simp add: is_falsey_def)
    with 1 n v e code(1) show ?thesis
      by (auto simp: binary_value_def compare_codes intro: code_then)
  qed
next
  case False
  then obtain x y where xy: "a = VNumber x" "b = VNumber y" and n: "number_value2 (pow_fn env) op x y = Some v"
    using v by (auto simp: binary_value_def split: val.splits)
  consider "op \<in> {TOKEN_PLUS, TOKEN_MINUS, TOKEN_STAR, TOKEN_SLASH, TOKEN_POWER, TOKEN_INT_DIV, TOKEN_PERCENT}"
    | "op \<in> {TOKEN_LESS, TOKEN_GREATER, TOKEN_LESS_EQUAL, TOKEN_GREATER_EQUAL}"
    using n by (auto simp: number_value2_def split: if_splits)
  then show ?thesis
  proof cases
    case 1
    obtain i d where i: "ops = [i]" "v = VNumber d" "number_op env i x y = Some d" "hint_ok ty v"
      using number_code [OF code(1) n 1] by blast
    have "at (code c) p = Some i" using code(2) i(1) by (simp add: code_at_first del: at_Some_iff)
    from number_op_step [OF r this room i(3)] i xy show ?thesis by simp
  next
    case 2
    obtain i e where i: "i = OP_LESS \<and> e = dlt x y \<or> i = OP_GREATER \<and> e = dlt y x" "hint_ok ty v"
      "ops = [i] \<and> v = VBool e \<or> ops = [i, OP_NOT] \<and> v = VBool (\<not> e)"
      using compare_code [OF code(1) n 2] by blast
    have "at (code c) p = Some i" using code(2) i(3) by (auto simp: code_at_Cons simp del: at_Some_iff)
    from compare_step [OF r this room i(1)]
    have 1: "reaches env loop m vm u p (xs @ [a, b]) (p + 1) (xs @ [VBool e])" using xy by simp
    show ?thesis
    proof (cases "ops = [i]")
      case False
      then have "at (code c) (p + 1) = Some OP_NOT"
        using code(2) i(3) by (auto simp: code_at_Cons simp del: at_Some_iff)
      from unary_step [OF r this room, of "VBool e" "VBool (\<not> e)"]
      have "reaches env loop m vm u (p + 1) (xs @ [VBool e]) (p + 2) (xs @ [VBool (\<not> e)])"
        by (simp add: is_falsey_def)
      with 1 i False show ?thesis by (auto intro: code_then)
    qed (use 1 i in auto)
  qed
qed

section \<open>The code of an expression\<close>

definition consts_at :: "chunk \<Rightarrow> nat \<Rightarrow> val list \<Rightarrow> bool" where
  "consts_at c k vs \<longleftrightarrow> (\<forall>i < length vs. const_at c (k + i) = Some (vs ! i))"

lemma consts_at_append [simp]: "consts_at c k (vs @ ws) \<longleftrightarrow> consts_at c k vs \<and> consts_at c (k + length vs) ws"
proof
  assume l: "consts_at c k (vs @ ws)"
  show "consts_at c k vs \<and> consts_at c (k + length vs) ws"
    unfolding consts_at_def
  proof (intro conjI allI impI)
    fix i assume "i < length vs"
    then show "const_at c (k + i) = Some (vs ! i)" using l by (simp add: consts_at_def nth_append)
  next
    fix i assume "i < length ws"
    then have "const_at c (k + (length vs + i)) = Some ((vs @ ws) ! (length vs + i))"
      using l unfolding consts_at_def by (metis length_append nat_add_left_cancel_less)
    then show "const_at c (k + length vs + i) = Some (ws ! i)" by (simp add: add.assoc)
  qed
next
  assume r: "consts_at c k vs \<and> consts_at c (k + length vs) ws"
  show "consts_at c k (vs @ ws)"
    unfolding consts_at_def
  proof (intro allI impI)
    fix i assume i: "i < length (vs @ ws)"
    show "const_at c (k + i) = Some ((vs @ ws) ! i)"
    proof (cases "i < length vs")
      case False
      then obtain j where j: "i = length vs + j" by (metis le_Suc_ex not_less)
      then have "const_at c (k + length vs + j) = Some (ws ! j)" using i r by (simp add: consts_at_def)
      then show ?thesis using j by (simp add: add.assoc)
    qed (use r in \<open>simp add: consts_at_def nth_append\<close>)
  qed
qed

text \<open>The locals of the compiler are slots of the frame, with values as their hints say.\<close>

definition locals_ok ::
  "(bytes \<Rightarrow> (nat \<times> byte) option) \<Rightarrow> (bytes \<Rightarrow> val option) \<Rightarrow> frame \<Rightarrow> thread \<Rightarrow> bool" where
  "locals_ok env \<rho> f u \<longleftrightarrow>
     (\<forall>x i ty. env x = Some (i, ty) \<longrightarrow>
       fslots f + unat (of_nat i :: byte) < stack_top u \<and>
       stack u (fslots f + unat (of_nat i :: byte)) = \<rho> x \<and> (\<forall>v. \<rho> x = Some v \<longrightarrow> hint_ok ty v))"

text \<open>Where an expression stands and what it needs.\<close>

definition placed ::
  "chunk \<Rightarrow> nat \<Rightarrow> nat \<Rightarrow> (bytes \<Rightarrow> (nat \<times> byte) option) \<Rightarrow> expr \<Rightarrow> bool" where
  "placed c p k env e \<longleftrightarrow> wf_expr env e \<and>
     (case expr_code env k e of (bs, vs, _) \<Rightarrow>
        code_at c p bs \<and> consts_at c k vs \<and> k + length vs \<le> 256 \<and> length bs \<le> 65535)"

definition has_room :: "thread \<Rightarrow> val list \<Rightarrow> expr \<Rightarrow> bool" where
  "has_room u xs e \<longleftrightarrow> int (stack_top u + length xs) + type_room e \<le> int (stack_capacity u)"

definition runs_to ::
  "env \<Rightarrow> vm_loop \<Rightarrow> nat \<Rightarrow> vm \<Rightarrow> thread \<Rightarrow> (bytes \<Rightarrow> (nat \<times> byte) option) \<Rightarrow> nat \<Rightarrow> val list \<Rightarrow> nat \<Rightarrow> expr \<Rightarrow> val \<Rightarrow> bool" where
  "runs_to E loop m vm u env p xs k e v \<longleftrightarrow>
     (case expr_code env k e of (bs, vs, ty) \<Rightarrow>
        reaches E loop m vm u p xs (p + length bs) (xs @ [v]) \<and> hint_ok ty v)"

lemma has_room_now: "has_room u xs e \<Longrightarrow> stack_top u + length xs < stack_capacity u"
  using type_room_pos [of e] by (simp add: has_room_def)

lemma has_room_le: "has_room u xs e \<Longrightarrow> int (length ys) + type_room e' \<le> int (length xs) + type_room e \<Longrightarrow> has_room u ys e'"
  by (simp add: has_room_def)

lemma unary_code_runs:
  assumes r: "runs vm f c u" and room: "stack_top u + length xs < stack_capacity u"
    and code: "unary_code op ty = (b, ty')" "at (code c) p = Some b"
    and v: "unary_value (vheap vm) op a = Some v" "hint_ok ty a" "op = TOKEN_MINUS \<or> op = TOKEN_HASH \<or> op = KW ''NOT''"
  shows "reaches env loop m vm u p (xs @ [a]) (p + 1) (xs @ [v]) \<and> hint_ok ty' v"
proof (cases "op = KW ''NOT''")
  case True
  then have b: "b = OP_NOT" "ty' = TYPEHINT_BOOL" "map_option VBool (is_falsey (vheap vm) a) = Some v"
    using code(1) v(1) by (auto simp: unary_code_def unary_value_def)
  then have "hint_ok ty' v" by auto
  then show ?thesis using unary_step [OF r code(2) room, of a v] b by blast
next
  case False
  then have b: "b = OP_NEGATE" "map_option (\<lambda>d. VNumber (dneg d)) (as_number a) = Some v"
      "ty' = (if is_numeric_type ty then ty else TYPEHINT_ANY)"
    using code(1) v(1,3) by (auto simp: unary_code_def unary_value_def)
  then have "hint_ok ty' v" by (auto simp: hint_ok_def is_numeric_type_def)
  then show ?thesis using unary_step [OF r code(2) room, of a v] b by blast
qed

text \<open>Code that is placed, part by part.\<close>

lemma length_jump_bytes [simp]: "length (jump_bytes n) = 2"
  by (simp add: jump_bytes_def)

lemma placedI:
  assumes "wf_expr env e" "expr_code env k e = (bs, vs, ty)" "code_at c p bs" "consts_at c k vs"
    "k + length vs \<le> 256" "length bs \<le> 65535"
  shows "placed c p k env e"
  using assms by (simp add: placed_def)

lemma placedD:
  assumes "placed c p k env e" "expr_code env k e = (bs, vs, ty)"
  shows "wf_expr env e" "code_at c p bs" "consts_at c k vs" "k + length vs \<le> 256" "length bs \<le> 65535"
  using assms by (simp_all add: placed_def)

lemmas code_parts = code_at_Cons numeral_2_eq_2 numeral_3_eq_3

lemma placed_and:
  assumes "placed c p k env (And l g)" "expr_code env k l = (bs, vs, lt)" "expr_code env (k + length vs) g = (cs, ws, gt)"
  obtains n where "placed c p k env l" "placed c (p + length bs + 4) (k + length vs) env g"
    "at (code c) (p + length bs) = Some OP_JUMP_IF_FALSE" "short_at (code c) (p + length bs + 1) = Some n"
    "unat n = length cs + 1" "at (code c) (p + length bs + 3) = Some OP_POP"
proof -
  have e: "expr_code env k (And l g) = (bs @ [OP_JUMP_IF_FALSE] @ jump_bytes (length cs + 1) @ [OP_POP] @ cs, vs @ ws, TYPEHINT_ANY)"
    using assms(2,3) by simp
  note d = placedD [OF assms(1) e]
  have q: "p + length bs + 4 = Suc (Suc (Suc (Suc (p + length bs))))" by simp
  have c: "code_at c p bs" "at (code c) (p + length bs) = Some OP_JUMP_IF_FALSE"
      "code_at c (p + length bs + 1) (jump_bytes (length cs + 1))" "at (code c) (p + length bs + 3) = Some OP_POP"
      "code_at c (p + length bs + 4) cs"
    using d(2) unfolding q by (simp_all add: code_parts del: at_Some_iff)
  have "length cs + 1 < 65536" using d(5) by simp
  then obtain n where "short_at (code c) (p + length bs + 1) = Some n" "unat n = length cs + 1"
    by (rule jump_bytes_at [OF c(3)])
  moreover have "placed c p k env l" by (rule placedI [OF _ assms(2) c(1)]) (use d in simp_all)
  moreover have "placed c (p + length bs + 4) (k + length vs) env g"
    by (rule placedI [OF _ assms(3) c(5)]) (use d in simp_all)
  ultimately show ?thesis using that c(2,4) by blast
qed

lemma placed_or:
  assumes "placed c p k env (Or l g)" "expr_code env k l = (bs, vs, lt)" "expr_code env (k + length vs) g = (cs, ws, gt)"
  obtains n n' where "placed c p k env l" "placed c (p + length bs + 7) (k + length vs) env g"
    "at (code c) (p + length bs) = Some OP_JUMP_IF_FALSE" "short_at (code c) (p + length bs + 1) = Some n" "unat n = 3"
    "at (code c) (p + length bs + 3) = Some OP_JUMP" "short_at (code c) (p + length bs + 3 + 1) = Some n'"
    "unat n' = length cs + 1" "at (code c) (p + length bs + 6) = Some OP_POP"
proof -
  have e: "expr_code env k (Or l g) = (bs @ [OP_JUMP_IF_FALSE] @ jump_bytes 3 @ [OP_JUMP] @
      jump_bytes (length cs + 1) @ [OP_POP] @ cs, vs @ ws, TYPEHINT_ANY)"
    using assms(2,3) by simp
  note d = placedD [OF assms(1) e]
  have q: "p + length bs + 7 = Suc (Suc (Suc (Suc (Suc (Suc (Suc (p + length bs)))))))"
      "p + length bs + 6 = Suc (Suc (Suc (Suc (Suc (Suc (p + length bs))))))" by simp_all
  have c: "code_at c p bs" "at (code c) (p + length bs) = Some OP_JUMP_IF_FALSE"
      "code_at c (p + length bs + 1) (jump_bytes 3)" "at (code c) (p + length bs + 3) = Some OP_JUMP"
      "code_at c (p + length bs + 3 + 1) (jump_bytes (length cs + 1))" "at (code c) (p + length bs + 6) = Some OP_POP"
      "code_at c (p + length bs + 7) cs"
    using d(2) unfolding q by (simp_all add: code_parts del: at_Some_iff)
  obtain n where n: "short_at (code c) (p + length bs + 1) = Some n" "unat n = 3"
    by (rule jump_bytes_at [OF c(3)]) simp
  have "length cs + 1 < 65536" using d(5) by simp
  then obtain n' where "short_at (code c) (p + length bs + 3 + 1) = Some n'" "unat n' = length cs + 1"
    by (rule jump_bytes_at [OF c(5)])
  moreover have "placed c p k env l" by (rule placedI [OF _ assms(2) c(1)]) (use d in simp_all)
  moreover have "placed c (p + length bs + 7) (k + length vs) env g"
    by (rule placedI [OF _ assms(3) c(7)]) (use d in simp_all)
  ultimately show ?thesis using that n c(2,4,6) by blast
qed

lemma placed_cond:
  assumes "placed c p k env (Cond q l g)" "expr_code env k q = (bs, vs, qt)"
    "expr_code env (k + length vs) l = (cs, ws, lt)" "expr_code env (k + length vs + length ws) g = (ds, us, gt)"
  obtains n n' where "placed c p k env q" "placed c (p + length bs + 4) (k + length vs) env l"
    "placed c (p + length bs + 4 + length cs + 4) (k + length vs + length ws) env g"
    "at (code c) (p + length bs) = Some OP_JUMP_IF_FALSE" "short_at (code c) (p + length bs + 1) = Some n"
    "unat n = length cs + 4" "at (code c) (p + length bs + 3) = Some OP_POP"
    "at (code c) (p + length bs + 4 + length cs) = Some OP_JUMP"
    "short_at (code c) (p + length bs + 4 + length cs + 1) = Some n'"
    "unat n' = length ds + 1" "at (code c) (p + length bs + 4 + length cs + 3) = Some OP_POP"
proof -
  have e: "expr_code env k (Cond q l g) = (bs @ [OP_JUMP_IF_FALSE] @ jump_bytes (length cs + 4) @ [OP_POP] @ cs @
          [OP_JUMP] @ jump_bytes (length ds + 1) @ [OP_POP] @ ds, vs @ ws @ us, if lt = gt then lt else TYPEHINT_ANY)"
    using assms(2-4) by simp
  note d = placedD [OF assms(1) e]
  let ?r = "p + length bs + 4 + length cs"
  have q: "p + length bs + 4 = Suc (Suc (Suc (Suc (p + length bs))))" "?r + 4 = Suc (Suc (Suc (Suc ?r)))" by simp_all
  have "code_at c (p + length bs + 4) (cs @ [OP_JUMP] @ jump_bytes (length ds + 1) @ [OP_POP] @ ds)"
    and c: "code_at c p bs" "at (code c) (p + length bs) = Some OP_JUMP_IF_FALSE"
      "code_at c (p + length bs + 1) (jump_bytes (length cs + 4))" "at (code c) (p + length bs + 3) = Some OP_POP"
    using d(2) unfolding q(1) by (simp_all add: code_parts del: at_Some_iff)
  then have c2: "code_at c (p + length bs + 4) cs" "at (code c) ?r = Some OP_JUMP"
      "code_at c (?r + 1) (jump_bytes (length ds + 1))" "at (code c) (?r + 3) = Some OP_POP" "code_at c (?r + 4) ds"
    unfolding q(2) by (simp_all add: code_parts del: at_Some_iff)
  have "length cs + 4 < 65536" using d(5) by simp
  then obtain n where n: "short_at (code c) (p + length bs + 1) = Some n" "unat n = length cs + 4"
    by (rule jump_bytes_at [OF c(3)])
  have "length ds + 1 < 65536" using d(5) by simp
  then obtain n' where "short_at (code c) (?r + 1) = Some n'" "unat n' = length ds + 1"
    by (rule jump_bytes_at [OF c2(3)])
  moreover have "placed c p k env q" by (rule placedI [OF _ assms(2) c(1)]) (use d in simp_all)
  moreover have "placed c (p + length bs + 4) (k + length vs) env l"
    by (rule placedI [OF _ assms(3) c2(1)]) (use d in simp_all)
  moreover have "placed c (?r + 4) (k + length vs + length ws) env g"
    by (rule placedI [OF _ assms(4) c2(5)]) (use d in \<open>simp_all add: add.assoc\<close>)
  ultimately show ?thesis using that n c(2,4) c2(2,4) by blast
qed

lemma reaches_to: "reaches E loop m vm u p xs q ys \<Longrightarrow> q' = q \<Longrightarrow> reaches E loop m vm u p xs q' ys"
  by simp

lemma runs_toI:
  assumes "reaches E loop m vm u p xs q (xs @ [v])" "expr_code env k e = (bs, vs, ty)" "q = p + length bs" "hint_ok ty v"
  shows "runs_to E loop m vm u env p xs k e v"
  using assms by (simp add: runs_to_def)

lemma placed_unary:
  assumes "placed c p k env (Unary op e)"
  shows "placed c p k env e"
  using assms by (cases "expr_code env k e") (auto simp: placed_def Let_def split: prod.splits)

lemma expr_runs:
  assumes r: "runs vm f c u" and loc: "locals_ok env \<rho> f u"
  shows "eval (pow_fn E) (vheap vm) \<rho> e = Some v \<Longrightarrow> placed c p k env e \<Longrightarrow> has_room u xs e \<Longrightarrow>
    runs_to E loop m vm u env p xs k e v"
proof (induction e arbitrary: v p k xs)
  case (Number s)
  then have v: "v = VNumber (number_value s)" and "const_at c k = Some v" "k < 256"
    by (auto simp: placed_def consts_at_def)
  with Number show ?case
    unfolding v using constant_step [OF r, of p "of_nat k" "VNumber (number_value s)" xs E loop m] has_room_now [OF Number(3)]
    by (simp add: runs_to_def placed_def code_at_Cons unat_of_nat del: at_Some_iff)
next
  case (Keyword x)
  have room: "stack_top u + length xs < stack_capacity u" using has_room_now [OF Keyword(3)] .
  have s: "step E loop m OP_NIL w = go_on (push VNil w)" "step E loop m OP_TRUE w = go_on (push (VBool True) w)"
    "step E loop m OP_FALSE w = go_on (push (VBool False) w)" for w
    by (simp_all add: step_def)
  show ?case using Keyword push_step [OF r _ room s(1)] push_step [OF r _ room s(2)] push_step [OF r _ room s(3)]
    by (auto simp: runs_to_def placed_def code_at_Cons simp del: at_Some_iff)
next
  case (Local x)
  then obtain i ty where i: "env x = Some (i, ty)" by (auto simp: placed_def)
  then have l: "fslots f + unat (of_nat i :: byte) < stack_top u"
      "stack u (fslots f + unat (of_nat i :: byte)) = Some v" "hint_ok ty v"
    using loc Local(1) by (auto simp: locals_ok_def)
  have "at (code c) p = Some OP_GET_LOCAL" "at (code c) (p + 1) = Some (of_nat i)"
    using Local(2) i by (simp_all add: placed_def code_at_Cons del: at_Some_iff)
  from local_step [OF r this l(1,2) has_room_now [OF Local(3)], of E loop m] i l(3)
  show ?case by (simp add: runs_to_def)
next
  case (Unary op e)
  obtain a where a: "eval (pow_fn E) (vheap vm) \<rho> e = Some a" "unary_value (vheap vm) op a = Some v"
    using Unary(2) by (auto simp: bind_eq_Some_conv)
  have room: "has_room u xs e" using Unary(4) by (simp add: has_room_def)
  obtain bs vs ty where c: "expr_code env k e = (bs, vs, ty)" by (rule prod_cases3)
  obtain b ty' where b: "unary_code op ty = (b, ty')" by fastforce
  have at: "at (code c) (p + length bs) = Some b" and op: "op = TOKEN_MINUS \<or> op = TOKEN_HASH \<or> op = KW ''NOT''"
    using Unary(3) c b by (auto simp: placed_def code_at_first simp del: at_Some_iff)
  have 1: "reaches E loop m vm u p xs (p + length bs) (xs @ [a])" "hint_ok ty a"
    using Unary(1) [OF a(1) placed_unary [OF Unary(3)] room] c by (simp_all add: runs_to_def)
  have "reaches E loop m vm u (p + length bs) (xs @ [a]) (p + length bs + 1) (xs @ [v]) \<and> hint_ok ty' v"
    by (rule unary_code_runs [OF r has_room_now [OF room] b at a(2) 1(2) op])
  then show ?case using reaches_trans [OF 1(1)] c b by (auto simp: runs_to_def)
next
  case (Binary op l g)
  obtain a b where v: "eval (pow_fn E) (vheap vm) \<rho> l = Some a" "eval (pow_fn E) (vheap vm) \<rho> g = Some b"
      "binary_value (pow_fn E) (vheap vm) op a b = Some v"
    using Binary(3) by (auto simp: bind_eq_Some_conv)
  obtain bs vs lt where c1: "expr_code env k l = (bs, vs, lt)" by (rule prod_cases3)
  obtain cs ws gt where c2: "expr_code env (k + length vs) g = (cs, ws, gt)" by (rule prod_cases3)
  obtain ops ty where c3: "binary_code op lt gt = Some (ops, ty)"
    using Binary(4) binary_code_Some [of op lt gt] by (auto simp: placed_def)
  have p: "placed c p k env l" "placed c (p + length bs) (k + length vs) env g" "code_at c (p + length bs + length cs) ops"
    using Binary(4) c1 c2 c3 by (auto simp: placed_def)
  have room: "has_room u xs l" "has_room u (xs @ [a]) g" "stack_top u + length xs < stack_capacity u"
    using Binary(5) has_room_now [of u xs l] by (auto simp: has_room_def)
  have 1: "reaches E loop m vm u p xs (p + length bs) (xs @ [a])"
    using Binary(1) [OF v(1) p(1) room(1)] c1 by (simp add: runs_to_def)
  have 2: "reaches E loop m vm u (p + length bs) (xs @ [a]) (p + length bs + length cs) (xs @ [a, b])"
    using Binary(2) [OF v(2) p(2) room(2)] c2 by (simp add: runs_to_def)
  have 3: "reaches E loop m vm u (p + length bs + length cs) (xs @ [a, b]) (p + length bs + length cs + length ops) (xs @ [v])
      \<and> hint_ok ty v"
    by (rule binary_code_runs [OF r room(3) c3 p(3) v(3)])
  show ?case using reaches_trans [OF reaches_trans [OF 1 2]] 3 c1 c2 c3 by (auto simp: runs_to_def add.assoc)
next
  case (And l g)
  obtain a b where v: "eval (pow_fn E) (vheap vm) \<rho> l = Some a" "is_falsey (vheap vm) a = Some b"
      "if b then v = a else eval (pow_fn E) (vheap vm) \<rho> g = Some v"
    using And(3) by (auto simp: bind_eq_Some_conv split: if_splits)
  obtain bs vs lt where c1: "expr_code env k l = (bs, vs, lt)" by (rule prod_cases3)
  obtain cs ws gt where c2: "expr_code env (k + length vs) g = (cs, ws, gt)" by (rule prod_cases3)
  let ?q = "p + length bs"
  obtain n where p: "placed c p k env l" "placed c (?q + 4) (k + length vs) env g"
      "at (code c) ?q = Some OP_JUMP_IF_FALSE" "short_at (code c) (?q + 1) = Some n"
      "unat n = length cs + 1" "at (code c) (?q + 3) = Some OP_POP"
    by (rule placed_and [OF And(4) c1 c2])
  have room: "has_room u xs l" "has_room u xs g" using And(5) by (auto simp: has_room_def)
  have "reaches E loop m vm u p xs ?q (xs @ [a])"
    using And(1) [OF v(1) p(1) room(1)] c1 by (simp add: runs_to_def)
  from reaches_trans [OF this jump_if_false_step [OF r p(3,4) v(2), of E loop m]]
  have 1: "reaches E loop m vm u p xs (?q + 3 + (if b then unat n else 0)) (xs @ [a])" .
  show ?case
  proof (cases b)
    case False
    have 2: "reaches E loop m vm u p xs (?q + 3) (xs @ [a])" using 1 False by simp
    have 3: "reaches E loop m vm u (?q + 3) (xs @ [a]) (?q + 4) xs"
      using pop_step [OF r p(6), of E loop m xs a] by (simp add: eval_nat_numeral)
    have "reaches E loop m vm u (?q + 4) xs (?q + 4 + length cs) (xs @ [v])"
      using And(2) [OF _ p(2) room(2), of v] v(3) False c2 by (simp add: runs_to_def)
    from reaches_trans [OF reaches_trans [OF 2 3] this] show ?thesis
      by (rule runs_toI, simp add: c1 c2) simp_all
  next
    case True
    with 1 v(3) have "reaches E loop m vm u p xs (?q + 3 + unat n) (xs @ [v])" by simp
    then show ?thesis by (rule runs_toI, simp add: c1 c2) (use p(5) in simp_all)
  qed
next
  case (Or l g)
  obtain a b where v: "eval (pow_fn E) (vheap vm) \<rho> l = Some a" "is_falsey (vheap vm) a = Some b"
      "if b then eval (pow_fn E) (vheap vm) \<rho> g = Some v else v = a"
    using Or(3) by (auto simp: bind_eq_Some_conv split: if_splits)
  obtain bs vs lt where c1: "expr_code env k l = (bs, vs, lt)" by (rule prod_cases3)
  obtain cs ws gt where c2: "expr_code env (k + length vs) g = (cs, ws, gt)" by (rule prod_cases3)
  let ?q = "p + length bs"
  obtain n n' where p: "placed c p k env l" "placed c (?q + 7) (k + length vs) env g"
      "at (code c) ?q = Some OP_JUMP_IF_FALSE" "short_at (code c) (?q + 1) = Some n" "unat n = 3"
      "at (code c) (?q + 3) = Some OP_JUMP" "short_at (code c) (?q + 3 + 1) = Some n'"
      "unat n' = length cs + 1" "at (code c) (?q + 6) = Some OP_POP"
    by (rule placed_or [OF Or(4) c1 c2])
  have room: "has_room u xs l" "has_room u xs g" using Or(5) by (auto simp: has_room_def)
  have "reaches E loop m vm u p xs ?q (xs @ [a])"
    using Or(1) [OF v(1) p(1) room(1)] c1 by (simp add: runs_to_def)
  from reaches_trans [OF this jump_if_false_step [OF r p(3,4) v(2), of E loop m]]
  have 1: "reaches E loop m vm u p xs (?q + 3 + (if b then unat n else 0)) (xs @ [a])" .
  show ?case
  proof (cases b)
    case True
    have 2: "reaches E loop m vm u p xs (?q + 6) (xs @ [a])" by (rule reaches_to [OF 1]) (simp add: True p(5))
    have 3: "reaches E loop m vm u (?q + 6) (xs @ [a]) (?q + 7) xs"
      using pop_step [OF r p(9), of E loop m xs a] by (simp add: eval_nat_numeral)
    have "reaches E loop m vm u (?q + 7) xs (?q + 7 + length cs) (xs @ [v])"
      using Or(2) [OF _ p(2) room(2), of v] v(3) True c2 by (simp add: runs_to_def)
    from reaches_trans [OF reaches_trans [OF 2 3] this] show ?thesis
      by (rule runs_toI, simp add: c1 c2) simp_all
  next
    case False
    have 2: "reaches E loop m vm u p xs (?q + 3) (xs @ [a])" using 1 False by simp
    from reaches_trans [OF this jump_step [OF r p(6,7)]]
    have "reaches E loop m vm u p xs (?q + 3 + 3 + unat n') (xs @ [v])" using False v(3) by simp
    then show ?thesis by (rule runs_toI, simp add: c1 c2) (use p(8) in simp_all)
  qed
next
  case (Cond q l g)
  obtain a b where v: "eval (pow_fn E) (vheap vm) \<rho> q = Some a" "is_falsey (vheap vm) a = Some b"
      "eval (pow_fn E) (vheap vm) \<rho> (if b then g else l) = Some v"
    using Cond(4) by (auto simp: bind_eq_Some_conv split: if_splits)
  obtain bs vs qt where c1: "expr_code env k q = (bs, vs, qt)" by (rule prod_cases3)
  obtain cs ws lt where c2: "expr_code env (k + length vs) l = (cs, ws, lt)" by (rule prod_cases3)
  obtain ds us gt where c3: "expr_code env (k + length vs + length ws) g = (ds, us, gt)" by (rule prod_cases3)
  let ?q = "p + length bs" and ?r = "p + length bs + 4 + length cs"
  obtain n n' where p: "placed c p k env q" "placed c (?q + 4) (k + length vs) env l"
      "placed c (?r + 4) (k + length vs + length ws) env g"
      "at (code c) ?q = Some OP_JUMP_IF_FALSE" "short_at (code c) (?q + 1) = Some n"
      "unat n = length cs + 4" "at (code c) (?q + 3) = Some OP_POP" "at (code c) ?r = Some OP_JUMP"
      "short_at (code c) (?r + 1) = Some n'" "unat n' = length ds + 1" "at (code c) (?r + 3) = Some OP_POP"
    by (rule placed_cond [OF Cond(5) c1 c2 c3])
  have room: "has_room u xs q" "has_room u xs l" "has_room u xs g" using Cond(6) by (auto simp: has_room_def)
  have ty: "hint_ok lt v \<or> hint_ok gt v \<Longrightarrow> lt = gt \<Longrightarrow> hint_ok lt v" by auto
  have "reaches E loop m vm u p xs ?q (xs @ [a])"
    using Cond(1) [OF v(1) p(1) room(1)] c1 by (simp add: runs_to_def)
  from reaches_trans [OF this jump_if_false_step [OF r p(4,5) v(2), of E loop m]]
  have 1: "reaches E loop m vm u p xs (?q + 3 + (if b then unat n else 0)) (xs @ [a])" .
  show ?case
  proof (cases b)
    case False
    have 2: "reaches E loop m vm u p xs (?q + 3) (xs @ [a])" using 1 False by simp
    have 3: "reaches E loop m vm u (?q + 3) (xs @ [a]) (?q + 4) xs"
      using pop_step [OF r p(7), of E loop m xs a] by (simp add: eval_nat_numeral)
    have 4: "reaches E loop m vm u (?q + 4) xs ?r (xs @ [v]) \<and> hint_ok lt v"
      using Cond(2) [OF _ p(2) room(2), of v] v(3) False c2 by (simp add: runs_to_def)
    have "reaches E loop m vm u p xs (?r + 3 + unat n') (xs @ [v])"
      by (rule reaches_trans [OF reaches_trans [OF reaches_trans [OF 2 3] conjunct1 [OF 4]] jump_step [OF r p(8,9)]])
    then show ?thesis by (rule runs_toI, simp add: c1 c2 c3) (use p(10) 4 in auto)
  next
    case True
    have 2: "reaches E loop m vm u p xs (?r + 3) (xs @ [a])" by (rule reaches_to [OF 1]) (simp add: True p(6))
    have 3: "reaches E loop m vm u (?r + 3) (xs @ [a]) (?r + 4) xs"
      using pop_step [OF r p(11), of E loop m xs a] by (simp add: eval_nat_numeral)
    have 4: "reaches E loop m vm u (?r + 4) xs (?r + 4 + length ds) (xs @ [v]) \<and> hint_ok gt v"
      using Cond(3) [OF _ p(3) room(3), of v] v(3) True c3 by (simp add: runs_to_def)
    from reaches_trans [OF reaches_trans [OF 2 3] conjunct1 [OF 4]] show ?thesis
      by (rule runs_toI, simp add: c1 c2 c3) (use 4 in auto)
  qed
qed

section \<open>Compiling and running\<close>

text \<open>A chunk that begins with the code and the constants of another one.\<close>

definition extends :: "chunk \<Rightarrow> chunk \<Rightarrow> bool" where
  "extends c d \<longleftrightarrow> take (length (code d)) (code c) = code d \<and>
     take (length (va_values (constants d))) (va_values (constants c)) = va_values (constants d)"

lemma take_at: "take (length ys) xs = ys \<Longrightarrow> i < length ys \<Longrightarrow> at xs i = Some (ys ! i)"
  by (metis at_Some_iff length_take min_less_iff_conj nth_take)

lemma extends_placed:
  assumes "extends c (cur_chunk st')" "emits st bs vs st'" "expr_code env (length (cur_consts st)) e = (bs, vs, ty)"
    and "wf_expr env e" "ready env (length (cur_consts st)) e st"
  shows "placed c (length (cur_code st)) (length (cur_consts st)) env e"
proof (rule placedI [OF assms(4,3)])
  have c: "cur_code st' = cur_code st @ bs" "cur_consts st' = cur_consts st @ vs"
    using assms(2) by (simp_all add: emits_def)
  show "code_at c (length (cur_code st)) bs"
    unfolding code_at_def
  proof (intro allI impI)
    fix i assume "i < length bs"
    then have "at (code c) (length (cur_code st) + i) = Some ((cur_code st @ bs) ! (length (cur_code st) + i))"
      using assms(1) c(1) by (intro take_at) (simp_all add: extends_def)
    then show "at (code c) (length (cur_code st) + i) = Some (bs ! i)" by simp
  qed
  show "consts_at c (length (cur_consts st)) vs"
    unfolding consts_at_def const_at_def
  proof (intro allI impI)
    fix i assume "i < length vs"
    then have "at (va_values (constants c)) (length (cur_consts st) + i) =
        Some ((cur_consts st @ vs) ! (length (cur_consts st) + i))"
      using assms(1) c(2) by (intro take_at) (simp_all add: extends_def)
    then show "at (va_values (constants c)) (length (cur_consts st) + i) = Some (vs ! i)" by simp
  qed
qed (use assms(3,5) in \<open>auto simp: ready_def\<close>)

text \<open>Both theorems below run the code that \<open>expression\<close> has added.\<close>

lemma compiled_runs:
  assumes compile: "map shape ts = print_expr PREC_ASSIGNMENT e" "upcoming st (ts @ t # rest)" "stops PREC_ASSIGNMENT t"
      "wf_expr (var_env st) e" "ready (var_env st) (length (cur_consts st)) e st" "expr_depth e + 1 < n"
      "expression (compile_call n) st = Some st'"
    and run: "runs vm f c u" "extends c (cur_chunk st')" "locals_ok (var_env st) \<rho> f u" "has_room u [] e"
      "eval (pow_fn E) (vheap vm) \<rho> e = Some v"
  obtains k w where "exec E loop m k (on vm u (length (cur_code st))) = Some (on vm w (length (cur_code st')))"
    "holding u [v] w" "hint_ok (type_stack st' (nat (type_top st))) v"
proof -
  obtain bs vs ty where c: "expr_code (var_env st) (length (cur_consts st)) e = (bs, vs, ty)" by (rule prod_cases3)
  obtain s where "expression (compile_call n) st = Some s" "emits st bs vs s" "pushes st ty s"
    using expression_code [OF compile(1-6) c] by blast
  then have s: "emits st bs vs st'" "pushes st ty st'" using compile(7) by simp_all
  have "runs_to E loop m vm u (var_env st) (length (cur_code st)) [] (length (cur_consts st)) e v"
    by (rule expr_runs [OF run(1,3,5) extends_placed [OF run(2) s(1) c compile(4,5)] run(4)])
  then have r: "reaches E loop m vm u (length (cur_code st)) [] (length (cur_code st')) [v]" "hint_ok ty v"
    using c s(1) by (simp_all add: runs_to_def emits_def)
  obtain k w where "exec E loop m k (on vm u (length (cur_code st))) = Some (on vm w (length (cur_code st')))"
      "holding u [v] w"
    using r(1) holding_Nil [of u] unfolding reaches_def by blast
  moreover have "type_stack st' (nat (type_top st)) = ty" using s(2) by (simp add: pushes_def)
  ultimately show ?thesis using that r(2) by simp
qed


section \<open>Expressions whose operands are hinted\<close>

definition hint_of :: "(bytes \<Rightarrow> (nat \<times> byte) option) \<Rightarrow> expr \<Rightarrow> byte" where
  "hint_of env e = snd (snd (expr_code env 0 e))"

lemma hint_of_code: "snd (snd (expr_code env k e)) = hint_of env e"
proof -
  have "snd (snd (expr_code env k e)) = snd (snd (expr_code env j e))" for j
  proof (induction e arbitrary: k j)
    case (Unary op e)
    show ?case using Unary [of k j] by (cases "expr_code env k e"; cases "expr_code env j e") (simp split: prod.split)
  next
    case (Binary op l g)
    obtain bs vs lt where c1: "expr_code env k l = (bs, vs, lt)" by (rule prod_cases3)
    obtain bs' vs' lt' where c2: "expr_code env j l = (bs', vs', lt')" by (rule prod_cases3)
    show ?case using Binary(1) [of k j] Binary(2) [of "k + length vs" "j + length vs'"] c1 c2
      by (cases "expr_code env (k + length vs) g"; cases "expr_code env (j + length vs') g") (simp split: prod.split)
  next
    case (Cond q l g)
    obtain bs vs qt where c1: "expr_code env k q = (bs, vs, qt)" by (rule prod_cases3)
    obtain bs' vs' qt' where c1': "expr_code env j q = (bs', vs', qt')" by (rule prod_cases3)
    obtain cs ws lt where c2: "expr_code env (k + length vs) l = (cs, ws, lt)" by (rule prod_cases3)
    obtain cs' ws' lt' where c2': "expr_code env (j + length vs') l = (cs', ws', lt')" by (rule prod_cases3)
    show ?case
      using Cond(2) [of "k + length vs" "j + length vs'"]
        Cond(3) [of "k + length vs + length ws" "j + length vs' + length ws'"] c1 c1' c2 c2'
      by (cases "expr_code env (k + length vs + length ws) g"; cases "expr_code env (j + length vs' + length ws') g") simp
  qed (simp_all split: prod.split option.split)
  from this [of 0] show ?thesis by (simp add: hint_of_def)
qed

text \<open>Every arithmetic operator has operands with a number hint.\<close>

definition hinted_unary :: "token_type \<Rightarrow> byte \<Rightarrow> bool" where
  "hinted_unary op ty \<longleftrightarrow> op = KW ''NOT'' \<or> op = TOKEN_MINUS \<and> is_numeric_type ty"

definition hinted_binary :: "token_type \<Rightarrow> byte \<Rightarrow> byte \<Rightarrow> bool" where
  "hinted_binary op lt rt \<longleftrightarrow> is_numeric_type lt \<and> is_numeric_type rt \<and>
     op \<in> {TOKEN_PLUS, TOKEN_MINUS, TOKEN_STAR, TOKEN_SLASH, TOKEN_POWER, TOKEN_INT_DIV, TOKEN_EQUAL_EQUAL,
       TOKEN_BANG_EQUAL, TOKEN_LESS, TOKEN_GREATER, TOKEN_LESS_EQUAL, TOKEN_GREATER_EQUAL}"

primrec well_hinted :: "(bytes \<Rightarrow> (nat \<times> byte) option) \<Rightarrow> expr \<Rightarrow> bool" where
  "well_hinted env (Unary op e) \<longleftrightarrow>
     well_hinted env e \<and> hinted_unary op (hint_of env e)"
| "well_hinted env (Binary op l r) \<longleftrightarrow>
     well_hinted env l \<and> well_hinted env r \<and> hinted_binary op (hint_of env l) (hint_of env r)"
| "well_hinted env (And l r) \<longleftrightarrow> well_hinted env l \<and> well_hinted env r"
| "well_hinted env (Or l r) \<longleftrightarrow> well_hinted env l \<and> well_hinted env r"
| "well_hinted env (Cond c a b) \<longleftrightarrow> well_hinted env c \<and> well_hinted env a \<and> well_hinted env b"
| "well_hinted env (Number s) \<longleftrightarrow> True"
| "well_hinted env (Keyword k) \<longleftrightarrow> True"
| "well_hinted env (Local x) \<longleftrightarrow> True"

text \<open>A value that can be tested for truth: not a pointer to nothing.\<close>

definition sound :: "heap \<Rightarrow> byte \<Rightarrow> val \<Rightarrow> bool" where
  "sound h ty v \<longleftrightarrow> hint_ok ty v \<and> is_falsey h v \<noteq> None"

lemma sound_simps [simp]:
  "sound h ty (VNumber x) \<longleftrightarrow> hint_ok ty (VNumber x)" "sound h ty (VBool b) \<longleftrightarrow> hint_ok ty (VBool b)"
  "sound h ty VNil \<longleftrightarrow> hint_ok ty VNil"
  by (simp_all add: sound_def is_falsey_def)

lemma number_hint: "hint_ok ty v \<Longrightarrow> is_numeric_type ty \<Longrightarrow> \<exists>x. v = VNumber x"
  by (simp add: hint_ok_def)

lemma hinted_binary_value:
  assumes "hinted_binary op lt rt" "binary_code op lt rt = Some (ops, ty)"
  shows "\<exists>v. binary_value pw h op (VNumber x) (VNumber y) = Some v \<and> sound h ty v"
proof -
  consider "op \<in> {TOKEN_PLUS, TOKEN_MINUS, TOKEN_STAR, TOKEN_SLASH, TOKEN_POWER, TOKEN_INT_DIV}"
    | "op \<in> {TOKEN_LESS, TOKEN_GREATER, TOKEN_LESS_EQUAL, TOKEN_GREATER_EQUAL}"
    | "op \<in> {TOKEN_EQUAL_EQUAL, TOKEN_BANG_EQUAL}"
    using assms(1) by (auto simp: hinted_binary_def)
  then show ?thesis
  proof cases
    case 1
    then have "binary_value pw h op (VNumber x) (VNumber y) = number_value2 pw op x y"
      by (auto simp: binary_value_def)
    moreover obtain d where d: "number_value2 pw op x y = Some (VNumber d)"
      using 1 by (auto simp: arithmetic_values)
    moreover have "hint_ok ty (VNumber d)"
      using number_code [OF assms(2), of "demo_env\<lparr>pow_fn := pw\<rparr>" x y "VNumber d"] d 1 by auto
    ultimately show ?thesis by auto
  next
    case 2
    then have "binary_value pw h op (VNumber x) (VNumber y) = number_value2 pw op x y"
      by (auto simp: binary_value_def)
    moreover obtain b where b: "number_value2 pw op x y = Some (VBool b)"
      using 2 by (auto simp: compare_values)
    moreover have "hint_ok ty (VBool b)" using compare_code [OF assms(2) b 2] by auto
    ultimately show ?thesis by auto
  next
    case 3
    then show ?thesis using assms(2)
      by (auto simp: binary_value_def equal_value_def values_equal_simple_def compare_codes)
  qed
qed

lemma hinted_expression_has_value:
  assumes locals: "\<And>x i ty. env x = Some (i, ty) \<Longrightarrow> \<exists>v. \<rho> x = Some v \<and> sound h ty v"
  shows "wf_expr env e \<Longrightarrow> well_hinted env e \<Longrightarrow> \<exists>v. eval pw h \<rho> e = Some v \<and> sound h (hint_of env e) v"
proof (induction e)
  case (Local x)
  then obtain i ty where "env x = Some (i, ty)" by auto
  then show ?case using locals by (auto simp: hint_of_def)
next
  case (Unary op e)
  then obtain v where v: "eval pw h \<rho> e = Some v" "sound h (hint_of env e) v" by auto
  obtain bs vs ty where c: "expr_code env 0 e = (bs, vs, ty)" by (rule prod_cases3)
  then have h: "hint_of env (Unary op e) = snd (unary_code op (hint_of env e))"
    by (simp add: hint_of_def split: prod.split)
  show ?case
  proof (cases "op = KW ''NOT''")
    case True
    then show ?thesis using v h by (auto simp: unary_value_def unary_code_def sound_def is_falsey_def)
  next
    case False
    then have "op = TOKEN_MINUS" "is_numeric_type (hint_of env e)" using Unary(3) by (simp_all add: hinted_unary_def)
    moreover from this obtain x where "v = VNumber x" using v(2) number_hint by (auto simp: sound_def)
    ultimately show ?thesis using v h
      by (auto simp: unary_value_def unary_code_def as_number_def hint_ok_def is_numeric_type_def)
  qed
next
  case (Binary op l g)
  then obtain a b where v: "eval pw h \<rho> l = Some a" "sound h (hint_of env l) a" "eval pw h \<rho> g = Some b"
      "sound h (hint_of env g) b" by auto
  have n: "is_numeric_type (hint_of env l)" "is_numeric_type (hint_of env g)"
    using Binary(4) by (simp_all add: hinted_binary_def)
  obtain x where x: "a = VNumber x" using v(2) n(1) number_hint by (auto simp: sound_def)
  obtain y where y: "b = VNumber y" using v(4) n(2) number_hint by (auto simp: sound_def)
  obtain ops ty where c: "binary_code op (hint_of env l) (hint_of env g) = Some (ops, ty)"
    using Binary(3) binary_code_Some by fastforce
  obtain w where w: "binary_value pw h op (VNumber x) (VNumber y) = Some w" "sound h ty w"
    using hinted_binary_value [OF _ c, of pw h x y] Binary(4) by auto
  obtain bs vs lt where c1: "expr_code env 0 l = (bs, vs, lt)" by (rule prod_cases3)
  obtain cs ws gt where c2: "expr_code env (length vs) g = (cs, ws, gt)" by (rule prod_cases3)
  have "lt = hint_of env l" "gt = hint_of env g" using hint_of_code [of env _ l] hint_of_code [of env _ g] c1 c2
    by (metis snd_conv)+
  then have "hint_of env (Binary op l g) = ty" using c c1 c2 unfolding hint_of_def by simp
  then show ?case using v w x y by simp
next
  case (Cond q l g)
  then obtain a b d where v: "eval pw h \<rho> q = Some a" "sound h (hint_of env q) a" "eval pw h \<rho> l = Some b"
      "sound h (hint_of env l) b" "eval pw h \<rho> g = Some d" "sound h (hint_of env g) d" by auto
  obtain bs vs qt where c1: "expr_code env 0 q = (bs, vs, qt)" by (rule prod_cases3)
  obtain cs ws lt where c2: "expr_code env (length vs) l = (cs, ws, lt)" by (rule prod_cases3)
  obtain ds us gt where c3: "expr_code env (length vs + length ws) g = (ds, us, gt)" by (rule prod_cases3)
  have "lt = hint_of env l" "gt = hint_of env g" using hint_of_code [of env _ l] hint_of_code [of env _ g] c2 c3
    by (metis snd_conv)+
  then have "hint_of env (Cond q l g) = (if hint_of env l = hint_of env g then hint_of env l else TYPEHINT_ANY)"
    using c1 c2 c3 unfolding hint_of_def by simp
  then show ?case using v by (auto simp: sound_def)
next
  case (Keyword k)
  show ?case by (simp add: hint_of_def)
next
  case (And l g)
  then obtain a b where v: "eval pw h \<rho> l = Some a" "sound h (hint_of env l) a" "eval pw h \<rho> g = Some b"
      "sound h (hint_of env g) b" by auto
  have "hint_of env (And l g) = TYPEHINT_ANY" by (simp add: hint_of_def split: prod.split)
  then show ?case using v by (auto simp: sound_def)
next
  case (Or l g)
  then obtain a b where v: "eval pw h \<rho> l = Some a" "sound h (hint_of env l) a" "eval pw h \<rho> g = Some b"
      "sound h (hint_of env g) b" by auto
  have "hint_of env (Or l g) = TYPEHINT_ANY" by (simp add: hint_of_def split: prod.split)
  then show ?case using v by (auto simp: sound_def)
qed (simp add: hint_of_def)

text \<open>The locals of the compiler are in the slots of the frame, as their hints say.\<close>

definition locals_sound :: "(bytes \<Rightarrow> (nat \<times> byte) option) \<Rightarrow> frame \<Rightarrow> thread \<Rightarrow> heap \<Rightarrow> bool" where
  "locals_sound env f u h \<longleftrightarrow>
     (\<forall>x i ty. env x = Some (i, ty) \<longrightarrow> fslots f + unat (of_nat i :: byte) < stack_top u \<and>
       (\<exists>v. stack u (fslots f + unat (of_nat i :: byte)) = Some v \<and> sound h ty v))"

definition slot_values :: "(bytes \<Rightarrow> (nat \<times> byte) option) \<Rightarrow> frame \<Rightarrow> thread \<Rightarrow> bytes \<Rightarrow> val option" where
  "slot_values env f u x =
     (case env x of None \<Rightarrow> None | Some (i, _) \<Rightarrow> stack u (fslots f + unat (of_nat i :: byte)))"

lemma locals_sound_ok:
  assumes "locals_sound env f u h"
  shows "locals_ok env (slot_values env f u) f u"
    "env x = Some (i, ty) \<Longrightarrow> \<exists>v. slot_values env f u x = Some v \<and> sound h ty v"
  using assms by (fastforce simp: locals_sound_def locals_ok_def slot_values_def sound_def)+


text \<open>The expression \<open>(x + 1) * 2 < 9 ? x : -x\<close>, with a local \<open>x\<close> that is hinted to be an integer.\<close>

definition typed_source :: bytes where
  "typed_source = bytes_of ''(x + 1) * 2 < 9 ? x : -x''"

definition typed_state :: cst where
  "typed_state =
     the (seq [init_compiler True, new_hidden ''x'', set_local_type 1 TYPEHINT_INT, advance]
       (start_state typed_source False empty_heap))"

definition typed_tokens :: "ctoken list" where
  "typed_tokens = pcur typed_state # scan_list 13 typed_source (lex typed_state)"

definition typed_expr :: expr where
  "typed_expr =
     (let x = Local (bytes_of ''x'') in
      Cond (Binary TOKEN_LESS
              (Binary TOKEN_STAR (Binary TOKEN_PLUS x (Number (bytes_of ''1''))) (Number (bytes_of ''2'')))
              (Number (bytes_of ''9'')))
        x (Unary TOKEN_MINUS x))"

definition typed_end :: ctoken where
  "typed_end = last (scan_list 14 typed_source (lex typed_state))"

definition typed_bytes :: bytes where
  "typed_bytes = [20, 1, 0, 0, 64, 0, 1, 66, 0, 2, 58, 42, 0, 6, 15, 20, 1, 41, 0, 4, 15, 20, 1, 12]"

definition typed_consts :: "val list" where
  "typed_consts = map (\<lambda>i. VNumber (dbl_of_int i)) [1, 2, 9]"

lemma typed_ready:
  "ready (var_env typed_state) (length (cur_consts typed_state)) typed_expr typed_state"
proof -
  let ?c = "expr_code (var_env typed_state) (length (cur_consts typed_state)) typed_expr"
  obtain bs vs ty where c: "?c = (bs, vs, ty)" by (rule prod_cases3)
  have "length (fst ?c) = 24" "length (cur_consts typed_state) + length (fst (snd ?c)) = 3" by code_simp+
  with c have "length bs \<le> 65535" "length (cur_consts typed_state) + length vs \<le> 256" by simp_all
  moreover have "compilers typed_state \<noteq> []" "\<not> in_table_entry typed_state"
    "0 \<le> type_top typed_state" "type_top typed_state + type_room typed_expr \<le> 512"
    by code_simp+
  ultimately show ?thesis unfolding ready_def c by simp
qed

lemma typed_parsed:
  "map shape typed_tokens = print_expr PREC_ASSIGNMENT typed_expr" "upcoming typed_state (typed_tokens @ [typed_end])"
  "stops PREC_ASSIGNMENT typed_end" "wf_expr (var_env typed_state) typed_expr" "expr_depth typed_expr + 1 < 10"
  by code_simp+

lemma typed_compiles:
  obtains st' where "expression (compile_call 10) typed_state = Some st'" "emits typed_state typed_bytes typed_consts st'"
    "pushes typed_state TYPEHINT_INT st'" "extends (demo_chunk typed_bytes typed_consts) (cur_chunk st')"
    "length (cur_code st') = 24"
proof -
  have "expr_code (var_env typed_state) (length (cur_consts typed_state)) typed_expr =
      (typed_bytes, typed_consts, TYPEHINT_INT)" by code_simp
  from expression_code [OF typed_parsed(1-4) typed_ready typed_parsed(5) this]
  obtain st' where s: "expression (compile_call 10) typed_state = Some st'" "emits typed_state typed_bytes typed_consts st'"
    "pushes typed_state TYPEHINT_INT st'" by blast
  have "cur_code typed_state = []" "cur_consts typed_state = []" "length typed_bytes = 24" by code_simp+
  then have c: "cur_code st' = typed_bytes" "cur_consts st' = typed_consts" "length (cur_code st') = 24"
    using s(2) by (simp_all add: emits_def)
  have "code (demo_chunk typed_bytes typed_consts) = typed_bytes"
    "va_values (constants (demo_chunk typed_bytes typed_consts)) = typed_consts" by code_simp+
  then have "extends (demo_chunk typed_bytes typed_consts) (cur_chunk st')" using c by (simp add: extends_def)
  from s this c(3) show ?thesis by (rule that)
qed

definition typed_vm :: vm where
  "typed_vm = demo_vm (demo_fn typed_bytes typed_consts) [VNil, VNumber (dbl_of_int 3)]\<lparr>disable_gc := True\<rparr>"

definition typed_thread :: thread where
  "typed_thread = demo_thread [VNil, VNumber (dbl_of_int 3)]"

lemma runs_typed: "runs typed_vm demo_frame (demo_chunk typed_bytes typed_consts) typed_thread"
  using runs_demo [of "demo_fn typed_bytes typed_consts" "[VNil, VNumber (dbl_of_int 3)]"]
  by (simp add: typed_vm_def typed_thread_def demo_fn_def)

lemma typed_env:
  "var_env typed_state y = (if y = bytes_of ''x'' then Some (1, TYPEHINT_INT) else if y = [] then Some (0, TYPEHINT_ANY) else None)"
proof -
  have l: "clocals (hd (compilers typed_state)) =
      [\<lparr>lname = [], ldepth = 0, lcaptured = False, ltype = TYPEHINT_ANY\<rparr>,
       \<lparr>lname = bytes_of ''x'', ldepth = 1, lcaptured = False, ltype = TYPEHINT_INT\<rparr>]"
    by code_simp
  have "rev [0..<2] = [1, 0 :: nat]" by code_simp
  then show ?thesis
    unfolding var_env_def find_local_def l by (auto simp: bytes_of_def numeral_2_eq_2)
qed

lemma typed_slots:
  "fslots demo_frame = 0" "stack_top typed_thread = 2" "stack_capacity typed_thread = 256"
  "stack typed_thread 0 = Some VNil" "stack typed_thread (Suc 0) = Some (VNumber (dbl_of_int 3))"
  by (simp_all add: typed_thread_def demo_frame_def)

lemma typed_room: "has_room typed_thread [] typed_expr"
  by (simp add: has_room_def typed_slots typed_expr_def Let_def)

lemma typed_locals: "locals_sound (var_env typed_state) demo_frame typed_thread h"
  by (auto simp: locals_sound_def typed_env typed_slots sound_def is_falsey_def split: if_splits)



end
