(* ===== verification/Lib_Csv.thy ===== *)
theory Lib_Csv
  imports Lib
begin

text \<open>
  The \<open>csv\<close> module (\<open>src/src/lib/csv.c\<close>): a parser with four states that builds a table of tables
  of strings, and its inverse. The growing buffer is a byte string; running out of memory is not
  modelled.
\<close>

section \<open>Parsing\<close>

datatype csv_state = CSV_FIELD_START | CSV_IN_UNQUOTED | CSV_IN_QUOTED | CSV_AFTER_QUOTE

text \<open>
  The local variables of \<open>csv_parse\<close>. \<open>row_pushed\<close> says that the row is on the stack, above the table
  of rows.
\<close>

record csv =
  cstate :: csv_state
  cfield :: bytes
  crow :: "addr option"
  crow_pushed :: bool
  crow_index :: int
  cfield_index :: int

definition csv_validate_delimiter :: "nat \<Rightarrow> nat \<Rightarrow> nat \<Rightarrow> vm \<Rightarrow> ((bytes + byte) option)" where
  "csv_validate_delimiter argc base i vm =
     (if argc \<le> i then Some (Inr 44)
      else do {
        e \<leftarrow> failed_check argc base vm (Is TString i);
        (case e of
           Some msg \<Rightarrow> Some (Inl msg)
         | None \<Rightarrow> do {
             d \<leftarrow> arg_string base i vm;
             (case d of [c] \<Rightarrow> Some (Inr c)
              | _ \<Rightarrow> Some (Inl (bytes_of ''csv delimiter must be a single-character string.'')))
           })
      })"

definition csv_ensure_row :: "csv \<Rightarrow> vm \<Rightarrow> (csv \<times> vm) option" where
  "csv_ensure_row st vm =
     (case crow st of
        Some _ \<Rightarrow> Some (st, vm)
      | None \<Rightarrow>
          let (a, vm) = alloc new_table vm
          in do { vm \<leftarrow> push (VObj a) vm; Some (st\<lparr>crow := Some a, crow_pushed := True\<rparr>, vm) })"

text \<open>\<open>table_set_array(&t->table, i, v)\<close> for a table object: whether it stored the value.\<close>

definition heap_set_array :: "addr \<Rightarrow> int \<Rightarrow> val \<Rightarrow> vm \<Rightarrow> (bool \<times> vm) option" where
  "heap_set_array a i v vm =
     do {
       ot \<leftarrow> table_at (vheap vm) a;
       (case table_set_array (otable ot) i v of
          None \<Rightarrow> Some (False, vm)
        | Some t \<Rightarrow> do { vm \<leftarrow> put_table a t vm; Some (True, vm) })
     }"

definition csv_emit_field :: "csv \<Rightarrow> vm \<Rightarrow> (bool \<times> csv \<times> vm) option" where
  "csv_emit_field st vm =
     (case crow st of
        None \<Rightarrow> do { (_, vm) \<leftarrow> fail ''csv.parse: internal state error.'' vm; Some (False, st, vm) }
      | Some row \<Rightarrow>
          let (s, vm) = string_val (cfield st) vm in
          do {
            (ok, vm) \<leftarrow> heap_set_array row (cfield_index st) s vm;
            (if ok then Some (True, st\<lparr>cfield_index := cfield_index st + 1, cfield := []\<rparr>, vm)
             else do { (_, vm) \<leftarrow> fail ''csv.parse: out of memory.'' vm; Some (False, st, vm) })
          })"

definition csv_emit_row :: "addr \<Rightarrow> csv \<Rightarrow> vm \<Rightarrow> (bool \<times> csv \<times> vm) option" where
  "csv_emit_row rows st vm =
     (case crow st of
        None \<Rightarrow> Some (True, st, vm)
      | Some row \<Rightarrow>
          do {
            (ok, vm) \<leftarrow> heap_set_array rows (crow_index st) (VObj row) vm;
            (if ok then Some (True, st\<lparr>crow_index := crow_index st + 1\<rparr>, vm)
             else do { (_, vm) \<leftarrow> fail ''csv.parse: out of memory.'' vm; Some (False, st, vm) })
          })"

text \<open>
  What one round of the loop does: go on with the rest of the text, leave the loop, or go to
  \<open>parse_error\<close>.
\<close>

datatype csv_step = CsvGo csv bytes vm | CsvBreak csv vm | CsvError csv vm

definition csv_fail :: "string \<Rightarrow> csv \<Rightarrow> vm \<Rightarrow> csv_step option" where
  "csv_fail msg st vm = do { (_, vm) \<leftarrow> fail msg vm; Some (CsvError st vm) }"

definition end_of_row :: "byte \<Rightarrow> bool" where
  "end_of_row c \<longleftrightarrow> c = 10 \<or> c = 13 \<or> c = 0"

text \<open>The end of a row at \<open>c\<close>, with \<open>cs\<close> behind it; the three states that end rows share it.\<close>

definition csv_end_row :: "addr \<Rightarrow> byte \<Rightarrow> bytes \<Rightarrow> csv \<Rightarrow> vm \<Rightarrow> csv_step option" where
  "csv_end_row rows c cs st vm =
     do {
       (ok, st, vm) \<leftarrow> csv_emit_field st vm;
       (if \<not> ok then Some (CsvError st vm)
        else do {
          (ok, st, vm) \<leftarrow> csv_emit_row rows st vm;
          (if \<not> ok then Some (CsvError st vm)
           else do {
             vm \<leftarrow> (if crow_pushed st then pop_n 1 vm else Some vm);
             let st = st\<lparr>crow_pushed := False, crow := None, cfield_index := 1, cstate := CSV_FIELD_START\<rparr>;
             let cs = (case cs of d # ds \<Rightarrow> if c = 13 \<and> d = 10 then ds else cs | [] \<Rightarrow> []);
             (if c = 0 then Some (CsvBreak st vm)
              else if cs \<noteq> [] then do { (st, vm) \<leftarrow> csv_ensure_row st vm; Some (CsvGo st cs vm) }
              else Some (CsvGo st cs vm))
           })
        })
     }"

text \<open>The delimiter ends a field.\<close>

definition csv_end_field :: "bytes \<Rightarrow> csv \<Rightarrow> vm \<Rightarrow> csv_step option" where
  "csv_end_field cs st vm =
     do {
       (ok, st, vm) \<leftarrow> csv_emit_field st vm;
       Some (if ok then CsvGo (st\<lparr>cstate := CSV_FIELD_START\<rparr>) cs vm else CsvError st vm)
     }"

definition csv_step :: "addr \<Rightarrow> byte \<Rightarrow> byte \<Rightarrow> bytes \<Rightarrow> csv \<Rightarrow> vm \<Rightarrow> csv_step option" where
  "csv_step rows delimiter c cs st vm =
     (case cstate st of
        CSV_FIELD_START \<Rightarrow>
          if c = 34 then Some (CsvGo (st\<lparr>cstate := CSV_IN_QUOTED\<rparr>) cs vm)
          else if c = delimiter then csv_end_field cs st vm
          else if end_of_row c then csv_end_row rows c cs st vm
          else Some (CsvGo (st\<lparr>cfield := cfield st @ [c], cstate := CSV_IN_UNQUOTED\<rparr>) cs vm)
      | CSV_IN_UNQUOTED \<Rightarrow>
          if c = 34 then csv_fail ''csv.parse: unexpected quote in unquoted field.'' st vm
          else if c = delimiter then csv_end_field cs st vm
          else if end_of_row c then csv_end_row rows c cs st vm
          else Some (CsvGo (st\<lparr>cfield := cfield st @ [c]\<rparr>) cs vm)
      | CSV_IN_QUOTED \<Rightarrow>
          if c = 0 then csv_fail ''csv.parse: unterminated quoted field.'' st vm
          else if c = 34 then
            (case cs of
               d # ds \<Rightarrow>
                 if d = 34 then Some (CsvGo (st\<lparr>cfield := cfield st @ [34]\<rparr>) ds vm)
                 else Some (CsvGo (st\<lparr>cstate := CSV_AFTER_QUOTE\<rparr>) cs vm)
             | [] \<Rightarrow> Some (CsvGo (st\<lparr>cstate := CSV_AFTER_QUOTE\<rparr>) cs vm))
          else Some (CsvGo (st\<lparr>cfield := cfield st @ [c]\<rparr>) cs vm)
      | CSV_AFTER_QUOTE \<Rightarrow>
          if c = delimiter then csv_end_field cs st vm
          else if end_of_row c then csv_end_row rows c cs st vm
          else csv_fail ''csv.parse: invalid character after closing quote.'' st vm)"

lemma csv_end_row_rest: "csv_end_row rows c cs st vm = Some (CsvGo st' cs' vm') \<Longrightarrow> length cs' \<le> length cs"
  by (auto simp: csv_end_row_def Let_def bind_eq_Some_conv split: if_splits list.splits)

lemma csv_step_rest: "csv_step rows d c cs st vm = Some (CsvGo st' cs' vm') \<Longrightarrow> length cs' \<le> length cs"
  by (auto simp: csv_step_def csv_end_field_def csv_fail_def bind_eq_Some_conv
      dest: csv_end_row_rest split: csv_state.splits if_splits list.splits)

text \<open>The loop; after the text it makes one more round for the terminating NUL.\<close>

function csv_loop :: "addr \<Rightarrow> byte \<Rightarrow> bytes \<Rightarrow> csv \<Rightarrow> vm \<Rightarrow> csv_step option" where
  "csv_loop rows d [] st vm = csv_step rows d 0 [] st vm"
| "csv_loop rows d (c # cs) st vm =
     (case csv_step rows d c cs st vm of
        Some (CsvGo st' cs' vm') \<Rightarrow> csv_loop rows d cs' st' vm'
      | r \<Rightarrow> r)"
  by pat_completeness auto
termination
  by (relation "measure (\<lambda>(_, _, cs, _, _). length cs)") (auto dest: csv_step_rest)

definition csv_parse :: native_body where
  "csv_parse = checked_args [Argc_Ge 1, Is TString 0] (\<lambda>argc base vm.
     do {
       r \<leftarrow> csv_validate_delimiter argc base 1 vm;
       (case r of
          Inl msg \<Rightarrow> fail_bytes msg vm
        | Inr delimiter \<Rightarrow> do {
            input \<leftarrow> arg_string base 0 vm;
            let (rows, vm) = alloc new_table vm;
            vm \<leftarrow> push (VObj rows) vm;
            (if input = [] then do { vm \<leftarrow> pop_n 1 vm; return_val (VObj rows) vm }
             else do {
               (st, vm) \<leftarrow> csv_ensure_row
                 \<lparr>cstate = CSV_FIELD_START, cfield = [], crow = None, crow_pushed = False, crow_index = 1,
                  cfield_index = 1\<rparr> vm;
               r \<leftarrow> csv_loop rows delimiter input st vm;
               (case r of
                  CsvError st vm \<Rightarrow> do { vm \<leftarrow> pop_n ((if crow_pushed st then 1 else 0) + 1) vm; Some (False, vm) }
                | CsvBreak st vm \<Rightarrow> do {
                    vm \<leftarrow> pop_n ((if crow_pushed st then 1 else 0) + 1) vm; return_val (VObj rows) vm }
                | CsvGo st _ vm \<Rightarrow> do {
                    vm \<leftarrow> pop_n ((if crow_pushed st then 1 else 0) + 1) vm; return_val (VObj rows) vm })
             })
          })
     })"

section \<open>Printing\<close>

definition needs_quotes :: "byte \<Rightarrow> bytes \<Rightarrow> bool" where
  "needs_quotes d s = list_ex (\<lambda>c. c = d \<or> c = 34 \<or> c = 10 \<or> c = 13) s"

definition double_quotes :: "bytes \<Rightarrow> bytes" where
  "double_quotes s = concat (map (\<lambda>c. if c = 34 then [34, 34] else [c]) s)"

definition csv_append_escaped_field :: "bytes \<Rightarrow> bytes \<Rightarrow> byte \<Rightarrow> bytes" where
  "csv_append_escaped_field buf s d = buf @ (if needs_quotes d s then [34] @ double_quotes s @ [34] else s)"

text \<open>\<open>None\<close> inside is the result -1: a value that has no text. The buffer of a number has 64 bytes.\<close>

definition csv_stringify_value :: "heap \<Rightarrow> bytes \<Rightarrow> val \<Rightarrow> byte \<Rightarrow> bytes option option" where
  "csv_stringify_value h buf v d =
     (case v of
        VNil \<Rightarrow> Some (Some buf)
      | VNumber x \<Rightarrow> Some (Some (csv_append_escaped_field buf (take 63 (fmt_g 17 x)) d))
      | VBool b \<Rightarrow> Some (Some (csv_append_escaped_field buf (bytes_of (if b then ''true'' else ''false'')) d))
      | VObj a \<Rightarrow> do {
          k \<leftarrow> type_of h v;
          (if k = TString then do { s \<leftarrow> string_at h a; Some (Some (csv_append_escaped_field buf s d)) }
           else Some None)
        })"

text \<open>The cells of a row from column \<open>col\<close> on, \<open>n\<close> of them.\<close>

fun csv_cells :: "heap \<Rightarrow> byte \<Rightarrow> table \<Rightarrow> nat \<Rightarrow> nat \<Rightarrow> bytes \<Rightarrow> bytes option option" where
  "csv_cells h d row 0 col buf = Some (Some buf)"
| "csv_cells h d row (Suc n) col buf =
     do {
       let buf = (if col = 1 then buf else buf @ [d]);
       r \<leftarrow> csv_stringify_value h buf (or_nil (table_get_array row (int col))) d;
       (case r of None \<Rightarrow> Some None | Some buf \<Rightarrow> csv_cells h d row n (col + 1) buf)
     }"

definition csv_row_msg :: "nat \<Rightarrow> bytes" where
  "csv_row_msg i = bytes_of ''csv.stringify: row '' @ dec_int (int i) @ bytes_of '' must be a table.''"

text \<open>The rows from \<open>i\<close> on, \<open>n\<close> of them: the text, or the message of an error.\<close>

fun csv_rows :: "heap \<Rightarrow> byte \<Rightarrow> table \<Rightarrow> nat \<Rightarrow> nat \<Rightarrow> bytes \<Rightarrow> (bytes + bytes) option" where
  "csv_rows h d rows 0 i buf = Some (Inr buf)"
| "csv_rows h d rows (Suc n) i buf =
     do {
       let v = or_nil (table_get_array rows (int i));
       k \<leftarrow> type_of h v;
       (if k \<noteq> TTable then Some (Inl (csv_row_msg i))
        else do {
          a \<leftarrow> as_obj v;
          row \<leftarrow> table_at h a;
          r \<leftarrow> csv_cells h d (otable row) (array_max (otable row)) 1 (if i = 1 then buf else buf @ [10]);
          (case r of
             None \<Rightarrow> Some (Inl (bytes_of ''csv.stringify: row values must be string, number, bool, or nil.''))
           | Some buf \<Rightarrow> csv_rows h d rows n (i + 1) buf)
        })
     }"

definition csv_stringify :: native_body where
  "csv_stringify = checked_args [Argc_Ge 1, Is TTable 0] (\<lambda>argc base vm.
     do {
       r \<leftarrow> csv_validate_delimiter argc base 1 vm;
       (case r of
          Inl msg \<Rightarrow> fail_bytes msg vm
        | Inr d \<Rightarrow> do {
            (_, rows) \<leftarrow> arg_table base 0 vm;
            r \<leftarrow> csv_rows (vheap vm) d (otable rows) (array_max (otable rows)) 1 [];
            (case r of Inl msg \<Rightarrow> fail_bytes msg vm | Inr buf \<Rightarrow> return_string buf vm)
          })
     })"

definition csv_functions :: "(string \<times> nat) list" where
  "csv_functions = [(''parse'', 1010), (''stringify'', 1011)]"

text \<open>Unlike the other modules, \<open>register_csv\<close> leaves the module on the stack.\<close>

definition register_csv :: "vm \<Rightarrow> vm option" where
  "register_csv = register_module (Some ''csv'') csv_functions"

end
