(* ===== verification/Lib_Table.thy ===== *)
theory Lib_Table
  imports Lib_Csv
begin

text \<open>
  The \<open>table\<close> module (\<open>src/src/lib/table.c\<close>): operations on the array part of a table, sorting with
  the order of the C library or a comparison function of the program, keys, values, search and copies.
  Natives that call back into the program take the environment and the interpreter loop.
\<close>

section \<open>Calling back\<close>

text \<open>
  A closure or native called with arguments: \<open>Some (Inl vm)\<close> if it failed, else its result. A value
  that is neither is an error with the given text.
\<close>

definition call_function :: "env \<Rightarrow> vm_loop \<Rightarrow> string \<Rightarrow> val \<Rightarrow> val list \<Rightarrow> vm \<Rightarrow> (vm + val \<times> vm) option" where
  "call_function env loop msg f args vm =
     do {
       k \<leftarrow> type_of (vheap vm) f;
       t \<leftarrow> cur vm;
       (if k = TClosure then do {
          vm \<leftarrow> push_all (f # args) vm;
          a \<leftarrow> as_obj f;
          (ok, vm) \<leftarrow> call a (length args) vm;
          (if \<not> ok then Some (Inl vm)
           else do {
             (r, vm) \<leftarrow> loop (frame_count t) vm;
             (if r \<noteq> INTERPRET_OK then Some (Inl vm) else map_option Inr (pop vm))
           })
        }
        else if k = TNative then do {
          vm \<leftarrow> push_all (f # args) vm;
          a \<leftarrow> as_obj f;
          n \<leftarrow> native_at (vheap vm) a;
          vm \<leftarrow> drop_n (length args + 1) vm;
          (ok, vm) \<leftarrow> native_fn env (nfun n) loop (length args) (stack_top t + 1) vm;
          (if \<not> ok then Some (Inl vm) else map_option Inr (pop vm))
        }
        else do { (_, vm) \<leftarrow> fail msg vm; Some (Inl vm) })
     }"

definition call_unary_lookup :: "env \<Rightarrow> vm_loop \<Rightarrow> val \<Rightarrow> val \<Rightarrow> vm \<Rightarrow> (vm + val \<times> vm) option" where
  "call_unary_lookup env loop f v vm =
     call_function env loop ''table.find_index: lookup must be a function.'' f [v] vm"

definition call_binary_less :: "env \<Rightarrow> vm_loop \<Rightarrow> val \<Rightarrow> val \<Rightarrow> val \<Rightarrow> vm \<Rightarrow> (vm + bool \<times> vm) option" where
  "call_binary_less env loop f a b vm =
     do {
       r \<leftarrow> call_function env loop ''table.sort: comparator must be a function.'' f [a, b] vm;
       (case r of
          Inl vm \<Rightarrow> Some (Inl vm)
        | Inr (v, vm) \<Rightarrow>
            (case v of
               VBool b \<Rightarrow> Some (Inr (b, vm))
             | VNumber d \<Rightarrow> Some (Inr (dlt d (dzero False), vm))
             | _ \<Rightarrow> do {
                 (_, vm) \<leftarrow> fail ''table.sort: comparator must return bool or number.'' vm;
                 Some (Inl vm)
               }))
     }"

section \<open>The array part\<close>

text \<open>The checks a native makes after others, and \<open>(int)GET_NUMBER(i)\<close>.\<close>

definition arg_int :: "nat \<Rightarrow> nat \<Rightarrow> vm \<Rightarrow> int option" where
  "arg_int base i vm = do { d \<leftarrow> arg_number base i vm; cast_int d }"

text \<open>\<open>table_set_array\<close> with its result ignored.\<close>

definition set_array_at :: "int \<Rightarrow> val \<Rightarrow> table \<Rightarrow> table" where
  "set_array_at i v t = (case table_set_array t i v of Some t' \<Rightarrow> t' | None \<Rightarrow> t)"

text \<open>\<open>for (i = pos; i < len; i++)\<close> and \<open>for (i = len; i >= pos; i--)\<close>, \<open>n\<close> rounds of them.\<close>

fun shift_down :: "nat \<Rightarrow> int \<Rightarrow> table \<Rightarrow> table option" where
  "shift_down 0 i t = Some t"
| "shift_down (Suc n) i t =
     do { v \<leftarrow> table_get_array t (i + 1); shift_down n (i + 1) (set_array_at i v t) }"

fun shift_up :: "nat \<Rightarrow> int \<Rightarrow> table \<Rightarrow> table option" where
  "shift_up 0 i t = Some t"
| "shift_up (Suc n) i t =
     do { v \<leftarrow> table_get_array t i; shift_up n (i - 1) (set_array_at (i + 1) v t) }"

definition remove_position :: "int \<Rightarrow> table \<Rightarrow> (val \<times> table) option" where
  "remove_position pos t =
     do {
       let len = int (array_length t);
       removed \<leftarrow> table_get_array t pos;
       t \<leftarrow> shift_down (nat (len - pos)) pos t;
       Some (removed, set_array_at len VNil t)
     }"

definition insert_at :: "int \<Rightarrow> val \<Rightarrow> table \<Rightarrow> table option" where
  "insert_at pos v t =
     do {
       let len = int (array_length t);
       let pos = (if pos < 1 then 1 else pos);
       let pos = (if len + 1 < pos then len + 1 else pos);
       t \<leftarrow> shift_up (nat (len + 1 - pos)) len t;
       Some (set_array_at pos v t)
     }"

definition table_remove_fn :: native_body where
  "table_remove_fn = checked_args [Argc_Ge 1, Is TTable 0] (\<lambda>argc base vm.
     do {
       (a, ot) \<leftarrow> arg_table base 0 vm;
       let len = int (array_length (otable ot));
       checked_args (if 2 \<le> argc then [Is TNumber 1] else []) (\<lambda>argc base vm.
         do {
           pos \<leftarrow> (if 2 \<le> argc then arg_int base 1 vm else Some len);
           (if pos < 1 \<or> len < pos then return_val VNil vm
            else do {
              (removed, t) \<leftarrow> remove_position pos (otable ot);
              vm \<leftarrow> put_table a t vm;
              return_val removed vm
            })
         }) argc base vm
     })"

text \<open>\<open>realloc\<close> to a larger array part, with nil in the new slots.\<close>

definition extend_array :: "nat \<Rightarrow> table \<Rightarrow> table" where
  "extend_array cap t = t\<lparr>tarray := tarray t @ replicate (cap - array_capacity t) VNil\<rparr>"

definition push_value :: "val \<Rightarrow> table \<Rightarrow> table" where
  "push_value v t =
     (let raw = array_max t;
          t = (if array_capacity t \<le> raw
               then extend_array (double_until raw (if array_capacity t = 0 then 8 else array_capacity t * 2)) t
               else t)
      in t\<lparr>tarray := (tarray t)[raw := v], array_max := raw + 1\<rparr>)"

definition table_push_fn :: native_body where
  "table_push_fn = checked_args [Argc_Eq 2, Is TTable 0] (\<lambda>argc base vm.
     do {
       (a, ot) \<leftarrow> arg_table base 0 vm;
       v \<leftarrow> arg base 1 vm;
       vm \<leftarrow> put_table a (push_value v (otable ot)) vm;
       return_val (VNumber (dbl_of_int (int (array_max (otable ot)) + 1))) vm
     })"

text \<open>The new capacity is an \<open>int\<close> that doubles: it overflows for a request above \<open>2^30\<close>.\<close>

definition table_reserve_fn :: native_body where
  "table_reserve_fn = checked_args [Argc_Eq 2, Is TTable 0, Is TNumber 1] (\<lambda>argc base vm.
     do {
       (a, ot) \<leftarrow> arg_table base 0 vm;
       n \<leftarrow> arg_int base 1 vm;
       v \<leftarrow> arg base 0 vm;
       let cap = array_capacity (otable ot);
       (if n < 0 then fail ''table.reserve: n must be non-negative'' vm
        else if n \<le> int cap then return_val v vm
        else do {
          let cap = double_until (nat n - 1) (if cap = 0 then 8 else cap);
          (if 2 ^ 31 \<le> cap then None
           else do { vm \<leftarrow> put_table a (extend_array cap (otable ot)) vm; return_val v vm })
        })
     })"

definition table_insert_fn :: native_body where
  "table_insert_fn = checked_args [Argc_Ge 2, Is TTable 0] (\<lambda>argc base vm.
     do {
       (a, ot) \<leftarrow> arg_table base 0 vm;
       checked_args (if argc = 2 then [] else [Is TNumber 1]) (\<lambda>argc base vm.
         do {
           pos \<leftarrow> (if argc = 2 then Some (int (array_length (otable ot)) + 1) else arg_int base 1 vm);
           v \<leftarrow> arg base (if argc = 2 then 1 else 2) vm;
           t \<leftarrow> insert_at pos v (otable ot);
           vm \<leftarrow> put_table a t vm;
           r \<leftarrow> arg base 0 vm;
           return_val r vm
         }) argc base vm
     })"

section \<open>Joining strings\<close>

text \<open>The strings of the array part, or the message for the first element that is none.\<close>

fun string_elements :: "heap \<Rightarrow> nat \<Rightarrow> val list \<Rightarrow> (bytes + bytes list) option" where
  "string_elements h i [] = Some (Inr [])"
| "string_elements h i (v # vs) =
     do {
       k \<leftarrow> type_of h v;
       (if k \<noteq> TString
        then Some (Inl (bytes_of ''table.concat: element '' @ dec_int (int i) @ bytes_of '' is not a string''))
        else do {
          a \<leftarrow> as_obj v;
          s \<leftarrow> string_at h a;
          r \<leftarrow> string_elements h (i + 1) vs;
          Some (case r of Inl msg \<Rightarrow> Inl msg | Inr ss \<Rightarrow> Inr (s # ss))
        })
     }"

fun join :: "bytes \<Rightarrow> bytes list \<Rightarrow> bytes" where
  "join sep [] = []"
| "join sep [s] = s"
| "join sep (s # ss) = s @ sep @ join sep ss"

definition array_elements :: "table \<Rightarrow> val list" where
  "array_elements t = take (array_length t) (tarray t)"

definition table_concat_fn :: native_body where
  "table_concat_fn = checked_args [Argc_Ge 1, Is TTable 0] (\<lambda>argc base vm.
     do {
       (a, ot) \<leftarrow> arg_table base 0 vm;
       checked_args (if 2 \<le> argc then [Is TString 1] else []) (\<lambda>argc base vm.
         do {
           sep \<leftarrow> (if 2 \<le> argc then arg_string base 1 vm else Some []);
           r \<leftarrow> string_elements (vheap vm) 1 (array_elements (otable ot));
           (case r of Inl msg \<Rightarrow> fail_bytes msg vm | Inr ss \<Rightarrow> return_string (join sep ss) vm)
         }) argc base vm
     })"

section \<open>Sorting\<close>

text \<open>\<open>strcmp\<close> on the bytes in front of the first NUL, as its sign.\<close>

fun byte_order :: "bytes \<Rightarrow> bytes \<Rightarrow> int" where
  "byte_order [] [] = 0"
| "byte_order [] (c # cs) = -1"
| "byte_order (b # bs) [] = 1"
| "byte_order (b # bs) (c # cs) = (if b < c then -1 else if c < b then 1 else byte_order bs cs)"

definition compare_values :: "heap \<Rightarrow> val \<Rightarrow> val \<Rightarrow> int" where
  "compare_values h a b =
     (case (a, b) of
        (VNumber x, VNumber y) \<Rightarrow> if dlt x y then -1 else if dlt y x then 1 else 0
      | (VObj x, VObj y) \<Rightarrow>
          (case (string_at h x, string_at h y) of
             (Some s, Some u) \<Rightarrow> byte_order (cstr s) (cstr u)
           | _ \<Rightarrow> 0)
      | _ \<Rightarrow> 0)"

text \<open>
  \<open>qsort\<close> of the GNU C library, which sorts by merging halves and keeps the order of equal elements.
\<close>

fun merge_runs :: "('a \<Rightarrow> 'a \<Rightarrow> int) \<Rightarrow> 'a list \<Rightarrow> 'a list \<Rightarrow> 'a list" where
  "merge_runs cmp [] ys = ys"
| "merge_runs cmp xs [] = xs"
| "merge_runs cmp (x # xs) (y # ys) =
     (if cmp x y \<le> 0 then x # merge_runs cmp xs (y # ys) else y # merge_runs cmp (x # xs) ys)"

function qsort :: "('a \<Rightarrow> 'a \<Rightarrow> int) \<Rightarrow> 'a list \<Rightarrow> 'a list" where
  "qsort cmp xs =
     (if length xs \<le> 1 then xs
      else
        let n = length xs div 2
        in merge_runs cmp (qsort cmp (take n xs)) (qsort cmp (drop n xs)))"
  by pat_completeness auto
termination
  by (relation "measure (\<lambda>(_, xs). length xs)") auto

declare qsort.simps [simp del]

text \<open>
  The insertion sort with a comparison function of the program. \<open>sink\<close> is the inner loop: the element
  \<open>key\<close> sinks from the end of the sorted part, read from its end, until it is not less.
\<close>

fun sink :: "(val \<Rightarrow> val \<Rightarrow> vm \<Rightarrow> (vm + bool \<times> vm) option) \<Rightarrow> val \<Rightarrow> val list \<Rightarrow> val list \<Rightarrow> vm \<Rightarrow>
  (vm + val list \<times> vm) option" where
  "sink lt key [] moved vm = Some (Inr (key # moved, vm))"
| "sink lt key (y # ys) moved vm =
     do {
       r \<leftarrow> lt key y vm;
       (case r of
          Inl vm \<Rightarrow> Some (Inl vm)
        | Inr (b, vm) \<Rightarrow>
            if b then sink lt key ys (y # moved) vm
            else Some (Inr (rev ys @ y # key # moved, vm)))
     }"

fun insertion_sort :: "(val \<Rightarrow> val \<Rightarrow> vm \<Rightarrow> (vm + bool \<times> vm) option) \<Rightarrow> val list \<Rightarrow> val list \<Rightarrow> vm \<Rightarrow>
  (vm + val list \<times> vm) option" where
  "insertion_sort lt done_part [] vm = Some (Inr (done_part, vm))"
| "insertion_sort lt done_part (x # xs) vm =
     do {
       r \<leftarrow> sink lt x (rev done_part) [] vm;
       (case r of Inl vm \<Rightarrow> Some (Inl vm) | Inr (ys, vm) \<Rightarrow> insertion_sort lt ys xs vm)
     }"

text \<open>
  The elements are copied, sorted and copied back into the table as it is after the comparisons.
  The arguments are read before the first call, which may overwrite their slots.
\<close>

definition table_sort_fn :: "env \<Rightarrow> vm_loop \<Rightarrow> native_body" where
  "table_sort_fn env loop = checked_args [Argc_Ge 1, Is TTable 0] (\<lambda>argc base vm.
     do {
       (a, ot) \<leftarrow> arg_table base 0 vm;
       v \<leftarrow> arg base 0 vm;
       let xs = array_elements (otable ot);
       (if length xs \<le> 1 then return_val v vm
        else do {
          cmp \<leftarrow> (if 2 \<le> argc then arg base 1 vm else Some VNil);
          (if is_nil cmp then do {
             vm \<leftarrow> put_table a (fill_array 1 (qsort (compare_values (vheap vm)) xs) (otable ot)) vm;
             return_val v vm
           }
           else do {
             k \<leftarrow> type_of (vheap vm) cmp;
             (if k \<noteq> TClosure \<and> k \<noteq> TNative then fail ''table.sort: comparator must be a function.'' vm
              else do {
                r \<leftarrow> insertion_sort (call_binary_less env loop cmp) (take 1 xs) (drop 1 xs) vm;
                (case r of
                   Inl vm \<Rightarrow> Some (False, vm)
                 | Inr (ys, vm) \<Rightarrow> do {
                     ot \<leftarrow> table_at (vheap vm) a;
                     vm \<leftarrow> put_table a (fill_array 1 ys (otable ot)) vm;
                     r \<leftarrow> arg base 0 vm;
                     return_val r vm
                   })
              })
           })
        })
     })"

section \<open>Keys, values and search\<close>

definition live_entries :: "table \<Rightarrow> (addr \<times> val) list" where
  "live_entries t =
     List.map_filter (\<lambda>e. case ekey e of None \<Rightarrow> None
       | Some k \<Rightarrow> if is_nil (evalue e) then None else Some (kaddr k, evalue e)) (entries t)"

text \<open>A new table with the given elements, pushed as the result.\<close>

definition return_list :: "val list \<Rightarrow> vm \<Rightarrow> (bool \<times> vm) option" where
  "return_list vs vm =
     (let (r, vm) = alloc new_table vm in
      do {
        vm \<leftarrow> push (VObj r) vm;
        vm \<leftarrow> put_table r (fill_array 1 vs init_table) vm;
        Some (True, vm)
      })"

definition table_keys_fn :: native_body where
  "table_keys_fn = checked_args [Argc_Eq 1, Is TTable 0] (\<lambda>argc base vm.
     do {
       (_, ot) \<leftarrow> arg_table base 0 vm;
       return_list (map (VObj \<circ> fst) (live_entries (otable ot)) @
         map (\<lambda>i. VNumber (dbl_of_int (int i))) [1..<array_length (otable ot) + 1]) vm
     })"

definition table_values_fn :: native_body where
  "table_values_fn = checked_args [Argc_Eq 1, Is TTable 0] (\<lambda>argc base vm.
     do {
       (_, ot) \<leftarrow> arg_table base 0 vm;
       return_list (map snd (live_entries (otable ot)) @ array_elements (otable ot)) vm
     })"

definition value_equals_for_find :: "heap \<Rightarrow> val \<Rightarrow> val \<Rightarrow> bool" where
  "value_equals_for_find h a b =
     (case (a, b) of
        (VNil, VNil) \<Rightarrow> True
      | (VNumber x, VNumber y) \<Rightarrow> deq x y
      | (VBool x, VBool y) \<Rightarrow> x = y
      | (VObj x, VObj y) \<Rightarrow>
          x = y \<or> (case (string_at h x, string_at h y) of (Some s, Some u) \<Rightarrow> s = u | _ \<Rightarrow> False)
      | _ \<Rightarrow> False)"

text \<open>The loop reads the table in every round, because the lookup function may change it.\<close>

partial_function (option) find_from ::
  "env \<Rightarrow> vm_loop \<Rightarrow> addr \<Rightarrow> val \<Rightarrow> val \<Rightarrow> int \<Rightarrow> vm \<Rightarrow> (bool \<times> vm) option" where
  "find_from env loop a needle lookup i vm =
     do {
       ot \<leftarrow> table_at (vheap vm) a;
       (case table_get_array (otable ot) i of
          None \<Rightarrow> return_val (VNumber (dbl_of_int 0)) vm
        | Some v \<Rightarrow> do {
            r \<leftarrow> (if is_nil lookup then Some (Inr (v, vm)) else call_unary_lookup env loop lookup v vm);
            (case r of
               Inl vm \<Rightarrow> Some (False, vm)
             | Inr (c, vm) \<Rightarrow>
                 if value_equals_for_find (vheap vm) c needle then return_val (VNumber (dbl_of_int i)) vm
                 else find_from env loop a needle lookup (i + 1) vm)
          })
     }"

definition table_find_index_fn :: "env \<Rightarrow> vm_loop \<Rightarrow> native_body" where
  "table_find_index_fn env loop = checked_args [Argc_Ge 2, Is TTable 0] (\<lambda>argc base vm.
     (if 4 < argc then fail ''table.find_index: expected 2 to 4 arguments.'' vm
      else do {
        (a, _) \<leftarrow> arg_table base 0 vm;
        needle \<leftarrow> arg base 1 vm;
        third \<leftarrow> (if 3 \<le> argc then arg base 2 vm else Some VNil);
        is_start \<leftarrow> Some (3 \<le> argc \<and> (case third of VNumber _ \<Rightarrow> True | _ \<Rightarrow> False));
        checked_args (if 4 \<le> argc then [Is TNumber 2] else []) (\<lambda>argc base vm.
          do {
            start \<leftarrow> (if is_start then map_option (max 1) (arg_int base 2 vm) else Some 1);
            lookup \<leftarrow> (if 4 \<le> argc then arg base 3 vm else Some (if is_start then VNil else third));
            find_from env loop a needle lookup start vm
          }) argc base vm
      }))"

section \<open>Copies\<close>

text \<open>
  \<open>table_clone_recursive\<close> with the pairs seen so far. A deep copy enters each table once, so the
  number of addresses bounds the depth of the recursion.
\<close>

type_synonym cloner = "addr \<Rightarrow> (addr \<times> addr) list \<Rightarrow> vm \<Rightarrow> (addr \<times> (addr \<times> addr) list \<times> vm) option"

definition clone_value ::
  "cloner \<Rightarrow> bool \<Rightarrow> val \<Rightarrow> (addr \<times> addr) list \<Rightarrow> vm \<Rightarrow> (val \<times> (addr \<times> addr) list \<times> vm) option" where
  "clone_value rec deep v seen vm =
     do {
       k \<leftarrow> type_of (vheap vm) v;
       (if deep \<and> k = TTable then do {
          a \<leftarrow> as_obj v;
          (c, seen, vm) \<leftarrow> rec a seen vm;
          Some (VObj c, seen, vm)
        }
        else Some (v, seen, vm))
     }"

fun clone_elements ::
  "cloner \<Rightarrow> bool \<Rightarrow> val list \<Rightarrow> (addr \<times> addr) list \<Rightarrow> vm \<Rightarrow> (val list \<times> (addr \<times> addr) list \<times> vm) option" where
  "clone_elements rec deep [] seen vm = Some ([], seen, vm)"
| "clone_elements rec deep (v # vs) seen vm =
     do {
       (v, seen, vm) \<leftarrow> clone_value rec deep v seen vm;
       (vs, seen, vm) \<leftarrow> clone_elements rec deep vs seen vm;
       Some (v # vs, seen, vm)
     }"

fun clone_entries ::
  "cloner \<Rightarrow> bool \<Rightarrow> addr \<Rightarrow> (addr \<times> val) list \<Rightarrow> (addr \<times> addr) list \<Rightarrow> vm \<Rightarrow> ((addr \<times> addr) list \<times> vm) option" where
  "clone_entries rec deep c [] seen vm = Some (seen, vm)"
| "clone_entries rec deep c ((k, v) # es) seen vm =
     do {
       (v, seen, vm) \<leftarrow> clone_value rec deep v seen vm;
       vm \<leftarrow> heap_set c k v vm;
       clone_entries rec deep c es seen vm
     }"

primrec table_clone_recursive :: "nat \<Rightarrow> bool \<Rightarrow> cloner" where
  "table_clone_recursive 0 deep src seen vm = None"
| "table_clone_recursive (Suc n) deep src seen vm =
     (case map_of seen src of
        Some c \<Rightarrow> Some (c, seen, vm)
      | None \<Rightarrow> do {
          ot \<leftarrow> table_at (vheap vm) src;
          let (c, vm) = alloc new_table vm;
          vm \<leftarrow> push (VObj c) vm;
          ct \<leftarrow> table_at (vheap vm) c;
          let vm = vm\<lparr>vheap := put_obj (vheap vm) c
            (OTable (ct\<lparr>ometatable := ometatable ot, ois_module := ois_module ot\<rparr>))\<rparr>;
          let seen = (if deep then seen @ [(src, c)] else seen);
          let t = otable ot;
          (vs, seen, vm) \<leftarrow> clone_elements (table_clone_recursive n deep) deep (tarray t) seen vm;
          ct \<leftarrow> table_at (vheap vm) c;
          vm \<leftarrow> (if tarray t = [] then Some vm
                  else put_table c (otable ct\<lparr>tarray := vs, array_max := array_max t\<rparr>) vm);
          (seen, vm) \<leftarrow> clone_entries (table_clone_recursive n deep) deep c (live_entries t) seen vm;
          vm \<leftarrow> pop_n 1 vm;
          Some (c, seen, vm)
        })"

text \<open>The second argument of \<open>clone\<close>: the message of an error, or whether the copy is deep.\<close>

definition clone_depth :: "nat \<Rightarrow> nat \<Rightarrow> vm \<Rightarrow> ((bytes + bool) \<times> vm) option" where
  "clone_depth argc base vm =
     (if argc \<noteq> 2 then Some (Inr False, vm)
      else do {
        let bad = Inl (bytes_of ''table.clone: deep must be a bool.'');
        v \<leftarrow> arg base 1 vm;
        k \<leftarrow> type_of (vheap vm) v;
        (case v of
           VBool b \<Rightarrow> Some (Inr b, vm)
         | _ \<Rightarrow>
             if k = TTable then
               let (key, vm) = alloc (\<lambda>h. copy_string h (bytes_of ''deep'')) vm in
               do {
                 a \<leftarrow> as_obj v;
                 d \<leftarrow> heap_get a key vm;
                 Some (case d of None \<Rightarrow> Inr False | Some (VBool b) \<Rightarrow> Inr b | Some _ \<Rightarrow> bad, vm)
               }
             else Some (bad, vm))
      })"

definition table_clone_fn :: native_body where
  "table_clone_fn = checked_args [Argc_Ge 1, Is TTable 0] (\<lambda>argc base vm.
     (if 2 < argc then fail ''table.clone: expected 1 to 2 arguments.'' vm
      else do {
        (d, vm) \<leftarrow> clone_depth argc base vm;
        (case d of
           Inl msg \<Rightarrow> fail_bytes msg vm
         | Inr deep \<Rightarrow> do {
             a \<leftarrow> arg_obj base 0 vm;
             (c, _, vm) \<leftarrow> table_clone_recursive (hnext (vheap vm) + 2) deep a [] vm;
             return_val (VObj c) vm
           })
      }))"

definition table_functions :: "(string \<times> nat) list" where
  "table_functions =
     [(''remove'', 1100), (''push'', 1101), (''reserve'', 1102), (''clone'', 1103), (''concat'', 1104),
      (''sort'', 1105), (''insert'', 1106), (''keys'', 1107), (''values'', 1108), (''find_index'', 1109)]"

definition register_table :: "vm \<Rightarrow> vm option" where
  "register_table vm = do { vm \<leftarrow> register_module (Some ''table'') table_functions vm; pop_n 1 vm }"

end
