(* ===== verification/Lib_Json.thy ===== *)
theory Lib_Json
  imports Lib_Table
begin

text \<open>
  The \<open>json\<close> module (\<open>src/src/lib/json.c\<close>): an encoder of values into text and a recursive parser,
  which keeps what is left of its text and an error message, empty when there is none. Running out of
  memory is not modelled; the depth of the parser's recursion is bounded by the length of the text.
\<close>

section \<open>Encoding\<close>

definition hex_digit :: "nat \<Rightarrow> byte" where
  "hex_digit n = (if n < 10 then of_nat (48 + n) else of_nat (87 + n))"

definition escape_byte :: "byte \<Rightarrow> bytes" where
  "escape_byte c =
     (if c = 34 then [92, 34]
      else if c = 92 then [92, 92]
      else if c = 8 then [92, 98]
      else if c = 12 then [92, 102]
      else if c = 10 then [92, 110]
      else if c = 13 then [92, 114]
      else if c = 9 then [92, 116]
      else if c < 32 then [92, 117, 48, 48, hex_digit (unat c div 16), hex_digit (unat c mod 16)]
      else [c])"

definition encode_string :: "bytes \<Rightarrow> bytes" where
  "encode_string s = [34] @ concat (map escape_byte s) @ [34]"

text \<open>\<open>%.0f\<close>\<close>

fun fmt_rounded :: "double \<Rightarrow> bytes" where
  "fmt_rounded (Fin s m e) = signed s (dec (rhe (num_of m e) (den_of e)))"
| "fmt_rounded d = fmt_f 0 d"

definition encode_number :: "double \<Rightarrow> bytes" where
  "encode_number d =
     (case d of
        Fin s m e \<Rightarrow>
          if deq d (dfloor d) \<and> dlt (dabs d) (dbl_of_int (10 ^ 15)) then fmt_rounded d else take 63 (fmt_g 17 d)
      | _ \<Rightarrow> bytes_of ''null'')"

type_synonym encoder = "val \<Rightarrow> bytes option"

fun encode_elements :: "encoder \<Rightarrow> val list \<Rightarrow> bytes option" where
  "encode_elements enc [] = Some []"
| "encode_elements enc [v] = enc v"
| "encode_elements enc (v # vs) =
     do { s \<leftarrow> enc v; r \<leftarrow> encode_elements enc vs; Some (s @ [44] @ r) }"

text \<open>A member of an object; the text of its key is given with its quotes.\<close>

definition encode_member :: "encoder \<Rightarrow> bytes \<times> val \<Rightarrow> bytes option" where
  "encode_member enc kv = do { s \<leftarrow> enc (snd kv); Some (fst kv @ [58] @ s) }"

fun encode_members :: "encoder \<Rightarrow> (bytes \<times> val) list \<Rightarrow> bytes option" where
  "encode_members enc [] = Some []"
| "encode_members enc [kv] = encode_member enc kv"
| "encode_members enc (kv # kvs) =
     do { s \<leftarrow> encode_member enc kv; r \<leftarrow> encode_members enc kvs; Some (s @ [44] @ r) }"

definition string_members :: "heap \<Rightarrow> table \<Rightarrow> (bytes \<times> val) list option" where
  "string_members h t =
     those (map (\<lambda>(k, v). map_option (\<lambda>s. (encode_string s, v)) (string_at h k)) (live_entries t))"

definition index_members :: "table \<Rightarrow> (bytes \<times> val) list" where
  "index_members t =
     map (\<lambda>i. ([34] @ dec_int (int i + 1) @ [34], array_elements t ! i)) [0..<array_length t]"

definition encode_table :: "encoder \<Rightarrow> heap \<Rightarrow> table \<Rightarrow> bytes option" where
  "encode_table enc h t =
     (if 0 < array_length t \<and> live_entries t = []
      then do { s \<leftarrow> encode_elements enc (array_elements t); Some ([91] @ s @ [93]) }
      else do {
        ms \<leftarrow> string_members h t;
        s \<leftarrow> encode_members enc (ms @ index_members t);
        Some ([123] @ s @ [125])
      })"

text \<open>The depth counts down: a table at depth 101 is written as null.\<close>

primrec encode_value :: "nat \<Rightarrow> heap \<Rightarrow> encoder" where
  "encode_value 0 h v = Some (bytes_of ''null'')"
| "encode_value (Suc n) h v =
     (case v of
        VNil \<Rightarrow> Some (bytes_of ''null'')
      | VBool b \<Rightarrow> Some (bytes_of (if b then ''true'' else ''false''))
      | VNumber d \<Rightarrow> Some (encode_number d)
      | VObj a \<Rightarrow> do {
          k \<leftarrow> type_of h v;
          (if k = TString then map_option encode_string (string_at h a)
           else if k = TTable then do {
             ot \<leftarrow> table_at h a;
             (if n = 0 then Some (bytes_of ''null'') else encode_table (encode_value n h) h (otable ot))
           }
           else Some (bytes_of ''null''))
        })"

definition json_encode :: native_body where
  "json_encode = checked_args [Argc_Eq 1] (\<lambda>argc base vm.
     do {
       v \<leftarrow> arg base 0 vm;
       s \<leftarrow> encode_value 102 (vheap vm) v;
       return_string s vm
     })"

section \<open>Decoding: characters, strings and numbers\<close>

record json_parser =
  jrest :: bytes
  jerror :: bytes

definition json_space :: "byte \<Rightarrow> bool" where
  "json_space c \<longleftrightarrow> c = 32 \<or> c = 9 \<or> c = 10 \<or> c = 13"

definition skip_whitespace :: "json_parser \<Rightarrow> json_parser" where
  "skip_whitespace p = p\<lparr>jrest := dropWhile json_space (jrest p)\<rparr>"

definition parse_char :: "byte \<Rightarrow> json_parser \<Rightarrow> bool \<times> json_parser" where
  "parse_char c p =
     (let p = skip_whitespace p in
      case jrest p of
        [] \<Rightarrow> (False, p)
      | d # ds \<Rightarrow> if d = c then (True, p\<lparr>jrest := ds\<rparr>) else (False, p))"

definition set_error :: "string \<Rightarrow> json_parser \<Rightarrow> json_parser" where
  "set_error msg p = p\<lparr>jerror := bytes_of msg\<rparr>"

text \<open>\<open>strtol(hex, NULL, 16)\<close> on a few characters.\<close>

definition hex_char :: "byte \<Rightarrow> bool" where
  "hex_char c \<longleftrightarrow> 48 \<le> c \<and> c \<le> 57 \<or> 65 \<le> c \<and> c \<le> 70 \<or> 97 \<le> c \<and> c \<le> 102"

definition hex_val :: "byte \<Rightarrow> int" where
  "hex_val c = (if c \<le> 57 then uint c - 48 else if c \<le> 70 then uint c - 55 else uint c - 87)"

definition read_hex :: "bytes \<Rightarrow> int" where
  "read_hex cs = foldl (\<lambda>v c. 16 * v + hex_val c) 0 (takeWhile hex_char cs)"

definition strtol_hex :: "bytes \<Rightarrow> int" where
  "strtol_hex cs =
     (let cs = dropWhile c_space cs;
          neg = (cs \<noteq> [] \<and> hd cs = 45);
          cs = (if cs \<noteq> [] \<and> (hd cs = 45 \<or> hd cs = 43) then tl cs else cs);
          cs = (case cs of
                  a # b # c # r \<Rightarrow> if a = 48 \<and> (b = 120 \<or> b = 88) \<and> hex_char c then c # r else cs
                | _ \<Rightarrow> cs);
          n = read_hex cs
      in if neg then - n else n)"

definition utf8_of :: "int \<Rightarrow> bytes" where
  "utf8_of cp =
     (if cp < 128 then [of_int cp]
      else if cp < 2048 then [0xC0 OR of_int (cp div 64), 0x80 OR of_int (cp mod 64)]
      else [0xE0 OR of_int (cp div 4096), 0x80 OR of_int (cp div 64 mod 64), 0x80 OR of_int (cp mod 64)])"

definition unescape :: "byte \<Rightarrow> byte" where
  "unescape c =
     (if c = 98 then 8 else if c = 102 then 12 else if c = 110 then 10 else if c = 114 then 13
      else if c = 116 then 9 else c)"

text \<open>
  The characters of a string up to its closing quote: the bytes and the rest, which starts with the
  quote or is empty, or \<open>None\<close> for an incomplete \<open>\u\<close>.
\<close>

fun string_body :: "bytes \<Rightarrow> bytes \<Rightarrow> (bytes \<times> bytes) option" where
  "string_body acc [] = Some (acc, [])"
| "string_body acc (c # cs) =
     (if c = 34 then Some (acc, c # cs)
      else if c = 92 then
        (case cs of
           [] \<Rightarrow> Some (acc @ [c], [])
         | e # r \<Rightarrow>
             if e = 117 then
               (case r of
                  h1 # h2 # h3 # h4 # r \<Rightarrow> string_body (acc @ utf8_of (strtol_hex [h1, h2, h3, h4])) r
                | _ \<Rightarrow> None)
             else string_body (acc @ [unescape e]) r)
      else string_body (acc @ [c]) cs)"

definition parse_string :: "json_parser \<Rightarrow> vm \<Rightarrow> (val \<times> json_parser \<times> vm) option" where
  "parse_string p vm =
     (let (ok, p) = parse_char 34 p in
      if \<not> ok then Some (VNil, p\<lparr>jerror := bytes_of ''Expected '' @ [39, 34, 39]\<rparr>, vm)
      else
        case string_body [] (jrest p) of
          None \<Rightarrow> Some (VNil, set_error ''Invalid unicode escape'' p, vm)
        | Some (s, r) \<Rightarrow>
            (let (ok, p) = parse_char 34 (p\<lparr>jrest := r\<rparr>) in
             if \<not> ok then Some (VNil, set_error ''Unterminated string'' p, vm)
             else let (v, vm) = string_val s vm in Some (v, p, vm)))"

text \<open>The text of a number, and \<open>strtod\<close> on it: sign, digits, fraction, exponent.\<close>

definition number_span :: "bytes \<Rightarrow> bytes \<times> bytes" where
  "number_span cs =
     (let (s, cs) = (case cs of c # r \<Rightarrow> if c = 45 then ([c], r) else ([], cs) | [] \<Rightarrow> ([], []));
          ip = takeWhile c_digit cs; cs = dropWhile c_digit cs;
          (dot, cs) = (case cs of c # r \<Rightarrow> if c = 46 then ([c], r) else ([], cs) | [] \<Rightarrow> ([], []));
          fp = (if dot = [] then [] else takeWhile c_digit cs);
          cs = (if dot = [] then cs else dropWhile c_digit cs);
          (e, cs) = (case cs of c # r \<Rightarrow> if c = 101 \<or> c = 69 then ([c], r) else ([], cs) | [] \<Rightarrow> ([], []));
          (es, cs) = (case cs of
             c # r \<Rightarrow> if e \<noteq> [] \<and> (c = 43 \<or> c = 45) then ([c], r) else ([], cs) | [] \<Rightarrow> ([], []));
          xp = (if e = [] then [] else takeWhile c_digit cs);
          cs = (if e = [] then cs else dropWhile c_digit cs)
      in (s @ ip @ dot @ fp @ e @ es @ xp, cs))"

definition strtod :: "bytes \<Rightarrow> double" where
  "strtod cs =
     (let neg = (cs \<noteq> [] \<and> hd cs = 45);
          cs = (if neg then tl cs else cs);
          ip = takeWhile c_digit cs; cs = dropWhile c_digit cs;
          fp = (case cs of c # r \<Rightarrow> if c = 46 then takeWhile c_digit r else [] | [] \<Rightarrow> []);
          cs = (case cs of c # r \<Rightarrow> if c = 46 then dropWhile c_digit r else cs | [] \<Rightarrow> []);
          x = (case cs of
                 c # r \<Rightarrow> if c = 101 \<or> c = 69 then read_int (if r \<noteq> [] \<and> hd r = 43 then tl r else r) else 0
               | [] \<Rightarrow> 0) - int (length fp);
          n = read_dec (ip @ fp)
      in if ip = [] \<and> fp = [] then dzero False
         else if 0 \<le> x then round_quot neg (n * 10 ^ nat x) 1 else round_quot neg n (10 ^ nat (- x)))"

definition parse_number :: "json_parser \<Rightarrow> val \<times> json_parser" where
  "parse_number p =
     (let (t, r) = number_span (jrest (skip_whitespace p)) in (VNumber (strtod t), p\<lparr>jrest := r\<rparr>))"

section \<open>Decoding: arrays, objects and values\<close>

type_synonym json_fn = "json_parser \<Rightarrow> vm \<Rightarrow> (val \<times> json_parser \<times> vm) option"

text \<open>The loop over the elements of an array; each round reads at least a character.\<close>

primrec parse_elements :: "nat \<Rightarrow> json_fn \<Rightarrow> addr \<Rightarrow> int \<Rightarrow> json_parser \<Rightarrow> vm \<Rightarrow> (json_parser \<times> vm) option" where
  "parse_elements 0 rec a i p vm = None"
| "parse_elements (Suc n) rec a i p vm =
     do {
       (v, p, vm) \<leftarrow> rec p vm;
       (if jerror p \<noteq> [] then Some (p, vm)
        else do {
          (_, vm) \<leftarrow> heap_set_array a i v vm;
          let (more, p) = parse_char 44 p;
          (if more then parse_elements n rec a (i + 1) p vm else Some (p, vm))
        })
     }"

primrec parse_members :: "nat \<Rightarrow> json_fn \<Rightarrow> addr \<Rightarrow> json_parser \<Rightarrow> vm \<Rightarrow> (json_parser \<times> vm) option" where
  "parse_members 0 rec a p vm = None"
| "parse_members (Suc n) rec a p vm =
     do {
       (k, p, vm) \<leftarrow> parse_string (skip_whitespace p) vm;
       (if jerror p \<noteq> [] then Some (p, vm)
        else do {
          let (colon, p) = parse_char 58 p;
          (if \<not> colon then Some (p\<lparr>jerror := bytes_of ''Expected '' @ [39, 58, 39]\<rparr>, vm)
           else do {
             (v, p, vm) \<leftarrow> rec p vm;
             (if jerror p \<noteq> [] then Some (p, vm)
              else do {
                ka \<leftarrow> as_obj k;
                vm \<leftarrow> heap_set a ka v vm;
                let (more, p) = parse_char 44 p;
                (if more then parse_members n rec a p vm else Some (p, vm))
              })
           })
        })
     }"

text \<open>
  \<open>parse_array\<close> and \<open>parse_object\<close> from their opening to their closing bracket: a new table on the
  stack while its contents are read, popped before returning.
\<close>

definition parse_bracketed ::
  "byte \<Rightarrow> byte \<Rightarrow> (addr \<Rightarrow> json_parser \<Rightarrow> vm \<Rightarrow> (json_parser \<times> vm) option) \<Rightarrow> json_fn" where
  "parse_bracketed open_char close_char contents p vm =
     (let (ok, p) = parse_char open_char p in
      if \<not> ok then Some (VNil, p\<lparr>jerror := bytes_of ''Expected '' @ [39, open_char, 39]\<rparr>, vm)
      else
        let (a, vm) = alloc new_table vm; p = skip_whitespace p in
        do {
          vm \<leftarrow> push (VObj a) vm;
          (p, vm) \<leftarrow> (if jrest p \<noteq> [] \<and> hd (jrest p) \<noteq> close_char then contents a p vm else Some (p, vm));
          vm \<leftarrow> pop_n 1 vm;
          (if jerror p \<noteq> [] then Some (VNil, p, vm)
           else
             let (ok, p) = parse_char close_char p in
             if \<not> ok then Some (VNil, p\<lparr>jerror := bytes_of ''Expected '' @ [39, close_char, 39]\<rparr>, vm)
             else Some (VObj a, p, vm))
        })"

definition parse_array :: "nat \<Rightarrow> json_fn \<Rightarrow> json_fn" where
  "parse_array n rec = parse_bracketed 91 93 (\<lambda>a. parse_elements n rec a 1)"

definition parse_object :: "nat \<Rightarrow> json_fn \<Rightarrow> json_fn" where
  "parse_object n rec = parse_bracketed 123 125 (parse_members n rec)"

definition parse_literal :: "json_parser \<Rightarrow> val \<times> json_parser" where
  "parse_literal p =
     (let r = jrest p in
      if is_prefix (bytes_of ''true'') r then (VBool True, p\<lparr>jrest := drop 4 r\<rparr>)
      else if is_prefix (bytes_of ''false'') r then (VBool False, p\<lparr>jrest := drop 5 r\<rparr>)
      else if is_prefix (bytes_of ''null'') r then (VNil, p\<lparr>jrest := drop 4 r\<rparr>)
      else (VNil, p\<lparr>jerror := cstr (bytes_of ''Unexpected character '' @ [39, hd r, 39])\<rparr>))"

definition parse_some_value :: "nat \<Rightarrow> json_fn \<Rightarrow> json_fn" where
  "parse_some_value n rec p vm =
     (let p = skip_whitespace p in
      case jrest p of
        [] \<Rightarrow> Some (VNil, set_error ''Unexpected end of input'' p, vm)
      | c # r \<Rightarrow>
          if c = 34 then parse_string p vm
          else if c = 123 then parse_object n rec p vm
          else if c = 91 then parse_array n rec p vm
          else if c = 45 \<or> c_digit c then (let (v, p) = parse_number p in Some (v, p, vm))
          else let (v, p) = parse_literal p in Some (v, p, vm))"

primrec parse_value :: "nat \<Rightarrow> json_fn" where
  "parse_value 0 p vm = None"
| "parse_value (Suc n) p vm = parse_some_value n (parse_value n) p vm"

definition return_error :: "bytes \<Rightarrow> vm \<Rightarrow> (bool \<times> vm) option" where
  "return_error msg vm =
     do { vm \<leftarrow> push VNil vm; vm \<leftarrow> push_string msg vm; Some (True, vm) }"

definition json_decode :: native_body where
  "json_decode = checked_args [Argc_Eq 1, Is TString 0] (\<lambda>argc base vm.
     do {
       s \<leftarrow> arg_string base 0 vm;
       (v, p, vm) \<leftarrow> parse_value (length s + 2) \<lparr>jrest = s, jerror = []\<rparr> vm;
       (if jerror p \<noteq> [] then return_error (jerror p) vm
        else if jrest (skip_whitespace p) \<noteq> [] then return_error (bytes_of ''Trailing content after JSON'') vm
        else return_val v vm)
     })"

definition json_functions :: "(string \<times> nat) list" where
  "json_functions = [(''encode'', 1300), (''decode'', 1301)]"

definition register_json :: "vm \<Rightarrow> vm option" where
  "register_json vm = do { vm \<leftarrow> register_module (Some ''json'') json_functions vm; pop_n 1 vm }"

end
