(* ===== verification/Table_Facts.thy ===== *)
theory Table_Facts
  imports Ops_Control
begin

text \<open>
  Properties of the hash table, its array part and the keys of numbers, and of the inline cache
  of global variables, on the machine's own operations.
\<close>

section \<open>Strings of a heap\<close>

text \<open>The contents of the string at an address, and that every string carries its hash.\<close>

definition strings_of :: "heap \<Rightarrow> addr \<Rightarrow> bytes" where
  "strings_of h a = (case string_at h a of Some cs \<Rightarrow> cs | None \<Rightarrow> [])"

definition hashes_ok :: "heap \<Rightarrow> bool" where
  "hashes_ok h \<longleftrightarrow> (\<forall>a cs hash. obj_at h a = Some (OString cs hash) \<longrightarrow> hash = hash_string cs)"

lemma key_at_ok: "hashes_ok h \<Longrightarrow> key_at h a = Some k \<Longrightarrow> key_ok (strings_of h) k"
  by (auto simp: key_at_def key_ok_def strings_of_def string_at_def hashes_ok_def
      split: option.splits obj.splits)

section \<open>The hash table\<close>

definition sample_key :: "addr \<Rightarrow> bytes \<Rightarrow> skey" where
  "sample_key a cs = \<lparr>kaddr = a, kchars = cs, khash = hash_string cs\<rparr>"

definition sample_strings :: "addr \<Rightarrow> bytes" where
  "sample_strings a = [of_nat a]"

lemma key_ok_sample: "key_ok sample_strings (sample_key a [of_nat a])"
  by (simp add: key_ok_def sample_key_def sample_strings_def)

text \<open>
  C1. Any sequence of insertions and deletions on a new table returns, and leaves a table that is
  the finite map the sequence builds: every later lookup gives the last value put under the same
  bytes and not deleted since, whatever collisions, tombstones and growth there have been.
\<close>

theorem table_refines_map:
  assumes "\<forall>p\<in>set ops. key_ok S (op_key p)"
  shows "\<exists>t. run_ops table_set table_delete ops init_table = Some t \<and> table_ok S t \<and>
     (\<forall>k. key_ok S k \<longrightarrow> table_get t k = Some (fold (apply_op kchars) ops Map.empty (kchars k)))"
proof -
  obtain t where t: "run_ops table_set table_delete ops init_table = Some t" "table_ok S t"
    "table_map t = fold (apply_op kchars) ops (table_map init_table)"
    using tbl.run_ops_model [OF table_ok_init(1) assms] by blast
  moreover have "table_map init_table = Map.empty" by (simp add: init_table_def tmap_def List.map_filter_def)
  ultimately show ?thesis using tbl.look_law [OF t(2)] by auto
qed

theorem table_refines_map_witness:
  "\<exists>t. run_ops table_set table_delete [Put (sample_key 1 [1]) VNil, Put (sample_key 2 [2]) (VBool True),
       Del (sample_key 1 [1])] init_table = Some t \<and>
     table_get t (sample_key 2 [2]) = Some (Some (VBool True)) \<and> table_get t (sample_key 1 [1]) = Some None"
proof -
  let ?ops = "[Put (sample_key 1 [1]) VNil, Put (sample_key 2 [2]) (VBool True), Del (sample_key 1 [1])]"
  have k: "key_ok sample_strings (sample_key 1 [1])" "key_ok sample_strings (sample_key 2 [2])"
    using key_ok_sample [of 1] key_ok_sample [of 2] by simp_all
  then have "\<forall>p\<in>set ?ops. key_ok sample_strings (op_key p)" by simp
  from table_refines_map [OF this] k show ?thesis by (auto simp: sample_key_def)
qed

text \<open>
  C2. A lookup remembered together with the version counter is still right as long as the counter
  is the same and fewer than \<open>2\<^sup>3\<^sup>2\<close> operations lie between: the counter wraps around, and only a
  full turn could make the inline caches of \<open>OP_GET_GLOBAL\<close> and \<open>OP_GET_TABLE\<close> go wrong.
\<close>

theorem version_guards_lookup:
  assumes "table_ok S t" "\<forall>p\<in>set ops. key_ok S (op_key p)"
    and "run_ops table_set table_delete ops t = Some t'" "length ops < 2 ^ 32"
    and "version t' = version t" "key_ok S k"
  shows "table_get t' k = table_get t k"
  by (rule tbl.cached_lookup_valid [OF assms])

theorem version_guards_lookup_witness:
  "\<exists>t'. run_ops table_set table_delete [Del (sample_key 1 [1])] init_table = Some t' \<and>
     table_get t' (sample_key 2 [2]) = table_get init_table (sample_key 2 [2])"
proof -
  have k: "key_ok sample_strings (sample_key 1 [1])" "key_ok sample_strings (sample_key 2 [2])"
    using key_ok_sample [of 1] key_ok_sample [of 2] by simp_all
  have r: "run_ops table_set table_delete [Del (sample_key 1 [1])] init_table = Some init_table"
    by (simp add: table_delete_def init_table_def)
  have "table_get init_table (sample_key 2 [2]) = table_get init_table (sample_key 2 [2])"
    by (rule version_guards_lookup [OF table_ok_init(1) _ r _ refl k(2)]) (use k in simp_all)
  with r show ?thesis by blast
qed

text \<open>
  C29. Looking a string up by its contents, as the interning of strings does before the object
  exists, returns on every table, and finds a key with these bytes whenever the table has one.
\<close>

theorem find_string_complete:
  assumes "table_ok S t"
  shows "\<exists>r. table_find_string t cs (hash_string cs) = Some r \<and>
     (case r of None \<Rightarrow> table_map t cs = None
      | Some k \<Rightarrow> kchars k = cs \<and> (\<exists>i<capacity t. ekey (entries t ! i) = Some k))"
  using assms by (rule table_find_string_correct)

theorem find_string_complete_witness:
  "\<exists>r. table_find_string init_table [97] (hash_string [97]) = Some r \<and> r = None"
  using find_string_complete [OF table_ok_init(1), of "[97]"]
  by (auto simp: init_table_def split: option.splits)

text \<open>
  C27. Copying one table into another, as \<open>import *\<close>, table addition and spread calls do, gives the
  union of the two maps in which the copied entries win.
\<close>

theorem add_all_is_union:
  assumes "table_ok S src" "table_ok S dst"
  shows "\<exists>t. table_add_all src dst = Some t \<and> table_ok S t \<and>
     table_map t = table_map dst ++ table_map src \<and> tarray t = tarray dst"
  using assms by (rule table_add_all_correct)

theorem add_all_is_union_witness:
  "\<exists>t. table_add_all init_table init_table = Some t \<and> table_map t = Map.empty"
  using add_all_is_union [OF table_ok_init(1) table_ok_init(1)]
  by (auto simp: init_table_def tmap_def List.map_filter_def)



section \<open>The array part\<close>

text \<open>
  C28. The array part behaves as an array: after a successful store the index reads back the value
  (nil reads as absent), every other index is unchanged, and \<open>array_max\<close> is again the highest
  index in use.
\<close>

theorem array_store_then_load:
  assumes "table_set_array t i v = Some t'" "array_ok t"
  shows "(\<forall>j. table_get_array t' j =
            (if j = i then (if is_nil v then None else Some v) else table_get_array t j)) \<and> array_ok t'"
  using table_set_array_get [OF assms(1)] table_set_array_ok [OF assms] by blast

theorem array_store_then_load_witness:
  "\<exists>t'. table_set_array init_table 1 (VBool True) = Some t' \<and>
     table_get_array t' 1 = Some (VBool True) \<and> array_ok t'"
proof -
  have "table_set_array init_table 1 (VBool True) \<noteq> None" by code_simp
  then obtain t' where t: "table_set_array init_table 1 (VBool True) = Some t'" by blast
  from array_store_then_load [OF t array_ok_init] t show ?thesis by (auto simp: is_nil_def)
qed

section \<open>Numbers as keys and as text\<close>

text \<open>
  C32. The string key made for an integral number below \<open>2\<^sup>5\<^sup>3\<close> is its decimal representation
  behind a two-byte prefix, so different integers never share a table slot, and printing such a
  number gives the same decimal representation.
\<close>

theorem integer_keys_distinct:
  assumes "\<bar>m\<bar> < 2 ^ 53" "\<bar>n\<bar> < 2 ^ 53"
  shows "(number_key_bytes (dbl_of_int m) = number_key_bytes (dbl_of_int n) \<longleftrightarrow> m = n) \<and>
     print_number (dbl_of_int m) = dec_int m \<and> read_int (print_number (dbl_of_int m)) = m"
  using assms by (simp add: number_key_bytes_int dec_int_inject print_number_int read_int_dec_int)

theorem integer_keys_distinct_witness:
  "number_key_bytes (dbl_of_int 12) \<noteq> number_key_bytes (dbl_of_int (- 7)) \<and>
     read_int (print_number (dbl_of_int 12)) = 12"
proof -
  have "(12 :: int) \<noteq> - 7" by simp
  moreover have "\<bar>12 :: int\<bar> < 2 ^ 53" "\<bar>- 7 :: int\<bar> < 2 ^ 53" by simp_all
  ultimately show ?thesis using integer_keys_distinct [of 12 "- 7"] by blast
qed

end
