(* ===== verification/Lib_Facts.thy ===== *)
theory Lib_Facts
  imports Lib Demo Table_Facts
begin

text \<open>
  How natives change the machine: they push and pop values, allocate objects, and change some
  tables. \<open>evolves X\<close> says that only tables of \<open>X\<close> and the contents of threads may have changed,
  \<open>stack_is\<close> describes the top of the stack, \<open>list_at\<close> the array part of a table.
\<close>

section \<open>What stays\<close>

definition same_but :: "addr set \<Rightarrow> heap \<Rightarrow> heap \<Rightarrow> bool" where
  "same_but X h h' \<longleftrightarrow> (\<forall>x b. obj_at h x = Some b \<longrightarrow>
     obj_at h' x = Some b \<or> (\<exists>t u. b = OThread t \<and> obj_at h' x = Some (OThread u)) \<or>
     (x \<in> X \<and> (\<exists>t u. b = OTable t \<and> obj_at h' x = Some (OTable u))))"

lemma same_but_refl [simp]: "same_but X h h"
  by (simp add: same_but_def)

lemma same_butE:
  assumes "same_but X h h'" "obj_at h x = Some b"
  obtains "obj_at h' x = Some b" | t u where "b = OThread t" "obj_at h' x = Some (OThread u)"
  | t u where "x \<in> X" "b = OTable t" "obj_at h' x = Some (OTable u)"
  using assms unfolding same_but_def by blast

lemma same_but_trans:
  assumes "same_but X h h'" "same_but X h' h''"
  shows "same_but X h h''"
  unfolding same_but_def
proof (intro allI impI)
  fix x b assume b: "obj_at h x = Some b"
  show "obj_at h'' x = Some b \<or> (\<exists>t u. b = OThread t \<and> obj_at h'' x = Some (OThread u)) \<or>
     (x \<in> X \<and> (\<exists>t u. b = OTable t \<and> obj_at h'' x = Some (OTable u)))"
  proof (rule same_butE [OF assms(1) b])
    assume "obj_at h' x = Some b"
    then show ?thesis using assms(2) unfolding same_but_def by blast
  next
    fix t u assume "b = OThread t" "obj_at h' x = Some (OThread u)"
    then show ?thesis using same_butE [OF assms(2), of x "OThread u"] by auto
  next
    fix t u assume "x \<in> X" "b = OTable t" "obj_at h' x = Some (OTable u)"
    then show ?thesis using same_butE [OF assms(2), of x "OTable u"] by auto
  qed
qed

lemma same_but_mono: "same_but X h h' \<Longrightarrow> X \<subseteq> Y \<Longrightarrow> same_but Y h h'"
  unfolding same_but_def by blast

lemma string_at_iff: "string_at h a = Some cs \<longleftrightarrow> (\<exists>k. obj_at h a = Some (OString cs k))"
  by (simp add: string_at_def split: option.split obj.split)

lemma same_but_string:
  assumes "same_but X h h'" "string_at h a = Some cs"
  shows "string_at h' a = Some cs"
proof -
  obtain k where k: "obj_at h a = Some (OString cs k)" using assms(2) unfolding string_at_iff by blast
  show ?thesis unfolding string_at_iff by (rule same_butE [OF assms(1) k]) simp_all
qed

lemma same_but_table:
  assumes "same_but X h h'" "table_at h a = Some t" "a \<notin> X"
  shows "table_at h' a = Some t"
  using same_butE [OF assms(1), of a "OTable t"] assms(2,3) by (auto simp: at_iff)

definition evolves :: "addr set \<Rightarrow> vm \<Rightarrow> vm \<Rightarrow> bool" where
  "evolves X vm vm' \<longleftrightarrow> same_but X (vheap vm) (vheap vm') \<and> current_thread vm' = current_thread vm \<and>
     globals vm' = globals vm \<and> modules vm' = modules vm \<and> cframe vm' = cframe vm \<and> ip vm' = ip vm"

lemma evolves_refl [simp]: "evolves X vm vm"
  by (simp add: evolves_def)

lemma evolves_trans: "evolves X vm vm' \<Longrightarrow> evolves X vm' vm'' \<Longrightarrow> evolves X vm vm''"
  using same_but_trans by (auto simp: evolves_def)

lemma evolves_mono: "evolves X vm vm' \<Longrightarrow> X \<subseteq> Y \<Longrightarrow> evolves Y vm vm'"
  using same_but_mono by (auto simp: evolves_def)

lemma evolves_string: "evolves X vm vm' \<Longrightarrow> string_at (vheap vm) a = Some cs \<Longrightarrow> string_at (vheap vm') a = Some cs"
  unfolding evolves_def by (blast intro: same_but_string)

lemma evolves_table: "evolves X vm vm' \<Longrightarrow> table_at (vheap vm) a = Some t \<Longrightarrow> a \<notin> X \<Longrightarrow> table_at (vheap vm') a = Some t"
  unfolding evolves_def by (blast intro: same_but_table)

section \<open>The top of the stack\<close>

text \<open>From slot \<open>n\<close> the stack holds \<open>vs\<close>, and \<open>k\<close> more values fit.\<close>

definition stack_is :: "vm \<Rightarrow> nat \<Rightarrow> val list \<Rightarrow> nat \<Rightarrow> bool" where
  "stack_is vm n vs k \<longleftrightarrow> fresh (vheap vm) \<and> (\<exists>t. cur vm = Some t \<and> stack_top t = n + length vs \<and>
     (\<forall>i. i < length vs \<longrightarrow> stack t (n + i) = Some (vs ! i)) \<and> n + length vs + k \<le> stack_capacity t)"

lemma evolves_put_cur: "cur vm = Some t \<Longrightarrow> evolves X vm (put_cur u vm)"
  by (auto simp: evolves_def same_but_def obj_at_put_cur cur_Some_iff)

lemma push_is:
  assumes "stack_is vm n vs (Suc k)"
  shows "\<exists>vm'. push v vm = Some vm' \<and> stack_is vm' n (vs @ [v]) k \<and> evolves X vm vm'"
proof -
  obtain t where t: "cur vm = Some t" "stack_top t = n + length vs" "fresh (vheap vm)"
    "\<forall>i. i < length vs \<longrightarrow> stack t (n + i) = Some (vs ! i)" "n + length vs + Suc k \<le> stack_capacity t"
    using assms by (auto simp: stack_is_def)
  let ?u = "t\<lparr>stack := (stack t)(stack_top t \<mapsto> v), stack_top := stack_top t + 1\<rparr>"
  have "push v vm = Some (put_cur ?u vm)" using push_eq [OF t(1)] t by simp
  moreover have "stack_is (put_cur ?u vm) n (vs @ [v]) k"
    using t by (auto simp: stack_is_def nth_append)
  ultimately show ?thesis using evolves_put_cur [OF t(1)] by blast
qed

lemma pop_is:
  assumes "stack_is vm n (vs @ [v]) k"
  shows "\<exists>vm'. pop vm = Some (v, vm') \<and> stack_is vm' n vs (Suc k) \<and> evolves X vm vm'"
proof -
  obtain t where t: "cur vm = Some t" "stack_top t = Suc (n + length vs)" "fresh (vheap vm)"
    "\<forall>i. i < Suc (length vs) \<longrightarrow> stack t (n + i) = Some ((vs @ [v]) ! i)" "n + Suc (length vs) + k \<le> stack_capacity t"
    using assms by (auto simp: stack_is_def)
  let ?u = "t\<lparr>stack_top := n + length vs\<rparr>"
  have "pop vm = Some (v, put_cur ?u vm)" using pop_eq [OF t(1,2)] t(4) by (simp add: nth_append)
  moreover have "stack_is (put_cur ?u vm) n vs (Suc k)"
    using t(1,3,5) t(4) [rule_format, OF less_SucI] by (auto simp: stack_is_def nth_append)
  ultimately show ?thesis using evolves_put_cur [OF t(1)] by blast
qed

lemma pop_n_is:
  assumes "stack_is vm n (vs @ ws) k"
  shows "\<exists>vm'. pop_n (length ws) vm = Some vm' \<and> stack_is vm' n vs (k + length ws) \<and> evolves X vm vm'"
  using assms
proof (induction ws arbitrary: vm k rule: rev_induct)
  case (snoc w ws)
  obtain vm1 where 1: "pop vm = Some (w, vm1)" "stack_is vm1 n (vs @ ws) (Suc k)" "evolves X vm vm1"
    using pop_is [of vm n "vs @ ws" w k] snoc.prems by auto
  then show ?case using snoc.IH [OF 1(2)] by (auto intro: evolves_trans)
qed auto

section \<open>Allocation\<close>

lemma fresh_obj: "fresh h \<Longrightarrow> obj_at h x = Some b \<Longrightarrow> x \<noteq> hnext h"
  using fresh_None [of h] by auto

text \<open>An allocation that puts \<open>b\<close> at a new address and leaves the other objects.\<close>

lemma alloc_is:
  assumes "alloc f vm = (a, vm')" "stack_is vm n vs k"
    and "\<And>a h'. f (vheap vm) = (a, h') \<Longrightarrow> a = hnext (vheap vm) \<and> fresh h' \<and>
      (\<forall>x. obj_at h' x = (if x = a then Some b else obj_at (vheap vm) x))"
  shows "stack_is vm' n vs k \<and> evolves X vm vm' \<and> obj_at (vheap vm) a = None \<and> obj_at (vheap vm') a = Some b"
proof -
  obtain h' where h: "f (vheap vm) = (a, h')" "vm' = vm\<lparr>vheap := h'\<rparr>"
    using assms(1) by (auto simp: alloc_def split: prod.splits)
  note o = assms(3) [OF h(1)]
  obtain t where t: "cur vm = Some t" "stack_top t = n + length vs" "fresh (vheap vm)"
    "\<forall>i. i < length vs \<longrightarrow> stack t (n + i) = Some (vs ! i)" "n + length vs + k \<le> stack_capacity t"
    using assms(2) by (auto simp: stack_is_def)
  have old: "obj_at h' x = Some c" if "obj_at (vheap vm) x = Some c" for x c
    using o fresh_obj [OF t(3) that] that by simp
  have "cur vm' = Some t" using t(1) old h(2) by (auto simp: cur_Some_iff)
  moreover have "fresh (vheap vm')" using o h(2) by simp
  moreover have "same_but X (vheap vm) (vheap vm')" unfolding same_but_def h(2) using old by simp
  ultimately show ?thesis using t o h(2) fresh_None [OF t(3)] by (auto simp: stack_is_def evolves_def)
qed

lemma string_val_is:
  assumes "string_val cs vm = (v, vm')" "stack_is vm n vs k"
  shows "stack_is vm' n vs k \<and> evolves X vm vm' \<and>
    (\<exists>a. v = VObj a \<and> obj_at (vheap vm) a = None \<and> string_at (vheap vm') a = Some cs)"
proof -
  obtain a where a: "alloc (\<lambda>h. copy_string h cs) vm = (a, vm')" "v = VObj a"
    using assms(1) by (auto simp: string_val_def split: prod.splits)
  have f: "fresh (vheap vm)" using assms(2) by (simp add: stack_is_def)
  have "stack_is vm' n vs k \<and> evolves X vm vm' \<and> obj_at (vheap vm) a = None \<and>
    obj_at (vheap vm') a = Some (OString cs (hash_string cs))"
    by (rule alloc_is [OF a(1) assms(2)])
      (use copy_string_obj fresh_copy_string [OF f] in \<open>metis snd_conv\<close>)
  then show ?thesis using a(2) by (auto simp: string_at_def)
qed

lemma alloc_string_is:
  assumes "alloc (\<lambda>h. copy_string h cs) vm = (a, vm')" "stack_is vm n vs k"
  shows "stack_is vm' n vs k \<and> evolves X vm vm' \<and> obj_at (vheap vm) a = None \<and> string_at (vheap vm') a = Some cs"
  using string_val_is [of cs vm "VObj a" vm' n vs k X] assms by (simp add: string_val_def)

lemma alloc_table_is:
  assumes "alloc new_table vm = (a, vm')" "stack_is vm n vs k"
  shows "stack_is vm' n vs k \<and> evolves X vm vm' \<and> obj_at (vheap vm) a = None \<and>
    table_at (vheap vm') a = Some \<lparr>otable = init_table, ometatable = None, ois_module = False\<rparr>"
proof -
  have f: "fresh (vheap vm)" using assms(2) by (simp add: stack_is_def)
  have "stack_is vm' n vs k \<and> evolves X vm vm' \<and> obj_at (vheap vm) a = None \<and>
    obj_at (vheap vm') a = Some (OTable \<lparr>otable = init_table, ometatable = None, ois_module = False\<rparr>)"
  proof (rule alloc_is [OF assms])
    fix a h' assume n: "new_table (vheap vm) = (a, h')"
    then show "a = hnext (vheap vm) \<and> fresh h' \<and> (\<forall>x. obj_at h' x = (if x = a then
        Some (OTable \<lparr>otable = init_table, ometatable = None, ois_module = False\<rparr>) else obj_at (vheap vm) x))"
      using obj_at_allocate [OF n [unfolded new_table_def]] fresh_allocate [OF f] unfolding new_table_def
      by (metis snd_conv)
  qed
  then show ?thesis by (simp add: at_iff)
qed

lemma put_table_is:
  assumes "table_at (vheap vm) a = Some ot" "stack_is vm n vs k" "a \<in> X"
  shows "\<exists>vm'. put_table a t vm = Some vm' \<and> stack_is vm' n vs k \<and> evolves X vm vm' \<and>
    table_at (vheap vm') a = Some (ot\<lparr>otable := t\<rparr>)"
proof -
  let ?vm = "vm\<lparr>vheap := put_obj (vheap vm) a (OTable (ot\<lparr>otable := t\<rparr>))\<rparr>"
  have o: "obj_at (vheap ?vm) x = (if x = a then Some (OTable (ot\<lparr>otable := t\<rparr>)) else obj_at (vheap vm) x)" for x
    using assms(1) by (auto simp: at_iff)
  have "put_table a t vm = Some ?vm" using assms(1) by (simp add: put_table_def)
  moreover have "same_but X (vheap vm) (vheap ?vm)" using assms(1,3) o by (auto simp: same_but_def at_iff)
  moreover have "cur ?vm = Some u" if u: "cur vm = Some u" for u
  proof -
    obtain th where th: "current_thread vm = Some th" "obj_at (vheap vm) th = Some (OThread u)"
      using u by (auto simp: cur_Some_iff)
    then have "th \<noteq> a" using assms(1) by (auto simp: at_iff)
    then show ?thesis using th by (simp add: cur_Some_iff)
  qed
  then have "stack_is ?vm n vs k" using assms(2) by (auto simp: stack_is_def)
  ultimately show ?thesis using assms(1) by (auto simp: evolves_def at_iff)
qed

section \<open>Arrays\<close>

text \<open>The array part of \<open>t\<close> holds exactly \<open>vs\<close>.\<close>

definition holds :: "val list \<Rightarrow> table \<Rightarrow> bool" where
  "holds vs t \<longleftrightarrow> array_ok t \<and> array_max t = length vs \<and>
     (\<forall>j. table_get_array t j = (if 1 \<le> j \<and> j \<le> int (length vs) then Some (vs ! nat (j - 1)) else None))"

lemma holds_init: "holds [] init_table"
proof -
  have "table_get_array init_table j = None" for j by (simp add: table_get_array_def init_table_def Let_def)
  then show ?thesis using array_ok_init by (simp add: holds_def init_table_def)
qed

lemma holds_append:
  assumes "holds vs t" "\<not> is_nil v"
  shows "\<exists>t'. table_set_array t (int (length vs) + 1) v = Some t' \<and> holds (vs @ [v]) t' \<and> entries t' = entries t"
proof -
  have t: "array_ok t" "array_max t = length vs" using assms(1) by (auto simp: holds_def)
  obtain t' where t': "table_set_array t (int (length vs) + 1) v = Some t'"
    using table_append_array [OF t(1), of v] t(2) by auto
  have "array_ok t'" by (rule table_set_array_ok [OF t' t(1)])
  moreover have "array_max t' = Suc (length vs)" "entries t' = entries t"
    using t' t assms(2) by (auto simp: table_set_array_def Let_def split: if_splits)
  moreover have "table_get_array t' j = (if 1 \<le> j \<and> j \<le> int (Suc (length vs)) then Some ((vs @ [v]) ! nat (j - 1)) else None)" for j
    using table_set_array_get [OF t', of j] assms by (auto simp: holds_def nth_append)
  ultimately show ?thesis using t' by (auto simp: holds_def)
qed

text \<open>Changing a table that did not exist in \<open>vm\<close> leaves what did.\<close>

lemma evolves_new:
  assumes "evolves {} vm vm1" "evolves {a} vm1 vm2" "obj_at (vheap vm) a = None"
  shows "evolves {} vm vm2"
proof -
  have s: "same_but {} (vheap vm) (vheap vm1)" "same_but {a} (vheap vm1) (vheap vm2)"
    using assms(1,2) by (simp_all add: evolves_def)
  have "same_but {} (vheap vm) (vheap vm2)"
    unfolding same_but_def
  proof (intro allI impI)
    fix x b assume b: "obj_at (vheap vm) x = Some b"
    then have "x \<noteq> a" using assms(3) by auto
    show "obj_at (vheap vm2) x = Some b \<or> (\<exists>t u. b = OThread t \<and> obj_at (vheap vm2) x = Some (OThread u)) \<or>
       (x \<in> {} \<and> (\<exists>t u. b = OTable t \<and> obj_at (vheap vm2) x = Some (OTable u)))"
    proof (rule same_butE [OF s(1) b])
      assume o: "obj_at (vheap vm1) x = Some b"
      show ?thesis by (rule same_butE [OF s(2) o]) (use \<open>x \<noteq> a\<close> in auto)
    next
      fix t u assume o: "b = OThread t" "obj_at (vheap vm1) x = Some (OThread u)"
      show ?thesis by (rule same_butE [OF s(2) o(2)]) (use o in auto)
    qed simp
  qed
  then show ?thesis using assms(1,2) by (simp add: evolves_def)
qed

text \<open>\<open>vs\<close> are string objects with the texts \<open>cs\<close>; a table whose array part are such.\<close>

definition strings_at :: "heap \<Rightarrow> val list \<Rightarrow> bytes list \<Rightarrow> bool" where
  "strings_at h vs cs \<longleftrightarrow> list_all2 (\<lambda>v c. \<exists>s. v = VObj s \<and> string_at h s = Some c) vs cs"

definition cells_at :: "heap \<Rightarrow> addr \<Rightarrow> bytes list \<Rightarrow> bool" where
  "cells_at h a cs \<longleftrightarrow> (\<exists>ot vs. table_at h a = Some ot \<and> holds vs (otable ot) \<and> strings_at h vs cs)"

lemma strings_at_same: "strings_at h vs cs \<Longrightarrow> same_but X h h' \<Longrightarrow> strings_at h' vs cs"
  unfolding strings_at_def by (erule list_all2_mono) (blast intro: same_but_string)

lemma cells_at_same: "cells_at h a cs \<Longrightarrow> same_but X h h' \<Longrightarrow> a \<notin> X \<Longrightarrow> cells_at h' a cs"
  unfolding cells_at_def using same_but_table strings_at_same by metis

text \<open>A native that raised an exception with the message \<open>msg\<close>.\<close>

definition raised :: "bytes \<Rightarrow> vm \<Rightarrow> bool" where
  "raised msg vm \<longleftrightarrow> (\<exists>t a. cur vm = Some t \<and> has_exception t \<and> exception t = VObj a \<and> string_at (vheap vm) a = Some msg)"

lemma fail_bytes_is:
  assumes "stack_is vm n vs k" "length msg \<le> 1023"
  shows "\<exists>vm'. fail_bytes msg vm = Some (False, vm') \<and> stack_is vm' n vs k \<and> evolves X vm vm' \<and> raised msg vm'"
proof -
  obtain v vm1 where v: "string_val (take 1023 msg) vm = (v, vm1)" by fastforce
  obtain a where s: "stack_is vm1 n vs k" "evolves X vm vm1" "v = VObj a" "string_at (vheap vm1) a = Some msg"
    using string_val_is [OF v assms(1), of X] assms(2) by auto
  obtain t where t: "cur vm1 = Some t" using s(1) by (auto simp: stack_is_def)
  let ?vm = "put_cur (t\<lparr>has_exception := True, exception := v, last_error := v\<rparr>) vm1"
  have e: "evolves X vm1 ?vm" by (rule evolves_put_cur [OF t])
  have "fail_bytes msg vm = Some (False, ?vm)" using v t by (simp add: fail_bytes_def vm_runtime_error_def)
  moreover have "stack_is ?vm n vs k" using s(1) t by (auto simp: stack_is_def)
  moreover have "raised msg ?vm" using t s(3) evolves_string [OF e s(4)] by (simp add: raised_def)
  ultimately show ?thesis using evolves_trans [OF s(2) e] by blast
qed

lemma fail_is:
  assumes "stack_is vm n vs k" "length msg \<le> 1023"
  shows "\<exists>vm'. fail msg vm = Some (False, vm') \<and> stack_is vm' n vs k \<and> evolves X vm vm' \<and> raised (bytes_of msg) vm'"
  using fail_bytes_is [OF assms(1), of "bytes_of msg" X] assms(2) by (simp add: fail_eq bytes_of_def)

lemma raised_pop: "raised msg vm \<Longrightarrow> pop vm = Some (v, vm') \<Longrightarrow> raised msg vm'"
  by (elim pop_SomeD) (auto simp: raised_def)

lemma raised_pop_n: "raised msg vm \<Longrightarrow> pop_n k vm = Some vm' \<Longrightarrow> raised msg vm'"
proof (induction k arbitrary: vm)
  case (Suc k)
  then obtain v vm1 where "pop vm = Some (v, vm1)" "pop_n k vm1 = Some vm'" by (auto simp: bind_eq_Some_conv)
  then show ?case using Suc raised_pop by blast
qed simp

section \<open>A machine with a string argument\<close>

definition demo_arg :: "bytes \<Rightarrow> vm" where
  "demo_arg cs = snd (alloc (\<lambda>h. copy_string h cs) (demo_vm (demo_fn [] []) [VObj 5]))"

lemma demo_stack_is: "length vs + k \<le> 256 \<Longrightarrow> stack_is (demo_vm g vs) 0 vs k"
  by (simp add: stack_is_def fresh_demo)

lemma stack_is_drop: "stack_is vm n (vs @ ws) k \<Longrightarrow> stack_is vm (n + length vs) ws k"
  by (auto simp: stack_is_def nth_append add.assoc dest: spec [of _ "length vs + _"])

lemma hnext_demo: "hnext (demo_heap g vs) = 5"
  by (simp add: demo_heap_def new_closure_def allocate_object_def empty_heap_def copy_string_def
      allocate_string_def add_bytes_def)

lemma demo_arg:
  assumes "k \<le> 255"
  shows "stack_is (demo_arg cs) 1 [] k" "string_arg 0 0 (demo_arg cs) cs"
proof -
  let ?vm = "demo_vm (demo_fn [] []) [VObj 5]"
  obtain a vm' where a: "alloc (\<lambda>h. copy_string h cs) ?vm = (a, vm')" by fastforce
  have s: "stack_is ?vm 0 [VObj 5] k" using assms by (intro demo_stack_is) simp
  have 1: "stack_is vm' 0 [VObj 5] k" "string_at (vheap vm') a = Some cs"
    using alloc_string_is [OF a s, of "{}"] by auto
  have "a = 5" using a copy_string_obj hnext_demo [of "demo_fn [] []" "[VObj 5]"]
    by (auto simp: alloc_def split: prod.splits) 
  then show "stack_is (demo_arg cs) 1 [] k" "string_arg 0 0 (demo_arg cs) cs"
    using a 1 stack_is_drop [of vm' 0 "[VObj 5]" "[]" k]
    by (auto simp: demo_arg_def string_arg_def arg_def stack_is_def)
qed

end
