(* ===== verification/Sort_Facts.thy ===== *)
theory Sort_Facts
  imports Lib_Table Lib_Facts Btree_Order "HOL-Library.Multiset"
begin

text \<open>
  Sorting: what the C library's sort does with a three-way comparison that is a total preorder, that
  the comparison of numbers and that of strings are such, and what \<open>table.sort\<close> makes of a table.
\<close>

section \<open>Sorting by a comparison\<close>

lemma mset_merge_runs: "mset (merge_runs cmp xs ys) = mset xs + mset ys"
  by (induction cmp xs ys rule: merge_runs.induct) simp_all

lemma mset_qsort: "mset (qsort cmp xs) = mset xs"
proof (induction cmp xs rule: qsort.induct)
  case (1 cmp xs)
  show ?case
  proof (cases "length xs \<le> 1")
    case True
    then show ?thesis by (simp add: qsort.simps [of cmp xs])
  next
    case False
    let ?n = "length xs div 2"
    have "mset (qsort cmp xs) = mset (qsort cmp (take ?n xs)) + mset (qsort cmp (drop ?n xs))"
      using False by (simp add: qsort.simps [of cmp xs] mset_merge_runs Let_def)
    also have "\<dots> = mset (take ?n xs @ drop ?n xs)"
      using 1 [OF False refl] by (simp del: append_take_drop_id)
    finally show ?thesis by simp
  qed
qed

lemma set_qsort: "set (qsort cmp xs) = set xs"
  by (metis mset_qsort set_mset_mset)

lemma set_merge_runs: "set (merge_runs cmp xs ys) = set xs \<union> set ys"
  by (metis mset_merge_runs set_mset_mset set_mset_union)

definition ordered :: "('k \<Rightarrow> 'k \<Rightarrow> int) \<Rightarrow> 'k list \<Rightarrow> bool" where
  "ordered cmp xs \<longleftrightarrow> sorted_wrt (\<lambda>a b. cmp a b \<le> 0) xs"

context key_order begin

lemma ordered_merge_runs:
  "\<forall>x\<in>set xs \<union> set ys. ok x \<Longrightarrow> ordered cmp xs \<Longrightarrow> ordered cmp ys \<Longrightarrow> ordered cmp (merge_runs cmp xs ys)"
proof (induction xs arbitrary: ys)
  case (Cons x xs)
  note IHx = Cons.IH
  show ?case using Cons.prems
  proof (induction ys)
    case (Cons y ys)
    show ?case
    proof (cases "cmp x y \<le> 0")
      case True
      have "ordered cmp (merge_runs cmp xs (y # ys))" by (rule IHx) (use Cons.prems in \<open>simp_all add: ordered_def\<close>)
      moreover have "cmp x z \<le> 0" if "z \<in> set ys" for z
        by (rule cmp_trans [of x y z]) (use Cons.prems that True in \<open>simp_all add: ordered_def\<close>)
      ultimately show ?thesis using Cons.prems True by (auto simp: ordered_def set_merge_runs)
    next
      case False
      then have yx: "cmp y x \<le> 0" using cmp_sym [of y x] Cons.prems(1) by simp
      have "ordered cmp (merge_runs cmp (x # xs) ys)" by (rule Cons.IH) (use Cons.prems in \<open>simp_all add: ordered_def\<close>)
      moreover have "cmp y z \<le> 0" if "z \<in> set xs" for z
        by (rule cmp_trans [of y x z]) (use Cons.prems that yx in \<open>simp_all add: ordered_def\<close>)
      ultimately show ?thesis using Cons.prems False yx by (auto simp: ordered_def set_merge_runs)
    qed
  qed simp
qed simp

lemma ordered_qsort: "\<forall>x\<in>set xs. ok x \<Longrightarrow> ordered cmp (qsort cmp xs)"
proof (induction "length xs" arbitrary: xs rule: less_induct)
  case less
  show ?case
  proof (cases "length xs \<le> 1")
    case True
    then show ?thesis by (cases xs) (auto simp: qsort.simps ordered_def)
  next
    case False
    let ?n = "length xs div 2"
    have "ordered cmp (qsort cmp (take ?n xs))" "ordered cmp (qsort cmp (drop ?n xs))"
      using False less.prems by (auto intro!: less.hyps dest: in_set_takeD in_set_dropD)
    then have "ordered cmp (merge_runs cmp (qsort cmp (take ?n xs)) (qsort cmp (drop ?n xs)))"
      by (intro ordered_merge_runs) (use less.prems in \<open>auto simp: set_qsort dest: in_set_takeD in_set_dropD\<close>)
    then show ?thesis using False by (simp add: qsort.simps [of cmp xs] Let_def)
  qed
qed

end

section \<open>The comparison of values\<close>

lemma byte_order_less: "byte_order s u < 0 \<longleftrightarrow> s < u"
proof (induction s u rule: byte_order.induct)
  case (4 b bs c cs)
  consider "b < c" | "c < b" | "b = c" by (rule linorder_cases)
  then show ?case using 4 by cases auto
qed simp_all

lemma byte_order_greater: "0 < byte_order s u \<longleftrightarrow> u < s"
proof (induction s u rule: byte_order.induct)
  case (4 b bs c cs)
  consider "b < c" | "c < b" | "b = c" by (rule linorder_cases)
  then show ?case using 4 by cases auto
qed simp_all

text \<open>Numbers that are ordered, and strings, which are ordered by their bytes up to the first NUL.\<close>

definition sortable_number :: "val \<Rightarrow> bool" where
  "sortable_number v \<longleftrightarrow> (\<exists>x. v = VNumber x \<and> wf_double x \<and> x \<noteq> NaN)"

definition sortable_string :: "heap \<Rightarrow> val \<Rightarrow> bool" where
  "sortable_string h v \<longleftrightarrow> (\<exists>a s. v = VObj a \<and> string_at h a = Some s)"

interpretation nv: key_order "compare_values h" sortable_number for h
proof
  have sym: "dlt x y \<Longrightarrow> \<not> dlt y x" if "wf_double x" "wf_double y" "x \<noteq> NaN" "y \<noteq> NaN" for x y
    using dlt_drank [of x y] dlt_drank [of y x] that by auto
  show "compare_values h a a = 0" if "sortable_number a" for a
    using that sym by (fastforce simp: sortable_number_def compare_values_def)
  show "compare_values h a b < 0 \<longleftrightarrow> 0 < compare_values h b a" if "sortable_number a" "sortable_number b" for a b
  proof -
    obtain x y where "a = VNumber x" "b = VNumber y" "wf_double x" "x \<noteq> NaN" "wf_double y" "y \<noteq> NaN"
      using \<open>sortable_number a\<close> \<open>sortable_number b\<close> by (auto simp: sortable_number_def)
    then show ?thesis using sym [of x y] sym [of y x] by (auto simp: compare_values_def)
  qed
  show "compare_values h a c \<le> 0" if abc: "sortable_number a" "sortable_number b" "sortable_number c"
    and l: "compare_values h a b \<le> 0" "compare_values h b c \<le> 0" for a b c
  proof -
    obtain x y z where v: "a = VNumber x" "b = VNumber y" "c = VNumber z"
      and wf: "wf_double x" "x \<noteq> NaN" "wf_double y" "y \<noteq> NaN" "wf_double z" "z \<noteq> NaN"
      using abc by (auto simp: sortable_number_def)
    have "\<not> dlt y x" "\<not> dlt z y" using l sym [of x y] sym [of y z] wf v by (auto simp: compare_values_def split: if_splits)
    then have "\<not> dlt z x" using wf dlt_drank [of y x] dlt_drank [of z y] dlt_drank [of z x] by auto
    then show ?thesis using v by (simp add: compare_values_def)
  qed
qed

interpretation sv: key_order "compare_values h" "sortable_string h" for h
proof
  have c: "compare_values h (VObj a) (VObj b) = byte_order (cstr s) (cstr u)"
    if "string_at h a = Some s" "string_at h b = Some u" for a b s u
    using that by (simp add: compare_values_def)
  have le: "byte_order s u \<le> 0 \<longleftrightarrow> s \<le> u" for s u using byte_order_greater [of s u] by auto
  have z: "byte_order s s = 0" for s using byte_order_less [of s s] byte_order_greater [of s s] by auto
  show "compare_values h a a = 0" if "sortable_string h a" for a
    using that c z by (auto simp: sortable_string_def)
  show "compare_values h a b < 0 \<longleftrightarrow> 0 < compare_values h b a" if "sortable_string h a" "sortable_string h b" for a b
    using that by (auto simp: sortable_string_def c byte_order_less byte_order_greater)
  show "compare_values h a d \<le> 0" if "sortable_string h a" "sortable_string h b" "sortable_string h d"
    "compare_values h a b \<le> 0" "compare_values h b d \<le> 0" for a b d
    using that by (auto simp: sortable_string_def c le)
qed

section \<open>Writing back\<close>

lemma array_length_get:
  "i < array_length t \<Longrightarrow> table_get_array t (int i + 1) = Some (tarray t ! i)"
  "table_get_array t (int (array_length t) + 1) = None"
  "array_length t \<le> array_capacity t"
proof -
  have l: "array_length_from vs \<le> length vs \<and> (i < array_length_from vs \<longrightarrow> \<not> is_nil (vs ! i)) \<and>
      (array_length_from vs < length vs \<longrightarrow> is_nil (vs ! array_length_from vs))" for vs i
    by (induction vs arbitrary: i) (auto simp: nth_Cons split: nat.split)
  show "i < array_length t \<Longrightarrow> table_get_array t (int i + 1) = Some (tarray t ! i)"
    using l [of "tarray t" i] by (auto simp: table_get_array_def array_length_def Let_def)
  show "table_get_array t (int (array_length t) + 1) = None"
    using l [of "tarray t"] by (auto simp: table_get_array_def array_length_def)
  show "array_length t \<le> array_capacity t" using l [of "tarray t"] by (simp add: array_length_def)
qed

lemma array_elements_nth:
  "length (array_elements t) = array_length t"
  "i < array_length t \<Longrightarrow> table_get_array t (int i + 1) = Some (array_elements t ! i)"
  using array_length_get(1) [of i t] array_length_get(3) [of t] by (simp_all add: array_elements_def)

lemma array_elements_not_nil: "v \<in> set (array_elements t) \<Longrightarrow> \<not> is_nil v"
proof -
  have "i < array_length_from vs \<Longrightarrow> \<not> is_nil (vs ! i)" for vs i
    by (induction vs arbitrary: i) (auto simp: nth_Cons split: nat.splits if_splits)
  then show "v \<in> set (array_elements t) \<Longrightarrow> \<not> is_nil v"
    by (auto simp: in_set_conv_nth array_elements_nth array_elements_def array_length_def)
qed

text \<open>The elements are determined by what the indices read.\<close>

lemma array_elements_eqI:
  assumes "\<And>i. i < length xs \<Longrightarrow> table_get_array t (int i + 1) = Some (xs ! i)"
    and "table_get_array t (int (length xs) + 1) = None"
  shows "array_elements t = xs"
proof -
  have "\<not> array_length t < length xs" using assms(1) [of "array_length t"] array_length_get(2) [of t] by auto
  moreover have "\<not> length xs < array_length t" using assms(2) array_length_get(1) [of "length xs" t] by auto
  ultimately have n: "array_length t = length xs" by simp
  show ?thesis
  proof (rule nth_equalityI)
    show "length (array_elements t) = length xs" using n by (simp add: array_elements_nth)
    fix i assume "i < length (array_elements t)"
    then show "array_elements t ! i = xs ! i"
      using assms(1) [of i] array_elements_nth [where t = t] n by simp
  qed
qed

lemma fill_array_get:
  assumes "1 \<le> i" "i + int (length vs) \<le> int (array_capacity t) + 1" "\<forall>v\<in>set vs. \<not> is_nil v"
  shows "table_get_array (fill_array i vs t) j =
      (if i \<le> j \<and> j < i + int (length vs) then Some (vs ! nat (j - i)) else table_get_array t j) \<and>
    entries (fill_array i vs t) = entries t"
  using assms
proof (induction vs arbitrary: i t)
  case (Cons v vs)
  have "\<not> (i < 1 \<or> int (array_max t) + 1 < i \<and> int (array_capacity t) < i)" using Cons.prems by auto
  then obtain t' where t': "table_set_array t i v = Some t'"
    by (cases "table_set_array t i v") (auto simp: table_set_array_grown Let_def)
  have e: "entries t' = entries t" using t' by (auto simp: table_set_array_def Let_def split: if_splits)
  have "array_capacity t \<le> array_capacity t'"
    using t' array_grown_props(2) [of t] by (auto simp: table_set_array_grown Let_def split: if_splits)
  then have ih: "table_get_array (fill_array (i + 1) vs t') j =
      (if i + 1 \<le> j \<and> j < i + 1 + int (length vs) then Some (vs ! nat (j - (i + 1))) else table_get_array t' j) \<and>
    entries (fill_array (i + 1) vs t') = entries t'"
    using Cons.prems by (intro Cons.IH) auto
  have "nat (j - i) = Suc (nat (j - (i + 1)))" if "i < j" using that by simp
  then have "(v # vs) ! nat (j - i) = vs ! nat (j - (i + 1))" if "i < j" using that by simp
  then show ?case using ih t' e table_set_array_get [OF t', of j] Cons.prems(3) by auto
qed auto

section \<open>The native function\<close>

lemma table_at_type: "table_at h a = Some ot \<Longrightarrow> type_of h (VObj a) = Some TTable"
  by (auto simp: at_iff type_of_def obj_type_def)

lemma sorted_table:
  assumes "mset ys = mset (array_elements t)"
  shows "array_elements (fill_array 1 ys t) = ys" "entries (fill_array 1 ys t) = entries t"
    "int (array_length t) < j \<Longrightarrow> table_get_array (fill_array 1 ys t) j = table_get_array t j"
proof -
  have len: "length ys = array_length t" by (metis array_elements_nth(1) assms size_mset)
  have set: "set ys = set (array_elements t)" by (metis assms set_mset_mset)
  have get: "table_get_array (fill_array 1 ys t) j = (if 1 \<le> j \<and> j < 1 + int (length ys) then Some (ys ! nat (j - 1))
      else table_get_array t j) \<and> entries (fill_array 1 ys t) = entries t" for j
    using array_length_get(3) [of t] array_elements_not_nil by (intro fill_array_get) (auto simp: set len)
  then show "entries (fill_array 1 ys t) = entries t"
    "int (array_length t) < j \<Longrightarrow> table_get_array (fill_array 1 ys t) j = table_get_array t j" by (simp_all add: len)
  show "array_elements (fill_array 1 ys t) = ys"
    by (rule array_elements_eqI) (use get array_length_get(2) [of t] in \<open>simp_all add: len\<close>)
qed


definition sort_demo :: "val list \<Rightarrow> vm" where
  "sort_demo vs =
     snd (alloc (\<lambda>h. allocate_object h (OTable \<lparr>otable = fill_array 1 vs init_table, ometatable = None, ois_module = False\<rparr>))
       (demo_vm (demo_fn [] []) [VObj 5]))"

lemma sort_demo_facts:
  assumes "k \<le> 255"
  shows "stack_is (sort_demo vs) 1 [] k" "arg 0 0 (sort_demo vs) = Some (VObj 5)"
    "table_at (vheap (sort_demo vs)) 5 = Some \<lparr>otable = fill_array 1 vs init_table, ometatable = None, ois_module = False\<rparr>"
proof -
  let ?vm = "demo_vm (demo_fn [] []) [VObj 5]"
  let ?ot = "\<lparr>otable = fill_array 1 vs init_table, ometatable = None, ois_module = False\<rparr>"
  obtain a vm' where a: "alloc (\<lambda>h. allocate_object h (OTable ?ot)) ?vm = (a, vm')" by fastforce
  have s: "stack_is ?vm 0 [VObj 5] k" using assms by (intro demo_stack_is) simp
  have "stack_is vm' 0 [VObj 5] k \<and> evolves {} ?vm vm' \<and> obj_at (vheap ?vm) a = None \<and>
      obj_at (vheap vm') a = Some (OTable ?ot)"
  proof (rule alloc_is [OF a s])
    fix b h' assume n: "allocate_object (vheap ?vm) (OTable ?ot) = (b, h')"
    show "b = hnext (vheap ?vm) \<and> fresh h' \<and>
        (\<forall>x. obj_at h' x = (if x = b then Some (OTable ?ot) else obj_at (vheap ?vm) x))"
      using obj_at_allocate [OF n] fresh_allocate [of "vheap ?vm" "OTable ?ot"] n s by (simp add: stack_is_def)
  qed
  moreover have "a = 5"
    using a obj_at_allocate(2) hnext_demo [of "demo_fn [] []" "[VObj 5]"]
    by (auto simp: alloc_def split: prod.splits)
  moreover have "vm' = sort_demo vs" using a by (simp add: sort_demo_def)
  ultimately show "stack_is (sort_demo vs) 1 [] k" "arg 0 0 (sort_demo vs) = Some (VObj 5)"
    "table_at (vheap (sort_demo vs)) 5 = Some ?ot"
    using stack_is_drop [of vm' 0 "[VObj 5]" "[]" k] by (auto simp: arg_def stack_is_def at_iff)
qed


end
