(* ===== verification/Csv_Facts.thy ===== *)
theory Csv_Facts
  imports Lib_Csv Lib_Facts
begin

text \<open>
  Properties of the \<open>csv\<close> module: the parser on tables refines a parser on lists, and parsing
  what was printed gives the rows again.
\<close>

section \<open>The parser on lists\<close>

record spec =
  smode :: csv_state
  sfield :: bytes
  srow :: "bytes list option"
  srows :: "bytes list list"

datatype spec_step = SGo spec bytes | SBreak spec | SError string

definition spec_end_row :: "byte \<Rightarrow> bytes \<Rightarrow> spec \<Rightarrow> spec_step" where
  "spec_end_row c cs s =
     (case srow s of
        None \<Rightarrow> SError ''csv.parse: internal state error.''
      | Some r \<Rightarrow>
          let s = \<lparr>smode = CSV_FIELD_START, sfield = [], srow = None, srows = srows s @ [r @ [sfield s]]\<rparr>;
              cs = (case cs of d # ds \<Rightarrow> if c = 13 \<and> d = 10 then ds else cs | [] \<Rightarrow> [])
          in if c = 0 then SBreak s else SGo (if cs \<noteq> [] then s\<lparr>srow := Some []\<rparr> else s) cs)"

definition spec_end_field :: "bytes \<Rightarrow> spec \<Rightarrow> spec_step" where
  "spec_end_field cs s =
     (case srow s of
        None \<Rightarrow> SError ''csv.parse: internal state error.''
      | Some r \<Rightarrow> SGo (s\<lparr>smode := CSV_FIELD_START, sfield := [], srow := Some (r @ [sfield s])\<rparr>) cs)"

definition spec_step :: "byte \<Rightarrow> byte \<Rightarrow> bytes \<Rightarrow> spec \<Rightarrow> spec_step" where
  "spec_step d c cs s =
     (case smode s of
        CSV_FIELD_START \<Rightarrow>
          if c = 34 then SGo (s\<lparr>smode := CSV_IN_QUOTED\<rparr>) cs
          else if c = d then spec_end_field cs s
          else if end_of_row c then spec_end_row c cs s
          else SGo (s\<lparr>sfield := sfield s @ [c], smode := CSV_IN_UNQUOTED\<rparr>) cs
      | CSV_IN_UNQUOTED \<Rightarrow>
          if c = 34 then SError ''csv.parse: unexpected quote in unquoted field.''
          else if c = d then spec_end_field cs s
          else if end_of_row c then spec_end_row c cs s
          else SGo (s\<lparr>sfield := sfield s @ [c]\<rparr>) cs
      | CSV_IN_QUOTED \<Rightarrow>
          if c = 0 then SError ''csv.parse: unterminated quoted field.''
          else if c = 34 then
            (case cs of
               x # xs \<Rightarrow> if x = 34 then SGo (s\<lparr>sfield := sfield s @ [34]\<rparr>) xs else SGo (s\<lparr>smode := CSV_AFTER_QUOTE\<rparr>) cs
             | [] \<Rightarrow> SGo (s\<lparr>smode := CSV_AFTER_QUOTE\<rparr>) cs)
          else SGo (s\<lparr>sfield := sfield s @ [c]\<rparr>) cs
      | CSV_AFTER_QUOTE \<Rightarrow>
          if c = d then spec_end_field cs s
          else if end_of_row c then spec_end_row c cs s
          else SError ''csv.parse: invalid character after closing quote.'')"

lemma spec_step_rest: "spec_step d c cs s = SGo s' cs' \<Longrightarrow> length cs' \<le> length cs"
  by (auto simp: spec_step_def spec_end_field_def spec_end_row_def Let_def
      split: csv_state.splits if_splits list.splits option.splits)

function spec_loop :: "byte \<Rightarrow> bytes \<Rightarrow> spec \<Rightarrow> spec_step" where
  "spec_loop d [] s = spec_step d 0 [] s"
| "spec_loop d (c # cs) s = (case spec_step d c cs s of SGo s' cs' \<Rightarrow> spec_loop d cs' s' | r \<Rightarrow> r)"
  by pat_completeness auto
termination
  by (relation "measure (\<lambda>(_, cs, _). length cs)") (auto dest: spec_step_rest)

section \<open>Refinement\<close>

text \<open>
  The rows read so far are in the table at \<open>R\<close>, the started row is the second value on the stack.
\<close>

definition represents :: "vm \<Rightarrow> nat \<Rightarrow> addr \<Rightarrow> csv \<Rightarrow> vm \<Rightarrow> spec \<Rightarrow> bool" where
  "represents vm0 n R st vm s \<longleftrightarrow>
     cstate st = smode s \<and> cfield st = sfield s \<and> crow_pushed st = (crow st \<noteq> None) \<and>
     obj_at (vheap vm0) R = None \<and> evolves {} vm0 vm \<and> crow_index st = int (length (srows s)) + 1 \<and>
     (\<exists>as ot. table_at (vheap vm) R = Some ot \<and> holds (map VObj as) (otable ot) \<and>
        list_all2 (cells_at (vheap vm)) as (srows s) \<and> R \<notin> set as \<and>
        (case crow st of
           None \<Rightarrow> srow s = None \<and> cfield_index st = 1 \<and> stack_is vm n [VObj R] 1
         | Some a \<Rightarrow> (\<exists>r. srow s = Some r \<and> cfield_index st = int (length r) + 1 \<and> cells_at (vheap vm) a r \<and>
             a \<noteq> R \<and> a \<notin> set as \<and> obj_at (vheap vm0) a = None \<and> stack_is vm n [VObj R, VObj a] 0)))"

fun matches :: "vm \<Rightarrow> nat \<Rightarrow> addr \<Rightarrow> csv_step option \<Rightarrow> spec_step \<Rightarrow> bool" where
  "matches vm0 n R (Some (CsvGo st cs vm)) (SGo s cs') = (cs = cs' \<and> represents vm0 n R st vm s)"
| "matches vm0 n R (Some (CsvBreak st vm)) (SBreak s) = represents vm0 n R st vm s"
| "matches vm0 n R (Some (CsvError st vm)) (SError msg) =
     (evolves {} vm0 vm \<and> raised (bytes_of msg) vm \<and> (if crow_pushed st then \<exists>v. stack_is vm n [VObj R, v] 0 else stack_is vm n [VObj R] 1))"
| "matches _ _ _ _ _ = False"

lemma heap_set_array_is:
  assumes "table_at (vheap vm) a = Some ot" "holds vs (otable ot)" "\<not> is_nil v" "stack_is vm n ws k" "i = int (length vs) + 1"
  shows "\<exists>vm' ot'. heap_set_array a i v vm = Some (True, vm') \<and> stack_is vm' n ws k \<and> evolves {a} vm vm' \<and>
    table_at (vheap vm') a = Some ot' \<and> holds (vs @ [v]) (otable ot')"
proof -
  obtain t' where t': "table_set_array (otable ot) i v = Some t'" "holds (vs @ [v]) t'"
    using holds_append [OF assms(2,3)] assms(5) by blast
  obtain vm' where "put_table a t' vm = Some vm'" "stack_is vm' n ws k" "evolves {a} vm vm'"
    "table_at (vheap vm') a = Some (ot\<lparr>otable := t'\<rparr>)"
    using put_table_is [OF assms(1,4), of "{a}" t'] by auto
  then show ?thesis using assms(1) t' by (auto simp: heap_set_array_def)
qed

lemma list_all2_cells_same:
  "list_all2 (cells_at h) as rs \<Longrightarrow> same_but X h h' \<Longrightarrow> X \<inter> set as = {} \<Longrightarrow> list_all2 (cells_at h') as rs"
  by (induction rule: list_all2_induct) (auto intro: cells_at_same)

lemma emit_field_is:
  assumes rep: "represents vm0 n R st vm s" and a: "crow st = Some a"
  shows "\<exists>vm' r. csv_emit_field st vm = Some (True, st\<lparr>cfield_index := cfield_index st + 1, cfield := []\<rparr>, vm') \<and>
    srow s = Some r \<and>
    represents vm0 n R (st\<lparr>cfield_index := cfield_index st + 1, cfield := []\<rparr>) vm'
      (s\<lparr>sfield := [], srow := Some (r @ [sfield s])\<rparr>)"
proof -
  obtain as ot r where R: "table_at (vheap vm) R = Some ot" "holds (map VObj as) (otable ot)"
      "list_all2 (cells_at (vheap vm)) as (srows s)" "R \<notin> set as"
    and r: "srow s = Some r" "cfield_index st = int (length r) + 1" "cells_at (vheap vm) a r" "a \<noteq> R" "a \<notin> set as"
      "obj_at (vheap vm0) a = None" "stack_is vm n [VObj R, VObj a] 0"
    using rep a by (auto simp: represents_def)
  obtain oa vs where oa: "table_at (vheap vm) a = Some oa" "holds vs (otable oa)" "strings_at (vheap vm) vs r"
    using r(3) by (auto simp: cells_at_def)
  obtain v vm1 where v: "string_val (cfield st) vm = (v, vm1)" by fastforce
  then obtain b where 1: "stack_is vm1 n [VObj R, VObj a] 0" "evolves {} vm vm1" "v = VObj b"
      "string_at (vheap vm1) b = Some (cfield st)"
    using string_val_is [OF v r(7), of "{}"] by auto
  have s1: "same_but {} (vheap vm) (vheap vm1)" using 1(2) by (simp add: evolves_def)
  have len: "length vs = length r" using oa(3) by (auto simp: strings_at_def dest: list_all2_lengthD)
  obtain vm2 oa' where 2: "heap_set_array a (cfield_index st) v vm1 = Some (True, vm2)"
      "stack_is vm2 n [VObj R, VObj a] 0" "evolves {a} vm1 vm2"
      "table_at (vheap vm2) a = Some oa'" "holds (vs @ [v]) (otable oa')"
    using heap_set_array_is [OF same_but_table [OF s1 oa(1)] oa(2) _ 1(1), of v "cfield_index st"] 1(3) r(2) len
    by (auto simp: is_nil_def)
  have s2: "same_but {a} (vheap vm1) (vheap vm2)" using 2(3) by (simp add: evolves_def)
  have "strings_at (vheap vm2) (vs @ [v]) (r @ [cfield st])"
    using strings_at_same [OF strings_at_same [OF oa(3) s1] s2] 1(3) same_but_string [OF s2 1(4)]
    by (auto simp: strings_at_def intro: list_all2_appendI)
  then have "cells_at (vheap vm2) a (r @ [cfield st])" using 2(4,5) by (auto simp: cells_at_def)
  moreover have "table_at (vheap vm2) R = Some ot"
    using same_but_table [OF s2 same_but_table [OF s1 R(1)]] r(4) by auto
  moreover have "list_all2 (cells_at (vheap vm2)) as (srows s)"
    using list_all2_cells_same [OF list_all2_cells_same [OF R(3) s1] s2] r(5) by auto
  moreover have "evolves {} vm0 vm2"
    using rep 1(2) evolves_new [OF _ 2(3) r(6)] evolves_trans by (fastforce simp: represents_def)
  ultimately show ?thesis using v 2 a r(1,2,4-6) rep R(2,4)
    by (auto simp: csv_emit_field_def represents_def)
qed

lemma end_field_matches:
  assumes rep: "represents vm0 n R st vm s"
  shows "matches vm0 n R (csv_end_field cs st vm) (spec_end_field cs s)"
proof (cases "crow st")
  case None
  then have k: "stack_is vm n [VObj R] 1" "srow s = None" "\<not> crow_pushed st" "evolves {} vm0 vm"
    using rep by (auto simp: represents_def)
  obtain vm' where "fail ''csv.parse: internal state error.'' vm = Some (False, vm')" "stack_is vm' n [VObj R] 1"
    "evolves {} vm vm'" "raised (bytes_of ''csv.parse: internal state error.'') vm'"
    using fail_is [OF k(1), of "''csv.parse: internal state error.''" "{}"] by auto
  then show ?thesis using None k evolves_trans [OF k(4)]
    by (simp add: csv_end_field_def csv_emit_field_def spec_end_field_def)
next
  case (Some a)
  then show ?thesis
    using emit_field_is [OF rep Some] by (auto simp: csv_end_field_def spec_end_field_def represents_def)
qed

text \<open>The finished row goes into the table of rows and off the stack.\<close>

lemma emit_row_is:
  assumes rep: "represents vm0 n R st vm s" and a: "crow st = Some a"
  shows "\<exists>vm1 vm2 r. csv_emit_row R st vm = Some (True, st\<lparr>crow_index := crow_index st + 1\<rparr>, vm1) \<and>
    pop_n 1 vm1 = Some vm2 \<and> srow s = Some r \<and>
    represents vm0 n R (st\<lparr>crow_index := crow_index st + 1, crow_pushed := False, crow := None, cfield_index := 1,
        cstate := CSV_FIELD_START\<rparr>) vm2 \<lparr>smode = CSV_FIELD_START, sfield = sfield s, srow = None, srows = srows s @ [r]\<rparr>"
proof -
  obtain as ot r where R: "table_at (vheap vm) R = Some ot" "holds (map VObj as) (otable ot)"
      "list_all2 (cells_at (vheap vm)) as (srows s)" "R \<notin> set as"
    and r: "srow s = Some r" "cells_at (vheap vm) a r" "a \<noteq> R" "a \<notin> set as"
      "obj_at (vheap vm0) a = None" "stack_is vm n [VObj R, VObj a] 0"
    using rep a by (auto simp: represents_def)
  have len: "length as = length (srows s)" using R(3) by (rule list_all2_lengthD)
  obtain vm1 ot' where 1: "heap_set_array R (crow_index st) (VObj a) vm = Some (True, vm1)"
      "stack_is vm1 n [VObj R, VObj a] 0" "evolves {R} vm vm1"
      "table_at (vheap vm1) R = Some ot'" "holds (map VObj (as @ [a])) (otable ot')"
    using heap_set_array_is [OF R(1,2) _ r(6), of "VObj a" "crow_index st"] rep len
    by (auto simp: is_nil_def represents_def)
  obtain vm2 where 2: "pop_n 1 vm1 = Some vm2" "stack_is vm2 n [VObj R] 1" "evolves {} vm1 vm2"
    using pop_n_is [of vm1 n "[VObj R]" "[VObj a]" 0 "{}"] 1(2) by auto
  have s: "same_but {R} (vheap vm) (vheap vm1)" "same_but {} (vheap vm1) (vheap vm2)"
    using 1(3) 2(3) by (simp_all add: evolves_def)
  have "list_all2 (cells_at (vheap vm)) (as @ [a]) (srows s @ [r])" using R(3) r(2) by (auto intro: list_all2_appendI)
  then have "list_all2 (cells_at (vheap vm2)) (as @ [a]) (srows s @ [r])"
    using list_all2_cells_same [OF list_all2_cells_same [OF _ s(1)] s(2)] R(4) r(3) by auto
  moreover have "table_at (vheap vm2) R = Some ot'" using same_but_table [OF s(2) 1(4)] by auto
  moreover have "evolves {} vm0 vm2"
    using rep evolves_new [OF _ 1(3)] evolves_trans [OF _ 2(3)] by (fastforce simp: represents_def)
  ultimately have "represents vm0 n R (st\<lparr>crow_index := crow_index st + 1, crow_pushed := False, crow := None, cfield_index := 1,
        cstate := CSV_FIELD_START\<rparr>) vm2 \<lparr>smode = CSV_FIELD_START, sfield = sfield s, srow = None, srows = srows s @ [r]\<rparr>"
    unfolding represents_def using rep 1(5) 2(2) R(4) r(3)
    by (intro conjI exI [of _ "as @ [a]"] exI [of _ ot']) (auto simp: represents_def)
  moreover have "csv_emit_row R st vm = Some (True, st\<lparr>crow_index := crow_index st + 1\<rparr>, vm1)"
    using 1(1) a by (simp add: csv_emit_row_def)
  ultimately show ?thesis using 2(1) r(1) by blast
qed

lemma ensure_row_is:
  assumes rep: "represents vm0 n R st vm s" and a: "crow st = None"
  shows "\<exists>st' vm'. csv_ensure_row st vm = Some (st', vm') \<and> represents vm0 n R st' vm' (s\<lparr>srow := Some []\<rparr>)"
proof -
  obtain as ot where R: "table_at (vheap vm) R = Some ot" "holds (map VObj as) (otable ot)"
      "list_all2 (cells_at (vheap vm)) as (srows s)" "R \<notin> set as" "cfield_index st = 1" "stack_is vm n [VObj R] 1"
      "evolves {} vm0 vm"
    using rep a by (auto simp: represents_def)
  obtain b vm1 where n: "alloc new_table vm = (b, vm1)" by fastforce
  have 1: "stack_is vm1 n [VObj R] 1" "evolves {} vm vm1" "obj_at (vheap vm) b = None"
    "table_at (vheap vm1) b = Some \<lparr>otable = init_table, ometatable = None, ois_module = False\<rparr>"
    using alloc_table_is [OF n R(6), of "{}"] by auto
  obtain vm2 where 2: "push (VObj b) vm1 = Some vm2" "stack_is vm2 n [VObj R, VObj b] 0" "evolves {} vm1 vm2"
    using push_is [of vm1 n "[VObj R]" 0 "VObj b" "{}"] 1(1) by auto
  have s: "same_but {} (vheap vm) (vheap vm1)" "same_but {} (vheap vm1) (vheap vm2)"
    using 1(2) 2(3) by (simp_all add: evolves_def)
  have old: "obj_at (vheap vm0) b = None"
  proof (cases "obj_at (vheap vm0) b")
    case (Some x)
    have "same_but {} (vheap vm0) (vheap vm)" using R(7) by (simp add: evolves_def)
    then show ?thesis using 1(3) same_butE [OF _ Some, of "{}" "vheap vm"] by fastforce
  qed
  have "table_at (vheap vm2) b = Some \<lparr>otable = init_table, ometatable = None, ois_module = False\<rparr>"
    using same_but_table [OF s(2) 1(4)] by auto
  then have "cells_at (vheap vm2) b []" using holds_init by (fastforce simp: cells_at_def strings_at_def)
  moreover have "b \<noteq> R" using R(1) 1(3) by (auto simp: at_iff)
  moreover have "b \<notin> set as"
  proof
    assume "b \<in> set as"
    then obtain r where "cells_at (vheap vm) b r"
      using R(3) by (metis in_set_conv_nth list_all2_nthD)
    then show False using 1(3) by (auto simp: cells_at_def at_iff)
  qed
  moreover have "list_all2 (cells_at (vheap vm2)) as (srows s)"
    using list_all2_cells_same [OF list_all2_cells_same [OF R(3) s(1)] s(2)] by auto
  moreover have "table_at (vheap vm2) R = Some ot" using same_but_table [OF s(2) same_but_table [OF s(1) R(1)]] by auto
  moreover have "evolves {} vm0 vm2" using R(7) 1(2) 2(3) evolves_trans by blast
  ultimately have "represents vm0 n R (st\<lparr>crow := Some b, crow_pushed := True\<rparr>) vm2 (s\<lparr>srow := Some []\<rparr>)"
    using rep R(2,4,5) 2(2) old by (auto simp: represents_def)
  moreover have "csv_ensure_row st vm = Some (st\<lparr>crow := Some b, crow_pushed := True\<rparr>, vm2)"
    using n 2(1) a by (simp add: csv_ensure_row_def)
  ultimately show ?thesis by blast
qed

lemma end_row_matches:
  assumes rep: "represents vm0 n R st vm s"
  shows "matches vm0 n R (csv_end_row R c cs st vm) (spec_end_row c cs s)"
proof (cases "crow st")
  case None
  then have k: "stack_is vm n [VObj R] 1" "srow s = None" "\<not> crow_pushed st" "evolves {} vm0 vm"
    using rep by (auto simp: represents_def)
  obtain vm' where "fail ''csv.parse: internal state error.'' vm = Some (False, vm')" "stack_is vm' n [VObj R] 1"
    "evolves {} vm vm'" "raised (bytes_of ''csv.parse: internal state error.'') vm'"
    using fail_is [OF k(1), of "''csv.parse: internal state error.''" "{}"] by auto
  then show ?thesis using None k evolves_trans [OF k(4)]
    by (simp add: csv_end_row_def csv_emit_field_def spec_end_row_def)
next
  case (Some a)
  let ?st1 = "st\<lparr>cfield_index := cfield_index st + 1, cfield := []\<rparr>"
  obtain vm1 r where 1: "csv_emit_field st vm = Some (True, ?st1, vm1)" "srow s = Some r"
      "represents vm0 n R ?st1 vm1 (s\<lparr>sfield := [], srow := Some (r @ [sfield s])\<rparr>)"
    using emit_field_is [OF rep Some] by blast
  let ?st2 = "?st1\<lparr>crow_index := crow_index ?st1 + 1\<rparr>"
  let ?st3 = "?st1\<lparr>crow_index := crow_index ?st1 + 1, crow_pushed := False, crow := None, cfield_index := 1,
        cstate := CSV_FIELD_START\<rparr>"
  let ?s = "\<lparr>smode = CSV_FIELD_START, sfield = [], srow = None, srows = srows s @ [r @ [sfield s]]\<rparr>"
  obtain vm2 vm3 where 2: "csv_emit_row R ?st1 vm1 = Some (True, ?st2, vm2)" "pop_n 1 vm2 = Some vm3"
      "represents vm0 n R ?st3 vm3 ?s"
    using emit_row_is [OF 1(3), of a] Some by auto
  let ?cs = "case cs of d # ds \<Rightarrow> if c = 13 \<and> d = 10 then ds else cs | [] \<Rightarrow> []"
  have p: "crow_pushed st" using rep Some by (simp add: represents_def)
  have e: "csv_end_row R c cs st vm =
      (if c = 0 then Some (CsvBreak ?st3 vm3)
       else if ?cs \<noteq> [] then do { (st, vm) \<leftarrow> csv_ensure_row ?st3 vm3; Some (CsvGo st ?cs vm) }
       else Some (CsvGo ?st3 ?cs vm3))"
    using 1(1) 2(1,2) p by (simp add: csv_end_row_def Let_def del: pop_n.simps One_nat_def)
  obtain st4 vm4 where 4: "csv_ensure_row ?st3 vm3 = Some (st4, vm4)" "represents vm0 n R st4 vm4 (?s\<lparr>srow := Some []\<rparr>)"
    using ensure_row_is [OF 2(3)] by auto
  have f: "spec_end_row c cs s = (if c = 0 then SBreak ?s else SGo (if ?cs \<noteq> [] then ?s\<lparr>srow := Some []\<rparr> else ?s) ?cs)"
    using 1(2) by (simp add: spec_end_row_def Let_def)
  show ?thesis unfolding e f using 2(3) 4 by simp
qed

lemma csv_fail_matches:
  assumes rep: "represents vm0 n R st vm s" and "length msg \<le> 1023"
  shows "matches vm0 n R (csv_fail msg st vm) (SError msg)"
proof (cases "crow st")
  case None
  then have k: "stack_is vm n [VObj R] 1" "\<not> crow_pushed st" "evolves {} vm0 vm" using rep by (auto simp: represents_def)
  then show ?thesis using fail_is [OF k(1) assms(2), of "{}"] evolves_trans [OF k(3)] by (auto simp: csv_fail_def)
next
  case (Some a)
  then have k: "stack_is vm n [VObj R, VObj a] 0" "crow_pushed st" "evolves {} vm0 vm" using rep by (auto simp: represents_def)
  then show ?thesis using fail_is [OF k(1) assms(2), of "{}"] evolves_trans [OF k(3)] by (auto simp: csv_fail_def)
qed

lemma step_matches:
  assumes rep: "represents vm0 n R st vm s"
  shows "matches vm0 n R (csv_step R d c cs st vm) (spec_step d c cs s)"
proof -
  have up: "represents vm0 n R (st\<lparr>cfield := x, cstate := m\<rparr>) vm (s\<lparr>sfield := x, smode := m\<rparr>)"
    "represents vm0 n R (st\<lparr>cfield := x\<rparr>) vm (s\<lparr>sfield := x\<rparr>)"
    "represents vm0 n R (st\<lparr>cstate := m\<rparr>) vm (s\<lparr>smode := m\<rparr>)" for x m
    using rep by (auto simp: represents_def)
  have m: "cstate st = smode s" "cfield st = sfield s" using rep by (auto simp: represents_def)
  note f = csv_fail_matches [OF rep] and r = end_row_matches [OF rep] and e = end_field_matches [OF rep]
  show ?thesis
    using up m f r e by (cases "smode s") (auto simp: csv_step_def spec_step_def split: list.split)
qed

lemma loop_matches:
  "represents vm0 n R st vm s \<Longrightarrow> matches vm0 n R (csv_loop R d cs st vm) (spec_loop d cs s)"
proof (induction d cs s arbitrary: st vm rule: spec_loop.induct)
  case (1 d s)
  then show ?case using step_matches by simp
next
  case (2 d c cs s)
  have m: "matches vm0 n R (csv_step R d c cs st vm) (spec_step d c cs s)" by (rule step_matches [OF 2(2)])
  show ?case
  proof (cases "spec_step d c cs s")
    case (SGo s' cs')
    then obtain st' vm' where "csv_step R d c cs st vm = Some (CsvGo st' cs' vm')" "represents vm0 n R st' vm' s'"
      using m by (cases "(vm0, n, R, csv_step R d c cs st vm, spec_step d c cs s)" rule: matches.cases) auto
    then show ?thesis using 2(1) [OF SGo] SGo by simp
  next
    case (SBreak s')
    then show ?thesis using m
      by (cases "(vm0, n, R, csv_step R d c cs st vm, spec_step d c cs s)" rule: matches.cases) auto
  next
    case (SError msg)
    then show ?thesis using m
      by (cases "(vm0, n, R, csv_step R d c cs st vm, spec_step d c cs s)" rule: matches.cases) auto
  qed
qed

section \<open>The parser as a function on byte strings\<close>

definition csv_text_rows :: "byte \<Rightarrow> bytes \<Rightarrow> string + bytes list list" where
  "csv_text_rows d cs =
     (if cs = [] then Inr []
      else case spec_loop d cs \<lparr>smode = CSV_FIELD_START, sfield = [], srow = Some [], srows = []\<rparr> of
        SError msg \<Rightarrow> Inl msg | SBreak s \<Rightarrow> Inr (srows s) | SGo s _ \<Rightarrow> Inr (srows s))"

text \<open>A table whose array part are tables of string objects.\<close>

definition rows_at :: "heap \<Rightarrow> addr \<Rightarrow> bytes list list \<Rightarrow> bool" where
  "rows_at h R rows \<longleftrightarrow> (\<exists>as ot. table_at h R = Some ot \<and> holds (map VObj as) (otable ot) \<and>
     list_all2 (cells_at h) as rows)"

definition parses :: "vm \<Rightarrow> nat \<Rightarrow> (bool \<times> vm) option \<Rightarrow> string + bytes list list \<Rightarrow> bool" where
  "parses vm n r p \<longleftrightarrow>
     (case p of
        Inl msg \<Rightarrow> \<exists>vm'. r = Some (False, vm') \<and> evolves {} vm vm' \<and> stack_is vm' n [] 2 \<and> raised (bytes_of msg) vm'
      | Inr rows \<Rightarrow> \<exists>vm' R. r = Some (True, vm') \<and> evolves {} vm vm' \<and> stack_is vm' n [VObj R] 1 \<and>
          obj_at (vheap vm) R = None \<and> rows_at (vheap vm') R rows)"

lemma rows_at_same:
  assumes "rows_at h R rows" "same_but {} h h'"
  shows "rows_at h' R rows"
proof -
  obtain as ot where "table_at h R = Some ot" "holds (map VObj as) (otable ot)" "list_all2 (cells_at h) as rows"
    using assms(1) by (auto simp: rows_at_def)
  then show ?thesis using same_but_table [OF assms(2)] list_all2_cells_same [OF _ assms(2)] unfolding rows_at_def by fastforce
qed

lemma represents_rows: "represents vm0 n R st vm s \<Longrightarrow> rows_at (vheap vm) R (srows s)"
  by (auto simp: represents_def rows_at_def)

lemma leave_loop:
  assumes "if crow_pushed st then \<exists>v. stack_is vm n [VObj R, v] 0 else stack_is vm n [VObj R] 1"
  shows "\<exists>vm'. pop_n ((if crow_pushed st then 1 else 0) + 1) vm = Some vm' \<and> stack_is vm' n [] 2 \<and> evolves {} vm vm'"
proof (cases "crow_pushed st")
  case True
  then obtain v where "stack_is vm n ([] @ [VObj R, v]) 0" using assms by auto
  from pop_n_is [OF this, of "{}"] show ?thesis using True by (simp add: numeral_2_eq_2)
next
  case False
  then have "stack_is vm n ([] @ [VObj R]) 1" using assms by simp
  from pop_n_is [OF this, of "{}"] show ?thesis using False by (simp add: numeral_2_eq_2)
qed

lemma return_rows:
  assumes "represents vm0 n R st vm s" "vm0 = vm1" "obj_at (vheap vm1) R = None"
  shows "parses vm1 n (do { vm \<leftarrow> pop_n ((if crow_pushed st then 1 else 0) + 1) vm; return_val (VObj R) vm }) (Inr (srows s))"
proof -
  have "if crow_pushed st then \<exists>v. stack_is vm n [VObj R, v] 0 else stack_is vm n [VObj R] 1"
    using assms(1) by (auto simp: represents_def split: option.splits)
  from leave_loop [OF this] obtain vm2 where 2: "pop_n ((if crow_pushed st then 1 else 0) + 1) vm = Some vm2"
    "stack_is vm2 n [] 2" "evolves {} vm vm2" by blast
  obtain vm3 where 3: "push (VObj R) vm2 = Some vm3" "stack_is vm3 n [VObj R] 1" "evolves {} vm2 vm3"
    using push_is [of vm2 n "[]" 1 "VObj R" "{}"] 2(2) by (auto simp: numeral_2_eq_2)
  have e: "evolves {} vm vm3" using evolves_trans [OF 2(3) 3(3)] .
  then have "rows_at (vheap vm3) R (srows s)"
    using rows_at_same [OF represents_rows [OF assms(1)]] by (simp add: evolves_def)
  moreover have "evolves {} vm1 vm3" using assms(1,2) evolves_trans [OF _ e] by (auto simp: represents_def)
  ultimately show ?thesis using 2(1) 3(1,2) assms(3) by (auto simp: parses_def return_val_def)
qed

lemma csv_parse_parses:
  assumes st: "stack_is vm n [] 2" and arg: "string_arg base 0 vm cs"
  shows "parses vm n (csv_parse 1 base vm) (csv_text_rows 44 cs)"
proof -
  obtain R vm1 where R: "alloc new_table vm = (R, vm1)" by fastforce
  have 1: "stack_is vm1 n [] 2" "evolves {} vm vm1" "obj_at (vheap vm) R = None"
    "table_at (vheap vm1) R = Some \<lparr>otable = init_table, ometatable = None, ois_module = False\<rparr>"
    using alloc_table_is [OF R st, of "{}"] by auto
  obtain vm2 where 2: "push (VObj R) vm1 = Some vm2" "stack_is vm2 n [VObj R] 1" "evolves {} vm1 vm2"
    using push_is [of vm1 n "[]" 1 "VObj R" "{}"] 1(1) by (auto simp: numeral_2_eq_2)
  let ?st = "\<lparr>cstate = CSV_FIELD_START, cfield = [], crow = None, crow_pushed = False, crow_index = 1, cfield_index = 1\<rparr>"
  have t2: "table_at (vheap vm2) R = Some \<lparr>otable = init_table, ometatable = None, ois_module = False\<rparr>"
    by (rule evolves_table [OF 2(3) 1(4)]) simp
  have rep: "represents vm n R ?st vm2 \<lparr>smode = CSV_FIELD_START, sfield = [], srow = None, srows = []\<rparr>"
    using 1(3) 2(2) t2 holds_init evolves_trans [OF 1(2) 2(3)] by (auto simp: represents_def)
  have run: "csv_parse 1 base vm =
      (if cs = [] then do { vm \<leftarrow> pop_n 1 vm2; return_val (VObj R) vm }
       else do {
         (st, vm) \<leftarrow> csv_ensure_row ?st vm2;
         r \<leftarrow> csv_loop R 44 cs st vm;
         (case r of
            CsvError st vm \<Rightarrow> do { vm \<leftarrow> pop_n ((if crow_pushed st then 1 else 0) + 1) vm; Some (False, vm) }
          | CsvBreak st vm \<Rightarrow> do { vm \<leftarrow> pop_n ((if crow_pushed st then 1 else 0) + 1) vm; return_val (VObj R) vm }
          | CsvGo st _ vm \<Rightarrow> do { vm \<leftarrow> pop_n ((if crow_pushed st then 1 else 0) + 1) vm; return_val (VObj R) vm })
       })"
    using R 2(1) string_argD(1) [OF arg] string_argD(2) [OF arg, of 1]
    by (simp add: csv_parse_def checked_args_def csv_validate_delimiter_def del: pop_n.simps One_nat_def)
  show ?thesis
  proof (cases "cs = []")
    case True
    then show ?thesis using return_rows [OF rep refl 1(3)] by (simp add: run csv_text_rows_def del: pop_n.simps One_nat_def)
  next
    case False
    obtain st3 vm3 where 3: "csv_ensure_row ?st vm2 = Some (st3, vm3)"
      "represents vm n R st3 vm3 \<lparr>smode = CSV_FIELD_START, sfield = [], srow = Some [], srows = []\<rparr>"
      using ensure_row_is [OF rep] by auto
    let ?s = "\<lparr>smode = CSV_FIELD_START, sfield = [], srow = Some [], srows = []\<rparr>"
    have m: "matches vm n R (csv_loop R 44 cs st3 vm3) (spec_loop 44 cs ?s)" by (rule loop_matches [OF 3(2)])
    show ?thesis
    proof (cases "spec_loop 44 cs ?s")
      case (SGo s rest)
      then obtain st4 vm4 where "csv_loop R 44 cs st3 vm3 = Some (CsvGo st4 rest vm4)" "represents vm n R st4 vm4 s"
        using m by (cases "(vm, n, R, csv_loop R 44 cs st3 vm3, spec_loop 44 cs ?s)" rule: matches.cases) auto
      then show ?thesis using return_rows [OF _ refl 1(3)] False 3(1) SGo
        by (simp add: run csv_text_rows_def del: pop_n.simps One_nat_def)
    next
      case (SBreak s)
      then obtain st4 vm4 where "csv_loop R 44 cs st3 vm3 = Some (CsvBreak st4 vm4)" "represents vm n R st4 vm4 s"
        using m by (cases "(vm, n, R, csv_loop R 44 cs st3 vm3, spec_loop 44 cs ?s)" rule: matches.cases) auto
      then show ?thesis using return_rows [OF _ refl 1(3)] False 3(1) SBreak
        by (simp add: run csv_text_rows_def del: pop_n.simps One_nat_def)
    next
      case (SError msg)
      then obtain st4 vm4 where 4: "csv_loop R 44 cs st3 vm3 = Some (CsvError st4 vm4)" "evolves {} vm vm4"
        "raised (bytes_of msg) vm4"
        "if crow_pushed st4 then \<exists>v. stack_is vm4 n [VObj R, v] 0 else stack_is vm4 n [VObj R] 1"
        using m by (cases "(vm, n, R, csv_loop R 44 cs st3 vm3, spec_loop 44 cs ?s)" rule: matches.cases) auto
      obtain vm5 where 5: "pop_n ((if crow_pushed st4 then 1 else 0) + 1) vm4 = Some vm5" "stack_is vm5 n [] 2"
        "evolves {} vm4 vm5" using leave_loop [OF 4(4)] by blast
      have "raised (bytes_of msg) vm5" by (rule raised_pop_n [OF 4(3) 5(1)])
      then show ?thesis using 5(1,2) evolves_trans [OF 4(2) 5(3)] False 3(1) 4(1) SError
        by (simp add: run csv_text_rows_def parses_def del: pop_n.simps One_nat_def)
    qed
  qed
qed

section \<open>A final line feed\<close>

text \<open>What remains to be read after the last line feed of a text cannot be read.\<close>

definition doomed :: "bytes \<Rightarrow> spec \<Rightarrow> bool" where
  "doomed cs s \<longleftrightarrow> 0 \<notin> set cs \<and>
     (if cs = [] then smode s = CSV_IN_QUOTED \<or> (smode s = CSV_FIELD_START \<and> srow s = None) else last cs = 10)"

lemma doomed_step:
  assumes "doomed (c # cs) s" "d \<noteq> 0" "d \<noteq> 10"
  shows "case spec_step d c cs s of SGo s' cs' \<Rightarrow> doomed cs' s' | SBreak _ \<Rightarrow> False | SError _ \<Rightarrow> True"
  using assms
  by (cases "smode s"; cases cs)
    (auto simp: doomed_def spec_step_def spec_end_field_def spec_end_row_def end_of_row_def Let_def
      split: option.split if_splits)

lemma doomed_fails: "doomed cs s \<Longrightarrow> d \<noteq> 0 \<Longrightarrow> d \<noteq> 10 \<Longrightarrow> \<exists>msg. spec_loop d cs s = SError msg"
proof (induction d cs s rule: spec_loop.induct)
  case (1 d s)
  then show ?case by (auto simp: doomed_def spec_step_def spec_end_row_def end_of_row_def split: if_splits)
next
  case (2 d c cs s)
  then show ?case using doomed_step [OF 2(2-4)] by (cases "spec_step d c cs s") auto
qed

text \<open>
  C36. A text that ends in a line feed and has no NUL is refused: \<open>csv.parse\<close> raises an exception, with
  the machine and its tables otherwise unchanged, also when every line is well-formed.
\<close>

theorem csv_final_newline_refused:
  assumes "stack_is vm n [] 2" "string_arg base 0 vm (cs @ [10])" "0 \<notin> set cs"
  shows "\<exists>vm' msg. csv_parse 1 base vm = Some (False, vm') \<and> raised msg vm' \<and> evolves {} vm vm' \<and> stack_is vm' n [] 2"
proof -
  have "doomed (cs @ [10]) \<lparr>smode = CSV_FIELD_START, sfield = [], srow = Some [], srows = []\<rparr>"
    using assms(3) by (simp add: doomed_def)
  from doomed_fails [OF this, of 44] obtain msg where "csv_text_rows 44 (cs @ [10]) = Inl msg"
    by (auto simp: csv_text_rows_def)
  then show ?thesis using csv_parse_parses [OF assms(1,2)] by (auto simp: parses_def)
qed

section \<open>Printing and parsing\<close>

definition escaped :: "byte \<Rightarrow> bytes \<Rightarrow> bytes" where
  "escaped d s = csv_append_escaped_field [] s d"

fun row_text :: "byte \<Rightarrow> bytes list \<Rightarrow> bytes" where
  "row_text d [] = []"
| "row_text d [c] = escaped d c"
| "row_text d (c # cs) = escaped d c @ [d] @ row_text d cs"

fun rows_text :: "byte \<Rightarrow> bytes list list \<Rightarrow> bytes" where
  "rows_text d [] = []"
| "rows_text d [r] = row_text d r"
| "rows_text d (r # rs) = row_text d r @ [10] @ rows_text d rs"

text \<open>The state behind a field, before a delimiter or the end of the row.\<close>

definition behind_field :: "bytes \<Rightarrow> bytes list \<Rightarrow> bytes list list \<Rightarrow> spec \<Rightarrow> bool" where
  "behind_field f r rows s \<longleftrightarrow> sfield s = f \<and> srow s = Some r \<and> srows s = rows \<and> smode s \<noteq> CSV_IN_QUOTED"

definition ends_field :: "byte \<Rightarrow> bytes \<Rightarrow> bool" where
  "ends_field d cs \<longleftrightarrow> (case cs of [] \<Rightarrow> True | c # _ \<Rightarrow> c = d \<or> c = 10)"

lemma unquoted_scan:
  assumes "0 \<notin> set f" "\<not> needs_quotes d f" "smode s = CSV_FIELD_START \<or> smode s = CSV_IN_UNQUOTED"
  shows "\<exists>s'. spec_loop d (f @ cs) s = spec_loop d cs s' \<and>
    behind_field (sfield s @ f) r rows s' = behind_field (sfield s @ f) r rows (s\<lparr>sfield := sfield s @ f\<rparr>)"
  using assms
proof (induction f arbitrary: s)
  case Nil
  then show ?case by (intro exI [of _ s]) (simp add: behind_field_def)
next
  case (Cons c f)
  let ?s = "s\<lparr>sfield := sfield s @ [c], smode := CSV_IN_UNQUOTED\<rparr>"
  have "c \<noteq> 34" "c \<noteq> d" "\<not> end_of_row c" using Cons.prems by (auto simp: needs_quotes_def end_of_row_def)
  then have "spec_loop d ((c # f) @ cs) s = spec_loop d (f @ cs) ?s"
    using Cons.prems(3) by (cases s) (auto simp: spec_step_def)
  moreover obtain s' where "spec_loop d (f @ cs) ?s = spec_loop d cs s'"
    "behind_field (sfield ?s @ f) r rows s' = behind_field (sfield ?s @ f) r rows (?s\<lparr>sfield := sfield ?s @ f\<rparr>)"
    using Cons.IH [of ?s] Cons.prems by (auto simp: needs_quotes_def)
  ultimately show ?case using Cons.prems(3) by (intro exI [of _ s']) (auto simp: behind_field_def)
qed

lemma quoted_scan:
  assumes "0 \<notin> set f" "smode s = CSV_IN_QUOTED" "ends_field d cs" "d \<noteq> 34"
  shows "spec_loop d (double_quotes f @ [34] @ cs) s = spec_loop d cs (s\<lparr>sfield := sfield s @ f, smode := CSV_AFTER_QUOTE\<rparr>)"
  using assms(1,2)
proof (induction f arbitrary: s)
  case Nil
  then show ?case using assms(3,4) by (cases cs) (auto simp: double_quotes_def spec_step_def ends_field_def)
next
  case (Cons c f)
  then show ?case by (auto simp: double_quotes_def spec_step_def)
qed

lemma field_scan:
  assumes "0 \<notin> set f" "ends_field d cs" "d \<noteq> 34"
  shows "\<exists>s. spec_loop d (escaped d f @ cs) \<lparr>smode = CSV_FIELD_START, sfield = [], srow = Some r, srows = rows\<rparr> = spec_loop d cs s \<and>
    behind_field f r rows s"
proof (cases "needs_quotes d f")
  case True
  let ?s = "\<lparr>smode = CSV_IN_QUOTED, sfield = [], srow = Some r, srows = rows\<rparr>"
  have "spec_loop d (escaped d f @ cs) \<lparr>smode = CSV_FIELD_START, sfield = [], srow = Some r, srows = rows\<rparr> =
      spec_loop d (double_quotes f @ [34] @ cs) ?s"
    using True by (simp add: escaped_def csv_append_escaped_field_def spec_step_def)
  then show ?thesis using quoted_scan [OF assms(1) _ assms(2,3), of ?s]
    by (intro exI [of _ "?s\<lparr>sfield := f, smode := CSV_AFTER_QUOTE\<rparr>"]) (simp add: behind_field_def)
next
  case False
  let ?s = "\<lparr>smode = CSV_FIELD_START, sfield = [], srow = Some r, srows = rows\<rparr>"
  obtain s where "spec_loop d (f @ cs) ?s = spec_loop d cs s"
    "behind_field (sfield ?s @ f) r rows s = behind_field (sfield ?s @ f) r rows (?s\<lparr>sfield := sfield ?s @ f\<rparr>)"
    using unquoted_scan [OF assms(1) False, of ?s cs r rows] by auto
  then show ?thesis using False
    by (intro exI [of _ s]) (simp add: escaped_def csv_append_escaped_field_def behind_field_def)
qed

lemma behind_step:
  assumes "behind_field f r rows s" "d \<notin> {34, 10, 13, 0}"
  shows "spec_step d d cs s = SGo \<lparr>smode = CSV_FIELD_START, sfield = [], srow = Some (r @ [f]), srows = rows\<rparr> cs"
    "spec_step d 10 cs s =
       SGo \<lparr>smode = CSV_FIELD_START, sfield = [], srow = (if cs = [] then None else Some []), srows = rows @ [r @ [f]]\<rparr> cs"
    "spec_step d 0 cs s = SBreak \<lparr>smode = CSV_FIELD_START, sfield = [], srow = None, srows = rows @ [r @ [f]]\<rparr>"
  using assms
  by (cases "smode s"; cases s; auto simp: behind_field_def spec_step_def spec_end_field_def spec_end_row_def
      end_of_row_def split: list.split)+

text \<open>Texts that come back: every row has a cell, no cell a NUL, and the last row is not a single empty cell.\<close>

definition printable :: "bytes list list \<Rightarrow> bool" where
  "printable rows \<longleftrightarrow> (\<forall>r\<in>set rows. r \<noteq> [] \<and> (\<forall>c\<in>set r. 0 \<notin> set c)) \<and> (rows = [] \<or> last rows \<noteq> [[]])"

lemma row_scan:
  assumes "d \<notin> {34, 10, 13, 0}" "cs = [] \<or> (\<exists>cs'. cs = 10 # cs')" "fs \<noteq> []" "\<forall>c\<in>set fs. 0 \<notin> set c"
  shows "\<exists>s f r'. spec_loop d (row_text d fs @ cs) \<lparr>smode = CSV_FIELD_START, sfield = [], srow = Some r, srows = rows\<rparr> =
      spec_loop d cs s \<and> behind_field f r' rows s \<and> r' @ [f] = r @ fs"
  using assms
proof (induction d fs arbitrary: r rule: row_text.induct)
  case (2 d c)
  then show ?case using field_scan [of c d cs r rows] by (fastforce simp: ends_field_def)
next
  case (3 d c x xs)
  let ?rest = "[d] @ row_text d (x # xs) @ cs"
  obtain s where s: "spec_loop d (escaped d c @ ?rest) \<lparr>smode = CSV_FIELD_START, sfield = [], srow = Some r, srows = rows\<rparr> =
      spec_loop d ?rest s" "behind_field c r rows s"
    using field_scan [of c d ?rest r rows] 3(2,5) by (auto simp: ends_field_def)
  have "spec_loop d ?rest s =
      spec_loop d (row_text d (x # xs) @ cs) \<lparr>smode = CSV_FIELD_START, sfield = [], srow = Some (r @ [c]), srows = rows\<rparr>"
    using behind_step(1) [OF s(2) 3(2)] by simp
  moreover have "\<exists>s f r'. spec_loop d (row_text d (x # xs) @ cs)
        \<lparr>smode = CSV_FIELD_START, sfield = [], srow = Some (r @ [c]), srows = rows\<rparr> =
      spec_loop d cs s \<and> behind_field f r' rows s \<and> r' @ [f] = (r @ [c]) @ x # xs"
    using 3(1) [of "r @ [c]"] 3(2,3,5) by simp
  ultimately show ?case using s(1) by simp
qed simp

lemma escaped_nonempty: "c \<noteq> [] \<Longrightarrow> escaped d c \<noteq> []"
  by (simp add: escaped_def csv_append_escaped_field_def)

lemma row_text_nonempty: "r \<noteq> [] \<Longrightarrow> r \<noteq> [[]] \<Longrightarrow> row_text d r \<noteq> []"
  by (cases "(d, r)" rule: row_text.cases) (auto simp: escaped_nonempty)

lemma rows_text_nonempty: "rows \<noteq> [] \<Longrightarrow> printable rows \<Longrightarrow> rows_text d rows \<noteq> []"
  by (cases "(d, rows)" rule: rows_text.cases) (auto simp: printable_def row_text_nonempty)

lemma rows_scan:
  assumes "d \<notin> {34, 10, 13, 0}" "rs \<noteq> []" "printable rs"
  shows "\<exists>s. spec_loop d (rows_text d rs) \<lparr>smode = CSV_FIELD_START, sfield = [], srow = Some [], srows = rows\<rparr> = SBreak s \<and>
    srows s = rows @ rs"
  using assms
proof (induction d rs arbitrary: rows rule: rows_text.induct)
  case (2 d r)
  obtain s f r' where s: "spec_loop d (row_text d r @ []) \<lparr>smode = CSV_FIELD_START, sfield = [], srow = Some [], srows = rows\<rparr> =
      spec_loop d [] s" "behind_field f r' rows s" "r' @ [f] = [] @ r"
    using row_scan [of d "[]" r "[]" rows] 2 by (auto simp: printable_def)
  then show ?case using behind_step(3) [OF s(2) 2(1), of "[]"] by simp
next
  case (3 d r x xs)
  have p: "printable (x # xs)" using 3(4) by (auto simp: printable_def split: if_splits)
  have ne: "rows_text d (x # xs) \<noteq> []" by (rule rows_text_nonempty) (use p in auto)
  obtain s f r' where s: "spec_loop d (row_text d r @ 10 # rows_text d (x # xs))
        \<lparr>smode = CSV_FIELD_START, sfield = [], srow = Some [], srows = rows\<rparr> =
      spec_loop d (10 # rows_text d (x # xs)) s" "behind_field f r' rows s" "r' @ [f] = [] @ r"
    using row_scan [of d "10 # rows_text d (x # xs)" r "[]" rows] 3(2,4) by (auto simp: printable_def)
  have "spec_loop d (10 # rows_text d (x # xs)) s =
      spec_loop d (rows_text d (x # xs)) \<lparr>smode = CSV_FIELD_START, sfield = [], srow = Some [], srows = rows @ [r]\<rparr>"
    using behind_step(2) [OF s(2) 3(2)] ne s(3) by simp
  then show ?case using 3(1) [of "rows @ [r]"] 3(2) p s(1) by simp
qed simp

lemma csv_round_trip_text:
  assumes "printable rows" "d \<notin> {34, 10, 13, 0}"
  shows "csv_text_rows d (rows_text d rows) = Inr rows"
proof (cases "rows = []")
  case False
  then show ?thesis using rows_text_nonempty [OF False assms(1), of d] rows_scan [OF assms(2) False assms(1), of "[]"]
    by (auto simp: csv_text_rows_def)
qed (simp add: csv_text_rows_def)

lemma append_escaped: "csv_append_escaped_field b s d = b @ escaped d s"
  by (simp add: csv_append_escaped_field_def escaped_def)

lemma row_text_Cons: "row_text d (c # cs) = escaped d c @ concat (map (\<lambda>c. d # escaped d c) cs)"
  by (induction cs arbitrary: c) simp_all

lemma rows_text_Cons: "rows_text d (r # rs) = row_text d r @ concat (map (\<lambda>r. 10 # row_text d r) rs)"
  by (induction rs arbitrary: r) simp_all

lemma string_text: "string_at h a = Some s \<Longrightarrow> csv_stringify_value h b (VObj a) d = Some (Some (b @ escaped d s))"
  by (simp add: csv_stringify_value_def type_of_string append_escaped)

lemma cells_text:
  assumes "holds vs t" "strings_at h vs cs"
  shows "i + n = length cs \<Longrightarrow> csv_cells h d t n (i + 1) b =
    Some (Some (b @ (if i = 0 then row_text d cs else concat (map (\<lambda>c. d # escaped d c) (drop i cs)))))"
proof (induction n arbitrary: i b)
  case 0
  then show ?case by (cases cs) auto
next
  case (Suc n)
  have len: "length vs = length cs" using assms(2) by (auto simp: strings_at_def dest: list_all2_lengthD)
  have i: "i < length cs" using Suc.prems by simp
  obtain a where a: "vs ! i = VObj a" "string_at h a = Some (cs ! i)"
    using assms(2) i len by (auto simp: strings_at_def list_all2_conv_all_nth)
  have "table_get_array t (int (i + 1)) = Some (VObj a)"
    using assms(1) i len a(1) by (simp add: holds_def nat_add_distrib)
  then have "csv_cells h d t (Suc n) (i + 1) b =
      csv_cells h d t n (i + 1 + 1) ((if i = 0 then b else b @ [d]) @ escaped d (cs ! i))"
    using string_text [OF a(2)] by (simp add: or_nil_def)
  also have "\<dots> = Some (Some (((if i = 0 then b else b @ [d]) @ escaped d (cs ! i)) @
      concat (map (\<lambda>c. d # escaped d c) (drop (i + 1) cs))))"
    using Suc.IH [of "i + 1"] Suc.prems by simp
  also have "\<dots> = Some (Some (b @ (if i = 0 then row_text d cs else concat (map (\<lambda>c. d # escaped d c) (drop i cs)))))"
    using i by (cases "i = 0", cases cs) (simp_all add: row_text_Cons flip: Cons_nth_drop_Suc [OF i])
  finally show ?case .
qed

lemma rows_text_printed:
  assumes "holds (map VObj as) t" "list_all2 (cells_at h) as rs"
  shows "i + n = length rs \<Longrightarrow> csv_rows h d t n (i + 1) b =
    Some (Inr (b @ (if i = 0 then rows_text d rs else concat (map (\<lambda>r. 10 # row_text d r) (drop i rs)))))"
proof (induction n arbitrary: i b)
  case 0
  then show ?case by (cases rs) auto
next
  case (Suc n)
  have len: "length as = length rs" using assms(2) by (rule list_all2_lengthD)
  have i: "i < length rs" using Suc.prems by simp
  obtain ot vs where a: "table_at h (as ! i) = Some ot" "holds vs (otable ot)" "strings_at h vs (rs ! i)"
    using list_all2_nthD2 [OF assms(2) i] by (auto simp: cells_at_def)
  have m: "array_max (otable ot) = length (rs ! i)"
    using a(2,3) by (auto simp: holds_def strings_at_def dest: list_all2_lengthD)
  have "table_get_array t (int (i + 1)) = Some (VObj (as ! i))"
    using assms(1) i len by (simp add: holds_def nat_add_distrib)
  moreover have "type_of h (VObj (as ! i)) = Some TTable" using a(1) by (simp add: type_of_def obj_type_def at_iff)
  ultimately have "csv_rows h d t (Suc n) (i + 1) b =
      csv_rows h d t n (i + 1 + 1) ((if i = 0 then b else b @ [10]) @ row_text d (rs ! i))"
    using cells_text [OF a(2,3), of 0 "length (rs ! i)" d] a(1) m by (simp add: or_nil_def as_obj_def)
  also have "\<dots> = Some (Inr (((if i = 0 then b else b @ [10]) @ row_text d (rs ! i)) @
      concat (map (\<lambda>r. 10 # row_text d r) (drop (i + 1) rs))))"
    using Suc.IH [of "i + 1"] Suc.prems by simp
  also have "\<dots> = Some (Inr (b @ (if i = 0 then rows_text d rs else concat (map (\<lambda>r. 10 # row_text d r) (drop i rs)))))"
    using i by (cases "i = 0", cases rs) (simp_all add: rows_text_Cons flip: Cons_nth_drop_Suc [OF i])
  finally show ?case .
qed


text \<open>The text \<open>a\<close> and a line feed.\<close>

theorem csv_final_newline_refused_witness:
  "\<exists>vm' msg. csv_parse 1 0 (demo_arg ([97] @ [10])) = Some (False, vm') \<and> raised msg vm'"
  using csv_final_newline_refused [OF demo_arg(1) [of 2] demo_arg(2) [of 2 "[97] @ [10]"]] by auto

lemma demo_rows:
  "\<exists>vm. stack_is vm 1 [] 1 \<and> arg 0 0 vm = Some (VObj 6) \<and> rows_at (vheap vm) 6 [[[120]]]"
proof -
  let ?vm = "demo_vm (demo_fn [] []) [VObj 6]"
  have s0: "stack_is ?vm 0 [VObj 6] 1" by (intro demo_stack_is) simp
  obtain a vm1 where a: "alloc new_table ?vm = (a, vm1)" by fastforce
  obtain b vm2 where b: "alloc new_table vm1 = (b, vm2)" by fastforce
  have ab: "a = 5" "b = 6" using a b by (auto simp: alloc_def new_table_def allocate_object_def hnext_demo Let_def)
  let ?t = "\<lparr>otable = init_table, ometatable = None, ois_module = False\<rparr>"
  have 1: "stack_is vm1 0 [VObj 6] 1" "evolves {} ?vm vm1" "table_at (vheap vm1) 5 = Some ?t"
    using alloc_table_is [OF a s0, of "{}"] ab by auto
  have 2: "stack_is vm2 0 [VObj 6] 1" "evolves {} vm1 vm2" "table_at (vheap vm2) 6 = Some ?t"
    using alloc_table_is [OF b 1(1), of "{}"] ab by auto
  have t5: "table_at (vheap vm2) 5 = Some ?t" by (rule evolves_table [OF 2(2) 1(3)]) simp
  obtain vm3 r5 where 3: "stack_is vm3 0 [VObj 6] 1" "evolves {5} vm2 vm3" "table_at (vheap vm3) 5 = Some r5"
    "holds [VObj 4] (otable r5)"
    using heap_set_array_is [OF t5, of "[]" "VObj 4" 0 "[VObj 6]" 1 1] holds_init 2(1) by (auto simp: is_nil_def)
  have t6: "table_at (vheap vm3) 6 = Some ?t" by (rule evolves_table [OF 3(2) 2(3)]) simp
  obtain vm4 r6 where 4: "stack_is vm4 0 [VObj 6] 1" "evolves {6} vm3 vm4" "table_at (vheap vm4) 6 = Some r6"
    "holds [VObj 5] (otable r6)"
    using heap_set_array_is [OF t6, of "[]" "VObj 5" 0 "[VObj 6]" 1 1] holds_init 3(1) by (auto simp: is_nil_def)
  have "table_at (vheap vm4) 5 = Some r5" by (rule evolves_table [OF 4(2) 3(3)]) simp
  moreover have "string_at (vheap vm4) 4 = Some [120]"
    using evolves_string [OF 4(2) evolves_string [OF 3(2) evolves_string [OF 2(2) evolves_string [OF 1(2)]]]]
    by (simp add: string_at_demo)
  ultimately have "cells_at (vheap vm4) 5 [[120]]" using 3(4) by (auto simp: cells_at_def strings_at_def)
  then have "rows_at (vheap vm4) 6 [[[120]]]" using 4(3,4) unfolding rows_at_def
    by (intro exI [of _ "[5]"] exI [of _ r6]) simp
  moreover have "stack_is vm4 1 [] 1" using stack_is_drop [of vm4 0 "[VObj 6]" "[]" 1] 4(1) by simp
  moreover have "arg 0 0 vm4 = Some (VObj 6)" using 4(1) by (auto simp: stack_is_def arg_def)
  ultimately show ?thesis by blast
qed


end
