(* ===== verification/Json_Facts.thy ===== *)
theory Json_Facts
  imports Lib_Json Sort_Facts Csv_Facts
begin

text \<open>
  The \<open>json\<close> module: what the encoder prints for a value, the parser reads back, with strings of
  any bytes, integers, nested arrays and objects.
\<close>

section \<open>Strings\<close>

lemma control_escape: "c < 32 \<Longrightarrow> utf8_of (strtol_hex [48, 48, hex_digit (unat c div 16), hex_digit (unat c mod 16)]) = [c]"
proof -
  assume c: "c < 32"
  have "\<forall>n\<in>set [0..<32]. utf8_of (strtol_hex [48, 48, hex_digit (n div 16), hex_digit (n mod 16)]) = [of_nat n]"
    by code_simp
  moreover have "unat c \<in> set [0..<32]" using c by (simp add: word_less_nat_alt)
  ultimately show ?thesis by fastforce
qed

lemma string_body_escape: "string_body acc (escape_byte c @ r) = string_body (acc @ [c]) r"
  by (simp add: escape_byte_def unescape_def control_escape)

lemma string_body_encoded:
  "string_body acc (concat (map escape_byte s) @ 34 # r) = Some (acc @ s, 34 # r)"
  by (induction s arbitrary: acc) (simp_all add: string_body_escape)

lemma skip_none [simp]: "jrest p = c # r \<Longrightarrow> \<not> json_space c \<Longrightarrow> skip_whitespace p = p"
  by (simp add: skip_whitespace_def)

lemma skip_end [simp]: "jrest p = [] \<Longrightarrow> skip_whitespace p = p"
  by (simp add: skip_whitespace_def)

lemma parse_char_this: "jrest p = c # r \<Longrightarrow> \<not> json_space c \<Longrightarrow> parse_char c p = (True, p\<lparr>jrest := r\<rparr>)"
  by (simp add: parse_char_def)

lemma parse_char_other: "jrest p = d # r \<Longrightarrow> \<not> json_space d \<Longrightarrow> d \<noteq> c \<Longrightarrow> parse_char c p = (False, p)"
  by (simp add: parse_char_def)

lemma parse_string_encoded:
  assumes "jrest p = encode_string s @ r"
  shows "parse_string p vm = (let (v, vm') = string_val s vm in Some (v, p\<lparr>jrest := r\<rparr>, vm'))"
proof -
  have 1: "parse_char 34 p = (True, p\<lparr>jrest := concat (map escape_byte s) @ 34 # r\<rparr>)"
    by (rule parse_char_this) (use assms in \<open>simp_all add: encode_string_def json_space_def\<close>)
  have 2: "parse_char 34 (p\<lparr>jrest := 34 # r\<rparr>) = (True, p\<lparr>jrest := r\<rparr>)"
    by (subst parse_char_this) (simp_all add: json_space_def)
  show ?thesis by (simp add: parse_string_def 1 2 string_body_encoded)
qed

section \<open>Numbers\<close>

lemma dabs_round_quot: "dabs (round_quot s n d) = round_quot False n d"
proof -
  have "dabs (pack s m e) = pack False m e" for m e by (simp add: pack_def dabs_def split: prod.split)
  then show ?thesis by (simp add: round_quot_def Let_def dabs_def)
qed

lemma encode_number_int:
  assumes "\<bar>i\<bar> < 10 ^ 15"
  shows "encode_number (dbl_of_int i) = dec_int i"
proof -
  have b: "\<bar>i\<bar> < 2 ^ 53" using assms by simp
  obtain m j where d: "dbl_of_int i = Fin (i < 0) m (- int j)" "m = \<bar>i\<bar> * 2 ^ j" "j \<le> 1074"
    using dbl_of_int_form [OF b] .
  have f: "dfloor (dbl_of_int i) = dbl_of_int i" by (simp add: d(1) d(2))
  have a: "dabs (dbl_of_int i) = dbl_of_int \<bar>i\<bar>"
    by (simp add: dbl_of_int_def dabs_round_quot)
  have "dlt (dabs (dbl_of_int i)) (dbl_of_int (10 ^ 15))"
    unfolding a by (subst dcmp_int(1)) (use assms in simp_all)
  moreover have "deq (dbl_of_int i) (dfloor (dbl_of_int i))" unfolding f using dcmp_int(2) [OF b b] by simp
  moreover have "rhe (num_of m (- int j)) (den_of (- int j)) = \<bar>i\<bar>"
    using rhe_scale [of "den_of (- int j)" 1 "\<bar>i\<bar>"] num_den_int(1) [of "\<bar>i\<bar>" j] num_den_int(2) [of j] d(2) by simp
  ultimately show ?thesis using f by (simp add: encode_number_def d(1) signed_def dec_int_def)
qed

definition number_end :: "bytes \<Rightarrow> bool" where
  "number_end r \<longleftrightarrow> (case r of [] \<Rightarrow> True | c # _ \<Rightarrow> \<not> c_digit c \<and> c \<noteq> 46 \<and> c \<noteq> 101 \<and> c \<noteq> 69)"

lemma dec_digits: "0 \<le> n \<Longrightarrow> dec n \<noteq> [] \<and> (\<forall>b\<in>set (dec n). c_digit b)"
  using dec_hd_digit [of n] by (auto simp: c_digit_def word_le_def)

lemma span_digits:
  assumes "0 \<le> n" "number_end r"
  shows "takeWhile c_digit (dec n @ r) = dec n" "dropWhile c_digit (dec n @ r) = r"
  using dec_digits [OF assms(1)] assms(2)
  by (auto simp: takeWhile_append dropWhile_append number_end_def split: list.splits)

lemma digit_facts: "c_digit a \<Longrightarrow> a \<noteq> 45 \<and> \<not> json_space a"
  by (auto simp: c_digit_def json_space_def)

lemma span_all:
  assumes "takeWhile c_digit (ds @ r) = ds" "dropWhile c_digit (ds @ r) = r" "number_end r" "sign \<in> {[], [45]}"
    "sign = [] \<Longrightarrow> ds \<noteq> [] \<and> hd ds \<noteq> 45"
  shows "number_span (sign @ ds @ r) = (sign @ ds, r)"
proof -
  have s: "(case sign @ ds @ r of c # r' \<Rightarrow> if c = 45 then ([c], r') else ([], sign @ ds @ r) | [] \<Rightarrow> ([], [])) = (sign, ds @ r)"
    using assms(4,5) by (cases ds) auto
  show ?thesis
  proof (cases r)
    case Nil
    have t: "takeWhile c_digit ds = ds" "dropWhile c_digit ds = []" using assms(1,2) Nil by simp_all
    show ?thesis using s unfolding Nil number_span_def by (simp add: Let_def t)
  next
    case (Cons a l)
    have t: "takeWhile c_digit (ds @ a # l) = ds" "dropWhile c_digit (ds @ a # l) = a # l"
      using assms(1,2) Cons by simp_all
    show ?thesis using s assms(3) unfolding Cons number_span_def by (simp add: Let_def number_end_def t)
  qed
qed

lemma number_span_int: "number_end r \<Longrightarrow> number_span (dec_int i @ r) = (dec_int i, r)"
  using span_all [of "dec (- i)" r "[45]", OF span_digits] span_all [of "dec i" r "[]", OF span_digits]
    dec_digits [of i] digit_facts hd_in_set [of "dec i"] by (auto simp: dec_int_def)

lemma strtod_int: "strtod (dec_int i) = dbl_of_int i"
proof -
  have d: "0 \<le> n \<Longrightarrow> takeWhile c_digit (dec n) = dec n" "0 \<le> n \<Longrightarrow> dropWhile c_digit (dec n) = []" for n
    using dec_digits [of n] by auto
  have "0 \<le> i \<Longrightarrow> hd (dec i) \<noteq> 45"
    using dec_digits [of i] dec_not_minus [of i] by (cases "dec i") auto
  then show ?thesis
    by (cases "i < 0") (simp_all add: strtod_def dec_int_def dbl_of_int_def Let_def d dec_digits read_dec_dec)
qed

lemma parse_number_int:
  assumes "jrest p = dec_int i @ r" "number_end r"
  shows "parse_number p = (VNumber (dbl_of_int i), p\<lparr>jrest := r\<rparr>)"
proof -
  obtain c cs where c: "dec_int i = c # cs" "\<not> json_space c"
    using dec_digits [of i] digit_facts by (cases "dec_int i"; cases "i < 0") (auto simp: dec_int_def json_space_def)
  then have "skip_whitespace p = p" using assms(1) by (intro skip_none) simp_all
  then show ?thesis using number_span_int [OF assms(2), of i] by (simp add: parse_number_def assms(1) strtod_int)
qed

section \<open>The hash part of a table in the heap\<close>

text \<open>A lookup gives what \<open>table_map\<close> has (\<open>Table.table_get_correct\<close>); a field is an entry that is not nil.\<close>

definition fields :: "table \<Rightarrow> bytes \<rightharpoonup> val" where
  "fields t = (\<lambda>k. case table_map t k of None \<Rightarrow> None | Some v \<Rightarrow> if is_nil v then None else Some v)"

definition hash_ok :: "heap \<Rightarrow> table \<Rightarrow> bool" where
  "hash_ok h t \<longleftrightarrow> table_ok (strings_of h) t \<and>
     (\<forall>e\<in>set (entries t). \<forall>k. ekey e = Some k \<longrightarrow> string_at h (kaddr k) = Some (kchars k))"

lemma hash_ok_init: "hash_ok h init_table"
  by (simp add: hash_ok_def) (simp add: init_table_def)

lemma hash_ok_same:
  assumes "hash_ok h t" "same_but X h h'"
  shows "hash_ok h' t"
proof -
  have s: "string_at h' (kaddr k) = Some (kchars k)" if "e \<in> set (entries t)" "ekey e = Some k" for e k
    using assms that same_but_string by (fastforce simp: hash_ok_def)
  have "key_ok (strings_of h') k" if "i < capacity t" "ekey (entries t ! i) = Some k" for i k
    using s [OF nth_mem [OF that(1)] that(2)] assms(1) that
    by (auto simp: hash_ok_def table_ok_def wf_entries_def key_ok_def strings_of_def)
  then show ?thesis using assms(1) s by (auto simp: hash_ok_def table_ok_def wf_entries_def)
qed

lemma map_of_filter:
  "distinct (map fst xs) \<Longrightarrow> map_of (filter (P \<circ> snd) xs) k =
     (case map_of xs k of None \<Rightarrow> None | Some v \<Rightarrow> if P v then Some v else None)"
  by (induction xs) (auto split: option.splits simp: map_of_eq_None_iff image_iff dest: map_of_SomeD)

lemma live_entries_fields:
  assumes "hash_ok h t"
  obtains kvs where "list_all2 (\<lambda>(a, v) (k, w). string_at h a = Some k \<and> v = w) (live_entries t) kvs"
    "distinct (map fst kvs)" "map_of kvs = fields t"
proof
  let ?kvs = "filter ((\<lambda>v. \<not> is_nil v) \<circ> snd) (List.map_filter entry_pair (entries t))"
  have d: "distinct (map fst (List.map_filter entry_pair (entries t)))"
    using assms by (auto simp: hash_ok_def table_ok_def intro: distinct_pairs)
  then show "distinct (map fst ?kvs)" by (rule distinct_map_filter)
  show "map_of ?kvs = fields t"
    by (rule ext) (simp only: map_of_filter [OF d], auto simp: fields_def tmap_def split: option.split)
  have "\<forall>e\<in>set es. \<forall>k. ekey e = Some k \<longrightarrow> string_at h (kaddr k) = Some (kchars k) \<Longrightarrow>
      list_all2 (\<lambda>(a, v) (k, w). string_at h a = Some k \<and> v = w)
        (List.map_filter (\<lambda>e. case ekey e of None \<Rightarrow> None
           | Some k \<Rightarrow> if is_nil (evalue e) then None else Some (kaddr k, evalue e)) es)
        (filter ((\<lambda>v. \<not> is_nil v) \<circ> snd) (List.map_filter entry_pair es))" for es
    by (induction es) (auto simp: List.map_filter_simps entry_pair_def split: option.split)
  then show "list_all2 (\<lambda>(a, v) (k, w). string_at h a = Some k \<and> v = w) (live_entries t) ?kvs"
    using assms by (simp add: live_entries_def hash_ok_def)
qed

definition ekeys :: "entry list \<Rightarrow> skey set" where
  "ekeys es = {k. \<exists>e\<in>set es. ekey e = Some k}"

lemma ekeys_update: "ekeys (es[i := \<lparr>ekey = Some k, evalue = v\<rparr>]) \<subseteq> insert k (ekeys es)"
  by (auto simp: ekeys_def dest!: set_update_subset_insert [THEN subsetD])

lemma ekeys_rehash: "rehash es dst n = Some (es', m) \<Longrightarrow> ekeys es' \<subseteq> ekeys es \<union> ekeys dst"
proof (induction es arbitrary: dst n)
  case (Cons e es)
  show ?case
  proof (cases "ekey e")
    case None
    then show ?thesis using Cons.IH [of dst n] Cons.prems by (auto simp: ekeys_def)
  next
    case (Some k)
    then obtain i where "rehash es (dst[i := \<lparr>ekey = Some k, evalue = evalue e\<rparr>]) (n + 1) = Some (es', m)"
      using Cons.prems by (auto split: option.splits)
    from Cons.IH [OF this] ekeys_update [of dst i k "evalue e"] show ?thesis using Some by (auto simp: ekeys_def)
  qed
qed (simp add: ekeys_def)

lemma ekeys_table_set:
  assumes "table_set t k v = Some (t', b)"
  shows "ekeys (entries t') \<subseteq> insert k (ekeys (entries t))"
proof -
  obtain t1 i where t1: "(if over_load t then adjust_capacity t (grown_capacity t) else Some t) = Some t1"
    "entries t' = (entries t1)[i := \<lparr>ekey = Some k, evalue = v\<rparr>]"
    using assms unfolding table_set_def Let_def by (fastforce simp: bind_eq_Some_conv)
  have "ekeys (entries t1) \<subseteq> ekeys (entries t)"
  proof (cases "over_load t")
    case True
    then obtain es n where r: "rehash (entries t) (replicate (grown_capacity t) empty_entry) 0 = Some (es, n)" "entries t1 = es"
      using t1(1) by (auto simp: adjust_capacity_def)
    moreover have "ekeys (replicate (grown_capacity t) empty_entry) = {}" by (auto simp: ekeys_def empty_entry_def)
    ultimately show ?thesis using ekeys_rehash [OF r(1)] by simp
  qed (use t1 in simp)
  then show ?thesis using t1(2) ekeys_update [of "entries t1" i k v] by auto
qed

lemma heap_set_is:
  assumes "table_at (vheap vm) a = Some ot" "hash_ok (vheap vm) (otable ot)" "stack_is vm n ws m"
    "obj_at (vheap vm) ka = Some (OString k (hash_string k))"
  shows "\<exists>vm' ot'. heap_set a ka v vm = Some vm' \<and> stack_is vm' n ws m \<and> evolves {a} vm vm' \<and>
    table_at (vheap vm') a = Some ot' \<and> hash_ok (vheap vm') (otable ot') \<and>
    table_map (otable ot') = (table_map (otable ot))(k \<mapsto> v) \<and> tarray (otable ot') = tarray (otable ot)"
proof -
  let ?k = "\<lparr>kaddr = ka, kchars = k, khash = hash_string k\<rparr>"
  have s: "string_at (vheap vm) ka = Some k" "key_at (vheap vm) ka = Some ?k"
    using assms(4) by (simp_all add: string_at_def key_at_def)
  have "key_ok (strings_of (vheap vm)) ?k" using s(1) by (simp add: key_ok_def strings_of_def)
  then obtain t' b where t': "table_set (otable ot) ?k v = Some (t', b)" "table_ok (strings_of (vheap vm)) t'"
    "table_map t' = (table_map (otable ot))(k \<mapsto> v)" "tarray t' = tarray (otable ot)"
    using table_set_correct [of "strings_of (vheap vm)" "otable ot" ?k v] assms(2) by (auto simp: hash_ok_def)
  obtain vm' where 1: "put_table a t' vm = Some vm'" "stack_is vm' n ws m" "evolves {a} vm vm'"
    "table_at (vheap vm') a = Some (ot\<lparr>otable := t'\<rparr>)"
    using put_table_is [OF assms(1,3), of "{a}" t'] by auto
  have "hash_ok (vheap vm) t'"
    using t'(2) ekeys_table_set [OF t'(1)] assms(2) s(1) by (fastforce simp: hash_ok_def ekeys_def)
  then have "hash_ok (vheap vm') t'" using 1(3) by (auto simp: evolves_def intro: hash_ok_same)
  then show ?thesis using 1 t' assms(1) s(2) by (auto simp: heap_set_def)
qed

lemma string_val_key:
  assumes "string_val cs vm = (v, vm')"
  obtains a where "v = VObj a" "obj_at (vheap vm') a = Some (OString cs (hash_string cs))"
  using assms copy_string_obj by (fastforce simp: string_val_def alloc_def split: prod.splits)

section \<open>JSON values\<close>

datatype json = JNull | JBool bool | JInt int | JString bytes | JArray "json list" | JObject "(bytes \<times> json) list"

text \<open>
  The value \<open>v\<close> is \<open>j\<close>, made of tables whose addresses are in \<open>N\<close>. A table is an array when it has
  elements and no fields, and an object when it has no elements; the order of its fields is that
  of no list.
\<close>

inductive json_at :: "heap \<Rightarrow> addr set \<Rightarrow> json \<Rightarrow> val \<Rightarrow> bool" for h N where
  null: "json_at h N JNull VNil"
| bool: "json_at h N (JBool b) (VBool b)"
| int: "json_at h N (JInt i) (VNumber (dbl_of_int i))"
| string: "string_at h a = Some s \<Longrightarrow> json_at h N (JString s) (VObj a)"
| array: "a \<in> N \<Longrightarrow> table_at h a = Some ot \<Longrightarrow> live_entries (otable ot) = [] \<Longrightarrow> js \<noteq> [] \<Longrightarrow>
    list_all2 (json_at h N) js (array_elements (otable ot)) \<Longrightarrow> json_at h N (JArray js) (VObj a)"
| object: "a \<in> N \<Longrightarrow> table_at h a = Some ot \<Longrightarrow> hash_ok h (otable ot) \<Longrightarrow> array_elements (otable ot) = [] \<Longrightarrow>
    distinct (map fst ms) \<Longrightarrow> dom (fields (otable ot)) = fst ` set ms \<Longrightarrow>
    (\<And>k j. (k, j) \<in> set ms \<Longrightarrow> \<exists>v. fields (otable ot) k = Some v \<and> json_at h N j v) \<Longrightarrow>
    json_at h N (JObject ms) (VObj a)"

lemma json_at_same:
  "json_at h N j v \<Longrightarrow> same_but X h h' \<Longrightarrow> X \<inter> N = {} \<Longrightarrow> N \<subseteq> M \<Longrightarrow> json_at h' M j v"
proof (induction rule: json_at.induct)
  case (array a ot js)
  then have "table_at h' a = Some ot" using same_but_table [OF array.prems(1) array(2)] by blast
  moreover have "list_all2 (json_at h' M) js (array_elements (otable ot))"
    using array(5) by (rule list_all2_mono) (use array.prems in blast)
  ultimately show ?case using array by (intro json_at.array) auto
next
  case (object a ot ms)
  then have "table_at h' a = Some ot" using same_but_table [OF object.prems(1) object(2)] by blast
  moreover have "\<exists>v. fields (otable ot) k = Some v \<and> json_at h' M j v" if "(k, j) \<in> set ms" for k j
    using object.IH [OF that] object.prems by blast
  ultimately show ?case
    using object hash_ok_same [OF object(3) object.prems(1)] by (intro json_at.object) auto
qed (auto intro: json_at.intros same_but_string)

lemma json_at_nil: "json_at h N j v \<Longrightarrow> is_nil v \<longleftrightarrow> j = JNull"
  by (induction rule: json_at.induct) (simp_all add: is_nil_def)

text \<open>What is printed exactly: integers below \<open>10^15\<close>, and tables nested at most \<open>n\<close> deep.\<close>

fun printable :: "nat \<Rightarrow> json \<Rightarrow> bool" where
  "printable n (JInt i) \<longleftrightarrow> \<bar>i\<bar> < 10 ^ 15"
| "printable (Suc n) (JArray js) \<longleftrightarrow> (\<forall>j\<in>set js. printable n j)"
| "printable 0 (JArray js) \<longleftrightarrow> False"
| "printable (Suc n) (JObject ms) \<longleftrightarrow> (\<forall>m\<in>set ms. printable n (snd m))"
| "printable 0 (JObject ms) \<longleftrightarrow> False"
| "printable n j \<longleftrightarrow> True"

section \<open>The text of arrays and objects\<close>

lemma encode_elements_join: "list_all2 (\<lambda>v s. enc v = Some s) vs ss \<Longrightarrow> encode_elements enc vs = Some (join [44] ss)"
proof (induction rule: list_all2_induct)
  case (Cons v vs s ss)
  then show ?case by (cases vs; cases ss) simp_all
qed simp

definition member_text :: "bytes \<Rightarrow> bytes \<Rightarrow> bytes" where
  "member_text k s = encode_string k @ 58 # s"

lemma encode_members_join:
  "list_all2 (\<lambda>(k, v) s. enc v = Some s) kvs ss \<Longrightarrow>
   encode_members enc (map (\<lambda>(k, v). (encode_string k, v)) kvs) = Some (join [44] (map2 member_text (map fst kvs) ss))"
proof (induction rule: list_all2_induct)
  case (Cons kv kvs s ss)
  then show ?case
    by (cases kv; cases kvs; cases ss) (simp_all add: encode_member_def member_text_def)
qed simp

lemma encode_array:
  assumes "live_entries t = []" "array_elements t \<noteq> []" "list_all2 (\<lambda>v s. enc v = Some s) (array_elements t) ss"
  shows "encode_table enc h t = Some (91 # join [44] ss @ [93])"
proof -
  have "0 < array_length t" using assms(2) array_elements_nth(1) [of t] by (cases "array_elements t") auto
  then show ?thesis using assms(1) encode_elements_join [OF assms(3)] by (simp add: encode_table_def)
qed

lemma encode_object:
  assumes "list_all2 (\<lambda>(a, v) (k, w). string_at h a = Some k \<and> v = w) (live_entries t) kvs"
    "array_elements t = []" "list_all2 (\<lambda>(k, v) s. enc v = Some s) kvs ss"
  shows "encode_table enc h t = Some (123 # join [44] (map2 member_text (map fst kvs) ss) @ [125])"
proof -
  have "array_length t = 0" using assms(2) array_elements_nth(1) [of t] by simp
  moreover have "those (map (\<lambda>(k, v). map_option (\<lambda>s. (encode_string s, v)) (string_at h k)) es) =
      Some (map (\<lambda>(k, v). (encode_string k, v)) kvs)"
    if "list_all2 (\<lambda>(a, v) (k, w). string_at h a = Some k \<and> v = w) es kvs" for es
    using that by (induction rule: list_all2_induct) auto
  ultimately show ?thesis using encode_members_join [OF assms(3)] assms(1)
    by (simp add: encode_table_def string_members_def index_members_def)
qed

section \<open>Parsing\<close>

text \<open>
  \<open>s\<close> is a text of \<open>j\<close>: wherever it stands and whatever follows that does not continue a number,
  the parser reads it to its end and returns \<open>j\<close> in new tables.
\<close>

definition begins :: "byte \<Rightarrow> bytes \<Rightarrow> bool" where
  "begins c t \<longleftrightarrow> (\<exists>cs. t = c # cs) \<and> \<not> json_space c \<and> c \<noteq> 93 \<and> c \<noteq> 125"

definition reads :: "nat \<Rightarrow> json \<Rightarrow> bytes \<Rightarrow> bool" where
  "reads d j s \<longleftrightarrow> (\<exists>c. begins c s) \<and>
     (\<forall>r p vm n ws k m. number_end r \<longrightarrow> jrest p = s @ r \<longrightarrow> jerror p = [] \<longrightarrow> length (s @ r) < m \<longrightarrow>
        stack_is vm n ws (k + d) \<longrightarrow>
        (\<exists>v vm'. parse_value m p vm = Some (v, p\<lparr>jrest := r\<rparr>, vm') \<and> stack_is vm' n ws (k + d) \<and> evolves {} vm vm' \<and>
           json_at (vheap vm') {b. obj_at (vheap vm) b = None} j v))"

lemma readsD:
  assumes "reads d j s" "number_end r" "jrest p = s @ r" "jerror p = []" "length (s @ r) < m" "stack_is vm n ws (k + d)"
  obtains v vm' where "parse_value m p vm = Some (v, p\<lparr>jrest := r\<rparr>, vm')" "stack_is vm' n ws (k + d)" "evolves {} vm vm'"
    "json_at (vheap vm') {b. obj_at (vheap vm) b = None} j v"
  using assms(1) [unfolded reads_def] assms(2-) by blast

lemma readsI:
  assumes "begins c s"
    and "\<And>r p vm n ws k m. number_end r \<Longrightarrow> jrest p = s @ r \<Longrightarrow> jerror p = [] \<Longrightarrow> length (s @ r) \<le> m \<Longrightarrow>
      stack_is vm n ws (k + d) \<Longrightarrow> \<exists>v vm'. parse_value (Suc m) p vm = Some (v, p\<lparr>jrest := r\<rparr>, vm') \<and>
        stack_is vm' n ws (k + d) \<and> evolves {} vm vm' \<and> json_at (vheap vm') {b. obj_at (vheap vm) b = None} j v"
  shows "reads d j s"
  unfolding reads_def
proof (intro conjI allI impI)
  fix r and p :: json_parser and vm n ws k m
  assume a: "number_end r" "jrest p = s @ r" "jerror p = []" "length (s @ r) < m" "stack_is vm n ws (k + d)"
  then obtain m' where "m = Suc m'" "length (s @ r) \<le> m'" by (cases m) auto
  then show "\<exists>v vm'. parse_value m p vm = Some (v, p\<lparr>jrest := r\<rparr>, vm') \<and> stack_is vm' n ws (k + d) \<and>
      evolves {} vm vm' \<and> json_at (vheap vm') {b. obj_at (vheap vm) b = None} j v"
    using assms(2) [OF a(1-3) _ a(5)] by simp
qed (use assms(1) in blast)

text \<open>The choice of \<open>parse_value\<close> at a text that begins with \<open>c\<close>.\<close>

lemma parse_value_at:
  assumes "jrest p = c # r" "\<not> json_space c"
  shows "parse_value (Suc m) p vm =
     (if c = 34 then parse_string p vm
      else if c = 123 then parse_object m (parse_value m) p vm
      else if c = 91 then parse_array m (parse_value m) p vm
      else if c = 45 \<or> c_digit c then (let (v, p) = parse_number p in Some (v, p, vm))
      else let (v, p) = parse_literal p in Some (v, p, vm))"
  using assms by (simp add: parse_some_value_def)

lemma evolves_same: "evolves X vm vm' \<Longrightarrow> same_but X (vheap vm) (vheap vm')"
  by (simp add: evolves_def)

lemma evolves_None: "evolves X vm vm' \<Longrightarrow> obj_at (vheap vm') b = None \<Longrightarrow> obj_at (vheap vm) b = None"
  by (cases "obj_at (vheap vm) b") (auto dest!: evolves_same elim: same_butE)

lemma reads_literal:
  assumes "s = bytes_of ''null'' \<and> j = JNull \<or> s = bytes_of ''true'' \<and> j = JBool True \<or> s = bytes_of ''false'' \<and> j = JBool False"
  shows "reads d j s"
proof -
  obtain c where "begins c s" using assms by (auto simp: begins_def bytes_of_def json_space_def)
  then show ?thesis
    using assms
    by (intro readsI) (auto simp: parse_some_value_def parse_literal_def bytes_of_def c_digit_def
        json_space_def skip_whitespace_def intro: json_at.intros)
qed

lemma reads_string: "reads d (JString s) (encode_string s)"
proof (rule readsI)
  show "begins 34 (encode_string s)" by (auto simp: begins_def encode_string_def json_space_def)
next
  fix r and p :: json_parser and vm n ws k m
  assume a: "jrest p = encode_string s @ r" "stack_is vm n ws (k + d)"
  obtain v vm' where v: "string_val s vm = (v, vm')" by fastforce
  have "parse_value (Suc m) p vm = parse_string p vm"
    using a(1) by (subst parse_value_at) (auto simp: encode_string_def json_space_def)
  then have "parse_value (Suc m) p vm = Some (v, p\<lparr>jrest := r\<rparr>, vm')" using parse_string_encoded [OF a(1)] v by simp
  then show "\<exists>v vm'. parse_value (Suc m) p vm = Some (v, p\<lparr>jrest := r\<rparr>, vm') \<and> stack_is vm' n ws (k + d) \<and> evolves {} vm vm' \<and>
      json_at (vheap vm') {b. obj_at (vheap vm) b = None} (JString s) v"
    using string_val_is [OF v a(2), of "{}"] by (auto intro: json_at.string)
qed

lemma reads_int: "reads d (JInt i) (dec_int i)"
proof -
  obtain c cs where c: "dec_int i = c # cs" "c = 45 \<or> c_digit c"
    using dec_digits [of i] by (cases "dec_int i"; cases "i < 0") (auto simp: dec_int_def)
  have f: "\<not> json_space c" "c \<noteq> 34" "c \<noteq> 123" "c \<noteq> 91" "c \<noteq> 93" "c \<noteq> 125"
    using c(2) by (auto simp: json_space_def c_digit_def)
  show ?thesis
  proof (rule readsI)
    show "begins c (dec_int i)" using c(1) f by (auto simp: begins_def)
  next
    fix r and p :: json_parser and vm n ws k m
    assume a: "number_end r" "jrest p = dec_int i @ r" "stack_is vm n ws (k + d)"
    have "parse_value (Suc m) p vm = Some (VNumber (dbl_of_int i), p\<lparr>jrest := r\<rparr>, vm)"
      using parse_value_at [of p c "cs @ r" m vm] a(2) c f parse_number_int [OF a(2,1)] by simp
    then show "\<exists>v vm'. parse_value (Suc m) p vm = Some (v, p\<lparr>jrest := r\<rparr>, vm') \<and> stack_is vm' n ws (k + d) \<and> evolves {} vm vm' \<and>
        json_at (vheap vm') {b. obj_at (vheap vm) b = None} (JInt i) v"
      using a(3) by (auto intro: json_at.int)
  qed
qed

section \<open>Brackets\<close>

text \<open>The parser between brackets: the new table \<open>a\<close> is on the stack while its contents are read.\<close>

lemma bracketed_reads:
  fixes p :: json_parser
  assumes p: "jrest p = oc # t @ cc # r" "jerror p = []" "\<not> json_space oc" "\<not> json_space cc"
    and t: "t = [] \<or> (\<exists>c cs. t = c # cs \<and> \<not> json_space c \<and> c \<noteq> cc)"
    and st: "stack_is vm n ws (Suc k)"
    and contents: "\<And>a vm2. stack_is vm2 n (ws @ [VObj a]) k \<Longrightarrow> obj_at (vheap vm) a = None \<Longrightarrow>
      table_at (vheap vm2) a = Some \<lparr>otable = init_table, ometatable = None, ois_module = False\<rparr> \<Longrightarrow>
      \<forall>b. obj_at (vheap vm2) b = None \<longrightarrow> b \<in> {b. obj_at (vheap vm) b = None} - {a} \<Longrightarrow>
      \<exists>vm3. (if t \<noteq> [] then contents a (p\<lparr>jrest := t @ cc # r\<rparr>) vm2 else Some (p\<lparr>jrest := t @ cc # r\<rparr>, vm2)) =
          Some (p\<lparr>jrest := cc # r\<rparr>, vm3) \<and> stack_is vm3 n (ws @ [VObj a]) k \<and> evolves {a} vm2 vm3 \<and> P a (vheap vm3)"
  shows "\<exists>a vm3 vm'. parse_bracketed oc cc contents p vm = Some (VObj a, p\<lparr>jrest := r\<rparr>, vm') \<and> stack_is vm' n ws (Suc k) \<and>
    evolves {} vm vm' \<and> obj_at (vheap vm) a = None \<and> P a (vheap vm3) \<and> evolves {} vm3 vm'"
proof -
  obtain a vm1 where a: "alloc new_table vm = (a, vm1)" by fastforce
  have 1: "stack_is vm1 n ws (Suc k)" "evolves {} vm vm1" "obj_at (vheap vm) a = None"
    "table_at (vheap vm1) a = Some \<lparr>otable = init_table, ometatable = None, ois_module = False\<rparr>"
    using alloc_table_is [OF a st, of "{}"] by auto
  obtain vm2 where 2: "push (VObj a) vm1 = Some vm2" "stack_is vm2 n (ws @ [VObj a]) k" "evolves {} vm1 vm2"
    using push_is [OF 1(1), of "VObj a" "{}"] by blast
  have tab: "table_at (vheap vm2) a = Some \<lparr>otable = init_table, ometatable = None, ois_module = False\<rparr>"
    by (rule evolves_table [OF 2(3) 1(4)]) simp
  have old: "\<forall>b. obj_at (vheap vm2) b = None \<longrightarrow> b \<in> {b. obj_at (vheap vm) b = None} - {a}"
  proof (intro allI impI)
    fix b assume "obj_at (vheap vm2) b = None"
    then show "b \<in> {b. obj_at (vheap vm) b = None} - {a}"
      using 1 evolves_None [OF 2(3)] evolves_None [of "{}" vm vm1 b] by (auto simp: at_iff)
  qed
  obtain vm3 where 3:
    "(if t \<noteq> [] then contents a (p\<lparr>jrest := t @ cc # r\<rparr>) vm2 else Some (p\<lparr>jrest := t @ cc # r\<rparr>, vm2)) =
       Some (p\<lparr>jrest := cc # r\<rparr>, vm3)" "stack_is vm3 n (ws @ [VObj a]) k" "evolves {a} vm2 vm3" "P a (vheap vm3)"
    using contents [OF 2(2) 1(3) tab old] by blast
  obtain vm4 where 4: "pop_n 1 vm3 = Some vm4" "stack_is vm4 n ws (Suc k)" "evolves {} vm3 vm4"
    using pop_n_is [OF 3(2), of "{}"] by auto
  have "evolves {} vm vm3" by (rule evolves_new [OF evolves_trans [OF 1(2) 2(3)] 3(3) 1(3)])
  then have "evolves {} vm vm4" using 4(3) evolves_trans by blast
  moreover have s: "skip_whitespace (p\<lparr>jrest := t @ cc # r\<rparr>) = p\<lparr>jrest := t @ cc # r\<rparr>"
    using t p(4) by (auto simp: skip_whitespace_def)
  have "parse_char oc p = (True, p\<lparr>jrest := t @ cc # r\<rparr>)" "parse_char cc (p\<lparr>jrest := cc # r\<rparr>) = (True, p\<lparr>jrest := r\<rparr>)"
    using p by (simp_all add: parse_char_def)
  then have "parse_bracketed oc cc contents p vm = Some (VObj a, p\<lparr>jrest := r\<rparr>, vm4)"
    using a 2(1) 3(1) 4(1) p(2) t by (auto simp: parse_bracketed_def s simp del: pop_n.simps One_nat_def)
  ultimately show ?thesis using 1 3(4) 4 by blast
qed

lemma join_Cons: "join sep (s # ss) = s @ (if ss = [] then [] else sep @ join sep ss)"
  by (cases ss) simp_all

lemma heap_set_array_entries:
  assumes "heap_set_array a i v vm = Some (True, vm')" "table_at (vheap vm) a = Some ot" "table_at (vheap vm') a = Some ot'"
  shows "entries (otable ot') = entries (otable ot)"
  using assms by (auto simp: heap_set_array_def put_table_def at_iff table_set_array_def Let_def bind_eq_Some_conv
      split: option.splits if_splits)

text \<open>What stands behind an element or member: a comma and the others, or the closing bracket.\<close>

lemma behind:
  "join [44] (s # ss) @ cc # r = s @ (if ss = [] then cc # r else 44 # join [44] ss @ cc # r)"
  "cc = 93 \<or> cc = 125 \<Longrightarrow> number_end (if ss = [] then cc # r else 44 # join [44] ss @ cc # r)"
  by (auto simp: join_Cons number_end_def c_digit_def)

lemma parse_elements_reads:
  fixes p :: json_parser
  assumes "list_all2 (reads d) js ss" "js \<noteq> []" "JNull \<notin> set js"
    and "jrest p = join [44] ss @ 93 # r" "jerror p = []" "length (jrest p) < m'" "length (jrest p) \<le> m"
    and "stack_is vm n ws (k + d)" "table_at (vheap vm) a = Some ot" "holds vs (otable ot)" "entries (otable ot) = []"
    and "i = int (length vs) + 1" "\<forall>b. obj_at (vheap vm) b = None \<longrightarrow> b \<in> N" "a \<notin> N"
  shows "\<exists>vm' ot' us. parse_elements m (parse_value m') a i p vm = Some (p\<lparr>jrest := 93 # r\<rparr>, vm') \<and>
    stack_is vm' n ws (k + d) \<and> evolves {a} vm vm' \<and> table_at (vheap vm') a = Some ot' \<and>
    holds (vs @ us) (otable ot') \<and> entries (otable ot') = [] \<and> list_all2 (json_at (vheap vm') N) js us"
  using assms
proof (induction js ss arbitrary: p vm ot vs m i rule: list_all2_induct)
  case (Cons j js s ss)
  let ?r = "if ss = [] then 93 # r else 44 # join [44] ss @ 93 # r"
  have jp: "jrest p = s @ ?r" unfolding Cons.prems(3) by (rule behind)
  have e: "number_end ?r" by (rule behind) simp
  obtain m1 where m: "m = Suc m1" using Cons.prems(3,6) by (cases m) (auto simp: join_Cons)
  obtain v vm1 where 1: "parse_value m' p vm = Some (v, p\<lparr>jrest := ?r\<rparr>, vm1)" "stack_is vm1 n ws (k + d)"
    "evolves {} vm vm1" "json_at (vheap vm1) {b. obj_at (vheap vm) b = None} j v"
    by (rule readsD [OF Cons.hyps(1) e jp Cons.prems(4) _ Cons.prems(7)]) (use Cons.prems(5) jp in simp)
  have nil: "\<not> is_nil v" using json_at_nil [OF 1(4)] Cons.prems(2) by auto
  have t1: "table_at (vheap vm1) a = Some ot" by (rule evolves_table [OF 1(3) Cons.prems(8)]) simp
  obtain vm2 ot2 where 2: "heap_set_array a i v vm1 = Some (True, vm2)" "stack_is vm2 n ws (k + d)" "evolves {a} vm1 vm2"
    "table_at (vheap vm2) a = Some ot2" "holds (vs @ [v]) (otable ot2)"
    using heap_set_array_is [OF t1 Cons.prems(9) nil 1(2) Cons.prems(11)] by blast
  have e2: "entries (otable ot2) = []" using heap_set_array_entries [OF 2(1) t1 2(4)] Cons.prems(10) by simp
  have v2: "json_at (vheap vm2) N j v"
    by (rule json_at_same [OF 1(4) evolves_same [OF 2(3)]]) (use Cons.prems(8,12) in \<open>auto simp: at_iff\<close>)
  have 12: "evolves {a} vm vm2" using evolves_trans [OF evolves_mono [OF 1(3)] 2(3)] by blast
  show ?case
  proof (cases "ss = []")
    case True
    then have "js = []" using Cons.hyps(2) by simp
    moreover have "parse_char 44 (p\<lparr>jrest := 93 # r\<rparr>) = (False, p\<lparr>jrest := 93 # r\<rparr>)"
      by (rule parse_char_other [of _ 93 r]) (simp_all add: json_space_def)
    ultimately show ?thesis using True 1(1) 2 12 Cons.prems(4) v2 e2
      by (intro exI [of _ vm2] exI [of _ ot2] exI [of _ "[v]"]) (simp add: m)
  next
    case False
    let ?p = "p\<lparr>jrest := join [44] ss @ 93 # r\<rparr>"
    have c: "parse_char 44 (p\<lparr>jrest := ?r\<rparr>) = (True, ?p)"
      using False by (subst parse_char_this) (simp_all add: json_space_def)
    have l: "length (jrest ?p) < m'" "length (jrest ?p) \<le> m1" using Cons.prems(5,6) jp False m by auto
    have N: "\<forall>b. obj_at (vheap vm2) b = None \<longrightarrow> b \<in> N" using evolves_None [OF 12] Cons.prems(12) by blast
    have "js \<noteq> []" "JNull \<notin> set js" using False Cons.hyps(2) Cons.prems(2) by auto
    then obtain vm' ot' us where 3: "parse_elements m1 (parse_value m') a (i + 1) ?p vm2 = Some (?p\<lparr>jrest := 93 # r\<rparr>, vm')"
      "stack_is vm' n ws (k + d)" "evolves {a} vm2 vm'" "table_at (vheap vm') a = Some ot'"
      "holds ((vs @ [v]) @ us) (otable ot')" "entries (otable ot') = []" "list_all2 (json_at (vheap vm') N) js us"
      using Cons.IH [of ?p m1 vm2 ot2 "vs @ [v]" "i + 1"] l 2(2,4,5) e2 N Cons.prems(4,11,13) by auto
    have "json_at (vheap vm') N j v" by (rule json_at_same [OF v2 evolves_same [OF 3(3)]]) (use Cons.prems(13) in auto)
    then show ?thesis using 1(1) 2(1) 3 c evolves_trans [OF 12 3(3)] Cons.prems(4)
      by (intro exI [of _ vm'] exI [of _ ot'] exI [of _ "v # us"]) (simp add: m)
  qed
qed simp

lemma parse_members_reads:
  fixes p :: json_parser
  assumes "list_all2 (reads d) js ss" "js \<noteq> []" "length ks = length js"
    and "jrest p = join [44] (map2 member_text ks ss) @ 125 # r" "jerror p = []" "length (jrest p) < m'" "length (jrest p) \<le> m"
    and "stack_is vm n ws (k + d)" "table_at (vheap vm) a = Some ot" "hash_ok (vheap vm) (otable ot)"
    and "\<forall>b. obj_at (vheap vm) b = None \<longrightarrow> b \<in> N" "a \<notin> N"
  shows "\<exists>vm' ot' us. parse_members m (parse_value m') a p vm = Some (p\<lparr>jrest := 125 # r\<rparr>, vm') \<and>
    stack_is vm' n ws (k + d) \<and> evolves {a} vm vm' \<and> table_at (vheap vm') a = Some ot' \<and>
    hash_ok (vheap vm') (otable ot') \<and> tarray (otable ot') = tarray (otable ot) \<and>
    table_map (otable ot') = (table_map (otable ot))(ks [\<mapsto>] us) \<and> list_all2 (json_at (vheap vm') N) js us"
  using assms
proof (induction js ss arbitrary: p vm ot ks m rule: list_all2_induct)
  case (Cons j js s ss)
  obtain key ks' where ks: "ks = key # ks'" "length ks' = length js" using Cons.prems(2) by (cases ks) auto
  let ?more = "map2 member_text ks' ss"
  let ?r = "if ?more = [] then 125 # r else 44 # join [44] ?more @ 125 # r"
  have none: "?more = [] \<longleftrightarrow> ss = []" using ks(2) list_all2_lengthD [OF Cons.hyps(2)] by auto
  have jp: "jrest p = encode_string key @ 58 # s @ ?r"
    unfolding Cons.prems(3) ks(1) by (simp add: member_text_def join_Cons)
  have e: "number_end ?r" by (rule behind) simp
  obtain m1 where m: "m = Suc m1" using jp Cons.prems(6) by (cases m) auto
  have sk: "skip_whitespace p = p" using jp by (simp add: skip_whitespace_def encode_string_def json_space_def)
  obtain kv vm0 where kv: "string_val key vm = (kv, vm0)" by fastforce
  obtain ka where ka: "kv = VObj ka" "obj_at (vheap vm0) ka = Some (OString key (hash_string key))"
    by (rule string_val_key [OF kv])
  have 0: "stack_is vm0 n ws (k + d)" "evolves {} vm vm0" using string_val_is [OF kv Cons.prems(7), of "{}"] by auto
  have key: "parse_string p vm = Some (VObj ka, p\<lparr>jrest := 58 # s @ ?r\<rparr>, vm0)"
    using parse_string_encoded [OF jp] kv ka(1) by simp
  have colon: "parse_char 58 (p\<lparr>jrest := 58 # s @ ?r\<rparr>) = (True, p\<lparr>jrest := s @ ?r\<rparr>)"
    by (subst parse_char_this) (simp_all add: json_space_def)
  obtain v vm1 where 1: "parse_value m' (p\<lparr>jrest := s @ ?r\<rparr>) vm0 = Some (v, p\<lparr>jrest := ?r\<rparr>, vm1)"
    "stack_is vm1 n ws (k + d)" "evolves {} vm0 vm1" "json_at (vheap vm1) {b. obj_at (vheap vm0) b = None} j v"
  proof (rule readsD [OF Cons.hyps(1) e _ _ _ 0(1), of "p\<lparr>jrest := s @ ?r\<rparr>" m'])
    show "length (s @ ?r) < m'" using Cons.prems(5) jp by simp
  qed (use Cons.prems(4) in simp_all)
  have 01: "evolves {} vm vm1" by (rule evolves_trans [OF 0(2) 1(3)])
  have t1: "table_at (vheap vm1) a = Some ot" by (rule evolves_table [OF 01 Cons.prems(8)]) simp
  have k1: "obj_at (vheap vm1) ka = Some (OString key (hash_string key))"
    using same_butE [OF evolves_same [OF 1(3)] ka(2)] by auto
  obtain vm2 ot2 where 2: "heap_set a ka v vm1 = Some vm2" "stack_is vm2 n ws (k + d)" "evolves {a} vm1 vm2"
    "table_at (vheap vm2) a = Some ot2" "hash_ok (vheap vm2) (otable ot2)"
    "table_map (otable ot2) = (table_map (otable ot))(key \<mapsto> v)" "tarray (otable ot2) = tarray (otable ot)"
    using heap_set_is [OF t1 hash_ok_same [OF Cons.prems(9) evolves_same [OF 01]] 1(2) k1] by blast
  have v2: "json_at (vheap vm2) N j v"
    by (rule json_at_same [OF 1(4) evolves_same [OF 2(3)]])
      (use Cons.prems(8,10) evolves_None [OF 0(2)] evolves_table [OF 0(2) Cons.prems(8)] in \<open>auto simp: at_iff\<close>)
  have 12: "evolves {a} vm vm2" using evolves_trans [OF evolves_mono [OF 01] 2(3)] by blast
  note run = sk key colon 1(1) 2(1) Cons.prems(4)
  show ?case
  proof (cases "ss = []")
    case True
    then have "js = []" "ks' = []" using Cons.hyps(2) ks(2) by simp_all
    moreover have "parse_char 44 (p\<lparr>jrest := 125 # r\<rparr>) = (False, p\<lparr>jrest := 125 # r\<rparr>)"
      by (rule parse_char_other [of _ 125 r]) (simp_all add: json_space_def)
    ultimately show ?thesis using True run 2 12 v2
      by (intro exI [of _ vm2] exI [of _ ot2] exI [of _ "[v]"]) (simp add: m ks as_obj_def)
  next
    case False
    let ?p = "p\<lparr>jrest := join [44] ?more @ 125 # r\<rparr>"
    have c: "parse_char 44 (p\<lparr>jrest := ?r\<rparr>) = (True, ?p)"
      using False none by (subst parse_char_this) (simp_all add: json_space_def)
    have l: "length (jrest ?p) < m'" "length (jrest ?p) \<le> m1" using Cons.prems(5,6) jp False none m by auto
    have N: "\<forall>b. obj_at (vheap vm2) b = None \<longrightarrow> b \<in> N" using evolves_None [OF 12] Cons.prems(10) by blast
    have "js \<noteq> []" using False Cons.hyps(2) by auto
    then obtain vm' ot' us where 3: "parse_members m1 (parse_value m') a ?p vm2 = Some (?p\<lparr>jrest := 125 # r\<rparr>, vm')"
      "stack_is vm' n ws (k + d)" "evolves {a} vm2 vm'" "table_at (vheap vm') a = Some ot'"
      "hash_ok (vheap vm') (otable ot')" "tarray (otable ot') = tarray (otable ot2)"
      "table_map (otable ot') = (table_map (otable ot2))(ks' [\<mapsto>] us)" "list_all2 (json_at (vheap vm') N) js us"
      using Cons.IH [of ks' ?p m1 vm2 ot2] l 2(2,4,5) N ks(2) Cons.prems(4,11) by auto
    have "json_at (vheap vm') N j v" by (rule json_at_same [OF v2 evolves_same [OF 3(3)]]) (use Cons.prems(11) in auto)
    then show ?thesis using run 3 c evolves_trans [OF 12 3(3)] 2(6,7)
      by (intro exI [of _ vm'] exI [of _ ot'] exI [of _ "v # us"]) (simp add: m ks as_obj_def)
  qed
qed simp

lemma begins_join: "list_all2 (reads d) js ss \<Longrightarrow> js \<noteq> [] \<Longrightarrow> \<exists>c cs. join [44] ss = c # cs \<and> \<not> json_space c \<and> c \<noteq> 93"
  by (cases ss; cases js) (auto simp: reads_def begins_def join_Cons)

lemma reads_array:
  assumes "list_all2 (reads d) js ss" "js \<noteq> []" "JNull \<notin> set js"
  shows "reads (Suc d) (JArray js) (91 # join [44] ss @ [93])"
proof (rule readsI)
  show "begins 91 (91 # join [44] ss @ [93])" by (simp add: begins_def json_space_def)
next
  fix r and p :: json_parser and vm n ws k m
  assume a: "jrest p = (91 # join [44] ss @ [93]) @ r" "jerror p = []" "length ((91 # join [44] ss @ [93]) @ r) \<le> m"
    "stack_is vm n ws (k + Suc d)"
  let ?N = "\<lambda>a. {b. obj_at (vheap vm) b = None} - {a}"
  let ?P = "\<lambda>a h. \<exists>ot us. table_at h a = Some ot \<and> holds us (otable ot) \<and> entries (otable ot) = [] \<and>
    list_all2 (json_at h (?N a)) js us"
  obtain c cs where c: "join [44] ss = c # cs" "\<not> json_space c" "c \<noteq> 93" using begins_join [OF assms(1,2)] by blast
  have "\<exists>a vm3 vm'. parse_bracketed 91 93 (\<lambda>a. parse_elements m (parse_value m) a 1) p vm = Some (VObj a, p\<lparr>jrest := r\<rparr>, vm') \<and>
    stack_is vm' n ws (Suc (k + d)) \<and> evolves {} vm vm' \<and> obj_at (vheap vm) a = None \<and> ?P a (vheap vm3) \<and> evolves {} vm3 vm'"
  proof (rule bracketed_reads)
    show "jrest p = 91 # join [44] ss @ 93 # r" using a(1) by simp
    show "join [44] ss = [] \<or> (\<exists>c cs. join [44] ss = c # cs \<and> \<not> json_space c \<and> c \<noteq> 93)" using c by blast
    fix a vm2
    assume s: "stack_is vm2 n (ws @ [VObj a]) (k + d)"
      "table_at (vheap vm2) a = Some \<lparr>otable = init_table, ometatable = None, ois_module = False\<rparr>"
      "\<forall>b. obj_at (vheap vm2) b = None \<longrightarrow> b \<in> ?N a"
    have "\<exists>vm3 ot us. parse_elements m (parse_value m) a 1 (p\<lparr>jrest := join [44] ss @ 93 # r\<rparr>) vm2 =
          Some (p\<lparr>jrest := join [44] ss @ 93 # r\<rparr>\<lparr>jrest := 93 # r\<rparr>, vm3) \<and> stack_is vm3 n (ws @ [VObj a]) (k + d) \<and>
        evolves {a} vm2 vm3 \<and> table_at (vheap vm3) a = Some ot \<and> holds ([] @ us) (otable ot) \<and> entries (otable ot) = [] \<and>
        list_all2 (json_at (vheap vm3) (?N a)) js us"
      by (rule parse_elements_reads [OF assms _ _ _ _ s(1,2) _ _ _ s(3)])
        (use a(2,3) holds_init in \<open>simp_all add: init_table_def\<close>)
    then show "\<exists>vm3. (if join [44] ss \<noteq> [] then parse_elements m (parse_value m) a 1 (p\<lparr>jrest := join [44] ss @ 93 # r\<rparr>) vm2
          else Some (p\<lparr>jrest := join [44] ss @ 93 # r\<rparr>, vm2)) = Some (p\<lparr>jrest := 93 # r\<rparr>, vm3) \<and>
        stack_is vm3 n (ws @ [VObj a]) (k + d) \<and> evolves {a} vm2 vm3 \<and> ?P a (vheap vm3)"
      using c(1) by auto
  qed (use a(2,4) in \<open>simp_all add: json_space_def\<close>)
  then obtain a vm3 vm' ot us where 1:
    "parse_bracketed 91 93 (\<lambda>a. parse_elements m (parse_value m) a 1) p vm = Some (VObj a, p\<lparr>jrest := r\<rparr>, vm')"
    "stack_is vm' n ws (k + Suc d)" "evolves {} vm vm'" "obj_at (vheap vm) a = None" "evolves {} vm3 vm'"
    "table_at (vheap vm3) a = Some ot" "holds us (otable ot)" "entries (otable ot) = []"
    "list_all2 (json_at (vheap vm3) (?N a)) js us"
    by auto
  have "array_elements (otable ot) = us" using 1(7) by (intro array_elements_eqI) (auto simp: holds_def)
  moreover have "list_all2 (json_at (vheap vm') {b. obj_at (vheap vm) b = None}) js us"
    using 1(9) by (rule list_all2_mono) (auto intro: json_at_same [OF _ evolves_same [OF 1(5)]])
  ultimately have "json_at (vheap vm') {b. obj_at (vheap vm) b = None} (JArray js) (VObj a)"
    using 1(4,8) evolves_table [OF 1(5,6)] assms(2) by (intro json_at.array) (auto simp: live_entries_def List.map_filter_simps)
  moreover have "parse_value (Suc m) p vm = Some (VObj a, p\<lparr>jrest := r\<rparr>, vm')"
    using 1(1) a(1) by (subst parse_value_at) (auto simp: parse_array_def json_space_def)
  ultimately show "\<exists>v vm'. parse_value (Suc m) p vm = Some (v, p\<lparr>jrest := r\<rparr>, vm') \<and>
      stack_is vm' n ws (k + Suc d) \<and> evolves {} vm vm' \<and> json_at (vheap vm') {b. obj_at (vheap vm) b = None} (JArray js) v"
    using 1(2,3) by blast
qed

lemma tarray_init: "tarray init_table = []"
  by (simp add: init_table_def)

lemma upds_nth:
  "distinct ks \<Longrightarrow> length us = length ks \<Longrightarrow> i < length ks \<Longrightarrow> (m(ks [\<mapsto>] us)) (ks ! i) = Some (us ! i)"
proof (induction ks us arbitrary: m i rule: list_induct2')
  case (4 k ks u us)
  then show ?case by (cases i) (auto simp: map_upd_upds_conv_if dest: nth_mem)
qed simp_all

lemma object_fields:
  assumes "distinct ks" "length ks = length js" "list_all2 (json_at h N) js us" "JNull \<notin> set js"
    and "table_map t = Map.empty(ks [\<mapsto>] us)"
  shows "dom (fields t) = set ks" "(key, j) \<in> set (zip ks js) \<Longrightarrow> \<exists>v. fields t key = Some v \<and> json_at h N j v"
proof -
  have l: "length us = length ks" using assms(2,3) by (simp add: list_all2_lengthD)
  have nth: "fields t (ks ! i) = Some (us ! i) \<and> json_at h N (js ! i) (us ! i)" if i: "i < length ks" for i
  proof -
    have j: "json_at h N (js ! i) (us ! i)" using assms(2,3) i l by (simp add: list_all2_conv_all_nth)
    then have "\<not> is_nil (us ! i)" using json_at_nil assms(2,4) i by (metis nth_mem)
    then show ?thesis using upds_nth [OF assms(1) l i, of Map.empty] j by (simp add: fields_def assms(5))
  qed
  then show "(key, j) \<in> set (zip ks js) \<Longrightarrow> \<exists>v. fields t key = Some v \<and> json_at h N j v"
    using assms(2) by (auto simp: set_zip)
  have "dom (fields t) \<subseteq> dom (table_map t)" by (auto simp: fields_def split: option.splits)
  also have "\<dots> = set ks" using l by (simp add: assms(5) dom_map_upds)
  finally have "dom (fields t) \<subseteq> set ks" .
  moreover have "set ks \<subseteq> dom (fields t)" using nth by (auto simp: in_set_conv_nth)
  ultimately show "dom (fields t) = set ks" by blast
qed

lemma reads_object:
  assumes "list_all2 (reads d) js ss" "JNull \<notin> set js" "length ks = length js" "distinct ks" "set ms = set (zip ks js)"
    "distinct (map fst ms)"
  shows "reads (Suc d) (JObject ms) (123 # join [44] (map2 member_text ks ss) @ [125])"
proof (rule readsI)
  let ?t = "join [44] (map2 member_text ks ss)"
  show "begins 123 (123 # ?t @ [125])" by (simp add: begins_def json_space_def)
  fix r and p :: json_parser and vm n ws k m
  assume a: "jrest p = (123 # ?t @ [125]) @ r" "jerror p = []" "length ((123 # ?t @ [125]) @ r) \<le> m"
    "stack_is vm n ws (k + Suc d)"
  let ?N = "\<lambda>a. {b. obj_at (vheap vm) b = None} - {a}"
  let ?P = "\<lambda>a h. \<exists>ot us. table_at h a = Some ot \<and> hash_ok h (otable ot) \<and> tarray (otable ot) = [] \<and>
    table_map (otable ot) = Map.empty(ks [\<mapsto>] us) \<and> list_all2 (json_at h (?N a)) js us"
  have l: "length ss = length js" using assms(1) by (simp add: list_all2_lengthD)
  have c: "?t = [] \<longleftrightarrow> js = []" "?t \<noteq> [] \<Longrightarrow> \<exists>cs. ?t = 34 # cs"
    using l assms(3) by (cases ks; cases ss; cases js; auto simp: join_Cons member_text_def encode_string_def)+
  have "\<exists>a vm3 vm'. parse_bracketed 123 125 (parse_members m (parse_value m)) p vm = Some (VObj a, p\<lparr>jrest := r\<rparr>, vm') \<and>
    stack_is vm' n ws (Suc (k + d)) \<and> evolves {} vm vm' \<and> obj_at (vheap vm) a = None \<and> ?P a (vheap vm3) \<and> evolves {} vm3 vm'"
  proof (rule bracketed_reads)
    show "jrest p = 123 # ?t @ 125 # r" using a(1) by simp
    show "?t = [] \<or> (\<exists>c cs. ?t = c # cs \<and> \<not> json_space c \<and> c \<noteq> 125)" using c(2) by (auto simp: json_space_def)
    fix a vm2
    assume s: "stack_is vm2 n (ws @ [VObj a]) (k + d)"
      "table_at (vheap vm2) a = Some \<lparr>otable = init_table, ometatable = None, ois_module = False\<rparr>"
      "\<forall>b. obj_at (vheap vm2) b = None \<longrightarrow> b \<in> ?N a"
    show "\<exists>vm3. (if ?t \<noteq> [] then parse_members m (parse_value m) a (p\<lparr>jrest := ?t @ 125 # r\<rparr>) vm2
          else Some (p\<lparr>jrest := ?t @ 125 # r\<rparr>, vm2)) = Some (p\<lparr>jrest := 125 # r\<rparr>, vm3) \<and>
        stack_is vm3 n (ws @ [VObj a]) (k + d) \<and> evolves {a} vm2 vm3 \<and> ?P a (vheap vm3)"
    proof (cases "js = []")
      case True
      then show ?thesis using s c(1) hash_ok_init assms(3)
        by (intro exI [of _ vm2]) (auto simp: tarray_init)
    next
      case False
      have "\<exists>vm3 ot us. parse_members m (parse_value m) a (p\<lparr>jrest := ?t @ 125 # r\<rparr>) vm2 =
            Some (p\<lparr>jrest := ?t @ 125 # r\<rparr>\<lparr>jrest := 125 # r\<rparr>, vm3) \<and> stack_is vm3 n (ws @ [VObj a]) (k + d) \<and>
          evolves {a} vm2 vm3 \<and> table_at (vheap vm3) a = Some ot \<and> hash_ok (vheap vm3) (otable ot) \<and>
          tarray (otable ot) = tarray init_table \<and> table_map (otable ot) = (table_map init_table)(ks [\<mapsto>] us) \<and>
          list_all2 (json_at (vheap vm3) (?N a)) js us"
        using parse_members_reads [OF assms(1) False assms(3) _ _ _ _ s(1,2) _ s(3), of "p\<lparr>jrest := ?t @ 125 # r\<rparr>" r m m]
          a(2,3) hash_ok_init by simp
      then show ?thesis using False c(1) by (auto simp: tarray_init)
    qed
  qed (use a(2,4) in \<open>simp_all add: json_space_def\<close>)
  then obtain a vm3 vm' ot us where 1:
    "parse_bracketed 123 125 (parse_members m (parse_value m)) p vm = Some (VObj a, p\<lparr>jrest := r\<rparr>, vm')"
    "stack_is vm' n ws (k + Suc d)" "evolves {} vm vm'" "obj_at (vheap vm) a = None" "evolves {} vm3 vm'"
    "table_at (vheap vm3) a = Some ot" "hash_ok (vheap vm3) (otable ot)" "tarray (otable ot) = []"
    "table_map (otable ot) = Map.empty(ks [\<mapsto>] us)" "list_all2 (json_at (vheap vm3) (?N a)) js us"
    by auto
  let ?M = "{b. obj_at (vheap vm) b = None}"
  have "list_all2 (json_at (vheap vm') ?M) js us"
    using 1(10) by (rule list_all2_mono) (auto intro: json_at_same [OF _ evolves_same [OF 1(5)]])
  note f = object_fields [OF assms(4,3) this assms(2) 1(9)]
  have "json_at (vheap vm') ?M (JObject ms) (VObj a)"
  proof (rule json_at.object)
    show "dom (fields (otable ot)) = fst ` set ms" unfolding f(1) assms(5) using assms(3) by (metis map_fst_zip set_map)
    show "\<exists>v. fields (otable ot) key = Some v \<and> json_at (vheap vm') ?M j v" if "(key, j) \<in> set ms" for key j
      using f(2) that assms(5) by blast
  qed (use 1(4,7,8) assms(6) evolves_table [OF 1(5,6)] hash_ok_same [OF _ evolves_same [OF 1(5)]] in \<open>simp_all add: array_elements_def\<close>)
  moreover have "parse_value (Suc m) p vm = Some (VObj a, p\<lparr>jrest := r\<rparr>, vm')"
    using 1(1) a(1) by (subst parse_value_at) (auto simp: parse_object_def json_space_def)
  ultimately show "\<exists>v vm'. parse_value (Suc m) p vm = Some (v, p\<lparr>jrest := r\<rparr>, vm') \<and>
      stack_is vm' n ws (k + Suc d) \<and> evolves {} vm vm' \<and> json_at (vheap vm') ?M (JObject ms) v"
    using 1(2,3) by blast
qed

section \<open>The round trip\<close>

lemma list_all2_choose:
  "list_all2 (\<lambda>x y. \<exists>z. P y z \<and> Q x z) xs ys \<Longrightarrow> \<exists>zs. list_all2 P ys zs \<and> list_all2 Q xs zs"
proof (induction rule: list_all2_induct)
  case (Cons x xs y ys)
  then obtain z zs where "P y z" "Q x z" "list_all2 P ys zs" "list_all2 Q xs zs" by blast
  then show ?case by (intro exI [of _ "z # zs"]) simp
qed simp

text \<open>The members of a table, in the order in which the encoder meets them.\<close>

lemma live_members:
  assumes "hash_ok h t" "distinct (map fst ms)" "dom (fields t) = fst ` set ms"
    and "\<And>k j. (k, j) \<in> set ms \<Longrightarrow> \<exists>v. fields t k = Some v \<and> R v j"
  obtains kvs js where "list_all2 (\<lambda>(a, v) (k, w). string_at h a = Some k \<and> v = w) (live_entries t) kvs"
    "distinct (map fst kvs)" "set ms = set (zip (map fst kvs) js)" "list_all2 (\<lambda>j (k, v). R v j) js kvs"
proof -
  obtain kvs where k: "list_all2 (\<lambda>(a, v) (k, w). string_at h a = Some k \<and> v = w) (live_entries t) kvs"
    "distinct (map fst kvs)" "map_of kvs = fields t"
    by (rule live_entries_fields [OF assms(1)])
  have "\<exists>j. (fst kv, j) \<in> set ms \<and> R (snd kv) j" if kv: "kv \<in> set kvs" for kv
  proof -
    have f: "fields t (fst kv) = Some (snd kv)"
      unfolding k(3) [symmetric] by (rule map_of_is_SomeI) (use kv k(2) in simp_all)
    then have "fst kv \<in> fst ` set ms" unfolding assms(3) [symmetric] by (rule domI)
    then obtain j where j: "(fst kv, j) \<in> set ms" by force
    from assms(4) [OF j] f j show ?thesis by auto
  qed
  then obtain J where J: "\<forall>kv\<in>set kvs. (fst kv, J kv) \<in> set ms \<and> R (snd kv) (J kv)" by metis
  have "set ms \<subseteq> (\<lambda>kv. (fst kv, J kv)) ` set kvs"
  proof
    fix m assume m: "m \<in> set ms"
    then have "fst m \<in> dom (fields t)" unfolding assms(3) by (rule imageI)
    then obtain v where "map_of kvs (fst m) = Some v" unfolding k(3) by blast
    then have kv: "(fst m, v) \<in> set kvs" by (rule map_of_SomeD)
    with J have "(fst m, J (fst m, v)) \<in> set ms" by fastforce
    moreover have "(fst m, snd m) \<in> set ms" using m by simp
    ultimately have "snd m = J (fst m, v)" using eq_key_imp_eq_value [OF assms(2)] by blast
    then have "m = (\<lambda>kv. (fst kv, J kv)) (fst m, v)" by (simp add: prod_eq_iff)
    then show "m \<in> (\<lambda>kv. (fst kv, J kv)) ` set kvs" using kv by (rule image_eqI)
  qed
  moreover have "set (zip (map fst kvs) (map J kvs)) = (\<lambda>kv. (fst kv, J kv)) ` set kvs"
    by (simp add: zip_map_map zip_same_conv_map image_image)
  ultimately have "set ms = set (zip (map fst kvs) (map J kvs))" using J by auto
  moreover have "list_all2 (\<lambda>j (k, v). R v j) (map J kvs) kvs"
    using J by (auto simp: list_all2_map1 intro!: list.rel_refl_strong split: prod.split)
  ultimately show ?thesis using that [OF k(1,2), of "map J kvs"] by blast
qed

lemma elements_not_null:
  assumes "list_all2 (json_at h N) js (array_elements t)"
  shows "JNull \<notin> set js"
proof
  assume "JNull \<in> set js"
  then obtain i where i: "i < length js" "js ! i = JNull" by (auto simp: in_set_conv_nth)
  then have "json_at h N JNull (array_elements t ! i)" "i < length (array_elements t)"
    using assms by (auto simp: list_all2_conv_all_nth)
  then show False using json_at_nil array_elements_not_nil [of "array_elements t ! i" t] nth_mem by blast
qed

lemma encode_value_table:
  "table_at h a = Some ot \<Longrightarrow> encode_value (Suc (Suc m)) h (VObj a) = encode_table (encode_value (Suc m) h) h (otable ot)"
  by (subst encode_value.simps(2)) (simp add: table_at_type del: encode_value.simps)

lemma encode_reads:
  "json_at h N j v \<Longrightarrow> printable d j \<Longrightarrow> d \<le> m \<Longrightarrow> \<exists>s. encode_value (Suc m) h v = Some s \<and> reads d j s"
proof (induction arbitrary: d m rule: json_at.induct)
  case (string a s)
  then show ?case using type_of_string [OF string(1)] reads_string by auto
next
  case (int i)
  then show ?case using reads_int encode_number_int by auto
next
  case (array a ot js)
  obtain d1 m1 where d: "d = Suc d1" "m = Suc m1" "d1 \<le> m1" using array.prems by (cases d; cases m) auto
  have "list_all2 (\<lambda>j v. \<exists>s. encode_value m h v = Some s \<and> reads d1 j s) js (array_elements (otable ot))"
    unfolding d(2) by (rule list.rel_mono_strong [OF array.IH]) (use array.prems(1) d in simp)
  from list_all2_choose [OF this] obtain ss
    where s: "list_all2 (\<lambda>v s. encode_value m h v = Some s) (array_elements (otable ot)) ss" "list_all2 (reads d1) js ss"
    by blast
  have "list_all2 (json_at h N) js (array_elements (otable ot))" by (rule list_all2_mono [OF array.IH]) simp
  from elements_not_null [OF this] have r: "reads d (JArray js) (91 # join [44] ss @ [93])"
    unfolding d(1) by (rule reads_array [OF s(2) array.hyps(4)])
  have "array_elements (otable ot) \<noteq> []" using array.IH array.hyps(4) by auto
  from encode_array [OF array.hyps(3) this s(1)] r show ?case
    using encode_value_table [OF array.hyps(2), of m1] unfolding d(2) by metis
next
  case (object a ot ms)
  obtain d1 m1 where d: "d = Suc d1" "m = Suc m1" "d1 \<le> m1" using object.prems by (cases d; cases m) auto
  let ?R = "\<lambda>v j. j \<noteq> JNull \<and> (\<exists>s. encode_value m h v = Some s \<and> reads d1 j s)"
  have R: "\<exists>v. fields (otable ot) k = Some v \<and> ?R v j" if kj: "(k, j) \<in> set ms" for k j
  proof -
    obtain v where v: "fields (otable ot) k = Some v" "json_at h N j v"
      and IH: "\<And>d m. printable d j \<Longrightarrow> d \<le> m \<Longrightarrow> \<exists>s. encode_value (Suc m) h v = Some s \<and> reads d j s"
      using object.IH [OF kj] by blast
    have "\<not> is_nil v" using v(1) by (auto simp: fields_def split: option.splits if_splits)
    then have "j \<noteq> JNull" using json_at_nil [OF v(2)] by simp
    moreover have "printable d1 j" using object.prems(1) kj d(1) by fastforce
    ultimately show ?thesis using IH [OF _ d(3)] v(1) unfolding d(2) by blast
  qed
  obtain kvs js where k: "list_all2 (\<lambda>(a, v) (k, w). string_at h a = Some k \<and> v = w) (live_entries (otable ot)) kvs"
    "distinct (map fst kvs)" "set ms = set (zip (map fst kvs) js)" "list_all2 (\<lambda>j (k, v). ?R v j) js kvs"
    by (rule live_members [OF object.hyps(3,5,6) R])
  have "list_all2 (\<lambda>j kv. \<exists>s. (case kv of (k, v) \<Rightarrow> encode_value m h v = Some s) \<and> reads d1 j s) js kvs"
    by (rule list_all2_mono [OF k(4)]) auto
  from list_all2_choose [OF this] obtain ss
    where s: "list_all2 (\<lambda>(k, v) s. encode_value m h v = Some s) kvs ss" "list_all2 (reads d1) js ss"
    by (auto simp: case_prod_unfold)
  have "JNull \<notin> set js" using k(4) by (auto simp: list_all2_conv_all_nth in_set_conv_nth split: prod.splits)
  moreover have "length (map fst kvs) = length js" using list_all2_lengthD [OF k(4)] by simp
  ultimately have r: "reads d (JObject ms) (123 # join [44] (map2 member_text (map fst kvs) ss) @ [125])"
    unfolding d(1) using reads_object [OF s(2) _ _ k(2,3) object.hyps(5)] by blast
  from encode_object [OF k(1) object.hyps(4) s(1)] r show ?case
    using encode_value_table [OF object.hyps(2), of m1] unfolding d(2) by metis
qed (auto intro: reads_literal)

lemma decode_reads:
  assumes "reads d j s" "stack_is vm n [] (d + 1)" "string_arg base 0 vm s"
  shows "\<exists>vm' w. json_decode 1 base vm = Some (True, vm') \<and> stack_is vm' n [w] d \<and> evolves {} vm vm' \<and>
    json_at (vheap vm') {b. obj_at (vheap vm) b = None} j w"
proof -
  let ?p = "\<lparr>jrest = s, jerror = []\<rparr> :: json_parser"
  obtain v vm1 where 1: "parse_value (length s + 2) ?p vm = Some (v, ?p\<lparr>jrest := []\<rparr>, vm1)" "stack_is vm1 n [] (1 + d)"
    "evolves {} vm vm1" "json_at (vheap vm1) {b. obj_at (vheap vm) b = None} j v"
    by (rule readsD [OF assms(1), of "[]" ?p "length s + 2" vm n "[]" 1])
      (use assms(2) in \<open>simp_all add: number_end_def\<close>)
  have "stack_is vm1 n [] (Suc d)" using 1(2) by simp
  then obtain vm2 where 2: "push v vm1 = Some vm2" "stack_is vm2 n [v] d" "evolves {} vm1 vm2"
    using push_is [of vm1 n "[]" d v "{}"] by auto
  have "json_at (vheap vm2) {b. obj_at (vheap vm) b = None} j v"
    by (rule json_at_same [OF 1(4) evolves_same [OF 2(3)]]) simp_all
  moreover have "json_decode 1 base vm = Some (True, vm2)"
    unfolding json_decode_def one_string_arg [OF assms(3)]
    using 1(1) 2(1) string_argD(1) [OF assms(3)] by (simp add: return_val_def del: parse_value.simps)
  ultimately show ?thesis using 2(2) evolves_trans [OF 1(3) 2(3)] by blast
qed

text \<open>
  C23. What \<open>json.encode\<close> prints, \<open>json.decode\<close> reads. For a value made of nil, booleans, integers below
  \<open>10^15\<close>, strings of any bytes, arrays and objects nested at most 101 deep, encoding succeeds with a
  string and changes no object; decoding this string, in any later state with room for the nesting on
  the stack, returns the same value, made of new tables only, and changes no existing object. The
  fields of an object may be met in any order.
\<close>
theorem json_round_trip:
  assumes "stack_is vm n [] 1" "arg base 0 vm = Some v" "json_at (vheap vm) UNIV j v" "printable d j" "d \<le> 101"
  shows "\<exists>vm1 a s. json_encode 1 base vm = Some (True, vm1) \<and> stack_is vm1 n [VObj a] 0 \<and> evolves {} vm vm1 \<and>
    string_at (vheap vm1) a = Some s \<and>
    (\<forall>vm2 n2 base2. stack_is vm2 n2 [] (d + 1) \<longrightarrow> string_arg base2 0 vm2 s \<longrightarrow>
      (\<exists>vm3 w. json_decode 1 base2 vm2 = Some (True, vm3) \<and> stack_is vm3 n2 [w] d \<and> evolves {} vm2 vm3 \<and>
        json_at (vheap vm3) {b. obj_at (vheap vm2) b = None} j w))"
proof -
  obtain s where s: "encode_value (Suc 101) (vheap vm) v = Some s" "reads d j s"
    using encode_reads [OF assms(3-5)] by blast
  obtain sv vm1 where v: "string_val s vm = (sv, vm1)" by fastforce
  obtain a where 1: "stack_is vm1 n [] 1" "evolves {} vm vm1" "sv = VObj a" "string_at (vheap vm1) a = Some s"
    using string_val_is [OF v assms(1), of "{}"] by auto
  obtain vm2 where 2: "push sv vm1 = Some vm2" "stack_is vm2 n [sv] 0" "evolves {} vm1 vm2"
    using push_is [of vm1 n "[]" 0 sv "{}"] 1(1) by auto
  have "encode_value 102 (vheap vm) v = Some s" using s(1) by (simp del: encode_value.simps add: eval_nat_numeral)
  then have "json_encode 1 base vm = Some (True, vm2)"
    using assms(2) v 2(1) by (simp add: json_encode_def checked_args_def return_string_def push_string_def)
  then show ?thesis
    using 2(2) 1(3) evolves_trans [OF 1(2) 2(3)] evolves_string [OF 2(3) 1(4)] decode_reads [OF s(2)] by blast
qed

text \<open>The value \<open>{"a": [1, "x"]}\<close>.\<close>

definition demo_json :: json where
  "demo_json = JObject [([97], JArray [JInt 1, JString [120]])]"

theorem json_round_trip_witness:
  "\<exists>vm v vm1 a s. json_at (vheap vm) UNIV demo_json v \<and> json_encode 1 1 vm = Some (True, vm1) \<and>
    string_at (vheap vm1) a = Some s \<and>
    (\<exists>vm3 w. json_decode 1 0 (demo_arg s) = Some (True, vm3) \<and>
      json_at (vheap vm3) {b. obj_at (vheap (demo_arg s)) b = None} demo_json w)"
proof -
  obtain t where t: "reads 2 demo_json t"
    using reads_object [OF _ _ _ _ _ _, of 1 "[JArray [JInt 1, JString [120]]]" _ "[[97]]" "[([97], JArray [JInt 1, JString [120]])]"]
      reads_array [of 0 "[JInt 1, JString [120]]" "[dec_int 1, encode_string [120]]"] reads_int [of 0 1] reads_string [of 0 "[120]"]
    by (auto simp: demo_json_def numeral_2_eq_2)
  obtain vm v where 1: "stack_is vm 1 [v] 2" "json_at (vheap vm) {b. obj_at (vheap (demo_arg t)) b = None} demo_json v"
    using decode_reads [OF t, of "demo_arg t" 1 0] demo_arg [of 3 t] by auto
  have j: "json_at (vheap vm) UNIV demo_json v" by (rule json_at_same [OF 1(2) same_but_refl [of "{}"]]) simp_all
  have "stack_is vm (1 + length [v]) [] 2" by (rule stack_is_drop) (use 1(1) in simp)
  then have "stack_is vm 2 [] 1" by (auto simp: stack_is_def)
  moreover have "arg 1 0 vm = Some v" using 1(1) by (auto simp: arg_def stack_is_def)
  moreover have "printable 2 demo_json" by (simp add: demo_json_def numeral_2_eq_2)
  ultimately obtain vm1 a s where 2: "json_encode 1 1 vm = Some (True, vm1)" "string_at (vheap vm1) a = Some s"
    "\<And>vm2 n2 base2. stack_is vm2 n2 [] (2 + 1) \<Longrightarrow> string_arg base2 0 vm2 s \<Longrightarrow>
      \<exists>vm3 w. json_decode 1 base2 vm2 = Some (True, vm3) \<and> json_at (vheap vm3) {b. obj_at (vheap vm2) b = None} demo_json w"
    using json_round_trip [OF _ _ j, of 2 1 2] by fastforce
  have "stack_is (demo_arg s) 1 [] (2 + 1)" "string_arg 0 0 (demo_arg s) s" using demo_arg [of 3 s] by simp_all
  from 2(3) [OF this] j 2(1,2) show ?thesis by blast
qed

end
