(* ===== verification/Lib_Math.thy ===== *)
theory Lib_Math
  imports Lib_Table
begin

text \<open>
  The \<open>math\<close> module (\<open>src/src/lib/math.c\<close>). The transcendental functions of the C library are those
  of the environment; what \<open>rand\<close> returns is an argument. \<open>srand\<close> changes nothing else.
\<close>

section \<open>Functions of one and two numbers\<close>

definition return_number :: "double \<Rightarrow> vm \<Rightarrow> (bool \<times> vm) option" where
  "return_number d vm = return_val (VNumber d) vm"

definition number_fn :: "(double \<Rightarrow> double) \<Rightarrow> native_body" where
  "number_fn f = checked_args [Argc_Eq 1, Is TNumber 0] (\<lambda>argc base vm.
     do { x \<leftarrow> arg_number base 0 vm; return_number (f x) vm })"

definition number_fn2 :: "(double \<Rightarrow> double \<Rightarrow> double) \<Rightarrow> native_body" where
  "number_fn2 f = checked_args [Argc_Eq 2, Is TNumber 0, Is TNumber 1] (\<lambda>argc base vm.
     do { x \<leftarrow> arg_number base 0 vm; y \<leftarrow> arg_number base 1 vm; return_number (f x y) vm })"

definition dceil :: "double \<Rightarrow> double" where
  "dceil x = dneg (dfloor (dneg x))"

definition math_sin :: "env \<Rightarrow> native_body" where "math_sin env = number_fn (math1 env 1)"
definition math_cos :: "env \<Rightarrow> native_body" where "math_cos env = number_fn (math1 env 2)"
definition math_tan :: "env \<Rightarrow> native_body" where "math_tan env = number_fn (math1 env 3)"
definition math_asin :: "env \<Rightarrow> native_body" where "math_asin env = number_fn (math1 env 4)"
definition math_acos :: "env \<Rightarrow> native_body" where "math_acos env = number_fn (math1 env 5)"
definition math_sqrt :: "env \<Rightarrow> native_body" where "math_sqrt env = number_fn (math1 env 7)"
definition math_floor :: native_body where "math_floor = number_fn dfloor"
definition math_ceil :: native_body where "math_ceil = number_fn dceil"
definition math_abs :: native_body where "math_abs = number_fn dabs"
definition math_exp :: "env \<Rightarrow> native_body" where "math_exp env = number_fn (math1 env 11)"
definition math_pow :: "env \<Rightarrow> native_body" where "math_pow env = number_fn2 (pow_fn env)"
definition math_fmod :: native_body where "math_fmod = number_fn2 dfmod"

text \<open>\<open>atan\<close> and \<open>log\<close> take one or two numbers and return nil for any other count.\<close>

definition one_or_two :: "(double \<Rightarrow> double) \<Rightarrow> (double \<Rightarrow> double \<Rightarrow> double) \<Rightarrow> native_body" where
  "one_or_two f g argc base vm =
     (if argc = 1 then number_fn f argc base vm
      else if argc = 2 then number_fn2 g argc base vm
      else return_val VNil vm)"

definition math_atan :: "env \<Rightarrow> native_body" where
  "math_atan env = one_or_two (math1 env 6) (atan2_fn env)"

definition math_log :: "env \<Rightarrow> native_body" where
  "math_log env = one_or_two (math1 env 12) (\<lambda>x y. ddiv (math1 env 12 x) (math1 env 12 y))"

definition math_deg :: native_body where
  "math_deg = number_fn (\<lambda>x. dmul x (ddiv (dbl_of_int 180) pi_double))"

definition math_rad :: native_body where
  "math_rad = number_fn (\<lambda>x. dmul x (ddiv pi_double (dbl_of_int 180)))"

definition math_divmod :: native_body where
  "math_divmod = checked_args [Argc_Eq 2, Is TNumber 0, Is TNumber 1] (\<lambda>argc base vm.
     do {
       a \<leftarrow> arg_number base 0 vm;
       b \<leftarrow> arg_number base 1 vm;
       (if deq b (dzero False) then fail ''math.divmod: division by zero'' vm
        else do {
          let q = dfloor (ddiv a b);
          let r = dsub a (dmul q b);
          let (out, vm) = alloc new_table vm;
          (ok, vm) \<leftarrow> heap_set_array out 1 (VNumber q) vm;
          (if \<not> ok then fail ''math.divmod: failed to set quotient'' vm
           else do {
             (ok, vm) \<leftarrow> heap_set_array out 2 (VNumber r) vm;
             (if \<not> ok then fail ''math.divmod: failed to set remainder'' vm else return_val (VObj out) vm)
           })
        })
     })"

text \<open>\<open>modf\<close>: the integral part towards zero and the rest, both with the sign of the argument.\<close>

definition with_sign :: "bool \<Rightarrow> double \<Rightarrow> double" where
  "with_sign neg x = (case x of NaN \<Rightarrow> NaN | Inf _ \<Rightarrow> Inf neg | Fin _ m e \<Rightarrow> Fin neg m e)"

definition modf_parts :: "double \<Rightarrow> double \<times> double" where
  "modf_parts x =
     (case x of
        NaN \<Rightarrow> (NaN, NaN)
      | Inf s \<Rightarrow> (Inf s, dzero s)
      | Fin s m e \<Rightarrow>
          let i = with_sign s (dfloor (dabs x)) in (i, with_sign s (dsub (dabs x) (dabs i))))"

definition math_modf :: native_body where
  "math_modf = checked_args [Argc_Eq 1, Is TNumber 0] (\<lambda>argc base vm.
     do {
       x \<leftarrow> arg_number base 0 vm;
       let (i, r) = modf_parts x;
       vm \<leftarrow> push_all [VNumber i, VNumber r] vm;
       Some (True, vm)
     })"

section \<open>Random numbers\<close>

text \<open>
  \<open>r\<close> is what \<open>rand\<close> returns, at most \<open>RAND_MAX\<close>. The sum \<open>max - min + 1\<close> may overflow an \<open>int\<close>.
\<close>

definition in_int_range :: "int \<Rightarrow> bool" where
  "in_int_range n \<longleftrightarrow> - (2 ^ 31) \<le> n \<and> n < 2 ^ 31"

definition math_random :: "int \<Rightarrow> native_body" where
  "math_random r argc base vm =
     (if argc = 0 then return_number (ddiv (dbl_of_int r) (dbl_of_int 2147483647)) vm
      else if argc = 1 then
        checked_args [Is TNumber 0] (\<lambda>argc base vm.
          do {
            top \<leftarrow> arg_int base 0 vm;
            (if top < 1 then return_val VNil vm
             else return_number (dadd (dbl_of_int (r mod top)) (dbl_of_int 1)) vm)
          }) argc base vm
      else if argc = 2 then
        checked_args [Is TNumber 0, Is TNumber 1] (\<lambda>argc base vm.
          do {
            low \<leftarrow> arg_int base 0 vm;
            top \<leftarrow> arg_int base 1 vm;
            (if top < low then return_val VNil vm
             else if \<not> in_int_range (top - low) \<or> \<not> in_int_range (top - low + 1)
                     \<or> \<not> in_int_range (low + r mod (top - low + 1)) then None
             else return_number (dbl_of_int (low + r mod (top - low + 1))) vm)
          }) argc base vm
      else return_val VNil vm)"

definition math_seed :: native_body where
  "math_seed argc base vm =
     (if argc = 1 then
        checked_args [Is TNumber 0] (\<lambda>argc base vm.
          do {
            x \<leftarrow> arg_number base 0 vm;
            n \<leftarrow> dtrunc x;
            (if 0 \<le> n \<and> n < 2 ^ 32 then return_val VNil vm else None)
          }) argc base vm
      else return_val VNil vm)"

section \<open>Any number of arguments\<close>

definition arg_numbers :: "nat \<Rightarrow> nat \<Rightarrow> vm \<Rightarrow> double list option" where
  "arg_numbers argc base vm = those (map (\<lambda>i. arg_number base i vm) [0..<argc])"

definition fold_args :: "(double \<Rightarrow> double \<Rightarrow> double) \<Rightarrow> native_body" where
  "fold_args f argc base vm =
     (if argc = 0 then return_val VNil vm
      else checked_args (map (Is TNumber) [0..<argc]) (\<lambda>argc base vm.
        do { xs \<leftarrow> arg_numbers argc base vm; return_number (fold (\<lambda>x m. f m x) (tl xs) (hd xs)) vm }) argc base vm)"

definition math_min :: native_body where
  "math_min = fold_args (\<lambda>m x. if dlt x m then x else m)"

definition math_max :: native_body where
  "math_max = fold_args (\<lambda>m x. if dlt m x then x else m)"

text \<open>The sum of the array part up to the first nil, or the index of an element that is no number.\<close>

fun sum_elements :: "nat \<Rightarrow> double \<Rightarrow> val list \<Rightarrow> nat + double" where
  "sum_elements i s [] = Inr s"
| "sum_elements i s (v # vs) =
     (case v of VNumber x \<Rightarrow> sum_elements (i + 1) (dadd s x) vs | _ \<Rightarrow> Inl i)"

definition is_table_arg :: "nat \<Rightarrow> nat \<Rightarrow> vm \<Rightarrow> bool option" where
  "is_table_arg base i vm =
     do { v \<leftarrow> arg base i vm; k \<leftarrow> type_of (vheap vm) v; Some (k = TTable) }"

definition math_sum :: native_body where
  "math_sum argc base vm =
     (if argc = 0 then return_val VNil vm
      else do {
        tab \<leftarrow> (if argc = 1 then is_table_arg base 0 vm else Some False);
        (if tab then do {
           (_, ot) \<leftarrow> arg_table base 0 vm;
           (case sum_elements 1 (dzero False) (array_elements (otable ot)) of
              Inr s \<Rightarrow> return_number s vm
            | Inl i \<Rightarrow> fail_bytes
                (bytes_of ''math.sum: element '' @ dec_int (int i) @ bytes_of '' is not a number'') vm)
         }
         else checked_args (map (Is TNumber) [0..<argc]) (\<lambda>argc base vm.
           do { xs \<leftarrow> arg_numbers argc base vm; return_number (fold (\<lambda>x s. dadd s x) xs (dzero False)) vm }) argc base vm)
      })"

section \<open>Registration\<close>

definition math_functions :: "(string \<times> nat) list" where
  "math_functions =
     zip [''sin'', ''cos'', ''tan'', ''asin'', ''acos'', ''atan'', ''sqrt'', ''floor'', ''ceil'', ''abs'', ''exp'',
          ''log'', ''pow'', ''fmod'', ''divmod'', ''modf'', ''deg'', ''rad'', ''random'', ''seed'', ''min'', ''max'',
          ''sum''] [1200..<1223]"

definition math_fast_kinds :: "(string \<times> nat) list" where
  "math_fast_kinds =
     zip [''sin'', ''cos'', ''tan'', ''asin'', ''acos'', ''atan'', ''sqrt'', ''floor'', ''ceil'', ''abs'', ''exp'',
          ''log'', ''pow'', ''fmod'', ''deg'', ''rad''] [1..<17]"

definition set_math_fast_kind :: "addr \<Rightarrow> string \<times> nat \<Rightarrow> vm \<Rightarrow> vm option" where
  "set_math_fast_kind m nk vm =
     (let (key, vm) = alloc (\<lambda>h. copy_string h (bytes_of (fst nk))) vm in
      do {
        f \<leftarrow> heap_get m key vm;
        (case f of
           Some (VObj a) \<Rightarrow>
             Some (case native_at (vheap vm) a of
                Some n \<Rightarrow> vm\<lparr>vheap := put_obj (vheap vm) a (ONative (n\<lparr>nfast := snd nk\<rparr>))\<rparr>
              | None \<Rightarrow> vm)
         | _ \<Rightarrow> Some vm)
      })"

fun set_math_fast_kinds :: "addr \<Rightarrow> (string \<times> nat) list \<Rightarrow> vm \<Rightarrow> vm option" where
  "set_math_fast_kinds m [] vm = Some vm"
| "set_math_fast_kinds m (k # ks) vm = do { vm \<leftarrow> set_math_fast_kind m k vm; set_math_fast_kinds m ks vm }"

definition register_math :: "vm \<Rightarrow> vm option" where
  "register_math vm =
     do {
       vm \<leftarrow> register_module (Some ''math'') math_functions vm;
       v \<leftarrow> peek 0 vm;
       m \<leftarrow> as_obj v;
       vm \<leftarrow> set_math_fast_kinds m math_fast_kinds vm;
       vm \<leftarrow> set_guarded m (bytes_of ''pi'') (VNumber pi_double) vm;
       vm \<leftarrow> set_guarded m (bytes_of ''huge'') (VNumber (Inf False)) vm;
       pop_n 1 vm
     }"

end
