(* ===== verification/Lib_Core.thy ===== *)
theory Lib_Core
  imports Lib_Math Lib_Json
begin

text \<open>
  The global functions (\<open>src/src/lib/core.c\<close>) other than \<open>str\<close>, which is in \<open>Ops_Text\<close>: iteration,
  metatables, errors, types and conversions, input, numbers, ranges and slices. Natives that call
  back into the program take the environment and the interpreter loop.
\<close>

section \<open>Iteration\<close>

definition two_nils :: "vm \<Rightarrow> (bool \<times> vm) option" where
  "two_nils vm = do { vm \<leftarrow> push_all [VNil, VNil] vm; Some (True, vm) }"

definition pair_result :: "val \<Rightarrow> val \<Rightarrow> vm \<Rightarrow> (bool \<times> vm) option" where
  "pair_result k v vm = do { vm \<leftarrow> push_all [k, v] vm; Some (True, vm) }"

text \<open>The index behind a numeric control value that is a positive integer, else 1.\<close>

definition index_after :: "val \<Rightarrow> int option" where
  "index_after key =
     (case key of
        VNumber d \<Rightarrow>
          if dle (dbl_of_int 1) d then do {
            n \<leftarrow> cast_int d;
            (if \<not> deq (dbl_of_int n) d then Some 1 else if in_int_range (n + 1) then Some (n + 1) else None)
          } else Some 1
      | _ \<Rightarrow> Some 1)"

definition next_in_array :: "int \<Rightarrow> table \<Rightarrow> (nat \<times> val) option" where
  "next_in_array start t =
     find (\<lambda>(i, v). \<not> is_nil v) (drop (nat (start - 1)) (enumerate 1 (tarray t)))"

fun keyed_entries :: "entry list \<Rightarrow> (skey \<times> val) list" where
  "keyed_entries [] = []"
| "keyed_entries (e # es) =
     (case ekey e of None \<Rightarrow> keyed_entries es | Some k \<Rightarrow> (k, evalue e) # keyed_entries es)"

text \<open>
  The first entry of the hash part, or the one behind the entry with a string key. A numeric key has
  been replaced by nil before, so that of a number only starts the hash part.
\<close>

definition next_in_hash :: "heap \<Rightarrow> val \<Rightarrow> table \<Rightarrow> (skey \<times> val) option option" where
  "next_in_hash h key t =
     do {
       ty \<leftarrow> type_of h key;
       let es = keyed_entries (entries t);
       es \<leftarrow> (if ty = TNil \<or> ty = TNumber then Some es
              else if ty = TString then do {
                a \<leftarrow> as_obj key;
                s \<leftarrow> string_at h a;
                Some (drop 1 (dropWhile (\<lambda>(k, v). \<not> (kaddr k = a \<or> kchars k = s)) es))
              }
              else Some []);
       Some (case es of [] \<Rightarrow> None | e # _ \<Rightarrow> Some e)
     }"

definition next_table :: "addr \<Rightarrow> val \<Rightarrow> vm \<Rightarrow> (bool \<times> vm) option" where
  "next_table a key vm =
     do {
       ot \<leftarrow> table_at (vheap vm) a;
       ty \<leftarrow> type_of (vheap vm) key;
       found \<leftarrow> (if ty = TNil \<or> ty = TNumber
                 then do { start \<leftarrow> index_after key; Some (next_in_array start (otable ot)) } else Some None);
       (case found of
          Some (i, v) \<Rightarrow> pair_result (VNumber (dbl_of_int (int i))) v vm
        | None \<Rightarrow> do {
            e \<leftarrow> next_in_hash (vheap vm) key (otable ot);
            (case e of Some (k, v) \<Rightarrow> pair_result (VObj (kaddr k)) v vm | None \<Rightarrow> two_nils vm)
          })
     }"

definition next_string :: "bytes \<Rightarrow> val \<Rightarrow> vm \<Rightarrow> (bool \<times> vm) option" where
  "next_string s key vm =
     do {
       ty \<leftarrow> type_of (vheap vm) key;
       (if ty \<noteq> TNil \<and> ty \<noteq> TNumber then fail ''next() string control must be number or nil.'' vm
        else do {
          i \<leftarrow> index_after key;
          (if i < 1 \<or> int (length s) < i then two_nils vm
           else do {
             vm \<leftarrow> push (VNumber (dbl_of_int i)) vm;
             vm \<leftarrow> push_string [s ! nat (i - 1)] vm;
             Some (True, vm)
           })
        })
     }"

definition next_native :: native_body where
  "next_native = checked_args [Argc_Eq 2] (\<lambda>argc base vm.
     do {
       state \<leftarrow> arg base 0 vm;
       key \<leftarrow> arg base 1 vm;
       ty \<leftarrow> type_of (vheap vm) state;
       (if ty = TTable then do { a \<leftarrow> as_obj state; next_table a key vm }
        else if ty = TString then do { s \<leftarrow> arg_string base 0 vm; next_string s key vm }
        else fail ''next expects table or string as first argument.'' vm)
     })"

text \<open>
  The value at an integer index \<open>i\<close>: in the array part, or in the hash part under the string of the
  number \<open>d\<close>.
\<close>

definition element_at :: "addr \<Rightarrow> int \<Rightarrow> double \<Rightarrow> vm \<Rightarrow> (val option \<times> vm) option" where
  "element_at a i d vm =
     do {
       ot \<leftarrow> table_at (vheap vm) a;
       (case (if deq (dbl_of_int i) d \<and> 1 \<le> i then table_get_array (otable ot) i else None) of
          Some v \<Rightarrow> Some (Some v, vm)
        | None \<Rightarrow>
            let (k, vm) = number_key_string d vm in
            do { r \<leftarrow> heap_get a k vm; Some (if is_nil (or_nil r) then None else r, vm) })
     }"

definition inext_native :: native_body where
  "inext_native = checked_args [Argc_Eq 2, Is TTable 0, Is TNumber 1] (\<lambda>argc base vm.
     do {
       a \<leftarrow> arg_obj base 0 vm;
       index \<leftarrow> arg_number base 1 vm;
       let next = dadd index (dbl_of_int 1);
       i \<leftarrow> cast_int next;
       (r, vm) \<leftarrow> element_at a i next vm;
       (case r of Some v \<Rightarrow> pair_result (VNumber next) v vm | None \<Rightarrow> two_nils vm)
     })"

definition arg_thread :: "nat \<Rightarrow> nat \<Rightarrow> vm \<Rightarrow> (addr \<times> thread) option" where
  "arg_thread base i vm = do { a \<leftarrow> arg_obj base i vm; t \<leftarrow> thread_at (vheap vm) a; Some (a, t) }"

definition gen_next_native :: native_body where
  "gen_next_native = checked_args [Argc_Eq 2, Is TThread 0] (\<lambda>argc base vm.
     do {
       (a, t) \<leftarrow> arg_thread base 0 vm;
       (if \<not> is_generator t then fail ''gen_next expects a generator thread.'' vm
        else if frame_count t = 0 then two_nils vm
        else
          let vm' = put_thread a (t\<lparr>caller := current_thread vm, generator_mode := True\<rparr>) vm
          in Some (True, vm'\<lparr>current_thread := Some a\<rparr>))
     })"

section \<open>Metatables\<close>

definition setmetatable_native :: native_body where
  "setmetatable_native = checked_args [Argc_Eq 2, Is TTable 0] (\<lambda>argc base vm.
     do {
       v \<leftarrow> arg base 0 vm;
       a \<leftarrow> as_obj v;
       m \<leftarrow> arg base 1 vm;
       ty \<leftarrow> type_of (vheap vm) m;
       (if ty \<noteq> TTable \<and> ty \<noteq> TNil then return_val VNil vm
        else do {
          vm \<leftarrow> set_metatable a (case m of VObj b \<Rightarrow> Some b | _ \<Rightarrow> None) vm;
          return_val v vm
        })
     })"

definition getmetatable_native :: native_body where
  "getmetatable_native = checked_args [Argc_Eq 1, Is TTable 0] (\<lambda>argc base vm.
     do {
       (_, t) \<leftarrow> arg_table base 0 vm;
       return_val (case ometatable t of None \<Rightarrow> VNil | Some m \<Rightarrow> VObj m) vm
     })"

section \<open>Errors\<close>

definition raise_value :: "val \<Rightarrow> vm \<Rightarrow> vm option" where
  "raise_value ex vm =
     do { t \<leftarrow> cur vm; Some (put_cur (t\<lparr>has_exception := True, exception := ex, last_error := ex\<rparr>) vm) }"

definition set_string_field :: "addr \<Rightarrow> string \<Rightarrow> bytes \<Rightarrow> vm \<Rightarrow> vm option" where
  "set_string_field a key s vm =
     (let (k, vm) = alloc (\<lambda>h. copy_string h (bytes_of key)) vm; (v, vm) = string_val s vm
      in heap_set a k v vm)"

definition raise_error_table_value :: "bytes \<Rightarrow> val \<Rightarrow> vm \<Rightarrow> vm option" where
  "raise_error_table_value type_name msg vm =
     (let (ex, vm) = alloc new_table vm in
      do {
        vm \<leftarrow> set_string_field ex ''type'' (cstr type_name) vm;
        let (k, vm) = alloc (\<lambda>h. copy_string h (bytes_of ''msg'')) vm;
        vm \<leftarrow> heap_set ex k msg vm;
        raise_value (VObj ex) vm
      })"

definition raise_error_table_cstr :: "string \<Rightarrow> string \<Rightarrow> vm \<Rightarrow> vm option" where
  "raise_error_table_cstr type_name msg vm =
     (let (ex, vm) = alloc new_table vm in
      do {
        vm \<leftarrow> set_string_field ex ''type'' (bytes_of type_name) vm;
        vm \<leftarrow> set_string_field ex ''msg'' (bytes_of msg) vm;
        raise_value (VObj ex) vm
      })"

definition raise_named :: "string \<Rightarrow> string \<Rightarrow> vm \<Rightarrow> (bool \<times> vm) option" where
  "raise_named type_name msg vm = do { vm \<leftarrow> raise_error_table_cstr type_name msg vm; Some (False, vm) }"

definition global_error :: native_body where
  "global_error = checked_args [Argc_Ge 1] (\<lambda>argc base vm.
     if 2 < argc then fail ''error() expects 1 or 2 arguments.'' vm
     else do {
       message \<leftarrow> arg base 0 vm;
       ty \<leftarrow> type_of (vheap vm) message;
       (if argc = 1 \<and> ty = TTable then do { vm \<leftarrow> raise_value message vm; Some (False, vm) }
        else checked_args (if 2 \<le> argc then [Is TString 1] else []) (\<lambda>argc base vm.
          do {
            name \<leftarrow> (if 2 \<le> argc then arg_string base 1 vm else Some (bytes_of ''Error''));
            vm \<leftarrow> raise_error_table_value name message vm;
            Some (False, vm)
          }) argc base vm)
     })"

text \<open>\<open>exit\<close> does not return when it is called as it should be.\<close>

definition exit_native :: native_body where
  "exit_native argc base vm =
     (if argc = 0 then None
      else do {
        number \<leftarrow> (if argc = 1 then do { v \<leftarrow> arg base 0 vm; k \<leftarrow> type_of (vheap vm) v; Some (k = TNumber) }
                  else Some False);
        (if number then None else fail ''exit() expects no args or a numeric exit code.'' vm)
      })"

section \<open>Types\<close>

definition value_type_name :: "heap \<Rightarrow> val \<Rightarrow> bytes option" where
  "value_type_name h v =
     do {
       ty \<leftarrow> type_of h v;
       generator \<leftarrow> (if ty = TThread then do { a \<leftarrow> as_obj v; t \<leftarrow> thread_at h a; Some (is_generator t) }
                    else Some False);
       Some (bytes_of
         (case ty of TNil \<Rightarrow> ''nil'' | TBool \<Rightarrow> ''boolean'' | TNumber \<Rightarrow> ''number'' | TString \<Rightarrow> ''string''
          | TTable \<Rightarrow> ''table'' | TClosure \<Rightarrow> ''function'' | TNative \<Rightarrow> ''function''
          | TThread \<Rightarrow> if generator then ''generator'' else ''thread''
          | TUserdata \<Rightarrow> ''userdata'' | _ \<Rightarrow> ''unknown''))
     }"

definition type_native :: native_body where
  "type_native = checked_args [Argc_Eq 1] (\<lambda>argc base vm.
     do { v \<leftarrow> arg base 0 vm; n \<leftarrow> value_type_name (vheap vm) v; return_string n vm })"

text \<open>Whether a value of type \<open>actual\<close> is of the type \<open>candidate\<close>, with its aliases.\<close>

definition type_matches :: "bytes \<Rightarrow> bytes \<Rightarrow> bool" where
  "type_matches actual candidate \<longleftrightarrow>
     (if candidate = bytes_of ''bool'' then actual = bytes_of ''boolean''
      else if candidate = bytes_of ''int'' \<or> candidate = bytes_of ''float'' then actual = bytes_of ''number''
      else candidate = actual)"

fun istype_loop :: "bytes \<Rightarrow> nat list \<Rightarrow> nat \<Rightarrow> vm \<Rightarrow> (bool \<times> vm) option" where
  "istype_loop actual [] base vm = return_val (VBool False) vm"
| "istype_loop actual (i # is) base vm =
     do {
       v \<leftarrow> arg base i vm;
       ty \<leftarrow> type_of (vheap vm) v;
       (if ty \<noteq> TString then fail ''istype() type names must be strings.'' vm
        else do {
          c \<leftarrow> arg_string base i vm;
          (if type_matches actual c then return_val (VBool True) vm else istype_loop actual is base vm)
        })
     }"

definition istype_native :: native_body where
  "istype_native argc base vm =
     (if argc < 2 then fail ''istype() expects a value and at least one type name.'' vm
      else do {
        v \<leftarrow> arg base 0 vm;
        actual \<leftarrow> value_type_name (vheap vm) v;
        istype_loop actual [1..<argc] base vm
      })"

section \<open>Conversions\<close>

definition call_bool_metamethod :: "env \<Rightarrow> vm_loop \<Rightarrow> val \<Rightarrow> val \<Rightarrow> vm \<Rightarrow> (vm + bool \<times> vm) option" where
  "call_bool_metamethod env loop receiver m vm =
     do {
       r \<leftarrow> call_function env loop ''__bool must be a function.'' m [receiver] vm;
       (case r of
          Inl vm \<Rightarrow> Some (Inl vm)
        | Inr (v, vm) \<Rightarrow> do { b \<leftarrow> is_falsey (vheap vm) v; Some (Inr (\<not> b, vm)) })
     }"

definition bool_native :: "env \<Rightarrow> vm_loop \<Rightarrow> native_body" where
  "bool_native env loop = checked_args [Argc_Eq 1] (\<lambda>argc base vm.
     do {
       v \<leftarrow> arg base 0 vm;
       ty \<leftarrow> type_of (vheap vm) v;
       (m, vm) \<leftarrow> (if ty = TTable then get_metamethod v ''__bool'' vm else Some (VNil, vm));
       (if is_nil m then do { b \<leftarrow> is_falsey (vheap vm) v; return_val (VBool (\<not> b)) vm }
        else do {
          r \<leftarrow> call_bool_metamethod env loop v m vm;
          (case r of Inl vm \<Rightarrow> Some (False, vm) | Inr (b, vm) \<Rightarrow> return_val (VBool b) vm)
        })
     })"

text \<open>\<open>strtol(s, &end, 10)\<close>: the number, clamped to 64 bits, and what follows it.\<close>

definition sign_of :: "bytes \<Rightarrow> bool \<times> bytes" where
  "sign_of cs =
     (case cs of c # r \<Rightarrow> if c = 45 then (True, r) else if c = 43 then (False, r) else (False, cs) | [] \<Rightarrow> (False, []))"

definition strtol10 :: "bytes \<Rightarrow> (int \<times> bytes) option" where
  "strtol10 cs =
     (let (neg, r) = sign_of (dropWhile c_space cs);
          ds = takeWhile c_digit r;
          n = (if neg then - read_dec ds else read_dec ds)
      in if ds = [] then None
         else Some (max (- (2 ^ 63)) (min (2 ^ 63 - 1) n), dropWhile c_digit r))"

definition int_native :: native_body where
  "int_native = checked_args [Argc_Eq 1] (\<lambda>argc base vm.
     do {
       v \<leftarrow> arg base 0 vm;
       ty \<leftarrow> type_of (vheap vm) v;
       (case v of
          VNumber d \<Rightarrow> do { n \<leftarrow> cast_int d; return_number (dbl_of_int n) vm }
        | VBool b \<Rightarrow> return_number (dbl_of_int (if b then 1 else 0)) vm
        | _ \<Rightarrow>
            if ty = TString then do {
              s \<leftarrow> arg_string base 0 vm;
              (case strtol10 (cstr s) of
                 Some (n, rest) \<Rightarrow>
                   if dropWhile c_space rest = [] then return_number (dbl_of_int n) vm
                   else raise_named ''ValueError'' ''int() expects a valid base-10 string.'' vm
               | None \<Rightarrow> raise_named ''ValueError'' ''int() expects a valid base-10 string.'' vm)
            }
            else raise_named ''TypeError'' ''int() expects number, string, or bool.'' vm)
     })"

text \<open>
  \<open>strtod(s, &end)\<close>: infinities, NaN, hexadecimal and decimal numbers, the longest prefix of the text
  that is one.
\<close>

definition prefix_ci :: "string \<Rightarrow> bytes \<Rightarrow> bool" where
  "prefix_ci w cs \<longleftrightarrow> map c_tolower (take (length w) cs) = bytes_of w"

definition c_xdigit :: "byte \<Rightarrow> bool" where
  "c_xdigit b \<longleftrightarrow> c_digit b \<or> (97 \<le> c_tolower b \<and> c_tolower b \<le> 102)"

definition hex_value :: "bytes \<Rightarrow> int" where
  "hex_value cs = fold (\<lambda>c n. 16 * n + (if c_digit c then uint c - 48 else uint (c_tolower c) - 87)) cs 0"

text \<open>The digits of a mantissa before and after a point, and what follows.\<close>

definition mantissa :: "(byte \<Rightarrow> bool) \<Rightarrow> bytes \<Rightarrow> bytes \<times> bytes \<times> bytes" where
  "mantissa digit cs =
     (let ip = takeWhile digit cs; r = dropWhile digit cs
      in case r of
           c # r' \<Rightarrow>
             if c = 46 \<and> (ip \<noteq> [] \<or> takeWhile digit r' \<noteq> [])
             then (ip, takeWhile digit r', dropWhile digit r') else (ip, [], r)
         | [] \<Rightarrow> (ip, [], []))"

text \<open>An exponent behind one of the letters, if there is one: its value and what follows.\<close>

definition exponent_part :: "byte \<Rightarrow> bytes \<Rightarrow> int \<times> bytes" where
  "exponent_part letter cs =
     (case cs of
        c # r \<Rightarrow>
          let (neg, r') = sign_of r; ds = takeWhile c_digit r'
          in if c_tolower c = letter \<and> ds \<noteq> []
             then (if neg then - read_dec ds else read_dec ds, dropWhile c_digit r') else (0, cs)
      | [] \<Rightarrow> (0, []))"

definition scale_by :: "bool \<Rightarrow> int \<Rightarrow> int \<Rightarrow> int \<Rightarrow> double" where
  "scale_by neg n b x = (if 0 \<le> x then round_quot neg (n * b ^ nat x) 1 else round_quot neg n (b ^ nat (- x)))"

definition strtod_end :: "bytes \<Rightarrow> (double \<times> bytes) option" where
  "strtod_end cs =
     (let (neg, r) = sign_of (dropWhile c_space cs) in
      if prefix_ci ''infinity'' r then Some (Inf neg, drop 8 r)
      else if prefix_ci ''inf'' r then Some (Inf neg, drop 3 r)
      else if prefix_ci ''nan'' r then
        let r = drop 3 r;
            s = (case r of c # r' \<Rightarrow> if c = 40 then dropWhile (\<lambda>c. c_alnum c \<or> c = 95) r' else [] | [] \<Rightarrow> [])
        in Some (NaN, if s \<noteq> [] \<and> hd s = 41 then tl s else r)
      else
        let (hi, hf, hr) = mantissa c_xdigit (drop 2 r) in
        if prefix_ci ''0x'' r \<and> (hi \<noteq> [] \<or> hf \<noteq> []) then
          let (x, rest) = exponent_part 112 hr
          in Some (scale_by neg (hex_value (hi @ hf)) 2 (x - 4 * int (length hf)), rest)
        else
          let (ip, fp, r) = mantissa c_digit r; (x, rest) = exponent_part 101 r
          in if ip = [] \<and> fp = [] then None
             else Some (scale_by neg (read_dec (ip @ fp)) 10 (x - int (length fp)), rest))"

definition float_native :: native_body where
  "float_native = checked_args [Argc_Eq 1] (\<lambda>argc base vm.
     do {
       v \<leftarrow> arg base 0 vm;
       ty \<leftarrow> type_of (vheap vm) v;
       (case v of
          VNumber d \<Rightarrow> return_val v vm
        | VBool b \<Rightarrow> return_number (dbl_of_int (if b then 1 else 0)) vm
        | _ \<Rightarrow>
            if ty = TString then do {
              s \<leftarrow> arg_string base 0 vm;
              (case strtod_end (cstr s) of
                 Some (d, rest) \<Rightarrow>
                   if dropWhile c_space rest = [] then return_number d vm
                   else raise_named ''ValueError'' ''float() expects a valid number string.'' vm
               | None \<Rightarrow> raise_named ''ValueError'' ''float() expects a valid number string.'' vm)
            }
            else raise_named ''TypeError'' ''float() expects number, string, or bool.'' vm)
     })"

section \<open>Input\<close>

text \<open>
  \<open>inp\<close> is what is left on the standard input. \<open>fgets\<close> reads at most 255 bytes up to a line feed; what
  it read is taken as a C string, so that it ends at the first zero.
\<close>

fun fgets :: "nat \<Rightarrow> bytes \<Rightarrow> bytes \<times> bytes" where
  "fgets 0 cs = ([], cs)"
| "fgets (Suc n) [] = ([], [])"
| "fgets (Suc n) (c # cs) = (if c = 10 then ([c], cs) else (let (l, r) = fgets n cs in (c # l, r)))"

lemma fgets_append: "fgets n cs = (l, r) \<Longrightarrow> cs = l @ r"
  by (induction n cs arbitrary: l r rule: fgets.induct) (auto split: if_splits prod.splits)

function read_input :: "bytes \<Rightarrow> bytes \<Rightarrow> bytes \<times> bytes" where
  "read_input acc inp =
     (let (chunk, rest) = fgets 255 inp in
      if chunk = [] then (acc, rest)
      else if cstr chunk \<noteq> [] \<and> last (cstr chunk) = 10 then (acc @ cstr chunk, rest)
      else read_input (acc @ cstr chunk) rest)"
  by pat_completeness auto
termination
  by (relation "measure (\<lambda>(acc, inp). length inp)") (auto dest!: sym [of _ "fgets _ _"] fgets_append)

definition strip_line_end :: "bytes \<Rightarrow> bytes" where
  "strip_line_end cs = rev (dropWhile (\<lambda>c. c = 10 \<or> c = 13) (rev cs))"

definition input_native :: "bytes \<Rightarrow> native_body" where
  "input_native inp argc base vm =
     (if 1 < argc then fail ''input() expects at most 1 argument.'' vm
      else do {
        prompt \<leftarrow> (if argc = 1 then arg base 0 vm else Some VNil);
        ty \<leftarrow> type_of (vheap vm) prompt;
        (if ty \<noteq> TNil \<and> ty \<noteq> TString then fail ''input() prompt must be string or nil.'' vm
         else do {
           p \<leftarrow> (if ty = TString then arg_string base 0 vm else Some []);
           let vm = write_out p vm;
           let line = fst (read_input [] inp);
           (if line = [] then return_val VNil vm
            else
              let (a, vm) = alloc (\<lambda>h. take_string h (strip_line_end line)) vm in return_val (VObj a) vm)
         })
      })"

section \<open>Numbers\<close>

definition min_native :: native_body where "min_native = fold_args (\<lambda>m x. if dlt x m then x else m)"
definition max_native :: native_body where "max_native = fold_args (\<lambda>m x. if dlt m x then x else m)"

definition divmod_native :: native_body where
  "divmod_native = checked_args [Argc_Eq 2, Is TNumber 0, Is TNumber 1] (\<lambda>argc base vm.
     do {
       a \<leftarrow> arg_number base 0 vm;
       b \<leftarrow> arg_number base 1 vm;
       (if deq b (dzero False) then fail ''divmod: division by zero'' vm
        else do {
          let q = dfloor (ddiv a b);
          let r = dsub a (dmul q b);
          let (out, vm) = alloc new_table vm;
          (ok, vm) \<leftarrow> heap_set_array out 1 (VNumber q) vm;
          (if \<not> ok then fail ''divmod: failed to set quotient'' vm
           else do {
             (ok, vm) \<leftarrow> heap_set_array out 2 (VNumber r) vm;
             (if \<not> ok then fail ''divmod: failed to set remainder'' vm else return_val (VObj out) vm)
           })
        })
     })"

definition mem_native :: native_body where
  "mem_native = checked_args [Argc_Eq 0] (\<lambda>argc base vm.
     return_number (dbl_of_int (uint (bytes_allocated (vheap vm)))) vm)"

text \<open>
  The sum over a generator: each round calls \<open>gen_next\<close>, which switches to the generator's thread, and
  runs the machine until it comes back. The loop need not end. The result \<open>None\<close> of a round is the C
  result 0.
\<close>

definition run_until :: "vm_loop \<Rightarrow> nat \<Rightarrow> addr option \<Rightarrow> vm \<Rightarrow> (interpret_result \<times> vm) option" where
  "run_until loop n stop_thread vm =
     do {
       (r, vm') \<leftarrow> loop n (vm\<lparr>run_stop_thread := stop_thread\<rparr>);
       Some (r, vm'\<lparr>run_stop_thread := run_stop_thread vm\<rparr>)
     }"

definition generator_pair ::
  "env \<Rightarrow> vm_loop \<Rightarrow> val \<Rightarrow> addr \<Rightarrow> val \<Rightarrow> vm \<Rightarrow> ((val \<times> val) option \<times> vm) option" where
  "generator_pair env loop f th control vm =
     do {
       t \<leftarrow> cur vm;
       let caller = current_thread vm;
       vm \<leftarrow> load_frame vm;
       vm \<leftarrow> push_all [f, VObj th, control] vm;
       (ok, vm) \<leftarrow> call_value env loop f 2 vm;
       (if \<not> ok then Some (None, vm)
        else do {
          k \<leftarrow> type_of (vheap vm) f;
          (r, vm) \<leftarrow> (if current_thread vm \<noteq> caller then run_until loop (frame_count t) caller vm
                      else if k = TClosure then loop (frame_count t) vm else Some (INTERPRET_OK, vm));
          (if r \<noteq> INTERPRET_OK then Some (None, vm)
           else do {
             t \<leftarrow> cur vm;
             (if stack_top t < 2 then do {
                (_, vm) \<leftarrow> fail ''sum: generator iterator produced invalid result.'' vm; Some (None, vm)
              }
              else do { (v, vm) \<leftarrow> pop vm; (k, vm) \<leftarrow> pop vm; Some (Some (k, v), vm) })
           })
        })
     }"

definition not_number_msg :: "int \<Rightarrow> bytes" where
  "not_number_msg i = bytes_of ''sum: element '' @ dec_int i @ bytes_of '' is not a number''"

partial_function (option) sum_generator ::
  "env \<Rightarrow> vm_loop \<Rightarrow> val \<Rightarrow> addr \<Rightarrow> int \<Rightarrow> double \<Rightarrow> val \<Rightarrow> vm \<Rightarrow> (bool \<times> vm) option" where
  "sum_generator env loop f th index s control vm =
     Option.bind (generator_pair env loop f th control vm) (\<lambda>(r, vm).
       case r of
         None \<Rightarrow> Some (False, vm)
       | Some (k, v) \<Rightarrow>
           if is_nil k then return_number s vm
           else if \<not> in_int_range (index + 1) then None
           else
             (case v of
                VNumber x \<Rightarrow> sum_generator env loop f th (index + 1) (dadd s x) k vm
              | _ \<Rightarrow> fail_bytes (not_number_msg (index + 1)) vm))"

definition sum_thread :: "env \<Rightarrow> vm_loop \<Rightarrow> addr \<Rightarrow> vm \<Rightarrow> (bool \<times> vm) option" where
  "sum_thread env loop th vm =
     do {
       (r, vm) \<leftarrow> global_named ''gen_next'' vm;
       ok \<leftarrow> is_callable (vheap vm) (or_nil r);
       (if \<not> ok then fail ''sum: global 'gen_next' not found or not callable.'' vm
        else do {
          (ok, vm') \<leftarrow> sum_generator env loop (or_nil r) th 0 (dzero False) VNil vm;
          Some (ok, vm'\<lparr>cframe := cframe vm, ip := ip vm\<rparr>)
        })
     }"

definition sum_native :: "env \<Rightarrow> vm_loop \<Rightarrow> native_body" where
  "sum_native env loop argc base vm =
     (if argc = 0 then return_val VNil vm
      else do {
        v \<leftarrow> arg base 0 vm;
        ty \<leftarrow> type_of (vheap vm) v;
        (if argc = 1 \<and> ty = TTable then do {
           (_, ot) \<leftarrow> arg_table base 0 vm;
           (case sum_elements 1 (dzero False) (array_elements (otable ot)) of
              Inr s \<Rightarrow> return_number s vm
            | Inl i \<Rightarrow> fail_bytes (not_number_msg (int i)) vm)
         }
         else if argc = 1 \<and> ty = TThread then do { th \<leftarrow> as_obj v; sum_thread env loop th vm }
         else checked_args (map (Is TNumber) [0..<argc]) (\<lambda>argc base vm.
           do { xs \<leftarrow> arg_numbers argc base vm; return_number (fold (\<lambda>x s. dadd s x) xs (dzero False)) vm }) argc base vm)
      })"

section \<open>Ranges\<close>

text \<open>Neither function checks the types of its arguments.\<close>

definition range_iter :: native_body where
  "range_iter argc base vm =
     do {
       state \<leftarrow> arg base 0 vm;
       current \<leftarrow> arg_number base 1 vm;
       ty \<leftarrow> type_of (vheap vm) state;
       (stop, inc) \<leftarrow> (if ty = TTable then do {
           (_, ot) \<leftarrow> arg_table base 0 vm;
           v \<leftarrow> table_get_array (otable ot) 1;
           w \<leftarrow> table_get_array (otable ot) 2;
           stop \<leftarrow> as_number v;
           inc \<leftarrow> as_number w;
           Some (stop, inc)
         } else do { stop \<leftarrow> as_number state; Some (stop, dbl_of_int 1) });
       let next = dadd current inc;
       (if (dlt (dzero False) inc \<and> dlt stop next) \<or> (dlt inc (dzero False) \<and> dlt next stop) then two_nils vm
        else pair_result (VNumber next) (VNumber next) vm)
     }"

definition range_native :: native_body where
  "range_native argc base vm =
     (if argc = 0 then fail ''range() expects 1-3 arguments'' vm
      else do {
        start \<leftarrow> (if argc = 1 then Some (dbl_of_int 1) else arg_number base 0 vm);
        stop \<leftarrow> arg_number base (if argc = 1 then 0 else 1) vm;
        inc \<leftarrow> (if 3 \<le> argc then arg_number base 2 vm else Some (dbl_of_int 1));
        (r, vm) \<leftarrow> global_named ''range_iter'' vm;
        (case r of
           None \<Rightarrow> fail ''range_iter not found'' vm
         | Some f \<Rightarrow> do {
             let (state, vm) = alloc new_table vm;
             vm \<leftarrow> push (VObj state) vm;
             (_, vm) \<leftarrow> heap_set_array state 1 (VNumber stop) vm;
             (_, vm) \<leftarrow> heap_set_array state 2 (VNumber inc) vm;
             vm \<leftarrow> pop_n 1 vm;
             vm \<leftarrow> push_all [f, VObj state, VNumber (dsub start inc)] vm;
             Some (True, vm)
           })
      })"

section \<open>Slices\<close>

text \<open>
  The indices \<open>i\<close>, \<open>i + inc\<close>, ... up to \<open>stop\<close>. The addition behind the last one may overflow an \<open>int\<close>.
\<close>

function slice_indices :: "int \<Rightarrow> int \<Rightarrow> int \<Rightarrow> int list option" where
  "slice_indices i stop inc =
     (if inc = 0 \<or> (0 < inc \<and> stop < i) \<or> (inc < 0 \<and> i < stop) then Some []
      else if \<not> in_int_range (i + inc) then None
      else do { is \<leftarrow> slice_indices (i + inc) stop inc; Some (i # is) })"
  by pat_completeness auto
termination
  by (relation "measure (\<lambda>(i, stop, inc). nat (if 0 < inc then stop - i + 1 else i - stop + 1))") auto

text \<open>\<open>s->chars[i - 1]\<close>: the zero behind the string can be read, nothing else outside.\<close>

definition char_at :: "bytes \<Rightarrow> int \<Rightarrow> byte option" where
  "char_at s i =
     (if 1 \<le> i \<and> i \<le> int (length s) then Some (s ! nat (i - 1))
      else if i = int (length s) + 1 then Some 0 else None)"

definition slice_string :: "bytes \<Rightarrow> int \<Rightarrow> int \<Rightarrow> int \<Rightarrow> bytes option" where
  "slice_string s start stop inc =
     (let i = max 1 start; j = min (int (length s)) stop
      in if (0 < inc \<and> j < i) \<or> (inc < 0 \<and> i < j) then Some []
         else do { is \<leftarrow> slice_indices i j inc; those (map (char_at s) is) })"

text \<open>The loop over the indices of a table; an element that cannot be stored is dropped.\<close>

fun slice_into :: "addr \<Rightarrow> addr \<Rightarrow> int \<Rightarrow> int list \<Rightarrow> vm \<Rightarrow> vm option" where
  "slice_into src dst k [] vm = Some vm"
| "slice_into src dst k (i # is) vm =
     do {
       (r, vm) \<leftarrow> element_at src i (dbl_of_int i) vm;
       vm \<leftarrow> (case r of
                Some v \<Rightarrow> do { (_, vm) \<leftarrow> heap_set_array dst k v vm; Some vm }
              | None \<Rightarrow> Some vm);
       slice_into src dst (k + 1) is vm
     }"

definition slice_value :: "nat \<Rightarrow> int \<Rightarrow> int \<Rightarrow> int \<Rightarrow> vm \<Rightarrow> (bool \<times> vm) option" where
  "slice_value base start stop inc vm =
     do {
       v \<leftarrow> arg base 0 vm;
       a \<leftarrow> as_obj v;
       ty \<leftarrow> type_of (vheap vm) v;
       (if ty = TString then do {
          s \<leftarrow> arg_string base 0 vm;
          r \<leftarrow> slice_string s start stop inc;
          return_string r vm
        }
        else do {
          let (dst, vm) = alloc new_table vm;
          vm \<leftarrow> push (VObj dst) vm;
          is \<leftarrow> slice_indices start stop inc;
          vm \<leftarrow> slice_into a dst 1 is vm;
          Some (True, vm)
        })
     }"

definition slice_native :: native_body where
  "slice_native = checked_args [Argc_Ge 3] (\<lambda>argc base vm.
     do {
       v \<leftarrow> arg base 0 vm;
       ty \<leftarrow> type_of (vheap vm) v;
       (if ty \<noteq> TTable \<and> ty \<noteq> TString then fail ''slice() expects table or string'' vm
        else checked_args ([Is TNumber 1, Is TNumber 2] @ (if 4 \<le> argc then [Is TNumber 3] else []))
          (\<lambda>argc base vm.
             do {
               start_d \<leftarrow> arg_number base 1 vm;
               end_d \<leftarrow> arg_number base 2 vm;
               step_d \<leftarrow> (if 4 \<le> argc then arg_number base 3 vm else Some (dbl_of_int 1));
               (if deq step_d (dzero False) then fail ''slice() step cannot be 0'' vm
                else do {
                  start \<leftarrow> cast_int start_d;
                  stop \<leftarrow> cast_int end_d;
                  inc \<leftarrow> cast_int step_d;
                  (if \<not> deq (dbl_of_int start) start_d \<or> \<not> deq (dbl_of_int stop) end_d
                      \<or> \<not> deq (dbl_of_int inc) step_d
                   then fail ''slice() expects integer start/end/step'' vm
                   else slice_value base start stop inc vm)
                })
             }) argc base vm)
     })"

section \<open>Registration\<close>

definition core_functions :: "(string \<times> nat) list" where
  "core_functions =
     zip [''str'', ''tostring'', ''exit'', ''bool'', ''int'', ''float'', ''input'', ''mem'', ''next'', ''inext'',
          ''gen_next'', ''range_iter'', ''range'', ''slice'', ''min'', ''max'', ''sum'', ''divmod'', ''setmetatable'',
          ''getmetatable'', ''error'', ''type'', ''istype'']
       (1300 # 1300 # [1301..<1322])"

definition register_core :: "vm \<Rightarrow> vm option" where
  "register_core = register_module None core_functions"

end
