(* ===== verification/Lib_Coroutine.thy ===== *)
theory Lib_Coroutine
  imports Lib_Core
begin

text \<open>
  Coroutines (\<open>src/src/lib/coroutine.c\<close>) and the signature of functions (\<open>src/src/lib/inspect.c\<close>).
  Resuming and yielding only switch the current thread and move values between the two stacks; the
  interpreter loop continues with the thread that is current when the native returns.
\<close>

section \<open>Yield and resume\<close>

fun push_to_all :: "thread \<Rightarrow> val list \<Rightarrow> thread option" where
  "push_to_all t [] = Some t"
| "push_to_all t (v # vs) = do { t \<leftarrow> push_to t v; push_to_all t vs }"

definition push_on :: "addr \<Rightarrow> val list \<Rightarrow> vm \<Rightarrow> vm option" where
  "push_on a vs vm = do { t \<leftarrow> thread_at (vheap vm) a; t \<leftarrow> push_to_all t vs; Some (put_thread a t vm) }"

text \<open>
  A thread that \<open>gen_next\<close> resumed gives its running number and the first value, any other thread
  \<open>true\<close> and all values. The thread that becomes current is left without a caller.
\<close>

definition coroutine_do_yield :: "val list \<Rightarrow> vm \<Rightarrow> (bool \<times> vm) option" where
  "coroutine_do_yield args vm =
     do {
       t \<leftarrow> cur vm;
       (case caller t of
          None \<Rightarrow> do {
            vm \<leftarrow> push (VBool False) vm;
            return_string (bytes_of ''attempt to yield from outside a coroutine'') vm
          }
        | Some c \<Rightarrow> do {
            vm \<leftarrow> (if is_generator t \<and> generator_mode t then
                     let n = generator_index t + 1 in
                     push_on c [VNumber (dbl_of_int (uint n)), if args = [] then VNil else hd args]
                       (put_cur (t\<lparr>generator_mode := False, generator_index := n\<rparr>) vm)
                   else push_on c (VBool True # args) vm);
            ct \<leftarrow> thread_at (vheap vm) c;
            let vm' = put_thread c (ct\<lparr>caller := None\<rparr>) vm;
            Some (True, vm'\<lparr>current_thread := Some c\<rparr>)
          })
     }"

definition args_from :: "nat \<Rightarrow> nat \<Rightarrow> nat \<Rightarrow> vm \<Rightarrow> val list option" where
  "args_from i argc base vm = those (map (\<lambda>i. arg base i vm) [i..<argc])"

definition coroutine_yield :: native_body where
  "coroutine_yield argc base vm = do { vs \<leftarrow> args_from 0 argc base vm; coroutine_do_yield vs vm }"

definition coroutine_sleep :: native_body where
  "coroutine_sleep = checked_args [Argc_Eq 1, Is TNumber 0] (\<lambda>argc base vm.
     do {
       let (s, vm) = string_val (bytes_of ''sleep'') vm;
       v \<leftarrow> arg base 0 vm;
       coroutine_do_yield [s, v] vm
     })"

text \<open>
  A yield continues with the caller, which has no caller itself from then on: a coroutine that has
  resumed another one and got control back cannot yield any more.
\<close>

lemma yield_to_caller:
  assumes "coroutine_do_yield vs vm = Some (ok, vm')" "cur vm = Some t" "caller t = Some c"
  shows "ok \<and> current_thread vm' = Some c \<and> (\<exists>ct. cur vm' = Some ct \<and> caller ct = None)"
proof -
  obtain vm1 ct where ct: "ok" "thread_at (vheap vm1) c = Some ct"
      "vm' = (put_thread c (ct\<lparr>caller := None\<rparr>) vm1)\<lparr>current_thread := Some c\<rparr>"
    using assms by (auto simp: coroutine_do_yield_def bind_eq_Some_conv Let_def)
  then have "cur vm' = Some (ct\<lparr>caller := None\<rparr>)"
    by (auto simp: cur_Some_iff put_thread_def thread_at_def split: option.splits obj.splits)
  with ct show ?thesis by simp
qed

lemma yield_without_caller:
  assumes "cur vm = Some t" "caller t = None"
  shows "coroutine_do_yield vs vm =
    do { vm \<leftarrow> push (VBool False) vm;
         return_string (bytes_of ''attempt to yield from outside a coroutine'') vm }"
  using assms by (simp add: coroutine_do_yield_def)

text \<open>
  A new thread whose only frame is the closure's. \<open>junk\<close> is what \<open>malloc\<close> left in that frame: the
  fields on the module context are not set.
\<close>

definition coroutine_create :: "frame \<Rightarrow> native_body" where
  "coroutine_create junk = checked_args [Argc_Eq 1] (\<lambda>argc base vm.
     do {
       v \<leftarrow> arg base 0 vm;
       ty \<leftarrow> type_of (vheap vm) v;
       (if ty \<noteq> TClosure then return_val VNil vm
        else do {
          cl \<leftarrow> as_obj v;
          let (a, vm) = alloc new_thread vm;
          t \<leftarrow> thread_at (vheap vm) a;
          let f = junk\<lparr>fclosure := cl, fip := 0, fslots := 0\<rparr>;
          return_val (VObj a)
            (put_thread a (t\<lparr>stack := (stack t)(0 \<mapsto> v), stack_top := 1, tframes := (tframes t)(0 \<mapsto> f),
                             frame_count := 1\<rparr>) vm)
        })
     })"

definition coroutine_resume :: native_body where
  "coroutine_resume = checked_args [Argc_Ge 1, Is TThread 0] (\<lambda>argc base vm.
     do {
       (a, t) \<leftarrow> arg_thread base 0 vm;
       (if frame_count t = 0 then do {
          vm \<leftarrow> push (VBool False) vm;
          return_string (bytes_of ''cannot resume dead coroutine'') vm
        }
        else do {
          vs \<leftarrow> args_from 1 argc base vm;
          let t' = t\<lparr>caller := current_thread vm,
                     generator_mode := (if is_generator t then False else generator_mode t)\<rparr>;
          vm \<leftarrow> push_on a vs (put_thread a t' vm);
          Some (True, vm\<lparr>current_thread := Some a\<rparr>)
        })
     })"

definition coroutine_status :: native_body where
  "coroutine_status = checked_args [Argc_Eq 1, Is TThread 0] (\<lambda>argc base vm.
     do {
       (a, t) \<leftarrow> arg_thread base 0 vm;
       return_string (bytes_of
         (if frame_count t = 0 then ''dead''
          else if caller t \<noteq> None then ''normal''
          else if current_thread vm = Some a then ''running'' else ''suspended'')) vm
     })"

definition coroutine_functions :: "(string \<times> nat) list" where
  "coroutine_functions =
     zip [''create'', ''resume'', ''yield'', ''sleep'', ''status''] [1330..<1335]"

definition register_coroutine :: "vm \<Rightarrow> vm option" where
  "register_coroutine vm =
     do { vm \<leftarrow> register_module (Some ''coroutine'') coroutine_functions vm; pop_n 1 vm }"

section \<open>Signatures\<close>

definition typehint_name :: "byte \<Rightarrow> string" where
  "typehint_name ty =
     (if ty = 1 then ''int'' else if ty = 2 then ''float'' else if ty = 3 then ''bool''
      else if ty = 4 then ''str'' else if ty = 5 then ''table'' else ''any'')"

definition set_field :: "addr \<Rightarrow> string \<Rightarrow> val \<Rightarrow> vm \<Rightarrow> vm option" where
  "set_field a key v vm =
     (let (k, vm) = alloc (\<lambda>h. copy_string h (bytes_of key)) vm in heap_set a k v vm)"

definition set_text_field :: "addr \<Rightarrow> string \<Rightarrow> string \<Rightarrow> vm \<Rightarrow> vm option" where
  "set_text_field a key s vm = (let (v, vm) = string_val (bytes_of s) vm in set_field a key v vm)"

definition name_or_nil :: "addr option \<Rightarrow> val" where
  "name_or_nil n = (case n of Some a \<Rightarrow> VObj a | None \<Rightarrow> VNil)"

text \<open>The description of parameter \<open>i\<close>, stored at index \<open>i + 1\<close> of \<open>params\<close>.\<close>

definition describe_param :: "fn \<Rightarrow> addr \<Rightarrow> nat \<Rightarrow> vm \<Rightarrow> vm option" where
  "describe_param g params i vm =
     (let positional = arity g - (if is_variadic g then 1 else 0);
          default_start = positional - int (length (defaults g));
          hint = (case at (param_types g) i of Some ty \<Rightarrow> ty | None \<Rightarrow> 0);
          (p, vm) = alloc new_table vm
      in do {
        vm \<leftarrow> push (VObj p) vm;
        vm \<leftarrow> set_field p ''index'' (VNumber (dbl_of_int (int i + 1))) vm;
        vm \<leftarrow> set_field p ''name'' (case at (param_names g) i of Some n \<Rightarrow> name_or_nil n | None \<Rightarrow> VNil) vm;
        vm \<leftarrow> set_text_field p ''type'' (typehint_name hint) vm;
        vm \<leftarrow> set_field p ''has_default'' (VBool (default_start \<le> int i \<and> int i < positional)) vm;
        vm \<leftarrow> set_field p ''variadic'' (VBool (is_variadic g \<and> int i = arity g - 1)) vm;
        (_, vm) \<leftarrow> heap_set_array params (int i + 1) (VObj p) vm;
        pop_n 1 vm
      })"

fun describe_params :: "fn \<Rightarrow> addr \<Rightarrow> nat list \<Rightarrow> vm \<Rightarrow> vm option" where
  "describe_params g params [] vm = Some vm"
| "describe_params g params (i # is) vm =
     do { vm \<leftarrow> describe_param g params i vm; describe_params g params is vm }"

definition params_field :: "fn option \<Rightarrow> addr \<Rightarrow> vm \<Rightarrow> vm option" where
  "params_field g sig vm =
     (let (params, vm) = alloc new_table vm in
      do {
        vm \<leftarrow> push (VObj params) vm;
        vm \<leftarrow> (case g of Some g \<Rightarrow> describe_params g params [0..<nat (arity g)] vm | None \<Rightarrow> Some vm);
        vm \<leftarrow> set_field sig ''params'' (VObj params) vm;
        pop_n 1 vm
      })"

definition function_signature :: "fn \<Rightarrow> addr \<Rightarrow> vm \<Rightarrow> vm option" where
  "function_signature g sig vm =
     do {
       vm \<leftarrow> set_text_field sig ''kind'' ''function'' vm;
       vm \<leftarrow> set_field sig ''arity'' (VNumber (dbl_of_int (arity g))) vm;
       vm \<leftarrow> set_field sig ''variadic'' (VBool (is_variadic g)) vm;
       vm \<leftarrow> set_field sig ''is_self'' (VBool (fn_is_self g)) vm;
       vm \<leftarrow> set_field sig ''defaults_count'' (VNumber (dbl_of_int (int (length (defaults g))))) vm;
       vm \<leftarrow> set_field sig ''name'' (name_or_nil (fname g)) vm;
       params_field (Some g) sig vm
     }"

definition native_signature :: "native \<Rightarrow> addr \<Rightarrow> vm \<Rightarrow> vm option" where
  "native_signature n sig vm =
     do {
       vm \<leftarrow> set_text_field sig ''kind'' ''native'' vm;
       vm \<leftarrow> set_field sig ''arity'' VNil vm;
       vm \<leftarrow> set_field sig ''variadic'' VNil vm;
       vm \<leftarrow> set_field sig ''is_self'' (VBool (nis_self n)) vm;
       vm \<leftarrow> set_field sig ''defaults_count'' VNil vm;
       vm \<leftarrow> set_field sig ''name'' (name_or_nil (nname n)) vm;
       params_field None sig vm
     }"

definition inspect_signature :: native_body where
  "inspect_signature = checked_args [Argc_Eq 1] (\<lambda>argc base vm.
     do {
       f \<leftarrow> arg base 0 vm;
       ty \<leftarrow> type_of (vheap vm) f;
       let (sig, vm) = alloc new_table vm;
       vm \<leftarrow> push (VObj sig) vm;
       (if ty \<noteq> TClosure \<and> ty \<noteq> TNative then do {
          vm \<leftarrow> pop_n 1 vm;
          fail ''inspect.signature expects function or native function.'' vm
        }
        else do {
          a \<leftarrow> as_obj f;
          vm \<leftarrow> (if ty = TClosure then do {
                   c \<leftarrow> closure_at (vheap vm) a;
                   g \<leftarrow> fn_at (vheap vm) (clfunction c);
                   function_signature g sig vm
                 }
                 else do { n \<leftarrow> native_at (vheap vm) a; native_signature n sig vm });
          vm \<leftarrow> pop_n 1 vm;
          return_val (VObj sig) vm
        })
     })"

definition register_inspect :: "vm \<Rightarrow> vm option" where
  "register_inspect vm =
     do { vm \<leftarrow> register_module (Some ''inspect'') [(''signature'', 1340)] vm; pop_n 1 vm }"

end
