(* ===== verification/Printf.thy ===== *)
theory Printf
  imports Lib_Core
begin

text \<open>
  \<open>printf\<close> of the C library for one conversion with flags, width and precision, as \<open>string.format\<close>
  (\<open>src/src/lib/string.c\<close>) uses it. \<open>None\<close> stands for combinations whose behaviour C leaves undefined.
\<close>

section \<open>Conversion specifications\<close>

record spec =
  sminus :: bool
  splus :: bool
  sspace :: bool
  salt :: bool
  szero :: bool
  swidth :: nat
  sprec :: "nat option"
  sconv :: byte

definition is_printf_flag_char :: "byte \<Rightarrow> bool" where
  "is_printf_flag_char c \<longleftrightarrow> c \<in> set (bytes_of ''-+ #0'')"

definition is_supported_printf_conv :: "byte \<Rightarrow> bool" where
  "is_supported_printf_conv c \<longleftrightarrow> c \<in> set (bytes_of ''sdiuxXofFgGeEc'')"

text \<open>
  The specification behind a percent sign and what follows it, or the message of \<open>string.format\<close>. The
  text of a specification, with its percent sign, has to fit into 31 bytes.
\<close>

definition parse_spec :: "bytes \<Rightarrow> string + spec \<times> bytes" where
  "parse_spec cs =
     (let flags = takeWhile is_printf_flag_char cs; r = dropWhile is_printf_flag_char cs;
          width = takeWhile c_digit r; r = dropWhile c_digit r;
          (prec, r) = (case r of
             c # r' \<Rightarrow> if c = 46 then (Some (takeWhile c_digit r'), dropWhile c_digit r') else (None, r)
           | [] \<Rightarrow> (None, []))
      in case r of
           [] \<Rightarrow> Inl ''string.format: incomplete format specifier''
         | c # r \<Rightarrow>
             if c \<in> set (bytes_of ''hlLztj'') then Inl ''string.format: length modifiers are not supported''
             else if \<not> is_supported_printf_conv c then Inl ''string.format: unsupported format specifier''
             else if 32 \<le> length cs - length r + 1 then Inl ''string.format: invalid format specifier''
             else Inr (\<lparr>sminus = (45 \<in> set flags), splus = (43 \<in> set flags), sspace = (32 \<in> set flags),
                        salt = (35 \<in> set flags), szero = (48 \<in> set flags), swidth = nat (read_dec width),
                        sprec = map_option (\<lambda>ds. nat (read_dec ds)) prec, sconv = c\<rparr>, r))"

lemma parse_spec_shorter: "parse_spec cs = Inr (sp, r) \<Longrightarrow> length r < length cs"
proof -
  have *: "length (dropWhile P xs) \<le> length xs" for P :: "byte \<Rightarrow> bool" and xs by (rule length_dropWhile_le)
  assume "parse_spec cs = Inr (sp, r)"
  then show ?thesis
    using * [of is_printf_flag_char cs] * [of c_digit "dropWhile is_printf_flag_char cs"]
      * [of c_digit "tl (dropWhile c_digit (dropWhile is_printf_flag_char cs))"]
    by (auto simp: parse_spec_def Let_def split: list.splits if_splits)
qed

section \<open>Fields\<close>

text \<open>A sign or prefix and the digits, filled to the width; \<open>zeros_ok\<close> lets the flag \<open>0\<close> fill with zeros.\<close>

definition field :: "spec \<Rightarrow> bool \<Rightarrow> bytes \<Rightarrow> bytes \<Rightarrow> bytes" where
  "field sp zeros_ok prefix ds =
     (let n = swidth sp - (length prefix + length ds)
      in if sminus sp then prefix @ ds @ replicate n 32
         else if szero sp \<and> zeros_ok then prefix @ zeros n @ ds
         else replicate n 32 @ prefix @ ds)"

definition sign_prefix :: "spec \<Rightarrow> bool \<Rightarrow> bytes" where
  "sign_prefix sp neg = (if neg then [45] else if splus sp then [43] else if sspace sp then [32] else [])"

text \<open>Digits of an integer with the precision as the least number of them.\<close>

definition with_precision :: "spec \<Rightarrow> bytes \<Rightarrow> bytes" where
  "with_precision sp ds =
     (case sprec sp of
        None \<Rightarrow> ds
      | Some p \<Rightarrow> if p = 0 \<and> ds = [48] then [] else zeros (p - length ds) @ ds)"

definition base_digit :: "bool \<Rightarrow> int \<Rightarrow> byte" where
  "base_digit upper d = word_of_int (if d < 10 then 48 + d else (if upper then 55 else 87) + d)"

function base_digits :: "int \<Rightarrow> bool \<Rightarrow> int \<Rightarrow> bytes" where
  "base_digits b upper n =
     (if n < b \<or> b \<le> 1 then [base_digit upper n] else base_digits b upper (n div b) @ [base_digit upper (n mod b)])"
  by pat_completeness auto
termination
proof (relation "measure (\<lambda>(b, upper, n). nat n)", goal_cases)
  case (2 b upper n)
  then show ?case by (auto simp: zdiv_int nat_less_iff int_div_less_self)
qed simp

declare base_digits.simps [simp del]

definition printf_int :: "spec \<Rightarrow> int \<Rightarrow> bytes option" where
  "printf_int sp n =
     (if salt sp then None
      else Some (field sp (sprec sp = None) (sign_prefix sp (n < 0)) (with_precision sp (dec \<bar>n\<bar>))))"

definition printf_unsigned :: "spec \<Rightarrow> int \<Rightarrow> bytes option" where
  "printf_unsigned sp n =
     (if sconv sp = 117 then
        (if salt sp then None else Some (field sp (sprec sp = None) [] (with_precision sp (dec n))))
      else if sconv sp = 111 then
        let ds = with_precision sp (base_digits 8 False n)
        in Some (field sp (sprec sp = None) [] (if salt sp \<and> (ds = [] \<or> hd ds \<noteq> 48) then 48 # ds else ds))
      else
        let upper = (sconv sp = 88)
        in Some (field sp (sprec sp = None)
                   (if salt sp \<and> n \<noteq> 0 then [48, if upper then 88 else 120] else [])
                   (with_precision sp (base_digits 16 upper n))))"

definition printf_char :: "spec \<Rightarrow> int \<Rightarrow> bytes option" where
  "printf_char sp n =
     (if salt sp \<or> szero sp \<or> sprec sp \<noteq> None then None else Some (field sp False [] [word_of_int n]))"

definition printf_string :: "spec \<Rightarrow> bytes \<Rightarrow> bytes option" where
  "printf_string sp s =
     (if salt sp \<or> szero sp then None
      else Some (field sp False [] (case sprec sp of None \<Rightarrow> cstr s | Some p \<Rightarrow> take p (cstr s))))"

section \<open>Real numbers\<close>

definition point :: "bool \<Rightarrow> bytes \<Rightarrow> bytes" where
  "point alt f = (if f = [] \<and> \<not> alt then [] else 46 # f)"

text \<open>\<open>%f\<close>, \<open>%e\<close> and \<open>%g\<close> of \<open>n / d \<ge> 0\<close> with precision \<open>P\<close>.\<close>

definition fixed_text :: "bool \<Rightarrow> nat \<Rightarrow> int \<Rightarrow> int \<Rightarrow> bytes" where
  "fixed_text alt P n d =
     (let v = rhe (n * 10 ^ P) d
      in dec (v div 10 ^ P) @ point alt (if P = 0 then [] else padded P (v mod 10 ^ P)))"

definition exponent_text :: "int \<Rightarrow> bytes" where
  "exponent_text x = [101, if x < 0 then 45 else 43] @ padded 2 \<bar>x\<bar>"

definition decimal_parts :: "nat \<Rightarrow> int \<Rightarrow> int \<Rightarrow> bytes \<times> int" where
  "decimal_parts P n d = (if n = 0 then (zeros P, 0) else (let (v, x) = sci P n d in (dec v, x)))"

definition scientific_text :: "bool \<Rightarrow> nat \<Rightarrow> int \<Rightarrow> int \<Rightarrow> bytes" where
  "scientific_text alt P n d =
     (let (ds, x) = decimal_parts (P + 1) n d in take 1 ds @ point alt (drop 1 ds) @ exponent_text x)"

definition general_text :: "bool \<Rightarrow> nat \<Rightarrow> int \<Rightarrow> int \<Rightarrow> bytes" where
  "general_text alt P n d =
     (let P = max 1 P; (ds, x) = decimal_parts P n d;
          trim = (\<lambda>f. if alt then f else strip_zeros f)
      in if x < -4 \<or> int P \<le> x then take 1 ds @ point alt (trim (drop 1 ds)) @ exponent_text x
         else if 0 \<le> x then take (nat x + 1) ds @ point alt (trim (drop (nat x + 1) ds))
         else [48] @ point alt (trim (zeros (nat (- x) - 1) @ ds)))"

definition real_text :: "spec \<Rightarrow> int \<Rightarrow> int \<Rightarrow> bytes" where
  "real_text sp n d =
     (let P = (case sprec sp of None \<Rightarrow> 6 | Some p \<Rightarrow> p); c = c_tolower (sconv sp)
      in if c = 102 then fixed_text (salt sp) P n d
         else if c = 101 then scientific_text (salt sp) P n d
         else general_text (salt sp) P n d)"

definition printf_double :: "spec \<Rightarrow> double \<Rightarrow> bytes" where
  "printf_double sp x =
     (let case_of = (if c_upper (sconv sp) then map c_toupper else (\<lambda>s. s))
      in case x of
           NaN \<Rightarrow> field sp False (sign_prefix sp False) (case_of (bytes_of ''nan''))
         | Inf s \<Rightarrow> field sp False (sign_prefix sp s) (case_of (bytes_of ''inf''))
         | Fin s m e \<Rightarrow> field sp True (sign_prefix sp s) (case_of (real_text sp (num_of m e) (den_of e))))"

text \<open>The default \<open>%g\<close> is that of \<open>Format\<close>.\<close>

lemma general_text_default:
  "0 < m \<Longrightarrow> fmt_g 6 (Fin s m e) = signed s (general_text False 6 (num_of m e) (den_of e))"
  by (simp add: num_of_def general_text_def decimal_parts_def point_def with_fraction_def exponent_text_def Let_def
      zeros_def split: prod.split)

end
