(* ===== verification/Lib_String.thy ===== *)
theory Lib_String
  imports Printf
begin

text \<open>
  The \<open>string\<close> module (\<open>src/src/lib/string.c\<close>) and the \<open>fnmatch\<close> module (\<open>src/src/lib/fnmatch.c\<close>).
  The characters of a mutable string lie outside the collector's heap: \<open>mstrings\<close> maps the pointer in
  its userdata to them. \<open>char\<close> is signed.
\<close>

section \<open>Mutable strings\<close>

type_synonym mstrings = "nat \<rightharpoonup> bytes"
type_synonym mutable_body = "nat \<Rightarrow> nat \<Rightarrow> mstrings \<Rightarrow> vm \<Rightarrow> (bool \<times> mstrings \<times> vm) option"

definition unchanged :: "mstrings \<Rightarrow> (bool \<times> vm) option \<Rightarrow> (bool \<times> mstrings \<times> vm) option" where
  "unchanged ms r = map_option (\<lambda>(ok, vm). (ok, ms, vm)) r"

definition mutable_string_finalizer :: "nat \<Rightarrow> mstrings \<Rightarrow> mstrings" where
  "mutable_string_finalizer p ms = ms(p := None)"

definition table_value :: "heap \<Rightarrow> val option \<Rightarrow> addr option option" where
  "table_value h v =
     (case v of
        None \<Rightarrow> Some None
      | Some v \<Rightarrow> do { k \<leftarrow> type_of h v; (if k = TTable then map_option Some (as_obj v) else Some None) })"

definition string_lookup_metatable :: "string \<Rightarrow> vm \<Rightarrow> (addr option \<times> vm) option" where
  "string_lookup_metatable key vm =
     do {
       name \<leftarrow> str_module_name (vnames vm);
       v \<leftarrow> module_get name vm;
       m \<leftarrow> table_value (vheap vm) v;
       m \<leftarrow> (case m of
               Some a \<Rightarrow> Some (Some a)
             | None \<Rightarrow> do { v \<leftarrow> global_get name vm; table_value (vheap vm) v });
       (case m of
          None \<Rightarrow> Some (None, vm)
        | Some a \<Rightarrow> do {
            let (k, vm) = alloc (\<lambda>h. copy_string h (bytes_of key)) vm;
            v \<leftarrow> heap_get a k vm;
            mt \<leftarrow> table_value (vheap vm) v;
            Some (mt, vm)
          })
     }"

text \<open>\<open>p\<close> is the pointer that \<open>malloc\<close> returns.\<close>

definition string_mutable :: "nat \<Rightarrow> mutable_body" where
  "string_mutable p argc base ms vm =
     (if 1 < argc then unchanged ms (fail ''string.mutable() expects at most 1 argument.'' vm)
      else do {
        ok \<leftarrow> (if argc = 1 then do { v \<leftarrow> arg base 0 vm; k \<leftarrow> type_of (vheap vm) v; Some (k = TString) } else Some True);
        (if \<not> ok then unchanged ms (fail ''string.mutable() expects string.'' vm)
         else do {
           s \<leftarrow> (if argc = 1 then arg_string base 0 vm else Some []);
           let (a, vm) = alloc (\<lambda>h. new_userdata_with_hooks h (Some p) (Some 1400) None) vm;
           (mt, vm) \<leftarrow> string_lookup_metatable ''_mutable_mt'' vm;
           u \<leftarrow> userdata_at (vheap vm) a;
           let vm = vm\<lparr>vheap := put_obj (vheap vm) a (OUserdata (u\<lparr>umetatable := mt\<rparr>))\<rparr>;
           unchanged (ms(p \<mapsto> s)) (return_val (VObj a) vm)
         })
      })"

text \<open>
  The mutable string of a userdata: none for a null pointer. The code recognises its own userdata by a
  magic number in the memory they point to; what that memory holds is only known for its own.
\<close>

definition mutable_string_from_userdata :: "userdata \<Rightarrow> mstrings \<Rightarrow> (nat \<times> bytes) option option" where
  "mutable_string_from_userdata u ms =
     (case udata u of None \<Rightarrow> Some None | Some p \<Rightarrow> do { s \<leftarrow> ms p; Some (Some (p, s)) })"

definition with_mutable :: "(nat \<Rightarrow> bytes \<Rightarrow> nat \<Rightarrow> mstrings \<Rightarrow> vm \<Rightarrow> (bool \<times> mstrings \<times> vm) option) \<Rightarrow> mutable_body" where
  "with_mutable f argc base ms vm =
     do {
       e \<leftarrow> first_failed [Argc_Eq 1, Is TUserdata 0] argc base vm;
       (case e of
          Some msg \<Rightarrow> unchanged ms (fail_bytes msg vm)
        | None \<Rightarrow> do {
            a \<leftarrow> arg_obj base 0 vm;
            u \<leftarrow> userdata_at (vheap vm) a;
            m \<leftarrow> mutable_string_from_userdata u ms;
            (case m of
               None \<Rightarrow> unchanged ms (fail ''Invalid mutable string.'' vm)
             | Some (p, s) \<Rightarrow> f p s base ms vm)
          })
     }"

definition mutable_map :: "(byte \<Rightarrow> byte) \<Rightarrow> mutable_body" where
  "mutable_map f = with_mutable (\<lambda>p s base ms vm. do {
     v \<leftarrow> arg base 0 vm; unchanged (ms(p \<mapsto> map f s)) (return_val v vm) })"

definition mutable_toupper :: mutable_body where "mutable_toupper = mutable_map c_toupper"
definition mutable_tolower :: mutable_body where "mutable_tolower = mutable_map c_tolower"

definition mutable_value :: mutable_body where
  "mutable_value = with_mutable (\<lambda>p s base ms vm. unchanged ms (return_string s vm))"

definition mutable_len :: mutable_body where
  "mutable_len = with_mutable (\<lambda>p s base ms vm. unchanged ms (return_number (dbl_of_int (int (length s))) vm))"

section \<open>Parts of strings\<close>

text \<open>A result that is the argument itself or a new string.\<close>

definition return_taken :: "bytes \<Rightarrow> vm \<Rightarrow> (bool \<times> vm) option" where
  "return_taken s vm = (let (a, vm) = alloc (\<lambda>h. take_string h s) vm in return_val (VObj a) vm)"

definition return_same_or :: "bool \<Rightarrow> nat \<Rightarrow> (vm \<Rightarrow> (bool \<times> vm) option) \<Rightarrow> vm \<Rightarrow> (bool \<times> vm) option" where
  "return_same_or same base other vm = (if same then do { v \<leftarrow> arg base 0 vm; return_val v vm } else other vm)"

definition one_string :: "(bytes \<Rightarrow> nat \<Rightarrow> vm \<Rightarrow> (bool \<times> vm) option) \<Rightarrow> native_body" where
  "one_string f = checked_args [Argc_Eq 1, Is TString 0] (\<lambda>argc base vm.
     do { s \<leftarrow> arg_string base 0 vm; f s base vm })"

definition string_len :: native_body where
  "string_len = one_string (\<lambda>s base. return_number (dbl_of_int (int (length s))))"

text \<open>The bounds of \<open>string.sub\<close> as offsets, from 1-based ones; \<open>None\<close> where an \<open>int\<close> overflows.\<close>

definition sub_bounds :: "int \<Rightarrow> int \<Rightarrow> int \<Rightarrow> (int \<times> int) option" where
  "sub_bounds n start stop =
     (let start = start - 1;
          i = (if start < 0 then n + start + 1 else start);
          j = (if stop < 0 then n + stop + 1 else stop);
          i = max 0 i; j = min n j
      in if in_int_range start \<and> in_int_range (j - i) then Some (i, j) else None)"

definition string_sub :: native_body where
  "string_sub = checked_args [Argc_Ge 2, Is TString 0, Is TNumber 1] (\<lambda>argc base vm.
     do {
       s \<leftarrow> arg_string base 0 vm;
       start \<leftarrow> arg_int base 1 vm;
       checked_args (if 3 \<le> argc then [Is TNumber 2] else []) (\<lambda>argc base vm.
         do {
           stop \<leftarrow> (if 3 \<le> argc then arg_int base 2 vm else Some (int (length s)));
           (i, j) \<leftarrow> sub_bounds (int (length s)) start stop;
           (if j - i \<le> 0 then return_string [] vm
            else return_taken (take (nat (j - i)) (drop (nat i) s)) vm)
         }) argc base vm
     })"

definition map_string :: "(byte \<Rightarrow> byte) \<Rightarrow> native_body" where
  "map_string f = one_string (\<lambda>s base. return_same_or (map f s = s) base (return_taken (map f s)))"

definition string_lower :: native_body where "string_lower = map_string c_tolower"
definition string_upper :: native_body where "string_upper = map_string c_toupper"

text \<open>A number that does not fit a signed \<open>char\<close> cannot be cast to one.\<close>

fun char_args :: "nat list \<Rightarrow> nat \<Rightarrow> nat \<Rightarrow> vm \<Rightarrow> (bytes + bytes) option" where
  "char_args [] argc base vm = Some (Inr [])"
| "char_args (i # is) argc base vm =
     do {
       e \<leftarrow> failed_check argc base vm (Is TNumber i);
       (case e of
          Some msg \<Rightarrow> Some (Inl msg)
        | None \<Rightarrow> do {
            d \<leftarrow> arg_number base i vm;
            n \<leftarrow> cast_bits 8 d;
            r \<leftarrow> char_args is argc base vm;
            Some (case r of Inl msg \<Rightarrow> Inl msg | Inr cs \<Rightarrow> Inr (word_of_int n # cs))
          })
     }"

definition string_char :: native_body where
  "string_char argc base vm =
     do {
       r \<leftarrow> char_args [0..<argc] argc base vm;
       (case r of Inl msg \<Rightarrow> fail_bytes msg vm | Inr cs \<Rightarrow> return_taken cs vm)
     }"

definition string_byte :: native_body where
  "string_byte = checked_args [Argc_Ge 1, Is TString 0] (\<lambda>argc base vm.
     do {
       s \<leftarrow> arg_string base 0 vm;
       checked_args (if 2 \<le> argc then [Is TNumber 1] else []) (\<lambda>argc base vm.
         do {
           i \<leftarrow> (if 2 \<le> argc then arg_int base 1 vm else Some 1);
           (if \<not> in_int_range (i - 1) then None
            else if i < 1 \<or> int (length s) < i then return_val VNil vm
            else return_number (dbl_of_int (uint (s ! nat (i - 1)))) vm)
         }) argc base vm
     })"

section \<open>Searching\<close>

definition starts_with :: "bytes \<Rightarrow> bytes \<Rightarrow> bool" where
  "starts_with p s \<longleftrightarrow> take (length p) s = p"

text \<open>\<open>strstr\<close>: the offset of the first occurrence.\<close>

fun strstr :: "bytes \<Rightarrow> bytes \<Rightarrow> nat option" where
  "strstr [] p = (if p = [] then Some 0 else None)"
| "strstr (c # cs) p = (if starts_with p (c # cs) then Some 0 else map_option Suc (strstr cs p))"

definition string_find :: native_body where
  "string_find = checked_args [Argc_Ge 2, Is TString 0, Is TString 1] (\<lambda>argc base vm.
     do {
       s \<leftarrow> arg_string base 0 vm;
       p \<leftarrow> arg_string base 1 vm;
       checked_args (if 3 \<le> argc then [Is TNumber 2] else []) (\<lambda>argc base vm.
         do {
           start \<leftarrow> (if 3 \<le> argc then arg_int base 2 vm else Some 1);
           let i = max 0 (start - 1);
           (if \<not> in_int_range (start - 1) then None
            else if int (length s) \<le> i then return_val VNil vm
            else
              case strstr (cstr (drop (nat i) s)) (cstr p) of
                None \<Rightarrow> return_val VNil vm
              | Some k \<Rightarrow>
                  let pos = i + int k + 1
                  in pair_result (VNumber (dbl_of_int pos)) (VNumber (dbl_of_int (pos + int (length p) - 1))) vm)
         }) argc base vm
     })"

definition trimmed :: "byte \<Rightarrow> byte \<Rightarrow> bool" where
  "trimmed ch c \<longleftrightarrow> c = ch \<or> c = 9 \<or> c = 10 \<or> c = 13"

definition drop_end :: "(byte \<Rightarrow> bool) \<Rightarrow> bytes \<Rightarrow> bytes" where
  "drop_end P s = rev (dropWhile P (rev s))"

definition return_nonempty :: "bytes \<Rightarrow> vm \<Rightarrow> (bool \<times> vm) option" where
  "return_nonempty s vm = (if s = [] then return_string [] vm else return_taken s vm)"

definition string_trim :: native_body where
  "string_trim = checked_args [Argc_Ge 1, Is TString 0] (\<lambda>argc base vm.
     do {
       s \<leftarrow> arg_string base 0 vm;
       checked_args (if 2 \<le> argc then [Is TString 1] else []) (\<lambda>argc base vm.
         do {
           chs \<leftarrow> (if 2 \<le> argc then arg_string base 1 vm else Some []);
           let ch = (if chs = [] then 32 else hd chs);
           return_nonempty (drop_end (trimmed ch) (dropWhile (trimmed ch) s)) vm
         }) argc base vm
     })"

definition trim_side :: "(bytes \<Rightarrow> bytes) \<Rightarrow> native_body" where
  "trim_side f = one_string (\<lambda>s base. return_same_or (f s = s) base (return_nonempty (f s)))"

definition string_ltrim :: native_body where "string_ltrim = trim_side (dropWhile (trimmed 32))"
definition string_rtrim :: native_body where "string_rtrim = trim_side (drop_end (trimmed 32))"

definition all_chars :: "(byte \<Rightarrow> bool) \<Rightarrow> native_body" where
  "all_chars P = one_string (\<lambda>s base. return_val (VBool (s \<noteq> [] \<and> list_all P s)))"

definition single_char :: "(byte \<Rightarrow> bool) \<Rightarrow> native_body" where
  "single_char P = one_string (\<lambda>s base. return_val (VBool (length s = 1 \<and> P (hd s))))"

definition string_is_digit :: native_body where "string_is_digit = all_chars c_digit"
definition string_is_alpha :: native_body where "string_is_alpha = all_chars c_alpha"
definition string_is_alnum :: native_body where "string_is_alnum = single_char c_alnum"
definition string_is_space :: native_body where "string_is_space = single_char c_space"

definition escape_html_byte :: "byte \<Rightarrow> bytes" where
  "escape_html_byte c =
     (if c = 38 then bytes_of ''&amp;'' else if c = 60 then bytes_of ''&lt;'' else if c = 62 then bytes_of ''&gt;''
      else if c = 34 then bytes_of ''&quot;'' else if c = 39 then bytes_of ''&#39;'' else [c])"

definition escape_html :: "bytes \<Rightarrow> bytes" where
  "escape_html s = concat (map escape_html_byte s)"

definition string_escape_html :: native_body where
  "string_escape_html = one_string (\<lambda>s base.
     return_same_or (length (escape_html s) = length s) base (return_taken (escape_html s)))"

definition two_strings :: "(bytes \<Rightarrow> bytes \<Rightarrow> bool) \<Rightarrow> native_body" where
  "two_strings P = checked_args [Argc_Eq 2, Is TString 0, Is TString 1] (\<lambda>argc base vm.
     do { s \<leftarrow> arg_string base 0 vm; p \<leftarrow> arg_string base 1 vm; return_val (VBool (P s p)) vm })"

definition string_starts_with :: native_body where
  "string_starts_with = two_strings (\<lambda>s p. length p \<le> length s \<and> starts_with p s)"

definition string_ends_with :: native_body where
  "string_ends_with = two_strings (\<lambda>s p. length p \<le> length s \<and> drop (length s - length p) s = p)"

end
