(* ===== verification/Lib_Format.thy ===== *)
theory Lib_Format
  imports Lib_String
begin

text \<open>
  The rest of the \<open>string\<close> module (\<open>src/src/lib/string.c\<close>): splitting, joining, repetition and
  formatting, its registration, and the \<open>fnmatch\<close> module (\<open>src/src/lib/fnmatch.c\<close>).
\<close>

section \<open>Splitting\<close>

text \<open>
  The forward split finds separators with \<open>strstr\<close>, which stops at zeros, but steps over their full
  length: beyond the end of the string the behaviour is undefined.
\<close>

function split_forward :: "bytes \<Rightarrow> int \<Rightarrow> bytes \<Rightarrow> bytes list option" where
  "split_forward sep n s =
     (if n \<le> 0 \<or> sep = [] then Some [s]
      else
        case strstr (cstr s) (cstr sep) of
          None \<Rightarrow> Some [s]
        | Some k \<Rightarrow>
            if length s < k + length sep then None
            else do {
              parts \<leftarrow> split_forward sep (n - 1) (drop (k + length sep) s);
              Some (take k s # parts)
            })"
  by pat_completeness auto
termination
  by (relation "measure (\<lambda>(sep, n, s). length s)") (auto simp flip: length_greater_0_conv)

declare split_forward.simps [simp del]

text \<open>The parts, joined by the separator, are the string again.\<close>

lemma starts_withD: "starts_with p s \<Longrightarrow> s = p @ drop (length p) s"
  by (metis append_take_drop_id starts_with_def)

lemma strstr_Some: "strstr s p = Some k \<Longrightarrow> s = take k s @ p @ drop (k + length p) s"
proof (induction s arbitrary: k)
  case Nil
  then show ?case by (simp split: if_splits)
next
  case (Cons c cs)
  show ?case
  proof (cases "starts_with p (c # cs)")
    case True
    with Cons.prems starts_withD [OF True] show ?thesis by simp
  next
    case False
    with Cons show ?thesis by auto
  qed
qed

lemma cstr_prefix: "\<exists>r. s = cstr s @ r"
  by (metis cstr_def takeWhile_dropWhile_id)

lemma split_forward_join:
  "split_forward sep n s = Some ps \<Longrightarrow> 0 \<notin> set sep \<Longrightarrow> ps \<noteq> [] \<and> join sep ps = s"
proof (induction sep n s arbitrary: ps rule: split_forward.induct)
  case (1 sep n s)
  have sep: "cstr sep = sep" using 1(3) by (auto simp: cstr_def takeWhile_eq_all_conv)
  show ?case
  proof (cases "n \<le> 0 \<or> sep = [] \<or> strstr (cstr s) (cstr sep) = None")
    case True
    then have "split_forward sep n s = Some [s]" by (subst split_forward.simps) auto
    with 1(2) show ?thesis by auto
  next
    case False
    then obtain k where k: "strstr (cstr s) sep = Some k" by (auto simp: sep)
    obtain r where r: "s = cstr s @ r" using cstr_prefix by blast
    have len: "k + length sep \<le> length (cstr s)"
      using arg_cong [OF strstr_Some [OF k], of length] False by (cases sep) (auto simp: min_def split: if_splits)
    then have s: "s = take k s @ sep @ drop (k + length sep) s"
      using strstr_Some [OF k] by (subst (1 2 3) r) simp
    from False k 1(2) obtain qs where q: "ps = take k s # qs"
        "split_forward sep (n - 1) (drop (k + length sep) s) = Some qs" "\<not> length s < k + length sep"
      by (auto simp: split_forward.simps [of sep n s] sep bind_eq_Some_conv split: if_splits)
    have "qs \<noteq> [] \<and> join sep qs = drop (k + length sep) s"
      using 1(1) [OF _ _ q(3,2) 1(3)] False k by (simp add: sep)
    then show ?thesis using q(1) s by (cases qs) auto
  qed
qed

text \<open>\<open>memcmp\<close> from the last possible place to the first.\<close>

fun rfind_upto :: "nat \<Rightarrow> bytes \<Rightarrow> bytes \<Rightarrow> nat option" where
  "rfind_upto 0 p s = (if starts_with p s then Some 0 else None)"
| "rfind_upto (Suc k) p s = (if starts_with p (drop (Suc k) s) then Some (Suc k) else rfind_upto k p s)"

definition rfind :: "bytes \<Rightarrow> bytes \<Rightarrow> nat option" where
  "rfind p s = (if length s < length p then None else rfind_upto (length s - length p) p s)"

lemma rfind_upto_le: "rfind_upto k p s = Some i \<Longrightarrow> i \<le> k"
  by (induction k) (auto split: if_splits)

text \<open>The backward split: the text before the last \<open>limit\<close> separators, then the parts behind them.\<close>

function split_backward :: "bytes \<Rightarrow> int \<Rightarrow> bytes \<Rightarrow> bytes list" where
  "split_backward sep limit s =
     (if s = [] \<or> limit \<le> 0 \<or> sep = [] then [s]
      else
        case rfind sep s of
          None \<Rightarrow> [s]
        | Some k \<Rightarrow> split_backward sep (limit - 1) (take k s) @ [drop (k + length sep) s])"
  by pat_completeness auto
termination
  by (relation "measure (\<lambda>(sep, n, s). length s)")
    (auto simp: rfind_def simp flip: length_greater_0_conv dest!: rfind_upto_le split: if_splits)

declare split_backward.simps [simp del]

fun store_strings :: "addr \<Rightarrow> int \<Rightarrow> bytes list \<Rightarrow> vm \<Rightarrow> vm option" where
  "store_strings a i [] vm = Some vm"
| "store_strings a i (s # ss) vm =
     (let (v, vm) = string_val s vm in
      do { (_, vm) \<leftarrow> heap_set_array a i v vm; store_strings a (i + 1) ss vm })"

text \<open>\<open>n\<close> is the third argument, if there is one; its type is not checked.\<close>

definition split_parts :: "bytes \<Rightarrow> int option \<Rightarrow> bytes \<Rightarrow> bytes list option" where
  "split_parts sep n s =
     (if sep = [] then Some (map (\<lambda>c. [c]) s)
      else
        case n of
          None \<Rightarrow> split_forward sep (2 ^ 31 - 1) s
        | Some n \<Rightarrow>
            if n < 0 then (if in_int_range (- n) then Some (split_backward sep (- n) s) else None)
            else split_forward sep n s)"

definition string_split :: native_body where
  "string_split = checked_args [Argc_Ge 1, Is TString 0] (\<lambda>argc base vm.
     checked_args (if 2 \<le> argc then [Is TString 1] else []) (\<lambda>argc base vm.
       do {
         s \<leftarrow> arg_string base 0 vm;
         sep \<leftarrow> (if 2 \<le> argc then arg_string base 1 vm else Some [32]);
         n \<leftarrow> (if 3 \<le> argc then map_option Some (arg_int base 2 vm) else Some None);
         let (a, vm) = alloc new_table vm;
         vm \<leftarrow> push (VObj a) vm;
         parts \<leftarrow> split_parts sep n s;
         vm \<leftarrow> store_strings a 1 parts vm;
         vm \<leftarrow> pop_n 1 vm;
         return_val (VObj a) vm
       }) argc base vm)"

section \<open>Joining and repeating\<close>

text \<open>\<open>%d\<close> for a number that is an \<open>int\<close>, \<open>%g\<close> for others; the cast is undefined beyond an \<open>int\<close>.\<close>

definition short_number_text :: "double \<Rightarrow> bytes option" where
  "short_number_text d =
     do { n \<leftarrow> cast_int d; Some (if deq d (dbl_of_int n) then dec_int n else fmt_g 6 d) }"

text \<open>The texts of the elements from index \<open>i\<close> up to the first missing one, or \<open>None\<close> for a wrong type.\<close>

partial_function (option) join_texts :: "addr \<Rightarrow> int \<Rightarrow> vm \<Rightarrow> (bytes list option \<times> vm) option" where
  "join_texts a i vm =
     Option.bind (element_at a i (dbl_of_int i) vm) (\<lambda>(r, vm).
       case r of
         None \<Rightarrow> Some (Some [], vm)
       | Some v \<Rightarrow>
           Option.bind (type_of (vheap vm) v) (\<lambda>k.
             if k \<noteq> TString \<and> k \<noteq> TNumber then Some (None, vm)
             else
               Option.bind (case v of VNumber d \<Rightarrow> short_number_text d | VObj b \<Rightarrow> string_at (vheap vm) b | _ \<Rightarrow> None)
                 (\<lambda>s. Option.bind (join_texts a (i + 1) vm) (\<lambda>(ss, vm). Some (map_option (\<lambda>ss. s # ss) ss, vm)))))"

text \<open>The first pass adds up the lengths, the second copies.\<close>

definition string_join :: native_body where
  "string_join = checked_args [Argc_Eq 2, Is TString 0, Is TTable 1] (\<lambda>argc base vm.
     do {
       sep \<leftarrow> arg_string base 0 vm;
       a \<leftarrow> arg_obj base 1 vm;
       (r, vm) \<leftarrow> join_texts a 1 vm;
       (case r of
          None \<Rightarrow> fail ''string.join: list contains non-string/number element'' vm
        | Some ss \<Rightarrow>
            if ss = [] then return_string [] vm
            else if 2 ^ 31 \<le> length (join sep ss) + 1 then None
            else do { (_, vm) \<leftarrow> join_texts a 1 vm; return_taken (join sep ss) vm })
     })"

definition string_rep :: native_body where
  "string_rep = checked_args [Argc_Eq 2, Is TString 0, Is TNumber 1] (\<lambda>argc base vm.
     do {
       s \<leftarrow> arg_string base 0 vm;
       n \<leftarrow> arg_int base 1 vm;
       (if n \<le> 0 then return_string [] vm
        else if 2 ^ 31 \<le> int (length s) * n + 1 then None
        else return_taken (concat (replicate (nat n) s)) vm)
     })"

definition string_reverse :: native_body where
  "string_reverse = one_string (\<lambda>s base. return_taken (rev s))"

section \<open>Formatting\<close>

text \<open>What \<open>%s\<close> shows of a value.\<close>

definition format_shown :: "heap \<Rightarrow> val \<Rightarrow> bytes option" where
  "format_shown h v =
     (case v of
        VNil \<Rightarrow> Some (bytes_of ''nil'')
      | VBool b \<Rightarrow> Some (bytes_of (if b then ''true'' else ''false''))
      | VNumber d \<Rightarrow> short_number_text d
      | VObj a \<Rightarrow> do {
          k \<leftarrow> type_of h v;
          (if k = TString then string_at h a else Some (bytes_of ''<value>''))
        })"

text \<open>
  The text of one argument, or the message of an error. A field of more than \<open>INT_MAX\<close> bytes makes
  \<open>snprintf\<close> fail, which is reported as running out of memory.
\<close>

definition format_number :: "spec \<Rightarrow> double \<Rightarrow> bytes option" where
  "format_number sp d =
     (if sconv sp \<in> set (bytes_of ''di'') then do { n \<leftarrow> cast_int d; printf_int sp n }
      else if sconv sp \<in> set (bytes_of ''uxXo'') then do {
        n \<leftarrow> dtrunc d;
        (if 0 \<le> n \<and> n < 2 ^ 32 then printf_unsigned sp n else None)
      }
      else if sconv sp = 99 then do { n \<leftarrow> cast_int d; printf_char sp n }
      else Some (printf_double sp d))"

definition format_arg :: "heap \<Rightarrow> spec \<Rightarrow> val \<Rightarrow> (string + bytes) option" where
  "format_arg h sp v =
     do {
       r \<leftarrow> (if sconv sp = 115 then do { s \<leftarrow> format_shown h v; map_option Some (printf_string sp s) }
             else case v of VNumber d \<Rightarrow> map_option Some (format_number sp d) | _ \<Rightarrow> Some None);
       Some (case r of
               None \<Rightarrow> Inl ''string.format: numeric format expects number''
             | Some s \<Rightarrow> if 2 ^ 31 \<le> length s then Inl ''string.format: out of memory'' else Inr s)
     }"

text \<open>The text of the format from here on, with the arguments from index \<open>i\<close>.\<close>

function format_text :: "bytes \<Rightarrow> nat \<Rightarrow> nat \<Rightarrow> nat \<Rightarrow> vm \<Rightarrow> (string + bytes) option" where
  "format_text [] i argc base vm = Some (Inr [])"
| "format_text (c # cs) i argc base vm =
     (if c \<noteq> 37 \<or> cs = [] then map_option (map_sum id ((#) c)) (format_text cs i argc base vm)
      else if hd cs = 37 then map_option (map_sum id ((#) 37)) (format_text (tl cs) i argc base vm)
      else
        case parse_spec cs of
          Inl msg \<Rightarrow> Some (Inl msg)
        | Inr (sp, rest) \<Rightarrow>
            if argc \<le> i then Some (Inl ''string.format: not enough arguments'')
            else do {
              v \<leftarrow> arg base i vm;
              r \<leftarrow> format_arg (vheap vm) sp v;
              (case r of
                 Inl msg \<Rightarrow> Some (Inl msg)
               | Inr s \<Rightarrow> map_option (map_sum id ((@) s)) (format_text rest (i + 1) argc base vm))
            })"
  by pat_completeness auto
termination
proof (relation "measure (\<lambda>(cs, _). length cs)", goal_cases)
  case (4 c cs i argc base vm x sp rest)
  then show ?case using parse_spec_shorter [of cs sp rest] by simp
qed auto

declare format_text.simps(2) [simp del]

definition string_format :: native_body where
  "string_format = checked_args [Argc_Ge 1, Is TString 0] (\<lambda>argc base vm.
     do {
       f \<leftarrow> arg_string base 0 vm;
       r \<leftarrow> format_text f 1 argc base vm;
       (case r of
          Inl msg \<Rightarrow> fail msg vm
        | Inr s \<Rightarrow> if 2 ^ 31 \<le> length s + 1 then None else return_taken s vm)
     })"

section \<open>Registration\<close>

definition string_functions :: "(string \<times> nat) list" where
  "string_functions =
     zip [''len'', ''sub'', ''lower'', ''upper'', ''starts_with'', ''ends_with'', ''mutable'', ''char'', ''byte'',
          ''find'', ''trim'', ''ltrim'', ''rtrim'', ''is_digit'', ''is_alpha'', ''is_alnum'', ''is_space'',
          ''escape_html'', ''split'', ''join'', ''rep'', ''reverse'', ''format''] [1410..<1433]"

definition mutable_methods :: "(string \<times> nat) list" where
  "mutable_methods = [(''toupper'', 1433), (''tolower'', 1434), (''value'', 1435), (''__str'', 1435), (''len'', 1436)]"

text \<open>A native function that is a method, under its name in a table.\<close>

definition register_mutable_method :: "addr \<Rightarrow> string \<times> nat \<Rightarrow> vm \<Rightarrow> vm option" where
  "register_mutable_method mt f vm =
     (let (name, vm) = alloc (\<lambda>h. copy_string h (bytes_of (fst f))) vm in
      do {
        vm \<leftarrow> push (VObj name) vm;
        let (n, vm) = alloc (\<lambda>h. new_native h (snd f) (Some name)) vm;
        nat_obj \<leftarrow> native_at (vheap vm) n;
        let vm = vm\<lparr>vheap := put_obj (vheap vm) n (ONative (nat_obj\<lparr>nis_self := True\<rparr>))\<rparr>;
        vm \<leftarrow> push (VObj n) vm;
        vm \<leftarrow> heap_set mt name (VObj n) vm;
        pop_n 2 vm
      })"

fun register_mutable_methods :: "addr \<Rightarrow> (string \<times> nat) list \<Rightarrow> vm \<Rightarrow> vm option" where
  "register_mutable_methods mt [] vm = Some vm"
| "register_mutable_methods mt (f # fs) vm = do { vm \<leftarrow> register_mutable_method mt f vm; register_mutable_methods mt fs vm }"

definition register_mutable :: "addr \<Rightarrow> vm \<Rightarrow> vm option" where
  "register_mutable module_table vm =
     (let (mt, vm) = alloc new_table vm in
      do {
        vm \<leftarrow> push (VObj mt) vm;
        vm \<leftarrow> register_mutable_methods mt mutable_methods vm;
        vm \<leftarrow> set_guarded mt (bytes_of ''__index'') (VObj mt) vm;
        let (k, vm) = alloc (\<lambda>h. copy_string h (bytes_of ''__name'')) vm;
        vm \<leftarrow> push (VObj k) vm;
        let (v, vm) = string_val (bytes_of ''string.mutable'') vm;
        vm \<leftarrow> push v vm;
        vm \<leftarrow> heap_set mt k v vm;
        vm \<leftarrow> pop_n 2 vm;
        vm \<leftarrow> set_guarded module_table (bytes_of ''_mutable_mt'') (VObj mt) vm;
        pop_n 1 vm
      })"

definition register_string :: "vm \<Rightarrow> vm option" where
  "register_string vm =
     do {
       vm \<leftarrow> register_module (Some ''string'') string_functions vm;
       v \<leftarrow> peek 0 vm;
       m \<leftarrow> as_obj v;
       let (mt, vm) = alloc new_table vm;
       vm \<leftarrow> push (VObj mt) vm;
       vm \<leftarrow> register_native (heap_set mt) (''__call'', 1300) vm;
       vm \<leftarrow> set_metatable m (Some mt) vm;
       let (k, vm) = alloc (\<lambda>h. copy_string h (bytes_of ''str'')) vm;
       vm \<leftarrow> push_all [VObj k, v] vm;
       vm \<leftarrow> global_set k v vm;
       vm \<leftarrow> pop_n 2 vm;
       vm \<leftarrow> register_mutable m vm;
       pop_n 2 vm
     }"

section \<open>Patterns of file names\<close>

datatype fnm_flag = FNM_PATHNAME | FNM_PERIOD | FNM_NOESCAPE | FNM_CASEFOLD | FNM_LEADING_DIR

text \<open>\<open>gnu\<close>: whether the C library defines the last two flags.\<close>

definition flag_of :: "bool \<Rightarrow> byte \<Rightarrow> fnm_flag option" where
  "flag_of gnu c =
     (if c = 112 then Some FNM_PATHNAME else if c = 100 then Some FNM_PERIOD
      else if c = 110 then Some FNM_NOESCAPE else if gnu \<and> c = 105 then Some FNM_CASEFOLD
      else if gnu \<and> c = 108 then Some FNM_LEADING_DIR else None)"

definition parse_flags :: "bool \<Rightarrow> bytes \<Rightarrow> fnm_flag set option" where
  "parse_flags gnu cs = map_option set (those (map (flag_of gnu) cs))"

text \<open>\<open>fnm\<close> is \<open>fnmatch\<close> of the C library, whether it returns 0 on two C strings and the flags.\<close>

definition fnmatch_match :: "bool \<Rightarrow> (bytes \<Rightarrow> bytes \<Rightarrow> fnm_flag set \<Rightarrow> bool) \<Rightarrow> native_body" where
  "fnmatch_match gnu fnm = checked_args [Argc_Ge 2, Is TString 0, Is TString 1] (\<lambda>argc base vm.
     do {
       v \<leftarrow> (if 3 \<le> argc then arg base 2 vm else Some VNil);
       k \<leftarrow> type_of (vheap vm) v;
       (if k \<noteq> TString \<and> k \<noteq> TNil then fail ''Argument 3 must be a string.'' vm
        else do {
          cs \<leftarrow> (if k = TString then arg_string base 2 vm else Some []);
          (case parse_flags gnu cs of
             None \<Rightarrow> fail ''fnmatch flags must be string containing [p,d,n,i,l] (platform-dependent).'' vm
           | Some flags \<Rightarrow> do {
               p \<leftarrow> arg_string base 0 vm;
               s \<leftarrow> arg_string base 1 vm;
               return_val (VBool (fnm (cstr p) (cstr s) flags)) vm
             })
        })
     })"

definition register_fnmatch :: "vm \<Rightarrow> vm option" where
  "register_fnmatch vm =
     do { vm \<leftarrow> register_module (Some ''fnmatch'') [(''match'', 1440)] vm; pop_n 1 vm }"

end
