(* ===== verification/Lib_Struct.thy ===== *)
theory Lib_Struct
  imports Lib_Core Wire
begin

text \<open>
  The \<open>struct\<close> module (\<open>src/src/lib/structlib.c\<close>): values packed into bytes by a format string, and
  unpacked again.
\<close>

section \<open>Single precision\<close>

text \<open>The bits of the \<open>float\<close> nearest to a double, and the double with the value of such bits.\<close>

definition float_bits :: "double \<Rightarrow> nat" where
  "float_bits x =
     (case x of
        NaN \<Rightarrow> 0x7FC00000
      | Inf s \<Rightarrow> (if s then 2 ^ 31 else 0) + 0x7F800000
      | Fin s m e \<Rightarrow>
          (if s then 2 ^ 31 else 0) +
          (if m = 0 then 0
           else
             let n = num_of m e; d = den_of e; k = max (lead n d - 23) (-149);
                 v = scaled n d k; (v, k) = (if v = 2 ^ 24 then (2 ^ 23, k + 1) else (v, k))
             in if 104 < k then 0x7F800000
                else if v < 2 ^ 23 then nat v
                else nat (k + 150) * 2 ^ 23 + nat (v - 2 ^ 23)))"

definition bits_float :: "nat \<Rightarrow> double" where
  "bits_float n =
     (let s = n div 2 ^ 31 mod 2 = 1; x = n div 2 ^ 23 mod 256; f = n mod 2 ^ 23
      in if x = 255 then (if f = 0 then Inf s else NaN)
         else if x = 0 then round_scaled s (int f) (-149)
         else round_scaled s (int f + 2 ^ 23) (int x - 150))"

section \<open>The format\<close>

text \<open>A number of at most nine digits and some of ten; 0 without digits. \<open>None\<close> if it is too large.\<close>

fun parse_repeat :: "nat \<Rightarrow> bytes \<Rightarrow> (nat \<times> bytes) option" where
  "parse_repeat rep [] = Some (rep, [])"
| "parse_repeat rep (c # cs) =
     (if \<not> c_digit c then Some (rep, c # cs)
      else if 100000000 < rep then None
      else parse_repeat (rep * 10 + unat (c - 48)) cs)"

datatype token = No_token | Bad_token string | Token nat byte bytes

definition next_token :: "bytes \<Rightarrow> token" where
  "next_token cs =
     (case dropWhile c_space cs of
        [] \<Rightarrow> No_token
      | c # r \<Rightarrow>
          (case parse_repeat 0 (c # r) of
             None \<Rightarrow> Bad_token ''Repeat count too large.''
           | Some (rep, []) \<Rightarrow> Bad_token ''Expected format code.''
           | Some (rep, k # rest) \<Rightarrow> Token (if 0 < rep then rep else 1) k rest))"

lemma parse_repeat_le: "parse_repeat k cs = Some (rep, r) \<Longrightarrow> length r \<le> length cs"
  by (induction k cs rule: parse_repeat.induct) (auto split: if_splits)

lemma next_token_shorter: "next_token cs = Token n c rest \<Longrightarrow> length rest < length cs"
  using length_dropWhile_le [of c_space cs]
  by (auto simp: next_token_def simp del: parse_repeat.simps dest!: parse_repeat_le
      split: list.splits option.splits prod.splits)

text \<open>The byte order: little-endian unless the format starts with \<open>>\<close>.\<close>

definition byte_order_of :: "bytes \<Rightarrow> bool \<times> bytes" where
  "byte_order_of cs =
     (case dropWhile c_space cs of
        [] \<Rightarrow> (True, [])
      | c # r \<Rightarrow> if c = 60 then (True, r) else if c = 62 then (False, r) else (True, c # r))"

section \<open>Packing\<close>

definition write_int :: "nat \<Rightarrow> nat \<Rightarrow> bool \<Rightarrow> bytes" where
  "write_int u nbytes little = (if little then nat_bytes nbytes u else rev (nat_bytes nbytes u))"

definition read_uint :: "bytes \<Rightarrow> bool \<Rightarrow> nat" where
  "read_uint bs little = bytes_nat (if little then bs else rev bs)"

lemma read_write_int: "u < 256 ^ n \<Longrightarrow> read_uint (write_int u n little) little = u"
proof -
  have *: "k < 256 ^ n \<Longrightarrow> bytes_nat (nat_bytes n k) = k" for k n :: nat
  proof (induction n arbitrary: k)
    case (Suc n)
    then have "k div 256 < 256 ^ n" by (simp add: less_mult_imp_div_less mult.commute)
    with Suc.IH show ?case by (simp add: unsigned_of_nat take_bit_eq_mod)
  qed simp
  assume "u < 256 ^ n"
  then show ?thesis by (simp add: write_int_def read_uint_def *)
qed

text \<open>The casts to 64 bits are undefined for numbers beyond them.\<close>

definition is_finite :: "double \<Rightarrow> bool" where
  "is_finite d = (case d of Fin _ _ _ \<Rightarrow> True | _ \<Rightarrow> False)"

definition parse_int_arg :: "val \<Rightarrow> int \<Rightarrow> int \<Rightarrow> int option option" where
  "parse_int_arg v low high =
     (case v of
        VNumber d \<Rightarrow>
          if \<not> is_finite d then Some None
          else do {
            i \<leftarrow> cast_int64 d;
            Some (if deq (dbl_of_int i) d \<and> low \<le> i \<and> i \<le> high then Some i else None)
          }
      | _ \<Rightarrow> Some None)"

definition parse_uint_arg :: "val \<Rightarrow> int \<Rightarrow> int option option" where
  "parse_uint_arg v high =
     (case v of
        VNumber d \<Rightarrow>
          if \<not> is_finite d \<or> dlt d (dzero False) then Some None
          else do {
            u \<leftarrow> dtrunc d;
            (if 2 ^ 64 \<le> u then None
             else Some (if deq (dbl_of_int u) d \<and> u \<le> high then Some u else None))
          }
      | _ \<Rightarrow> Some None)"

text \<open>The codes of integers: their size, whether they are signed, and the name in messages.\<close>

definition int_code :: "byte \<Rightarrow> (nat \<times> bool \<times> string) option" where
  "int_code c =
     map_of [(98, (1, True, '''b' expects int8.'')), (66, (1, False, '''B' expects uint8.'')),
             (104, (2, True, '''h' expects int16.'')), (72, (2, False, '''H' expects uint16.'')),
             (105, (4, True, '''i' expects int32.'')), (73, (4, False, '''I' expects uint32.'')),
             (113, (8, True, '''q' expects int64.'')), (81, (8, False, '''Q' expects uint64.''))] c"

definition pack_error :: "bytes \<Rightarrow> bytes" where
  "pack_error msg = bytes_of ''struct.pack: '' @ msg"

definition unsupported :: "byte \<Rightarrow> bytes" where
  "unsupported c = bytes_of ''unsupported format '' @ (if c = 0 then [39] else [39, c, 39, 46])"

definition pack_value :: "byte \<Rightarrow> bool \<Rightarrow> val \<Rightarrow> (bytes + bytes) option" where
  "pack_value c little v =
     (case int_code c of
        Some (n, is_signed, msg) \<Rightarrow> do {
          r \<leftarrow> (if is_signed then parse_int_arg v (- (2 ^ (8 * n - 1))) (2 ^ (8 * n - 1) - 1)
               else parse_uint_arg v (2 ^ (8 * n) - 1));
          Some (case r of
                  None \<Rightarrow> Inl (pack_error (bytes_of msg))
                | Some i \<Rightarrow> Inr (write_int (nat (i mod 2 ^ (8 * n))) n little))
        }
      | None \<Rightarrow>
          Some (if c = 102 then
                  (case v of VNumber d \<Rightarrow> Inr (write_int (float_bits d) 4 little)
                   | _ \<Rightarrow> Inl (pack_error (bytes_of '''f' expects number.'')))
                else if c = 100 then
                  (case v of VNumber d \<Rightarrow> Inr (write_int (double_bits d) 8 little)
                   | _ \<Rightarrow> Inl (pack_error (bytes_of '''d' expects number.'')))
                else Inl (pack_error (unsupported c))))"

text \<open>\<open>count\<close> values from argument \<open>i\<close> on: their bytes and the index behind them.\<close>

fun pack_values :: "nat \<Rightarrow> byte \<Rightarrow> bool \<Rightarrow> nat \<Rightarrow> nat \<Rightarrow> nat \<Rightarrow> vm \<Rightarrow> (bytes + bytes \<times> nat) option" where
  "pack_values 0 c little i argc base vm = Some (Inr ([], i))"
| "pack_values (Suc n) c little i argc base vm =
     (if argc \<le> i then Some (Inl (pack_error (bytes_of ''not enough arguments.'')))
      else do {
        v \<leftarrow> arg base i vm;
        r \<leftarrow> pack_value c little v;
        (case r of
           Inl msg \<Rightarrow> Some (Inl msg)
         | Inr bs \<Rightarrow> map_option (map_sum id (map_prod ((@) bs) id)) (pack_values n c little (i + 1) argc base vm))
      })"

definition pack_text :: "nat \<Rightarrow> nat \<Rightarrow> nat \<Rightarrow> nat \<Rightarrow> vm \<Rightarrow> (bytes + bytes \<times> nat) option" where
  "pack_text count i argc base vm =
     (let msg = (\<lambda>a b. pack_error (bytes_of a @ [39] @ dec_int (int count) @ bytes_of b)) in
      if argc \<le> i then Some (Inl (msg ''missing argument for '' ''s'.''))
      else do {
        v \<leftarrow> arg base i vm;
        k \<leftarrow> type_of (vheap vm) v;
        (if k \<noteq> TString then Some (Inl (msg [] ''s' expects string argument.''))
         else do {
           s \<leftarrow> arg_string base i vm;
           Some (Inr (take count s @ replicate (count - length s) 0, i + 1))
         })
      })"

function pack_tokens :: "bytes \<Rightarrow> bool \<Rightarrow> nat \<Rightarrow> nat \<Rightarrow> nat \<Rightarrow> vm \<Rightarrow> (bytes + bytes \<times> nat) option" where
  "pack_tokens cs little i argc base vm =
     (case next_token cs of
        No_token \<Rightarrow> Some (Inr ([], i))
      | Bad_token msg \<Rightarrow> Some (Inl (pack_error (bytes_of msg)))
      | Token count c rest \<Rightarrow> do {
          r \<leftarrow> (if c = 120 then Some (Inr (replicate count 0, i))
               else if c = 115 then pack_text count i argc base vm
               else pack_values count c little i argc base vm);
          (case r of
             Inl msg \<Rightarrow> Some (Inl msg)
           | Inr (bs, i) \<Rightarrow>
               map_option (map_sum id (map_prod ((@) bs) id)) (pack_tokens rest little i argc base vm))
        })"
  by pat_completeness auto
termination
  by (relation "measure (\<lambda>(cs, _). length cs)") (auto dest: next_token_shorter)

declare pack_tokens.simps [simp del]

definition struct_pack :: native_body where
  "struct_pack = checked_args [Argc_Ge 1, Is TString 0] (\<lambda>argc base vm.
     do {
       f \<leftarrow> arg_string base 0 vm;
       let (little, cs) = byte_order_of f;
       r \<leftarrow> pack_tokens cs little 1 argc base vm;
       (case r of
          Inl msg \<Rightarrow> fail_bytes msg vm
        | Inr (bs, i) \<Rightarrow>
            if i \<noteq> argc then fail ''struct.pack: too many arguments.'' vm else return_string bs vm)
     })"

section \<open>Unpacking\<close>

text \<open>Size of a code and the number its bits stand for.\<close>

definition code_size :: "byte \<Rightarrow> nat option" where
  "code_size c =
     (case int_code c of
        Some (n, _, _) \<Rightarrow> Some n
      | None \<Rightarrow> if c = 102 then Some 4 else if c = 100 then Some 8 else None)"

definition decode_bits :: "byte \<Rightarrow> nat \<Rightarrow> double" where
  "decode_bits c u =
     (case int_code c of
        Some (n, is_signed, _) \<Rightarrow>
          dbl_of_int (if is_signed \<and> 2 ^ (8 * n - 1) \<le> u then int u - 2 ^ (8 * n) else int u)
      | None \<Rightarrow> if c = 102 then bits_float u else bits_double u)"

definition short_buffer :: bytes where
  "short_buffer = bytes_of ''struct.unpack: buffer too short.''"

text \<open>\<open>count\<close> values from offset \<open>at\<close> on, stored from index \<open>i\<close> on: the offset and index behind them.\<close>

fun unpack_values ::
  "nat \<Rightarrow> byte \<Rightarrow> bool \<Rightarrow> bytes \<Rightarrow> nat \<Rightarrow> int \<Rightarrow> addr \<Rightarrow> vm \<Rightarrow> ((bytes + nat \<times> int) \<times> vm) option" where
  "unpack_values 0 c little bs pos i a vm = Some (Inr (pos, i), vm)"
| "unpack_values (Suc n) c little bs pos i a vm =
     (case code_size c of
        None \<Rightarrow> Some (Inl (bytes_of ''struct.unpack: '' @ unsupported c), vm)
      | Some k \<Rightarrow>
          if length bs < pos + k then Some (Inl short_buffer, vm)
          else do {
            let d = decode_bits c (read_uint (take k (drop pos bs)) little);
            (_, vm) \<leftarrow> heap_set_array a i (VNumber d) vm;
            unpack_values n c little bs (pos + k) (i + 1) a vm
          })"

definition unpack_text :: "nat \<Rightarrow> bytes \<Rightarrow> nat \<Rightarrow> int \<Rightarrow> addr \<Rightarrow> vm \<Rightarrow> ((bytes + nat \<times> int) \<times> vm) option" where
  "unpack_text count bs pos i a vm =
     (if length bs < pos + count then Some (Inl short_buffer, vm)
      else
        let (v, vm) = string_val (take count (drop pos bs)) vm in
        do { (_, vm) \<leftarrow> heap_set_array a i v vm; Some (Inr (pos + count, i + 1), vm) })"

function unpack_tokens ::
  "bytes \<Rightarrow> bool \<Rightarrow> bytes \<Rightarrow> nat \<Rightarrow> int \<Rightarrow> addr \<Rightarrow> vm \<Rightarrow> (bytes option \<times> vm) option" where
  "unpack_tokens cs little bs pos i a vm =
     (case next_token cs of
        No_token \<Rightarrow> Some (None, vm)
      | Bad_token msg \<Rightarrow> Some (Some (bytes_of ''struct.unpack: '' @ bytes_of msg), vm)
      | Token count c rest \<Rightarrow> do {
          (r, vm) \<leftarrow> (if c = 120 then
                        Some (if length bs < pos + count then Inl short_buffer else Inr (pos + count, i), vm)
                      else if c = 115 then unpack_text count bs pos i a vm
                      else unpack_values count c little bs pos i a vm);
          (case r of
             Inl msg \<Rightarrow> Some (Some msg, vm)
           | Inr (pos, i) \<Rightarrow> unpack_tokens rest little bs pos i a vm)
        })"
  by pat_completeness auto
termination
  by (relation "measure (\<lambda>(cs, _). length cs)") (auto dest: next_token_shorter)

declare unpack_tokens.simps [simp del]

definition struct_unpack :: native_body where
  "struct_unpack = checked_args [Argc_Ge 2] (\<lambda>argc base vm.
     if 3 < argc then
       fail_bytes (bytes_of ''Expected at most 3 arguments but got '' @ dec_int (int argc) @ bytes_of ''.'') vm
     else
       checked_args ([Is TString 0, Is TString 1] @ (if argc = 3 then [Is TNumber 2] else [])) (\<lambda>argc base vm.
         do {
           f \<leftarrow> arg_string base 0 vm;
           bs \<leftarrow> arg_string base 1 vm;
           offset \<leftarrow> (if argc = 3 then arg_int base 2 vm else Some 1);
           (if offset < 1 then fail ''struct.unpack: offset must be >= 1.'' vm
            else do {
              let (little, cs) = byte_order_of f;
              let (a, vm) = alloc new_table vm;
              vm \<leftarrow> push (VObj a) vm;
              (r, vm) \<leftarrow> unpack_tokens cs little bs (nat (offset - 1)) 1 a vm;
              vm \<leftarrow> pop_n 1 vm;
              (case r of Some msg \<Rightarrow> fail_bytes msg vm | None \<Rightarrow> return_val (VObj a) vm)
            })
         }) argc base vm)"

definition register_struct :: "vm \<Rightarrow> vm option" where
  "register_struct vm =
     do { vm \<leftarrow> register_module (Some ''struct'') [(''pack'', 1450), (''unpack'', 1451)] vm; pop_n 1 vm }"

end
