(* ===== verification/Lib_Url.thy ===== *)
theory Lib_Url
  imports Lib Demo
begin

text \<open>
  The \<open>url\<close> module (\<open>src/src/lib/url.c\<close>): percent encoding and the parts of a URL. A pointer into
  the text is the rest of the text behind it.
\<close>

section \<open>Percent encoding\<close>

definition is_hex :: "byte \<Rightarrow> bool" where
  "is_hex c \<longleftrightarrow> (48 \<le> c \<and> c \<le> 57) \<or> (97 \<le> c \<and> c \<le> 102) \<or> (65 \<le> c \<and> c \<le> 70)"

definition hex_to_int :: "byte \<Rightarrow> int" where
  "hex_to_int c =
     (if 48 \<le> c \<and> c \<le> 57 then uint c - 48
      else if 97 \<le> c \<and> c \<le> 102 then 10 + (uint c - 97)
      else if 65 \<le> c \<and> c \<le> 70 then 10 + (uint c - 65)
      else - 1)"

definition is_scheme_char :: "byte \<Rightarrow> bool" where
  "is_scheme_char c \<longleftrightarrow> c_alnum c \<or> c = 43 \<or> c = 45 \<or> c = 46"

definition is_unreserved :: "byte \<Rightarrow> bool" where
  "is_unreserved c \<longleftrightarrow> c_alnum c \<or> c = 45 \<or> c = 46 \<or> c = 95 \<or> c = 126"

fun decode_bytes :: "bytes \<Rightarrow> bytes" where
  "decode_bytes (c # h # l # cs) =
     (if c = 37 \<and> is_hex h \<and> is_hex l
      then (word_of_int (hex_to_int h) * 16 OR word_of_int (hex_to_int l)) # decode_bytes cs
      else c # decode_bytes (h # l # cs))"
| "decode_bytes cs = cs"

definition HEX :: bytes where
  "HEX = bytes_of ''0123456789ABCDEF''"

fun encode_bytes :: "bytes \<Rightarrow> bytes" where
  "encode_bytes [] = []"
| "encode_bytes (c # cs) =
     (if is_unreserved c then c # encode_bytes cs
      else 37 # HEX ! unat (drop_bit 4 c AND 15) # HEX ! unat (c AND 15) # encode_bytes cs)"

definition url_decode :: native_body where
  "url_decode = checked_args [Argc_Eq 1, Is TString 0]
     (\<lambda>_ base vm. do { input \<leftarrow> arg_string base 0 vm; return_string (decode_bytes input) vm })"

definition url_encode :: native_body where
  "url_encode = checked_args [Argc_Eq 1, Is TString 0]
     (\<lambda>_ base vm. do { input \<leftarrow> arg_string base 0 vm; return_string (encode_bytes input) vm })"

section \<open>Parts of a URL\<close>

definition table_set_string :: "addr \<Rightarrow> string \<Rightarrow> bytes \<Rightarrow> vm \<Rightarrow> vm option" where
  "table_set_string a key s vm =
     (let (k, vm) = alloc (\<lambda>h. copy_string h (bytes_of key)) vm in
      do {
        vm \<leftarrow> push (VObj k) vm;
        let (v, vm) = string_val s vm;
        vm \<leftarrow> push v vm;
        vm \<leftarrow> heap_set a k v vm;
        pop_n 2 vm
      })"

definition table_set_number :: "addr \<Rightarrow> string \<Rightarrow> double \<Rightarrow> vm \<Rightarrow> vm option" where
  "table_set_number a key d vm =
     (let (k, vm) = alloc (\<lambda>h. copy_string h (bytes_of key)) vm in
      do { vm \<leftarrow> push (VObj k) vm; vm \<leftarrow> heap_set a k (VNumber d) vm; pop_n 1 vm })"

text \<open>The scheme before a colon, and what follows it; without a scheme the whole text.\<close>

definition split_scheme :: "bytes \<Rightarrow> bytes option \<times> bytes" where
  "split_scheme src =
     (case src of
        [] \<Rightarrow> (None, src)
      | c # cs \<Rightarrow>
          if c_alpha c then
            (case dropWhile is_scheme_char cs of
               [] \<Rightarrow> (None, src)
             | d # rest \<Rightarrow> if d = 58 then (Some (c # takeWhile is_scheme_char cs), rest) else (None, src))
          else (None, src))"

text \<open>The text before and behind the last \<open>c\<close>.\<close>

definition split_last :: "byte \<Rightarrow> bytes \<Rightarrow> (bytes \<times> bytes) option" where
  "split_last c s =
     (if c \<in> set s then
        let r = rev s
        in Some (rev (tl (dropWhile (\<lambda>b. b \<noteq> c) r)), rev (takeWhile (\<lambda>b. b \<noteq> c) r))
      else None)"

text \<open>
  The value of the digits before the first other byte, in \<open>int\<close> arithmetic: \<open>None\<close> when it
  overflows. A port is the value if the text is not empty and has only digits.
\<close>

fun port_digits :: "int \<Rightarrow> bytes \<Rightarrow> int option" where
  "port_digits v [] = Some v"
| "port_digits v (c # cs) =
     (if \<not> c_digit c then Some v
      else if v * 10 + (uint c - 48) < 2 ^ 31 then port_digits (v * 10 + (uint c - 48)) cs
      else None)"

definition parse_port :: "bytes \<Rightarrow> int option option" where
  "parse_port s =
     do { v \<leftarrow> port_digits 0 s; Some (if s \<noteq> [] \<and> list_all c_digit s then Some v else None) }"

text \<open>Host and port of an authority without its user part.\<close>

definition host_port :: "bytes \<Rightarrow> (bytes \<times> int option) option" where
  "host_port s =
     (case s of
        [] \<Rightarrow> Some ([], None)
      | c # cs \<Rightarrow>
          if c = 91 then
            (case dropWhile (\<lambda>b. b \<noteq> 93) cs of
               [] \<Rightarrow> Some (s, None)
             | _ # behind \<Rightarrow> do {
                 port \<leftarrow> (case behind of [] \<Rightarrow> Some None | d # ds \<Rightarrow> if d = 58 then parse_port ds else Some None);
                 Some (takeWhile (\<lambda>b. b \<noteq> 93) cs, port)
               })
          else
            (case split_last 58 s of
               None \<Rightarrow> Some (s, None)
             | Some (host, p) \<Rightarrow> do { port \<leftarrow> parse_port p; Some (host, port) }))"

definition authority_end :: "byte \<Rightarrow> bool" where
  "authority_end c \<longleftrightarrow> c = 47 \<or> c = 63 \<or> c = 35"

definition split_authority :: "bytes \<Rightarrow> bytes option \<times> bytes" where
  "split_authority p =
     (case p of
        c # d # cs \<Rightarrow>
          if c = 47 \<and> d = 47 then (Some (takeWhile (\<lambda>b. \<not> authority_end b) cs), dropWhile (\<lambda>b. \<not> authority_end b) cs)
          else (None, p)
      | _ \<Rightarrow> (None, p))"

text \<open>Path, query and fragment of the rest; the query and fragment are empty where there is none.\<close>

definition split_path :: "bytes \<Rightarrow> bytes \<times> bytes \<times> bytes" where
  "split_path p =
     (let path = takeWhile (\<lambda>b. b \<noteq> 63 \<and> b \<noteq> 35) p;
          rest = dropWhile (\<lambda>b. b \<noteq> 63 \<and> b \<noteq> 35) p;
          query = (case rest of [] \<Rightarrow> [] | c # cs \<Rightarrow> if c = 63 then takeWhile (\<lambda>b. b \<noteq> 35) cs else []);
          frag = (case dropWhile (\<lambda>b. b \<noteq> 35) rest of [] \<Rightarrow> [] | _ # cs \<Rightarrow> cs)
      in (path, query, frag))"

text \<open>The port of the scheme in the table that is being filled.\<close>

definition default_port :: "addr \<Rightarrow> vm \<Rightarrow> vm option" where
  "default_port a vm =
     (let (k, vm) = alloc (\<lambda>h. copy_string h (bytes_of ''scheme'')) vm in
      do {
        v \<leftarrow> heap_get a k vm;
        (case v of
           Some (VObj b) \<Rightarrow>
             (case string_at (vheap vm) b of
                Some s \<Rightarrow>
                  if s = bytes_of ''http'' then table_set_number a ''port'' (dbl_of_int 80) vm
                  else if s = bytes_of ''https'' then table_set_number a ''port'' (dbl_of_int 443) vm
                  else Some vm
              | None \<Rightarrow> Some vm)
         | _ \<Rightarrow> Some vm)
      })"

definition set_authority :: "addr \<Rightarrow> bytes \<Rightarrow> vm \<Rightarrow> vm option" where
  "set_authority a auth vm =
     (if auth = [] then Some vm
      else
        let (userinfo, hp) = (case split_last 64 auth of None \<Rightarrow> (None, auth) | Some (u, h) \<Rightarrow> (Some u, h)) in
        do {
          vm \<leftarrow> (case userinfo of None \<Rightarrow> Some vm | Some u \<Rightarrow> table_set_string a ''userinfo'' u vm);
          (host, port) \<leftarrow> host_port hp;
          vm \<leftarrow> table_set_string a ''host'' host vm;
          (case port of
             Some n \<Rightarrow> table_set_number a ''port'' (dbl_of_int n) vm
           | None \<Rightarrow> default_port a vm)
        })"

definition url_parse :: native_body where
  "url_parse = checked_args [Argc_Eq 1, Is TString 0] (\<lambda>_ base vm.
     do {
       src \<leftarrow> arg_string base 0 vm;
       let (a, vm) = alloc new_table vm;
       vm \<leftarrow> push (VObj a) vm;
       let (scheme, p) = split_scheme src;
       vm \<leftarrow> (case scheme of None \<Rightarrow> Some vm | Some s \<Rightarrow> table_set_string a ''scheme'' (map c_tolower s) vm);
       let (authority, p) = split_authority p;
       vm \<leftarrow> (case authority of None \<Rightarrow> Some vm | Some s \<Rightarrow> set_authority a s vm);
       let (path, query, frag) = split_path p;
       vm \<leftarrow> table_set_string a ''path'' (if path \<noteq> [] then path else if authority \<noteq> None then [47] else []) vm;
       vm \<leftarrow> (if query \<noteq> [] then table_set_string a ''query'' query vm else Some vm);
       vm \<leftarrow> (if frag \<noteq> [] then table_set_string a ''fragment'' frag vm else Some vm);
       Some (True, vm)
     })"

section \<open>Encoding and decoding\<close>

definition url_functions :: "(string \<times> nat) list" where
  "url_functions = [(''parse'', 1000), (''encode'', 1001), (''decode'', 1002)]"

definition register_url :: "vm \<Rightarrow> vm option" where
  "register_url vm = do { vm \<leftarrow> register_module (Some ''url'') url_functions vm; pop_n 1 vm }"

lemma hex_nibble:
  "\<forall>n\<in>set [0..<16]. is_hex (HEX ! n) \<and> word_of_int (hex_to_int (HEX ! n)) = (of_nat n :: byte)"
  by code_simp

lemma decode_one:
  "\<forall>n\<in>set [0..<256]. let c = (of_nat n :: byte); h = HEX ! unat (drop_bit 4 c AND 15); l = HEX ! unat (c AND 15) in
     is_hex h \<and> is_hex l \<and> word_of_int (hex_to_int h) * 16 OR word_of_int (hex_to_int l) = c"
  by code_simp

lemma decode_byte:
  "is_hex (HEX ! unat (drop_bit 4 c AND 15))" "is_hex (HEX ! unat (c AND 15))"
  "word_of_int (hex_to_int (HEX ! unat (drop_bit 4 c AND 15))) * 16 OR
     word_of_int (hex_to_int (HEX ! unat (c AND 15))) = (c :: byte)"
  using byte_all [OF decode_one, of c] by (simp_all add: Let_def)

lemma decode_other: "c \<noteq> 37 \<Longrightarrow> decode_bytes (c # cs) = c # decode_bytes cs"
  by (induction "c # cs" rule: decode_bytes.induct) auto

lemma decode_encode: "decode_bytes (encode_bytes cs) = cs"
proof (induction cs)
  case (Cons c cs)
  have "\<not> is_unreserved 37" by code_simp
  then show ?case using Cons decode_byte [of c] decode_other [of c "encode_bytes cs"] by auto
qed simp

text \<open>The bytes of an encoded text.\<close>

definition url_safe :: "byte \<Rightarrow> bool" where
  "url_safe c \<longleftrightarrow> is_unreserved c \<or> c = 37"

lemma hex_safe: "n < 16 \<Longrightarrow> url_safe (HEX ! n)"
proof -
  have "\<forall>n\<in>set [0..<16]. url_safe (HEX ! n)" by code_simp
  then show "n < 16 \<Longrightarrow> url_safe (HEX ! n)" by simp
qed

lemma unat_nibble: "unat (w AND 15 :: byte) < 16"
proof -
  have "w AND 15 \<le> 15" by (rule word_and_le1)
  then show ?thesis by (simp add: word_le_nat_alt)
qed

lemma encode_safe: "list_all url_safe (encode_bytes cs)"
  by (induction cs) (simp_all add: hex_safe unat_nibble, simp add: url_safe_def)

text \<open>
  C24. Percent encoding and decoding are inverse: what \<open>url.encode\<close> returns for a string contains only
  unreserved characters and percent signs, and \<open>url.decode\<close> returns the string for it, whatever bytes
  it has.
\<close>

theorem url_encode_decode:
  assumes "callable vm" "string_arg base 0 vm cs"
  shows "\<exists>e. returns_string vm e (url_encode 1 base vm) \<and> list_all url_safe e \<and>
    (\<forall>vm' base'. callable vm' \<longrightarrow> string_arg base' 0 vm' e \<longrightarrow> returns_string vm' cs (url_decode 1 base' vm'))"
proof (intro exI [of _ "encode_bytes cs"] conjI allI impI)
  show "returns_string vm (encode_bytes cs) (url_encode 1 base vm)"
    using return_string_returns [OF assms(1)] assms(2)
    by (simp add: url_encode_def one_string_arg [of _ _ cs] string_argD del: One_nat_def)
  show "list_all url_safe (encode_bytes cs)" by (rule encode_safe)
  fix vm' base' assume v: "callable vm'" "string_arg base' 0 vm' (encode_bytes cs)"
  show "returns_string vm' cs (url_decode 1 base' vm')"
    using return_string_returns [OF v(1), of cs] v(2) decode_encode [of cs]
    by (simp add: url_decode_def one_string_arg [of _ _ "encode_bytes cs"] string_argD del: One_nat_def)
qed

lemma demo_string_arg: "string_arg 0 0 (demo_vm g [VObj 4]) [120]"
  by (simp add: string_arg_def arg_def string_at_demo)

lemma demo_callable: "length vs < 256 \<Longrightarrow> callable (demo_vm g vs)"
  by (simp add: callable_def fresh_demo)

theorem url_encode_decode_witness:
  "\<exists>e. returns_string (demo_vm (demo_fn [] []) [VObj 4]) e (url_encode 1 0 (demo_vm (demo_fn [] []) [VObj 4])) \<and>
    list_all url_safe e"
  using url_encode_decode [OF demo_callable demo_string_arg, of "demo_fn [] []"] by auto

end
