(* ===== verification/Sort_Calls.thy ===== *)
theory Sort_Calls
  imports Sort_Facts
begin

text \<open>
  \<open>table.sort\<close> with a comparison function of the program: the insertion sort orders the table by
  any strict weak order, and what the native returns.
\<close>

section \<open>Insertion by a strict weak order\<close>

text \<open>No element is less than one in front of it; insertion from the end of a list.\<close>

definition in_order :: "('k \<Rightarrow> 'k \<Rightarrow> bool) \<Rightarrow> 'k list \<Rightarrow> bool" where
  "in_order lt xs \<longleftrightarrow> sorted_wrt (\<lambda>x y. \<not> lt y x) xs"

definition inserted :: "('k \<Rightarrow> 'k \<Rightarrow> bool) \<Rightarrow> 'k \<Rightarrow> 'k list \<Rightarrow> 'k list" where
  "inserted lt x xs = rev (dropWhile (lt x) (rev xs)) @ x # rev (takeWhile (lt x) (rev xs))"

definition insert_all :: "('k \<Rightarrow> 'k \<Rightarrow> bool) \<Rightarrow> 'k list \<Rightarrow> 'k list \<Rightarrow> 'k list" where
  "insert_all lt ys xs = fold (inserted lt) xs ys"

lemma mset_inserted: "mset (inserted lt x xs) = add_mset x (mset xs)"
proof -
  have "mset (inserted lt x xs) = add_mset x (mset (takeWhile (lt x) (rev xs) @ dropWhile (lt x) (rev xs)))"
    by (simp only: inserted_def mset_append mset_rev mset.simps union_mset_add_mset_right union_commute)
  then show ?thesis by simp
qed

locale weak_order =
  fixes ok :: "'k \<Rightarrow> bool" and lt :: "'k \<Rightarrow> 'k \<Rightarrow> bool"
  assumes asym: "ok x \<Longrightarrow> ok y \<Longrightarrow> lt x y \<Longrightarrow> \<not> lt y x"
    and not_less_trans: "ok x \<Longrightarrow> ok y \<Longrightarrow> ok z \<Longrightarrow> \<not> lt x y \<Longrightarrow> \<not> lt y z \<Longrightarrow> \<not> lt x z"
begin

lemma in_order_inserted:
  assumes "in_order lt xs" "\<forall>y\<in>set (x # xs). ok y"
  shows "in_order lt (inserted lt x xs)"
proof -
  define small large where sl: "small = dropWhile (lt x) (rev xs)" "large = takeWhile (lt x) (rev xs)"
  have "large @ small = rev xs" by (simp add: sl)
  then have xs: "rev small @ rev large = xs" by (metis rev_append rev_rev_ident)
  have o: "sorted_wrt (\<lambda>x y. \<not> lt y x) (rev small @ rev large)" using assms(1) unfolding xs in_order_def .
  have ok: "ok x" "y \<in> set small \<Longrightarrow> ok y" "y \<in> set large \<Longrightarrow> ok y" for y
    using assms(2) unfolding xs [symmetric] by auto
  have "\<not> lt x y" if y: "y \<in> set small" for y
  proof -
    obtain z zs where z: "small = z # zs" using y by (cases small) auto
    then have xz: "\<not> lt x z" unfolding sl by (simp add: dropWhile_eq_Cons_conv)
    have "y = z \<or> \<not> lt z y" using o y unfolding z by (auto simp: sorted_wrt_append)
    then show ?thesis using not_less_trans [of x z y] xz ok(1) ok(2) [of z] ok(2) [OF y] z by auto
  qed
  moreover have "\<not> lt y x" if y: "y \<in> set large" for y
  proof -
    have "lt x y" using y unfolding sl by (rule set_takeWhileD [THEN conjunct2])
    then show ?thesis using asym [of x y] ok(1) ok(3) [OF y] by blast
  qed
  ultimately show ?thesis using o unfolding in_order_def inserted_def sl [symmetric] by (auto simp: sorted_wrt_append)
qed

lemma insert_all_sorts:
  "in_order lt ys \<Longrightarrow> \<forall>y\<in>set (xs @ ys). ok y \<Longrightarrow>
   in_order lt (insert_all lt ys xs) \<and> mset (insert_all lt ys xs) = mset xs + mset ys"
proof (induction xs arbitrary: ys)
  case (Cons x xs)
  have "set (inserted lt x ys) = insert x (set ys)" by (metis mset_inserted set_mset_add_mset_insert set_mset_mset)
  then show ?case
    using Cons.IH [of "inserted lt x ys"] in_order_inserted [of ys x] Cons.prems mset_inserted by (auto simp: insert_all_def)
qed (simp add: insert_all_def)

end
sublocale key_order \<subseteq> by_sign: weak_order ok "\<lambda>x y. cmp x y < 0"
proof
  show "\<not> cmp y x < 0" if "ok x" "ok y" "cmp x y < 0" for x y using cmp_sym [of x y] that by auto
  show "\<not> cmp x z < 0" if "ok x" "ok y" "ok z" "\<not> cmp x y < 0" "\<not> cmp y z < 0" for x y z
    using cmp_trans [of z y x] cmp_sym [of x y] cmp_sym [of y z] cmp_sym [of z x] cmp_sym [of x z] that by force
qed

section \<open>Calling the comparison function\<close>

text \<open>The native function \<open>k\<close> compares its two arguments by \<open>lt\<close> and does nothing else.\<close>

definition compares_by :: "env \<Rightarrow> vm_loop \<Rightarrow> nat \<Rightarrow> (val \<Rightarrow> val \<Rightarrow> bool) \<Rightarrow> bool" where
  "compares_by env loop k lt \<longleftrightarrow> (\<forall>vm b x y. arg b 0 vm = Some x \<longrightarrow> arg b 1 vm = Some y \<longrightarrow>
     native_fn env k loop 2 b vm = return_val (VBool (lt x y)) vm)"

lemma call_less:
  assumes "compares_by env loop (nfun f) lt" "native_at (vheap vm) fa = Some f" "stack_is vm n [] 3"
  shows "\<exists>vm'. call_binary_less env loop (VObj fa) x y vm = Some (Inr (lt x y, vm')) \<and> stack_is vm' n [] 3 \<and>
    evolves {} vm vm' \<and> arg (n + 1) 0 vm' = Some x"
proof -
  obtain t where t: "cur vm = Some t" "stack_top t = n" "n + 3 \<le> stack_capacity t" "fresh (vheap vm)"
    using assms(3) by (auto simp: stack_is_def)
  let ?u = "push_list [VObj fa, x, y] t"
  let ?w = "?u\<lparr>stack_top := n\<rparr>"
  let ?w1 = "?w\<lparr>stack := (stack ?w)(n \<mapsto> VBool (lt x y)), stack_top := n + 1\<rparr>"
  let ?w2 = "?w1\<lparr>stack_top := n\<rparr>"
  have 1: "push_all [VObj fa, x, y] vm = Some (put_cur ?u vm)" by (rule push_all_eq [OF t(1)]) (use t in simp)
  have 2: "drop_n 3 (put_cur ?u vm) = Some (put_cur ?w vm)" using drop_n_eq [of "put_cur ?u vm" ?u 3] t by simp
  have f: "native_at (vheap (put_cur ?u vm)) fa = Some f"
    using assms(2) t(1) by (auto simp: at_iff obj_at_put_cur cur_Some_iff)
  have a: "arg (n + 1) 0 (put_cur ?w vm) = Some x" "arg (n + 1) 1 (put_cur ?w vm) = Some y"
    using t by (simp_all add: arg_def push_list_stack nth_Cons')
  have 3: "native_fn env (nfun f) loop 2 (n + 1) (put_cur ?w vm) = return_val (VBool (lt x y)) (put_cur ?w vm)"
    using assms(1) a unfolding compares_by_def by blast
  have 4: "push (VBool (lt x y)) (put_cur ?w vm) = Some (put_cur ?w1 vm)" using push_eq [of "put_cur ?w vm" ?w] t by simp
  have 5: "pop (put_cur ?w1 vm) = Some (VBool (lt x y), put_cur ?w2 vm)" using pop_eq [of "put_cur ?w1 vm" ?w1 n] t by simp
  have "type_of (vheap vm) (VObj fa) = Some TNative" using assms(2) by (auto simp: at_iff type_of_def obj_type_def)
  then have "call_binary_less env loop (VObj fa) x y vm = Some (Inr (lt x y, put_cur ?w2 vm))"
    using t(1,2) 1 2 f 3 4 5
    by (simp add: call_binary_less_def call_function_def as_obj_def return_val_def numeral_2_eq_2 numeral_3_eq_3)
  moreover have "stack_is (put_cur ?w2 vm) n [] 3" using t by (simp add: stack_is_def)
  moreover have "arg (n + 1) 0 (put_cur ?w2 vm) = Some x" using t by (simp add: arg_def push_list_stack)
  ultimately show ?thesis using evolves_put_cur [OF t(1)] by blast
qed

lemma evolves_native:
  assumes "evolves X vm vm'" "native_at (vheap vm) a = Some f"
  shows "native_at (vheap vm') a = Some f"
  using assms by (auto simp: evolves_def at_iff elim: same_butE)

lemma sink_calls:
  assumes "compares_by env loop (nfun f) lt" "native_at (vheap vm) fa = Some f" "stack_is vm n [] 3"
  shows "\<exists>vm'. sink (call_binary_less env loop (VObj fa)) key rys moved vm =
      Some (Inr (rev (dropWhile (lt key) rys) @ key # rev (takeWhile (lt key) rys) @ moved, vm')) \<and>
    stack_is vm' n [] 3 \<and> evolves {} vm vm' \<and> (rys \<noteq> [] \<longrightarrow> arg (n + 1) 0 vm' = Some key)"
  using assms(2,3)
proof (induction rys arbitrary: moved vm)
  case (Cons y rys)
  obtain vm1 where 1: "call_binary_less env loop (VObj fa) key y vm = Some (Inr (lt key y, vm1))" "stack_is vm1 n [] 3"
    "evolves {} vm vm1" "arg (n + 1) 0 vm1 = Some key"
    using call_less [OF assms(1) Cons.prems] by blast
  show ?case
  proof (cases "lt key y")
    case True
    obtain vm2 where 2: "sink (call_binary_less env loop (VObj fa)) key rys (y # moved) vm1 =
        Some (Inr (rev (dropWhile (lt key) rys) @ key # rev (takeWhile (lt key) rys) @ y # moved, vm2))"
      "stack_is vm2 n [] 3" "evolves {} vm1 vm2" "rys \<noteq> [] \<longrightarrow> arg (n + 1) 0 vm2 = Some key"
      using Cons.IH [OF evolves_native [OF 1(3) Cons.prems(1)] 1(2), of "y # moved"] by blast
    moreover have "rys = [] \<Longrightarrow> vm2 = vm1" using 2(1) by simp
    ultimately show ?thesis using 1 True evolves_trans [OF 1(3) 2(3)] by auto
  qed (use 1 in simp)
qed simp

lemma insertion_sort_calls:
  assumes "compares_by env loop (nfun f) lt" "native_at (vheap vm) fa = Some f" "stack_is vm n [] 3" "ys \<noteq> []"
  shows "\<exists>vm'. insertion_sort (call_binary_less env loop (VObj fa)) ys xs vm =
      Some (Inr (insert_all lt ys xs, vm')) \<and> stack_is vm' n [] 3 \<and> evolves {} vm vm' \<and>
    (xs \<noteq> [] \<longrightarrow> arg (n + 1) 0 vm' = Some (last xs))"
  using assms(2-)
proof (induction xs arbitrary: ys vm)
  case Nil
  then show ?case by (simp add: insert_all_def)
next
  case (Cons x xs)
  obtain vm1 where 1: "sink (call_binary_less env loop (VObj fa)) x (rev ys) [] vm = Some (Inr (inserted lt x ys, vm1))"
    "stack_is vm1 n [] 3" "evolves {} vm vm1" "rev ys \<noteq> [] \<longrightarrow> arg (n + 1) 0 vm1 = Some x"
    using sink_calls [OF assms(1) Cons.prems(1,2), of x "rev ys" "[]"] by (auto simp: inserted_def)
  have "inserted lt x ys \<noteq> []" by (simp add: inserted_def)
  from Cons.IH [OF evolves_native [OF 1(3) Cons.prems(1)] 1(2) this] obtain vm2
    where 2: "insertion_sort (call_binary_less env loop (VObj fa)) (inserted lt x ys) xs vm1 =
        Some (Inr (insert_all lt (inserted lt x ys) xs, vm2))"
      "stack_is vm2 n [] 3" "evolves {} vm1 vm2" "xs \<noteq> [] \<longrightarrow> arg (n + 1) 0 vm2 = Some (last xs)"
    by blast
  moreover have "xs = [] \<Longrightarrow> vm2 = vm1" using 2(1) by simp
  ultimately show ?case using 1 Cons.prems(3) evolves_trans [OF 1(3) 2(3)] by (auto simp: insert_all_def)
qed

section \<open>What the sort leaves and returns\<close>

lemma arg_put_table:
  assumes "put_table a t vm = Some vm'" "table_at (vheap vm) a = Some ot"
  shows "arg b i vm' = arg b i vm"
proof -
  have v: "vm' = vm\<lparr>vheap := put_obj (vheap vm) a (OTable (ot\<lparr>otable := t\<rparr>))\<rparr>"
    using assms by (simp add: put_table_def)
  have "cur vm' = cur vm" using assms(2) unfolding v
    by (cases "current_thread vm") (auto simp: cur_def thread_at_def at_iff)
  then show ?thesis by (simp add: arg_def)
qed

text \<open>
  C35. \<open>table.sort\<close> with a native comparison function sorts, but does not return the table. For a
  comparison that is a strict weak order on the elements, the table gets the same elements, none less
  than one in front of it; but calling the comparison overwrites the slot of the first argument, and
  the native returns the last element of the unsorted array in place of the table.
\<close>
theorem comparator_sort_returns_element:
  assumes "stack_is vm n [] 3" "arg (n + 1) 0 vm = Some (VObj a)" "arg (n + 1) 1 vm = Some (VObj fa)"
    and "table_at (vheap vm) a = Some ot" "native_at (vheap vm) fa = Some f" "compares_by env loop (nfun f) lt"
    and "weak_order (\<lambda>v. v \<in> set (array_elements (otable ot))) lt" "2 \<le> length (array_elements (otable ot))"
  shows "\<exists>vm' t. table_sort_fn env loop 2 (n + 1) vm = Some (True, vm') \<and>
    stack_is vm' n [last (array_elements (otable ot))] 2 \<and> evolves {a} vm vm' \<and>
    table_at (vheap vm') a = Some (ot\<lparr>otable := t\<rparr>) \<and> mset (array_elements t) = mset (array_elements (otable ot)) \<and>
    in_order lt (array_elements t) \<and> entries t = entries (otable ot)"
proof -
  let ?xs = "array_elements (otable ot)"
  let ?ys = "insert_all lt (take 1 ?xs) (drop 1 ?xs)"
  obtain x y xs where xs: "?xs = x # y # xs" using assms(8) by (cases ?xs; cases "tl ?xs") auto
  have ys: "in_order lt ?ys" "mset ?ys = mset ?xs"
    using weak_order.insert_all_sorts [OF assms(7), of "take 1 ?xs" "drop 1 ?xs"] unfolding xs by (simp_all add: in_order_def)
  note t = sorted_table [OF ys(2)]
  obtain vm1 where 1: "insertion_sort (call_binary_less env loop (VObj fa)) (take 1 ?xs) (drop 1 ?xs) vm = Some (Inr (?ys, vm1))"
    "stack_is vm1 n [] 3" "evolves {} vm vm1" "arg (n + 1) 0 vm1 = Some (last ?xs)"
    using insertion_sort_calls [OF assms(6,5,1), of "take 1 ?xs" "drop 1 ?xs"] unfolding xs by auto
  have t1: "table_at (vheap vm1) a = Some ot" by (rule evolves_table [OF 1(3) assms(4)]) simp
  obtain vm2 where 2: "put_table a (fill_array 1 ?ys (otable ot)) vm1 = Some vm2" "stack_is vm2 n [] 3" "evolves {a} vm1 vm2"
    "table_at (vheap vm2) a = Some (ot\<lparr>otable := fill_array 1 ?ys (otable ot)\<rparr>)"
    using put_table_is [OF t1 1(2), of "{a}"] by blast
  have r: "arg (n + 1) 0 vm2 = Some (last ?xs)" using arg_put_table [OF 2(1) t1] 1(4) by simp
  obtain vm3 where 3: "push (last ?xs) vm2 = Some vm3" "stack_is vm3 n [last ?xs] 2" "evolves {} vm2 vm3"
    using push_is [of vm2 n "[]" 2 "last ?xs" "{}"] 2(2) by (auto simp: numeral_3_eq_3 numeral_2_eq_2)
  have t3: "table_at (vheap vm3) a = Some (ot\<lparr>otable := fill_array 1 ?ys (otable ot)\<rparr>)"
    by (rule evolves_table [OF 3(3) 2(4)]) simp
  have k: "type_of (vheap vm) (VObj fa) = Some TNative" using assms(5) by (auto simp: at_iff type_of_def obj_type_def)
  have run: "table_sort_fn env loop 2 (n + 1) vm = Some (True, vm3)"
    using assms(2-4,8) table_at_type [OF assms(4)] k 1(1) t1 2(1) r 3(1)
    by (simp add: table_sort_fn_def checked_args_def arg_table_def arg_obj_def as_obj_def return_val_def is_nil_def)
  have "evolves {a} vm vm3"
    using evolves_trans [OF evolves_mono [OF 1(3)] 2(3)] evolves_trans evolves_mono [OF 3(3), of "{a}"] by blast
  then show ?thesis using run 3(2) t3 t ys
    by (intro exI [of _ vm3] exI [of _ "fill_array 1 ?ys (otable ot)"]) simp
qed

text \<open>The table \<open>{3, 1, 2}\<close> sorted with a native comparison of numbers: the call returns 2.\<close>

definition number_less :: "val \<Rightarrow> val \<Rightarrow> bool" where
  "number_less x y \<longleftrightarrow> compare_values empty_heap x y < 0"

definition less_env :: env where
  "less_env = demo_env\<lparr>native_fn := \<lambda>k loop argc b vm.
     do { x \<leftarrow> arg b 0 vm; y \<leftarrow> arg b 1 vm; return_val (VBool (number_less x y)) vm }\<rparr>"

lemma number_less_order:
  assumes "\<forall>v\<in>X. sortable_number v"
  shows "weak_order (\<lambda>v. v \<in> X) number_less"
  unfolding number_less_def
proof
  show "\<not> compare_values empty_heap y x < 0" if "x \<in> X" "y \<in> X" "compare_values empty_heap x y < 0" for x y
    using nv.by_sign.asym that assms by blast
  show "\<not> compare_values empty_heap x z < 0"
    if "x \<in> X" "y \<in> X" "z \<in> X" "\<not> compare_values empty_heap x y < 0" "\<not> compare_values empty_heap y z < 0" for x y z
    using nv.by_sign.not_less_trans [of x y z empty_heap] that assms by blast
qed

definition sort_native :: native where
  "sort_native = \<lparr>nfun = 1, nname = None, nis_self = False, nfast = 0\<rparr>"

lemma sort_demo_native:
  obtains vm fa where "stack_is vm 1 [] 3" "arg 2 0 vm = Some (VObj 5)" "arg 2 1 vm = Some (VObj fa)"
    "table_at (vheap vm) 5 = Some \<lparr>otable = fill_array 1 vs init_table, ometatable = None, ois_module = False\<rparr>"
    "native_at (vheap vm) fa = Some sort_native"
proof -
  let ?ot = "\<lparr>otable = fill_array 1 vs init_table, ometatable = None, ois_module = False\<rparr>"
  obtain fa vm1 where a: "alloc (\<lambda>h. new_native h 1 None) (sort_demo vs) = (fa, vm1)" by fastforce
  have s: "stack_is (sort_demo vs) 1 [] 3" by (rule sort_demo_facts(1)) simp
  have "stack_is vm1 1 [] 3 \<and> evolves {} (sort_demo vs) vm1 \<and> obj_at (vheap (sort_demo vs)) fa = None \<and>
      obj_at (vheap vm1) fa = Some (ONative sort_native)"
  proof (rule alloc_is [OF a s])
    fix b h' assume n: "new_native (vheap (sort_demo vs)) 1 None = (b, h')"
    show "b = hnext (vheap (sort_demo vs)) \<and> fresh h' \<and>
        (\<forall>x. obj_at h' x = (if x = b then Some (ONative sort_native) else obj_at (vheap (sort_demo vs)) x))"
      using obj_at_allocate [OF n [unfolded new_native_def]] fresh_allocate [of "vheap (sort_demo vs)"] n s
      by (simp add: stack_is_def new_native_def sort_native_def) (metis snd_conv)
  qed
  then have 1: "stack_is vm1 1 [] 3" "evolves {} (sort_demo vs) vm1" "native_at (vheap vm1) fa = Some sort_native"
    by (auto simp: at_iff)
  have o: "table_at (vheap vm1) 5 = Some ?ot" by (rule evolves_table [OF 1(2) sort_demo_facts(3) [of 0]]) simp_all
  obtain t where t: "cur vm1 = Some t" "stack_top t = 1" "4 \<le> stack_capacity t" "fresh (vheap vm1)"
    using 1(1) by (auto simp: stack_is_def)
  let ?vm = "put_cur ((push_list [VNil, VObj 5, VObj fa] t)\<lparr>stack_top := 1\<rparr>) vm1"
  have "stack_is ?vm 1 [] 3" "arg 2 0 ?vm = Some (VObj 5)" "arg 2 1 ?vm = Some (VObj fa)"
    using t by (simp_all add: stack_is_def arg_def push_list_stack nth_Cons')
  moreover have "evolves {} vm1 ?vm" by (rule evolves_put_cur [OF t(1)])
  ultimately show ?thesis
    using that [of ?vm fa] evolves_table [of "{}" vm1 ?vm, OF _ o] evolves_native [of "{}" vm1 ?vm, OF _ 1(3)] by simp
qed

theorem comparator_sort_returns_element_witness:
  "\<exists>vm vm' t. table_sort_fn less_env (\<lambda>_ _. None) 2 2 vm = Some (True, vm') \<and> arg 2 0 vm = Some (VObj 5) \<and>
    stack_is vm' 1 [VNumber (dbl_of_int 2)] 2 \<and>
    table_at (vheap vm') 5 = Some \<lparr>otable = t, ometatable = None, ois_module = False\<rparr> \<and>
    mset (array_elements t) = mset (map (VNumber \<circ> dbl_of_int) [1, 2, 3]) \<and> in_order number_less (array_elements t)"
proof -
  let ?vs = "map (VNumber \<circ> dbl_of_int) [3, 1, 2]"
  have vs: "array_elements (fill_array 1 ?vs init_table) = ?vs" by code_simp
  have "wf_double (dbl_of_int 1) \<and> dbl_of_int 1 \<noteq> NaN" "wf_double (dbl_of_int 2) \<and> dbl_of_int 2 \<noteq> NaN"
    "wf_double (dbl_of_int 3) \<and> dbl_of_int 3 \<noteq> NaN" by code_simp+
  then have w: "weak_order (\<lambda>v. v \<in> set ?vs) number_less"
    by (intro number_less_order) (simp add: sortable_number_def)
  have c: "compares_by less_env (\<lambda>_ _. None) (nfun sort_native) number_less"
    by (simp add: compares_by_def less_env_def)
  obtain vm fa where 1: "stack_is vm 1 [] 3" "arg 2 0 vm = Some (VObj 5)" "arg 2 1 vm = Some (VObj fa)"
    "table_at (vheap vm) 5 = Some \<lparr>otable = fill_array 1 ?vs init_table, ometatable = None, ois_module = False\<rparr>"
    "native_at (vheap vm) fa = Some sort_native"
    by (rule sort_demo_native)
  let ?ot = "\<lparr>otable = fill_array 1 ?vs init_table, ometatable = None, ois_module = False\<rparr>"
  have e: "array_elements (otable ?ot) = ?vs" using vs by simp
  have a: "arg (1 + 1) 0 vm = Some (VObj 5)" "arg (1 + 1) 1 vm = Some (VObj fa)"
    unfolding one_add_one by (rule 1(2), rule 1(3))
  obtain vm' t where 2: "table_sort_fn less_env (\<lambda>_ _. None) 2 (1 + 1) vm = Some (True, vm')" "stack_is vm' 1 [last ?vs] 2"
    "table_at (vheap vm') 5 = Some (?ot\<lparr>otable := t\<rparr>)" "mset (array_elements t) = mset ?vs"
    "in_order number_less (array_elements t)"
    using comparator_sort_returns_element [OF 1(1) a 1(4,5) c, unfolded e, OF w] by auto
  show ?thesis
    by (rule exI [of _ vm], rule exI [of _ vm'], rule exI [of _ t])
      (use 1(2) 2 [unfolded one_add_one] in \<open>simp add: add_mset_commute\<close>)
qed

end
