(* ===== verification/Variable_Facts.thy ===== *)
theory Variable_Facts
  imports Demo Table_Facts
begin

text \<open>
  Properties of the instructions for variables: reading a global through its inline cache, and
  upvalues that share a slot of the stack and keep its value when the slot is left.
\<close>

section \<open>The inline cache of a global\<close>

text \<open>
  What a filled cache entry promises for the globals at hand. The entry names an object, so the
  promise is about the name at that address.
\<close>

definition global_cache_ok :: "vm \<Rightarrow> fn \<Rightarrow> nat \<Rightarrow> bool" where
  "global_cache_ok vm g off \<longleftrightarrow>
     (\<forall>name k. global_ic_hit (fchunk g) off name (version (globals vm)) \<longrightarrow>
        key_at (vheap vm) name = Some k \<longrightarrow>
        (\<exists>v. at (gic_values (fchunk g)) off = Some v \<and> table_get (globals vm) k = Some (Some v)))"

lemma fill_hit:
  assumes "wf_chunk c" "global_ic_hit (global_ic_fill c off name ver v) off name' ver"
  shows "name' = name \<and> at (gic_values (global_ic_fill c off name ver v)) off = Some v"
proof -
  have "off < ccapacity c"
    using assms(2) by (auto simp: global_ic_hit_def global_ic_fill_def split: if_splits)
  then show ?thesis
    using assms by (auto simp: global_ic_hit_def global_ic_fill_def wf_chunk_def at_def split: if_splits)
qed

lemma table_get_strings:
  "table_ok S t \<Longrightarrow> key_ok S k \<Longrightarrow> table_get t k = Some (table_map t (kchars k))"
  by (rule table_get_correct)



end
